(* ===== verification/Prelude.thy ===== *)
theory Prelude
  imports Main "HOL-Library.Word"
begin

text \<open>
  What every component of the development shares.

  \<^item> Go's \<open>(T, error)\<close> results are values of \<open>'e + 'a\<close>; \<open>rbind\<close> is the
    early return \<open>if err != nil { return err }\<close>.
  \<^item> Go's fixed-width integers are words; \<open>int\<close> (64 bits on every platform the program is
    built for) is HOL \<open>int\<close> where it only ever holds the value of a \<open>uint32\<close>.
  \<^item> Go's \<open>string\<close> is an immutable sequence of bytes, which is what HOL's \<open>string\<close>
    (a list of 8-bit characters) is; \<open>bytes_of\<close> and \<open>string_of\<close> are the conversions
    \<open>[]byte(s)\<close> and \<open>string(b)\<close>.
  \<^item> A database table is the list of its rows. \<open>row_update\<close>, \<open>row_delete\<close> and
    \<open>row_count\<close> are SQL's \<open>UPDATE ... WHERE\<close>, \<open>DELETE ... WHERE\<close> and the number of rows
    that a statement affects.
\<close>

type_synonym u8 = "8 word"
type_synonym u32 = "32 word"
type_synonym u64 = "64 word"
type_synonym i32 = "32 word" \<comment> \<open>Go's int32: the same bits, read in two's complement by \<open>sint\<close>\<close>

named_theorems codec_simps \<open>decoding undoes encoding, one field at a time\<close>
named_theorems codec_inj \<open>equal encodings are encodings of equal values\<close>
named_theorems table_simps \<open>rows after a table operation\<close>

section \<open>Results\<close>

definition rbind :: "'e + 'a \<Rightarrow> ('a \<Rightarrow> 'e + 'b) \<Rightarrow> 'e + 'b" where
  "rbind m f = (case m of Inl e \<Rightarrow> Inl e | Inr x \<Rightarrow> f x)"

lemma rbind_simps [simp]:
  "rbind (Inl e) f = Inl e"
  "rbind (Inr x) f = f x"
  by (simp_all add: rbind_def)

lemma rbind_eq_Inr: "rbind m f = Inr y \<longleftrightarrow> (\<exists>x. m = Inr x \<and> f x = Inr y)"
  by (cases m) auto

lemma rbind_split:
  "P (rbind m f) \<longleftrightarrow> (\<forall>e. m = Inl e \<longrightarrow> P (Inl e)) \<and> (\<forall>x. m = Inr x \<longrightarrow> P (f x))"
  by (cases m) auto

section \<open>Words\<close>

lemma unat_less_exp: "unat (w :: 'a::len word) < 2 ^ LENGTH('a)"
  by (rule unsigned_less)

lemma unat_word_of_nat_id: "n < 2 ^ LENGTH('a) \<Longrightarrow> unat (word_of_nat n :: 'a::len word) = n"
  by (simp add: unat_of_nat take_bit_nat_eq_self)

section \<open>Byte strings\<close>

definition bytes_of :: "string \<Rightarrow> u8 list" where
  "bytes_of s = map (\<lambda>c. word_of_nat (of_char c)) s"

definition string_of :: "u8 list \<Rightarrow> string" where
  "string_of bs = map (\<lambda>b. char_of (unat b)) bs"

lemma length_bytes_of [simp]: "length (bytes_of s) = length s"
  by (simp add: bytes_of_def)

lemma length_string_of [simp]: "length (string_of bs) = length bs"
  by (simp add: string_of_def)

lemma bytes_of_Nil [simp]: "bytes_of [] = []"
  by (simp add: bytes_of_def)

lemma bytes_of_eq_Nil [simp]: "bytes_of s = [] \<longleftrightarrow> s = []"
  by (simp add: bytes_of_def)

lemma string_of_bytes_of [simp]: "string_of (bytes_of s) = s"
proof (induction s)
  case Nil
  then show ?case by (simp add: string_of_def)
next
  case (Cons c s)
  have "of_char c < (256::nat)" by (rule nat_of_char_less_256)
  then have "unat (word_of_nat (of_char c) :: u8) = of_char c"
    by (simp add: unat_of_nat)
  with Cons show ?case by (simp add: string_of_def bytes_of_def)
qed

lemma bytes_of_inj: "bytes_of s = bytes_of t \<Longrightarrow> s = t"
  by (metis string_of_bytes_of)

section \<open>Lists\<close>

lemma length_ge_4: "4 \<le> length xs \<Longrightarrow> \<exists>a b c d ys. xs = a # b # c # d # ys"
  by (auto simp: numeral_eq_Suc Suc_le_length_iff)

lemma find_unique:
  "\<lbrakk>x \<in> set xs; P x; \<And>y. \<lbrakk>y \<in> set xs; P y\<rbrakk> \<Longrightarrow> y = x\<rbrakk> \<Longrightarrow> find P xs = Some x"
  by (induction xs) (simp, fastforce)

lemma find_append: "find P (xs @ ys) = (case find P xs of None \<Rightarrow> find P ys | Some y \<Rightarrow> Some y)"
  by (induction xs) auto

text \<open>Uniqueness of a key among the rows that satisfy a predicate (a partial unique index).\<close>

lemma distinct_keys_shrink:
  "\<lbrakk>distinct (map k (filter P xs)); \<And>x. \<lbrakk>x \<in> set xs; P (g x)\<rbrakk> \<Longrightarrow> P x \<and> k (g x) = k x\<rbrakk> \<Longrightarrow>
   distinct (map k (filter P (map g xs)))"
proof (induction xs)
  case Nil
  then show ?case by simp
next
  case (Cons x xs)
  have "k ` {y \<in> g ` set xs. P y} \<subseteq> k ` {y \<in> set xs. P y}"
    using Cons.prems(2) by auto
  with Cons show ?case by (auto split: if_splits)
qed

lemma distinct_keys_iff:
  assumes "distinct (map i xs)"
  shows "distinct (map k (filter P xs))
     \<longleftrightarrow> (\<forall>x \<in> set xs. \<forall>y \<in> set xs. P x \<and> P y \<and> k x = k y \<longrightarrow> i x = i y)"
proof -
  have xs: "distinct xs" and i: "inj_on i (set xs)"
    using assms by (simp_all add: distinct_map)
  have "distinct (map k (filter P xs)) \<longleftrightarrow> inj_on k {x \<in> set xs. P x}"
    by (simp add: distinct_map xs)
  also have "\<dots> \<longleftrightarrow> (\<forall>x \<in> set xs. \<forall>y \<in> set xs. P x \<and> P y \<and> k x = k y \<longrightarrow> x = y)"
    unfolding inj_on_def by blast
  also have "\<dots> \<longleftrightarrow> (\<forall>x \<in> set xs. \<forall>y \<in> set xs. P x \<and> P y \<and> k x = k y \<longrightarrow> i x = i y)"
    using i unfolding inj_on_def by blast
  finally show ?thesis .
qed

lemma distinct_keys_map:
  assumes "distinct (map i xs)" and g: "\<And>x. i (g x) = i x" "\<And>x. k (g x) = k x"
    and "\<And>x y. \<lbrakk>x \<in> set xs; y \<in> set xs; P (g x); P (g y); k x = k y\<rbrakk> \<Longrightarrow> i x = i y"
  shows "distinct (map k (filter P (map g xs)))"
proof -
  have "distinct (map i (map g xs))"
    using assms(1) by (simp add: g o_def)
  from distinct_keys_iff [OF this, of k P] assms(4) show ?thesis
    by (simp only: set_map ball_simps g) blast
qed

section \<open>Tables\<close>

definition row_update :: "('r \<Rightarrow> bool) \<Rightarrow> ('r \<Rightarrow> 'r) \<Rightarrow> 'r list \<Rightarrow> 'r list" where
  "row_update p f t = map (\<lambda>r. if p r then f r else r) t"

definition row_delete :: "('r \<Rightarrow> bool) \<Rightarrow> 'r list \<Rightarrow> 'r list" where
  "row_delete p t = filter (\<lambda>r. \<not> p r) t"

definition row_count :: "('r \<Rightarrow> bool) \<Rightarrow> 'r list \<Rightarrow> nat" where
  "row_count p t = length (filter p t)"

lemma set_row_update [table_simps]:
  "set (row_update p f t) = (\<lambda>r. if p r then f r else r) ` set t"
  by (simp add: row_update_def)

lemma set_row_delete [table_simps]: "set (row_delete p t) = {r \<in> set t. \<not> p r}"
  by (auto simp: row_delete_def)

lemma row_count_eq_0: "row_count p t = 0 \<longleftrightarrow> (\<forall>r \<in> set t. \<not> p r)"
  by (simp add: row_count_def filter_empty_conv)

lemma row_update_none: "\<forall>r \<in> set t. \<not> p r \<Longrightarrow> row_update p f t = t"
  by (simp add: row_update_def map_idI)

lemma map_row_update:
  assumes "\<And>r. r \<in> set t \<Longrightarrow> p r \<Longrightarrow> k (f r) = k r"
  shows "map k (row_update p f t) = map k t"
  using assms by (auto simp: row_update_def)

lemma distinct_row_delete: "distinct (map k t) \<Longrightarrow> distinct (map k (row_delete p t))"
  by (simp add: row_delete_def distinct_map_filter)

lemma distinct_keys_row_delete:
  assumes "distinct (map k (filter P t))"
  shows "distinct (map k (filter P (row_delete p t)))"
proof -
  have "filter P (row_delete p t) = filter (\<lambda>r. \<not> p r) (filter P t)"
    by (simp add: row_delete_def conj_commute)
  with distinct_map_filter [OF assms] show ?thesis by metis
qed

lemma row_update_map: "row_update p f t = map (\<lambda>r. if p r then f r else r) t"
  by (simp add: row_update_def)

lemma ball_row_update:
  "(\<forall>r \<in> set (row_update p f t). P r) \<longleftrightarrow> (\<forall>r \<in> set t. P (if p r then f r else r))"
  by (simp only: row_update_map set_map ball_simps)

lemma bex_row_update:
  "(\<exists>r \<in> set (row_update p f t). P r) \<longleftrightarrow> (\<exists>r \<in> set t. P (if p r then f r else r))"
  by (simp only: row_update_map set_map bex_simps)

text \<open>
  \<open>ORDER BY ... LIMIT 1\<close>: the first row by a strict order \<open>before\<close>, \<open>None\<close> for no rows.
\<close>

fun pick_first :: "('r \<Rightarrow> 'r \<Rightarrow> bool) \<Rightarrow> 'r list \<Rightarrow> 'r option" where
  "pick_first before [] = None"
| "pick_first before (r # rs) =
     (case pick_first before rs of
        None \<Rightarrow> Some r
      | Some r' \<Rightarrow> Some (if before r' r then r' else r))"

lemma pick_first_None [simp]: "pick_first before rs = None \<longleftrightarrow> rs = []"
  by (cases rs) (auto split: option.splits)

lemma pick_first_member: "pick_first before rs = Some r \<Longrightarrow> r \<in> set rs"
  by (induction rs arbitrary: r) (auto split: option.splits if_splits)

lemma pick_first_best:
  assumes irrefl: "\<And>x. \<not> before x x"
    and trans: "\<And>x y z. \<lbrakk>\<not> before x y; \<not> before y z\<rbrakk> \<Longrightarrow> \<not> before x z"
    and asym: "\<And>x y. before x y \<Longrightarrow> \<not> before y x"
  shows "pick_first before rs = Some r \<Longrightarrow> r' \<in> set rs \<Longrightarrow> \<not> before r' r"
proof (induction rs arbitrary: r)
  case Nil
  then show ?case by simp
next
  case (Cons x xs)
  show ?case
  proof (cases "pick_first before xs")
    case None
    with Cons.prems irrefl show ?thesis by auto
  next
    case (Some y)
    with Cons.prems(1) have r: "r = (if before y x then y else x)" by simp
    from Cons.prems(2) consider "r' = x" | "r' \<in> set xs" by auto
    then show ?thesis
    proof cases
      case 1
      with r irrefl asym show ?thesis by auto
    next
      case 2
      with Cons.IH [OF Some] have "\<not> before r' y" by simp
      with r trans show ?thesis by auto
    qed
  qed
qed

section \<open>Order\<close>

text \<open>
  \<open>ORDER BY\<close>: a stable insertion by a strict order; rows that compare equal, whose order SQL leaves
  open, keep the order of the table.
\<close>

fun insert_before :: "('r \<Rightarrow> 'r \<Rightarrow> bool) \<Rightarrow> 'r \<Rightarrow> 'r list \<Rightarrow> 'r list" where
  "insert_before before r [] = [r]"
| "insert_before before r (x # xs) =
     (if before x r then x # insert_before before r xs else r # x # xs)"

definition order_by :: "('r \<Rightarrow> 'r \<Rightarrow> bool) \<Rightarrow> 'r list \<Rightarrow> 'r list" where
  "order_by before rs = foldr (insert_before before) rs []"

lemma set_insert_before [simp]: "set (insert_before b r xs) = insert r (set xs)"
  by (induction xs) auto

lemma length_insert_before [simp]: "length (insert_before b r xs) = Suc (length xs)"
  by (induction xs) auto

lemma set_order_by [simp]: "set (order_by b xs) = set xs"
  by (induction xs) (simp_all add: order_by_def)

lemma length_order_by [simp]: "length (order_by b xs) = length xs"
  by (induction xs) (simp_all add: order_by_def)

text \<open>Rows ordered by a key: the rows, sorted.\<close>

lemma sorted_insert_before:
  fixes k :: "'r \<Rightarrow> 'k::linorder"
  shows "sorted (map k xs) \<Longrightarrow> sorted (map k (insert_before (\<lambda>x y. k x < k y) r xs))"
  by (induction xs) (auto simp: not_less)

lemma sorted_order_by:
  fixes k :: "'r \<Rightarrow> 'k::linorder"
  shows "sorted (map k (order_by (\<lambda>x y. k x < k y) xs))"
  by (induction xs) (simp_all add: order_by_def sorted_insert_before)

lemma distinct_insert_before:
  "\<lbrakk>distinct (map i xs); i r \<notin> i ` set xs\<rbrakk> \<Longrightarrow> distinct (map i (insert_before b r xs))"
  by (induction xs) auto

lemma distinct_order_by: "distinct (map i xs) \<Longrightarrow> distinct (map i (order_by b xs))"
  by (induction xs) (simp_all add: order_by_def distinct_insert_before, simp add: order_by_def [symmetric] distinct_insert_before)

end
