(* ===== verification/Wire.thy ===== *)
theory Wire
  imports Prelude
begin

text \<open>
  The byte level of the Soulseek protocol: \<open>internal/soulseek/soul/internal/internal.go\<close>.

  A reader is a function from the bytes it still holds to an error or a value and the bytes
  left. It stands for the buffered readers (\<open>*bytes.Buffer\<close>, \<open>*bytes.Reader\<close>) every decoder is
  given, and for a connection as the sequence of bytes it delivers before it ends; a transport
  error other than the end of the stream is not modelled. On an error Go also returns the
  partly filled receiver, which every caller drops, so only the error is kept.
\<close>

section \<open>Errors and readers\<close>

datatype wire_error =
    EOF
  | UnexpectedEOF
  | MismatchingCodes
  | DifferentPacketSize
  | MessageTooLarge
  | Wrapped wire_error wire_error \<comment> \<open>\<open>fmt.Errorf("%w: %w", a, b)\<close>\<close>
  | EmptyFileName
  | EmptyDirectoryName
  | NotAllowedWithNoReason
  | PeerInitUsernameEmpty
  | PeerInitTypeNotOneByte
  | InvalidSearchIdentifier
  | UnexpectedSearchData
  | ZlibError
  | InvalidUsername
  | InvalidPass
  | InvalidVersion
  | UnknownLoginFailure string
  | TooManyParents
  | IndexOutOfRange \<comment> \<open>a Go run-time panic\<close>
  | NilDereference \<comment> \<open>a Go run-time panic\<close>

type_synonym 'a reader = "u8 list \<Rightarrow> wire_error + ('a \<times> u8 list)"

definition rret :: "'a \<Rightarrow> 'a reader" where
  "rret x bs = Inr (x, bs)"

definition rfail :: "wire_error \<Rightarrow> 'a reader" where
  "rfail e bs = Inl e"

definition rthen :: "'a reader \<Rightarrow> ('a \<Rightarrow> 'b reader) \<Rightarrow> 'b reader" where
  "rthen p f bs = (case p bs of Inl e \<Rightarrow> Inl e | Inr (x, bs') \<Rightarrow> f x bs')"

lemma rret_simp [simp]: "rret x bs = Inr (x, bs)"
  by (simp add: rret_def)

lemma rfail_simp [simp]: "rfail e bs = Inl e"
  by (simp add: rfail_def)

lemma rthen_Inr [simp]: "p bs = Inr (x, bs') \<Longrightarrow> rthen p f bs = f x bs'"
  by (simp add: rthen_def)

lemma rthen_Inl [simp]: "p bs = Inl e \<Longrightarrow> rthen p f bs = Inl e"
  by (simp add: rthen_def)

lemma rthen_eq_Inr:
  "rthen p f bs = Inr z \<longleftrightarrow> (\<exists>x bs'. p bs = Inr (x, bs') \<and> f x bs' = Inr z)"
  by (auto simp: rthen_def split: sum.splits)

text \<open>\<open>io.ReadFull\<close>: an empty source is a clean \<open>EOF\<close>, a short one is not.\<close>

definition read_full :: "nat \<Rightarrow> u8 list reader" where
  "read_full n bs =
     (if n \<le> length bs then Inr (take n bs, drop n bs)
      else if bs = [] then Inl EOF else Inl UnexpectedEOF)"

text \<open>\<open>io.CopyN\<close>: a source that ends early is \<open>EOF\<close> however much it delivered.\<close>

definition copy_n :: "nat \<Rightarrow> u8 list reader" where
  "copy_n n bs = (if n \<le> length bs then Inr (take n bs, drop n bs) else Inl EOF)"

lemma read_full_append [simp]: "length xs = n \<Longrightarrow> read_full n (xs @ rest) = Inr (xs, rest)"
  by (simp add: read_full_def)

lemma copy_n_append [simp]: "length xs = n \<Longrightarrow> copy_n n (xs @ rest) = Inr (xs, rest)"
  by (simp add: copy_n_def)

section \<open>Little-endian integers\<close>

fun le_bytes :: "nat \<Rightarrow> nat \<Rightarrow> u8 list" where
  "le_bytes 0 n = []"
| "le_bytes (Suc k) n = word_of_nat (n mod 256) # le_bytes k (n div 256)"

fun le_value :: "u8 list \<Rightarrow> nat" where
  "le_value [] = 0"
| "le_value (b # bs) = unat b + 256 * le_value bs"

lemma length_le_bytes [simp]: "length (le_bytes k n) = k"
  by (induction k arbitrary: n) auto

lemma unat_u8_less: "unat (b :: u8) < 256"
  using unat_less_exp [of b] by simp

lemma le_value_le_bytes: "le_value (le_bytes k n) = n mod 256 ^ k"
proof (induction k arbitrary: n)
  case 0
  then show ?case by simp
next
  case (Suc k)
  have "unat (word_of_nat (n mod 256) :: u8) = n mod 256"
    by (simp add: unat_of_nat)
  with Suc show ?case
    by (simp add: mod_mult2_eq)
qed

lemma le_bytes_le_value: "le_bytes (length bs) (le_value bs) = bs"
proof (induction bs)
  case Nil
  then show ?case by simp
next
  case (Cons b bs)
  have "(unat b + 256 * le_value bs) mod 256 = unat b"
    "(unat b + 256 * le_value bs) div 256 = le_value bs"
    using unat_u8_less [of b] by simp_all
  with Cons show ?case by simp
qed

lemma le_value_less: "le_value bs < 256 ^ length bs"
proof (induction bs)
  case Nil
  then show ?case by simp
next
  case (Cons b bs)
  then have "256 * le_value bs + 256 \<le> 256 * 256 ^ length bs"
    using mult_le_mono2 [of "Suc (le_value bs)" "256 ^ length bs" 256] by simp
  with unat_u8_less [of b] show ?case by simp
qed

definition put_u32 :: "u32 \<Rightarrow> u8 list" where
  "put_u32 w = le_bytes 4 (unat w)"

definition get_u32 :: "u8 list \<Rightarrow> u32" where
  "get_u32 bs = word_of_nat (le_value bs)"

definition put_u64 :: "u64 \<Rightarrow> u8 list" where
  "put_u64 w = le_bytes 8 (unat w)"

definition get_u64 :: "u8 list \<Rightarrow> u64" where
  "get_u64 bs = word_of_nat (le_value bs)"

lemma length_put_u32 [simp]: "length (put_u32 w) = 4"
  by (simp add: put_u32_def)

lemma length_put_u64 [simp]: "length (put_u64 w) = 8"
  by (simp add: put_u64_def)

lemma get_put_u32 [simp]: "get_u32 (put_u32 w) = w"
proof -
  have "unat w < 256 ^ 4"
    using unat_less_exp [of w] by simp
  then show ?thesis
    by (simp add: get_u32_def put_u32_def le_value_le_bytes)
qed

lemma put_get_u32: "length bs = 4 \<Longrightarrow> put_u32 (get_u32 bs) = bs"
proof -
  assume len: "length bs = 4"
  have "le_value bs < 256 ^ 4"
    using le_value_less [of bs] len by simp
  then have "unat (get_u32 bs) = le_value bs"
    by (simp add: get_u32_def unat_of_nat)
  with le_bytes_le_value [of bs] len show ?thesis
    by (simp add: put_u32_def)
qed

lemma get_put_u64 [simp]: "get_u64 (put_u64 w) = w"
proof -
  have "unat w < 256 ^ 8"
    using unat_less_exp [of w] by simp
  then show ?thesis
    by (simp add: get_u64_def put_u64_def le_value_le_bytes)
qed

section \<open>Fields\<close>

text \<open>The readers and writers of one field, named as in the source.\<close>

definition MaxMessageSize :: u32 where
  "MaxMessageSize = push_bit 20 64"

definition ReadUint8 :: "u8 reader" where
  "ReadUint8 = rthen (read_full 1) (\<lambda>bs. rret (word_of_nat (le_value bs)))"

definition WriteUint8 :: "u8 \<Rightarrow> u8 list" where
  "WriteUint8 b = [b]"

definition ReadUint32 :: "u32 reader" where
  "ReadUint32 = rthen (read_full 4) (\<lambda>bs. rret (get_u32 bs))"

definition WriteUint32 :: "u32 \<Rightarrow> u8 list" where
  "WriteUint32 w = put_u32 w"

definition ReadInt32 :: "i32 reader" where
  "ReadInt32 = rthen (read_full 4) (\<lambda>bs. rret (get_u32 bs))"

definition WriteInt32 :: "i32 \<Rightarrow> u8 list" where
  "WriteInt32 w = put_u32 w"

definition ReadInt32ToInt :: "int reader" where
  "ReadInt32ToInt = rthen ReadInt32 (\<lambda>v. rret (sint v))"

definition ReadUint32ToInt :: "int reader" where
  "ReadUint32ToInt = rthen ReadUint32 (\<lambda>v. rret (uint v))"

definition ReadUint32ToToken :: "u32 reader" where
  "ReadUint32ToToken = rthen ReadUint32 (\<lambda>v. rret v)"

definition ReadUint64 :: "u64 reader" where
  "ReadUint64 = rthen (read_full 8) (\<lambda>bs. rret (get_u64 bs))"

definition WriteUint64 :: "u64 \<Rightarrow> u8 list" where
  "WriteUint64 w = put_u64 w"

text \<open>\<open>int(val)\<close> of a \<open>uint64\<close> keeps the bits, so values from \<open>2^63\<close> on come out negative.\<close>

definition ReadUint64ToInt :: "int reader" where
  "ReadUint64ToInt = rthen ReadUint64 (\<lambda>v. rret (sint v))"

definition Pack :: "u8 list \<Rightarrow> u8 list" where
  "Pack data = put_u32 (word_of_nat (length data)) @ data"

definition NewString :: "string \<Rightarrow> u8 list" where
  "NewString val = Pack (bytes_of val)"

definition WriteString :: "string \<Rightarrow> u8 list" where
  "WriteString val = NewString val"

definition ReadStringLen :: "u32 reader" where
  "ReadStringLen = ReadUint32"

text \<open>\<open>checkAvailable\<close>: every decoder's reader reports what it still holds.\<close>

definition checkAvailable :: "u32 \<Rightarrow> u8 list \<Rightarrow> bool" where
  "checkAvailable sz bs \<longleftrightarrow> \<not> (unat sz > length bs)"

definition ReadStringBody :: "u32 \<Rightarrow> string reader" where
  "ReadStringBody sz bs =
     (if sz > MaxMessageSize then Inl MessageTooLarge
      else if \<not> checkAvailable sz bs then Inl UnexpectedEOF
      else rthen (read_full (unat sz)) (\<lambda>buf. rret (string_of buf)) bs)"

definition ReadString :: "string reader" where
  "ReadString = rthen ReadStringLen ReadStringBody"

definition ReadBool :: "bool reader" where
  "ReadBool = rthen (read_full 1) (\<lambda>bs. rret (le_value bs = 1))"

definition WriteBool :: "bool \<Rightarrow> u8 list" where
  "WriteBool val = [if val then 1 else 0]"

definition ReadBytes :: "u8 list reader" where
  "ReadBytes = rthen ReadUint32 (\<lambda>sz bs.
     if sz > MaxMessageSize then Inl MessageTooLarge
     else if \<not> checkAvailable sz bs then Inl UnexpectedEOF
     else read_full (unat sz) bs)"

definition WriteBytes :: "u8 list \<Rightarrow> u8 list" where
  "WriteBytes content = put_u32 (word_of_nat (length content)) @ content"

text \<open>The four bytes of an address, most significant first.\<close>

definition ReadIP :: "u32 \<Rightarrow> u8 list" where
  "ReadIP val = rev (le_bytes 4 (unat val))"

end
