(* ===== verification/Codec.thy ===== *)
theory Codec
  imports Wire
begin

text \<open>
  The contract between a field's writer and its reader, as a locale: reading back what was
  written returns the value and leaves the rest of the input alone. Everything a message decoder
  relies on (unique decoding, counted sequences of fields) is proved once inside it, and each
  field of \<open>internal.go\<close> interprets it.
\<close>

fun read_times :: "nat \<Rightarrow> 'a reader \<Rightarrow> 'a list reader" where
  "read_times 0 get = rret []"
| "read_times (Suc n) get = rthen get (\<lambda>x. rthen (read_times n get) (\<lambda>xs. rret (x # xs)))"

locale codec =
  fixes put :: "'a \<Rightarrow> u8 list"
    and get :: "'a reader"
    and ok :: "'a \<Rightarrow> bool"
  assumes get_put [codec_simps]: "ok x \<Longrightarrow> get (put x @ rest) = Inr (x, rest)"
begin

lemma get_put_exact [codec_simps]: "ok x \<Longrightarrow> get (put x) = Inr (x, [])"
  using get_put [of x "[]"] by simp

lemma rthen_put [codec_simps]:
  "ok x \<Longrightarrow> rthen get f (put x @ rest) = f x rest"
  "ok x \<Longrightarrow> rthen get f (put x) = f x []"
  by (simp_all add: rthen_def get_put get_put_exact)

lemma unique_decoding:
  assumes "ok x" and "ok y" and "put x @ r = put y @ s"
  shows "x = y \<and> r = s"
proof -
  have "Inr (x, r) = get (put x @ r)" using get_put [OF assms(1)] by (rule sym)
  also have "\<dots> = get (put y @ s)" by (rule arg_cong [OF assms(3)])
  also have "\<dots> = Inr (y, s)" by (rule get_put [OF assms(2)])
  finally show ?thesis by simp
qed

lemma put_eq [codec_inj]:
  "\<lbrakk>ok x; ok y\<rbrakk> \<Longrightarrow> put x @ r = put y @ s \<longleftrightarrow> x = y \<and> r = s"
  using unique_decoding [of x y r s] by auto

lemma put_eq_exact [codec_inj]: "\<lbrakk>ok x; ok y\<rbrakk> \<Longrightarrow> put x = put y \<longleftrightarrow> x = y"
  using unique_decoding [of x y "[]" "[]"] by auto

lemma read_times_put [codec_simps]:
  "\<forall>x \<in> set xs. ok x \<Longrightarrow>
   read_times (length xs) get (concat (map put xs) @ rest) = Inr (xs, rest)"
  by (induction xs) (simp_all add: get_put)

lemma read_times_put_exact [codec_simps]:
  "\<forall>x \<in> set xs. ok x \<Longrightarrow>
   read_times (length xs) get (concat (map put xs)) = Inr (xs, [])"
  using read_times_put [of xs "[]"] by simp

end

lemma read_times_length:
  "read_times n get bs = Inr (xs, rest) \<Longrightarrow> length xs = n"
  by (induction n arbitrary: bs xs rest) (auto simp: rthen_eq_Inr rret_def)

section \<open>The fields of \<open>internal.go\<close>\<close>

lemma MaxMessageSize_unat: "unat MaxMessageSize = 67108864"
  by (simp add: MaxMessageSize_def)

text \<open>A string fits a field when its length prefix neither wraps nor passes the ceiling.\<close>

definition str_ok :: "string \<Rightarrow> bool" where
  "str_ok s \<longleftrightarrow> length s \<le> unat MaxMessageSize"

lemma str_ok_less: "str_ok s \<Longrightarrow> length s < 2 ^ 32"
  by (simp add: str_ok_def MaxMessageSize_unat)

lemma unat_length_u32: "length s \<le> 67108864 \<Longrightarrow> unat (word_of_nat (length s) :: u32) = length s"
  by (rule unat_word_of_nat_id) simp

lemma not_above_MaxMessageSize:
  "length s \<le> 67108864 \<Longrightarrow> \<not> (word_of_nat (length s) :: u32) > MaxMessageSize"
  by (simp add: word_less_nat_alt MaxMessageSize_unat unat_length_u32)

interpretation u8: codec WriteUint8 ReadUint8 "\<lambda>_. True"
  by unfold_locales (simp add: ReadUint8_def WriteUint8_def rthen_def read_full_def)

interpretation u32: codec WriteUint32 ReadUint32 "\<lambda>_. True"
  by unfold_locales (simp add: ReadUint32_def WriteUint32_def rthen_def)

interpretation u32len: codec WriteUint32 ReadStringLen "\<lambda>_. True"
  by unfold_locales (simp add: ReadStringLen_def codec_simps)

interpretation i32: codec WriteInt32 ReadInt32 "\<lambda>_. True"
  by unfold_locales (simp add: ReadInt32_def WriteInt32_def rthen_def)

interpretation u64: codec WriteUint64 ReadUint64 "\<lambda>_. True"
  by unfold_locales (simp add: ReadUint64_def WriteUint64_def rthen_def)

interpretation token: codec WriteUint32 ReadUint32ToToken "\<lambda>_. True"
  by unfold_locales (simp add: ReadUint32ToToken_def codec_simps)

text \<open>A Go \<open>int\<close> written as \<open>uint32(v)\<close> and read back by \<open>ReadUint32ToInt\<close>.\<close>

definition WriteIntAsUint32 :: "int \<Rightarrow> u8 list" where
  "WriteIntAsUint32 v = WriteUint32 (word_of_int v)"

definition u32_range :: "int \<Rightarrow> bool" where
  "u32_range v \<longleftrightarrow> 0 \<le> v \<and> v < 2 ^ 32"

interpretation intu32: codec WriteIntAsUint32 ReadUint32ToInt u32_range
  by unfold_locales
    (simp add: WriteIntAsUint32_def ReadUint32ToInt_def u32_range_def codec_simps
      uint_word_of_int)

interpretation bool: codec WriteBool ReadBool "\<lambda>_. True"
  by unfold_locales (simp add: ReadBool_def WriteBool_def rthen_def read_full_def)

lemma ReadStringBody_bytes_of [codec_simps]:
  "str_ok s \<Longrightarrow> ReadStringBody (word_of_nat (length s)) (bytes_of s @ rest) = Inr (s, rest)"
  by (simp add: ReadStringBody_def str_ok_def MaxMessageSize_unat not_above_MaxMessageSize
      checkAvailable_def unat_length_u32 rthen_def)

lemma ReadStringBody_bytes_of_exact [codec_simps]:
  "str_ok s \<Longrightarrow> ReadStringBody (word_of_nat (length s)) (bytes_of s) = Inr (s, [])"
  using ReadStringBody_bytes_of [of s "[]"] by simp

lemma WriteString_split: "WriteString s = WriteUint32 (word_of_nat (length s)) @ bytes_of s"
  by (simp add: WriteString_def NewString_def Pack_def WriteUint32_def)

interpretation str: codec WriteString ReadString str_ok
  by unfold_locales (simp add: WriteString_split ReadString_def codec_simps)

definition bytes_ok :: "u8 list \<Rightarrow> bool" where
  "bytes_ok bs \<longleftrightarrow> length bs \<le> unat MaxMessageSize"

interpretation bytes: codec WriteBytes ReadBytes bytes_ok
proof unfold_locales
  fix x rest :: "u8 list"
  assume "bytes_ok x"
  then have len: "length x \<le> 67108864" by (simp add: bytes_ok_def MaxMessageSize_unat)
  have "ReadUint32 (put_u32 (word_of_nat (length x)) @ x @ rest)
      = Inr (word_of_nat (length x), x @ rest)"
    using u32.get_put by (simp add: WriteUint32_def)
  with len show "ReadBytes (WriteBytes x @ rest) = Inr (x, rest)"
    by (simp add: ReadBytes_def WriteBytes_def not_above_MaxMessageSize checkAvailable_def
        unat_length_u32)
qed

text \<open>A field's prefix that promises more than the frame holds is refused before allocation.\<close>

lemma ReadString_truncated:
  assumes "str_ok s" and "n < length s"
  shows "ReadString (take (4 + n) (WriteString s)) = Inl UnexpectedEOF"
proof -
  have "take (4 + n) (WriteString s) = WriteUint32 (word_of_nat (length s)) @ take n (bytes_of s)"
    by (simp add: WriteString_split WriteUint32_def)
  with assms show ?thesis
    by (simp add: ReadString_def codec_simps ReadStringBody_def checkAvailable_def str_ok_def
        MaxMessageSize_unat not_above_MaxMessageSize unat_length_u32)
qed

end
