(* ===== verification/Framing.thy ===== *)
theory Framing
  imports Codec
begin

text \<open>
  Frames: \<open>MessageReadLimited\<close>, \<open>deobfuscateLimited\<close>, \<open>obfuscate\<close> and \<open>MessageWrite\<close> of
  \<open>internal/soulseek/soul/internal/internal.go\<close>. A frame is a 4-byte size and that many bytes,
  the first one or four of which are the message code. The result of a read is the frame's bytes
  (which the decoders of the message packages then read from the start), its size and its code.

  The random key of an obfuscated frame is a parameter. \<open>deobfuscateLimited\<close>'s loop is written
  as its first two iterations (size and code) followed by the recursion \<open>deob_body\<close> for the
  others, which stops because every iteration but a last empty one consumes input.
\<close>

section \<open>Plain frames\<close>

text \<open>The four kinds of code a frame is read for; two of them are one byte wide.\<close>

datatype code_kind = CodeServer | CodePeerInit | CodePeer | CodeDistributed

fun isInitOrDistributed :: "code_kind \<Rightarrow> bool" where
  "isInitOrDistributed CodePeerInit = True"
| "isInitOrDistributed CodeDistributed = True"
| "isInitOrDistributed _ = False"

definition readAlready :: "code_kind \<Rightarrow> nat" where
  "readAlready k = (if isInitOrDistributed k then 1 else 4)"

definition read_code :: "code_kind \<Rightarrow> nat reader" where
  "read_code k =
     (if isInitOrDistributed k then rthen ReadUint8 (\<lambda>c. rret (unat c))
      else rthen ReadUint32 (\<lambda>c. rret (unat c)))"

text \<open>
  \<open>TeeReader\<close> copies what the two header reads consume into the message, so the message starts
  with the bytes of the size and the code.
\<close>

definition read_plain :: "code_kind \<Rightarrow> u32 \<Rightarrow> (u8 list \<times> u32 \<times> nat) reader" where
  "read_plain k maxMessageSize conn =
     rthen ReadUint32 (\<lambda>sz conn1.
       if sz > maxMessageSize then Inl MessageTooLarge
       else rthen (read_code k) (\<lambda>code conn2.
         if int (unat sz) < int (readAlready k) then Inl DifferentPacketSize
         else (case copy_n (unat sz - readAlready k) conn2 of
             Inl err \<Rightarrow> Inl (Wrapped DifferentPacketSize (if err = EOF then UnexpectedEOF else err))
           | Inr (body, conn3) \<Rightarrow>
               if unat sz \<noteq> length body + readAlready k then Inl DifferentPacketSize
               else Inr ((take (4 + readAlready k) conn @ body, sz, code), conn3))) conn1) conn"

section \<open>Obfuscated frames\<close>

text \<open>Shift 31 bits to the right, the bits that fall out come back on the left.\<close>

definition rotate31 :: "u32 \<Rightarrow> u32" where
  "rotate31 k = or (drop_bit 31 k) (push_bit (32 - 31) k)"

definition rotateKey :: "u8 list \<Rightarrow> wire_error + u8 list" where
  "rotateKey key = rbind (ReadUint32 key) (\<lambda>(bigKey, _). Inr (WriteUint32 (rotate31 bigKey)))"

fun obfuscate_loop :: "nat \<Rightarrow> u8 list \<Rightarrow> u8 list \<Rightarrow> u8 list \<Rightarrow> wire_error + u8 list" where
  "obfuscate_loop k rotatedKey newKey [] = Inr []"
| "obfuscate_loop k rotatedKey newKey (v # message) =
     (case rotatedKey of
        [] \<Rightarrow> Inl EOF
      | b # rotatedKey' \<Rightarrow>
          if k mod 4 = 3
          then rbind (rotateKey (newKey @ [b])) (\<lambda>rotatedKey''.
                 rbind (obfuscate_loop (Suc k) rotatedKey'' [] message) (\<lambda>rest. Inr (xor b v # rest)))
          else rbind (obfuscate_loop (Suc k) rotatedKey' (newKey @ [b]) message)
                 (\<lambda>rest. Inr (xor b v # rest)))"

definition obfuscate :: "u8 list \<Rightarrow> u8 list \<Rightarrow> wire_error + u8 list" where
  "obfuscate key message =
     rbind (rotateKey key) (\<lambda>rotatedKey.
       rbind (obfuscate_loop 0 rotatedKey [] message) (\<lambda>out. Inr (key @ out)))"

definition xor_bytes :: "u8 list \<Rightarrow> u8 list \<Rightarrow> u8 list" where
  "xor_bytes key chunk = map2 xor key chunk"

text \<open>One iteration's read: the next \<open>len\<close> bytes, deobfuscated with the rotated key.\<close>

definition deob_chunk :: "u8 list \<Rightarrow> nat \<Rightarrow> u8 list reader" where
  "deob_chunk rotatedKey len conn =
     (case copy_n len conn of
        Inl err \<Rightarrow> Inl (Wrapped DifferentPacketSize (if err = EOF then UnexpectedEOF else err))
      | Inr (chunk, conn') \<Rightarrow> Inr (xor_bytes rotatedKey chunk, conn'))"

text \<open>
  The iterations after the first two: \<open>key\<close> is the key the previous iteration left, \<open>sz\<close> is
  \<open>int64(size)\<close> and \<open>readSoFar\<close> counts the deobfuscated bytes after the size.
\<close>

function deob_body :: "u32 \<Rightarrow> nat \<Rightarrow> nat \<Rightarrow> u8 list \<Rightarrow> u8 list reader" where
  "deob_body key sz readSoFar message conn =
     (let bigKey = rotate31 key;
          remaining = int sz - int readSoFar
      in if remaining < 0 then Inl DifferentPacketSize
         else (let len = (if remaining < 4 then nat remaining else 4)
               in case deob_chunk (WriteUint32 bigKey) len conn of
                    Inl err \<Rightarrow> Inl err
                  | Inr (bytes, conn') \<Rightarrow>
                      (let readSoFar' = readSoFar + length bytes
                       in if readSoFar' = sz then Inr (message @ bytes, conn')
                          else deob_body bigKey sz readSoFar' (message @ bytes) conn')))"
  by pat_completeness auto
termination
  by (relation "measure (\<lambda>(key, sz, readSoFar, message, conn). length conn)")
    (auto simp: deob_chunk_def copy_n_def xor_bytes_def WriteUint32_def
      split: if_splits sum.splits)

declare deob_body.simps [simp del]

text \<open>A field read out of an already deobfuscated chunk; the connection is not touched.\<close>

definition parse_chunk :: "'a reader \<Rightarrow> u8 list \<Rightarrow> 'a reader" where
  "parse_chunk get chunk conn = rbind (get chunk) (\<lambda>(x, _). Inr (x, conn))"

definition deobfuscateLimited :: "bool \<Rightarrow> u32 \<Rightarrow> (u8 list \<times> u32 \<times> nat) reader" where
  "deobfuscateLimited isInit maxMessageSize =
     rthen (copy_n 4) (\<lambda>key. rthen (parse_chunk ReadUint32 key) (\<lambda>key0.
       let key1 = rotate31 key0 in
       rthen (deob_chunk (WriteUint32 key1) 4) (\<lambda>size4. rthen (parse_chunk ReadUint32 size4) (\<lambda>sz.
         if sz > maxMessageSize then rfail MessageTooLarge
         else if sz = 0 then rfail DifferentPacketSize
         else (let key2 = rotate31 key1 in
           rthen (deob_chunk (WriteUint32 key2) 4) (\<lambda>code4.
           rthen (parse_chunk (read_code (if isInit then CodePeerInit else CodePeer)) code4) (\<lambda>code.
             if 4 = unat sz then rret (size4 @ code4, sz, code)
             else rthen (deob_body key2 (unat sz) 4 (size4 @ code4))
                    (\<lambda>message. rret (message, sz, code)))))))))"

section \<open>The frame reader and writer\<close>

definition MessageReadLimited :: "code_kind \<Rightarrow> bool \<Rightarrow> u32 \<Rightarrow> (u8 list \<times> u32 \<times> nat) reader" where
  "MessageReadLimited k obfuscated maxMessageSize =
     (if obfuscated then deobfuscateLimited (isInitOrDistributed k) maxMessageSize
      else read_plain k maxMessageSize)"

definition MessageRead :: "code_kind \<Rightarrow> bool \<Rightarrow> (u8 list \<times> u32 \<times> nat) reader" where
  "MessageRead k obfuscated = MessageReadLimited k obfuscated MaxMessageSize"

text \<open>What is written to the connection; \<open>key\<close> is the four random bytes of \<open>obfuscate\<close>.\<close>

definition MessageWrite :: "u8 list \<Rightarrow> u8 list \<Rightarrow> bool \<Rightarrow> wire_error + u8 list" where
  "MessageWrite key message obfuscated =
     (if obfuscated then obfuscate key message else Inr message)"

section \<open>Plain frames are read back whole\<close>

definition frame_code :: "code_kind \<Rightarrow> u8 list \<Rightarrow> nat" where
  "frame_code k data = le_value (take (readAlready k) data)"

lemma read_code_frame:
  assumes "readAlready k \<le> length data"
  shows "read_code k (data @ rest) = Inr (frame_code k data, drop (readAlready k) data @ rest)"
proof -
  have "le_value (take (readAlready k) data) < 256 ^ readAlready k"
    using le_value_less [of "take (readAlready k) data"] assms by (simp add: min_absorb2)
  with assms show ?thesis
    by (cases "isInitOrDistributed k")
      (auto simp: read_code_def frame_code_def readAlready_def ReadUint8_def ReadUint32_def
        get_u32_def rthen_def read_full_def unat_word_of_nat_id)
qed

lemma Pack_prefix: "Pack data = WriteUint32 (word_of_nat (length data)) @ data"
  by (simp add: Pack_def WriteUint32_def)

lemma length_WriteUint32 [simp]: "length (WriteUint32 w) = 4"
  by (simp add: WriteUint32_def)

lemma unat_length_le:
  assumes "length data \<le> unat (m :: u32)"
  shows "unat (word_of_nat (length data) :: u32) = length data"
  using assms unat_less_exp [of m] by (intro unat_word_of_nat_id) simp

lemma read_plain_frame:
  assumes code: "readAlready k \<le> length data" and limit: "length data \<le> unat maxSize"
  shows "read_plain k maxSize (Pack data @ rest)
       = Inr ((Pack data, word_of_nat (length data), frame_code k data), rest)"
proof -
  note len = unat_length_le [OF limit]
  have small: "\<not> word_of_nat (length data) > maxSize"
    using limit len by (simp add: word_less_nat_alt)
  have body: "copy_n (length data - readAlready k) (drop (readAlready k) data @ rest)
      = Inr (drop (readAlready k) data, rest)"
    by simp
  have whole: "take (4 + readAlready k) (Pack data @ rest) @ drop (readAlready k) data = Pack data"
    using code by (simp add: Pack_prefix)
  show ?thesis
    using code small body whole
    by (simp add: read_plain_def Pack_prefix codec_simps read_code_frame len)
qed

section \<open>Deobfuscation undoes obfuscation\<close>

text \<open>
  Specification of the cipher both loops implement: each chunk of four bytes is combined with
  the key, rotated once more for every chunk.
\<close>

function crypt :: "u32 \<Rightarrow> u8 list \<Rightarrow> u8 list" where
  "crypt key msg =
     (if msg = [] then []
      else xor_bytes (WriteUint32 (rotate31 key)) (take 4 msg) @ crypt (rotate31 key) (drop 4 msg))"
  by pat_completeness auto
termination
  by (relation "measure (\<lambda>(key, msg). length msg)") auto

declare crypt.simps [simp del]

lemma crypt_Nil [simp]: "crypt key [] = []"
  by (simp add: crypt.simps)

lemma crypt_append:
  "length xs = 4 \<Longrightarrow>
   crypt key (xs @ ys) = xor_bytes (WriteUint32 (rotate31 key)) xs @ crypt (rotate31 key) ys"
  by (cases "xs = []") (simp_all add: crypt.simps [of key "xs @ ys"])

lemma length_xor_bytes [simp]: "length (xor_bytes key bs) = min (length key) (length bs)"
  by (simp add: xor_bytes_def)

lemma xor_bytes_cancel:
  "length bs \<le> length key \<Longrightarrow> xor_bytes key (xor_bytes key bs) = bs"
proof (induction bs arbitrary: key)
  case Nil
  then show ?case by (simp add: xor_bytes_def)
next
  case (Cons b bs)
  then obtain k key' where "key = k # key'" by (cases key) auto
  with Cons show ?case by (simp add: xor_bytes_def flip: xor.assoc)
qed

lemma deob_chunk_xor:
  assumes "length bs = n" and "n \<le> 4"
  shows "deob_chunk (WriteUint32 w) n (xor_bytes (WriteUint32 w) bs @ conn) = Inr (bs, conn)"
  using assms by (simp add: deob_chunk_def xor_bytes_cancel)

lemma rotateKey_WriteUint32: "rotateKey (WriteUint32 w) = Inr (WriteUint32 (rotate31 w))"
  by (simp add: rotateKey_def codec_simps)

lemma WriteUint32_four: "\<exists>a b c d. WriteUint32 w = [a, b, c, d]"
proof -
  obtain a b c d ys where "WriteUint32 w = a # b # c # d # ys"
    using length_ge_4 [of "WriteUint32 w"] by auto
  with length_WriteUint32 [of w] show ?thesis by simp
qed

lemma mod4_steps:
  assumes "k mod 4 = (0::nat)"
  shows "Suc k mod 4 = 1" "Suc (Suc k) mod 4 = 2" "Suc (Suc (Suc k)) mod 4 = 3"
    "Suc (Suc (Suc (Suc k))) mod 4 = 0"
proof -
  obtain q where k: "k = 4 * q" using assms by (metis mod_0_imp_dvd dvdE)
  show "Suc k mod 4 = 1" "Suc (Suc k) mod 4 = 2" "Suc (Suc (Suc k)) mod 4 = 3"
    "Suc (Suc (Suc (Suc k))) mod 4 = 0"
    unfolding k by (simp_all add: mod_Suc)
qed

lemma obfuscate_loop_crypt:
  "k mod 4 = 0 \<Longrightarrow>
   obfuscate_loop k (WriteUint32 (rotate31 key)) [] msg = Inr (crypt key msg)"
proof (induction "length msg" arbitrary: k key msg rule: less_induct)
  case less
  obtain r0 r1 r2 r3 where r: "WriteUint32 (rotate31 key) = [r0, r1, r2, r3]"
    using WriteUint32_four by blast
  have rot: "rotateKey [r0, r1, r2, r3] = Inr (WriteUint32 (rotate31 (rotate31 key)))"
    using rotateKey_WriteUint32 [of "rotate31 key"] r by simp
  note step = mod4_steps [OF less.prems]
  show ?case
  proof (cases "length msg < 4")
    case True
    then consider "msg = []" | a where "msg = [a]" | a b where "msg = [a, b]"
      | a b c where "msg = [a, b, c]"
      by (cases msg; cases "tl msg"; cases "tl (tl msg)"; cases "tl (tl (tl msg))") auto
    then show ?thesis
      using less.prems step
      by cases (simp_all add: r crypt.simps [of key] xor_bytes_def)
  next
    case False
    then obtain a b c d rest where msg: "msg = [a, b, c, d] @ rest"
      using length_ge_4 [of msg] by auto
    have "obfuscate_loop (Suc (Suc (Suc (Suc k)))) (WriteUint32 (rotate31 (rotate31 key))) [] rest
        = Inr (crypt (rotate31 key) rest)"
      using less.hyps step(4) by (simp add: msg)
    then show ?thesis
      using less.prems step rot crypt_append [of "[a, b, c, d]" key rest]
      by (simp add: msg r xor_bytes_def)
  qed
qed

lemma obfuscate_crypt:
  assumes "length key = 4"
  shows "obfuscate key msg = Inr (key @ crypt (get_u32 key) msg)"
proof -
  have "key = WriteUint32 (get_u32 key)"
    using assms by (simp add: WriteUint32_def put_get_u32)
  then have "rotateKey key = Inr (WriteUint32 (rotate31 (get_u32 key)))"
    using rotateKey_WriteUint32 by metis
  then show ?thesis
    by (simp add: obfuscate_def obfuscate_loop_crypt)
qed

lemma deob_body_crypt:
  "msg \<noteq> [] \<Longrightarrow>
   deob_body key (r + length msg) r message (crypt key msg @ rest) = Inr (message @ msg, rest)"
proof (induction key msg arbitrary: r message rule: crypt.induct)
  case (1 key msg)
  let ?k = "rotate31 key" and ?n = "min 4 (length msg)"
  have "crypt key msg @ rest
      = xor_bytes (WriteUint32 ?k) (take 4 msg) @ crypt ?k (drop 4 msg) @ rest"
    using "1.prems" by (simp add: crypt.simps [of key msg])
  moreover have "deob_chunk (WriteUint32 ?k) ?n
        (xor_bytes (WriteUint32 ?k) (take 4 msg) @ crypt ?k (drop 4 msg) @ rest)
      = Inr (take 4 msg, crypt ?k (drop 4 msg) @ rest)"
    by (rule deob_chunk_xor) simp_all
  ultimately have chunk: "deob_chunk (WriteUint32 ?k) ?n (crypt key msg @ rest)
      = Inr (take 4 msg, crypt ?k (drop 4 msg) @ rest)"
    by (simp only:)
  have len: "(if int (r + length msg) - int r < 4 then nat (int (r + length msg) - int r) else 4)
      = ?n" by auto
  show ?case
  proof (cases "length msg \<le> 4")
    case True
    then have n: "?n = length msg" by simp
    show ?thesis
      using True chunk len unfolding n
      by (simp only: deob_body.simps [of key "r + length msg"] Let_def) simp
  next
    case False
    have IH: "deob_body ?k (r + 4 + length (drop 4 msg)) (r + 4) (message @ take 4 msg)
          (crypt ?k (drop 4 msg) @ rest)
        = Inr ((message @ take 4 msg) @ drop 4 msg, rest)"
      using False by (intro "1.IH" "1.prems") auto
    have "r + 4 + length (drop 4 msg) = r + length msg" using False by simp
    with IH False chunk show ?thesis
      by (simp add: deob_body.simps [of key "r + length msg"] Let_def min_absorb1)
  qed
qed

lemma parse_chunk_exact [simp]: "get chunk = Inr (x, r) \<Longrightarrow> parse_chunk get chunk conn = Inr (x, conn)"
  by (simp add: parse_chunk_def)

lemma deobfuscateLimited_obfuscated:
  assumes key: "length key = 4" and code: "4 \<le> length data"
    and limit: "length data \<le> unat maxSize"
  shows "deobfuscateLimited isInit maxSize (key @ crypt (get_u32 key) (Pack data) @ rest)
       = Inr ((Pack data, word_of_nat (length data),
               frame_code (if isInit then CodePeerInit else CodePeer) data), rest)"
proof -
  define sz where "sz = (word_of_nat (length data) :: u32)"
  define kind where "kind = (if isInit then CodePeerInit else CodePeer)"
  let ?k0 = "get_u32 key" let ?k1 = "rotate31 ?k0" let ?k2 = "rotate31 ?k1"
  have len: "unat sz = length data"
    unfolding sz_def by (rule unat_length_le [OF limit])
  have small: "\<not> sz > maxSize" "sz \<noteq> 0"
    using limit len code by (auto simp: word_less_nat_alt)
  have pack: "Pack data = WriteUint32 sz @ data"
    by (simp add: Pack_prefix sz_def)
  have key0: "ReadUint32 key = Inr (?k0, [])"
    using u32.get_put_exact [of ?k0] key by (simp add: WriteUint32_def put_get_u32)
  have cipher: "crypt ?k0 (WriteUint32 sz @ data) @ rest
      = xor_bytes (WriteUint32 ?k1) (WriteUint32 sz)
        @ xor_bytes (WriteUint32 ?k2) (take 4 data) @ crypt ?k2 (drop 4 data) @ rest"
    using code crypt_append [of "WriteUint32 sz" ?k0 data]
      crypt_append [of "take 4 data" ?k1 "drop 4 data"]
    by simp
  have code4: "read_code kind (take 4 data)
      = Inr (frame_code kind data, drop (readAlready kind) (take 4 data))"
    using read_code_frame [of kind "take 4 data" "[]"] code
    by (simp add: frame_code_def readAlready_def)
  have body: "length data \<noteq> 4 \<Longrightarrow>
      deob_body ?k2 (length data) 4 (WriteUint32 sz @ take 4 data) (crypt ?k2 (drop 4 data) @ rest)
      = Inr (WriteUint32 sz @ data, rest)"
    using code deob_body_crypt [of "drop 4 data" ?k2 4 "WriteUint32 sz @ take 4 data" rest]
    by simp
  have "deobfuscateLimited isInit maxSize (key @ crypt ?k0 (WriteUint32 sz @ data) @ rest)
      = Inr ((WriteUint32 sz @ data, sz, frame_code kind data), rest)"
    using key key0 small len code4 body code
    by (cases "length data = 4")
      (simp_all add: deobfuscateLimited_def cipher Let_def deob_chunk_xor u32.get_put_exact
        flip: kind_def)
  then show ?thesis
    by (simp add: pack sz_def kind_def)
qed

section \<open>The contract of a connection\<close>

text \<open>
  What a session relies on when it reads frames: whatever body was packed and written, the next
  read returns exactly that frame, with its code, and leaves the bytes behind it.
\<close>

definition body_ok :: "code_kind \<Rightarrow> bool \<Rightarrow> u32 \<Rightarrow> u8 list \<Rightarrow> bool" where
  "body_ok k obfuscated maxSize data \<longleftrightarrow>
     (if obfuscated then 4 else readAlready k) \<le> length data \<and> length data \<le> unat maxSize"

definition ordinary_kind :: "code_kind \<Rightarrow> code_kind" where
  "ordinary_kind k = (if isInitOrDistributed k then CodePeerInit else CodePeer)"

lemma frame_code_ordinary [simp]: "frame_code (ordinary_kind k) data = frame_code k data"
  by (simp add: ordinary_kind_def frame_code_def readAlready_def)

lemma MessageReadLimited_MessageWrite:
  assumes "length key = 4" and "body_ok k obfuscated maxSize data"
    and "MessageWrite key (Pack data) obfuscated = Inr out"
  shows "MessageReadLimited k obfuscated maxSize (out @ rest)
       = Inr ((Pack data, word_of_nat (length data), frame_code k data), rest)"
proof (cases obfuscated)
  case False
  with assms have "out = Pack data" and "readAlready k \<le> length data"
    and "length data \<le> unat maxSize"
    by (simp_all add: MessageWrite_def body_ok_def)
  with False show ?thesis
    by (simp add: MessageReadLimited_def read_plain_frame)
next
  case True
  with assms have "out = key @ crypt (get_u32 key) (Pack data)"
    by (simp add: MessageWrite_def obfuscate_crypt)
  with True assms show ?thesis
    using deobfuscateLimited_obfuscated [of key data maxSize "isInitOrDistributed k" rest]
    by (simp add: MessageReadLimited_def body_ok_def flip: ordinary_kind_def)
qed

end
