(* ===== verification/Message.thy ===== *)
theory Message
  imports Framing
begin

text \<open>
  What every message type of \<open>soul/peer\<close>, \<open>soul/distributed\<close> and \<open>soul/server\<close> promises: its
  \<open>Serialize\<close> packs a body that starts with the message code, and its \<open>Deserialize\<close> reads that
  frame back to the same message. The locale states it once; each message type interprets it, and
  gets the end-to-end fact that what one side writes the other side receives, for plain and
  obfuscated connections alike.
\<close>

section \<open>The header every decoder reads\<close>

text \<open>The size is skipped, the code compared; four-byte and one-byte codes.\<close>

definition header32 :: "u32 \<Rightarrow> unit reader" where
  "header32 c =
     rthen ReadUint32 (\<lambda>_. rthen ReadUint32 (\<lambda>code.
       if code \<noteq> c then rfail MismatchingCodes else rret ()))"

definition header8 :: "u8 \<Rightarrow> unit reader" where
  "header8 c =
     rthen ReadUint32 (\<lambda>_. rthen ReadUint8 (\<lambda>code.
       if code \<noteq> c then rfail MismatchingCodes else rret ()))"

lemma header32_Pack [codec_simps]: "header32 c (Pack (WriteUint32 c @ body)) = Inr ((), body)"
  by (simp add: header32_def Pack_prefix codec_simps)

lemma header32_Pack_exact [codec_simps]: "header32 c (Pack (WriteUint32 c)) = Inr ((), [])"
  using header32_Pack [of c "[]"] by simp

lemma header8_Pack [codec_simps]: "header8 c (Pack (WriteUint8 c @ body)) = Inr ((), body)"
  by (simp add: header8_def Pack_prefix codec_simps)

lemma header32_mismatch:
  "c \<noteq> c' \<Longrightarrow> header32 c' (Pack (WriteUint32 c @ body)) = Inl MismatchingCodes"
  by (simp add: header32_def Pack_prefix codec_simps)

lemma frame_code32:
  "frame_code k (WriteUint32 c @ body) = unat c" if "\<not> isInitOrDistributed k"
proof -
  have "unat c < 256 ^ 4" using unat_less_exp [of c] by simp
  with that show ?thesis
    by (simp add: frame_code_def readAlready_def WriteUint32_def put_u32_def le_value_le_bytes)
qed

lemma frame_code8:
  "frame_code k (WriteUint8 c @ body) = unat c" if "isInitOrDistributed k"
  using that by (simp add: frame_code_def readAlready_def WriteUint8_def)

section \<open>Receiving a message\<close>

text \<open>A session reads one frame and hands its bytes to the decoder of the expected message.\<close>

definition receive :: "code_kind \<Rightarrow> bool \<Rightarrow> u32 \<Rightarrow> 'm reader \<Rightarrow> ('m \<times> nat) reader" where
  "receive k obfuscated maxSize deser =
     rthen (MessageReadLimited k obfuscated maxSize) (\<lambda>(frame, sz, code).
       case deser frame of Inl e \<Rightarrow> rfail e | Inr (m, _) \<Rightarrow> rret (m, code))"

locale frame_message =
  fixes ser :: "'m \<Rightarrow> wire_error + u8 list"
    and deser :: "'m reader"
    and ok :: "'m \<Rightarrow> bool"
    and body :: "'m \<Rightarrow> u8 list"
    and kind :: code_kind
    and code :: nat
  assumes ser_body: "ok m \<Longrightarrow> ser m = Inr (Pack (body m))"
    and deser_body: "ok m \<Longrightarrow> deser (Pack (body m)) = Inr (m, [])"
    and body_code: "ok m \<Longrightarrow> frame_code kind (body m) = code"
    and body_length: "ok m \<Longrightarrow> readAlready kind \<le> length (body m)"
begin

lemma roundtrip: "ok m \<Longrightarrow> rbind (ser m) deser = Inr (m, [])"
  by (simp add: ser_body deser_body)

lemma ser_injective:
  assumes "ok m" and "ok m'" and "ser m = ser m'"
  shows "m = m'"
proof -
  have "Inr (m, []) = rbind (ser m) deser" using roundtrip [OF assms(1)] by simp
  also have "\<dots> = rbind (ser m') deser" by (simp add: assms(3))
  also have "\<dots> = Inr (m', [])" by (rule roundtrip [OF assms(2)])
  finally show ?thesis by simp
qed

lemma write_receive:
  assumes "ok m" and "length key = 4" and "length (body m) \<le> unat maxSize"
    and "obfuscated \<longrightarrow> 4 \<le> length (body m)"
  shows "\<exists>out. rbind (ser m) (\<lambda>frame. MessageWrite key frame obfuscated) = Inr out \<and>
           receive kind obfuscated maxSize deser (out @ rest) = Inr ((m, code), rest)"
proof -
  obtain out where out: "MessageWrite key (Pack (body m)) obfuscated = Inr out"
    using obfuscate_crypt [OF assms(2)] by (cases obfuscated) (auto simp: MessageWrite_def)
  have "body_ok kind obfuscated maxSize (body m)"
    using assms body_length by (simp add: body_ok_def)
  from MessageReadLimited_MessageWrite [OF assms(2) this out] have
    "MessageReadLimited kind obfuscated maxSize (out @ rest)
      = Inr ((Pack (body m), word_of_nat (length (body m)), code), rest)"
    by (simp add: body_code assms(1))
  with out show ?thesis
    by (simp add: ser_body deser_body assms(1) receive_def)
qed

end

end
