(* ===== verification/PeerMessages.thy ===== *)
theory PeerMessages
  imports Message
begin

text \<open>
  The messages of \<open>internal/soulseek/soul/peer\<close> whose bodies are plain sequences of fields. The
  record of a message has the fields of its Go struct; \<open>error\<close>-valued reasons are the strings
  that travel. Message codes are four bytes wide, those of the two init messages one byte.
\<close>

section \<open>Reasons\<close>

text \<open>
  \<open>Reason\<close> maps the known texts to the package's error values; an unknown text becomes a new
  error with that text. The inverse is \<open>Error()\<close>.
\<close>

datatype reason =
    ErrBanned | ErrCancelled | ErrComplete | ErrFileNotShared | ErrFileReadError
  | ErrPendingShutdown | ErrQueued | ErrTooManyFiles | ErrTooManyMegabytes
  | OtherReason string

fun reason_Error :: "reason \<Rightarrow> string" where
  "reason_Error ErrBanned = ''Banned''"
| "reason_Error ErrCancelled = ''Cancelled''"
| "reason_Error ErrComplete = ''Complete''"
| "reason_Error ErrFileNotShared = ''File not shared.''"
| "reason_Error ErrFileReadError = ''File read error.''"
| "reason_Error ErrPendingShutdown = ''Pending shutdown.''"
| "reason_Error ErrQueued = ''Queued''"
| "reason_Error ErrTooManyFiles = ''Too many files''"
| "reason_Error ErrTooManyMegabytes = ''Too many megabytes''"
| "reason_Error (OtherReason s) = s"

definition Reason :: "string \<Rightarrow> reason" where
  "Reason r =
     (if r = reason_Error ErrBanned then ErrBanned
      else if r = reason_Error ErrCancelled then ErrCancelled
      else if r = reason_Error ErrComplete then ErrComplete
      else if r = reason_Error ErrFileNotShared then ErrFileNotShared
      else if r = reason_Error ErrFileReadError then ErrFileReadError
      else if r = reason_Error ErrPendingShutdown then ErrPendingShutdown
      else if r = reason_Error ErrQueued then ErrQueued
      else if r = reason_Error ErrTooManyFiles then ErrTooManyFiles
      else if r = reason_Error ErrTooManyMegabytes then ErrTooManyMegabytes
      else OtherReason r)"

text \<open>A reason is canonical when it is not one of the known texts in disguise.\<close>

definition reason_ok :: "reason \<Rightarrow> bool" where
  "reason_ok r \<longleftrightarrow> Reason (reason_Error r) = r \<and> str_ok (reason_Error r)"

lemma reason_Error_Reason: "reason_Error (Reason s) = s"
  by (simp add: Reason_def)

lemma reason_ok_known [simp]:
  "reason_ok ErrBanned" "reason_ok ErrCancelled" "reason_ok ErrComplete"
  "reason_ok ErrFileNotShared" "reason_ok ErrFileReadError" "reason_ok ErrPendingShutdown"
  "reason_ok ErrQueued" "reason_ok ErrTooManyFiles" "reason_ok ErrTooManyMegabytes"
  by (simp_all add: reason_ok_def Reason_def str_ok_def MaxMessageSize_unat)

section \<open>Connection init\<close>

record PeerInit =
  pi_Username :: string
  pi_ConnectionType :: string

definition MaxPeerInitUsernameSize :: u32 where
  "MaxPeerInitUsernameSize = 1024"

definition maxPeerInitConnectionTypeSize :: u32 where
  "maxPeerInitConnectionTypeSize = 1"

definition PeerInit_Serialize :: "PeerInit \<Rightarrow> wire_error + u8 list" where
  "PeerInit_Serialize message =
     (if pi_Username message = [] then Inl PeerInitUsernameEmpty
      else if length (pi_Username message) > unat MaxPeerInitUsernameSize then Inl MessageTooLarge
      else if length (pi_ConnectionType message) \<noteq> unat maxPeerInitConnectionTypeSize
      then Inl PeerInitTypeNotOneByte
      else Inr (Pack (WriteUint8 1 @ WriteString (pi_Username message)
             @ WriteString (pi_ConnectionType message) @ WriteUint32 0)))"

definition PeerInit_Deserialize :: "PeerInit reader" where
  "PeerInit_Deserialize =
     rthen (header8 1) (\<lambda>_.
     rthen ReadStringLen (\<lambda>usernameSize.
       if usernameSize = 0 then rfail PeerInitUsernameEmpty
       else if usernameSize > MaxPeerInitUsernameSize then rfail MessageTooLarge
       else rthen (ReadStringBody usernameSize) (\<lambda>username.
     rthen ReadStringLen (\<lambda>connectionTypeSize.
       if connectionTypeSize \<noteq> maxPeerInitConnectionTypeSize then rfail PeerInitTypeNotOneByte
       else rthen (ReadStringBody connectionTypeSize) (\<lambda>connType.
     rthen ReadUint32 (\<lambda>_.
     rret \<lparr>pi_Username = username, pi_ConnectionType = connType\<rparr>))))))"

definition PeerInit_ok :: "PeerInit \<Rightarrow> bool" where
  "PeerInit_ok m \<longleftrightarrow> pi_Username m \<noteq> [] \<and> length (pi_Username m) \<le> 1024
     \<and> length (pi_ConnectionType m) = 1"

definition PeerInit_body :: "PeerInit \<Rightarrow> u8 list" where
  "PeerInit_body m = WriteUint8 1 @ WriteString (pi_Username m)
     @ WriteString (pi_ConnectionType m) @ WriteUint32 0"

record PierceFirewall =
  pf_Token :: u32

definition PierceFirewall_Serialize :: "PierceFirewall \<Rightarrow> wire_error + u8 list" where
  "PierceFirewall_Serialize message =
     Inr (Pack (WriteUint8 0 @ WriteUint32 (pf_Token message)))"

definition PierceFirewall_Deserialize :: "PierceFirewall reader" where
  "PierceFirewall_Deserialize =
     rthen (header8 0) (\<lambda>_. rthen ReadUint32ToToken (\<lambda>token. rret \<lparr>pf_Token = token\<rparr>))"

lemma length_WriteUint8 [simp]: "length (WriteUint8 b) = 1"
  by (simp add: WriteUint8_def)

lemma length_WriteString [simp]: "length (WriteString s) = 4 + length s"
  by (simp add: WriteString_split)

lemma readAlready_simps [simp]:
  "readAlready CodeServer = 4" "readAlready CodePeer = 4"
  "readAlready CodePeerInit = 1" "readAlready CodeDistributed = 1"
  by (simp_all add: readAlready_def)

interpretation peer_init: frame_message PeerInit_Serialize PeerInit_Deserialize PeerInit_ok
  PeerInit_body CodePeerInit 1
proof unfold_locales
  fix m assume ok: "PeerInit_ok m"
  show "PeerInit_Serialize m = Inr (Pack (PeerInit_body m))"
    using ok by (simp add: PeerInit_Serialize_def PeerInit_body_def PeerInit_ok_def
        MaxPeerInitUsernameSize_def maxPeerInitConnectionTypeSize_def)
  have s: "str_ok (pi_Username m)" "str_ok (pi_ConnectionType m)"
    using ok by (simp_all add: PeerInit_ok_def str_ok_def MaxMessageSize_unat)
  have n: "unat (word_of_nat (length (pi_Username m)) :: u32) = length (pi_Username m)"
    using ok by (intro unat_length_u32) (simp add: PeerInit_ok_def)
  then have "(word_of_nat (length (pi_Username m)) :: u32) \<noteq> 0"
    "\<not> word_of_nat (length (pi_Username m)) > MaxPeerInitUsernameSize"
    using ok by (auto simp: PeerInit_ok_def word_less_nat_alt MaxPeerInitUsernameSize_def)
  then show "PeerInit_Deserialize (Pack (PeerInit_body m)) = Inr (m, [])"
    using ok s ReadStringBody_bytes_of [OF s(2)]
    by (simp add: PeerInit_Deserialize_def PeerInit_body_def PeerInit_ok_def codec_simps
        WriteString_split maxPeerInitConnectionTypeSize_def)
  show "frame_code CodePeerInit (PeerInit_body m) = 1"
    by (simp add: PeerInit_body_def frame_code8)
  show "readAlready CodePeerInit \<le> length (PeerInit_body m)"
    by (simp add: PeerInit_body_def)
qed

interpretation pierce_firewall: frame_message PierceFirewall_Serialize PierceFirewall_Deserialize
  "\<lambda>_. True" "\<lambda>m. WriteUint8 0 @ WriteUint32 (pf_Token m)" CodePeerInit 0
  by unfold_locales
    (simp_all add: PierceFirewall_Serialize_def PierceFirewall_Deserialize_def codec_simps frame_code8)

section \<open>Transfers and queues\<close>

record QueueUpload =
  qu_Filename :: string

definition QueueUpload_Serialize :: "QueueUpload \<Rightarrow> wire_error + u8 list" where
  "QueueUpload_Serialize message =
     Inr (Pack (WriteUint32 43 @ WriteString (qu_Filename message)))"

definition QueueUpload_Deserialize :: "QueueUpload reader" where
  "QueueUpload_Deserialize =
     rthen (header32 43) (\<lambda>_. rthen ReadString (\<lambda>filename.
     rret \<lparr>qu_Filename = filename\<rparr>))"

interpretation queueupload_msg: frame_message QueueUpload_Serialize QueueUpload_Deserialize
  "\<lambda>m. str_ok (qu_Filename m)"
  "\<lambda>m. WriteUint32 43 @ WriteString (qu_Filename m)" CodePeer 43
  by unfold_locales
    (simp_all add: QueueUpload_Serialize_def QueueUpload_Deserialize_def codec_simps frame_code32)

record UploadFailed =
  uf_Filename :: string

definition UploadFailed_Serialize :: "UploadFailed \<Rightarrow> wire_error + u8 list" where
  "UploadFailed_Serialize message =
     Inr (Pack (WriteUint32 46 @ WriteString (uf_Filename message)))"

definition UploadFailed_Deserialize :: "UploadFailed reader" where
  "UploadFailed_Deserialize =
     rthen (header32 46) (\<lambda>_. rthen ReadString (\<lambda>filename.
     rret \<lparr>uf_Filename = filename\<rparr>))"

interpretation uploadfailed_msg: frame_message UploadFailed_Serialize UploadFailed_Deserialize
  "\<lambda>m. str_ok (uf_Filename m)"
  "\<lambda>m. WriteUint32 46 @ WriteString (uf_Filename m)" CodePeer 46
  by unfold_locales
    (simp_all add: UploadFailed_Serialize_def UploadFailed_Deserialize_def codec_simps frame_code32)

record PlaceInQueueRequest =
  pqr_Filename :: string

definition PlaceInQueueRequest_Serialize :: "PlaceInQueueRequest \<Rightarrow> wire_error + u8 list" where
  "PlaceInQueueRequest_Serialize message =
     Inr (Pack (WriteUint32 51 @ WriteString (pqr_Filename message)))"

definition PlaceInQueueRequest_Deserialize :: "PlaceInQueueRequest reader" where
  "PlaceInQueueRequest_Deserialize =
     rthen (header32 51) (\<lambda>_. rthen ReadString (\<lambda>filename.
     rret \<lparr>pqr_Filename = filename\<rparr>))"

interpretation placeinqueuerequest_msg: frame_message PlaceInQueueRequest_Serialize PlaceInQueueRequest_Deserialize
  "\<lambda>m. str_ok (pqr_Filename m)"
  "\<lambda>m. WriteUint32 51 @ WriteString (pqr_Filename m)" CodePeer 51
  by unfold_locales
    (simp_all add: PlaceInQueueRequest_Serialize_def PlaceInQueueRequest_Deserialize_def codec_simps frame_code32)

record PlaceInQueueResponse =
  pq_Filename :: string
  pq_Place :: u32

definition PlaceInQueueResponse_Serialize :: "PlaceInQueueResponse \<Rightarrow> wire_error + u8 list" where
  "PlaceInQueueResponse_Serialize message =
     Inr (Pack (WriteUint32 44 @ WriteString (pq_Filename message) @ WriteUint32 (pq_Place message)))"

definition PlaceInQueueResponse_Deserialize :: "PlaceInQueueResponse reader" where
  "PlaceInQueueResponse_Deserialize =
     rthen (header32 44) (\<lambda>_. rthen ReadString (\<lambda>filename. rthen ReadUint32 (\<lambda>place.
     rret \<lparr>pq_Filename = filename, pq_Place = place\<rparr>)))"

interpretation placeinqueueresponse_msg: frame_message PlaceInQueueResponse_Serialize PlaceInQueueResponse_Deserialize
  "\<lambda>m. str_ok (pq_Filename m)"
  "\<lambda>m. WriteUint32 44 @ WriteString (pq_Filename m) @ WriteUint32 (pq_Place m)" CodePeer 44
  by unfold_locales
    (simp_all add: PlaceInQueueResponse_Serialize_def PlaceInQueueResponse_Deserialize_def codec_simps frame_code32)

text \<open>
  \<open>TransferDirection\<close> is an \<open>int\<close> that travels as a \<open>uint32\<close>; the file size is present only in
  the upload direction, and stays zero in the other.
\<close>

definition DownloadFromPeer :: int where
  "DownloadFromPeer = 0"

definition UploadToPeer :: int where
  "UploadToPeer = 1"

record TransferRequest =
  tr_Direction :: int
  tr_Token :: u32
  tr_Filename :: string
  tr_FileSize :: u64

definition TransferRequest_body :: "TransferRequest \<Rightarrow> u8 list" where
  "TransferRequest_body message =
     WriteUint32 40 @ WriteIntAsUint32 (tr_Direction message) @ WriteUint32 (tr_Token message)
     @ WriteString (tr_Filename message)
     @ (if tr_Direction message = UploadToPeer then WriteUint64 (tr_FileSize message) else [])"

definition TransferRequest_Serialize :: "TransferRequest \<Rightarrow> wire_error + u8 list" where
  "TransferRequest_Serialize message = Inr (Pack (TransferRequest_body message))"

definition TransferRequest_Deserialize :: "TransferRequest reader" where
  "TransferRequest_Deserialize =
     rthen (header32 40) (\<lambda>_. rthen ReadUint32 (\<lambda>direction. rthen ReadUint32ToToken (\<lambda>token.
     rthen ReadString (\<lambda>filename.
       if uint direction = UploadToPeer
       then rthen ReadUint64 (\<lambda>fileSize. rret
         \<lparr>tr_Direction = uint direction, tr_Token = token, tr_Filename = filename,
          tr_FileSize = fileSize\<rparr>)
       else rret
         \<lparr>tr_Direction = uint direction, tr_Token = token, tr_Filename = filename,
          tr_FileSize = 0\<rparr>))))"

definition TransferRequest_ok :: "TransferRequest \<Rightarrow> bool" where
  "TransferRequest_ok m \<longleftrightarrow> u32_range (tr_Direction m) \<and> str_ok (tr_Filename m)
     \<and> (tr_Direction m \<noteq> UploadToPeer \<longrightarrow> tr_FileSize m = 0)"

lemma uint_word_of_int_u32: "u32_range v \<Longrightarrow> uint (word_of_int v :: u32) = v"
  by (simp add: u32_range_def uint_word_of_int)

interpretation transferrequest_msg: frame_message TransferRequest_Serialize
  TransferRequest_Deserialize TransferRequest_ok TransferRequest_body CodePeer 40
  by unfold_locales
    (auto simp: TransferRequest_Serialize_def TransferRequest_Deserialize_def
      TransferRequest_body_def TransferRequest_ok_def WriteIntAsUint32_def codec_simps
      frame_code32 uint_word_of_int_u32)

text \<open>
  A refusal carries its reason, which the peer may leave out: a frame that ends before the
  reason's length is a refusal without one, a frame that ends inside it is an error.
\<close>

record TransferResponse =
  ts_Token :: u32
  ts_Allowed :: bool
  ts_Reason :: "reason option"

definition TransferResponse_Serialize :: "TransferResponse \<Rightarrow> wire_error + u8 list" where
  "TransferResponse_Serialize message =
     (let head = WriteUint32 41 @ WriteUint32 (ts_Token message) @ WriteBool (ts_Allowed message)
      in if \<not> ts_Allowed message
         then (case ts_Reason message of
                 None \<Rightarrow> Inl NotAllowedWithNoReason
               | Some reason \<Rightarrow> Inr (Pack (head @ WriteString (reason_Error reason))))
         else Inr (Pack head))"

definition TransferResponse_Deserialize :: "TransferResponse reader" where
  "TransferResponse_Deserialize =
     rthen (header32 41) (\<lambda>_. rthen ReadUint32 (\<lambda>token. rthen ReadBool (\<lambda>allowed bs.
       if \<not> allowed
       then (case ReadStringLen bs of
               Inl err \<Rightarrow>
                 if err = EOF
                 then Inr (\<lparr>ts_Token = token, ts_Allowed = allowed, ts_Reason = None\<rparr>, bs)
                 else Inl err
             | Inr (sz, bs') \<Rightarrow>
                 rthen (ReadStringBody sz) (\<lambda>r. rret
                   \<lparr>ts_Token = token, ts_Allowed = allowed, ts_Reason = Some (Reason r)\<rparr>) bs')
       else Inr (\<lparr>ts_Token = token, ts_Allowed = allowed, ts_Reason = None\<rparr>, bs))))"

definition TransferResponse_ok :: "TransferResponse \<Rightarrow> bool" where
  "TransferResponse_ok m \<longleftrightarrow>
     (if ts_Allowed m then ts_Reason m = None
      else \<exists>r. ts_Reason m = Some r \<and> reason_ok r)"

definition TransferResponse_body :: "TransferResponse \<Rightarrow> u8 list" where
  "TransferResponse_body m =
     WriteUint32 41 @ WriteUint32 (ts_Token m) @ WriteBool (ts_Allowed m)
     @ (case ts_Reason m of None \<Rightarrow> [] | Some r \<Rightarrow> WriteString (reason_Error r))"

lemma ReadStringLen_WriteString [codec_simps]:
  "ReadStringLen (WriteString s @ rest) = Inr (word_of_nat (length s), bytes_of s @ rest)"
  "ReadStringLen (WriteString s) = Inr (word_of_nat (length s), bytes_of s)"
  by (simp_all add: WriteString_split codec_simps)

interpretation transferresponse_msg: frame_message TransferResponse_Serialize
  TransferResponse_Deserialize TransferResponse_ok TransferResponse_body CodePeer 41
  by unfold_locales
    (auto simp: TransferResponse_Serialize_def TransferResponse_Deserialize_def Let_def
      TransferResponse_body_def TransferResponse_ok_def reason_ok_def codec_simps frame_code32
      split: if_splits)

text \<open>\<open>UploadDenied\<close> calls \<open>Error()\<close> on its reason unconditionally: a nil reason panics.\<close>

record UploadDenied =
  ud_Filename :: string
  ud_Reason :: "reason option"

definition UploadDenied_Serialize :: "UploadDenied \<Rightarrow> wire_error + u8 list" where
  "UploadDenied_Serialize message =
     (case ud_Reason message of
        None \<Rightarrow> Inl NilDereference
      | Some reason \<Rightarrow> Inr (Pack (WriteUint32 50 @ WriteString (ud_Filename message)
          @ WriteString (reason_Error reason))))"

definition UploadDenied_Deserialize :: "UploadDenied reader" where
  "UploadDenied_Deserialize =
     rthen (header32 50) (\<lambda>_. rthen ReadString (\<lambda>filename. rthen ReadString (\<lambda>r.
     rret \<lparr>ud_Filename = filename, ud_Reason = Some (Reason r)\<rparr>)))"

definition UploadDenied_ok :: "UploadDenied \<Rightarrow> bool" where
  "UploadDenied_ok m \<longleftrightarrow> str_ok (ud_Filename m) \<and> (\<exists>r. ud_Reason m = Some r \<and> reason_ok r)"

definition UploadDenied_body :: "UploadDenied \<Rightarrow> u8 list" where
  "UploadDenied_body m = WriteUint32 50 @ WriteString (ud_Filename m)
     @ (case ud_Reason m of None \<Rightarrow> [] | Some r \<Rightarrow> WriteString (reason_Error r))"

interpretation uploaddenied_msg: frame_message UploadDenied_Serialize UploadDenied_Deserialize
  UploadDenied_ok UploadDenied_body CodePeer 50
  by unfold_locales
    (auto simp: UploadDenied_Serialize_def UploadDenied_Deserialize_def UploadDenied_body_def
      UploadDenied_ok_def reason_ok_def codec_simps frame_code32)

section \<open>Browsing and user info\<close>

record FolderContentsRequest =
  fcr_Token :: u32
  fcr_Folder :: string

definition FolderContentsRequest_Serialize :: "FolderContentsRequest \<Rightarrow> wire_error + u8 list" where
  "FolderContentsRequest_Serialize message =
     Inr (Pack (WriteUint32 36 @ WriteUint32 (fcr_Token message) @ WriteString (fcr_Folder message)))"

definition FolderContentsRequest_Deserialize :: "FolderContentsRequest reader" where
  "FolderContentsRequest_Deserialize =
     rthen (header32 36) (\<lambda>_. rthen ReadUint32ToToken (\<lambda>token. rthen ReadString (\<lambda>folder.
     rret \<lparr>fcr_Token = token, fcr_Folder = folder\<rparr>)))"

interpretation foldercontentsrequest_msg: frame_message FolderContentsRequest_Serialize
  FolderContentsRequest_Deserialize "\<lambda>m. str_ok (fcr_Folder m)"
  "\<lambda>m. WriteUint32 36 @ WriteUint32 (fcr_Token m) @ WriteString (fcr_Folder m)" CodePeer 36
  by unfold_locales
    (simp_all add: FolderContentsRequest_Serialize_def FolderContentsRequest_Deserialize_def
      codec_simps frame_code32)

definition SharedFileListRequest_Serialize :: "unit \<Rightarrow> wire_error + u8 list" where
  "SharedFileListRequest_Serialize message = Inr (Pack (WriteUint32 4))"

definition SharedFileListRequest_Deserialize :: "unit reader" where
  "SharedFileListRequest_Deserialize = header32 4"

interpretation sharedfilelistrequest_msg: frame_message SharedFileListRequest_Serialize
  SharedFileListRequest_Deserialize "\<lambda>_. True" "\<lambda>_. WriteUint32 4" CodePeer 4
  by unfold_locales
    (use frame_code32 [of CodePeer 4 "[]"] in \<open>simp_all add: SharedFileListRequest_Serialize_def
      SharedFileListRequest_Deserialize_def codec_simps\<close>)

definition UserInfoRequest_Serialize :: "unit \<Rightarrow> wire_error + u8 list" where
  "UserInfoRequest_Serialize message = Inr (Pack (WriteUint32 15))"

definition UserInfoRequest_Deserialize :: "unit reader" where
  "UserInfoRequest_Deserialize = header32 15"

interpretation userinforequest_msg: frame_message UserInfoRequest_Serialize
  UserInfoRequest_Deserialize "\<lambda>_. True" "\<lambda>_. WriteUint32 15" CodePeer 15
  by unfold_locales
    (use frame_code32 [of CodePeer 15 "[]"] in \<open>simp_all add: UserInfoRequest_Serialize_def
      UserInfoRequest_Deserialize_def codec_simps\<close>)

text \<open>A nil picture and an empty one differ: only the first is announced as absent.\<close>

record UserInfoResponse =
  ui_Description :: string
  ui_Picture :: "u8 list option"
  ui_TotalUpload :: u32
  ui_QueueSize :: u32
  ui_FreeSlots :: bool
  ui_UploadPermitted :: int

definition UserInfoResponse_body :: "UserInfoResponse \<Rightarrow> u8 list" where
  "UserInfoResponse_body message =
     WriteUint32 16 @ WriteString (ui_Description message)
     @ (case ui_Picture message of
          Some picture \<Rightarrow> WriteBool True @ WriteBytes picture
        | None \<Rightarrow> WriteBool False)
     @ WriteUint32 (ui_TotalUpload message) @ WriteUint32 (ui_QueueSize message)
     @ WriteBool (ui_FreeSlots message) @ WriteIntAsUint32 (ui_UploadPermitted message)"

definition UserInfoResponse_Serialize :: "UserInfoResponse \<Rightarrow> wire_error + u8 list" where
  "UserInfoResponse_Serialize message = Inr (Pack (UserInfoResponse_body message))"

definition UserInfoResponse_Deserialize :: "UserInfoResponse reader" where
  "UserInfoResponse_Deserialize =
     rthen (header32 16) (\<lambda>_. rthen ReadString (\<lambda>description. rthen ReadBool (\<lambda>hasPicture.
     rthen (if hasPicture then rthen ReadBytes (\<lambda>picture. rret (Some picture)) else rret None)
       (\<lambda>picture.
     rthen ReadUint32 (\<lambda>totalUpload. rthen ReadUint32 (\<lambda>queueSize. rthen ReadBool (\<lambda>freeSlots.
     rthen ReadUint32 (\<lambda>upload. rret
       \<lparr>ui_Description = description, ui_Picture = picture, ui_TotalUpload = totalUpload,
        ui_QueueSize = queueSize, ui_FreeSlots = freeSlots, ui_UploadPermitted = uint upload\<rparr>))))))))"

definition UserInfoResponse_ok :: "UserInfoResponse \<Rightarrow> bool" where
  "UserInfoResponse_ok m \<longleftrightarrow> str_ok (ui_Description m) \<and> u32_range (ui_UploadPermitted m)
     \<and> (\<forall>picture. ui_Picture m = Some picture \<longrightarrow> bytes_ok picture)"

interpretation userinforesponse_msg: frame_message UserInfoResponse_Serialize
  UserInfoResponse_Deserialize UserInfoResponse_ok UserInfoResponse_body CodePeer 16
  by unfold_locales
    (auto simp: UserInfoResponse_Serialize_def UserInfoResponse_Deserialize_def
      UserInfoResponse_body_def UserInfoResponse_ok_def WriteIntAsUint32_def codec_simps
      frame_code32 uint_word_of_int_u32 split: option.splits)

end
