(* ===== verification/PeerShares.thy ===== *)
theory PeerShares
  imports PeerMessages
begin

text \<open>
  The three compressed messages of \<open>internal/soulseek/soul/peer\<close>: \<open>FileSearchResponse\<close>,
  \<open>SharedFileListResponse\<close> and \<open>FolderContentsResponse\<close>. Their bodies are a code and a zlib
  stream of files and directories.

  \<open>compress/zlib\<close> is a parameter: \<open>deflate\<close> is what the writer emits for a payload, \<open>inflate n\<close>
  what reading at most \<open>n\<close> decompressed bytes from the rest of a frame returns. The code relies on
  one law of it, \<open>zlib_law\<close>: decompressing what was compressed gives back its first \<open>n\<close> bytes.

  The two counting writers of \<open>SharedFileListResponse\<close> are modelled by the number of bytes they
  still accept. The compressor hands its output to the outer one at times of its own choosing, so
  where a payload breaks both limits the model reports the inner failure.
\<close>

definition zlib_law :: "(u8 list \<Rightarrow> u8 list) \<Rightarrow> (nat \<Rightarrow> u8 list \<Rightarrow> wire_error + u8 list) \<Rightarrow> bool" where
  "zlib_law deflate inflate \<longleftrightarrow> (\<forall>n d. inflate n (deflate d) = Inr (take n d))"

section \<open>Files and directories\<close>

type_synonym Attribute = "int \<times> u32" \<comment> \<open>Code, Value\<close>

record File =
  file_Name :: string
  file_Size :: u64
  file_Extension :: string
  file_Attributes :: "Attribute list"

record Directory =
  dir_Name :: string
  dir_Files :: "File list"

definition write_attribute :: "Attribute \<Rightarrow> u8 list" where
  "write_attribute a = WriteIntAsUint32 (fst a) @ WriteUint32 (snd a)"

definition write_file :: "File \<Rightarrow> u8 list" where
  "write_file f =
     WriteUint8 1 @ WriteString (file_Name f) @ WriteUint64 (file_Size f)
     @ WriteString (file_Extension f) @ WriteUint32 (word_of_nat (length (file_Attributes f)))
     @ concat (map write_attribute (file_Attributes f))"

definition read_attribute :: "Attribute reader" where
  "read_attribute = rthen ReadUint32 (\<lambda>code. rthen ReadUint32 (\<lambda>value. rret (uint code, value)))"

definition readBrowseString :: "u32 \<Rightarrow> string reader" where
  "readBrowseString limit =
     rthen ReadStringLen (\<lambda>sz. if sz > limit then rfail MessageTooLarge else ReadStringBody sz)"

definition read_file :: "u32 \<Rightarrow> u32 \<Rightarrow> File reader" where
  "read_file attributeLimit stringLimit =
     rthen ReadUint8 (\<lambda>_. rthen (readBrowseString stringLimit) (\<lambda>name. rthen ReadUint64 (\<lambda>fsize.
     rthen (readBrowseString stringLimit) (\<lambda>extension. rthen ReadUint32 (\<lambda>attributeCount.
       if attributeCount > attributeLimit then rfail MessageTooLarge
       else rthen (read_times (unat attributeCount) read_attribute) (\<lambda>attributes. rret
         \<lparr>file_Name = name, file_Size = fsize, file_Extension = extension,
          file_Attributes = attributes\<rparr>))))))"

definition readBrowseFiles :: "u32 \<Rightarrow> u32 \<Rightarrow> u32 \<Rightarrow> File list reader" where
  "readBrowseFiles count attributeLimit stringLimit =
     read_times (unat count) (read_file attributeLimit stringLimit)"

text \<open>
  The directory loop; the count of files still allowed is shared by all directories of a message
  and returned with the result, as the source's pointer does.
\<close>

fun read_dirs :: "nat \<Rightarrow> u32 \<Rightarrow> u32 \<Rightarrow> u32 \<Rightarrow> (Directory list \<times> u32) reader" where
  "read_dirs 0 remainingFiles attributeLimit stringLimit = rret ([], remainingFiles)"
| "read_dirs (Suc n) remainingFiles attributeLimit stringLimit =
     rthen (readBrowseString stringLimit) (\<lambda>name. rthen ReadUint32 (\<lambda>fileCount.
       if fileCount > remainingFiles then rfail MessageTooLarge
       else rthen (readBrowseFiles fileCount attributeLimit stringLimit) (\<lambda>files.
       rthen (read_dirs n (remainingFiles - fileCount) attributeLimit stringLimit) (\<lambda>(ds, left). rret
         (\<lparr>dir_Name = name, dir_Files = files\<rparr> # ds, left)))))"

definition readBrowseDirectories ::
  "u32 \<Rightarrow> u32 \<Rightarrow> u32 \<Rightarrow> u32 \<Rightarrow> u32 \<Rightarrow> (Directory list \<times> u32 \<times> u32) reader" where
  "readBrowseDirectories count remainingDirectories remainingFiles attributeLimit stringLimit =
     (if count > remainingDirectories then rfail MessageTooLarge
      else rthen (read_dirs (unat count) remainingFiles attributeLimit stringLimit) (\<lambda>(ds, left).
        rret (ds, remainingDirectories - count, left)))"

definition readBoundedBrowsePayload ::
  "(nat \<Rightarrow> u8 list \<Rightarrow> wire_error + u8 list) \<Rightarrow> nat \<Rightarrow> u8 list \<Rightarrow> wire_error + u8 list" where
  "readBoundedBrowsePayload inflate limit rest =
     rbind (inflate (limit + 1) rest) (\<lambda>decompressed.
       if length decompressed > limit then Inl MessageTooLarge else Inr decompressed)"

lemma readBoundedBrowsePayload_deflate:
  "zlib_law deflate inflate \<Longrightarrow>
   readBoundedBrowsePayload inflate limit (deflate d)
     = (if length d > limit then Inl MessageTooLarge else Inr d)"
  by (auto simp: readBoundedBrowsePayload_def zlib_law_def)

section \<open>Codecs of the parts\<close>

definition attribute_ok :: "Attribute \<Rightarrow> bool" where
  "attribute_ok a \<longleftrightarrow> u32_range (fst a)"

definition stringLimit :: u32 where
  "stringLimit = push_bit 20 1"

definition name_ok :: "string \<Rightarrow> bool" where
  "name_ok s \<longleftrightarrow> length s \<le> 1048576"

definition file_ok :: "File \<Rightarrow> bool" where
  "file_ok f \<longleftrightarrow> name_ok (file_Name f) \<and> name_ok (file_Extension f)
     \<and> length (file_Attributes f) \<le> 32 \<and> (\<forall>a \<in> set (file_Attributes f). attribute_ok a)"

lemma stringLimit_unat: "unat stringLimit = 1048576"
  by (simp add: stringLimit_def)

lemma name_ok_str_ok: "name_ok s \<Longrightarrow> str_ok s"
  by (simp add: name_ok_def str_ok_def MaxMessageSize_unat)

lemma name_ok_not_above: "name_ok s \<Longrightarrow> \<not> (word_of_nat (length s) :: u32) > stringLimit"
  by (simp add: name_ok_def word_less_nat_alt stringLimit_unat unat_length_u32)

interpretation attribute: codec write_attribute read_attribute attribute_ok
  by unfold_locales
    (simp add: write_attribute_def read_attribute_def attribute_ok_def WriteIntAsUint32_def
      codec_simps uint_word_of_int_u32)

interpretation browse_string: codec WriteString "readBrowseString stringLimit" name_ok
  by unfold_locales
    (simp add: WriteString_split readBrowseString_def codec_simps name_ok_str_ok name_ok_not_above)

lemma small_list_unat:
  "length xs \<le> 1000000 \<Longrightarrow> unat (word_of_nat (length xs) :: u32) = length xs"
  by (rule unat_word_of_nat_id) simp

lemma attribute_count_ok: "length xs \<le> 32 \<Longrightarrow> \<not> (word_of_nat (length xs) :: u32) > 32"
  by (simp add: word_less_nat_alt small_list_unat)

interpretation shared_file: codec write_file "read_file 32 stringLimit" file_ok
  by unfold_locales
    (simp add: write_file_def read_file_def file_ok_def codec_simps attribute_count_ok
      small_list_unat)

definition write_directory :: "Directory \<Rightarrow> u8 list" where
  "write_directory d =
     WriteString (dir_Name d) @ WriteUint32 (word_of_nat (length (dir_Files d)))
     @ concat (map write_file (dir_Files d))"

definition directory_ok :: "Directory \<Rightarrow> bool" where
  "directory_ok d \<longleftrightarrow> name_ok (dir_Name d) \<and> (\<forall>f \<in> set (dir_Files d). file_ok f)"

definition file_total :: "Directory list \<Rightarrow> nat" where
  "file_total ds = sum_list (map (\<lambda>d. length (dir_Files d)) ds)"

lemma readBrowseFiles_written [codec_simps]:
  assumes "\<forall>f \<in> set files. file_ok f" and "unat c = length files"
  shows "readBrowseFiles c 32 stringLimit (concat (map write_file files) @ rest) = Inr (files, rest)"
  using assms by (simp add: readBrowseFiles_def codec_simps)

lemma read_dirs_written:
  "\<lbrakk>\<forall>d \<in> set ds. directory_ok d; file_total ds \<le> unat left; unat left \<le> 1000000\<rbrakk> \<Longrightarrow>
   read_dirs (length ds) left 32 stringLimit (concat (map write_directory ds) @ rest)
     = Inr ((ds, left - word_of_nat (file_total ds)), rest)"
proof (induction ds arbitrary: left)
  case Nil
  then show ?case by (simp add: file_total_def)
next
  case (Cons d ds)
  let ?n = "length (dir_Files d)"
  have total: "file_total (d # ds) = ?n + file_total ds"
    by (simp add: file_total_def)
  with Cons.prems have n: "unat (word_of_nat ?n :: u32) = ?n"
    by (intro small_list_unat) simp
  have fits: "\<not> word_of_nat ?n > left"
    using Cons.prems total n by (simp add: word_less_nat_alt)
  then have sub: "unat (left - word_of_nat ?n) = unat left - ?n"
    using n by (simp add: unat_sub word_less_nat_alt word_le_nat_alt)
  have "read_dirs (length ds) (left - word_of_nat ?n) 32 stringLimit
        (concat (map write_directory ds) @ rest)
      = Inr ((ds, left - word_of_nat ?n - word_of_nat (file_total ds)), rest)"
    using Cons.prems total sub by (intro Cons.IH) auto
  moreover have "concat (map write_directory (d # ds)) @ rest
      = WriteString (dir_Name d) @ WriteUint32 (word_of_nat ?n)
        @ concat (map write_file (dir_Files d)) @ concat (map write_directory ds) @ rest"
    by (simp add: write_directory_def)
  ultimately show ?case
    using Cons.prems(1) n fits
    by (simp add: directory_ok_def codec_simps total diff_diff_eq)
qed

lemma readBrowseDirectories_written [codec_simps]:
  assumes "\<forall>d \<in> set ds. directory_ok d" and "file_total ds \<le> unat left" and "unat left \<le> 1000000"
    and "length ds \<le> unat dirsLeft" and "unat dirsLeft \<le> 100000"
  shows "readBrowseDirectories (word_of_nat (length ds)) dirsLeft left 32 stringLimit
      (concat (map write_directory ds) @ rest)
    = Inr ((ds, dirsLeft - word_of_nat (length ds), left - word_of_nat (file_total ds)), rest)"
proof -
  have n: "unat (word_of_nat (length ds) :: u32) = length ds"
    using assms(4,5) by (intro small_list_unat) simp
  then have "\<not> word_of_nat (length ds) > dirsLeft"
    using assms(4) by (simp add: word_less_nat_alt)
  with n show ?thesis
    by (simp add: readBrowseDirectories_def read_dirs_written [OF assms(1-3)])
qed

section \<open>Folder contents\<close>

record FolderContentsResponse =
  fc_Token :: u32
  fc_Folder :: string
  fc_Folders :: "Directory list"

definition FolderContentsResponse_payload :: "FolderContentsResponse \<Rightarrow> u8 list" where
  "FolderContentsResponse_payload message =
     WriteUint32 (fc_Token message) @ WriteString (fc_Folder message)
     @ WriteUint32 (word_of_nat (length (fc_Folders message)))
     @ concat (map write_directory (fc_Folders message))"

definition FolderContentsResponse_Serialize ::
  "(u8 list \<Rightarrow> u8 list) \<Rightarrow> FolderContentsResponse \<Rightarrow> wire_error + u8 list" where
  "FolderContentsResponse_Serialize deflate message =
     Inr (Pack (WriteUint32 37 @ deflate (FolderContentsResponse_payload message)))"

definition maxFolderContentsResponseDecompressedSize :: nat where
  "maxFolderContentsResponseDecompressedSize = 16 * 2 ^ 20"

definition FolderContentsResponse_Deserialize ::
  "(nat \<Rightarrow> u8 list \<Rightarrow> wire_error + u8 list) \<Rightarrow> FolderContentsResponse reader" where
  "FolderContentsResponse_Deserialize inflate =
     rthen (header32 37) (\<lambda>_ rest.
       rbind (readBoundedBrowsePayload inflate maxFolderContentsResponseDecompressedSize rest)
         (rthen ReadUint32ToToken (\<lambda>token. rthen (readBrowseString stringLimit) (\<lambda>folder.
          rthen ReadUint32 (\<lambda>folderCount.
          rthen (readBrowseDirectories folderCount 100000 1000000 32 stringLimit) (\<lambda>(folders, _, _).
          rret \<lparr>fc_Token = token, fc_Folder = folder, fc_Folders = folders\<rparr>))))))"

definition FolderContentsResponse_ok :: "FolderContentsResponse \<Rightarrow> bool" where
  "FolderContentsResponse_ok m \<longleftrightarrow> name_ok (fc_Folder m)
     \<and> (\<forall>d \<in> set (fc_Folders m). directory_ok d) \<and> length (fc_Folders m) \<le> 100000
     \<and> file_total (fc_Folders m) \<le> 1000000
     \<and> length (FolderContentsResponse_payload m) \<le> maxFolderContentsResponseDecompressedSize"

lemma readBrowseDirectories_written_all:
  assumes "\<forall>d \<in> set ds. directory_ok d" and "file_total ds \<le> 1000000" and "length ds \<le> 100000"
  shows "readBrowseDirectories (word_of_nat (length ds)) 100000 1000000 32 stringLimit
      (concat (map write_directory ds) @ rest)
    = Inr ((ds, 100000 - word_of_nat (length ds), 1000000 - word_of_nat (file_total ds)), rest)"
  using assms by (intro readBrowseDirectories_written) simp_all

lemma FolderContentsResponse_roundtrip:
  assumes "zlib_law deflate inflate" and "FolderContentsResponse_ok m"
  shows "rbind (FolderContentsResponse_Serialize deflate m)
      (FolderContentsResponse_Deserialize inflate) = Inr (m, [])"
  using assms readBrowseDirectories_written_all [of "fc_Folders m" "[]"]
  by (simp add: FolderContentsResponse_Serialize_def FolderContentsResponse_Deserialize_def
      FolderContentsResponse_ok_def FolderContentsResponse_payload_def codec_simps
      readBoundedBrowsePayload_deflate)

section \<open>Shared file lists\<close>

text \<open>
  A limited writer is what it has passed on and how many bytes it still accepts
  (\<open>sharedFileListLimitWriter\<close>); a write that does not fit is refused whole.
\<close>

type_synonym limit_writer = "u8 list \<times> int"

definition newSharedFileListLimitWriter :: "int \<Rightarrow> limit_writer" where
  "newSharedFileListLimitWriter limit = ([], limit)"

definition limit_Write :: "u8 list \<Rightarrow> limit_writer \<Rightarrow> wire_error + limit_writer" where
  "limit_Write p w =
     (if int (length p) > snd w then Inl MessageTooLarge
      else Inr (fst w @ p, snd w - int (length p)))"

fun write_each :: "('a \<Rightarrow> limit_writer \<Rightarrow> wire_error + limit_writer)
    \<Rightarrow> 'a list \<Rightarrow> limit_writer \<Rightarrow> wire_error + limit_writer" where
  "write_each emit [] w = Inr w"
| "write_each emit (x # xs) w = rbind (emit x w) (write_each emit xs)"

definition walkWrite_attribute :: "Attribute \<Rightarrow> limit_writer \<Rightarrow> wire_error + limit_writer" where
  "walkWrite_attribute a w =
     rbind (limit_Write (WriteIntAsUint32 (fst a)) w) (limit_Write (WriteUint32 (snd a)))"

definition walkWrite_file :: "File \<Rightarrow> limit_writer \<Rightarrow> wire_error + limit_writer" where
  "walkWrite_file f w =
     (if file_Name f = [] then Inl EmptyFileName
      else rbind (limit_Write (WriteUint8 1) w) (\<lambda>w.
        rbind (limit_Write (WriteString (file_Name f)) w) (\<lambda>w.
        rbind (limit_Write (WriteUint64 (file_Size f)) w) (\<lambda>w.
        rbind (limit_Write (WriteString (file_Extension f)) w) (\<lambda>w.
        rbind (limit_Write (WriteUint32 (word_of_nat (length (file_Attributes f)))) w) (\<lambda>w.
        write_each walkWrite_attribute (file_Attributes f) w))))))"

definition walkWrite_directory :: "Directory \<Rightarrow> limit_writer \<Rightarrow> wire_error + limit_writer" where
  "walkWrite_directory d w =
     (if dir_Name d = [] then Inl EmptyDirectoryName
      else rbind (limit_Write (WriteString (dir_Name d)) w) (\<lambda>w.
        rbind (limit_Write (WriteUint32 (word_of_nat (length (dir_Files d)))) w) (\<lambda>w.
        write_each walkWrite_file (dir_Files d) w)))"

definition walkWrite :: "Directory list \<Rightarrow> limit_writer \<Rightarrow> wire_error + limit_writer" where
  "walkWrite directories w =
     rbind (limit_Write (WriteUint32 (word_of_nat (length directories))) w)
       (write_each walkWrite_directory directories)"

record SharedFileListResponse =
  sf_Directories :: "Directory list"
  sf_PrivateDirectories :: "Directory list"

definition file_valid :: "File \<Rightarrow> bool" where
  "file_valid f \<longleftrightarrow> \<not> (length (file_Name f) > 1048576 \<or> length (file_Extension f) > 1048576)
     \<and> \<not> length (file_Attributes f) > 32"

fun validate_dirs :: "nat \<Rightarrow> Directory list \<Rightarrow> wire_error + nat" where
  "validate_dirs fileCount [] = Inr fileCount"
| "validate_dirs fileCount (d # ds) =
     (if length (dir_Name d) > 1048576 then Inl MessageTooLarge
      else if int (length (dir_Files d)) > 1000000 - int fileCount then Inl MessageTooLarge
      else if \<exists>f \<in> set (dir_Files d). \<not> file_valid f then Inl MessageTooLarge
      else validate_dirs (fileCount + length (dir_Files d)) ds)"

definition validateSharedFileList :: "SharedFileListResponse \<Rightarrow> wire_error + unit" where
  "validateSharedFileList message =
     (if length (sf_Directories message) > 100000
       \<or> int (length (sf_PrivateDirectories message)) > 100000 - int (length (sf_Directories message))
      then Inl MessageTooLarge
      else rbind (validate_dirs 0 (sf_Directories message)) (\<lambda>fileCount.
        rbind (validate_dirs fileCount (sf_PrivateDirectories message)) (\<lambda>_. Inr ())))"

definition MaxOrdinaryFrameSize :: nat where
  "MaxOrdinaryFrameSize = 16 * 2 ^ 20"

definition maxSharedFileListSerializedSize :: int where
  "maxSharedFileListSerializedSize = 256 * 2 ^ 20"

definition maxSharedFileListDecompressedSize :: nat where
  "maxSharedFileListDecompressedSize = 16 * 2 ^ 20"

definition SharedFileListResponse_Serialize ::
  "(u8 list \<Rightarrow> u8 list) \<Rightarrow> SharedFileListResponse \<Rightarrow> wire_error + u8 list" where
  "SharedFileListResponse_Serialize deflate message =
     rbind (validateSharedFileList message) (\<lambda>_.
     rbind (walkWrite (sf_Directories message)
        (newSharedFileListLimitWriter maxSharedFileListSerializedSize)) (\<lambda>w.
     rbind (limit_Write (WriteUint32 0) w) (\<lambda>w.
     rbind (walkWrite (sf_PrivateDirectories message) w) (\<lambda>w.
     let frame = WriteUint32 5 @ deflate (fst w) in
       if length frame > MaxOrdinaryFrameSize then Inl MessageTooLarge else Inr (Pack frame)))))"

definition SharedFileListResponse_Deserialize ::
  "(nat \<Rightarrow> u8 list \<Rightarrow> wire_error + u8 list) \<Rightarrow> SharedFileListResponse reader" where
  "SharedFileListResponse_Deserialize inflate =
     rthen (header32 5) (\<lambda>_ rest.
       rbind (readBoundedBrowsePayload inflate maxSharedFileListDecompressedSize rest)
         (rthen ReadUint32 (\<lambda>directories.
          rthen (readBrowseDirectories directories 100000 1000000 32 stringLimit)
            (\<lambda>(dirs, remainingDirectories, remainingFiles).
          rthen ReadUint32 (\<lambda>_. rthen ReadUint32 (\<lambda>privateDirectories.
          rthen (readBrowseDirectories privateDirectories remainingDirectories remainingFiles 32
              stringLimit) (\<lambda>(private, _, _).
          rret \<lparr>sf_Directories = dirs, sf_PrivateDirectories = private\<rparr>)))))))"

subsection \<open>Limited writes deliver exactly the unlimited bytes\<close>

lemma limit_Write_twice: "rbind (limit_Write p w) (limit_Write q) = limit_Write (p @ q) w"
  by (auto simp: limit_Write_def)

lemma limit_Write_rest:
  "rbind (limit_Write p w) (\<lambda>w. rbind (limit_Write q w) f) = rbind (limit_Write (p @ q) w) f"
  by (auto simp: limit_Write_def rbind_def diff_diff_eq)

text \<open>
  The contract of a limited emitter: it is one limited write of the bytes that the unlimited
  encoding of its argument has.
\<close>

locale emitter =
  fixes emit :: "'a \<Rightarrow> limit_writer \<Rightarrow> wire_error + limit_writer"
    and bytes :: "'a \<Rightarrow> u8 list"
    and valid :: "'a \<Rightarrow> bool"
  assumes emit: "valid x \<Longrightarrow> emit x w = limit_Write (bytes x) w"
begin

lemma write_each_emit:
  "\<lbrakk>\<forall>x \<in> set xs. valid x; 0 \<le> snd w\<rbrakk> \<Longrightarrow>
   write_each emit xs w = limit_Write (concat (map bytes xs)) w"
proof (induction xs arbitrary: w)
  case Nil
  then show ?case by (simp add: limit_Write_def)
next
  case (Cons x xs)
  then have "rbind (limit_Write (bytes x) w) (write_each emit xs)
      = rbind (limit_Write (bytes x) w) (limit_Write (concat (map bytes xs)))"
    by (auto simp: limit_Write_def)
  with Cons.prems show ?case
    by (simp add: emit limit_Write_twice)
qed

lemma limit_then_each:
  "\<forall>x \<in> set xs. valid x \<Longrightarrow>
   rbind (limit_Write p w) (write_each emit xs) = limit_Write (p @ concat (map bytes xs)) w"
  by (auto simp: write_each_emit limit_Write_def)

end

interpretation attribute_emitter: emitter walkWrite_attribute write_attribute "\<lambda>_. True"
  by unfold_locales (simp add: walkWrite_attribute_def limit_Write_twice write_attribute_def)

interpretation file_emitter: emitter walkWrite_file write_file "\<lambda>f. file_Name f \<noteq> []"
  by unfold_locales
    (simp add: walkWrite_file_def limit_Write_rest limit_Write_twice
      attribute_emitter.limit_then_each write_file_def)

definition directory_named :: "Directory \<Rightarrow> bool" where
  "directory_named d \<longleftrightarrow> dir_Name d \<noteq> [] \<and> (\<forall>f \<in> set (dir_Files d). file_Name f \<noteq> [])"

interpretation directory_emitter: emitter walkWrite_directory write_directory directory_named
  by unfold_locales
    (simp add: walkWrite_directory_def limit_Write_twice file_emitter.limit_then_each
      write_directory_def directory_named_def)

definition write_directories :: "Directory list \<Rightarrow> u8 list" where
  "write_directories ds = WriteUint32 (word_of_nat (length ds)) @ concat (map write_directory ds)"

interpretation walk_emitter: emitter walkWrite write_directories "\<lambda>ds. \<forall>d \<in> set ds. directory_named d"
  by unfold_locales
    (simp add: walkWrite_def directory_emitter.limit_then_each write_directories_def)

subsection \<open>Round trip\<close>

definition SharedFileListResponse_payload :: "SharedFileListResponse \<Rightarrow> u8 list" where
  "SharedFileListResponse_payload m =
     write_directories (sf_Directories m) @ WriteUint32 0
     @ write_directories (sf_PrivateDirectories m)"

definition SharedFileListResponse_ok :: "SharedFileListResponse \<Rightarrow> bool" where
  "SharedFileListResponse_ok m \<longleftrightarrow>
     (\<forall>d \<in> set (sf_Directories m @ sf_PrivateDirectories m). directory_ok d \<and> directory_named d)
     \<and> length (sf_Directories m) + length (sf_PrivateDirectories m) \<le> 100000
     \<and> file_total (sf_Directories m) + file_total (sf_PrivateDirectories m) \<le> 1000000
     \<and> length (SharedFileListResponse_payload m) \<le> maxSharedFileListDecompressedSize"

lemma validate_dirs_ok:
  "\<lbrakk>\<forall>d \<in> set ds. directory_ok d; n + file_total ds \<le> 1000000\<rbrakk> \<Longrightarrow>
   validate_dirs n ds = Inr (n + file_total ds)"
  by (induction ds arbitrary: n)
    (auto simp: file_total_def directory_ok_def name_ok_def file_valid_def file_ok_def)

lemma validate_ok:
  "SharedFileListResponse_ok m \<Longrightarrow> validateSharedFileList m = Inr ()"
  by (simp add: validateSharedFileList_def SharedFileListResponse_ok_def validate_dirs_ok)

lemma SharedFileListResponse_written:
  assumes "SharedFileListResponse_ok m"
  shows "SharedFileListResponse_Serialize deflate m =
     (let frame = WriteUint32 5 @ deflate (SharedFileListResponse_payload m) in
      if length frame > MaxOrdinaryFrameSize then Inl MessageTooLarge else Inr (Pack frame))"
proof -
  have "int (length (SharedFileListResponse_payload m)) \<le> maxSharedFileListSerializedSize"
    using assms by (simp add: SharedFileListResponse_ok_def maxSharedFileListSerializedSize_def
        maxSharedFileListDecompressedSize_def)
  then have "limit_Write (SharedFileListResponse_payload m)
      (newSharedFileListLimitWriter maxSharedFileListSerializedSize)
    = Inr (SharedFileListResponse_payload m,
        maxSharedFileListSerializedSize - int (length (SharedFileListResponse_payload m)))"
    by (simp add: limit_Write_def newSharedFileListLimitWriter_def)
  with assms show ?thesis
    by (simp add: SharedFileListResponse_Serialize_def validate_ok SharedFileListResponse_ok_def
        walk_emitter.emit limit_Write_rest limit_Write_twice SharedFileListResponse_payload_def)
qed

lemma SharedFileListResponse_roundtrip:
  assumes zlib: "zlib_law deflate inflate" and ok: "SharedFileListResponse_ok m"
    and fits: "4 + length (deflate (SharedFileListResponse_payload m)) \<le> MaxOrdinaryFrameSize"
  shows "rbind (SharedFileListResponse_Serialize deflate m)
      (SharedFileListResponse_Deserialize inflate) = Inr (m, [])"
proof -
  let ?d = "sf_Directories m" and ?p = "sf_PrivateDirectories m"
  have n: "unat (100000 - word_of_nat (length ?d) :: u32) = 100000 - length ?d"
    "unat (1000000 - word_of_nat (file_total ?d) :: u32) = 1000000 - file_total ?d"
    using ok by (simp_all add: SharedFileListResponse_ok_def unat_sub word_le_nat_alt
        unat_word_of_nat_id)
  have dirs: "readBrowseDirectories (word_of_nat (length ?d)) 100000 1000000 32 stringLimit
      (concat (map write_directory ?d) @ rest)
    = Inr ((?d, 100000 - word_of_nat (length ?d), 1000000 - word_of_nat (file_total ?d)), rest)" for rest
    using ok by (intro readBrowseDirectories_written_all) (auto simp: SharedFileListResponse_ok_def)
  have "readBrowseDirectories (word_of_nat (length ?p)) (100000 - word_of_nat (length ?d))
      (1000000 - word_of_nat (file_total ?d)) 32 stringLimit (concat (map write_directory ?p) @ [])
    = Inr ((?p, 100000 - word_of_nat (length ?d) - word_of_nat (length ?p),
        1000000 - word_of_nat (file_total ?d) - word_of_nat (file_total ?p)), [])"
    using ok n by (intro readBrowseDirectories_written) (auto simp: SharedFileListResponse_ok_def)
  with fits ok zlib show ?thesis
    by (simp add: SharedFileListResponse_written Let_def SharedFileListResponse_Deserialize_def
        codec_simps readBoundedBrowsePayload_deflate SharedFileListResponse_ok_def
        SharedFileListResponse_payload_def write_directories_def dirs)
qed

section \<open>Search responses\<close>

record FileSearchResponse =
  fs_Username :: string
  fs_Token :: u32
  fs_Results :: "File list"
  fs_FreeSlot :: bool
  fs_AverageSpeed :: int
  fs_Queue :: int
  fs_PrivateResults :: "File list"

fun search_walkWrite :: "File list \<Rightarrow> wire_error + u8 list" where
  "search_walkWrite [] = Inr []"
| "search_walkWrite (f # fs) =
     (if file_Name f = [] then Inl EmptyFileName
      else rbind (search_walkWrite fs) (\<lambda>rest. Inr (write_file f @ rest)))"

definition search_head :: "FileSearchResponse \<Rightarrow> u8 list" where
  "search_head fs = WriteString (fs_Username fs) @ WriteUint32 (fs_Token fs)
     @ WriteUint32 (word_of_nat (length (fs_Results fs)))"

definition search_slots :: "FileSearchResponse \<Rightarrow> u8 list" where
  "search_slots fs = WriteBool (fs_FreeSlot fs) @ WriteIntAsUint32 (fs_AverageSpeed fs)
     @ WriteIntAsUint32 (fs_Queue fs)"

definition FileSearchResponse_Serialize ::
  "(u8 list \<Rightarrow> u8 list) \<Rightarrow> FileSearchResponse \<Rightarrow> wire_error + u8 list" where
  "FileSearchResponse_Serialize deflate fs =
     rbind (search_walkWrite (fs_Results fs)) (\<lambda>results.
     rbind (search_walkWrite (fs_PrivateResults fs)) (\<lambda>private.
     Inr (Pack (WriteUint32 9 @ deflate (search_head fs @ results @ search_slots fs
       @ WriteUint32 0 @ WriteUint32 (word_of_nat (length (fs_PrivateResults fs))) @ private)))))"

definition maxFileSearchResponseDecompressedSize :: nat where
  "maxFileSearchResponseDecompressedSize = 16 * 2 ^ 20"

definition search_walkRead :: "u32 \<Rightarrow> File list reader" where
  "search_walkRead numberOfFiles =
     (if numberOfFiles > 4096 then rfail MessageTooLarge
      else read_times (unat numberOfFiles) (read_file 32 stringLimit))"

text \<open>
  The tail: each of its two words may be missing altogether. The result is the private files;
  data behind them is an error, data in place of a missing word is a truncated word.
\<close>

definition search_tail :: "File list reader" where
  "search_tail payload =
     (case ReadUint32 payload of
        Inl err \<Rightarrow> if err = EOF then Inr ([], payload) else Inl err
      | Inr (_, payload') \<Rightarrow>
          (case ReadUint32 payload' of
             Inl err \<Rightarrow> if err = EOF then Inr ([], payload') else Inl err
           | Inr (privateResults, payload'') \<Rightarrow>
               rthen (search_walkRead privateResults) (\<lambda>files left.
                 if length left \<noteq> 0 then Inl UnexpectedSearchData else Inr (files, left))
                 payload''))"

definition search_payload :: "FileSearchResponse reader" where
  "search_payload =
     rthen (readBrowseString stringLimit) (\<lambda>username. rthen ReadUint32ToToken (\<lambda>token.
     rthen ReadUint32 (\<lambda>results. rthen (search_walkRead results) (\<lambda>files.
     rthen ReadBool (\<lambda>freeSlot. rthen ReadUint32ToInt (\<lambda>averageSpeed.
     rthen ReadUint32ToInt (\<lambda>queue. rthen search_tail (\<lambda>private.
     rret \<lparr>fs_Username = username, fs_Token = token, fs_Results = files, fs_FreeSlot = freeSlot,
       fs_AverageSpeed = averageSpeed, fs_Queue = queue, fs_PrivateResults = private\<rparr>))))))))"

definition FileSearchResponse_Deserialize ::
  "(nat \<Rightarrow> u8 list \<Rightarrow> wire_error + u8 list) \<Rightarrow> FileSearchResponse reader" where
  "FileSearchResponse_Deserialize inflate =
     rthen (header32 9) (\<lambda>_ rest.
       rbind (readBoundedBrowsePayload inflate maxFileSearchResponseDecompressedSize rest)
         search_payload)"

subsection \<open>Round trip\<close>

definition FileSearchResponse_payload :: "FileSearchResponse \<Rightarrow> u8 list" where
  "FileSearchResponse_payload fs =
     search_head fs @ concat (map write_file (fs_Results fs)) @ search_slots fs @ WriteUint32 0
     @ WriteUint32 (word_of_nat (length (fs_PrivateResults fs)))
     @ concat (map write_file (fs_PrivateResults fs))"

definition search_files_ok :: "File list \<Rightarrow> bool" where
  "search_files_ok fs \<longleftrightarrow> length fs \<le> 4096 \<and> (\<forall>f \<in> set fs. file_ok f \<and> file_Name f \<noteq> [])"

definition FileSearchResponse_ok :: "FileSearchResponse \<Rightarrow> bool" where
  "FileSearchResponse_ok m \<longleftrightarrow> name_ok (fs_Username m) \<and> search_files_ok (fs_Results m)
     \<and> search_files_ok (fs_PrivateResults m) \<and> u32_range (fs_AverageSpeed m)
     \<and> u32_range (fs_Queue m)
     \<and> length (FileSearchResponse_payload m) \<le> maxFileSearchResponseDecompressedSize"

lemma search_walkWrite_ok:
  "search_files_ok fs \<Longrightarrow> search_walkWrite fs = Inr (concat (map write_file fs))"
  by (induction fs) (simp_all add: search_files_ok_def)

lemma search_walkRead_written [codec_simps]:
  "search_files_ok fs \<Longrightarrow>
   search_walkRead (word_of_nat (length fs)) (concat (map write_file fs) @ rest) = Inr (fs, rest)"
  by (simp add: search_walkRead_def search_files_ok_def word_less_nat_alt small_list_unat
      codec_simps)

lemma search_tail_written [codec_simps]:
  assumes "search_files_ok fs"
  shows "search_tail (WriteUint32 0 @ WriteUint32 (word_of_nat (length fs))
    @ concat (map write_file fs)) = Inr (fs, [])"
  using assms search_walkRead_written [of fs "[]"] by (simp add: search_tail_def codec_simps)

lemma search_tail_missing [simp]:
  "search_tail [] = Inr ([], [])" "search_tail (WriteUint32 w) = Inr ([], [])"
  by (simp_all add: search_tail_def codec_simps ReadUint32_def rthen_def read_full_def)

text \<open>The decoder on any payload that starts like a response and ends in a tail it accepts.\<close>

lemma search_payload_tail:
  assumes "name_ok (fs_Username m)" and "search_files_ok (fs_Results m)"
    and "u32_range (fs_AverageSpeed m)" and "u32_range (fs_Queue m)"
    and "search_tail tail = Inr (private, [])"
  shows "search_payload
      (search_head m @ concat (map write_file (fs_Results m)) @ search_slots m @ tail)
    = Inr (m\<lparr>fs_PrivateResults := private\<rparr>, [])"
  using assms by (simp add: search_payload_def search_head_def search_slots_def codec_simps)

lemma FileSearchResponse_roundtrip:
  assumes "zlib_law deflate inflate" and "FileSearchResponse_ok m"
  shows "rbind (FileSearchResponse_Serialize deflate m)
      (FileSearchResponse_Deserialize inflate) = Inr (m, [])"
proof -
  have "search_payload (FileSearchResponse_payload m) = Inr (m, [])"
    using assms(2) search_payload_tail [OF _ _ _ _ search_tail_written, of m "fs_PrivateResults m"]
    by (simp add: FileSearchResponse_ok_def FileSearchResponse_payload_def)
  with assms show ?thesis
    by (simp add: FileSearchResponse_Serialize_def FileSearchResponse_Deserialize_def
        FileSearchResponse_ok_def search_walkWrite_ok codec_simps readBoundedBrowsePayload_deflate
        FileSearchResponse_payload_def)
qed

end
