(* ===== verification/DistMessages.thy ===== *)
theory DistMessages
  imports PeerMessages
begin

text \<open>
  The messages of the distributed search network (\<open>internal/soulseek/soul/distributed\<close>) and
  the two unframed messages of a file connection (\<open>internal/soulseek/soul/file\<close>). Distributed
  codes are one byte wide, file messages have neither size nor code.
\<close>

section \<open>Distributed messages\<close>

record BranchLevel =
  bl_Level :: i32

definition BranchLevel_Serialize :: "BranchLevel \<Rightarrow> wire_error + u8 list" where
  "BranchLevel_Serialize message = Inr (Pack (WriteUint8 4 @ WriteInt32 (bl_Level message)))"

definition BranchLevel_Deserialize :: "BranchLevel reader" where
  "BranchLevel_Deserialize =
     rthen (header8 4) (\<lambda>_. rthen ReadInt32 (\<lambda>level. rret \<lparr>bl_Level = level\<rparr>))"

interpretation branchlevel_msg: frame_message BranchLevel_Serialize BranchLevel_Deserialize
  "\<lambda>_. True" "\<lambda>m. WriteUint8 4 @ WriteInt32 (bl_Level m)" CodeDistributed 4
  by unfold_locales
    (simp_all add: BranchLevel_Serialize_def BranchLevel_Deserialize_def codec_simps frame_code8)

record BranchRoot =
  br_Root :: string

definition BranchRoot_Serialize :: "BranchRoot \<Rightarrow> wire_error + u8 list" where
  "BranchRoot_Serialize message = Inr (Pack (WriteUint8 5 @ WriteString (br_Root message)))"

definition BranchRoot_Deserialize :: "BranchRoot reader" where
  "BranchRoot_Deserialize =
     rthen (header8 5) (\<lambda>_. rthen ReadString (\<lambda>root. rret \<lparr>br_Root = root\<rparr>))"

interpretation branchroot_msg: frame_message BranchRoot_Serialize BranchRoot_Deserialize
  "\<lambda>m. str_ok (br_Root m)" "\<lambda>m. WriteUint8 5 @ WriteString (br_Root m)" CodeDistributed 5
  by unfold_locales
    (simp_all add: BranchRoot_Serialize_def BranchRoot_Deserialize_def codec_simps frame_code8)

definition searchIdentifier :: u32 where
  "searchIdentifier = 49"

record DistSearch =
  ds_Token :: u32
  ds_Username :: string
  ds_Query :: string

definition DistSearch_body :: "DistSearch \<Rightarrow> u8 list" where
  "DistSearch_body message =
     WriteUint8 3 @ WriteUint32 searchIdentifier @ WriteString (ds_Username message)
     @ WriteUint32 (ds_Token message) @ WriteString (ds_Query message)"

definition DistSearch_Serialize :: "DistSearch \<Rightarrow> wire_error + u8 list" where
  "DistSearch_Serialize message = Inr (Pack (DistSearch_body message))"

definition DistSearch_Deserialize :: "DistSearch reader" where
  "DistSearch_Deserialize =
     rthen (header8 3) (\<lambda>_. rthen ReadUint32 (\<lambda>identifier.
       if identifier \<noteq> searchIdentifier then rfail InvalidSearchIdentifier
       else rthen ReadString (\<lambda>username. rthen ReadUint32ToToken (\<lambda>token.
       rthen ReadString (\<lambda>query. rret
         \<lparr>ds_Token = token, ds_Username = username, ds_Query = query\<rparr>)))))"

interpretation distsearch_msg: frame_message DistSearch_Serialize DistSearch_Deserialize
  "\<lambda>m. str_ok (ds_Username m) \<and> str_ok (ds_Query m)" DistSearch_body CodeDistributed 3
  by unfold_locales
    (simp_all add: DistSearch_Serialize_def DistSearch_Deserialize_def DistSearch_body_def
      codec_simps frame_code8)

text \<open>
  The deprecated wrapper. The three zero bytes that older clients left of a four-byte outer code
  are skipped; a current frame whose embedded code is 0 and whose payload starts with two zero
  bytes looks the same, so the round trip needs the message not to be one of those.
\<close>

record DistEmbedded =
  de_Code :: u8
  de_Message :: "u8 list"

definition legacy_prefix :: "u8 list \<Rightarrow> bool" where
  "legacy_prefix remainder \<longleftrightarrow> length remainder \<ge> 3 \<and> take 3 remainder = [0, 0, 0]"

definition DistEmbedded_Serialize :: "DistEmbedded \<Rightarrow> wire_error + u8 list" where
  "DistEmbedded_Serialize message =
     Inr (Pack (WriteUint8 93 @ WriteUint8 (de_Code message) @ de_Message message))"

definition DistEmbedded_Deserialize :: "DistEmbedded reader" where
  "DistEmbedded_Deserialize =
     rthen (header8 93) (\<lambda>_ remainder.
       let remainder' = (if legacy_prefix remainder then drop 3 remainder else remainder)
       in (case remainder' of
             [] \<Rightarrow> Inl UnexpectedEOF
           | code # message \<Rightarrow> Inr (\<lparr>de_Code = code, de_Message = message\<rparr>, [])))"

definition DistEmbedded_ok :: "DistEmbedded \<Rightarrow> bool" where
  "DistEmbedded_ok m \<longleftrightarrow> \<not> legacy_prefix (de_Code m # de_Message m)"

interpretation distembedded_msg: frame_message DistEmbedded_Serialize DistEmbedded_Deserialize
  DistEmbedded_ok "\<lambda>m. WriteUint8 93 @ WriteUint8 (de_Code m) @ de_Message m" CodeDistributed 93
  by unfold_locales
    (simp_all add: DistEmbedded_Serialize_def DistEmbedded_Deserialize_def DistEmbedded_ok_def
      codec_simps frame_code8 WriteUint8_def [of "de_Code _"])

text \<open>A frame of an older client, whose outer code is four bytes wide, decodes to the same message.\<close>

lemma WriteUint32_93: "WriteUint32 93 = WriteUint8 93 @ [0, 0, 0]"
proof -
  have "(4::nat) = Suc (Suc (Suc (Suc 0)))" by simp
  then have "put_u32 93 = [93, 0, 0, 0]" by (simp only: put_u32_def le_bytes.simps) simp
  then show ?thesis by (simp add: WriteUint32_def WriteUint8_def)
qed

lemma DistEmbedded_legacy:
  "DistEmbedded_Deserialize (Pack (WriteUint32 93 @ WriteUint8 c @ msg))
    = Inr (\<lparr>de_Code = c, de_Message = msg\<rparr>, [])"
  by (simp add: DistEmbedded_Deserialize_def WriteUint32_93 codec_simps legacy_prefix_def Let_def
      WriteUint8_def [of c])

section \<open>File connections\<close>

record Offset =
  off_Offset :: u64

definition Offset_Serialize :: "Offset \<Rightarrow> wire_error + u8 list" where
  "Offset_Serialize message = Inr (WriteUint64 (off_Offset message))"

definition Offset_Deserialize :: "Offset reader" where
  "Offset_Deserialize = rthen ReadUint64 (\<lambda>v. rret \<lparr>off_Offset = v\<rparr>)"

record TransferInit =
  ti_Token :: u32

definition TransferInit_Serialize :: "TransferInit \<Rightarrow> wire_error + u8 list" where
  "TransferInit_Serialize message = Inr (WriteUint32 (ti_Token message))"

definition TransferInit_Deserialize :: "TransferInit reader" where
  "TransferInit_Deserialize = rthen ReadUint32ToToken (\<lambda>v. rret \<lparr>ti_Token = v\<rparr>)"

text \<open>
  The start of a file connection: the uploader's \<open>TransferInit\<close>, then the downloader's
  \<open>Offset\<close>; each reads exactly its own bytes, so the file's content follows untouched.
\<close>

lemma TransferInit_stream:
  "TransferInit_Serialize m = Inr out \<Longrightarrow> TransferInit_Deserialize (out @ rest) = Inr (m, rest)"
  by (auto simp: TransferInit_Serialize_def TransferInit_Deserialize_def codec_simps)

lemma Offset_stream:
  "Offset_Serialize m = Inr out \<Longrightarrow> Offset_Deserialize (out @ rest) = Inr (m, rest)"
  by (auto simp: Offset_Serialize_def Offset_Deserialize_def codec_simps)

end
