(* ===== verification/ServerMessages.thy ===== *)
theory ServerMessages
  imports PeerMessages
begin

text \<open>
  The messages exchanged with the central server (\<open>internal/soulseek/soul/server\<close>), except those
  of the chat rooms. Decoders always fill a fresh struct, as every caller of the client does, so a
  field that is not read keeps its zero value. Codes are four bytes wide.
\<close>

section \<open>The two directions\<close>

text \<open>
  Most server messages travel one way, or have another format in each direction. A request is
  only written here: its locale states which frame it is and that the frame determines the fields
  the server is told (\<open>proj\<close>). An event is only read here: \<open>wire\<close> is the format the server sends
  it in, and the locale states that the decoder inverts that format and refuses any other code.
\<close>

lemma unat_u32_less_256_4: "unat (c :: u32) < 256 ^ 4"
  using unat_less_exp [of c] by simp

lemma frame_code_server: "frame_code CodeServer (WriteUint32 c @ body) = unat c"
  by (simp add: frame_code32)

locale server_request =
  fixes ser :: "'m \<Rightarrow> wire_error + u8 list"
    and fields :: "'m \<Rightarrow> u8 list"
    and code :: u32
    and ok :: "'m \<Rightarrow> bool"
    and proj :: "'m \<Rightarrow> 'k"
  assumes ser_fields: "ser m = Inr (Pack (WriteUint32 code @ fields m))"
    and fields_inj: "\<lbrakk>ok m; ok m'; fields m = fields m'\<rbrakk> \<Longrightarrow> proj m = proj m'"
begin

lemma written_frame:
  assumes "4 + length (fields m) \<le> unat MaxMessageSize"
  shows "\<exists>out. ser m = Inr out \<and>
     MessageRead CodeServer False (out @ rest)
       = Inr ((out, word_of_nat (4 + length (fields m)), unat code), rest)"
  using assms read_plain_frame [of CodeServer "WriteUint32 code @ fields m" MaxMessageSize rest]
  by (simp add: ser_fields MessageRead_def MessageReadLimited_def frame_code_server)

lemma request_determined:
  assumes "ok m" and "ok m'" and "ser m = ser m'"
    and "4 + length (fields m) < 2 ^ 32" and "4 + length (fields m') < 2 ^ 32"
  shows "proj m = proj m'"
proof -
  have "Pack (WriteUint32 code @ fields m) = Pack (WriteUint32 code @ fields m')"
    using assms(3) by (simp add: ser_fields)
  then have "fields m = fields m'"
    by (simp add: Pack_prefix codec_inj)
  with assms show ?thesis by (intro fields_inj)
qed

end

locale server_event =
  fixes deser :: "'m reader"
    and wire :: "'m \<Rightarrow> u8 list"
    and code :: u32
    and ok :: "'m \<Rightarrow> bool"
  assumes deser_wire: "ok m \<Longrightarrow> deser (Pack (WriteUint32 code @ wire m)) = Inr (m, [])"
    and other_code: "c \<noteq> code \<Longrightarrow> deser (Pack (WriteUint32 c @ body)) = Inl MismatchingCodes"
begin

lemma receive_event:
  assumes "ok m" and "4 + length (wire m) \<le> unat MaxMessageSize"
  shows "receive CodeServer False MaxMessageSize deser (Pack (WriteUint32 code @ wire m) @ rest)
       = Inr ((m, unat code), rest)"
  using assms read_plain_frame [of CodeServer "WriteUint32 code @ wire m" MaxMessageSize rest]
  by (simp add: receive_def MessageReadLimited_def frame_code_server deser_wire)

lemma wire_determined:
  assumes "ok m" and "ok m'" and "wire m = wire m'"
  shows "m = m'"
proof -
  have "Inr (m, []) = deser (Pack (WriteUint32 code @ wire m))"
    by (rule deser_wire [OF assms(1), symmetric])
  also have "\<dots> = Inr (m', [])"
    unfolding assms(3) by (rule deser_wire [OF assms(2)])
  finally show ?thesis by simp
qed

end

section \<open>Addresses and counted strings\<close>

text \<open>The number an IPv4 address travels as; \<open>ReadIP\<close> is its inverse.\<close>

definition ip_word :: "u8 list \<Rightarrow> u32" where
  "ip_word ip = get_u32 (rev ip)"

lemma ReadIP_ip_word [codec_simps]: "length ip = 4 \<Longrightarrow> ReadIP (ip_word ip) = ip"
  using put_get_u32 [of "rev ip"] by (simp add: ReadIP_def ip_word_def put_u32_def)

lemma ReadUint32_int [codec_simps]:
  "u32_range v \<Longrightarrow> ReadUint32 (WriteIntAsUint32 v @ rest) = Inr (word_of_int v, rest)"
  "u32_range v \<Longrightarrow> ReadUint32 (WriteIntAsUint32 v) = Inr (word_of_int v, [])"
  by (simp_all add: WriteIntAsUint32_def codec_simps)

definition strs_ok :: "string list \<Rightarrow> bool" where
  "strs_ok xs \<longleftrightarrow> length xs < 2 ^ 32 \<and> (\<forall>s \<in> set xs. str_ok s)"

lemma read_strings [codec_simps]:
  assumes "strs_ok xs"
  shows "read_times (unat (word_of_nat (length xs) :: u32)) ReadString
      (concat (map WriteString xs) @ rest) = Inr (xs, rest)"
    and "read_times (unat (word_of_nat (length xs) :: u32)) ReadString
      (concat (map WriteString xs)) = Inr (xs, [])"
  using assms by (simp_all add: strs_ok_def unat_word_of_nat_id codec_simps)

lemma rthen_read_strings [codec_simps]:
  assumes "strs_ok xs"
  shows "rthen (read_times (unat (word_of_nat (length xs) :: u32)) ReadString) f
      (concat (map WriteString xs) @ rest) = f xs rest"
    and "rthen (read_times (unat (word_of_nat (length xs) :: u32)) ReadString) f
      (concat (map WriteString xs)) = f xs []"
  using assms by (simp_all add: codec_simps)

section \<open>Session\<close>

record SetListenPort =
  slp_Port :: int
  slp_ObfuscatedPort :: int

definition SetListenPort_Serialize :: "SetListenPort \<Rightarrow> wire_error + u8 list" where
  "SetListenPort_Serialize message =
     Inr (Pack (WriteUint32 2 @ WriteIntAsUint32 (slp_Port message)
     @ WriteIntAsUint32 (slp_ObfuscatedPort message)))"

interpretation setlistenport_req: server_request SetListenPort_Serialize
  "\<lambda>m. WriteIntAsUint32 (slp_Port m)
     @ WriteIntAsUint32 (slp_ObfuscatedPort m)"
  2 "\<lambda>m. u32_range (slp_Port m) \<and> u32_range (slp_ObfuscatedPort m)" "\<lambda>m. (slp_Port m, slp_ObfuscatedPort m)"
  by unfold_locales (auto simp: SetListenPort_Serialize_def codec_inj)

record SetStatus =
  sst_Status :: int

definition SetStatus_Serialize :: "SetStatus \<Rightarrow> wire_error + u8 list" where
  "SetStatus_Serialize message =
     Inr (Pack (WriteUint32 28 @ WriteIntAsUint32 (sst_Status message)))"

interpretation setstatus_req: server_request SetStatus_Serialize
  "\<lambda>m. WriteIntAsUint32 (sst_Status m)"
  28 "\<lambda>m. u32_range (sst_Status m)" "\<lambda>m. sst_Status m"
  by unfold_locales (auto simp: SetStatus_Serialize_def codec_inj)

record SharedFoldersFiles =
  sff_Directories :: int
  sff_Files :: int

definition SharedFoldersFiles_Serialize :: "SharedFoldersFiles \<Rightarrow> wire_error + u8 list" where
  "SharedFoldersFiles_Serialize message =
     Inr (Pack (WriteUint32 35 @ WriteIntAsUint32 (sff_Directories message)
     @ WriteIntAsUint32 (sff_Files message)))"

interpretation sharedfoldersfiles_req: server_request SharedFoldersFiles_Serialize
  "\<lambda>m. WriteIntAsUint32 (sff_Directories m)
     @ WriteIntAsUint32 (sff_Files m)"
  35 "\<lambda>m. u32_range (sff_Directories m) \<and> u32_range (sff_Files m)" "\<lambda>m. (sff_Directories m, sff_Files m)"
  by unfold_locales (auto simp: SharedFoldersFiles_Serialize_def codec_inj)

record SendUploadSpeed =
  sus_Speed :: int

definition SendUploadSpeed_Serialize :: "SendUploadSpeed \<Rightarrow> wire_error + u8 list" where
  "SendUploadSpeed_Serialize message =
     Inr (Pack (WriteUint32 121 @ WriteIntAsUint32 (sus_Speed message)))"

interpretation senduploadspeed_req: server_request SendUploadSpeed_Serialize
  "\<lambda>m. WriteIntAsUint32 (sus_Speed m)"
  121 "\<lambda>m. u32_range (sus_Speed m)" "\<lambda>m. sus_Speed m"
  by unfold_locales (auto simp: SendUploadSpeed_Serialize_def codec_inj)

definition Ping_Serialize :: "unit \<Rightarrow> wire_error + u8 list" where
  "Ping_Serialize message =
     Inr (Pack (WriteUint32 32))"

interpretation ping_req: server_request Ping_Serialize "\<lambda>_. []" 32 "\<lambda>_. True" "\<lambda>_. ()"
  by unfold_locales (simp_all add: Ping_Serialize_def)

definition Relogged_Deserialize :: "unit reader" where
  "Relogged_Deserialize = header32 41"

interpretation relogged_event: server_event Relogged_Deserialize "\<lambda>_. []" 41 "\<lambda>_. True"
  by unfold_locales (simp_all add: Relogged_Deserialize_def codec_simps header32_mismatch)

record ChangePassword =
  cp_Pass :: string

definition ChangePassword_Serialize :: "ChangePassword \<Rightarrow> wire_error + u8 list" where
  "ChangePassword_Serialize message =
     Inr (Pack (WriteUint32 142 @ WriteString (cp_Pass message)))"

definition ChangePassword_Deserialize :: "ChangePassword reader" where
  "ChangePassword_Deserialize =
     rthen (header32 142) (\<lambda>_.
     rthen ReadString (\<lambda>pass.
     rret \<lparr>cp_Pass = pass\<rparr>))"

interpretation changepassword_msg: frame_message ChangePassword_Serialize ChangePassword_Deserialize
  "\<lambda>m. str_ok (cp_Pass m)"
  "\<lambda>m. WriteUint32 142 @ WriteString (cp_Pass m)"
  CodeServer 142
  by unfold_locales
    (simp_all add: ChangePassword_Serialize_def ChangePassword_Deserialize_def codec_simps frame_code32)

record CheckPrivileges =
  cpr_TimeLeft :: int

definition CheckPrivileges_Serialize :: "CheckPrivileges \<Rightarrow> wire_error + u8 list" where
  "CheckPrivileges_Serialize message =
     Inr (Pack (WriteUint32 92))"

definition CheckPrivileges_Deserialize :: "CheckPrivileges reader" where
  "CheckPrivileges_Deserialize =
     rthen (header32 92) (\<lambda>_.
     rthen ReadUint32ToInt (\<lambda>timeLeft.
     rret \<lparr>cpr_TimeLeft = timeLeft\<rparr>))"

interpretation checkprivileges_req: server_request CheckPrivileges_Serialize "\<lambda>_. []" 92 "\<lambda>_. True" "\<lambda>_. ()"
  by unfold_locales (simp_all add: CheckPrivileges_Serialize_def)

interpretation checkprivileges_event: server_event CheckPrivileges_Deserialize
  "\<lambda>m. WriteIntAsUint32 (cpr_TimeLeft m)"
  92 "\<lambda>m. u32_range (cpr_TimeLeft m)"
  by unfold_locales
    (simp_all add: CheckPrivileges_Deserialize_def codec_simps header32_mismatch rthen_def
      uint_word_of_int_u32)

record GivePrivileges =
  gp_Username :: string
  gp_Days :: int

definition GivePrivileges_Serialize :: "GivePrivileges \<Rightarrow> wire_error + u8 list" where
  "GivePrivileges_Serialize message =
     Inr (Pack (WriteUint32 123 @ WriteString (gp_Username message)
     @ WriteIntAsUint32 (gp_Days message)))"

interpretation giveprivileges_req: server_request GivePrivileges_Serialize
  "\<lambda>m. WriteString (gp_Username m)
     @ WriteIntAsUint32 (gp_Days m)"
  123 "\<lambda>m. str_ok (gp_Username m) \<and> u32_range (gp_Days m)" "\<lambda>m. (gp_Username m, gp_Days m)"
  by unfold_locales (auto simp: GivePrivileges_Serialize_def codec_inj)

record PrivilegedUsers =
  pu_Users :: "string list"

definition PrivilegedUsers_Deserialize :: "PrivilegedUsers reader" where
  "PrivilegedUsers_Deserialize =
     rthen (header32 69) (\<lambda>_.
     rthen ReadUint32 (\<lambda>count. rthen (read_times (unat count) ReadString) (\<lambda>users.
     rret \<lparr>pu_Users = users\<rparr>)))"

interpretation privilegedusers_event: server_event PrivilegedUsers_Deserialize
  "\<lambda>m. WriteUint32 (word_of_nat (length (pu_Users m))) @ concat (map WriteString (pu_Users m))"
  69 "\<lambda>m. strs_ok (pu_Users m)"
  by unfold_locales
    (simp_all add: PrivilegedUsers_Deserialize_def codec_simps header32_mismatch rthen_def
      uint_word_of_int_u32)

record AdminMessage =
  am_Message :: string

definition AdminMessage_Deserialize :: "AdminMessage reader" where
  "AdminMessage_Deserialize =
     rthen (header32 66) (\<lambda>_.
     rthen ReadString (\<lambda>message.
     rret \<lparr>am_Message = message\<rparr>))"

interpretation adminmessage_event: server_event AdminMessage_Deserialize
  "\<lambda>m. WriteString (am_Message m)"
  66 "\<lambda>m. str_ok (am_Message m)"
  by unfold_locales
    (simp_all add: AdminMessage_Deserialize_def codec_simps header32_mismatch rthen_def
      uint_word_of_int_u32)

section \<open>Peers and their addresses\<close>

record ConnectToPeer =
  ctp_Username :: string
  ctp_Type :: string
  ctp_IP :: "u8 list"
  ctp_Port :: int
  ctp_Token :: u32
  ctp_Privileged :: bool
  ctp_ObfuscatedPort :: int

definition ConnectToPeer_Serialize :: "ConnectToPeer \<Rightarrow> wire_error + u8 list" where
  "ConnectToPeer_Serialize message =
     Inr (Pack (WriteUint32 18 @ WriteUint32 (ctp_Token message)
     @ WriteString (ctp_Username message)
     @ WriteString (ctp_Type message)))"

definition ConnectToPeer_Deserialize :: "ConnectToPeer reader" where
  "ConnectToPeer_Deserialize =
     rthen (header32 18) (\<lambda>_.
     rthen ReadString (\<lambda>username.
     rthen ReadString (\<lambda>connType.
     rthen ReadUint32 (\<lambda>ip.
     rthen ReadUint32ToInt (\<lambda>port.
     rthen ReadUint32ToToken (\<lambda>token.
     rthen ReadBool (\<lambda>privileged.
     rthen ReadUint32ToInt (\<lambda>obfuscatedPort.
     rret \<lparr>ctp_Username = username, ctp_Type = connType, ctp_IP = ReadIP ip, ctp_Port = port, ctp_Token = token, ctp_Privileged = privileged, ctp_ObfuscatedPort = obfuscatedPort\<rparr>))))))))"

interpretation connecttopeer_req: server_request ConnectToPeer_Serialize
  "\<lambda>m. WriteUint32 (ctp_Token m)
     @ WriteString (ctp_Username m)
     @ WriteString (ctp_Type m)"
  18 "\<lambda>m. str_ok (ctp_Username m) \<and> str_ok (ctp_Type m)" "\<lambda>m. (ctp_Token m, ctp_Username m, ctp_Type m)"
  by unfold_locales (auto simp: ConnectToPeer_Serialize_def codec_inj)

interpretation connecttopeer_event: server_event ConnectToPeer_Deserialize
  "\<lambda>m. WriteString (ctp_Username m)
     @ WriteString (ctp_Type m)
     @ WriteUint32 (ip_word (ctp_IP m))
     @ WriteIntAsUint32 (ctp_Port m)
     @ WriteUint32 (ctp_Token m)
     @ WriteBool (ctp_Privileged m)
     @ WriteIntAsUint32 (ctp_ObfuscatedPort m)"
  18 "\<lambda>m. str_ok (ctp_Username m) \<and> str_ok (ctp_Type m) \<and> length (ctp_IP m) = 4 \<and> u32_range (ctp_Port m) \<and> u32_range (ctp_ObfuscatedPort m)"
  by unfold_locales
    (simp_all add: ConnectToPeer_Deserialize_def codec_simps header32_mismatch rthen_def
      uint_word_of_int_u32)

record GetPeerAddress =
  gpa_Username :: string
  gpa_IP :: "u8 list"
  gpa_Port :: int
  gpa_ObfuscatedPort :: int

definition GetPeerAddress_Serialize :: "GetPeerAddress \<Rightarrow> wire_error + u8 list" where
  "GetPeerAddress_Serialize message =
     Inr (Pack (WriteUint32 3 @ WriteString (gpa_Username message)))"

definition GetPeerAddress_Deserialize :: "GetPeerAddress reader" where
  "GetPeerAddress_Deserialize =
     rthen (header32 3) (\<lambda>_.
     rthen ReadString (\<lambda>username.
     rthen ReadUint32 (\<lambda>ip.
     rthen ReadUint32ToInt (\<lambda>port.
     rthen ReadUint32ToInt (\<lambda>obfuscatedPort.
     rret \<lparr>gpa_Username = username, gpa_IP = ReadIP ip, gpa_Port = port, gpa_ObfuscatedPort = obfuscatedPort\<rparr>)))))"

interpretation getpeeraddress_req: server_request GetPeerAddress_Serialize
  "\<lambda>m. WriteString (gpa_Username m)"
  3 "\<lambda>m. str_ok (gpa_Username m)" "\<lambda>m. gpa_Username m"
  by unfold_locales (auto simp: GetPeerAddress_Serialize_def codec_inj)

interpretation getpeeraddress_event: server_event GetPeerAddress_Deserialize
  "\<lambda>m. WriteString (gpa_Username m)
     @ WriteUint32 (ip_word (gpa_IP m))
     @ WriteIntAsUint32 (gpa_Port m)
     @ WriteIntAsUint32 (gpa_ObfuscatedPort m)"
  3 "\<lambda>m. str_ok (gpa_Username m) \<and> length (gpa_IP m) = 4 \<and> u32_range (gpa_Port m) \<and> u32_range (gpa_ObfuscatedPort m)"
  by unfold_locales
    (simp_all add: GetPeerAddress_Deserialize_def codec_simps header32_mismatch rthen_def
      uint_word_of_int_u32)

record GetUserStats =
  gus_Username :: string
  gus_Speed :: int
  gus_Uploads :: int
  gus_Unknown :: u32
  gus_Files :: int
  gus_Directories :: int

definition GetUserStats_Serialize :: "GetUserStats \<Rightarrow> wire_error + u8 list" where
  "GetUserStats_Serialize message =
     Inr (Pack (WriteUint32 36 @ WriteString (gus_Username message)))"

definition GetUserStats_Deserialize :: "GetUserStats reader" where
  "GetUserStats_Deserialize =
     rthen (header32 36) (\<lambda>_.
     rthen ReadString (\<lambda>username.
     rthen ReadUint32ToInt (\<lambda>speed.
     rthen ReadUint32ToInt (\<lambda>uploads.
     rthen ReadUint32 (\<lambda>unknown.
     rthen ReadUint32ToInt (\<lambda>files.
     rthen ReadUint32ToInt (\<lambda>directories.
     rret \<lparr>gus_Username = username, gus_Speed = speed, gus_Uploads = uploads, gus_Unknown = unknown, gus_Files = files, gus_Directories = directories\<rparr>)))))))"

interpretation getuserstats_req: server_request GetUserStats_Serialize
  "\<lambda>m. WriteString (gus_Username m)"
  36 "\<lambda>m. str_ok (gus_Username m)" "\<lambda>m. gus_Username m"
  by unfold_locales (auto simp: GetUserStats_Serialize_def codec_inj)

interpretation getuserstats_event: server_event GetUserStats_Deserialize
  "\<lambda>m. WriteString (gus_Username m)
     @ WriteIntAsUint32 (gus_Speed m)
     @ WriteIntAsUint32 (gus_Uploads m)
     @ WriteUint32 (gus_Unknown m)
     @ WriteIntAsUint32 (gus_Files m)
     @ WriteIntAsUint32 (gus_Directories m)"
  36 "\<lambda>m. str_ok (gus_Username m) \<and> u32_range (gus_Speed m) \<and> u32_range (gus_Uploads m) \<and> u32_range (gus_Files m) \<and> u32_range (gus_Directories m)"
  by unfold_locales
    (simp_all add: GetUserStats_Deserialize_def codec_simps header32_mismatch rthen_def
      uint_word_of_int_u32)

record GetUserStatus =
  gst_Username :: string
  gst_Status :: int
  gst_Privileged :: bool

definition GetUserStatus_Serialize :: "GetUserStatus \<Rightarrow> wire_error + u8 list" where
  "GetUserStatus_Serialize message =
     Inr (Pack (WriteUint32 7 @ WriteString (gst_Username message)))"

definition GetUserStatus_Deserialize :: "GetUserStatus reader" where
  "GetUserStatus_Deserialize =
     rthen (header32 7) (\<lambda>_.
     rthen ReadString (\<lambda>username.
     rthen ReadUint32 (\<lambda>status.
     rthen ReadBool (\<lambda>privileged.
     rret \<lparr>gst_Username = username, gst_Status = uint status, gst_Privileged = privileged\<rparr>))))"

interpretation getuserstatus_req: server_request GetUserStatus_Serialize
  "\<lambda>m. WriteString (gst_Username m)"
  7 "\<lambda>m. str_ok (gst_Username m)" "\<lambda>m. gst_Username m"
  by unfold_locales (auto simp: GetUserStatus_Serialize_def codec_inj)

interpretation getuserstatus_event: server_event GetUserStatus_Deserialize
  "\<lambda>m. WriteString (gst_Username m)
     @ WriteIntAsUint32 (gst_Status m)
     @ WriteBool (gst_Privileged m)"
  7 "\<lambda>m. str_ok (gst_Username m) \<and> u32_range (gst_Status m)"
  by unfold_locales
    (simp_all add: GetUserStatus_Deserialize_def codec_simps header32_mismatch rthen_def
      uint_word_of_int_u32)

record UnwatchUser =
  uw_Username :: string

definition UnwatchUser_Serialize :: "UnwatchUser \<Rightarrow> wire_error + u8 list" where
  "UnwatchUser_Serialize message =
     Inr (Pack (WriteUint32 6 @ WriteString (uw_Username message)))"

interpretation unwatchuser_req: server_request UnwatchUser_Serialize
  "\<lambda>m. WriteString (uw_Username m)"
  6 "\<lambda>m. str_ok (uw_Username m)" "\<lambda>m. uw_Username m"
  by unfold_locales (auto simp: UnwatchUser_Serialize_def codec_inj)

section \<open>Private messages\<close>

record MessageAcked =
  ma_MessageID :: int

definition MessageAcked_Serialize :: "MessageAcked \<Rightarrow> wire_error + u8 list" where
  "MessageAcked_Serialize message =
     Inr (Pack (WriteUint32 23 @ WriteIntAsUint32 (ma_MessageID message)))"

interpretation messageacked_req: server_request MessageAcked_Serialize
  "\<lambda>m. WriteIntAsUint32 (ma_MessageID m)"
  23 "\<lambda>m. u32_range (ma_MessageID m)" "\<lambda>m. ma_MessageID m"
  by unfold_locales (auto simp: MessageAcked_Serialize_def codec_inj)

record MessageUser =
  mu_UserID :: int
  mu_Timestamp :: int
  mu_Username :: string
  mu_Message :: string
  mu_New :: bool

definition MessageUser_Serialize :: "MessageUser \<Rightarrow> wire_error + u8 list" where
  "MessageUser_Serialize message =
     Inr (Pack (WriteUint32 22 @ WriteString (mu_Username message)
     @ WriteString (mu_Message message)))"

definition MessageUser_Deserialize :: "MessageUser reader" where
  "MessageUser_Deserialize =
     rthen (header32 22) (\<lambda>_.
     rthen ReadUint32ToInt (\<lambda>userID.
     rthen ReadUint32ToInt (\<lambda>timestamp.
     rthen ReadString (\<lambda>username.
     rthen ReadString (\<lambda>message.
     rthen ReadBool (\<lambda>isNew.
     rret \<lparr>mu_UserID = userID, mu_Timestamp = timestamp, mu_Username = username, mu_Message = message, mu_New = isNew\<rparr>))))))"

interpretation messageuser_req: server_request MessageUser_Serialize
  "\<lambda>m. WriteString (mu_Username m)
     @ WriteString (mu_Message m)"
  22 "\<lambda>m. str_ok (mu_Username m) \<and> str_ok (mu_Message m)" "\<lambda>m. (mu_Username m, mu_Message m)"
  by unfold_locales (auto simp: MessageUser_Serialize_def codec_inj)

interpretation messageuser_event: server_event MessageUser_Deserialize
  "\<lambda>m. WriteIntAsUint32 (mu_UserID m)
     @ WriteIntAsUint32 (mu_Timestamp m)
     @ WriteString (mu_Username m)
     @ WriteString (mu_Message m)
     @ WriteBool (mu_New m)"
  22 "\<lambda>m. u32_range (mu_UserID m) \<and> u32_range (mu_Timestamp m) \<and> str_ok (mu_Username m) \<and> str_ok (mu_Message m)"
  by unfold_locales
    (simp_all add: MessageUser_Deserialize_def codec_simps header32_mismatch rthen_def
      uint_word_of_int_u32)

section \<open>Searches\<close>

record FileSearch =
  sfs_Username :: string
  sfs_Token :: u32
  sfs_SearchQuery :: string

definition FileSearch_Serialize :: "FileSearch \<Rightarrow> wire_error + u8 list" where
  "FileSearch_Serialize message =
     Inr (Pack (WriteUint32 26 @ WriteUint32 (sfs_Token message)
     @ WriteString (sfs_SearchQuery message)))"

definition FileSearch_Deserialize :: "FileSearch reader" where
  "FileSearch_Deserialize =
     rthen (header32 26) (\<lambda>_.
     rthen ReadString (\<lambda>username.
     rthen ReadUint32ToToken (\<lambda>token.
     rthen ReadString (\<lambda>searchQuery.
     rret \<lparr>sfs_Username = username, sfs_Token = token, sfs_SearchQuery = searchQuery\<rparr>))))"

interpretation filesearch_req: server_request FileSearch_Serialize
  "\<lambda>m. WriteUint32 (sfs_Token m)
     @ WriteString (sfs_SearchQuery m)"
  26 "\<lambda>m. str_ok (sfs_SearchQuery m)" "\<lambda>m. (sfs_Token m, sfs_SearchQuery m)"
  by unfold_locales (auto simp: FileSearch_Serialize_def codec_inj)

interpretation filesearch_event: server_event FileSearch_Deserialize
  "\<lambda>m. WriteString (sfs_Username m)
     @ WriteUint32 (sfs_Token m)
     @ WriteString (sfs_SearchQuery m)"
  26 "\<lambda>m. str_ok (sfs_Username m) \<and> str_ok (sfs_SearchQuery m)"
  by unfold_locales
    (simp_all add: FileSearch_Deserialize_def codec_simps header32_mismatch rthen_def
      uint_word_of_int_u32)

record UserSearch =
  us_Username :: string
  us_Token :: u32
  us_SearchQuery :: string

definition UserSearch_Serialize :: "UserSearch \<Rightarrow> wire_error + u8 list" where
  "UserSearch_Serialize message =
     Inr (Pack (WriteUint32 42 @ WriteString (us_Username message)
     @ WriteUint32 (us_Token message)
     @ WriteString (us_SearchQuery message)))"

interpretation usersearch_req: server_request UserSearch_Serialize
  "\<lambda>m. WriteString (us_Username m)
     @ WriteUint32 (us_Token m)
     @ WriteString (us_SearchQuery m)"
  42 "\<lambda>m. str_ok (us_Username m) \<and> str_ok (us_SearchQuery m)" "\<lambda>m. (us_Username m, us_Token m, us_SearchQuery m)"
  by unfold_locales (auto simp: UserSearch_Serialize_def codec_inj)

record RoomSearch =
  rs_Room :: string
  rs_Token :: u32
  rs_SearchQuery :: string

definition RoomSearch_Serialize :: "RoomSearch \<Rightarrow> wire_error + u8 list" where
  "RoomSearch_Serialize message =
     Inr (Pack (WriteUint32 120 @ WriteString (rs_Room message)
     @ WriteUint32 (rs_Token message)
     @ WriteString (rs_SearchQuery message)))"

interpretation roomsearch_req: server_request RoomSearch_Serialize
  "\<lambda>m. WriteString (rs_Room m)
     @ WriteUint32 (rs_Token m)
     @ WriteString (rs_SearchQuery m)"
  120 "\<lambda>m. str_ok (rs_Room m) \<and> str_ok (rs_SearchQuery m)" "\<lambda>m. (rs_Room m, rs_Token m, rs_SearchQuery m)"
  by unfold_locales (auto simp: RoomSearch_Serialize_def codec_inj)

record WishlistSearch =
  ws_Token :: u32
  ws_SearchQuery :: string

definition WishlistSearch_Serialize :: "WishlistSearch \<Rightarrow> wire_error + u8 list" where
  "WishlistSearch_Serialize message =
     Inr (Pack (WriteUint32 103 @ WriteUint32 (ws_Token message)
     @ WriteString (ws_SearchQuery message)))"

interpretation wishlistsearch_req: server_request WishlistSearch_Serialize
  "\<lambda>m. WriteUint32 (ws_Token m)
     @ WriteString (ws_SearchQuery m)"
  103 "\<lambda>m. str_ok (ws_SearchQuery m)" "\<lambda>m. (ws_Token m, ws_SearchQuery m)"
  by unfold_locales (auto simp: WishlistSearch_Serialize_def codec_inj)

record WishlistInterval =
  wi_Interval :: int

definition WishlistInterval_Deserialize :: "WishlistInterval reader" where
  "WishlistInterval_Deserialize =
     rthen (header32 104) (\<lambda>_.
     rthen ReadUint32ToInt (\<lambda>interval.
     rret \<lparr>wi_Interval = interval\<rparr>))"

interpretation wishlistinterval_event: server_event WishlistInterval_Deserialize
  "\<lambda>m. WriteIntAsUint32 (wi_Interval m)"
  104 "\<lambda>m. u32_range (wi_Interval m)"
  by unfold_locales
    (simp_all add: WishlistInterval_Deserialize_def codec_simps header32_mismatch rthen_def
      uint_word_of_int_u32)

record ExcludedSearchPhrases =
  esp_Phrases :: "string list"

definition ExcludedSearchPhrases_Deserialize :: "ExcludedSearchPhrases reader" where
  "ExcludedSearchPhrases_Deserialize =
     rthen (header32 160) (\<lambda>_.
     rthen ReadUint32 (\<lambda>count. rthen (read_times (unat count) ReadString) (\<lambda>phrases.
     rret \<lparr>esp_Phrases = phrases\<rparr>)))"

interpretation excludedsearchphrases_event: server_event ExcludedSearchPhrases_Deserialize
  "\<lambda>m. WriteUint32 (word_of_nat (length (esp_Phrases m))) @ concat (map WriteString (esp_Phrases m))"
  160 "\<lambda>m. strs_ok (esp_Phrases m)"
  by unfold_locales
    (simp_all add: ExcludedSearchPhrases_Deserialize_def codec_simps header32_mismatch rthen_def
      uint_word_of_int_u32)

section \<open>The distributed network\<close>

record AcceptChildren =
  ac_Accept :: bool

definition AcceptChildren_Serialize :: "AcceptChildren \<Rightarrow> wire_error + u8 list" where
  "AcceptChildren_Serialize message =
     Inr (Pack (WriteUint32 100 @ WriteBool (ac_Accept message)))"

interpretation acceptchildren_req: server_request AcceptChildren_Serialize
  "\<lambda>m. WriteBool (ac_Accept m)"
  100 "\<lambda>_. True" "\<lambda>m. ac_Accept m"
  by unfold_locales (auto simp: AcceptChildren_Serialize_def codec_inj)

record HaveNoParent =
  hnp_Have :: bool

definition HaveNoParent_Serialize :: "HaveNoParent \<Rightarrow> wire_error + u8 list" where
  "HaveNoParent_Serialize message =
     Inr (Pack (WriteUint32 71 @ WriteBool (hnp_Have message)))"

interpretation havenoparent_req: server_request HaveNoParent_Serialize
  "\<lambda>m. WriteBool (hnp_Have m)"
  71 "\<lambda>_. True" "\<lambda>m. hnp_Have m"
  by unfold_locales (auto simp: HaveNoParent_Serialize_def codec_inj)

record ServerBranchLevel =
  sbl_Level :: int

definition ServerBranchLevel_Serialize :: "ServerBranchLevel \<Rightarrow> wire_error + u8 list" where
  "ServerBranchLevel_Serialize message =
     Inr (Pack (WriteUint32 126 @ WriteIntAsUint32 (sbl_Level message)))"

interpretation serverbranchlevel_req: server_request ServerBranchLevel_Serialize
  "\<lambda>m. WriteIntAsUint32 (sbl_Level m)"
  126 "\<lambda>m. u32_range (sbl_Level m)" "\<lambda>m. sbl_Level m"
  by unfold_locales (auto simp: ServerBranchLevel_Serialize_def codec_inj)

record ServerBranchRoot =
  sbr_Root :: string

definition ServerBranchRoot_Serialize :: "ServerBranchRoot \<Rightarrow> wire_error + u8 list" where
  "ServerBranchRoot_Serialize message =
     Inr (Pack (WriteUint32 127 @ WriteString (sbr_Root message)))"

interpretation serverbranchroot_req: server_request ServerBranchRoot_Serialize
  "\<lambda>m. WriteString (sbr_Root m)"
  127 "\<lambda>m. str_ok (sbr_Root m)" "\<lambda>m. sbr_Root m"
  by unfold_locales (auto simp: ServerBranchRoot_Serialize_def codec_inj)

record ParentMinSpeed =
  pms_MinSpeed :: int

definition ParentMinSpeed_Deserialize :: "ParentMinSpeed reader" where
  "ParentMinSpeed_Deserialize =
     rthen (header32 83) (\<lambda>_.
     rthen ReadUint32ToInt (\<lambda>minSpeed.
     rret \<lparr>pms_MinSpeed = minSpeed\<rparr>))"

interpretation parentminspeed_event: server_event ParentMinSpeed_Deserialize
  "\<lambda>m. WriteIntAsUint32 (pms_MinSpeed m)"
  83 "\<lambda>m. u32_range (pms_MinSpeed m)"
  by unfold_locales
    (simp_all add: ParentMinSpeed_Deserialize_def codec_simps header32_mismatch rthen_def
      uint_word_of_int_u32)

record ParentSpeedRatio =
  psr_SpeedRatio :: int

definition ParentSpeedRatio_Deserialize :: "ParentSpeedRatio reader" where
  "ParentSpeedRatio_Deserialize =
     rthen (header32 84) (\<lambda>_.
     rthen ReadUint32ToInt (\<lambda>speedRatio.
     rret \<lparr>psr_SpeedRatio = speedRatio\<rparr>))"

interpretation parentspeedratio_event: server_event ParentSpeedRatio_Deserialize
  "\<lambda>m. WriteIntAsUint32 (psr_SpeedRatio m)"
  84 "\<lambda>m. u32_range (psr_SpeedRatio m)"
  by unfold_locales
    (simp_all add: ParentSpeedRatio_Deserialize_def codec_simps header32_mismatch rthen_def
      uint_word_of_int_u32)

definition ResetDistributed_Deserialize :: "unit reader" where
  "ResetDistributed_Deserialize = header32 130"

interpretation resetdistributed_event: server_event ResetDistributed_Deserialize "\<lambda>_. []" 130 "\<lambda>_. True"
  by unfold_locales (simp_all add: ResetDistributed_Deserialize_def codec_simps header32_mismatch)

end
