(* ===== verification/ServerRooms.thy ===== *)
theory ServerRooms
  imports ServerMessages
begin

text \<open>
  The chat room messages of \<open>internal/soulseek/soul/server\<close>. Decoders fill a fresh struct. A Go
  index out of range is the error value \<open>IndexOutOfRange\<close>.
\<close>

section \<open>Membership\<close>

record LeaveRoom =
  lr_Room :: string

definition LeaveRoom_Serialize :: "LeaveRoom \<Rightarrow> wire_error + u8 list" where
  "LeaveRoom_Serialize message =
     Inr (Pack (WriteUint32 15 @ WriteString (lr_Room message)))"

definition LeaveRoom_Deserialize :: "LeaveRoom reader" where
  "LeaveRoom_Deserialize =
     rthen (header32 15) (\<lambda>_.
     rthen ReadString (\<lambda>room.
     rret \<lparr>lr_Room = room\<rparr>))"

interpretation leaveroom_msg: frame_message LeaveRoom_Serialize LeaveRoom_Deserialize
  "\<lambda>m. str_ok (lr_Room m)"
  "\<lambda>m. WriteUint32 15 @ WriteString (lr_Room m)"
  CodeServer 15
  by unfold_locales
    (simp_all add: LeaveRoom_Serialize_def LeaveRoom_Deserialize_def codec_simps frame_code32)

record UserLeftRoom =
  ulr_Room :: string
  ulr_Username :: string

definition UserLeftRoom_Deserialize :: "UserLeftRoom reader" where
  "UserLeftRoom_Deserialize =
     rthen (header32 17) (\<lambda>_.
     rthen ReadString (\<lambda>room.
     rthen ReadString (\<lambda>username.
     rret \<lparr>ulr_Room = room, ulr_Username = username\<rparr>)))"

interpretation userleftroom_event: server_event UserLeftRoom_Deserialize
  "\<lambda>m. WriteString (ulr_Room m)
     @ WriteString (ulr_Username m)"
  17 "\<lambda>m. str_ok (ulr_Room m) \<and> str_ok (ulr_Username m)"
  by unfold_locales
    (simp_all add: UserLeftRoom_Deserialize_def codec_simps header32_mismatch rthen_def
      uint_word_of_int_u32)

record CantCreateRoom =
  ccr_Room :: string

definition CantCreateRoom_Deserialize :: "CantCreateRoom reader" where
  "CantCreateRoom_Deserialize =
     rthen (header32 1003) (\<lambda>_.
     rthen ReadString (\<lambda>room.
     rret \<lparr>ccr_Room = room\<rparr>))"

interpretation cantcreateroom_event: server_event CantCreateRoom_Deserialize
  "\<lambda>m. WriteString (ccr_Room m)"
  1003 "\<lambda>m. str_ok (ccr_Room m)"
  by unfold_locales
    (simp_all add: CantCreateRoom_Deserialize_def codec_simps header32_mismatch rthen_def
      uint_word_of_int_u32)

record UserJoinedRoom =
  ujr_Room :: string
  ujr_Username :: string
  ujr_Status :: int
  ujr_Speed :: int
  ujr_Uploads :: int
  ujr_Files :: int
  ujr_Directories :: int
  ujr_Slots :: int
  ujr_CountryCode :: string

definition UserJoinedRoom_Deserialize :: "UserJoinedRoom reader" where
  "UserJoinedRoom_Deserialize =
     rthen (header32 16) (\<lambda>_.
     rthen ReadString (\<lambda>room.
     rthen ReadString (\<lambda>username.
     rthen ReadUint32 (\<lambda>status.
     rthen ReadUint32ToInt (\<lambda>speed.
     rthen ReadUint32ToInt (\<lambda>uploads.
     rthen ReadUint32ToInt (\<lambda>files.
     rthen ReadUint32ToInt (\<lambda>directories.
     rthen ReadUint32ToInt (\<lambda>slots.
     rthen ReadString (\<lambda>countryCode.
     rret \<lparr>ujr_Room = room, ujr_Username = username, ujr_Status = uint status, ujr_Speed = speed, ujr_Uploads = uploads, ujr_Files = files, ujr_Directories = directories, ujr_Slots = slots, ujr_CountryCode = countryCode\<rparr>))))))))))"

interpretation userjoinedroom_event: server_event UserJoinedRoom_Deserialize
  "\<lambda>m. WriteString (ujr_Room m)
     @ WriteString (ujr_Username m)
     @ WriteIntAsUint32 (ujr_Status m)
     @ WriteIntAsUint32 (ujr_Speed m)
     @ WriteIntAsUint32 (ujr_Uploads m)
     @ WriteIntAsUint32 (ujr_Files m)
     @ WriteIntAsUint32 (ujr_Directories m)
     @ WriteIntAsUint32 (ujr_Slots m)
     @ WriteString (ujr_CountryCode m)"
  16 "\<lambda>m. str_ok (ujr_Room m) \<and> str_ok (ujr_Username m) \<and> u32_range (ujr_Status m) \<and> u32_range (ujr_Speed m) \<and> u32_range (ujr_Uploads m) \<and> u32_range (ujr_Files m) \<and> u32_range (ujr_Directories m) \<and> u32_range (ujr_Slots m) \<and> str_ok (ujr_CountryCode m)"
  by unfold_locales
    (simp_all add: UserJoinedRoom_Deserialize_def codec_simps header32_mismatch rthen_def
      uint_word_of_int_u32)

section \<open>Private rooms\<close>

record PrivateRoomAddUser =
  prau_Room :: string
  prau_Username :: string

definition PrivateRoomAddUser_Serialize :: "PrivateRoomAddUser \<Rightarrow> wire_error + u8 list" where
  "PrivateRoomAddUser_Serialize message =
     Inr (Pack (WriteUint32 134 @ WriteString (prau_Room message)
     @ WriteString (prau_Username message)))"

definition PrivateRoomAddUser_Deserialize :: "PrivateRoomAddUser reader" where
  "PrivateRoomAddUser_Deserialize =
     rthen (header32 134) (\<lambda>_.
     rthen ReadString (\<lambda>room.
     rthen ReadString (\<lambda>username.
     rret \<lparr>prau_Room = room, prau_Username = username\<rparr>)))"

interpretation privateroomadduser_msg: frame_message PrivateRoomAddUser_Serialize PrivateRoomAddUser_Deserialize
  "\<lambda>m. str_ok (prau_Room m) \<and> str_ok (prau_Username m)"
  "\<lambda>m. WriteUint32 134 @ WriteString (prau_Room m)
     @ WriteString (prau_Username m)"
  CodeServer 134
  by unfold_locales
    (simp_all add: PrivateRoomAddUser_Serialize_def PrivateRoomAddUser_Deserialize_def codec_simps frame_code32)

record PrivateRoomRemoveUser =
  prru_Room :: string
  prru_Username :: string

definition PrivateRoomRemoveUser_Serialize :: "PrivateRoomRemoveUser \<Rightarrow> wire_error + u8 list" where
  "PrivateRoomRemoveUser_Serialize message =
     Inr (Pack (WriteUint32 135 @ WriteString (prru_Room message)
     @ WriteString (prru_Username message)))"

definition PrivateRoomRemoveUser_Deserialize :: "PrivateRoomRemoveUser reader" where
  "PrivateRoomRemoveUser_Deserialize =
     rthen (header32 135) (\<lambda>_.
     rthen ReadString (\<lambda>room.
     rthen ReadString (\<lambda>username.
     rret \<lparr>prru_Room = room, prru_Username = username\<rparr>)))"

interpretation privateroomremoveuser_msg: frame_message PrivateRoomRemoveUser_Serialize PrivateRoomRemoveUser_Deserialize
  "\<lambda>m. str_ok (prru_Room m) \<and> str_ok (prru_Username m)"
  "\<lambda>m. WriteUint32 135 @ WriteString (prru_Room m)
     @ WriteString (prru_Username m)"
  CodeServer 135
  by unfold_locales
    (simp_all add: PrivateRoomRemoveUser_Serialize_def PrivateRoomRemoveUser_Deserialize_def codec_simps frame_code32)

record PrivateRoomAddOperator =
  prao_Room :: string
  prao_Username :: string

definition PrivateRoomAddOperator_Serialize :: "PrivateRoomAddOperator \<Rightarrow> wire_error + u8 list" where
  "PrivateRoomAddOperator_Serialize message =
     Inr (Pack (WriteUint32 143 @ WriteString (prao_Room message)
     @ WriteString (prao_Username message)))"

definition PrivateRoomAddOperator_Deserialize :: "PrivateRoomAddOperator reader" where
  "PrivateRoomAddOperator_Deserialize =
     rthen (header32 143) (\<lambda>_.
     rthen ReadString (\<lambda>room.
     rthen ReadString (\<lambda>username.
     rret \<lparr>prao_Room = room, prao_Username = username\<rparr>)))"

interpretation privateroomaddoperator_msg: frame_message PrivateRoomAddOperator_Serialize PrivateRoomAddOperator_Deserialize
  "\<lambda>m. str_ok (prao_Room m) \<and> str_ok (prao_Username m)"
  "\<lambda>m. WriteUint32 143 @ WriteString (prao_Room m)
     @ WriteString (prao_Username m)"
  CodeServer 143
  by unfold_locales
    (simp_all add: PrivateRoomAddOperator_Serialize_def PrivateRoomAddOperator_Deserialize_def codec_simps frame_code32)

record PrivateRoomRemoveOperator =
  prro_Room :: string
  prro_Username :: string

definition PrivateRoomRemoveOperator_Serialize :: "PrivateRoomRemoveOperator \<Rightarrow> wire_error + u8 list" where
  "PrivateRoomRemoveOperator_Serialize message =
     Inr (Pack (WriteUint32 144 @ WriteString (prro_Room message)
     @ WriteString (prro_Username message)))"

definition PrivateRoomRemoveOperator_Deserialize :: "PrivateRoomRemoveOperator reader" where
  "PrivateRoomRemoveOperator_Deserialize =
     rthen (header32 144) (\<lambda>_.
     rthen ReadString (\<lambda>room.
     rthen ReadString (\<lambda>username.
     rret \<lparr>prro_Room = room, prro_Username = username\<rparr>)))"

interpretation privateroomremoveoperator_msg: frame_message PrivateRoomRemoveOperator_Serialize PrivateRoomRemoveOperator_Deserialize
  "\<lambda>m. str_ok (prro_Room m) \<and> str_ok (prro_Username m)"
  "\<lambda>m. WriteUint32 144 @ WriteString (prro_Room m)
     @ WriteString (prro_Username m)"
  CodeServer 144
  by unfold_locales
    (simp_all add: PrivateRoomRemoveOperator_Serialize_def PrivateRoomRemoveOperator_Deserialize_def codec_simps frame_code32)

record PrivateRoomToggle =
  prt_Enabled :: bool

definition PrivateRoomToggle_Serialize :: "PrivateRoomToggle \<Rightarrow> wire_error + u8 list" where
  "PrivateRoomToggle_Serialize message =
     Inr (Pack (WriteUint32 141 @ WriteBool (prt_Enabled message)))"

definition PrivateRoomToggle_Deserialize :: "PrivateRoomToggle reader" where
  "PrivateRoomToggle_Deserialize =
     rthen (header32 141) (\<lambda>_.
     rthen ReadBool (\<lambda>enabled.
     rret \<lparr>prt_Enabled = enabled\<rparr>))"

interpretation privateroomtoggle_msg: frame_message PrivateRoomToggle_Serialize PrivateRoomToggle_Deserialize
  "\<lambda>_. True"
  "\<lambda>m. WriteUint32 141 @ WriteBool (prt_Enabled m)"
  CodeServer 141
  by unfold_locales
    (simp_all add: PrivateRoomToggle_Serialize_def PrivateRoomToggle_Deserialize_def codec_simps frame_code32)

record PrivateRoomCancelMembership =
  prcm_Room :: string

definition PrivateRoomCancelMembership_Serialize :: "PrivateRoomCancelMembership \<Rightarrow> wire_error + u8 list" where
  "PrivateRoomCancelMembership_Serialize message =
     Inr (Pack (WriteUint32 136 @ WriteString (prcm_Room message)))"

interpretation privateroomcancelmembership_req: server_request PrivateRoomCancelMembership_Serialize
  "\<lambda>m. WriteString (prcm_Room m)"
  136 "\<lambda>m. str_ok (prcm_Room m)" "\<lambda>m. prcm_Room m"
  by unfold_locales (auto simp: PrivateRoomCancelMembership_Serialize_def codec_inj)

record PrivateRoomDisown =
  prd_Room :: string

definition PrivateRoomDisown_Serialize :: "PrivateRoomDisown \<Rightarrow> wire_error + u8 list" where
  "PrivateRoomDisown_Serialize message =
     Inr (Pack (WriteUint32 137 @ WriteString (prd_Room message)))"

interpretation privateroomdisown_req: server_request PrivateRoomDisown_Serialize
  "\<lambda>m. WriteString (prd_Room m)"
  137 "\<lambda>m. str_ok (prd_Room m)" "\<lambda>m. prd_Room m"
  by unfold_locales (auto simp: PrivateRoomDisown_Serialize_def codec_inj)

record PrivateRoomAdded =
  pra_Room :: string

definition PrivateRoomAdded_Deserialize :: "PrivateRoomAdded reader" where
  "PrivateRoomAdded_Deserialize =
     rthen (header32 139) (\<lambda>_.
     rthen ReadString (\<lambda>room.
     rret \<lparr>pra_Room = room\<rparr>))"

interpretation privateroomadded_event: server_event PrivateRoomAdded_Deserialize
  "\<lambda>m. WriteString (pra_Room m)"
  139 "\<lambda>m. str_ok (pra_Room m)"
  by unfold_locales
    (simp_all add: PrivateRoomAdded_Deserialize_def codec_simps header32_mismatch rthen_def
      uint_word_of_int_u32)

record PrivateRoomRemoved =
  prr_Room :: string

definition PrivateRoomRemoved_Deserialize :: "PrivateRoomRemoved reader" where
  "PrivateRoomRemoved_Deserialize =
     rthen (header32 140) (\<lambda>_.
     rthen ReadString (\<lambda>room.
     rret \<lparr>prr_Room = room\<rparr>))"

interpretation privateroomremoved_event: server_event PrivateRoomRemoved_Deserialize
  "\<lambda>m. WriteString (prr_Room m)"
  140 "\<lambda>m. str_ok (prr_Room m)"
  by unfold_locales
    (simp_all add: PrivateRoomRemoved_Deserialize_def codec_simps header32_mismatch rthen_def
      uint_word_of_int_u32)

record PrivateRoomOperatorAdded =
  proa_Room :: string

definition PrivateRoomOperatorAdded_Deserialize :: "PrivateRoomOperatorAdded reader" where
  "PrivateRoomOperatorAdded_Deserialize =
     rthen (header32 145) (\<lambda>_.
     rthen ReadString (\<lambda>room.
     rret \<lparr>proa_Room = room\<rparr>))"

interpretation privateroomoperatoradded_event: server_event PrivateRoomOperatorAdded_Deserialize
  "\<lambda>m. WriteString (proa_Room m)"
  145 "\<lambda>m. str_ok (proa_Room m)"
  by unfold_locales
    (simp_all add: PrivateRoomOperatorAdded_Deserialize_def codec_simps header32_mismatch rthen_def
      uint_word_of_int_u32)

record PrivateRoomOperatorRemoved =
  pror_Room :: string

definition PrivateRoomOperatorRemoved_Deserialize :: "PrivateRoomOperatorRemoved reader" where
  "PrivateRoomOperatorRemoved_Deserialize =
     rthen (header32 146) (\<lambda>_.
     rthen ReadString (\<lambda>room.
     rret \<lparr>pror_Room = room\<rparr>))"

interpretation privateroomoperatorremoved_event: server_event PrivateRoomOperatorRemoved_Deserialize
  "\<lambda>m. WriteString (pror_Room m)"
  146 "\<lambda>m. str_ok (pror_Room m)"
  by unfold_locales
    (simp_all add: PrivateRoomOperatorRemoved_Deserialize_def codec_simps header32_mismatch rthen_def
      uint_word_of_int_u32)

record PrivateRoomUsers =
  pru_Room :: string
  pru_Users :: "string list"

definition PrivateRoomUsers_Deserialize :: "PrivateRoomUsers reader" where
  "PrivateRoomUsers_Deserialize =
     rthen (header32 133) (\<lambda>_.
     rthen ReadString (\<lambda>room.
     rthen ReadUint32 (\<lambda>count. rthen (read_times (unat count) ReadString) (\<lambda>users.
     rret \<lparr>pru_Room = room, pru_Users = users\<rparr>))))"

interpretation privateroomusers_event: server_event PrivateRoomUsers_Deserialize
  "\<lambda>m. WriteString (pru_Room m)
     @ WriteUint32 (word_of_nat (length (pru_Users m))) @ concat (map WriteString (pru_Users m))"
  133 "\<lambda>m. str_ok (pru_Room m) \<and> strs_ok (pru_Users m)"
  by unfold_locales
    (simp_all add: PrivateRoomUsers_Deserialize_def codec_simps header32_mismatch rthen_def
      uint_word_of_int_u32)

record PrivateRoomOperators =
  prop_Room :: string
  prop_Operators :: "string list"

definition PrivateRoomOperators_Deserialize :: "PrivateRoomOperators reader" where
  "PrivateRoomOperators_Deserialize =
     rthen (header32 148) (\<lambda>_.
     rthen ReadString (\<lambda>room.
     rthen ReadUint32 (\<lambda>count. rthen (read_times (unat count) ReadString) (\<lambda>operators.
     rret \<lparr>prop_Room = room, prop_Operators = operators\<rparr>))))"

interpretation privateroomoperators_event: server_event PrivateRoomOperators_Deserialize
  "\<lambda>m. WriteString (prop_Room m)
     @ WriteUint32 (word_of_nat (length (prop_Operators m))) @ concat (map WriteString (prop_Operators m))"
  148 "\<lambda>m. str_ok (prop_Room m) \<and> strs_ok (prop_Operators m)"
  by unfold_locales
    (simp_all add: PrivateRoomOperators_Deserialize_def codec_simps header32_mismatch rthen_def
      uint_word_of_int_u32)

section \<open>Tickers\<close>

record RoomTickerAdd =
  rta_Room :: string
  rta_Username :: string
  rta_Ticker :: string

definition RoomTickerAdd_Deserialize :: "RoomTickerAdd reader" where
  "RoomTickerAdd_Deserialize =
     rthen (header32 114) (\<lambda>_.
     rthen ReadString (\<lambda>room.
     rthen ReadString (\<lambda>username.
     rthen ReadString (\<lambda>ticker.
     rret \<lparr>rta_Room = room, rta_Username = username, rta_Ticker = ticker\<rparr>))))"

interpretation roomtickeradd_event: server_event RoomTickerAdd_Deserialize
  "\<lambda>m. WriteString (rta_Room m)
     @ WriteString (rta_Username m)
     @ WriteString (rta_Ticker m)"
  114 "\<lambda>m. str_ok (rta_Room m) \<and> str_ok (rta_Username m) \<and> str_ok (rta_Ticker m)"
  by unfold_locales
    (simp_all add: RoomTickerAdd_Deserialize_def codec_simps header32_mismatch rthen_def
      uint_word_of_int_u32)

record RoomTickerRemove =
  rtr_Room :: string
  rtr_Username :: string

definition RoomTickerRemove_Deserialize :: "RoomTickerRemove reader" where
  "RoomTickerRemove_Deserialize =
     rthen (header32 115) (\<lambda>_.
     rthen ReadString (\<lambda>room.
     rthen ReadString (\<lambda>username.
     rret \<lparr>rtr_Room = room, rtr_Username = username\<rparr>)))"

interpretation roomtickerremove_event: server_event RoomTickerRemove_Deserialize
  "\<lambda>m. WriteString (rtr_Room m)
     @ WriteString (rtr_Username m)"
  115 "\<lambda>m. str_ok (rtr_Room m) \<and> str_ok (rtr_Username m)"
  by unfold_locales
    (simp_all add: RoomTickerRemove_Deserialize_def codec_simps header32_mismatch rthen_def
      uint_word_of_int_u32)

record RoomTickerSet =
  rts_Room :: string
  rts_Ticker :: string

definition RoomTickerSet_Serialize :: "RoomTickerSet \<Rightarrow> wire_error + u8 list" where
  "RoomTickerSet_Serialize message =
     Inr (Pack (WriteUint32 116 @ WriteString (rts_Room message)
     @ WriteString (rts_Ticker message)))"

interpretation roomtickerset_req: server_request RoomTickerSet_Serialize
  "\<lambda>m. WriteString (rts_Room m)
     @ WriteString (rts_Ticker m)"
  116 "\<lambda>m. str_ok (rts_Room m) \<and> str_ok (rts_Ticker m)" "\<lambda>m. (rts_Room m, rts_Ticker m)"
  by unfold_locales (auto simp: RoomTickerSet_Serialize_def codec_inj)

text \<open>The room's name is a field of the struct, but the decoder starts with the number of users.\<close>

record UserTickers =
  ut_Username :: string
  ut_Tickers :: string

record RoomTicker =
  rt_Room :: string
  rt_Users :: "UserTickers list"

definition read_ticker :: "UserTickers reader" where
  "read_ticker =
     rthen ReadString (\<lambda>username. rthen ReadString (\<lambda>tickers. rret
       \<lparr>ut_Username = username, ut_Tickers = tickers\<rparr>))"

definition RoomTicker_Deserialize :: "RoomTicker reader" where
  "RoomTicker_Deserialize =
     rthen (header32 113) (\<lambda>_. rthen ReadUint32 (\<lambda>users.
     rthen (read_times (unat users) read_ticker) (\<lambda>us. rret
       \<lparr>rt_Room = [], rt_Users = us\<rparr>)))"

definition write_ticker :: "UserTickers \<Rightarrow> u8 list" where
  "write_ticker t = WriteString (ut_Username t) @ WriteString (ut_Tickers t)"

interpretation ticker: codec write_ticker read_ticker
  "\<lambda>t. str_ok (ut_Username t) \<and> str_ok (ut_Tickers t)"
  by unfold_locales (simp add: write_ticker_def read_ticker_def codec_simps)

lemma RoomTicker_read:
  assumes "length ts < 2 ^ 32" and "\<forall>t \<in> set ts. str_ok (ut_Username t) \<and> str_ok (ut_Tickers t)"
  shows "RoomTicker_Deserialize (Pack (WriteUint32 113 @ WriteUint32 (word_of_nat (length ts))
      @ concat (map write_ticker ts))) = Inr (\<lparr>rt_Room = [], rt_Users = ts\<rparr>, [])"
  using assms by (simp add: RoomTicker_Deserialize_def codec_simps unat_word_of_nat_id)

section \<open>Saying something\<close>

text \<open>What is written after the room is the user's name; the text itself is never sent.\<close>

record SayChatroom =
  sc_Room :: string
  sc_Message :: string
  sc_Username :: string

definition SayChatroom_Serialize :: "SayChatroom \<Rightarrow> wire_error + u8 list" where
  "SayChatroom_Serialize message =
     Inr (Pack (WriteUint32 13 @ WriteString (sc_Room message) @ WriteString (sc_Username message)))"

definition SayChatroom_Deserialize :: "SayChatroom reader" where
  "SayChatroom_Deserialize =
     rthen (header32 13) (\<lambda>_. rthen ReadString (\<lambda>room. rthen ReadString (\<lambda>username.
     rthen ReadString (\<lambda>message. rret
       \<lparr>sc_Room = room, sc_Message = message, sc_Username = username\<rparr>))))"

interpretation saychatroom_req: server_request SayChatroom_Serialize
  "\<lambda>m. WriteString (sc_Room m) @ WriteString (sc_Username m)" 13
  "\<lambda>m. str_ok (sc_Room m) \<and> str_ok (sc_Username m)" "\<lambda>m. (sc_Room m, sc_Username m)"
  by unfold_locales (auto simp: SayChatroom_Serialize_def codec_inj)

interpretation saychatroom_event: server_event SayChatroom_Deserialize
  "\<lambda>m. WriteString (sc_Room m) @ WriteString (sc_Username m) @ WriteString (sc_Message m)" 13
  "\<lambda>m. str_ok (sc_Room m) \<and> str_ok (sc_Username m) \<and> str_ok (sc_Message m)"
  by unfold_locales (simp_all add: SayChatroom_Deserialize_def codec_simps header32_mismatch)

section \<open>The room list\<close>

record Room =
  room_Name :: string
  room_Users :: int
  room_Private :: bool
  room_Owned :: bool
  room_Operated :: bool

definition RoomList_Serialize :: "unit \<Rightarrow> wire_error + u8 list" where
  "RoomList_Serialize message = Inr (Pack (WriteUint32 64))"

text \<open>
  One section: the number of its rooms, their names, then as many numbers of users. The source
  writes this loop out four times.
\<close>

definition read_rooms :: "(string \<Rightarrow> int \<Rightarrow> Room) \<Rightarrow> Room list reader" where
  "read_rooms room =
     rthen ReadUint32 (\<lambda>rooms. rthen (read_times (unat rooms) ReadString) (\<lambda>names.
     rthen (read_times (unat rooms) ReadUint32) (\<lambda>users. rret
       (map2 (\<lambda>name no. room name (uint no)) names users))))"

definition public_room :: "string \<Rightarrow> int \<Rightarrow> Room" where
  "public_room name no = \<lparr>room_Name = name, room_Users = no, room_Private = False,
     room_Owned = False, room_Operated = False\<rparr>"

definition owned_room :: "string \<Rightarrow> int \<Rightarrow> Room" where
  "owned_room name no = \<lparr>room_Name = name, room_Users = no, room_Private = True,
     room_Owned = True, room_Operated = False\<rparr>"

definition not_owned_room :: "string \<Rightarrow> int \<Rightarrow> Room" where
  "not_owned_room name no = \<lparr>room_Name = name, room_Users = no, room_Private = True,
     room_Owned = False, room_Operated = False\<rparr>"

definition operated_room :: "string \<Rightarrow> int \<Rightarrow> Room" where
  "operated_room name no = \<lparr>room_Name = name, room_Users = no, room_Private = True,
     room_Owned = False, room_Operated = True\<rparr>"

text \<open>All four sections are read, but what is appended after each private one is the owned rooms.\<close>

definition RoomList_Deserialize :: "Room list reader" where
  "RoomList_Deserialize =
     rthen (header32 64) (\<lambda>_.
     rthen (read_rooms public_room) (\<lambda>rooms.
     rthen (read_rooms owned_room) (\<lambda>ownedPrivateRooms.
     let rooms = rooms @ ownedPrivateRooms in
     rthen (read_rooms not_owned_room) (\<lambda>notOwnedPrivateRooms.
     let rooms = rooms @ ownedPrivateRooms in
     rthen (read_rooms operated_room) (\<lambda>operatedPrivateRooms.
     rret (rooms @ ownedPrivateRooms))))))"

text \<open>A section as the server sends it: names and numbers of users.\<close>

definition section_wire :: "(string \<times> u32) list \<Rightarrow> u8 list" where
  "section_wire rs =
     WriteUint32 (word_of_nat (length rs)) @ concat (map WriteString (map fst rs))
     @ concat (map WriteUint32 (map snd rs))"

definition section_ok :: "(string \<times> u32) list \<Rightarrow> bool" where
  "section_ok rs \<longleftrightarrow> length rs < 2 ^ 32 \<and> (\<forall>r \<in> set rs. str_ok (fst r))"

definition section_rooms :: "(string \<Rightarrow> int \<Rightarrow> Room) \<Rightarrow> (string \<times> u32) list \<Rightarrow> Room list" where
  "section_rooms room rs = map (\<lambda>(name, no). room name (uint no)) rs"

lemma read_times_map_put:
  assumes "codec put get ok" and "\<forall>x \<in> set xs. ok (f x)"
  shows "read_times (length xs) get (concat (map put (map f xs)) @ rest) = Inr (map f xs, rest)"
  using codec.read_times_put [OF assms(1), of "map f xs" rest] assms(2) by simp

lemma read_rooms_section [codec_simps]:
  assumes "section_ok rs"
  shows "read_rooms room (section_wire rs @ rest) = Inr (section_rooms room rs, rest)"
    and "read_rooms room (section_wire rs) = Inr (section_rooms room rs, [])"
proof -
  have n: "unat (word_of_nat (length rs) :: u32) = length rs"
    using assms by (intro unat_word_of_nat_id) (simp add: section_ok_def)
  have rooms: "map2 (\<lambda>name no. room name (uint no)) (map fst rs) (map snd rs) = section_rooms room rs"
    by (simp add: section_rooms_def zip_map_fst_snd flip: zip_map_map)
  have read: "read_rooms room (section_wire rs @ rest) = Inr (section_rooms room rs, rest)" for rest
    using assms n rooms read_times_map_put [OF str.codec_axioms, of rs fst]
      read_times_map_put [OF u32.codec_axioms, of rs snd]
    by (simp add: read_rooms_def section_wire_def codec_simps section_ok_def)
  show "read_rooms room (section_wire rs @ rest) = Inr (section_rooms room rs, rest)"
    by (rule read)
  show "read_rooms room (section_wire rs) = Inr (section_rooms room rs, [])"
    using read [of "[]"] by simp
qed

lemma RoomList_read:
  assumes "section_ok public" and "section_ok owned" and "section_ok notOwned"
    and "section_ok operated"
  shows "RoomList_Deserialize (Pack (WriteUint32 64 @ section_wire public @ section_wire owned
      @ section_wire notOwned @ section_wire operated))
    = Inr (section_rooms public_room public @ section_rooms owned_room owned
        @ section_rooms owned_room owned @ section_rooms owned_room owned, [])"
  using assms by (simp add: RoomList_Deserialize_def codec_simps Let_def)

section \<open>Joining a room\<close>

record RoomUser =
  usr_Username :: string
  usr_Status :: int
  usr_AverageSpeed :: int
  usr_UploadNumber :: int
  usr_Files :: int
  usr_Directories :: int
  usr_FreeSlots :: int
  usr_CountryCode :: string

record JoinRoom =
  jr_Room :: string
  jr_Users :: "RoomUser list"
  jr_Private :: bool
  jr_Owner :: string
  jr_Operators :: "string list"

definition JoinRoom_Serialize :: "JoinRoom \<Rightarrow> wire_error + u8 list" where
  "JoinRoom_Serialize message =
     Inr (Pack (WriteUint32 14 @ WriteString (jr_Room message)
       @ (if jr_Private message then WriteUint32 1 else WriteUint32 0)))"

definition new_user :: "string \<Rightarrow> RoomUser" where
  "new_user name = \<lparr>usr_Username = name, usr_Status = 0, usr_AverageSpeed = 0, usr_UploadNumber = 0,
     usr_Files = 0, usr_Directories = 0, usr_FreeSlots = 0, usr_CountryCode = []\<rparr>"

text \<open>\<open>j.Users[i].F = v\<close>: a write to a user that was not announced panics.\<close>

definition set_user :: "nat \<Rightarrow> (RoomUser \<Rightarrow> RoomUser) \<Rightarrow> RoomUser list \<Rightarrow> RoomUser list reader" where
  "set_user i f us = (if i < length us then rret (us[i := f (us ! i)]) else rfail IndexOutOfRange)"

fun for_users :: "nat \<Rightarrow> nat \<Rightarrow> (nat \<Rightarrow> RoomUser list \<Rightarrow> RoomUser list reader)
    \<Rightarrow> RoomUser list \<Rightarrow> RoomUser list reader" where
  "for_users i 0 body us = rret us"
| "for_users i (Suc n) body us = rthen (body i us) (for_users (Suc i) n body)"

definition status_step :: "nat \<Rightarrow> RoomUser list \<Rightarrow> RoomUser list reader" where
  "status_step i us = rthen ReadUint32 (\<lambda>status. set_user i (\<lambda>u. u\<lparr>usr_Status := uint status\<rparr>) us)"

definition stats_step :: "nat \<Rightarrow> RoomUser list \<Rightarrow> RoomUser list reader" where
  "stats_step i us =
     rthen ReadUint32 (\<lambda>speed. rthen (set_user i (\<lambda>u. u\<lparr>usr_AverageSpeed := uint speed\<rparr>) us) (\<lambda>us.
     rthen ReadUint32 (\<lambda>upload. rthen (set_user i (\<lambda>u. u\<lparr>usr_UploadNumber := uint upload\<rparr>) us) (\<lambda>us.
     rthen ReadUint32 (\<lambda>_.
     rthen ReadUint32 (\<lambda>files. rthen (set_user i (\<lambda>u. u\<lparr>usr_Files := uint files\<rparr>) us) (\<lambda>us.
     rthen ReadUint32 (\<lambda>directories. set_user i (\<lambda>u. u\<lparr>usr_Directories := uint directories\<rparr>) us))))))))"

definition slots_step :: "nat \<Rightarrow> RoomUser list \<Rightarrow> RoomUser list reader" where
  "slots_step i us = rthen ReadUint32 (\<lambda>free. set_user i (\<lambda>u. u\<lparr>usr_FreeSlots := uint free\<rparr>) us)"

definition country_step :: "nat \<Rightarrow> RoomUser list \<Rightarrow> RoomUser list reader" where
  "country_step i us = rthen ReadString (\<lambda>code. set_user i (\<lambda>u. u\<lparr>usr_CountryCode := code\<rparr>) us)"

definition JoinRoom_Deserialize :: "JoinRoom reader" where
  "JoinRoom_Deserialize =
     rthen (header32 14) (\<lambda>_. rthen ReadString (\<lambda>room.
     rthen ReadUint32 (\<lambda>usersInRoom. rthen (read_times (unat usersInRoom) ReadString) (\<lambda>names.
     rthen ReadUint32 (\<lambda>statuses.
     rthen (for_users 0 (unat statuses) status_step (map new_user names)) (\<lambda>users.
     rthen ReadUint32 (\<lambda>stats. rthen (for_users 0 (unat stats) stats_step users) (\<lambda>users.
     rthen ReadUint32 (\<lambda>slots. rthen (for_users 0 (unat slots) slots_step users) (\<lambda>users.
     rthen ReadUint32 (\<lambda>countries. rthen (for_users 0 (unat countries) country_step users) (\<lambda>users.
     rthen ReadString (\<lambda>owner.
     rthen ReadUint32 (\<lambda>operators. rthen (read_times (unat operators) ReadString) (\<lambda>ops. rret
       \<lparr>jr_Room = room, jr_Users = users, jr_Private = False, jr_Owner = owner,
        jr_Operators = ops\<rparr>)))))))))))))))"

text \<open>
  The contract of one pass over the users: the value read for position \<open>i\<close> is stored with the
  \<open>i\<close>-th user, and a position behind the last user panics as soon as its value is read.
\<close>

locale user_pass =
  fixes body :: "nat \<Rightarrow> RoomUser list \<Rightarrow> RoomUser list reader"
    and put :: "'a \<Rightarrow> u8 list"
    and ok :: "'a \<Rightarrow> bool"
    and upd :: "'a \<Rightarrow> RoomUser \<Rightarrow> RoomUser"
  assumes stored: "\<lbrakk>ok x; i < length us\<rbrakk> \<Longrightarrow>
      body i us (put x @ rest) = Inr (us[i := upd x (us ! i)], rest)"
    and behind: "\<lbrakk>ok x; length us \<le> i\<rbrakk> \<Longrightarrow> body i us (put x @ rest) = Inl IndexOutOfRange"
begin

lemma pass_from:
  "\<lbrakk>\<forall>x \<in> set xs. ok x; i + length xs = length us\<rbrakk> \<Longrightarrow>
   for_users i (length xs) body us (concat (map put xs) @ rest)
     = Inr (take i us @ map2 upd xs (drop i us), rest)"
proof (induction xs arbitrary: i us)
  case Nil
  then show ?case by simp
next
  case (Cons x xs)
  let ?us = "us[i := upd x (us ! i)]"
  have "i < length us" using Cons.prems by simp
  then have "take (Suc i) ?us = take i us @ [upd x (us ! i)]" "drop (Suc i) ?us = drop (Suc i) us"
    and "drop i us = us ! i # drop (Suc i) us"
    by (simp_all add: take_Suc_conv_app_nth Cons_nth_drop_Suc)
  with Cons \<open>i < length us\<close> show ?case by (simp add: stored)
qed

lemma pass:
  "\<lbrakk>\<forall>x \<in> set xs. ok x; length xs = length us\<rbrakk> \<Longrightarrow>
   for_users 0 (length xs) body us (concat (map put xs) @ rest) = Inr (map2 upd xs us, rest)"
  using pass_from [of xs 0 us rest] by simp

lemma pass_behind:
  "\<lbrakk>\<forall>x \<in> set xs. ok x; i \<le> length us; length us < i + length xs\<rbrakk> \<Longrightarrow>
   for_users i (length xs) body us (concat (map put xs) @ rest) = Inl IndexOutOfRange"
proof (induction xs arbitrary: i us)
  case Nil
  then show ?case by simp
next
  case (Cons x xs)
  then show ?case
    by (cases "i < length us") (simp_all add: stored behind)
qed

end

definition stats_wire :: "u32 \<times> u32 \<times> u32 \<times> u32 \<times> u32 \<Rightarrow> u8 list" where
  "stats_wire = (\<lambda>(speed, upload, unknown, files, directories). WriteUint32 speed @ WriteUint32 upload
     @ WriteUint32 unknown @ WriteUint32 files @ WriteUint32 directories)"

definition stats_upd :: "u32 \<times> u32 \<times> u32 \<times> u32 \<times> u32 \<Rightarrow> RoomUser \<Rightarrow> RoomUser" where
  "stats_upd = (\<lambda>(speed, upload, unknown, files, directories) u. u\<lparr>usr_AverageSpeed := uint speed,
     usr_UploadNumber := uint upload, usr_Files := uint files, usr_Directories := uint directories\<rparr>)"

interpretation status_pass: user_pass status_step WriteUint32 "\<lambda>_. True"
  "\<lambda>s u. u\<lparr>usr_Status := uint s\<rparr>"
  by unfold_locales (simp_all add: status_step_def codec_simps set_user_def)

interpretation stats_pass: user_pass stats_step stats_wire "\<lambda>_. True" stats_upd
  by unfold_locales
    (auto simp: stats_step_def stats_wire_def stats_upd_def codec_simps set_user_def rthen_def)

interpretation slots_pass: user_pass slots_step WriteUint32 "\<lambda>_. True"
  "\<lambda>s u. u\<lparr>usr_FreeSlots := uint s\<rparr>"
  by unfold_locales (simp_all add: slots_step_def codec_simps set_user_def)

interpretation country_pass: user_pass country_step WriteString str_ok
  "\<lambda>c u. u\<lparr>usr_CountryCode := c\<rparr>"
  by unfold_locales (simp_all add: country_step_def codec_simps set_user_def)

text \<open>A counted column, and a frame with its five columns, as the server sends them.\<close>

definition column :: "('a \<Rightarrow> u8 list) \<Rightarrow> 'a list \<Rightarrow> u8 list" where
  "column put xs = WriteUint32 (word_of_nat (length xs)) @ concat (map put xs)"

lemma rthen_column:
  assumes "length xs < 2 ^ 32"
  shows "rthen ReadUint32 f (column put xs @ rest)
    = f (word_of_nat (length xs)) (concat (map put xs) @ rest)"
  by (simp add: column_def codec_simps)

lemma JoinRoom_read:
  assumes strs: "str_ok room" "str_ok owner" "strs_ok names" "strs_ok countries" "strs_ok operators"
    and len: "length statuses = length names" "length stats = length names"
      "length slots = length names" "length countries = length names"
  shows "JoinRoom_Deserialize (Pack (WriteUint32 14 @ WriteString room @ column WriteString names
      @ column WriteUint32 statuses @ column stats_wire stats @ column WriteUint32 slots
      @ column WriteString countries @ WriteString owner @ column WriteString operators))
    = Inr (\<lparr>jr_Room = room,
        jr_Users = map2 (\<lambda>c u. u\<lparr>usr_CountryCode := c\<rparr>) countries
          (map2 (\<lambda>s u. u\<lparr>usr_FreeSlots := uint s\<rparr>) slots
            (map2 stats_upd stats
              (map2 (\<lambda>s u. u\<lparr>usr_Status := uint s\<rparr>) statuses (map new_user names)))),
        jr_Private = False, jr_Owner = owner, jr_Operators = operators\<rparr>, [])"
proof -
  have n: "unat (word_of_nat (length names) :: u32) = length names"
    using strs by (intro unat_word_of_nat_id) (simp add: strs_ok_def)
  note passes = status_pass.pass [of statuses, unfolded len] stats_pass.pass [of stats, unfolded len]
    slots_pass.pass [of slots, unfolded len] country_pass.pass [of countries, unfolded len]
  show ?thesis
    using strs n by (simp add: JoinRoom_Deserialize_def column_def codec_simps len passes strs_ok_def)
qed

lemma JoinRoom_panic:
  assumes "str_ok room" "strs_ok names" and "length names < length statuses" "length statuses < 2 ^ 32"
  shows "JoinRoom_Deserialize (Pack (WriteUint32 14 @ WriteString room @ column WriteString names
      @ column WriteUint32 statuses @ rest)) = Inl IndexOutOfRange"
proof -
  have n: "unat (word_of_nat (length statuses) :: u32) = length statuses"
    using assms(4) by (intro unat_word_of_nat_id) simp
  show ?thesis
    using assms n status_pass.pass_behind [of statuses 0 "map new_user names" rest]
    by (simp add: JoinRoom_Deserialize_def column_def codec_simps)
qed

end
