(* ===== verification/ServerSession.thy ===== *)
theory ServerSession
  imports ServerMessages
begin

text \<open>
  The server messages whose formats branch: login, watching a user, failed indirect connections,
  embedded distributed messages, possible parents and messages to several users.
\<close>

section \<open>Login\<close>

text \<open>\<open>crypto/md5\<close> is a parameter; the digest of the credentials travels in lower-case hex.\<close>

definition hex_digit :: "nat \<Rightarrow> char" where
  "hex_digit n = ''0123456789abcdef'' ! n"

definition hexEncodeToString :: "u8 list \<Rightarrow> string" where
  "hexEncodeToString bs =
     concat (map (\<lambda>b. [hex_digit (unat b div 16), hex_digit (unat b mod 16)]) bs)"

record Login =
  lg_Username :: string
  lg_Password :: string
  lg_Greet :: string
  lg_IP :: "u8 list"
  lg_Sum :: string

definition VersionMajor :: u32 where
  "VersionMajor = 160"

definition VersionMinor :: u32 where
  "VersionMinor = 1"

definition login_sum :: "(u8 list \<Rightarrow> u8 list) \<Rightarrow> string \<Rightarrow> string \<Rightarrow> u8 list" where
  "login_sum md5 username password =
     NewString (hexEncodeToString (md5 (bytes_of (username @ password))))"

definition Login_Serialize :: "(u8 list \<Rightarrow> u8 list) \<Rightarrow> Login \<Rightarrow> wire_error + u8 list" where
  "Login_Serialize md5 message =
     Inr (Pack (WriteUint32 1 @ WriteString (lg_Username message) @ WriteString (lg_Password message)
       @ WriteUint32 VersionMajor @ login_sum md5 (lg_Username message) (lg_Password message)
       @ WriteUint32 VersionMinor))"

definition login_failure :: "string \<Rightarrow> wire_error" where
  "login_failure errMessage =
     (if errMessage = ''INVALIDUSERNAME'' then InvalidUsername
      else if errMessage = ''INVALIDPASS'' then InvalidPass
      else if errMessage = ''INVALIDVERSION'' then InvalidVersion
      else UnknownLoginFailure errMessage)"

definition Login_Deserialize :: "Login reader" where
  "Login_Deserialize =
     rthen (header32 1) (\<lambda>_. rthen ReadBool (\<lambda>success.
       if \<not> success then rthen ReadString (\<lambda>errMessage. rfail (login_failure errMessage))
       else rthen ReadString (\<lambda>greet. rthen ReadUint32 (\<lambda>ip. rthen ReadString (\<lambda>sum. rret
         \<lparr>lg_Username = [], lg_Password = [], lg_Greet = greet, lg_IP = ReadIP ip,
          lg_Sum = sum\<rparr>)))))"

interpretation login_req: server_request "Login_Serialize md5"
  "\<lambda>m. WriteString (lg_Username m) @ WriteString (lg_Password m) @ WriteUint32 VersionMajor
     @ login_sum md5 (lg_Username m) (lg_Password m) @ WriteUint32 VersionMinor"
  1 "\<lambda>m. str_ok (lg_Username m) \<and> str_ok (lg_Password m)" "\<lambda>m. (lg_Username m, lg_Password m)"
  for md5
  by unfold_locales (auto simp: Login_Serialize_def codec_inj)

interpretation login_event: server_event Login_Deserialize
  "\<lambda>m. WriteBool True @ WriteString (lg_Greet m) @ WriteUint32 (ip_word (lg_IP m))
     @ WriteString (lg_Sum m)"
  1 "\<lambda>m. str_ok (lg_Greet m) \<and> length (lg_IP m) = 4 \<and> str_ok (lg_Sum m)
     \<and> lg_Username m = [] \<and> lg_Password m = []"
  by unfold_locales (simp_all add: Login_Deserialize_def codec_simps header32_mismatch rthen_def)

lemma Login_refused:
  "str_ok r \<Longrightarrow> Login_Deserialize (Pack (WriteUint32 1 @ WriteBool False @ WriteString r @ rest))
     = Inl (login_failure r)"
  by (simp add: Login_Deserialize_def codec_simps)

section \<open>Watching a user\<close>

definition StatusOffline :: int where
  "StatusOffline = 0"

definition StatusAway :: int where
  "StatusAway = 1"

definition StatusOnline :: int where
  "StatusOnline = 2"

record WatchUser =
  wu_Username :: string
  wu_Exists :: bool
  wu_Status :: int
  wu_AverageSpeed :: int
  wu_UploadNumber :: int
  wu_Unknown :: u32
  wu_Files :: int
  wu_Directories :: int
  wu_CountryCode :: string

definition WatchUser_Serialize :: "WatchUser \<Rightarrow> wire_error + u8 list" where
  "WatchUser_Serialize message = Inr (Pack (WriteUint32 5 @ WriteString (wu_Username message)))"

text \<open>The part that is present for an existing user only.\<close>

definition read_watched :: "WatchUser \<Rightarrow> WatchUser reader" where
  "read_watched w =
     rthen ReadUint32 (\<lambda>status. rthen ReadUint32ToInt (\<lambda>speed. rthen ReadUint32ToInt (\<lambda>uploads.
     rthen ReadUint32 (\<lambda>unknown. rthen ReadUint32ToInt (\<lambda>files. rthen ReadUint32ToInt (\<lambda>directories.
     rret (w\<lparr>wu_Status := uint status, wu_AverageSpeed := speed, wu_UploadNumber := uploads,
       wu_Unknown := unknown, wu_Files := files, wu_Directories := directories\<rparr>)))))))"

definition WatchUser_Deserialize :: "WatchUser reader" where
  "WatchUser_Deserialize =
     rthen (header32 5) (\<lambda>_. rthen ReadString (\<lambda>username. rthen ReadBool (\<lambda>exists.
     let w0 = \<lparr>wu_Username = username, wu_Exists = exists, wu_Status = 0, wu_AverageSpeed = 0,
       wu_UploadNumber = 0, wu_Unknown = 0, wu_Files = 0, wu_Directories = 0,
       wu_CountryCode = []\<rparr> in
     rthen (if exists then read_watched w0 else rret w0) (\<lambda>w.
       if wu_Status w = StatusOnline \<or> wu_Status w = StatusAway
       then rthen ReadString (\<lambda>country. rret (w\<lparr>wu_CountryCode := country\<rparr>))
       else rret w))))"

text \<open>What a server sends: nothing after \<open>Exists\<close> for an unknown user, no country when offline.\<close>

definition watch_wire :: "WatchUser \<Rightarrow> u8 list" where
  "watch_wire m =
     WriteString (wu_Username m) @ WriteBool (wu_Exists m)
     @ (if wu_Exists m
        then WriteIntAsUint32 (wu_Status m) @ WriteIntAsUint32 (wu_AverageSpeed m)
          @ WriteIntAsUint32 (wu_UploadNumber m) @ WriteUint32 (wu_Unknown m)
          @ WriteIntAsUint32 (wu_Files m) @ WriteIntAsUint32 (wu_Directories m)
          @ (if wu_Status m \<in> {StatusOnline, StatusAway} then WriteString (wu_CountryCode m) else [])
        else [])"

definition watch_ok :: "WatchUser \<Rightarrow> bool" where
  "watch_ok m \<longleftrightarrow> str_ok (wu_Username m) \<and> str_ok (wu_CountryCode m)
     \<and> u32_range (wu_Status m) \<and> u32_range (wu_AverageSpeed m) \<and> u32_range (wu_UploadNumber m)
     \<and> u32_range (wu_Files m) \<and> u32_range (wu_Directories m)
     \<and> (\<not> wu_Exists m \<longrightarrow> wu_Status m = 0 \<and> wu_AverageSpeed m = 0 \<and> wu_UploadNumber m = 0
          \<and> wu_Unknown m = 0 \<and> wu_Files m = 0 \<and> wu_Directories m = 0 \<and> wu_CountryCode m = [])
     \<and> (wu_Status m \<notin> {StatusOnline, StatusAway} \<longrightarrow> wu_CountryCode m = [])"

interpretation watchuser_req: server_request WatchUser_Serialize
  "\<lambda>m. WriteString (wu_Username m)" 5 "\<lambda>m. str_ok (wu_Username m)" wu_Username
  by unfold_locales (auto simp: WatchUser_Serialize_def codec_inj)

lemma WatchUser_read:
  assumes "watch_ok m"
  shows "WatchUser_Deserialize (Pack (WriteUint32 5 @ watch_wire m)) = Inr (m, [])"
proof (cases "wu_Exists m")
  case True
  with assms show ?thesis
    by (cases "wu_Status m \<in> {StatusOnline, StatusAway}")
      (auto simp: WatchUser_Deserialize_def watch_wire_def watch_ok_def read_watched_def Let_def
        codec_simps uint_word_of_int_u32 rthen_def)
next
  case False
  with assms show ?thesis
    by (simp add: WatchUser_Deserialize_def watch_wire_def watch_ok_def Let_def codec_simps
        StatusOnline_def StatusAway_def rthen_def)
qed

interpretation watchuser_event: server_event WatchUser_Deserialize watch_wire 5 watch_ok
  by unfold_locales (erule WatchUser_read, simp add: WatchUser_Deserialize_def header32_mismatch)

section \<open>Indirect connections that failed\<close>

text \<open>The server may leave the username out.\<close>

record CantConnectToPeer =
  cc_Token :: u32
  cc_Username :: string

definition CantConnectToPeer_Serialize :: "CantConnectToPeer \<Rightarrow> wire_error + u8 list" where
  "CantConnectToPeer_Serialize message =
     Inr (Pack (WriteUint32 1001 @ WriteUint32 (cc_Token message) @ WriteString (cc_Username message)))"

definition CantConnectToPeer_Deserialize :: "CantConnectToPeer reader" where
  "CantConnectToPeer_Deserialize =
     rthen (header32 1001) (\<lambda>_. rthen ReadUint32ToToken (\<lambda>token bs.
       case ReadStringLen bs of
         Inl err \<Rightarrow>
           if err = EOF then Inr (\<lparr>cc_Token = token, cc_Username = []\<rparr>, bs) else Inl err
       | Inr (sz, bs') \<Rightarrow>
           rthen (ReadStringBody sz) (\<lambda>username. rret
             \<lparr>cc_Token = token, cc_Username = username\<rparr>) bs'))"

interpretation cantconnect_msg: frame_message CantConnectToPeer_Serialize
  CantConnectToPeer_Deserialize "\<lambda>m. str_ok (cc_Username m)"
  "\<lambda>m. WriteUint32 1001 @ WriteUint32 (cc_Token m) @ WriteString (cc_Username m)" CodeServer 1001
  by unfold_locales
    (simp_all add: CantConnectToPeer_Serialize_def CantConnectToPeer_Deserialize_def codec_simps
      frame_code32)

lemma CantConnectToPeer_no_username:
  "CantConnectToPeer_Deserialize (Pack (WriteUint32 1001 @ WriteUint32 t))
     = Inr (\<lparr>cc_Token = t, cc_Username = []\<rparr>, [])"
  by (simp add: CantConnectToPeer_Deserialize_def codec_simps ReadStringLen_def ReadUint32_def
      rthen_def read_full_def)

section \<open>Embedded distributed messages and possible parents\<close>

record ServerEmbedded =
  se_Code :: u8
  se_Message :: "u8 list"

definition ServerEmbedded_Deserialize :: "ServerEmbedded reader" where
  "ServerEmbedded_Deserialize =
     rthen (header32 93) (\<lambda>_. rthen ReadUint8 (\<lambda>embeddedCode bs.
       Inr (\<lparr>se_Code = embeddedCode, se_Message = bs\<rparr>, [])))"

interpretation serverembedded_event: server_event ServerEmbedded_Deserialize
  "\<lambda>m. WriteUint8 (se_Code m) @ se_Message m" 93 "\<lambda>_. True"
  by unfold_locales (simp_all add: ServerEmbedded_Deserialize_def codec_simps header32_mismatch)

record Parent =
  pa_Username :: string
  pa_IP :: "u8 list"
  pa_Port :: int

definition maxPossibleParents :: u32 where
  "maxPossibleParents = 64"

definition read_parent :: "Parent reader" where
  "read_parent =
     rthen ReadString (\<lambda>username. rthen ReadUint32 (\<lambda>ip. rthen ReadUint32ToInt (\<lambda>port. rret
       \<lparr>pa_Username = username, pa_IP = ReadIP ip, pa_Port = port\<rparr>)))"

definition PossibleParents_Deserialize :: "Parent list reader" where
  "PossibleParents_Deserialize =
     rthen (header32 102) (\<lambda>_. rthen ReadUint32 (\<lambda>parents.
       if parents > maxPossibleParents then rfail TooManyParents
       else read_times (unat parents) read_parent))"

definition parent_wire :: "Parent \<Rightarrow> u8 list" where
  "parent_wire p = WriteString (pa_Username p) @ WriteUint32 (ip_word (pa_IP p))
     @ WriteIntAsUint32 (pa_Port p)"

definition parent_ok :: "Parent \<Rightarrow> bool" where
  "parent_ok p \<longleftrightarrow> str_ok (pa_Username p) \<and> length (pa_IP p) = 4 \<and> u32_range (pa_Port p)"

interpretation parent: codec parent_wire read_parent parent_ok
  by unfold_locales (simp add: parent_wire_def read_parent_def parent_ok_def codec_simps rthen_def)

interpretation possibleparents_event: server_event PossibleParents_Deserialize
  "\<lambda>ps. WriteUint32 (word_of_nat (length ps)) @ concat (map parent_wire ps)" 102
  "\<lambda>ps. length ps \<le> 64 \<and> (\<forall>p \<in> set ps. parent_ok p)"
  by unfold_locales
    (simp_all add: PossibleParents_Deserialize_def codec_simps header32_mismatch
      maxPossibleParents_def word_less_nat_alt unat_word_of_nat_id)

lemma PossibleParents_too_many:
  "n > 64 \<Longrightarrow> PossibleParents_Deserialize (Pack (WriteUint32 102 @ WriteUint32 n @ rest))
     = Inl TooManyParents"
  by (simp add: PossibleParents_Deserialize_def codec_simps maxPossibleParents_def)

section \<open>Messages to several users\<close>

record MessageUsers =
  mus_Usernames :: "string list"
  mus_Message :: string

definition MessageUsers_Serialize :: "MessageUsers \<Rightarrow> wire_error + u8 list" where
  "MessageUsers_Serialize message =
     Inr (Pack (WriteUint32 149 @ WriteUint32 (word_of_nat (length (mus_Usernames message)))
       @ concat (map WriteString (mus_Usernames message)) @ WriteString (mus_Message message)))"

definition MessageUsers_fields :: "MessageUsers \<Rightarrow> u8 list" where
  "MessageUsers_fields m =
     WriteUint32 (word_of_nat (length (mus_Usernames m)))
     @ concat (map WriteString (mus_Usernames m)) @ WriteString (mus_Message m)"

lemma MessageUsers_fields_inj:
  assumes "strs_ok (mus_Usernames m) \<and> str_ok (mus_Message m)"
    and "strs_ok (mus_Usernames m') \<and> str_ok (mus_Message m')"
    and "MessageUsers_fields m = MessageUsers_fields m'"
  shows "m = m'"
proof -
  let ?get = "rthen ReadUint32 (\<lambda>n. rthen (read_times (unat n) ReadString) (\<lambda>us.
    rthen ReadString (\<lambda>t. rret (us, t))))"
  have *: "?get (MessageUsers_fields x) = Inr ((mus_Usernames x, mus_Message x), [])"
    if "strs_ok (mus_Usernames x) \<and> str_ok (mus_Message x)" for x
    using that by (simp add: MessageUsers_fields_def codec_simps)
  have "Inr ((mus_Usernames m, mus_Message m), []) = ?get (MessageUsers_fields m)"
    by (rule * [OF assms(1), symmetric])
  also have "\<dots> = Inr ((mus_Usernames m', mus_Message m'), [])"
    unfolding assms(3) by (rule * [OF assms(2)])
  finally show ?thesis by simp
qed

interpretation messageusers_req: server_request MessageUsers_Serialize MessageUsers_fields 149
  "\<lambda>m. strs_ok (mus_Usernames m) \<and> str_ok (mus_Message m)" "\<lambda>m. m"
  by unfold_locales
    (simp add: MessageUsers_Serialize_def MessageUsers_fields_def, rule MessageUsers_fields_inj)

end
