(* ===== verification/CoreState.thy ===== *)
theory CoreState
  imports Prelude Complex_Main
begin

text \<open>
  The domain types of \<open>internal/core\<close> (\<open>state.go\<close>, \<open>models.go\<close>): the life cycle states of jobs,
  candidates and transfers and the rows of the tables that hold them. Times are integers (the
  comparisons and additions of \<open>time.Time\<close> are all the code uses of them); a nullable column is an
  \<open>option\<close>.
\<close>

section \<open>States\<close>

datatype job_state =
    Discovered | Searching | Selecting | Downloading | Verifying | Importing | Completed
  | Cooldown | Failed | Cancelled | Wanted | Done | Parked | Orphaned | NotImported | ImportRefused

definition Terminal :: "job_state \<Rightarrow> bool" where
  "Terminal s \<longleftrightarrow> s = Completed \<or> s = Failed \<or> s = Cancelled"

definition PipelineTerminal :: "job_state \<Rightarrow> bool" where
  "PipelineTerminal s \<longleftrightarrow> s = Done \<or> s = Cancelled \<or> s = Failed \<or> s = NotImported \<or> s = ImportRefused"

datatype transfer_state =
    TPending | TQueued | TInProgress | TCompleted | TErrored | TCancelled | TStalled

text \<open>The four states every guarded transfer write lists; the rest are final.\<close>

definition live_state :: "transfer_state \<Rightarrow> bool" where
  "live_state s \<longleftrightarrow> s \<in> {TPending, TQueued, TInProgress, TStalled}"

lemma live_state_simps [simp]:
  "live_state TPending" "live_state TQueued" "live_state TInProgress" "live_state TStalled"
  "\<not> live_state TCompleted" "\<not> live_state TErrored" "\<not> live_state TCancelled"
  by (simp_all add: live_state_def)

lemma live_state_iff: "live_state s \<longleftrightarrow> s \<noteq> TCompleted \<and> s \<noteq> TErrored \<and> s \<noteq> TCancelled"
  by (cases s) simp_all

datatype candidate_state = CNew | CActive | CSucceeded | CFailed

datatype job_source = SourceLidarr | SourceManual

datatype job_event =
    EventSearch | EventSearchFallback | EventSearchExcluded | EventCandidateSelected
  | EventCandidateRejected | EventCandidateDeferred | EventAttemptFailed | EventAttemptSucceeded
  | EventTransferStalled | EventImportOK | EventImportRejected | EventDedup | EventJobFailed
  | EventQuarantined | EventNotImported | EventJobParked | EventImportRefused

section \<open>Rows\<close>

type_synonym ts = int \<comment> \<open>a time stamp\<close>

record album_job =
  job_ID :: nat
  job_Album :: "int option" \<comment> \<open>\<open>lidarr_album_id\<close>, null for a manual job\<close>
  job_State :: job_state
  job_Created :: ts
  job_Updated :: ts
  job_Title :: string
  job_Artist :: string
  job_ReleaseDate :: string
  job_ArtistID :: int
  job_Retries :: int
  job_EmptySearches :: int
  job_NotBefore :: "ts option"
  job_FailedAt :: "ts option"
  job_MinTracks :: int
  job_MaxTracks :: int
  job_Source :: job_source
  job_MBID :: string
  job_Year :: "int option"
  job_Tracks :: "nat option"
  job_Format :: "string option"
  job_RefusedReason :: string

record candidate_file =
  cf_Filename :: string
  cf_Size :: int

record candidate =
  cand_ID :: nat
  cand_Job :: nat
  cand_Username :: string
  cand_Score :: real
  cand_Files :: "candidate_file list"
  cand_State :: candidate_state
  cand_FailReason :: string
  cand_ImportSubmitted :: "ts option"
  cand_LastResort :: bool
  cand_DeferredSince :: "ts option"
  cand_Created :: ts
  cand_Updated :: ts

record transfer =
  tr_ID :: nat
  tr_Candidate :: nat
  tr_SlskdID :: string
  tr_Username :: string
  tr_Filename :: string
  tr_State :: transfer_state
  tr_BytesDone :: int
  tr_BytesTotal :: int
  tr_Retries :: nat
  tr_Deadline :: ts
  tr_LastProgress :: "ts option"
  tr_Updated :: ts

end
