(* ===== verification/Store.thy ===== *)
theory Store
  imports CoreState
begin

text \<open>
  The database of \<open>internal/store\<close> as a record of tables, and the well-formedness that its
  constraints and its single-writer discipline together promise.

  A method of \<open>Store\<close> that runs one transaction is a function from the database to the database
  (with a result where the caller looks at one); \<open>tx.Rollback\<close> is returning the database it was
  given (for the activation \<open>ActivationTx\<close> derives this from the single statements). PostgreSQL executes each transaction atomically and the methods lock the rows they
  decide on, so an interleaving of callers is a sequence of these functions. A write that a
  unique index refuses is an error value.
\<close>

section \<open>Tables\<close>

record rejection =
  rej_Job :: nat
  rej_Username :: string
  rej_Dir :: string
  rej_Reason :: string
  rej_Created :: ts
  rej_RetryAfter :: "ts option"
  rej_Attempts :: nat

record download_folder =
  df_Job :: nat
  df_Leaf :: string
  df_Created :: ts
  df_Cleaned :: "ts option"

record event_row =
  ev_ID :: nat
  ev_Job :: nat
  ev_Event :: job_event
  ev_Detail :: string
  ev_Created :: ts

record db =
  jobs :: "album_job list"
  candidates :: "candidate list"
  transfers :: "transfer list"
  rejections :: "rejection list"
  folders :: "download_folder list"
  events :: "event_row list"
  next_id :: nat

definition empty_db :: db where
  "empty_db = \<lparr>jobs = [], candidates = [], transfers = [], rejections = [], folders = [],
     events = [], next_id = 1\<rparr>"

datatype store_error =
    ErrJobImporting
  | ErrRemoteFileBusy
  | ErrUniqueViolation
  | ErrForeignKey
  | ErrInvalidDownloadLeaf
  | ErrInvalidCandidateFiles
  | ErrNoRows

section \<open>Selections\<close>

definition job_is :: "nat \<Rightarrow> album_job \<Rightarrow> bool" where
  "job_is i j \<longleftrightarrow> job_ID j = i"

definition the_job :: "nat \<Rightarrow> db \<Rightarrow> album_job option" where
  "the_job i s = find (job_is i) (jobs s)"

definition the_candidate :: "nat \<Rightarrow> db \<Rightarrow> candidate option" where
  "the_candidate i s = find (\<lambda>c. cand_ID c = i) (candidates s)"

text \<open>\<open>SELECT id FROM candidates WHERE album_job_id = ...\<close>\<close>

definition candidate_ids :: "(nat \<Rightarrow> bool) \<Rightarrow> db \<Rightarrow> nat list" where
  "candidate_ids p s = map cand_ID (filter (\<lambda>c. p (cand_Job c)) (candidates s))"

definition live :: "transfer \<Rightarrow> bool" where
  "live t \<longleftrightarrow> live_state (tr_State t)"

definition active :: "candidate \<Rightarrow> bool" where
  "active c \<longleftrightarrow> cand_State c = CActive"

section \<open>Well-formed databases\<close>

text \<open>Primary keys, the identity sequence, foreign keys and unique indexes of the migrations.\<close>

definition keys_ok :: "db \<Rightarrow> bool" where
  "keys_ok s \<longleftrightarrow>
     distinct (map job_ID (jobs s)) \<and> distinct (map cand_ID (candidates s))
     \<and> distinct (map tr_ID (transfers s))
     \<and> (\<forall>j \<in> set (jobs s). job_ID j < next_id s) \<and> (\<forall>c \<in> set (candidates s). cand_ID c < next_id s)
     \<and> (\<forall>t \<in> set (transfers s). tr_ID t < next_id s)"

definition refs_ok :: "db \<Rightarrow> bool" where
  "refs_ok s \<longleftrightarrow>
     (\<forall>c \<in> set (candidates s). cand_Job c \<in> job_ID ` set (jobs s))
     \<and> (\<forall>t \<in> set (transfers s). tr_Candidate t \<in> cand_ID ` set (candidates s))
     \<and> (\<forall>r \<in> set (rejections s). rej_Job r \<in> job_ID ` set (jobs s))
     \<and> (\<forall>f \<in> set (folders s). df_Job f \<in> job_ID ` set (jobs s))"

text \<open>\<open>idx_transfers_live_remote_owner\<close>: one live transfer per remote file.\<close>

definition remote_file :: "transfer \<Rightarrow> string \<times> string" where
  "remote_file t = (tr_Username t, tr_Filename t)"

definition owners_ok :: "db \<Rightarrow> bool" where
  "owners_ok s \<longleftrightarrow> distinct (map remote_file (filter live (transfers s)))"

text \<open>
  The claims the code makes about candidates: a job has at most one active one; a job that is
  downloading or importing has one (otherwise it holds a slot for ever without being worked on,
  the wedge of issue 442); a job that is waiting or finished has none.
\<close>

definition slot_state :: "job_state \<Rightarrow> bool" where
  "slot_state st \<longleftrightarrow> st = Downloading \<or> st = Importing"

definition quiet_state :: "job_state \<Rightarrow> bool" where
  "quiet_state st \<longleftrightarrow> st \<in> {Wanted, Selecting, Done, NotImported, ImportRefused}"

definition has_active :: "db \<Rightarrow> nat \<Rightarrow> bool" where
  "has_active s i \<longleftrightarrow> (\<exists>c \<in> set (candidates s). active c \<and> cand_Job c = i)"

definition single_active :: "db \<Rightarrow> bool" where
  "single_active s \<longleftrightarrow> distinct (map cand_Job (filter active (candidates s)))"

definition not_wedged :: "db \<Rightarrow> bool" where
  "not_wedged s \<longleftrightarrow> (\<forall>j \<in> set (jobs s). slot_state (job_State j) \<longrightarrow> has_active s (job_ID j))"

definition quiet_ok :: "db \<Rightarrow> bool" where
  "quiet_ok s \<longleftrightarrow> (\<forall>j \<in> set (jobs s). quiet_state (job_State j) \<longrightarrow> \<not> has_active s (job_ID j))"

text \<open>A manual job has no Lidarr album; \<open>lidarr_album_id\<close> is unique among the others.\<close>

definition sources_ok :: "db \<Rightarrow> bool" where
  "sources_ok s \<longleftrightarrow>
     (\<forall>j \<in> set (jobs s). (job_Source j = SourceManual) = (job_Album j = None))
     \<and> distinct (filter (\<lambda>a. a \<noteq> None) (map job_Album (jobs s)))"

definition base_ok :: "db \<Rightarrow> bool" where
  "base_ok s \<longleftrightarrow> keys_ok s \<and> refs_ok s \<and> owners_ok s \<and> sources_ok s"

definition wf_db :: "db \<Rightarrow> bool" where
  "wf_db s \<longleftrightarrow> base_ok s \<and> single_active s \<and> not_wedged s \<and> quiet_ok s"

lemmas wf_defs = wf_db_def base_ok_def keys_ok_def refs_ok_def owners_ok_def single_active_def
  not_wedged_def quiet_ok_def sources_ok_def

lemma slot_state_simps [simp]:
  "slot_state Downloading" "slot_state Importing" "\<not> slot_state Wanted" "\<not> slot_state Selecting"
  "\<not> slot_state Failed" "\<not> slot_state Cancelled" "\<not> slot_state Parked" "\<not> slot_state Done"
  "\<not> slot_state NotImported" "\<not> slot_state ImportRefused"
  by (simp_all add: slot_state_def)

lemma quiet_state_simps [simp]:
  "quiet_state Wanted" "quiet_state Selecting" "quiet_state Done" "quiet_state NotImported"
  "quiet_state ImportRefused" "\<not> quiet_state Downloading" "\<not> quiet_state Importing"
  "\<not> quiet_state Failed" "\<not> quiet_state Cancelled" "\<not> quiet_state Parked"
  by (simp_all add: quiet_state_def)

lemma wf_empty: "wf_db empty_db"
  by (simp add: wf_defs empty_db_def)

section \<open>Reading a row by its key\<close>

lemma the_job_Some: "the_job i s = Some j \<Longrightarrow> j \<in> set (jobs s) \<and> job_ID j = i"
  by (auto simp: the_job_def job_is_def find_Some_iff)

lemma the_job_None: "the_job i s = None \<longleftrightarrow> i \<notin> job_ID ` set (jobs s)"
  by (auto simp: the_job_def job_is_def find_None_iff)

lemma the_candidate_Some: "the_candidate i s = Some c \<Longrightarrow> c \<in> set (candidates s) \<and> cand_ID c = i"
  by (auto simp: the_candidate_def find_Some_iff)

lemma job_unique:
  "\<lbrakk>base_ok s; j \<in> set (jobs s); k \<in> set (jobs s); job_ID j = job_ID k\<rbrakk> \<Longrightarrow> j = k"
  by (auto simp: base_ok_def keys_ok_def distinct_map inj_on_def)

lemma candidate_unique:
  "\<lbrakk>base_ok s; c \<in> set (candidates s); d \<in> set (candidates s); cand_ID c = cand_ID d\<rbrakk> \<Longrightarrow> c = d"
  by (auto simp: base_ok_def keys_ok_def distinct_map inj_on_def)

lemma transfer_unique:
  "\<lbrakk>base_ok s; t \<in> set (transfers s); u \<in> set (transfers s); tr_ID t = tr_ID u\<rbrakk> \<Longrightarrow> t = u"
  by (auto simp: base_ok_def keys_ok_def distinct_map inj_on_def)

lemma the_job_member:
  assumes "base_ok s" and "j \<in> set (jobs s)"
  shows "the_job (job_ID j) s = Some j"
proof -
  obtain k where "the_job (job_ID j) s = Some k"
    using the_job_None [of "job_ID j" s] assms(2) by (cases "the_job (job_ID j) s") auto
  with the_job_Some [OF this] job_unique [OF assms(1)] assms(2) show ?thesis by auto
qed

lemma active_unique:
  assumes "wf_db s" and "c \<in> set (candidates s)" and "d \<in> set (candidates s)"
    and "active c" and "active d" and "cand_Job c = cand_Job d"
  shows "c = d"
proof -
  have "inj_on cand_Job (set (filter active (candidates s)))"
    using assms(1) by (simp add: wf_db_def single_active_def distinct_map)
  with assms(2-6) show ?thesis by (auto simp: inj_on_def)
qed

section \<open>Statements and what they preserve\<close>

text \<open>
  Every statement of the store is of one of a few kinds. Each kind gets its effect on the parts of
  well-formedness once; the methods are chains of them.
\<close>

definition update_jobs :: "(album_job \<Rightarrow> bool) \<Rightarrow> (album_job \<Rightarrow> album_job) \<Rightarrow> db \<Rightarrow> db" where
  "update_jobs p f s = s\<lparr>jobs := row_update p f (jobs s)\<rparr>"

definition update_candidates ::
  "(candidate \<Rightarrow> bool) \<Rightarrow> (candidate \<Rightarrow> candidate) \<Rightarrow> db \<Rightarrow> db" where
  "update_candidates p f s = s\<lparr>candidates := row_update p f (candidates s)\<rparr>"

definition update_transfers ::
  "(transfer \<Rightarrow> bool) \<Rightarrow> (transfer \<Rightarrow> transfer) \<Rightarrow> db \<Rightarrow> db" where
  "update_transfers p f s = s\<lparr>transfers := row_update p f (transfers s)\<rparr>"

text \<open>\<open>DELETE FROM transfers WHERE candidate_id IN (...)\<close> and then \<open>DELETE FROM candidates\<close>.\<close>

definition delete_transfers_of :: "(nat \<Rightarrow> bool) \<Rightarrow> db \<Rightarrow> db" where
  "delete_transfers_of q s =
     s\<lparr>transfers := row_delete (\<lambda>t. tr_Candidate t \<in> set (candidate_ids q s)) (transfers s)\<rparr>"

definition delete_candidates_of :: "(nat \<Rightarrow> bool) \<Rightarrow> db \<Rightarrow> db" where
  "delete_candidates_of q s = s\<lparr>candidates := row_delete (\<lambda>c. q (cand_Job c)) (candidates s)\<rparr>"

definition drop_candidates :: "(nat \<Rightarrow> bool) \<Rightarrow> db \<Rightarrow> db" where
  "drop_candidates q s = delete_candidates_of q (delete_transfers_of q s)"

definition delete_rejections :: "(rejection \<Rightarrow> bool) \<Rightarrow> db \<Rightarrow> db" where
  "delete_rejections p s = s\<lparr>rejections := row_delete p (rejections s)\<rparr>"

lemma update_jobs_select [simp]:
  "jobs (update_jobs p f s) = row_update p f (jobs s)"
  "candidates (update_jobs p f s) = candidates s" "transfers (update_jobs p f s) = transfers s"
  "rejections (update_jobs p f s) = rejections s" "folders (update_jobs p f s) = folders s"
  "events (update_jobs p f s) = events s" "next_id (update_jobs p f s) = next_id s"
  by (simp_all add: update_jobs_def)

lemma update_candidates_select [simp]:
  "candidates (update_candidates p h s) = row_update p h (candidates s)"
  "jobs (update_candidates p h s) = jobs s" "transfers (update_candidates p h s) = transfers s"
  "rejections (update_candidates p h s) = rejections s"
  "folders (update_candidates p h s) = folders s" "events (update_candidates p h s) = events s"
  "next_id (update_candidates p h s) = next_id s"
  by (simp_all add: update_candidates_def)

lemma update_transfers_select [simp]:
  "transfers (update_transfers p h s) = row_update p h (transfers s)"
  "jobs (update_transfers p h s) = jobs s" "candidates (update_transfers p h s) = candidates s"
  "rejections (update_transfers p h s) = rejections s"
  "folders (update_transfers p h s) = folders s" "events (update_transfers p h s) = events s"
  "next_id (update_transfers p h s) = next_id s"
  by (simp_all add: update_transfers_def)

lemma drop_candidates_select [simp]:
  "candidates (drop_candidates q s) = row_delete (\<lambda>c. q (cand_Job c)) (candidates s)"
  "transfers (drop_candidates q s)
     = row_delete (\<lambda>t. tr_Candidate t \<in> set (candidate_ids q s)) (transfers s)"
  "jobs (drop_candidates q s) = jobs s" "rejections (drop_candidates q s) = rejections s"
  "folders (drop_candidates q s) = folders s" "events (drop_candidates q s) = events s"
  "next_id (drop_candidates q s) = next_id s"
  by (simp_all add: drop_candidates_def delete_candidates_of_def delete_transfers_of_def)

lemma delete_rejections_select [simp]:
  "rejections (delete_rejections p s) = row_delete p (rejections s)"
  "jobs (delete_rejections p s) = jobs s" "candidates (delete_rejections p s) = candidates s"
  "transfers (delete_rejections p s) = transfers s" "folders (delete_rejections p s) = folders s"
  "events (delete_rejections p s) = events s" "next_id (delete_rejections p s) = next_id s"
  by (simp_all add: delete_rejections_def)

subsection \<open>Keys, references, ownership\<close>

definition keeps_identity :: "(album_job \<Rightarrow> album_job) \<Rightarrow> bool" where
  "keeps_identity f \<longleftrightarrow>
     (\<forall>j. job_ID (f j) = job_ID j \<and> job_Album (f j) = job_Album j \<and> job_Source (f j) = job_Source j)"

lemma job_IDs_row_update:
  assumes "keeps_identity f"
  shows "job_ID ` set (row_update p f js) = job_ID ` set js"
proof -
  have "map job_ID (row_update p f js) = map job_ID js"
    using assms by (intro map_row_update) (simp add: keeps_identity_def)
  then have "set (map job_ID (row_update p f js)) = set (map job_ID js)" by simp
  then show ?thesis by simp
qed

definition keeps_owner :: "(candidate \<Rightarrow> candidate) \<Rightarrow> bool" where
  "keeps_owner h \<longleftrightarrow> (\<forall>c. cand_ID (h c) = cand_ID c \<and> cand_Job (h c) = cand_Job c)"

definition keeps_remote :: "(transfer \<Rightarrow> transfer) \<Rightarrow> bool" where
  "keeps_remote h \<longleftrightarrow>
     (\<forall>t. tr_ID (h t) = tr_ID t \<and> tr_Candidate (h t) = tr_Candidate t
        \<and> remote_file (h t) = remote_file t)"

lemma base_map_jobs:
  assumes "base_ok s" and g: "keeps_identity g"
  shows "base_ok (s\<lparr>jobs := map g (jobs s)\<rparr>)"
  using assms
  by (simp add: base_ok_def keys_ok_def refs_ok_def owners_ok_def sources_ok_def keeps_identity_def
      o_def image_image)

lemma base_update_jobs:
  "\<lbrakk>base_ok s; keeps_identity f\<rbrakk> \<Longrightarrow> base_ok (update_jobs p f s)"
  unfolding update_jobs_def row_update_map
  by (rule base_map_jobs) (simp_all add: keeps_identity_def)

lemma base_map_candidates:
  assumes "base_ok s" and "keeps_owner h"
  shows "base_ok (s\<lparr>candidates := map h (candidates s)\<rparr>)"
  using assms
  by (simp add: base_ok_def keys_ok_def refs_ok_def owners_ok_def sources_ok_def keeps_owner_def
      o_def image_image)

lemma base_update_candidates:
  "\<lbrakk>base_ok s; keeps_owner h\<rbrakk> \<Longrightarrow> base_ok (update_candidates p h s)"
  unfolding update_candidates_def row_update_map
  by (rule base_map_candidates) (simp_all add: keeps_owner_def)

text \<open>A transfer that is not live must not become live; the others may change in any way.\<close>

lemma base_update_transfers:
  assumes "base_ok s" and h: "keeps_remote h"
    and "\<And>t. \<lbrakk>t \<in> set (transfers s); p t; live (h t)\<rbrakk> \<Longrightarrow> live t"
  shows "base_ok (update_transfers p h s)"
proof -
  let ?g = "\<lambda>t. if p t then h t else t"
  have g: "tr_ID (?g t) = tr_ID t" "tr_Candidate (?g t) = tr_Candidate t"
    "remote_file (?g t) = remote_file t" for t
    using h by (simp_all add: keeps_remote_def)
  have "distinct (map remote_file (filter live (map ?g (transfers s))))"
    using assms(1,3) g
    by (intro distinct_keys_shrink) (auto simp: base_ok_def owners_ok_def split: if_splits)
  then have "owners_ok (update_transfers p h s)"
    by (simp add: owners_ok_def row_update_map)
  moreover have "keys_ok (update_transfers p h s)"
    using assms(1) map_row_update [of "transfers s" p tr_ID h] h
    by (simp add: base_ok_def keys_ok_def ball_row_update g keeps_remote_def)
  moreover have "refs_ok (update_transfers p h s)"
    using assms(1) by (simp add: base_ok_def refs_ok_def ball_row_update g)
  ultimately show ?thesis
    using assms(1) by (simp add: base_ok_def sources_ok_def)
qed

lemma base_drop_candidates:
  assumes "base_ok s"
  shows "base_ok (drop_candidates q s)"
proof -
  have "distinct (map remote_file (filter live (transfers (drop_candidates q s))))"
    using assms by (simp add: base_ok_def owners_ok_def distinct_keys_row_delete)
  moreover have "\<forall>t \<in> set (transfers (drop_candidates q s)).
      tr_Candidate t \<in> cand_ID ` set (candidates (drop_candidates q s))"
  proof
    fix t assume t: "t \<in> set (transfers (drop_candidates q s))"
    then obtain c where c: "c \<in> set (candidates s)" "tr_Candidate t = cand_ID c"
      using assms by (auto simp: base_ok_def refs_ok_def table_simps)
    with t have "\<not> q (cand_Job c)" by (auto simp: table_simps candidate_ids_def)
    with c show "tr_Candidate t \<in> cand_ID ` set (candidates (drop_candidates q s))"
      by (auto simp: table_simps)
  qed
  ultimately show ?thesis
    using assms
    by (simp add: base_ok_def keys_ok_def refs_ok_def owners_ok_def sources_ok_def
        distinct_row_delete table_simps)
qed

lemma base_delete_rejections: "base_ok s \<Longrightarrow> base_ok (delete_rejections p s)"
  by (simp add: base_ok_def keys_ok_def refs_ok_def owners_ok_def sources_ok_def table_simps)

subsection \<open>Active candidates\<close>

lemma has_active_simps [simp]:
  "has_active (update_jobs p f s) i = has_active s i"
  "has_active (update_transfers r h s) i = has_active s i"
  "has_active (delete_rejections d s) i = has_active s i"
  "has_active (drop_candidates q s) i \<longleftrightarrow> has_active s i \<and> \<not> q i"
  by (auto simp: has_active_def table_simps)

lemma single_active_simps [simp]:
  "single_active (update_jobs p f s) = single_active s"
  "single_active (update_transfers r h s) = single_active s"
  "single_active (delete_rejections d s) = single_active s"
  by (simp_all add: single_active_def)

lemma single_active_drop: "single_active s \<Longrightarrow> single_active (drop_candidates q s)"
  by (simp add: single_active_def distinct_keys_row_delete)

lemma single_active_update:
  assumes "single_active s" and "keeps_owner h"
    and "\<And>c. \<lbrakk>c \<in> set (candidates s); p c; active (h c)\<rbrakk> \<Longrightarrow> active c"
  shows "single_active (update_candidates p h s)"
  unfolding single_active_def update_candidates_select row_update_map
  using assms
  by (intro distinct_keys_shrink) (auto simp: single_active_def keeps_owner_def split: if_splits)

lemma slots_iff:
  "not_wedged (update_jobs p f s)
     \<longleftrightarrow> (\<forall>j \<in> set (jobs s). slot_state (job_State (if p j then f j else j))
            \<longrightarrow> has_active s (job_ID (if p j then f j else j)))"
  "quiet_ok (update_jobs p f s)
     \<longleftrightarrow> (\<forall>j \<in> set (jobs s). quiet_state (job_State (if p j then f j else j))
            \<longrightarrow> \<not> has_active s (job_ID (if p j then f j else j)))"
  unfolding not_wedged_def quiet_ok_def update_jobs_select ball_row_update has_active_simps
  by (rule refl)+

lemma slots_update_transfers [simp]:
  "not_wedged (update_transfers p h s) = not_wedged s"
  "quiet_ok (update_transfers p h s) = quiet_ok s"
  "not_wedged (delete_rejections d s) = not_wedged s"
  "quiet_ok (delete_rejections d s) = quiet_ok s"
  by (simp_all add: not_wedged_def quiet_ok_def)

subsection \<open>Transactions on well-formed databases\<close>

text \<open>
  A transaction that updates the jobs that satisfy \<open>p\<close> and does something to the candidates: what is
  left to show is that the jobs it moves and the jobs it leaves fit their active candidates.
\<close>

lemma wf_transaction:
  assumes wf: "wf_db s" and base: "base_ok s'" and single: "single_active s'"
    and js: "jobs s' = row_update p f (jobs s)" and f: "keeps_identity f"
    and moved: "\<And>j. \<lbrakk>j \<in> set (jobs s); p j\<rbrakk> \<Longrightarrow>
      (slot_state (job_State (f j)) \<longrightarrow> has_active s' (job_ID j))
      \<and> (quiet_state (job_State (f j)) \<longrightarrow> \<not> has_active s' (job_ID j))"
    and left: "\<And>j. \<lbrakk>j \<in> set (jobs s); \<not> p j\<rbrakk> \<Longrightarrow>
      (slot_state (job_State j) \<longrightarrow> has_active s (job_ID j) \<longrightarrow> has_active s' (job_ID j))
      \<and> (quiet_state (job_State j) \<longrightarrow> has_active s' (job_ID j) \<longrightarrow> has_active s (job_ID j))"
  shows "wf_db s'"
proof -
  have f_ID: "job_ID (f j) = job_ID j" for j
    using f by (simp add: keeps_identity_def)
  have "(slot_state (job_State k) \<longrightarrow> has_active s' (job_ID k))
      \<and> (quiet_state (job_State k) \<longrightarrow> \<not> has_active s' (job_ID k))" if k: "k \<in> set (jobs s')" for k
  proof -
    from k js obtain j where j: "j \<in> set (jobs s)" "k = (if p j then f j else j)"
      by (auto simp: row_update_map)
    show ?thesis
    proof (cases "p j")
      case True
      with moved [OF j(1)] j f_ID show ?thesis by simp
    next
      case False
      with left [OF j(1)] j wf show ?thesis by (auto simp: wf_db_def not_wedged_def quiet_ok_def)
    qed
  qed
  with base single show ?thesis by (auto simp: wf_db_def not_wedged_def quiet_ok_def)
qed

text \<open>An update of jobs alone.\<close>

lemma wf_update_jobs:
  assumes wf: "wf_db s" and f: "keeps_identity f"
    and slot: "\<And>j. \<lbrakk>j \<in> set (jobs s); p j; slot_state (job_State (f j))\<rbrakk> \<Longrightarrow> has_active s (job_ID j)"
    and quiet: "\<And>j. \<lbrakk>j \<in> set (jobs s); p j; quiet_state (job_State (f j))\<rbrakk> \<Longrightarrow> \<not> has_active s (job_ID j)"
  shows "wf_db (update_jobs p f s)"
proof (rule wf_transaction [OF wf, where p = p and f = f])
  show "base_ok (update_jobs p f s)" "single_active (update_jobs p f s)"
    using wf f by (simp_all add: wf_db_def base_update_jobs)
qed (use assms in auto)

text \<open>An update of jobs that leaves their states alone.\<close>

lemma wf_update_jobs_same_state:
  assumes "wf_db s" and "keeps_identity f" and "\<And>j. job_State (f j) = job_State j"
  shows "wf_db (update_jobs p f s)"
  using assms by (intro wf_update_jobs) (auto simp: wf_db_def not_wedged_def quiet_ok_def)

text \<open>Jobs that start over: their candidates and transfers go with the transition to a quiet state.\<close>

lemma wf_start_over:
  assumes wf: "wf_db s" and f: "keeps_identity f"
    and p: "\<And>j. \<lbrakk>j \<in> set (jobs s); p j\<rbrakk> \<Longrightarrow> q (job_ID j) \<and> \<not> slot_state (job_State (f j))"
    and q: "\<And>j. \<lbrakk>j \<in> set (jobs s); q (job_ID j)\<rbrakk> \<Longrightarrow> p j"
  shows "wf_db (drop_candidates q (update_jobs p f s))"
proof (rule wf_transaction [OF wf, where p = p and f = f])
  show "base_ok (drop_candidates q (update_jobs p f s))"
    using wf f by (intro base_drop_candidates base_update_jobs) (simp_all add: wf_db_def)
  show "single_active (drop_candidates q (update_jobs p f s))"
    using wf by (intro single_active_drop) (simp add: wf_db_def)
qed (use p q f in \<open>auto dest: p\<close>)

lemma wf_update_transfers:
  assumes "wf_db s" and "keeps_remote h"
    and "\<And>t. \<lbrakk>t \<in> set (transfers s); p t; live (h t)\<rbrakk> \<Longrightarrow> live t"
  shows "wf_db (update_transfers p h s)"
  using assms base_update_transfers [of s h p] by (simp add: wf_db_def)

lemma wf_delete_rejections: "wf_db s \<Longrightarrow> wf_db (delete_rejections p s)"
  by (simp add: wf_db_def base_delete_rejections)

text \<open>A candidate update that changes no state.\<close>

lemma wf_update_candidates_same_state:
  assumes "wf_db s" and "keeps_owner h" and "\<And>c. cand_State (h c) = cand_State c"
  shows "wf_db (update_candidates p h s)"
proof -
  have "has_active (update_candidates p h s) i = has_active s i" for i
    using assms(2,3)
    by (auto simp: has_active_def active_def keeps_owner_def bex_row_update split: if_splits)
  with assms show ?thesis
    by (auto simp: wf_db_def not_wedged_def quiet_ok_def base_update_candidates active_def
        intro!: single_active_update)
qed

end
