(* ===== verification/StoreJobs.thy ===== *)
theory StoreJobs
  imports Store
begin

text \<open>
  The job operations of \<open>internal/store\<close> (\<open>pipeline.go\<close>, \<open>jobs.go\<close>): the guarded transitions, back-off,
  retries, cancellation and deletion, and the reads that pick work. Each keeps the database
  well-formed.
\<close>

section \<open>Reads\<close>

definition CountJobsInStates :: "job_state list \<Rightarrow> db \<Rightarrow> nat" where
  "CountJobsInStates states s =
     (if states = [] then 0 else row_count (\<lambda>j. job_State j \<in> set states) (jobs s))"

definition runnable :: "ts \<Rightarrow> album_job \<Rightarrow> bool" where
  "runnable now j \<longleftrightarrow> (case job_NotBefore j of None \<Rightarrow> True | Some t \<Rightarrow> t \<le> now)"

text \<open>The text comparison of the database's collation is a parameter.\<close>

definition job_before :: "(string \<Rightarrow> string \<Rightarrow> bool) \<Rightarrow> job_state \<Rightarrow> album_job \<Rightarrow> album_job \<Rightarrow> bool" where
  "job_before text_less state j k =
     (if state = Wanted
      then text_less (job_ReleaseDate k) (job_ReleaseDate j)
        \<or> (\<not> text_less (job_ReleaseDate j) (job_ReleaseDate k) \<and> job_Updated j < job_Updated k)
      else job_Updated j < job_Updated k)"

definition RunnableJobsInState ::
  "(string \<Rightarrow> string \<Rightarrow> bool) \<Rightarrow> job_state \<Rightarrow> ts \<Rightarrow> nat \<Rightarrow> db \<Rightarrow> album_job list" where
  "RunnableJobsInState text_less state now limit s =
     take limit (order_by (job_before text_less state)
       (filter (\<lambda>j. job_State j = state \<and> runnable now j) (jobs s)))"

section \<open>Back-off and metadata\<close>

definition SetJobBackoff :: "nat \<Rightarrow> int \<Rightarrow> ts \<Rightarrow> ts \<Rightarrow> db \<Rightarrow> db" where
  "SetJobBackoff jobID retries notBefore now =
     update_jobs (job_is jobID) (\<lambda>j. j\<lparr>job_Retries := retries, job_EmptySearches := 0,
       job_NotBefore := Some notBefore, job_Updated := now\<rparr>)"

definition SetJobEmptySearchBackoff :: "nat \<Rightarrow> int \<Rightarrow> ts \<Rightarrow> ts \<Rightarrow> db \<Rightarrow> db" where
  "SetJobEmptySearchBackoff jobID emptySearches notBefore now =
     update_jobs (job_is jobID) (\<lambda>j. j\<lparr>job_EmptySearches := emptySearches,
       job_NotBefore := Some notBefore, job_Updated := now\<rparr>)"

definition SetJobNotBefore :: "nat \<Rightarrow> ts \<Rightarrow> db \<Rightarrow> db" where
  "SetJobNotBefore jobID notBefore =
     update_jobs (job_is jobID) (\<lambda>j. j\<lparr>job_NotBefore := Some notBefore\<rparr>)"

definition SetJobTrackBand :: "nat \<Rightarrow> int \<Rightarrow> int \<Rightarrow> db \<Rightarrow> db" where
  "SetJobTrackBand jobID minTracks maxTracks =
     update_jobs (job_is jobID) (\<lambda>j. j\<lparr>job_MinTracks := minTracks, job_MaxTracks := maxTracks\<rparr>)"

record metadata =
  md_Title :: string
  md_Artist :: string
  md_ReleaseDate :: string
  md_ArtistID :: int

definition set_metadata :: "metadata \<Rightarrow> album_job \<Rightarrow> album_job" where
  "set_metadata m j = j\<lparr>job_Title := md_Title m, job_Artist := md_Artist m,
     job_ReleaseDate := md_ReleaseDate m, job_ArtistID := md_ArtistID m\<rparr>"

definition metadata_missing :: "album_job \<Rightarrow> bool" where
  "metadata_missing j \<longleftrightarrow> job_Title j = [] \<or> job_Artist j = [] \<or> job_ReleaseDate j = []
     \<or> job_ArtistID j = 0"

definition UpdateJobMetadata :: "nat \<Rightarrow> metadata \<Rightarrow> ts \<Rightarrow> db \<Rightarrow> db" where
  "UpdateJobMetadata jobID m now =
     update_jobs (job_is jobID) (\<lambda>j. (set_metadata m j)\<lparr>job_Updated := now\<rparr>)"

definition BackfillJobMetadataIfEmpty :: "nat \<Rightarrow> metadata \<Rightarrow> db \<Rightarrow> db" where
  "BackfillJobMetadataIfEmpty jobID m =
     update_jobs (\<lambda>j. job_is jobID j \<and> metadata_missing j) (set_metadata m)"

definition DeferSelectingJob :: "nat \<Rightarrow> ts \<Rightarrow> db \<Rightarrow> db" where
  "DeferSelectingJob jobID now =
     update_jobs (\<lambda>j. job_is jobID j \<and> job_State j = Selecting) (\<lambda>j. j\<lparr>job_Updated := now\<rparr>)"

section \<open>Guarded transitions\<close>

definition with_state :: "job_state \<Rightarrow> ts \<Rightarrow> album_job \<Rightarrow> album_job" where
  "with_state st now j = j\<lparr>job_State := st, job_Updated := now\<rparr>"

definition MarkJobFailed :: "nat \<Rightarrow> ts \<Rightarrow> db \<Rightarrow> db" where
  "MarkJobFailed jobID now =
     update_jobs (\<lambda>j. job_is jobID j \<and> job_State j \<notin> {Cancelled, Done, Failed})
       (\<lambda>j. j\<lparr>job_State := Failed, job_FailedAt := Some now, job_NotBefore := None,
         job_Updated := now\<rparr>)"

definition AdvanceJobStateFrom :: "nat \<Rightarrow> job_state \<Rightarrow> job_state \<Rightarrow> ts \<Rightarrow> db \<Rightarrow> db \<times> bool" where
  "AdvanceJobStateFrom jobID from to now s =
     (let p = (\<lambda>j. job_is jobID j \<and> job_State j = from)
      in (update_jobs p (with_state to now) s, row_count p (jobs s) > 0))"

text \<open>The unguarded transition; no caller outside the tests.\<close>

definition AdvanceJobState :: "nat \<Rightarrow> job_state \<Rightarrow> ts \<Rightarrow> db \<Rightarrow> db" where
  "AdvanceJobState jobID to now = update_jobs (job_is jobID) (with_state to now)"

section \<open>Starting over\<close>

definition clean_slate :: "job_state \<Rightarrow> ts \<Rightarrow> album_job \<Rightarrow> album_job" where
  "clean_slate st now j = j\<lparr>job_State := st, job_Retries := 0, job_EmptySearches := 0,
     job_NotBefore := None, job_FailedAt := None, job_Updated := now\<rparr>"

definition ResetJobToWanted :: "nat \<Rightarrow> job_state \<Rightarrow> int \<Rightarrow> ts option \<Rightarrow> ts \<Rightarrow> db \<Rightarrow> db" where
  "ResetJobToWanted jobID from retries notBefore now s =
     (let p = (\<lambda>j. job_is jobID j \<and> job_State j = from)
      in if row_count p (jobs s) = 0 then s
         else drop_candidates (\<lambda>i. i = jobID)
           (update_jobs p (\<lambda>j. j\<lparr>job_State := Wanted, job_Retries := retries, job_EmptySearches := 0,
              job_NotBefore := notBefore, job_Updated := now\<rparr>) s))"

definition retryable :: "album_job \<Rightarrow> bool" where
  "retryable j \<longleftrightarrow> job_State j \<in> {Failed, Parked, Orphaned}"

definition RetryFailedJob :: "nat \<Rightarrow> ts \<Rightarrow> db \<Rightarrow> db \<times> bool" where
  "RetryFailedJob jobID now s =
     (let p = (\<lambda>j. job_is jobID j \<and> retryable j)
      in if row_count p (jobs s) = 0 then (s, False)
         else (delete_rejections (\<lambda>r. rej_Job r = jobID)
                 (drop_candidates (\<lambda>i. i = jobID) (update_jobs p (clean_slate Wanted now) s)), True))"

definition revive_candidate :: "candidate_state \<Rightarrow> ts \<Rightarrow> candidate \<Rightarrow> candidate" where
  "revive_candidate st now c = c\<lparr>cand_State := st, cand_FailReason := [],
     cand_ImportSubmitted := None, cand_Updated := now\<rparr>"

definition RetryManualJob :: "nat \<Rightarrow> ts \<Rightarrow> db \<Rightarrow> db \<times> bool" where
  "RetryManualJob jobID now s =
     (let p = (\<lambda>j. job_is jobID j \<and> job_Source j = SourceManual \<and> retryable j)
      in if row_count p (jobs s) = 0 then (s, False)
         else (let s1 = update_jobs p (clean_slate Selecting now) s;
                   s2 = delete_transfers_of (\<lambda>i. i = jobID) s1;
                   s3 = update_candidates (\<lambda>c. cand_Job c = jobID) (revive_candidate CNew now) s2
               in if row_count (\<lambda>c. cand_Job c = jobID) (candidates s2) = 0 then (s, False)
                  else (s3, True)))"

definition ForceSearchJob :: "nat \<Rightarrow> ts \<Rightarrow> db \<Rightarrow> db \<times> bool" where
  "ForceSearchJob jobID now s =
     (let p = (\<lambda>j. job_is jobID j \<and> job_State j \<notin> {Downloading, Importing})
      in if row_count p (jobs s) = 0 then (s, False)
         else (delete_rejections (\<lambda>r. rej_Job r = jobID \<and> rej_RetryAfter r \<noteq> None)
                 (drop_candidates (\<lambda>i. i = jobID) (update_jobs p (clean_slate Wanted now) s)), True))"

text \<open>
  \<open>currentCandidateOrder\<close>: the active candidate first, untried ones last, then the most recently
  updated, then the highest id.
\<close>

definition current_before :: "candidate \<Rightarrow> candidate \<Rightarrow> bool" where
  "current_before c d \<longleftrightarrow>
     (if active c \<noteq> active d then active c
      else if (cand_State c = CNew) \<noteq> (cand_State d = CNew) then cand_State d = CNew
      else if cand_Updated c \<noteq> cand_Updated d then cand_Updated c > cand_Updated d
      else cand_ID c > cand_ID d)"

definition current_candidate :: "nat \<Rightarrow> db \<Rightarrow> candidate option" where
  "current_candidate jobID s =
     pick_first current_before (filter (\<lambda>c. cand_Job c = jobID) (candidates s))"

text \<open>
  \<open>dir\<close> is \<open>matcher.ReleaseDir\<close>. A candidate without a usable first filename has no rejection to
  delete.
\<close>

definition first_file :: "candidate \<Rightarrow> string option" where
  "first_file c =
     (case cand_Files c of [] \<Rightarrow> None
      | f # _ \<Rightarrow> if cf_Filename f = [] then None else Some (cf_Filename f))"

definition RetryRefusedJob :: "(string \<Rightarrow> string) \<Rightarrow> nat \<Rightarrow> ts \<Rightarrow> db \<Rightarrow> db \<times> bool" where
  "RetryRefusedJob dir jobID now s =
     (let p = (\<lambda>j. job_is jobID j \<and> job_State j = ImportRefused)
      in if row_count p (jobs s) = 0 then (s, False)
         else (case current_candidate jobID s of
                 None \<Rightarrow> (s, False)
               | Some c \<Rightarrow>
                   if cand_State c \<noteq> CFailed then (s, False)
                   else (let s1 = update_jobs p (\<lambda>j. j\<lparr>job_State := Importing,
                                    job_RefusedReason := [], job_Updated := now\<rparr>) s;
                             s2 = update_candidates (\<lambda>d. cand_ID d = cand_ID c)
                                    (revive_candidate CActive now) s1
                         in case first_file c of
                              None \<Rightarrow> (s2, True)
                            | Some file \<Rightarrow>
                                (delete_rejections (\<lambda>r. rej_Job r = jobID
                                   \<and> rej_Username r = cand_Username c \<and> rej_Dir r = dir file) s2,
                                 True))))"

section \<open>Parking, cancelling, deleting\<close>

text \<open>
  \<open>ParkJobForCandidate\<close>: the transfer's last state is recorded whatever the job does; the job is
  parked if it is still downloading. The result is the owning job (0 for none) and whether it was
  parked.
\<close>

definition finish_transfer :: "transfer_state \<Rightarrow> int \<Rightarrow> int \<Rightarrow> ts \<Rightarrow> transfer \<Rightarrow> transfer" where
  "finish_transfer st bytesDone bytesTotal now t =
     t\<lparr>tr_State := st, tr_BytesDone := bytesDone, tr_BytesTotal := bytesTotal,
       tr_LastProgress := (if bytesDone > tr_BytesDone t then Some now else tr_LastProgress t),
       tr_Updated := now\<rparr>"

definition ParkJobForCandidate ::
  "nat \<Rightarrow> nat \<Rightarrow> transfer_state \<Rightarrow> int \<Rightarrow> int \<Rightarrow> ts \<Rightarrow> db \<Rightarrow> db \<times> nat \<times> bool" where
  "ParkJobForCandidate transferID candidateID st bytesDone bytesTotal now s =
     (let pt = (\<lambda>t. tr_ID t = transferID \<and> tr_Candidate t = candidateID)
      in case the_candidate candidateID s of
           None \<Rightarrow> (s, 0, False)
         | Some c \<Rightarrow>
             (case the_job (cand_Job c) s of
                None \<Rightarrow> (s, 0, False)
              | Some j \<Rightarrow>
                  if row_count pt (transfers s) = 0 then (s, 0, False)
                  else if row_count (\<lambda>t. pt t \<and> live t) (transfers s) = 0 then (s, job_ID j, False)
                  else (let s1 = update_transfers (\<lambda>t. pt t \<and> live t)
                              (finish_transfer st bytesDone bytesTotal now) s
                        in if job_State j = Downloading
                           then (update_jobs (\<lambda>k. job_is (job_ID j) k \<and> job_State k = Downloading)
                                   (with_state Parked now) s1, job_ID j, True)
                           else (s1, job_ID j, False))))"

text \<open>
  \<open>prepareJobCancellation\<close> returns the transfers that were live before it, in the order of their
  ids.
\<close>

definition live_transfers_of :: "nat \<Rightarrow> db \<Rightarrow> transfer list" where
  "live_transfers_of jobID s =
     order_by (\<lambda>t u. tr_ID t < tr_ID u)
       (filter (\<lambda>t. tr_Candidate t \<in> set (candidate_ids (\<lambda>i. i = jobID) s) \<and> live t) (transfers s))"

definition prepareJobCancellation ::
  "nat \<Rightarrow> ts \<Rightarrow> bool \<Rightarrow> db \<Rightarrow> db \<times> (store_error + transfer list \<times> bool)" where
  "prepareJobCancellation jobID now rejectImporting s =
     (case the_job jobID s of
        None \<Rightarrow> (s, Inr ([], False))
      | Some j \<Rightarrow>
          if rejectImporting \<and> job_State j = Importing then (s, Inl ErrJobImporting)
          else (update_jobs (job_is jobID) (with_state Cancelled now)
                 (update_transfers
                   (\<lambda>t. tr_Candidate t \<in> set (candidate_ids (\<lambda>i. i = jobID) s) \<and> live t)
                   (\<lambda>t. t\<lparr>tr_State := TCancelled, tr_Updated := now\<rparr>) s),
                Inr (live_transfers_of jobID s, True)))"

definition CancelJob :: "nat \<Rightarrow> ts \<Rightarrow> db \<Rightarrow> db \<times> (store_error + transfer list \<times> bool)" where
  "CancelJob jobID now = prepareJobCancellation jobID now False"

definition PrepareDeleteJob :: "nat \<Rightarrow> ts \<Rightarrow> db \<Rightarrow> db \<times> (store_error + transfer list \<times> bool)" where
  "PrepareDeleteJob jobID now = prepareJobCancellation jobID now True"

text \<open>The rejections go with the job by \<open>ON DELETE CASCADE\<close>.\<close>

definition DeleteJob :: "nat \<Rightarrow> db \<Rightarrow> db \<times> (store_error + bool)" where
  "DeleteJob jobID s =
     (case the_job jobID s of
        None \<Rightarrow> (s, Inr False)
      | Some j \<Rightarrow>
          if job_State j = Importing then (s, Inl ErrJobImporting)
          else (let s1 = drop_candidates (\<lambda>i. i = jobID) s
                in (s1\<lparr>events := row_delete (\<lambda>e. ev_Job e = jobID) (events s1),
                       folders := row_delete (\<lambda>f. df_Job f = jobID) (folders s1),
                       rejections := row_delete (\<lambda>r. rej_Job r = jobID) (rejections s1),
                       jobs := row_delete (job_is jobID) (jobs s1)\<rparr>, Inr True)))"

section \<open>Preservation\<close>

lemma keeps_identity_simps [simp]:
  "keeps_identity (set_metadata m)" "keeps_identity (with_state st now)"
  "keeps_identity (clean_slate st now)"
  by (simp_all add: keeps_identity_def set_metadata_def with_state_def clean_slate_def)

lemma state_simps [simp]:
  "job_State (set_metadata m j) = job_State j" "job_State (with_state st now j) = st"
  "job_State (clean_slate st now j) = st"
  by (simp_all add: set_metadata_def with_state_def clean_slate_def)

lemma keeps_owner_revive [simp]: "keeps_owner (revive_candidate st now)"
  by (simp add: keeps_owner_def revive_candidate_def)

lemma active_revive [simp]: "active (revive_candidate st now c) \<longleftrightarrow> st = CActive"
  by (simp add: active_def revive_candidate_def)

lemma keeps_remote_finish [simp]: "keeps_remote (finish_transfer st d t now)"
  by (simp add: keeps_remote_def remote_file_def finish_transfer_def)

lemma guard_holds:
  assumes "base_ok s" and "row_count (\<lambda>j. job_is i j \<and> P j) (jobs s) \<noteq> 0"
    and "j \<in> set (jobs s)" and "job_ID j = i"
  shows "P j"
proof -
  obtain k where "k \<in> set (jobs s)" "job_ID k = i" "P k"
    using assms(2) by (auto simp: row_count_eq_0 job_is_def)
  with job_unique [OF assms(1) _ assms(3)] assms(4) show ?thesis by auto
qed

lemma wf_backoff:
  assumes "wf_db s"
  shows "wf_db (SetJobBackoff i r nb now s)" "wf_db (SetJobEmptySearchBackoff i e nb now s)"
    "wf_db (SetJobNotBefore i nb s)" "wf_db (SetJobTrackBand i mn mx s)"
    "wf_db (UpdateJobMetadata i m now s)" "wf_db (BackfillJobMetadataIfEmpty i m s)"
    "wf_db (DeferSelectingJob i now s)"
  using assms
  by (simp_all add: SetJobBackoff_def SetJobEmptySearchBackoff_def SetJobNotBefore_def
      SetJobTrackBand_def UpdateJobMetadata_def BackfillJobMetadataIfEmpty_def
      DeferSelectingJob_def wf_update_jobs_same_state keeps_identity_def set_metadata_def)

lemma wf_MarkJobFailed: "wf_db s \<Longrightarrow> wf_db (MarkJobFailed i now s)"
  unfolding MarkJobFailed_def by (rule wf_update_jobs) (auto simp: keeps_identity_def)

text \<open>
  The advances the modules make: a search that found candidates, and a download that is complete.
\<close>

definition legal_advance :: "job_state \<Rightarrow> job_state \<Rightarrow> bool" where
  "legal_advance from to \<longleftrightarrow> (from, to) \<in> {(Wanted, Selecting), (Downloading, Importing)}"

lemma wf_AdvanceJobStateFrom:
  assumes wf: "wf_db s" and legal: "legal_advance from to"
  shows "wf_db (fst (AdvanceJobStateFrom i from to now s))"
proof -
  from legal have "slot_state to \<Longrightarrow> slot_state from" and "quiet_state to \<Longrightarrow> quiet_state from"
    by (auto simp: legal_advance_def)
  with wf show ?thesis
    unfolding AdvanceJobStateFrom_def Let_def fst_conv
    by (intro wf_update_jobs) (auto simp: wf_db_def not_wedged_def quiet_ok_def)
qed

lemma wf_start_over_one:
  assumes wf: "wf_db s" and f: "keeps_identity f"
    and found: "row_count (\<lambda>j. job_is i j \<and> P j) (jobs s) \<noteq> 0"
    and leaves: "\<And>j. \<not> slot_state (job_State (f j))"
  shows "wf_db (drop_candidates (\<lambda>k. k = i) (update_jobs (\<lambda>j. job_is i j \<and> P j) f s))"
proof (rule wf_start_over [OF wf f])
  fix j
  show "job_ID j = i \<and> \<not> slot_state (job_State (f j))"
    if "j \<in> set (jobs s)" "job_is i j \<and> P j"
    using that leaves by (simp add: job_is_def)
  show "job_is i j \<and> P j" if "j \<in> set (jobs s)" "job_ID j = i"
    using that guard_holds [OF _ found that] wf by (simp add: wf_db_def job_is_def)
qed

lemma wf_ResetJobToWanted: "wf_db s \<Longrightarrow> wf_db (ResetJobToWanted i from r nb now s)"
  by (simp add: ResetJobToWanted_def Let_def wf_start_over_one keeps_identity_def)

lemma wf_RetryFailedJob: "wf_db s \<Longrightarrow> wf_db (fst (RetryFailedJob i now s))"
  by (simp add: RetryFailedJob_def Let_def wf_start_over_one wf_delete_rejections)

lemma wf_ForceSearchJob: "wf_db s \<Longrightarrow> wf_db (fst (ForceSearchJob i now s))"
  by (simp add: ForceSearchJob_def Let_def wf_start_over_one wf_delete_rejections)

text \<open>
  A manual retry keeps the candidates and makes all of them untried, so its job, which must be
  quiet afterwards, has no active one.
\<close>

lemma has_active_revive_of:
  "has_active (update_candidates (\<lambda>c. q (cand_Job c)) (revive_candidate CNew now) s) k
     \<longleftrightarrow> has_active s k \<and> \<not> q k"
proof -
  have "active (if q (cand_Job c) then revive_candidate CNew now c else c)
      \<and> cand_Job (if q (cand_Job c) then revive_candidate CNew now c else c) = k
    \<longleftrightarrow> active c \<and> cand_Job c = k \<and> \<not> q k" for c
    by (auto simp: revive_candidate_def active_def)
  then show ?thesis
    unfolding has_active_def update_candidates_select bex_row_update by blast
qed

lemmas has_active_revive_all = has_active_revive_of [of "\<lambda>j. j = i" for i]

lemma base_delete_transfers_of: "base_ok s \<Longrightarrow> base_ok (delete_transfers_of q s)"
  by (simp add: base_ok_def keys_ok_def refs_ok_def owners_ok_def sources_ok_def
      delete_transfers_of_def distinct_keys_row_delete distinct_row_delete table_simps)

lemma delete_transfers_of_select [simp]:
  "jobs (delete_transfers_of q s) = jobs s" "candidates (delete_transfers_of q s) = candidates s"
  "has_active (delete_transfers_of q s) i = has_active s i"
  "single_active (delete_transfers_of q s) = single_active s"
  by (simp_all add: delete_transfers_of_def has_active_def single_active_def)

lemma wf_RetryManualJob:
  assumes wf: "wf_db s"
  shows "wf_db (fst (RetryManualJob i now s))"
proof (cases "row_count (\<lambda>j. job_is i j \<and> job_Source j = SourceManual \<and> retryable j) (jobs s) = 0")
  case True
  with wf show ?thesis by (simp add: RetryManualJob_def)
next
  case False
  let ?p = "\<lambda>j. job_is i j \<and> job_Source j = SourceManual \<and> retryable j"
  let ?s1 = "update_jobs ?p (clean_slate Selecting now) s"
  let ?s3 = "update_candidates (\<lambda>c. cand_Job c = i) (revive_candidate CNew now)
      (delete_transfers_of (\<lambda>k. k = i) ?s1)"
  have "wf_db ?s3"
  proof (rule wf_transaction [OF wf, where p = ?p and f = "clean_slate Selecting now"])
    show "base_ok ?s3"
      using wf by (intro base_update_candidates base_delete_transfers_of base_update_jobs)
        (simp_all add: wf_db_def)
    show "single_active ?s3"
      using wf by (intro single_active_update) (simp_all add: wf_db_def)
    show "jobs ?s3 = row_update ?p (clean_slate Selecting now) (jobs s)" by simp
  qed (use guard_holds [OF _ False] wf in
      \<open>auto simp: has_active_revive_all job_is_def wf_db_def\<close>)
  with wf False show ?thesis by (simp add: RetryManualJob_def Let_def)
qed

text \<open>
  A refused job has no active candidate, so reviving its last one leaves it with exactly one.
\<close>

lemma current_candidate_member:
  "current_candidate i s = Some c \<Longrightarrow> c \<in> set (candidates s) \<and> cand_Job c = i"
  by (auto simp: current_candidate_def dest: pick_first_member)

lemma has_active_one:
  assumes c: "c \<in> set (candidates s)" and h: "keeps_owner h" "\<And>d. active (h d)"
    and p: "\<And>d. d \<in> set (candidates s) \<Longrightarrow> p d \<longleftrightarrow> d = c"
  shows "has_active (update_candidates p h s) k \<longleftrightarrow> k = cand_Job c \<or> has_active s k"
proof -
  have "has_active (update_candidates p h s) k
      \<longleftrightarrow> (\<exists>d \<in> set (candidates s). (p d \<or> active d) \<and> cand_Job d = k)"
    unfolding has_active_def update_candidates_select bex_row_update
    using h by (auto simp: keeps_owner_def)
  also have "\<dots> \<longleftrightarrow> k = cand_Job c \<or> has_active s k"
    using p c by (auto simp: has_active_def)
  finally show ?thesis .
qed

lemma single_active_one:
  assumes wf: "wf_db s" and c: "c \<in> set (candidates s)" and quiet: "\<not> has_active s (cand_Job c)"
    and h: "keeps_owner h" and p: "\<And>d. d \<in> set (candidates s) \<Longrightarrow> p d \<longleftrightarrow> d = c"
  shows "single_active (update_candidates p h s)"
proof -
  let ?g = "\<lambda>d. if p d then h d else d"
  have keys: "distinct (map cand_ID (candidates s))"
    using wf by (simp add: wf_db_def base_ok_def keys_ok_def)
  have g: "cand_ID (?g d) = cand_ID d" "cand_Job (?g d) = cand_Job d" for d
    using h by (simp_all add: keeps_owner_def)
  have "cand_ID x = cand_ID y"
    if "x \<in> set (candidates s)" "y \<in> set (candidates s)" "active (?g x)" "active (?g y)"
      "cand_Job x = cand_Job y" for x y
  proof (cases "x = c \<or> y = c")
    case True
    with that quiet p have "x = y"
      unfolding has_active_def by (metis (full_types))
    then show ?thesis by simp
  next
    case False
    with that p have "active x" "active y" by auto
    with that active_unique [OF wf] show ?thesis by metis
  qed
  then have "distinct (map cand_Job (filter active (map ?g (candidates s))))"
    using keys g by (intro distinct_keys_map [where i = cand_ID])
  then show ?thesis
    by (simp add: single_active_def row_update_map)
qed

lemma wf_RetryRefusedJob:
  assumes wf: "wf_db s"
  shows "wf_db (fst (RetryRefusedJob dir i now s))"
proof (cases "row_count (\<lambda>j. job_is i j \<and> job_State j = ImportRefused) (jobs s) = 0
    \<or> current_candidate i s = None \<or> (\<exists>c. current_candidate i s = Some c \<and> cand_State c \<noteq> CFailed)")
  case True
  with wf show ?thesis by (auto simp: RetryRefusedJob_def Let_def split: option.splits)
next
  case False
  then obtain c where found: "row_count (\<lambda>j. job_is i j \<and> job_State j = ImportRefused) (jobs s) \<noteq> 0"
    and cur: "current_candidate i s = Some c" and failed: "cand_State c = CFailed"
    by auto
  let ?p = "\<lambda>j. job_is i j \<and> job_State j = ImportRefused"
  let ?f = "\<lambda>j. j\<lparr>job_State := Importing, job_RefusedReason := [], job_Updated := now\<rparr>"
  let ?s1 = "update_jobs ?p ?f s"
  let ?s2 = "update_candidates (\<lambda>d. cand_ID d = cand_ID c) (revive_candidate CActive now) ?s1"
  have c: "c \<in> set (candidates s)" "cand_Job c = i"
    using current_candidate_member [OF cur] by auto
  have this_one: "cand_ID d = cand_ID c \<longleftrightarrow> d = c" if "d \<in> set (candidates s)" for d
    using candidate_unique [OF _ that c(1)] wf by (auto simp: wf_db_def)
  obtain j where "j \<in> set (jobs s)" "job_ID j = i" "job_State j = ImportRefused"
    using found by (auto simp: row_count_eq_0 job_is_def)
  then have none: "\<not> has_active s i"
    using wf by (auto simp: wf_db_def quiet_ok_def)
  have swap: "?s2 = update_jobs ?p ?f
      (update_candidates (\<lambda>d. cand_ID d = cand_ID c) (revive_candidate CActive now) s)"
    by (simp add: update_jobs_def update_candidates_def)
  have "wf_db ?s2"
  proof (rule wf_transaction [OF wf, where p = ?p and f = ?f])
    show "base_ok ?s2"
      using wf by (intro base_update_candidates base_update_jobs) (simp_all add: wf_db_def keeps_identity_def)
    show "single_active ?s2"
      unfolding swap single_active_simps using wf c none this_one
      by (intro single_active_one [where c = c]) simp_all
    show "jobs ?s2 = row_update ?p ?f (jobs s)" by simp
    show "keeps_identity ?f" by (simp add: keeps_identity_def)
    fix j assume j: "j \<in> set (jobs s)"
    have active2: "has_active ?s2 k \<longleftrightarrow> k = i \<or> has_active s k" for k
      unfolding swap has_active_simps using has_active_one [OF c(1) _ _ this_one] c(2) by simp
    show "(slot_state (job_State (?f j)) \<longrightarrow> has_active ?s2 (job_ID j))
      \<and> (quiet_state (job_State (?f j)) \<longrightarrow> \<not> has_active ?s2 (job_ID j))" if "?p j"
      unfolding active2 using that by (simp add: job_is_def)
    show "(slot_state (job_State j) \<longrightarrow> has_active s (job_ID j) \<longrightarrow> has_active ?s2 (job_ID j))
      \<and> (quiet_state (job_State j) \<longrightarrow> has_active ?s2 (job_ID j) \<longrightarrow> has_active s (job_ID j))"
      if "\<not> ?p j"
      unfolding active2 using that guard_holds [OF _ found j] wf by (auto simp: wf_db_def job_is_def)
  qed
  then show ?thesis
    using found cur failed
    by (auto simp: RetryRefusedJob_def Let_def wf_delete_rejections split: option.splits)
qed

lemma wf_ParkJobForCandidate:
  "wf_db s \<Longrightarrow> wf_db (fst (ParkJobForCandidate t c st d n now s))"
  by (auto simp: ParkJobForCandidate_def Let_def split: option.splits
      intro!: wf_update_jobs wf_update_transfers)

lemma wf_prepareJobCancellation:
  "wf_db s \<Longrightarrow> wf_db (fst (prepareJobCancellation i now b s))"
  by (auto simp: prepareJobCancellation_def live_def keeps_remote_def remote_file_def
      split: option.splits intro!: wf_update_jobs wf_update_transfers)

definition without_job :: "nat \<Rightarrow> db \<Rightarrow> db" where
  "without_job i s =
     s\<lparr>events := row_delete (\<lambda>e. ev_Job e = i) (events s),
       folders := row_delete (\<lambda>f. df_Job f = i) (folders s),
       rejections := row_delete (\<lambda>r. rej_Job r = i) (rejections s),
       jobs := row_delete (job_is i) (jobs s)\<rparr>"

lemma base_without_job:
  assumes base: "base_ok s" and none: "\<forall>c \<in> set (candidates s). cand_Job c \<noteq> i"
  shows "base_ok (without_job i s)"
proof -
  have remaining: "job_ID ` {j \<in> set (jobs s). job_ID j \<noteq> i} = job_ID ` set (jobs s) - {i}"
    by auto
  have "keys_ok (without_job i s)" "owners_ok (without_job i s)"
    using base by (auto simp: base_ok_def keys_ok_def owners_ok_def without_job_def
        distinct_row_delete table_simps)
  moreover have "refs_ok (without_job i s)"
    using base none
    by (simp add: base_ok_def refs_ok_def without_job_def table_simps job_is_def remaining)
  moreover have "sources_ok (without_job i s)"
    using base by (simp add: base_ok_def sources_ok_def without_job_def table_simps filter_map
        distinct_keys_row_delete)
  ultimately show ?thesis by (simp add: base_ok_def)
qed

lemma wf_DeleteJob:
  assumes wf: "wf_db s"
  shows "wf_db (fst (DeleteJob i s))"
proof -
  let ?s1 = "drop_candidates (\<lambda>k. k = i) s"
  have base: "base_ok (without_job i ?s1)"
    using wf by (intro base_without_job) (simp_all add: wf_db_def base_drop_candidates table_simps)
  have "has_active (without_job i ?s1) k \<longleftrightarrow> has_active s k \<and> k \<noteq> i" for k
    using has_active_simps(4) [of "\<lambda>k. k = i" s k] by (simp add: has_active_def without_job_def)
  moreover have "single_active (without_job i ?s1)"
    using wf single_active_drop [of s "\<lambda>k. k = i"] by (simp add: wf_db_def single_active_def without_job_def)
  moreover have "jobs (without_job i ?s1) = row_delete (job_is i) (jobs s)"
    by (simp add: without_job_def)
  ultimately have "wf_db (without_job i ?s1)"
    using wf base by (auto simp: wf_db_def not_wedged_def quiet_ok_def table_simps job_is_def)
  with wf show ?thesis
    by (simp add: DeleteJob_def Let_def without_job_def split: option.splits)
qed
end
