(* ===== verification/Backoff.thy ===== *)
theory Backoff
  imports Prelude
begin

text \<open>
  The two escalation ladders: \<open>nextBackoff\<close> of \<open>internal/pipeline/backoff.go\<close> and \<open>cooldownFor\<close> of
  \<open>internal/store/rejections.go\<close>. A \<open>time.Duration\<close> is an \<open>int64\<close> of nanoseconds, so the product
  wraps; both functions guard the wrap with \<open>d > max || d < 0\<close>.
\<close>

type_synonym duration = "64 word" \<comment> \<open>read in two's complement\<close>

definition maxExponent :: int where
  "maxExponent = 32"

definition ladder :: "duration \<Rightarrow> duration \<Rightarrow> nat \<Rightarrow> duration" where
  "ladder base cap exp =
     (let d = base * push_bit exp 1
      in if sint d > sint cap \<or> sint d < 0 then cap else d)"

text \<open>The counter is positive: it is the count after this failure.\<close>

definition nextBackoff :: "int \<Rightarrow> duration \<Rightarrow> duration \<Rightarrow> duration" where
  "nextBackoff retries base maxBackoff =
     ladder base maxBackoff (nat (if retries > maxExponent then maxExponent else retries))"

record cooldown_policy =
  pol_Base :: duration
  pol_Cap :: duration

definition cooldownFor :: "int \<Rightarrow> duration \<Rightarrow> duration \<Rightarrow> duration" where
  "cooldownFor attempts base max_delay =
     (let exp = attempts - 1;
          exp = (if exp < 0 then 0 else exp);
          exp = (if exp > maxExponent then maxExponent else exp)
      in ladder base max_delay (nat exp))"

section \<open>Bounds\<close>

lemma ladder_bounds:
  assumes "0 \<le> sint cap"
  shows "0 \<le> sint (ladder base cap exp)" "sint (ladder base cap exp) \<le> sint cap"
  using assms by (auto simp: ladder_def Let_def)

lemma sint_word_of_int_id:
  "- (2 ^ 63) \<le> x \<Longrightarrow> x < 2 ^ 63 \<Longrightarrow> sint (word_of_int x :: 64 word) = x"
  by (simp add: signed_of_int signed_take_bit_int_eq_self)

text \<open>As long as the product fits, the delay is the doubled base, capped.\<close>

lemma ladder_exact:
  assumes "0 \<le> b" and "b * 2 ^ exp < 2 ^ 63" and "0 \<le> sint cap"
  shows "sint (ladder (word_of_int b) cap exp) = min (sint cap) (b * 2 ^ exp)"
proof -
  have nonneg: "0 \<le> b * 2 ^ exp"
    using assms(1) by simp
  have "(word_of_int b :: duration) * push_bit exp 1 = word_of_int (b * 2 ^ exp)"
    by (simp add: push_bit_eq_mult)
  moreover have "sint (word_of_int (b * 2 ^ exp) :: duration) = b * 2 ^ exp"
    using assms(2) nonneg by (intro sint_word_of_int_id) simp_all
  ultimately show ?thesis
    using nonneg assms(3) by (simp add: ladder_def Let_def)
qed

text \<open>
  Beyond that the guard alone decides. Whether it catches the wrapped product depends on the base:
  a multiple of \<open>2^32\<close> nanoseconds wraps to zero, which is neither above the cap nor negative.
\<close>

lemma ladder_wraps: "ladder (2 ^ 32) cap 32 = (if sint cap < 0 then cap else 0)"
  by (simp add: ladder_def)

text \<open>
  For the bases and caps the program ships with, no wrapped product slips through: the delay is
  the doubled base, capped, for every counter.
\<close>

definition defaultBackoffBase :: int where
  "defaultBackoffBase = 15 * 60 * 10 ^ 9"

definition defaultBackoffCap :: int where
  "defaultBackoffCap = 24 * 3600 * 10 ^ 9"

definition candidateCooldownBase :: int where
  "candidateCooldownBase = 8 * 3600 * 10 ^ 9"

definition candidateCooldownCap :: int where
  "candidateCooldownCap = 72 * 3600 * 10 ^ 9"

definition ladder_sound :: "int \<Rightarrow> int \<Rightarrow> nat \<Rightarrow> bool" where
  "ladder_sound b c e \<longleftrightarrow> sint (ladder (word_of_int b) (word_of_int c) e) = min c (b * 2 ^ e)"

lemma default_ladders_checked:
  "\<forall>e \<in> set [0..<33]. ladder_sound defaultBackoffBase defaultBackoffCap e"
  "\<forall>e \<in> set [0..<33]. ladder_sound candidateCooldownBase candidateCooldownCap e"
  by code_simp+

lemma default_ladders:
  assumes "e \<le> 32"
  shows "sint (ladder (word_of_int defaultBackoffBase) (word_of_int defaultBackoffCap) e)
      = min defaultBackoffCap (defaultBackoffBase * 2 ^ e)"
    and "sint (ladder (word_of_int candidateCooldownBase) (word_of_int candidateCooldownCap) e)
      = min candidateCooldownCap (candidateCooldownBase * 2 ^ e)"
  using default_ladders_checked assms by (auto simp: ladder_sound_def)

end
