(* ===== verification/Text.thy ===== *)
theory Text
  imports Prelude
begin

text \<open>
  The part of Go's \<open>strings\<close>, \<open>unicode/utf8\<close> and \<open>path\<close> that the pipeline and the matcher use. A
  string is its bytes; a loop over its runes sees them decoded from UTF-8, every byte that starts no
  valid sequence as the replacement rune. The tables of \<open>unicode\<close> are a parameter.
\<close>

section \<open>Runes\<close>

type_synonym rune = nat

definition RuneError :: rune where
  "RuneError = 0xFFFD"

definition byte_code :: "char \<Rightarrow> nat" where
  "byte_code c = of_char c"

text \<open>How many bytes a first byte announces; 0 when it starts no sequence.\<close>

definition rune_width :: "nat \<Rightarrow> nat" where
  "rune_width b =
     (if b < 0x80 then 1 else if 0xC2 \<le> b \<and> b \<le> 0xDF then 2 else if 0xE0 \<le> b \<and> b \<le> 0xEF then 3
      else if 0xF0 \<le> b \<and> b \<le> 0xF4 then 4 else 0)"

definition continues :: "nat \<Rightarrow> bool" where
  "continues b \<longleftrightarrow> 0x80 \<le> b \<and> b \<le> 0xBF"

text \<open>No overlong form, no surrogate, nothing above the last code point.\<close>

definition second_ok :: "nat \<Rightarrow> nat \<Rightarrow> bool" where
  "second_ok b0 b1 \<longleftrightarrow> continues b1
     \<and> (b0 = 0xE0 \<longrightarrow> 0xA0 \<le> b1) \<and> (b0 = 0xED \<longrightarrow> b1 \<le> 0x9F)
     \<and> (b0 = 0xF0 \<longrightarrow> 0x90 \<le> b1) \<and> (b0 = 0xF4 \<longrightarrow> b1 \<le> 0x8F)"

fun sequence_ok :: "nat list \<Rightarrow> bool" where
  "sequence_ok [] = False"
| "sequence_ok [b] = (b < 0x80)"
| "sequence_ok (b0 # b1 # bs) =
     (rune_width b0 = Suc (Suc (length bs)) \<and> second_ok b0 b1 \<and> list_all continues bs)"

fun rune_value :: "nat list \<Rightarrow> rune" where
  "rune_value [b0, b1] = (b0 mod 32) * 64 + b1 mod 64"
| "rune_value [b0, b1, b2] = (b0 mod 16) * 4096 + (b1 mod 64) * 64 + b2 mod 64"
| "rune_value [b0, b1, b2, b3] =
     (b0 mod 8) * 262144 + (b1 mod 64) * 4096 + (b2 mod 64) * 64 + b3 mod 64"
| "rune_value bs = (if bs = [] then 0 else hd bs)"

text \<open>The first rune of a string that is not empty, and the bytes it stands for.\<close>

definition first_rune :: "string \<Rightarrow> rune \<times> nat" where
  "first_rune s =
     (let p = map byte_code (take (rune_width (byte_code (hd s))) s)
      in if sequence_ok p \<and> rune_width (byte_code (hd s)) = length p then (rune_value p, length p)
         else (RuneError, 1))"

type_synonym glyph = "rune \<times> string"

lemma first_rune_width: "s \<noteq> [] \<Longrightarrow> 0 < snd (first_rune s)"
  by (cases "rune_width (byte_code (hd s)) = 0") (auto simp: first_rune_def Let_def)

function glyphs :: "string \<Rightarrow> glyph list" where
  "glyphs s =
     (if s = [] then []
      else let w = snd (first_rune s) in (fst (first_rune s), take w s) # glyphs (drop w s))"
  by auto
termination
  by (relation "measure length") (auto simp: first_rune_width)

declare glyphs.simps [simp del]

lemma glyphs_Nil [simp]: "glyphs [] = []"
  by (simp add: glyphs.simps)

definition runes :: "string \<Rightarrow> rune list" where
  "runes s = map fst (glyphs s)"

definition text_of :: "glyph list \<Rightarrow> string" where
  "text_of gs = concat (map snd gs)"

lemma text_of_simps [simp]: "text_of [] = []" "text_of (g # gs) = snd g @ text_of gs"
  by (simp_all add: text_of_def)

lemma text_of_append [simp]: "text_of (gs @ hs) = text_of gs @ text_of hs"
  by (simp add: text_of_def)

lemma text_of_glyphs [simp]: "text_of (glyphs s) = s"
proof (induction s rule: glyphs.induct)
  case (1 s)
  show ?case
  proof (cases "s = []")
    case False
    then have "glyphs s = (fst (first_rune s), take (snd (first_rune s)) s)
        # glyphs (drop (snd (first_rune s)) s)"
      by (subst glyphs.simps) (simp add: Let_def)
    with 1 False show ?thesis by simp
  qed simp
qed

text \<open>What a rune is does not depend on what follows it.\<close>

lemma first_rune_prefix:
  assumes "s \<noteq> []" and "snd (first_rune (s @ t)) \<le> length s"
  shows "first_rune s = first_rune (s @ t)"
proof (cases "rune_width (byte_code (hd s)) \<le> length s")
  case True
  then show ?thesis
    using assms(1) by (simp add: first_rune_def)
next
  case False
  then have short: "rune_width (byte_code (hd s)) \<noteq> length (map byte_code (take (rune_width (byte_code (hd s))) s))"
    by simp
  have "\<not> (sequence_ok (map byte_code (take (rune_width (byte_code (hd s))) (s @ t)))
      \<and> rune_width (byte_code (hd s)) = length (map byte_code (take (rune_width (byte_code (hd s))) (s @ t))))"
    using assms False by (auto simp: first_rune_def Let_def split: if_splits)
  then show ?thesis
    using assms(1) short by (auto simp: first_rune_def Let_def)
qed

lemma glyphs_prefix: "glyphs s = gs @ hs \<Longrightarrow> glyphs (text_of gs) = gs"
proof (induction gs arbitrary: s)
  case (Cons g gs)
  then have ne: "s \<noteq> []" by auto
  have unfold: "glyphs s = (fst (first_rune s), take (snd (first_rune s)) s)
      # glyphs (drop (snd (first_rune s)) s)"
    using ne by (subst glyphs.simps) (simp add: Let_def)
  with Cons.prems have g: "g = (fst (first_rune s), take (snd (first_rune s)) s)"
    and rest: "glyphs (drop (snd (first_rune s)) s) = gs @ hs" by simp_all
  have ih: "glyphs (text_of gs) = gs" by (rule Cons.IH [OF rest])
  have split: "s = text_of (g # gs) @ text_of hs"
    using Cons.prems text_of_glyphs [of s] by (metis append_Cons text_of_append)
  have w: "0 < snd (first_rune s)" using first_rune_width [OF ne] .
  have len: "snd (first_rune s) \<le> length s"
    using ne by (auto simp: first_rune_def Let_def Suc_le_eq)
  let ?p = "text_of (g # gs)"
  have wp: "snd (first_rune s) \<le> length ?p"
    using g len by simp
  then have "?p \<noteq> []" using w by auto
  moreover from this wp split have same: "first_rune ?p = first_rune s"
    using first_rune_prefix [of ?p "text_of hs"] by (metis split)
  moreover have "take (snd (first_rune s)) ?p = snd g"
    using g len by simp
  moreover have "drop (snd (first_rune s)) ?p = text_of gs"
    using g len by simp
  ultimately show ?case
    using g ih by (subst glyphs.simps) (simp add: Let_def)
qed simp

lemma glyphs_suffix: "glyphs s = gs @ hs \<Longrightarrow> glyphs (text_of hs) = hs"
proof (induction gs arbitrary: s)
  case Nil
  then have "text_of hs = s" by (metis append_Nil text_of_glyphs)
  with Nil show ?case by simp
next
  case (Cons g gs)
  then have ne: "s \<noteq> []" by auto
  then have "glyphs s = (fst (first_rune s), take (snd (first_rune s)) s)
      # glyphs (drop (snd (first_rune s)) s)"
    by (subst glyphs.simps) (simp add: Let_def)
  with Cons.prems have "glyphs (drop (snd (first_rune s)) s) = gs @ hs" by simp
  then show ?case by (rule Cons.IH)
qed

text \<open>\<open>utf8.AppendRune\<close>\<close>

definition encode_rune :: "rune \<Rightarrow> string" where
  "encode_rune r = map char_of
     (if r < 0x80 then [r]
      else if r < 0x800 then [0xC0 + r div 64, 0x80 + r mod 64]
      else if 0xD800 \<le> r \<and> r < 0xE000 \<or> 0x10FFFF < r then [0xEF, 0xBF, 0xBD]
      else if r < 0x10000 then [0xE0 + r div 4096, 0x80 + r div 64 mod 64, 0x80 + r mod 64]
      else [0xF0 + r div 262144, 0x80 + r div 4096 mod 64, 0x80 + r div 64 mod 64, 0x80 + r mod 64])"

text \<open>The tables of \<open>unicode\<close>, and the folding of diacritics of \<open>golang.org/x/text\<close>, which can fail.\<close>

record unicode =
  u_ToLower :: "rune \<Rightarrow> rune"
  u_IsLetter :: "rune \<Rightarrow> bool"
  u_IsDigit :: "rune \<Rightarrow> bool"
  u_FoldMarks :: "string \<Rightarrow> string option"

definition ToLower :: "unicode \<Rightarrow> string \<Rightarrow> string" where
  "ToLower u s = concat (map (\<lambda>r. encode_rune (u_ToLower u r)) (runes s))"

definition alphanumeric :: "unicode \<Rightarrow> rune \<Rightarrow> bool" where
  "alphanumeric u r \<longleftrightarrow> u_IsLetter u r \<or> u_IsDigit u r"

section \<open>White space\<close>

text \<open>\<open>unicode.IsSpace\<close>\<close>

definition IsSpace :: "rune \<Rightarrow> bool" where
  "IsSpace r \<longleftrightarrow> r \<in> {9, 10, 11, 12, 13, 32, 0x85, 0xA0, 0x1680, 0x2028, 0x2029, 0x202F, 0x205F, 0x3000}
     \<or> 0x2000 \<le> r \<and> r \<le> 0x200A"

definition trim_glyphs :: "glyph list \<Rightarrow> glyph list" where
  "trim_glyphs gs =
     rev (dropWhile (\<lambda>g. IsSpace (fst g)) (rev (dropWhile (\<lambda>g. IsSpace (fst g)) gs)))"

definition TrimSpace :: "string \<Rightarrow> string" where
  "TrimSpace s = text_of (trim_glyphs (glyphs s))"

lemma dropWhile_suffix: "\<exists>ys. xs = ys @ dropWhile P xs"
  by (metis takeWhile_dropWhile_id)

lemma glyphs_TrimSpace: "glyphs (TrimSpace s) = trim_glyphs (glyphs s)"
proof -
  let ?m = "dropWhile (\<lambda>g. IsSpace (fst g)) (glyphs s)"
  obtain as where "glyphs s = as @ ?m" using dropWhile_suffix by blast
  then have m: "glyphs (text_of ?m) = ?m" by (rule glyphs_suffix)
  obtain bs where "rev ?m = bs @ dropWhile (\<lambda>g. IsSpace (fst g)) (rev ?m)" using dropWhile_suffix by blast
  then have "?m = rev (dropWhile (\<lambda>g. IsSpace (fst g)) (rev ?m)) @ rev bs"
    by (metis rev_append rev_rev_ident)
  with m have "glyphs (text_of ?m) = trim_glyphs (glyphs s) @ rev bs"
    by (simp add: trim_glyphs_def)
  then show ?thesis unfolding TrimSpace_def by (rule glyphs_prefix)
qed

lemma dropWhile_rev_dropWhile:
  "dropWhile P (rev (dropWhile P (rev (dropWhile P xs)))) = rev (dropWhile P (rev (dropWhile P xs)))"
proof (cases "dropWhile P xs")
  case Nil
  then show ?thesis by (simp only: dropWhile.simps rev.simps)
next
  case (Cons y ys)
  then have "\<not> P y" by (metis dropWhile_eq_Cons_conv)
  then show ?thesis
    by (simp add: Cons dropWhile_append dropWhile_eq_Cons_conv)
qed

lemma trim_glyphs_idem: "trim_glyphs (trim_glyphs gs) = trim_glyphs gs"
  unfolding trim_glyphs_def by (subst dropWhile_rev_dropWhile) simp

lemma TrimSpace_idem: "TrimSpace (TrimSpace s) = TrimSpace s"
  by (metis TrimSpace_def glyphs_TrimSpace trim_glyphs_idem)

text \<open>\<open>strings.FieldsFunc\<close>: the longest runs of runes that are no separator.\<close>

fun fields_glyphs :: "(rune \<Rightarrow> bool) \<Rightarrow> glyph list \<Rightarrow> glyph list \<Rightarrow> string list" where
  "fields_glyphs sep cur [] = (if cur = [] then [] else [text_of cur])"
| "fields_glyphs sep cur (g # gs) =
     (if sep (fst g)
      then (if cur = [] then fields_glyphs sep [] gs else text_of cur # fields_glyphs sep [] gs)
      else fields_glyphs sep (cur @ [g]) gs)"

definition FieldsFunc :: "(rune \<Rightarrow> bool) \<Rightarrow> string \<Rightarrow> string list" where
  "FieldsFunc sep s = fields_glyphs sep [] (glyphs s)"

definition Fields :: "string \<Rightarrow> string list" where
  "Fields s = FieldsFunc IsSpace s"

section \<open>Substrings\<close>

definition HasPrefix :: "string \<Rightarrow> string \<Rightarrow> bool" where
  "HasPrefix s p \<longleftrightarrow> take (length p) s = p"

definition HasSuffix :: "string \<Rightarrow> string \<Rightarrow> bool" where
  "HasSuffix s p \<longleftrightarrow> length p \<le> length s \<and> drop (length s - length p) s = p"

definition TrimSuffix :: "string \<Rightarrow> string \<Rightarrow> string" where
  "TrimSuffix s p = (if HasSuffix s p then take (length s - length p) s else s)"

text \<open>\<open>strings.ReplaceAll\<close> of a single byte.\<close>

definition replace_byte :: "char \<Rightarrow> string \<Rightarrow> string \<Rightarrow> string" where
  "replace_byte c r s = concat (map (\<lambda>d. if d = c then r else [d]) s)"

definition to_slash :: "string \<Rightarrow> string" where
  "to_slash s = map (\<lambda>c. if c = CHR 0x5C then CHR ''/'' else c) s"

definition Join :: "string \<Rightarrow> string list \<Rightarrow> string" where
  "Join sep xs = concat (if xs = [] then [] else hd xs # map (\<lambda>x. sep @ x) (tl xs))"

text \<open>Strings are compared by their bytes.\<close>

fun string_less :: "string \<Rightarrow> string \<Rightarrow> bool" where
  "string_less [] [] = False"
| "string_less [] (y # ys) = True"
| "string_less (x # xs) [] = False"
| "string_less (x # xs) (y # ys) =
     (of_char x < (of_char y :: nat) \<or> (x = y \<and> string_less xs ys))"

lemma string_less_irrefl [simp]: "\<not> string_less s s"
  by (induction s) auto

lemma string_less_trans: "string_less a b \<Longrightarrow> string_less b c \<Longrightarrow> string_less a c"
proof (induction a b arbitrary: c rule: string_less.induct)
  case (2 y ys)
  then show ?case by (cases c) auto
next
  case (4 x xs y ys)
  then show ?case by (cases c) auto
qed auto

lemma string_less_linear: "string_less a b \<or> a = b \<or> string_less b a"
proof (induction a b rule: string_less.induct)
  case (4 x xs y ys)
  then show ?case
    by (metis nat_neq_iff of_char_eq_iff string_less.simps(4))
qed auto

lemma string_less_asym: "string_less a b \<Longrightarrow> \<not> string_less b a"
  using string_less_trans string_less_irrefl by blast

lemma string_less_total: "a \<noteq> b \<Longrightarrow> \<not> string_less a b \<Longrightarrow> string_less b a"
  using string_less_linear by blast

lemma string_not_less_trans: "\<not> string_less a b \<Longrightarrow> \<not> string_less b c \<Longrightarrow> \<not> string_less a c"
  using string_less_linear string_less_trans by blast

section \<open>Slash-separated paths\<close>

fun split_on :: "char \<Rightarrow> string \<Rightarrow> string \<Rightarrow> string list" where
  "split_on c acc [] = [acc]"
| "split_on c acc (d # s) = (if d = c then acc # split_on c [] s else split_on c (acc @ [d]) s)"

text \<open>
  \<open>path.Clean\<close>: empty and \<open>.\<close> elements go, \<open>..\<close> takes the element before it away, or goes too at the
  root.
\<close>

fun clean_elements :: "bool \<Rightarrow> string list \<Rightarrow> string list \<Rightarrow> string list" where
  "clean_elements rooted out [] = rev out"
| "clean_elements rooted out (e # es) =
     (if e = [] \<or> e = ''.'' then clean_elements rooted out es
      else if e = ''..'' then
        (case out of
           [] \<Rightarrow> clean_elements rooted (if rooted then [] else [e]) es
         | o' # out' \<Rightarrow>
             if o' = ''..'' then clean_elements rooted (e # out) es
             else clean_elements rooted out' es)
      else clean_elements rooted (e # out) es)"

definition Clean :: "string \<Rightarrow> string" where
  "Clean p =
     (let rooted = HasPrefix p ''/'';
          body = Join ''/'' (clean_elements rooted [] (split_on (CHR ''/'') [] p))
      in if rooted then CHR ''/'' # body else if body = [] then ''.'' else body)"

text \<open>What follows the last slash, and what comes before it, the slash included.\<close>

definition after_slash :: "string \<Rightarrow> string" where
  "after_slash p = rev (takeWhile (\<lambda>c. c \<noteq> CHR ''/'') (rev p))"

definition up_to_slash :: "string \<Rightarrow> string" where
  "up_to_slash p = rev (dropWhile (\<lambda>c. c \<noteq> CHR ''/'') (rev p))"

definition Dir :: "string \<Rightarrow> string" where
  "Dir p = Clean (up_to_slash p)"

definition Base :: "string \<Rightarrow> string" where
  "Base p =
     (if p = [] then ''.''
      else let q = rev (dropWhile (\<lambda>c. c = CHR ''/'') (rev p))
           in if q = [] then ''/'' else after_slash q)"

text \<open>\<open>path.Ext\<close>: from the last dot after the last slash, that dot included.\<close>

fun ext_scan :: "string \<Rightarrow> string \<Rightarrow> string" where
  "ext_scan acc [] = []"
| "ext_scan acc (c # rev_path) =
     (if c = CHR ''/'' then [] else if c = CHR ''.'' then c # acc else ext_scan (c # acc) rev_path)"

definition Ext :: "string \<Rightarrow> string" where
  "Ext path = ext_scan [] (rev path)"

section \<open>Numbers\<close>

text \<open>\<open>%d\<close>\<close>

definition digit_char :: "nat \<Rightarrow> char" where
  "digit_char d = char_of (48 + d)"

fun decimal :: "nat \<Rightarrow> string" where
  "decimal n = (if n < 10 then [digit_char n] else decimal (n div 10) @ [digit_char (n mod 10)])"

declare decimal.simps [simp del]

definition decimal_int :: "int \<Rightarrow> string" where
  "decimal_int i = (if i < 0 then CHR ''-'' # decimal (nat (- i)) else decimal (nat i))"

definition digits_value :: "string \<Rightarrow> nat" where
  "digits_value s = foldl (\<lambda>a c. 10 * a + (of_char c - 48)) 0 s"

lemma of_char_digit: "d < 10 \<Longrightarrow> of_char (digit_char d) = 48 + d"
  by (simp add: digit_char_def)

lemma digits_value_decimal: "digits_value (decimal n) = n"
proof (induction n rule: decimal.induct)
  case (1 n)
  then show ?case
    by (subst decimal.simps) (auto simp: digits_value_def of_char_digit)
qed

lemma decimal_digits: "c \<in> set (decimal n) \<Longrightarrow> \<exists>d < 10. c = digit_char d"
proof (induction n rule: decimal.induct)
  case (1 n)
  have "\<exists>d < 10. digit_char (n mod 10) = digit_char d"
    by (rule exI [of _ "n mod 10"]) simp
  moreover have "c \<in> set (decimal n) \<longleftrightarrow>
      (if n < 10 then c = digit_char n else c \<in> set (decimal (n div 10)) \<or> c = digit_char (n mod 10))"
    by (subst decimal.simps) auto
  ultimately show ?case using 1 by (auto split: if_splits)
qed

lemma decimal_not_Nil [simp]: "decimal n \<noteq> []"
  by (subst decimal.simps) simp

lemma decimal_inj: "decimal m = decimal n \<longleftrightarrow> m = n"
  by (metis digits_value_decimal)

lemma digit_not_mark:
  assumes "c \<in> set (decimal n)"
  shows "c \<noteq> CHR ''/''" and "c \<noteq> CHR ''-''"
proof -
  obtain d where d: "d < 10" "c = digit_char d" using decimal_digits [OF assms] by blast
  then have "of_char c = 48 + d" by (simp add: of_char_digit)
  then show "c \<noteq> CHR ''/''" and "c \<noteq> CHR ''-''" by auto
qed

lemma decimal_int_no_slash: "CHR ''/'' \<notin> set (decimal_int i)"
  using digit_not_mark(1) by (auto simp: decimal_int_def)

lemma decimal_int_inj: "decimal_int i = decimal_int j \<longleftrightarrow> i = j"
proof -
  have "decimal m \<noteq> CHR ''-'' # s" for m s
    using digit_not_mark(2) by (metis list.set_intros(1))
  then show ?thesis
    by (auto simp: decimal_int_def decimal_inj dest: sym)
qed

text \<open>Two elements separated by a slash are determined by the whole when the first has none.\<close>

lemma slash_inj:
  "\<lbrakk>CHR ''/'' \<notin> set a; CHR ''/'' \<notin> set b; a @ ''/'' @ s = b @ ''/'' @ t\<rbrakk> \<Longrightarrow> a = b \<and> s = t"
proof (induction a arbitrary: b)
  case Nil
  then show ?case by (cases b) auto
next
  case (Cons c a)
  then show ?case by (cases b) auto
qed

lemma encode_rune_no_slash: "r \<noteq> 47 \<Longrightarrow> CHR ''/'' \<notin> set (encode_rune r)"
proof -
  have high: "char_of n \<noteq> CHR ''/''" if "0x80 \<le> n" "n < 0x100" for n :: nat
  proof
    assume "char_of n = CHR ''/''"
    then have "of_char (char_of n :: char) = (47::nat)" by simp
    with that show False by simp
  qed
  have low: "char_of r \<noteq> CHR ''/''" if "r < 0x80" "r \<noteq> 47"
  proof
    assume "char_of r = CHR ''/''"
    then have "of_char (char_of r :: char) = (47::nat)" by simp
    with that show False by simp
  qed
  assume "r \<noteq> 47"
  then show ?thesis
    unfolding encode_rune_def using high low by (auto dest!: sym [of "CHR ''/''"])
qed

end
