(* ===== verification/StoreCandidates.thy ===== *)
theory StoreCandidates
  imports StoreJobs Backoff Text
begin

text \<open>
  The candidate operations of \<open>internal/store\<close>: \<open>candidates.go\<close>, \<open>rejections.go\<close> and
  \<open>manual_jobs.go\<close>. A candidate is its own attempt: cached untried, made active together with the
  pending transfers of its files, and finished together with the transition of its job.
\<close>

section \<open>Caching search results\<close>

record new_candidate =
  nc_Username :: string
  nc_Score :: real
  nc_Files :: "candidate_file list"
  nc_LastResort :: bool

definition add_candidate :: "nat \<Rightarrow> candidate_state \<Rightarrow> ts \<Rightarrow> new_candidate \<Rightarrow> db \<Rightarrow> db" where
  "add_candidate jobID st now c s =
     s\<lparr>candidates := candidates s @
         [\<lparr>cand_ID = next_id s, cand_Job = jobID, cand_Username = nc_Username c,
           cand_Score = nc_Score c, cand_Files = nc_Files c, cand_State = st,
           cand_FailReason = [], cand_ImportSubmitted = None, cand_LastResort = nc_LastResort c,
           cand_DeferredSince = None, cand_Created = now, cand_Updated = now\<rparr>],
       next_id := Suc (next_id s)\<rparr>"

text \<open>The foreign key refuses candidates of a job that was deleted meanwhile.\<close>

definition InsertCandidates :: "nat \<Rightarrow> new_candidate list \<Rightarrow> ts \<Rightarrow> db \<Rightarrow> store_error + db" where
  "InsertCandidates jobID cands now s =
     (if cands \<noteq> [] \<and> the_job jobID s = None then Inl ErrForeignKey
      else Inr (update_jobs (\<lambda>j. job_is jobID j \<and> job_State j = Wanted)
        (\<lambda>j. j\<lparr>job_Retries := 0, job_EmptySearches := 0, job_NotBefore := None, job_Updated := now\<rparr>)
        (fold (add_candidate jobID CNew now) cands s)))"

definition score_before :: "candidate \<Rightarrow> candidate \<Rightarrow> bool" where
  "score_before c d \<longleftrightarrow>
     cand_Score c > cand_Score d \<or> (cand_Score c = cand_Score d \<and> cand_ID c < cand_ID d)"

definition NextNewCandidate :: "nat \<Rightarrow> db \<Rightarrow> candidate option" where
  "NextNewCandidate jobID s =
     pick_first score_before (filter (\<lambda>c. cand_Job c = jobID \<and> cand_State c = CNew) (candidates s))"

definition ActiveCandidate :: "nat \<Rightarrow> db \<Rightarrow> candidate option" where
  "ActiveCandidate jobID s = find (\<lambda>c. cand_Job c = jobID \<and> active c) (candidates s)"

section \<open>Rejections\<close>

definition barred :: "ts \<Rightarrow> rejection \<Rightarrow> bool" where
  "barred now r \<longleftrightarrow> (case rej_RetryAfter r of None \<Rightarrow> True | Some t \<Rightarrow> t > now)"

definition RejectedCandidates :: "nat \<Rightarrow> ts \<Rightarrow> db \<Rightarrow> rejection list" where
  "RejectedCandidates jobID now s = filter (\<lambda>r. rej_Job r = jobID \<and> barred now r) (rejections s)"

definition CountRejectionsByReason :: "nat \<Rightarrow> string \<Rightarrow> db \<Rightarrow> nat" where
  "CountRejectionsByReason jobID reason s =
     row_count (\<lambda>r. rej_Job r = jobID \<and> rej_Reason r = reason) (rejections s)"

definition rejection_key :: "nat \<Rightarrow> string \<Rightarrow> string \<Rightarrow> rejection \<Rightarrow> bool" where
  "rejection_key jobID username dir r \<longleftrightarrow>
     rej_Job r = jobID \<and> rej_Username r = username \<and> rej_Dir r = dir"

text \<open>
  The upsert and the write of \<open>retry_after\<close>, which follows from the attempts the upsert returned.
\<close>

definition retry_after :: "cooldown_policy option \<Rightarrow> int \<Rightarrow> ts \<Rightarrow> ts option" where
  "retry_after cooldown attempts now =
     map_option (\<lambda>pol. now + sint (cooldownFor attempts (pol_Base pol) (pol_Cap pol))) cooldown"

definition upsert_rejection ::
  "nat \<Rightarrow> string \<Rightarrow> string \<Rightarrow> string \<Rightarrow> cooldown_policy option \<Rightarrow> ts \<Rightarrow> db \<Rightarrow> db" where
  "upsert_rejection jobID username dir reason cooldown now s =
     (if row_count (rejection_key jobID username dir) (rejections s) = 0
      then s\<lparr>rejections := rejections s @
        [\<lparr>rej_Job = jobID, rej_Username = username, rej_Dir = dir, rej_Reason = reason,
          rej_Created = now, rej_RetryAfter = retry_after cooldown 1 now, rej_Attempts = 1\<rparr>]\<rparr>
      else s\<lparr>rejections := row_update (rejection_key jobID username dir)
        (\<lambda>r. r\<lparr>rej_Reason := reason, rej_Created := now, rej_Attempts := Suc (rej_Attempts r),
           rej_RetryAfter := retry_after cooldown (int (Suc (rej_Attempts r))) now\<rparr>) (rejections s)\<rparr>)"

definition recordRejectionTx ::
  "(string \<Rightarrow> string) \<Rightarrow> nat \<Rightarrow> nat \<Rightarrow> string \<Rightarrow> cooldown_policy option \<Rightarrow> ts \<Rightarrow> db \<Rightarrow> store_error + db"
where
  "recordRejectionTx dir candidateID jobID reason cooldown now s =
     (case the_candidate candidateID s of
        None \<Rightarrow> Inl ErrNoRows
      | Some c \<Rightarrow>
          (case first_file c of
             None \<Rightarrow> Inr s
           | Some file \<Rightarrow>
               Inr (upsert_rejection jobID (cand_Username c) (dir file) reason cooldown now s)))"

section \<open>Finishing a candidate\<close>

record rejection_rule =
  rule_record :: bool
  rule_cooldown :: "cooldown_policy option"

definition no_rule :: rejection_rule where
  "no_rule = \<lparr>rule_record = False, rule_cooldown = None\<rparr>"

definition finish_candidate :: "candidate_state \<Rightarrow> string \<Rightarrow> ts \<Rightarrow> candidate \<Rightarrow> candidate" where
  "finish_candidate st reason now c =
     (if st = CFailed then c\<lparr>cand_State := CFailed, cand_FailReason := reason, cand_Updated := now\<rparr>
      else c\<lparr>cand_State := st, cand_Updated := now\<rparr>)"

text \<open>
  Both guarded writes or neither. The reason is stored on the job only when it becomes
  \<open>ImportRefused\<close>.
\<close>

definition advance_refused :: "job_state \<Rightarrow> string \<Rightarrow> ts \<Rightarrow> album_job \<Rightarrow> album_job" where
  "advance_refused to reason now j =
     j\<lparr>job_State := to, job_Updated := now,
       job_RefusedReason := (if to = ImportRefused then reason else job_RefusedReason j)\<rparr>"

definition terminalCandidateAndAdvance ::
  "(string \<Rightarrow> string) \<Rightarrow> nat \<Rightarrow> nat \<Rightarrow> candidate_state \<Rightarrow> job_state \<Rightarrow> job_state \<Rightarrow> string
     \<Rightarrow> rejection_rule \<Rightarrow> ts \<Rightarrow> db \<Rightarrow> db \<times> (store_error + bool)"
where
  "terminalCandidateAndAdvance dir candidateID jobID st from to reason rule now s =
     (let pc = (\<lambda>c. cand_ID c = candidateID \<and> active c);
          pj = (\<lambda>j. job_is jobID j \<and> job_State j = from)
      in if row_count pc (candidates s) = 0 then (s, Inr False)
         else (let s1 = update_candidates pc (finish_candidate st reason now) s
               in if row_count pj (jobs s1) = 0 then (s, Inr False)
                  else (let s2 = update_jobs pj (advance_refused to reason now) s1
                        in if rule_record rule
                           then (case recordRejectionTx dir candidateID jobID reason
                                       (rule_cooldown rule) now s2 of
                                   Inl err \<Rightarrow> (s, Inl err)
                                 | Inr s3 \<Rightarrow> (s3, Inr True))
                           else (s2, Inr True))))"

definition FailCandidateAndAdvance ::
  "(string \<Rightarrow> string) \<Rightarrow> nat \<Rightarrow> nat \<Rightarrow> string \<Rightarrow> job_state \<Rightarrow> job_state \<Rightarrow> ts \<Rightarrow> db
     \<Rightarrow> db \<times> (store_error + bool)" where
  "FailCandidateAndAdvance dir candidateID jobID reason from to now =
     terminalCandidateAndAdvance dir candidateID jobID CFailed from to reason no_rule now"

definition CooldownCandidateAndAdvance ::
  "(string \<Rightarrow> string) \<Rightarrow> nat \<Rightarrow> nat \<Rightarrow> string \<Rightarrow> job_state \<Rightarrow> job_state \<Rightarrow> cooldown_policy \<Rightarrow> ts \<Rightarrow> db
     \<Rightarrow> db \<times> (store_error + bool)" where
  "CooldownCandidateAndAdvance dir candidateID jobID reason from to policy now =
     terminalCandidateAndAdvance dir candidateID jobID CFailed from to reason
       \<lparr>rule_record = True, rule_cooldown = Some policy\<rparr> now"

definition RejectCandidateAndAdvance ::
  "(string \<Rightarrow> string) \<Rightarrow> nat \<Rightarrow> nat \<Rightarrow> string \<Rightarrow> job_state \<Rightarrow> job_state \<Rightarrow> ts \<Rightarrow> db
     \<Rightarrow> db \<times> (store_error + bool)" where
  "RejectCandidateAndAdvance dir candidateID jobID reason from to now =
     terminalCandidateAndAdvance dir candidateID jobID CFailed from to reason
       \<lparr>rule_record = True, rule_cooldown = None\<rparr> now"

definition SucceedCandidateAndAdvance ::
  "(string \<Rightarrow> string) \<Rightarrow> nat \<Rightarrow> nat \<Rightarrow> job_state \<Rightarrow> job_state \<Rightarrow> ts \<Rightarrow> db \<Rightarrow> db \<times> (store_error + bool)"
where
  "SucceedCandidateAndAdvance dir candidateID jobID from to now =
     terminalCandidateAndAdvance dir candidateID jobID CSucceeded from to [] no_rule now"

text \<open>The unguarded forms; no caller outside the tests.\<close>

definition FailCandidate :: "nat \<Rightarrow> string \<Rightarrow> ts \<Rightarrow> db \<Rightarrow> db" where
  "FailCandidate candidateID reason now =
     update_candidates (\<lambda>c. cand_ID c = candidateID) (finish_candidate CFailed reason now)"

definition SucceedCandidate :: "nat \<Rightarrow> ts \<Rightarrow> db \<Rightarrow> db" where
  "SucceedCandidate candidateID now =
     update_candidates (\<lambda>c. cand_ID c = candidateID) (finish_candidate CSucceeded [] now)"

definition MarkImportSubmitted :: "nat \<Rightarrow> ts \<Rightarrow> db \<Rightarrow> db" where
  "MarkImportSubmitted candidateID now =
     update_candidates (\<lambda>c. cand_ID c = candidateID)
       (\<lambda>c. c\<lparr>cand_ImportSubmitted := Some now, cand_Updated := now\<rparr>)"

section \<open>Deferral\<close>

text \<open>The first deferral's time is kept; the flag says whether this call started the wait.\<close>

definition DeferCandidate :: "nat \<Rightarrow> ts \<Rightarrow> db \<Rightarrow> db \<times> ts \<times> bool" where
  "DeferCandidate candidateID now s =
     (case the_candidate candidateID s of
        None \<Rightarrow> (s, 0, False)
      | Some c \<Rightarrow>
          (let since = (case cand_DeferredSince c of None \<Rightarrow> now | Some t \<Rightarrow> t)
           in (update_candidates (\<lambda>d. cand_ID d = candidateID)
                 (\<lambda>d. d\<lparr>cand_DeferredSince := Some since, cand_Updated := now\<rparr>) s,
               since, cand_DeferredSince c = None)))"

definition ClearCandidateDeferral :: "nat \<Rightarrow> db \<Rightarrow> db" where
  "ClearCandidateDeferral candidateID =
     update_candidates (\<lambda>c. cand_ID c = candidateID \<and> cand_DeferredSince c \<noteq> None)
       (\<lambda>c. c\<lparr>cand_DeferredSince := None\<rparr>)"

section \<open>Activation\<close>

text \<open>\<open>strings.ToUpper\<close> on the letters of ASCII; other characters are left alone.\<close>

definition upper_char :: "char \<Rightarrow> char" where
  "upper_char c = (let n = of_char c :: nat in if 97 \<le> n \<and> n \<le> 122 then char_of (n - 32) else c)"

definition file_format :: "candidate_file \<Rightarrow> string" where
  "file_format f =
     (case Ext (cf_Filename f) of [] \<Rightarrow> [] | c # ext \<Rightarrow> map upper_char ext)"

definition format_count :: "candidate_file list \<Rightarrow> string \<Rightarrow> nat" where
  "format_count files ext = row_count (\<lambda>f. file_format f = ext) files"

text \<open>
  The loop over the map of counts, for some order of its keys: a higher count, or the same count and
  a smaller name, replaces the best so far.
\<close>

definition format_before :: "candidate_file list \<Rightarrow> string \<Rightarrow> string \<Rightarrow> bool" where
  "format_before files a b \<longleftrightarrow>
     format_count files a > format_count files b
     \<or> (format_count files a = format_count files b \<and> string_less a b)"

definition dominantFormat :: "candidate_file list \<Rightarrow> string option" where
  "dominantFormat files =
     pick_first (format_before files) (remdups (filter (\<lambda>e. e \<noteq> []) (map file_format files)))"

definition digit_value :: "char \<Rightarrow> int option" where
  "digit_value c = (let n = of_char c :: nat in if 48 \<le> n \<and> n \<le> 57 then Some (int n - 48) else None)"

fun digits_value :: "int \<Rightarrow> string \<Rightarrow> int option" where
  "digits_value acc [] = Some acc"
| "digits_value acc (c # cs) =
     (case digit_value c of None \<Rightarrow> None | Some d \<Rightarrow> digits_value (10 * acc + d) cs)"

text \<open>\<open>strconv.Atoi\<close>: an optional sign and at least one decimal digit.\<close>

definition Atoi :: "string \<Rightarrow> int option" where
  "Atoi s =
     (case s of
        [] \<Rightarrow> None
      | c # cs \<Rightarrow>
          if c = CHR ''+'' then (if cs = [] then None else digits_value 0 cs)
          else if c = CHR ''-'' then (if cs = [] then None else map_option uminus (digits_value 0 cs))
          else digits_value 0 s)"

definition deriveYear :: "string \<Rightarrow> int option" where
  "deriveYear releaseDate =
     (if length releaseDate < 4 then None
      else (case Atoi (take 4 releaseDate) of
              None \<Rightarrow> None
            | Some year \<Rightarrow> if year < 1000 \<or> year > 9999 then None else Some year))"

fun files_valid :: "string set \<Rightarrow> candidate_file list \<Rightarrow> bool" where
  "files_valid seen [] = True"
| "files_valid seen (f # fs) =
     (cf_Filename f \<noteq> [] \<and> cf_Size f \<ge> 0 \<and> cf_Filename f \<notin> seen
      \<and> files_valid (insert (cf_Filename f) seen) fs)"

text \<open>
  The insertion of the pending transfers, row by row: the key of the candidate first, then the
  index of live remote files.
\<close>

fun insert_pending ::
  "nat \<Rightarrow> string \<Rightarrow> ts \<Rightarrow> ts \<Rightarrow> candidate_file list \<Rightarrow> db \<Rightarrow> store_error + db" where
  "insert_pending candidateID username deadline now [] s = Inr s"
| "insert_pending candidateID username deadline now (f # fs) s =
     (if row_count (\<lambda>t. tr_Candidate t = candidateID \<and> remote_file t = (username, cf_Filename f))
           (transfers s) \<noteq> 0 then Inl ErrUniqueViolation
      else if row_count (\<lambda>t. live t \<and> remote_file t = (username, cf_Filename f)) (transfers s) \<noteq> 0
      then Inl ErrRemoteFileBusy
      else insert_pending candidateID username deadline now fs
        (s\<lparr>transfers := transfers s @
             [\<lparr>tr_ID = next_id s, tr_Candidate = candidateID, tr_SlskdID = [],
               tr_Username = username, tr_Filename = cf_Filename f, tr_State = TPending,
               tr_BytesDone = 0, tr_BytesTotal = cf_Size f, tr_Retries = 0, tr_Deadline = deadline,
               tr_LastProgress = None, tr_Updated = now\<rparr>],
           next_id := Suc (next_id s)\<rparr>))"

text \<open>The results are \<open>activated\<close> and \<open>capFull\<close>.\<close>

definition activate_job :: "ts \<Rightarrow> candidate \<Rightarrow> album_job \<Rightarrow> album_job" where
  "activate_job now c j =
     j\<lparr>job_State := Downloading, job_Updated := now, job_Year := deriveYear (job_ReleaseDate j),
       job_Tracks := Some (length (cand_Files c)), job_Format := dominantFormat (cand_Files c)\<rparr>"

definition ActivateCandidateWithTransfers ::
  "nat \<Rightarrow> nat \<Rightarrow> int \<Rightarrow> ts \<Rightarrow> ts \<Rightarrow> db \<Rightarrow> db \<times> (store_error + bool \<times> bool)" where
  "ActivateCandidateWithTransfers candidateID jobID maxActive deadline now s =
     (case (find (\<lambda>c. cand_ID c = candidateID \<and> cand_Job c = jobID \<and> cand_State c = CNew) (candidates s),
            find (\<lambda>j. job_is jobID j \<and> job_State j = Selecting) (jobs s)) of
        (Some c, Some j) \<Rightarrow>
          if cand_Files c = [] \<or> \<not> files_valid {} (cand_Files c) then (s, Inl ErrInvalidCandidateFiles)
          else if int (CountJobsInStates [Downloading, Importing] s) \<ge> maxActive
          then (s, Inr (False, True))
          else (case insert_pending candidateID (cand_Username c) deadline now (cand_Files c) s of
                  Inl err \<Rightarrow> (s, if err = ErrRemoteFileBusy then Inr (False, False) else Inl err)
                | Inr s1 \<Rightarrow>
                    (update_jobs (\<lambda>j. job_is jobID j \<and> job_State j = Selecting) (activate_job now c)
                       (update_candidates
                          (\<lambda>c. cand_ID c = candidateID \<and> cand_Job c = jobID \<and> cand_State c = CNew)
                          (\<lambda>c. c\<lparr>cand_State := CActive, cand_Updated := now\<rparr>) s1),
                     Inr (True, False)))
      | _ \<Rightarrow> (s, Inr (False, False)))"

section \<open>Manual jobs\<close>

definition manual_job :: "nat \<Rightarrow> string \<Rightarrow> string \<Rightarrow> string \<Rightarrow> ts \<Rightarrow> album_job" where
  "manual_job i title artist mbid now =
     \<lparr>job_ID = i, job_Album = None, job_State = Downloading, job_Created = now,
           job_Updated = now, job_Title = title, job_Artist = artist, job_ReleaseDate = [],
           job_ArtistID = 0, job_Retries = 0, job_EmptySearches = 0, job_NotBefore = None,
           job_FailedAt = None, job_MinTracks = 0, job_MaxTracks = 0, job_Source = SourceManual,
           job_MBID = mbid, job_Year = None, job_Tracks = None, job_Format = None,
           job_RefusedReason = []\<rparr>"

definition add_job :: "album_job \<Rightarrow> db \<Rightarrow> db" where
  "add_job j s = s\<lparr>jobs := jobs s @ [j], next_id := Suc (next_id s)\<rparr>"

definition CreateManualJob ::
  "string \<Rightarrow> string \<Rightarrow> string \<Rightarrow> string \<Rightarrow> candidate_file list \<Rightarrow> ts \<Rightarrow> ts \<Rightarrow> db
     \<Rightarrow> db \<times> (store_error + album_job)" where
  "CreateManualJob title artist peer mbid files deadline now s =
     (let j = manual_job (next_id s) title artist mbid now;
          s1 = add_job j s;
          candidateID = next_id s1;
          s2 = add_candidate (job_ID j) CActive now
                 \<lparr>nc_Username = peer, nc_Score = 0, nc_Files = files, nc_LastResort = False\<rparr> s1
      in case insert_pending candidateID peer deadline now files s2 of
           Inl err \<Rightarrow> (s, Inl err)
         | Inr s3 \<Rightarrow> (s3, Inr j))"

section \<open>Preservation\<close>

lemma add_candidate_select [simp]:
  "jobs (add_candidate i st now c s) = jobs s" "transfers (add_candidate i st now c s) = transfers s"
  "rejections (add_candidate i st now c s) = rejections s"
  "folders (add_candidate i st now c s) = folders s"
  "next_id (add_candidate i st now c s) = Suc (next_id s)"
  by (simp_all add: add_candidate_def)

lemma base_add_candidate:
  assumes "base_ok s" and "i \<in> job_ID ` set (jobs s)"
  shows "base_ok (add_candidate i st now c s)"
proof -
  have "keys_ok (add_candidate i st now c s)" "owners_ok (add_candidate i st now c s)"
    using assms(1) by (auto simp: base_ok_def keys_ok_def owners_ok_def add_candidate_def)
  moreover have "refs_ok (add_candidate i st now c s)"
    using assms by (auto simp: base_ok_def refs_ok_def add_candidate_def)
  moreover have "sources_ok (add_candidate i st now c s)"
    using assms(1) by (simp add: base_ok_def sources_ok_def)
  ultimately show ?thesis by (simp add: base_ok_def)
qed

lemma has_active_add_candidate:
  "has_active (add_candidate i st now c s) k \<longleftrightarrow> has_active s k \<or> (st = CActive \<and> k = i)"
  by (auto simp: has_active_def add_candidate_def active_def)

lemma single_active_add_candidate:
  "\<lbrakk>single_active s; st = CActive \<longrightarrow> \<not> has_active s i\<rbrakk> \<Longrightarrow>
   single_active (add_candidate i st now c s)"
  by (auto simp: single_active_def add_candidate_def has_active_def active_def)

lemma wf_add_new_candidates:
  "\<lbrakk>wf_db s; i \<in> job_ID ` set (jobs s)\<rbrakk> \<Longrightarrow> wf_db (fold (add_candidate i CNew now) cs s)"
proof (induction cs arbitrary: s)
  case Nil
  then show ?case by simp
next
  case (Cons c cs)
  then have "wf_db (add_candidate i CNew now c s)"
    by (simp add: wf_db_def base_add_candidate single_active_add_candidate not_wedged_def
        quiet_ok_def has_active_add_candidate)
  with Cons show ?case by simp
qed

lemma wf_InsertCandidates:
  assumes wf: "wf_db s" and r: "InsertCandidates i cs now s = Inr s'"
  shows "wf_db s'"
proof -
  have "wf_db (fold (add_candidate i CNew now) cs s)"
  proof (cases "cs = []")
    case True
    with wf show ?thesis by simp
  next
    case False
    with r have "the_job i s \<noteq> None" by (auto simp: InsertCandidates_def split: if_splits)
    with wf show ?thesis using the_job_None [of i s] by (intro wf_add_new_candidates) simp_all
  qed
  with r show ?thesis
    by (auto simp: InsertCandidates_def keeps_identity_def split: if_splits
        intro!: wf_update_jobs_same_state)
qed

subsection \<open>Finishing a candidate\<close>

lemma finish_candidate_simps [simp]:
  "cand_ID (finish_candidate st r now c) = cand_ID c" "cand_Job (finish_candidate st r now c) = cand_Job c"
  "cand_State (finish_candidate st r now c) = st"
  "first_file (finish_candidate st r now c) = first_file c"
  "cand_Username (finish_candidate st r now c) = cand_Username c"
  by (simp_all add: finish_candidate_def first_file_def)

lemma has_active_finish:
  assumes wf: "wf_db s" and c: "c \<in> set (candidates s)" "active c" and st: "st \<noteq> CActive"
  shows "has_active (update_candidates (\<lambda>d. cand_ID d = cand_ID c \<and> active d)
      (finish_candidate st r now) s) k \<longleftrightarrow> has_active s k \<and> k \<noteq> cand_Job c"
proof -
  let ?g = "\<lambda>d. if cand_ID d = cand_ID c \<and> active d then finish_candidate st r now d else d"
  have g: "active (?g d) \<and> cand_Job (?g d) = k \<longleftrightarrow> active d \<and> cand_ID d \<noteq> cand_ID c \<and> cand_Job d = k" for d
    using st by (auto simp: active_def)
  have "has_active (update_candidates (\<lambda>d. cand_ID d = cand_ID c \<and> active d)
      (finish_candidate st r now) s) k
      \<longleftrightarrow> (\<exists>d \<in> set (candidates s). active d \<and> cand_ID d \<noteq> cand_ID c \<and> cand_Job d = k)"
    unfolding has_active_def update_candidates_select bex_row_update g by (rule refl)
  also have "\<dots> \<longleftrightarrow> has_active s k \<and> k \<noteq> cand_Job c"
    using active_unique [OF wf _ c(1) _ c(2)] candidate_unique [OF _ _ c(1)] c wf
    unfolding has_active_def wf_db_def by metis
  finally show ?thesis .
qed

text \<open>
  The two writes of a finished attempt, for a job that leaves a slot state: they belong to the same
  job, so the job loses its only active candidate exactly when it stops needing one.
\<close>

lemma wf_finish:
  assumes wf: "wf_db s" and c: "c \<in> set (candidates s)" "active c" and st: "st \<noteq> CActive"
    and found: "row_count (\<lambda>j. job_is (cand_Job c) j \<and> job_State j = from) (jobs s) \<noteq> 0"
    and to: "\<not> slot_state to"
  shows "wf_db (update_jobs (\<lambda>j. job_is (cand_Job c) j \<and> job_State j = from) (advance_refused to r now)
      (update_candidates (\<lambda>d. cand_ID d = cand_ID c \<and> active d) (finish_candidate st r' now) s))"
proof -
  let ?p = "\<lambda>j. job_is (cand_Job c) j \<and> job_State j = from"
  let ?f = "advance_refused to r now"
  let ?s1 = "update_candidates (\<lambda>d. cand_ID d = cand_ID c \<and> active d) (finish_candidate st r' now) s"
  have keeps: "keeps_owner (finish_candidate st r' now)" "keeps_identity ?f"
    by (simp_all add: keeps_owner_def keeps_identity_def advance_refused_def)
  have active1: "has_active ?s1 k \<longleftrightarrow> has_active s k \<and> k \<noteq> cand_Job c" for k
    by (rule has_active_finish [OF wf c st])
  show ?thesis
  proof (rule wf_transaction [OF wf, where p = ?p and f = ?f])
    show "base_ok (update_jobs ?p ?f ?s1)"
      using wf keeps by (intro base_update_jobs base_update_candidates) (simp_all add: wf_db_def)
    show "single_active (update_jobs ?p ?f ?s1)"
      using wf st keeps by (simp, intro single_active_update) (auto simp: wf_db_def)
    show "jobs (update_jobs ?p ?f ?s1) = row_update ?p ?f (jobs s)" by simp
    show "keeps_identity ?f" by (rule keeps)
    fix j assume j: "j \<in> set (jobs s)"
    show "(slot_state (job_State (?f j)) \<longrightarrow> has_active (update_jobs ?p ?f ?s1) (job_ID j))
      \<and> (quiet_state (job_State (?f j)) \<longrightarrow> \<not> has_active (update_jobs ?p ?f ?s1) (job_ID j))" if "?p j"
      using that to by (simp add: advance_refused_def active1 job_is_def)
    show "(slot_state (job_State j) \<longrightarrow> has_active s (job_ID j)
        \<longrightarrow> has_active (update_jobs ?p ?f ?s1) (job_ID j))
      \<and> (quiet_state (job_State j) \<longrightarrow> has_active (update_jobs ?p ?f ?s1) (job_ID j)
        \<longrightarrow> has_active s (job_ID j))" if "\<not> ?p j"
      using that guard_holds [OF _ found j] wf by (auto simp: active1 wf_db_def job_is_def)
  qed
qed

lemma base_upsert_rejection:
  assumes "base_ok s" and "i \<in> job_ID ` set (jobs s)"
  shows "base_ok (upsert_rejection i u d r pol now s)"
  using assms
  by (auto simp: base_ok_def keys_ok_def refs_ok_def owners_ok_def sources_ok_def
      upsert_rejection_def row_update_def rejection_key_def)

lemma upsert_rejection_select [simp]:
  "jobs (upsert_rejection i u d r pol now s) = jobs s"
  "candidates (upsert_rejection i u d r pol now s) = candidates s"
  "transfers (upsert_rejection i u d r pol now s) = transfers s"
  by (simp_all add: upsert_rejection_def)

lemma wf_upsert_rejection:
  assumes "wf_db s" and "i \<in> job_ID ` set (jobs s)"
  shows "wf_db (upsert_rejection i u d r pol now s)"
  using assms base_upsert_rejection [of s i u d r pol now]
  by (auto simp: wf_db_def single_active_def not_wedged_def quiet_ok_def has_active_def)

text \<open>
  Every caller passes a candidate of the job and a transition out of a slot state into one that
  holds no slot.
\<close>

lemma wf_terminal:
  assumes wf: "wf_db s" and st: "st \<noteq> CActive" and to: "\<not> slot_state to"
    and own: "\<And>c. \<lbrakk>c \<in> set (candidates s); cand_ID c = candidateID\<rbrakk> \<Longrightarrow> cand_Job c = jobID"
  shows "wf_db (fst (terminalCandidateAndAdvance dir candidateID jobID st from to reason rule now s))"
proof (cases "row_count (\<lambda>c. cand_ID c = candidateID \<and> active c) (candidates s) = 0
    \<or> row_count (\<lambda>j. job_is jobID j \<and> job_State j = from) (jobs s) = 0")
  case True
  with wf show ?thesis by (auto simp: terminalCandidateAndAdvance_def Let_def)
next
  case False
  then obtain c where c: "c \<in> set (candidates s)" "active c" "cand_ID c = candidateID"
    and found: "row_count (\<lambda>j. job_is jobID j \<and> job_State j = from) (jobs s) \<noteq> 0"
    by (auto simp: row_count_eq_0)
  with own have job: "cand_Job c = jobID" by blast
  let ?s2 = "update_jobs (\<lambda>j. job_is jobID j \<and> job_State j = from) (advance_refused to reason now)
      (update_candidates (\<lambda>d. cand_ID d = candidateID \<and> active d) (finish_candidate st reason now) s)"
  have wf2: "wf_db ?s2"
    using wf_finish [OF wf c(1,2) st] found to job c(3) by simp
  have "keeps_identity (advance_refused to reason now)"
    by (simp add: keeps_identity_def advance_refused_def)
  moreover have "jobID \<in> job_ID ` set (jobs s)"
    using found by (auto simp: row_count_eq_0 job_is_def)
  ultimately have ids: "jobID \<in> job_ID ` set (jobs ?s2)"
    by (simp add: job_IDs_row_update)
  show ?thesis
    using wf wf2 False wf_upsert_rejection [OF wf2 ids]
    by (auto simp: terminalCandidateAndAdvance_def Let_def recordRejectionTx_def
        split: option.splits)
qed

lemma wf_candidate_marks:
  assumes "wf_db s"
  shows "wf_db (MarkImportSubmitted i now s)" "wf_db (fst (DeferCandidate i now s))"
    "wf_db (ClearCandidateDeferral i s)"
  using assms
  by (auto simp: MarkImportSubmitted_def DeferCandidate_def ClearCandidateDeferral_def keeps_owner_def
      Let_def split: option.splits intro!: wf_update_candidates_same_state)

subsection \<open>Activation\<close>

text \<open>What the inserted rows change: nothing but the transfers.\<close>

lemma insert_pending_select:
  "insert_pending cid u dl now fs s = Inr s' \<Longrightarrow>
   jobs s' = jobs s \<and> candidates s' = candidates s \<and> rejections s' = rejections s
   \<and> folders s' = folders s \<and> next_id s \<le> next_id s'"
  by (induction fs arbitrary: s) (fastforce split: if_splits)+

lemma base_add_transfer:
  assumes "base_ok s" and "tr_ID t = next_id s" and "tr_Candidate t \<in> cand_ID ` set (candidates s)"
    and "row_count (\<lambda>u. live u \<and> remote_file u = remote_file t) (transfers s) = 0"
  shows "base_ok (s\<lparr>transfers := transfers s @ [t], next_id := Suc (next_id s)\<rparr>)"
proof -
  let ?s = "s\<lparr>transfers := transfers s @ [t], next_id := Suc (next_id s)\<rparr>"
  have "keys_ok ?s" "refs_ok ?s" "sources_ok ?s"
    using assms(1-3) by (auto simp: base_ok_def keys_ok_def refs_ok_def sources_ok_def)
  moreover have "owners_ok ?s"
    using assms(1,4) by (auto simp: base_ok_def owners_ok_def row_count_eq_0)
  ultimately show ?thesis by (simp add: base_ok_def)
qed

lemma base_insert_pending:
  "\<lbrakk>base_ok s; cid \<in> cand_ID ` set (candidates s); insert_pending cid u dl now fs s = Inr s'\<rbrakk> \<Longrightarrow>
   base_ok s'"
proof (induction fs arbitrary: s)
  case Nil
  then show ?case by simp
next
  case (Cons f fs)
  let ?t = "\<lparr>tr_ID = next_id s, tr_Candidate = cid, tr_SlskdID = [], tr_Username = u,
    tr_Filename = cf_Filename f, tr_State = TPending, tr_BytesDone = 0, tr_BytesTotal = cf_Size f,
    tr_Retries = 0, tr_Deadline = dl, tr_LastProgress = None, tr_Updated = now\<rparr>"
  let ?s = "s\<lparr>transfers := transfers s @ [?t], next_id := Suc (next_id s)\<rparr>"
  from Cons.prems(3) have free: "row_count (\<lambda>t. live t \<and> remote_file t = (u, cf_Filename f)) (transfers s) = 0"
    and rest: "insert_pending cid u dl now fs ?s = Inr s'"
    by (simp_all split: if_splits)
  have "base_ok ?s"
    using Cons.prems free by (intro base_add_transfer) (simp_all add: remote_file_def)
  with Cons.prems(2) rest show ?case by (intro Cons.IH [of ?s]) simp_all
qed

definition mark_active :: "ts \<Rightarrow> candidate \<Rightarrow> candidate" where
  "mark_active now c = c\<lparr>cand_State := CActive, cand_Updated := now\<rparr>"

lemma wf_insert_pending:
  assumes wf: "wf_db s" and "cid \<in> cand_ID ` set (candidates s)"
    and ins: "insert_pending cid u dl now fs s = Inr s'"
  shows "wf_db s'"
  using wf base_insert_pending [OF _ assms(2) ins] insert_pending_select [OF ins]
  by (simp add: wf_db_def single_active_def not_wedged_def quiet_ok_def has_active_def)

text \<open>
  A selecting job has no active candidate, so activating one of its own gives it exactly one, in
  the same transaction as the step to \<open>Downloading\<close>.
\<close>

lemma wf_activation:
  assumes wf: "wf_db s" and c: "c \<in> set (candidates s)" "cand_Job c = i" "cand_State c = CNew"
    and this_one: "\<And>d. d \<in> set (candidates s) \<Longrightarrow> pc d \<longleftrightarrow> d = c"
    and found: "row_count (\<lambda>j. job_is i j \<and> job_State j = Selecting) (jobs s) \<noteq> 0"
  shows "wf_db (update_jobs (\<lambda>j. job_is i j \<and> job_State j = Selecting) (activate_job now c)
      (update_candidates pc (mark_active now) s))"
proof -
  let ?p = "\<lambda>j. job_is i j \<and> job_State j = Selecting"
  let ?s1 = "update_candidates pc (mark_active now) s"
  have keeps: "keeps_owner (mark_active now)" "keeps_identity (activate_job now c)"
    by (simp_all add: keeps_owner_def keeps_identity_def mark_active_def activate_job_def)
  have none: "\<not> has_active s (cand_Job c)"
    using wf found c(2) by (auto simp: row_count_eq_0 job_is_def wf_db_def quiet_ok_def)
  have active1: "has_active ?s1 k \<longleftrightarrow> k = i \<or> has_active s k" for k
    using has_active_one [OF c(1) keeps(1) _ this_one] c(2) by (simp add: mark_active_def active_def)
  show ?thesis
  proof (rule wf_transaction [OF wf, where p = ?p and f = "activate_job now c"])
    show "base_ok (update_jobs ?p (activate_job now c) ?s1)"
      using wf keeps by (intro base_update_jobs base_update_candidates) (simp_all add: wf_db_def)
    show "single_active (update_jobs ?p (activate_job now c) ?s1)"
      using single_active_one [OF wf c(1) none keeps(1) this_one] by simp
    show "jobs (update_jobs ?p (activate_job now c) ?s1) = row_update ?p (activate_job now c) (jobs s)"
      by simp
    show "keeps_identity (activate_job now c)" by (rule keeps)
    fix j assume j: "j \<in> set (jobs s)"
    show "(slot_state (job_State (activate_job now c j))
        \<longrightarrow> has_active (update_jobs ?p (activate_job now c) ?s1) (job_ID j))
      \<and> (quiet_state (job_State (activate_job now c j))
        \<longrightarrow> \<not> has_active (update_jobs ?p (activate_job now c) ?s1) (job_ID j))" if "?p j"
      using that by (simp add: active1 job_is_def activate_job_def)
    show "(slot_state (job_State j) \<longrightarrow> has_active s (job_ID j)
        \<longrightarrow> has_active (update_jobs ?p (activate_job now c) ?s1) (job_ID j))
      \<and> (quiet_state (job_State j) \<longrightarrow> has_active (update_jobs ?p (activate_job now c) ?s1) (job_ID j)
        \<longrightarrow> has_active s (job_ID j))" if "\<not> ?p j"
      using that guard_holds [OF _ found j] wf by (auto simp: active1 wf_db_def job_is_def)
  qed
qed

text \<open>What a successful activation did.\<close>

lemma activation_activated:
  assumes "ActivateCandidateWithTransfers cid i maxActive dl now s = (s', Inr (True, full))"
  obtains c j s1 where "c \<in> set (candidates s)" "cand_ID c = cid" "cand_Job c = i"
    "cand_State c = CNew" "j \<in> set (jobs s)" "job_ID j = i" "job_State j = Selecting"
    "cand_Files c \<noteq> []" "files_valid {} (cand_Files c)"
    "int (CountJobsInStates [Downloading, Importing] s) < maxActive"
    "insert_pending cid (cand_Username c) dl now (cand_Files c) s = Inr s1"
    "s' = update_jobs (\<lambda>j. job_is i j \<and> job_State j = Selecting) (activate_job now c)
       (update_candidates (\<lambda>c. cand_ID c = cid \<and> cand_Job c = i \<and> cand_State c = CNew)
         (mark_active now) s1)"
proof -
  from assms obtain c j where
    c: "find (\<lambda>c. cand_ID c = cid \<and> cand_Job c = i \<and> cand_State c = CNew) (candidates s) = Some c"
    and j: "find (\<lambda>j. job_is i j \<and> job_State j = Selecting) (jobs s) = Some j"
    by (auto simp: ActivateCandidateWithTransfers_def split: option.splits)
  with assms have *: "cand_Files c \<noteq> []" "files_valid {} (cand_Files c)"
    "int (CountJobsInStates [Downloading, Importing] s) < maxActive"
    by (auto simp: ActivateCandidateWithTransfers_def split: if_splits)
  with assms c j obtain s1 where
    ins: "insert_pending cid (cand_Username c) dl now (cand_Files c) s = Inr s1"
    by (auto simp: ActivateCandidateWithTransfers_def split: sum.splits if_splits)
  have mark: "mark_active now = (\<lambda>c. c\<lparr>cand_State := CActive, cand_Updated := now\<rparr>)"
    by (simp add: fun_eq_iff mark_active_def)
  from assms c j * ins have "s' = update_jobs (\<lambda>j. job_is i j \<and> job_State j = Selecting) (activate_job now c)
       (update_candidates (\<lambda>c. cand_ID c = cid \<and> cand_Job c = i \<and> cand_State c = CNew)
         (mark_active now) s1)"
    by (simp add: ActivateCandidateWithTransfers_def mark)
  with c j * ins show ?thesis
    by (intro that [of c j s1]) (auto simp: find_Some_iff job_is_def)
qed

lemma activation_refused:
  "\<lbrakk>ActivateCandidateWithTransfers cid i maxActive dl now s = (s', r); \<forall>full. r \<noteq> Inr (True, full)\<rbrakk>
   \<Longrightarrow> s' = s"
  by (auto simp: ActivateCandidateWithTransfers_def Let_def split: option.splits sum.splits if_splits)

lemma wf_ActivateCandidateWithTransfers:
  assumes wf: "wf_db s"
  shows "wf_db (fst (ActivateCandidateWithTransfers cid i maxActive dl now s))"
proof (cases "ActivateCandidateWithTransfers cid i maxActive dl now s")
  case (Pair s' r)
  show ?thesis
  proof (cases "\<exists>full. r = Inr (True, full)")
    case False
    with activation_refused [OF Pair] wf Pair show ?thesis by simp
  next
    case True
    then obtain full where "ActivateCandidateWithTransfers cid i maxActive dl now s = (s', Inr (True, full))"
      using Pair by auto
    then obtain c j s1 where
      c: "c \<in> set (candidates s)" "cand_ID c = cid" "cand_Job c = i" "cand_State c = CNew"
      and j: "j \<in> set (jobs s)" "job_ID j = i" "job_State j = Selecting"
      and "cand_Files c \<noteq> []" "files_valid {} (cand_Files c)"
        "int (CountJobsInStates [Downloading, Importing] s) < maxActive"
      and ins: "insert_pending cid (cand_Username c) dl now (cand_Files c) s = Inr s1"
      and s': "s' = update_jobs (\<lambda>j. job_is i j \<and> job_State j = Selecting) (activate_job now c)
         (update_candidates (\<lambda>c. cand_ID c = cid \<and> cand_Job c = i \<and> cand_State c = CNew)
           (mark_active now) s1)"
      by (rule activation_activated)
    have wf1: "wf_db s1" using wf_insert_pending [OF wf _ ins] c by auto
    have same: "jobs s1 = jobs s" "candidates s1 = candidates s"
      using insert_pending_select [OF ins] by simp_all
    have "wf_db s'"
      unfolding s'
    proof (rule wf_activation [OF wf1 _ c(3,4)])
      show "c \<in> set (candidates s1)" using c same by simp
      show "(cand_ID d = cid \<and> cand_Job d = i \<and> cand_State d = CNew) = (d = c)"
        if "d \<in> set (candidates s1)" for d
        using candidate_unique [of s1 d c] that c same wf1 by (auto simp: wf_db_def)
      show "row_count (\<lambda>j. job_is i j \<and> job_State j = Selecting) (jobs s1) \<noteq> 0"
        using j same by (auto simp: row_count_eq_0 job_is_def)
    qed
    with Pair show ?thesis by simp
  qed
qed

text \<open>
  A new job gets a fresh key, so the candidate and the transfers that come with it refer to it
  alone.
\<close>

lemma base_add_job:
  assumes "base_ok s" and "job_ID j = next_id s" and "job_Album j = None" and "job_Source j = SourceManual"
  shows "base_ok (add_job j s)"
  using assms
  by (auto simp: base_ok_def keys_ok_def refs_ok_def owners_ok_def sources_ok_def add_job_def)

lemma no_active_fresh: "base_ok s \<Longrightarrow> next_id s \<le> k \<Longrightarrow> \<not> has_active s k"
  by (fastforce simp: base_ok_def keys_ok_def refs_ok_def has_active_def)

text \<open>A job that is added together with its active candidate.\<close>

lemma wf_add_active_job:
  assumes wf: "wf_db s" and j: "job_ID j = next_id s" "job_Album j = None" "job_Source j = SourceManual"
    and state: "job_State j = Downloading"
  shows "wf_db (add_candidate (next_id s) CActive now c (add_job j s))"
proof -
  define s2 where "s2 = add_candidate (next_id s) CActive now c (add_job j s)"
  have base: "base_ok s" using wf by (simp add: wf_db_def)
  have select: "jobs (add_job j s) = jobs s @ [j]" "candidates (add_job j s) = candidates s"
    by (simp_all add: add_job_def)
  have "base_ok s2"
    unfolding s2_def using base base_add_job [OF base j] by (intro base_add_candidate) (simp_all add: select j)
  moreover have active1: "has_active (add_job j s) k = has_active s k" for k
    by (simp add: has_active_def select)
  have active2: "has_active s2 k \<longleftrightarrow> has_active s k \<or> k = next_id s" for k
    by (simp add: s2_def has_active_add_candidate active1)
  have "single_active s2"
    unfolding s2_def using wf no_active_fresh [OF base]
    by (intro single_active_add_candidate)
      (simp_all add: active1 wf_db_def single_active_def select)
  moreover have "job_ID k \<noteq> next_id s" if "k \<in> set (jobs s)" for k
    using that base by (auto simp: base_ok_def keys_ok_def)
  moreover have "jobs s2 = jobs s @ [j]" by (simp add: s2_def select)
  ultimately show ?thesis
    using wf unfolding s2_def [symmetric]
    by (auto simp: wf_db_def not_wedged_def quiet_ok_def active2 j state)
qed

lemma wf_CreateManualJob:
  assumes wf: "wf_db s"
  shows "wf_db (fst (CreateManualJob title artist peer mbid files dl now s))"
proof -
  let ?j = "manual_job (next_id s) title artist mbid now"
  let ?c = "\<lparr>nc_Username = peer, nc_Score = 0, nc_Files = files, nc_LastResort = False\<rparr>"
  let ?s2 = "add_candidate (next_id s) CActive now ?c (add_job ?j s)"
  have j: "job_ID ?j = next_id s" by (simp add: manual_job_def)
  have "wf_db ?s2" using wf by (intro wf_add_active_job) (simp_all add: manual_job_def)
  moreover have "next_id (add_job ?j s) \<in> cand_ID ` set (candidates ?s2)"
    by (simp add: add_candidate_def)
  ultimately show ?thesis
    using wf by (auto simp: CreateManualJob_def Let_def j split: sum.splits intro: wf_insert_pending)
qed

end
