(* ===== verification/StoreTransfers.thy ===== *)
theory StoreTransfers
  imports StoreCandidates
begin

text \<open>
  The transfer operations of \<open>internal/store/jobs.go\<close>: the two steps of the write-ahead enqueue, the
  progress and retry writes, and the reads the modules poll with. Every write is guarded by the four
  live states and by the job's cancellation barrier.
\<close>

section \<open>Reads\<close>

definition TransfersForCandidate :: "nat \<Rightarrow> db \<Rightarrow> transfer list" where
  "TransfersForCandidate candidateID s = filter (\<lambda>t. tr_Candidate t = candidateID) (transfers s)"

definition CandidatesForJob :: "nat \<Rightarrow> db \<Rightarrow> candidate list" where
  "CandidatesForJob jobID s =
     order_by (\<lambda>c d. cand_Created c < cand_Created d) (filter (\<lambda>c. cand_Job c = jobID) (candidates s))"

text \<open>\<open>PENDING\<close> transfers have not been sent, so they are neither overdue nor active.\<close>

definition sent :: "transfer \<Rightarrow> bool" where
  "sent t \<longleftrightarrow> tr_State t \<in> {TQueued, TInProgress, TStalled}"

definition TransfersPastDeadline :: "ts \<Rightarrow> db \<Rightarrow> transfer list" where
  "TransfersPastDeadline now s = filter (\<lambda>t. tr_Deadline t < now \<and> sent t) (transfers s)"

definition ActiveTransfers :: "db \<Rightarrow> transfer list" where
  "ActiveTransfers s = filter sent (transfers s)"

definition transfer_key :: "nat \<Rightarrow> string \<Rightarrow> string \<Rightarrow> transfer \<Rightarrow> bool" where
  "transfer_key candidateID username filename t \<longleftrightarrow>
     tr_Candidate t = candidateID \<and> remote_file t = (username, filename)"

definition FindTransferByFallback :: "nat \<Rightarrow> string \<Rightarrow> string \<Rightarrow> db \<Rightarrow> transfer option" where
  "FindTransferByFallback candidateID username filename s =
     find (\<lambda>t. transfer_key candidateID username filename t \<and> live t) (transfers s)"

text \<open>The state of the job that owns a candidate, as the joins read it.\<close>

definition owner_state :: "nat \<Rightarrow> db \<Rightarrow> job_state option" where
  "owner_state candidateID s =
     (case the_candidate candidateID s of
        None \<Rightarrow> None
      | Some c \<Rightarrow> map_option job_State (the_job (cand_Job c) s))"

section \<open>The write-ahead enqueue\<close>

definition add_transfer :: "transfer \<Rightarrow> db \<Rightarrow> db" where
  "add_transfer t s = s\<lparr>transfers := transfers s @ [t], next_id := Suc (next_id s)\<rparr>"

definition new_transfer ::
  "nat \<Rightarrow> nat \<Rightarrow> string \<Rightarrow> string \<Rightarrow> transfer_state \<Rightarrow> int \<Rightarrow> ts \<Rightarrow> ts \<Rightarrow> transfer" where
  "new_transfer i candidateID username filename st fsize deadline now =
     \<lparr>tr_ID = i, tr_Candidate = candidateID, tr_SlskdID = [], tr_Username = username,
      tr_Filename = filename, tr_State = st, tr_BytesDone = 0, tr_BytesTotal = fsize,
      tr_Retries = 0, tr_Deadline = deadline, tr_LastProgress = None, tr_Updated = now\<rparr>"

text \<open>The index of live remote files, which refuses an insert or a revival.\<close>

definition remote_busy :: "(string \<times> string) \<Rightarrow> (transfer \<Rightarrow> bool) \<Rightarrow> db \<Rightarrow> bool" where
  "remote_busy f p s \<longleftrightarrow> row_count (\<lambda>t. live t \<and> \<not> p t \<and> remote_file t = f) (transfers s) > 0"

text \<open>The result is the transfer's id and whether the enqueue may begin.\<close>

definition RecordEnqueueIntent ::
  "nat \<Rightarrow> string \<Rightarrow> string \<Rightarrow> ts \<Rightarrow> ts \<Rightarrow> db \<Rightarrow> db \<times> (store_error + nat \<times> bool)" where
  "RecordEnqueueIntent candidateID username filename deadline now s =
     (case owner_state candidateID s of
        None \<Rightarrow> (s, Inr (0, False))
      | Some Cancelled \<Rightarrow> (s, Inr (0, False))
      | Some _ \<Rightarrow>
          (case find (transfer_key candidateID username filename) (transfers s) of
             None \<Rightarrow>
               if remote_busy (username, filename) (\<lambda>t. False) s then (s, Inl ErrUniqueViolation)
               else (add_transfer (new_transfer (next_id s) candidateID username filename TQueued 0
                       deadline now) s, Inr (next_id s, True))
           | Some t \<Rightarrow>
               if \<not> live t then (s, Inr (0, False))
               else (update_transfers (\<lambda>u. transfer_key candidateID username filename u \<and> live u)
                       (\<lambda>u. u\<lparr>tr_State := TQueued, tr_Deadline := deadline, tr_SlskdID := [],
                          tr_BytesDone := 0, tr_Updated := now\<rparr>) s, Inr (tr_ID t, True))))"

definition AttachTransferID :: "nat \<Rightarrow> string \<Rightarrow> ts \<Rightarrow> db \<Rightarrow> db \<times> bool" where
  "AttachTransferID transferID remoteID now s =
     (case find (\<lambda>t. tr_ID t = transferID) (transfers s) of
        None \<Rightarrow> (s, False)
      | Some t \<Rightarrow>
          (case owner_state (tr_Candidate t) s of
             None \<Rightarrow> (s, False)
           | Some Cancelled \<Rightarrow> (s, False)
           | Some _ \<Rightarrow>
               if row_count (\<lambda>u. tr_ID u = transferID \<and> live u) (transfers s) = 0 then (s, False)
               else (update_transfers (\<lambda>u. tr_ID u = transferID \<and> live u)
                       (\<lambda>u. u\<lparr>tr_SlskdID := remoteID, tr_Updated := now\<rparr>) s, True)))"

text \<open>
  \<open>RecordPendingTransfer\<close> (no caller outside the tests) replaces a row of its key in whatever state
  it is, so it may bring a finished transfer back to life; the index decides.
\<close>

definition RecordPendingTransfer ::
  "nat \<Rightarrow> string \<Rightarrow> string \<Rightarrow> int \<Rightarrow> ts \<Rightarrow> db \<Rightarrow> store_error + db" where
  "RecordPendingTransfer candidateID username filename fsize now s =
     (if the_candidate candidateID s = None then Inl ErrForeignKey
      else if remote_busy (username, filename) (transfer_key candidateID username filename) s
      then Inl ErrUniqueViolation
      else if row_count (transfer_key candidateID username filename) (transfers s) = 0
      then Inr (add_transfer (new_transfer (next_id s) candidateID username filename TPending fsize
                  now now) s)
      else Inr (update_transfers (transfer_key candidateID username filename)
                  (\<lambda>u. u\<lparr>tr_State := TPending, tr_BytesTotal := fsize, tr_SlskdID := [],
                     tr_BytesDone := 0, tr_Deadline := now, tr_Updated := now\<rparr>) s))"

section \<open>Progress and retries\<close>

text \<open>\<open>EXISTS (... j.state != 'CANCELLED')\<close>.\<close>

definition not_cancelled :: "nat \<Rightarrow> db \<Rightarrow> bool" where
  "not_cancelled candidateID s \<longleftrightarrow>
     (case owner_state candidateID s of None \<Rightarrow> False | Some st \<Rightarrow> st \<noteq> Cancelled)"

definition progress_transfer :: "transfer_state \<Rightarrow> int \<Rightarrow> int \<Rightarrow> ts \<Rightarrow> transfer \<Rightarrow> transfer" where
  "progress_transfer st bytesDone bytesTotal now t =
     t\<lparr>tr_State := st, tr_BytesDone := bytesDone, tr_BytesTotal := bytesTotal,
       tr_LastProgress := (if bytesDone > tr_BytesDone t then Some now
                           else if st = TInProgress \<and> tr_LastProgress t = None then Some now
                           else tr_LastProgress t),
       tr_Updated := now\<rparr>"

definition UpdateTransferProgress ::
  "nat \<Rightarrow> transfer_state \<Rightarrow> int \<Rightarrow> int \<Rightarrow> ts \<Rightarrow> db \<Rightarrow> db" where
  "UpdateTransferProgress transferID st bytesDone bytesTotal now s =
     update_transfers (\<lambda>t. tr_ID t = transferID \<and> live t \<and> not_cancelled (tr_Candidate t) s)
       (progress_transfer st bytesDone bytesTotal now) s"

definition RetryTransfer :: "nat \<Rightarrow> ts \<Rightarrow> db \<Rightarrow> db" where
  "RetryTransfer transferID now s =
     update_transfers (\<lambda>t. tr_ID t = transferID \<and> live t \<and> not_cancelled (tr_Candidate t) s)
       (\<lambda>t. t\<lparr>tr_State := TPending, tr_Retries := Suc (tr_Retries t), tr_SlskdID := [],
          tr_BytesDone := 0, tr_LastProgress := None, tr_Updated := now\<rparr>) s"

section \<open>Preservation\<close>

lemma owner_state_Some:
  "owner_state i s = Some st \<Longrightarrow> i \<in> cand_ID ` set (candidates s)"
  by (auto simp: owner_state_def dest: the_candidate_Some split: option.splits)

lemma wf_add_transfer:
  assumes wf: "wf_db s" and "tr_ID t = next_id s" and "tr_Candidate t \<in> cand_ID ` set (candidates s)"
    and "row_count (\<lambda>u. live u \<and> remote_file u = remote_file t) (transfers s) = 0"
  shows "wf_db (add_transfer t s)"
  using wf base_add_transfer [of s t] assms(2-4)
  by (simp add: wf_db_def add_transfer_def single_active_def not_wedged_def quiet_ok_def has_active_def)

lemma wf_RecordEnqueueIntent:
  assumes wf: "wf_db s"
  shows "wf_db (fst (RecordEnqueueIntent c u f dl now s))"
proof (cases "owner_state c s")
  case None
  with wf show ?thesis by (simp add: RecordEnqueueIntent_def)
next
  case (Some st)
  note owner = owner_state_Some [OF Some]
  have new: "wf_db (add_transfer (new_transfer (next_id s) c u f TQueued 0 dl now) s)"
    if "\<not> remote_busy (u, f) (\<lambda>t. False) s"
    using wf owner that by (intro wf_add_transfer) (simp_all add: new_transfer_def remote_busy_def remote_file_def)
  have again: "wf_db (update_transfers (\<lambda>u'. transfer_key c u f u' \<and> live u')
      (\<lambda>u. u\<lparr>tr_State := TQueued, tr_Deadline := dl, tr_SlskdID := [], tr_BytesDone := 0,
        tr_Updated := now\<rparr>) s)"
    using wf by (intro wf_update_transfers) (simp_all add: keeps_remote_def remote_file_def)
  from Some wf new again show ?thesis
    by (cases st; cases "find (transfer_key c u f) (transfers s)")
      (simp_all add: RecordEnqueueIntent_def)
qed

lemma wf_AttachTransferID: "wf_db s \<Longrightarrow> wf_db (fst (AttachTransferID i r now s))"
  by (auto simp: AttachTransferID_def keeps_remote_def remote_file_def
      split: option.splits job_state.splits intro!: wf_update_transfers)

lemma wf_UpdateTransferProgress: "wf_db s \<Longrightarrow> wf_db (UpdateTransferProgress i st d t now s)"
  unfolding UpdateTransferProgress_def
  by (rule wf_update_transfers) (simp_all add: keeps_remote_def progress_transfer_def remote_file_def)

lemma wf_RetryTransfer: "wf_db s \<Longrightarrow> wf_db (RetryTransfer i now s)"
  unfolding RetryTransfer_def
  by (rule wf_update_transfers) (simp_all add: keeps_remote_def remote_file_def)

section \<open>The cancellation barrier\<close>

text \<open>Once a job is cancelled, no write of the enqueue or the poll reaches its transfers.\<close>

lemma barrier:
  assumes "owner_state c s = Some Cancelled"
  shows "RecordEnqueueIntent c u f dl now s = (s, Inr (0, False))"
    and "t \<in> set (transfers s) \<Longrightarrow> tr_Candidate t = c \<Longrightarrow> base_ok s \<Longrightarrow>
      AttachTransferID (tr_ID t) r now s = (s, False)
      \<and> UpdateTransferProgress (tr_ID t) st d n now s = s \<and> RetryTransfer (tr_ID t) now s = s"
proof -
  show "RecordEnqueueIntent c u f dl now s = (s, Inr (0, False))"
    using assms by (simp add: RecordEnqueueIntent_def)
  assume t: "t \<in> set (transfers s)" "tr_Candidate t = c" and base: "base_ok s"
  have only: "u = t" if "u \<in> set (transfers s)" "tr_ID u = tr_ID t" for u
    using transfer_unique [OF base that(1) t(1) that(2)] .
  then have "find (\<lambda>u. tr_ID u = tr_ID t) (transfers s) = Some t"
    using t(1) by (intro find_unique) simp_all
  moreover have "row_update (\<lambda>u. tr_ID u = tr_ID t \<and> live u \<and> not_cancelled (tr_Candidate u) s) h
      (transfers s) = transfers s" for h
    unfolding row_update_def
  proof (rule map_idI)
    fix u assume "u \<in> set (transfers s)"
    then show "(if tr_ID u = tr_ID t \<and> live u \<and> not_cancelled (tr_Candidate u) s then h u else u) = u"
      using only [of u] t(2) assms by (auto simp: not_cancelled_def)
  qed
  ultimately show "AttachTransferID (tr_ID t) r now s = (s, False)
      \<and> UpdateTransferProgress (tr_ID t) st d n now s = s \<and> RetryTransfer (tr_ID t) now s = s"
    using assms t(2)
    by (simp add: AttachTransferID_def UpdateTransferProgress_def RetryTransfer_def update_transfers_def)
qed

end
