(* ===== verification/StoreFolders.thy ===== *)
theory StoreFolders
  imports StoreJobs
begin

text \<open>
  The register of download folders, \<open>internal/store/download_folders.go\<close>: which local folder a job
  writes into. A row names one path element below the download root and is the input of a recursive
  delete. \<open>lower\<close> is the database's \<open>lower()\<close>.
\<close>

section \<open>Operations\<close>

definition validDownloadLeaf :: "string \<Rightarrow> bool" where
  "validDownloadLeaf leaf \<longleftrightarrow>
     \<not> (leaf = [] \<or> leaf = ''.'' \<or> leaf = ''..''
        \<or> list_ex (\<lambda>c. c = CHR ''/'' \<or> c = CHR 0x5C) leaf)"

text \<open>An owner: an uncleaned row of another job that is downloading or importing.\<close>

definition in_slot :: "nat \<Rightarrow> db \<Rightarrow> bool" where
  "in_slot i s \<longleftrightarrow>
     (case the_job i s of None \<Rightarrow> False | Some j \<Rightarrow> job_State j \<in> {Downloading, Importing})"

definition folder_owner :: "(string \<Rightarrow> string) \<Rightarrow> nat \<Rightarrow> string \<Rightarrow> db \<Rightarrow> nat option" where
  "folder_owner lower jobID leaf s =
     pick_first (<) (map df_Job (filter
       (\<lambda>f. lower (df_Leaf f) = lower leaf \<and> df_Cleaned f = None \<and> df_Job f \<noteq> jobID
          \<and> in_slot (df_Job f) s) (folders s)))"

definition folder_key :: "(string \<Rightarrow> string) \<Rightarrow> nat \<Rightarrow> string \<Rightarrow> download_folder \<Rightarrow> bool" where
  "folder_key lower jobID leaf f \<longleftrightarrow> df_Job f = jobID \<and> lower (df_Leaf f) = lower leaf"

definition reopen_folder :: "ts \<Rightarrow> download_folder \<Rightarrow> download_folder" where
  "reopen_folder now f =
     (if df_Cleaned f \<noteq> None then f\<lparr>df_Cleaned := None, df_Created := now\<rparr> else f)"

text \<open>\<open>(0, true)\<close> when the folder is the job's, \<open>(owner, false)\<close> when another job has it.\<close>

definition RegisterDownloadFolder ::
  "(string \<Rightarrow> string) \<Rightarrow> nat \<Rightarrow> string \<Rightarrow> ts \<Rightarrow> db \<Rightarrow> db \<times> (store_error + nat \<times> bool)" where
  "RegisterDownloadFolder lower jobID leaf now s =
     (if \<not> validDownloadLeaf leaf then (s, Inl ErrInvalidDownloadLeaf)
      else (case folder_owner lower jobID leaf s of
              Some owner \<Rightarrow> (s, Inr (owner, False))
            | None \<Rightarrow>
                if the_job jobID s = None then (s, Inl ErrForeignKey)
                else if row_count (folder_key lower jobID leaf) (folders s) = 0
                then (s\<lparr>folders := folders s @
                        [\<lparr>df_Job = jobID, df_Leaf = leaf, df_Created = now, df_Cleaned = None\<rparr>]\<rparr>,
                      Inr (0, True))
                else (s\<lparr>folders := row_update (folder_key lower jobID leaf) (reopen_folder now)
                        (folders s)\<rparr>, Inr (0, True))))"

definition DownloadFoldersForJob :: "nat \<Rightarrow> db \<Rightarrow> string list" where
  "DownloadFoldersForJob jobID s =
     map df_Leaf (order_by (\<lambda>f g. df_Created f < df_Created g)
       (filter (\<lambda>f. df_Job f = jobID \<and> df_Cleaned f = None) (folders s)))"

definition MarkDownloadFolderCleaned :: "(string \<Rightarrow> string) \<Rightarrow> nat \<Rightarrow> string \<Rightarrow> ts \<Rightarrow> db \<Rightarrow> db" where
  "MarkDownloadFolderCleaned lower jobID leaf now s =
     s\<lparr>folders := row_update (\<lambda>f. folder_key lower jobID leaf f \<and> df_Cleaned f = None)
       (\<lambda>f. f\<lparr>df_Cleaned := Some now\<rparr>) (folders s)\<rparr>"

section \<open>Preservation\<close>

lemma wf_folders_only:
  assumes "wf_db s" and "\<forall>f \<in> set fs. df_Job f \<in> job_ID ` set (jobs s)"
  shows "wf_db (s\<lparr>folders := fs\<rparr>)"
  using assms
  by (simp add: wf_db_def base_ok_def keys_ok_def refs_ok_def owners_ok_def sources_ok_def
      single_active_def not_wedged_def quiet_ok_def has_active_def)

lemma reopen_folder_simps [simp]:
  "df_Job (reopen_folder now f) = df_Job f" "df_Leaf (reopen_folder now f) = df_Leaf f"
  "df_Cleaned (reopen_folder now f) = None"
  by (simp_all add: reopen_folder_def)

lemma wf_RegisterDownloadFolder:
  assumes wf: "wf_db s"
  shows "wf_db (fst (RegisterDownloadFolder lower i leaf now s))"
proof -
  have refs: "\<forall>f \<in> set (folders s). df_Job f \<in> job_ID ` set (jobs s)"
    using wf by (simp add: wf_db_def base_ok_def refs_ok_def)
  have "i \<in> job_ID ` set (jobs s)" if "the_job i s \<noteq> None"
    using that the_job_None [of i s] by simp
  moreover have "\<forall>f \<in> set (row_update (folder_key lower i leaf) (reopen_folder now) (folders s)).
      df_Job f \<in> job_ID ` set (jobs s)"
    using refs by (simp add: ball_row_update)
  ultimately show ?thesis
    using refs wf wf_folders_only [OF wf]
    by (simp add: RegisterDownloadFolder_def split: option.splits)
qed

lemma wf_MarkDownloadFolderCleaned:
  assumes wf: "wf_db s"
  shows "wf_db (MarkDownloadFolderCleaned lower i leaf now s)"
proof -
  have "\<forall>f \<in> set (folders s). df_Job f \<in> job_ID ` set (jobs s)"
    using wf by (simp add: wf_db_def base_ok_def refs_ok_def)
  then show ?thesis
    unfolding MarkDownloadFolderCleaned_def
    by (intro wf_folders_only [OF wf]) (simp add: ball_row_update)
qed

section \<open>Ownership\<close>

definition uncleaned :: "(string \<Rightarrow> string) \<Rightarrow> nat \<Rightarrow> string \<Rightarrow> db \<Rightarrow> bool" where
  "uncleaned lower jobID leaf s \<longleftrightarrow>
     list_ex (\<lambda>f. folder_key lower jobID leaf f \<and> df_Cleaned f = None) (folders s)"

lemma folder_owner_None:
  "folder_owner lower i leaf s = None
     \<longleftrightarrow> \<not> (\<exists>k. k \<noteq> i \<and> in_slot k s \<and> uncleaned lower k leaf s)"
  by (auto simp: folder_owner_def pick_first_None uncleaned_def folder_key_def list_ex_iff filter_empty_conv)

lemma register_success:
  assumes "RegisterDownloadFolder lower i leaf now s = (s', Inr (0, True))"
  shows "uncleaned lower i leaf s'" "jobs s' = jobs s" "candidates s' = candidates s"
    "validDownloadLeaf leaf" "folder_owner lower i leaf s = None"
    "\<forall>f \<in> set (folders s'). f \<in> set (folders s) \<or> folder_key lower i leaf f"
proof -
  have "uncleaned lower i leaf s' \<and> jobs s' = jobs s \<and> candidates s' = candidates s
      \<and> validDownloadLeaf leaf \<and> folder_owner lower i leaf s = None
      \<and> (\<forall>f \<in> set (folders s'). f \<in> set (folders s) \<or> folder_key lower i leaf f)"
  proof (cases "row_count (folder_key lower i leaf) (folders s) = 0")
    case True
    with assms show ?thesis
      by (auto simp: RegisterDownloadFolder_def uncleaned_def folder_key_def
          split: if_splits option.splits)
  next
    case False
    then obtain f where f: "f \<in> set (folders s)" "folder_key lower i leaf f"
      by (auto simp: row_count_eq_0)
    from assms False have s': "s' = s\<lparr>folders := row_update (folder_key lower i leaf)
        (reopen_folder now) (folders s)\<rparr>"
      and rest: "validDownloadLeaf leaf" "folder_owner lower i leaf s = None"
      by (auto simp: RegisterDownloadFolder_def split: if_splits option.splits)
    have "folder_key lower i leaf (reopen_folder now f) \<and> df_Cleaned (reopen_folder now f) = None"
      using f by (simp add: folder_key_def)
    moreover have "reopen_folder now f \<in> set (row_update (folder_key lower i leaf) (reopen_folder now) (folders s))"
      using f by (auto simp: row_update_def)
    ultimately have "uncleaned lower i leaf s'"
      unfolding s' uncleaned_def list_ex_iff by auto
    moreover have "\<forall>g \<in> set (folders s'). g \<in> set (folders s) \<or> folder_key lower i leaf g"
      unfolding s' by (auto simp: row_update_def folder_key_def)
    ultimately show ?thesis using s' rest by simp
  qed
  then show "uncleaned lower i leaf s'" "jobs s' = jobs s" "candidates s' = candidates s"
    "validDownloadLeaf leaf" "folder_owner lower i leaf s = None"
    "\<forall>f \<in> set (folders s'). f \<in> set (folders s) \<or> folder_key lower i leaf f"
    by simp_all
qed

lemma in_slot_jobs: "jobs s' = jobs s \<Longrightarrow> in_slot i s' = in_slot i s"
  by (simp add: in_slot_def the_job_def)

text \<open>While the job that registered a folder holds a slot, every other job is refused.\<close>

lemma register_excludes:
  assumes "RegisterDownloadFolder lower i leaf now s = (s', Inr (0, True))"
    and "in_slot i s" and "k \<noteq> i" and "lower leaf' = lower leaf" and "validDownloadLeaf leaf'"
  shows "\<exists>owner. RegisterDownloadFolder lower k leaf' now' s' = (s', Inr (owner, False))
    \<and> owner \<noteq> k \<and> in_slot owner s' \<and> uncleaned lower owner leaf s'"
proof -
  note ok = register_success [OF assms(1)]
  have "folder_owner lower k leaf' s' \<noteq> None"
    unfolding folder_owner_None using ok(1) assms(2-4) in_slot_jobs [OF ok(2)]
    by (auto simp: uncleaned_def folder_key_def)
  then obtain owner where owner: "folder_owner lower k leaf' s' = Some owner" by auto
  then have "owner \<noteq> k \<and> in_slot owner s' \<and> uncleaned lower owner leaf s'"
    using assms(4) by (auto simp: folder_owner_def uncleaned_def folder_key_def list_ex_iff
        dest!: pick_first_member)
  with owner assms(5) show ?thesis by (simp add: RegisterDownloadFolder_def)
qed

text \<open>Registering again changes nothing, whatever the casing.\<close>

lemma register_again:
  assumes ok: "RegisterDownloadFolder lower i leaf now s = (s', Inr (0, True))"
    and "lower leaf' = lower leaf" and "validDownloadLeaf leaf'"
  shows "RegisterDownloadFolder lower i leaf' now' s' = (s', Inr (0, True))"
proof -
  note facts = register_success [OF ok]
  have key: "folder_key lower i leaf' = folder_key lower i leaf"
    using assms(2) by (simp add: folder_key_def fun_eq_iff)
  have job: "the_job i s' \<noteq> None"
    using ok facts(2) by (auto simp: RegisterDownloadFolder_def the_job_def split: if_splits option.splits)
  have other: "uncleaned lower k leaf s" if "k \<noteq> i" "uncleaned lower k leaf' s'" for k
  proof -
    from that(2) obtain f where f: "f \<in> set (folders s')" "folder_key lower k leaf' f" "df_Cleaned f = None"
      unfolding uncleaned_def list_ex_iff by blast
    then have "\<not> folder_key lower i leaf f" using that(1) by (simp add: folder_key_def)
    with f(1) facts(6) have "f \<in> set (folders s)" by blast
    with f(2,3) assms(2) show ?thesis unfolding uncleaned_def list_ex_iff folder_key_def by auto
  qed
  have owner: "folder_owner lower i leaf' s' = None"
    using facts(5) other in_slot_jobs [OF facts(2)] unfolding folder_owner_None by blast
  have clean: "df_Cleaned f = None" if "f \<in> set (folders s')" "folder_key lower i leaf f" for f
  proof (cases "row_count (folder_key lower i leaf) (folders s) = 0")
    case True
    with ok that show ?thesis
      by (auto simp: RegisterDownloadFolder_def row_count_eq_0 split: if_splits option.splits)
  next
    case False
    with ok have s': "s' = s\<lparr>folders := row_update (folder_key lower i leaf)
        (reopen_folder now) (folders s)\<rparr>"
      by (auto simp: RegisterDownloadFolder_def split: if_splits option.splits)
    from that show ?thesis unfolding s' by (auto simp: row_update_def split: if_splits)
  qed
  have "row_update (folder_key lower i leaf) (reopen_folder now') (folders s') = folders s'"
    unfolding row_update_def
  proof (rule map_idI)
    fix f assume "f \<in> set (folders s')"
    then show "(if folder_key lower i leaf f then reopen_folder now' f else f) = f"
      using clean [of f] by (simp add: reopen_folder_def)
  qed
  moreover have "row_count (folder_key lower i leaf) (folders s') \<noteq> 0"
    using facts(1) by (auto simp: uncleaned_def list_ex_iff row_count_eq_0)
  ultimately show ?thesis
    using assms(3) job owner key by (auto simp: RegisterDownloadFolder_def)
qed

lemma registered_listed:
  "uncleaned lower i leaf s \<longleftrightarrow> (\<exists>l \<in> set (DownloadFoldersForJob i s). lower l = lower leaf)"
  by (auto simp: uncleaned_def list_ex_iff DownloadFoldersForJob_def folder_key_def)

lemma cleaned_unlisted: "\<not> uncleaned lower i leaf (MarkDownloadFolderCleaned lower i leaf now s)"
  by (auto simp: uncleaned_def list_ex_iff MarkDownloadFolderCleaned_def row_update_def split: if_splits)

text \<open>Every registered name is one path element.\<close>

definition leaves_ok :: "db \<Rightarrow> bool" where
  "leaves_ok s \<longleftrightarrow> (\<forall>f \<in> set (folders s). validDownloadLeaf (df_Leaf f))"

lemma leaves_RegisterDownloadFolder:
  "leaves_ok s \<Longrightarrow> leaves_ok (fst (RegisterDownloadFolder lower i leaf now s))"
  by (auto simp: leaves_ok_def RegisterDownloadFolder_def row_update_def split: option.splits)

end
