(* ===== verification/StoreSync.thy ===== *)
theory StoreSync
  imports StoreCandidates
begin

text \<open>
  The set-at-a-time operations of \<open>internal/store\<close>: the reconciliation of the wanted snapshot
  (\<open>SyncWantedJobs\<close> and the single operations of \<open>pipeline.go\<close> it replaced) and the bulk retry
  (\<open>bulk_retry.go\<close>).
\<close>

section \<open>The wanted snapshot\<close>

record wanted_release =
  wr_ID :: int
  wr_Title :: string
  wr_ArtistName :: string
  wr_ArtistID :: int
  wr_ReleaseDate :: string

text \<open>
  The collapse of duplicate ids: \<open>order\<close> lists the ids as they first occur, \<open>unique\<close> maps an id to
  its last occurrence.
\<close>

definition dedupe_step ::
  "wanted_release \<Rightarrow> int list \<times> (int \<Rightarrow> wanted_release option) \<Rightarrow> int list \<times> (int \<Rightarrow> wanted_release option)"
where
  "dedupe_step r st =
     (let (order, unique) = st
      in (if unique (wr_ID r) = None then order @ [wr_ID r] else order, unique(wr_ID r \<mapsto> r)))"

definition dedupe :: "wanted_release list \<Rightarrow> wanted_release list" where
  "dedupe rs = (let (order, unique) = fold dedupe_step rs ([], Map.empty) in List.map_filter unique order)"

definition wanted_job :: "wanted_release \<Rightarrow> ts \<Rightarrow> nat \<Rightarrow> album_job" where
  "wanted_job r now i =
     \<lparr>job_ID = i, job_Album = Some (wr_ID r), job_State = Wanted, job_Created = now,
      job_Updated = now, job_Title = wr_Title r, job_Artist = wr_ArtistName r,
      job_ReleaseDate = wr_ReleaseDate r, job_ArtistID = wr_ArtistID r, job_Retries = 0,
      job_EmptySearches = 0, job_NotBefore = None, job_FailedAt = None, job_MinTracks = 0,
      job_MaxTracks = 0, job_Source = SourceLidarr, job_MBID = [], job_Year = None,
      job_Tracks = None, job_Format = None, job_RefusedReason = []\<rparr>"

definition for_album :: "int \<Rightarrow> album_job \<Rightarrow> bool" where
  "for_album a j \<longleftrightarrow> job_Album j = Some a \<and> job_Source j = SourceLidarr"

text \<open>\<open>INSERT ... ON CONFLICT (lidarr_album_id) WHERE source = 'lidarr' DO NOTHING\<close>\<close>

definition insert_wanted :: "ts \<Rightarrow> wanted_release \<Rightarrow> db \<Rightarrow> db" where
  "insert_wanted now r s =
     (if row_count (for_album (wr_ID r)) (jobs s) = 0
      then s\<lparr>jobs := jobs s @ [wanted_job r now (next_id s)], next_id := Suc (next_id s)\<rparr> else s)"

text \<open>
  Jobs that re-enter with a clean slate: the update, then the deletes of the rows of exactly the jobs
  that it returned.
\<close>

definition returned_ids :: "(album_job \<Rightarrow> bool) \<Rightarrow> db \<Rightarrow> nat list" where
  "returned_ids p s = map job_ID (filter p (jobs s))"

definition start_over :: "(album_job \<Rightarrow> bool) \<Rightarrow> ts \<Rightarrow> db \<Rightarrow> db" where
  "start_over p now s =
     (let ids = returned_ids p s
      in delete_rejections (\<lambda>r. rej_Job r \<in> set ids)
           (drop_candidates (\<lambda>i. i \<in> set ids) (update_jobs p (clean_slate Wanted now) s)))"

definition wanted_for :: "wanted_release list \<Rightarrow> album_job \<Rightarrow> wanted_release option" where
  "wanted_for ws j =
     (if job_Source j = SourceLidarr then find (\<lambda>r. job_Album j = Some (wr_ID r)) ws else None)"

definition from_wanted :: "wanted_release list \<Rightarrow> album_job \<Rightarrow> album_job" where
  "from_wanted ws j =
     (case wanted_for ws j of
        None \<Rightarrow> j
      | Some r \<Rightarrow> set_metadata \<lparr>md_Title = wr_Title r, md_Artist = wr_ArtistName r,
                     md_ReleaseDate = wr_ReleaseDate r, md_ArtistID = wr_ArtistID r\<rparr> j)"

definition not_wanted :: "int list \<Rightarrow> album_job \<Rightarrow> bool" where
  "not_wanted ids j \<longleftrightarrow> job_State j \<notin> {Done, Cancelled, Failed} \<and> job_Source j = SourceLidarr
     \<and> (case job_Album j of None \<Rightarrow> False | Some a \<Rightarrow> a \<notin> set ids)"

definition revivable :: "int list \<Rightarrow> ts \<Rightarrow> album_job \<Rightarrow> bool" where
  "revivable ids cutoff j \<longleftrightarrow> job_State j = Failed
     \<and> (case job_FailedAt j of None \<Rightarrow> False | Some t \<Rightarrow> t < cutoff)
     \<and> (case job_Album j of None \<Rightarrow> False | Some a \<Rightarrow> a \<in> set ids) \<and> job_Source j = SourceLidarr"

definition SyncWantedJobs :: "wanted_release list \<Rightarrow> ts \<Rightarrow> ts \<Rightarrow> db \<Rightarrow> db \<times> nat \<times> nat" where
  "SyncWantedJobs releases failedCutoff now s =
     (let ws = dedupe releases; ids = map wr_ID ws
      in if ws = [] then (s, 0, 0)
         else (let s1 = fold (insert_wanted now) ws s;
                   s2 = start_over (\<lambda>j. wanted_for ws j \<noteq> None \<and> job_State j = Cancelled) now s1;
                   s3 = update_jobs (\<lambda>j. wanted_for ws j \<noteq> None \<and> job_State j = Wanted)
                          (\<lambda>j. (from_wanted ws j)\<lparr>job_Updated := now\<rparr>) s2;
                   s4 = update_jobs (\<lambda>j. wanted_for ws j \<noteq> None \<and> job_State j \<noteq> Wanted
                          \<and> metadata_missing j) (from_wanted ws) s3;
                   s5 = update_jobs (not_wanted ids) (with_state Cancelled now) s4;
                   s6 = start_over (revivable ids failedCutoff) now s5
               in (s6, row_count (not_wanted ids) (jobs s4), row_count (revivable ids failedCutoff) (jobs s5))))"

section \<open>The single operations\<close>

definition CancelJobsNotWanted :: "int list \<Rightarrow> ts \<Rightarrow> db \<Rightarrow> db \<times> nat" where
  "CancelJobsNotWanted wantedIDs now s =
     (update_jobs (not_wanted wantedIDs) (with_state Cancelled now) s,
      row_count (not_wanted wantedIDs) (jobs s))"

text \<open>No caller outside the tests.\<close>

definition ReviveFailedJobs :: "int list \<Rightarrow> ts \<Rightarrow> ts \<Rightarrow> db \<Rightarrow> db \<times> nat" where
  "ReviveFailedJobs wantedIDs cutoff now s =
     (update_jobs (revivable wantedIDs cutoff) (clean_slate Wanted now) s,
      row_count (revivable wantedIDs cutoff) (jobs s))"

definition UpsertWantedJob :: "int \<Rightarrow> ts \<Rightarrow> db \<Rightarrow> db \<times> album_job option" where
  "UpsertWantedJob lidarrAlbumID now s =
     (let s1 = insert_wanted now \<lparr>wr_ID = lidarrAlbumID, wr_Title = [], wr_ArtistName = [],
                 wr_ArtistID = 0, wr_ReleaseDate = []\<rparr> s;
          s2 = start_over (\<lambda>j. for_album lidarrAlbumID j \<and> job_State j = Cancelled) now s1
      in (s2, find (for_album lidarrAlbumID) (jobs s2)))"

section \<open>Bulk retry\<close>

text \<open>
  \<open>ids\<close> are the jobs of the filtered view. The result counts the revived and the skipped ones.
\<close>

definition bulk_lidarr :: "nat list \<Rightarrow> album_job \<Rightarrow> bool" where
  "bulk_lidarr ids j \<longleftrightarrow> job_ID j \<in> set ids \<and> job_Source j = SourceLidarr \<and> retryable j"

definition bulk_manual :: "nat list \<Rightarrow> db \<Rightarrow> album_job \<Rightarrow> bool" where
  "bulk_manual ids s j \<longleftrightarrow> job_ID j \<in> set ids \<and> job_Source j = SourceManual \<and> retryable j
     \<and> row_count (\<lambda>c. cand_Job c = job_ID j) (candidates s) > 0"

definition revive_manual :: "(album_job \<Rightarrow> bool) \<Rightarrow> ts \<Rightarrow> db \<Rightarrow> db" where
  "revive_manual p now s =
     (let ids = returned_ids p s
      in update_candidates (\<lambda>c. cand_Job c \<in> set ids) (revive_candidate CNew now)
           (delete_transfers_of (\<lambda>i. i \<in> set ids) (update_jobs p (clean_slate Selecting now) s)))"

definition BulkRetryJobs :: "nat list \<Rightarrow> ts \<Rightarrow> db \<Rightarrow> db \<times> nat \<times> int" where
  "BulkRetryJobs ids now s =
     (if ids = [] then (s, 0, 0)
      else (let s1 = start_over (bulk_lidarr ids) now s;
                s2 = revive_manual (bulk_manual ids s1) now s1;
                retried = row_count (bulk_lidarr ids) (jobs s) + row_count (bulk_manual ids s1) (jobs s1)
            in (s2, retried, int (length ids) - int retried)))"

section \<open>The collapse of duplicates\<close>

lemma dedupe_step_pair:
  "dedupe_step r (order, unique) =
     (if unique (wr_ID r) = None then order @ [wr_ID r] else order, unique(wr_ID r \<mapsto> r))"
  by (simp add: dedupe_step_def)

definition last_release :: "wanted_release list \<Rightarrow> int \<Rightarrow> wanted_release option" where
  "last_release rs i = find (\<lambda>r. wr_ID r = i) (rev rs)"

lemma last_release_Cons:
  "last_release (r # rs) = [wr_ID r \<mapsto> r] ++ last_release rs"
  by (auto simp: last_release_def fun_eq_iff map_add_def find_append split: option.splits)

lemma dedupe_unique: "snd (fold dedupe_step rs (order, unique)) = unique ++ last_release rs"
proof (induction rs arbitrary: order unique)
  case Nil
  then show ?case by (simp add: last_release_def map_add_def)
next
  case (Cons r rs)
  have "unique(wr_ID r \<mapsto> r) = unique ++ [wr_ID r \<mapsto> r]" by simp
  then show ?case by (simp add: dedupe_step_pair Cons.IH last_release_Cons del: fun_upd_apply)
qed

lemma dedupe_order:
  "\<lbrakk>distinct order; dom unique = set order\<rbrakk> \<Longrightarrow>
   distinct (fst (fold dedupe_step rs (order, unique)))
   \<and> set (fst (fold dedupe_step rs (order, unique))) = set order \<union> wr_ID ` set rs"
proof (induction rs arbitrary: order unique)
  case Nil
  then show ?case by simp
next
  case (Cons r rs)
  let ?order = "if unique (wr_ID r) = None then order @ [wr_ID r] else order"
  have "distinct ?order" "dom (unique(wr_ID r \<mapsto> r)) = set ?order"
    and union: "set ?order \<union> wr_ID ` set rs = set order \<union> wr_ID ` set (r # rs)"
    using Cons.prems by (auto simp: domIff)
  from Cons.IH [OF this(1,2)] show ?case
    unfolding union by (simp only: fold_simps dedupe_step_pair)
qed

lemma last_release_ID: "last_release rs i = Some r \<Longrightarrow> wr_ID r = i \<and> r \<in> set rs"
  by (auto simp: last_release_def find_Some_iff) (metis nth_mem set_rev length_rev)

lemma map_filter_last_release:
  "set xs \<subseteq> dom (last_release rs) \<Longrightarrow>
   map wr_ID (List.map_filter (last_release rs) xs) = xs
   \<and> find (\<lambda>r. wr_ID r = i) (List.map_filter (last_release rs) xs)
       = (if i \<in> set xs then last_release rs i else None)"
proof (induction xs)
  case Nil
  then show ?case by (simp add: List.map_filter_simps)
next
  case (Cons x xs)
  then obtain r where "last_release rs x = Some r" by auto
  with Cons last_release_ID [OF this] show ?case by (auto simp: List.map_filter_simps)
qed

lemma dom_last_release: "dom (last_release rs) = wr_ID ` set rs"
  by (auto simp: dom_def last_release_def find_None_iff image_iff)

text \<open>One row per id, in the order in which the ids first occur, with the last occurrence's data.\<close>

lemma dedupe_ids:
  "distinct (map wr_ID (dedupe rs))" "wr_ID ` set (dedupe rs) = wr_ID ` set rs"
  "find (\<lambda>r. wr_ID r = i) (dedupe rs) = last_release rs i"
proof -
  let ?order = "fst (fold dedupe_step rs ([], Map.empty))"
  have ded: "dedupe rs = List.map_filter (last_release rs) ?order"
    using dedupe_unique [of rs "[]" Map.empty] by (simp add: dedupe_def case_prod_beta)
  have order: "distinct ?order" "set ?order = wr_ID ` set rs"
    using dedupe_order [of "[]" Map.empty rs] by simp_all
  note picked = map_filter_last_release [of ?order rs i]
  show "distinct (map wr_ID (dedupe rs))"
    using picked order by (simp add: ded dom_last_release)
  have "wr_ID ` set (dedupe rs) = set (map wr_ID (dedupe rs))" by simp
  also have "\<dots> = wr_ID ` set rs" using picked order by (simp add: ded dom_last_release del: set_map)
  finally show "wr_ID ` set (dedupe rs) = wr_ID ` set rs" .
  have "last_release rs i = None" if "i \<notin> wr_ID ` set rs"
    using that dom_last_release [of rs] by blast
  then show "find (\<lambda>r. wr_ID r = i) (dedupe rs) = last_release rs i"
    using picked order by (simp add: ded dom_last_release)
qed

lemma dedupe_Nil: "dedupe rs = [] \<longleftrightarrow> rs = []"
  using dedupe_ids(2) [of rs] by auto

section \<open>Preservation\<close>

lemma returned_iff:
  assumes "base_ok s" and "j \<in> set (jobs s)"
  shows "job_ID j \<in> set (returned_ids p s) \<longleftrightarrow> p j"
  using assms job_unique [OF assms(1)] by (auto simp: returned_ids_def)

lemma wf_start_over_all:
  assumes wf: "wf_db s"
  shows "wf_db (start_over p now s)"
  unfolding start_over_def Let_def
proof (intro wf_delete_rejections wf_start_over [OF wf])
  have base: "base_ok s" using wf by (simp add: wf_db_def)
  fix j assume j: "j \<in> set (jobs s)"
  show "job_ID j \<in> set (returned_ids p s) \<and> \<not> slot_state (job_State (clean_slate Wanted now j))" if "p j"
    using that returned_iff [OF base j] by simp
  show "p j" if "job_ID j \<in> set (returned_ids p s)"
    using that returned_iff [OF base j] by simp
qed simp

lemma wf_insert_wanted:
  assumes wf: "wf_db s"
  shows "wf_db (insert_wanted now r s)"
proof (cases "row_count (for_album (wr_ID r)) (jobs s) = 0")
  case False
  with wf show ?thesis by (simp add: insert_wanted_def)
next
  case True
  let ?j = "wanted_job r now (next_id s)"
  let ?s = "s\<lparr>jobs := jobs s @ [?j], next_id := Suc (next_id s)\<rparr>"
  have base: "base_ok s" using wf by (simp add: wf_db_def)
  have j: "job_ID ?j = next_id s" "job_Album ?j = Some (wr_ID r)" "job_Source ?j = SourceLidarr"
    "job_State ?j = Wanted"
    by (simp_all add: wanted_job_def)
  have "Some (wr_ID r) \<notin> job_Album ` set (jobs s)"
  proof
    assume "Some (wr_ID r) \<in> job_Album ` set (jobs s)"
    then obtain k where k: "k \<in> set (jobs s)" "job_Album k = Some (wr_ID r)" by auto
    with base have "job_Source k \<noteq> SourceManual" by (simp add: base_ok_def sources_ok_def)
    then have "job_Source k = SourceLidarr" by (cases "job_Source k") simp_all
    with True k show False by (auto simp: row_count_eq_0 for_album_def)
  qed
  then have "sources_ok ?s"
    using base j by (auto simp: base_ok_def sources_ok_def)
  moreover have "keys_ok ?s" "refs_ok ?s" "owners_ok ?s"
    using base j by (auto simp: base_ok_def keys_ok_def refs_ok_def owners_ok_def)
  moreover have "has_active ?s k = has_active s k" for k
    by (simp add: has_active_def)
  ultimately have "wf_db ?s"
    using wf j no_active_fresh [OF base order_refl]
    by (simp add: wf_db_def base_ok_def single_active_def not_wedged_def quiet_ok_def)
  with True show ?thesis by (simp add: insert_wanted_def)
qed

lemma wf_insert_all: "wf_db s \<Longrightarrow> wf_db (fold (insert_wanted now) ws s)"
  by (induction ws arbitrary: s) (simp_all add: wf_insert_wanted)

lemma from_wanted_simps [simp]:
  "job_State (from_wanted ws j) = job_State j" "keeps_identity (from_wanted ws)"
  by (simp_all add: from_wanted_def set_metadata_def keeps_identity_def split: option.split)

lemma wf_cancel_not_wanted:
  "wf_db s \<Longrightarrow> wf_db (update_jobs (not_wanted ids) (with_state Cancelled now) s)"
  by (rule wf_update_jobs) simp_all

lemma wf_SyncWantedJobs:
  assumes wf: "wf_db s"
  shows "wf_db (fst (SyncWantedJobs releases cutoff now s))"
proof -
  have "keeps_identity (\<lambda>j. (from_wanted ws j)\<lparr>job_Updated := now\<rparr>)" for ws
    using from_wanted_simps(2) [of ws] by (simp add: keeps_identity_def)
  with wf show ?thesis
    unfolding SyncWantedJobs_def Let_def
    by (auto intro!: wf_start_over_all wf_cancel_not_wanted wf_update_jobs_same_state wf_insert_all)
qed

lemma wf_UpsertWantedJob: "wf_db s \<Longrightarrow> wf_db (fst (UpsertWantedJob a now s))"
  by (simp add: UpsertWantedJob_def Let_def wf_start_over_all wf_insert_wanted)

lemma wf_CancelJobsNotWanted: "wf_db s \<Longrightarrow> wf_db (fst (CancelJobsNotWanted ids now s))"
  by (simp add: CancelJobsNotWanted_def wf_cancel_not_wanted)

lemma wf_revive_manual:
  assumes wf: "wf_db s"
  shows "wf_db (revive_manual p now s)"
proof -
  let ?q = "\<lambda>i. i \<in> set (returned_ids p s)"
  let ?s1 = "update_jobs p (clean_slate Selecting now) s"
  let ?s3 = "update_candidates (\<lambda>c. ?q (cand_Job c)) (revive_candidate CNew now) (delete_transfers_of ?q ?s1)"
  have base: "base_ok s" using wf by (simp add: wf_db_def)
  have "wf_db ?s3"
  proof (rule wf_transaction [OF wf, where p = p and f = "clean_slate Selecting now"])
    show "base_ok ?s3"
      using base by (intro base_update_candidates base_delete_transfers_of base_update_jobs) simp_all
    show "single_active ?s3"
      using wf by (intro single_active_update) (simp_all add: wf_db_def)
    show "jobs ?s3 = row_update p (clean_slate Selecting now) (jobs s)" by simp
    have active3: "has_active ?s3 k \<longleftrightarrow> has_active s k \<and> k \<notin> set (returned_ids p s)" for k
      by (simp add: has_active_revive_of [of ?q])
    show "keeps_identity (clean_slate Selecting now)" by simp
    fix j assume j: "j \<in> set (jobs s)"
    show "(slot_state (job_State (clean_slate Selecting now j)) \<longrightarrow> has_active ?s3 (job_ID j))
      \<and> (quiet_state (job_State (clean_slate Selecting now j)) \<longrightarrow> \<not> has_active ?s3 (job_ID j))" if "p j"
      using that returned_iff [OF base j] by (simp add: active3)
    show "(slot_state (job_State j) \<longrightarrow> has_active s (job_ID j) \<longrightarrow> has_active ?s3 (job_ID j))
      \<and> (quiet_state (job_State j) \<longrightarrow> has_active ?s3 (job_ID j) \<longrightarrow> has_active s (job_ID j))"
      if "\<not> p j"
      using that returned_iff [OF base j] by (simp add: active3)
  qed
  then show ?thesis by (simp add: revive_manual_def Let_def)
qed

lemma wf_BulkRetryJobs: "wf_db s \<Longrightarrow> wf_db (fst (BulkRetryJobs ids now s))"
  by (simp add: BulkRetryJobs_def Let_def wf_revive_manual wf_start_over_all)

end
