(* ===== verification/StoreEvents.thy ===== *)
theory StoreEvents
  imports StoreJobs
begin

text \<open>
  The audit trail of \<open>internal/store/events.go\<close> with its batched pruning, and the progress snapshot of
  \<open>progress.go\<close>.
\<close>

section \<open>Events\<close>

definition AddJobEvent :: "nat \<Rightarrow> job_event \<Rightarrow> string \<Rightarrow> ts \<Rightarrow> db \<Rightarrow> db" where
  "AddJobEvent jobID event detail now s =
     s\<lparr>events := events s @ [\<lparr>ev_ID = next_id s, ev_Job = jobID, ev_Event = event,
         ev_Detail = detail, ev_Created = now\<rparr>],
       next_id := Suc (next_id s)\<rparr>"

definition newer_event :: "event_row \<Rightarrow> event_row \<Rightarrow> bool" where
  "newer_event e f \<longleftrightarrow>
     ev_Created e > ev_Created f \<or> (ev_Created e = ev_Created f \<and> ev_ID e > ev_ID f)"

definition JobEvents :: "nat \<Rightarrow> db \<Rightarrow> event_row list" where
  "JobEvents jobID s = order_by newer_event (filter (\<lambda>e. ev_Job e = jobID) (events s))"

definition RecentEvents :: "nat \<Rightarrow> db \<Rightarrow> event_row list" where
  "RecentEvents limit s = take limit (order_by newer_event (events s))"

section \<open>Pruning\<close>

definition jobEventRetention :: int where
  "jobEventRetention = 30 * 24 * 3600000000000"

definition jobEventPruneBatchSize :: nat where
  "jobEventPruneBatchSize = 1000"

definition jobEventPruneMaxBatches :: nat where
  "jobEventPruneMaxBatches = 100"

definition expired :: "ts \<Rightarrow> event_row \<Rightarrow> bool" where
  "expired cutoff e \<longleftrightarrow> ev_Created e < cutoff"

definition prune_victims :: "ts \<Rightarrow> event_row list \<Rightarrow> nat list" where
  "prune_victims cutoff es =
     map ev_ID (take jobEventPruneBatchSize
       (order_by (\<lambda>e f. newer_event f e) (filter (expired cutoff) es)))"

definition prune_batch :: "ts \<Rightarrow> event_row list \<Rightarrow> event_row list" where
  "prune_batch cutoff es = row_delete (\<lambda>e. ev_ID e \<in> set (prune_victims cutoff es)) es"

fun pruneJobEvents :: "ts \<Rightarrow> nat \<Rightarrow> event_row list \<Rightarrow> event_row list" where
  "pruneJobEvents cutoff 0 es = es"
| "pruneJobEvents cutoff (Suc batches) es =
     (if row_count (\<lambda>e. ev_ID e \<in> set (prune_victims cutoff es)) es < jobEventPruneBatchSize
      then prune_batch cutoff es
      else pruneJobEvents cutoff batches (prune_batch cutoff es))"

definition PruneJobEvents :: "ts \<Rightarrow> db \<Rightarrow> db" where
  "PruneJobEvents now s =
     s\<lparr>events := pruneJobEvents (now - jobEventRetention) jobEventPruneMaxBatches (events s)\<rparr>"

subsection \<open>What a batch deletes\<close>

lemma victims_expired:
  "i \<in> set (prune_victims cutoff es) \<Longrightarrow> \<exists>e \<in> set es. ev_ID e = i \<and> expired cutoff e"
  by (auto simp: prune_victims_def dest!: in_set_takeD)

lemma victim_iff_expired:
  assumes "distinct (map ev_ID es)" and "e \<in> set es" and "ev_ID e \<in> set (prune_victims cutoff es)"
  shows "expired cutoff e"
  using victims_expired [OF assms(3)] assms(1,2) by (auto simp: distinct_map inj_on_def)

lemma victims_length:
  "length (prune_victims cutoff es) = min (row_count (expired cutoff) es) jobEventPruneBatchSize"
  by (simp add: prune_victims_def row_count_def)

lemma victims_distinct:
  assumes "distinct (map ev_ID es)"
  shows "distinct (prune_victims cutoff es)"
proof -
  have "distinct (map ev_ID (filter (expired cutoff) es))"
    using assms by (rule distinct_map_filter)
  then show ?thesis
    unfolding prune_victims_def by (simp add: distinct_order_by take_map [symmetric])
qed

lemma victims_counted:
  assumes d: "distinct (map ev_ID es)"
  shows "row_count (\<lambda>e. ev_ID e \<in> set (prune_victims cutoff es)) es
    = min (row_count (expired cutoff) es) jobEventPruneBatchSize"
proof -
  let ?V = "set (prune_victims cutoff es)"
  have "row_count (\<lambda>e. ev_ID e \<in> ?V) es = card (ev_ID ` {e \<in> set es. ev_ID e \<in> ?V})"
  proof -
    have "distinct (map ev_ID (filter (\<lambda>e. ev_ID e \<in> ?V) es))"
      using d by (rule distinct_map_filter)
    then have "length (filter (\<lambda>e. ev_ID e \<in> ?V) es) = card (set (map ev_ID (filter (\<lambda>e. ev_ID e \<in> ?V) es)))"
      using distinct_card [of "map ev_ID (filter (\<lambda>e. ev_ID e \<in> ?V) es)"] by simp
    then show ?thesis by (simp add: row_count_def)
  qed
  also have "ev_ID ` {e \<in> set es. ev_ID e \<in> ?V} = ?V"
    using victims_expired [of _ cutoff es] by auto
  also have "card ?V = min (row_count (expired cutoff) es) jobEventPruneBatchSize"
    using victims_distinct [OF d] by (simp add: distinct_card victims_length)
  finally show ?thesis .
qed

lemma kept_after_batch:
  assumes "distinct (map ev_ID es)"
  shows "filter (\<lambda>e. \<not> expired cutoff e) (prune_batch cutoff es) = filter (\<lambda>e. \<not> expired cutoff e) es"
  unfolding prune_batch_def row_delete_def filter_filter
  using victim_iff_expired [OF assms] by (intro filter_cong) auto

lemma row_count_split:
  "row_count p xs = row_count (\<lambda>x. p x \<and> q x) xs + row_count (\<lambda>x. p x \<and> \<not> q x) xs"
  by (induction xs) (simp_all add: row_count_def)

lemma expired_after_batch:
  assumes d: "distinct (map ev_ID es)"
  shows "row_count (expired cutoff) (prune_batch cutoff es)
    = row_count (expired cutoff) es - jobEventPruneBatchSize"
proof -
  let ?V = "\<lambda>e. ev_ID e \<in> set (prune_victims cutoff es)"
  have "row_count (\<lambda>e. expired cutoff e \<and> ?V e) es = row_count ?V es"
    unfolding row_count_def using victim_iff_expired [OF d] by (metis (mono_tags, lifting) filter_cong)
  moreover have "row_count (expired cutoff) (prune_batch cutoff es)
      = row_count (\<lambda>e. expired cutoff e \<and> \<not> ?V e) es"
    by (simp add: row_count_def prune_batch_def row_delete_def conj_commute)
  ultimately show ?thesis
    using row_count_split [of "expired cutoff" es ?V] victims_counted [OF d, of cutoff] by simp
qed

lemma distinct_batch: "distinct (map ev_ID es) \<Longrightarrow> distinct (map ev_ID (prune_batch cutoff es))"
  by (simp add: prune_batch_def row_delete_def distinct_map_filter)

text \<open>
  The whole call: rows that are not expired stay; of the expired ones at most the batches' total is
  deleted, and all of them when they are no more than that.
\<close>

lemma pruneJobEvents_effect:
  assumes "distinct (map ev_ID es)"
  shows "filter (\<lambda>e. \<not> expired cutoff e) (pruneJobEvents cutoff n es) = filter (\<lambda>e. \<not> expired cutoff e) es
    \<and> row_count (expired cutoff) (pruneJobEvents cutoff n es)
        = row_count (expired cutoff) es - n * jobEventPruneBatchSize"
  using assms
proof (induction n arbitrary: es)
  case 0
  then show ?case by simp
next
  case (Suc n)
  note batch = kept_after_batch [OF Suc.prems, of cutoff] expired_after_batch [OF Suc.prems, of cutoff]
  show ?case
  proof (cases "row_count (\<lambda>e. ev_ID e \<in> set (prune_victims cutoff es)) es < jobEventPruneBatchSize")
    case True
    then have "row_count (expired cutoff) es < jobEventPruneBatchSize"
      by (simp add: victims_counted [OF Suc.prems])
    with True batch show ?thesis by simp
  next
    case False
    with Suc.IH [OF distinct_batch [OF Suc.prems]] batch show ?thesis by simp
  qed
qed

section \<open>Progress\<close>

fun state_name :: "job_state \<Rightarrow> string" where
  "state_name Discovered = ''DISCOVERED''"
| "state_name Searching = ''SEARCHING''"
| "state_name Selecting = ''SELECTING''"
| "state_name Downloading = ''DOWNLOADING''"
| "state_name Verifying = ''VERIFYING''"
| "state_name Importing = ''IMPORTING''"
| "state_name Completed = ''COMPLETED''"
| "state_name Cooldown = ''COOLDOWN''"
| "state_name Failed = ''FAILED''"
| "state_name Cancelled = ''CANCELLED''"
| "state_name Wanted = ''WANTED''"
| "state_name Done = ''DONE''"
| "state_name Parked = ''PARKED''"
| "state_name Orphaned = ''ORPHANED''"
| "state_name NotImported = ''NOT_IMPORTED''"
| "state_name ImportRefused = ''IMPORT_REFUSED''"

definition terminalJobStates :: "job_state list" where
  "terminalJobStates = [Completed, Done, Failed, Cancelled, NotImported]"

definition wedgeableJobStates :: "job_state list" where
  "wedgeableJobStates = [Downloading, Importing]"

record job_state_progress =
  jp_State :: job_state
  jp_Count :: nat
  jp_OldestUpdate :: ts

definition oldest_update :: "job_state \<Rightarrow> db \<Rightarrow> ts" where
  "oldest_update st s =
     (case map job_Updated (filter (\<lambda>j. job_State j = st) (jobs s)) of
        [] \<Rightarrow> 0 | t # ts \<Rightarrow> fold min ts t)"

definition jobProgressByState :: "(string \<Rightarrow> string \<Rightarrow> bool) \<Rightarrow> db \<Rightarrow> job_state_progress list" where
  "jobProgressByState text_less s =
     map (\<lambda>st. \<lparr>jp_State = st, jp_Count = row_count (\<lambda>j. job_State j = st) (jobs s),
             jp_OldestUpdate = oldest_update st s\<rparr>)
       (order_by (\<lambda>a b. text_less (state_name a) (state_name b))
         (remdups (filter (\<lambda>st. st \<notin> set terminalJobStates) (map job_State (jobs s)))))"

definition countJobsWithoutActiveCandidate :: "db \<Rightarrow> nat" where
  "countJobsWithoutActiveCandidate s =
     row_count (\<lambda>j. job_State j \<in> set wedgeableJobStates
       \<and> \<not> list_ex (\<lambda>c. cand_Job c = job_ID j \<and> active c) (candidates s)) (jobs s)"

definition JobProgress :: "(string \<Rightarrow> string \<Rightarrow> bool) \<Rightarrow> db \<Rightarrow> job_state_progress list \<times> nat" where
  "JobProgress text_less s = (jobProgressByState text_less s, countJobsWithoutActiveCandidate s)"

text \<open>A well-formed database has no wedged job.\<close>

lemma wf_unwedged: "wf_db s \<Longrightarrow> countJobsWithoutActiveCandidate s = 0"
  by (auto simp: countJobsWithoutActiveCandidate_def row_count_eq_0 wedgeableJobStates_def wf_db_def
      not_wedged_def slot_state_def has_active_def list_ex_iff)

lemma wf_events_only: "wf_db (s\<lparr>events := es\<rparr>) = wf_db s"
  by (simp add: wf_db_def base_ok_def keys_ok_def refs_ok_def owners_ok_def sources_ok_def
      single_active_def not_wedged_def quiet_ok_def has_active_def)

lemma wf_AddJobEvent: "wf_db s \<Longrightarrow> wf_db (AddJobEvent i e d now s)"
  by (auto simp: AddJobEvent_def wf_db_def base_ok_def keys_ok_def refs_ok_def owners_ok_def
      sources_ok_def single_active_def not_wedged_def quiet_ok_def has_active_def)

lemma wf_PruneJobEvents: "wf_db s \<Longrightarrow> wf_db (PruneJobEvents now s)"
  by (simp add: PruneJobEvents_def wf_events_only)

end
