(* ===== verification/Lifecycle.thy ===== *)
theory Lifecycle
  imports StoreTransfers StoreFolders StoreSync StoreEvents
begin

text \<open>
  The store as a state machine: one step is one transaction of a caller in \<open>internal/pipeline\<close>,
  \<open>internal/observ\<close> or \<open>cmd/slusk\<close>, in any order and with any arguments. The two operations that take
  their transition as arguments are restricted to the transitions that the pipeline modules pass:
  \<open>AdvanceJobStateFrom\<close> from \<open>discovery.go\<close> and \<open>downloading.go\<close>, and the terminal candidate
  operations, which are called with the job's own candidate and leave the slot states.
\<close>

section \<open>Steps\<close>

definition own_candidate :: "nat \<Rightarrow> nat \<Rightarrow> db \<Rightarrow> bool" where
  "own_candidate candidateID jobID s \<longleftrightarrow>
     list_all (\<lambda>c. cand_ID c = candidateID \<longrightarrow> cand_Job c = jobID) (candidates s)"

inductive store_step :: "db \<Rightarrow> db \<Rightarrow> bool" where
  backoff: "store_step s (SetJobBackoff i r nb now s)"
| empty_backoff: "store_step s (SetJobEmptySearchBackoff i e nb now s)"
| not_before: "store_step s (SetJobNotBefore i nb s)"
| track_band: "store_step s (SetJobTrackBand i mn mx s)"
| job_metadata: "store_step s (UpdateJobMetadata i m now s)"
| backfill: "store_step s (BackfillJobMetadataIfEmpty i m s)"
| defer_job: "store_step s (DeferSelectingJob i now s)"
| mark_failed: "store_step s (MarkJobFailed i now s)"
| advance: "legal_advance from to \<Longrightarrow> store_step s (fst (AdvanceJobStateFrom i from to now s))"
| reset: "store_step s (ResetJobToWanted i from r nb now s)"
| retry: "store_step s (fst (RetryFailedJob i now s))"
| retry_manual: "store_step s (fst (RetryManualJob i now s))"
| retry_refused: "store_step s (fst (RetryRefusedJob dir i now s))"
| bulk_retry: "store_step s (fst (BulkRetryJobs ids now s))"
| force_search: "store_step s (fst (ForceSearchJob i now s))"
| park: "store_step s (fst (ParkJobForCandidate tid cid st d n now s))"
| cancel: "store_step s (fst (CancelJob i now s))"
| prepare_delete: "store_step s (fst (PrepareDeleteJob i now s))"
| delete_job: "store_step s (fst (DeleteJob i s))"
| sync: "store_step s (fst (SyncWantedJobs releases cutoff now s))"
| insert_candidates: "InsertCandidates i cs now s = Inr s' \<Longrightarrow> store_step s s'"
| activate: "store_step s (fst (ActivateCandidateWithTransfers cid i maxActive dl now s))"
| manual: "store_step s (fst (CreateManualJob title artist peer mbid files dl now s))"
| fail_candidate: "\<lbrakk>own_candidate cid i s; \<not> slot_state to\<rbrakk> \<Longrightarrow>
    store_step s (fst (FailCandidateAndAdvance dir cid i reason from to now s))"
| cool_candidate: "\<lbrakk>own_candidate cid i s; \<not> slot_state to\<rbrakk> \<Longrightarrow>
    store_step s (fst (CooldownCandidateAndAdvance dir cid i reason from to pol now s))"
| reject_candidate: "\<lbrakk>own_candidate cid i s; \<not> slot_state to\<rbrakk> \<Longrightarrow>
    store_step s (fst (RejectCandidateAndAdvance dir cid i reason from to now s))"
| succeed_candidate: "\<lbrakk>own_candidate cid i s; \<not> slot_state to\<rbrakk> \<Longrightarrow>
    store_step s (fst (SucceedCandidateAndAdvance dir cid i from to now s))"
| submitted: "store_step s (MarkImportSubmitted cid now s)"
| defer_candidate: "store_step s (fst (DeferCandidate cid now s))"
| clear_defer: "store_step s (ClearCandidateDeferral cid s)"
| enqueue: "store_step s (fst (RecordEnqueueIntent cid u f dl now s))"
| attach: "store_step s (fst (AttachTransferID tid rid now s))"
| progress: "store_step s (UpdateTransferProgress tid st d n now s)"
| retry_transfer: "store_step s (RetryTransfer tid now s)"
| register_folder: "store_step s (fst (RegisterDownloadFolder lower i leaf now s))"
| folder_cleaned: "store_step s (MarkDownloadFolderCleaned lower i leaf now s)"
| add_event: "store_step s (AddJobEvent i ev d now s)"
| prune_events: "store_step s (PruneJobEvents now s)"

inductive reachable :: "db \<Rightarrow> bool" where
  start: "reachable empty_db"
| step: "\<lbrakk>reachable s; store_step s s'\<rbrakk> \<Longrightarrow> reachable s'"

section \<open>The invariant\<close>

lemma wf_own_terminal:
  assumes "wf_db s" and "own_candidate cid i s" and "\<not> slot_state to" and "st \<noteq> CActive"
  shows "wf_db (fst (terminalCandidateAndAdvance dir cid i st from to reason rule now s))"
  using assms by (intro wf_terminal) (auto simp: own_candidate_def list_all_iff)

lemmas wf_steps = wf_backoff wf_MarkJobFailed wf_AdvanceJobStateFrom wf_ResetJobToWanted
  wf_RetryFailedJob wf_RetryManualJob wf_RetryRefusedJob wf_BulkRetryJobs wf_ForceSearchJob
  wf_ParkJobForCandidate wf_DeleteJob wf_SyncWantedJobs wf_InsertCandidates
  wf_ActivateCandidateWithTransfers wf_CreateManualJob wf_candidate_marks wf_RecordEnqueueIntent
  wf_AttachTransferID wf_UpdateTransferProgress wf_RetryTransfer wf_RegisterDownloadFolder
  wf_MarkDownloadFolderCleaned wf_AddJobEvent wf_PruneJobEvents

lemma store_step_wf: "store_step s s' \<Longrightarrow> wf_db s \<Longrightarrow> wf_db s'"
  by (induction rule: store_step.induct)
    (simp_all add: wf_steps CancelJob_def PrepareDeleteJob_def wf_prepareJobCancellation
      FailCandidateAndAdvance_def CooldownCandidateAndAdvance_def RejectCandidateAndAdvance_def
      SucceedCandidateAndAdvance_def wf_own_terminal)

lemma reachable_wf: "reachable s \<Longrightarrow> wf_db s"
  by (induction rule: reachable.induct) (simp_all add: wf_empty store_step_wf)

inductive_cases reachable_cases: "reachable s"

end
