(* ===== verification/StoreFacts.thy ===== *)
theory StoreFacts
  imports Lifecycle
begin

text \<open>
  What the operations of the store do, beyond keeping it well-formed: the effect of an activation on
  the slots and the transfers, of a finished attempt on both rows, of the reconciliation on every
  job, and what the starts over keep of the rejections.
\<close>

section \<open>Activation\<close>

definition pending_for :: "nat \<Rightarrow> string \<Rightarrow> ts \<Rightarrow> transfer \<Rightarrow> bool" where
  "pending_for cid u dl t \<longleftrightarrow>
     tr_Candidate t = cid \<and> tr_Username t = u \<and> tr_State t = TPending \<and> tr_Deadline t = dl \<and> tr_BytesDone t = 0"

lemma insert_pending_transfers:
  "insert_pending cid u dl now fs s = Inr s' \<Longrightarrow>
   \<exists>new. transfers s' = transfers s @ new
     \<and> map (\<lambda>t. (tr_Filename t, tr_BytesTotal t)) new = map (\<lambda>f. (cf_Filename f, cf_Size f)) fs
     \<and> list_all (pending_for cid u dl) new"
proof (induction fs arbitrary: s)
  case Nil
  then show ?case by simp
next
  case (Cons f fs)
  let ?t = "\<lparr>tr_ID = next_id s, tr_Candidate = cid, tr_SlskdID = [], tr_Username = u,
    tr_Filename = cf_Filename f, tr_State = TPending, tr_BytesDone = 0, tr_BytesTotal = cf_Size f,
    tr_Retries = 0, tr_Deadline = dl, tr_LastProgress = None, tr_Updated = now\<rparr>"
  let ?s = "s\<lparr>transfers := transfers s @ [?t], next_id := Suc (next_id s)\<rparr>"
  from Cons.prems have "insert_pending cid u dl now fs ?s = Inr s'" by (simp split: if_splits)
  from Cons.IH [OF this] obtain new where new: "transfers s' = transfers ?s @ new"
    "map (\<lambda>t. (tr_Filename t, tr_BytesTotal t)) new = map (\<lambda>f. (cf_Filename f, cf_Size f)) fs"
    "list_all (pending_for cid u dl) new"
    by blast
  moreover have "pending_for cid u dl ?t" by (simp add: pending_for_def)
  ultimately show ?case by (intro exI [of _ "?t # new"]) simp
qed

lemma row_count_one:
  assumes "distinct (map k xs)" and "x \<in> set xs" and "P x"
    and "\<And>y. \<lbrakk>y \<in> set xs; P y\<rbrakk> \<Longrightarrow> k y = k x"
  shows "row_count P xs = 1"
proof -
  have "distinct (map k (filter P xs))"
    using assms(1) by (rule distinct_map_filter)
  moreover have "set (map k (filter P xs)) = {k x}"
  proof
    show "set (map k (filter P xs)) \<subseteq> {k x}" using assms(4) by force
    show "{k x} \<subseteq> set (map k (filter P xs))" using assms(2,3) by simp
  qed
  ultimately have "length (map k (filter P xs)) = 1"
    using distinct_card [of "map k (filter P xs)"] by simp
  then show ?thesis by (simp add: row_count_def)
qed

lemma row_count_moved:
  assumes "row_count (\<lambda>x. q x \<and> p x) xs = 0" and "\<And>x. q x \<Longrightarrow> p (f x)"
  shows "row_count p (row_update q f xs) = row_count p xs + row_count q xs"
  using assms by (induction xs) (auto simp: row_count_def row_update_def split: if_splits)

lemma activation_fills_slot:
  assumes wf: "wf_db s" and act: "ActivateCandidateWithTransfers cid i maxActive dl now s = (s', Inr (True, full))"
  shows "CountJobsInStates [Downloading, Importing] s' = Suc (CountJobsInStates [Downloading, Importing] s)"
    and "int (CountJobsInStates [Downloading, Importing] s') \<le> maxActive"
proof -
  obtain c j s1 where j: "j \<in> set (jobs s)" "job_ID j = i" "job_State j = Selecting"
    and below: "int (CountJobsInStates [Downloading, Importing] s) < maxActive"
    and ins: "insert_pending cid (cand_Username c) dl now (cand_Files c) s = Inr s1"
    and s': "s' = update_jobs (\<lambda>j. job_is i j \<and> job_State j = Selecting) (activate_job now c)
       (update_candidates (\<lambda>c. cand_ID c = cid \<and> cand_Job c = i \<and> cand_State c = CNew)
         (mark_active now) s1)"
    using act by (rule activation_activated)
  let ?q = "\<lambda>j. job_is i j \<and> job_State j = Selecting"
  let ?slot = "\<lambda>j. job_State j \<in> set [Downloading, Importing]"
  have jobs': "jobs s' = row_update ?q (activate_job now c) (jobs s)"
    using s' insert_pending_select [OF ins] by simp
  have "row_count ?q (jobs s) = 1"
    using wf j job_unique [of s]
    by (intro row_count_one [where k = job_ID and x = j])
      (simp_all add: wf_db_def base_ok_def keys_ok_def job_is_def)
  moreover have "row_count ?slot (row_update ?q (activate_job now c) (jobs s))
      = row_count ?slot (jobs s) + row_count ?q (jobs s)"
    by (rule row_count_moved) (auto simp: row_count_eq_0 activate_job_def)
  ultimately show "CountJobsInStates [Downloading, Importing] s'
      = Suc (CountJobsInStates [Downloading, Importing] s)"
    by (simp add: CountJobsInStates_def jobs')
  with below show "int (CountJobsInStates [Downloading, Importing] s') \<le> maxActive" by simp
qed

section \<open>A finished attempt\<close>

lemma terminal_both:
  assumes base: "base_ok s"
    and r: "terminalCandidateAndAdvance dir cid i st from to reason rule now s = (s', Inr True)"
    and st: "st \<noteq> CActive"
  shows "\<exists>c \<in> set (candidates s). cand_ID c = cid \<and> active c"
    and "\<exists>j \<in> set (jobs s). job_ID j = i \<and> job_State j = from"
    and "\<forall>c \<in> set (candidates s'). cand_ID c = cid \<longrightarrow> cand_State c = st"
    and "\<forall>j \<in> set (jobs s'). job_ID j = i \<longrightarrow> job_State j = to"
proof -
  let ?pc = "\<lambda>c. cand_ID c = cid \<and> active c" and ?pj = "\<lambda>j. job_is i j \<and> job_State j = from"
  from r have found: "row_count ?pc (candidates s) \<noteq> 0" "row_count ?pj (jobs s) \<noteq> 0"
    by (auto simp: terminalCandidateAndAdvance_def Let_def split: if_splits)
  then show "\<exists>c \<in> set (candidates s). cand_ID c = cid \<and> active c"
    "\<exists>j \<in> set (jobs s). job_ID j = i \<and> job_State j = from"
    by (auto simp: row_count_eq_0 job_is_def)
  then obtain c0 where c0: "c0 \<in> set (candidates s)" "cand_ID c0 = cid" "active c0" by blast
  have s': "candidates s' = row_update ?pc (finish_candidate st reason now) (candidates s)
    \<and> jobs s' = row_update ?pj (advance_refused to reason now) (jobs s)"
    using r found
    by (auto simp: terminalCandidateAndAdvance_def Let_def recordRejectionTx_def
        split: if_splits option.splits)
  show "\<forall>c \<in> set (candidates s'). cand_ID c = cid \<longrightarrow> cand_State c = st"
  proof -
    have "active c" if "c \<in> set (candidates s)" "cand_ID c = cid" for c
      using candidate_unique [OF base that(1) c0(1)] that c0 by simp
    then show ?thesis using s' by (auto simp: ball_row_update)
  qed
  show "\<forall>j \<in> set (jobs s'). job_ID j = i \<longrightarrow> job_State j = to"
    using s' guard_holds [OF base found(2)]
    by (auto simp: ball_row_update job_is_def advance_refused_def)
qed

lemma terminal_neither:
  "\<lbrakk>terminalCandidateAndAdvance dir cid i st from to reason rule now s = (s', r); r \<noteq> Inr True\<rbrakk> \<Longrightarrow> s' = s"
  by (auto simp: terminalCandidateAndAdvance_def Let_def split: if_splits sum.splits)

section \<open>Cooldowns\<close>

text \<open>The rejections of one candidate's release, as the next search reads them.\<close>

definition excluded :: "nat \<Rightarrow> string \<Rightarrow> string \<Rightarrow> ts \<Rightarrow> db \<Rightarrow> bool" where
  "excluded i u d now s \<longleftrightarrow>
     list_ex (\<lambda>r. rej_Username r = u \<and> rej_Dir r = d) (RejectedCandidates i now s)"

lemma excluded_upsert:
  "excluded i u d later (upsert_rejection i u d reason pol now s)
     \<longleftrightarrow> (case pol of None \<Rightarrow> True
         | Some p \<Rightarrow> (\<exists>n. (n = 1 \<and> row_count (rejection_key i u d) (rejections s) = 0
               \<or> (\<exists>r \<in> set (rejections s). rejection_key i u d r \<and> n = Suc (rej_Attempts r)))
             \<and> later < now + sint (cooldownFor (int n) (pol_Base p) (pol_Cap p))))"
proof (cases "row_count (rejection_key i u d) (rejections s) = 0")
  case True
  then have none: "\<not> rejection_key i u d r" if "r \<in> set (rejections s)" for r
    using that by (simp add: row_count_eq_0)
  then have "\<not> (rej_Job r = i \<and> rej_Username r = u \<and> rej_Dir r = d)" if "r \<in> set (rejections s)" for r
    using that by (auto simp: rejection_key_def)
  with True none show ?thesis
    by (auto simp: excluded_def RejectedCandidates_def upsert_rejection_def list_ex_iff barred_def
        retry_after_def split: option.splits)
next
  case False
  let ?f = "\<lambda>r. r\<lparr>rej_Reason := reason, rej_Created := now, rej_Attempts := Suc (rej_Attempts r),
      rej_RetryAfter := retry_after pol (int (Suc (rej_Attempts r))) now\<rparr>"
  have "excluded i u d later (upsert_rejection i u d reason pol now s)
      \<longleftrightarrow> (\<exists>r \<in> set (rejections s). rejection_key i u d r \<and> barred later (?f r))"
    using False
    by (auto simp: excluded_def RejectedCandidates_def upsert_rejection_def list_ex_iff
        bex_row_update rejection_key_def row_update_def split: if_splits) 
  also have "\<dots> \<longleftrightarrow> (case pol of None \<Rightarrow> True
         | Some p \<Rightarrow> (\<exists>r \<in> set (rejections s). rejection_key i u d r
             \<and> later < now + sint (cooldownFor (int (Suc (rej_Attempts r))) (pol_Base p) (pol_Cap p))))"
    using False by (cases pol) (auto simp: barred_def retry_after_def row_count_eq_0)
  finally show ?thesis
    using False by (auto split: option.splits)
qed

section \<open>Reconciling the snapshot\<close>

text \<open>What the statements do to one job, in their order.\<close>

definition sync_job :: "wanted_release list \<Rightarrow> ts \<Rightarrow> ts \<Rightarrow> album_job \<Rightarrow> album_job" where
  "sync_job ws cutoff now j0 =
     (let j1 = (if wanted_for ws j0 \<noteq> None \<and> job_State j0 = Cancelled then clean_slate Wanted now j0 else j0);
          j2 = (if wanted_for ws j1 \<noteq> None \<and> job_State j1 = Wanted
                then (from_wanted ws j1)\<lparr>job_Updated := now\<rparr> else j1);
          j3 = (if wanted_for ws j2 \<noteq> None \<and> job_State j2 \<noteq> Wanted \<and> metadata_missing j2
                then from_wanted ws j2 else j2);
          j4 = (if not_wanted (map wr_ID ws) j3 then with_state Cancelled now j3 else j3)
      in if revivable (map wr_ID ws) cutoff j4 then clean_slate Wanted now j4 else j4)"

lemma jobs_start_over: "jobs (start_over p now s) = row_update p (clean_slate Wanted now) (jobs s)"
  by (simp add: start_over_def Let_def)

lemma sync_jobs:
  assumes "dedupe releases = ws" and "ws \<noteq> []"
  shows "jobs (fst (SyncWantedJobs releases cutoff now s))
    = map (sync_job ws cutoff now) (jobs (fold (insert_wanted now) ws s))"
  using assms
  by (simp add: SyncWantedJobs_def Let_def jobs_start_over row_update_map sync_job_def)

lemma sync_keeps [simp]:
  "job_ID (from_wanted ws j) = job_ID j" "job_Album (from_wanted ws j) = job_Album j"
  "job_Source (from_wanted ws j) = job_Source j"
  "job_Album (clean_slate st now j) = job_Album j" "job_Source (clean_slate st now j) = job_Source j"
  "job_Album (with_state st now j) = job_Album j" "job_Source (with_state st now j) = job_Source j"
  "wanted_for ws (clean_slate st now j) = wanted_for ws j"
  "wanted_for ws (from_wanted ws' j) = wanted_for ws j"
  "wanted_for ws (with_state st now j) = wanted_for ws j"
  "wanted_for ws (j\<lparr>job_Updated := t\<rparr>) = wanted_for ws j"
  by (simp_all add: from_wanted_def set_metadata_def clean_slate_def with_state_def wanted_for_def
      split: option.split)

lemma wanted_for_None:
  "wanted_for ws j = None \<longleftrightarrow> job_Source j \<noteq> SourceLidarr \<or> (\<forall>r \<in> set ws. job_Album j \<noteq> Some (wr_ID r))"
  by (auto simp: wanted_for_def find_None_iff)

lemma sync_job_identity:
  "job_ID (sync_job ws cutoff now j) = job_ID j" "job_Album (sync_job ws cutoff now j) = job_Album j"
  "job_Source (sync_job ws cutoff now j) = job_Source j"
  by (simp_all add: sync_job_def Let_def clean_slate_def with_state_def)

lemma sync_job_manual: "job_Source j = SourceManual \<Longrightarrow> sync_job ws cutoff now j = j"
  by (simp add: sync_job_def wanted_for_def not_wanted_def revivable_def)

lemma sync_job_wanted:
  assumes "job_Source j = SourceLidarr" and "job_Album j = Some a" and "a \<in> wr_ID ` set ws"
  shows "job_State (sync_job ws cutoff now j) \<noteq> Cancelled"
    and "job_State j = Wanted \<or> job_State j = Cancelled \<Longrightarrow> job_State (sync_job ws cutoff now j) = Wanted"
    and "job_State j \<notin> {Wanted, Cancelled, Failed} \<Longrightarrow> job_State (sync_job ws cutoff now j) = job_State j"
proof -
  have w: "wanted_for ws j \<noteq> None" using assms unfolding wanted_for_None by auto
  show "job_State (sync_job ws cutoff now j) \<noteq> Cancelled"
    "job_State j = Wanted \<or> job_State j = Cancelled \<Longrightarrow> job_State (sync_job ws cutoff now j) = Wanted"
    "job_State j \<notin> {Wanted, Cancelled, Failed} \<Longrightarrow> job_State (sync_job ws cutoff now j) = job_State j"
    using w assms by (auto simp: sync_job_def Let_def not_wanted_def revivable_def)
qed

lemma sync_job_unwanted:
  assumes "job_Source j = SourceLidarr" and "job_Album j = Some a" and "a \<notin> wr_ID ` set ws"
  shows "sync_job ws cutoff now j
    = (if job_State j \<in> {Done, Cancelled, Failed} then j else with_state Cancelled now j)"
proof -
  have "wanted_for ws j = None"
    using assms unfolding wanted_for_None by auto
  with assms show ?thesis
    by (auto simp: sync_job_def Let_def not_wanted_def revivable_def)
qed

text \<open>The inserts: nothing else changes, and every id has a job afterwards.\<close>

lemma insert_wanted_jobs:
  "jobs (insert_wanted now r s) = jobs s @
     (if row_count (for_album (wr_ID r)) (jobs s) = 0 then [wanted_job r now (next_id s)] else [])"
  by (simp add: insert_wanted_def)

lemma insert_all_jobs:
  "\<exists>new. jobs (fold (insert_wanted now) ws s) = jobs s @ new
     \<and> (\<forall>j \<in> set new. job_State j = Wanted \<and> job_Source j = SourceLidarr)"
proof (induction ws arbitrary: s)
  case Nil
  then show ?case by simp
next
  case (Cons r ws)
  from Cons.IH [of "insert_wanted now r s"] obtain new where
    "jobs (fold (insert_wanted now) ws (insert_wanted now r s)) = jobs (insert_wanted now r s) @ new"
    "\<forall>j \<in> set new. job_State j = Wanted \<and> job_Source j = SourceLidarr"
    by blast
  then show ?case
    by (auto simp: insert_wanted_jobs wanted_job_def split: if_splits)
qed

lemma insert_all_present:
  "r \<in> set ws \<Longrightarrow> \<exists>j \<in> set (jobs (fold (insert_wanted now) ws s)). for_album (wr_ID r) j"
proof (induction ws arbitrary: s)
  case Nil
  then show ?case by simp
next
  case (Cons x ws)
  show ?case
  proof (cases "r = x")
    case True
    have "\<exists>j \<in> set (jobs (insert_wanted now x s)). for_album (wr_ID x) j"
      by (cases "row_count (for_album (wr_ID x)) (jobs s) = 0")
        (auto simp: insert_wanted_jobs row_count_eq_0 for_album_def wanted_job_def)
    moreover obtain new where "jobs (fold (insert_wanted now) ws (insert_wanted now x s))
        = jobs (insert_wanted now x s) @ new"
      using insert_all_jobs by blast
    ultimately show ?thesis using True by auto
  next
    case False
    with Cons show ?thesis by simp
  qed
qed

text \<open>
  After a reconciliation: the Lidarr jobs that may still run are those of the snapshot, each release
  of the snapshot has a job that is not cancelled, and manual jobs are as they were.
\<close>

lemma sync_outcome:
  assumes "releases \<noteq> []" and "j \<in> set (jobs (fst (SyncWantedJobs releases cutoff now s)))"
    and "job_Source j = SourceLidarr" and "job_Album j = Some a"
  shows "if a \<in> wr_ID ` set releases then job_State j \<noteq> Cancelled else job_State j \<in> {Done, Cancelled, Failed}"
proof -
  define ws where "ws = dedupe releases"
  have ws: "ws \<noteq> []" "wr_ID ` set ws = wr_ID ` set releases"
    using assms(1) dedupe_Nil [of releases] dedupe_ids(2) [of releases] by (simp_all add: ws_def)
  from assms(2) obtain k where k: "k \<in> set (jobs (fold (insert_wanted now) ws s))"
    "j = sync_job ws cutoff now k"
    unfolding sync_jobs [OF ws_def [symmetric] ws(1)] by auto
  with assms(3,4) have id: "job_Source k = SourceLidarr" "job_Album k = Some a"
    by (simp_all add: sync_job_identity)
  show ?thesis
    using sync_job_wanted(1) [OF id] sync_job_unwanted [OF id] ws(2) k(2)
    by (auto simp: with_state_def)
qed

lemma sync_present:
  assumes "r \<in> set releases"
  shows "\<exists>j \<in> set (jobs (fst (SyncWantedJobs releases cutoff now s))). for_album (wr_ID r) j"
proof -
  define ws where "ws = dedupe releases"
  have "releases \<noteq> []" using assms by auto
  then have ws: "ws \<noteq> []" using dedupe_Nil [of releases] by (simp add: ws_def)
  have "wr_ID r \<in> wr_ID ` set ws"
    using assms dedupe_ids(2) [of releases] by (simp add: ws_def)
  then obtain r' where "r' \<in> set ws" "wr_ID r' = wr_ID r" by auto
  with insert_all_present [of r' ws] obtain j where
    "j \<in> set (jobs (fold (insert_wanted now) ws s))" "for_album (wr_ID r) j" by metis
  then show ?thesis
    unfolding sync_jobs [OF ws_def [symmetric] ws]
    by (auto simp: for_album_def sync_job_identity intro!: bexI [of _ j])
qed

lemma sync_manual:
  assumes "j \<in> set (jobs s)" and "job_Source j = SourceManual"
  shows "j \<in> set (jobs (fst (SyncWantedJobs releases cutoff now s)))"
proof (cases "releases = []")
  case True
  with assms show ?thesis by (simp add: SyncWantedJobs_def dedupe_def)
next
  case False
  define ws where "ws = dedupe releases"
  have ws: "ws \<noteq> []" using False dedupe_Nil [of releases] by (simp add: ws_def)
  obtain new where "jobs (fold (insert_wanted now) ws s) = jobs s @ new"
    using insert_all_jobs by blast
  with assms have "j \<in> set (jobs (fold (insert_wanted now) ws s))" by simp
  moreover have "sync_job ws cutoff now j = j" using assms(2) by (rule sync_job_manual)
  ultimately show ?thesis
    unfolding sync_jobs [OF ws_def [symmetric] ws] by force
qed

text \<open>A start over keeps the candidates of the jobs it does not move.\<close>

lemma start_over_keeps:
  assumes "base_ok s" and "j \<in> set (jobs s)" and "\<not> p j"
  shows "filter (\<lambda>c. cand_Job c = job_ID j) (candidates (start_over p now s))
      = filter (\<lambda>c. cand_Job c = job_ID j) (candidates s)"
proof -
  have "job_ID j \<notin> set (returned_ids p s)"
    using returned_iff [OF assms(1,2)] assms(3) by simp
  then show ?thesis
    by (auto simp: start_over_def Let_def row_delete_def intro!: filter_cong)
qed

lemma insert_all_keeps:
  "candidates (fold (insert_wanted now) ws s) = candidates s"
  by (induction ws arbitrary: s) (simp_all add: insert_wanted_def)

lemma sync_manual_candidates:
  assumes wf: "wf_db s" and j: "j \<in> set (jobs s)" and manual: "job_Source j = SourceManual"
  shows "filter (\<lambda>c. cand_Job c = job_ID j) (candidates (fst (SyncWantedJobs releases cutoff now s)))
    = filter (\<lambda>c. cand_Job c = job_ID j) (candidates s)"
proof (cases "releases = []")
  case True
  then show ?thesis by (simp add: SyncWantedJobs_def dedupe_def)
next
  case False
  define ws where "ws = dedupe releases"
  define p2 where "p2 = (\<lambda>j. wanted_for ws j \<noteq> None \<and> job_State j = Cancelled)"
  define s1 where "s1 = fold (insert_wanted now) ws s"
  define s2 where "s2 = start_over p2 now s1"
  define s5 where "s5 = update_jobs (not_wanted (map wr_ID ws)) (with_state Cancelled now)
     (update_jobs (\<lambda>j. wanted_for ws j \<noteq> None \<and> job_State j \<noteq> Wanted \<and> metadata_missing j) (from_wanted ws)
       (update_jobs (\<lambda>j. wanted_for ws j \<noteq> None \<and> job_State j = Wanted)
         (\<lambda>j. (from_wanted ws j)\<lparr>job_Updated := now\<rparr>) s2))"
  have ws: "ws \<noteq> []" using False dedupe_Nil [of releases] by (simp add: ws_def)
  have final: "fst (SyncWantedJobs releases cutoff now s) = start_over (revivable (map wr_ID ws) cutoff) now s5"
    using ws by (simp add: SyncWantedJobs_def Let_def s5_def s2_def s1_def p2_def flip: ws_def)
  have out: "\<not> p2 j" "\<not> revivable ids cutoff j" "wanted_for ws j = None" "\<not> not_wanted ids j" for ids
    using manual by (simp_all add: p2_def wanted_for_def revivable_def not_wanted_def)
  have keeps: "keeps_identity (\<lambda>j. (from_wanted ws j)\<lparr>job_Updated := now\<rparr>)"
    by (simp add: keeps_identity_def)
  have wf1: "wf_db s1" unfolding s1_def by (rule wf_insert_all [OF wf])
  have wf2: "wf_db s2" unfolding s2_def by (rule wf_start_over_all [OF wf1])
  have wf5: "wf_db s5"
    unfolding s5_def using wf2 keeps
    by (intro wf_cancel_not_wanted wf_update_jobs_same_state) simp_all
  obtain new where "jobs s1 = jobs s @ new" unfolding s1_def using insert_all_jobs by blast
  with j have j1: "j \<in> set (jobs s1)" by simp
  then have j2: "j \<in> set (jobs s2)"
    using out by (force simp: s2_def jobs_start_over row_update_def)
  then have j5: "j \<in> set (jobs s5)"
    using out by (force simp: s5_def row_update_def)
  have "filter (\<lambda>c. cand_Job c = job_ID j) (candidates s5) = filter (\<lambda>c. cand_Job c = job_ID j) (candidates s1)"
    using start_over_keeps [of s1 j p2 now] j1 out(1) wf1 by (simp add: s5_def s2_def wf_db_def)
  then show ?thesis
    using start_over_keeps [of s5 j "revivable (map wr_ID ws) cutoff" now] j5 out(2) wf5 by (simp add: final wf_db_def s1_def insert_all_keeps)
qed

section \<open>The shipped cooldown\<close>

definition shipped_cooldown :: cooldown_policy where
  "shipped_cooldown = \<lparr>pol_Base = word_of_int candidateCooldownBase, pol_Cap = word_of_int candidateCooldownCap\<rparr>"

lemma shipped_cooldownFor:
  assumes "n \<ge> 1"
  shows "sint (cooldownFor (int n) (pol_Base shipped_cooldown) (pol_Cap shipped_cooldown))
    = min candidateCooldownCap (candidateCooldownBase * 2 ^ min (n - 1) 32)"
proof -
  have "cooldownFor (int n) b c = ladder b c (min (n - 1) 32)" for b c
    using assms by (auto simp: cooldownFor_def Let_def maxExponent_def min_def nat_diff_distrib)
  then show ?thesis using default_ladders(2) [of "min (n - 1) 32"] by (simp add: shipped_cooldown_def)
qed

section \<open>Starting over\<close>

lemma retry_failed_clears:
  assumes "RetryFailedJob i now s = (s', True)"
  shows "\<not> (\<exists>r \<in> set (rejections s'). rej_Job r = i)" "\<not> (\<exists>c \<in> set (candidates s'). cand_Job c = i)"
  using assms by (auto simp: RetryFailedJob_def Let_def table_simps split: if_splits)

lemma force_search_keeps:
  assumes "ForceSearchJob i now s = (s', True)"
  shows "filter (\<lambda>r. rej_Job r = i) (rejections s')
      = filter (\<lambda>r. rej_Job r = i \<and> rej_RetryAfter r = None) (rejections s)"
    and "\<not> (\<exists>c \<in> set (candidates s'). cand_Job c = i)"
proof -
  from assms have s': "s' = delete_rejections (\<lambda>r. rej_Job r = i \<and> rej_RetryAfter r \<noteq> None)
      (drop_candidates (\<lambda>k. k = i) (update_jobs (\<lambda>j. job_is i j \<and> job_State j \<notin> {Downloading, Importing})
        (clean_slate Wanted now) s))"
    by (simp add: ForceSearchJob_def Let_def split: if_splits)
  show "filter (\<lambda>r. rej_Job r = i) (rejections s')
      = filter (\<lambda>r. rej_Job r = i \<and> rej_RetryAfter r = None) (rejections s)"
    unfolding s' delete_rejections_select drop_candidates_select update_jobs_select row_delete_def
      filter_filter
    by (intro filter_cong) auto
  show "\<not> (\<exists>c \<in> set (candidates s'). cand_Job c = i)"
    unfolding s' by (simp add: table_simps)
qed

end
