(* ===== verification/StoreUsers.thy ===== *)
theory StoreUsers
  imports StoreJobs
begin

text \<open>
  Accounts and browser sessions, \<open>internal/store/users.go\<close>. The tables are independent of the
  pipeline's. PostgreSQL runs each statement at \<open>READ COMMITTED\<close>: its \<open>WHERE\<close> clause is evaluated on
  the snapshot of its start and its rows are added to the table of its end, where the unique index is
  checked. \<open>CreateFirstUser\<close> is therefore given both tables.
\<close>

section \<open>Tables\<close>

record user =
  user_ID :: nat
  user_Username :: string
  user_PasswordHash :: string
  user_CreatedAt :: ts

record session =
  ses_TokenHash :: "u8 list"
  ses_User :: nat
  ses_Expires :: ts

record accounts =
  users :: "user list"
  sessions :: "session list"
  next_user :: nat

datatype user_error = ErrUserNotFound | ErrUsernameTaken | ErrSetupClosed | ErrSessionConflict

section \<open>Operations\<close>

definition CountUsers :: "accounts \<Rightarrow> nat" where
  "CountUsers a = length (users a)"

definition insert_user :: "string \<Rightarrow> string \<Rightarrow> ts \<Rightarrow> accounts \<Rightarrow> user_error + accounts" where
  "insert_user username hash now a =
     (if row_count (\<lambda>u. user_Username u = username) (users a) \<noteq> 0 then Inl ErrUsernameTaken
      else Inr (a\<lparr>users := users a @ [\<lparr>user_ID = next_user a, user_Username = username,
                  user_PasswordHash = hash, user_CreatedAt = now\<rparr>],
                next_user := Suc (next_user a)\<rparr>))"

definition CreateUser :: "string \<Rightarrow> string \<Rightarrow> ts \<Rightarrow> accounts \<Rightarrow> user_error + accounts" where
  "CreateUser = insert_user"

definition first_user_on :: "accounts \<Rightarrow> string \<Rightarrow> string \<Rightarrow> ts \<Rightarrow> accounts \<Rightarrow> user_error + accounts" where
  "first_user_on snapshot username hash now a =
     (if users snapshot \<noteq> [] then Inl ErrSetupClosed else insert_user username hash now a)"

text \<open>A call that no other call overlaps.\<close>

definition CreateFirstUser :: "string \<Rightarrow> string \<Rightarrow> ts \<Rightarrow> accounts \<Rightarrow> user_error + accounts" where
  "CreateFirstUser username hash now a = first_user_on a username hash now a"

definition UserByName :: "string \<Rightarrow> accounts \<Rightarrow> user_error + user" where
  "UserByName username a =
     (case find (\<lambda>u. user_Username u = username) (users a) of
        None \<Rightarrow> Inl ErrUserNotFound | Some u \<Rightarrow> Inr u)"

definition CreateSession :: "u8 list \<Rightarrow> nat \<Rightarrow> ts \<Rightarrow> accounts \<Rightarrow> user_error + accounts" where
  "CreateSession tokenHash userID expiresAt a =
     (if row_count (\<lambda>x. ses_TokenHash x = tokenHash) (sessions a) \<noteq> 0
        \<or> row_count (\<lambda>u. user_ID u = userID) (users a) = 0 then Inl ErrSessionConflict
      else Inr (a\<lparr>sessions := sessions a @
             [\<lparr>ses_TokenHash = tokenHash, ses_User = userID, ses_Expires = expiresAt\<rparr>]\<rparr>))"

definition SessionUser :: "u8 list \<Rightarrow> ts \<Rightarrow> accounts \<Rightarrow> user_error + user" where
  "SessionUser tokenHash now a =
     (case find (\<lambda>x. ses_TokenHash x = tokenHash \<and> ses_Expires x > now) (sessions a) of
        None \<Rightarrow> Inl ErrUserNotFound
      | Some x \<Rightarrow>
          (case find (\<lambda>u. user_ID u = ses_User x) (users a) of
             None \<Rightarrow> Inl ErrUserNotFound | Some u \<Rightarrow> Inr u))"

definition DeleteSession :: "u8 list \<Rightarrow> accounts \<Rightarrow> accounts" where
  "DeleteSession tokenHash a =
     a\<lparr>sessions := row_delete (\<lambda>x. ses_TokenHash x = tokenHash) (sessions a)\<rparr>"

definition DeleteExpiredSessions :: "ts \<Rightarrow> accounts \<Rightarrow> accounts \<times> nat" where
  "DeleteExpiredSessions now a =
     (a\<lparr>sessions := row_delete (\<lambda>x. ses_Expires x \<le> now) (sessions a)\<rparr>,
      row_count (\<lambda>x. ses_Expires x \<le> now) (sessions a))"

section \<open>Sessions\<close>

definition accounts_ok :: "accounts \<Rightarrow> bool" where
  "accounts_ok a \<longleftrightarrow>
     distinct (map user_ID (users a)) \<and> distinct (map user_Username (users a))
     \<and> distinct (map ses_TokenHash (sessions a))
     \<and> (\<forall>x \<in> set (sessions a). ses_User x \<in> user_ID ` set (users a))
     \<and> (\<forall>u \<in> set (users a). user_ID u < next_user a)"

lemma accounts_CreateUser: "\<lbrakk>accounts_ok a; CreateUser n h now a = Inr b\<rbrakk> \<Longrightarrow> accounts_ok b"
  by (fastforce simp: accounts_ok_def CreateUser_def insert_user_def row_count_eq_0 less_Suc_eq
      split: if_splits)

lemma accounts_CreateSession: "\<lbrakk>accounts_ok a; CreateSession h u e a = Inr b\<rbrakk> \<Longrightarrow> accounts_ok b"
  by (auto simp: accounts_ok_def CreateSession_def row_count_eq_0 split: if_splits)

lemma accounts_deletes:
  "accounts_ok a \<Longrightarrow> accounts_ok (DeleteSession h a)"
  "accounts_ok a \<Longrightarrow> accounts_ok (fst (DeleteExpiredSessions now a))"
  by (auto simp: accounts_ok_def DeleteSession_def DeleteExpiredSessions_def row_delete_def distinct_map_filter)

lemma find_session:
  assumes "accounts_ok a" and "x \<in> set (sessions a)"
  shows "find (\<lambda>y. ses_TokenHash y = ses_TokenHash x \<and> ses_Expires y > now) (sessions a)
    = (if ses_Expires x > now then Some x else None)"
proof (cases "ses_Expires x > now")
  case True
  have "inj_on ses_TokenHash (set (sessions a))"
    using assms(1) by (simp add: accounts_ok_def distinct_map)
  then have "find (\<lambda>y. ses_TokenHash y = ses_TokenHash x \<and> ses_Expires y > now) (sessions a) = Some x"
    using assms(2) True by (intro find_unique) (auto simp: inj_on_def)
  with True show ?thesis by simp
next
  case False
  have "inj_on ses_TokenHash (set (sessions a))"
    using assms(1) by (simp add: accounts_ok_def distinct_map)
  with False assms(2) show ?thesis by (auto simp: find_None_iff inj_on_def)
qed

lemma session_resolves:
  assumes ok: "accounts_ok a" and x: "x \<in> set (sessions a)"
  shows "(\<exists>u. SessionUser (ses_TokenHash x) now a = Inr u \<and> user_ID u = ses_User x) \<longleftrightarrow> ses_Expires x > now"
proof -
  obtain u where u: "u \<in> set (users a)" "user_ID u = ses_User x"
    using ok x by (auto simp: accounts_ok_def)
  have "find (\<lambda>v. user_ID v = ses_User x) (users a) = Some u"
    using ok u by (intro find_unique) (auto simp: accounts_ok_def distinct_map inj_on_def)
  then show ?thesis
    using u by (simp add: SessionUser_def find_session [OF ok x])
qed

text \<open>The periodic cleanup is invisible to lookups from then on.\<close>

lemma find_row_delete:
  "(\<And>x. P x \<Longrightarrow> \<not> q x) \<Longrightarrow> find P (row_delete q xs) = find P xs"
  by (induction xs) (auto simp: row_delete_def)

lemma cleanup_invisible:
  "now \<le> now' \<Longrightarrow> SessionUser h now' (fst (DeleteExpiredSessions now a)) = SessionUser h now' a"
  using find_row_delete [of "\<lambda>x. ses_TokenHash x = h \<and> ses_Expires x > now'"
      "\<lambda>x. ses_Expires x \<le> now" "sessions a"]
  by (simp add: SessionUser_def DeleteExpiredSessions_def cong: option.case_cong)

lemma logout_final: "SessionUser h now (DeleteSession h a) = Inl ErrUserNotFound"
proof -
  have "find (\<lambda>x. ses_TokenHash x = h \<and> ses_Expires x > now)
      (row_delete (\<lambda>x. ses_TokenHash x = h) (sessions a)) = None"
    by (simp add: find_None_iff row_delete_def)
  then show ?thesis by (simp add: SessionUser_def DeleteSession_def)
qed

section \<open>The setup race\<close>

text \<open>
  Without overlap the first account closes the setup. Two calls that overlap, each on the empty
  snapshot, both succeed when their names differ: the only conflict is that of the index on names.
\<close>

lemma setup_closes:
  "CreateFirstUser n h now a = Inr b \<Longrightarrow> CreateFirstUser m g now' b = Inl ErrSetupClosed"
  by (auto simp: CreateFirstUser_def first_user_on_def insert_user_def split: if_splits)

lemma setup_race:
  assumes "users a = []" and "first_user_on a n h now a = Inr b" and "m \<noteq> n"
  shows "\<exists>c. first_user_on a m g now' b = Inr c \<and> CountUsers c = 2"
  using assms by (auto simp: first_user_on_def insert_user_def CountUsers_def row_count_def)

end
