(* ===== verification/StoreHistory.thy ===== *)
theory StoreHistory
  imports StoreJobs
begin

text \<open>
  The history tables of \<open>internal/store\<close>: uploads (\<open>uploads.go\<close>), private messages (\<open>messages.go\<close>),
  throughput minutes (\<open>throughput.go\<close>), search passes (\<open>passes.go\<close>) and peer reliability
  (\<open>reliability.go\<close>). Each is a table of its own.
\<close>

section \<open>Keyset pagination\<close>

text \<open>
  Uploads and threads are read newest first in pages that continue below the last id seen. A reader
  that follows the pages gets every row once.
\<close>

definition newest_first :: "('r \<Rightarrow> nat) \<Rightarrow> 'r list \<Rightarrow> 'r list" where
  "newest_first rid rows = order_by (\<lambda>x y. rid x > rid y) rows"

definition keyset_page :: "('r \<Rightarrow> nat) \<Rightarrow> 'r list \<Rightarrow> nat \<Rightarrow> nat \<Rightarrow> 'r list" where
  "keyset_page rid rows limit beforeID =
     take limit (newest_first rid (if beforeID > 0 then filter (\<lambda>r. rid r < beforeID) rows else rows))"

fun follow_pages :: "(nat \<Rightarrow> 'r list) \<Rightarrow> ('r \<Rightarrow> nat) \<Rightarrow> nat \<Rightarrow> nat \<Rightarrow> 'r list" where
  "follow_pages page rid 0 before = []"
| "follow_pages page rid (Suc fuel) before =
     (let p = page before in if p = [] then [] else p @ follow_pages page rid fuel (rid (last p)))"

definition descending :: "('r \<Rightarrow> nat) \<Rightarrow> 'r list \<Rightarrow> bool" where
  "descending k = sorted_wrt (\<lambda>x y. k x > k y)"

lemma descending_unique:
  "\<lbrakk>descending k xs; descending k ys; set xs = set ys\<rbrakk> \<Longrightarrow> xs = ys"
proof (induction xs arbitrary: ys)
  case Nil
  then show ?case by simp
next
  case (Cons x xs)
  then obtain y ys' where ys: "ys = y # ys'" by (cases ys) auto
  have below: "\<forall>z \<in> set xs. k z < k x" "\<forall>z \<in> set ys'. k z < k y"
    using Cons.prems ys by (simp_all add: descending_def)
  have "x = y"
  proof (rule ccontr)
    assume "x \<noteq> y"
    with Cons.prems(3) ys have "x \<in> set ys'" "y \<in> set xs" by auto
    with below have "k x < k y" "k y < k x" by auto
    then show False by simp
  qed
  moreover from this below Cons.prems(3) ys have "set xs = set ys'"
    by (metis insert_ident less_irrefl list.simps(15))
  ultimately show ?case using Cons ys by (simp add: descending_def)
qed

lemma newest_first_set [simp]: "set (newest_first k xs) = set xs"
  by (simp add: newest_first_def)

lemma newest_first_descending:
  assumes "distinct (map k xs)"
  shows "descending k (newest_first k xs)"
  using assms
proof (induction xs)
  case Nil
  then show ?case by (simp add: newest_first_def order_by_def descending_def)
next
  case (Cons x xs)
  have "descending k (insert_before (\<lambda>x y. k x > k y) x ys)"
    if "descending k ys" "k x \<notin> k ` set ys" for ys
    using that by (induction ys) (auto simp: descending_def)
  with Cons show ?case by (simp add: newest_first_def order_by_def)
      (metis newest_first_def newest_first_set order_by_def)
qed

lemma newest_first_filter:
  assumes "distinct (map k xs)"
  shows "newest_first k (filter P xs) = filter P (newest_first k xs)"
proof (rule descending_unique [where k = k])
  show "descending k (newest_first k (filter P xs))"
    using assms by (intro newest_first_descending) (rule distinct_map_filter)
  show "descending k (filter P (newest_first k xs))"
    using newest_first_descending [OF assms] by (simp add: descending_def sorted_wrt_filter)
qed simp

lemma filter_below_last:
  assumes "descending k (p @ q)" and "p \<noteq> []"
  shows "filter (\<lambda>x. k x < k (last p)) (p @ q) = q"
proof -
  obtain p' l where p: "p = p' @ [l]" using assms(2) by (cases p rule: rev_cases) auto
  with assms(1) have "\<forall>x \<in> set p. \<not> k x < k l" "\<forall>x \<in> set q. k x < k l"
    by (auto simp: descending_def sorted_wrt_append)
  then show ?thesis by (simp add: p filter_empty_conv)
qed

lemma follow_pages_all:
  assumes page: "\<And>b. page b = take limit (if b > 0 then filter (\<lambda>x. k x < b) rows else rows)"
    and desc: "descending k rows" and limit: "limit > 0" and ids: "\<forall>x \<in> set rows. k x > 0"
  shows "length (if b > 0 then filter (\<lambda>x. k x < b) rows else rows) < fuel \<Longrightarrow>
    follow_pages page k fuel b = (if b > 0 then filter (\<lambda>x. k x < b) rows else rows)"
proof (induction fuel arbitrary: b)
  case 0
  then show ?case by simp
next
  case (Suc fuel)
  let ?M = "if b > 0 then filter (\<lambda>x. k x < b) rows else rows"
  let ?p = "take limit ?M"
  show ?case
  proof (cases "?p = []")
    case True
    with limit have "?M = []" by simp
    with True show ?thesis by (simp add: page)
  next
    case False
    let ?l = "k (last ?p)"
    have last: "last ?p \<in> set ?M" using False by (meson in_set_takeD last_in_set)
    then have l: "?l > 0" "b > 0 \<longrightarrow> ?l < b" using ids by (auto split: if_splits)
    have "descending k ?M" using desc by (simp add: descending_def sorted_wrt_filter)
    then have "filter (\<lambda>x. k x < ?l) ?M = drop limit ?M"
      using filter_below_last [of k ?p "drop limit ?M"] False by simp
    moreover have "filter (\<lambda>x. k x < ?l) ?M = filter (\<lambda>x. k x < ?l) rows"
      using l(2) by (auto intro!: filter_cong)
    ultimately have rest: "filter (\<lambda>x. k x < ?l) rows = drop limit ?M" by simp
    have "length (drop limit ?M) < fuel"
      using Suc.prems limit False by (simp only: length_drop) (cases ?M, simp_all)
    then have "follow_pages page k fuel ?l = drop limit ?M"
      using Suc.IH [of ?l] l(1) rest by simp
    moreover have "page b = ?p" by (rule page)
    ultimately have "follow_pages page k (Suc fuel) b = ?p @ drop limit ?M"
      using False by (simp only: follow_pages.simps Let_def if_False)
    then show ?thesis by (simp only: append_take_drop_id)
  qed
qed

text \<open>The interface: a table, and a read that returns one page of it.\<close>

locale paged_history =
  fixes rid :: "'r \<Rightarrow> nat"
    and rows :: "'t \<Rightarrow> 'r list"
    and page :: "'t \<Rightarrow> nat \<Rightarrow> nat \<Rightarrow> 'r list"
  assumes page_is: "page t limit b = keyset_page rid (rows t) limit b"
begin

lemma pages_complete:
  assumes "distinct (map rid (rows t))" and "\<forall>r \<in> set (rows t). rid r > 0" and "limit > 0"
    and "length (rows t) < fuel"
  shows "follow_pages (page t limit) rid fuel 0 = newest_first rid (rows t)"
  using follow_pages_all [of "page t limit" limit rid "newest_first rid (rows t)" 0 fuel] assms
    newest_first_descending [OF assms(1)] newest_first_filter [OF assms(1)]
  by (simp add: page_is keyset_page_def newest_first_def)

lemma page_bounded: "length (page t limit b) \<le> limit"
  by (simp add: page_is keyset_page_def)

end

section \<open>Uploads\<close>

datatype upload_status = UploadCompleted | UploadFailed | UploadCancelled

record upload_entry =
  up_ID :: nat
  up_Username :: string
  up_Filename :: string
  up_Size :: u64
  up_BytesSent :: u64
  up_AvgBytesPerSecond :: u64
  up_Status :: upload_status
  up_Detail :: string
  up_StartedAt :: ts
  up_FinishedAt :: ts

record upload_table =
  up_rows :: "upload_entry list"
  up_next :: nat

definition uploadHistoryRetention :: int where
  "uploadHistoryRetention = 30 * 24 * 3600000000000"

definition RecordUpload :: "upload_entry \<Rightarrow> upload_table \<Rightarrow> upload_table" where
  "RecordUpload e t = t\<lparr>up_rows := up_rows t @ [e\<lparr>up_ID := up_next t\<rparr>], up_next := Suc (up_next t)\<rparr>"

definition UploadHistory :: "upload_table \<Rightarrow> nat \<Rightarrow> nat \<Rightarrow> upload_entry list" where
  "UploadHistory t limit beforeID =
     take limit (newest_first up_ID
       (filter (\<lambda>e. if beforeID > 0 then up_ID e < beforeID else True) (up_rows t)))"

definition UploadHistoryMaxID :: "upload_table \<Rightarrow> nat" where
  "UploadHistoryMaxID t = fold max (map up_ID (up_rows t)) 0"

definition PruneUploadHistory :: "ts \<Rightarrow> upload_table \<Rightarrow> upload_table" where
  "PruneUploadHistory now t =
     t\<lparr>up_rows := row_delete (\<lambda>e. up_FinishedAt e < now - uploadHistoryRetention) (up_rows t)\<rparr>"

definition uploads_ok :: "upload_table \<Rightarrow> bool" where
  "uploads_ok t \<longleftrightarrow> distinct (map up_ID (up_rows t)) \<and> (\<forall>e \<in> set (up_rows t). 0 < up_ID e \<and> up_ID e < up_next t)
     \<and> 0 < up_next t"

lemma uploads_ok_ops:
  "uploads_ok t \<Longrightarrow> uploads_ok (RecordUpload e t)"
  "uploads_ok t \<Longrightarrow> uploads_ok (PruneUploadHistory now t)"
  by (auto simp: uploads_ok_def RecordUpload_def PruneUploadHistory_def row_delete_def distinct_map_filter)

interpretation uploads: paged_history up_ID up_rows UploadHistory
proof
  show "UploadHistory t limit b = keyset_page up_ID (up_rows t) limit b" for t limit b
    by (simp add: UploadHistory_def keyset_page_def)
qed

section \<open>Private messages\<close>

datatype message_direction = MessageIncoming | MessageOutgoing

record private_message =
  pm_ID :: nat
  pm_Username :: string
  pm_Direction :: message_direction
  pm_Body :: string
  pm_ServerMessageID :: "int option"
  pm_Admin :: bool
  pm_SentAt :: ts
  pm_ReceivedAt :: ts
  pm_ReadAt :: "ts option"

record message_table =
  pm_rows :: "private_message list"
  pm_next :: nat

definition add_message :: "private_message \<Rightarrow> message_table \<Rightarrow> message_table" where
  "add_message m t = t\<lparr>pm_rows := pm_rows t @ [m\<lparr>pm_ID := pm_next t\<rparr>], pm_next := Suc (pm_next t)\<rparr>"

definition RecordIncomingMessage :: "private_message \<Rightarrow> message_table \<Rightarrow> message_table \<times> nat \<times> bool" where
  "RecordIncomingMessage m t =
     (if pm_ServerMessageID m \<noteq> None
        \<and> row_count (\<lambda>r. pm_ServerMessageID r = pm_ServerMessageID m) (pm_rows t) \<noteq> 0
      then (t, 0, False)
      else (add_message (m\<lparr>pm_Direction := MessageIncoming, pm_ReadAt := None\<rparr>) t, pm_next t, True))"

definition outgoing_message :: "nat \<Rightarrow> string \<Rightarrow> string \<Rightarrow> ts \<Rightarrow> private_message" where
  "outgoing_message i username body now =
     \<lparr>pm_ID = i, pm_Username = username, pm_Direction = MessageOutgoing, pm_Body = body,
      pm_ServerMessageID = None, pm_Admin = False, pm_SentAt = now, pm_ReceivedAt = now,
      pm_ReadAt = Some now\<rparr>"

definition RecordOutgoingMessage ::
  "string \<Rightarrow> string \<Rightarrow> ts \<Rightarrow> message_table \<Rightarrow> message_table \<times> private_message" where
  "RecordOutgoingMessage username body now t =
     (let m = outgoing_message (pm_next t) username body now in (add_message m t, m))"

definition unread :: "private_message \<Rightarrow> bool" where
  "unread m \<longleftrightarrow> pm_Direction m = MessageIncoming \<and> pm_ReadAt m = None"

record conversation =
  conv_Username :: string
  conv_LastMessage :: string
  conv_LastDirection :: message_direction
  conv_LastMessageAt :: ts
  conv_Unread :: nat
  conv_Total :: nat

definition maxConversations :: nat where
  "maxConversations = 500"

definition conversation_of :: "message_table \<Rightarrow> private_message \<Rightarrow> conversation" where
  "conversation_of t m =
     \<lparr>conv_Username = pm_Username m, conv_LastMessage = pm_Body m, conv_LastDirection = pm_Direction m,
      conv_LastMessageAt = pm_SentAt m,
      conv_Unread = row_count (\<lambda>r. pm_Username r = pm_Username m \<and> unread r) (pm_rows t),
      conv_Total = row_count (\<lambda>r. pm_Username r = pm_Username m) (pm_rows t)\<rparr>"

definition last_message :: "message_table \<Rightarrow> private_message \<Rightarrow> bool" where
  "last_message t m \<longleftrightarrow>
     list_all (\<lambda>r. pm_Username r = pm_Username m \<longrightarrow> pm_ID r \<le> pm_ID m) (pm_rows t)"

definition Conversations :: "message_table \<Rightarrow> conversation list" where
  "Conversations t =
     take maxConversations (map (conversation_of t)
       (newest_first pm_ID (filter (last_message t) (pm_rows t))))"

definition Thread :: "string \<times> message_table \<Rightarrow> nat \<Rightarrow> nat \<Rightarrow> private_message list" where
  "Thread q limit beforeID =
     (case q of (username, t) \<Rightarrow>
        take limit (newest_first pm_ID
          (filter (\<lambda>m. pm_Username m = username \<and> (beforeID > 0 \<longrightarrow> pm_ID m < beforeID)) (pm_rows t))))"

definition MarkConversationRead :: "string \<Rightarrow> ts \<Rightarrow> message_table \<Rightarrow> message_table \<times> nat" where
  "MarkConversationRead username now t =
     (t\<lparr>pm_rows := row_update (\<lambda>m. pm_Username m = username \<and> unread m)
          (\<lambda>m. m\<lparr>pm_ReadAt := Some now\<rparr>) (pm_rows t)\<rparr>,
      row_count (\<lambda>m. pm_Username m = username \<and> unread m) (pm_rows t))"

definition UnreadMessageCount :: "message_table \<Rightarrow> nat" where
  "UnreadMessageCount t = row_count unread (pm_rows t)"

definition messages_ok :: "message_table \<Rightarrow> bool" where
  "messages_ok t \<longleftrightarrow>
     distinct (map pm_ID (pm_rows t)) \<and> (\<forall>m \<in> set (pm_rows t). 0 < pm_ID m \<and> pm_ID m < pm_next t)
     \<and> 0 < pm_next t
     \<and> distinct (filter (\<lambda>i. i \<noteq> None) (map pm_ServerMessageID (pm_rows t)))
     \<and> (\<forall>m \<in> set (pm_rows t). pm_Direction m = MessageOutgoing \<longrightarrow> pm_ReadAt m \<noteq> None)"

interpretation thread: paged_history pm_ID
  "\<lambda>(username, t). filter (\<lambda>m. pm_Username m = username) (pm_rows t)" Thread
proof
  show "Thread q limit b = keyset_page pm_ID
      (case q of (username, t) \<Rightarrow> filter (\<lambda>m. pm_Username m = username) (pm_rows t)) limit b" for q limit b
    by (cases q; cases "b > 0") (simp_all add: Thread_def keyset_page_def conj_commute)
qed

lemma row_count_row_update:
  "row_count p (row_update q f xs) + row_count (\<lambda>x. q x \<and> p x) xs
     = row_count p xs + row_count (\<lambda>x. q x \<and> p (f x)) xs"
  by (induction xs) (auto simp: row_count_def row_update_def)

lemma messages_ok_ops:
  "messages_ok t \<Longrightarrow> messages_ok (fst (RecordIncomingMessage m t))"
  "messages_ok t \<Longrightarrow> messages_ok (fst (RecordOutgoingMessage u b now t))"
proof -
  assume ok: "messages_ok t"
  show "messages_ok (fst (RecordIncomingMessage m t))"
    using ok by (auto simp: messages_ok_def RecordIncomingMessage_def add_message_def row_count_eq_0)
  show "messages_ok (fst (RecordOutgoingMessage u b now t))"
    using ok by (auto simp: messages_ok_def RecordOutgoingMessage_def outgoing_message_def
        add_message_def Let_def)
qed

text \<open>A redelivered message is stored once.\<close>

lemma redelivery:
  assumes "pm_ServerMessageID m = Some i" and "pm_ServerMessageID m' = Some i"
  shows "RecordIncomingMessage m' (fst (RecordIncomingMessage m t)) = (fst (RecordIncomingMessage m t), 0, False)"
proof -
  have "row_count (\<lambda>r. pm_ServerMessageID r = Some i) (pm_rows (fst (RecordIncomingMessage m t))) \<noteq> 0"
    using assms(1) by (auto simp: RecordIncomingMessage_def add_message_def row_count_eq_0)
  then show ?thesis
    using assms(2) RecordIncomingMessage_def [of m' "fst (RecordIncomingMessage m t)"] by simp
qed

lemma mark_read_counts:
  "UnreadMessageCount (fst (MarkConversationRead u now t)) + snd (MarkConversationRead u now t)
     = UnreadMessageCount t"
proof -
  let ?q = "\<lambda>m. pm_Username m = u \<and> unread m"
  let ?f = "\<lambda>m. m\<lparr>pm_ReadAt := Some now\<rparr>"
  have "row_count (\<lambda>m. ?q m \<and> unread (?f m)) (pm_rows t) = 0"
    by (simp add: row_count_eq_0 unread_def)
  moreover have "row_count (\<lambda>m. ?q m \<and> unread m) (pm_rows t) = row_count ?q (pm_rows t)"
    by (simp add: conj_commute conj_left_commute)
  ultimately show ?thesis
    using row_count_row_update [of unread ?q ?f "pm_rows t"]
    by (simp add: UnreadMessageCount_def MarkConversationRead_def)
qed

section \<open>Throughput\<close>

record throughput_minute =
  tm_Minute :: ts
  tm_AvgBytesPerSecond :: int
  tm_MaxBytesPerSecond :: int
  tm_MaxActive :: int
  tm_Samples :: int

definition RecordThroughputMinute ::
  "throughput_minute \<Rightarrow> throughput_minute list \<Rightarrow> throughput_minute list" where
  "RecordThroughputMinute m rows =
     (if row_count (\<lambda>r. tm_Minute r = tm_Minute m) rows = 0 then rows @ [m]
      else row_update (\<lambda>r. tm_Minute r = tm_Minute m \<and> tm_Samples m > tm_Samples r) (\<lambda>r. m) rows)"

definition throughput_at :: "throughput_minute list \<Rightarrow> ts \<Rightarrow> throughput_minute option" where
  "throughput_at rows minute = find (\<lambda>r. tm_Minute r = minute) rows"

definition ThroughputMinutes :: "ts \<Rightarrow> throughput_minute list \<Rightarrow> throughput_minute list" where
  "ThroughputMinutes since rows =
     order_by (\<lambda>a b. tm_Minute a < tm_Minute b) (filter (\<lambda>r. tm_Minute r \<ge> since) rows)"

definition throughputRetention :: int where
  "throughputRetention = 30 * 24 * 3600000000000"

definition PruneThroughputMinutes :: "ts \<Rightarrow> throughput_minute list \<Rightarrow> throughput_minute list" where
  "PruneThroughputMinutes now rows = row_delete (\<lambda>r. tm_Minute r < now - throughputRetention) rows"

text \<open>The row with more samples, and the stored one when they have as many.\<close>

definition fuller :: "throughput_minute \<Rightarrow> throughput_minute option \<Rightarrow> throughput_minute option" where
  "fuller m old = (case old of None \<Rightarrow> Some m | Some r \<Rightarrow> Some (if tm_Samples m > tm_Samples r then m else r))"

lemma throughput_at_record:
  "throughput_at (RecordThroughputMinute m rows) minute
     = (if minute = tm_Minute m then fuller m (throughput_at rows minute) else throughput_at rows minute)"
proof -
  have new: "find P (rows @ [m]) = (case find P rows of None \<Rightarrow> if P m then Some m else None | Some r \<Rightarrow> Some r)"
    for P by (induction rows) auto
  have upd: "find (\<lambda>r. tm_Minute r = minute)
      (row_update (\<lambda>r. tm_Minute r = tm_Minute m \<and> tm_Samples m > tm_Samples r) (\<lambda>r. m) rows)
    = (case find (\<lambda>r. tm_Minute r = minute) rows of None \<Rightarrow> None
       | Some r \<Rightarrow> Some (if minute = tm_Minute m \<and> tm_Samples m > tm_Samples r then m else r))"
    by (induction rows) (auto simp: row_update_def)
  show ?thesis
  proof (cases "row_count (\<lambda>r. tm_Minute r = tm_Minute m) rows = 0")
    case True
    then have "find (\<lambda>r. tm_Minute r = tm_Minute m) rows = None"
      by (simp add: row_count_eq_0 find_None_iff)
    with True new show ?thesis
      by (simp add: RecordThroughputMinute_def throughput_at_def fuller_def split: option.split)
  next
    case False
    then have "find (\<lambda>r. tm_Minute r = tm_Minute m) rows \<noteq> None"
      by (auto simp: row_count_eq_0 find_None_iff)
    with False upd show ?thesis
      by (auto simp: RecordThroughputMinute_def throughput_at_def fuller_def split: option.split)
  qed
qed

lemma throughput_order:
  assumes "tm_Samples m \<noteq> tm_Samples n"
  shows "throughput_at (RecordThroughputMinute m (RecordThroughputMinute n rows)) minute
    = throughput_at (RecordThroughputMinute n (RecordThroughputMinute m rows)) minute"
  using assms by (auto simp: throughput_at_record fuller_def split: option.splits)

section \<open>Search passes\<close>

record search_pass =
  sp_ID :: nat
  sp_StartedAt :: ts
  sp_FinishedAt :: ts
  sp_Searched :: int
  sp_Matched :: int

definition RecordSearchPass :: "search_pass \<Rightarrow> nat \<times> search_pass list \<Rightarrow> nat \<times> search_pass list" where
  "RecordSearchPass p t = (Suc (fst t), snd t @ [p\<lparr>sp_ID := fst t\<rparr>])"

definition RecentSearchPasses :: "nat \<Rightarrow> nat \<times> search_pass list \<Rightarrow> search_pass list" where
  "RecentSearchPasses limit t =
     take limit (order_by (\<lambda>p q. sp_StartedAt p > sp_StartedAt q
        \<or> (sp_StartedAt p = sp_StartedAt q \<and> sp_ID p > sp_ID q)) (snd t))"

definition PruneSearchPasses :: "ts \<Rightarrow> nat \<times> search_pass list \<Rightarrow> nat \<times> search_pass list" where
  "PruneSearchPasses now t = (fst t, row_delete (\<lambda>p. sp_StartedAt p < now - 30 * 24 * 3600000000000) (snd t))"

section \<open>Peer reliability\<close>

record counters =
  rc_SuccessCount :: nat
  rc_FailCount :: nat
  rc_LastSuccessAt :: "ts option"
  rc_LastFailAt :: "ts option"

record peer_reliability =
  pr_Artist :: counters
  pr_Global :: counters

definition no_counters :: counters where
  "no_counters = \<lparr>rc_SuccessCount = 0, rc_FailCount = 0, rc_LastSuccessAt = None, rc_LastFailAt = None\<rparr>"

text \<open>\<open>known_users\<close> by name and \<open>artist_user_reliability\<close> by artist and name.\<close>

record reliability_tables =
  known_users :: "string \<Rightarrow> counters option"
  artist_users :: "int \<times> string \<Rightarrow> counters option"

definition bump :: "bool \<Rightarrow> ts \<Rightarrow> counters option \<Rightarrow> counters" where
  "bump success now old =
     (let c = (case old of None \<Rightarrow> no_counters | Some c \<Rightarrow> c)
      in if success then c\<lparr>rc_SuccessCount := Suc (rc_SuccessCount c), rc_LastSuccessAt := Some now\<rparr>
         else c\<lparr>rc_FailCount := Suc (rc_FailCount c), rc_LastFailAt := Some now\<rparr>)"

definition RecordAttemptOutcome ::
  "int \<Rightarrow> string \<Rightarrow> bool \<Rightarrow> ts \<Rightarrow> reliability_tables \<Rightarrow> reliability_tables" where
  "RecordAttemptOutcome artistID username success now t =
     (let t1 = t\<lparr>known_users := (known_users t)(username \<mapsto> bump success now (known_users t username))\<rparr>
      in if artistID \<le> 0 then t1
         else t1\<lparr>artist_users := (artist_users t1)((artistID, username)
                   \<mapsto> bump success now (artist_users t1 (artistID, username)))\<rparr>)"

text \<open>The returned map: a name without history is absent.\<close>

definition ReliabilityFor ::
  "int \<Rightarrow> string list \<Rightarrow> reliability_tables \<Rightarrow> string \<Rightarrow> peer_reliability option" where
  "ReliabilityFor artistID usernames t u =
     (if u \<notin> set usernames then None
      else (case (known_users t u, if artistID \<le> 0 then None else artist_users t (artistID, u)) of
              (None, None) \<Rightarrow> None
            | (g, a) \<Rightarrow> Some \<lparr>pr_Artist = (case a of None \<Rightarrow> no_counters | Some c \<Rightarrow> c),
                             pr_Global = (case g of None \<Rightarrow> no_counters | Some c \<Rightarrow> c)\<rparr>))"

record outcome =
  oc_Artist :: int
  oc_Username :: string
  oc_Success :: bool
  oc_At :: ts

definition record_all :: "outcome list \<Rightarrow> reliability_tables \<Rightarrow> reliability_tables" where
  "record_all ocs = fold (\<lambda>o'. RecordAttemptOutcome (oc_Artist o') (oc_Username o') (oc_Success o') (oc_At o')) ocs"

definition fresh_tables :: reliability_tables where
  "fresh_tables = \<lparr>known_users = Map.empty, artist_users = Map.empty\<rparr>"

definition counts_of :: "counters option \<Rightarrow> nat \<times> nat" where
  "counts_of c = (case c of None \<Rightarrow> (0, 0) | Some k \<Rightarrow> (rc_SuccessCount k, rc_FailCount k))"

lemma counts_bump:
  "counts_of (Some (bump True now c)) = (Suc (fst (counts_of c)), snd (counts_of c))"
  "counts_of (Some (bump False now c)) = (fst (counts_of c), Suc (snd (counts_of c)))"
  by (simp_all add: bump_def counts_of_def no_counters_def Let_def split: option.split)

text \<open>The tables count exactly the outcomes recorded.\<close>

lemma record_all_counts:
  "counts_of (known_users (record_all ocs t) u)
     = (fst (counts_of (known_users t u)) + row_count (\<lambda>o'. oc_Username o' = u \<and> oc_Success o') ocs,
        snd (counts_of (known_users t u)) + row_count (\<lambda>o'. oc_Username o' = u \<and> \<not> oc_Success o') ocs)"
  "a > 0 \<Longrightarrow> counts_of (artist_users (record_all ocs t) (a, u))
     = (fst (counts_of (artist_users t (a, u)))
          + row_count (\<lambda>o'. oc_Artist o' = a \<and> oc_Username o' = u \<and> oc_Success o') ocs,
        snd (counts_of (artist_users t (a, u)))
          + row_count (\<lambda>o'. oc_Artist o' = a \<and> oc_Username o' = u \<and> \<not> oc_Success o') ocs)"
proof (induction ocs arbitrary: t)
  case Nil
  {
    case 1
    show ?case by (simp add: record_all_def row_count_def)
  next
    case 2
    show ?case by (simp add: record_all_def row_count_def)
  }
next
  case (Cons x ocs)
  have step: "record_all (x # ocs) t
      = record_all ocs (RecordAttemptOutcome (oc_Artist x) (oc_Username x) (oc_Success x) (oc_At x) t)" for t
    by (simp add: record_all_def)
  {
    case 1
    show ?case
      unfolding step Cons.IH(1)
      by (cases "oc_Success x") (auto simp: RecordAttemptOutcome_def Let_def row_count_def counts_bump)
  next
    case 2
    show ?case
      unfolding step Cons.IH(2) [OF 2] using 2
      by (cases "oc_Success x") (auto simp: RecordAttemptOutcome_def Let_def row_count_def counts_bump)
  }
qed

end
