(* ===== verification/FailBackoff.thy ===== *)
theory FailBackoff
  imports Lifecycle
begin

text \<open>
  \<open>failOrBackoff\<close> of \<open>internal/pipeline/backoff.go\<close>, the one place where a failed search cycle becomes
  a delay or the end of the job. It is written against the interface \<open>BackoffStore\<close>, here a record
  of fallible operations; the laws it relies on are a locale, interpreted on the store.
\<close>

section \<open>The interface\<close>

record ('s, 'e) backoff_ops =
  op_SetJobBackoff :: "nat \<Rightarrow> int \<Rightarrow> ts \<Rightarrow> ts \<Rightarrow> 's \<Rightarrow> 'e + 's"
  op_MarkJobFailed :: "nat \<Rightarrow> ts \<Rightarrow> 's \<Rightarrow> 'e + 's"
  op_ResetJobToWanted :: "nat \<Rightarrow> job_state \<Rightarrow> int \<Rightarrow> ts option \<Rightarrow> ts \<Rightarrow> 's \<Rightarrow> 'e + 's"
  op_AddJobEvent :: "nat \<Rightarrow> job_event \<Rightarrow> string \<Rightarrow> ts \<Rightarrow> 's \<Rightarrow> 'e + 's"

section \<open>The detail of the event\<close>

definition jobFailedDetail :: "int \<Rightarrow> int \<Rightarrow> string \<Rightarrow> string" where
  "jobFailedDetail attempts maxRetries reason =
     (if maxRetries \<le> 0 \<and> reason \<noteq> [] then reason
      else (let noun = (if attempts = 1 then ''attempt'' else ''attempts'');
                detail = ''gave up after '' @ decimal_int attempts @ '' '' @ noun
            in if reason = [] then detail else detail @ '': '' @ reason))"

text \<open>Best effort: a failed write of the audit trail is dropped.\<close>

definition recordBackoffEvent ::
  "('s, 'e) backoff_ops \<Rightarrow> nat \<Rightarrow> job_event \<Rightarrow> string \<Rightarrow> ts \<Rightarrow> 's \<Rightarrow> 's" where
  "recordBackoffEvent st jobID event detail now s =
     (case op_AddJobEvent st jobID event detail now s of Inl err \<Rightarrow> s | Inr s' \<Rightarrow> s')"

section \<open>The decision\<close>

definition failOrBackoff ::
  "('s, 'e) backoff_ops \<Rightarrow> album_job \<Rightarrow> int \<Rightarrow> duration \<Rightarrow> duration \<Rightarrow> bool \<Rightarrow> string \<Rightarrow> ts \<Rightarrow> 's
     \<Rightarrow> 'e + 's \<times> bool" where
  "failOrBackoff st job maxRetries base maxBackoff resetToWanted reason now s =
     (let retries = job_Retries job + 1
      in if retries \<ge> maxRetries
         then rbind (op_MarkJobFailed st (job_ID job) now s)
           (\<lambda>s1. Inr (recordBackoffEvent st (job_ID job) EventJobFailed
                        (jobFailedDetail retries maxRetries reason) now s1, True))
         else (let notBefore = now + sint (nextBackoff retries base maxBackoff)
               in rbind (if resetToWanted
                         then op_ResetJobToWanted st (job_ID job) Selecting retries (Some notBefore) now s
                         else op_SetJobBackoff st (job_ID job) retries notBefore now s)
                    (\<lambda>s1. Inr (s1, False))))"

section \<open>What it relies on\<close>

text \<open>
  \<open>state_of\<close> reads a job's state, \<open>due\<close> its earliest next attempt. A failed job stays out of the
  queue; a delayed one is back in the queue no earlier than told.
\<close>

locale backoff_store =
  fixes st :: "('s, 'e) backoff_ops"
    and inv :: "'s \<Rightarrow> bool"
    and view :: "nat \<Rightarrow> 's \<Rightarrow> (job_state \<times> int \<times> ts option) option"
  assumes backoff_inv: "\<lbrakk>inv s; op_SetJobBackoff st i r nb now s = Inr s'\<rbrakk> \<Longrightarrow> inv s'"
    and failed_inv: "\<lbrakk>inv s; op_MarkJobFailed st i now s = Inr s'\<rbrakk> \<Longrightarrow> inv s'"
    and reset_inv: "\<lbrakk>inv s; op_ResetJobToWanted st i from r nbo now s = Inr s'\<rbrakk> \<Longrightarrow> inv s'"
    and event_inv: "\<lbrakk>inv s; op_AddJobEvent st i ev d now s = Inr s'\<rbrakk> \<Longrightarrow> inv s'"
    and backoff_view: "\<lbrakk>inv s; op_SetJobBackoff st i r nb now s = Inr s'; view i s = Some (x, q, o')\<rbrakk> \<Longrightarrow>
          view i s' = Some (x, r, Some nb)"
    and failed_view: "\<lbrakk>inv s; op_MarkJobFailed st i now s = Inr s'; view i s = Some (x, q, o')\<rbrakk> \<Longrightarrow>
          view i s' = (if x \<in> {Cancelled, Done, Failed} then Some (x, q, o') else Some (Failed, q, None))"
    and reset_view: "\<lbrakk>inv s; op_ResetJobToWanted st i from r nbo now s = Inr s'; view i s = Some (x, q, o')\<rbrakk> \<Longrightarrow>
          view i s' = (if x = from then Some (Wanted, r, nbo) else Some (x, q, o'))"
    and event_view: "op_AddJobEvent st i ev d now s = Inr s' \<Longrightarrow> view k s' = view k s"
begin

lemma record_event_view: "view k (recordBackoffEvent st i ev d now s) = view k s"
  by (auto simp: recordBackoffEvent_def event_view split: sum.split)

lemma record_event_inv: "inv s \<Longrightarrow> inv (recordBackoffEvent st i ev d now s)"
  by (auto simp: recordBackoffEvent_def event_inv split: sum.split)

lemma failOrBackoff_inv:
  "\<lbrakk>inv s; failOrBackoff st job mr b cap rw reason now s = Inr (s', failed)\<rbrakk> \<Longrightarrow> inv s'"
  by (auto simp: failOrBackoff_def Let_def rbind_eq_Inr record_event_inv
      dest: backoff_inv failed_inv reset_inv split: if_splits)

lemma failOrBackoff_view:
  assumes "inv s" and "failOrBackoff st job mr b cap rw reason now s = Inr (s', failed)"
    and "view (job_ID job) s = Some (x, q, o')" and "x \<notin> {Cancelled, Done, Failed}" and "rw \<longrightarrow> x = Selecting"
  shows "failed \<longleftrightarrow> job_Retries job + 1 \<ge> mr"
    and "view (job_ID job) s' = (if failed then Some (Failed, q, None)
      else Some (if rw then Wanted else x, job_Retries job + 1,
        Some (now + sint (nextBackoff (job_Retries job + 1) b cap))))"
proof -
  show f: "failed \<longleftrightarrow> job_Retries job + 1 \<ge> mr"
    using assms(2) by (auto simp: failOrBackoff_def Let_def rbind_eq_Inr split: if_splits)
  show "view (job_ID job) s' = (if failed then Some (Failed, q, None)
      else Some (if rw then Wanted else x, job_Retries job + 1,
        Some (now + sint (nextBackoff (job_Retries job + 1) b cap))))"
  proof (cases failed)
    case True
    then obtain s1 where s1: "op_MarkJobFailed st (job_ID job) now s = Inr s1"
      and "s' = recordBackoffEvent st (job_ID job) EventJobFailed
        (jobFailedDetail (job_Retries job + 1) mr reason) now s1"
      using assms(2) f by (auto simp: failOrBackoff_def Let_def rbind_eq_Inr)
    then show ?thesis
      using failed_view [OF assms(1) s1 assms(3)] assms(4) True by (simp add: record_event_view)
  next
    case False
    then show ?thesis
      using assms f backoff_view [OF assms(1) _ assms(3)] reset_view [OF assms(1) _ assms(3)]
      by (cases rw) (auto simp: failOrBackoff_def Let_def rbind_eq_Inr)
  qed
qed

end

section \<open>The store provides it\<close>

definition store_backoff_ops :: "(db, store_error) backoff_ops" where
  "store_backoff_ops =
     \<lparr>op_SetJobBackoff = (\<lambda>i r nb now s. Inr (SetJobBackoff i r nb now s)),
      op_MarkJobFailed = (\<lambda>i now s. Inr (MarkJobFailed i now s)),
      op_ResetJobToWanted = (\<lambda>i from r nb now s. Inr (ResetJobToWanted i from r nb now s)),
      op_AddJobEvent = (\<lambda>i ev d now s. Inr (AddJobEvent i ev d now s))\<rparr>"

definition job_view :: "nat \<Rightarrow> db \<Rightarrow> (job_state \<times> int \<times> ts option) option" where
  "job_view i s = map_option (\<lambda>j. (job_State j, job_Retries j, job_NotBefore j)) (the_job i s)"

lemma the_job_update:
  assumes "\<And>j. job_ID (f j) = job_ID j"
  shows "the_job i (update_jobs p f s) = map_option (\<lambda>j. if p j then f j else j) (the_job i s)"
proof -
  have "find (job_is i) (row_update p f js) = map_option (\<lambda>j. if p j then f j else j) (find (job_is i) js)" for js
    by (induction js) (auto simp: row_update_def job_is_def assms)
  then show ?thesis by (simp add: the_job_def)
qed

lemma the_job_drop [simp]: "the_job i (drop_candidates q s) = the_job i s"
  by (simp add: the_job_def)

lemma row_count_the_job:
  assumes "base_ok s"
  shows "row_count (\<lambda>j. job_is i j \<and> P j) (jobs s) = 0 \<longleftrightarrow> (case the_job i s of None \<Rightarrow> True | Some j \<Rightarrow> \<not> P j)"
proof (cases "the_job i s")
  case None
  then show ?thesis using the_job_None [of i s] by (auto simp: row_count_eq_0 job_is_def)
next
  case (Some j)
  have "k = j" if "k \<in> set (jobs s)" "job_ID k = i" for k
    using that the_job_Some [OF Some] job_unique [OF assms, of k j] by simp
  with the_job_Some [OF Some] Some show ?thesis
    by (auto simp: row_count_eq_0 job_is_def)
qed

lemma the_job_reset:
  assumes base: "base_ok s" and j: "the_job i s = Some j"
  shows "the_job i (ResetJobToWanted i from r nb now s)
    = Some (if job_State j = from then j\<lparr>job_State := Wanted, job_Retries := r,
        job_EmptySearches := 0, job_NotBefore := nb, job_Updated := now\<rparr> else j)"
proof -
  have "job_is i j" using the_job_Some [OF j] by (simp add: job_is_def)
  then show ?thesis
    using row_count_the_job [OF base, of i "\<lambda>k. job_State k = from"] j
    by (auto simp: ResetJobToWanted_def Let_def the_job_update)
qed

interpretation store_backoff: backoff_store store_backoff_ops wf_db job_view
proof
  fix s s' i r nb now "from" nbo ev d x q o' k
  show "wf_db s \<Longrightarrow> op_SetJobBackoff store_backoff_ops i r nb now s = Inr s' \<Longrightarrow> wf_db s'"
    by (auto simp: store_backoff_ops_def wf_backoff)
  show "wf_db s \<Longrightarrow> op_MarkJobFailed store_backoff_ops i now s = Inr s' \<Longrightarrow> wf_db s'"
    by (auto simp: store_backoff_ops_def wf_MarkJobFailed)
  show "wf_db s \<Longrightarrow> op_ResetJobToWanted store_backoff_ops i from r nbo now s = Inr s' \<Longrightarrow> wf_db s'"
    by (auto simp: store_backoff_ops_def wf_ResetJobToWanted)
  show "wf_db s \<Longrightarrow> op_AddJobEvent store_backoff_ops i ev d now s = Inr s' \<Longrightarrow> wf_db s'"
    by (auto simp: store_backoff_ops_def wf_AddJobEvent)
  show "wf_db s \<Longrightarrow> op_SetJobBackoff store_backoff_ops i r nb now s = Inr s' \<Longrightarrow>
      job_view i s = Some (x, q, o') \<Longrightarrow> job_view i s' = Some (x, r, Some nb)"
    by (auto simp: store_backoff_ops_def SetJobBackoff_def job_view_def the_job_update job_is_def
        dest: the_job_Some)
  show "wf_db s \<Longrightarrow> op_MarkJobFailed store_backoff_ops i now s = Inr s' \<Longrightarrow>
      job_view i s = Some (x, q, o') \<Longrightarrow>
      job_view i s' = (if x \<in> {Cancelled, Done, Failed} then Some (x, q, o') else Some (Failed, q, None))"
    by (auto simp: store_backoff_ops_def MarkJobFailed_def job_view_def the_job_update job_is_def
        dest: the_job_Some)
  show "wf_db s \<Longrightarrow> op_ResetJobToWanted store_backoff_ops i from r nbo now s = Inr s' \<Longrightarrow>
      job_view i s = Some (x, q, o') \<Longrightarrow>
      job_view i s' = (if x = from then Some (Wanted, r, nbo) else Some (x, q, o'))"
    by (auto simp: store_backoff_ops_def job_view_def wf_db_def the_job_reset)
  show "op_AddJobEvent store_backoff_ops i ev d now s = Inr s' \<Longrightarrow> job_view k s' = job_view k s"
    by (auto simp: store_backoff_ops_def AddJobEvent_def job_view_def the_job_def)
qed

end
