(* ===== verification/Dedup.thy ===== *)
theory Dedup
  imports Text
begin

text \<open>
  \<open>internal/pipeline/dedup.go\<close>: which files of an album folder are duplicates of the same track, and
  which of them stays. Reading the tags is not modelled; a \<open>dedup_file\<close> is what was read.
\<close>

section \<open>Titles as keys\<close>

text \<open>\<open>[\t\n\f\r ]\<close>, the white space of a regular expression\<close>

definition re_space :: "char \<Rightarrow> bool" where
  "re_space c \<longleftrightarrow> byte_code c \<in> {9, 10, 12, 13, 32}"

definition ascii_lower :: "char \<Rightarrow> char" where
  "ascii_lower c = (if 65 \<le> byte_code c \<and> byte_code c \<le> 90 then char_of (byte_code c + 32) else c)"

text \<open>\<open>\s.*$\<close>: the dot is any rune but the newline.\<close>

fun feat_tail :: "string \<Rightarrow> bool" where
  "feat_tail [] = False"
| "feat_tail (c # s) = (re_space c \<and> CHR 0x0A \<notin> set s)"

definition feat_word :: "string \<Rightarrow> string \<Rightarrow> bool" where
  "feat_word s w \<longleftrightarrow> HasPrefix (map ascii_lower s) w
     \<and> (feat_tail (drop (length w) s)
        \<or> HasPrefix (drop (length w) s) ''.'' \<and> feat_tail (drop (Suc (length w)) s))"

text \<open>\<open>featSuffix.ReplaceAllString(s, "")\<close>: a match reaches the end of the string.\<close>

fun strip_feat :: "string \<Rightarrow> string" where
  "strip_feat [] = []"
| "strip_feat (c # s) =
     (if (re_space c \<or> c = CHR ''('' \<or> c = CHR ''['')
         \<and> list_ex (feat_word s) [''feat'', ''ft'', ''featuring'']
      then [] else c # strip_feat s)"

definition normalizeTitle :: "unicode \<Rightarrow> string \<Rightarrow> string" where
  "normalizeTitle u s =
     concat (map encode_rune (filter (alphanumeric u) (runes (ToLower u (strip_feat s)))))"

lemma normalizeTitle_no_slash: "\<not> alphanumeric u 47 \<Longrightarrow> CHR ''/'' \<notin> set (normalizeTitle u s)"
proof -
  assume slash: "\<not> alphanumeric u 47"
  have "CHR ''/'' \<notin> set (encode_rune r)" if "alphanumeric u r" for r
    using that slash by (intro encode_rune_no_slash) auto
  then show ?thesis by (auto simp: normalizeTitle_def)
qed

section \<open>Files and the keys they are grouped by\<close>

record dedup_file =
  dd_Path :: string
  dd_Size :: int
  dd_AlbumKey :: string
  dd_Disc :: int
  dd_Track :: int
  dd_TitleKey :: string
  dd_Lossless :: bool

text \<open>The loop of \<open>multiAlbum\<close>; \<open>first\<close> is the first album seen, or empty.\<close>

fun multi_scan :: "string \<Rightarrow> dedup_file list \<Rightarrow> bool" where
  "multi_scan first [] = False"
| "multi_scan first (f # fs) =
     (if dd_AlbumKey f = [] then multi_scan first fs
      else if first = [] then multi_scan (dd_AlbumKey f) fs
      else if dd_AlbumKey f \<noteq> first then True else multi_scan first fs)"

definition multiAlbum :: "dedup_file list \<Rightarrow> bool" where
  "multiAlbum files = multi_scan [] files"

definition albumOf :: "bool \<Rightarrow> dedup_file \<Rightarrow> string" where
  "albumOf scoped f = (if scoped then dd_AlbumKey f else [])"

definition is_numbered :: "bool \<Rightarrow> dedup_file \<Rightarrow> bool" where
  "is_numbered scoped f \<longleftrightarrow> \<not> (dd_Track f \<le> 0 \<or> scoped \<and> dd_AlbumKey f = [])"

definition num_key :: "bool \<Rightarrow> dedup_file \<Rightarrow> string" where
  "num_key scoped f =
     albumOf scoped f @ ''/'' @ decimal_int (dd_Disc f) @ ''/'' @ decimal_int (dd_Track f)"

definition title_key :: "bool \<Rightarrow> dedup_file \<Rightarrow> string" where
  "title_key scoped f = albumOf scoped f @ ''/'' @ dd_TitleKey f"

definition keys_plain :: "dedup_file \<Rightarrow> bool" where
  "keys_plain f \<longleftrightarrow> CHR ''/'' \<notin> set (dd_AlbumKey f)"

lemma num_key_eq:
  assumes "keys_plain f" and "keys_plain g"
  shows "num_key sc f = num_key sc g \<longleftrightarrow>
    albumOf sc f = albumOf sc g \<and> dd_Disc f = dd_Disc g \<and> dd_Track f = dd_Track g"
proof
  assume eq: "num_key sc f = num_key sc g"
  have "CHR ''/'' \<notin> set (albumOf sc h)" if "keys_plain h" for h
    using that by (simp add: albumOf_def keys_plain_def)
  with assms eq have "albumOf sc f = albumOf sc g"
    and rest: "decimal_int (dd_Disc f) @ ''/'' @ decimal_int (dd_Track f)
      = decimal_int (dd_Disc g) @ ''/'' @ decimal_int (dd_Track g)"
    unfolding num_key_def by (blast dest: slash_inj)+
  with slash_inj [OF decimal_int_no_slash decimal_int_no_slash rest] show
    "albumOf sc f = albumOf sc g \<and> dd_Disc f = dd_Disc g \<and> dd_Track f = dd_Track g"
    by (simp add: decimal_int_inj)
qed (simp add: num_key_def)

lemma title_key_eq:
  assumes "keys_plain f" and "keys_plain g"
  shows "title_key sc f = title_key sc g \<longleftrightarrow> albumOf sc f = albumOf sc g \<and> dd_TitleKey f = dd_TitleKey g"
proof
  assume "title_key sc f = title_key sc g"
  moreover have "CHR ''/'' \<notin> set (albumOf sc h)" if "keys_plain h" for h
    using that by (simp add: albumOf_def keys_plain_def)
  ultimately show "albumOf sc f = albumOf sc g \<and> dd_TitleKey f = dd_TitleKey g"
    using assms unfolding title_key_def by (blast dest: slash_inj)
qed (simp add: title_key_def)

section \<open>The winner of a group\<close>

text \<open>One step of the loop: lossless first, then the larger size, then the smaller path.\<close>

definition beats :: "dedup_file \<Rightarrow> dedup_file \<Rightarrow> bool" where
  "beats f best \<longleftrightarrow>
     (if dd_Lossless f \<noteq> dd_Lossless best then dd_Lossless f
      else if dd_Size f \<noteq> dd_Size best then dd_Size f > dd_Size best
      else string_less (dd_Path f) (dd_Path best))"

definition winner_step :: "dedup_file \<Rightarrow> dedup_file \<Rightarrow> dedup_file" where
  "winner_step f best = (if beats f best then f else best)"

definition winner :: "dedup_file list \<Rightarrow> dedup_file" where
  "winner g = fold winner_step (tl g) (hd g)"

lemma beats_trans: "beats a b \<Longrightarrow> beats b c \<Longrightarrow> beats a c"
  by (auto simp: beats_def split: if_splits intro: string_less_trans)

lemma beats_irrefl [simp]: "\<not> beats a a"
  by (simp add: beats_def)

lemma beats_linear: "dd_Path a \<noteq> dd_Path b \<Longrightarrow> beats a b \<or> beats b a"
  using string_less_linear by (auto simp: beats_def)

lemma winner_fold:
  "let w = fold winner_step fs best
   in (w = best \<or> w \<in> set fs \<and> beats w best) \<and> (\<forall>f \<in> set fs. \<not> beats f w)"
proof (induction fs arbitrary: best)
  case (Cons f fs)
  from Cons [of "winner_step f best"] show ?case
    by (auto simp: Let_def winner_step_def intro: beats_trans split: if_splits)
qed simp

lemma winner_member: "g \<noteq> [] \<Longrightarrow> winner g \<in> set g"
  using winner_fold [of "tl g" "hd g"] by (cases g) (auto simp: Let_def winner_def)

lemma winner_unbeaten: "f \<in> set g \<Longrightarrow> \<not> beats f (winner g)"
  using winner_fold [of "tl g" "hd g"] by (cases g) (auto simp: Let_def winner_def dest: beats_trans)

section \<open>Grouping\<close>

text \<open>
  \<open>idx, ok := m[k]; if !ok { groups = append(groups, nil); idx = len(groups) - 1; m[k] = idx };
  groups[idx] = append(groups[idx], f)\<close>
\<close>

definition place ::
  "(string \<rightharpoonup> nat) \<Rightarrow> string \<Rightarrow> 'f \<Rightarrow> 'f list list \<Rightarrow> 'f list list \<times> (string \<rightharpoonup> nat) \<times> nat" where
  "place m k f groups =
     (case m k of
        Some idx \<Rightarrow> (groups[idx := groups ! idx @ [f]], m, idx)
      | None \<Rightarrow> (groups @ [[f]], m(k \<mapsto> length groups), length groups))"

record grouping =
  gr_Groups :: "dedup_file list list"
  gr_ByNum :: "string \<rightharpoonup> nat"
  gr_ByTitle :: "string \<rightharpoonup> nat"

text \<open>The first numbered file of a title says where the files without a number go.\<close>

definition note_title ::
  "bool \<Rightarrow> dedup_file \<Rightarrow> nat \<Rightarrow> (string \<rightharpoonup> nat) \<Rightarrow> (string \<rightharpoonup> nat)" where
  "note_title scoped f idx byTitle =
     (let tk = title_key scoped f
      in if dd_TitleKey f \<noteq> [] \<and> byTitle tk = None then byTitle(tk \<mapsto> idx) else byTitle)"

definition number_step :: "bool \<Rightarrow> dedup_file \<Rightarrow> grouping \<Rightarrow> grouping" where
  "number_step scoped f g =
     (if \<not> is_numbered scoped f then g
      else let (groups, byNum, idx) = place (gr_ByNum g) (num_key scoped f) f (gr_Groups g)
           in \<lparr>gr_Groups = groups, gr_ByNum = byNum,
               gr_ByTitle = note_title scoped f idx (gr_ByTitle g)\<rparr>)"

definition title_step :: "bool \<Rightarrow> dedup_file \<Rightarrow> grouping \<Rightarrow> grouping" where
  "title_step scoped f g =
     (if is_numbered scoped f \<or> dd_TitleKey f = [] then g
      else let (groups, byTitle, idx) = place (gr_ByTitle g) (title_key scoped f) f (gr_Groups g)
           in g\<lparr>gr_Groups := groups, gr_ByTitle := byTitle\<rparr>)"

definition group_losers :: "dedup_file list \<Rightarrow> dedup_file list" where
  "group_losers g =
     (if length g < 2 then [] else filter (\<lambda>f. dd_Path f \<noteq> dd_Path (winner g)) g)"

definition dedupFiles :: "dedup_file list \<Rightarrow> dedup_file list" where
  "dedupFiles files =
     (let scoped = multiAlbum files;
          g1 = fold (number_step scoped) files \<lparr>gr_Groups = [], gr_ByNum = Map.empty, gr_ByTitle = Map.empty\<rparr>;
          g2 = fold (title_step scoped) files g1
      in concat (map group_losers (gr_Groups g2)))"

section \<open>Which track a file is\<close>

text \<open>
  The reference: a numbered file is the track of its number; a file without a number is the track of
  the first numbered file with its title, or else the track of that title; a file with neither is
  no track.
\<close>

datatype track_id = NumberId string | TitleId string

definition has_title :: "bool \<Rightarrow> string \<Rightarrow> dedup_file \<Rightarrow> bool" where
  "has_title sc tk n \<longleftrightarrow> is_numbered sc n \<and> dd_TitleKey n \<noteq> [] \<and> title_key sc n = tk"

definition titled :: "bool \<Rightarrow> dedup_file \<Rightarrow> bool" where
  "titled sc f \<longleftrightarrow> \<not> is_numbered sc f \<and> dd_TitleKey f \<noteq> []"

definition track_of :: "bool \<Rightarrow> dedup_file list \<Rightarrow> dedup_file \<Rightarrow> track_id option" where
  "track_of sc files f =
     (if is_numbered sc f then Some (NumberId (num_key sc f))
      else if dd_TitleKey f = [] then None
      else (case find (has_title sc (title_key sc f)) files of
              Some n \<Rightarrow> Some (NumberId (num_key sc n))
            | None \<Rightarrow> Some (TitleId (title_key sc f))))"

definition track_files :: "dedup_file list \<Rightarrow> track_id \<Rightarrow> dedup_file list" where
  "track_files files k =
     (let sc = multiAlbum files
      in filter (\<lambda>f. track_of sc files f = Some k)
           (filter (is_numbered sc) files @ filter (titled sc) files))"

text \<open>Groups as buckets: \<open>rep\<close> says which index a track has, \<open>ds\<close> are the files placed so far.\<close>

definition buckets ::
  "('k \<rightharpoonup> nat) \<Rightarrow> 'f list list \<Rightarrow> ('f \<Rightarrow> 'k option) \<Rightarrow> 'f list \<Rightarrow> bool" where
  "buckets rep gs key ds \<longleftrightarrow>
     (\<forall>k i. rep k = Some i \<longrightarrow> i < length gs \<and> gs ! i = filter (\<lambda>f. key f = Some k) ds)
     \<and> (\<forall>i < length gs. \<exists>k. rep k = Some i)
     \<and> (\<forall>k. rep k = None \<longleftrightarrow> (\<forall>f \<in> set ds. key f \<noteq> Some k))"

lemma buckets_empty: "buckets Map.empty [] key []"
  by (simp add: buckets_def)

lemma buckets_rep_inj:
  assumes "buckets rep gs key ds" and "rep k = Some i" and "rep k' = Some i"
  shows "k = k'"
proof -
  obtain f where "f \<in> set ds" "key f = Some k"
    using assms(1,2) unfolding buckets_def by (metis option.distinct(1))
  then have "f \<in> set (gs ! i)" using assms(1,2) by (simp add: buckets_def)
  then show ?thesis using assms(1,3) \<open>key f = Some k\<close> by (simp add: buckets_def)
qed

lemma buckets_old:
  assumes b: "buckets rep gs key ds" and k: "key f = Some k" and i: "rep k = Some i"
  shows "buckets rep (gs[i := gs ! i @ [f]]) key (ds @ [f])"
proof -
  have "(gs[i := gs ! i @ [f]]) ! j = filter (\<lambda>h. key h = Some k') (ds @ [f])"
    if "rep k' = Some j" for k' j
  proof (cases "k' = k")
    case True
    with that i have "j = i" by simp
    with True b k i show ?thesis by (simp add: buckets_def)
  next
    case False
    with that i b have "j \<noteq> i" using buckets_rep_inj by metis
    with False that b k show ?thesis by (simp add: buckets_def)
  qed
  moreover have "rep k' = None \<longleftrightarrow> (\<forall>h \<in> set (ds @ [f]). key h \<noteq> Some k')" for k'
    using b k i unfolding buckets_def by (metis UnE Un_iff empty_set list.set(2) option.distinct(1) set_append singletonD)
  moreover have "\<forall>j < length (gs[i := gs ! i @ [f]]). \<exists>k'. rep k' = Some j"
    and "\<forall>k' j. rep k' = Some j \<longrightarrow> j < length (gs[i := gs ! i @ [f]])"
    using b by (simp_all add: buckets_def)
  ultimately show ?thesis unfolding buckets_def by blast
qed

lemma buckets_new:
  assumes b: "buckets rep gs key ds" and k: "key f = Some k" and none: "rep k = None"
  shows "buckets (rep(k \<mapsto> length gs)) (gs @ [[f]]) key (ds @ [f])"
proof -
  have fresh: "filter (\<lambda>h. key h = Some k) ds = []"
    using b none by (auto simp: buckets_def filter_empty_conv)
  have "(gs @ [[f]]) ! j = filter (\<lambda>h. key h = Some k') (ds @ [f])" and "j < length (gs @ [[f]])"
    if "(rep(k \<mapsto> length gs)) k' = Some j" for k' j
    using that b k fresh by (auto simp: buckets_def nth_append less_SucI split: if_splits)
  moreover have "\<exists>k'. (rep(k \<mapsto> length gs)) k' = Some j" if "j < length (gs @ [[f]])" for j
  proof (cases "j = length gs")
    case False
    with that b obtain k' where "rep k' = Some j" by (auto simp: buckets_def less_Suc_eq)
    with none show ?thesis by (intro exI [of _ k']) auto
  qed auto
  moreover have "(rep(k \<mapsto> length gs)) k' = None \<longleftrightarrow> (\<forall>h \<in> set (ds @ [f]). key h \<noteq> Some k')" for k'
    using b k by (auto simp: buckets_def)
  ultimately show ?thesis unfolding buckets_def by blast
qed

section \<open>The two passes group by track\<close>

definition by_number :: "(string \<rightharpoonup> nat) \<Rightarrow> track_id \<rightharpoonup> nat" where
  "by_number m k = (case k of NumberId s \<Rightarrow> m s | TitleId s \<Rightarrow> None)"

lemma by_number_upd: "by_number (m(s \<mapsto> i)) = (by_number m)(NumberId s \<mapsto> i)"
  by (auto simp: by_number_def fun_eq_iff split: track_id.splits)

lemma by_number_NumberId [simp]: "by_number m (NumberId s) = m s"
  by (simp add: by_number_def)

definition numbered_inv :: "bool \<Rightarrow> dedup_file list \<Rightarrow> dedup_file list \<Rightarrow> grouping \<Rightarrow> bool" where
  "numbered_inv sc files pre g \<longleftrightarrow>
     buckets (by_number (gr_ByNum g)) (gr_Groups g) (track_of sc files) (filter (is_numbered sc) pre)
     \<and> (\<forall>tk. gr_ByTitle g tk = (case find (has_title sc tk) pre of
            None \<Rightarrow> None | Some n \<Rightarrow> gr_ByNum g (num_key sc n)))"

lemma track_of_numbered: "is_numbered sc f \<Longrightarrow> track_of sc files f = Some (NumberId (num_key sc f))"
  by (simp add: track_of_def)

lemma buckets_member: "\<lbrakk>buckets rep gs key ds; f \<in> set ds; key f = Some k\<rbrakk> \<Longrightarrow> \<exists>i. rep k = Some i"
  unfolding buckets_def by (metis not_None_eq)

lemma numbered_inv_step:
  assumes inv: "numbered_inv sc files pre g"
  shows "numbered_inv sc files (pre @ [f]) (number_step sc f g)"
proof (cases "is_numbered sc f")
  case False
  with inv show ?thesis
    by (auto simp: numbered_inv_def number_step_def find_append has_title_def split: option.splits)
next
  case True
  note key = track_of_numbered [OF True, of files]
  have b: "buckets (by_number (gr_ByNum g)) (gr_Groups g) (track_of sc files) (filter (is_numbered sc) pre)"
    and title: "\<And>tk. gr_ByTitle g tk = (case find (has_title sc tk) pre of
        None \<Rightarrow> None | Some n \<Rightarrow> gr_ByNum g (num_key sc n))"
    using inv by (auto simp: numbered_inv_def)
  have known: "gr_ByNum g (num_key sc n) \<noteq> None" if "find (has_title sc tk) pre = Some n" for tk n
  proof -
    have "n \<in> set (filter (is_numbered sc) pre)" and "is_numbered sc n"
      using that by (auto simp: find_Some_iff has_title_def)
    with buckets_member [OF b] track_of_numbered show ?thesis by fastforce
  qed
  have upd: "note_title sc f idx (gr_ByTitle g) tk
      = (case find (has_title sc tk) (pre @ [f]) of None \<Rightarrow> None | Some n \<Rightarrow> m (num_key sc n))"
    if "m (num_key sc f) = Some idx" and "\<And>n y. gr_ByNum g n = Some y \<Longrightarrow> m n = Some y" for m idx tk
  proof (cases "find (has_title sc tk) pre")
    case None
    with title [of tk] True that(1) show ?thesis by (auto simp: note_title_def Let_def find_append has_title_def)
  next
    case (Some n)
    with known obtain y where "gr_ByNum g (num_key sc n) = Some y" by blast
    with Some title [of tk] that(2) [of "num_key sc n" y] show ?thesis
      by (auto simp: note_title_def Let_def find_append)
  qed
  show ?thesis
  proof (cases "gr_ByNum g (num_key sc f)")
    case None
    then have "by_number (gr_ByNum g) (NumberId (num_key sc f)) = None" by simp
    from buckets_new [OF b key this] None True show ?thesis
      by (simp add: numbered_inv_def number_step_def place_def by_number_upd Let_def)
        (intro allI upd; auto)
  next
    case (Some i)
    then have "by_number (gr_ByNum g) (NumberId (num_key sc f)) = Some i" by simp
    from buckets_old [OF b key this] Some True show ?thesis
      by (simp add: numbered_inv_def number_step_def place_def Let_def)
        (intro allI upd; auto)
  qed
qed

definition no_groups :: grouping where
  "no_groups = \<lparr>gr_Groups = [], gr_ByNum = Map.empty, gr_ByTitle = Map.empty\<rparr>"

lemma numbered_inv_fold: "numbered_inv sc files pre (fold (number_step sc) pre no_groups)"
proof (induction pre rule: rev_induct)
  case Nil
  have "by_number Map.empty = Map.empty"
    by (auto simp: by_number_def fun_eq_iff split: track_id.splits)
  then show ?case by (simp add: numbered_inv_def no_groups_def buckets_empty)
qed (simp add: numbered_inv_step)

definition titled_inv ::
  "bool \<Rightarrow> dedup_file list \<Rightarrow> dedup_file list \<Rightarrow> (track_id \<rightharpoonup> nat) \<Rightarrow> grouping \<Rightarrow> bool" where
  "titled_inv sc files pre rep g \<longleftrightarrow>
     buckets rep (gr_Groups g) (track_of sc files) (filter (is_numbered sc) files @ filter (titled sc) pre)
     \<and> (\<forall>f. titled sc f \<longrightarrow> gr_ByTitle g (title_key sc f) = rep (the (track_of sc files f)))"

lemma track_of_titled:
  "titled sc f \<Longrightarrow> track_of sc files f = Some (case find (has_title sc (title_key sc f)) files of
     Some n \<Rightarrow> NumberId (num_key sc n) | None \<Rightarrow> TitleId (title_key sc f))"
  by (auto simp: track_of_def titled_def split: option.splits)

lemma titled_inv_start:
  assumes "numbered_inv sc files files g"
  shows "titled_inv sc files [] (by_number (gr_ByNum g)) g"
  using assms by (auto simp: titled_inv_def numbered_inv_def track_of_titled by_number_def split: option.splits)

lemma titled_inv_step:
  assumes inv: "titled_inv sc files pre rep g"
  shows "\<exists>rep'. titled_inv sc files (pre @ [f]) rep' (title_step sc f g)"
proof (cases "titled sc f")
  case False
  with inv have "titled_inv sc files (pre @ [f]) rep (title_step sc f g)"
    by (auto simp: titled_inv_def title_step_def titled_def)
  then show ?thesis by blast
next
  case True
  let ?ds = "filter (is_numbered sc) files @ filter (titled sc) pre"
  let ?tk = "title_key sc f" and ?k = "the (track_of sc files f)"
  have b: "buckets rep (gr_Groups g) (track_of sc files) ?ds"
    and rep: "\<And>h. titled sc h \<Longrightarrow> gr_ByTitle g (title_key sc h) = rep (the (track_of sc files h))"
    using inv by (auto simp: titled_inv_def)
  have key: "track_of sc files f = Some ?k" using track_of_titled [OF True] by simp
  have step: "title_step sc f g = (let (groups, byTitle, idx) = place (gr_ByTitle g) ?tk f (gr_Groups g)
      in g\<lparr>gr_Groups := groups, gr_ByTitle := byTitle\<rparr>)"
    using True by (simp add: title_step_def titled_def)
  show ?thesis
  proof (cases "rep ?k")
    case (Some i)
    have "titled_inv sc files (pre @ [f]) rep (title_step sc f g)"
      using buckets_old [OF b key Some] rep True Some
      by (simp add: titled_inv_def step place_def)
    then show ?thesis by blast
  next
    case None
    have k: "?k = TitleId ?tk"
    proof (cases "find (has_title sc ?tk) files")
      case (Some n)
      then have n: "n \<in> set ?ds" "is_numbered sc n" by (auto simp: find_Some_iff has_title_def)
      have "track_of sc files n = Some ?k"
        using Some track_of_titled [OF True, of files] track_of_numbered [OF n(2), of files] by simp
      with buckets_member [OF b n(1)] None show ?thesis by auto
    qed (simp add: track_of_titled [OF True])
    have same: "(the (track_of sc files h) = ?k) = (title_key sc h = ?tk)" if "titled sc h" for h
      using that k True track_of_titled [OF that, of files] track_of_titled [OF True, of files]
      by (auto split: option.splits)
    have "titled_inv sc files (pre @ [f]) (rep(?k \<mapsto> length (gr_Groups g))) (title_step sc f g)"
      using buckets_new [OF b key None] rep [OF True] rep None same True
      by (simp add: titled_inv_def step place_def)
    then show ?thesis by blast
  qed
qed

lemma titled_inv_fold:
  assumes "titled_inv sc files [] rep g"
  shows "\<exists>rep'. titled_inv sc files pre rep' (fold (title_step sc) pre g)"
proof (induction pre rule: rev_induct)
  case (snoc f pre)
  then show ?case using titled_inv_step by fastforce
qed (use assms in auto)

section \<open>What is removed\<close>

lemma set_concat_losers:
  assumes "buckets rep gs key ds"
  shows "set (concat (map group_losers gs)) =
    {f. \<exists>k. f \<in> set (filter (\<lambda>f. key f = Some k) ds)
       \<and> dd_Path f \<noteq> dd_Path (winner (filter (\<lambda>f. key f = Some k) ds))}"
proof -
  have losers: "set (group_losers g) = {f \<in> set g. dd_Path f \<noteq> dd_Path (winner g)}" for g
  proof (cases "length g < 2")
    case True
    then have "g = [] \<or> (\<exists>h. g = [h])"
      by (cases g) auto
    then show ?thesis by (auto simp: group_losers_def winner_def)
  qed (simp add: group_losers_def)
  have grp: "gs ! i = filter (\<lambda>f. key f = Some k) ds" if "rep k = Some i" for k i
    using that assms by (simp add: buckets_def)
  have "(\<exists>g \<in> set gs. P g) \<longleftrightarrow> (\<exists>k i. rep k = Some i \<and> P (gs ! i))" for P
    using assms unfolding buckets_def Bex_def in_set_conv_nth by metis
  then have bex: "(\<exists>g \<in> set gs. f \<in> set (group_losers g))
      \<longleftrightarrow> (\<exists>k i. rep k = Some i \<and> f \<in> set (group_losers (gs ! i)))" for f .
  have "set (concat (map group_losers gs)) = {f. \<exists>g \<in> set gs. f \<in> set (group_losers g)}"
    by auto
  also have "\<dots> = {f. \<exists>k i. rep k = Some i \<and> f \<in> set (group_losers (gs ! i))}"
    by (simp only: bex)
  also have "\<dots> = {f. \<exists>k i. rep k = Some i \<and> f \<in> set (filter (\<lambda>f. key f = Some k) ds)
      \<and> dd_Path f \<noteq> dd_Path (winner (filter (\<lambda>f. key f = Some k) ds))}"
    by (intro Collect_cong ex_cong1 conj_cong refl) (simp add: losers grp)
  also have "\<dots> = {f. \<exists>k. f \<in> set (filter (\<lambda>f. key f = Some k) ds)
      \<and> dd_Path f \<noteq> dd_Path (winner (filter (\<lambda>f. key f = Some k) ds))}"
    using buckets_member [OF assms] by fastforce
  finally show ?thesis .
qed

lemma dedup_losers:
  "set (dedupFiles files) =
     {f. \<exists>k. f \<in> set (track_files files k) \<and> dd_Path f \<noteq> dd_Path (winner (track_files files k))}"
proof -
  let ?sc = "multiAlbum files"
  let ?g = "fold (number_step ?sc) files no_groups"
  obtain rep where "titled_inv ?sc files files rep (fold (title_step ?sc) files ?g)"
    using titled_inv_fold [OF titled_inv_start [OF numbered_inv_fold]] by blast
  then have "buckets rep (gr_Groups (fold (title_step ?sc) files ?g)) (track_of ?sc files)
      (filter (is_numbered ?sc) files @ filter (titled ?sc) files)"
    by (simp add: titled_inv_def)
  from set_concat_losers [OF this] show ?thesis
    by (simp only: dedupFiles_def Let_def track_files_def no_groups_def)
qed

section \<open>What is left\<close>

lemma track_files_iff:
  "f \<in> set (track_files files k) \<longleftrightarrow> f \<in> set files \<and> track_of (multiAlbum files) files f = Some k"
  by (auto simp: track_files_def Let_def track_of_def titled_def)

lemma dedup_removed:
  assumes "f \<in> set (dedupFiles files)"
  obtains k where "track_of (multiAlbum files) files f = Some k" and "f \<in> set files"
    and "winner (track_files files k) \<in> set files"
    and "track_of (multiAlbum files) files (winner (track_files files k)) = Some k"
    and "dd_Path f \<noteq> dd_Path (winner (track_files files k))"
    and "\<not> beats f (winner (track_files files k))"
proof -
  from assms obtain k where k: "f \<in> set (track_files files k)"
    and path: "dd_Path f \<noteq> dd_Path (winner (track_files files k))"
    by (auto simp: dedup_losers)
  then have "winner (track_files files k) \<in> set (track_files files k)"
    by (intro winner_member) auto
  with k path that winner_unbeaten [OF k] show thesis by (auto simp: track_files_iff)
qed

lemma winner_stays: "winner (track_files files k) \<notin> set (dedupFiles files) \<or> track_files files k = []"
proof (cases "track_files files k = []")
  case False
  let ?w = "winner (track_files files k)"
  have "?w \<in> set (track_files files k)" using False by (rule winner_member)
  then have "track_of (multiAlbum files) files ?w = Some k" by (simp add: track_files_iff)
  then show ?thesis by (auto elim!: dedup_removed)
qed simp

lemma removed_has_better:
  assumes "f \<in> set (dedupFiles files)"
  shows "\<exists>w \<in> set files. w \<notin> set (dedupFiles files) \<and> beats w f
    \<and> track_of (multiAlbum files) files w = track_of (multiAlbum files) files f"
proof -
  from assms obtain k where k: "track_of (multiAlbum files) files f = Some k" "f \<in> set files"
    "winner (track_files files k) \<in> set files"
    "track_of (multiAlbum files) files (winner (track_files files k)) = Some k"
    "dd_Path f \<noteq> dd_Path (winner (track_files files k))"
    "\<not> beats f (winner (track_files files k))"
    by (rule dedup_removed)
  then have "track_files files k \<noteq> []" using track_files_iff by force
  with k winner_stays [of files k] beats_linear show ?thesis
    by (intro bexI [of _ "winner (track_files files k)"]) auto
qed

lemma one_file_per_track:
  assumes "f \<in> set files" and "g \<in> set files" and "f \<notin> set (dedupFiles files)"
    and "g \<notin> set (dedupFiles files)" and "track_of (multiAlbum files) files f = Some k"
    and "track_of (multiAlbum files) files g = Some k"
  shows "dd_Path f = dd_Path g"
  using assms by (auto simp: dedup_losers track_files_iff)

text \<open>In a folder of several albums no file is weighed against one of another album.\<close>

lemma track_album:
  assumes "\<forall>h \<in> set files. keys_plain h" and "f \<in> set files" and "g \<in> set files"
    and "track_of sc files f = track_of sc files g" and "track_of sc files f \<noteq> None"
  shows "albumOf sc f = albumOf sc g"
proof -
  have album: "\<exists>n \<in> set files. albumOf sc n = albumOf sc h \<and>
      (track_of sc files h = Some (NumberId (num_key sc n)) \<or> track_of sc files h = Some (TitleId (title_key sc n)))"
    if h: "h \<in> set files" "track_of sc files h \<noteq> None" for h
  proof (cases "is_numbered sc h")
    case False
    show ?thesis
    proof (cases "find (has_title sc (title_key sc h)) files")
      case (Some n)
      then have "n \<in> set files" "title_key sc n = title_key sc h" by (auto simp: find_Some_iff has_title_def)
      with Some False h assms(1) title_key_eq [of n h sc] show ?thesis
        by (intro bexI [of _ n]) (auto simp: track_of_def split: if_splits)
    qed (use False h in \<open>auto simp: track_of_def\<close>)
  qed (use h in \<open>auto simp: track_of_def\<close>)
  obtain m n where m: "m \<in> set files" "albumOf sc m = albumOf sc f"
      "track_of sc files f = Some (NumberId (num_key sc m)) \<or> track_of sc files f = Some (TitleId (title_key sc m))"
    and n: "n \<in> set files" "albumOf sc n = albumOf sc g"
      "track_of sc files g = Some (NumberId (num_key sc n)) \<or> track_of sc files g = Some (TitleId (title_key sc n))"
    using album [of f] album [of g] assms by force
  then have "num_key sc m = num_key sc n \<or> title_key sc m = title_key sc n" using assms(4) by auto
  then have "albumOf sc m = albumOf sc n"
    using m(1) n(1) assms(1) num_key_eq title_key_eq by blast
  with m n show ?thesis by simp
qed

end
