(* ===== verification/Normalize.thy ===== *)
theory Normalize
  imports Dedup
begin

text \<open>
  \<open>internal/matcher/normalize.go\<close> and \<open>rewrite.go\<close>: the looser search queries, and the tokens that the
  relevance gate compares.
\<close>

section \<open>Bracketed groups\<close>

definition opens :: "char \<Rightarrow> bool" where
  "opens c \<longleftrightarrow> c = CHR ''('' \<or> c = CHR ''[''"

definition closes :: "char \<Rightarrow> bool" where
  "closes c \<longleftrightarrow> c = CHR '')'' \<or> c = CHR '']''"

text \<open>\<open>\s*[(\[][^()\[\]]*[)\]]\<close> at the start of the string; what follows the match.\<close>

definition match_group :: "string \<Rightarrow> string option" where
  "match_group s =
     (case dropWhile re_space s of
        [] \<Rightarrow> None
      | c # r \<Rightarrow>
          if \<not> opens c then None
          else (case dropWhile (\<lambda>d. \<not> opens d \<and> \<not> closes d) r of
                  [] \<Rightarrow> None
                | d # rest \<Rightarrow> if closes d then Some rest else None))"

lemma match_group_shorter: "match_group s = Some rest \<Longrightarrow> length rest < length s"
proof -
  assume m: "match_group s = Some rest"
  obtain c r where c: "dropWhile re_space s = c # r"
    using m by (auto simp: match_group_def split: list.splits)
  then obtain d where "dropWhile (\<lambda>d. \<not> opens d \<and> \<not> closes d) r = d # rest"
    using m by (auto simp: match_group_def split: list.splits if_splits)
  with c have "length (d # rest) \<le> length r" "length (c # r) \<le> length s"
    by (metis length_dropWhile_le)+
  then show ?thesis by simp
qed

text \<open>\<open>innermostGroupRe.ReplaceAllString(s, "")\<close>\<close>

function strip_pass :: "string \<Rightarrow> string" where
  "strip_pass [] = []"
| "strip_pass (c # s) =
     (case match_group (c # s) of Some rest \<Rightarrow> strip_pass rest | None \<Rightarrow> c # strip_pass s)"
  by pat_completeness auto
termination
  by (relation "measure length") (use match_group_shorter in fastforce)+

lemma strip_pass_shorter: "strip_pass s = s \<or> length (strip_pass s) < length s"
proof (induction s rule: strip_pass.induct)
  case (2 c s)
  then show ?case
    using match_group_shorter [of "c # s"] by (fastforce split: option.splits)
qed simp

text \<open>The loop: every pass that changes the string makes it shorter.\<close>

function stripBracketedGroups :: "string \<Rightarrow> string" where
  "stripBracketedGroups s =
     (let t = strip_pass s in if t = s then s else stripBracketedGroups t)"
  by auto
termination
  by (relation "measure length") (use strip_pass_shorter in auto)

declare stripBracketedGroups.simps [simp del]

lemma stripBracketedGroups_fixed: "strip_pass (stripBracketedGroups s) = stripBracketedGroups s"
proof (induction s rule: stripBracketedGroups.induct)
  case (1 s)
  then show ?case by (subst (1 2) stripBracketedGroups.simps) (simp add: Let_def)
qed

lemma match_group_opens: "\<forall>c \<in> set s. \<not> opens c \<Longrightarrow> match_group s = None"
  by (auto simp: match_group_def split: list.splits) (metis list.set_intros(1) set_dropWhileD)

lemma strip_pass_plain: "\<forall>c \<in> set s. \<not> opens c \<Longrightarrow> strip_pass s = s"
  by (induction s) (simp_all add: match_group_opens)

lemma stripBracketedGroups_plain: "\<forall>c \<in> set s. \<not> opens c \<Longrightarrow> stripBracketedGroups s = s"
  by (subst stripBracketedGroups.simps) (simp add: strip_pass_plain)

section \<open>The normalized query\<close>

definition punctuation :: "char \<Rightarrow> bool" where
  "punctuation c \<longleftrightarrow> c \<in> {CHR 0x27, CHR 0x22, CHR '':'', CHR ''.'', CHR '','', CHR ''!'', CHR ''?'',
     CHR ''('', CHR '')'', CHR ''['', CHR '']''}"

text \<open>\<open>whitespaceRe.ReplaceAllString(q, " ")\<close>; \<open>sp\<close> says that the byte before was white space.\<close>

fun collapse :: "bool \<Rightarrow> string \<Rightarrow> string" where
  "collapse sp [] = []"
| "collapse sp (c # s) =
     (if re_space c then (if sp then collapse True s else CHR '' '' # collapse True s)
      else c # collapse False s)"

definition NormalizeQuery :: "string \<Rightarrow> string" where
  "NormalizeQuery query =
     TrimSpace (collapse False
       (filter (\<lambda>c. \<not> punctuation c) (replace_byte (CHR ''&'') ''and'' (stripBracketedGroups query))))"

text \<open>Text that no step changes but the trimming.\<close>

definition plain_char :: "char \<Rightarrow> bool" where
  "plain_char c \<longleftrightarrow> \<not> punctuation c \<and> c \<noteq> CHR ''&'' \<and> (re_space c \<longrightarrow> c = CHR '' '')"

definition settled :: "string \<Rightarrow> bool" where
  "settled s \<longleftrightarrow> list_all plain_char s \<and> successively (\<lambda>a b. \<not> (re_space a \<and> re_space b)) s"

lemma settled_Nil [simp]: "settled []"
  by (simp add: settled_def)

lemma settled_Cons:
  "settled (c # s) \<longleftrightarrow> plain_char c \<and> settled s \<and> (re_space c \<longrightarrow> s = [] \<or> \<not> re_space (hd s))"
  by (cases s) (auto simp: settled_def successively_Cons)

lemma plain_char_blank: "plain_char (CHR '' '')" "re_space (CHR '' '')"
  by (simp_all add: plain_char_def punctuation_def re_space_def byte_code_def)

lemma plain_char_space: "plain_char c \<Longrightarrow> re_space c \<Longrightarrow> CHR '' '' = c"
  by (simp add: plain_char_def)

lemma collapse_settled:
  "settled s \<Longrightarrow> (sp \<longrightarrow> s = [] \<or> \<not> re_space (hd s)) \<Longrightarrow> collapse sp s = s"
proof (induction s arbitrary: sp)
  case (Cons c s)
  from Cons.prems(1) have s: "plain_char c" "settled s" "re_space c \<longrightarrow> s = [] \<or> \<not> re_space (hd s)"
    unfolding settled_Cons by blast+
  show ?case
  proof (cases "re_space c")
    case True
    have "\<not> sp" using True Cons.prems(2) by simp
    moreover have "collapse True s = s" using Cons.IH [of True] s True by simp
    ultimately show ?thesis using True plain_char_space [OF s(1) True] by simp
  next
    case False
    then show ?thesis using Cons.IH [of False] s(2) by simp
  qed
qed simp

lemma NormalizeQuery_settled: "settled s \<Longrightarrow> NormalizeQuery s = TrimSpace s"
proof -
  assume s: "settled s"
  have "\<not> opens c" if "plain_char c" for c
    using that by (auto simp: plain_char_def opens_def punctuation_def)
  then have "\<forall>c \<in> set s. \<not> opens c"
    using s by (auto simp: settled_def list_all_iff)
  moreover have "replace_byte (CHR ''&'') ''and'' s = s"
    using s by (induction s) (simp_all add: settled_Cons replace_byte_def plain_char_def)
  moreover have "filter (\<lambda>c. \<not> punctuation c) s = s"
    using s by (simp add: settled_def list_all_iff plain_char_def)
  ultimately show ?thesis
    using collapse_settled [OF s, of False] by (simp add: NormalizeQuery_def stripBracketedGroups_plain)
qed

lemma settled_collapse:
  "(\<forall>c \<in> set s. \<not> punctuation c \<and> c \<noteq> CHR ''&'') \<Longrightarrow>
   settled (collapse sp s) \<and> (sp \<longrightarrow> collapse sp s = [] \<or> \<not> re_space (hd (collapse sp s)))"
proof (induction s arbitrary: sp)
  case (Cons c s)
  then have s: "\<forall>d \<in> set s. \<not> punctuation d \<and> d \<noteq> CHR ''&''" by simp
  show ?case
  proof (cases "re_space c")
    case True
    with Cons.IH [OF s, of True] plain_char_blank show ?thesis
      by (cases sp) (simp_all add: settled_Cons)
  next
    case False
    then have "plain_char c" using Cons.prems by (simp add: plain_char_def)
    with False Cons.IH [OF s, of False] show ?thesis by (simp add: settled_Cons)
  qed
qed simp

lemma settled_infix: "settled (a @ s @ b) \<Longrightarrow> settled s"
  by (auto simp: settled_def successively_append_iff)

lemma TrimSpace_infix: "\<exists>a b. s = a @ TrimSpace s @ b"
proof -
  let ?m = "dropWhile (\<lambda>g. IsSpace (fst g)) (glyphs s)"
  obtain as where as: "glyphs s = as @ ?m" using dropWhile_suffix by blast
  obtain bs where "rev ?m = bs @ dropWhile (\<lambda>g. IsSpace (fst g)) (rev ?m)"
    using dropWhile_suffix by blast
  then have "?m = trim_glyphs (glyphs s) @ rev bs"
    unfolding trim_glyphs_def by (metis rev_append rev_rev_ident)
  with as have "glyphs s = as @ trim_glyphs (glyphs s) @ rev bs" by simp
  then have "s = text_of as @ TrimSpace s @ text_of (rev bs)"
    by (metis TrimSpace_def text_of_append text_of_glyphs)
  then show ?thesis by blast
qed

lemma settled_TrimSpace: "settled s \<Longrightarrow> settled (TrimSpace s)"
  by (metis TrimSpace_infix settled_infix)

lemma NormalizeQuery_is_settled: "settled (NormalizeQuery q)"
proof -
  have no_amp: "CHR ''&'' \<notin> set (replace_byte (CHR ''&'') ''and'' s)" for s
    by (auto simp: replace_byte_def)
  show ?thesis
    unfolding NormalizeQuery_def using no_amp
    by (intro settled_TrimSpace conjunct1 [OF settled_collapse]) auto
qed

lemma NormalizeQuery_idempotent: "NormalizeQuery (NormalizeQuery q) = NormalizeQuery q"
proof -
  have "NormalizeQuery (NormalizeQuery q) = TrimSpace (NormalizeQuery q)"
    by (rule NormalizeQuery_settled [OF NormalizeQuery_is_settled])
  then show ?thesis by (simp add: NormalizeQuery_def TrimSpace_idem)
qed

section \<open>Tokens\<close>

text \<open>\<open>elisionReplacer\<close>: straight and curly apostrophes and the grave accent.\<close>

fun elide :: "string \<Rightarrow> string" where
  "elide [] = []"
| "elide (c # s) =
     (if c = CHR 0x27 \<or> c = CHR 0x60 then elide s
      else if c = CHR 0xE2 \<and> HasPrefix s [CHR 0x80, CHR 0x99] then elide (drop 2 s)
      else c # elide s)"

definition tokens :: "unicode \<Rightarrow> string \<Rightarrow> string list" where
  "tokens u s =
     (let low = ToLower u (to_slash s);
          folded = (case u_FoldMarks u low of Some f \<Rightarrow> f | None \<Rightarrow> low)
      in FieldsFunc (\<lambda>r. \<not> u_IsLetter u r \<and> \<not> u_IsDigit u r)
           (replace_byte (CHR ''&'') '' and '' (elide folded)))"

definition digit :: "char \<Rightarrow> bool" where
  "digit c \<longleftrightarrow> 48 \<le> byte_code c \<and> byte_code c \<le> 57"

definition lower_letter :: "char \<Rightarrow> bool" where
  "lower_letter c \<longleftrightarrow> 97 \<le> byte_code c \<and> byte_code c \<le> 122"

text \<open>\<open>^(19|20)\d{2}$\<close> and the other classifiers; each regular expression matches the whole token.\<close>

definition yearRe :: "string \<Rightarrow> bool" where
  "yearRe s \<longleftrightarrow> length s = 4 \<and> take 2 s \<in> {''19'', ''20''} \<and> list_all digit (drop 2 s)"

definition longDigitsRe :: "string \<Rightarrow> bool" where
  "longDigitsRe s \<longleftrightarrow> 3 \<le> length s \<and> list_all digit s"

definition catalogueRe :: "string \<Rightarrow> bool" where
  "catalogueRe s \<longleftrightarrow>
     (let a = takeWhile lower_letter s; r = dropWhile lower_letter s;
          d = takeWhile digit r; rest = dropWhile digit r
      in 1 \<le> length a \<and> length a \<le> 4 \<and> 2 \<le> length d \<and> length d \<le> 6
         \<and> length rest \<le> 1 \<and> list_all lower_letter rest)"

text \<open>A word, then digits: \<open>min\<close> at least.\<close>

definition word_digits :: "string \<Rightarrow> nat \<Rightarrow> string \<Rightarrow> bool" where
  "word_digits w lo s \<longleftrightarrow> HasPrefix s w \<and> list_all digit (drop (length w) s) \<and> lo \<le> length (drop (length w) s)"

text \<open>Between \<open>lo\<close> and \<open>hi\<close> digits, then one of two words.\<close>

definition digits_word :: "nat \<Rightarrow> nat \<Rightarrow> string \<Rightarrow> string \<Rightarrow> string \<Rightarrow> bool" where
  "digits_word lo hi w w' s \<longleftrightarrow>
     (let d = takeWhile digit s in lo \<le> length d \<and> length d \<le> hi \<and> dropWhile digit s \<in> {w, w'})"

definition noiseWords :: "string list" where
  "noiseWords =
     [''flac'', ''mp3'', ''m4a'', ''aac'', ''ogg'', ''opus'', ''wav'', ''alac'', ''ape'', ''wv'',
      ''aiff'', ''dsf'',
      ''vbr'', ''cbr'', ''kbps'', ''kbs'', ''lossless'', ''96khz'', ''192khz'',
      ''web'', ''webrip'', ''cd'', ''cdrip'', ''cdda'', ''vinyl'', ''lp'', ''ep'', ''single'', ''promo'',
      ''retail'', ''tape'', ''cassette'', ''sacd'', ''dvd'', ''bluray'', ''digital'', ''itunes'', ''qobuz'',
      ''tidal'', ''bandcamp'', ''hdtracks'', ''spotify'', ''rip'',
      ''remaster'', ''remastered'', ''reissue'', ''deluxe'', ''expanded'', ''edition'', ''anniversary'',
      ''bonus'', ''special'', ''limited'', ''collectors'', ''collector'', ''japanese'', ''japan'',
      ''version'', ''pressing'',
      ''eac'', ''log'', ''cue'', ''covers'', ''cover'', ''artwork'', ''scans'', ''booklet'', ''nfo'', ''sbd'',
      ''tracks'', ''folder'']"

definition isNoise :: "string \<Rightarrow> bool" where
  "isNoise tok \<longleftrightarrow>
     tok \<in> set noiseWords \<or> yearRe tok \<or> longDigitsRe tok \<or> catalogueRe tok
     \<or> tok \<in> {''v0'', ''v1'', ''v2''} \<or> digits_word 2 3 ''kbp'' ''kbps'' tok
     \<or> digits_word 2 2 ''bit'' ''bits'' tok \<or> word_digits ''cd'' 1 tok \<or> word_digits ''disc'' 0 tok
     \<or> word_digits ''disk'' 0 tok \<or> tok \<in> {''sidea'', ''sideb'', ''sidec'', ''sided''}
     \<or> word_digits ''pt'' 0 tok"

definition nonNoise :: "unicode \<Rightarrow> string \<Rightarrow> string set" where
  "nonNoise u s = set (filter (\<lambda>t. \<not> isNoise t) (tokens u s))"

lemma finite_nonNoise [simp]: "finite (nonNoise u s)"
  by (simp add: nonNoise_def)

section \<open>Dropping an artist token\<close>

definition DropTokenQuery :: "string \<Rightarrow> string \<Rightarrow> int \<Rightarrow> string" where
  "DropTokenQuery artist album attempt =
     (if attempt < 0 then []
      else let artistTokens = Fields artist; albumTokens = Fields album;
               total = length artistTokens + length albumTokens
           in if total < 3 \<or> artistTokens = [] \<or> albumTokens = [] then []
              else let n = nat attempt mod length artistTokens
                   in Join '' '' (take n artistTokens @ drop (Suc n) artistTokens @ albumTokens))"

text \<open>The rotation tries the artist's tokens in turn and comes back to the first.\<close>

lemma DropTokenQuery_rotates:
  "DropTokenQuery artist album (int (n + length (Fields artist))) = DropTokenQuery artist album (int n)"
  by (simp add: DropTokenQuery_def Let_def nat_int_add)

end
