(* ===== verification/Relevance.thy ===== *)
theory Relevance
  imports Normalize
begin

text \<open>
  \<open>internal/matcher/relevance.go\<close>: does a candidate belong to the requested album? The verdict and the
  evidence it rests on are modelled; the sentence that explains it in the log is not. The ratios are
  compared with their bounds by cross-multiplication, which agrees with the division in floating
  point for every count below \<open>2 ^ 50\<close>.
\<close>

section \<open>File names\<close>

definition word_char :: "char \<Rightarrow> bool" where
  "word_char c \<longleftrightarrow> digit c \<or> lower_letter c \<or> lower_letter (ascii_lower c) \<or> c = CHR ''_''"

text \<open>\<open>^(\d{1,3})\b\<close>: the digits at the start, when they end a word.\<close>

definition leadingTrackNumber :: "string \<Rightarrow> string option" where
  "leadingTrackNumber base =
     (let d = takeWhile digit base; r = dropWhile digit base
      in if d \<noteq> [] \<and> length d \<le> 3 \<and> (r = [] \<or> \<not> word_char (hd r)) then Some d else None)"

definition trackBaseName :: "string \<Rightarrow> string" where
  "trackBaseName filename =
     (let normalized = to_slash filename;
          base = TrimSuffix (Base normalized) (Ext normalized)
      in case leadingTrackNumber base of
           None \<Rightarrow> base
         | Some m \<Rightarrow> TrimSpace (dropWhile (\<lambda>c. c \<in> {CHR '' '', CHR ''-'', CHR ''.'', CHR ''_''})
                                 (drop (length m) base)))"

definition trackFilenameTokens :: "unicode \<Rightarrow> string \<Rightarrow> string set" where
  "trackFilenameTokens u filename = nonNoise u (trackBaseName filename)"

text \<open>\<open>hits / len >= num / den\<close>\<close>

definition ratio_at_least :: "nat \<Rightarrow> nat \<Rightarrow> nat \<times> nat \<Rightarrow> bool" where
  "ratio_at_least hits whole bound \<longleftrightarrow> fst bound * whole \<le> snd bound * hits"

definition minTitleRecall :: "nat \<times> nat" where
  "minTitleRecall = (4, 5)"

definition minDirPrecision :: "nat \<times> nat" where
  "minDirPrecision = (3, 5)"

definition minTrackTitleRecall :: "nat \<times> nat" where
  "minTrackTitleRecall = (3, 4)"

definition minTrackMatchRatio :: "nat \<times> nat" where
  "minTrackMatchRatio = (1, 2)"

definition minInterpretableFiles :: nat where
  "minInterpretableFiles = 3"

definition minInterpretableRatio :: "nat \<times> nat" where
  "minInterpretableRatio = (1, 2)"

definition matchesSomeTrack :: "unicode \<Rightarrow> string \<Rightarrow> string set list \<Rightarrow> bool" where
  "matchesSomeTrack u filename expected \<longleftrightarrow>
     (let f = trackFilenameTokens u filename
      in f \<noteq> {} \<and> list_ex (\<lambda>t. t \<noteq> {} \<and> ratio_at_least (card (t \<inter> f)) (card t) minTrackTitleRecall) expected)"

definition interpretableExclusions :: "string list" where
  "interpretableExclusions = [''track'', ''tracks'', ''untitled'', ''audiotrack'', ''unknown'']"

definition isAllDigits :: "string \<Rightarrow> bool" where
  "isAllDigits s \<longleftrightarrow> s \<noteq> [] \<and> list_all digit s"

definition interpretable :: "unicode \<Rightarrow> string \<Rightarrow> bool" where
  "interpretable u filename \<longleftrightarrow>
     list_ex (\<lambda>t. \<not> (isNoise t \<or> t \<in> set interpretableExclusions) \<and> \<not> isAllDigits t)
       (tokens u (trackBaseName filename))"

section \<open>Directories\<close>

definition splitReleaseDir :: "string list \<Rightarrow> string \<times> string" where
  "splitReleaseDir files =
     (case files of
        [] \<Rightarrow> ([], [])
      | f # fs \<Rightarrow>
          let dir = Dir (to_slash f); up = Dir dir
          in if up = ''.'' \<or> up = ''/'' \<or> up = dir then (Base dir, []) else (Base dir, Base up))"

text \<open>
  \<open>\s*[\[{][^\[\]{}]*[\]}]\s*$\<close>: from the back, white space, a closing bracket, anything but
  brackets, an opening bracket, white space.
\<close>

definition sq_open :: "char \<Rightarrow> bool" where
  "sq_open c \<longleftrightarrow> c = CHR ''['' \<or> c = CHR ''{''"

definition sq_close :: "char \<Rightarrow> bool" where
  "sq_close c \<longleftrightarrow> c = CHR '']'' \<or> c = CHR ''}''"

definition strip_trailing_group :: "string \<Rightarrow> string" where
  "strip_trailing_group s =
     (case dropWhile re_space (rev s) of
        [] \<Rightarrow> s
      | c # r \<Rightarrow>
          if \<not> sq_close c then s
          else (case dropWhile (\<lambda>d. \<not> sq_open d \<and> \<not> sq_close d) r of
                  [] \<Rightarrow> s
                | d # rest \<Rightarrow> if sq_open d then rev (dropWhile re_space rest) else s))"

lemma strip_trailing_group_shorter:
  "strip_trailing_group s = s \<or> length (strip_trailing_group s) < length s"
proof (cases "dropWhile re_space (rev s)")
  case (Cons c r)
  then have r: "length r < length s" by (metis length_Cons length_dropWhile_le length_rev Suc_le_lessD)
  show ?thesis
  proof (cases "dropWhile (\<lambda>d. \<not> sq_open d \<and> \<not> sq_close d) r")
    case (Cons d rest)
    then have "length rest < length r" by (metis length_Cons length_dropWhile_le Suc_le_lessD)
    moreover have "length (dropWhile re_space rest) \<le> length rest" by (rule length_dropWhile_le)
    ultimately show ?thesis
      using \<open>dropWhile re_space (rev s) = c # r\<close> Cons r by (simp add: strip_trailing_group_def)
  qed (simp add: strip_trailing_group_def Cons del: dropWhile_eq_Nil_conv)
qed (simp del: dropWhile_eq_Nil_conv add: strip_trailing_group_def)

function stripTrailingBracketNoise :: "string \<Rightarrow> string" where
  "stripTrailingBracketNoise s =
     (let t = strip_trailing_group s in if t = s then s else stripTrailingBracketNoise t)"
  by auto
termination
  by (relation "measure length") (use strip_trailing_group_shorter in auto)

declare stripTrailingBracketNoise.simps [simp del]

definition dir_tokens :: "unicode \<Rightarrow> string \<Rightarrow> string set" where
  "dir_tokens u segment = nonNoise u (stripTrailingBracketNoise segment)"

definition dirCheck :: "unicode \<Rightarrow> string \<Rightarrow> string set \<Rightarrow> string set \<Rightarrow> bool" where
  "dirCheck u segment titleTokens artistTokens \<longleftrightarrow>
     (let dir = dir_tokens u segment
      in dir \<noteq> {}
         \<and> ratio_at_least (card (titleTokens \<inter> dir)) (card titleTokens) minTitleRecall
         \<and> ratio_at_least (card (dir \<inter> (titleTokens \<union> artistTokens))) (card dir) minDirPrecision)"

section \<open>The verdict\<close>

datatype relevance_source = SourceNoData | SourceTrackTitles | SourceDirectory

record relevance_input =
  ri_ArtistName :: string
  ri_AlbumTitle :: string
  ri_TrackTitles :: "string list"
  ri_Files :: "string list"

definition expected_tracks :: "unicode \<Rightarrow> string list \<Rightarrow> string set list" where
  "expected_tracks u titles =
     filter (\<lambda>t. t \<noteq> {}) (map (\<lambda>t. nonNoise u (stripBracketedGroups t)) titles)"

text \<open>The verdict by track titles, when there is enough to judge.\<close>

definition title_verdict :: "unicode \<Rightarrow> relevance_input \<Rightarrow> bool option" where
  "title_verdict u i =
     (let expected = expected_tracks u (ri_TrackTitles i);
          named = filter (interpretable u) (ri_Files i);
          matched = filter (\<lambda>f. matchesSomeTrack u f expected) named
      in if ri_Files i \<noteq> [] \<and> expected \<noteq> [] \<and> minInterpretableFiles \<le> length named
           \<and> ratio_at_least (length named) (length (ri_Files i)) minInterpretableRatio
         then Some (ratio_at_least (length matched) (length named) minTrackMatchRatio) else None)"

definition dir_verdict :: "unicode \<Rightarrow> relevance_input \<Rightarrow> bool" where
  "dir_verdict u i =
     (let titleTokens = nonNoise u (ri_AlbumTitle i); artistTokens = nonNoise u (ri_ArtistName i);
          (last, parent) = splitReleaseDir (ri_Files i)
      in if dir_tokens u last = {} \<and> parent \<noteq> [] then dirCheck u parent titleTokens artistTokens
         else dirCheck u last titleTokens artistTokens)"

definition CheckRelevance :: "unicode \<Rightarrow> relevance_input \<Rightarrow> bool \<times> relevance_source" where
  "CheckRelevance u i =
     (if nonNoise u (ri_AlbumTitle i) = {} then (True, SourceNoData)
      else (case title_verdict u i of
              Some ok \<Rightarrow> (ok, SourceTrackTitles)
            | None \<Rightarrow> (dir_verdict u i, SourceDirectory)))"

section \<open>What an acceptance means\<close>

text \<open>The segment the directory verdict looks at: the parent only when the last has nothing to say.\<close>

definition judged_segment :: "unicode \<Rightarrow> string list \<Rightarrow> string" where
  "judged_segment u files =
     (let (last, parent) = splitReleaseDir files
      in if dir_tokens u last = {} \<and> parent \<noteq> [] then parent else last)"

lemma dir_verdict_judged:
  "dir_verdict u i = dirCheck u (judged_segment u (ri_Files i))
     (nonNoise u (ri_AlbumTitle i)) (nonNoise u (ri_ArtistName i))"
  by (cases "splitReleaseDir (ri_Files i)") (simp add: dir_verdict_def judged_segment_def Let_def)

lemma short_title_recalled:
  assumes "finite T" and "ratio_at_least (card (T \<inter> D)) (card T) minTitleRecall" and "card T \<le> 4"
  shows "T \<subseteq> D"
proof -
  have "card (T \<inter> D) \<le> card T" using assms(1) by (intro card_mono) auto
  with assms(2,3) have "card (T \<inter> D) = card T"
    by (simp add: ratio_at_least_def minTitleRecall_def)
  then have "T \<inter> D = T" using assms(1) by (intro card_subset_eq) auto
  then show ?thesis by blast
qed

lemma accepted_by_directory:
  assumes "CheckRelevance u i = (True, SourceDirectory)"
  shows "let T = nonNoise u (ri_AlbumTitle i); A = nonNoise u (ri_ArtistName i);
             D = dir_tokens u (judged_segment u (ri_Files i))
         in (card T \<le> 4 \<longrightarrow> T \<subseteq> D) \<and> 4 * card T \<le> 5 * card (T \<inter> D)
            \<and> 5 * card (D - (T \<union> A)) \<le> 2 * card D"
proof -
  let ?T = "nonNoise u (ri_AlbumTitle i)" and ?A = "nonNoise u (ri_ArtistName i)"
  let ?D = "dir_tokens u (judged_segment u (ri_Files i))"
  have "dirCheck u (judged_segment u (ri_Files i)) ?T ?A"
    using assms by (auto simp: CheckRelevance_def dir_verdict_judged split: if_splits option.splits)
  then have recall: "ratio_at_least (card (?T \<inter> ?D)) (card ?T) minTitleRecall"
    and precision: "3 * card ?D \<le> 5 * card (?D \<inter> (?T \<union> ?A))"
    by (auto simp: dirCheck_def Let_def ratio_at_least_def minDirPrecision_def)
  have "finite ?D" by (simp add: dir_tokens_def)
  then have "card ?D = card (?D \<inter> (?T \<union> ?A)) + card (?D - (?T \<union> ?A))"
    by (metis card_Int_Diff)
  with recall precision short_title_recalled [OF finite_nonNoise recall] show ?thesis
    by (simp add: Let_def ratio_at_least_def minTitleRecall_def)
qed

text \<open>Track titles are decisive: with enough named files the directories do not matter.\<close>

lemma same_count:
  assumes "map k fs = map k gs" and "\<And>f g. k f = k g \<Longrightarrow> P f = P g"
  shows "length (filter P fs) = length (filter P gs)"
  using assms(1)
proof (induction fs arbitrary: gs)
  case (Cons f fs)
  then obtain g gs' where "gs = g # gs'" "k f = k g" "map k fs = map k gs'"
    by (cases gs) auto
  with Cons.IH [of gs'] assms(2) [of f g] show ?case by simp
qed simp

lemma title_verdict_names:
  assumes "map trackBaseName fs = map trackBaseName gs"
  shows "title_verdict u (i\<lparr>ri_Files := fs\<rparr>) = title_verdict u (i\<lparr>ri_Files := gs\<rparr>)"
proof -
  have int: "interpretable u f = interpretable u g"
    and match: "matchesSomeTrack u f e = matchesSomeTrack u g e"
    if "trackBaseName f = trackBaseName g" for f g e
    using that by (simp_all add: interpretable_def matchesSomeTrack_def trackFilenameTokens_def)
  have len: "length (filter (interpretable u) fs) = length (filter (interpretable u) gs)"
    using assms int by (rule same_count)
  have "length (filter (\<lambda>f. interpretable u f \<and> matchesSomeTrack u f e) fs)
      = length (filter (\<lambda>f. interpretable u f \<and> matchesSomeTrack u f e) gs)" for e
    using assms by (rule same_count) (use int match in blast)
  then have matched: "length (filter (\<lambda>f. matchesSomeTrack u f e) (filter (interpretable u) fs))
      = length (filter (\<lambda>f. matchesSomeTrack u f e) (filter (interpretable u) gs))" for e
    by (simp add: conj_commute)
  have "length fs = length gs" using assms by (rule map_eq_imp_length_eq)
  then show ?thesis
    using len matched by (cases fs; cases gs) (simp_all add: title_verdict_def Let_def)
qed

lemma titles_decide:
  assumes "snd (CheckRelevance u (i\<lparr>ri_Files := fs\<rparr>)) = SourceTrackTitles"
    and "map trackBaseName fs = map trackBaseName gs"
  shows "CheckRelevance u (i\<lparr>ri_Files := gs\<rparr>) = CheckRelevance u (i\<lparr>ri_Files := fs\<rparr>)"
  using assms(1) title_verdict_names [OF assms(2), of u i]
  by (auto simp: CheckRelevance_def split: option.splits if_splits)

end
