(* ===== verification/Rank.thy ===== *)
theory Rank
  imports Complex_Main Relevance StoreHistory
begin

text \<open>
  \<open>internal/matcher/matcher.go\<close> and \<open>reliability_history.go\<close>: search results become candidates, one
  per user and release directory, in one format and with one file per track, ordered by tier and
  score. Scores are real numbers; Go's rounding is not modelled. Go iterates over a map in an order of
  its own choice, so that order is an argument.
\<close>

section \<open>Peer history\<close>

definition hour :: int where
  "hour = 3600 * 10 ^ 9"

definition ReliabilityDecayTau :: int where
  "ReliabilityDecayTau = 30 * 24 * hour"

definition ReliabilityCountCap :: real where
  "ReliabilityCountCap = 20"

definition ReliabilityGlobalInfluence :: real where
  "ReliabilityGlobalInfluence = 1 / 2"

definition ReliabilitySigmoidScale :: real where
  "ReliabilitySigmoidScale = 5"

definition hours_of :: "int \<Rightarrow> real" where
  "hours_of d = real_of_int d / real_of_int hour"

definition decayedCount :: "nat \<Rightarrow> ts option \<Rightarrow> ts \<Rightarrow> real" where
  "decayedCount count seen now =
     (case seen of
        None \<Rightarrow> 0
      | Some t \<Rightarrow>
          if count = 0 then 0
          else let age = (if now - t < 0 then 0 else now - t)
               in min (real count) ReliabilityCountCap * exp (- hours_of age / hours_of ReliabilityDecayTau))"

definition decayedNet :: "counters \<Rightarrow> ts \<Rightarrow> real" where
  "decayedNet c now =
     decayedCount (rc_SuccessCount c) (rc_LastSuccessAt c) now - decayedCount (rc_FailCount c) (rc_LastFailAt c) now"

definition ReliabilityHistoryScore :: "peer_reliability \<Rightarrow> ts \<Rightarrow> real" where
  "ReliabilityHistoryScore rel now =
     (let net = decayedNet (pr_Artist rel) now + ReliabilityGlobalInfluence * decayedNet (pr_Global rel) now
      in 1 / (1 + exp (- net / ReliabilitySigmoidScale)))"

definition LastResortThreshold :: real where
  "LastResortThreshold = 1 / 4"

definition IsLastResortPeer :: "peer_reliability \<Rightarrow> ts \<Rightarrow> bool" where
  "IsLastResortPeer rel now \<longleftrightarrow> ReliabilityHistoryScore rel now \<le> LastResortThreshold"

lemma decayedCount_bounds:
  "0 \<le> decayedCount n seen now" and "decayedCount n seen now \<le> 20"
proof -
  have "min (real n) ReliabilityCountCap * exp (- hours_of age / hours_of ReliabilityDecayTau) \<le> 20 * 1"
    if "0 \<le> age" for age
    using that by (intro mult_mono)
      (auto simp: ReliabilityCountCap_def hours_of_def hour_def ReliabilityDecayTau_def)
  then show "decayedCount n seen now \<le> 20"
    by (auto simp: decayedCount_def Let_def split: option.splits)
  show "0 \<le> decayedCount n seen now"
    by (auto simp: decayedCount_def Let_def ReliabilityCountCap_def split: option.splits)
qed

lemma history_score_range: "0 < ReliabilityHistoryScore rel now \<and> ReliabilityHistoryScore rel now < 1"
  by (simp add: ReliabilityHistoryScore_def Let_def add_pos_pos)

text \<open>A record older than two time constants has at most a sixth of its weight.\<close>

lemma decayedCount_old:
  assumes "now - t \<ge> 2 * ReliabilityDecayTau"
  shows "decayedCount n (Some t) now \<le> 20 * (4 / 25)"
proof -
  let ?x = "hours_of (now - t) / hours_of ReliabilityDecayTau"
  have x: "2 \<le> ?x"
    using assms by (simp add: hours_of_def ReliabilityDecayTau_def hour_def field_simps)
  have "(5 / 2 :: real) \<le> exp 1" using exp_lower_Taylor_quadratic [of "1::real"] by simp
  then have "(5 / 2 :: real) * (5 / 2) \<le> exp 1 * exp 1" by (intro mult_mono) auto
  then have "25 / 4 \<le> exp (2::real)" by (simp add: exp_add [symmetric])
  moreover have "exp 2 \<le> exp ?x" using x by simp
  ultimately have "25 / 4 \<le> exp ?x" by linarith
  then have "exp (- ?x) \<le> 4 / 25"
    by (simp add: exp_minus inverse_eq_divide field_simps)
  then have "min (real n) ReliabilityCountCap * exp (- ?x) \<le> 20 * (4 / 25)"
    by (intro mult_mono) (auto simp: ReliabilityCountCap_def)
  moreover have "\<not> now - t < 0"
    using assms by (simp add: ReliabilityDecayTau_def hour_def)
  ultimately show ?thesis by (simp add: decayedCount_def Let_def)
qed

definition failed_long_ago :: "counters \<Rightarrow> ts \<Rightarrow> bool" where
  "failed_long_ago c now \<longleftrightarrow>
     (case rc_LastFailAt c of None \<Rightarrow> True | Some t \<Rightarrow> rc_FailCount c = 0 \<or> now - t \<ge> 2 * ReliabilityDecayTau)"

lemma net_old: "failed_long_ago c now \<Longrightarrow> - (20 * (4 / 25)) \<le> decayedNet c now"
proof -
  assume old: "failed_long_ago c now"
  have "decayedCount (rc_FailCount c) (rc_LastFailAt c) now \<le> 20 * (4 / 25)"
  proof (cases "rc_LastFailAt c")
    case (Some t)
    show ?thesis
    proof (cases "rc_FailCount c = 0")
      case False
      with old Some have "2 * ReliabilityDecayTau \<le> now - t" by (simp add: failed_long_ago_def)
      then show ?thesis unfolding Some by (rule decayedCount_old)
    qed (simp add: Some decayedCount_def)
  qed (simp add: decayedCount_def)
  moreover have "0 \<le> decayedCount (rc_SuccessCount c) (rc_LastSuccessAt c) now"
    by (rule decayedCount_bounds(1))
  ultimately show ?thesis by (simp add: decayedNet_def)
qed

lemma old_failures_forgiven:
  assumes "failed_long_ago (pr_Artist rel) now" and "failed_long_ago (pr_Global rel) now"
  shows "\<not> IsLastResortPeer rel now"
proof -
  let ?net = "decayedNet (pr_Artist rel) now + ReliabilityGlobalInfluence * decayedNet (pr_Global rel) now"
  have "- ?net / ReliabilitySigmoidScale \<le> 24 / 25"
    using net_old [OF assms(1)] net_old [OF assms(2)]
    by (simp add: ReliabilityGlobalInfluence_def ReliabilitySigmoidScale_def)
  then have "exp (- ?net / ReliabilitySigmoidScale) \<le> exp (24 / 25)" by simp
  also have "\<dots> \<le> 1 + 24 / 25 + (24 / 25)\<^sup>2" by (rule exp_bound) auto
  finally have "exp (- ?net / ReliabilitySigmoidScale) < 3" by (simp add: power2_eq_square)
  moreover have "0 < exp (- ?net / ReliabilitySigmoidScale)" by simp
  moreover have "\<not> 1 / (1 + x) \<le> 1 / 4" if "x < 3" "0 < x" for x :: real
    using that by (simp add: field_simps)
  ultimately have "\<not> 1 / (1 + exp (- ?net / ReliabilitySigmoidScale)) \<le> 1 / 4" by blast
  then show ?thesis
    unfolding IsLastResortPeer_def ReliabilityHistoryScore_def LastResortThreshold_def Let_def .
qed

section \<open>Orders\<close>

text \<open>What a comparison function promises; where it decides between any two, it decides everything.\<close>

locale ranking =
  fixes before :: "'a \<Rightarrow> 'a \<Rightarrow> bool"
  assumes before_asym: "before x y \<Longrightarrow> \<not> before y x"
    and before_cotrans: "\<not> before x y \<Longrightarrow> \<not> before y z \<Longrightarrow> \<not> before x z"
begin

lemma before_irrefl: "\<not> before x x"
  using before_asym by blast

lemma before_trans: "before x y \<Longrightarrow> before y z \<Longrightarrow> before x z"
  using before_asym before_cotrans by blast

lemma choice_best:
  "let r = fold (\<lambda>x best. if before x best then x else best) xs b
   in r \<in> insert b (set xs) \<and> (\<forall>x \<in> insert b (set xs). \<not> before x r)"
proof (induction xs arbitrary: b)
  case Nil
  then show ?case by (simp add: before_irrefl)
next
  case (Cons x xs)
  let ?b = "if before x b then x else b"
  let ?r = "fold (\<lambda>x best. if before x best then x else best) xs ?b"
  have r: "?r \<in> insert ?b (set xs)" "\<forall>y \<in> insert ?b (set xs). \<not> before y ?r"
    using Cons.IH [of ?b] unfolding Let_def by blast+
  have "\<not> before x ?b \<and> \<not> before b ?b" using before_asym before_irrefl by simp
  then have "\<not> before x ?r \<and> \<not> before b ?r" using r(2) before_cotrans by blast
  with r show ?case by (auto simp: Let_def split: if_splits)
qed

lemma sorted_unique:
  assumes "\<forall>x \<in> set xs. \<forall>y \<in> set xs. x \<noteq> y \<longrightarrow> before x y \<or> before y x"
    and "sorted_wrt (\<lambda>x y. \<not> before y x) xs" and "sorted_wrt (\<lambda>x y. \<not> before y x) ys"
    and "distinct xs" and "distinct ys" and "set xs = set ys"
  shows "xs = ys"
  using assms
proof (induction xs arbitrary: ys)
  case (Cons x xs)
  then obtain y ys' where ys: "ys = y # ys'" by (cases ys) auto
  have "x = y"
  proof (rule ccontr)
    assume "x \<noteq> y"
    then have "x \<in> set ys'" "y \<in> set xs" using Cons.prems(6) ys by auto
    then have "\<not> before x y" "\<not> before y x" using Cons.prems(2,3) ys by auto
    with \<open>x \<noteq> y\<close> Cons.prems(1) \<open>y \<in> set xs\<close> show False by auto
  qed
  with Cons.prems ys have "xs = ys'" by (intro Cons.IH) auto
  with ys \<open>x = y\<close> show ?case by simp
qed simp

lemma sorted_insert:
  "sorted_wrt (\<lambda>x y. \<not> before y x) xs \<Longrightarrow> sorted_wrt (\<lambda>x y. \<not> before y x) (insert_before before r xs)"
proof (induction xs)
  case (Cons x xs)
  show ?case
  proof (cases "before x r")
    case True
    with Cons show ?thesis by (auto dest: before_asym)
  next
    case False
    have "\<not> before y r" if "y \<in> set xs" for y
      using that Cons.prems False before_cotrans [of y x r] by simp
    with Cons False show ?thesis by simp
  qed
qed simp

lemma sorted_order: "sorted_wrt (\<lambda>x y. \<not> before y x) (order_by before xs)"
  by (induction xs) (simp_all add: order_by_def sorted_insert)

end

section \<open>Files\<close>

record search_result =
  sr_Username :: string
  sr_Filename :: string
  sr_Size :: int
  sr_BitRate :: int
  sr_HasFreeUploadSlot :: bool
  sr_QueueLength :: int
  sr_UploadSpeed :: int
  sr_Duration :: int
  sr_SampleRate :: int
  sr_BitDepth :: int
  sr_VariableBitRate :: bool

record weights =
  w_Format :: real
  w_Bitrate :: real
  w_Reliability :: real
  w_FileCount :: real
  w_KnownUser :: real

definition FormatScore :: "unicode \<Rightarrow> string \<Rightarrow> real" where
  "FormatScore u filename =
     (let lower = ToLower u filename
      in if HasSuffix lower ''.flac'' then 1 else if HasSuffix lower ''.mp3'' then 1 / 2 else 1 / 5)"

definition passesFloor :: "unicode \<Rightarrow> int \<Rightarrow> search_result \<Rightarrow> bool" where
  "passesFloor u minBitrate r \<longleftrightarrow>
     (if FormatScore u (sr_Filename r) \<ge> 1 then True else sr_BitRate r \<ge> minBitrate)"

definition ReliabilityScore :: "search_result \<Rightarrow> real" where
  "ReliabilityScore r =
     (if sr_HasFreeUploadSlot r then 7 / 10 else 0) + (if sr_QueueLength r = 0 then 3 / 10 else 0)"

definition ReleaseDir :: "string \<Rightarrow> string" where
  "ReleaseDir filename = Dir (to_slash filename)"

definition trackKey :: "string \<Rightarrow> string" where
  "trackKey filename =
     (let base = Base (to_slash filename)
      in case leadingTrackNumber base of Some m \<Rightarrow> m | None \<Rightarrow> base)"

definition ExtOf :: "unicode \<Rightarrow> string \<Rightarrow> string" where
  "ExtOf u filename = ToLower u (Ext (to_slash filename))"

section \<open>One format per release\<close>

definition ext_group :: "unicode \<Rightarrow> search_result list \<Rightarrow> string \<Rightarrow> search_result list" where
  "ext_group u files ext = filter (\<lambda>f. ExtOf u (sr_Filename f) = ext) files"

definition group_score :: "unicode \<Rightarrow> search_result list \<Rightarrow> string \<Rightarrow> real" where
  "group_score u files ext = FormatScore u (sr_Filename (hd (ext_group u files ext)))"

text \<open>The three cases of the switch: score, then size of the group, then name.\<close>

definition ext_beats :: "unicode \<Rightarrow> search_result list \<Rightarrow> string \<Rightarrow> string \<Rightarrow> bool" where
  "ext_beats u files ext best \<longleftrightarrow>
     group_score u files ext > group_score u files best
     \<or> group_score u files ext = group_score u files best
        \<and> (length (ext_group u files ext) > length (ext_group u files best)
           \<or> length (ext_group u files ext) = length (ext_group u files best) \<and> string_less ext best)"

text \<open>The empty string marks that there is no best extension yet.\<close>

definition ext_step :: "unicode \<Rightarrow> search_result list \<Rightarrow> string \<Rightarrow> string \<Rightarrow> string" where
  "ext_step u files ext bestExt =
     (if bestExt = [] then ext else if ext_beats u files ext bestExt then ext else bestExt)"

text \<open>The first file of every track.\<close>

fun first_per_key :: "('a \<Rightarrow> 'k) \<Rightarrow> 'k list \<Rightarrow> 'a list \<Rightarrow> 'a list" where
  "first_per_key k seen [] = []"
| "first_per_key k seen (x # xs) =
     (if k x \<in> set seen then first_per_key k seen xs else x # first_per_key k (k x # seen) xs)"

definition extensions :: "unicode \<Rightarrow> search_result list \<Rightarrow> string list" where
  "extensions u files = remdups (map (\<lambda>f. ExtOf u (sr_Filename f)) files)"

definition bestExt :: "unicode \<Rightarrow> (string list \<Rightarrow> string list) \<Rightarrow> search_result list \<Rightarrow> string" where
  "bestExt u ord files = fold (ext_step u files) (ord (extensions u files)) []"

definition dedupeTracks ::
  "unicode \<Rightarrow> (string list \<Rightarrow> string list) \<Rightarrow> search_result list \<Rightarrow> search_result list" where
  "dedupeTracks u ord files =
     first_per_key (\<lambda>f. trackKey (sr_Filename f)) [] (ext_group u files (bestExt u ord files))"

section \<open>Ranking\<close>

record ranked_candidate =
  rk_Username :: string
  rk_Files :: "search_result list"
  rk_Score :: real
  rk_LastResort :: bool

type_synonym release_key = "string \<times> string"

definition release_key :: "search_result \<Rightarrow> release_key" where
  "release_key r = (sr_Username r, ReleaseDir (sr_Filename r))"

definition release_files ::
  "unicode \<Rightarrow> int \<Rightarrow> search_result list \<Rightarrow> release_key \<Rightarrow> search_result list" where
  "release_files u minBitrate results k =
     filter (\<lambda>r. release_key r = k) (filter (passesFloor u minBitrate) results)"

definition release_keys :: "unicode \<Rightarrow> int \<Rightarrow> search_result list \<Rightarrow> release_key list" where
  "release_keys u minBitrate results = remdups (map release_key (filter (passesFloor u minBitrate) results))"

definition candidate_score ::
  "unicode \<Rightarrow> weights \<Rightarrow> peer_reliability \<Rightarrow> ts \<Rightarrow> search_result list \<Rightarrow> real" where
  "candidate_score u w rel now files =
     sum_list (map (\<lambda>f. w_Format w * FormatScore u (sr_Filename f)
        + w_Bitrate w * (real_of_int (sr_BitRate f) / 1000)) files)
     + w_FileCount w * real (length files)
     + w_Reliability w * ReliabilityScore (hd files)
     + w_KnownUser w * ReliabilityHistoryScore rel now"

definition history :: "(string \<rightharpoonup> peer_reliability) \<Rightarrow> string \<Rightarrow> peer_reliability" where
  "history rel user =
     (case rel user of Some r \<Rightarrow> r | None \<Rightarrow> \<lparr>pr_Artist = no_counters, pr_Global = no_counters\<rparr>)"

definition rank_candidate ::
  "unicode \<Rightarrow> weights \<Rightarrow> int \<Rightarrow> (string list \<Rightarrow> string list) \<Rightarrow> search_result list
     \<Rightarrow> (string \<rightharpoonup> peer_reliability) \<Rightarrow> ts \<Rightarrow> release_key \<Rightarrow> ranked_candidate" where
  "rank_candidate u w minBitrate ord results rel now k =
     (let files = dedupeTracks u ord (release_files u minBitrate results k);
          peer = history rel (fst k)
      in \<lparr>rk_Username = fst k, rk_Files = files, rk_Score = candidate_score u w peer now files,
          rk_LastResort = IsLastResortPeer peer now\<rparr>)"

definition rank_less :: "ranked_candidate \<Rightarrow> ranked_candidate \<Rightarrow> bool" where
  "rank_less a b \<longleftrightarrow>
     (if rk_LastResort a \<noteq> rk_LastResort b then \<not> rk_LastResort a
      else if rk_Score a \<noteq> rk_Score b then rk_Score a > rk_Score b
      else if rk_Username a \<noteq> rk_Username b then string_less (rk_Username a) (rk_Username b)
      else string_less (sr_Filename (hd (rk_Files a))) (sr_Filename (hd (rk_Files b))))"

definition Rank ::
  "unicode \<Rightarrow> weights \<Rightarrow> int \<Rightarrow> (string list \<Rightarrow> string list) \<Rightarrow> (release_key list \<Rightarrow> release_key list)
     \<Rightarrow> search_result list \<Rightarrow> (string \<rightharpoonup> peer_reliability) \<Rightarrow> ts \<Rightarrow> ranked_candidate list" where
  "Rank u w minBitrate ord ordk results rel now =
     order_by rank_less (map (rank_candidate u w minBitrate ord results rel now)
       (ordk (release_keys u minBitrate results)))"

lemma ext_beats_cotrans: "\<not> ext_beats u fs x y \<Longrightarrow> \<not> ext_beats u fs y z \<Longrightarrow> \<not> ext_beats u fs x z"
  by (auto simp: ext_beats_def) (metis string_not_less_trans)

lemma rank_less_cotrans: "\<not> rank_less x y \<Longrightarrow> \<not> rank_less y z \<Longrightarrow> \<not> rank_less x z"
  by (auto simp: rank_less_def split: if_splits)
    (metis string_not_less_trans string_less_total)+

lemma ext_beats_asym: "ext_beats u fs x y \<Longrightarrow> \<not> ext_beats u fs y x"
  by (auto simp: ext_beats_def dest: string_less_asym)

lemma rank_less_asym: "rank_less x y \<Longrightarrow> \<not> rank_less y x"
  by (auto simp: rank_less_def split: if_splits dest: string_less_asym)

interpretation ext_rank: ranking "ext_beats u files"
  by unfold_locales (use ext_beats_asym ext_beats_cotrans in blast)+

interpretation candidate_rank: ranking rank_less
  by unfold_locales (use rank_less_asym rank_less_cotrans in blast)+

section \<open>What a candidate is\<close>

lemma first_per_key_set: "set (first_per_key k seen xs) \<subseteq> set xs"
proof (induction xs arbitrary: seen)
  case (Cons x xs)
  from Cons [of seen] Cons [of "k x # seen"] show ?case by auto
qed simp

lemma first_per_key_keys: "k ` set (first_per_key k seen xs) = k ` set xs - set seen"
  by (induction xs arbitrary: seen) auto

lemma first_per_key_distinct: "distinct (map k (first_per_key k seen xs))"
proof (induction xs arbitrary: seen)
  case (Cons x xs)
  have "k x \<notin> k ` set (first_per_key k (k x # seen) xs)" by (simp add: first_per_key_keys)
  with Cons show ?case by simp
qed simp

definition permutes_keys :: "('k list \<Rightarrow> 'k list) \<Rightarrow> bool" where
  "permutes_keys ord \<longleftrightarrow> (\<forall>ks. distinct ks \<longrightarrow> distinct (ord ks) \<and> set (ord ks) = set ks)"

lemma ext_step_choice:
  "\<lbrakk>[] \<notin> set es; b \<noteq> []\<rbrakk> \<Longrightarrow>
   fold (ext_step u files) es b = fold (\<lambda>x best. if ext_beats u files x best then x else best) es b"
proof (induction es arbitrary: b)
  case (Cons e es)
  then have "(if ext_beats u files e b then e else b) \<noteq> []" by auto
  with Cons show ?case by (simp add: ext_step_def)
qed simp

lemma ext_step_member:
  "fold (ext_step u files) es b \<in> insert b (set es) \<and> (b = [] \<and> es \<noteq> [] \<longrightarrow> fold (ext_step u files) es b \<in> set es)"
proof (induction es arbitrary: b)
  case (Cons e es)
  from Cons.IH [of "ext_step u files e b"] show ?case
    by (auto simp: ext_step_def split: if_splits)
qed simp

lemma bestExt_member:
  assumes "permutes_keys ord" and "files \<noteq> []"
  shows "bestExt u ord files \<in> set (extensions u files)"
proof -
  have same: "set (ord (extensions u files)) = set (extensions u files)"
    using assms(1) by (simp add: permutes_keys_def extensions_def)
  then have "ord (extensions u files) \<noteq> []"
    using assms(2) by (metis extensions_def map_is_Nil_conv remdups_eq_nil_iff set_empty)
  with ext_step_member same show ?thesis unfolding bestExt_def by metis
qed

lemma bestExt_unbeaten:
  assumes "permutes_keys ord" and "files \<noteq> []" and "\<forall>f \<in> set files. ExtOf u (sr_Filename f) \<noteq> []"
    and "e \<in> set (extensions u files)"
  shows "\<not> ext_beats u files e (bestExt u ord files)"
proof -
  have same: "set (ord (extensions u files)) = set (extensions u files)"
    using assms(1) by (simp add: permutes_keys_def extensions_def)
  have plain: "[] \<notin> set (extensions u files)" using assms(3) by (force simp: extensions_def)
  obtain x es where es: "ord (extensions u files) = x # es"
    using assms(4) same by (cases "ord (extensions u files)") auto
  then have "x \<noteq> []" "[] \<notin> set es" using plain same by auto
  then have "bestExt u ord files = fold (\<lambda>x best. if ext_beats u files x best then x else best) es x"
    using ext_step_choice [of es x u files] by (simp add: bestExt_def es ext_step_def [of u files x])
  with ext_rank.choice_best [of u files es x] assms(4) same es show ?thesis by (auto simp: Let_def)
qed

text \<open>When every file has an extension, the order of the map does not matter.\<close>

lemma bestExt_order:
  assumes "permutes_keys ord" and "permutes_keys ord'"
    and "\<forall>f \<in> set files. ExtOf u (sr_Filename f) \<noteq> []" and "files \<noteq> []"
  shows "bestExt u ord files = bestExt u ord' files"
proof (rule ccontr)
  let ?a = "bestExt u ord files" and ?b = "bestExt u ord' files"
  assume "?a \<noteq> ?b"
  then have "ext_beats u files ?a ?b \<or> ext_beats u files ?b ?a"
    using string_less_linear by (auto simp: ext_beats_def)
  with assms bestExt_unbeaten bestExt_member show False by metis
qed

lemma dedupeTracks_release:
  assumes "permutes_keys ord" and "files \<noteq> []"
  shows "dedupeTracks u ord files \<noteq> []" and "set (dedupeTracks u ord files) \<subseteq> set files"
    and "\<forall>f \<in> set (dedupeTracks u ord files). ExtOf u (sr_Filename f) = bestExt u ord files"
    and "distinct (map (\<lambda>f. trackKey (sr_Filename f)) (dedupeTracks u ord files))"
proof -
  let ?k = "\<lambda>f. trackKey (sr_Filename f)"
  obtain f where "f \<in> set (ext_group u files (bestExt u ord files))"
    using bestExt_member [OF assms, of u] by (auto simp: extensions_def ext_group_def)
  then have "?k ` set (dedupeTracks u ord files) \<noteq> {}"
    unfolding dedupeTracks_def first_per_key_keys by auto
  then show "dedupeTracks u ord files \<noteq> []" by auto
  have "set (dedupeTracks u ord files) \<subseteq> set (ext_group u files (bestExt u ord files))"
    unfolding dedupeTracks_def by (rule first_per_key_set)
  then show "set (dedupeTracks u ord files) \<subseteq> set files"
    and "\<forall>f \<in> set (dedupeTracks u ord files). ExtOf u (sr_Filename f) = bestExt u ord files"
    by (auto simp: ext_group_def)
  show "distinct (map ?k (dedupeTracks u ord files))"
    unfolding dedupeTracks_def by (rule first_per_key_distinct)
qed

lemma release_files_nonempty:
  "k \<in> set (release_keys u mb results) \<Longrightarrow> release_files u mb results k \<noteq> []"
  by (auto simp: release_keys_def release_files_def filter_empty_conv)

definition one_release :: "unicode \<Rightarrow> int \<Rightarrow> search_result list \<Rightarrow> ranked_candidate \<Rightarrow> bool" where
  "one_release u mb results c \<longleftrightarrow> rk_Files c \<noteq> []
     \<and> (\<forall>f \<in> set (rk_Files c). f \<in> set results \<and> passesFloor u mb f \<and> sr_Username f = rk_Username c)
     \<and> (\<exists>dir ext. \<forall>f \<in> set (rk_Files c). ReleaseDir (sr_Filename f) = dir \<and> ExtOf u (sr_Filename f) = ext)
     \<and> distinct (map (\<lambda>f. trackKey (sr_Filename f)) (rk_Files c))"

lemma rank_candidate_release:
  assumes "permutes_keys ord" and "k \<in> set (release_keys u mb results)"
  shows "one_release u mb results (rank_candidate u w mb ord results rel now k)"
    and "release_key (hd (rk_Files (rank_candidate u w mb ord results rel now k))) = k"
proof -
  let ?files = "release_files u mb results k" and ?c = "rank_candidate u w mb ord results rel now k"
  have files: "rk_Files ?c = dedupeTracks u ord ?files" "rk_Username ?c = fst k"
    by (simp_all add: rank_candidate_def Let_def)
  note d = dedupeTracks_release [OF assms(1) release_files_nonempty [OF assms(2)], of u]
  have mem: "f \<in> set results \<and> passesFloor u mb f \<and> release_key f = k" if "f \<in> set (rk_Files ?c)" for f
    using that d(2) files by (auto simp: release_files_def)
  have same: "sr_Username f = fst k" "ReleaseDir (sr_Filename f) = snd k" if "f \<in> set (rk_Files ?c)" for f
    using mem [OF that] by (auto simp: release_key_def)
  have "\<forall>f \<in> set (rk_Files ?c). ReleaseDir (sr_Filename f) = snd k \<and> ExtOf u (sr_Filename f) = bestExt u ord ?files"
    using same(2) d(3) files by simp
  then show "one_release u mb results ?c"
    using d(1,4) mem same(1) files unfolding one_release_def by fastforce
  show "release_key (hd (rk_Files ?c)) = k"
    using mem d(1) files by simp
qed

section \<open>The ranking is determined\<close>

lemma rank_less_total:
  assumes "permutes_keys ord" and "k \<in> set (release_keys u mb results)" and "l \<in> set (release_keys u mb results)"
    and "k \<noteq> l"
  shows "rank_less (rank_candidate u w mb ord results rel now k) (rank_candidate u w mb ord results rel now l)
    \<or> rank_less (rank_candidate u w mb ord results rel now l) (rank_candidate u w mb ord results rel now k)"
    (is "rank_less ?a ?b \<or> _")
proof (rule ccontr)
  assume no: "\<not> (rank_less ?a ?b \<or> rank_less ?b ?a)"
  then have "rk_Username ?a = rk_Username ?b"
    and "sr_Filename (hd (rk_Files ?a)) = sr_Filename (hd (rk_Files ?b))"
    unfolding rank_less_def using string_less_linear by (auto split: if_splits)
  moreover have "rk_Username ?a = fst k" "rk_Username ?b = fst l"
    by (simp_all add: rank_candidate_def Let_def)
  moreover have "snd k = ReleaseDir (sr_Filename (hd (rk_Files ?a)))"
    and "snd l = ReleaseDir (sr_Filename (hd (rk_Files ?b)))"
    using rank_candidate_release(2) [OF assms(1,2)] rank_candidate_release(2) [OF assms(1,3)]
    by (metis release_key_def snd_conv)+
  ultimately have "k = l" by (simp add: prod_eq_iff)
  with assms(4) show False by simp
qed

lemma Rank_set:
  assumes "permutes_keys ordk"
  shows "set (Rank u w mb ord ordk results rel now)
    = rank_candidate u w mb ord results rel now ` set (release_keys u mb results)"
  using assms by (simp add: Rank_def permutes_keys_def release_keys_def)

lemma Rank_sorted: "sorted_wrt (\<lambda>a b. \<not> rank_less b a) (Rank u w mb ord ordk results rel now)"
  unfolding Rank_def by (rule candidate_rank.sorted_order)

lemma rank_candidate_inj:
  assumes "permutes_keys ord"
  shows "inj_on (rank_candidate u w mb ord results rel now) (set (release_keys u mb results))"
  by (rule inj_onI) (metis assms rank_candidate_release(2))

lemma Rank_distinct:
  assumes "permutes_keys ord" and "permutes_keys ordk"
  shows "distinct (Rank u w mb ord ordk results rel now)"
proof -
  have "distinct (ordk (release_keys u mb results))" "set (ordk (release_keys u mb results)) = set (release_keys u mb results)"
    using assms(2) by (simp_all add: permutes_keys_def release_keys_def)
  with rank_candidate_inj [OF assms(1)] show ?thesis
    unfolding Rank_def by (metis distinct_map distinct_order_by list.map_ident)
qed

lemma rank_candidate_order:
  assumes "permutes_keys ord" and "permutes_keys ord'"
    and "\<forall>r \<in> set results. passesFloor u mb r \<longrightarrow> ExtOf u (sr_Filename r) \<noteq> []"
    and "k \<in> set (release_keys u mb results)"
  shows "rank_candidate u w mb ord results rel now k = rank_candidate u w mb ord' results rel now k"
proof -
  have "bestExt u ord (release_files u mb results k) = bestExt u ord' (release_files u mb results k)"
    using assms release_files_nonempty [OF assms(4)]
    by (intro bestExt_order) (auto simp: release_files_def)
  then show ?thesis by (simp add: rank_candidate_def dedupeTracks_def)
qed

lemma Rank_order:
  assumes "permutes_keys ord" and "permutes_keys ord'" and "permutes_keys ordk" and "permutes_keys ordk'"
    and "\<forall>r \<in> set results. passesFloor u mb r \<longrightarrow> ExtOf u (sr_Filename r) \<noteq> []"
  shows "Rank u w mb ord ordk results rel now = Rank u w mb ord' ordk' results rel now"
proof (rule candidate_rank.sorted_unique)
  have same: "rank_candidate u w mb ord results rel now k = rank_candidate u w mb ord' results rel now k"
    if "k \<in> set (release_keys u mb results)" for k
    using that assms by (intro rank_candidate_order)
  then show "set (Rank u w mb ord ordk results rel now) = set (Rank u w mb ord' ordk' results rel now)"
    by (auto simp: Rank_set [OF assms(3)] Rank_set [OF assms(4)] image_iff)
  show "\<forall>x \<in> set (Rank u w mb ord ordk results rel now). \<forall>y \<in> set (Rank u w mb ord ordk results rel now).
      x \<noteq> y \<longrightarrow> rank_less x y \<or> rank_less y x"
    unfolding Rank_set [OF assms(3)] using rank_less_total [OF assms(1)] by blast
qed (use assms Rank_sorted Rank_distinct in auto)

end
