(* ===== verification/Files.thy ===== *)
theory Files
  imports Text
begin

text \<open>
  The part of the file system the pipeline touches, as a list of the files and directories that exist,
  and the calls of Go's \<open>os\<close> and \<open>path/filepath\<close> the code uses of it. Paths are slash-separated.
\<close>

section \<open>Paths\<close>

text \<open>\<open>filepath.Join\<close> of two elements.\<close>

definition path_Join :: "string \<Rightarrow> string \<Rightarrow> string" where
  "path_Join a b =
     (if a = [] then (if b = [] then [] else Clean b) else if b = [] then Clean a else Clean (a @ ''/'' @ b))"

definition elements :: "string \<Rightarrow> string list" where
  "elements p = filter (\<lambda>e. e \<noteq> [] \<and> e \<noteq> ''.'') (split_on (CHR ''/'') [] (Clean p))"

fun strip_prefix :: "'a list \<Rightarrow> 'a list \<Rightarrow> 'a list option" where
  "strip_prefix [] ys = Some ys"
| "strip_prefix (x # xs) [] = None"
| "strip_prefix (x # xs) (y # ys) = (if x = y then strip_prefix xs ys else None)"

lemma strip_prefix_Some: "strip_prefix xs ys = Some zs \<longleftrightarrow> ys = xs @ zs"
  by (induction xs ys rule: strip_prefix.induct) auto

lemma strip_prefix_append [simp]: "strip_prefix xs (xs @ zs) = Some zs"
  by (simp add: strip_prefix_Some)

lemma strip_prefix_None: "strip_prefix xs ys = None \<longleftrightarrow> (\<nexists>zs. ys = xs @ zs)"
  using strip_prefix_Some [of xs ys] by (cases "strip_prefix xs ys") auto

text \<open>\<open>filepath.Rel\<close> gives one element other than \<open>..\<close>: the path is a child of the directory.\<close>

definition child_of :: "string \<Rightarrow> string \<Rightarrow> bool" where
  "child_of dir p \<longleftrightarrow> HasPrefix (Clean dir) ''/'' = HasPrefix (Clean p) ''/''
     \<and> (case strip_prefix (elements dir) (elements p) of Some [x] \<Rightarrow> x \<noteq> ''..'' | _ \<Rightarrow> False)"

section \<open>Trees\<close>

datatype node = Directory | RegularFile

type_synonym tree = "(string list \<times> node) list"

datatype os_error = NotExist | OsError

definition node_at :: "tree \<Rightarrow> string list \<Rightarrow> node option" where
  "node_at t p = (if p = [] then Some Directory else map_of t p)"

definition below :: "string list \<Rightarrow> string list \<Rightarrow> bool" where
  "below dir p \<longleftrightarrow> strip_prefix dir p \<noteq> None"

definition entries_of :: "tree \<Rightarrow> string list \<Rightarrow> (string \<times> node) list" where
  "entries_of t dir =
     List.map_filter (\<lambda>(p, n). case strip_prefix dir p of Some [x] \<Rightarrow> Some (x, n) | _ \<Rightarrow> None) t"

text \<open>\<open>os.Stat\<close> and \<open>os.Lstat\<close>; there are no links.\<close>

definition os_Stat :: "string \<Rightarrow> tree \<Rightarrow> os_error + node" where
  "os_Stat path t = (case node_at t (elements path) of None \<Rightarrow> Inl NotExist | Some n \<Rightarrow> Inr n)"

fun prefixes_of :: "'a list \<Rightarrow> 'a list list" where
  "prefixes_of [] = []"
| "prefixes_of (x # xs) = [x] # map ((#) x) (prefixes_of xs)"

fun make_dirs :: "string list list \<Rightarrow> tree \<Rightarrow> os_error + tree" where
  "make_dirs [] t = Inr t"
| "make_dirs (p # ps) t =
     (case node_at t p of
        Some RegularFile \<Rightarrow> Inl OsError
      | Some Directory \<Rightarrow> make_dirs ps t
      | None \<Rightarrow> make_dirs ps (t @ [(p, Directory)]))"

definition os_MkdirAll :: "string \<Rightarrow> tree \<Rightarrow> os_error + tree" where
  "os_MkdirAll path t = make_dirs (prefixes_of (elements path)) t"

definition move_entry :: "string list \<Rightarrow> string list \<Rightarrow> string list \<times> node \<Rightarrow> string list \<times> node" where
  "move_entry src dst e =
     (case strip_prefix src (fst e) of None \<Rightarrow> e | Some rest \<Rightarrow> (dst @ rest, snd e))"

text \<open>
  \<open>os.Rename\<close> refuses a destination that is a directory (Go looks before it calls \<open>rename\<close>); a file
  replaces a file; a directory does not move below itself.
\<close>

definition os_Rename :: "string \<Rightarrow> string \<Rightarrow> tree \<Rightarrow> os_error + tree" where
  "os_Rename from to t =
     (let src = elements from; dst = elements to
      in case node_at t src of
           None \<Rightarrow> Inl NotExist
         | Some n \<Rightarrow>
             (case node_at t dst of
                Some Directory \<Rightarrow> Inl OsError
              | Some RegularFile \<Rightarrow>
                  if n = Directory then Inl OsError
                  else if src = dst then Inr t
                  else Inr (map (move_entry src dst) (filter (\<lambda>e. fst e \<noteq> dst) t))
              | None \<Rightarrow>
                  if src = [] \<or> below src dst then Inl OsError
                  else if node_at t (butlast dst) \<noteq> Some Directory then Inl NotExist
                  else Inr (map (move_entry src dst) t)))"

text \<open>The entries come sorted by name.\<close>

definition os_ReadDir :: "string \<Rightarrow> tree \<Rightarrow> os_error + (string \<times> node) list" where
  "os_ReadDir path t =
     (case node_at t (elements path) of
        None \<Rightarrow> Inl NotExist
      | Some RegularFile \<Rightarrow> Inl OsError
      | Some Directory \<Rightarrow> Inr (order_by (\<lambda>a b. string_less (fst a) (fst b)) (entries_of t (elements path))))"

definition os_Remove :: "string \<Rightarrow> tree \<Rightarrow> os_error + tree" where
  "os_Remove path t =
     (case node_at t (elements path) of
        None \<Rightarrow> Inl NotExist
      | Some n \<Rightarrow>
          if elements path = [] \<or> (n = Directory \<and> entries_of t (elements path) \<noteq> []) then Inl OsError
          else Inr (filter (\<lambda>e. fst e \<noteq> elements path) t))"

section \<open>What the calls keep\<close>

text \<open>Every path once, and every entry in a directory.\<close>

definition tree_ok :: "tree \<Rightarrow> bool" where
  "tree_ok t \<longleftrightarrow> distinct (map fst t) \<and> [] \<notin> fst ` set t
     \<and> (\<forall>p n. (p, n) \<in> set t \<longrightarrow> node_at t (butlast p) = Some Directory)"

definition regular_files :: "tree \<Rightarrow> string list list" where
  "regular_files t = map fst (filter (\<lambda>e. snd e = RegularFile) t)"

lemma make_dirs_files: "make_dirs ps t = Inr t' \<Longrightarrow> regular_files t' = regular_files t"
  by (induction ps t rule: make_dirs.induct) (auto simp: regular_files_def split: option.splits node.splits)

lemma make_dirs_keeps: "make_dirs ps t = Inr t' \<Longrightarrow> set t \<subseteq> set t'"
  by (induction ps t rule: make_dirs.induct) (auto split: option.splits node.splits)

end
