(* ===== verification/World.thy ===== *)
theory World
  imports Lifecycle StoreHistory Rank Files "HOL-Library.State_Monad"
begin

text \<open>
  What a module of \<open>internal/pipeline\<close> acts on: the database, the peer backend behind the interfaces
  of \<open>ports.go\<close>, and what it has asked of the backend so far. A module's code is a program of the
  state monad; a Go function that returns \<open>(x, error)\<close> returns a sum.

  The modules, the web API and the command run concurrently. A call of the store is one transaction,
  so between two calls of one module the others have run some transactions, and any call may fail.
  The list \<open>w_Turns\<close> says, call by call, what the others do before it and how it ends. A theorem about
  all worlds is a theorem about all interleavings and all failures.
\<close>

section \<open>State\<close>

datatype peer_error = ErrRemoteNotFound | ErrSearchExcluded | ErrPeer

datatype run_error = ErrStore store_error | ErrConnection | ErrBackend peer_error | ErrLidarr

text \<open>
  The transaction runs and its result arrives; it does not run; it runs and the result is lost.
\<close>

datatype reply = Answered | Refused | Lost

record turn =
  turn_Others :: "db \<Rightarrow> db"
  turn_Reply :: reply

record import_rejection =
  ir_Reason :: string
  ir_Permanent :: bool

record import_item =
  ii_ID :: int
  ii_Path :: string
  ii_ArtistID :: int
  ii_AlbumID :: int
  ii_AlbumReleaseID :: int
  ii_TrackIDs :: "int list"
  ii_Quality :: string
  ii_IndexerFlags :: int
  ii_DisableReleaseSwitching :: bool
  ii_Rejections :: "import_rejection list"
  ii_Importable :: bool

datatype peer_call =
    CallEnqueue string string int
  | CallCancel string string
  | CallRemove string string
  | CallDelete string
  | CallSearch string
  | CallImport "import_item list"

text \<open>The tables of \<open>StoreHistory\<close> that the modules write, apart from the others.\<close>

record history_tables =
  ht_Reliability :: reliability_tables
  ht_Passes :: "nat \<times> search_pass list"
  ht_Throughput :: "throughput_minute list"
  ht_Uploads :: upload_table

text \<open>\<open>w_Wanted\<close> is the snapshot that \<open>WantedSync\<close> publishes to \<open>Discovery\<close>.\<close>

record 'n world =
  w_DB :: db
  w_History :: history_tables
  w_Wanted :: "int \<rightharpoonup> wanted_release"
  w_Net :: 'n
  w_Turns :: "turn list"
  w_Calls :: "peer_call list"
  w_Files :: tree
  w_Faults :: "bool list"

type_synonym ('n, 'a) prog = "('n world, 'a) state"

type_synonym ('n, 'a) fallible = "('n world, run_error + 'a) state"

abbreviation return :: "'a \<Rightarrow> ('s, 'a) state" where
  "return \<equiv> State_Monad.return"

section \<open>Calls of the store\<close>

definition store_call :: "(db \<Rightarrow> db \<times> 'a) \<Rightarrow> ('n, 'a) fallible" where
  "store_call op = State (\<lambda>w.
     case w_Turns w of
       [] \<Rightarrow> (Inr (snd (op (w_DB w))), w\<lparr>w_DB := fst (op (w_DB w))\<rparr>)
     | t # ts \<Rightarrow>
         let s = turn_Others t (w_DB w)
         in case turn_Reply t of
              Answered \<Rightarrow> (Inr (snd (op s)), w\<lparr>w_DB := fst (op s), w_Turns := ts\<rparr>)
            | Refused \<Rightarrow> (Inl ErrConnection, w\<lparr>w_DB := s, w_Turns := ts\<rparr>)
            | Lost \<Rightarrow> (Inl ErrConnection, w\<lparr>w_DB := fst (op s), w_Turns := ts\<rparr>))"

definition flatten :: "run_error + (store_error + 'a) \<Rightarrow> run_error + 'a" where
  "flatten r = (case r of Inl e \<Rightarrow> Inl e | Inr (Inl e) \<Rightarrow> Inl (ErrStore e) | Inr (Inr x) \<Rightarrow> Inr x)"

definition store_try :: "(db \<Rightarrow> db \<times> (store_error + 'a)) \<Rightarrow> ('n, 'a) fallible" where
  "store_try op = do { r \<leftarrow> store_call op; return (flatten r) }"

definition store_read :: "(db \<Rightarrow> 'a) \<Rightarrow> ('n, 'a) fallible" where
  "store_read q = store_call (\<lambda>s. (s, q s))"

definition store_write :: "(db \<Rightarrow> db) \<Rightarrow> ('n, unit) fallible" where
  "store_write f = store_call (\<lambda>s. (f s, ()))"

text \<open>The same for the tables of the history.\<close>

definition history_call :: "(history_tables \<Rightarrow> history_tables \<times> 'a) \<Rightarrow> ('n, 'a) fallible" where
  "history_call op = State (\<lambda>w.
     let r = op (w_History w)
     in case w_Turns w of
          [] \<Rightarrow> (Inr (snd r), w\<lparr>w_History := fst r\<rparr>)
        | t # ts \<Rightarrow>
            let v = w\<lparr>w_DB := turn_Others t (w_DB w), w_Turns := ts\<rparr>
            in case turn_Reply t of
                 Answered \<Rightarrow> (Inr (snd r), v\<lparr>w_History := fst r\<rparr>)
               | Refused \<Rightarrow> (Inl ErrConnection, v)
               | Lost \<Rightarrow> (Inl ErrConnection, v\<lparr>w_History := fst r\<rparr>))"

definition history_read :: "(history_tables \<Rightarrow> 'a) \<Rightarrow> ('n, 'a) fallible" where
  "history_read q = history_call (\<lambda>h. (h, q h))"

definition history_write :: "(history_tables \<Rightarrow> history_tables) \<Rightarrow> ('n, unit) fallible" where
  "history_write f = history_call (\<lambda>h. (f h, ()))"

definition on_reliability :: "(reliability_tables \<Rightarrow> reliability_tables) \<Rightarrow> history_tables \<Rightarrow> history_tables" where
  "on_reliability f h = h\<lparr>ht_Reliability := f (ht_Reliability h)\<rparr>"

section \<open>Calls of the backend\<close>

record remote_transfer =
  rt_ID :: string
  rt_Username :: string
  rt_Filename :: string
  rt_State :: transfer_state
  rt_Size :: int
  rt_BytesDone :: int
  rt_Retryable :: bool

text \<open>The methods of \<open>PeerSearcher\<close> and \<open>PeerNetwork\<close>, on a state of the backend's own.\<close>

record 'n backend =
  net_Search :: "string \<Rightarrow> 'n \<Rightarrow> (peer_error + search_result list) \<times> 'n"
  net_Enqueue :: "string \<Rightarrow> string \<Rightarrow> int \<Rightarrow> 'n \<Rightarrow> (peer_error + string) \<times> 'n"
  net_Cancel :: "string \<Rightarrow> string \<Rightarrow> 'n \<Rightarrow> (peer_error + unit) \<times> 'n"
  net_Remove :: "string \<Rightarrow> string \<Rightarrow> 'n \<Rightarrow> (peer_error + unit) \<times> 'n"
  net_DeleteDownloadFolder :: "string \<Rightarrow> 'n \<Rightarrow> (peer_error + unit) \<times> 'n"
  net_ListDownloads :: "'n \<Rightarrow> (peer_error + remote_transfer list) \<times> 'n"

definition net_call :: "('n \<Rightarrow> (peer_error + 'a) \<times> 'n) \<Rightarrow> peer_call list \<Rightarrow> ('n, 'a) fallible" where
  "net_call op calls = State (\<lambda>w.
     let (r, n) = op (w_Net w)
     in ((case r of Inl e \<Rightarrow> Inl (ErrBackend e) | Inr x \<Rightarrow> Inr x),
         w\<lparr>w_Net := n, w_Calls := w_Calls w @ calls\<rparr>))"

definition Enqueue :: "'n backend \<Rightarrow> string \<Rightarrow> string \<Rightarrow> int \<Rightarrow> ('n, string) fallible" where
  "Enqueue b user file n = net_call (net_Enqueue b user file n) [CallEnqueue user file n]"

definition Cancel :: "'n backend \<Rightarrow> string \<Rightarrow> string \<Rightarrow> ('n, unit) fallible" where
  "Cancel b user i = net_call (net_Cancel b user i) [CallCancel user i]"

definition Remove :: "'n backend \<Rightarrow> string \<Rightarrow> string \<Rightarrow> ('n, unit) fallible" where
  "Remove b user i = net_call (net_Remove b user i) [CallRemove user i]"

definition DeleteDownloadFolder :: "'n backend \<Rightarrow> string \<Rightarrow> ('n, unit) fallible" where
  "DeleteDownloadFolder b leaf = net_call (net_DeleteDownloadFolder b leaf) [CallDelete leaf]"

definition ListDownloads :: "'n backend \<Rightarrow> ('n, remote_transfer list) fallible" where
  "ListDownloads b = net_call (net_ListDownloads b) []"

definition Search :: "'n backend \<Rightarrow> string \<Rightarrow> ('n, search_result list) fallible" where
  "Search b query = net_call (net_Search b query) [CallSearch query]"

section \<open>Calls of Lidarr\<close>

record album_release =
  ar_ID :: int
  ar_TrackCount :: int
  ar_Monitored :: bool

text \<open>
  The methods of \<open>MusicSource\<close>, on the same state of what is outside; an album is represented by its
  id, a track by its title. A failure has no kind the code looks at.
\<close>

record 'n music =
  mus_WantedMissing :: "'n \<Rightarrow> (unit + wanted_release list) \<times> 'n"
  mus_ManualImportCandidates :: "string \<Rightarrow> 'n \<Rightarrow> (unit + import_item list) \<times> 'n"
  mus_ExecuteManualImport :: "import_item list \<Rightarrow> 'n \<Rightarrow> (unit + unit) \<times> 'n"
  mus_AlbumStatus :: "int \<Rightarrow> 'n \<Rightarrow> (unit + int \<times> int) \<times> 'n"
  mus_AlbumReleases :: "int \<Rightarrow> 'n \<Rightarrow> (unit + album_release list) \<times> 'n"
  mus_AlbumTracks :: "int \<Rightarrow> 'n \<Rightarrow> (unit + string list) \<times> 'n"
  mus_AlbumByForeignID :: "string \<Rightarrow> 'n \<Rightarrow> (unit + int option) \<times> 'n"

definition music_call :: "('n \<Rightarrow> (unit + 'a) \<times> 'n) \<Rightarrow> peer_call list \<Rightarrow> ('n, 'a) fallible" where
  "music_call op calls = State (\<lambda>w.
     let (r, n) = op (w_Net w)
     in ((case r of Inl e \<Rightarrow> Inl ErrLidarr | Inr x \<Rightarrow> Inr x),
         w\<lparr>w_Net := n, w_Calls := w_Calls w @ calls\<rparr>))"

section \<open>Calls of the file system\<close>

text \<open>\<open>w_Faults\<close> says which of the coming calls fail for a reason of their own, a permission or a full disk.\<close>

definition os_call :: "(tree \<Rightarrow> (os_error + 'a) \<times> tree) \<Rightarrow> ('n world, os_error + 'a) state" where
  "os_call op = State (\<lambda>w.
     case w_Faults w of
       True # fs \<Rightarrow> (Inl OsError, w\<lparr>w_Faults := fs\<rparr>)
     | _ \<Rightarrow> (fst (op (w_Files w)), w\<lparr>w_Files := snd (op (w_Files w)), w_Faults := tl (w_Faults w)\<rparr>))"

definition os_read :: "(tree \<Rightarrow> os_error + 'a) \<Rightarrow> ('n world, os_error + 'a) state" where
  "os_read q = os_call (\<lambda>t. (q t, t))"

definition os_write :: "(tree \<Rightarrow> os_error + tree) \<Rightarrow> ('n world, os_error + unit) state" where
  "os_write f = os_call (\<lambda>t. case f t of Inl e \<Rightarrow> (Inl e, t) | Inr t' \<Rightarrow> (Inr (), t'))"

text \<open>
  What the code takes from PostgreSQL (the order of text, \<open>lower()\<close>) and from \<open>fmt\<close> (\<open>%q\<close>, the text of
  a duration and of an error), and the clock, in seconds.
\<close>

record texts =
  tx_Less :: "string \<Rightarrow> string \<Rightarrow> bool"
  tx_Lower :: "string \<Rightarrow> string"
  tx_Quote :: "string \<Rightarrow> string"
  tx_Duration :: "int \<Rightarrow> string"
  tx_Error :: "run_error \<Rightarrow> string"
  tx_Clock :: int

text \<open>Best effort: the error of a call is logged and dropped.\<close>

definition AddJobEvent_best :: "nat \<Rightarrow> job_event \<Rightarrow> string \<Rightarrow> ts \<Rightarrow> ('n, unit) prog" where
  "AddJobEvent_best jobID event detail now = do {
     _ \<leftarrow> store_write (AddJobEvent jobID event detail now);
     return () }"

section \<open>Triples\<close>

text \<open>
  \<open>triple P m Q\<close>: started where \<open>P\<close> holds, the program ends where \<open>Q\<close> holds of its result.
\<close>

definition triple :: "('w \<Rightarrow> bool) \<Rightarrow> ('w, 'a) state \<Rightarrow> ('a \<Rightarrow> 'w \<Rightarrow> bool) \<Rightarrow> bool" where
  "triple P m Q \<longleftrightarrow> (\<forall>w. P w \<longrightarrow> Q (fst (run_state m w)) (snd (run_state m w)))"

definition keeps :: "('w \<Rightarrow> bool) \<Rightarrow> ('w, 'a) state \<Rightarrow> bool" where
  "keeps I m \<longleftrightarrow> triple I m (\<lambda>_. I)"

named_theorems keeps_rules

lemma tripleD: "triple P m Q \<Longrightarrow> P w \<Longrightarrow> Q (fst (run_state m w)) (snd (run_state m w))"
  by (simp add: triple_def)

lemma keepsD: "keeps I m \<Longrightarrow> I w \<Longrightarrow> I (snd (run_state m w))"
  by (simp add: keeps_def triple_def)

lemma triple_bind:
  assumes "triple P m R" and "\<And>x. triple (R x) (f x) Q"
  shows "triple P (m \<bind> f) Q"
  using assms by (fastforce simp: triple_def split: prod.split)

lemma triple_return: "(\<And>w. P w \<Longrightarrow> Q x w) \<Longrightarrow> triple P (return x) Q"
  by (simp add: triple_def)

lemma triple_weaken:
  "\<lbrakk>triple P' m Q'; \<And>w. P w \<Longrightarrow> P' w; \<And>x w. Q' x w \<Longrightarrow> Q x w\<rbrakk> \<Longrightarrow> triple P m Q"
  by (auto simp: triple_def)

lemma keeps_bind [keeps_rules]: "\<lbrakk>keeps I m; \<And>x. keeps I (f x)\<rbrakk> \<Longrightarrow> keeps I (m \<bind> f)"
  unfolding keeps_def by (rule triple_bind)

lemma keeps_return [keeps_rules]: "keeps I (return x)"
  by (simp add: keeps_def triple_return)

lemma keeps_if [keeps_rules]: "\<lbrakk>b \<Longrightarrow> keeps I m; \<not> b \<Longrightarrow> keeps I n\<rbrakk> \<Longrightarrow> keeps I (if b then m else n)"
  by simp

lemma keeps_sum [keeps_rules]:
  "\<lbrakk>\<And>e. r = Inl e \<Longrightarrow> keeps I (f e); \<And>x. r = Inr x \<Longrightarrow> keeps I (g x)\<rbrakk>
   \<Longrightarrow> keeps I (case r of Inl e \<Rightarrow> f e | Inr x \<Rightarrow> g x)"
  by (cases r) auto

lemma keeps_option [keeps_rules]:
  "\<lbrakk>r = None \<Longrightarrow> keeps I m; \<And>x. r = Some x \<Longrightarrow> keeps I (f x)\<rbrakk>
   \<Longrightarrow> keeps I (case r of None \<Rightarrow> m | Some x \<Rightarrow> f x)"
  by (cases r) auto

lemma keeps_prod [keeps_rules]:
  "(\<And>a b. r = (a, b) \<Longrightarrow> keeps I (f a b)) \<Longrightarrow> keeps I (case r of (a, b) \<Rightarrow> f a b)"
  by (cases r) auto

lemma keeps_Let [keeps_rules]: "keeps I (f x) \<Longrightarrow> keeps I (let y = x in f y)"
  by simp

end
