(* ===== verification/Rely.thy ===== *)
theory Rely
  imports World
begin

text \<open>
  What a module may rely on between two of its calls: the others take steps of the store. Such steps
  keep the database well formed, and they never give a candidate to another job nor reuse its id, so
  what a module learnt about the owner of a candidate stays true.
\<close>

section \<open>Identities under steps\<close>

text \<open>A candidate of the later database with an id of the earlier one belongs to the same job.\<close>

definition grows :: "db \<Rightarrow> db \<Rightarrow> bool" where
  "grows s s' \<longleftrightarrow> next_id s \<le> next_id s'
     \<and> (\<forall>c \<in> set (candidates s'). cand_ID c < next_id s \<longrightarrow>
          (cand_ID c, cand_Job c) \<in> (\<lambda>d. (cand_ID d, cand_Job d)) ` set (candidates s))"

lemma grows_refl [simp]: "grows s s"
  by (auto simp: grows_def)

lemma grows_trans: "grows s t \<Longrightarrow> grows t u \<Longrightarrow> grows s u"
  by (fastforce simp: grows_def)

lemma grows_same:
  assumes "candidates s' = candidates s" and "next_id s \<le> next_id s'"
  shows "grows s s'"
  using assms by (auto simp: grows_def)

lemma grows_update_candidates:
  assumes "candidates s' = row_update p h (candidates s)" and "keeps_owner h" and "next_id s \<le> next_id s'"
  shows "grows s s'"
  using assms by (auto simp: grows_def row_update_def keeps_owner_def image_iff)

lemma grows_delete:
  assumes "candidates s' = row_delete p (candidates s)" and "next_id s \<le> next_id s'"
  shows "grows s s'"
  using assms by (auto simp: grows_def row_delete_def)

text \<open>Chains: a database that has grown still has after one more statement.\<close>

named_theorems grow_rules

lemma grows_chain:
  assumes "\<And>s. grows s (f s)"
  shows "grows r s \<Longrightarrow> grows r (f s)"
  using assms grows_trans by blast

lemma grows_update_jobs [grow_rules]: "grows r s \<Longrightarrow> grows r (update_jobs p f s)"
  by (rule grows_chain [where f = "update_jobs p f"]) (rule grows_same, simp_all)

lemma grows_update_transfers [grow_rules]: "grows r s \<Longrightarrow> grows r (update_transfers p f s)"
  by (rule grows_chain [where f = "update_transfers p f"]) (rule grows_same, simp_all)

lemma grows_delete_rejections [grow_rules]: "grows r s \<Longrightarrow> grows r (delete_rejections p s)"
  by (rule grows_chain [where f = "delete_rejections p"]) (rule grows_same, simp_all)

lemma grows_delete_transfers [grow_rules]: "grows r s \<Longrightarrow> grows r (delete_transfers_of p s)"
  by (rule grows_chain [where f = "delete_transfers_of p"]) (rule grows_same, simp_all add: delete_transfers_of_def)

lemma grows_drop_candidates [grow_rules]: "grows r s \<Longrightarrow> grows r (drop_candidates q s)"
  by (rule grows_chain [where f = "drop_candidates q"]) (rule grows_delete, simp_all)

lemma grows_candidates [grow_rules]:
  "\<lbrakk>keeps_owner h; grows r s\<rbrakk> \<Longrightarrow> grows r (update_candidates p h s)"
  by (rule grows_chain [where f = "update_candidates p h"])
    (rule grows_update_candidates [where p = p and h = h], simp_all)

lemma grows_fold [grow_rules]:
  "\<lbrakk>\<And>x s. grows r s \<Longrightarrow> grows r (f x s); grows r s\<rbrakk> \<Longrightarrow> grows r (fold f xs s)"
  by (induction xs arbitrary: s) auto

lemma grows_add_candidate [grow_rules]: "grows r s \<Longrightarrow> grows r (add_candidate i st now c s)"
  by (rule grows_chain [where f = "add_candidate i st now c"]) (auto simp: grows_def add_candidate_def)

lemma grows_insert_wanted [grow_rules]: "grows r s \<Longrightarrow> grows r (insert_wanted now x s)"
  by (rule grows_chain [where f = "insert_wanted now x"]) (rule grows_same, simp_all add: insert_wanted_def)

lemma grows_tables [grow_rules]:
  "grows r s \<Longrightarrow> grows r (s\<lparr>folders := fs\<rparr>)" "grows r s \<Longrightarrow> grows r (s\<lparr>rejections := rs\<rparr>)"
  "grows r s \<Longrightarrow> grows r (s\<lparr>events := es\<rparr>)"
  "grows r s \<Longrightarrow> grows r (s\<lparr>events := es, folders := fs, rejections := rs, jobs := js\<rparr>)"
  "\<lbrakk>grows r s; next_id s \<le> n\<rbrakk> \<Longrightarrow> grows r (s\<lparr>events := es, next_id := n\<rparr>)"
  "\<lbrakk>grows r s; next_id s \<le> n\<rbrakk> \<Longrightarrow> grows r (s\<lparr>transfers := us, next_id := n\<rparr>)"
  "\<lbrakk>grows r s; next_id s \<le> n\<rbrakk> \<Longrightarrow> grows r (s\<lparr>jobs := js, next_id := n\<rparr>)"
  by (auto simp: grows_def)

lemma grows_insert_pending: "insert_pending cid u dl now fs s = Inr s' \<Longrightarrow> grows r s \<Longrightarrow> grows r s'"
proof (induction fs arbitrary: s)
  case (Cons f fs)
  let ?s = "s\<lparr>transfers := transfers s @ [new_transfer (next_id s) cid u (cf_Filename f) TPending (cf_Size f) dl now],
    next_id := Suc (next_id s)\<rparr>"
  have "insert_pending cid u dl now fs ?s = Inr s'" using Cons.prems(1)
    by (auto simp: new_transfer_def split: if_splits)
  then show ?case by (rule Cons.IH) (simp add: Cons.prems(2) grow_rules)
qed simp

lemma keeps_owner_marks [simp]:
  "keeps_owner (finish_candidate st reason now)" "keeps_owner (revive_candidate st now)"
  "keeps_owner (\<lambda>c. c\<lparr>cand_ImportSubmitted := x, cand_Updated := now\<rparr>)"
  "keeps_owner (\<lambda>c. c\<lparr>cand_DeferredSince := y, cand_Updated := now\<rparr>)"
  "keeps_owner (\<lambda>c. c\<lparr>cand_DeferredSince := y\<rparr>)"
  "keeps_owner (\<lambda>c. c\<lparr>cand_State := st, cand_Updated := now\<rparr>)"
  by (simp_all add: keeps_owner_def finish_candidate_def revive_candidate_def)

lemma grows_start_over [grow_rules]: "grows r s \<Longrightarrow> grows r (start_over p now s)"
  by (simp add: start_over_def Let_def grow_rules)

lemma grows_terminal:
  "grows s (fst (terminalCandidateAndAdvance dir cid i st from to reason rule now s))"
  by (auto simp: terminalCandidateAndAdvance_def Let_def recordRejectionTx_def upsert_rejection_def
      split: option.splits sum.splits if_splits intro!: grow_rules)

lemmas job_writes = SetJobBackoff_def SetJobEmptySearchBackoff_def SetJobNotBefore_def SetJobTrackBand_def
  UpdateJobMetadata_def BackfillJobMetadataIfEmpty_def DeferSelectingJob_def MarkJobFailed_def
  AdvanceJobStateFrom_def ResetJobToWanted_def RetryFailedJob_def RetryManualJob_def RetryRefusedJob_def
  ForceSearchJob_def ParkJobForCandidate_def CancelJob_def PrepareDeleteJob_def prepareJobCancellation_def
  DeleteJob_def

lemmas candidate_writes = MarkImportSubmitted_def DeferCandidate_def ClearCandidateDeferral_def

lemmas transfer_writes = RecordEnqueueIntent_def add_transfer_def AttachTransferID_def
  UpdateTransferProgress_def RetryTransfer_def RegisterDownloadFolder_def MarkDownloadFolderCleaned_def
  AddJobEvent_def

lemma store_step_grows: "store_step s s' \<Longrightarrow> grows s s'"
proof (induction rule: store_step.induct)
  case (sync s releases cutoff now)
  show ?case by (simp add: SyncWantedJobs_def Let_def grow_rules)
next
  case (bulk_retry s ids now)
  show ?case by (simp add: BulkRetryJobs_def revive_manual_def Let_def grow_rules)
next
  case (activate s cid i maxActive dl now)
  show ?case
    by (auto simp: ActivateCandidateWithTransfers_def split: option.splits sum.splits
        intro!: grow_rules elim: grows_insert_pending)
next
  case (manual s title artist peer mbid files dl now)
  show ?case
    by (auto simp: CreateManualJob_def Let_def add_job_def split: sum.splits
        intro!: grow_rules elim!: grows_insert_pending)
next
  case (insert_candidates s i cs now)
  then show ?case by (auto simp: InsertCandidates_def split: if_splits intro!: grow_rules)
next
  case (prune_events s now)
  show ?case by (simp add: PruneJobEvents_def grow_rules)
qed (auto simp: job_writes candidate_writes transfer_writes Let_def grow_rules grows_terminal
      FailCandidateAndAdvance_def CooldownCandidateAndAdvance_def RejectCandidateAndAdvance_def
      SucceedCandidateAndAdvance_def split: option.splits job_state.splits)

section \<open>What a module knows\<close>

definition store_steps :: "db \<Rightarrow> db \<Rightarrow> bool" where
  "store_steps = store_step\<^sup>*\<^sup>*"

lemma store_steps_refl [simp]: "store_steps s s"
  by (simp add: store_steps_def)

lemma store_steps_step: "store_steps r s \<Longrightarrow> store_step s t \<Longrightarrow> store_steps r t"
  by (simp add: store_steps_def)

lemma store_steps_trans: "store_steps r s \<Longrightarrow> store_steps s t \<Longrightarrow> store_steps r t"
  by (simp add: store_steps_def)

lemma store_steps_wf: "store_steps s t \<Longrightarrow> wf_db s \<Longrightarrow> wf_db t"
  unfolding store_steps_def by (induction rule: rtranclp.induct) (auto intro: store_step_wf)

lemma store_steps_grows: "store_steps s t \<Longrightarrow> grows s t"
  unfolding store_steps_def
  by (induction rule: rtranclp.induct) (auto intro: grows_trans store_step_grows)

lemma store_steps_reachable: "store_steps s t \<Longrightarrow> reachable s \<Longrightarrow> reachable t"
  unfolding store_steps_def by (induction rule: rtranclp.induct) (auto intro: reachable.step)

text \<open>The owner of a candidate, as read once.\<close>

definition knows :: "nat \<times> nat \<Rightarrow> db \<Rightarrow> bool" where
  "knows k s \<longleftrightarrow> fst k < next_id s \<and> own_candidate (fst k) (snd k) s"

lemma knows_grows: "knows k s \<Longrightarrow> grows s t \<Longrightarrow> knows k t"
  by (force simp: knows_def grows_def own_candidate_def list_all_iff)

lemma knows_member:
  assumes "wf_db s" and "c \<in> set (candidates s)"
  shows "knows (cand_ID c, cand_Job c) s"
proof -
  have "keys_ok s" and "\<And>d. d \<in> set (candidates s) \<Longrightarrow> cand_ID d = cand_ID c \<Longrightarrow> d = c"
    using assms candidate_unique [of s] by (auto simp: wf_db_def base_ok_def)
  with assms(2) show ?thesis by (auto simp: knows_def keys_ok_def own_candidate_def list_all_iff)
qed

section \<open>A module runs among the others\<close>

definition others_ok :: "turn list \<Rightarrow> bool" where
  "others_ok ts \<longleftrightarrow> (\<forall>t \<in> set ts. \<forall>s. store_steps s (turn_Others t s))"

text \<open>The database has come from \<open>r\<close> by steps of the store, and the owners in \<open>K\<close> are as read.\<close>

definition runs_from :: "db \<Rightarrow> (nat \<times> nat) set \<Rightarrow> 'n world \<Rightarrow> bool" where
  "runs_from r K w \<longleftrightarrow> wf_db r \<and> others_ok (w_Turns w) \<and> store_steps r (w_DB w)
     \<and> (\<forall>k \<in> K. knows k (w_DB w))"

lemma runs_from_start: "\<lbrakk>wf_db (w_DB w); others_ok (w_Turns w)\<rbrakk> \<Longrightarrow> runs_from (w_DB w) {} w"
  by (simp add: runs_from_def)

lemma runs_from_wf: "runs_from r K w \<Longrightarrow> wf_db (w_DB w)"
  by (auto simp: runs_from_def intro: store_steps_wf)

lemma runs_from_step:
  "\<lbrakk>runs_from r K w; store_steps (w_DB w) s; others_ok ts\<rbrakk> \<Longrightarrow> runs_from r K (w\<lparr>w_DB := s, w_Turns := ts\<rparr>)"
  unfolding runs_from_def by (auto intro: store_steps_trans knows_grows store_steps_grows)

lemma runs_from_other [simp]:
  "runs_from r K (w\<lparr>w_Net := n, w_Calls := cs\<rparr>) = runs_from r K w"
  "runs_from r K (w\<lparr>w_Net := n\<rparr>) = runs_from r K w"
  "runs_from r K (w\<lparr>w_History := h\<rparr>) = runs_from r K w"
  "runs_from r K (w\<lparr>w_Files := t, w_Faults := fs\<rparr>) = runs_from r K w"
  "runs_from r K (w\<lparr>w_Faults := fs\<rparr>) = runs_from r K w" "runs_from r K (w\<lparr>w_Files := t\<rparr>) = runs_from r K w"
  by (simp_all add: runs_from_def)

text \<open>Every call leaves the database at most one transaction of its own further.\<close>

lemma run_store_call:
  assumes run: "runs_from r K w"
    and own: "\<And>s. \<lbrakk>wf_db s; \<forall>k \<in> K. knows k s\<rbrakk> \<Longrightarrow> store_steps s (fst (op s))"
    and out: "run_state (store_call op) w = (x, w')"
  shows "runs_from r K w' \<and> (\<forall>y. x = Inr y \<longrightarrow> (\<exists>s. wf_db s \<and> (\<forall>k \<in> K. knows k s)
    \<and> y = snd (op s) \<and> w_DB w' = fst (op s)))"
proof -
  note own' = own [of "w_DB v" for v]
  have facts: "wf_db (w_DB v) \<and> (\<forall>k \<in> K. knows k (w_DB v))" if "runs_from r K v" for v :: "'a world"
    using that runs_from_wf [OF that] by (simp add: runs_from_def)
  have after: "runs_from r K (v\<lparr>w_DB := fst (op (w_DB v))\<rparr>)" if "runs_from r K v" for v :: "'a world"
    using runs_from_step [OF that own' [OF conjunct1 conjunct2, OF facts facts, OF that that], of "w_Turns v"]
      that by (simp add: runs_from_def)
  show ?thesis
  proof (cases "w_Turns w")
    case Nil
    then show ?thesis using out after [OF run] facts [OF run] by (auto simp: store_call_def)
  next
    case (Cons t ts)
    define v where "v = w\<lparr>w_DB := turn_Others t (w_DB w), w_Turns := ts\<rparr>"
    have "runs_from r K v"
      unfolding v_def using run Cons
      by (intro runs_from_step) (auto simp: runs_from_def others_ok_def)
    have "v\<lparr>w_DB := s\<rparr> = w\<lparr>w_DB := s, w_Turns := ts\<rparr>" for s
      by (cases w) (simp add: v_def)
    moreover have "w_DB v = turn_Others t (w_DB w)" by (simp add: v_def)
    ultimately show ?thesis
      using out Cons \<open>runs_from r K v\<close> after [of v] facts [of v]
      by (cases "turn_Reply t") (auto simp: store_call_def Let_def v_def [symmetric])
  qed
qed

lemma keeps_call:
  assumes "\<And>s. \<lbrakk>wf_db s; \<forall>k \<in> K. knows k s\<rbrakk> \<Longrightarrow> store_steps s (fst (op s))"
  shows "keeps (runs_from r K) (store_call op)"
  unfolding keeps_def triple_def using run_store_call [OF _ assms] by (metis prod.collapse)

lemma store_steps_single: "store_step s t \<Longrightarrow> store_steps s t"
  by (simp add: store_steps_def r_into_rtranclp)

lemma keeps_read [keeps_rules]: "keeps (runs_from r K) (store_read q)"
  unfolding store_read_def by (rule keeps_call) simp

lemma keeps_write:
  "(\<And>s. \<lbrakk>wf_db s; \<forall>k \<in> K. knows k s\<rbrakk> \<Longrightarrow> store_step s (f s)) \<Longrightarrow> keeps (runs_from r K) (store_write f)"
  unfolding store_write_def by (rule keeps_call) (simp add: store_steps_single)

lemma keeps_try:
  "(\<And>s. \<lbrakk>wf_db s; \<forall>k \<in> K. knows k s\<rbrakk> \<Longrightarrow> store_step s (fst (op s))) \<Longrightarrow> keeps (runs_from r K) (store_try op)"
  unfolding store_try_def
  by (intro keeps_bind keeps_return keeps_call store_steps_single) blast

text \<open>What a read tells about owners is known from then on.\<close>

lemma triple_learn:
  assumes "\<And>s. wf_db s \<Longrightarrow> \<forall>k \<in> learn (q s). knows k s"
  shows "triple (runs_from r K) (store_read q)
    (\<lambda>x. runs_from r (K \<union> (case x of Inl e \<Rightarrow> {} | Inr y \<Rightarrow> learn y)))"
  unfolding triple_def
proof (intro allI impI)
  fix w
  assume run: "runs_from r K w"
  obtain x w' where out: "run_state (store_read q) w = (x, w')" by (metis surj_pair)
  note * = run_store_call [OF run _ out [unfolded store_read_def]]
  have "runs_from r K w' \<and> (\<forall>y. x = Inr y \<longrightarrow> (\<exists>s. wf_db s \<and> (\<forall>k \<in> K. knows k s) \<and> y = q s \<and> w_DB w' = s))"
    using * by simp
  then have "runs_from r (K \<union> (case x of Inl e \<Rightarrow> {} | Inr y \<Rightarrow> learn y)) w'"
    using assms by (cases x) (auto simp: runs_from_def)
  with out show "runs_from r (K \<union> (case fst (run_state (store_read q) w) of Inl e \<Rightarrow> {} | Inr y \<Rightarrow> learn y))
      (snd (run_state (store_read q) w))" by simp
qed

text \<open>What a read tells about owners may be used in what follows it.\<close>

lemma keeps_learn:
  assumes "\<And>s. wf_db s \<Longrightarrow> \<forall>k \<in> learn (q s). knows k s"
    and "\<And>x. keeps (runs_from r (K \<union> (case x of Inl e \<Rightarrow> {} | Inr y \<Rightarrow> learn y))) (f x)"
  shows "keeps (runs_from r K) (store_read q \<bind> f)"
proof -
  have "triple (runs_from r (K \<union> (case x of Inl e \<Rightarrow> {} | Inr y \<Rightarrow> learn y))) (f x) (\<lambda>_. runs_from r K)" for x
    using assms(2) unfolding keeps_def by (rule triple_weaken) (auto simp: runs_from_def)
  with triple_learn [where learn = learn and q = q, OF assms(1)] show ?thesis unfolding keeps_def by (rule triple_bind)
qed

lemma keeps_net [keeps_rules]:
  "keeps (runs_from r K) (Enqueue b u f n)" "keeps (runs_from r K) (Cancel b u i)"
  "keeps (runs_from r K) (Remove b u i)" "keeps (runs_from r K) (DeleteDownloadFolder b leaf)"
  "keeps (runs_from r K) (ListDownloads b)" "keeps (runs_from r K) (Search b query)"
  "keeps (runs_from r K) (music_call op cs)"
  by (auto simp: keeps_def triple_def Enqueue_def Cancel_def Remove_def DeleteDownloadFolder_def
      ListDownloads_def Search_def net_call_def music_call_def Let_def split: prod.split)

lemma keeps_history_call: "keeps (runs_from r K) (history_call op)"
proof -
  have step: "runs_from r K (w\<lparr>w_DB := turn_Others t (w_DB w), w_Turns := ts\<rparr>)"
    if "runs_from r K w" "w_Turns w = t # ts" for w :: "'a world" and t ts
    using that by (intro runs_from_step) (auto simp: runs_from_def others_ok_def)
  show ?thesis
    unfolding keeps_def triple_def history_call_def
    by (auto simp: Let_def split: list.split reply.split dest: step)
qed

lemma keeps_history [keeps_rules]:
  "keeps (runs_from r K) (history_write f)" "keeps (runs_from r K) (history_read q)"
  unfolding history_write_def history_read_def by (rule keeps_history_call)+

lemma keeps_event [keeps_rules]: "keeps (runs_from r K) (AddJobEvent_best i ev d now)"
  unfolding AddJobEvent_best_def
  by (intro keeps_bind keeps_return keeps_write) (rule store_step.add_event)

lemma keeps_os [keeps_rules]:
  "keeps (runs_from r K) (os_read q)" "keeps (runs_from r K) (os_write f)"
  by (auto simp: keeps_def triple_def os_read_def os_write_def os_call_def split: list.split bool.split)

text \<open>What is known is enough for less.\<close>

lemma keeps_forget:
  "\<lbrakk>triple (runs_from r K) m (\<lambda>_. runs_from r K'); K \<subseteq> K'\<rbrakk> \<Longrightarrow> triple (runs_from r K) m (\<lambda>_. runs_from r K)"
  by (erule triple_weaken) (auto simp: runs_from_def)

end
