(* ===== verification/TopUp.thy ===== *)
theory TopUp
  imports Rely
begin

text \<open>
  The top-up shared by Selecting and Downloading (\<open>internal/pipeline/selecting.go\<close>) and the folder
  helpers of \<open>paths.go\<close>: handing a candidate's pending files to the peer, a bounded number at a time,
  after the folders they land in have been reserved.
\<close>

section \<open>Folders\<close>

definition commonLeaf :: "string list \<Rightarrow> string" where
  "commonLeaf filenames =
     (case filenames of
        [] \<Rightarrow> []
      | f # fs \<Rightarrow>
          (let common = Dir (to_slash f)
           in if \<not> list_all (\<lambda>g. Dir (to_slash g) = common) fs then []
              else if common = ''.'' \<or> common = ''/'' \<or> common = [] then []
              else (let leaf = Base common
                    in if leaf = ''..'' \<or> leaf = ''.'' then [] else leaf)))"

definition quarantineDirName :: string where
  "quarantineDirName = ''.failed''"

definition refusedDirName :: string where
  "refusedDirName = ''_import_rejected''"

definition isQuarantineDir :: "string \<Rightarrow> bool" where
  "isQuarantineDir leaf \<longleftrightarrow> leaf = quarantineDirName \<or> leaf = refusedDirName"

definition markCleaned :: "texts \<Rightarrow> nat \<Rightarrow> string \<Rightarrow> ts \<Rightarrow> ('n, unit) prog" where
  "markCleaned tx jobID leaf now = do {
     _ \<leftarrow> store_write (MarkDownloadFolderCleaned (tx_Lower tx) jobID leaf now);
     return () }"

text \<open>The loop over the registered folders; only a delete that succeeded stamps the row.\<close>

fun cleanup_loop :: "texts \<Rightarrow> 'n backend \<Rightarrow> nat \<Rightarrow> ts \<Rightarrow> string list \<Rightarrow> ('n, unit) prog" where
  "cleanup_loop tx b jobID now [] = return ()"
| "cleanup_loop tx b jobID now (leaf # leaves) =
     (if isQuarantineDir leaf then cleanup_loop tx b jobID now leaves
      else do {
        r \<leftarrow> DeleteDownloadFolder b leaf;
        _ \<leftarrow> (case r of
               Inr _ \<Rightarrow> markCleaned tx jobID leaf now
             | Inl e \<Rightarrow> return ());
        cleanup_loop tx b jobID now leaves })"

definition registeredFolders :: "nat \<Rightarrow> ('n, string list) fallible" where
  "registeredFolders jobID = store_read (DownloadFoldersForJob jobID)"

definition cleanupFolder :: "texts \<Rightarrow> 'n backend \<Rightarrow> nat \<Rightarrow> ts \<Rightarrow> ('n, unit) prog" where
  "cleanupFolder tx b jobID now = do {
     r \<leftarrow> registeredFolders jobID;
     case r of
       Inl e \<Rightarrow> return ()
     | Inr leaves \<Rightarrow> cleanup_loop tx b jobID now leaves }"

section \<open>Waiting for a folder\<close>

definition deferred_detail :: "texts \<Rightarrow> string \<Rightarrow> nat \<Rightarrow> string" where
  "deferred_detail tx leaf owner =
     ''download folder '' @ tx_Quote tx leaf @ '' is in use by job '' @ decimal owner @ '', waiting''"

definition ceiling_reason :: "texts \<Rightarrow> string \<Rightarrow> nat \<Rightarrow> int \<Rightarrow> string" where
  "ceiling_reason tx leaf owner transferDeadline =
     ''download folder '' @ tx_Quote tx leaf @ '' still held by job '' @ decimal owner
       @ '' after '' @ tx_Duration tx transferDeadline"

text \<open>The instant 0 is Go's zero time, which the store returns for a candidate that is gone.\<close>

definition deferForFolder ::
  "texts \<Rightarrow> nat \<Rightarrow> nat \<Rightarrow> string \<Rightarrow> nat \<Rightarrow> ts \<Rightarrow> int \<Rightarrow> ('n, unit) fallible" where
  "deferForFolder tx jobID candidateID leaf owner now transferDeadline = do {
     r \<leftarrow> store_call (DeferCandidate candidateID now);
     case r of
       Inl e \<Rightarrow> return (Inl e)
     | Inr (since, first) \<Rightarrow>
         if first then do {
           _ \<leftarrow> AddJobEvent_best jobID EventCandidateDeferred (deferred_detail tx leaf owner) now;
           return (Inr ()) }
         else if since = 0 \<or> now - since \<le> transferDeadline then return (Inr ())
         else do {
           f \<leftarrow> store_try (FailCandidateAndAdvance ReleaseDir candidateID jobID
                  (ceiling_reason tx leaf owner transferDeadline) Downloading Selecting now);
           case f of
             Inl e \<Rightarrow> return (Inl e)
           | Inr _ \<Rightarrow> return (Inr ()) } }"

text \<open>
  The leaves seen so far are skipped. A register error never blocks; a live owner does, and then the
  answer is no.
\<close>

fun reserve_loop ::
  "texts \<Rightarrow> nat \<Rightarrow> nat \<Rightarrow> ts \<Rightarrow> int \<Rightarrow> string list \<Rightarrow> transfer list \<Rightarrow> ('n, bool) fallible" where
  "reserve_loop tx jobID candidateID now transferDeadline seen [] = do {
     _ \<leftarrow> store_write (ClearCandidateDeferral candidateID);
     return (Inr True) }"
| "reserve_loop tx jobID candidateID now transferDeadline seen (f # fs) =
     (let leaf = commonLeaf [tr_Filename f]
      in if leaf = [] \<or> leaf \<in> set seen
         then reserve_loop tx jobID candidateID now transferDeadline seen fs
         else do {
           r \<leftarrow> store_try (RegisterDownloadFolder (tx_Lower tx) jobID leaf now);
           case r of
             Inl e \<Rightarrow> reserve_loop tx jobID candidateID now transferDeadline (leaf # seen) fs
           | Inr (owner, ok) \<Rightarrow>
               if ok then reserve_loop tx jobID candidateID now transferDeadline (leaf # seen) fs
               else do {
                 d \<leftarrow> deferForFolder tx jobID candidateID leaf owner now transferDeadline;
                 case d of
                   Inl e \<Rightarrow> return (Inl e)
                 | Inr _ \<Rightarrow> return (Inr False) } })"

definition reserveDownloadFolders ::
  "texts \<Rightarrow> nat \<Rightarrow> nat \<Rightarrow> transfer list \<Rightarrow> ts \<Rightarrow> int \<Rightarrow> ('n, bool) fallible" where
  "reserveDownloadFolders tx jobID candidateID files now transferDeadline =
     reserve_loop tx jobID candidateID now transferDeadline [] files"

section \<open>Sending\<close>

record top_up_limits =
  lim_Inflight :: int
  lim_Retries :: int
  lim_Deadline :: int

text \<open>The two outcomes of a refused enqueue; their own errors are logged and dropped.\<close>

definition enqueue_failed :: "top_up_limits \<Rightarrow> transfer \<Rightarrow> nat \<Rightarrow> ts \<Rightarrow> ('n, unit) prog" where
  "enqueue_failed l p tid now = do {
     _ \<leftarrow> store_write (if int (tr_Retries p) < lim_Retries l then RetryTransfer tid now
           else UpdateTransferProgress tid TErrored 0 0 now);
     return () }"

text \<open>The result is how many files were sent and the error that ended the loop, if one did.\<close>

fun send_loop ::
  "'n backend \<Rightarrow> top_up_limits \<Rightarrow> nat \<Rightarrow> ts \<Rightarrow> transfer list \<Rightarrow> int \<Rightarrow> nat \<Rightarrow> ('n, nat \<times> run_error option) prog"
where
  "send_loop b l candidateID now [] inflight k = return (k, None)"
| "send_loop b l candidateID now (p # ps) inflight k =
     (if inflight \<ge> lim_Inflight l then return (k, None)
      else do {
        i \<leftarrow> store_try (RecordEnqueueIntent candidateID (tr_Username p) (tr_Filename p)
               (now + lim_Deadline l) now);
        case i of
          Inl e \<Rightarrow> return (k, Some e)
        | Inr (tid, ok) \<Rightarrow>
            if \<not> ok then return (k, None)
            else do {
              q \<leftarrow> Enqueue b (tr_Username p) (tr_Filename p) (tr_BytesTotal p);
              case q of
                Inl e \<Rightarrow> do {
                  _ \<leftarrow> enqueue_failed l p tid now;
                  send_loop b l candidateID now ps inflight k }
              | Inr remoteID \<Rightarrow> do {
                  a \<leftarrow> store_call (AttachTransferID tid remoteID now);
                  case a of
                    Inr attached \<Rightarrow>
                      if attached then send_loop b l candidateID now ps (inflight + 1) (Suc k)
                      else do {
                        _ \<leftarrow> Cancel b (tr_Username p) remoteID;
                        return (k, None) }
                  | Inl e \<Rightarrow> do {
                      _ \<leftarrow> Cancel b (tr_Username p) remoteID;
                      return (k, Some e) } } } })"

definition pending_of :: "transfer list \<Rightarrow> transfer list" where
  "pending_of ts =
     order_by (\<lambda>t u. string_less (tr_Filename t) (tr_Filename u)) (filter (\<lambda>t. tr_State t = TPending) ts)"

definition inflight_of :: "transfer list \<Rightarrow> int" where
  "inflight_of ts = int (length (filter sent ts))"

definition topUpCandidate ::
  "texts \<Rightarrow> 'n backend \<Rightarrow> top_up_limits \<Rightarrow> nat \<Rightarrow> nat \<Rightarrow> ts \<Rightarrow> ('n, nat \<times> run_error option) prog" where
  "topUpCandidate tx b l jobID candidateID now = do {
     r \<leftarrow> store_read (TransfersForCandidate candidateID);
     case r of
       Inl e \<Rightarrow> return (0, Some e)
     | Inr ts \<Rightarrow>
         (let inflight = inflight_of ts; pending = pending_of ts; room = lim_Inflight l - inflight
          in if room > 0 \<and> pending \<noteq> [] then do {
               ok \<leftarrow> reserveDownloadFolders tx jobID candidateID (take (nat room) pending) now (lim_Deadline l);
               case ok of
                 Inl e \<Rightarrow> return (0, Some e)
               | Inr False \<Rightarrow> return (0, None)
               | Inr True \<Rightarrow> send_loop b l candidateID now pending inflight 0 }
             else send_loop b l candidateID now pending inflight 0) }"

section \<open>Every write is a step of the store\<close>

lemma keeps_markCleaned [keeps_rules]: "keeps (runs_from r K) (markCleaned tx i leaf now)"
  unfolding markCleaned_def
  by (intro keeps_rules keeps_write) (rule store_step.folder_cleaned)

lemma keeps_cleanup_loop [keeps_rules]: "keeps (runs_from r K) (cleanup_loop tx b i now leaves)"
  by (induction leaves) (auto intro!: keeps_rules)

lemma keeps_cleanupFolder [keeps_rules]: "keeps (runs_from r K) (cleanupFolder tx b i now)"
  unfolding cleanupFolder_def registeredFolders_def by (intro keeps_rules)

lemma keeps_defer [keeps_rules]: "keeps (runs_from r K) (store_call (DeferCandidate cid now))"
  by (rule keeps_call) (intro store_steps_single store_step.defer_candidate)

lemma keeps_deferForFolder [keeps_rules]:
  "(cid, i) \<in> K \<Longrightarrow> keeps (runs_from r K) (deferForFolder tx i cid leaf owner now dl)"
  unfolding deferForFolder_def
  by (intro keeps_rules keeps_try store_step.fail_candidate) (auto simp: knows_def)

lemma keeps_reserve_loop [keeps_rules]:
  "(cid, i) \<in> K \<Longrightarrow> keeps (runs_from r K) (reserve_loop tx i cid now dl seen fs)"
proof (induction fs arbitrary: seen)
  case Nil
  show ?case
    by (simp, intro keeps_rules keeps_write) (rule store_step.clear_defer)
next
  case (Cons f fs)
  then show ?case
    by (simp add: Let_def, intro impI conjI keeps_rules keeps_try)
      (auto intro: store_step.register_folder)
qed

lemma keeps_enqueue_failed [keeps_rules]: "keeps (runs_from r K) (enqueue_failed l p tid now)"
  unfolding enqueue_failed_def
  by (intro keeps_rules keeps_write) (simp add: store_step.retry_transfer store_step.progress)

lemma keeps_send_loop [keeps_rules]: "keeps (runs_from r K) (send_loop b l cid now ps n k)"
proof (induction ps arbitrary: n k)
  case (Cons p ps)
  then show ?case
    by (simp, intro impI conjI keeps_rules keeps_try keeps_call)
      (auto intro: store_step.enqueue store_step.attach store_steps_single)
qed (simp add: keeps_rules)

lemma keeps_topUpCandidate [keeps_rules]:
  "(cid, i) \<in> K \<Longrightarrow> keeps (runs_from r K) (topUpCandidate tx b l i cid now)"
  unfolding topUpCandidate_def reserveDownloadFolders_def Let_def
  by (intro keeps_rules) (auto intro: keeps_rules split: bool.split)

end
