(* ===== verification/TopUpFacts.thy ===== *)
theory TopUpFacts
  imports TopUp StoreFacts
begin

text \<open>
  The parts of a top-up: the name of a folder is a plain name; what an enqueue intent, an attached id
  and a refused enqueue do to the number of transfers in flight; what a registration gives; and,
  when nothing else runs and no call of the store fails, how a candidate whose folder another job holds
  waits and at the end fails. \<open>TopUpFaults\<close> puts them together for stores that fail.
\<close>

section \<open>The name of a folder\<close>

lemma split_on_elements: "e \<in> set (split_on c acc s) \<Longrightarrow> c \<notin> set acc \<Longrightarrow> c \<notin> set e \<and> set e \<subseteq> set acc \<union> set s"
  by (induction c acc s rule: split_on.induct) (force split: if_splits)+

lemma clean_elements_set:
  "e \<in> set (clean_elements r out es) \<Longrightarrow> e \<in> set out \<or> e \<in> set es \<and> e \<noteq> []"
  by (induction r out es rule: clean_elements.induct) (auto split: if_splits list.splits)

lemma set_Join: "set (Join sep xs) \<subseteq> set sep \<union> \<Union> (set ` set xs)"
  by (cases xs) (auto simp: Join_def)

lemma Join_member: "e \<in> set xs \<Longrightarrow> set e \<subseteq> set (Join sep xs)"
  by (cases xs) (auto simp: Join_def)

lemma Clean_only_slashes:
  assumes "set (Clean p) \<subseteq> {CHR ''/''}"
  shows "Clean p = ''/''"
proof -
  let ?els = "clean_elements (HasPrefix p ''/'') [] (split_on (CHR ''/'') [] p)"
  have body: "?els = [] \<or> \<not> set (Join ''/'' ?els) \<subseteq> {CHR ''/''}"
  proof (cases ?els)
    case (Cons e es)
    then have e: "e \<in> set ?els" by simp
    from clean_elements_set [OF e] have "e \<noteq> []" "CHR ''/'' \<notin> set e"
      using split_on_elements [of e "CHR ''/''" "[]" p] by auto
    then obtain c where "c \<in> set e" "c \<noteq> CHR ''/''" by (cases e) auto
    with Join_member [OF e, of "''/''"] show ?thesis by blast
  qed simp
  with assms show ?thesis
    by (auto simp: Clean_def Let_def Join_def split: if_splits)
qed

lemma Clean_not_Nil: "Clean p \<noteq> []"
  by (simp add: Clean_def Let_def)

lemma set_Clean: "set (Clean p) \<subseteq> set p \<union> set ''/.''"
proof -
  let ?r = "HasPrefix p ''/''"
  have "set e \<subseteq> set p" if "e \<in> set (clean_elements ?r [] (split_on (CHR ''/'') [] p))" for e
    using clean_elements_set [OF that] split_on_elements [of e "CHR ''/''" "[]" p] by auto
  then have "set (Join ''/'' (clean_elements ?r [] (split_on (CHR ''/'') [] p))) \<subseteq> set p \<union> set ''/''"
    using set_Join [of "''/''"] by blast
  then show ?thesis by (auto simp: Clean_def Let_def)
qed

lemma Base_element:
  assumes "\<not> set p \<subseteq> {CHR ''/''}"
  shows "Base p \<noteq> [] \<and> CHR ''/'' \<notin> set (Base p) \<and> set (Base p) \<subseteq> set p"
proof -
  let ?slash = "\<lambda>c. c = CHR ''/''"
  define q where "q = rev (dropWhile ?slash (rev p))"
  have "dropWhile ?slash (rev p) \<noteq> []"
    using assms by (auto simp: dropWhile_eq_Nil_conv)
  then have q: "q \<noteq> []" "last q \<noteq> CHR ''/''" "set q \<subseteq> set p"
    using hd_dropWhile [of ?slash "rev p"] set_dropWhileD [of _ ?slash "rev p"]
    by (auto simp: q_def last_rev)
  moreover have "p \<noteq> []" using assms by auto
  ultimately have base: "Base p = after_slash q"
    unfolding Base_def Let_def q_def [symmetric] by (simp only: if_False)
  have "takeWhile (\<lambda>c. c \<noteq> CHR ''/'') (rev q) \<noteq> []"
    using q(1,2) by (cases "rev q") (auto simp: hd_rev [symmetric])
  moreover have "CHR ''/'' \<notin> set (takeWhile (\<lambda>c. c \<noteq> CHR ''/'') (rev q))"
    by (auto dest: set_takeWhileD)
  moreover have "set (takeWhile (\<lambda>c. c \<noteq> CHR ''/'') (rev q)) \<subseteq> set q"
    using set_takeWhileD [of _ _ "rev q"] by auto
  ultimately show ?thesis using base q(3) by (auto simp: after_slash_def)
qed

lemma backslash_to_slash: "CHR 0x5C \<notin> set (to_slash f)"
  by (auto simp: to_slash_def)

lemma commonLeaf_valid: "commonLeaf fs = [] \<or> validDownloadLeaf (commonLeaf fs)"
proof (cases "commonLeaf fs = []")
  case False
  then obtain f gs where fs: "fs = f # gs"
    and some: "Dir (to_slash f) \<noteq> ''/''" "commonLeaf fs = Base (Dir (to_slash f))"
      "Base (Dir (to_slash f)) \<noteq> ''..''" "Base (Dir (to_slash f)) \<noteq> ''.''"
    by (auto simp: commonLeaf_def Let_def split: list.splits if_splits)
  have "\<not> set (Dir (to_slash f)) \<subseteq> {CHR ''/''}"
    using Clean_only_slashes some(1) by (auto simp: Dir_def)
  note el = Base_element [OF this]
  have "set (up_to_slash (to_slash f)) \<subseteq> set (to_slash f)"
    using set_dropWhileD by (fastforce simp: up_to_slash_def)
  then have "CHR 0x5C \<notin> set (Dir (to_slash f))"
    using set_Clean [of "up_to_slash (to_slash f)"] backslash_to_slash by (auto simp: Dir_def)
  with el some show ?thesis by (auto simp: validDownloadLeaf_def list_ex_iff)
qed simp

section \<open>A quiet world\<close>

lemma quiet_call:
  "w_Turns w = [] \<Longrightarrow> run_state (store_call op) w = (Inr (snd (op (w_DB w))), w\<lparr>w_DB := fst (op (w_DB w))\<rparr>)"
  by (simp add: store_call_def)

lemma quiet_read: "w_Turns w = [] \<Longrightarrow> run_state (store_read q) w = (Inr (q (w_DB w)), w)"
  by (simp add: store_read_def quiet_call)

lemma quiet_write: "w_Turns w = [] \<Longrightarrow> run_state (store_write f) w = (Inr (), w\<lparr>w_DB := f (w_DB w)\<rparr>)"
  by (simp add: store_write_def quiet_call)

lemma quiet_try:
  "w_Turns w = [] \<Longrightarrow> run_state (store_try op) w =
     ((case snd (op (w_DB w)) of Inl e \<Rightarrow> Inl (ErrStore e) | Inr x \<Rightarrow> Inr x), w\<lparr>w_DB := fst (op (w_DB w))\<rparr>)"
  by (simp add: store_try_def quiet_call flatten_def split: sum.split)

lemma quiet_event:
  "w_Turns w = [] \<Longrightarrow>
   run_state (AddJobEvent_best i ev d now) w = ((), w\<lparr>w_DB := AddJobEvent i ev d now (w_DB w)\<rparr>)"
  by (simp add: AddJobEvent_best_def quiet_write)

lemmas quiet_runs = quiet_call quiet_read quiet_write quiet_try quiet_event

section \<open>Transfers in flight\<close>

definition inflight :: "nat \<Rightarrow> db \<Rightarrow> nat" where
  "inflight cid s = row_count (\<lambda>t. tr_Candidate t = cid \<and> sent t) (transfers s)"

lemma inflight_of_eq: "inflight_of (TransfersForCandidate cid s) = int (inflight cid s)"
  by (simp add: inflight_of_def inflight_def TransfersForCandidate_def row_count_def conj_commute)

text \<open>Those of the candidate but for one.\<close>

definition inflight_but :: "nat \<Rightarrow> nat \<Rightarrow> db \<Rightarrow> nat" where
  "inflight_but cid tid s = row_count (\<lambda>t. tr_Candidate t = cid \<and> sent t \<and> tr_ID t \<noteq> tid) (transfers s)"

lemma row_count_key:
  "distinct (map k xs) \<Longrightarrow> row_count (\<lambda>x. p x \<and> k x = a) xs \<le> 1"
  by (induction xs) (auto simp: row_count_def filter_empty_conv image_iff)

lemma inflight_but_one:
  assumes "base_ok s"
  shows "inflight cid s \<le> Suc (inflight_but cid tid s)"
proof -
  have "distinct (map tr_ID (transfers s))" using assms by (simp add: base_ok_def keys_ok_def)
  from row_count_key [OF this, of "\<lambda>t. tr_Candidate t = cid \<and> sent t" tid]
  show ?thesis
    unfolding inflight_def inflight_but_def
    using row_count_split [of "\<lambda>t. tr_Candidate t = cid \<and> sent t" "transfers s" "\<lambda>t. tr_ID t = tid"]
    by (simp add: conj_assoc)
qed

lemma row_count_le:
  "(\<And>x. x \<in> set xs \<Longrightarrow> p (f x) \<Longrightarrow> q x) \<Longrightarrow> row_count p (map f xs) \<le> row_count q xs"
  by (induction xs) (auto simp: row_count_def)

lemma owner_state_rows: "\<lbrakk>jobs s' = jobs s; candidates s' = candidates s\<rbrakk> \<Longrightarrow> owner_state cid s' = owner_state cid s"
  by (simp add: owner_state_def the_candidate_def the_job_def cong: option.case_cong)

lemma intent_inflight:
  assumes base: "base_ok s" and intent: "RecordEnqueueIntent cid u f dl now s = (s', Inr (tid, True))"
  shows "inflight_but cid tid s' \<le> inflight cid s" "not_cancelled cid s'"
    "\<exists>t \<in> set (transfers s'). tr_ID t = tid \<and> tr_Candidate t = cid \<and> tr_State t = TQueued \<and> remote_file t = (u, f)"
    "folders s' = folders s" "jobs s' = jobs s" "candidates s' = candidates s"
proof -
  obtain st where st: "owner_state cid s = Some st" "st \<noteq> Cancelled"
    using intent by (auto simp: RecordEnqueueIntent_def split: option.splits job_state.splits)
  let ?key = "\<lambda>u'. transfer_key cid u f u' \<and> live u'"
  let ?up = "\<lambda>t. t\<lparr>tr_State := TQueued, tr_Deadline := dl, tr_SlskdID := [], tr_BytesDone := 0, tr_Updated := now\<rparr>"
  let ?new = "new_transfer (next_id s) cid u f TQueued 0 dl now"
  have run: "RecordEnqueueIntent cid u f dl now s =
     (case find (transfer_key cid u f) (transfers s) of
        None \<Rightarrow> if remote_busy (u, f) (\<lambda>t. False) s then (s, Inl ErrUniqueViolation)
          else (add_transfer ?new s, Inr (next_id s, True))
      | Some t \<Rightarrow> if \<not> live t then (s, Inr (0, False)) else (update_transfers ?key ?up s, Inr (tr_ID t, True)))"
    using st by (cases st) (simp_all add: RecordEnqueueIntent_def)
  have cases: "s' = add_transfer ?new s \<and> tid = next_id s
      \<or> (\<exists>t. s' = update_transfers ?key ?up s \<and> tid = tr_ID t \<and> t \<in> set (transfers s) \<and> ?key t)"
  proof (cases "find (transfer_key cid u f) (transfers s)")
    case None
    then have "s' = add_transfer ?new s \<and> tid = next_id s"
      using intent unfolding run by (clarsimp split: if_splits)
    then show ?thesis ..
  next
    case (Some t)
    then have "t \<in> set (transfers s)" "transfer_key cid u f t" by (auto simp: find_Some_iff)
    moreover have "live t \<and> s' = update_transfers ?key ?up s \<and> tid = tr_ID t"
      using intent Some unfolding run by (simp split: if_splits)
    ultimately show ?thesis by blast
  qed
  then consider (new) "s' = add_transfer ?new s" "tid = next_id s"
    | (old) t where "s' = update_transfers ?key ?up s" "tid = tr_ID t" "t \<in> set (transfers s)" "?key t"
    by blast
  then have "inflight_but cid tid s' \<le> inflight cid s \<and> owner_state cid s' = owner_state cid s
    \<and> (\<exists>t \<in> set (transfers s'). tr_ID t = tid \<and> tr_Candidate t = cid \<and> tr_State t = TQueued \<and> remote_file t = (u, f))
    \<and> folders s' = folders s \<and> jobs s' = jobs s \<and> candidates s' = candidates s"
  proof cases
    case new
    have "inflight_but cid (next_id s) (add_transfer ?new s) \<le> inflight cid s"
      unfolding inflight_but_def inflight_def add_transfer_def
      by (simp add: row_count_def new_transfer_def) (rule row_count_le [where f = id, simplified row_count_def, simplified], simp)
    with new show ?thesis
      by (auto simp: add_transfer_def new_transfer_def remote_file_def intro!: owner_state_rows)
  next
    case old
    have only: "v = t" if "v \<in> set (transfers s)" "?key v" for v
    proof -
      have "inj_on remote_file (set (filter live (transfers s)))"
        using base by (simp add: base_ok_def owners_ok_def distinct_map)
      with that old(3,4) show ?thesis by (auto simp: inj_on_def transfer_key_def)
    qed
    have "inflight_but cid tid s' \<le> inflight cid s"
      unfolding inflight_but_def inflight_def old(1) update_transfers_select row_update_map
      by (rule row_count_le) (use only old(2) in \<open>auto split: if_splits\<close>)
    moreover have "?up t \<in> set (transfers s')" using old by (auto simp: row_update_def)
    then have "\<exists>v \<in> set (transfers s'). tr_ID v = tid \<and> tr_Candidate v = cid \<and> tr_State v = TQueued \<and> remote_file v = (u, f)"
      using old(2,4) by (intro bexI [of _ "?up t"]) (simp_all add: transfer_key_def remote_file_def)
    ultimately show ?thesis using old(1) owner_state_rows [of s' s] by simp
  qed
  then show "inflight_but cid tid s' \<le> inflight cid s" "not_cancelled cid s'"
    "\<exists>t \<in> set (transfers s'). tr_ID t = tid \<and> tr_Candidate t = cid \<and> tr_State t = TQueued \<and> remote_file t = (u, f)"
    "folders s' = folders s" "jobs s' = jobs s" "candidates s' = candidates s"
    using st by (simp_all add: not_cancelled_def)
qed

text \<open>Both outcomes of a refused enqueue take the transfer out of flight.\<close>

lemma progress_keeps [simp]:
  "folders (UpdateTransferProgress i st d n now s) = folders s" "jobs (UpdateTransferProgress i st d n now s) = jobs s"
  "candidates (UpdateTransferProgress i st d n now s) = candidates s"
  "folders (RetryTransfer i now s) = folders s" "jobs (RetryTransfer i now s) = jobs s"
  "candidates (RetryTransfer i now s) = candidates s"
  by (simp_all add: UpdateTransferProgress_def RetryTransfer_def)

lemma attach_keeps [simp]:
  "folders (fst (AttachTransferID i r now s)) = folders s" "jobs (fst (AttachTransferID i r now s)) = jobs s"
  "candidates (fst (AttachTransferID i r now s)) = candidates s"
  "inflight cid (fst (AttachTransferID i r now s)) = inflight cid s"
proof -
  have "row_count p (row_update q (\<lambda>u. u\<lparr>tr_SlskdID := r, tr_Updated := now\<rparr>) ts) = row_count p ts"
    if "\<And>u. p (u\<lparr>tr_SlskdID := r, tr_Updated := now\<rparr>) = p u" for p q and ts :: "transfer list"
    using that by (induction ts) (auto simp: row_count_def row_update_def)
  then show "inflight cid (fst (AttachTransferID i r now s)) = inflight cid s"
    by (auto simp: AttachTransferID_def inflight_def sent_def split: option.splits job_state.splits)
qed (auto simp: AttachTransferID_def split: option.splits job_state.splits)

lemma failed_inflight:
  assumes base: "base_ok s" and t: "t \<in> set (transfers s)" "tr_ID t = tid" "tr_Candidate t = cid" "live t"
    and "not_cancelled cid s" and h: "\<And>u. \<not> sent (h u)" "\<And>u. tr_ID (h u) = tr_ID u"
  shows "inflight cid (update_transfers (\<lambda>u. tr_ID u = tid \<and> live u \<and> not_cancelled (tr_Candidate u) s) h s)
    \<le> inflight_but cid tid s"
  unfolding inflight_def inflight_but_def update_transfers_select row_update_map
proof (rule row_count_le)
  fix u
  let ?p = "\<lambda>u. tr_ID u = tid \<and> live u \<and> not_cancelled (tr_Candidate u) s"
  assume u: "u \<in> set (transfers s)"
    and flight: "tr_Candidate (if ?p u then h u else u) = cid \<and> sent (if ?p u then h u else u)"
  have "u = t" if "tr_ID u = tid" using transfer_unique [OF base u t(1)] that t(2) by simp
  with flight h(1) t assms(6) show "tr_Candidate u = cid \<and> sent u \<and> tr_ID u \<noteq> tid"
    by (auto split: if_splits)
qed

text \<open>A call of the backend leaves the database alone.\<close>

lemma net_frame:
  "run_state (Enqueue b u f n) w = (q, v) \<Longrightarrow> w_DB v = w_DB w \<and> w_Turns v = w_Turns w"
  "run_state (Cancel b u i) w = (q', v) \<Longrightarrow> w_DB v = w_DB w \<and> w_Turns v = w_Turns w"
  by (auto simp: Enqueue_def Cancel_def net_call_def Let_def split: prod.splits)

section \<open>Rows a top-up leaves alone\<close>

definition same_rows :: "db \<Rightarrow> db \<Rightarrow> bool" where
  "same_rows s s' \<longleftrightarrow> folders s' = folders s \<and> jobs s' = jobs s \<and> candidates s' = candidates s"

lemma same_rows_trans: "same_rows s t \<Longrightarrow> same_rows t u \<Longrightarrow> same_rows s u"
  by (simp add: same_rows_def)

section \<open>The reservation\<close>

text \<open>A folder that is registered for the job and that no other job in a slot holds.\<close>

definition holds_folder :: "(string \<Rightarrow> string) \<Rightarrow> nat \<Rightarrow> string \<Rightarrow> db \<Rightarrow> bool" where
  "holds_folder lower i leaf s \<longleftrightarrow> uncleaned lower i leaf s \<and> folder_owner lower i leaf s = None"

lemma holds_rows: "same_rows s s' \<Longrightarrow> holds_folder lower i leaf s' = holds_folder lower i leaf s"
proof -
  assume rows: "same_rows s s'"
  then have "in_slot k s' = in_slot k s" for k by (intro in_slot_jobs) (simp add: same_rows_def)
  with rows show ?thesis by (simp add: holds_folder_def uncleaned_def folder_owner_None same_rows_def)
qed

lemma register_other:
  assumes "RegisterDownloadFolder lower i leaf now s = (s', r)"
  shows "jobs s' = jobs s" "candidates s' = candidates s" "transfers s' = transfers s"
  using assms by (auto simp: RegisterDownloadFolder_def split: if_splits option.splits)

lemma register_holds:
  assumes "RegisterDownloadFolder lower i leaf now s = (s', Inr (x, True))"
  shows "holds_folder lower i leaf s'" "holds_folder lower i leaf0 s \<Longrightarrow> holds_folder lower i leaf0 s'"
proof -
  have x: "x = 0" using assms by (auto simp: RegisterDownloadFolder_def split: if_splits option.splits)
  note ok = register_success [OF assms [unfolded x]]
  have other: "uncleaned lower k l s" if "k \<noteq> i" "uncleaned lower k l s'" for k l
    using that ok(6) by (fastforce simp: uncleaned_def list_ex_iff folder_key_def)
  have "folder_owner lower i l s' = None" if "folder_owner lower i l s = None" for l
    using that other in_slot_jobs [OF ok(2)] unfolding folder_owner_None by blast
  moreover have "uncleaned lower i leaf0 s'" if un: "uncleaned lower i leaf0 s"
  proof -
    obtain f where f: "f \<in> set (folders s)" "folder_key lower i leaf0 f" "df_Cleaned f = None"
      using un unfolding uncleaned_def list_ex_iff by blast
    have "reopen_folder now f = f" using f(3) by (simp add: reopen_folder_def)
    then have "f \<in> set (folders s')"
      using assms f(1)
      by (force simp: RegisterDownloadFolder_def row_update_def split: if_splits option.splits)
    with f show ?thesis by (auto simp: uncleaned_def list_ex_iff folder_key_def)
  qed
  ultimately show "holds_folder lower i leaf s'" "holds_folder lower i leaf0 s \<Longrightarrow> holds_folder lower i leaf0 s'"
    using ok(1,5) by (auto simp: holds_folder_def)
qed

lemma terminal_transfers: "transfers (fst (terminalCandidateAndAdvance dir cid i st from to reason rule now s)) = transfers s"
  by (auto simp: terminalCandidateAndAdvance_def Let_def recordRejectionTx_def upsert_rejection_def
      split: option.splits sum.splits if_splits)

definition untouched :: "'n world \<Rightarrow> 'n world \<Rightarrow> bool" where
  "untouched w w' \<longleftrightarrow> w_Turns w' = w_Turns w \<and> transfers (w_DB w') = transfers (w_DB w)
     \<and> w_Calls w' = w_Calls w \<and> w_Net w' = w_Net w"

lemma untouched_trans: "untouched w v \<Longrightarrow> untouched v u \<Longrightarrow> untouched w u"
  by (simp add: untouched_def)

lemma FailCandidateAndAdvance_no_error: "\<exists>ok. snd (FailCandidateAndAdvance dir cid i reason from to now s) = Inr ok"
  by (auto simp: FailCandidateAndAdvance_def terminalCandidateAndAdvance_def no_rule_def Let_def)

lemma deferForFolder_quiet:
  assumes "w_Turns w = []"
  shows "run_state (deferForFolder tx i cid leaf owner now dl) w =
    (let (s, since, first) = DeferCandidate cid now (w_DB w)
     in (Inr (), w\<lparr>w_DB :=
          if first then AddJobEvent i EventCandidateDeferred (deferred_detail tx leaf owner) now s
          else if since = 0 \<or> now - since \<le> dl then s
          else fst (FailCandidateAndAdvance ReleaseDir cid i (ceiling_reason tx leaf owner dl)
                 Downloading Selecting now s)\<rparr>))"
proof -
  obtain s since first where dc: "DeferCandidate cid now (w_DB w) = (s, since, first)" by (metis surj_pair)
  obtain ok where "snd (FailCandidateAndAdvance ReleaseDir cid i (ceiling_reason tx leaf owner dl)
      Downloading Selecting now s) = Inr ok"
    using FailCandidateAndAdvance_no_error by blast
  with assms dc show ?thesis by (simp add: deferForFolder_def quiet_runs)
qed

lemma defer_untouched:
  assumes "w_Turns w = []" and "run_state (deferForFolder tx i cid leaf owner now dl) w = (x, w')"
  shows "untouched w w'"
  using assms
  by (auto simp: deferForFolder_quiet untouched_def DeferCandidate_def FailCandidateAndAdvance_def
      terminal_transfers AddJobEvent_def Let_def split: prod.splits if_splits option.splits)

section \<open>The whole top-up\<close>

lemma set_pending_of: "t \<in> set (pending_of ts) \<longleftrightarrow> t \<in> set ts \<and> tr_State t = TPending"
  by (auto simp: pending_of_def set_order_by)

lemma send_loop_calls:
  assumes "run_state (send_loop b l cid now ps n k) w = (r, w')" and "n \<ge> lim_Inflight l \<or> ps = []"
  shows "w' = w"
  using assms by (cases ps) auto

section \<open>Waiting\<close>

text \<open>What becomes of a candidate whose folder another job holds.\<close>

definition job_row :: "nat \<Rightarrow> db \<Rightarrow> job_state option" where
  "job_row i s = map_option job_State (the_job i s)"

lemma stored: "(Inr (), w\<lparr>w_DB := s\<rparr>) = (y, v) \<Longrightarrow> y = Inr () \<and> w_DB v = s"
  by auto

lemma topUp_blocked:
  assumes quiet: "w_Turns w = []" and base: "base_ok (w_DB w)"
    and c: "c \<in> set (candidates (w_DB w))" "cand_ID c = cid" "active c"
    and j: "j \<in> set (jobs (w_DB w))" "job_ID j = i" "job_State j = Downloading"
    and leaf: "\<forall>t \<in> set (TransfersForCandidate cid (w_DB w)). tr_State t = TPending \<longrightarrow> commonLeaf [tr_Filename t] = leaf"
    and "leaf \<noteq> []" and pending: "\<exists>t \<in> set (TransfersForCandidate cid (w_DB w)). tr_State t = TPending"
    and room: "int (inflight cid (w_DB w)) < lim_Inflight l"
    and owner: "folder_owner (tx_Lower tx) i leaf (w_DB w) = Some owner"
    and run: "run_state (topUpCandidate tx b l i cid now) w = (x, w')"
  shows "x = (0, None)" "untouched w w'"
    "case cand_DeferredSince c of
       None \<Rightarrow> (\<exists>d \<in> set (candidates (w_DB w')). cand_ID d = cid \<and> active d \<and> cand_DeferredSince d = Some now)
         \<and> jobs (w_DB w') = jobs (w_DB w)
     | Some t \<Rightarrow>
         if t = 0 \<or> now - t \<le> lim_Deadline l then jobs (w_DB w') = jobs (w_DB w)
         else (\<forall>d \<in> set (candidates (w_DB w')). cand_ID d = cid \<longrightarrow> cand_State d = CFailed)
           \<and> (\<forall>k \<in> set (jobs (w_DB w')). job_ID k = i \<longrightarrow> job_State k = Selecting)"
proof -
  let ?ts = "TransfersForCandidate cid (w_DB w)"
  let ?ps = "pending_of ?ts" and ?n = "int (inflight cid (w_DB w))"
  obtain t0 where "t0 \<in> set ?ps" using pending set_pending_of by blast
  then obtain t ts where ps: "?ps = t # ts" by (cases ?ps) auto
  have t: "commonLeaf [tr_Filename t] = leaf" using leaf ps set_pending_of [of t ?ts] by simp
  have valid: "validDownloadLeaf leaf" using commonLeaf_valid [of "[tr_Filename t]"] t \<open>leaf \<noteq> []\<close> by simp
  have reg: "RegisterDownloadFolder (tx_Lower tx) i leaf now (w_DB w) = (w_DB w, Inr (owner, False))"
    using valid owner by (simp add: RegisterDownloadFolder_def)
  obtain rs where take: "take (nat (lim_Inflight l - ?n)) ?ps = t # rs"
    using ps room by (cases "nat (lim_Inflight l - ?n)") auto
  obtain y v where later: "run_state (deferForFolder tx i cid leaf owner now (lim_Deadline l)) w = (y, v)"
    by (metis surj_pair)
  have cand: "the_candidate cid (w_DB w) = Some c"
    unfolding the_candidate_def
  proof (rule find_unique [OF c(1)])
    show "d = c" if "d \<in> set (candidates (w_DB w))" "cand_ID d = cid" for d
      using candidate_unique [OF base that(1) c(1)] that(2) c(2) by simp
  qed (rule c(2))
  let ?since = "case cand_DeferredSince c of None \<Rightarrow> now | Some t \<Rightarrow> t"
  let ?f = "\<lambda>d. d\<lparr>cand_DeferredSince := Some ?since, cand_Updated := now\<rparr>"
  let ?s = "update_candidates (\<lambda>d. cand_ID d = cid) ?f (w_DB w)"
  have dc: "DeferCandidate cid now (w_DB w) = (?s, ?since, cand_DeferredSince c = None)"
    using cand by (simp add: DeferCandidate_def Let_def)
  have c': "?f c \<in> set (candidates ?s)" using c by (auto simp: row_update_def)
  have fc: "cand_ID (?f c) = cid \<and> active (?f c)" using c by (simp add: active_def)
  have base': "base_ok ?s" by (rule base_update_candidates [OF base]) (simp add: keeps_owner_def)
  have y: "y = Inr ()"
    and v: "w_DB v = (if cand_DeferredSince c = None
        then AddJobEvent i EventCandidateDeferred (deferred_detail tx leaf owner) now ?s
        else if ?since = 0 \<or> now - ?since \<le> lim_Deadline l then ?s
        else fst (FailCandidateAndAdvance ReleaseDir cid i (ceiling_reason tx leaf owner (lim_Deadline l))
               Downloading Selecting now ?s))"
    using stored [OF later [unfolded deferForFolder_quiet [OF quiet] dc Let_def case_prod_conv]]
    by (rule conjunct1, rule conjunct2)
  have "x = (0, None) \<and> w' = v"
    using run quiet ps room take t \<open>leaf \<noteq> []\<close> reg later y
    by (simp add: topUpCandidate_def reserveDownloadFolders_def Let_def quiet_runs inflight_of_eq)
  then show "x = (0, None)" "untouched w w'" using defer_untouched [OF quiet later] by simp_all
  have w': "w' = v" using \<open>x = (0, None) \<and> w' = v\<close> by simp
  show "case cand_DeferredSince c of
       None \<Rightarrow> (\<exists>d \<in> set (candidates (w_DB w')). cand_ID d = cid \<and> active d \<and> cand_DeferredSince d = Some now)
         \<and> jobs (w_DB w') = jobs (w_DB w)
     | Some t \<Rightarrow>
         if t = 0 \<or> now - t \<le> lim_Deadline l then jobs (w_DB w') = jobs (w_DB w)
         else (\<forall>d \<in> set (candidates (w_DB w')). cand_ID d = cid \<longrightarrow> cand_State d = CFailed)
           \<and> (\<forall>k \<in> set (jobs (w_DB w')). job_ID k = i \<longrightarrow> job_State k = Selecting)"
  proof (cases "cand_DeferredSince c")
    case None
    then have "w_DB v = AddJobEvent i EventCandidateDeferred (deferred_detail tx leaf owner) now ?s"
      using v by simp
    then have "?f c \<in> set (candidates (w_DB v))" and same: "jobs (w_DB v) = jobs (w_DB w)"
      using c' by (simp_all add: AddJobEvent_def)
    moreover have "cand_ID (?f c) = cid \<and> active (?f c) \<and> cand_DeferredSince (?f c) = Some now"
      using c None by (simp add: active_def)
    ultimately have "\<exists>d \<in> set (candidates (w_DB v)). cand_ID d = cid \<and> active d \<and> cand_DeferredSince d = Some now"
      by blast
    with None same show ?thesis unfolding w' by simp
  next
    case (Some since)
    show ?thesis
    proof (cases "since = 0 \<or> now - since \<le> lim_Deadline l")
      case True
      then have "w_DB v = ?s" using v Some by simp
      with True Some show ?thesis unfolding w' by simp
    next
      case False
      let ?fail = "terminalCandidateAndAdvance ReleaseDir cid i CFailed Downloading Selecting
        (ceiling_reason tx leaf owner (lim_Deadline l)) no_rule now ?s"
      have "row_count (\<lambda>d. cand_ID d = cid \<and> active d) (candidates ?s) \<noteq> 0"
        unfolding row_count_eq_0 using c' fc by blast
      moreover have "row_count (\<lambda>k. job_is i k \<and> job_State k = Downloading) (jobs ?s) \<noteq> 0"
        using j by (auto simp: row_count_eq_0 job_is_def)
      ultimately have ok: "snd ?fail = Inr True"
        by (simp add: terminalCandidateAndAdvance_def no_rule_def Let_def)
      have "w_DB v = fst ?fail" using v Some False by (simp add: FailCandidateAndAdvance_def)
      with terminal_both [OF base', of ReleaseDir cid i CFailed Downloading Selecting _ no_rule now "fst ?fail"] ok
      show ?thesis using False Some unfolding w' by (simp add: prod_eq_iff)
    qed
  qed
qed

end
