(* ===== verification/Selecting.thy ===== *)
theory Selecting
  imports TopUpFacts FailBackoff
begin

text \<open>
  The module \<open>Selecting\<close> (\<open>internal/pipeline/selecting.go\<close>): one cached candidate is activated for each
  runnable job, or the job is sent back, failed or deferred; and the quarantine of \<open>paths.go\<close> for what
  a job that failed for good leaves behind.
\<close>

section \<open>Quarantine\<close>

definition quarantine_names :: "texts \<Rightarrow> nat \<Rightarrow> string \<Rightarrow> string list" where
  "quarantine_names tx jobID leaf =
     [leaf, leaf @ ''.job'' @ decimal jobID,
      leaf @ ''.job'' @ decimal jobID @ ''.'' @ decimal_int (tx_Clock tx)]"

fun first_free :: "string \<Rightarrow> string list \<Rightarrow> ('n, string option) prog" where
  "first_free dstRoot [] = return None"
| "first_free dstRoot (name # names) =
     (let p = path_Join dstRoot name
      in do {
        r \<leftarrow> os_read (os_Stat p);
        if r = Inl NotExist then return (Some p) else first_free dstRoot names })"

definition freeQuarantinePath :: "texts \<Rightarrow> string \<Rightarrow> string \<Rightarrow> nat \<Rightarrow> ('n, string option) prog" where
  "freeQuarantinePath tx dstRoot leaf jobID = first_free dstRoot (quarantine_names tx jobID leaf)"

text \<open>The result is the destination, if the folder moved.\<close>

definition quarantineFolder ::
  "texts \<Rightarrow> nat \<Rightarrow> string \<Rightarrow> string \<Rightarrow> string \<Rightarrow> ('n, string option) prog" where
  "quarantineFolder tx jobID completeDir leaf dirName =
     (if completeDir = [] \<or> leaf = [] then return None
      else if isQuarantineDir leaf then return None
      else (let src = path_Join completeDir leaf; dstRoot = path_Join completeDir dirName
            in if \<not> child_of completeDir src then return None
               else if Clean src = Clean completeDir then return None
               else do {
                 stat \<leftarrow> os_read (os_Stat src);
                 case stat of
                   Inl e \<Rightarrow> return None
                 | Inr _ \<Rightarrow> do {
                     made \<leftarrow> os_write (os_MkdirAll dstRoot);
                     case made of
                       Inl e \<Rightarrow> return None
                     | Inr _ \<Rightarrow> do {
                         free \<leftarrow> freeQuarantinePath tx dstRoot leaf jobID;
                         case free of
                           None \<Rightarrow> return None
                         | Some dst \<Rightarrow> do {
                             moved \<leftarrow> os_write (os_Rename src dst);
                             case moved of
                               Inl e \<Rightarrow> return None
                             | Inr _ \<Rightarrow> return (Some dst) } } } }))"

fun quarantine_loop ::
  "texts \<Rightarrow> nat \<Rightarrow> string \<Rightarrow> ts \<Rightarrow> string \<Rightarrow> string list \<Rightarrow> string list \<Rightarrow> ('n, string list) prog" where
  "quarantine_loop tx jobID completeDir now dirName moved [] = return moved"
| "quarantine_loop tx jobID completeDir now dirName moved (leaf # leaves) = do {
     r \<leftarrow> quarantineFolder tx jobID completeDir leaf dirName;
     case r of
       None \<Rightarrow> quarantine_loop tx jobID completeDir now dirName moved leaves
     | Some dst \<Rightarrow> do {
         _ \<leftarrow> markCleaned tx jobID leaf now;
         quarantine_loop tx jobID completeDir now dirName (moved @ [dst]) leaves } }"

definition quarantineLeftovers :: "texts \<Rightarrow> string \<Rightarrow> nat \<Rightarrow> ts \<Rightarrow> ('n, unit) prog" where
  "quarantineLeftovers tx completeDir jobID now =
     (if completeDir = [] then return ()
      else do {
        r \<leftarrow> registeredFolders jobID;
        case r of
          Inl e \<Rightarrow> return ()
        | Inr leaves \<Rightarrow> do {
            moved \<leftarrow> quarantine_loop tx jobID completeDir now quarantineDirName [] leaves;
            if moved = [] then return ()
            else AddJobEvent_best jobID EventQuarantined
                   (''moved leftover files to '' @ Join '', '' moved) now } })"

section \<open>A job without a candidate\<close>

text \<open>\<open>failOrBackoff\<close> over the store as it is shared with the others.\<close>

definition fail_or_backoff ::
  "album_job \<Rightarrow> int \<Rightarrow> duration \<Rightarrow> duration \<Rightarrow> bool \<Rightarrow> string \<Rightarrow> ts \<Rightarrow> ('n, bool) fallible" where
  "fail_or_backoff job maxRetries base maxBackoff resetToWanted reason now =
     (let retries = job_Retries job + 1; jobID = job_ID job
      in if retries \<ge> maxRetries then do {
           r \<leftarrow> store_write (MarkJobFailed jobID now);
           case r of
             Inl e \<Rightarrow> return (Inl e)
           | Inr _ \<Rightarrow> do {
               _ \<leftarrow> AddJobEvent_best jobID EventJobFailed (jobFailedDetail retries maxRetries reason) now;
               return (Inr True) } }
         else (let notBefore = now + sint (nextBackoff retries base maxBackoff)
               in do {
                 r \<leftarrow> store_write (if resetToWanted then ResetJobToWanted jobID Selecting retries (Some notBefore) now
                        else SetJobBackoff jobID retries notBefore now);
                 case r of
                   Inl e \<Rightarrow> return (Inl e)
                 | Inr _ \<Rightarrow> return (Inr False) }))"

record selecting_params =
  sp_MaxActive :: nat
  sp_MaxRetries :: int
  sp_BackoffBase :: duration
  sp_BackoffCap :: duration
  sp_CandidateTTL :: int
  sp_Limits :: top_up_limits
  sp_CompleteDir :: string

definition exhausted_manual :: "texts \<Rightarrow> selecting_params \<Rightarrow> nat \<Rightarrow> ts \<Rightarrow> ('n, bool) fallible" where
  "exhausted_manual tx p jobID now = do {
     r \<leftarrow> store_write (MarkJobFailed jobID now);
     case r of
       Inl e \<Rightarrow> return (Inl e)
     | Inr _ \<Rightarrow> do {
         _ \<leftarrow> AddJobEvent_best jobID EventJobFailed ''manual job candidate failed, not re-searching'' now;
         _ \<leftarrow> quarantineLeftovers tx (sp_CompleteDir p) jobID now;
         return (Inr True) } }"

definition exhausted_lidarr :: "texts \<Rightarrow> selecting_params \<Rightarrow> album_job \<Rightarrow> ts \<Rightarrow> ('n, bool) fallible" where
  "exhausted_lidarr tx p job now = do {
     _ \<leftarrow> AddJobEvent_best (job_ID job) EventCandidateRejected ''candidates exhausted'' now;
     r \<leftarrow> fail_or_backoff job (sp_MaxRetries p) (sp_BackoffBase p) (sp_BackoffCap p) True
            ''every candidate found for this album was tried and failed to download'' now;
     case r of
       Inl e \<Rightarrow> return (Inl e)
     | Inr failed \<Rightarrow> do {
         _ \<leftarrow> (if failed then quarantineLeftovers tx (sp_CompleteDir p) (job_ID job) now else return ());
         return (Inr True) } }"

section \<open>A job with a candidate\<close>

definition expired_cache :: "album_job \<Rightarrow> ts \<Rightarrow> ('n, bool) fallible" where
  "expired_cache job now = do {
     r \<leftarrow> store_write (ResetJobToWanted (job_ID job) Selecting (job_Retries job) None now);
     case r of
       Inl e \<Rightarrow> return (Inl e)
     | Inr _ \<Rightarrow> do {
         _ \<leftarrow> AddJobEvent_best (job_ID job) EventCandidateRejected ''candidate cache expired, re-searching'' now;
         return (Inr True) } }"

definition selected_detail :: "candidate \<Rightarrow> nat \<Rightarrow> string" where
  "selected_detail c k =
     ''enqueued candidate '' @ cand_Username c @ '', downloading ('' @ decimal (length (cand_Files c)) @ '' files, ''
       @ decimal k @ '' sent, '' @ decimal_int (int (length (cand_Files c)) - int k) @ '' deferred)''"

definition activate_candidate ::
  "texts \<Rightarrow> 'n backend \<Rightarrow> selecting_params \<Rightarrow> nat \<Rightarrow> candidate \<Rightarrow> ts \<Rightarrow> ('n, bool) fallible" where
  "activate_candidate tx b p jobID c now = do {
     a \<leftarrow> store_try (ActivateCandidateWithTransfers (cand_ID c) jobID (int (sp_MaxActive p))
            (now + lim_Deadline (sp_Limits p)) now);
     case a of
       Inl e \<Rightarrow> return (Inl e)
     | Inr (activated, capFull) \<Rightarrow>
         if \<not> activated then
           (if capFull then return (Inr False)
            else do {
              d \<leftarrow> store_write (DeferSelectingJob jobID now);
              case d of
                Inl e \<Rightarrow> return (Inl e)
              | Inr _ \<Rightarrow> return (Inr True) })
         else do {
           (k, err) \<leftarrow> topUpCandidate tx b (sp_Limits p) jobID (cand_ID c) now;
           case err of
             Some e \<Rightarrow> return (Inl e)
           | None \<Rightarrow> do {
               _ \<leftarrow> AddJobEvent_best jobID EventCandidateSelected (selected_detail c k) now;
               return (Inr True) } } }"

definition selectJob ::
  "texts \<Rightarrow> 'n backend \<Rightarrow> selecting_params \<Rightarrow> album_job \<Rightarrow> ts \<Rightarrow> ('n, bool) fallible" where
  "selectJob tx b p job now = do {
     r \<leftarrow> store_read (NextNewCandidate (job_ID job));
     case r of
       Inl e \<Rightarrow> return (Inl e)
     | Inr None \<Rightarrow>
         (if job_Source job = SourceManual then exhausted_manual tx p (job_ID job) now
          else exhausted_lidarr tx p job now)
     | Inr (Some c) \<Rightarrow>
         if job_Source job \<noteq> SourceManual \<and> now - cand_Created c > sp_CandidateTTL p
         then expired_cache job now
         else activate_candidate tx b p (job_ID job) c now }"

fun select_loop ::
  "texts \<Rightarrow> 'n backend \<Rightarrow> selecting_params \<Rightarrow> ts \<Rightarrow> album_job list \<Rightarrow> ('n, unit) fallible" where
  "select_loop tx b p now [] = return (Inr ())"
| "select_loop tx b p now (job # rest) = do {
     r \<leftarrow> selectJob tx b p job now;
     case r of
       Inl e \<Rightarrow> return (Inl e)
     | Inr go_on \<Rightarrow> if go_on then select_loop tx b p now rest else return (Inr ()) }"

definition Selecting_Tick ::
  "texts \<Rightarrow> 'n backend \<Rightarrow> selecting_params \<Rightarrow> ts \<Rightarrow> ('n, unit) fallible" where
  "Selecting_Tick tx b p now = do {
     r \<leftarrow> store_read (RunnableJobsInState (tx_Less tx) Selecting now (sp_MaxActive p));
     case r of
       Inl e \<Rightarrow> return (Inl e)
     | Inr js \<Rightarrow> select_loop tx b p now js }"

section \<open>Every write is a step of the store\<close>

lemma keeps_first_free [keeps_rules]: "keeps (runs_from r K) (first_free d ns)"
  by (induction ns) (auto simp: Let_def intro!: keeps_rules)

lemma keeps_quarantineFolder [keeps_rules]: "keeps (runs_from r K) (quarantineFolder tx i dir leaf name)"
  unfolding quarantineFolder_def freeQuarantinePath_def Let_def by (intro keeps_rules)

lemma keeps_quarantine_loop [keeps_rules]:
  "keeps (runs_from r K) (quarantine_loop tx i dir now name moved leaves)"
  by (induction leaves arbitrary: moved) (auto intro!: keeps_rules)

lemma keeps_quarantineLeftovers [keeps_rules]: "keeps (runs_from r K) (quarantineLeftovers tx dir i now)"
  unfolding quarantineLeftovers_def registeredFolders_def by (intro keeps_rules)

lemma keeps_mark_failed [keeps_rules]: "keeps (runs_from r K) (store_write (MarkJobFailed i now))"
  by (intro keeps_write store_step.mark_failed)

lemma keeps_reset [keeps_rules]: "keeps (runs_from r K) (store_write (ResetJobToWanted i from q nb now))"
  by (intro keeps_write store_step.reset)

lemma keeps_fail_or_backoff [keeps_rules]:
  "keeps (runs_from r K) (fail_or_backoff job mr base cap rw reason now)"
proof -
  have "keeps (runs_from r K) (store_write (if rw then ResetJobToWanted i Selecting q nb now else SetJobBackoff i q t now))"
    for i q nb t
    by (intro keeps_write) (simp add: store_step.reset store_step.backoff)
  then show ?thesis unfolding fail_or_backoff_def Let_def by (intro keeps_rules)
qed

lemma keeps_exhausted [keeps_rules]:
  "keeps (runs_from r K) (exhausted_manual tx p i now)" "keeps (runs_from r K) (exhausted_lidarr tx p job now)"
  "keeps (runs_from r K) (expired_cache job now)"
  unfolding exhausted_manual_def exhausted_lidarr_def expired_cache_def by (intro keeps_rules)+

lemma keeps_activate_candidate [keeps_rules]:
  "(cand_ID c, i) \<in> K \<Longrightarrow> keeps (runs_from r K) (activate_candidate tx b p i c now)"
  unfolding activate_candidate_def
  by (intro keeps_rules keeps_try keeps_write) (auto intro: store_step.activate store_step.defer_job)

lemma keeps_selectJob [keeps_rules]: "keeps (runs_from r K) (selectJob tx b p job now)"
proof -
  define learn :: "candidate option \<Rightarrow> (nat \<times> nat) set"
    where "learn y = (case y of None \<Rightarrow> {} | Some c \<Rightarrow> {(cand_ID c, job_ID job)})" for y
  have know: "\<forall>k \<in> learn (NextNewCandidate (job_ID job) s). knows k s" if "wf_db s" for s
  proof (cases "NextNewCandidate (job_ID job) s")
    case (Some c)
    then have "c \<in> set (candidates s)" "cand_Job c = job_ID job"
      by (auto simp: NextNewCandidate_def dest!: pick_first_member)
    with knows_member [OF that this(1)] Some show ?thesis by (simp add: learn_def)
  qed (simp add: learn_def)
  show ?thesis
    unfolding selectJob_def
    by (rule keeps_learn [where learn = learn, OF know]) (auto simp: learn_def intro!: keeps_rules)
qed

lemma keeps_select_loop [keeps_rules]: "keeps (runs_from r K) (select_loop tx b p now js)"
  by (induction js) (auto intro!: keeps_rules)

lemma keeps_Selecting_Tick [keeps_rules]: "keeps (runs_from r K) (Selecting_Tick tx b p now)"
  unfolding Selecting_Tick_def by (intro keeps_rules)

end
