(* ===== verification/Downloading.thy ===== *)
theory Downloading
  imports TopUpFacts
begin

text \<open>
  The module \<open>Downloading\<close> (\<open>internal/pipeline/downloading.go\<close>). A tick has three phases: reconcile the
  stored transfers with the backend's list, resolve the jobs whose transfers are settled, and top up
  the others.
\<close>

record downloading_params =
  dp_MaxActive :: nat
  dp_StallTimeout :: int
  dp_Limits :: top_up_limits

definition candidateCooldown :: cooldown_policy where
  "candidateCooldown = \<lparr>pol_Base = word_of_int (8 * hour), pol_Cap = word_of_int (72 * hour)\<rparr>"

section \<open>Reconcile\<close>

record reconcile_stats =
  rs_Adopted :: nat
  rs_Completed :: nat
  rs_Cancelled :: nat
  rs_Parked :: nat
  rs_Retried :: nat
  rs_Stalled :: nat
  rs_Unknown :: nat

text \<open>What one pass carries along: the counts, the remote ids it knows, the transfers it is done with.\<close>

record pass =
  ps_Stats :: reconcile_stats
  ps_OurIDs :: "string list"
  ps_Handled :: "nat list"

definition new_pass :: pass where
  "new_pass = \<lparr>ps_Stats = \<lparr>rs_Adopted = 0, rs_Completed = 0, rs_Cancelled = 0, rs_Parked = 0,
     rs_Retried = 0, rs_Stalled = 0, rs_Unknown = 0\<rparr>, ps_OurIDs = [], ps_Handled = []\<rparr>"

definition handled :: "transfer \<Rightarrow> pass \<Rightarrow> pass" where
  "handled t a = a\<lparr>ps_Handled := tr_ID t # ps_Handled a\<rparr>"

definition ours :: "string \<Rightarrow> pass \<Rightarrow> pass" where
  "ours i a = a\<lparr>ps_OurIDs := i # ps_OurIDs a\<rparr>"

definition count :: "(reconcile_stats \<Rightarrow> reconcile_stats) \<Rightarrow> pass \<Rightarrow> pass" where
  "count f a = a\<lparr>ps_Stats := f (ps_Stats a)\<rparr>"

text \<open>The two maps, in which a later entry of the list replaces an earlier one.\<close>

definition fallback_key :: "string \<Rightarrow> string \<Rightarrow> string" where
  "fallback_key user file = user @ [CHR 0x00] @ file"

definition live_by_id :: "remote_transfer list \<Rightarrow> string \<Rightarrow> remote_transfer option" where
  "live_by_id lts i = find (\<lambda>t. rt_ID t = i) (rev lts)"

definition live_by_fallback :: "remote_transfer list \<Rightarrow> string \<Rightarrow> remote_transfer option" where
  "live_by_fallback lts k = find (\<lambda>t. fallback_key (rt_Username t) (rt_Filename t) = k) (rev lts)"

definition matchLive :: "remote_transfer list \<Rightarrow> transfer \<Rightarrow> remote_transfer option" where
  "matchLive lts tr =
     (case (if tr_SlskdID tr \<noteq> [] then live_by_id lts (tr_SlskdID tr) else None) of
        Some lt \<Rightarrow> Some lt
      | None \<Rightarrow> live_by_fallback lts (fallback_key (tr_Username tr) (tr_Filename tr)))"

definition removeFromSlskd :: "'n backend \<Rightarrow> string \<Rightarrow> string \<Rightarrow> ('n, unit) prog" where
  "removeFromSlskd b user i =
     (if i = [] then return () else do { _ \<leftarrow> Remove b user i; return () })"

text \<open>A step of a pass gives the error that ends it, if any, and the pass so far.\<close>

type_synonym 'n pass_step = "('n, run_error option \<times> pass) prog"

definition retry_left :: "downloading_params \<Rightarrow> transfer \<Rightarrow> bool" where
  "retry_left p tr \<longleftrightarrow> int (tr_Retries tr) < lim_Retries (dp_Limits p)"

definition finishStalled ::
  "'n backend \<Rightarrow> downloading_params \<Rightarrow> ts \<Rightarrow> transfer \<Rightarrow> remote_transfer \<Rightarrow> pass \<Rightarrow> 'n pass_step" where
  "finishStalled b p now tr lt a = do {
     r \<leftarrow> store_write (if retry_left p tr then RetryTransfer (tr_ID tr) now
            else UpdateTransferProgress (tr_ID tr) TErrored (tr_BytesDone tr) (tr_BytesTotal tr) now);
     case r of
       Inl e \<Rightarrow> return (Some e, a)
     | Inr _ \<Rightarrow> do {
         _ \<leftarrow> removeFromSlskd b (tr_Username tr) (rt_ID lt);
         return (None, count (\<lambda>s. s\<lparr>rs_Stalled := Suc (rs_Stalled s)\<rparr>) a) } }"

definition park_transfer :: "transfer \<Rightarrow> string \<Rightarrow> ts \<Rightarrow> pass \<Rightarrow> 'n pass_step" where
  "park_transfer tr detail now a = do {
     r \<leftarrow> store_call (ParkJobForCandidate (tr_ID tr) (tr_Candidate tr) TErrored (tr_BytesDone tr) (tr_BytesTotal tr) now);
     case r of
       Inl e \<Rightarrow> return (Some e, a)
     | Inr (jobID, parked) \<Rightarrow>
         if parked then do {
           _ \<leftarrow> AddJobEvent_best jobID EventJobParked detail now;
           return (None, count (\<lambda>s. s\<lparr>rs_Parked := Suc (rs_Parked s)\<rparr>) a) }
         else return (None, a) }"

subsection \<open>Past the deadline\<close>

definition overdue_cancelled ::
  "'n backend \<Rightarrow> ts \<Rightarrow> transfer \<Rightarrow> bool \<Rightarrow> string \<Rightarrow> pass \<Rightarrow> 'n pass_step" where
  "overdue_cancelled b now tr matched effectiveID a = do {
     r \<leftarrow> store_write (UpdateTransferProgress (tr_ID tr) TCancelled (tr_BytesDone tr) (tr_BytesTotal tr) now);
     case r of
       Inl e \<Rightarrow> return (Some e, a)
     | Inr _ \<Rightarrow> do {
         _ \<leftarrow> (if matched then removeFromSlskd b (tr_Username tr) effectiveID else return ());
         return (None, handled tr (count (\<lambda>s. s\<lparr>rs_Cancelled := Suc (rs_Cancelled s)\<rparr>) a)) } }"

definition overdue_live ::
  "'n backend \<Rightarrow> downloading_params \<Rightarrow> ts \<Rightarrow> transfer \<Rightarrow> remote_transfer \<Rightarrow> string \<Rightarrow> pass \<Rightarrow> 'n pass_step" where
  "overdue_live b p now tr lt effectiveID a =
     (if tr_State tr = TStalled \<and> rt_State lt = TCancelled then do {
        (err, a') \<leftarrow> finishStalled b p now tr lt a;
        return (err, if err = None then handled tr a' else a') }
      else do {
        c \<leftarrow> Cancel b (tr_Username tr) effectiveID;
        case c of
          Inr _ \<Rightarrow> overdue_cancelled b now tr True effectiveID a
        | Inl e \<Rightarrow>
            if now - tr_Deadline tr \<le> lim_Deadline (dp_Limits p) then return (None, a)
            else do {
              (err, a') \<leftarrow> park_transfer tr
                ''the backend would not confirm cancelling this transfer, so automation stopped'' now a;
              return (err, if err = None then handled tr a' else a') } })"

definition overdue_one ::
  "'n backend \<Rightarrow> downloading_params \<Rightarrow> remote_transfer list \<Rightarrow> ts \<Rightarrow> transfer \<Rightarrow> pass \<Rightarrow> 'n pass_step" where
  "overdue_one b p lts now tr a =
     (case matchLive lts tr of
        None \<Rightarrow> overdue_cancelled b now tr False (tr_SlskdID tr) a
      | Some lt \<Rightarrow>
          let a1 = ours (rt_ID lt) a
          in if tr_SlskdID tr = [] \<and> rt_ID lt \<noteq> [] then do {
               r \<leftarrow> store_call (AttachTransferID (tr_ID tr) (rt_ID lt) now);
               case r of
                 Inl e \<Rightarrow> return (Some e, a1)
               | Inr attached \<Rightarrow>
                   if attached then overdue_live b p now tr lt (rt_ID lt) a1
                   else do {
                     _ \<leftarrow> Cancel b (tr_Username tr) (rt_ID lt);
                     return (None, handled tr a1) } }
             else overdue_live b p now tr lt (tr_SlskdID tr) a1)"

fun overdue_loop ::
  "'n backend \<Rightarrow> downloading_params \<Rightarrow> remote_transfer list \<Rightarrow> ts \<Rightarrow> transfer list \<Rightarrow> pass \<Rightarrow> 'n pass_step" where
  "overdue_loop b p lts now [] a = return (None, a)"
| "overdue_loop b p lts now (tr # trs) a = do {
     (err, a') \<leftarrow> overdue_one b p lts now tr a;
     case err of
       Some e \<Rightarrow> return (Some e, a')
     | None \<Rightarrow> overdue_loop b p lts now trs a' }"

subsection \<open>The others\<close>

definition lost_transfer :: "downloading_params \<Rightarrow> ts \<Rightarrow> transfer \<Rightarrow> pass \<Rightarrow> 'n pass_step" where
  "lost_transfer p now tr a =
     (if retry_left p tr then do {
        r \<leftarrow> store_write (RetryTransfer (tr_ID tr) now);
        case r of
          Inl e \<Rightarrow> return (Some e, a)
        | Inr _ \<Rightarrow> return (None, count (\<lambda>s. s\<lparr>rs_Retried := Suc (rs_Retried s)\<rparr>) a) }
      else park_transfer tr
        ''the download kept vanishing from the backend and ran out of retries, so automation stopped'' now a)"

definition stalled_too_long :: "downloading_params \<Rightarrow> ts \<Rightarrow> transfer \<Rightarrow> remote_transfer \<Rightarrow> bool" where
  "stalled_too_long p now tr lt \<longleftrightarrow> rt_State lt = TInProgress
     \<and> (case tr_LastProgress tr of None \<Rightarrow> False | Some t \<Rightarrow> now - t > dp_StallTimeout p)"

definition cancel_stalled ::
  "'n backend \<Rightarrow> downloading_params \<Rightarrow> ts \<Rightarrow> transfer \<Rightarrow> remote_transfer \<Rightarrow> pass \<Rightarrow> 'n pass_step" where
  "cancel_stalled b p now tr lt a = do {
     r \<leftarrow> (if tr_State tr \<noteq> TStalled
           then store_write (UpdateTransferProgress (tr_ID tr) TStalled (rt_BytesDone lt) (rt_Size lt) now)
           else return (Inr ()));
     case r of
       Inl e \<Rightarrow> return (Some e, a)
     | Inr _ \<Rightarrow> do {
         c \<leftarrow> Cancel b (tr_Username tr) (rt_ID lt);
         case c of
           Inl e \<Rightarrow> return (None, a)
         | Inr _ \<Rightarrow> finishStalled b p now tr lt a } }"

definition retry_rejected ::
  "'n backend \<Rightarrow> ts \<Rightarrow> transfer \<Rightarrow> remote_transfer \<Rightarrow> pass \<Rightarrow> 'n pass_step" where
  "retry_rejected b now tr lt a = do {
     r \<leftarrow> store_write (RetryTransfer (tr_ID tr) now);
     case r of
       Inl e \<Rightarrow> return (Some e, a)
     | Inr _ \<Rightarrow> do {
         _ \<leftarrow> removeFromSlskd b (tr_Username tr) (rt_ID lt);
         return (None, count (\<lambda>s. s\<lparr>rs_Retried := Suc (rs_Retried s)\<rparr>) a) } }"

definition adopt_state ::
  "'n backend \<Rightarrow> ts \<Rightarrow> transfer \<Rightarrow> remote_transfer \<Rightarrow> pass \<Rightarrow> 'n pass_step" where
  "adopt_state b now tr lt a = do {
     r \<leftarrow> store_write (UpdateTransferProgress (tr_ID tr) (rt_State lt) (rt_BytesDone lt) (rt_Size lt) now);
     case r of
       Inl e \<Rightarrow> return (Some e, a)
     | Inr _ \<Rightarrow> do {
         _ \<leftarrow> (if rt_State lt \<in> {TCompleted, TCancelled, TErrored}
               then removeFromSlskd b (rt_Username lt) (rt_ID lt) else return ());
         return (None, count (if rt_State lt = TCompleted
           then (\<lambda>s. s\<lparr>rs_Completed := Suc (rs_Completed s)\<rparr>)
           else (\<lambda>s. s\<lparr>rs_Adopted := Suc (rs_Adopted s)\<rparr>)) a) } }"

definition settle_matched ::
  "'n backend \<Rightarrow> downloading_params \<Rightarrow> ts \<Rightarrow> transfer \<Rightarrow> remote_transfer \<Rightarrow> pass \<Rightarrow> 'n pass_step" where
  "settle_matched b p now tr lt a =
     (if tr_State tr = TStalled \<and> rt_State lt = TCancelled then finishStalled b p now tr lt a
      else if rt_State lt = TErrored \<and> retry_left p tr \<and> rt_Retryable lt then retry_rejected b now tr lt a
      else if stalled_too_long p now tr lt then cancel_stalled b p now tr lt a
      else adopt_state b now tr lt a)"

definition active_one ::
  "'n backend \<Rightarrow> downloading_params \<Rightarrow> remote_transfer list \<Rightarrow> ts \<Rightarrow> transfer \<Rightarrow> pass \<Rightarrow> 'n pass_step" where
  "active_one b p lts now tr a =
     (if tr_ID tr \<in> set (ps_Handled a) then return (None, a)
      else (case matchLive lts tr of
              None \<Rightarrow> lost_transfer p now tr a
            | Some lt \<Rightarrow>
                let a1 = ours (rt_ID lt) a
                in if tr_SlskdID tr = [] \<and> rt_ID lt \<noteq> [] then do {
                     r \<leftarrow> store_call (AttachTransferID (tr_ID tr) (rt_ID lt) now);
                     case r of
                       Inl e \<Rightarrow> return (Some e, a1)
                     | Inr attached \<Rightarrow>
                         if attached then settle_matched b p now tr lt a1
                         else do {
                           _ \<leftarrow> Cancel b (tr_Username tr) (rt_ID lt);
                           return (None, a1) } }
                   else settle_matched b p now tr lt a1))"

fun active_loop ::
  "'n backend \<Rightarrow> downloading_params \<Rightarrow> remote_transfer list \<Rightarrow> ts \<Rightarrow> transfer list \<Rightarrow> pass \<Rightarrow> 'n pass_step" where
  "active_loop b p lts now [] a = return (None, a)"
| "active_loop b p lts now (tr # trs) a = do {
     (err, a') \<leftarrow> active_one b p lts now tr a;
     case err of
       Some e \<Rightarrow> return (Some e, a')
     | None \<Rightarrow> active_loop b p lts now trs a' }"

definition count_unknown :: "remote_transfer list \<Rightarrow> pass \<Rightarrow> pass" where
  "count_unknown lts a =
     count (\<lambda>s. s\<lparr>rs_Unknown := rs_Unknown s + length (filter (\<lambda>t. rt_ID t \<notin> set (ps_OurIDs a)) lts)\<rparr>) a"

definition reconcile ::
  "'n backend \<Rightarrow> downloading_params \<Rightarrow> ts \<Rightarrow> ('n, reconcile_stats \<times> run_error option) prog" where
  "reconcile b p now = do {
     l \<leftarrow> ListDownloads b;
     case l of
       Inl e \<Rightarrow> return (ps_Stats new_pass, Some e)
     | Inr lts \<Rightarrow> do {
         o' \<leftarrow> store_read (TransfersPastDeadline now);
         case o' of
           Inl e \<Rightarrow> return (ps_Stats new_pass, Some e)
         | Inr overdue \<Rightarrow> do {
             (err, a) \<leftarrow> overdue_loop b p lts now overdue new_pass;
             case err of
               Some e \<Rightarrow> return (ps_Stats a, Some e)
             | None \<Rightarrow> do {
                 act \<leftarrow> store_read ActiveTransfers;
                 case act of
                   Inl e \<Rightarrow> return (ps_Stats a, Some e)
                 | Inr trs \<Rightarrow> do {
                     (err', a') \<leftarrow> active_loop b p lts now trs a;
                     return (case err' of
                         Some e \<Rightarrow> (ps_Stats a', Some e)
                       | None \<Rightarrow> (ps_Stats (count_unknown lts a'), None)) } } } } }"

section \<open>Resolve\<close>

text \<open>Pending siblings were never sent, so they are settled in the database; the error is dropped.\<close>

fun cancel_pending :: "ts \<Rightarrow> transfer list \<Rightarrow> ('n, unit) prog" where
  "cancel_pending now [] = return ()"
| "cancel_pending now (t # ts) = do {
     _ \<leftarrow> store_write (UpdateTransferProgress (tr_ID t) TCancelled (tr_BytesDone t) (tr_BytesTotal t) now);
     cancel_pending now ts }"

fun cancel_active :: "'n backend \<Rightarrow> ts \<Rightarrow> transfer list \<Rightarrow> ('n, unit) prog" where
  "cancel_active b now [] = return ()"
| "cancel_active b now (t # ts) =
     (if tr_SlskdID t = [] then cancel_active b now ts
      else do {
        c \<leftarrow> Cancel b (tr_Username t) (tr_SlskdID t);
        _ \<leftarrow> (if c = Inl (ErrBackend ErrRemoteNotFound) then do {
                u \<leftarrow> store_write (UpdateTransferProgress (tr_ID t) TCancelled (tr_BytesDone t) (tr_BytesTotal t) now);
                return () }
              else return ());
        cancel_active b now ts })"

definition recordOutcome :: "album_job \<Rightarrow> string \<Rightarrow> bool \<Rightarrow> ts \<Rightarrow> ('n, unit) prog" where
  "recordOutcome job username success now = do {
     _ \<leftarrow> history_write (on_reliability (RecordAttemptOutcome (job_ArtistID job) username success now));
     return () }"

definition attempt_failed ::
  "texts \<Rightarrow> 'n backend \<Rightarrow> album_job \<Rightarrow> candidate \<Rightarrow> ts \<Rightarrow> ('n, bool) fallible" where
  "attempt_failed tx b job c now = do {
     _ \<leftarrow> AddJobEvent_best (job_ID job) EventAttemptFailed
            (''candidate '' @ cand_Username c @ '' download failed, trying next candidate'') now;
     _ \<leftarrow> cleanupFolder tx b (job_ID job) now;
     _ \<leftarrow> recordOutcome job (cand_Username c) False now;
     r \<leftarrow> store_try (CooldownCandidateAndAdvance ReleaseDir (cand_ID c) (job_ID job) ''transfer failed''
            Downloading Selecting candidateCooldown now);
     case r of
       Inl e \<Rightarrow> return (Inl e)
     | Inr _ \<Rightarrow> return (Inr True) }"

definition not_imported :: "album_job \<Rightarrow> candidate \<Rightarrow> ts \<Rightarrow> ('n, bool) fallible" where
  "not_imported job c now = do {
     _ \<leftarrow> AddJobEvent_best (job_ID job) EventNotImported
            ''download complete, no album identified - leaving files in place'' now;
     _ \<leftarrow> recordOutcome job (cand_Username c) True now;
     _ \<leftarrow> store_try (SucceedCandidateAndAdvance ReleaseDir (cand_ID c) (job_ID job) Downloading NotImported now);
     return (Inr True) }"

definition resolve_transfers ::
  "texts \<Rightarrow> 'n backend \<Rightarrow> album_job \<Rightarrow> candidate \<Rightarrow> transfer list \<Rightarrow> ts \<Rightarrow> ('n, bool) fallible" where
  "resolve_transfers tx b job c trs now =
     (let anyFailed = list_ex (\<lambda>t. tr_State t \<in> {TErrored, TCancelled}) trs;
          allDone = (trs \<noteq> [] \<and> list_all (\<lambda>t. tr_State t = TCompleted) trs);
          pendingSiblings = filter (\<lambda>t. tr_State t = TPending) trs;
          activeSiblings = filter sent trs
      in if anyFailed then do {
           _ \<leftarrow> cancel_pending now pendingSiblings;
           (if activeSiblings \<noteq> [] then do {
              _ \<leftarrow> cancel_active b now activeSiblings;
              return (Inr False) }
            else attempt_failed tx b job c now) }
         else if allDone \<and> job_Source job = SourceManual \<and> job_MBID job = [] then not_imported job c now
         else if allDone then do {
           _ \<leftarrow> store_call (AdvanceJobStateFrom (job_ID job) Downloading Importing now);
           return (Inr True) }
         else return (Inr False))"

definition resolveDownloadingJob ::
  "texts \<Rightarrow> 'n backend \<Rightarrow> album_job \<Rightarrow> ts \<Rightarrow> ('n, bool) fallible" where
  "resolveDownloadingJob tx b job now = do {
     r \<leftarrow> store_read (ActiveCandidate (job_ID job));
     case r of
       Inl e \<Rightarrow> return (Inl e)
     | Inr None \<Rightarrow> return (Inr False)
     | Inr (Some c) \<Rightarrow> do {
         t \<leftarrow> store_read (TransfersForCandidate (cand_ID c));
         case t of
           Inl e \<Rightarrow> return (Inl e)
         | Inr trs \<Rightarrow> resolve_transfers tx b job c trs now } }"

fun resolve_loop :: "texts \<Rightarrow> 'n backend \<Rightarrow> ts \<Rightarrow> album_job list \<Rightarrow> ('n, unit) fallible" where
  "resolve_loop tx b now [] = return (Inr ())"
| "resolve_loop tx b now (job # rest) = do {
     r \<leftarrow> resolveDownloadingJob tx b job now;
     case r of
       Inl e \<Rightarrow> return (Inl e)
     | Inr _ \<Rightarrow> resolve_loop tx b now rest }"

definition resolve :: "texts \<Rightarrow> 'n backend \<Rightarrow> downloading_params \<Rightarrow> ts \<Rightarrow> ('n, unit) fallible" where
  "resolve tx b p now = do {
     r \<leftarrow> store_read (RunnableJobsInState (tx_Less tx) Downloading now (dp_MaxActive p));
     case r of
       Inl e \<Rightarrow> return (Inl e)
     | Inr js \<Rightarrow> resolve_loop tx b now js }"

section \<open>Top up\<close>

fun top_up_loop :: "texts \<Rightarrow> 'n backend \<Rightarrow> downloading_params \<Rightarrow> ts \<Rightarrow> album_job list \<Rightarrow> ('n, unit) fallible" where
  "top_up_loop tx b p now [] = return (Inr ())"
| "top_up_loop tx b p now (job # rest) = do {
     r \<leftarrow> store_read (ActiveCandidate (job_ID job));
     case r of
       Inl e \<Rightarrow> return (Inl e)
     | Inr None \<Rightarrow> top_up_loop tx b p now rest
     | Inr (Some c) \<Rightarrow> do {
         _ \<leftarrow> topUpCandidate tx b (dp_Limits p) (job_ID job) (cand_ID c) now;
         top_up_loop tx b p now rest } }"

definition topUpDownloads :: "texts \<Rightarrow> 'n backend \<Rightarrow> downloading_params \<Rightarrow> ts \<Rightarrow> ('n, unit) fallible" where
  "topUpDownloads tx b p now = do {
     r \<leftarrow> store_read (RunnableJobsInState (tx_Less tx) Downloading now (dp_MaxActive p));
     case r of
       Inl e \<Rightarrow> return (Inl e)
     | Inr js \<Rightarrow> top_up_loop tx b p now js }"

text \<open>A failed reconciliation ends the tick, and so does a failed resolution.\<close>

definition Downloading_Tick :: "texts \<Rightarrow> 'n backend \<Rightarrow> downloading_params \<Rightarrow> ts \<Rightarrow> ('n, unit) fallible" where
  "Downloading_Tick tx b p now = do {
     (stats, err) \<leftarrow> reconcile b p now;
     case err of
       Some e \<Rightarrow> return (Inl e)
     | None \<Rightarrow> do {
         r \<leftarrow> resolve tx b p now;
         case r of
           Inl e \<Rightarrow> return (Inl e)
         | Inr _ \<Rightarrow> topUpDownloads tx b p now } }"

section \<open>Every write is a step of the store\<close>

lemma keeps_retry [keeps_rules]: "keeps (runs_from r K) (store_write (RetryTransfer i now))"
  by (intro keeps_write store_step.retry_transfer)

lemma keeps_progress [keeps_rules]: "keeps (runs_from r K) (store_write (UpdateTransferProgress i st d n now))"
  by (intro keeps_write store_step.progress)

lemma keeps_retry_or_fail [keeps_rules]:
  "keeps (runs_from r K) (store_write (if c then RetryTransfer i now else UpdateTransferProgress i st d n now))"
  by (cases c) (auto intro: keeps_rules)

lemma keeps_attach [keeps_rules]: "keeps (runs_from r K) (store_call (AttachTransferID i rid now))"
  by (intro keeps_call store_steps_single store_step.attach)

lemma keeps_park [keeps_rules]: "keeps (runs_from r K) (store_call (ParkJobForCandidate t c st d n now))"
  by (intro keeps_call store_steps_single store_step.park)

lemma keeps_pass_steps [keeps_rules]:
  "keeps (runs_from r K) (removeFromSlskd b user i)" "keeps (runs_from r K) (finishStalled b p now tr lt a)"
  "keeps (runs_from r K) (park_transfer tr detail now a)"
  "keeps (runs_from r K) (overdue_cancelled b now tr matched eff a)"
  "keeps (runs_from r K) (lost_transfer p now tr a)" "keeps (runs_from r K) (cancel_stalled b p now tr lt a)"
  "keeps (runs_from r K) (retry_rejected b now tr lt a)" "keeps (runs_from r K) (adopt_state b now tr lt a)"
  unfolding removeFromSlskd_def finishStalled_def park_transfer_def overdue_cancelled_def lost_transfer_def
    cancel_stalled_def retry_rejected_def adopt_state_def
  by (intro keeps_rules)+

lemma keeps_pass_transfers [keeps_rules]:
  "keeps (runs_from r K) (overdue_one b p lts now tr a)" "keeps (runs_from r K) (active_one b p lts now tr a)"
  unfolding overdue_one_def overdue_live_def active_one_def settle_matched_def Let_def
  by (intro keeps_rules)+

lemma keeps_pass_loops [keeps_rules]:
  "keeps (runs_from r K) (overdue_loop b p lts now trs a)" "keeps (runs_from r K) (active_loop b p lts now trs a)"
  by (induction trs arbitrary: a) (auto intro!: keeps_rules)

lemma keeps_reconcile [keeps_rules]: "keeps (runs_from r K) (reconcile b p now)"
  unfolding reconcile_def by (intro keeps_rules)

lemma keeps_cancels [keeps_rules]:
  "keeps (runs_from r K) (cancel_pending now ts)" "keeps (runs_from r K) (cancel_active b now ts)"
  by (induction ts) (auto intro!: keeps_rules)

lemma keeps_recordOutcome [keeps_rules]: "keeps (runs_from r K) (recordOutcome job u ok now)"
  unfolding recordOutcome_def by (intro keeps_rules)

lemma keeps_outcomes [keeps_rules]:
  assumes "(cand_ID c, job_ID job) \<in> K"
  shows "keeps (runs_from r K) (attempt_failed tx b job c now)" "keeps (runs_from r K) (not_imported job c now)"
proof -
  have own: "own_candidate (cand_ID c) (job_ID job) s" if "\<forall>k \<in> K. knows k s" for s
    using that assms by (auto simp: knows_def)
  have "keeps (runs_from r K) (store_try (CooldownCandidateAndAdvance ReleaseDir (cand_ID c) (job_ID job) reason
      Downloading Selecting pol now))" for reason pol
    by (intro keeps_try store_step.cool_candidate own) simp_all
  then show "keeps (runs_from r K) (attempt_failed tx b job c now)"
    unfolding attempt_failed_def by (intro keeps_rules)
  have "keeps (runs_from r K) (store_try (SucceedCandidateAndAdvance ReleaseDir (cand_ID c) (job_ID job)
      Downloading NotImported now))"
    by (intro keeps_try store_step.succeed_candidate own) simp_all
  then show "keeps (runs_from r K) (not_imported job c now)"
    unfolding not_imported_def by (intro keeps_rules)
qed

lemma keeps_resolve_transfers [keeps_rules]:
  assumes "(cand_ID c, job_ID job) \<in> K"
  shows "keeps (runs_from r K) (resolve_transfers tx b job c trs now)"
proof -
  have "keeps (runs_from r K) (store_call (AdvanceJobStateFrom i Downloading Importing now))" for i
    by (intro keeps_call store_steps_single store_step.advance) (simp add: legal_advance_def)
  with assms show ?thesis
    unfolding resolve_transfers_def Let_def by (intro keeps_rules)
qed

text \<open>The active candidate of a job is its own.\<close>

definition owner_learned :: "nat \<Rightarrow> candidate option \<Rightarrow> (nat \<times> nat) set" where
  "owner_learned i c = (case c of None \<Rightarrow> {} | Some c \<Rightarrow> {(cand_ID c, i)})"

lemma ActiveCandidate_Some: "ActiveCandidate i s = Some c \<Longrightarrow> c \<in> set (candidates s) \<and> cand_Job c = i \<and> active c"
  by (auto simp: ActiveCandidate_def find_Some_iff)

lemma active_owned: "wf_db s \<Longrightarrow> \<forall>k \<in> owner_learned i (ActiveCandidate i s). knows k s"
  using knows_member [of s] by (auto simp: owner_learned_def split: option.split dest!: ActiveCandidate_Some)

lemma keeps_resolveDownloadingJob [keeps_rules]:
  "keeps (runs_from r K) (resolveDownloadingJob tx b job now)"
  unfolding resolveDownloadingJob_def
  by (rule keeps_learn [where learn = "owner_learned (job_ID job)", OF active_owned])
    (auto simp: owner_learned_def intro!: keeps_rules)

lemma keeps_resolve [keeps_rules]: "keeps (runs_from r K) (resolve tx b p now)"
proof -
  have "keeps (runs_from r K) (resolve_loop tx b now js)" for js
    by (induction js) (auto intro!: keeps_rules)
  then show ?thesis unfolding resolve_def by (intro keeps_rules)
qed

lemma keeps_top_up_loop [keeps_rules]: "keeps (runs_from r K) (top_up_loop tx b p now js)"
proof (induction js arbitrary: K)
  case (Cons job rest)
  show ?case
    by (simp, rule keeps_learn [where learn = "owner_learned (job_ID job)", OF active_owned])
      (auto simp: owner_learned_def intro!: keeps_rules Cons.IH)
qed (simp add: keeps_rules)

lemma keeps_Downloading_Tick [keeps_rules]: "keeps (runs_from r K) (Downloading_Tick tx b p now)"
  unfolding Downloading_Tick_def topUpDownloads_def by (intro keeps_rules)

end
