(* ===== verification/Importing.thy ===== *)
theory Importing
  imports Selecting Downloading Dedup
begin

text \<open>
  The module \<open>Importing\<close> (\<open>internal/pipeline/importing.go\<close>), what \<open>dedup.go\<close> does to a folder before it,
  and the clean-up of \<open>paths.go\<close> after it. An importing job is verified, and submitted to Lidarr, until
  its candidate is marked as submitted; from then on it is confirmed.
\<close>

section \<open>Folders\<close>

definition AlbumFolder :: "string \<Rightarrow> string list \<Rightarrow> string" where
  "AlbumFolder completeDir filenames =
     (let leaf = commonLeaf filenames in if leaf = [] then completeDir else path_Join completeDir leaf)"

text \<open>Only an empty folder is removed; every verdict stamps the row, a failure does not.\<close>

fun completed_loop :: "texts \<Rightarrow> nat \<Rightarrow> string \<Rightarrow> ts \<Rightarrow> string list \<Rightarrow> ('n, unit) prog" where
  "completed_loop tx jobID completeDir now [] = return ()"
| "completed_loop tx jobID completeDir now (leaf # leaves) =
     (if leaf = quarantineDirName then completed_loop tx jobID completeDir now leaves
      else do {
        r \<leftarrow> os_read (os_ReadDir (path_Join completeDir leaf));
        _ \<leftarrow> (case r of
               Inr entries \<Rightarrow>
                 if entries \<noteq> [] then markCleaned tx jobID leaf now
                 else do {
                   x \<leftarrow> os_write (os_Remove (path_Join completeDir leaf));
                   case x of Inl e \<Rightarrow> return () | Inr _ \<Rightarrow> markCleaned tx jobID leaf now }
             | Inl e \<Rightarrow> if e = NotExist then markCleaned tx jobID leaf now else return ());
        completed_loop tx jobID completeDir now leaves })"

definition cleanupCompletedFolder :: "texts \<Rightarrow> nat \<Rightarrow> string \<Rightarrow> ts \<Rightarrow> ('n, unit) prog" where
  "cleanupCompletedFolder tx jobID completeDir now = do {
     r \<leftarrow> registeredFolders jobID;
     case r of
       Inl e \<Rightarrow> return ()
     | Inr leaves \<Rightarrow> completed_loop tx jobID completeDir now leaves }"

section \<open>Duplicates in the folder\<close>

definition audioExts :: "string list" where
  "audioExts = [''.flac'', ''.mp3'', ''.m4a'', ''.ogg'', ''.opus'', ''.wav'', ''.ape'', ''.wma'', ''.aac'', ''.aiff'']"

definition losslessExts :: "string list" where
  "losslessExts = [''.flac'', ''.wav'', ''.ape'', ''.aiff'']"

text \<open>
  The tags of a file as the tag library reads them, if it can; \<open>tag_Lossless\<close> is a file type of FLAC or
  ALAC. The sizes and tags of the files and the tables of Unicode are a parameter.
\<close>

record file_tags =
  tag_Track :: int
  tag_Disc :: int
  tag_Album :: string
  tag_Title :: string
  tag_Lossless :: bool

record file_facts =
  ff_Unicode :: unicode
  ff_Size :: "string \<Rightarrow> int"
  ff_Tags :: "string \<Rightarrow> file_tags option"

definition readFileMeta :: "file_facts \<Rightarrow> string \<Rightarrow> dedup_file" where
  "readFileMeta ff p =
     (let df = \<lparr>dd_Path = p, dd_Size = ff_Size ff p, dd_AlbumKey = [], dd_Disc = 0, dd_Track = 0, dd_TitleKey = [],
            dd_Lossless = ToLower (ff_Unicode ff) (Ext p) \<in> set losslessExts\<rparr>
      in case ff_Tags ff p of
           None \<Rightarrow> df
         | Some m \<Rightarrow> df\<lparr>dd_Track := tag_Track m, dd_Disc := tag_Disc m,
             dd_AlbumKey := normalizeTitle (ff_Unicode ff) (tag_Album m),
             dd_TitleKey := normalizeTitle (ff_Unicode ff) (tag_Title m),
             dd_Lossless := (dd_Lossless df \<or> tag_Lossless m)\<rparr>)"

fun audio_files :: "file_facts \<Rightarrow> string \<Rightarrow> (string \<times> node) list \<Rightarrow> ('n, dedup_file list) prog" where
  "audio_files ff folder [] = return []"
| "audio_files ff folder (e # es) =
     (if snd e = Directory \<or> ToLower (ff_Unicode ff) (Ext (fst e)) \<notin> set audioExts then audio_files ff folder es
      else do {
        info \<leftarrow> os_read (os_Stat (path_Join folder (fst e)));
        rest \<leftarrow> audio_files ff folder es;
        return (case info of Inl err \<Rightarrow> rest | Inr n \<Rightarrow> readFileMeta ff (path_Join folder (fst e)) # rest) })"

fun remove_losers :: "dedup_file list \<Rightarrow> string list \<Rightarrow> ('n, string list) prog" where
  "remove_losers [] removed = return removed"
| "remove_losers (l # ls) removed = do {
     r \<leftarrow> os_write (os_Remove (dd_Path l));
     remove_losers ls (case r of Inl e \<Rightarrow> removed | Inr _ \<Rightarrow> removed @ [dd_Path l]) }"

definition dedupAlbumFolder :: "file_facts \<Rightarrow> string \<Rightarrow> ('n, os_error + string list) prog" where
  "dedupAlbumFolder ff folder = do {
     r \<leftarrow> os_read (os_ReadDir folder);
     case r of
       Inl e \<Rightarrow> return (Inl e)
     | Inr es \<Rightarrow> do {
         files \<leftarrow> audio_files ff folder es;
         removed \<leftarrow> remove_losers (dedupFiles files) [];
         return (Inr removed) } }"

section \<open>The end of an attempt\<close>

record importing_params =
  ip_MaxActive :: nat
  ip_MaxCandidates :: int
  ip_StuckAfter :: int
  ip_ConfirmTimeout :: int
  ip_RetryCooldown :: int
  ip_CompleteDir :: string
  ip_Facts :: file_facts

definition ReasonImportRejected :: string where
  "ReasonImportRejected = ''import rejected''"

definition ReasonIncompleteDownload :: string where
  "ReasonIncompleteDownload = ''incomplete download''"

definition Reasons :: "import_rejection list \<Rightarrow> string list" where
  "Reasons rs = map ir_Reason rs"

definition AnyPermanent :: "import_rejection list \<Rightarrow> bool" where
  "AnyPermanent rs = list_ex ir_Permanent rs"

definition repeatedRejectionCap :: "importing_params \<Rightarrow> nat \<Rightarrow> string \<Rightarrow> ('n, bool) prog" where
  "repeatedRejectionCap p jobID reason =
     (if ip_MaxCandidates p \<le> 0 then return False
      else do {
        r \<leftarrow> store_read (CountRejectionsByReason jobID reason);
        return (case r of Inl e \<Rightarrow> False | Inr prior \<Rightarrow> int prior + 1 \<ge> ip_MaxCandidates p + 1) })"

definition recordPark :: "nat \<Rightarrow> string \<Rightarrow> ts \<Rightarrow> ('n, unit) prog" where
  "recordPark jobID reason now = do {
     r \<leftarrow> store_read (CountRejectionsByReason jobID reason);
     AddJobEvent_best jobID EventJobParked
       (case r of
          Inl e \<Rightarrow> ''no candidate could satisfy this album: repeatedly rejected for '' @ reason
        | Inr n \<Rightarrow> ''no candidate could satisfy this album: '' @ decimal n @ '' rejected for '' @ reason) now }"

definition failCandidate ::
  "texts \<Rightarrow> 'n backend \<Rightarrow> importing_params \<Rightarrow> album_job \<Rightarrow> candidate \<Rightarrow> string \<Rightarrow> bool \<Rightarrow> ts \<Rightarrow> ('n, unit) fallible"
where
  "failCandidate tx b p job c reason contentFault now = do {
     _ \<leftarrow> (if job_Source job \<noteq> SourceManual then cleanupFolder tx b (job_ID job) now else return ());
     _ \<leftarrow> recordOutcome job (cand_Username c) False now;
     capped \<leftarrow> (if contentFault then repeatedRejectionCap p (job_ID job) reason else return False);
     r \<leftarrow> store_try (if contentFault
            then RejectCandidateAndAdvance ReleaseDir (cand_ID c) (job_ID job) reason Importing
                   (if capped then Parked else Selecting) now
            else FailCandidateAndAdvance ReleaseDir (cand_ID c) (job_ID job) reason Importing Selecting now);
     case r of
       Inl e \<Rightarrow> return (Inl e)
     | Inr advanced \<Rightarrow> do {
         _ \<leftarrow> (if advanced \<and> capped then recordPark (job_ID job) reason now else return ());
         return (Inr ()) } }"

definition refusal_detail :: "string \<Rightarrow> string \<Rightarrow> string" where
  "refusal_detail folder reason = ''import refused by Lidarr (folder '' @ folder @ ''): '' @ reason"

text \<open>The files are moved before the state is written.\<close>

definition refuseImport ::
  "texts \<Rightarrow> importing_params \<Rightarrow> album_job \<Rightarrow> candidate \<Rightarrow> string \<Rightarrow> import_rejection list \<Rightarrow> ts \<Rightarrow> ('n, unit) fallible"
where
  "refuseImport tx p job c folder rejs now =
     (let reason = Join ''; '' (Reasons rejs); detail = refusal_detail folder reason
      in do {
        detail' \<leftarrow> (if ip_CompleteDir p \<noteq> [] \<and> Clean folder \<noteq> Clean (ip_CompleteDir p) then do {
                     m \<leftarrow> quarantineFolder tx (job_ID job) (ip_CompleteDir p) (Base folder) refusedDirName;
                     return (case m of None \<Rightarrow> detail | Some dst \<Rightarrow> detail @ ''; files kept in '' @ dst) }
                   else return detail);
        _ \<leftarrow> recordOutcome job (cand_Username c) False now;
        r \<leftarrow> store_try (RejectCandidateAndAdvance ReleaseDir (cand_ID c) (job_ID job) reason Importing ImportRefused now);
        case r of
          Inl e \<Rightarrow> return (Inl e)
        | Inr _ \<Rightarrow> do {
            _ \<leftarrow> AddJobEvent_best (job_ID job) EventImportRefused detail' now;
            return (Inr ()) } })"

text \<open>A variant with the job's number in its name is the one to take when the plain name is not there.\<close>

definition newest_variant :: "string \<Rightarrow> (string \<times> node) list \<Rightarrow> string" where
  "newest_variant p es =
     foldl (\<lambda>best e. if (fst e = p \<or> HasPrefix (fst e) (p @ ''.'')) \<and> string_less best (fst e) then fst e else best) [] es"

definition refusedQuarantineSource :: "string \<Rightarrow> string \<Rightarrow> nat \<Rightarrow> ('n, string option) prog" where
  "refusedQuarantineSource dstRoot leaf jobID = do {
     s \<leftarrow> os_read (os_Stat (path_Join dstRoot leaf));
     case s of
       Inr n \<Rightarrow> return (Some (path_Join dstRoot leaf))
     | Inl e \<Rightarrow> do {
         r \<leftarrow> os_read (os_ReadDir dstRoot);
         case r of
           Inl e \<Rightarrow> return None
         | Inr es \<Rightarrow>
             (let best = newest_variant (leaf @ ''.job'' @ decimal jobID) es
              in return (if best = [] then None else Some (path_Join dstRoot best))) } }"

definition restoreRefusedFolder :: "nat \<Rightarrow> string \<Rightarrow> string \<Rightarrow> ('n, unit) prog" where
  "restoreRefusedFolder jobID completeDir folder =
     (if completeDir = [] \<or> Clean folder = Clean completeDir then return ()
      else do {
        s \<leftarrow> os_read (os_Stat folder);
        case s of
          Inr n \<Rightarrow> return ()
        | Inl e \<Rightarrow>
            if isQuarantineDir (Base folder) then return ()
            else do {
              r \<leftarrow> refusedQuarantineSource (path_Join completeDir refusedDirName) (Base folder) jobID;
              case r of
                None \<Rightarrow> return ()
              | Some src \<Rightarrow> do {
                  _ \<leftarrow> os_write (os_Rename src folder);
                  return () } } })"

definition escalateIfStuck ::
  "texts \<Rightarrow> 'n backend \<Rightarrow> importing_params \<Rightarrow> album_job \<Rightarrow> candidate \<Rightarrow> string \<Rightarrow> ts \<Rightarrow> ('n, unit) fallible" where
  "escalateIfStuck tx b p job c reason now =
     (if now - job_Updated job \<le> ip_StuckAfter p then do {
        _ \<leftarrow> (if ip_RetryCooldown p > 0 then do {
                u \<leftarrow> store_write (SetJobNotBefore (job_ID job) (now + ip_RetryCooldown p));
                return () }
              else return ());
        return (Inr ()) }
      else do {
        _ \<leftarrow> AddJobEvent_best (job_ID job) EventAttemptFailed (''importing stuck past timeout ('' @ reason @ '')'') now;
        failCandidate tx b p job c reason False now })"

definition routeNotImported :: "album_job \<Rightarrow> candidate \<Rightarrow> string \<Rightarrow> ts \<Rightarrow> ('n, unit) fallible" where
  "routeNotImported job c detail now = do {
     _ \<leftarrow> AddJobEvent_best (job_ID job) EventNotImported detail now;
     _ \<leftarrow> recordOutcome job (cand_Username c) True now;
     r \<leftarrow> store_try (SucceedCandidateAndAdvance ReleaseDir (cand_ID c) (job_ID job) Importing NotImported now);
     case r of Inl e \<Rightarrow> return (Inl e) | Inr _ \<Rightarrow> return (Inr ()) }"

section \<open>Which album\<close>

text \<open>\<open>LidarrAlbumID\<close> is 0 for a null column. No id means that the tick is done with the job.\<close>

definition album_id :: "album_job \<Rightarrow> int" where
  "album_id job = (case job_Album job of None \<Rightarrow> 0 | Some a \<Rightarrow> a)"

definition done_with :: "('n, unit) fallible \<Rightarrow> ('n, int option) fallible" where
  "done_with m = do { r \<leftarrow> m; return (case r of Inl e \<Rightarrow> Inl e | Inr _ \<Rightarrow> Inr None) }"

definition resolveAlbumID ::
  "texts \<Rightarrow> 'n backend \<Rightarrow> 'n music \<Rightarrow> importing_params \<Rightarrow> album_job \<Rightarrow> candidate \<Rightarrow> ts \<Rightarrow> ('n, int option) fallible" where
  "resolveAlbumID tx b mu p job c now =
     (if album_id job \<noteq> 0 then return (Inr (Some (album_id job)))
      else if job_MBID job = [] then done_with (routeNotImported job c ''no album identified for import'' now)
      else do {
        a \<leftarrow> music_call (mus_AlbumByForeignID mu (job_MBID job)) [];
        case a of
          Inl e \<Rightarrow> done_with (escalateIfStuck tx b p job c ''resolve album failed'' now)
        | Inr None \<Rightarrow> done_with (routeNotImported job c
            (''identified release group '' @ job_MBID job @ '' is not in Lidarr'' @ [CHR 0x27] @ ''s library'') now)
        | Inr (Some i) \<Rightarrow> return (Inr (Some i)) })"

section \<open>Verify\<close>

record importDerivation =
  iv_downloaded :: nat
  iv_dedupRemoved :: nat
  iv_offered :: nat
  iv_unmatched :: nat
  iv_rootScan :: bool

definition derivation_text :: "importDerivation \<Rightarrow> string" where
  "derivation_text d =
     Join '', '' ([decimal (iv_downloaded d) @ '' downloaded'']
       @ (if iv_dedupRemoved d > 0 then [decimal (iv_dedupRemoved d) @ '' removed as duplicates''] else [])
       @ [decimal (iv_offered d) @ '' offered by Lidarr'', decimal (iv_unmatched d) @ '' unmatched by Lidarr''])
     @ (if iv_rootScan d then '' (whole download root, not one album folder)'' else [])"

definition coverage :: "import_item list \<Rightarrow> nat" where
  "coverage items = length (remdups (concat (map ii_TrackIDs items)))"

definition trackBand :: "album_release list \<Rightarrow> int \<times> int" where
  "trackBand rels =
     foldl (\<lambda>(lo, hi) r.
       if ar_TrackCount r \<le> 0 then (lo, hi)
       else (if lo = 0 \<or> ar_TrackCount r < lo then ar_TrackCount r else lo,
             if ar_TrackCount r > hi then ar_TrackCount r else hi)) (0, 0) rels"

definition matched_item :: "import_item \<Rightarrow> bool" where
  "matched_item it \<longleftrightarrow> ii_TrackIDs it \<noteq> []"

definition dedup_step ::
  "importing_params \<Rightarrow> album_job \<Rightarrow> string \<Rightarrow> ts \<Rightarrow> ('n, nat) prog" where
  "dedup_step p job folder now =
     (if folder = ip_CompleteDir p then return 0
      else do {
        d \<leftarrow> dedupAlbumFolder (ip_Facts p) folder;
        case d of
          Inl e \<Rightarrow> return 0
        | Inr removed \<Rightarrow>
            if removed = [] then return 0
            else do {
              _ \<leftarrow> AddJobEvent_best (job_ID job) EventDedup
                (''removed '' @ decimal (length removed) @ '' duplicate track file(s) before import'') now;
              return (length removed) } })"

text \<open>Lidarr offers nothing: the files are gone, or Lidarr cannot see them.\<close>

definition empty_preview ::
  "texts \<Rightarrow> 'n backend \<Rightarrow> importing_params \<Rightarrow> album_job \<Rightarrow> candidate \<Rightarrow> string \<Rightarrow> ts \<Rightarrow> ('n, unit) fallible" where
  "empty_preview tx b p job c folder now = do {
     r \<leftarrow> os_read (os_ReadDir folder);
     case r of
       Inl OsError \<Rightarrow> escalateIfStuck tx b p job c ''inspect folder after empty import candidates failed'' now
     | Inr (e # es) \<Rightarrow> escalateIfStuck tx b p job c ''empty import candidates for non-empty folder'' now
     | _ \<Rightarrow> do {
         _ \<leftarrow> AddJobEvent_best (job_ID job) EventAttemptSucceeded
           (''empty folder treated as already imported (folder '' @ folder @ '')'') now;
         _ \<leftarrow> recordOutcome job (cand_Username c) True now;
         s \<leftarrow> store_try (SucceedCandidateAndAdvance ReleaseDir (cand_ID c) (job_ID job) Importing Done now);
         case s of
           Inl e \<Rightarrow> return (Inl e)
         | Inr _ \<Rightarrow> do {
             _ \<leftarrow> cleanupCompletedFolder tx (job_ID job) (ip_CompleteDir p) now;
             return (Inr ()) } } }"

definition albumAlreadyComplete :: "'n music \<Rightarrow> album_job \<Rightarrow> ('n, bool) fallible" where
  "albumAlreadyComplete mu job = do {
     r \<leftarrow> music_call (mus_AlbumStatus mu (album_id job)) [];
     return (case r of Inl e \<Rightarrow> Inl e | Inr (present, all) \<Rightarrow> Inr (all > 0 \<and> present \<ge> all)) }"

text \<open>Lidarr matches none of the files.\<close>

definition nothing_importable ::
  "texts \<Rightarrow> 'n backend \<Rightarrow> 'n music \<Rightarrow> importing_params \<Rightarrow> album_job \<Rightarrow> candidate \<Rightarrow> string
   \<Rightarrow> import_rejection list \<Rightarrow> ts \<Rightarrow> ('n, unit) fallible"
where
  "nothing_importable tx b mu p job c folder rejs now = do {
     a \<leftarrow> albumAlreadyComplete mu job;
     if a = Inr True then do {
       _ \<leftarrow> AddJobEvent_best (job_ID job) EventAttemptSucceeded
         (''import rejected but album already complete in Lidarr (folder '' @ folder @ ''): ''
          @ Join ''; '' (Reasons rejs)) now;
       s \<leftarrow> store_try (SucceedCandidateAndAdvance ReleaseDir (cand_ID c) (job_ID job) Importing Done now);
       case s of
         Inl e \<Rightarrow> return (Inl e)
       | Inr _ \<Rightarrow> do {
           _ \<leftarrow> cleanupFolder tx b (job_ID job) now;
           return (Inr ()) } }
     else if AnyPermanent rejs then refuseImport tx p job c folder rejs now
     else do {
       _ \<leftarrow> AddJobEvent_best (job_ID job) EventImportRejected
         (''import rejected (folder '' @ folder @ ''): '' @ Join ''; '' (Reasons rejs)) now;
       failCandidate tx b p job c ReasonImportRejected True now } }"

definition submit ::
  "'n music \<Rightarrow> album_job \<Rightarrow> candidate \<Rightarrow> import_item list \<Rightarrow> ts \<Rightarrow> ('n, unit) fallible" where
  "submit mu job c items now = do {
     r \<leftarrow> music_call (mus_ExecuteManualImport mu items) [CallImport items];
     case r of
       Inl e \<Rightarrow> return (Inl e)
     | Inr _ \<Rightarrow> do {
         _ \<leftarrow> AddJobEvent_best (job_ID job) EventImportOK
           (''import executed, awaiting confirmation ('' @ decimal (length items) @ '' files)'') now;
         _ \<leftarrow> store_write (MarkImportSubmitted (cand_ID c) now);
         return (Inr ()) } }"

text \<open>The tracks the smallest edition needs; 0 when no release has a count.\<close>

definition required_tracks :: "'n music \<Rightarrow> album_job \<Rightarrow> ('n, int) fallible" where
  "required_tracks mu job =
     (if job_MinTracks job \<noteq> 0 then return (Inr (job_MinTracks job))
      else do {
        r \<leftarrow> music_call (mus_AlbumReleases mu (album_id job)) [];
        return (case r of Inl e \<Rightarrow> Inl e | Inr rels \<Rightarrow> Inr (fst (trackBand rels))) })"

definition coverage_gate ::
  "texts \<Rightarrow> 'n backend \<Rightarrow> 'n music \<Rightarrow> importing_params \<Rightarrow> album_job \<Rightarrow> candidate \<Rightarrow> string
   \<Rightarrow> import_item list \<Rightarrow> importDerivation \<Rightarrow> ts \<Rightarrow> ('n, unit) fallible"
where
  "coverage_gate tx b mu p job c folder items d now = do {
     m \<leftarrow> required_tracks mu job;
     case m of
       Inl e \<Rightarrow> escalateIfStuck tx b p job c ''album releases lookup failed'' now
     | Inr needed \<Rightarrow>
         if int (coverage items) < needed then do {
           _ \<leftarrow> AddJobEvent_best (job_ID job) EventImportRejected
             (''incomplete download, rejecting (folder '' @ folder @ '', covered '' @ decimal (coverage items)
              @ ''/'' @ decimal_int needed @ ''; '' @ derivation_text d @ '')'') now;
           failCandidate tx b p job c ReasonIncompleteDownload True now }
         else submit mu job c items now }"

definition judge_preview ::
  "texts \<Rightarrow> 'n backend \<Rightarrow> 'n music \<Rightarrow> importing_params \<Rightarrow> album_job \<Rightarrow> candidate \<Rightarrow> string
   \<Rightarrow> import_item list \<Rightarrow> nat \<Rightarrow> nat \<Rightarrow> ts \<Rightarrow> ('n, unit) fallible"
where
  "judge_preview tx b mu p job c folder items downloaded removed now =
     (let importable = filter matched_item items;
          rejs = concat (map ii_Rejections (filter (\<lambda>it. \<not> matched_item it) items))
      in if items = [] then empty_preview tx b p job c folder now
         else if importable = [] then nothing_importable tx b mu p job c folder rejs now
         else coverage_gate tx b mu p job c folder importable
           \<lparr>iv_downloaded = downloaded, iv_dedupRemoved = removed, iv_offered = length items,
            iv_unmatched = length items - length importable, iv_rootScan = (folder = ip_CompleteDir p)\<rparr> now)"

definition verify ::
  "texts \<Rightarrow> 'n backend \<Rightarrow> 'n music \<Rightarrow> importing_params \<Rightarrow> album_job \<Rightarrow> candidate \<Rightarrow> ts \<Rightarrow> ('n, unit) fallible" where
  "verify tx b mu p job c now = do {
     t \<leftarrow> store_read (TransfersForCandidate (cand_ID c));
     case t of
       Inl e \<Rightarrow> return (Inl e)
     | Inr trs \<Rightarrow>
         let folder = AlbumFolder (ip_CompleteDir p) (map tr_Filename trs)
         in do {
           _ \<leftarrow> restoreRefusedFolder (job_ID job) (ip_CompleteDir p) folder;
           removed \<leftarrow> dedup_step p job folder now;
           r \<leftarrow> music_call (mus_ManualImportCandidates mu folder) [];
           case r of
             Inl e \<Rightarrow> escalateIfStuck tx b p job c ''import candidates failed'' now
           | Inr items \<Rightarrow> judge_preview tx b mu p job c folder items (length trs) removed now } }"

section \<open>Confirm\<close>

definition failUnconfirmed :: "album_job \<Rightarrow> candidate \<Rightarrow> string \<Rightarrow> ts \<Rightarrow> ('n, unit) fallible" where
  "failUnconfirmed job c detail now = do {
     _ \<leftarrow> AddJobEvent_best (job_ID job) EventAttemptFailed detail now;
     _ \<leftarrow> recordOutcome job (cand_Username c) False now;
     r \<leftarrow> store_try (RejectCandidateAndAdvance ReleaseDir (cand_ID c) (job_ID job) ''import not confirmed''
            Importing Selecting now);
     return (case r of Inl e \<Rightarrow> Inl e | Inr _ \<Rightarrow> Inr ()) }"

definition confirmed ::
  "texts \<Rightarrow> importing_params \<Rightarrow> album_job \<Rightarrow> candidate \<Rightarrow> int \<Rightarrow> int \<Rightarrow> ts \<Rightarrow> ('n, unit) fallible" where
  "confirmed tx p job c present all now = do {
     _ \<leftarrow> AddJobEvent_best (job_ID job) EventAttemptSucceeded
       (''import confirmed, completed ('' @ decimal_int present @ ''/'' @ decimal_int all @ '' present)'') now;
     _ \<leftarrow> recordOutcome job (cand_Username c) True now;
     s \<leftarrow> store_try (SucceedCandidateAndAdvance ReleaseDir (cand_ID c) (job_ID job) Importing Done now);
     case s of
       Inl e \<Rightarrow> return (Inl e)
     | Inr _ \<Rightarrow> do {
         _ \<leftarrow> cleanupCompletedFolder tx (job_ID job) (ip_CompleteDir p) now;
         return (Inr ()) } }"

definition confirm ::
  "texts \<Rightarrow> 'n music \<Rightarrow> importing_params \<Rightarrow> album_job \<Rightarrow> candidate \<Rightarrow> ts \<Rightarrow> ts \<Rightarrow> ('n, unit) fallible" where
  "confirm tx mu p job c submitted now =
     (let late = now - submitted > ip_ConfirmTimeout p
      in do {
        r \<leftarrow> music_call (mus_AlbumStatus mu (album_id job)) [];
        case r of
          Inl e \<Rightarrow>
            if late then failUnconfirmed job c
              ''import not confirmed in time (album status check failing), cooling down'' now
            else return (Inr ())
        | Inr (present, all) \<Rightarrow>
            if all > 0 \<and> present \<ge> all then confirmed tx p job c present all now
            else if late then failUnconfirmed job c
              (''import not confirmed in time ('' @ decimal_int present @ ''/'' @ decimal_int all
               @ '' present), cooling down'') now
            else return (Inr ()) })"

section \<open>The tick\<close>

definition importJob ::
  "texts \<Rightarrow> 'n backend \<Rightarrow> 'n music \<Rightarrow> importing_params \<Rightarrow> album_job \<Rightarrow> ts \<Rightarrow> ('n, unit) fallible" where
  "importJob tx b mu p job now = do {
     a \<leftarrow> store_read (ActiveCandidate (job_ID job));
     case a of
       Inl e \<Rightarrow> return (Inl e)
     | Inr None \<Rightarrow> return (Inr ())
     | Inr (Some c) \<Rightarrow> do {
         i \<leftarrow> resolveAlbumID tx b mu p job c now;
         case i of
           Inl e \<Rightarrow> return (Inl e)
         | Inr None \<Rightarrow> return (Inr ())
         | Inr (Some album) \<Rightarrow>
             (case cand_ImportSubmitted c of
                None \<Rightarrow> verify tx b mu p (job\<lparr>job_Album := Some album\<rparr>) c now
              | Some submitted \<Rightarrow> confirm tx mu p (job\<lparr>job_Album := Some album\<rparr>) c submitted now) } }"

fun import_loop ::
  "texts \<Rightarrow> 'n backend \<Rightarrow> 'n music \<Rightarrow> importing_params \<Rightarrow> ts \<Rightarrow> album_job list \<Rightarrow> ('n, unit) fallible" where
  "import_loop tx b mu p now [] = return (Inr ())"
| "import_loop tx b mu p now (job # rest) = do {
     r \<leftarrow> importJob tx b mu p job now;
     case r of
       Inl e \<Rightarrow> return (Inl e)
     | Inr _ \<Rightarrow> import_loop tx b mu p now rest }"

definition Importing_Tick ::
  "texts \<Rightarrow> 'n backend \<Rightarrow> 'n music \<Rightarrow> importing_params \<Rightarrow> ts \<Rightarrow> ('n, unit) fallible" where
  "Importing_Tick tx b mu p now = do {
     r \<leftarrow> store_read (RunnableJobsInState (tx_Less tx) Importing now (ip_MaxActive p));
     case r of
       Inl e \<Rightarrow> return (Inl e)
     | Inr js \<Rightarrow> import_loop tx b mu p now js }"

section \<open>Every write is a step of the store\<close>

lemma keeps_completed [keeps_rules]:
  "keeps (runs_from r K) (completed_loop tx i dir now leaves)" "keeps (runs_from r K) (cleanupCompletedFolder tx i dir now)"
proof -
  show "keeps (runs_from r K) (completed_loop tx i dir now leaves)" for leaves
    by (induction leaves) (auto intro!: keeps_rules)
  then show "keeps (runs_from r K) (cleanupCompletedFolder tx i dir now)"
    unfolding cleanupCompletedFolder_def registeredFolders_def by (intro keeps_rules)
qed

lemma keeps_audio_files [keeps_rules]: "keeps (runs_from r K) (audio_files ff folder es)"
  by (induction es) (auto intro!: keeps_rules)

lemma keeps_remove_losers [keeps_rules]: "keeps (runs_from r K) (remove_losers ls removed)"
  by (induction ls arbitrary: removed) (auto intro!: keeps_rules)

lemma keeps_folder_work [keeps_rules]:
  "keeps (runs_from r K) (dedup_step p job folder now)" "keeps (runs_from r K) (restoreRefusedFolder i dir folder)"
  unfolding dedup_step_def dedupAlbumFolder_def restoreRefusedFolder_def refusedQuarantineSource_def Let_def
  by (intro keeps_rules)+

lemma keeps_import_marks [keeps_rules]:
  "keeps (runs_from r K) (store_write (SetJobNotBefore i nb))" "keeps (runs_from r K) (store_write (MarkImportSubmitted k now))"
  by (intro keeps_write store_step.not_before store_step.submitted)+

lemma keeps_repeatedRejectionCap [keeps_rules]: "keeps (runs_from r K) (repeatedRejectionCap p i reason)"
  unfolding repeatedRejectionCap_def by (intro keeps_rules)

lemma keeps_recordPark [keeps_rules]: "keeps (runs_from r K) (recordPark i reason now)"
  unfolding recordPark_def by (intro keeps_rules)

lemma keeps_required [keeps_rules]:
  "keeps (runs_from r K) (required_tracks mu job)" "keeps (runs_from r K) (albumAlreadyComplete mu job)"
  "keeps (runs_from r K) (submit mu job c items now)"
  unfolding required_tracks_def albumAlreadyComplete_def submit_def by (intro keeps_rules)+

lemma keeps_import_ends:
  assumes own: "(cand_ID c, job_ID job) \<in> K"
  shows "keeps (runs_from r K) (failCandidate tx b p job c reason fault now)"
    and "keeps (runs_from r K) (refuseImport tx p job c folder rejs now)"
    and "keeps (runs_from r K) (routeNotImported job c detail now)"
    and "keeps (runs_from r K) (failUnconfirmed job c detail now)"
    and "keeps (runs_from r K) (store_try (SucceedCandidateAndAdvance ReleaseDir (cand_ID c) (job_ID job) Importing Done now))"
proof -
  have own': "own_candidate (cand_ID c) (job_ID job) s" if "\<forall>k \<in> K. knows k s" for s
    using that own by (auto simp: knows_def)
  have rej: "keeps (runs_from r K) (store_try (RejectCandidateAndAdvance ReleaseDir (cand_ID c) (job_ID job) why Importing to now))"
    if "\<not> slot_state to" for why to
    using that by (intro keeps_try store_step.reject_candidate own')
  have fail: "keeps (runs_from r K) (store_try (FailCandidateAndAdvance ReleaseDir (cand_ID c) (job_ID job) why Importing Selecting now))"
    for why by (intro keeps_try store_step.fail_candidate own') simp_all
  have succeed: "keeps (runs_from r K) (store_try (SucceedCandidateAndAdvance ReleaseDir (cand_ID c) (job_ID job) Importing to now))"
    if "\<not> slot_state to" for to
    using that by (intro keeps_try store_step.succeed_candidate own')
  show "keeps (runs_from r K) (failCandidate tx b p job c reason fault now)"
    unfolding failCandidate_def by (intro keeps_rules) (auto intro: rej fail)
  show "keeps (runs_from r K) (refuseImport tx p job c folder rejs now)"
    unfolding refuseImport_def Let_def by (intro keeps_rules rej) simp_all
  show "keeps (runs_from r K) (routeNotImported job c detail now)"
    unfolding routeNotImported_def by (intro keeps_rules succeed) simp_all
  show "keeps (runs_from r K) (failUnconfirmed job c detail now)"
    unfolding failUnconfirmed_def by (intro keeps_rules rej) simp_all
  show "keeps (runs_from r K) (store_try (SucceedCandidateAndAdvance ReleaseDir (cand_ID c) (job_ID job) Importing Done now))"
    by (rule succeed) simp
qed

lemma keeps_escalateIfStuck:
  "(cand_ID c, job_ID job) \<in> K \<Longrightarrow> keeps (runs_from r K) (escalateIfStuck tx b p job c reason now)"
  unfolding escalateIfStuck_def by (intro keeps_rules keeps_import_ends)

lemma keeps_resolveAlbumID:
  "(cand_ID c, job_ID job) \<in> K \<Longrightarrow> keeps (runs_from r K) (resolveAlbumID tx b mu p job c now)"
  unfolding resolveAlbumID_def done_with_def by (intro keeps_rules keeps_import_ends keeps_escalateIfStuck)

lemma keeps_verify:
  assumes "(cand_ID c, job_ID job) \<in> K"
  shows "keeps (runs_from r K) (verify tx b mu p job c now)"
proof -
  note ends = keeps_import_ends [OF assms] keeps_escalateIfStuck [OF assms]
  have "keeps (runs_from r K) (empty_preview tx b p job c folder now)" for folder
    unfolding empty_preview_def
    by (intro keeps_rules) (auto split: os_error.split list.split intro!: keeps_rules ends)
  moreover have "keeps (runs_from r K) (nothing_importable tx b mu p job c folder rejs now)" for folder rejs
    unfolding nothing_importable_def by (intro keeps_rules ends)
  moreover have "keeps (runs_from r K) (coverage_gate tx b mu p job c folder items d now)" for folder items d
    unfolding coverage_gate_def by (intro keeps_rules ends)
  ultimately show ?thesis
    unfolding verify_def judge_preview_def Let_def by (intro keeps_rules ends)
qed

lemma keeps_confirm:
  "(cand_ID c, job_ID job) \<in> K \<Longrightarrow> keeps (runs_from r K) (confirm tx mu p job c submitted now)"
  unfolding confirm_def confirmed_def Let_def by (intro keeps_rules keeps_import_ends)

lemma keeps_importJob [keeps_rules]: "keeps (runs_from r K) (importJob tx b mu p job now)"
  unfolding importJob_def
  by (rule keeps_learn [where learn = "owner_learned (job_ID job)", OF active_owned])
    (auto simp: owner_learned_def intro!: keeps_rules keeps_resolveAlbumID keeps_verify keeps_confirm)

lemma keeps_Importing_Tick [keeps_rules]: "keeps (runs_from r K) (Importing_Tick tx b mu p now)"
proof -
  have "keeps (runs_from r K) (import_loop tx b mu p now js)" for js
    by (induction js) (auto intro!: keeps_rules)
  then show ?thesis unfolding Importing_Tick_def by (intro keeps_rules)
qed

end
