(* ===== verification/DownloadingFacts.thy ===== *)
theory DownloadingFacts
  imports Downloading
begin

text \<open>
  How a downloading job is resolved when nothing else runs and no call of the store fails, and how long
  the module waits for a backend that does not confirm a cancellation.
\<close>

section \<open>Calls made\<close>

definition only_calls :: "(peer_call \<Rightarrow> bool) \<Rightarrow> 'n world \<Rightarrow> 'n world \<Rightarrow> bool" where
  "only_calls P w w' \<longleftrightarrow> (\<exists>cs. w_Calls w' = w_Calls w @ cs \<and> list_all P cs)"

lemma only_calls_refl: "w_Calls w' = w_Calls w \<Longrightarrow> only_calls P w w'"
  unfolding only_calls_def by (rule exI [of _ "[]"]) simp

lemma only_calls_trans: "only_calls P w v \<Longrightarrow> only_calls P v u \<Longrightarrow> only_calls P w u"
  by (force simp: only_calls_def)

lemma only_calls_mono: "only_calls P w w' \<Longrightarrow> (\<And>c. P c \<Longrightarrow> Q c) \<Longrightarrow> only_calls Q w w'"
  by (auto simp: only_calls_def list_all_iff)

lemma net_run:
  "run_state (net_call op cs) w = (r, w') \<Longrightarrow>
   w_DB w' = w_DB w \<and> w_Turns w' = w_Turns w \<and> w_Calls w' = w_Calls w @ cs"
  by (auto simp: net_call_def Let_def split: prod.splits)

section \<open>The pieces of a resolution\<close>

text \<open>Nothing but transfers changes.\<close>

text \<open>Cancelled siblings are settled.\<close>

definition live_of :: "nat \<Rightarrow> db \<Rightarrow> transfer set" where
  "live_of cid s = {t \<in> set (transfers s). tr_Candidate t = cid \<and> live t}"

lemma progress_live_of:
  assumes "not_cancelled cid s" and "\<not> live_state st"
  shows "live_of cid (UpdateTransferProgress i st d n now s) \<subseteq> {t \<in> live_of cid s. tr_ID t \<noteq> i}"
  using assms by (auto simp: live_of_def UpdateTransferProgress_def row_update_def progress_transfer_def live_def
      split: if_splits)

lemma progress_live_less:
  "\<not> live_state st \<Longrightarrow> live_of cid (UpdateTransferProgress i st d n now s) \<subseteq> live_of cid s"
  by (auto simp: live_of_def UpdateTransferProgress_def row_update_def progress_transfer_def live_def
      split: if_splits)

lemma cancel_pending_quiet:
  assumes "w_Turns w = []" and "run_state (cancel_pending now ts) w = (x, w')"
  shows "w_Turns w' = [] \<and> same_rows (w_DB w) (w_DB w') \<and> w_Calls w' = w_Calls w"
  using assms
proof (induction ts arbitrary: w)
  case (Cons t ts)
  let ?v = "w\<lparr>w_DB := UpdateTransferProgress (tr_ID t) TCancelled (tr_BytesDone t) (tr_BytesTotal t) now (w_DB w)\<rparr>"
  have "run_state (cancel_pending now ts) ?v = (x, w')" using Cons.prems by (simp add: quiet_write)
  from Cons.IH [OF _ this] Cons.prems(1) show ?case by (simp add: same_rows_def)
qed (simp add: same_rows_def)

lemma cancel_active_quiet:
  assumes "w_Turns w = []" and "run_state (cancel_active b now ts) w = (x, w')"
  shows "w_Turns w' = [] \<and> same_rows (w_DB w) (w_DB w') \<and> live_of cid (w_DB w') \<subseteq> live_of cid (w_DB w)
    \<and> only_calls (\<lambda>c. \<exists>t \<in> set ts. c = CallCancel (tr_Username t) (tr_SlskdID t)) w w'"
  using assms
proof (induction ts arbitrary: w)
  case (Cons t ts)
  show ?case
  proof (cases "tr_SlskdID t = []")
    case True
    with Cons show ?thesis by (fastforce simp: only_calls_def list_all_iff)
  next
    case False
    obtain r v where net: "run_state (Cancel b (tr_Username t) (tr_SlskdID t)) w = (r, v)" by (metis surj_pair)
    note n = net_run [OF net [unfolded Cancel_def]]
    let ?v = "if r = Inl (ErrBackend ErrRemoteNotFound) then v\<lparr>w_DB := UpdateTransferProgress (tr_ID t)
      TCancelled (tr_BytesDone t) (tr_BytesTotal t) now (w_DB v)\<rparr> else v"
    have "run_state (cancel_active b now ts) ?v = (x, w')"
      using Cons.prems False net n by (auto simp: quiet_write split: if_splits)
    from Cons.IH [OF _ this] n Cons.prems(1)
    have ih: "w_Turns w' = []" "same_rows (w_DB ?v) (w_DB w')" "live_of cid (w_DB w') \<subseteq> live_of cid (w_DB ?v)"
      "only_calls (\<lambda>c. \<exists>u \<in> set ts. c = CallCancel (tr_Username u) (tr_SlskdID u)) ?v w'"
      by simp_all
    have "only_calls (\<lambda>c. \<exists>u \<in> set (t # ts). c = CallCancel (tr_Username u) (tr_SlskdID u)) w ?v"
      using n unfolding only_calls_def by (intro exI [of _ "[CallCancel (tr_Username t) (tr_SlskdID t)]"]) simp
    moreover have "only_calls (\<lambda>c. \<exists>u \<in> set (t # ts). c = CallCancel (tr_Username u) (tr_SlskdID u)) ?v w'"
      using ih(4) by (rule only_calls_mono) auto
    moreover have "same_rows (w_DB w) (w_DB w')"
      using ih(2) n by (simp add: same_rows_def split: if_splits)
    moreover have "live_of cid (w_DB ?v) \<subseteq> live_of cid (w_DB w)"
      using n progress_live_less [of TCancelled] by simp
    ultimately show ?thesis
      using ih(1,3) only_calls_trans by blast
  qed
qed (simp add: same_rows_def only_calls_refl)

lemma mark_cleaned_keeps [simp]:
  "jobs (MarkDownloadFolderCleaned lower i leaf now s) = jobs s"
  "candidates (MarkDownloadFolderCleaned lower i leaf now s) = candidates s"
  "transfers (MarkDownloadFolderCleaned lower i leaf now s) = transfers s"
  by (simp_all add: MarkDownloadFolderCleaned_def)

lemma cleanup_loop_quiet:
  assumes "w_Turns w = []" and "run_state (cleanup_loop tx b i now leaves) w = (x, w')"
  shows "w_Turns w' = [] \<and> jobs (w_DB w') = jobs (w_DB w) \<and> candidates (w_DB w') = candidates (w_DB w)
    \<and> transfers (w_DB w') = transfers (w_DB w)
    \<and> only_calls (\<lambda>c. \<exists>leaf \<in> set leaves. c = CallDelete leaf \<and> \<not> isQuarantineDir leaf) w w'"
  using assms
proof (induction leaves arbitrary: w)
  case (Cons leaf leaves)
  show ?case
  proof (cases "isQuarantineDir leaf")
    case True
    with Cons show ?thesis by (fastforce simp: only_calls_def list_all_iff)
  next
    case False
    obtain r v where net: "run_state (DeleteDownloadFolder b leaf) w = (r, v)" by (metis surj_pair)
    note n = net_run [OF net [unfolded DeleteDownloadFolder_def]]
    let ?v = "case r of Inl e \<Rightarrow> v | Inr u \<Rightarrow> v\<lparr>w_DB := MarkDownloadFolderCleaned (tx_Lower tx) i leaf now (w_DB v)\<rparr>"
    have "run_state (cleanup_loop tx b i now leaves) ?v = (x, w')"
      using Cons.prems False net n by (auto simp: quiet_write markCleaned_def split: sum.splits)
    from Cons.IH [OF _ this] n Cons.prems(1)
    have ih: "w_Turns w' = []" "jobs (w_DB w') = jobs (w_DB ?v)" "candidates (w_DB w') = candidates (w_DB ?v)"
      "transfers (w_DB w') = transfers (w_DB ?v)"
      "only_calls (\<lambda>c. \<exists>l \<in> set leaves. c = CallDelete l \<and> \<not> isQuarantineDir l) ?v w'"
      by (simp_all split: sum.split)
    have "only_calls (\<lambda>c. \<exists>l \<in> set (leaf # leaves). c = CallDelete l \<and> \<not> isQuarantineDir l) w ?v"
      using n False unfolding only_calls_def
      by (intro exI [of _ "[CallDelete leaf]"]) (simp split: sum.split)
    moreover have "only_calls (\<lambda>c. \<exists>l \<in> set (leaf # leaves). c = CallDelete l \<and> \<not> isQuarantineDir l) ?v w'"
      using ih(5) by (rule only_calls_mono) auto
    ultimately have "only_calls (\<lambda>c. \<exists>l \<in> set (leaf # leaves). c = CallDelete l \<and> \<not> isQuarantineDir l) w w'"
      by (rule only_calls_trans)
    with ih(1-4) n show ?thesis by (simp split: sum.splits)
  qed
qed (simp add: only_calls_refl)

lemma cleanupFolder_quiet:
  assumes "w_Turns w = []" and "run_state (cleanupFolder tx b i now) w = (x, w')"
  shows "w_Turns w' = [] \<and> jobs (w_DB w') = jobs (w_DB w) \<and> candidates (w_DB w') = candidates (w_DB w)
    \<and> transfers (w_DB w') = transfers (w_DB w)
    \<and> only_calls (\<lambda>c. \<exists>leaf \<in> set (DownloadFoldersForJob i (w_DB w)). c = CallDelete leaf \<and> \<not> isQuarantineDir leaf) w w'"
  using cleanup_loop_quiet [OF assms(1)] assms(2)
  by (simp add: cleanupFolder_def registeredFolders_def quiet_read assms(1))

lemma quiet_outcome:
  "w_Turns w = [] \<Longrightarrow> run_state (recordOutcome job u ok now) w =
     ((), w\<lparr>w_History := on_reliability (RecordAttemptOutcome (job_ArtistID job) u ok now) (w_History w)\<rparr>)"
  by (simp add: recordOutcome_def history_write_def history_call_def)

section \<open>The outcome\<close>

definition all_completed :: "transfer list \<Rightarrow> bool" where
  "all_completed ts \<longleftrightarrow> ts \<noteq> [] \<and> (\<forall>t \<in> set ts. tr_State t = TCompleted)"

definition any_failed :: "transfer list \<Rightarrow> bool" where
  "any_failed ts \<longleftrightarrow> (\<exists>t \<in> set ts. tr_State t \<in> {TErrored, TCancelled})"

definition any_live :: "transfer list \<Rightarrow> bool" where
  "any_live ts \<longleftrightarrow> (\<exists>t \<in> set ts. live t)"

text \<open>An active candidate of a job in the named state is finished, whatever the rule.\<close>

lemma terminal_runs:
  assumes base: "base_ok s" and c: "c \<in> set (candidates s)" "active c" and j: "j \<in> set (jobs s)" "job_State j = from"
  shows "snd (terminalCandidateAndAdvance dir (cand_ID c) (job_ID j) st from to reason rule now s) = Inr True"
proof -
  have found: "row_count (\<lambda>d. cand_ID d = cand_ID c \<and> active d) (candidates s) \<noteq> 0"
    "row_count (\<lambda>k. job_is (job_ID j) k \<and> job_State k = from) (jobs s) \<noteq> 0"
    using c j by (auto simp: row_count_eq_0 job_is_def)
  have "find (\<lambda>d. cand_ID d = cand_ID c)
      (row_update (\<lambda>d. cand_ID d = cand_ID c \<and> active d) (finish_candidate st reason now) (candidates s)) \<noteq> None"
    using c by (auto simp: find_None_iff row_update_def finish_candidate_def)
  then show ?thesis
    using found by (auto simp: terminalCandidateAndAdvance_def Let_def recordRejectionTx_def the_candidate_def
        split: option.splits)
qed

lemma cancel_pending_live:
  assumes "w_Turns w = []" and "not_cancelled cid (w_DB w)" and "run_state (cancel_pending now ts) w = (x, w')"
  shows "live_of cid (w_DB w') \<subseteq> {t \<in> live_of cid (w_DB w). tr_ID t \<notin> tr_ID ` set ts}"
  using assms
proof (induction ts arbitrary: w)
  case (Cons t ts)
  let ?s = "UpdateTransferProgress (tr_ID t) TCancelled (tr_BytesDone t) (tr_BytesTotal t) now (w_DB w)"
  have "run_state (cancel_pending now ts) (w\<lparr>w_DB := ?s\<rparr>) = (x, w')" using Cons.prems by (simp add: quiet_write)
  moreover have "owner_state cid ?s = owner_state cid (w_DB w)" by (rule owner_state_rows) simp_all
  ultimately have "live_of cid (w_DB w') \<subseteq> {t \<in> live_of cid ?s. tr_ID t \<notin> tr_ID ` set ts}"
    using Cons.IH [of "w\<lparr>w_DB := ?s\<rparr>"] Cons.prems(1,2) by (simp add: not_cancelled_def)
  with progress_live_of [OF Cons.prems(2), of TCancelled "tr_ID t" "tr_BytesDone t" "tr_BytesTotal t" now]
  show ?case by auto
qed (simp add: live_of_def)

text \<open>A quiet run keeps the database well-formed.\<close>

lemma quiet_wf:
  assumes "\<And>r K. keeps (runs_from r K) m" and "w_Turns w = []" and "wf_db (w_DB w)"
    and "run_state m w = (x, w')"
  shows "wf_db (w_DB w')"
proof -
  have "runs_from (w_DB w) {} w" using assms(2,3) by (simp add: runs_from_start others_ok_def)
  from keepsD [OF assms(1) this] assms(4) show ?thesis by (auto intro: runs_from_wf)
qed

lemma own_not_cancelled:
  assumes "base_ok s" and "c \<in> set (candidates s)" and "j \<in> set (jobs s)" and "cand_Job c = job_ID j"
    and "job_State j \<noteq> Cancelled"
  shows "not_cancelled (cand_ID c) s"
proof -
  have "the_candidate (cand_ID c) s = Some c"
    using assms(1,2) candidate_unique [OF assms(1)]
    by (cases "the_candidate (cand_ID c) s") (auto simp: the_candidate_def find_None_iff find_Some_iff)
  moreover have "the_job (cand_Job c) s = Some j" using the_job_member [OF assms(1,3)] assms(4) by simp
  ultimately show ?thesis using assms(5) by (simp add: not_cancelled_def owner_state_def)
qed

section \<open>Each outcome\<close>

text \<open>The attempt has ended: its candidate is in a final state, its job in another.\<close>

definition ended :: "candidate \<Rightarrow> candidate_state \<Rightarrow> album_job \<Rightarrow> job_state \<Rightarrow> db \<Rightarrow> bool" where
  "ended c st job to s \<longleftrightarrow> (\<forall>d \<in> set (candidates s). cand_ID d = cand_ID c \<longrightarrow> cand_State d = st)
     \<and> (\<forall>k \<in> set (jobs s). job_ID k = job_ID job \<longrightarrow> job_State k = to)"

lemma terminal_ends:
  assumes base: "base_ok s" and c: "c \<in> set (candidates s)" "active c"
    and j: "j \<in> set (jobs s)" "job_State j = from" and "st \<noteq> CActive"
    and run: "terminalCandidateAndAdvance dir (cand_ID c) (job_ID j) st from to reason rule now s = (s', r)"
  shows "r = Inr True \<and> ended c st j to s' \<and> transfers s' = transfers s"
proof -
  have r: "r = Inr True" using terminal_runs [OF base c j] run by (metis snd_conv)
  with run terminal_both [OF base run [unfolded r] assms(6)] terminal_transfers show ?thesis
    unfolding ended_def by (metis fst_conv)
qed

lemma attempt_failed_quiet:
  assumes quiet: "w_Turns w = []" and wf: "wf_db (w_DB w)"
    and c: "c \<in> set (candidates (w_DB w))" "active c"
    and job: "job \<in> set (jobs (w_DB w))" "job_State job = Downloading"
    and run: "run_state (attempt_failed tx b job c now) w = (r, w')"
  shows "r = Inr True \<and> ended c CFailed job Selecting (w_DB w') \<and> transfers (w_DB w') = transfers (w_DB w)
    \<and> only_calls (\<lambda>k. \<exists>leaf \<in> set (DownloadFoldersForJob (job_ID job) (w_DB w)).
          k = CallDelete leaf \<and> \<not> isQuarantineDir leaf) w w'"
proof -
  let ?P = "\<lambda>k. \<exists>leaf \<in> set (DownloadFoldersForJob (job_ID job) (w_DB w)). k = CallDelete leaf \<and> \<not> isQuarantineDir leaf"
  let ?u = "w\<lparr>w_DB := AddJobEvent (job_ID job) EventAttemptFailed
    (''candidate '' @ cand_Username c @ '' download failed, trying next candidate'') now (w_DB w)\<rparr>"
  obtain y v where clean: "run_state (cleanupFolder tx b (job_ID job) now) ?u = (y, v)" by (metis surj_pair)
  have v: "w_Turns v = []" "jobs (w_DB v) = jobs (w_DB w)" "candidates (w_DB v) = candidates (w_DB w)"
    "transfers (w_DB v) = transfers (w_DB w)" "only_calls ?P ?u v"
    using cleanupFolder_quiet [OF _ clean] quiet by (simp_all add: AddJobEvent_def DownloadFoldersForJob_def)
  let ?z = "v\<lparr>w_History := on_reliability (RecordAttemptOutcome (job_ArtistID job) (cand_Username c) False now) (w_History v)\<rparr>"
  obtain s q where t: "CooldownCandidateAndAdvance ReleaseDir (cand_ID c) (job_ID job) ''transfer failed''
      Downloading Selecting candidateCooldown now (w_DB v) = (s, q)" by (metis surj_pair)
  have "wf_db (w_DB v)"
    using wf quiet by (intro quiet_wf [OF keeps_cleanupFolder _ _ clean]) (simp_all add: wf_AddJobEvent)
  then have "base_ok (w_DB v)" by (simp add: wf_db_def)
  from terminal_ends [OF this _ _ _ _ _ t [unfolded CooldownCandidateAndAdvance_def]] c job v
  have q: "q = Inr True" "ended c CFailed job Selecting s" "transfers s = transfers (w_DB v)" by simp_all
  have "r = Inr True \<and> w' = ?z\<lparr>w_DB := s\<rparr>"
    using run clean v t q by (simp add: attempt_failed_def quiet quiet_event quiet_outcome quiet_try)
  with q v show ?thesis
    by (auto simp: only_calls_def)
qed

lemma not_imported_quiet:
  assumes quiet: "w_Turns w = []" and wf: "wf_db (w_DB w)"
    and c: "c \<in> set (candidates (w_DB w))" "active c"
    and job: "job \<in> set (jobs (w_DB w))" "job_State job = Downloading"
    and run: "run_state (not_imported job c now) w = (r, w')"
  shows "r = Inr True \<and> ended c CSucceeded job NotImported (w_DB w') \<and> w_Calls w' = w_Calls w"
proof -
  let ?s = "AddJobEvent (job_ID job) EventNotImported
    ''download complete, no album identified - leaving files in place'' now (w_DB w)"
  have same: "candidates ?s = candidates (w_DB w)" "jobs ?s = jobs (w_DB w)" by (simp_all add: AddJobEvent_def)
  obtain s q where t: "SucceedCandidateAndAdvance ReleaseDir (cand_ID c) (job_ID job) Downloading NotImported now ?s
    = (s, q)" by (metis surj_pair)
  have "base_ok ?s" using wf_AddJobEvent [OF wf] by (simp add: wf_db_def)
  from terminal_ends [OF this _ _ _ _ _ t [unfolded SucceedCandidateAndAdvance_def]] c job same
  have q: "q = Inr True" "ended c CSucceeded job NotImported s" by simp_all
  have "r = Inr True \<and> w_DB w' = s \<and> w_Calls w' = w_Calls w"
    using run t q by (auto simp: not_imported_def quiet quiet_event quiet_outcome quiet_try)
  with q show ?thesis by simp
qed

lemma advance_quiet:
  assumes base: "base_ok (w_DB w)" and job: "job \<in> set (jobs (w_DB w))" "job_State job = from"
    and s': "s' = fst (AdvanceJobStateFrom (job_ID job) from to now (w_DB w))"
  shows "(\<forall>k \<in> set (jobs s'). job_ID k = job_ID job \<longrightarrow> job_State k = to)
    \<and> candidates s' = candidates (w_DB w) \<and> transfers s' = transfers (w_DB w)"
proof -
  have "k = job" if "k \<in> set (jobs (w_DB w))" "job_ID k = job_ID job" for k
    using job_unique [OF base that(1) job(1) that(2)] .
  with job show ?thesis
    by (auto simp: s' AdvanceJobStateFrom_def Let_def ball_row_update job_is_def with_state_def)
qed

text \<open>
  Pending files of a failed attempt are cancelled on the spot. As long as one of its files is with the
  backend the attempt stays: the backend is asked to cancel those, and nothing is deleted under them.
\<close>

lemma two_phases:
  assumes quiet: "w_Turns w = []" and wf: "wf_db (w_DB w)"
    and c: "c \<in> set (candidates (w_DB w))" "active c" "cand_Job c = job_ID job"
    and job: "job \<in> set (jobs (w_DB w))" "job_State job = Downloading"
    and ts: "ts = TransfersForCandidate (cand_ID c) (w_DB w)" and failed: "any_failed ts"
    and run: "run_state (resolve_transfers tx b job c ts now) w = (r, w')"
  shows "live_of (cand_ID c) (w_DB w') \<subseteq> {t \<in> set ts. sent t}
    \<and> (if list_ex sent ts
       then r = Inr False \<and> same_rows (w_DB w) (w_DB w')
         \<and> only_calls (\<lambda>k. \<exists>t \<in> set ts. sent t \<and> k = CallCancel (tr_Username t) (tr_SlskdID t)) w w'
       else r = Inr True \<and> ended c CFailed job Selecting (w_DB w')
         \<and> only_calls (\<lambda>k. \<exists>leaf \<in> set (DownloadFoldersForJob (job_ID job) (w_DB w)).
               k = CallDelete leaf \<and> \<not> isQuarantineDir leaf) w w')"
proof -
  let ?pending = "filter (\<lambda>t. tr_State t = TPending) ts" and ?sent = "filter sent ts"
  obtain y v where pend: "run_state (cancel_pending now ?pending) w = (y, v)" by (metis surj_pair)
  have base: "base_ok (w_DB w)" using wf by (simp add: wf_db_def)
  have nc: "not_cancelled (cand_ID c) (w_DB w)"
    using own_not_cancelled [OF base c(1) job(1) c(3)] job(2) by simp
  have v: "w_Turns v = []" "same_rows (w_DB w) (w_DB v)" "w_Calls v = w_Calls w"
    using cancel_pending_quiet [OF quiet pend] by simp_all
  have wf_v: "wf_db (w_DB v)" using quiet_wf [OF keeps_cancels(1) quiet wf pend] .
  have live: "live_of (cand_ID c) (w_DB v) \<subseteq> {t \<in> set ts. sent t}"
  proof
    fix t
    assume "t \<in> live_of (cand_ID c) (w_DB v)"
    then have "t \<in> live_of (cand_ID c) (w_DB w)" "tr_ID t \<notin> tr_ID ` set ?pending"
      using cancel_pending_live [OF quiet nc pend] by auto
    then have "t \<in> set ts" "live t" "tr_State t \<noteq> TPending"
      by (auto simp: live_of_def ts TransfersForCandidate_def)
    then show "t \<in> {t \<in> set ts. sent t}" by (cases "tr_State t") (auto simp: live_def sent_def)
  qed
  have fail: "list_ex (\<lambda>t. tr_State t \<in> {TErrored, TCancelled}) ts"
    using failed by (simp add: any_failed_def list_ex_iff)
  show ?thesis
  proof (cases "list_ex sent ts")
    case True
    then have some: "?sent \<noteq> []" by (simp add: filter_empty_conv list_ex_iff)
    obtain z u where act: "run_state (cancel_active b now ?sent) v = (z, u)" by (metis surj_pair)
    have "r = Inr False" "w' = u"
      using run fail some pend act unfolding resolve_transfers_def Let_def by simp_all
    moreover have "only_calls (\<lambda>k. \<exists>t \<in> set ?sent. k = CallCancel (tr_Username t) (tr_SlskdID t)) v u"
      using cancel_active_quiet [OF v(1) act] by blast
    then have "only_calls (\<lambda>k. \<exists>t \<in> set ts. sent t \<and> k = CallCancel (tr_Username t) (tr_SlskdID t)) v u"
      by (rule only_calls_mono) auto
    then have "only_calls (\<lambda>k. \<exists>t \<in> set ts. sent t \<and> k = CallCancel (tr_Username t) (tr_SlskdID t)) w u"
      using v(3) by (simp add: only_calls_def)
    ultimately show ?thesis
      using cancel_active_quiet [OF v(1) act, of "cand_ID c"] v(2) live True
      by (auto intro: same_rows_trans)
  next
    case False
    then have none: "?sent = []" by (simp add: filter_empty_conv list_ex_iff)
    have last: "run_state (attempt_failed tx b job c now) v = (r, w')"
      using run fail none pend unfolding resolve_transfers_def Let_def by simp
    have rows: "c \<in> set (candidates (w_DB v))" "job \<in> set (jobs (w_DB v))"
      "folders (w_DB v) = folders (w_DB w)"
      using v(2) c(1) job(1) by (simp_all add: same_rows_def)
    from attempt_failed_quiet [OF v(1) wf_v rows(1) c(2) rows(2) job(2) last] rows(3) v(3) live False
    show ?thesis by (auto simp: live_of_def only_calls_def DownloadFoldersForJob_def)
  qed
qed

lemma resolve_outcome:
  assumes quiet: "w_Turns w = []" and wf: "wf_db (w_DB w)"
    and job: "job \<in> set (jobs (w_DB w))" "job_State job = Downloading"
    and c: "ActiveCandidate (job_ID job) (w_DB w) = Some c"
    and ts: "ts = TransfersForCandidate (cand_ID c) (w_DB w)"
    and run: "run_state (resolveDownloadingJob tx b job now) w = (r, w')"
  shows "if any_failed ts then live_of (cand_ID c) (w_DB w') \<subseteq> {t \<in> set ts. sent t}
        \<and> (if list_ex sent ts
           then r = Inr False \<and> same_rows (w_DB w) (w_DB w')
             \<and> only_calls (\<lambda>k. \<exists>t \<in> set ts. sent t \<and> k = CallCancel (tr_Username t) (tr_SlskdID t)) w w'
           else r = Inr True \<and> ended c CFailed job Selecting (w_DB w')
             \<and> only_calls (\<lambda>k. \<exists>leaf \<in> set (DownloadFoldersForJob (job_ID job) (w_DB w)).
                   k = CallDelete leaf \<and> \<not> isQuarantineDir leaf) w w')
      else if all_completed ts then r = Inr True \<and> w_Calls w' = w_Calls w
        \<and> (if job_Source job = SourceManual \<and> job_MBID job = [] then ended c CSucceeded job NotImported (w_DB w')
           else (\<forall>k \<in> set (jobs (w_DB w')). job_ID k = job_ID job \<longrightarrow> job_State k = Importing)
             \<and> candidates (w_DB w') = candidates (w_DB w))
      else r = Inr False \<and> w' = w"
proof -
  have run: "run_state (resolve_transfers tx b job c ts now) w = (r, w')"
    using run c ts by (simp add: resolveDownloadingJob_def quiet_read quiet)
  have act: "c \<in> set (candidates (w_DB w))" "cand_Job c = job_ID job" "active c"
    using ActiveCandidate_Some [OF c] by simp_all
  show ?thesis
  proof (cases "any_failed ts")
    case True
    with two_phases [OF quiet wf act(1,3,2) job ts True run] show ?thesis by simp
  next
    case False
    then have ok: "\<not> list_ex (\<lambda>t. tr_State t \<in> {TErrored, TCancelled}) ts"
      by (simp add: any_failed_def list_ex_iff)
    show ?thesis
    proof (cases "all_completed ts")
      case complete: True
      then have "ts \<noteq> [] \<and> list_all (\<lambda>t. tr_State t = TCompleted) ts"
        by (simp add: all_completed_def list_all_iff)
      note run = run [unfolded resolve_transfers_def Let_def, simplified ok this if_False if_True]
      have base: "base_ok (w_DB w)" using wf by (simp add: wf_db_def)
      show ?thesis
      proof (cases "job_Source job = SourceManual \<and> job_MBID job = []")
        case True
        with run have "run_state (not_imported job c now) w = (r, w')" by simp
        from not_imported_quiet [OF quiet wf act(1,3) job this] True False complete show ?thesis by simp
      next
        case other: False
        then have "r = Inr True" "w' = w\<lparr>w_DB := fst (AdvanceJobStateFrom (job_ID job) Downloading Importing now (w_DB w))\<rparr>"
          using run quiet by (auto simp: quiet_call)
        with advance_quiet [OF base job refl] False complete other show ?thesis by auto
      qed
    next
      case more_to_come: False
      then have "\<not> (ts \<noteq> [] \<and> list_all (\<lambda>t. tr_State t = TCompleted) ts)"
        by (simp add: all_completed_def list_all_iff)
      with run ok False more_to_come show ?thesis unfolding resolve_transfers_def Let_def by auto
    qed
  qed
qed

section \<open>A cancellation the backend does not confirm\<close>

lemma park_settles:
  assumes base: "base_ok s" and t: "t \<in> set (transfers s)" "live t"
    and c: "c \<in> set (candidates s)" "cand_ID c = tr_Candidate t" "cand_Job c = job_ID job"
    and job: "job \<in> set (jobs s)" "job_State job = Downloading"
    and park: "ParkJobForCandidate (tr_ID t) (tr_Candidate t) TErrored d n now s = (s', r)"
  shows "r = (job_ID job, True) \<and> (\<forall>k \<in> set (jobs s'). job_ID k = job_ID job \<longrightarrow> job_State k = Parked)
    \<and> (\<forall>u \<in> set (transfers s'). tr_ID u = tr_ID t \<longrightarrow> tr_State u = TErrored)"
proof -
  have cand: "the_candidate (tr_Candidate t) s = Some c"
    using c(1,2) candidate_unique [OF base]
    by (cases "the_candidate (tr_Candidate t) s") (auto simp: the_candidate_def find_None_iff find_Some_iff)
  have jb: "the_job (cand_Job c) s = Some job" using the_job_member [OF base job(1)] c(3) by simp
  have rows: "row_count (\<lambda>u. (tr_ID u = tr_ID t \<and> tr_Candidate u = tr_Candidate t) \<and> live u) (transfers s) \<noteq> 0"
    "row_count (\<lambda>u. tr_ID u = tr_ID t \<and> tr_Candidate u = tr_Candidate t) (transfers s) \<noteq> 0"
    using t by (auto simp: row_count_eq_0)
  have only: "u = t" if "u \<in> set (transfers s)" "tr_ID u = tr_ID t" for u
    using transfer_unique [OF base that(1) t(1) that(2)] .
  have one: "k = job" if "k \<in> set (jobs s)" "job_ID k = job_ID job" for k
    using job_unique [OF base that(1) job(1) that(2)] .
  have "r = (job_ID job, True)"
    "jobs s' = row_update (\<lambda>k. job_is (job_ID job) k \<and> job_State k = Downloading) (with_state Parked now) (jobs s)"
    "transfers s' = row_update (\<lambda>u. (tr_ID u = tr_ID t \<and> tr_Candidate u = tr_Candidate t) \<and> live u)
       (finish_transfer TErrored d n now) (transfers s)"
    using park rows job(2) by (auto simp: ParkJobForCandidate_def Let_def cand jb)
  with only one t job(2) show ?thesis
    by (auto simp: ball_row_update job_is_def with_state_def finish_transfer_def)
qed

lemma overdue_unconfirmed:
  assumes quiet: "w_Turns w = []" and base: "base_ok (w_DB w)"
    and t: "t \<in> set (transfers (w_DB w))" "live t" "tr_SlskdID t \<noteq> []"
    and c: "c \<in> set (candidates (w_DB w))" "cand_ID c = tr_Candidate t" "cand_Job c = job_ID job"
    and job: "job \<in> set (jobs (w_DB w))" "job_State job = Downloading"
    and remote: "matchLive lts t = Some lt" "tr_State t \<noteq> TStalled \<or> rt_State lt \<noteq> TCancelled"
    and silent: "fst (net_Cancel b (tr_Username t) (tr_SlskdID t) (w_Net w)) = Inl e"
    and run: "run_state (overdue_one b p lts now t a) w = ((err, a'), w')"
  shows "err = None \<and> (if now - tr_Deadline t \<le> lim_Deadline (dp_Limits p) then w_DB w' = w_DB w
     else (\<forall>k \<in> set (jobs (w_DB w')). job_ID k = job_ID job \<longrightarrow> job_State k = Parked)
       \<and> (\<forall>u \<in> set (transfers (w_DB w')). tr_ID u = tr_ID t \<longrightarrow> tr_State u = TErrored))"
proof -
  obtain r v where net: "run_state (Cancel b (tr_Username t) (tr_SlskdID t)) w = (r, v)" by (metis surj_pair)
  have v: "w_DB v = w_DB w" "w_Turns v = []" using net_run [OF net [unfolded Cancel_def]] quiet by simp_all
  have r: "r = Inl (ErrBackend e)"
    using net silent by (simp add: Cancel_def net_call_def Let_def split: prod.splits)
  obtain s q where park: "ParkJobForCandidate (tr_ID t) (tr_Candidate t) TErrored (tr_BytesDone t) (tr_BytesTotal t)
    now (w_DB w) = (s, q)" by (metis surj_pair)
  note settled = park_settles [OF base t(1,2) c job park]
  have "run_state (overdue_live b p now t lt (tr_SlskdID t) (ours (rt_ID lt) a)) w = ((err, a'), w')"
    using run remote t(3) by (simp add: overdue_one_def Let_def)
  then have "err = None \<and> (if now - tr_Deadline t \<le> lim_Deadline (dp_Limits p) then w' = v
      else w_DB w' = AddJobEvent (job_ID job) EventJobParked
        ''the backend would not confirm cancelling this transfer, so automation stopped'' now s)"
    using remote(2) net r park settled v
    by (auto simp: overdue_live_def park_transfer_def quiet_call quiet_event split: if_splits)
  with settled v show ?thesis by (auto simp: AddJobEvent_def split: if_splits)
qed

end
