(* ===== verification/SelectingFacts.thy ===== *)
theory SelectingFacts
  imports Selecting DownloadingFacts
begin

text \<open>
  What the module does with a job that has no candidate to activate, and that the quarantine moves
  files without losing or overwriting one.
\<close>

section \<open>A tree stays a tree\<close>

lemma tree_okD: "tree_ok t \<Longrightarrow> (p, n) \<in> set t \<Longrightarrow> node_at t (butlast p) = Some Directory"
  unfolding tree_ok_def by blast

lemma node_at_member:
  assumes "tree_ok t" and "p \<noteq> []"
  shows "node_at t p = Some n \<longleftrightarrow> (p, n) \<in> set t"
  using assms by (auto simp: tree_ok_def node_at_def)

lemma node_at_None: "p \<noteq> [] \<Longrightarrow> node_at t p = None \<longleftrightarrow> p \<notin> fst ` set t"
  by (simp add: node_at_def map_of_eq_None_iff)

text \<open>What lies below an entry that is there has every directory on the way.\<close>

lemma above_exists:
  assumes ok: "tree_ok t" and "node_at t (p @ q) = Some n"
  shows "node_at t p = Some (if q = [] then n else Directory)"
  using assms(2)
proof (induction q arbitrary: n rule: rev_induct)
  case (snoc x q)
  have "(p @ q @ [x], n) \<in> set t" using snoc.prems node_at_member [OF ok, of "p @ q @ [x]"] by simp
  from tree_okD [OF ok this] have "node_at t (p @ q) = Some Directory" by (simp add: butlast_append)
  from snoc.IH [OF this] show ?case by (simp split: if_splits)
qed simp

lemma add_directory:
  assumes ok: "tree_ok t" and "node_at t p = Some Directory" and new: "node_at t (p @ [x]) = None"
  shows "tree_ok (t @ [(p @ [x], Directory)]) \<and> node_at (t @ [(p @ [x], Directory)]) (p @ [x]) = Some Directory"
proof -
  have mono: "node_at t q = Some n \<Longrightarrow> node_at (t @ [(p @ [x], Directory)]) q = Some n" for q n
    by (simp add: node_at_def split: if_splits)
  have "node_at (t @ [(p @ [x], Directory)]) (p @ [x]) = Some Directory"
    using new by (simp add: node_at_def map_add_def)
  moreover have "p @ [x] \<notin> fst ` set t" using new by (simp add: node_at_None)
  moreover have "node_at (t @ [(p @ [x], Directory)]) (butlast q) = Some Directory"
    if "(q, n) \<in> set (t @ [(p @ [x], Directory)])" for q n
    using that mono tree_okD [OF ok, of q n] assms(2) by auto
  ultimately show ?thesis using ok unfolding tree_ok_def by auto
qed

lemma make_dirs_ok:
  "\<lbrakk>tree_ok t; node_at t p = Some Directory; make_dirs (map ((@) p) (prefixes_of q)) t = Inr t'\<rbrakk> \<Longrightarrow> tree_ok t'"
proof (induction q arbitrary: p t)
  case (Cons x q)
  have steps: "map ((@) p) (prefixes_of (x # q)) = (p @ [x]) # map ((@) (p @ [x])) (prefixes_of q)"
    by simp
  show ?case
  proof (cases "node_at t (p @ [x])")
    case None
    note new = add_directory [OF Cons.prems(1,2) None]
    from Cons.prems(3) None have "make_dirs (map ((@) (p @ [x])) (prefixes_of q)) (t @ [(p @ [x], Directory)]) = Inr t'"
      unfolding steps by simp
    from Cons.IH [OF conjunct1 [OF new] conjunct2 [OF new] this] show ?thesis .
  next
    case (Some n)
    with Cons.prems(3) have "n = Directory" "make_dirs (map ((@) (p @ [x])) (prefixes_of q)) t = Inr t'"
      unfolding steps by (cases n; simp)+
    with Some Cons.IH [OF Cons.prems(1) _ this(2)] show ?thesis by blast
  qed
qed simp

lemma MkdirAll_ok:
  assumes "tree_ok t" and "os_MkdirAll path t = Inr t'"
  shows "tree_ok t'" "regular_files t' = regular_files t" "set t \<subseteq> set t'"
proof -
  have "map ((@) []) (prefixes_of (elements path)) = prefixes_of (elements path)" by (simp add: map_idI)
  with assms make_dirs_ok [of t "[]" "elements path" t'] show "tree_ok t'"
    by (simp add: os_MkdirAll_def node_at_def)
  show "regular_files t' = regular_files t" "set t \<subseteq> set t'"
    using assms(2) make_dirs_files make_dirs_keeps by (auto simp: os_MkdirAll_def)
qed

section \<open>A move\<close>

definition relocate :: "string list \<Rightarrow> string list \<Rightarrow> string list \<Rightarrow> string list" where
  "relocate src dst p = (case strip_prefix src p of None \<Rightarrow> p | Some rest \<Rightarrow> dst @ rest)"

lemma move_relocate: "map (move_entry src dst) t = map (\<lambda>(p, n). (relocate src dst p, n)) t"
  by (auto simp: move_entry_def relocate_def split: option.split)

lemma relocate_below [simp]: "relocate src dst (src @ q) = dst @ q"
  by (simp add: relocate_def)

lemma relocate_root [simp]: "relocate src dst src = dst"
  using relocate_below [of src dst "[]"] by simp

lemma relocate_other: "\<not> below src p \<Longrightarrow> relocate src dst p = p"
  by (simp add: relocate_def below_def)

lemma below_iff: "below src p \<longleftrightarrow> (\<exists>q. p = src @ q)"
  by (auto simp: below_def strip_prefix_None)

lemma moved_files: "regular_files (map (\<lambda>(p, n). (f p, n)) t) = map f (regular_files t)"
  by (induction t) (auto simp: regular_files_def)

text \<open>To a free place, whose directory is there and which is not inside what moves.\<close>

lemma move_ok:
  assumes ok: "tree_ok t" and free: "node_at t dst = None" and room: "node_at t (butlast dst) = Some Directory"
    and out: "\<not> below src dst" and src: "src \<noteq> []"
  shows "tree_ok (map (\<lambda>(p, n). (relocate src dst p, n)) t)"
proof -
  let ?f = "relocate src dst" and ?t = "map (\<lambda>(p, n). (relocate src dst p, n)) t"
  have dst: "dst \<noteq> []" using free by (auto simp: node_at_def)
  have clear: "p \<noteq> dst @ q" if "p \<in> fst ` set t" for p q
  proof
    assume eq: "p = dst @ q"
    have "p \<noteq> []" using that ok unfolding tree_ok_def by metis
    with that node_at_None [of p t] obtain n where "node_at t p = Some n" by (cases "node_at t p") blast+
    from above_exists [OF ok this [unfolded eq]] free show False by simp
  qed
  have inj: "inj_on ?f (fst ` set t)"
  proof (rule inj_onI)
    fix p q
    assume p: "p \<in> fst ` set t" and q: "q \<in> fst ` set t" and eq: "?f p = ?f q"
    have "\<forall>r. p \<noteq> dst @ r" "\<forall>r. q \<noteq> dst @ r" using clear [OF p] clear [OF q] by simp_all
    with eq show "p = q"
      by (cases "below src p"; cases "below src q") (auto simp: below_iff relocate_other)
  qed
  have dist: "distinct (map fst ?t)"
  proof -
    have "distinct (map ?f (map fst t))" using inj ok by (subst distinct_map) (simp add: tree_ok_def)
    moreover have "map fst ?t = map ?f (map fst t)" by (simp add: case_prod_beta)
    ultimately show ?thesis by metis
  qed
  have nonempty: "[] \<notin> fst ` set ?t"
  proof
    assume "[] \<in> fst ` set ?t"
    then obtain p where p: "p \<in> fst ` set t" "?f p = []" by force
    with ok dst show False
      by (cases "below src p") (auto simp: below_iff relocate_other tree_ok_def)
  qed
  have at: "node_at ?t (?f p) = Some n" if "(p, n) \<in> set t" for p n
  proof -
    have "(?f p, n) \<in> set ?t" using that by force
    moreover have "?f p \<noteq> []" using nonempty calculation by (metis fst_conv imageI)
    ultimately show ?thesis using dist by (simp add: node_at_def)
  qed
  have still: "node_at ?t p = Some n" if "node_at t p = Some n" "\<not> below src p" for p n
  proof (cases "p = []")
    case False
    with that at [of p n] node_at_member [OF ok False] relocate_other [OF that(2)] show ?thesis by simp
  qed (use that in \<open>simp add: node_at_def\<close>)
  have "node_at ?t (butlast (?f p)) = Some Directory" if "(p, n) \<in> set t" for p n
  proof (cases "below src p")
    case False
    moreover have "\<not> below src (butlast p)"
      using False by (cases p rule: rev_cases) (auto simp: below_iff)
    ultimately show ?thesis using still tree_okD [OF ok that] by (simp add: relocate_other)
  next
    case True
    then obtain q where p: "p = src @ q" by (auto simp: below_iff)
    show ?thesis
    proof (cases "q = []")
      case True
      moreover have "\<not> below src (butlast dst)"
        using out by (cases dst rule: rev_cases) (auto simp: below_iff)
      ultimately show ?thesis using still room p by simp
    next
      case False
      have "node_at t (src @ butlast q) = Some Directory"
        using tree_okD [OF ok that] p False by (simp add: butlast_append)
      moreover have "src @ butlast q \<noteq> []" using src by simp
      ultimately have "(src @ butlast q, Directory) \<in> set t"
        using node_at_member [OF ok] by blast
      from at [OF this] p False show ?thesis by (simp add: butlast_append)
    qed
  qed
  then have "\<forall>p n. (p, n) \<in> set ?t \<longrightarrow> node_at ?t (butlast p) = Some Directory" by auto
  with dist nonempty show ?thesis by (simp add: tree_ok_def)
qed

lemma Rename_free:
  assumes "tree_ok t" and "node_at t (elements to) = None" and "os_Rename from to t = Inr t'"
  shows "tree_ok t'" "regular_files t' = map (relocate (elements from) (elements to)) (regular_files t)"
proof -
  have "t' = map (\<lambda>(p, n). (relocate (elements from) (elements to) p, n)) t \<and> elements from \<noteq> []
      \<and> \<not> below (elements from) (elements to) \<and> node_at t (butlast (elements to)) = Some Directory"
    using assms(2,3) by (auto simp: os_Rename_def Let_def move_relocate split: option.splits if_splits)
  with move_ok [OF assms(1,2)] moved_files show "tree_ok t'"
    "regular_files t' = map (relocate (elements from) (elements to)) (regular_files t)"
    by blast+
qed

section \<open>The quarantine\<close>

text \<open>What else the world holds.\<close>

definition only_files :: "'n world \<Rightarrow> 'n world \<Rightarrow> bool" where
  "only_files w w' \<longleftrightarrow> w_DB w' = w_DB w \<and> w_History w' = w_History w \<and> w_Net w' = w_Net w
     \<and> w_Turns w' = w_Turns w \<and> w_Calls w' = w_Calls w"

lemma only_files_trans: "only_files w v \<Longrightarrow> only_files v u \<Longrightarrow> only_files w u"
  by (simp add: only_files_def)

lemma os_read_run:
  "run_state (os_read q) w = (r, w') \<Longrightarrow> only_files w w' \<and> w_Files w' = w_Files w
     \<and> (r = Inl OsError \<or> r = q (w_Files w))"
  by (auto simp: os_read_def os_call_def only_files_def split: list.splits bool.splits)

lemma os_write_run:
  "run_state (os_write f) w = (r, w') \<Longrightarrow> only_files w w'
     \<and> (case r of Inl e \<Rightarrow> w_Files w' = w_Files w | Inr u \<Rightarrow> f (w_Files w) = Inr (w_Files w'))"
  by (auto simp: os_write_def os_call_def only_files_def split: list.splits bool.splits sum.splits)

lemma first_free_run:
  assumes "run_state (first_free dir names) w = (r, w')"
  shows "only_files w w' \<and> w_Files w' = w_Files w
    \<and> (\<forall>dst. r = Some dst \<longrightarrow> node_at (w_Files w) (elements dst) = None)"
  using assms
proof (induction names arbitrary: w)
  case (Cons name names)
  obtain q v where read: "run_state (os_read (os_Stat (path_Join dir name))) w = (q, v)" by (metis surj_pair)
  note v = os_read_run [OF read]
  show ?case
  proof (cases "q = Inl NotExist")
    case True
    with Cons.prems read have "r = Some (path_Join dir name)" "w' = v" by (simp_all add: Let_def)
    with v True show ?thesis by (auto simp: os_Stat_def split: option.splits)
  next
    case False
    with Cons.prems read have "run_state (first_free dir names) v = (r, w')" by (simp add: Let_def)
    from Cons.IH [OF this] v show ?thesis by (auto intro: only_files_trans)
  qed
qed (simp add: only_files_def)

text \<open>Either nothing moves, or the folder does, as it is, to a place where nothing was.\<close>

definition folder_path :: "string \<Rightarrow> string \<Rightarrow> string list" where
  "folder_path completeDir leaf = elements (path_Join completeDir leaf)"

definition may_move :: "string \<Rightarrow> string \<Rightarrow> bool" where
  "may_move completeDir leaf \<longleftrightarrow> completeDir \<noteq> [] \<and> leaf \<noteq> [] \<and> \<not> isQuarantineDir leaf
     \<and> (\<exists>x. folder_path completeDir leaf = elements completeDir @ [x] \<and> x \<noteq> ''..'')"

lemma quarantineFolder_moves:
  assumes ok: "tree_ok (w_Files w)" and run: "run_state (quarantineFolder tx i dir leaf name) w = (r, w')"
  shows "only_files w w' \<and> tree_ok (w_Files w')
    \<and> (case r of
         None \<Rightarrow> regular_files (w_Files w') = regular_files (w_Files w)
       | Some dst \<Rightarrow> may_move dir leaf \<and> node_at (w_Files w) (elements dst) = None
           \<and> regular_files (w_Files w')
             = map (relocate (folder_path dir leaf) (elements dst)) (regular_files (w_Files w)))"
proof (cases "dir = [] \<or> leaf = [] \<or> isQuarantineDir leaf \<or> \<not> child_of dir (path_Join dir leaf)
    \<or> Clean (path_Join dir leaf) = Clean dir")
  case True
  then have "r = None" "w' = w" using run by (auto simp: quarantineFolder_def Let_def split: if_splits)
  with ok show ?thesis by (simp add: only_files_def)
next
  case False
  let ?src = "path_Join dir leaf" and ?root = "path_Join dir name"
  have may: "may_move dir leaf"
    using False by (auto simp: may_move_def folder_path_def child_of_def strip_prefix_Some split: option.splits list.splits)
  obtain q1 w1 where stat: "run_state (os_read (os_Stat ?src)) w = (q1, w1)" by (metis surj_pair)
  obtain q2 w2 where made: "run_state (os_write (os_MkdirAll ?root)) w1 = (q2, w2)" by (metis surj_pair)
  obtain q3 w3 where free: "run_state (freeQuarantinePath tx ?root leaf i) w2 = (q3, w3)" by (metis surj_pair)
  obtain q4 w4 where moved: "run_state (os_write (os_Rename ?src (the q3))) w3 = (q4, w4)" by (metis surj_pair)
  note 1 = os_read_run [OF stat] and 2 = os_write_run [OF made]
    and 3 = first_free_run [OF free [unfolded freeQuarantinePath_def]] and 4 = os_write_run [OF moved]
  have ok2: "tree_ok (w_Files w2) \<and> regular_files (w_Files w2) = regular_files (w_Files w)
      \<and> set (w_Files w) \<subseteq> set (w_Files w2)"
    using 1 2 ok MkdirAll_ok [of "w_Files w" ?root "w_Files w2"] by (auto split: sum.splits)
  have "(r, w') = (case q1 of Inl e \<Rightarrow> (None, w1) | Inr n \<Rightarrow> case q2 of Inl e \<Rightarrow> (None, w2) | Inr u \<Rightarrow>
      (case q3 of None \<Rightarrow> (None, w3) | Some dst \<Rightarrow> case q4 of Inl e \<Rightarrow> (None, w4) | Inr u \<Rightarrow> (Some dst, w4)))"
    using run False stat made free moved
    by (cases q1; cases q2; cases q3; cases q4) (auto simp: quarantineFolder_def Let_def)
  then consider (stay) "r = None" "w' \<in> {w1, w2, w3}" | (fail) "r = None" "w' = w4" "w_Files w4 = w_Files w3"
    | (go) dst where "r = Some dst" "q3 = Some dst" "w' = w4" "os_Rename ?src dst (w_Files w3) = Inr (w_Files w4)"
    using 4 by (auto split: sum.splits option.splits)
  then show ?thesis
  proof cases
    case stay
    with 1 2 3 ok ok2 show ?thesis by (auto intro: only_files_trans)
  next
    case fail
    with 1 2 3 4 ok ok2 show ?thesis by (auto intro: only_files_trans)
  next
    case go
    have none: "node_at (w_Files w2) (elements dst) = None" using 3 go(2) by simp
    have same: "w_Files w3 = w_Files w2" using 3 by simp
    note mv = Rename_free [OF conjunct1 [OF ok2] none go(4) [unfolded same]]
    have "node_at (w_Files w) (elements dst) = None"
      using none ok2 by (auto simp: node_at_def map_of_eq_None_iff split: if_splits)
    with mv go ok2 may 1 2 3 4 show ?thesis by (auto simp: folder_path_def intro: only_files_trans)
  qed
qed

text \<open>Over all folders of a job: no file is lost, and what is in none of them is left alone.\<close>

lemma markCleaned_files:
  "run_state (markCleaned tx i leaf now) w = (x, w') \<Longrightarrow> w_Files w' = w_Files w"
  by (auto simp: markCleaned_def store_write_def store_call_def Let_def split: list.splits reply.splits prod.splits)

lemma quarantine_loop_files:
  assumes "tree_ok (w_Files w)" and "run_state (quarantine_loop tx i dir now name moved leaves) w = (r, w')"
  shows "tree_ok (w_Files w') \<and> length (regular_files (w_Files w')) = length (regular_files (w_Files w))
    \<and> (\<forall>p \<in> set (regular_files (w_Files w)).
          (\<forall>leaf \<in> set leaves. may_move dir leaf \<longrightarrow> \<not> below (folder_path dir leaf) p)
          \<longrightarrow> p \<in> set (regular_files (w_Files w')))"
  using assms
proof (induction leaves arbitrary: w moved)
  case (Cons leaf leaves)
  obtain q v where one: "run_state (quarantineFolder tx i dir leaf name) w = (q, v)" by (metis surj_pair)
  note mv = quarantineFolder_moves [OF Cons.prems(1) one]
  show ?case
  proof (cases q)
    case None
    with Cons.prems(2) one have "run_state (quarantine_loop tx i dir now name moved leaves) v = (r, w')" by simp
    from Cons.IH [OF _ this] mv None show ?thesis by simp
  next
    case (Some dst)
    obtain y u where mark: "run_state (markCleaned tx i leaf now) v = (y, u)" by (metis surj_pair)
    have "run_state (quarantine_loop tx i dir now name (moved @ [dst]) leaves) u = (r, w')"
      using Cons.prems(2) one Some mark by simp
    from Cons.IH [OF _ this] mv Some markCleaned_files [OF mark]
    have rest: "tree_ok (w_Files w')"
      "length (regular_files (w_Files w')) = length (regular_files (w_Files w))"
      "\<And>p. \<lbrakk>p \<in> set (map (relocate (folder_path dir leaf) (elements dst)) (regular_files (w_Files w)));
         \<forall>l \<in> set leaves. may_move dir l \<longrightarrow> \<not> below (folder_path dir l) p\<rbrakk>
         \<Longrightarrow> p \<in> set (regular_files (w_Files w'))"
      by auto
    have "p \<in> set (regular_files (w_Files w'))"
      if p: "p \<in> set (regular_files (w_Files w))"
        and "\<forall>l \<in> set (leaf # leaves). may_move dir l \<longrightarrow> \<not> below (folder_path dir l) p" for p
    proof (rule rest(3))
      have "relocate (folder_path dir leaf) (elements dst) p = p"
        using that(2) mv Some by (intro relocate_other) simp
      with p show "p \<in> set (map (relocate (folder_path dir leaf) (elements dst)) (regular_files (w_Files w)))"
        by force
    qed (use that(2) in simp)
    with rest(1,2) show ?thesis by blast
  qed
qed simp

lemma leftovers_files:
  assumes ok: "tree_ok (w_Files w)" and quiet: "w_Turns w = []"
    and run: "run_state (quarantineLeftovers tx dir i now) w = (r, w')"
  shows "tree_ok (w_Files w') \<and> length (regular_files (w_Files w')) = length (regular_files (w_Files w))
    \<and> (\<forall>p \<in> set (regular_files (w_Files w)).
          (\<forall>leaf \<in> set (DownloadFoldersForJob i (w_DB w)). may_move dir leaf \<longrightarrow> \<not> below (folder_path dir leaf) p)
          \<longrightarrow> p \<in> set (regular_files (w_Files w')))"
proof (cases "dir = []")
  case True
  with run ok show ?thesis by (simp add: quarantineLeftovers_def)
next
  case False
  obtain moved v where loop: "run_state (quarantine_loop tx i dir now quarantineDirName []
      (DownloadFoldersForJob i (w_DB w))) w = (moved, v)" by (metis surj_pair)
  have "w_Files w' = w_Files v"
    using run False quiet loop
    by (auto simp: quarantineLeftovers_def registeredFolders_def quiet_read AddJobEvent_best_def store_write_def
        store_call_def Let_def split: if_splits list.splits reply.splits prod.splits)
  with quarantine_loop_files [OF ok loop] show ?thesis by simp
qed

section \<open>A job without a candidate\<close>

text \<open>The decision is the one of \<open>failOrBackoff\<close> on the store.\<close>

lemma fail_or_backoff_refines:
  assumes "w_Turns w = []"
  shows "case failOrBackoff store_backoff_ops job mr base cap rw reason now (w_DB w) of
      Inl e \<Rightarrow> False
    | Inr (s, failed) \<Rightarrow> run_state (fail_or_backoff job mr base cap rw reason now) w = (Inr failed, w\<lparr>w_DB := s\<rparr>)"
  using assms
  by (simp add: failOrBackoff_def fail_or_backoff_def store_backoff_ops_def recordBackoffEvent_def Let_def
      rbind_def quiet_write quiet_event)

lemma quarantine_loop_quiet:
  assumes "w_Turns w = []" and "run_state (quarantine_loop tx i dir now name moved leaves) w = (r, w')"
    and "tree_ok (w_Files w)"
  shows "w_Turns w' = [] \<and> jobs (w_DB w') = jobs (w_DB w)"
  using assms
proof (induction leaves arbitrary: w moved)
  case (Cons leaf leaves)
  obtain q v where one: "run_state (quarantineFolder tx i dir leaf name) w = (q, v)" by (metis surj_pair)
  note mv = quarantineFolder_moves [OF Cons.prems(3) one]
  then have v: "w_Turns v = []" "w_DB v = w_DB w" "tree_ok (w_Files v)"
    using Cons.prems(1) by (simp_all add: only_files_def)
  show ?case
  proof (cases q)
    case None
    with Cons.prems(2) one have "run_state (quarantine_loop tx i dir now name moved leaves) v = (r, w')" by simp
    from Cons.IH [OF v(1) this v(3)] v(2) show ?thesis by simp
  next
    case (Some dst)
    let ?u = "v\<lparr>w_DB := MarkDownloadFolderCleaned (tx_Lower tx) i leaf now (w_DB v)\<rparr>"
    have "run_state (quarantine_loop tx i dir now name (moved @ [dst]) leaves) ?u = (r, w')"
      using Cons.prems(2) one Some v(1) by (simp add: markCleaned_def quiet_write)
    from Cons.IH [OF _ this] v show ?thesis by simp
  qed
qed simp

lemma leftovers_quiet:
  assumes "w_Turns w = []" and "tree_ok (w_Files w)" and "run_state (quarantineLeftovers tx dir i now) w = (r, w')"
  shows "w_Turns w' = [] \<and> jobs (w_DB w') = jobs (w_DB w)"
proof (cases "dir = []")
  case True
  with assms show ?thesis by (simp add: quarantineLeftovers_def)
next
  case False
  obtain moved v where loop: "run_state (quarantine_loop tx i dir now quarantineDirName []
      (DownloadFoldersForJob i (w_DB w))) w = (moved, v)" by (metis surj_pair)
  note v = quarantine_loop_quiet [OF assms(1) loop assms(2)]
  have "w' = v \<or> (\<exists>d. w' = v\<lparr>w_DB := AddJobEvent i EventQuarantined d now (w_DB v)\<rparr>)"
    using assms(1,3) False loop v
    by (auto simp: quarantineLeftovers_def registeredFolders_def quiet_read quiet_event split: if_splits)
  with v show ?thesis by (auto simp: AddJobEvent_def)
qed

lemma view_rows: "jobs s' = jobs s \<Longrightarrow> job_view i s' = job_view i s"
  by (simp add: job_view_def the_job_def)

lemma view_event [simp]: "job_view i (AddJobEvent k e d now s) = job_view i s"
  by (rule view_rows) (simp add: AddJobEvent_def)

definition given_up :: "selecting_params \<Rightarrow> album_job \<Rightarrow> bool" where
  "given_up p job \<longleftrightarrow> job_Source job = SourceManual \<or> job_Retries job + 1 \<ge> sp_MaxRetries p"

lemma select_none:
  assumes quiet: "w_Turns w = []" and wf: "wf_db (w_DB w)" and tree: "tree_ok (w_Files w)"
    and job: "job \<in> set (jobs (w_DB w))" "job_State job = Selecting"
    and none: "NextNewCandidate (job_ID job) (w_DB w) = None"
    and run: "run_state (selectJob tx b p job now) w = (r, w')"
  shows "r = Inr True \<and> job_view (job_ID job) (w_DB w') = Some (if given_up p job then (Failed, job_Retries job, None)
    else (Wanted, job_Retries job + 1,
      Some (now + sint (nextBackoff (job_Retries job + 1) (sp_BackoffBase p) (sp_BackoffCap p)))))"
proof (cases "job_Source job = SourceManual")
  case True
  have base: "base_ok (w_DB w)" using wf by (simp add: wf_db_def)
  have view: "job_view (job_ID job) (w_DB w) = Some (Selecting, job_Retries job, job_NotBefore job)"
    using the_job_member [OF base job(1)] job(2) by (simp add: job_view_def)
  let ?s = "AddJobEvent (job_ID job) EventJobFailed ''manual job candidate failed, not re-searching'' now
    (MarkJobFailed (job_ID job) now (w_DB w))"
  have "run_state (selectJob tx b p job now) w
    = (Inr True, snd (run_state (quarantineLeftovers tx (sp_CompleteDir p) (job_ID job) now) (w\<lparr>w_DB := ?s\<rparr>)))"
    using quiet none True
    by (simp add: selectJob_def exhausted_manual_def quiet_read quiet_write quiet_event split: prod.split)
  with run have r: "r = Inr True"
    and w': "run_state (quarantineLeftovers tx (sp_CompleteDir p) (job_ID job) now) (w\<lparr>w_DB := ?s\<rparr>) = ((), w')"
    by (simp_all add: prod_eq_iff)
  have "job_view (job_ID job) (w_DB w') = job_view (job_ID job) ?s"
    using leftovers_quiet [OF _ _ w'] quiet tree by (intro view_rows) simp
  also have "\<dots> = Some (Failed, job_Retries job, None)"
    using store_backoff.failed_view [OF wf _ view, of now "MarkJobFailed (job_ID job) now (w_DB w)"]
    by (simp add: store_backoff_ops_def)
  finally show ?thesis using r True by (simp add: given_up_def)
next
  case False
  have base: "base_ok (w_DB w)" using wf by (simp add: wf_db_def)
  have view: "job_view (job_ID job) (w_DB w) = Some (Selecting, job_Retries job, job_NotBefore job)"
    using the_job_member [OF base job(1)] job(2) by (simp add: job_view_def)
  let ?s = "AddJobEvent (job_ID job) EventCandidateRejected ''candidates exhausted'' now (w_DB w)"
  let ?w = "w\<lparr>w_DB := ?s\<rparr>"
  obtain s failed where dec: "failOrBackoff store_backoff_ops job (sp_MaxRetries p) (sp_BackoffBase p) (sp_BackoffCap p)
      True ''every candidate found for this album was tried and failed to download'' now ?s = Inr (s, failed)"
    and ran: "run_state (fail_or_backoff job (sp_MaxRetries p) (sp_BackoffBase p) (sp_BackoffCap p)
      True ''every candidate found for this album was tried and failed to download'' now) ?w = (Inr failed, w\<lparr>w_DB := s\<rparr>)"
    using fail_or_backoff_refines [of ?w job "sp_MaxRetries p" "sp_BackoffBase p" "sp_BackoffCap p" True
      "''every candidate found for this album was tried and failed to download''" now] quiet
    by (auto split: sum.splits prod.splits)
  have view': "job_view (job_ID job) ?s = Some (Selecting, job_Retries job, job_NotBefore job)"
    using view by simp
  note out = store_backoff.failOrBackoff_view [OF wf_AddJobEvent [OF wf] dec view']
  have "run_state (selectJob tx b p job now) w = (Inr True, if failed
      then snd (run_state (quarantineLeftovers tx (sp_CompleteDir p) (job_ID job) now) (w\<lparr>w_DB := s\<rparr>))
      else w\<lparr>w_DB := s\<rparr>)"
    using quiet none False ran
    by (simp add: selectJob_def exhausted_lidarr_def quiet_read quiet_event split: prod.split)
  with run have r: "r = Inr True" and w': "w' = (if failed
      then snd (run_state (quarantineLeftovers tx (sp_CompleteDir p) (job_ID job) now) (w\<lparr>w_DB := s\<rparr>))
      else w\<lparr>w_DB := s\<rparr>)"
    by simp_all
  have "job_view (job_ID job) (w_DB w') = job_view (job_ID job) s"
  proof (cases failed)
    case True
    then have "run_state (quarantineLeftovers tx (sp_CompleteDir p) (job_ID job) now) (w\<lparr>w_DB := s\<rparr>) = ((), w')"
      using w' by (simp add: prod_eq_iff)
    from leftovers_quiet [OF _ _ this] quiet tree show ?thesis by (intro view_rows) simp
  qed (simp add: w')
  with out r False show ?thesis by (auto simp: given_up_def)
qed

lemma select_expired:
  assumes quiet: "w_Turns w = []" and wf: "wf_db (w_DB w)"
    and job: "job \<in> set (jobs (w_DB w))" "job_State job = Selecting"
    and c: "NextNewCandidate (job_ID job) (w_DB w) = Some c" "job_Source job \<noteq> SourceManual"
      "now - cand_Created c > sp_CandidateTTL p"
    and run: "run_state (selectJob tx b p job now) w = (r, w')"
  shows "r = Inr True \<and> job_view (job_ID job) (w_DB w') = Some (Wanted, job_Retries job, None)"
proof -
  have base: "base_ok (w_DB w)" using wf by (simp add: wf_db_def)
  have view: "job_view (job_ID job) (w_DB w) = Some (Selecting, job_Retries job, job_NotBefore job)"
    using the_job_member [OF base job(1)] job(2) by (simp add: job_view_def)
  let ?s = "ResetJobToWanted (job_ID job) Selecting (job_Retries job) None now (w_DB w)"
  have "r = Inr True" "w_DB w' = AddJobEvent (job_ID job) EventCandidateRejected
      ''candidate cache expired, re-searching'' now ?s"
    using run quiet c by (auto simp: selectJob_def expired_cache_def quiet_read quiet_write quiet_event)
  moreover have "job_view (job_ID job) ?s = Some (Wanted, job_Retries job, None)"
    using store_backoff.reset_view [OF wf _ view, of Selecting "job_Retries job" None now ?s]
    by (simp add: store_backoff_ops_def)
  ultimately show ?thesis by simp
qed

text \<open>No slot: nothing changes, and the tick stops here.\<close>

lemma select_full:
  assumes quiet: "w_Turns w = []"
    and c: "NextNewCandidate (job_ID job) (w_DB w) = Some c"
      "job_Source job = SourceManual \<or> now - cand_Created c \<le> sp_CandidateTTL p"
    and full: "snd (ActivateCandidateWithTransfers (cand_ID c) (job_ID job) (int (sp_MaxActive p))
      (now + lim_Deadline (sp_Limits p)) now (w_DB w)) = Inr (False, True)"
    and run: "run_state (selectJob tx b p job now) w = (r, w')"
  shows "r = Inr False \<and> w' = w"
proof -
  have "fst (ActivateCandidateWithTransfers (cand_ID c) (job_ID job) (int (sp_MaxActive p))
      (now + lim_Deadline (sp_Limits p)) now (w_DB w)) = w_DB w"
    using activation_refused [of "cand_ID c" "job_ID job" "int (sp_MaxActive p)" "now + lim_Deadline (sp_Limits p)" now "w_DB w"]
      full by (metis Pair_inject prod.collapse sum.inject(2))
  with run quiet c full show ?thesis
    by (auto simp: selectJob_def activate_candidate_def quiet_read quiet_try)
qed

end
