(* ===== verification/ImportingFacts.thy ===== *)
theory ImportingFacts
  imports Importing SelectingFacts
begin

text \<open>
  What an importing job asks of Lidarr and of the peer backend, however the module is interleaved and
  whatever fails; how it ends when nothing else runs; and where a refused folder goes and comes back from.
\<close>

section \<open>Calls made\<close>

lemma only_calls_start [simp]: "only_calls P w w"
  by (simp add: only_calls_refl)

text \<open>What depends on the calls alone is kept by everything but a call.\<close>

definition on_calls :: "(peer_call list \<Rightarrow> bool) \<Rightarrow> 'n world \<Rightarrow> bool" where
  "on_calls Q w \<longleftrightarrow> Q (w_Calls w)"

lemma only_on_calls: "only_calls P v = on_calls (\<lambda>cs. \<exists>ds. cs = w_Calls v @ ds \<and> list_all P ds)"
  by (auto simp: fun_eq_iff only_calls_def on_calls_def)

lemma calls_store: "keeps (on_calls Q) (store_call op)"
  by (auto simp: keeps_def triple_def on_calls_def store_call_def Let_def split: list.split reply.split)

lemma calls_history: "keeps (on_calls Q) (history_call op)"
  by (auto simp: keeps_def triple_def on_calls_def history_call_def Let_def split: list.split reply.split)

lemma calls_os: "keeps (on_calls Q) (os_call op)"
  by (auto simp: keeps_def triple_def on_calls_def os_call_def split: list.split bool.split)

lemma calls_kept [keeps_rules]:
  "keeps (on_calls Q) (store_call op)" "keeps (on_calls Q) (store_read q)"
  "keeps (on_calls Q) (store_write f)" "keeps (on_calls Q) (store_try op')"
  "keeps (on_calls Q) (history_read hq)" "keeps (on_calls Q) (history_write hf)"
  "keeps (on_calls Q) (os_read oq)" "keeps (on_calls Q) (os_write og)"
  "keeps (on_calls Q) (AddJobEvent_best i ev d now)" "keeps (on_calls Q) (recordOutcome job u ok now)"
  "keeps (on_calls Q) (markCleaned tx i leaf now)"
  unfolding store_read_def store_write_def store_try_def history_read_def history_write_def os_read_def os_write_def
    AddJobEvent_best_def recordOutcome_def markCleaned_def
  by (intro keeps_bind keeps_return calls_store calls_history calls_os)+

lemma only_calls_kept [keeps_rules]:
  "keeps (only_calls P v) (store_call op)" "keeps (only_calls P v) (store_read q)"
  "keeps (only_calls P v) (store_write f)" "keeps (only_calls P v) (store_try op')"
  "keeps (only_calls P v) (history_read hq)" "keeps (only_calls P v) (history_write hf)"
  "keeps (only_calls P v) (os_read oq)" "keeps (only_calls P v) (os_write og)"
  "keeps (only_calls P v) (AddJobEvent_best i ev d now)" "keeps (only_calls P v) (recordOutcome job u ok now)"
  "keeps (only_calls P v) (markCleaned tx i leaf now)"
  unfolding only_on_calls by (rule calls_kept)+

lemma calls_made:
  assumes "\<And>ks. Q ks \<Longrightarrow> R (ks @ cs)"
  shows "triple (on_calls Q) (net_call op cs) (\<lambda>_. on_calls R)"
    and "triple (on_calls Q) (music_call op' cs) (\<lambda>_. on_calls R)"
  using assms by (auto simp: triple_def on_calls_def net_call_def music_call_def Let_def split: prod.split)

lemma calls_net:
  assumes "list_all P cs"
  shows "keeps (only_calls P v) (net_call op cs)" "keeps (only_calls P v) (music_call op' cs)"
  using assms unfolding keeps_def only_on_calls by (intro calls_made; fastforce)+

lemma calls_asked [keeps_rules]:
  "keeps (only_calls P v) (music_call op [])" "keeps (on_calls Q) (music_call op [])"
  by (rule calls_net, simp) (simp add: keeps_def calls_made)

lemma calls_completed [keeps_rules]:
  "keeps (only_calls P v) (cleanupCompletedFolder tx i dir now)"
proof -
  have "keeps (only_calls P v) (completed_loop tx i dir now leaves)" for leaves
    by (induction leaves) (auto intro!: keeps_rules)
  then show ?thesis unfolding cleanupCompletedFolder_def registeredFolders_def by (intro keeps_rules)
qed

lemma calls_folder_work [keeps_rules]:
  "keeps (only_calls P v) (dedup_step p job folder now)" "keeps (only_calls P v) (restoreRefusedFolder i dir folder)"
  "keeps (only_calls P v) (quarantineFolder tx i dir leaf name)"
proof -
  have "keeps (only_calls P v) (audio_files ff folder es)" for ff es
    by (induction es) (auto intro!: keeps_rules)
  moreover have "keeps (only_calls P v) (remove_losers ls removed)" for ls removed
    by (induction ls arbitrary: removed) (auto intro!: keeps_rules)
  ultimately show "keeps (only_calls P v) (dedup_step p job folder now)"
    unfolding dedup_step_def dedupAlbumFolder_def by (intro keeps_rules)
  show "keeps (only_calls P v) (restoreRefusedFolder i dir folder)"
    unfolding restoreRefusedFolder_def refusedQuarantineSource_def Let_def by (intro keeps_rules)
  have "keeps (only_calls P v) (first_free d names)" for d names
    by (induction names) (auto simp: Let_def intro!: keeps_rules)
  then show "keeps (only_calls P v) (quarantineFolder tx i dir leaf name)"
    unfolding quarantineFolder_def freeQuarantinePath_def Let_def by (intro keeps_rules)
qed

lemma calls_cleanupFolder:
  assumes "\<And>leaf. \<not> isQuarantineDir leaf \<Longrightarrow> P (CallDelete leaf)"
  shows "keeps (only_calls P v) (cleanupFolder tx b i now)"
proof -
  have "keeps (only_calls P v) (cleanup_loop tx b i now leaves)" for leaves
    by (induction leaves) (auto simp: DeleteDownloadFolder_def assms intro!: keeps_rules calls_net)
  then show ?thesis unfolding cleanupFolder_def registeredFolders_def by (intro keeps_rules)
qed

text \<open>What may be asked on behalf of a job: whole albums are imported, and a folder is deleted or not.\<close>

definition whole_album :: "(import_item list \<Rightarrow> bool) \<Rightarrow> import_item list \<Rightarrow> bool" where
  "whole_album enough items \<longleftrightarrow> items \<noteq> [] \<and> list_all matched_item items \<and> enough items"

definition import_call :: "(import_item list \<Rightarrow> bool) \<Rightarrow> bool \<Rightarrow> peer_call \<Rightarrow> bool" where
  "import_call enough deletes k \<longleftrightarrow>
     (\<exists>items. k = CallImport items \<and> whole_album enough items)
     \<or> (deletes \<and> (\<exists>leaf. k = CallDelete leaf \<and> \<not> isQuarantineDir leaf))"

text \<open>
  Enough tracks, said without the code's fold: the cached count where there is one; without it as many as
  some edition that Lidarr lists for the album, unless no edition it lists has a count. A job without
  an album of its own has the one its release group is looked up as.
\<close>

definition covers_edition :: "album_release list \<Rightarrow> import_item list \<Rightarrow> bool" where
  "covers_edition rels items \<longleftrightarrow>
     (\<forall>e \<in> set rels. ar_TrackCount e \<le> 0)
     \<or> (\<exists>e \<in> set rels. 0 < ar_TrackCount e \<and> ar_TrackCount e \<le> int (coverage items))"

definition covers_album :: "'n music \<Rightarrow> int \<Rightarrow> int \<Rightarrow> import_item list \<Rightarrow> bool" where
  "covers_album mu cached album items \<longleftrightarrow>
     (if cached \<noteq> 0 then cached \<le> int (coverage items)
      else \<exists>n rels. fst (mus_AlbumReleases mu album n) = Inr rels \<and> covers_edition rels items)"

definition import_album :: "'n music \<Rightarrow> album_job \<Rightarrow> int \<Rightarrow> bool" where
  "import_album mu job album \<longleftrightarrow>
     (if album_id job \<noteq> 0 then album = album_id job
      else \<exists>n. fst (mus_AlbumByForeignID mu (job_MBID job) n) = Inr (Some album))"

lemma import_call_mono:
  "\<lbrakk>import_call P deletes k; \<And>items. P items \<Longrightarrow> Q items\<rbrakk> \<Longrightarrow> import_call Q deletes k"
  by (auto simp: import_call_def whole_album_def)

text \<open>The fold finds the smallest positive count, and 0 when there is none.\<close>

lemma trackBand_low:
  "foldl (\<lambda>(lo, hi) r.
       if ar_TrackCount r \<le> 0 then (lo, hi)
       else (if lo = 0 \<or> ar_TrackCount r < lo then ar_TrackCount r else lo,
             if ar_TrackCount r > hi then ar_TrackCount r else hi)) (lo, hi) rels = (lo', hi') \<Longrightarrow> 0 \<le> lo \<Longrightarrow>
   (if lo = 0 \<and> (\<forall>e \<in> set rels. ar_TrackCount e \<le> 0) then lo' = 0
    else 0 < lo' \<and> (lo' = lo \<or> lo' \<in> ar_TrackCount ` set rels) \<and> (lo \<noteq> 0 \<longrightarrow> lo' \<le> lo)
      \<and> (\<forall>e \<in> set rels. 0 < ar_TrackCount e \<longrightarrow> lo' \<le> ar_TrackCount e))"
proof (induction rels arbitrary: lo hi)
  case Nil
  then show ?case by auto
next
  case (Cons r rels)
  show ?case
  proof (cases "ar_TrackCount r \<le> 0")
    case True
    with Cons.prems Cons.IH [of lo hi] show ?thesis by (auto split: if_splits)
  next
    case False
    let ?lo = "if lo = 0 \<or> ar_TrackCount r < lo then ar_TrackCount r else lo"
      and ?hi = "if ar_TrackCount r > hi then ar_TrackCount r else hi"
    have lo: "0 < ?lo" using False Cons.prems(2) by auto
    from Cons.prems(1) False have "foldl (\<lambda>(lo, hi) r.
       if ar_TrackCount r \<le> 0 then (lo, hi)
       else (if lo = 0 \<or> ar_TrackCount r < lo then ar_TrackCount r else lo,
             if ar_TrackCount r > hi then ar_TrackCount r else hi)) (?lo, ?hi) rels = (lo', hi')" by simp
    from Cons.IH [OF this] lo have
      "0 < lo'" "lo' = ?lo \<or> lo' \<in> ar_TrackCount ` set rels" "lo' \<le> ?lo"
      "\<forall>e \<in> set rels. 0 < ar_TrackCount e \<longrightarrow> lo' \<le> ar_TrackCount e"
      by (auto split: if_splits)
    with False show ?thesis by (auto split: if_splits)
  qed
qed

lemma trackBand_covers: "fst (trackBand rels) \<le> int (coverage items) \<Longrightarrow> covers_edition rels items"
proof -
  assume le: "fst (trackBand rels) \<le> int (coverage items)"
  obtain lo hi where band: "trackBand rels = (lo, hi)" by (metis surj_pair)
  from trackBand_low [OF band [unfolded trackBand_def]] le band show ?thesis
    by (fastforce simp: covers_edition_def split: if_splits)
qed

lemma calls_failCandidate:
  assumes "job_Source job \<noteq> SourceManual \<longrightarrow> deletes"
  shows "keeps (only_calls (import_call n deletes) v) (failCandidate tx b p job c reason fault now)"
  using assms unfolding failCandidate_def repeatedRejectionCap_def recordPark_def
  by (intro keeps_rules calls_cleanupFolder) (auto simp: import_call_def)

lemma calls_escalate:
  "(job_Source job \<noteq> SourceManual \<longrightarrow> deletes) \<Longrightarrow>
   keeps (only_calls (import_call n deletes) v) (escalateIfStuck tx b p job c reason now)"
  unfolding escalateIfStuck_def by (intro keeps_rules calls_failCandidate)

lemma calls_ends [keeps_rules]:
  "keeps (only_calls P v) (refuseImport tx p job c folder rejs now)"
  "keeps (only_calls P v) (routeNotImported job c detail now)"
  "keeps (only_calls P v) (failUnconfirmed job c detail now)"
  "keeps (only_calls P v) (albumAlreadyComplete mu job)" "keeps (only_calls P v) (required_tracks mu job)"
  unfolding refuseImport_def routeNotImported_def failUnconfirmed_def albumAlreadyComplete_def required_tracks_def Let_def
  by (intro keeps_rules)+

lemma music_run:
  "run_state (music_call op cs) w =
     ((case fst (op (w_Net w)) of Inl e \<Rightarrow> Inl ErrLidarr | Inr x \<Rightarrow> Inr x),
      w\<lparr>w_Net := snd (op (w_Net w)), w_Calls := w_Calls w @ cs\<rparr>)"
  by (simp add: music_call_def Let_def case_prod_beta)

text \<open>What Lidarr says of the album now: complete or not, or nothing.\<close>

definition says_complete :: "'n music \<Rightarrow> int \<Rightarrow> 'n \<Rightarrow> bool" where
  "says_complete mu i n \<longleftrightarrow>
     (case fst (mus_AlbumStatus mu i n) of Inl e \<Rightarrow> False | Inr (present, all) \<Rightarrow> all > 0 \<and> present \<ge> all)"

lemma already_complete_run:
  obtains r n where "run_state (albumAlreadyComplete mu job) w = (r, w\<lparr>w_Net := n\<rparr>)"
    and "r = Inr True \<longleftrightarrow> says_complete mu (album_id job) (w_Net w)"
proof -
  let ?a = "mus_AlbumStatus mu (album_id job) (w_Net w)"
  let ?r = "case fst ?a of Inl e \<Rightarrow> Inl ErrLidarr | Inr (present, all) \<Rightarrow> Inr (all > 0 \<and> present \<ge> all)"
  have "run_state (albumAlreadyComplete mu job) w = (?r, w\<lparr>w_Net := snd ?a\<rparr>)"
    by (simp add: albumAlreadyComplete_def music_run split: sum.split)
  moreover have "?r = Inr True \<longleftrightarrow> says_complete mu (album_id job) (w_Net w)"
    by (auto simp: says_complete_def split: sum.split)
  ultimately show thesis by (rule that)
qed

lemma keeps_bind_result:
  assumes "keeps I m" and "\<And>w. I w \<Longrightarrow> keeps I (f (fst (run_state m w)))"
  shows "keeps I (m \<bind> f)"
  using assms by (fastforce simp: keeps_def triple_def split: prod.split)

lemma calls_nothing_importable:
  assumes "job_Source job \<noteq> SourceManual \<longrightarrow> deletes" and "deletes \<or> (\<forall>i n. \<not> says_complete mu i n)"
  shows "keeps (only_calls (import_call n deletes) v) (nothing_importable tx b mu p job c folder rejs now)"
proof (cases deletes)
  case True
  then show ?thesis
    unfolding nothing_importable_def
    by (intro keeps_rules calls_failCandidate calls_cleanupFolder) (auto simp: import_call_def)
next
  case False
  have rest: "keeps (only_calls (import_call n deletes) v)
      (if AnyPermanent rejs then refuseImport tx p job c folder rejs now
       else do {
         _ \<leftarrow> AddJobEvent_best (job_ID job) EventImportRejected
           (''import rejected (folder '' @ folder @ ''): '' @ Join ''; '' (Reasons rejs)) now;
         failCandidate tx b p job c ReasonImportRejected True now })"
    using assms(1) by (intro keeps_rules calls_failCandidate)
  have "fst (run_state (albumAlreadyComplete mu job) w) \<noteq> Inr True" for w
    using False assms(2) already_complete_run [of mu job w] by (metis fst_conv)
  with rest show ?thesis
    unfolding nothing_importable_def by (intro keeps_bind_result [OF calls_ends(4)]) (simp only: if_False)
qed

lemma calls_submit:
  "whole_album n items \<Longrightarrow> keeps (only_calls (import_call n deletes) v) (submit mu job c items now)"
  unfolding submit_def by (intro keeps_rules calls_net) (auto simp: import_call_def)

lemma required_covers:
  assumes "fst (run_state (required_tracks mu job) w) = Inr needed" and "needed \<le> int (coverage items)"
  shows "covers_album mu (job_MinTracks job) (album_id job) items"
proof (cases "job_MinTracks job = 0")
  case True
  then obtain rels where "fst (mus_AlbumReleases mu (album_id job) (w_Net w)) = Inr rels" "needed = fst (trackBand rels)"
    using assms(1) by (auto simp: required_tracks_def music_run split: sum.splits)
  with True assms(2) trackBand_covers [of rels items] show ?thesis unfolding covers_album_def by auto
next
  case False
  with assms show ?thesis by (simp add: required_tracks_def covers_album_def)
qed

lemma calls_coverage_gate:
  assumes "job_Source job \<noteq> SourceManual \<longrightarrow> deletes" and "items \<noteq> []" and "list_all matched_item items"
  shows "keeps (only_calls (import_call (covers_album mu (job_MinTracks job) (album_id job)) deletes) v)
    (coverage_gate tx b mu p job c folder items d now)"
  unfolding coverage_gate_def
proof (rule keeps_bind_result)
  fix w
  let ?P = "only_calls (import_call (covers_album mu (job_MinTracks job) (album_id job)) deletes) v"
  let ?m = "fst (run_state (required_tracks mu job) w)"
  show "keeps ?P (case ?m of Inl e \<Rightarrow> escalateIfStuck tx b p job c ''album releases lookup failed'' now
      | Inr needed \<Rightarrow>
         if int (coverage items) < needed then do {
           _ \<leftarrow> AddJobEvent_best (job_ID job) EventImportRejected
             (''incomplete download, rejecting (folder '' @ folder @ '', covered '' @ decimal (coverage items)
              @ ''/'' @ decimal_int needed @ ''; '' @ derivation_text d @ '')'') now;
           failCandidate tx b p job c ReasonIncompleteDownload True now }
         else submit mu job c items now)"
  proof (cases ?m)
    case (Inr needed)
    have "whole_album (covers_album mu (job_MinTracks job) (album_id job)) items" if "\<not> int (coverage items) < needed"
      using that assms(2,3) required_covers [OF Inr] by (simp add: whole_album_def)
    with assms(1) show ?thesis
      unfolding Inr by (auto intro!: keeps_rules calls_failCandidate calls_submit)
  qed (use assms(1) in \<open>auto intro!: calls_escalate\<close>)
qed (rule calls_ends)

lemma calls_verify:
  assumes "job_Source job \<noteq> SourceManual \<longrightarrow> deletes" and "deletes \<or> (\<forall>i n. \<not> says_complete mu i n)"
  shows "keeps (only_calls (import_call (covers_album mu (job_MinTracks job) (album_id job)) deletes) v) (verify tx b mu p job c now)"
proof -
  let ?P = "only_calls (import_call (covers_album mu (job_MinTracks job) (album_id job)) deletes) v"
  note rules = calls_escalate [OF assms(1)] calls_failCandidate [OF assms(1)] calls_nothing_importable [OF assms]
    calls_coverage_gate [OF assms(1)]
  have "keeps ?P (empty_preview tx b p job c folder now)" for folder
    unfolding empty_preview_def
    by (intro keeps_rules) (auto split: os_error.split list.split intro!: keeps_rules rules)
  then have "keeps ?P (judge_preview tx b mu p job c folder items k removed now)" for folder items k removed
    unfolding judge_preview_def Let_def
    by (intro keeps_rules rules) (auto simp: list_all_iff filter_empty_conv)
  then show ?thesis
    unfolding verify_def Let_def by (intro keeps_rules rules)
qed

lemma resolved_album:
  assumes "fst (run_state (resolveAlbumID tx b mu p job c now) w) = Inr (Some a)"
  shows "import_album mu job a"
proof (cases "album_id job = 0")
  case True
  have no: "fst (run_state (done_with m) u) \<noteq> Inr (Some a)" for m :: "('a, unit) fallible" and u
    by (simp add: done_with_def split: prod.split sum.split)
  have "job_MBID job \<noteq> []" using assms True no by (auto simp: resolveAlbumID_def)
  then have "fst (mus_AlbumByForeignID mu (job_MBID job) (w_Net w)) = Inr (Some a)"
    using assms True no by (auto simp: resolveAlbumID_def music_run split: sum.splits option.splits)
  with True show ?thesis by (auto simp: import_album_def)
next
  case False
  with assms show ?thesis by (simp add: resolveAlbumID_def import_album_def)
qed

text \<open>The import of a job, for the album it turns out to have.\<close>

definition covers_job :: "'n music \<Rightarrow> album_job \<Rightarrow> import_item list \<Rightarrow> bool" where
  "covers_job mu job items \<longleftrightarrow> (\<exists>a. import_album mu job a \<and> covers_album mu (job_MinTracks job) a items)"

lemma calls_importJob:
  assumes "job_Source job \<noteq> SourceManual \<longrightarrow> deletes" and "deletes \<or> (\<forall>i n. \<not> says_complete mu i n)"
  shows "keeps (only_calls (import_call (covers_job mu job) deletes) v) (importJob tx b mu p job now)"
proof -
  let ?P = "only_calls (import_call (covers_job mu job) deletes) v"
  note rules = calls_escalate [OF assms(1)]
  have resolve: "keeps ?P (resolveAlbumID tx b mu p job c now)" for c
    unfolding resolveAlbumID_def done_with_def by (intro keeps_rules rules)
  have verify: "keeps ?P (verify tx b mu p (job\<lparr>job_Album := Some a\<rparr>) c now)" if "import_album mu job a" for a c
  proof -
    have "keeps (only_calls (import_call (covers_album mu (job_MinTracks job) a) deletes) u)
        (verify tx b mu p (job\<lparr>job_Album := Some a\<rparr>) c now)" for u
      using calls_verify [of "job\<lparr>job_Album := Some a\<rparr>" deletes mu u] assms by (simp add: album_id_def)
    note step = this
    show ?thesis
      unfolding keeps_def triple_def
    proof (intro allI impI)
      fix u assume u: "?P u"
      have "only_calls (import_call (covers_album mu (job_MinTracks job) a) deletes) u
          (snd (run_state (verify tx b mu p (job\<lparr>job_Album := Some a\<rparr>) c now) u))"
        by (rule keepsD [OF step only_calls_start])
      moreover have "import_call (covers_job mu job) deletes k"
        if "import_call (covers_album mu (job_MinTracks job) a) deletes k" for k
        using that by (rule import_call_mono) (use \<open>import_album mu job a\<close> in \<open>auto simp: covers_job_def\<close>)
      ultimately have "only_calls (import_call (covers_job mu job) deletes) u
          (snd (run_state (verify tx b mu p (job\<lparr>job_Album := Some a\<rparr>) c now) u))"
        by (rule only_calls_mono)
      with u show "?P (snd (run_state (verify tx b mu p (job\<lparr>job_Album := Some a\<rparr>) c now) u))"
        by (rule only_calls_trans)
    qed
  qed
  have confirm: "keeps ?P (confirm tx mu p (job\<lparr>job_Album := Some a\<rparr>) c t now)" for a c t
    unfolding confirm_def confirmed_def Let_def by (intro keeps_rules)
  have rest: "keeps ?P (resolveAlbumID tx b mu p job c now \<bind> (\<lambda>i. case i of
       Inl e \<Rightarrow> return (Inl e)
     | Inr None \<Rightarrow> return (Inr ())
     | Inr (Some album) \<Rightarrow>
         (case cand_ImportSubmitted c of
            None \<Rightarrow> verify tx b mu p (job\<lparr>job_Album := Some album\<rparr>) c now
          | Some submitted \<Rightarrow> confirm tx mu p (job\<lparr>job_Album := Some album\<rparr>) c submitted now)))" for c
  proof (rule keeps_bind_result [OF resolve])
    fix w
    show "keeps ?P (case fst (run_state (resolveAlbumID tx b mu p job c now) w) of
         Inl e \<Rightarrow> return (Inl e)
       | Inr None \<Rightarrow> return (Inr ())
       | Inr (Some album) \<Rightarrow>
           (case cand_ImportSubmitted c of
              None \<Rightarrow> verify tx b mu p (job\<lparr>job_Album := Some album\<rparr>) c now
            | Some submitted \<Rightarrow> confirm tx mu p (job\<lparr>job_Album := Some album\<rparr>) c submitted now))"
      using resolved_album [of tx b mu p job c now w]
      by (auto split: sum.split option.split intro!: keeps_return verify confirm)
  qed
  show ?thesis unfolding importJob_def by (intro keeps_rules rest)
qed

section \<open>When nothing else runs\<close>

text \<open>Jobs, candidates and rejections are as they were.\<close>

definition undisturbed :: "'n world \<Rightarrow> 'n world \<Rightarrow> bool" where
  "undisturbed v w \<longleftrightarrow> w_Turns w = [] \<and> wf_db (w_DB w) \<and> jobs (w_DB w) = jobs (w_DB v)
     \<and> candidates (w_DB w) = candidates (w_DB v) \<and> rejections (w_DB w) = rejections (w_DB v)"

lemma undisturbed_refl: "w_Turns w = [] \<Longrightarrow> wf_db (w_DB w) \<Longrightarrow> undisturbed w w"
  by (simp add: undisturbed_def)

lemma undisturbed_trans: "undisturbed u v \<Longrightarrow> undisturbed v w \<Longrightarrow> undisturbed u w"
  by (simp add: undisturbed_def)

lemma undisturbed_other [simp]:
  "undisturbed v (w\<lparr>w_History := h\<rparr>) = undisturbed v w" "undisturbed v (w\<lparr>w_Net := n\<rparr>) = undisturbed v w"
  "undisturbed v (w\<lparr>w_Net := n, w_Calls := cs\<rparr>) = undisturbed v w"
  "undisturbed v (w\<lparr>w_Files := t\<rparr>) = undisturbed v w"
  "undisturbed v (w\<lparr>w_Faults := fs\<rparr>) = undisturbed v w" "undisturbed v (w\<lparr>w_Files := t, w_Faults := fs\<rparr>) = undisturbed v w"
  by (simp_all add: undisturbed_def)

lemma triple_keeps_bind: "\<lbrakk>keeps I m; \<And>x. triple I (f x) Q\<rbrakk> \<Longrightarrow> triple I (m \<bind> f) Q"
  unfolding keeps_def by (rule triple_bind)

lemma triple_pure:
  "(a \<Longrightarrow> triple P m Q) \<Longrightarrow> triple (\<lambda>w. P w \<and> a) m Q" "(a \<Longrightarrow> triple P m Q) \<Longrightarrow> triple (\<lambda>w. a \<and> P w) m Q"
  by (simp_all add: triple_def)

lemma undisturbed_read: "triple (undisturbed v) (store_read q) (\<lambda>r w. undisturbed v w \<and> r = Inr (q (w_DB w)))"
  by (auto simp: triple_def undisturbed_def quiet_read)

lemma undisturbed_write:
  assumes "\<And>s. wf_db s \<Longrightarrow> wf_db (f s)"
    and "\<And>s. jobs (f s) = jobs s" "\<And>s. candidates (f s) = candidates s" "\<And>s. rejections (f s) = rejections s"
  shows "keeps (undisturbed v) (store_write f)"
  using assms by (auto simp: keeps_def triple_def undisturbed_def quiet_write)

lemma undisturbed_calls [keeps_rules]:
  "keeps (undisturbed v) (store_read q)" "keeps (undisturbed v) (AddJobEvent_best i ev d now)"
  "keeps (undisturbed v) (recordOutcome job u ok now)" "keeps (undisturbed v) (markCleaned tx i leaf now)"
  "keeps (undisturbed v) (os_read oq)" "keeps (undisturbed v) (os_write og)"
  "keeps (undisturbed v) (net_call nop cs)" "keeps (undisturbed v) (music_call mop cs)"
proof -
  show "keeps (undisturbed v) (store_read q)"
    using undisturbed_read [of v q] by (simp add: keeps_def triple_def)
  show "keeps (undisturbed v) (AddJobEvent_best i ev d now)"
    unfolding AddJobEvent_best_def
    by (intro keeps_bind keeps_return undisturbed_write wf_AddJobEvent) (simp_all add: AddJobEvent_def)
  show "keeps (undisturbed v) (recordOutcome job u ok now)"
    by (auto simp: keeps_def triple_def quiet_outcome undisturbed_def)
  show "keeps (undisturbed v) (markCleaned tx i leaf now)"
    unfolding markCleaned_def
    by (intro keeps_bind keeps_return undisturbed_write wf_MarkDownloadFolderCleaned)
      (simp_all add: MarkDownloadFolderCleaned_def)
  show "keeps (undisturbed v) (os_read oq)" "keeps (undisturbed v) (os_write og)"
    by (auto simp: keeps_def triple_def os_read_def os_write_def os_call_def split: list.split bool.split)
  show "keeps (undisturbed v) (net_call nop cs)" "keeps (undisturbed v) (music_call mop cs)"
    by (auto simp: keeps_def triple_def net_call_def music_call_def Let_def split: prod.split)
qed

lemma undisturbed_cleanups [keeps_rules]:
  "keeps (undisturbed v) (cleanupFolder tx b i now)" "keeps (undisturbed v) (cleanupCompletedFolder tx i dir now)"
  "keeps (undisturbed v) (quarantineFolder tx i dir leaf name)"
proof -
  have "keeps (undisturbed v) (cleanup_loop tx b i now leaves)" for leaves
    by (induction leaves) (auto simp: DeleteDownloadFolder_def intro!: keeps_rules)
  then show "keeps (undisturbed v) (cleanupFolder tx b i now)"
    unfolding cleanupFolder_def registeredFolders_def by (intro keeps_rules)
  have "keeps (undisturbed v) (completed_loop tx i dir now leaves)" for leaves
    by (induction leaves) (auto intro!: keeps_rules)
  then show "keeps (undisturbed v) (cleanupCompletedFolder tx i dir now)"
    unfolding cleanupCompletedFolder_def registeredFolders_def by (intro keeps_rules)
  have "keeps (undisturbed v) (first_free d names)" for d names
    by (induction names) (auto simp: Let_def intro!: keeps_rules)
  then show "keeps (undisturbed v) (quarantineFolder tx i dir leaf name)"
    unfolding quarantineFolder_def freeQuarantinePath_def Let_def by (intro keeps_rules)
qed

section \<open>How an attempt ends\<close>

text \<open>A job in IMPORTING with its active candidate, in a quiet world.\<close>

definition importing :: "album_job \<Rightarrow> candidate \<Rightarrow> 'n world \<Rightarrow> bool" where
  "importing job c w \<longleftrightarrow> w_Turns w = [] \<and> wf_db (w_DB w) \<and> c \<in> set (candidates (w_DB w)) \<and> active c
     \<and> cand_Job c = job_ID job \<and> (\<exists>j \<in> set (jobs (w_DB w)). job_ID j = job_ID job \<and> job_State j = Importing)"

definition over :: "candidate \<Rightarrow> candidate_state \<Rightarrow> album_job \<Rightarrow> job_state \<Rightarrow> 'n world \<Rightarrow> bool" where
  "over c st job to w \<longleftrightarrow> w_Turns w = [] \<and> wf_db (w_DB w) \<and> ended c st job to (w_DB w)"

lemma keeps_over:
  assumes "\<And>v. keeps (undisturbed v) (m :: ('n world, 'a) state)"
  shows "keeps (over c st job to) m"
  unfolding keeps_def triple_def
proof (intro allI impI)
  fix w :: "'n world" assume "over c st job to w"
  with keepsD [OF assms [of w], of w] show "over c st job to (snd (run_state m w))"
    by (simp add: over_def undisturbed_def ended_def)
qed

lemma closes:
  assumes "importing job c v" and "st \<noteq> CActive" and "\<not> slot_state to"
    and op: "op = terminalCandidateAndAdvance ReleaseDir (cand_ID c) (job_ID job) st Importing to reason rule now"
  shows "triple (undisturbed v) (store_try op) (\<lambda>r w. r = Inr True \<and> over c st job to w)"
  unfolding triple_def
proof (intro allI impI)
  fix w assume w: "undisturbed v w"
  obtain j where j: "j \<in> set (jobs (w_DB w))" "job_ID j = job_ID job" "job_State j = Importing"
    using assms(1) w by (auto simp: importing_def undisturbed_def)
  have c: "c \<in> set (candidates (w_DB w))" "active c" "cand_Job c = job_ID job" and wf: "wf_db (w_DB w)"
    using assms(1) w by (auto simp: importing_def undisturbed_def)
  obtain s q where out: "op (w_DB w) = (s, q)" by (metis surj_pair)
  have "base_ok (w_DB w)" using wf by (simp add: wf_db_def)
  from terminal_ends [OF this c(1,2) j(1,3) assms(2) out [unfolded op, folded j(2)]]
  have "q = Inr True" "ended c st job to s" by (simp_all add: ended_def j(2))
  moreover have "knows (cand_ID c, job_ID job) (w_DB w)" using knows_member [OF wf c(1)] c(3) by simp
  then have "wf_db (fst (op (w_DB w)))"
    unfolding op using wf assms(2,3) by (intro wf_own_terminal) (auto simp: knows_def)
  ultimately show "fst (run_state (store_try op) w) = Inr True \<and> over c st job to (snd (run_state (store_try op) w))"
    using w out by (simp add: quiet_try undisturbed_def over_def)
qed

text \<open>The job of a rejected candidate, and of one that the same reason has rejected often enough.\<close>

definition capped :: "importing_params \<Rightarrow> album_job \<Rightarrow> string \<Rightarrow> db \<Rightarrow> bool" where
  "capped p job reason s \<longleftrightarrow> 0 < ip_MaxCandidates p
     \<and> ip_MaxCandidates p \<le> int (CountRejectionsByReason (job_ID job) reason s)"

lemma undisturbed_cap:
  "triple (undisturbed v) (repeatedRejectionCap p (job_ID job) reason)
     (\<lambda>x w. undisturbed v w \<and> x = capped p job reason (w_DB v))"
  by (auto simp: triple_def repeatedRejectionCap_def quiet_read undisturbed_def capped_def CountRejectionsByReason_def)

lemma failCandidate_closes:
  assumes i: "importing job c v"
  shows "triple (undisturbed v) (failCandidate tx b p job c reason fault now)
    (\<lambda>r w. r = Inr () \<and> over c CFailed job (if fault \<and> capped p job reason (w_DB v) then Parked else Selecting) w)"
proof -
  let ?to = "if fault \<and> capped p job reason (w_DB v) then Parked else Selecting"
  have cap: "triple (undisturbed v) (if fault then repeatedRejectionCap p (job_ID job) reason else return False)
      (\<lambda>x w. undisturbed v w \<and> x = (fault \<and> capped p job reason (w_DB v)))"
    by (cases fault) (auto intro: triple_weaken [OF undisturbed_cap] triple_return)
  have last: "triple (undisturbed v) (store_try (if fault
      then RejectCandidateAndAdvance ReleaseDir (cand_ID c) (job_ID job) reason Importing ?to now
      else FailCandidateAndAdvance ReleaseDir (cand_ID c) (job_ID job) reason Importing Selecting now))
      (\<lambda>r w. r = Inr True \<and> over c CFailed job ?to w)"
    by (cases fault) (auto simp: RejectCandidateAndAdvance_def FailCandidateAndAdvance_def intro!: closes [OF i])
  have park: "keeps (over c CFailed job to) (recordPark i' reason now)" for to i'
    by (rule keeps_over) (auto simp: recordPark_def intro!: keeps_rules)
  show ?thesis
    unfolding failCandidate_def
  proof (rule triple_keeps_bind [OF _ triple_keeps_bind [OF _ triple_bind [OF cap]]])
    show "triple (\<lambda>w. undisturbed v w \<and> x = (fault \<and> capped p job reason (w_DB v)))
      (store_try (if fault
         then RejectCandidateAndAdvance ReleaseDir (cand_ID c) (job_ID job) reason Importing (if x then Parked else Selecting) now
         else FailCandidateAndAdvance ReleaseDir (cand_ID c) (job_ID job) reason Importing Selecting now) \<bind>
       (\<lambda>r. case r of Inl e \<Rightarrow> return (Inl e) | Inr advanced \<Rightarrow>
          (if advanced \<and> x then recordPark (job_ID job) reason now else return ()) \<bind> (\<lambda>_. return (Inr ()))))
      (\<lambda>r w. r = Inr () \<and> over c CFailed job ?to w)" for x
      by (rule triple_pure, hypsubst, rule triple_bind [OF last], rule triple_pure)
        (auto intro!: triple_keeps_bind park keeps_return triple_return)
  qed (intro keeps_rules)+
qed

lemma refuseImport_closes:
  assumes i: "importing job c v"
  shows "triple (undisturbed v) (refuseImport tx p job c folder rejs now)
    (\<lambda>r w. r = Inr () \<and> over c CFailed job ImportRefused w)"
  unfolding refuseImport_def Let_def
  by (rule triple_keeps_bind, intro keeps_rules, rule triple_keeps_bind, intro keeps_rules,
      rule triple_bind, rule closes [OF i _ _ RejectCandidateAndAdvance_def], simp, simp, rule triple_pure)
    (auto intro!: triple_keeps_bind keeps_over triple_return keeps_rules)

lemma success_closes:
  assumes i: "importing job c v" and tidy: "\<And>u. keeps (undisturbed u) (tidy :: ('n, unit) prog)"
  shows "triple (undisturbed v) (do {
       s \<leftarrow> store_try (SucceedCandidateAndAdvance ReleaseDir (cand_ID c) (job_ID job) Importing Done now);
       case s of Inl e \<Rightarrow> return (Inl e) | Inr _ \<Rightarrow> do { _ \<leftarrow> tidy; return (Inr ()) } })
    (\<lambda>r w. r = Inr () \<and> over c CSucceeded job Done w)"
  by (rule triple_bind, rule closes [OF i _ _ SucceedCandidateAndAdvance_def], simp, simp, rule triple_pure)
    (auto intro!: triple_keeps_bind keeps_over triple_return tidy)

section \<open>The verdict on what Lidarr offers\<close>

text \<open>The smallest number of tracks that will do, if it can be found out.\<close>

definition tracks_needed :: "'n music \<Rightarrow> album_job \<Rightarrow> 'n \<Rightarrow> int option" where
  "tracks_needed mu job n =
     (if job_MinTracks job \<noteq> 0 then Some (job_MinTracks job)
      else case fst (mus_AlbumReleases mu (album_id job) n) of Inl e \<Rightarrow> None | Inr rels \<Rightarrow> Some (fst (trackBand rels)))"

text \<open>Where the attempt ends, or that it goes on to be imported.\<close>

definition verdict ::
  "importing_params \<Rightarrow> album_job \<Rightarrow> import_item list \<Rightarrow> bool \<Rightarrow> int \<Rightarrow> db \<Rightarrow> (candidate_state \<times> job_state) option" where
  "verdict p job items full needed s =
     (let matched = filter matched_item items;
          rejs = concat (map ii_Rejections (filter (\<lambda>it. \<not> matched_item it) items));
          again = (\<lambda>reason. Some (CFailed, if capped p job reason s then Parked else Selecting))
      in if matched = [] then
           if full then Some (CSucceeded, Done)
           else if AnyPermanent rejs then Some (CFailed, ImportRefused)
           else again ReasonImportRejected
         else if int (coverage matched) < needed then again ReasonIncompleteDownload
         else None)"

definition submitted :: "candidate \<Rightarrow> ts \<Rightarrow> db \<Rightarrow> bool" where
  "submitted c now s \<longleftrightarrow> (\<forall>d \<in> set (candidates s). cand_ID d = cand_ID c \<longrightarrow>
     active d \<and> cand_ImportSubmitted d = Some now)"

lemma nothing_importable_closes:
  assumes i: "importing job c v" and at: "w_Net v = n"
  shows "triple (\<lambda>w. undisturbed v w \<and> w_Net w = n) (nothing_importable tx b mu p job c folder rejs now)
    (\<lambda>r w. r = Inr () \<and> (if says_complete mu (album_id job) n then over c CSucceeded job Done w
       else if AnyPermanent rejs then over c CFailed job ImportRefused w
       else over c CFailed job (if capped p job ReasonImportRejected (w_DB v) then Parked else Selecting) w))"
proof -
  let ?yes = "says_complete mu (album_id job) n"
  have ask: "triple (\<lambda>w. undisturbed v w \<and> w_Net w = n) (albumAlreadyComplete mu job)
      (\<lambda>a w. undisturbed v w \<and> (a = Inr True) = ?yes)"
    unfolding triple_def
  proof (intro allI impI)
    fix w :: "'a world" assume w: "undisturbed v w \<and> w_Net w = n"
    show "undisturbed v (snd (run_state (albumAlreadyComplete mu job) w)) \<and>
        (fst (run_state (albumAlreadyComplete mu job) w) = Inr True) = ?yes"
      by (rule already_complete_run [of mu job w]) (use w in auto)
  qed
  have yes: "triple (undisturbed v) (do {
       _ \<leftarrow> AddJobEvent_best (job_ID job) EventAttemptSucceeded detail now;
       s \<leftarrow> store_try (SucceedCandidateAndAdvance ReleaseDir (cand_ID c) (job_ID job) Importing Done now);
       case s of
         Inl e \<Rightarrow> return (Inl e)
       | Inr _ \<Rightarrow> do {
           _ \<leftarrow> cleanupFolder tx b (job_ID job) now;
           return (Inr ()) } }) (\<lambda>r w. r = Inr () \<and> over c CSucceeded job Done w)" for detail
    by (intro triple_keeps_bind success_closes [OF i] keeps_rules)
  have no: "triple (undisturbed v) (do {
       _ \<leftarrow> AddJobEvent_best (job_ID job) EventImportRejected detail now;
       failCandidate tx b p job c ReasonImportRejected True now })
     (\<lambda>r w. r = Inr () \<and> over c CFailed job (if capped p job ReasonImportRejected (w_DB v) then Parked else Selecting) w)"
    for detail
    by (rule triple_keeps_bind, intro keeps_rules) (use failCandidate_closes [OF i, where fault = True] in simp)
  show ?thesis
    unfolding nothing_importable_def
  proof (rule triple_bind [OF ask], rule triple_pure, goal_cases)
    case (1 x)
    consider "?yes" "x = Inr True" | "\<not> ?yes" "x \<noteq> Inr True" "AnyPermanent rejs"
      | "\<not> ?yes" "x \<noteq> Inr True" "\<not> AnyPermanent rejs"
      using 1 by blast
    then show ?case
      by cases (simp_all only: if_True if_False simp_thms yes no refuseImport_closes [OF i])
  qed
qed

lemma submit_submits:
  assumes i: "importing job c v" and ok: "\<And>n. fst (mus_ExecuteManualImport mu items n) = Inr ()"
  shows "triple (undisturbed v) (submit mu job c items now)
    (\<lambda>r w. r = Inr () \<and> submitted c now (w_DB w) \<and> jobs (w_DB w) = jobs (w_DB v))"
proof -
  have c: "c \<in> set (candidates (w_DB w))" "active c" "base_ok (w_DB w)" if "undisturbed v w" for w :: "'a world"
    using that i by (auto simp: undisturbed_def importing_def wf_db_def)
  have ask: "triple (undisturbed v) (music_call (mus_ExecuteManualImport mu items) [CallImport items])
      (\<lambda>r w. r = Inr () \<and> undisturbed v w)"
    by (auto simp: triple_def music_run ok)
  have mark: "triple (undisturbed v) (store_write (MarkImportSubmitted (cand_ID c) now))
      (\<lambda>r w. submitted c now (w_DB w) \<and> jobs (w_DB w) = jobs (w_DB v))"
    unfolding triple_def
  proof (intro allI impI)
    fix w :: "'a world" assume w: "undisturbed v w"
    have one: "cand_State d = CActive" if "d \<in> set (candidates (w_DB w))" "cand_ID d = cand_ID c" for d
      using candidate_unique [OF c(3) [OF w] that(1) c(1) [OF w] that(2)] c(2) [OF w] by (simp add: active_def)
    have "w_Turns w = []" "jobs (w_DB w) = jobs (w_DB v)" using w by (simp_all add: undisturbed_def)
    then show "submitted c now (w_DB (snd (run_state (store_write (MarkImportSubmitted (cand_ID c) now)) w)))
        \<and> jobs (w_DB (snd (run_state (store_write (MarkImportSubmitted (cand_ID c) now)) w))) = jobs (w_DB v)"
      by (auto simp: quiet_write submitted_def MarkImportSubmitted_def row_update_def active_def dest: one)
  qed
  show ?thesis
    unfolding submit_def
    by (rule triple_bind [OF ask], rule triple_pure)
      (auto intro!: triple_keeps_bind keeps_rules triple_bind [OF mark] triple_return)
qed

lemma judge_preview_verdict:
  assumes i: "importing job c v" and some: "items \<noteq> []"
    and needed: "tracks_needed mu job (w_Net v) = Some needed"
    and ok: "\<And>n. fst (mus_ExecuteManualImport mu (filter matched_item items) n) = Inr ()"
    and run: "run_state (judge_preview tx b mu p job c folder items k removed now) v = (r, w)"
  shows "r = Inr () \<and> (case verdict p job items (says_complete mu (album_id job) (w_Net v)) needed (w_DB v) of
      Some (st, to) \<Rightarrow> ended c st job to (w_DB w)
    | None \<Rightarrow> submitted c now (w_DB w) \<and> jobs (w_DB w) = jobs (w_DB v))"
proof -
  let ?m = "filter matched_item items"
  let ?rejs = "concat (map ii_Rejections (filter (\<lambda>it. \<not> matched_item it) items))"
  have start: "undisturbed v v" using i by (simp add: importing_def undisturbed_refl)
  show ?thesis
  proof (cases "?m = []")
    case True
    then have "run_state (nothing_importable tx b mu p job c folder ?rejs now) v = (r, w)"
      using run some by (simp add: judge_preview_def Let_def)
    with tripleD [OF nothing_importable_closes [OF i refl], of v tx b mu p folder ?rejs now] start True
    show ?thesis by (auto simp: verdict_def Let_def over_def split: if_splits)
  next
    case False
    let ?d = "\<lparr>iv_downloaded = k, iv_dedupRemoved = removed, iv_offered = length items,
      iv_unmatched = length items - length ?m, iv_rootScan = (folder = ip_CompleteDir p)\<rparr>"
    have gate: "run_state (coverage_gate tx b mu p job c folder ?m ?d now) v = (r, w)"
      using run some False by (simp add: judge_preview_def Let_def)
    obtain u where ask: "run_state (required_tracks mu job) v = (Inr needed, u)" and u: "undisturbed v u" "w_DB u = w_DB v"
    proof
      show "run_state (required_tracks mu job) v = (Inr needed, snd (run_state (required_tracks mu job) v))"
        using needed by (auto simp: required_tracks_def tracks_needed_def music_run split: sum.splits if_splits)
      show "undisturbed v (snd (run_state (required_tracks mu job) v))" "w_DB (snd (run_state (required_tracks mu job) v)) = w_DB v"
        using start by (auto simp: required_tracks_def music_run)
    qed
    show ?thesis
    proof (cases "int (coverage ?m) < needed")
      case True
      obtain detail where "run_state (do {
          _ \<leftarrow> AddJobEvent_best (job_ID job) EventImportRejected detail now;
          failCandidate tx b p job c ReasonIncompleteDownload True now }) u = (r, w)"
        using gate ask True by (auto simp: coverage_gate_def)
      moreover have "triple (undisturbed v) (do {
          _ \<leftarrow> AddJobEvent_best (job_ID job) EventImportRejected detail now;
          failCandidate tx b p job c ReasonIncompleteDownload True now })
        (\<lambda>r w. r = Inr () \<and> over c CFailed job
          (if True \<and> capped p job ReasonIncompleteDownload (w_DB v) then Parked else Selecting) w)"
        by (rule triple_keeps_bind, intro keeps_rules) (rule failCandidate_closes [OF i])
      ultimately show ?thesis
        using tripleD [of "undisturbed v", OF _ u(1)] True False by (fastforce simp: verdict_def over_def)
    next
      case enough: False
      then have "run_state (submit mu job c ?m now) u = (r, w)"
        using gate ask by (simp add: coverage_gate_def)
      with tripleD [OF submit_submits [OF i ok, where now = now] u(1)] enough False
      show ?thesis by (auto simp: verdict_def Let_def)
    qed
  qed
qed

section \<open>Waiting for the import\<close>

lemma confirm_outcome:
  assumes i: "importing job c v" and run: "run_state (confirm tx mu p job c since now) v = (r, w)"
  shows "r = Inr () \<and>
    (if says_complete mu (album_id job) (w_Net v) then ended c CSucceeded job Done (w_DB w)
     else if now - since > ip_ConfirmTimeout p then ended c CFailed job Selecting (w_DB w)
     else w_DB w = w_DB v)
    \<and> only_calls (\<lambda>k. False) v w"
proof -
  have start: "undisturbed v v" using i by (simp add: importing_def undisturbed_refl)
  let ?a = "mus_AlbumStatus mu (album_id job) (w_Net v)"
  let ?u = "v\<lparr>w_Net := snd ?a\<rparr>"
  have u: "undisturbed v ?u" using start by simp
  have fail: "triple (undisturbed v) (failUnconfirmed job c detail now) (\<lambda>r w. r = Inr () \<and> over c CFailed job Selecting w)" for detail
    unfolding failUnconfirmed_def
    by (rule triple_keeps_bind, intro keeps_rules, rule triple_keeps_bind, intro keeps_rules,
        rule triple_bind, rule closes [OF i _ _ RejectCandidateAndAdvance_def], simp, simp, rule triple_pure)
      (auto intro!: triple_return)
  have fine: "triple (undisturbed v) (confirmed tx p job c present all now) (\<lambda>r w. r = Inr () \<and> over c CSucceeded job Done w)"
    for present all
    unfolding confirmed_def by (intro triple_keeps_bind success_closes [OF i] keeps_rules)
  have "keeps (only_calls (\<lambda>k. False) v) (confirm tx mu p job c since now)"
    unfolding confirm_def confirmed_def Let_def by (intro keeps_rules)
  from keepsD [OF this only_calls_start] run have "only_calls (\<lambda>k. False) v w" by simp
  moreover have "r = Inr () \<and> ended c CFailed job Selecting (w_DB w)"
    if "run_state (failUnconfirmed job c detail now) ?u = (r, w)" for detail
    using tripleD [OF fail u, of detail] that by (simp add: over_def)
  moreover have "r = Inr () \<and> ended c CSucceeded job Done (w_DB w)"
    if "run_state (confirmed tx p job c present all now) ?u = (r, w)" for present all
    using tripleD [OF fine u, of present all] that by (simp add: over_def)
  ultimately show ?thesis
    using run by (cases "fst ?a") (auto simp: confirm_def music_run says_complete_def Let_def split: if_splits)
qed

end
