(* ===== verification/RefusedFolders.thy ===== *)
theory RefusedFolders
  imports ImportingFacts
begin

text \<open>
  A folder that Lidarr refused is moved into a quarantine and moved back when the job is retried: the
  two moves undo each other.
\<close>

section \<open>The last element of a path\<close>

definition plain_name :: "string \<Rightarrow> bool" where
  "plain_name x \<longleftrightarrow> x \<noteq> [] \<and> x \<noteq> ''.'' \<and> x \<noteq> ''..'' \<and> CHR ''/'' \<notin> set x"

lemma leaf_plain: "validDownloadLeaf leaf \<Longrightarrow> plain_name leaf"
  by (auto simp: validDownloadLeaf_def plain_name_def list_ex_iff)

lemma split_on_plain: "c \<notin> set s \<Longrightarrow> split_on c acc s = [acc @ s]"
  by (induction s arbitrary: acc) auto

lemma split_on_append: "split_on c acc (s @ c # t) = split_on c acc s @ split_on c [] t"
  by (induction s arbitrary: acc) auto

lemma clean_elements_snoc:
  "plain_name x \<Longrightarrow> clean_elements r out (es @ [x]) = clean_elements r out es @ [x]"
  by (induction r out es rule: clean_elements.induct) (auto simp: plain_name_def split: list.split)

lemma Join_snoc: "Join sep (xs @ [x]) = (if xs = [] then x else Join sep xs @ sep @ x)"
  by (cases xs) (simp_all add: Join_def)

lemma after_slash_plain: "CHR ''/'' \<notin> set x \<Longrightarrow> after_slash x = x"
proof -
  assume "CHR ''/'' \<notin> set x"
  then have "takeWhile (\<lambda>c. c \<noteq> CHR ''/'') (rev x) = rev x"
    by (subst takeWhile_eq_all_conv) auto
  then show ?thesis by (simp only: after_slash_def rev_rev_ident)
qed

lemma after_slash_append: "CHR ''/'' \<notin> set x \<Longrightarrow> after_slash (s @ ''/'' @ x) = x"
proof -
  assume "CHR ''/'' \<notin> set x"
  then have "takeWhile (\<lambda>c. c \<noteq> CHR ''/'') (rev x @ CHR ''/'' # rev s) = rev x"
    by (subst takeWhile_append2) auto
  then show ?thesis by (simp add: after_slash_def)
qed

lemma Clean_plain_end:
  assumes "plain_name x"
  shows "\<exists>s. Clean (p @ ''/'' @ x) = x \<or> Clean (p @ ''/'' @ x) = s @ ''/'' @ x"
proof -
  let ?r = "HasPrefix (p @ ''/'' @ x) ''/''"
  let ?els = "clean_elements ?r [] (split_on (CHR ''/'') [] p)"
  have "split_on (CHR ''/'') [] (p @ ''/'' @ x) = split_on (CHR ''/'') [] p @ [x]"
    using assms by (simp add: split_on_append split_on_plain plain_name_def)
  moreover have "Join ''/'' (?els @ [x]) \<noteq> []"
    using assms by (simp add: Join_snoc plain_name_def)
  ultimately have "Clean (p @ ''/'' @ x) = (if ?r then ''/'' else []) @ Join ''/'' (?els @ [x])"
    by (simp only: Clean_def Let_def clean_elements_snoc [OF assms]) simp
  also have "\<dots> = (if ?els = [] then (if ?r then [] @ ''/'' @ x else x)
      else ((if ?r then ''/'' else []) @ Join ''/'' ?els) @ ''/'' @ x)"
    by (simp add: Join_snoc)
  finally show ?thesis by (metis (full_types))
qed

lemma Base_join:
  assumes "plain_name x"
  shows "Base (path_Join dir x) = x"
proof -
  have "x \<noteq> []" "last x \<noteq> CHR ''/''"
    using assms last_in_set [of x] by (metis plain_name_def)+
  then have strip: "rev (dropWhile (\<lambda>c. c = CHR ''/'') (rev (s @ x))) = s @ x" for s
    by (cases x rule: rev_cases) auto
  have base: "Base (s @ x) = after_slash (s @ x)" for s
    using strip [of s] \<open>x \<noteq> []\<close> by (simp add: Base_def Let_def)
  have slash: "CHR ''/'' \<notin> set x" using assms by (simp add: plain_name_def)
  show ?thesis
  proof (cases "dir = []")
    case True
    have "split_on (CHR ''/'') [] x = [x]" using slash by (simp add: split_on_plain)
    moreover have "clean_elements r [] [x] = [x]" for r
      using clean_elements_snoc [OF assms, of r "[]" "[]"] by simp
    moreover have "\<not> HasPrefix x ''/''" using slash by (cases x) (auto simp: HasPrefix_def)
    ultimately have "path_Join dir x = x"
      using True \<open>x \<noteq> []\<close> by (simp add: path_Join_def Clean_def Join_def)
    then show ?thesis using base [of "[]"] after_slash_plain [OF slash] by simp
  next
    case False
    then have "path_Join dir x = Clean (dir @ ''/'' @ x)" using \<open>x \<noteq> []\<close> by (simp add: path_Join_def)
    with Clean_plain_end [OF assms, of dir] obtain s where "path_Join dir x = x \<or> path_Join dir x = (s @ ''/'') @ x"
      by auto
    then show ?thesis
      using base [of "[]"] base [of "s @ ''/''"] after_slash_plain [OF slash] after_slash_append [OF slash, of s] by auto
  qed
qed

section \<open>There and back\<close>

lemma quiet_read_os: "w_Faults w = [] \<Longrightarrow> run_state (os_read q) w = (q (w_Files w), w)"
  by (cases w) (simp add: os_read_def os_call_def)

lemma quiet_write_os:
  "w_Faults w = [] \<Longrightarrow> run_state (os_write f) w =
     (case f (w_Files w) of Inl e \<Rightarrow> (Inl e, w) | Inr t \<Rightarrow> (Inr (), w\<lparr>w_Files := t\<rparr>))"
  by (cases w) (simp add: os_write_def os_call_def split: sum.split)

text \<open>A move to a free place, and the way back.\<close>

lemma moves_back:
  assumes ok: "tree_ok t" and there: "node_at t src = Some n" and src: "src \<noteq> []"
    and free: "node_at t dst = None" and out: "\<not> below src dst"
    and room: "node_at t (butlast dst) = Some Directory"
    and t': "t' = map (move_entry src dst) t"
  shows "node_at t' src = None" "node_at t' dst = Some n" "node_at t' (butlast src) = Some Directory" "\<not> below dst src"
    "map (move_entry dst src) t' = t"
proof -
  have apart: "\<not> below dst src"
  proof
    assume "below dst src"
    then obtain q where "src = dst @ q" by (auto simp: below_iff)
    with above_exists [OF ok, of dst q n] there free show False by simp
  qed
  have clear: "\<not> below dst p" if "(p, m) \<in> set t" for p m
  proof
    assume "below dst p"
    then obtain q where "p = dst @ q" by (auto simp: below_iff)
    moreover have "p \<noteq> []" using that ok by (force simp: tree_ok_def)
    ultimately have "node_at t (dst @ q) = Some m" using that node_at_member [OF ok, of p m] by simp
    from above_exists [OF ok this] free show False by simp
  qed
  have ok': "tree_ok t'"
    unfolding t' move_relocate using move_ok [OF ok free room out src] .
  show "node_at t' src = None"
  proof -
    have "relocate src dst p \<noteq> src" if "(p, m) \<in> set t" for p m
      using clear [OF that] apart by (cases "below src p") (auto simp: below_iff relocate_other)
    then have "src \<notin> fst ` set t'" by (fastforce simp: t' move_relocate)
    with src show ?thesis by (simp add: node_at_None)
  qed
  have at: "node_at t' (relocate src dst p) = Some m" if "(p, m) \<in> set t" for p m
  proof -
    have "(relocate src dst p, m) \<in> set t'" using that by (force simp: t' move_relocate)
    moreover from this have "relocate src dst p \<noteq> []" using ok' by (force simp: tree_ok_def)
    ultimately show ?thesis using node_at_member [OF ok'] by blast
  qed
  have in_t: "(src, n) \<in> set t" using there src node_at_member [OF ok src] by simp
  from at [OF this] show "node_at t' dst = Some n" by simp
  show "node_at t' (butlast src) = Some Directory"
  proof (cases "butlast src = []")
    case False
    have "node_at t (butlast src) = Some Directory" using tree_okD [OF ok in_t] .
    then have "(butlast src, Directory) \<in> set t" using node_at_member [OF ok False] by simp
    from at [OF this] show ?thesis
      using src relocate_other [of src "butlast src" dst] by (cases src rule: rev_cases) (auto simp: below_iff)
  qed (simp add: node_at_def)
  show "\<not> below dst src" by (rule apart)
  show "map (move_entry dst src) t' = t"
  proof -
    have "move_entry dst src (move_entry src dst e) = e" if "e \<in> set t" for e
    proof (cases "below src (fst e)")
      case True
      then obtain q where "fst e = src @ q" by (auto simp: below_iff)
      then show ?thesis by (cases e) (simp add: move_entry_def)
    next
      case False
      then have "move_entry src dst e = e" by (simp add: move_entry_def below_def)
      moreover have "\<not> below dst (fst e)" using clear [of "fst e" "snd e"] that by simp
      ultimately show ?thesis by (simp add: move_entry_def below_def)
    qed
    then show ?thesis unfolding t' map_map by (intro map_idI) simp
  qed
qed

lemma refused_comes_back:
  assumes ok: "tree_ok (w_Files w)" and still: "w_Faults w = []" and leaf: "validDownloadLeaf leaf"
    and go: "run_state (quarantineFolder tx i dir leaf refusedDirName) w
      = (Some (path_Join (path_Join dir refusedDirName) leaf), v)"
    and ret: "run_state (restoreRefusedFolder i dir (path_Join dir leaf)) v = (x, u)"
  shows "regular_files (w_Files u) = regular_files (w_Files w) \<and> set (w_Files w) \<subseteq> set (w_Files u)"
proof -
  let ?src = "path_Join dir leaf" and ?root = "path_Join dir refusedDirName"
  let ?dst = "path_Join ?root leaf"
  have guards: "dir \<noteq> []" "\<not> isQuarantineDir leaf" "Clean ?src \<noteq> Clean dir"
    using go by (auto simp: quarantineFolder_def Let_def split: if_splits)
  obtain n t1 where there: "os_Stat ?src (w_Files w) = Inr n" and made: "os_MkdirAll ?root (w_Files w) = Inr t1"
    and free: "os_Stat ?dst t1 = Inl NotExist" and moved: "os_Rename ?src ?dst t1 = Inr (w_Files v)"
    and v: "w_Faults v = []"
  proof -
    have *: "run_state (freeQuarantinePath tx ?root leaf i) (w\<lparr>w_Files := t\<rparr>) = (Some d, w') \<Longrightarrow>
        w' = w\<lparr>w_Files := t\<rparr> \<and> os_Stat d t = Inl NotExist" for t d w'
      using still
      by (auto simp: freeQuarantinePath_def quarantine_names_def quiet_read_os Let_def split: if_splits)
    from go guards that show thesis
      by (auto simp: quarantineFolder_def Let_def quiet_read_os quiet_write_os still
          split: if_splits sum.splits option.splits prod.splits dest!: *)
  qed
  note dirs = MkdirAll_ok [OF ok made]
  have n: "node_at (w_Files w) (elements ?src) = Some n" using there by (simp add: os_Stat_def split: option.splits)
  have none: "node_at t1 (elements ?dst) = None" using free by (simp add: os_Stat_def split: option.splits)
  have mv: "w_Files v = map (move_entry (elements ?src) (elements ?dst)) t1" "elements ?src \<noteq> []"
    "\<not> below (elements ?src) (elements ?dst)" "node_at t1 (butlast (elements ?dst)) = Some Directory"
    using moved none by (auto simp: os_Rename_def Let_def split: option.splits if_splits)
  have n1: "node_at t1 (elements ?src) = Some n"
    using n dirs node_at_member [OF ok mv(2)] node_at_member [OF dirs(1) mv(2)] by blast
  note b = moves_back [OF dirs(1) n1 mv(2) none mv(3,4,1)]
  have base: "Base ?src = leaf" by (rule Base_join [OF leaf_plain [OF leaf]])
  have "w_Files u = t1"
  proof -
    have "os_Stat ?src (w_Files v) = Inl NotExist" "os_Stat ?dst (w_Files v) = Inr n"
      using b(1,2) by (simp_all add: os_Stat_def)
    moreover have "os_Rename ?dst ?src (w_Files v) = Inr t1"
      using b mv(2) none by (auto simp: os_Rename_def Let_def node_at_def)
    ultimately show ?thesis
      using ret v guards base
      by (auto simp: restoreRefusedFolder_def refusedQuarantineSource_def quiet_read_os quiet_write_os split: if_splits)
  qed
  with dirs show ?thesis by simp
qed

end
