(* ===== verification/Discovery.thy ===== *)
theory Discovery
  imports Importing Relevance
begin

text \<open>
  The module \<open>Discovery\<close> (\<open>internal/pipeline/discovery.go\<close>): one search for one wanted album, its results
  ranked and sifted, and the survivors cached for the selection. The counters of \<open>DiscoveryMetrics\<close> and
  the log are left out.
\<close>

record discovery_params =
  ds_MaxCandidates :: int
  ds_MaxRetries :: int
  ds_BackoffBase :: duration
  ds_BackoffCap :: duration
  ds_Unicode :: unicode
  ds_Rank :: "search_result list \<Rightarrow> (string \<rightharpoonup> peer_reliability) \<Rightarrow> ts \<Rightarrow> ranked_candidate list"

text \<open>Whether the search ran to one of its two conclusions, and whether the job is now to be selected for.\<close>

type_synonym 'n searched = "('n, bool \<times> bool) fallible"

section \<open>The search\<close>

definition emptySearchRewriteThreshold :: int where
  "emptySearchRewriteThreshold = 2"

text \<open>The query that was asked last, and its results, or none because the server excludes the query.\<close>

definition ask :: "'n backend \<Rightarrow> string \<Rightarrow> ('n, string \<times> search_result list option) fallible" where
  "ask b query = do {
     r \<leftarrow> Search b query;
     return (case r of
         Inl e \<Rightarrow> if e = ErrBackend ErrSearchExcluded then Inr (query, None) else Inl e
       | Inr results \<Rightarrow> Inr (query, Some results)) }"

definition ask_again ::
  "'n backend \<Rightarrow> album_job \<Rightarrow> string \<Rightarrow> string \<Rightarrow> ts \<Rightarrow> ('n, string \<times> search_result list option) fallible" where
  "ask_again b job detail query now = do {
     _ \<leftarrow> AddJobEvent_best (job_ID job) EventSearchFallback detail now;
     ask b query }"

definition ask_normalized ::
  "texts \<Rightarrow> 'n backend \<Rightarrow> album_job \<Rightarrow> string \<Rightarrow> ts \<Rightarrow> ('n, string \<times> search_result list option) fallible" where
  "ask_normalized tx b job query now =
     (let fallback = NormalizeQuery query
      in if fallback \<noteq> [] \<and> fallback \<noteq> query
         then ask_again b job (''primary search empty, trying normalized query '' @ tx_Quote tx fallback) fallback now
         else return (Inr (query, Some [])))"

definition ask_dropped ::
  "texts \<Rightarrow> 'n backend \<Rightarrow> album_job \<Rightarrow> wanted_release \<Rightarrow> string \<Rightarrow> ts
     \<Rightarrow> ('n, string \<times> search_result list option) fallible" where
  "ask_dropped tx b job album query now =
     (if job_EmptySearches job < emptySearchRewriteThreshold then return (Inr (query, Some []))
      else let rewrite = DropTokenQuery (wr_ArtistName album) (wr_Title album)
                 (job_EmptySearches job - emptySearchRewriteThreshold)
           in if rewrite \<noteq> [] \<and> rewrite \<noteq> query
              then ask_again b job (''search still empty after '' @ decimal_int (job_EmptySearches job)
                     @ '' empty cycles, trying token-dropped query '' @ tx_Quote tx rewrite) rewrite now
              else return (Inr (query, Some [])))"

text \<open>Every further query is asked only while there was no result at all.\<close>

definition if_empty ::
  "(string \<Rightarrow> ('n, string \<times> search_result list option) fallible)
     \<Rightarrow> run_error + string \<times> search_result list option \<Rightarrow> ('n, string \<times> search_result list option) fallible" where
  "if_empty next r = (case r of Inr (query, Some []) \<Rightarrow> next query | _ \<Rightarrow> return r)"

definition ask_all ::
  "texts \<Rightarrow> 'n backend \<Rightarrow> album_job \<Rightarrow> wanted_release \<Rightarrow> ts \<Rightarrow> ('n, string \<times> search_result list option) fallible" where
  "ask_all tx b job album now = do {
     r \<leftarrow> ask b (wr_ArtistName album @ '' '' @ wr_Title album);
     r \<leftarrow> if_empty (\<lambda>query. ask_normalized tx b job query now) r;
     if_empty (\<lambda>query. ask_dropped tx b job album query now) r }"

definition failExcludedSearch ::
  "texts \<Rightarrow> discovery_params \<Rightarrow> album_job \<Rightarrow> string \<Rightarrow> ts \<Rightarrow> 'n searched" where
  "failExcludedSearch tx p job query now =
     (let detail = ''search excluded by server phrase list: query='' @ tx_Quote tx query @ '': ''
            @ tx_Error tx (ErrBackend ErrSearchExcluded)
      in do {
        _ \<leftarrow> AddJobEvent_best (job_ID job) EventSearchExcluded detail now;
        r \<leftarrow> fail_or_backoff job 0 (ds_BackoffBase p) (ds_BackoffCap p) False detail now;
        return (case r of Inl e \<Rightarrow> Inl e | Inr _ \<Rightarrow> Inr (True, False)) })"

section \<open>The sieve\<close>

definition candidateKeyOf :: "ranked_candidate \<Rightarrow> (string \<times> string) option" where
  "candidateKeyOf c =
     (case rk_Files c of [] \<Rightarrow> None | f # fs \<Rightarrow> Some (rk_Username c, ReleaseDir (sr_Filename f)))"

definition newCandidateFrom :: "ranked_candidate \<Rightarrow> new_candidate" where
  "newCandidateFrom c =
     \<lparr>nc_Username = rk_Username c, nc_Score = rk_Score c,
      nc_Files = map (\<lambda>f. \<lparr>cf_Filename = sr_Filename f, cf_Size = sr_Size f\<rparr>) (rk_Files c),
      nc_LastResort = rk_LastResort c\<rparr>"

definition uniqueUsernames :: "search_result list \<Rightarrow> string list" where
  "uniqueUsernames results = rev (remdups (rev (map sr_Username results)))"

datatype sifted_out = AlreadyFailed | TooManyTracks | TooFewTracks | Irrelevant

definition verdict_on ::
  "unicode \<Rightarrow> wanted_release \<Rightarrow> string list \<Rightarrow> int \<times> int \<Rightarrow> (string \<times> string) set \<Rightarrow> ranked_candidate
     \<Rightarrow> sifted_out option" where
  "verdict_on u album titles band rejected c =
     (let n = int (length (rk_Files c))
      in if \<exists>k \<in> rejected. candidateKeyOf c = Some k then Some AlreadyFailed
         else if snd band > 0 \<and> n > snd band then Some TooManyTracks
         else if fst band > 0 \<and> n < fst band then Some TooFewTracks
         else if \<not> fst (CheckRelevance u \<lparr>ri_ArtistName = wr_ArtistName album, ri_AlbumTitle = wr_Title album,
                      ri_TrackTitles = titles, ri_Files = map sr_Filename (rk_Files c)\<rparr>) then Some Irrelevant
         else None)"

fun sift ::
  "int \<Rightarrow> (ranked_candidate \<Rightarrow> sifted_out option) \<Rightarrow> ranked_candidate list \<Rightarrow> ranked_candidate list
     \<Rightarrow> sifted_out list \<Rightarrow> ranked_candidate list \<times> sifted_out list" where
  "sift cap judge [] survivors out = (survivors, out)"
| "sift cap judge (c # cs) survivors out =
     (if int (length survivors) \<ge> cap then (survivors, out)
      else case judge c of
             None \<Rightarrow> sift cap judge cs (survivors @ [c]) out
           | Some why \<Rightarrow> sift cap judge cs survivors (out @ [why]))"

definition rejected_detail :: "sifted_out list \<Rightarrow> string" where
  "rejected_detail out =
     ''rejected '' @ decimal (length out) @ '' candidates: ''
     @ decimal (count_list out TooManyTracks) @ '' above maximum track count, ''
     @ decimal (count_list out TooFewTracks) @ '' below minimum track count, ''
     @ decimal (count_list out Irrelevant) @ '' not matching the requested album, ''
     @ decimal (count_list out AlreadyFailed) @ '' already failed for this job''"

section \<open>What follows from the results\<close>

definition no_survivors ::
  "discovery_params \<Rightarrow> album_job \<Rightarrow> search_result list \<Rightarrow> ts \<Rightarrow> 'n searched" where
  "no_survivors p job results now =
     (if results = [] then
        (let empty = job_EmptySearches job + 1
         in do {
           r \<leftarrow> store_write (SetJobEmptySearchBackoff (job_ID job) empty
                  (now + sint (nextBackoff empty (ds_BackoffBase p) (ds_BackoffCap p))) now);
           return (case r of Inl e \<Rightarrow> Inl e | Inr _ \<Rightarrow> Inr (True, False)) })
      else do {
        r \<leftarrow> fail_or_backoff job (ds_MaxRetries p) (ds_BackoffBase p) (ds_BackoffCap p) False
               (''no viable candidates: all '' @ decimal (length results) @ '' search results rejected by filtering'') now;
        return (case r of Inl e \<Rightarrow> Inl e | Inr _ \<Rightarrow> Inr (True, False)) })"

definition insert_candidates ::
  "nat \<Rightarrow> new_candidate list \<Rightarrow> ts \<Rightarrow> db \<Rightarrow> db \<times> (store_error + unit)" where
  "insert_candidates jobID cs now s =
     (case InsertCandidates jobID cs now s of Inl e \<Rightarrow> (s, Inl e) | Inr s' \<Rightarrow> (s', Inr ()))"

definition cache_survivors :: "album_job \<Rightarrow> ranked_candidate list \<Rightarrow> ts \<Rightarrow> 'n searched" where
  "cache_survivors job survivors now = do {
     i \<leftarrow> store_try (insert_candidates (job_ID job) (map newCandidateFrom survivors) now);
     case i of
       Inl e \<Rightarrow> return (Inl e)
     | Inr _ \<Rightarrow> do {
         a \<leftarrow> store_call (AdvanceJobStateFrom (job_ID job) Wanted Selecting now);
         return (case a of Inl e \<Rightarrow> Inl e | Inr advanced \<Rightarrow> Inr (True, advanced)) } }"

definition track_titles :: "'n music \<Rightarrow> album_job \<Rightarrow> ranked_candidate list \<Rightarrow> ('n, string list) prog" where
  "track_titles mu job ranked =
     (if ranked = [] then return []
      else do {
        t \<leftarrow> music_call (mus_AlbumTracks mu (album_id job)) [];
        return (case t of Inl e \<Rightarrow> [] | Inr titles \<Rightarrow> titles) })"

definition sift_results ::
  "discovery_params \<Rightarrow> 'n music \<Rightarrow> album_job \<Rightarrow> wanted_release \<Rightarrow> int \<times> int \<Rightarrow> search_result list
     \<Rightarrow> ranked_candidate list \<Rightarrow> ts \<Rightarrow> 'n searched" where
  "sift_results p mu job album band results ranked now = do {
     titles \<leftarrow> track_titles mu job ranked;
     r \<leftarrow> store_read (RejectedCandidates (job_ID job) now);
     case r of
       Inl e \<Rightarrow> return (Inl e)
     | Inr rows \<Rightarrow>
         let rejected = set (map (\<lambda>r. (rej_Username r, rej_Dir r)) rows);
             (survivors, out) = sift (ds_MaxCandidates p)
               (verdict_on (ds_Unicode p) album titles band rejected) ranked [] []
         in do {
           _ \<leftarrow> (if out \<noteq> [] then AddJobEvent_best (job_ID job) EventCandidateRejected (rejected_detail out) now
                else return ());
           if survivors = [] then no_survivors p job results now else cache_survivors job survivors now } }"

definition use_results ::
  "texts \<Rightarrow> discovery_params \<Rightarrow> 'n music \<Rightarrow> album_job \<Rightarrow> wanted_release \<Rightarrow> int \<times> int \<Rightarrow> string
     \<Rightarrow> search_result list \<Rightarrow> ts \<Rightarrow> 'n searched" where
  "use_results tx p mu job album band query results now = do {
     h \<leftarrow> history_read (\<lambda>h. ReliabilityFor (job_ArtistID job) (uniqueUsernames results) (ht_Reliability h));
     case h of
       Inl e \<Rightarrow> return (Inl e)
     | Inr rel \<Rightarrow>
         let ranked = ds_Rank p results rel now
         in do {
           _ \<leftarrow> AddJobEvent_best (job_ID job) EventSearch
             (''searched album, query='' @ tx_Quote tx query @ '' results='' @ decimal (length results)
              @ '' candidates='' @ decimal (length ranked)) now;
           sift_results p mu job album band results ranked now } }"

section \<open>The tick\<close>

definition fail_manual :: "album_job \<Rightarrow> ts \<Rightarrow> 'n searched" where
  "fail_manual job now = do {
     r \<leftarrow> store_write (MarkJobFailed (job_ID job) now);
     case r of
       Inl e \<Rightarrow> return (Inl e)
     | Inr _ \<Rightarrow> do {
         _ \<leftarrow> AddJobEvent_best (job_ID job) EventJobFailed
           ''manual job reached Discovery, failing rather than searching'' now;
         return (Inr (False, False)) } }"

definition wanted_snapshot :: "('n, int \<rightharpoonup> wanted_release) prog" where
  "wanted_snapshot = State (\<lambda>w. (w_Wanted w, w))"

definition searchJob ::
  "texts \<Rightarrow> 'n backend \<Rightarrow> 'n music \<Rightarrow> discovery_params \<Rightarrow> album_job \<Rightarrow> ts \<Rightarrow> 'n searched" where
  "searchJob tx b mu p job now =
     (if job_Source job = SourceManual then fail_manual job now
      else do {
        wanted \<leftarrow> wanted_snapshot;
        case wanted (album_id job) of
          None \<Rightarrow> return (Inr (False, False))
        | Some album \<Rightarrow> do {
            releases \<leftarrow> music_call (mus_AlbumReleases mu (album_id job)) [];
            case releases of
              Inl e \<Rightarrow> return (Inr (False, False))
            | Inr rels \<Rightarrow> do {
                s \<leftarrow> store_write (SetJobTrackBand (job_ID job) (fst (trackBand rels)) (snd (trackBand rels)));
                case s of
                  Inl e \<Rightarrow> return (Inl e)
                | Inr _ \<Rightarrow> do {
                    a \<leftarrow> ask_all tx b job album now;
                    case a of
                      Inl e \<Rightarrow> return (Inl e)
                    | Inr (query, None) \<Rightarrow> failExcludedSearch tx p job query now
                    | Inr (query, Some results) \<Rightarrow>
                        use_results tx p mu job album (trackBand rels) query results now } } } })"

definition search_pass_of :: "bool \<Rightarrow> ts \<Rightarrow> search_pass" where
  "search_pass_of matched now =
     \<lparr>sp_ID = 0, sp_StartedAt = now, sp_FinishedAt = now, sp_Searched = 1, sp_Matched = (if matched then 1 else 0)\<rparr>"

definition recordSearchPass :: "bool \<Rightarrow> ts \<Rightarrow> ('n, unit) prog" where
  "recordSearchPass matched now = do {
     _ \<leftarrow> history_write (\<lambda>h. h\<lparr>ht_Passes := RecordSearchPass (search_pass_of matched now) (ht_Passes h)\<rparr>);
     return () }"

definition Discovery_Tick ::
  "texts \<Rightarrow> 'n backend \<Rightarrow> 'n music \<Rightarrow> discovery_params \<Rightarrow> ts \<Rightarrow> ('n, unit) fallible" where
  "Discovery_Tick tx b mu p now = do {
     r \<leftarrow> store_read (RunnableJobsInState (tx_Less tx) Wanted now 1);
     case r of
       Inl e \<Rightarrow> return (Inl e)
     | Inr [] \<Rightarrow> return (Inr ())
     | Inr (job # js) \<Rightarrow> do {
         s \<leftarrow> searchJob tx b mu p job now;
         case s of
           Inl e \<Rightarrow> return (Inl e)
         | Inr (completed, matched) \<Rightarrow> do {
             _ \<leftarrow> (if completed then recordSearchPass matched now else return ());
             return (Inr ()) } } }"

section \<open>Every write is a step of the store\<close>

lemma keeps_asked [keeps_rules]:
  "keeps (runs_from r K) (ask b query)" "keeps (runs_from r K) (ask_again b job detail query now)"
  "keeps (runs_from r K) (ask_normalized tx b job query now)"
  "keeps (runs_from r K) (ask_dropped tx b job album query now)"
  unfolding ask_again_def ask_normalized_def ask_dropped_def ask_def Let_def by (intro keeps_rules)+

lemma keeps_if_empty [keeps_rules]: "(\<And>q. keeps I (f q)) \<Longrightarrow> keeps I (if_empty f a)"
  by (auto simp: if_empty_def intro!: keeps_rules split: sum.split option.split list.split)

lemma keeps_ask_all [keeps_rules]: "keeps (runs_from r K) (ask_all tx b job album now)"
  unfolding ask_all_def by (intro keeps_rules)

lemma keeps_search_ends [keeps_rules]:
  "keeps (runs_from r K) (failExcludedSearch tx p job query now)" "keeps (runs_from r K) (fail_manual job now)"
  "keeps (runs_from r K) (no_survivors p job results now)"
  unfolding failExcludedSearch_def fail_manual_def no_survivors_def Let_def
  by (intro keeps_rules keeps_write store_step.empty_backoff)+

lemma keeps_cache_survivors [keeps_rules]: "keeps (runs_from r K) (cache_survivors job survivors now)"
proof -
  have "store_steps s (fst (insert_candidates i cs now s))" for i cs s
    by (cases "InsertCandidates i cs now s")
      (auto simp: insert_candidates_def intro: store_steps_single store_step.insert_candidates)
  then have "keeps (runs_from r K) (store_try (insert_candidates i cs now))" for i cs
    unfolding store_try_def by (intro keeps_rules keeps_call)
  moreover have "keeps (runs_from r K) (store_call (AdvanceJobStateFrom i Wanted Selecting now))" for i
    by (intro keeps_call store_steps_single store_step.advance) (simp add: legal_advance_def)
  ultimately show ?thesis unfolding cache_survivors_def by (intro keeps_rules)
qed

lemma keeps_use_results [keeps_rules]:
  "keeps (runs_from r K) (use_results tx p mu job album band query results now)"
  unfolding use_results_def sift_results_def track_titles_def Let_def by (intro keeps_rules)

lemma keeps_wanted_snapshot [keeps_rules]: "keeps I wanted_snapshot"
  by (simp add: keeps_def triple_def wanted_snapshot_def)

lemma keeps_searchJob [keeps_rules]: "keeps (runs_from r K) (searchJob tx b mu p job now)"
proof -
  have "keeps (runs_from r K) (store_write (SetJobTrackBand i mn mx))" for i mn mx
    by (intro keeps_write store_step.track_band)
  then show ?thesis unfolding searchJob_def by (intro keeps_rules)
qed

lemma keeps_Discovery_Tick [keeps_rules]: "keeps (runs_from r K) (Discovery_Tick tx b mu p now)"
  unfolding Discovery_Tick_def recordSearchPass_def
  by (intro keeps_rules) (auto intro!: keeps_rules split: list.split)

end
