(* ===== verification/DiscoveryFacts.thy ===== *)
theory DiscoveryFacts
  imports Discovery ImportingFacts
begin

text \<open>
  What a search costs the network, and what becomes of the job: its survivors are the first candidates
  of the ranking that pass the sieve.
\<close>

section \<open>The searches of a tick\<close>

definition searched :: "'n world \<Rightarrow> nat \<Rightarrow> peer_call list \<Rightarrow> bool" where
  "searched v n cs \<longleftrightarrow> (\<exists>qs. cs = w_Calls v @ map CallSearch qs \<and> length qs \<le> n)"

lemma searched_mono: "searched v m cs \<Longrightarrow> m \<le> n \<Longrightarrow> searched v n cs"
  by (auto simp: searched_def)

lemma searched_more: "searched v n cs \<Longrightarrow> searched v (Suc n) (cs @ [CallSearch q])"
  by (auto simp: searched_def intro: exI [of _ "qs @ [q]" for qs])

lemma ask_searches: "triple (on_calls (searched v n)) (ask b q) (\<lambda>_. on_calls (searched v (Suc n)))"
  unfolding ask_def Search_def
  by (rule triple_bind [OF calls_made(1) [where R = "searched v (Suc n)"]]) (auto intro: searched_more triple_return)

lemma ask_again_searches:
  "triple (on_calls (searched v n)) (ask_again b job d q now) (\<lambda>_. on_calls (searched v (Suc n)))"
  unfolding ask_again_def by (rule triple_keeps_bind [OF _ ask_searches]) (intro keeps_rules)

lemma on_calls_more: "on_calls (searched v n) w \<Longrightarrow> on_calls (searched v (Suc n)) w"
  by (auto simp: on_calls_def intro: searched_mono)

lemma if_empty_searches:
  assumes "\<And>q. triple (on_calls (searched v n)) (f q) (\<lambda>_. on_calls (searched v (Suc n)))"
  shows "triple (on_calls (searched v n)) (if_empty f a) (\<lambda>_. on_calls (searched v (Suc n)))"
  unfolding if_empty_def
  by (auto split: sum.split option.split list.split intro: assms triple_return on_calls_more)

lemma ask_all_searches: "triple (on_calls (searched v 0)) (ask_all tx b job album now) (\<lambda>_. on_calls (searched v 3))"
proof -
  have one: "triple (on_calls (searched v n)) (ask_normalized tx b job q now) (\<lambda>_. on_calls (searched v (Suc n)))"
    and two: "triple (on_calls (searched v n)) (ask_dropped tx b job album q now) (\<lambda>_. on_calls (searched v (Suc n)))" for n q
    unfolding ask_normalized_def ask_dropped_def Let_def
    by (auto intro: ask_again_searches triple_return on_calls_more)
  show ?thesis
    unfolding ask_all_def numeral_3_eq_3
    by (intro triple_bind [OF ask_searches] triple_bind [OF if_empty_searches] if_empty_searches one two)
qed

lemma search_rest_calls [keeps_rules]:
  "keeps (on_calls Q) (fail_or_backoff job mr base cap rw reason now)"
  "keeps (on_calls Q) (failExcludedSearch tx p job q now)" "keeps (on_calls Q) (fail_manual job now)"
  "keeps (on_calls Q) (no_survivors p job results now)" "keeps (on_calls Q) (cache_survivors job survivors now)"
  "keeps (on_calls Q) (track_titles mu job ranked)" "keeps (on_calls Q) (recordSearchPass m now)"
  "keeps (on_calls Q) (use_results tx p mu job album band query results now)"
  unfolding failExcludedSearch_def fail_manual_def no_survivors_def cache_survivors_def recordSearchPass_def
    use_results_def sift_results_def track_titles_def fail_or_backoff_def Let_def
  by (intro keeps_rules)+

lemma few: "on_calls (searched v 0) w \<Longrightarrow> on_calls (searched v 3) w"
  by (auto simp: on_calls_def intro: searched_mono)

lemma searchJob_searches:
  "triple (on_calls (searched v 0)) (searchJob tx b mu p job now) (\<lambda>_. on_calls (searched v 3))"
proof -
  have manual: "triple (on_calls (searched v 0)) (fail_manual job now) (\<lambda>_. on_calls (searched v 3))"
    by (rule triple_weaken [OF search_rest_calls(3) [unfolded keeps_def]]) (auto intro: few)
  have rest: "triple (on_calls (searched v 3)) (case a of Inl e \<Rightarrow> return (Inl e)
      | Inr (query, None) \<Rightarrow> failExcludedSearch tx p job query now
      | Inr (query, Some results) \<Rightarrow> use_results tx p mu job album band query results now) (\<lambda>_. on_calls (searched v 3))"
    for a album band
    by (auto split: sum.split prod.split option.split
        intro!: triple_return search_rest_calls(2,8) [unfolded keeps_def])
  show ?thesis
    unfolding searchJob_def
    by (auto intro!: manual triple_keeps_bind keeps_rules triple_return few triple_bind [OF ask_all_searches rest]
        split: option.split sum.split)
qed

lemma tick_searches:
  assumes "run_state (Discovery_Tick tx b mu p now) w = (r, w')"
  shows "\<exists>qs. w_Calls w' = w_Calls w @ map CallSearch qs \<and> length qs \<le> 3"
proof -
  have "triple (on_calls (searched w 0)) (Discovery_Tick tx b mu p now) (\<lambda>_. on_calls (searched w 3))"
    unfolding Discovery_Tick_def
    by (auto intro!: triple_keeps_bind keeps_rules triple_return few triple_bind [OF searchJob_searches]
        split: sum.split list.split)
  from tripleD [OF this, of w] show ?thesis using assms by (simp add: on_calls_def searched_def)
qed

section \<open>The sieve\<close>

lemma sift_survivors:
  "fst (sift cap judge cs kept out) = kept @ take (nat cap - length kept) (filter (\<lambda>c. judge c = None) cs)"
proof (induction cap judge cs kept out rule: sift.induct)
  case (2 cap judge c cs kept out)
  show ?case
  proof (cases "int (length kept) \<ge> cap")
    case False
    then have "nat cap - length kept = Suc (nat cap - Suc (length kept))" by linarith
    with 2 False show ?thesis by (auto split: option.split)
  qed simp
qed simp

lemma sift_first:
  "fst (sift cap judge cs [] []) = take (nat cap) (filter (\<lambda>c. judge c = None) cs)"
  by (simp add: sift_survivors)

section \<open>What becomes of the job\<close>

definition ranked_of ::
  "discovery_params \<Rightarrow> album_job \<Rightarrow> search_result list \<Rightarrow> 'n world \<Rightarrow> ts \<Rightarrow> ranked_candidate list" where
  "ranked_of p job results w now =
     ds_Rank p results (ReliabilityFor (job_ArtistID job) (uniqueUsernames results) (ht_Reliability (w_History w))) now"

definition titles_of :: "'n music \<Rightarrow> album_job \<Rightarrow> ranked_candidate list \<Rightarrow> 'n \<Rightarrow> string list" where
  "titles_of mu job ranked n =
     (if ranked = [] then [] else case fst (mus_AlbumTracks mu (album_id job) n) of Inl e \<Rightarrow> [] | Inr titles \<Rightarrow> titles)"

definition barred_keys :: "album_job \<Rightarrow> ts \<Rightarrow> db \<Rightarrow> (string \<times> string) set" where
  "barred_keys job now s = set (map (\<lambda>r. (rej_Username r, rej_Dir r)) (RejectedCandidates (job_ID job) now s))"

definition survivors_of ::
  "discovery_params \<Rightarrow> 'n music \<Rightarrow> album_job \<Rightarrow> wanted_release \<Rightarrow> int \<times> int \<Rightarrow> search_result list \<Rightarrow> 'n world
     \<Rightarrow> ts \<Rightarrow> ranked_candidate list" where
  "survivors_of p mu job album band results w now =
     (let ranked = ranked_of p job results w now
      in take (nat (ds_MaxCandidates p))
           (filter (\<lambda>c. verdict_on (ds_Unicode p) album (titles_of mu job ranked (w_Net w)) band
              (barred_keys job now (w_DB w)) c = None) ranked))"

text \<open>A cached candidate as the search gave it.\<close>

definition cached :: "candidate \<Rightarrow> nat \<times> candidate_state \<times> new_candidate" where
  "cached c = (cand_Job c, cand_State c,
     \<lparr>nc_Username = cand_Username c, nc_Score = cand_Score c, nc_Files = cand_Files c, nc_LastResort = cand_LastResort c\<rparr>)"

lemma cached_added:
  "map cached (candidates (fold (add_candidate i st now) cs s)) = map cached (candidates s) @ map (\<lambda>c. (i, st, c)) cs"
  by (induction cs arbitrary: s) (simp_all add: add_candidate_def cached_def)

lemma jobs_added [simp]: "jobs (fold (add_candidate i st now) cs s) = jobs s"
  by (induction cs arbitrary: s) (simp_all add: add_candidate_def)

lemma events_keep [simp]:
  "candidates (AddJobEvent k e d now s) = candidates s" "barred_keys job now' (AddJobEvent k e d now s) = barred_keys job now' s"
  "the_job i (AddJobEvent k e d now s) = the_job i s" "jobs (AddJobEvent k e d now s) = jobs s"
  by (simp_all add: AddJobEvent_def barred_keys_def RejectedCandidates_def the_job_def)

lemma track_titles_run:
  "run_state (track_titles mu job ranked) w = (titles_of mu job ranked (w_Net w), snd (run_state (track_titles mu job ranked) w))
   \<and> w_DB (snd (run_state (track_titles mu job ranked) w)) = w_DB w
   \<and> w_Turns (snd (run_state (track_titles mu job ranked) w)) = w_Turns w"
  by (auto simp: track_titles_def titles_of_def music_run split: sum.split)

lemma the_job_in_state:
  assumes "\<And>k. job_ID (f k) = job_ID k" and "the_job i s = Some j" and "job_State j = st"
  shows "the_job i (update_jobs (\<lambda>k. job_is i k \<and> job_State k = st) f s) = Some (f j)"
  using the_job_update [OF assms(1), of i "\<lambda>k. job_is i k \<and> job_State k = st" s] assms(2,3) the_job_Some [OF assms(2)]
  by (simp add: job_is_def)

lemma cache_survivors_quiet:
  assumes quiet: "w_Turns w = []" and job: "the_job (job_ID job) (w_DB w) = Some j" "job_State j = Wanted"
    and run: "run_state (cache_survivors job survivors now) w = (r, w')"
  shows "r = Inr (True, True) \<and> job_view (job_ID job) (w_DB w') = Some (Selecting, 0, None)
    \<and> map cached (candidates (w_DB w')) = map cached (candidates (w_DB w))
        @ map (\<lambda>c. (job_ID job, CNew, newCandidateFrom c)) survivors"
proof -
  let ?cs = "map newCandidateFrom survivors"
  let ?s = "update_jobs (\<lambda>k. job_is (job_ID job) k \<and> job_State k = Wanted)
    (\<lambda>k. k\<lparr>job_Retries := 0, job_EmptySearches := 0, job_NotBefore := None, job_Updated := now\<rparr>)
    (fold (add_candidate (job_ID job) CNew now) ?cs (w_DB w))"
  have ins: "insert_candidates (job_ID job) ?cs now (w_DB w) = (?s, Inr ())"
    using job by (simp add: insert_candidates_def InsertCandidates_def)
  have same: "the_job (job_ID job) (fold (add_candidate (job_ID job) CNew now) ?cs (w_DB w)) = Some j"
    using job(1) by (simp add: the_job_def)
  have id: "job_ID j = job_ID job" using the_job_Some [OF job(1)] by simp
  have s: "the_job (job_ID job) ?s = Some (j\<lparr>job_Retries := 0, job_EmptySearches := 0, job_NotBefore := None, job_Updated := now\<rparr>)"
    by (rule the_job_in_state [OF _ same job(2)]) simp
  obtain t adv where adv: "AdvanceJobStateFrom (job_ID job) Wanted Selecting now ?s = (t, adv)" by (rule prod.exhaust)
  have found: "row_count (\<lambda>k. job_is (job_ID job) k \<and> job_State k = Wanted) (jobs ?s) \<noteq> 0"
  proof -
    let ?j = "j\<lparr>job_Retries := 0, job_EmptySearches := 0, job_NotBefore := None, job_Updated := now\<rparr>"
    have "?j \<in> set (jobs ?s)" "job_is (job_ID job) ?j \<and> job_State ?j = Wanted"
      using the_job_Some [OF s] job(2) id by (simp_all add: job_is_def)
    then show ?thesis unfolding row_count_eq_0 by blast
  qed
  have t: "adv" "job_view (job_ID job) t = Some (Selecting, 0, None)" "candidates t = candidates ?s"
    using adv found the_job_in_state [OF _ s, of "with_state Selecting now" Wanted] job(2)
    by (auto simp: AdvanceJobStateFrom_def Let_def job_view_def with_state_def)
  have "r = Inr (True, True) \<and> w_DB w' = t"
    using run ins adv t(1) quiet by (auto simp: cache_survivors_def quiet_try quiet_call)
  with t show ?thesis by (simp add: cached_added)
qed

lemma no_survivors_quiet:
  assumes quiet: "w_Turns w = []" and wf: "wf_db (w_DB w)"
    and job: "the_job (job_ID job) (w_DB w) = Some job" "job_State job = Wanted"
    and run: "run_state (no_survivors p job results now) w = (r, w')"
  shows "r = Inr (True, False) \<and> candidates (w_DB w') = candidates (w_DB w)
    \<and> job_view (job_ID job) (w_DB w') = Some (if results = [] then (Wanted, job_Retries job,
          Some (now + sint (nextBackoff (job_EmptySearches job + 1) (ds_BackoffBase p) (ds_BackoffCap p))))
        else if job_Retries job + 1 \<ge> ds_MaxRetries p then (Failed, job_Retries job, None)
        else (Wanted, job_Retries job + 1,
          Some (now + sint (nextBackoff (job_Retries job + 1) (ds_BackoffBase p) (ds_BackoffCap p)))))"
proof (cases "results = []")
  case True
  then show ?thesis
    using run quiet job
    by (auto simp: no_survivors_def Let_def quiet_write SetJobEmptySearchBackoff_def job_view_def the_job_update job_is_def)
next
  case False
  let ?why = "''no viable candidates: all '' @ decimal (length results) @ '' search results rejected by filtering''"
  have view: "job_view (job_ID job) (w_DB w) = Some (Wanted, job_Retries job, job_NotBefore job)"
    using job by (simp add: job_view_def)
  obtain s failed where dec: "failOrBackoff store_backoff_ops job (ds_MaxRetries p) (ds_BackoffBase p) (ds_BackoffCap p)
      False ?why now (w_DB w) = Inr (s, failed)"
    and ran: "run_state (fail_or_backoff job (ds_MaxRetries p) (ds_BackoffBase p) (ds_BackoffCap p) False ?why now) w
      = (Inr failed, w\<lparr>w_DB := s\<rparr>)"
    using fail_or_backoff_refines [OF quiet, of job "ds_MaxRetries p" "ds_BackoffBase p" "ds_BackoffCap p" False ?why now]
    by (auto split: sum.splits)
  have "r = Inr (True, False)" "w_DB w' = s" using run ran False by (auto simp: no_survivors_def)
  moreover have "candidates s = candidates (w_DB w)"
    using dec by (auto simp: failOrBackoff_def store_backoff_ops_def rbind_def recordBackoffEvent_def Let_def
        MarkJobFailed_def SetJobBackoff_def split: if_splits)
  ultimately show ?thesis
    using store_backoff.failOrBackoff_view [OF wf dec view] False by auto
qed

lemma use_results_outcome:
  assumes quiet: "w_Turns w = []" and wf: "wf_db (w_DB w)"
    and job: "job \<in> set (jobs (w_DB w))" "job_State job = Wanted"
    and S: "S = survivors_of p mu job album band results w now"
    and run: "run_state (use_results tx p mu job album band query results now) w = (r, w')"
  shows "r = Inr (True, S \<noteq> [])
    \<and> map cached (candidates (w_DB w')) = map cached (candidates (w_DB w))
        @ map (\<lambda>c. (job_ID job, CNew, newCandidateFrom c)) S
    \<and> job_view (job_ID job) (w_DB w') = Some (if S \<noteq> [] then (Selecting, 0, None)
        else if results = [] then (Wanted, job_Retries job,
          Some (now + sint (nextBackoff (job_EmptySearches job + 1) (ds_BackoffBase p) (ds_BackoffCap p))))
        else if job_Retries job + 1 \<ge> ds_MaxRetries p then (Failed, job_Retries job, None)
        else (Wanted, job_Retries job + 1,
          Some (now + sint (nextBackoff (job_Retries job + 1) (ds_BackoffBase p) (ds_BackoffCap p)))))"
proof -
  have base: "base_ok (w_DB w)" using wf by (simp add: wf_db_def)
  let ?ranked = "ranked_of p job results w now"
  let ?titles = "titles_of mu job ?ranked (w_Net w)"
  let ?judge = "verdict_on (ds_Unicode p) album ?titles band (barred_keys job now (w_DB w))"
  obtain detail where sift: "run_state (sift_results p mu job album band results ?ranked now)
      (w\<lparr>w_DB := AddJobEvent (job_ID job) EventSearch detail now (w_DB w)\<rparr>) = (r, w')"
    using run quiet by (auto simp: use_results_def ranked_of_def history_read_def history_call_def quiet_event Let_def)
  let ?w1 = "w\<lparr>w_DB := AddJobEvent (job_ID job) EventSearch detail now (w_DB w)\<rparr>"
  define w2 where "w2 = snd (run_state (track_titles mu job ?ranked) ?w1)"
  have t: "run_state (track_titles mu job ?ranked) ?w1 = (?titles, w2)" "w_DB w2 = w_DB ?w1" "w_Turns w2 = []"
    using track_titles_run [of mu job ?ranked ?w1] quiet by (simp_all add: w2_def)
  obtain S' out where sv: "sift (ds_MaxCandidates p) ?judge ?ranked [] [] = (S', out)" by (metis surj_pair)
  have S': "S' = S"
    using sift_first [of "ds_MaxCandidates p" ?judge ?ranked] sv by (simp add: S survivors_of_def Let_def)
  define w3 where "w3 = (if out = [] then w2
    else w2\<lparr>w_DB := AddJobEvent (job_ID job) EventCandidateRejected (rejected_detail out) now (w_DB w2)\<rparr>)"
  have keys: "(\<lambda>r. (rej_Username r, rej_Dir r)) ` set (RejectedCandidates (job_ID job) now
      (AddJobEvent (job_ID job) EventSearch detail now (w_DB w))) = barred_keys job now (w_DB w)"
    by (simp add: barred_keys_def RejectedCandidates_def AddJobEvent_def)
  have last: "run_state (if S = [] then no_survivors p job results now else cache_survivors job S now) w3 = (r, w')"
    using sift t sv unfolding sift_results_def S' [symmetric] w3_def
    by (cases "out = []") (auto simp: quiet_read quiet_event keys Let_def)
  have w3: "w_Turns w3 = []" "candidates (w_DB w3) = candidates (w_DB w)" "jobs (w_DB w3) = jobs (w_DB w)" "wf_db (w_DB w3)"
    using t wf by (auto simp: w3_def wf_AddJobEvent)
  have the: "the_job (job_ID job) (w_DB w3) = Some job"
    using the_job_member [OF base job(1)] w3(3) by (simp add: the_job_def)
  show ?thesis
  proof (cases "S = []")
    case True
    with no_survivors_quiet [OF w3(1,4) the job(2)] last w3(2) show ?thesis by simp
  next
    case False
    with cache_survivors_quiet [OF w3(1) the job(2)] last w3(2) show ?thesis by simp
  qed
qed

lemma survivors_bounds:
  assumes "c \<in> set (survivors_of p mu job album band results w now)"
  shows "length (survivors_of p mu job album band results w now) \<le> nat (ds_MaxCandidates p)"
    and "candidateKeyOf c = Some k \<Longrightarrow> k \<notin> barred_keys job now (w_DB w)"
    and "fst band > 0 \<Longrightarrow> fst band \<le> int (length (rk_Files c))"
    and "snd band > 0 \<Longrightarrow> int (length (rk_Files c)) \<le> snd band"
proof -
  have c: "verdict_on (ds_Unicode p) album (titles_of mu job (ranked_of p job results w now) (w_Net w)) band
      (barred_keys job now (w_DB w)) c = None"
    using assms by (auto simp: survivors_of_def Let_def dest: in_set_takeD)
  show "length (survivors_of p mu job album band results w now) \<le> nat (ds_MaxCandidates p)"
    by (simp add: survivors_of_def Let_def)
  show "candidateKeyOf c = Some k \<Longrightarrow> k \<notin> barred_keys job now (w_DB w)"
    and "fst band > 0 \<Longrightarrow> fst band \<le> int (length (rk_Files c))"
    and "snd band > 0 \<Longrightarrow> int (length (rk_Files c)) \<le> snd band"
    using c by (auto simp: verdict_on_def Let_def split: if_splits)
qed

end
