(* ===== verification/WantedSync.thy ===== *)
theory WantedSync
  imports DiscoveryFacts
begin

text \<open>
  The module \<open>WantedSync\<close> (\<open>internal/pipeline/wanted.go\<close>), which mirrors Lidarr's wanted list into the
  jobs and publishes it to \<open>Discovery\<close>.
\<close>

definition publish :: "(int \<rightharpoonup> wanted_release) \<Rightarrow> ('n, unit) prog" where
  "publish m = State (\<lambda>w. ((), w\<lparr>w_Wanted := m\<rparr>))"

definition snapshot_of :: "wanted_release list \<Rightarrow> int \<rightharpoonup> wanted_release" where
  "snapshot_of albums = foldl (\<lambda>m a. m(wr_ID a \<mapsto> a)) Map.empty albums"

text \<open>Steps one after the other, up to the first that fails.\<close>

fun all_of :: "('n, unit) fallible list \<Rightarrow> ('n, unit) fallible" where
  "all_of [] = return (Inr ())"
| "all_of (m # ms) = do {
     r \<leftarrow> m;
     case r of Inl e \<Rightarrow> return (Inl e) | Inr _ \<Rightarrow> all_of ms }"

definition prunes :: "ts \<Rightarrow> ('n, unit) fallible list" where
  "prunes now =
     [store_write (PruneJobEvents now),
      history_write (\<lambda>h. h\<lparr>ht_Passes := PruneSearchPasses now (ht_Passes h)\<rparr>),
      history_write (\<lambda>h. h\<lparr>ht_Throughput := PruneThroughputMinutes now (ht_Throughput h)\<rparr>),
      history_write (\<lambda>h. h\<lparr>ht_Uploads := PruneUploadHistory now (ht_Uploads h)\<rparr>)]"

definition WantedSync_Tick :: "'n music \<Rightarrow> int \<Rightarrow> ts \<Rightarrow> ('n, unit) fallible" where
  "WantedSync_Tick mu failedReviveAfter now = do {
     a \<leftarrow> music_call (mus_WantedMissing mu) [];
     case a of
       Inl e \<Rightarrow> return (Inl e)
     | Inr albums \<Rightarrow> do {
         s \<leftarrow> store_call (SyncWantedJobs albums (now - failedReviveAfter) now);
         case s of
           Inl e \<Rightarrow> return (Inl e)
         | Inr _ \<Rightarrow> do {
             p \<leftarrow> all_of (prunes now);
             case p of
               Inl e \<Rightarrow> return (Inl e)
             | Inr _ \<Rightarrow> do {
                 _ \<leftarrow> publish (snapshot_of albums);
                 return (Inr ()) } } } }"

lemma keeps_all_of: "(\<And>m. m \<in> set ms \<Longrightarrow> keeps I m) \<Longrightarrow> keeps I (all_of ms)"
  by (induction ms) (auto intro!: keeps_rules)

section \<open>Every write is a step of the store\<close>

lemma keeps_WantedSync_Tick [keeps_rules]: "keeps (runs_from r K) (WantedSync_Tick mu after now)"
proof -
  have "keeps (runs_from r K) (store_call (SyncWantedJobs albums cutoff now))" for albums cutoff
    by (intro keeps_call store_steps_single store_step.sync)
  moreover have "keeps (runs_from r K) (store_write (PruneJobEvents now))"
    by (intro keeps_write store_step.prune_events)
  then have "keeps (runs_from r K) (all_of (prunes now))"
    by (intro keeps_all_of) (auto simp: prunes_def intro: keeps_rules)
  moreover have "keeps (runs_from r K) (publish m)" for m
    by (auto simp: keeps_def triple_def publish_def runs_from_def)
  ultimately show ?thesis unfolding WantedSync_Tick_def by (intro keeps_rules)
qed

section \<open>All or nothing\<close>

lemma snapshot_last: "snapshot_of albums a = last_release albums a"
proof -
  have "foldl (\<lambda>m a. m(wr_ID a \<mapsto> a)) m0 albums a
      = (case last_release albums a of None \<Rightarrow> m0 a | Some r \<Rightarrow> Some r)" for m0
    by (induction albums arbitrary: m0 rule: rev_induct) (auto simp: last_release_def)
  then show ?thesis by (simp add: snapshot_of_def split: option.split)
qed

text \<open>What does not publish leaves the published list alone.\<close>

definition list_is :: "(int \<rightharpoonup> wanted_release) \<Rightarrow> 'n world \<Rightarrow> bool" where
  "list_is m w \<longleftrightarrow> w_Wanted w = m"

lemma list_kept [keeps_rules]:
  "keeps (list_is m) (store_call op)" "keeps (list_is m) (history_call hop)" "keeps (list_is m) (music_call mop cs)"
  "keeps (list_is m) (store_write f)" "keeps (list_is m) (history_write hf)"
proof -
  show store: "keeps (list_is m) (store_call op)" for op :: "db \<Rightarrow> db \<times> 'z"
    by (auto simp: keeps_def triple_def list_is_def store_call_def Let_def split: list.split reply.split)
  show history: "keeps (list_is m) (history_call hop)" for hop :: "history_tables \<Rightarrow> history_tables \<times> 'z"
    by (auto simp: keeps_def triple_def list_is_def history_call_def Let_def split: list.split reply.split)
  show "keeps (list_is m) (music_call mop cs)"
    by (auto simp: keeps_def triple_def list_is_def music_call_def Let_def split: prod.split)
  show "keeps (list_is m) (store_write f)" "keeps (list_is m) (history_write hf)"
    unfolding store_write_def history_write_def by (rule store, rule history)
qed

lemma triple_sum:
  "\<lbrakk>\<And>e. r = Inl e \<Longrightarrow> triple P (f e) Q; \<And>x. r = Inr x \<Longrightarrow> triple P (g x) Q\<rbrakk>
   \<Longrightarrow> triple P (case r of Inl e \<Rightarrow> f e | Inr x \<Rightarrow> g x) Q"
  by (cases r) auto

lemma sync_publishes:
  assumes run: "run_state (WantedSync_Tick mu after now) w = (r, w')"
  shows "case r of
      Inl e \<Rightarrow> w_Wanted w' = w_Wanted w
    | Inr _ \<Rightarrow> (\<exists>albums. fst (mus_WantedMissing mu (w_Net w)) = Inr albums \<and> w_Wanted w' = last_release albums)"
proof (cases "fst (mus_WantedMissing mu (w_Net w))")
  case Inl
  then show ?thesis using run by (auto simp: WantedSync_Tick_def music_run)
next
  case (Inr albums)
  let ?w1 = "w\<lparr>w_Net := snd (mus_WantedMissing mu (w_Net w))\<rparr>"
  have prunes: "keeps (list_is m) (all_of (prunes now))" for m :: "int \<rightharpoonup> wanted_release"
    by (intro keeps_all_of) (auto simp: prunes_def intro: keeps_rules)
  have pub: "triple (list_is m) (publish x \<bind> (\<lambda>_. return (Inr ())))
      (\<lambda>r v. case r of Inl e \<Rightarrow> list_is m v | Inr _ \<Rightarrow> list_is x v)" for m x
    by (simp add: triple_def publish_def list_is_def)
  have "triple (list_is (w_Wanted w)) (do {
         s \<leftarrow> store_call (SyncWantedJobs albums (now - after) now);
         case s of
           Inl e \<Rightarrow> return (Inl e)
         | Inr _ \<Rightarrow> do {
             p \<leftarrow> all_of (prunes now);
             case p of
               Inl e \<Rightarrow> return (Inl e)
             | Inr _ \<Rightarrow> do {
                 _ \<leftarrow> publish (snapshot_of albums);
                 return (Inr ()) } } })
      (\<lambda>r v. case r of Inl e \<Rightarrow> list_is (w_Wanted w) v | Inr _ \<Rightarrow> list_is (snapshot_of albums) v)"
    by (intro triple_keeps_bind list_kept prunes triple_sum pub triple_return) simp_all
  from tripleD [OF this, of ?w1] run Inr show ?thesis
    by (auto simp: WantedSync_Tick_def music_run list_is_def snapshot_last fun_eq_iff split: sum.splits)
qed

lemma outage_changes_nothing:
  assumes "fst (mus_WantedMissing mu (w_Net w)) = Inl ()"
  shows "run_state (WantedSync_Tick mu after now) w = (Inl ErrLidarr, w\<lparr>w_Net := snd (mus_WantedMissing mu (w_Net w))\<rparr>)"
  using assms by (simp add: WantedSync_Tick_def music_run)

end
