(* ===== verification/Runner.thy ===== *)
theory Runner
  imports World
begin

text \<open>
  The runner of the modules (\<open>internal/pipeline/runner.go\<close>): the checks of \<open>NewRunner\<close>, what a tick leaves
  in a module's status, and the liveness and readiness read from it. The goroutines, the timers and the
  context are not modelled; the zero time is no time.
\<close>

section \<open>Modules\<close>

record module_config =
  mc_Name :: string
  mc_Interval :: int

text \<open>A module is absent for a nil one. The result is the text of the error.\<close>

fun check_modules ::
  "texts \<Rightarrow> nat \<Rightarrow> string list \<Rightarrow> module_config option list \<Rightarrow> string option" where
  "check_modules tx i names [] = None"
| "check_modules tx i names (None # ms) = Some (''module '' @ decimal i @ '' is nil'')"
| "check_modules tx i names (Some m # ms) =
     (if mc_Name m = [] \<or> TrimSpace (mc_Name m) \<noteq> mc_Name m
      then Some (''module '' @ decimal i @ '' name '' @ tx_Quote tx (mc_Name m) @ '' must be nonblank and trimmed'')
      else if mc_Name m \<in> set names then Some (''duplicate module name '' @ tx_Quote tx (mc_Name m))
      else if mc_Interval m \<le> 0 then Some (''module '' @ tx_Quote tx (mc_Name m) @ '' interval must be > 0'')
      else check_modules tx (Suc i) (mc_Name m # names) ms)"

definition NewRunner :: "texts \<Rightarrow> int \<Rightarrow> module_config option list \<Rightarrow> string option" where
  "NewRunner tx tickTimeout ms =
     (if tickTimeout \<le> 0 then Some ''tick timeout must be > 0'' else check_modules tx 0 [] ms)"

section \<open>The status of a module\<close>

definition ReadinessFailureThreshold :: nat where
  "ReadinessFailureThreshold = 3"

record module_status =
  ms_LastAttempt :: "ts option"
  ms_LastCompleted :: "ts option"
  ms_LastSuccess :: "ts option"
  ms_LastErrorAt :: "ts option"
  ms_LastError :: string
  ms_ConsecutiveFailures :: nat

definition fresh_status :: module_status where
  "fresh_status = \<lparr>ms_LastAttempt = None, ms_LastCompleted = None, ms_LastSuccess = None,
     ms_LastErrorAt = None, ms_LastError = [], ms_ConsecutiveFailures = 0\<rparr>"

definition begin_tick :: "ts \<Rightarrow> module_status \<Rightarrow> module_status" where
  "begin_tick attemptedAt st = st\<lparr>ms_LastAttempt := Some attemptedAt\<rparr>"

text \<open>An error is its text; a panic becomes one.\<close>

datatype tick_end = Returned | ReturnedError string | Panicked string

definition tick_error :: "tick_end \<Rightarrow> string option" where
  "tick_error e = (case e of Returned \<Rightarrow> None | ReturnedError t \<Rightarrow> Some t | Panicked t \<Rightarrow> Some (''panic: '' @ t))"

definition recordTickOutcome :: "ts \<Rightarrow> ts \<Rightarrow> string option \<Rightarrow> module_status \<Rightarrow> module_status" where
  "recordTickOutcome attemptedAt completedAt err st =
     (let s = st\<lparr>ms_LastAttempt := Some attemptedAt, ms_LastCompleted := Some completedAt\<rparr>
      in case err of
           None \<Rightarrow> s\<lparr>ms_LastSuccess := Some completedAt, ms_ConsecutiveFailures := 0\<rparr>
         | Some t \<Rightarrow> s\<lparr>ms_LastErrorAt := Some completedAt, ms_LastError := t,
             ms_ConsecutiveFailures := Suc (ms_ConsecutiveFailures s)\<rparr>)"

record tick =
  tk_Attempted :: ts
  tk_Completed :: ts
  tk_End :: tick_end

definition runTick :: "tick \<Rightarrow> module_status \<Rightarrow> module_status" where
  "runTick t st = recordTickOutcome (tk_Attempted t) (tk_Completed t) (tick_error (tk_End t)) (begin_tick (tk_Attempted t) st)"

section \<open>Health\<close>

record health =
  hl_StaleDeadline :: "ts option"
  hl_Live :: bool
  hl_Ready :: bool

definition Health :: "int \<Rightarrow> int \<Rightarrow> ts \<Rightarrow> module_status \<Rightarrow> health" where
  "Health interval tickTimeout now st =
     (let deadline = map_option (\<lambda>a. a + interval * 3 + tickTimeout) (ms_LastAttempt st);
          live = (case deadline of None \<Rightarrow> False | Some d \<Rightarrow> now \<le> d)
      in \<lparr>hl_StaleDeadline = deadline, hl_Live = live,
          hl_Ready = (live \<and> ms_LastSuccess st \<noteq> None \<and> ms_ConsecutiveFailures st < ReadinessFailureThreshold)\<rparr>)"

definition Live :: "int \<Rightarrow> ts \<Rightarrow> (module_config \<times> module_status) list \<Rightarrow> bool" where
  "Live tickTimeout now ms = list_all (\<lambda>(m, st). hl_Live (Health (mc_Interval m) tickTimeout now st)) ms"

definition Ready :: "int \<Rightarrow> ts \<Rightarrow> (module_config \<times> module_status) list \<Rightarrow> bool" where
  "Ready tickTimeout now ms = list_all (\<lambda>(m, st). hl_Ready (Health (mc_Interval m) tickTimeout now st)) ms"

section \<open>What the status says of the ticks\<close>

definition failed :: "tick \<Rightarrow> bool" where
  "failed t \<longleftrightarrow> tk_End t \<noteq> Returned"

definition status_after :: "tick list \<Rightarrow> module_status" where
  "status_after ts = fold runTick ts fresh_status"

lemma tick_error_None: "tick_error e = None \<longleftrightarrow> e = Returned"
  by (cases e) (simp_all add: tick_error_def)

lemma runTick_simps:
  "ms_LastAttempt (runTick t st) = Some (tk_Attempted t)"
  "ms_ConsecutiveFailures (runTick t st) = (if failed t then Suc (ms_ConsecutiveFailures st) else 0)"
  "ms_LastSuccess (runTick t st) = (if failed t then ms_LastSuccess st else Some (tk_Completed t))"
  by (cases "tk_End t"; simp add: runTick_def recordTickOutcome_def begin_tick_def failed_def tick_error_def Let_def)+

lemma consecutive_failures: "ms_ConsecutiveFailures (status_after ts) = length (takeWhile failed (rev ts))"
  by (induction ts rule: rev_induct) (simp_all add: status_after_def fresh_status_def runTick_simps)

lemma last_success: "ms_LastSuccess (status_after ts) \<noteq> None \<longleftrightarrow> list_ex (\<lambda>t. \<not> failed t) ts"
  by (induction ts rule: rev_induct) (auto simp: status_after_def fresh_status_def runTick_simps)

lemma last_attempt: "ms_LastAttempt (status_after ts) = (if ts = [] then None else Some (tk_Attempted (last ts)))"
  by (induction ts rule: rev_induct) (simp_all add: status_after_def fresh_status_def runTick_simps)

lemma takeWhile_take: "n \<le> length (takeWhile p xs) \<longleftrightarrow> n \<le> length xs \<and> list_all p (take n xs)"
proof (induction xs arbitrary: n)
  case (Cons x xs)
  then show ?case by (cases n) auto
qed simp

text \<open>Ready: recent, some tick succeeded, and one of the last three did, if there were as many.\<close>

lemma ready_iff:
  "hl_Ready (Health interval tickTimeout now (status_after ts)) \<longleftrightarrow>
     ts \<noteq> [] \<and> now \<le> tk_Attempted (last ts) + interval * 3 + tickTimeout
     \<and> list_ex (\<lambda>t. \<not> failed t) ts
     \<and> (length ts < 3 \<or> list_ex (\<lambda>t. \<not> failed t) (take 3 (rev ts)))"
proof -
  have "ms_ConsecutiveFailures (status_after ts) < 3
      \<longleftrightarrow> length ts < 3 \<or> list_ex (\<lambda>t. \<not> failed t) (take 3 (rev ts))"
    using takeWhile_take [of 3 failed "rev ts"]
    by (auto simp: consecutive_failures list_ex_iff list_all_iff not_le [symmetric])
  then show ?thesis
    by (auto simp: Health_def Let_def last_attempt last_success ReadinessFailureThreshold_def simp del: not_None_eq)
qed

lemma accepted_modules:
  "check_modules tx i names ms = None \<longleftrightarrow>
     list_all (\<lambda>m. m \<noteq> None \<and> mc_Name (the m) \<noteq> [] \<and> TrimSpace (mc_Name (the m)) = mc_Name (the m)
       \<and> mc_Interval (the m) > 0 \<and> mc_Name (the m) \<notin> set names) ms
     \<and> distinct (map (mc_Name \<circ> the) ms)"
  by (induction tx i names ms rule: check_modules.induct) (auto simp: list_all_iff image_iff)

end
