(* ===== verification/Automaton.thy ===== *)
theory Automaton
  imports Prelude
begin

text \<open>
  A component that other goroutines call under its lock is an automaton: a state, the actions that may
  come in any order, and for every action what it answers and the state it leaves. What holds of the
  start and survives every action that is allowed holds after any sequence of allowed actions.
\<close>

locale automaton =
  fixes step :: "'a \<Rightarrow> 's \<Rightarrow> 's \<times> 'o"
begin

definition after :: "'a list \<Rightarrow> 's \<Rightarrow> 's" where
  "after as s = foldl (\<lambda>s a. fst (step a s)) s as"

definition answers :: "'a list \<Rightarrow> 's \<Rightarrow> 'o list" where
  "answers as s = snd (foldl (\<lambda>(s, os) a. (fst (step a s), os @ [snd (step a s)])) (s, []) as)"

lemma after_simps [simp]:
  "after [] s = s" "after (a # as) s = after as (fst (step a s))" "after (as @ [a]) s = fst (step a (after as s))"
  by (simp_all add: after_def)

lemma after_append: "after (as @ bs) s = after bs (after as s)"
  by (simp add: after_def)

end

locale safe_automaton = automaton step
  for step :: "'a \<Rightarrow> 's \<Rightarrow> 's \<times> 'o" +
  fixes good :: "'s \<Rightarrow> bool" and allowed :: "'a \<Rightarrow> 's \<Rightarrow> bool"
  assumes good_step: "good s \<Longrightarrow> allowed a s \<Longrightarrow> good (fst (step a s))"
begin

inductive reached :: "'s \<Rightarrow> 's \<Rightarrow> bool" where
  start: "reached s s"
| step: "reached s t \<Longrightarrow> allowed a t \<Longrightarrow> reached s (fst (step a t))"

lemma reached_good: "reached s t \<Longrightarrow> good s \<Longrightarrow> good t"
  by (induction rule: reached.induct) (auto intro: good_step)

lemma reached_trans: "reached t u \<Longrightarrow> reached s t \<Longrightarrow> reached s u"
  by (induction rule: reached.induct) (auto intro: reached.step)

lemma after_good: "good s \<Longrightarrow> (\<And>a t. good t \<Longrightarrow> allowed a t) \<Longrightarrow> good (after as s)"
  by (induction as arbitrary: s) (auto intro: good_step)

end

end
