(* ===== verification/Throughput.thy ===== *)
theory Throughput
  imports StoreHistory Automaton "HOL-Library.Signed_Division"
begin

text \<open>
  The throughput meter of the client (\<open>internal/soulseek/throughput.go\<close>): a ring of the last samples,
  the accumulator of the minute that is running, the rows of the minutes that are over and wait for the
  recorder, and the subscribers. Rates divide exactly where the code divides floating point numbers.
\<close>

section \<open>The meter\<close>

definition throughputWindow :: nat where
  "throughputWindow = 48"

definition throughputPendingCap :: nat where
  "throughputPendingCap = 10"

record throughput_sample =
  tp_At :: ts
  tp_BytesPerSecond :: int
  tp_ActiveTransfers :: int

record throughput_series =
  tr_Download :: "throughput_sample list"
  tr_Upload :: "throughput_sample list"

type_synonym throughput_pair = "throughput_sample \<times> throughput_sample"

text \<open>\<open>mt_Minute\<close> is None as long as \<open>minuteSet\<close> is false.\<close>

record throughputMeter =
  mt_Ring :: "throughput_pair list"
  mt_RingLen :: nat
  mt_RingNext :: nat
  mt_Minute :: "ts option"
  mt_SumBytes :: int
  mt_PeakBytes :: int
  mt_MaxActive :: int
  mt_Samples :: nat
  mt_Pending :: "throughput_minute list"
  mt_Subs :: "nat list"
  mt_NextSubID :: nat

definition zero_sample :: throughput_sample where
  "zero_sample = \<lparr>tp_At = 0, tp_BytesPerSecond = 0, tp_ActiveTransfers = 0\<rparr>"

definition newThroughputMeter :: throughputMeter where
  "newThroughputMeter =
     \<lparr>mt_Ring = replicate throughputWindow (zero_sample, zero_sample), mt_RingLen = 0, mt_RingNext = 0, mt_Minute = None,
      mt_SumBytes = 0, mt_PeakBytes = 0, mt_MaxActive = 0, mt_Samples = 0, mt_Pending = [], mt_Subs = [], mt_NextSubID = 0\<rparr>"

definition minute_of :: "ts \<Rightarrow> ts" where
  "minute_of at' = at' - at' mod 60000000000"

definition enqueuePending :: "throughput_minute \<Rightarrow> throughputMeter \<Rightarrow> throughputMeter" where
  "enqueuePending r m =
     (let kept = if length (mt_Pending m) \<ge> throughputPendingCap then tl (mt_Pending m) else mt_Pending m
      in m\<lparr>mt_Pending := kept @ [r]\<rparr>)"

definition closeMinute :: "ts \<Rightarrow> throughputMeter \<Rightarrow> throughputMeter" where
  "closeMinute minute m =
     (if mt_Samples m = 0 then m
      else
        (let m1 = (if mt_PeakBytes m \<noteq> 0 \<or> mt_MaxActive m \<noteq> 0
                   then enqueuePending
                     \<lparr>tm_Minute = minute, tm_AvgBytesPerSecond = mt_SumBytes m sdiv int (mt_Samples m),
                      tm_MaxBytesPerSecond = mt_PeakBytes m, tm_MaxActive = mt_MaxActive m,
                      tm_Samples = int (mt_Samples m)\<rparr> m
                   else m)
         in m1\<lparr>mt_SumBytes := 0, mt_PeakBytes := 0, mt_MaxActive := 0, mt_Samples := 0\<rparr>))"

definition push_ring :: "throughput_pair \<Rightarrow> throughputMeter \<Rightarrow> throughputMeter" where
  "push_ring x m = m\<lparr>mt_Ring := (mt_Ring m)[mt_RingNext m := x],
     mt_RingNext := (mt_RingNext m + 1) mod throughputWindow,
     mt_RingLen := (if mt_RingLen m < throughputWindow then mt_RingLen m + 1 else mt_RingLen m)\<rparr>"

definition accumulate :: "throughput_sample \<Rightarrow> throughputMeter \<Rightarrow> throughputMeter" where
  "accumulate d m =
     (let current = minute_of (tp_At d);
          m1 = (case mt_Minute m of
                  None \<Rightarrow> m\<lparr>mt_Minute := Some current\<rparr>
                | Some minute \<Rightarrow> if current \<noteq> minute then (closeMinute minute m)\<lparr>mt_Minute := Some current\<rparr> else m)
      in m1\<lparr>mt_SumBytes := mt_SumBytes m1 + tp_BytesPerSecond d,
            mt_PeakBytes := (if tp_BytesPerSecond d > mt_PeakBytes m1 then tp_BytesPerSecond d else mt_PeakBytes m1),
            mt_MaxActive := (if tp_ActiveTransfers d > mt_MaxActive m1 then tp_ActiveTransfers d else mt_MaxActive m1),
            mt_Samples := mt_Samples m1 + 1\<rparr>)"

text \<open>The second component is what the subscribers are called with.\<close>

definition record_sample :: "ts \<Rightarrow> int \<Rightarrow> int \<Rightarrow> int \<Rightarrow> int \<Rightarrow> throughputMeter \<Rightarrow> throughputMeter \<times> (nat \<times> throughput_series) list" where
  "record_sample at' downloadBPS downloadActive uploadBPS uploadActive m =
     (let d = \<lparr>tp_At = at', tp_BytesPerSecond = downloadBPS, tp_ActiveTransfers = downloadActive\<rparr>;
          u = \<lparr>tp_At = at', tp_BytesPerSecond = uploadBPS, tp_ActiveTransfers = uploadActive\<rparr>;
          m1 = accumulate d (push_ring (d, u) m)
      in (m1, map (\<lambda>i. (i, \<lparr>tr_Download = [d], tr_Upload = [u]\<rparr>)) (mt_Subs m1)))"

definition Samples :: "throughputMeter \<Rightarrow> throughput_series" where
  "Samples m =
     (let start = (mt_RingNext m + throughputWindow - mt_RingLen m) mod throughputWindow;
          pairs = map (\<lambda>i. mt_Ring m ! ((start + i) mod throughputWindow)) [0..<mt_RingLen m]
      in \<lparr>tr_Download = map fst pairs, tr_Upload = map snd pairs\<rparr>)"

definition TakeThroughputMinutes :: "bool \<Rightarrow> throughputMeter \<Rightarrow> throughputMeter \<times> throughput_minute list" where
  "TakeThroughputMinutes includePartial m =
     (let m1 = (case mt_Minute m of
                  Some minute \<Rightarrow> if includePartial then (closeMinute minute m)\<lparr>mt_Minute := None\<rparr> else m
                | None \<Rightarrow> m)
      in (m1\<lparr>mt_Pending := []\<rparr>, mt_Pending m1))"

definition Subscribe :: "throughputMeter \<Rightarrow> throughputMeter \<times> nat" where
  "Subscribe m = (m\<lparr>mt_NextSubID := mt_NextSubID m + 1, mt_Subs := mt_Subs m @ [mt_NextSubID m]\<rparr>, mt_NextSubID m)"

definition cancel_sub :: "nat \<Rightarrow> throughputMeter \<Rightarrow> throughputMeter" where
  "cancel_sub i m = m\<lparr>mt_Subs := filter (\<lambda>j. j \<noteq> i) (mt_Subs m)\<rparr>"

section \<open>One tick of the sampler\<close>

text \<open>A transfer is its id, whether it is in progress, and its bytes; the uploads may be missing.\<close>

record throughputBaseline =
  tb_Downloads :: "string \<rightharpoonup> int"
  tb_UploadBytes :: u64

definition download_delta :: "(string \<rightharpoonup> int) \<Rightarrow> string \<times> bool \<times> int \<Rightarrow> int" where
  "download_delta before t =
     (case t of (i, running, bytes) \<Rightarrow>
        (case before i of Some previous \<Rightarrow> if bytes - previous > 0 then bytes - previous else 0 | None \<Rightarrow> 0))"

definition rate :: "int \<Rightarrow> int \<Rightarrow> int" where
  "rate bytes elapsed = bytes * 1000000000 div elapsed"

definition throughputTick ::
  "(string \<times> bool \<times> int) list \<Rightarrow> (u64 \<times> int) option \<Rightarrow> ts \<Rightarrow> ts \<Rightarrow> throughputBaseline
     \<Rightarrow> throughput_pair \<times> throughputBaseline" where
  "throughputTick trs uploads now prevAt b =
     (let downloadBytes = sum_list (map (download_delta (tb_Downloads b)) trs);
          (total, upActive) = (case uploads of None \<Rightarrow> (0, 0) | Some x \<Rightarrow> x);
          uploadBytes = (if total \<ge> tb_UploadBytes b then total - tb_UploadBytes b else 0);
          elapsed = now - prevAt;
          timed = (prevAt \<noteq> 0 \<and> elapsed > 0)
      in ((\<lparr>tp_At = now, tp_BytesPerSecond = (if timed then rate downloadBytes elapsed else 0),
            tp_ActiveTransfers = int (length (filter (\<lambda>(i, running, bytes). running) trs))\<rparr>,
           \<lparr>tp_At = now, tp_BytesPerSecond = (if timed then rate (uint uploadBytes) elapsed else 0),
            tp_ActiveTransfers = upActive\<rparr>),
          \<lparr>tb_Downloads = map_of (map (\<lambda>(i, running, bytes). (i, bytes)) trs), tb_UploadBytes = total\<rparr>))"

section \<open>What the meter holds\<close>

text \<open>The samples in the order they came, and the runs of samples of one minute.\<close>

function runs_of :: "('a \<Rightarrow> 'k) \<Rightarrow> 'a list \<Rightarrow> 'a list list" where
  "runs_of f [] = []"
| "runs_of f (x # xs) =
     (x # takeWhile (\<lambda>y. f y = f x) xs) # runs_of f (dropWhile (\<lambda>y. f y = f x) xs)"
  by pat_completeness auto
termination
  by (relation "measure (\<lambda>(f, xs). length xs)") (auto simp: less_Suc_eq_le length_dropWhile_le)

lemma runs_nonempty: "r \<in> set (runs_of f xs) \<Longrightarrow> r \<noteq> []"
  by (induction f xs rule: runs_of.induct) auto

lemma concat_runs [simp]: "concat (runs_of f xs) = xs"
  by (induction f xs rule: runs_of.induct) simp_all

lemma runs_eq_Nil [simp]: "runs_of f xs = [] \<longleftrightarrow> xs = []"
  by (cases xs) simp_all

lemma runs_snoc:
  "runs_of f (xs @ [x]) =
     (if xs \<noteq> [] \<and> f (last xs) = f x then butlast (runs_of f xs) @ [last (runs_of f xs) @ [x]] else runs_of f xs @ [[x]])"
proof (induction f xs rule: runs_of.induct)
  case (2 f a xs)
  show ?case
  proof (cases "\<forall>y \<in> set xs. f y = f a")
    case True
    then have all: "takeWhile (\<lambda>y. f y = f a) xs = xs" "dropWhile (\<lambda>y. f y = f a) xs = []"
      by (simp_all add: takeWhile_eq_all_conv dropWhile_eq_Nil_conv)
    from True have more: "takeWhile (\<lambda>y. f y = f a) (xs @ [x]) = xs @ takeWhile (\<lambda>y. f y = f a) [x]"
      "dropWhile (\<lambda>y. f y = f a) (xs @ [x]) = dropWhile (\<lambda>y. f y = f a) [x]"
      by (simp_all add: takeWhile_append2 dropWhile_append2)
    have final: "f (last (a # xs)) = f a" using True by (cases xs) auto
    show ?thesis
      by (cases "f x = f a") (simp_all add: all more final last_ConsL eq_commute [of "f a"] del: last.simps)
  next
    case False
    then obtain y where y: "y \<in> set xs" "f y \<noteq> f a" by blast
    then have rest: "dropWhile (\<lambda>y. f y = f a) xs \<noteq> []" by (auto simp: dropWhile_eq_Nil_conv)
    then have "last (dropWhile (\<lambda>y. f y = f a) xs) = last xs" by (metis last_appendR takeWhile_dropWhile_id)
    moreover have "takeWhile (\<lambda>y. f y = f a) (xs @ [x]) = takeWhile (\<lambda>y. f y = f a) xs"
      "dropWhile (\<lambda>y. f y = f a) (xs @ [x]) = dropWhile (\<lambda>y. f y = f a) xs @ [x]"
      using y by (auto simp: takeWhile_append1 dropWhile_append1)
    ultimately show ?thesis using 2 rest y by (cases xs) auto
  qed
qed simp

definition run_idle :: "throughput_sample list \<Rightarrow> bool" where
  "run_idle r \<longleftrightarrow> foldl max 0 (map tp_BytesPerSecond r) = 0 \<and> foldl max 0 (map tp_ActiveTransfers r) = 0"

definition run_row :: "throughput_sample list \<Rightarrow> throughput_minute" where
  "run_row r = \<lparr>tm_Minute = minute_of (tp_At (hd r)),
     tm_AvgBytesPerSecond = sum_list (map tp_BytesPerSecond r) sdiv int (length r),
     tm_MaxBytesPerSecond = foldl max 0 (map tp_BytesPerSecond r), tm_MaxActive = foldl max 0 (map tp_ActiveTransfers r),
     tm_Samples = int (length r)\<rparr>"

definition minute_rows :: "throughput_sample list list \<Rightarrow> throughput_minute list" where
  "minute_rows rs = map run_row (filter (\<lambda>r. \<not> run_idle r) rs)"

definition newest :: "nat \<Rightarrow> 'a list \<Rightarrow> 'a list" where
  "newest n xs = drop (length xs - n) xs"

lemma newest_snoc: "0 < n \<Longrightarrow> newest n (xs @ [x]) = (if length (newest n xs) \<ge> n then tl (newest n xs) else newest n xs) @ [x]"
  by (auto simp: newest_def Suc_diff_le tl_drop drop_Suc)

lemma newest_length [simp]: "length (newest n xs) = min n (length xs)"
  by (simp add: newest_def)

definition minute_runs :: "throughput_sample list \<Rightarrow> throughput_sample list list" where
  "minute_runs = runs_of (\<lambda>d. minute_of (tp_At d))"

text \<open>What the meter holds after the samples \<open>ps\<close>.\<close>

definition ring_holds :: "throughput_pair list \<Rightarrow> throughputMeter \<Rightarrow> bool" where
  "ring_holds ps m \<longleftrightarrow> length (mt_Ring m) = throughputWindow \<and> mt_RingLen m = min throughputWindow (length ps)
     \<and> mt_RingNext m = length ps mod throughputWindow
     \<and> (\<forall>i < length ps. length ps \<le> i + throughputWindow \<longrightarrow> mt_Ring m ! (i mod throughputWindow) = ps ! i)"

definition minutes_hold :: "throughput_sample list \<Rightarrow> throughputMeter \<Rightarrow> bool" where
  "minutes_hold ds m \<longleftrightarrow>
     (if ds = [] then mt_Minute m = None \<and> mt_Pending m = [] \<and> mt_Samples m = 0 \<and> mt_SumBytes m = 0
        \<and> mt_PeakBytes m = 0 \<and> mt_MaxActive m = 0
      else let r = last (minute_runs ds)
        in mt_Minute m = Some (minute_of (tp_At (last ds)))
          \<and> mt_SumBytes m = sum_list (map tp_BytesPerSecond r) \<and> mt_PeakBytes m = foldl max 0 (map tp_BytesPerSecond r)
          \<and> mt_MaxActive m = foldl max 0 (map tp_ActiveTransfers r) \<and> mt_Samples m = length r
          \<and> mt_Pending m = newest throughputPendingCap (minute_rows (butlast (minute_runs ds))))"

lemma ring_start: "ring_holds [] newThroughputMeter"
  by (simp add: ring_holds_def newThroughputMeter_def throughputWindow_def)

lemma mod_window_eq:
  assumes "i mod n = j mod n" and "i \<le> j" and "j < i + n"
  shows "i = (j::nat)"
proof (rule ccontr)
  assume "i \<noteq> j"
  then have "0 < j - i" "j - i < n" using assms(2,3) by auto
  moreover have "n dvd j - i" using assms(1,2) by (metis mod_eq_dvd_iff_nat)
  ultimately show False using nat_dvd_not_less by blast
qed

lemma ring_push:
  assumes "ring_holds ps m"
  shows "ring_holds (ps @ [p]) (push_ring p m)"
proof -
  let ?n = throughputWindow
  have n: "0 < ?n" by (simp add: throughputWindow_def)
  from assms have m: "length (mt_Ring m) = ?n" "mt_RingNext m = length ps mod ?n" "mt_RingLen m = min ?n (length ps)"
    "\<And>i. i < length ps \<Longrightarrow> length ps \<le> i + ?n \<Longrightarrow> mt_Ring m ! (i mod ?n) = ps ! i"
    by (auto simp: ring_holds_def)
  have "(mt_Ring m)[length ps mod ?n := p] ! (i mod ?n) = (ps @ [p]) ! i"
    if "i < Suc (length ps)" "Suc (length ps) \<le> i + ?n" for i
  proof (cases "i = length ps")
    case True
    then show ?thesis using m(1) n by simp
  next
    case False
    then have "i mod ?n \<noteq> length ps mod ?n" using that mod_window_eq [of i ?n "length ps"] by linarith
    then show ?thesis using False that m(4) [of i] by (simp add: nth_append)
  qed
  then show ?thesis using m by (auto simp: ring_holds_def push_ring_def mod_Suc_eq)
qed

lemma ring_samples:
  assumes "ring_holds ps m"
  shows "Samples m = \<lparr>tr_Download = map fst (newest throughputWindow ps), tr_Upload = map snd (newest throughputWindow ps)\<rparr>"
proof -
  let ?n = throughputWindow
  have n: "0 < ?n" by (simp add: throughputWindow_def)
  let ?k = "min ?n (length ps)" and ?s = "length ps - ?n"
  from assms have m: "mt_RingLen m = ?k" "mt_RingNext m = length ps mod ?n"
    "\<And>i. i < length ps \<Longrightarrow> length ps \<le> i + ?n \<Longrightarrow> mt_Ring m ! (i mod ?n) = ps ! i"
    by (auto simp: ring_holds_def)
  have start: "((length ps mod ?n + ?n - ?k) mod ?n + i) mod ?n = (?s + i) mod ?n" if "i < ?k" for i
  proof (cases "length ps < ?n")
    case True
    then show ?thesis by simp
  next
    case False
    have "(?s + i) mod ?n = (?s + i + ?n) mod ?n" by simp
    also have "?s + i + ?n = length ps + i" using False by simp
    finally show ?thesis using False n by (simp add: mod_add_left_eq)
  qed
  have "map (\<lambda>i. mt_Ring m ! (((length ps mod ?n + ?n - ?k) mod ?n + i) mod ?n)) [0..<?k] = newest ?n ps"
  proof (rule nth_equalityI)
    fix i assume "i < length (map (\<lambda>i. mt_Ring m ! (((length ps mod ?n + ?n - ?k) mod ?n + i) mod ?n)) [0..<?k])"
    then have i: "i < ?k" by simp
    then have "mt_Ring m ! ((?s + i) mod ?n) = ps ! (?s + i)" by (intro m(3)) auto
    then show "map (\<lambda>i. mt_Ring m ! (((length ps mod ?n + ?n - ?k) mod ?n + i) mod ?n)) [0..<?k] ! i = newest ?n ps ! i"
      using start [OF i] i by (simp add: newest_def)
  qed simp
  then show ?thesis by (simp only: Samples_def m Let_def)
qed

lemma runs_same: "r \<in> set (runs_of f xs) \<Longrightarrow> x \<in> set r \<Longrightarrow> y \<in> set r \<Longrightarrow> f x = f y"
proof (induction f xs rule: runs_of.induct)
  case (2 f a xs)
  show ?case
  proof (cases "r = a # takeWhile (\<lambda>y. f y = f a) xs")
    case True
    then show ?thesis using 2(3,4) by (auto dest!: set_takeWhileD)
  next
    case False
    then show ?thesis using 2 by simp
  qed
qed simp

lemma last_run:
  assumes "xs \<noteq> []"
  shows "last (runs_of f xs) \<noteq> []" and "last (last (runs_of f xs)) = last xs" and "f (hd (last (runs_of f xs))) = f (last xs)"
proof -
  have "last (runs_of f xs) \<in> set (runs_of f xs)" using assms by simp
  then show n: "last (runs_of f xs) \<noteq> []" by (rule runs_nonempty)
  have "xs = concat (butlast (runs_of f xs)) @ last (runs_of f xs)"
    using assms append_butlast_last_id [of "runs_of f xs"] concat_runs [of f xs]
    by (metis concat.simps concat_append append_Nil2 runs_eq_Nil)
  then show l: "last (last (runs_of f xs)) = last xs" using n by (metis last_appendR)
  show "f (hd (last (runs_of f xs))) = f (last xs)"
    unfolding l [symmetric] using n assms by (intro runs_same [where r = "last (runs_of f xs)" and xs = xs]) simp_all
qed

lemma minutes_accumulate:
  assumes h: "minutes_hold ds m"
  shows "minutes_hold (ds @ [d]) (accumulate d m)"
proof (cases "ds = []")
  case True
  then show ?thesis using h
    by (simp add: minutes_hold_def accumulate_def minute_runs_def Let_def minute_rows_def newest_def max_def)
next
  case False
  let ?f = "\<lambda>d. minute_of (tp_At d)" and ?rs = "minute_runs ds"
  let ?r = "last ?rs"
  have runs: "?rs \<noteq> []" "?r \<noteq> []" "minute_of (tp_At (hd ?r)) = minute_of (tp_At (last ds))"
    using last_run(1,3) [OF False, of ?f] False by (simp_all add: minute_runs_def)
  have m: "mt_Minute m = Some (minute_of (tp_At (last ds)))" "mt_SumBytes m = sum_list (map tp_BytesPerSecond ?r)"
    "mt_PeakBytes m = foldl max 0 (map tp_BytesPerSecond ?r)" "mt_MaxActive m = foldl max 0 (map tp_ActiveTransfers ?r)"
    "mt_Samples m = length ?r" "mt_Pending m = newest throughputPendingCap (minute_rows (butlast ?rs))"
    using h False by (simp_all add: minutes_hold_def Let_def)
  show ?thesis
  proof (cases "?f (last ds) = ?f d")
    case True
    then have "minute_runs (ds @ [d]) = butlast ?rs @ [?r @ [d]]" using False by (simp add: minute_runs_def runs_snoc)
    moreover have "accumulate d m = m\<lparr>mt_SumBytes := mt_SumBytes m + tp_BytesPerSecond d,
        mt_PeakBytes := max (mt_PeakBytes m) (tp_BytesPerSecond d), mt_MaxActive := max (mt_MaxActive m) (tp_ActiveTransfers d),
        mt_Samples := mt_Samples m + 1\<rparr>"
      using True by (simp add: accumulate_def m(1) max_def)
    ultimately show ?thesis using True by (simp add: minutes_hold_def Let_def m)
  next
    case other: False
    then have new: "minute_runs (ds @ [d]) = ?rs @ [[d]]" using False by (simp add: minute_runs_def runs_snoc)
    have "minute_rows (butlast ?rs @ [?r]) = minute_rows (butlast ?rs) @ (if run_idle ?r then [] else [run_row ?r])"
      by (simp add: minute_rows_def del: append_butlast_last_id)
    then have rows: "minute_rows ?rs = minute_rows (butlast ?rs) @ (if run_idle ?r then [] else [run_row ?r])"
      using runs(1) by simp
    have cap: "0 < throughputPendingCap" by (simp add: throughputPendingCap_def)
    have idle: "run_idle ?r \<longleftrightarrow> mt_PeakBytes m = 0 \<and> mt_MaxActive m = 0" by (simp add: run_idle_def m)
    have row: "\<lparr>tm_Minute = minute_of (tp_At (last ds)), tm_AvgBytesPerSecond = mt_SumBytes m sdiv int (mt_Samples m),
        tm_MaxBytesPerSecond = mt_PeakBytes m, tm_MaxActive = mt_MaxActive m, tm_Samples = int (mt_Samples m)\<rparr> = run_row ?r"
      by (simp add: run_row_def m runs)
    have samples: "mt_Samples m \<noteq> 0" using m(5) runs(2) by simp
    then have "mt_Pending (closeMinute (minute_of (tp_At (last ds))) m)
        = (if run_idle ?r then mt_Pending m else mt_Pending (enqueuePending (run_row ?r) m))"
      unfolding closeMinute_def idle row by (simp add: Let_def)
    also have "\<dots> = newest throughputPendingCap (minute_rows ?rs)"
      unfolding rows using newest_snoc [OF cap, of "minute_rows (butlast ?rs)" "run_row ?r"]
      by (simp add: enqueuePending_def Let_def m(6))
    finally have pending: "mt_Pending (closeMinute (minute_of (tp_At (last ds))) m) = newest throughputPendingCap (minute_rows ?rs)" .
    have zero: "mt_SumBytes (closeMinute t m) = 0" "mt_PeakBytes (closeMinute t m) = 0" "mt_MaxActive (closeMinute t m) = 0"
      "mt_Samples (closeMinute t m) = 0" for t
      using samples by (simp_all add: closeMinute_def Let_def)
    have "accumulate d m = (let m1 = (closeMinute (minute_of (tp_At (last ds))) m)\<lparr>mt_Minute := Some (minute_of (tp_At d))\<rparr>
        in m1\<lparr>mt_SumBytes := tp_BytesPerSecond d, mt_PeakBytes := max 0 (tp_BytesPerSecond d),
          mt_MaxActive := max 0 (tp_ActiveTransfers d), mt_Samples := 1\<rparr>)"
      using other zero by (simp add: accumulate_def m(1) Let_def max_def)
    then show ?thesis
      using pending by (simp add: minutes_hold_def Let_def new max.commute)
  qed
qed

lemma push_ring_other [simp]:
  "mt_Minute (push_ring p m) = mt_Minute m" "mt_SumBytes (push_ring p m) = mt_SumBytes m"
  "mt_PeakBytes (push_ring p m) = mt_PeakBytes m" "mt_MaxActive (push_ring p m) = mt_MaxActive m"
  "mt_Samples (push_ring p m) = mt_Samples m" "mt_Pending (push_ring p m) = mt_Pending m"
  by (simp_all add: push_ring_def)

lemma minutes_push [simp]: "minutes_hold ds (push_ring p m) = minutes_hold ds m"
  by (simp add: minutes_hold_def)

lemma closeMinute_ring [simp]:
  "mt_Ring (closeMinute t m) = mt_Ring m" "mt_RingLen (closeMinute t m) = mt_RingLen m" "mt_RingNext (closeMinute t m) = mt_RingNext m"
  "mt_Subs (closeMinute t m) = mt_Subs m" "mt_NextSubID (closeMinute t m) = mt_NextSubID m"
  by (simp_all add: closeMinute_def enqueuePending_def Let_def)

lemma accumulate_ring [simp]:
  "mt_Ring (accumulate d m) = mt_Ring m" "mt_RingLen (accumulate d m) = mt_RingLen m" "mt_RingNext (accumulate d m) = mt_RingNext m"
  "mt_Subs (accumulate d m) = mt_Subs m" "mt_NextSubID (accumulate d m) = mt_NextSubID m"
  by (simp_all add: accumulate_def Let_def split: option.split)

lemma ring_accumulate [simp]: "ring_holds ps (accumulate d m) = ring_holds ps m"
  by (simp add: ring_holds_def)

text \<open>A reading: the instant, then rate and count of the downloads and of the uploads.\<close>

type_synonym reading = "ts \<times> int \<times> int \<times> int \<times> int"

definition pair_of :: "reading \<Rightarrow> throughput_pair" where
  "pair_of = (\<lambda>(t, d, da, u, ua).
     (\<lparr>tp_At = t, tp_BytesPerSecond = d, tp_ActiveTransfers = da\<rparr>, \<lparr>tp_At = t, tp_BytesPerSecond = u, tp_ActiveTransfers = ua\<rparr>))"

definition fed :: "reading list \<Rightarrow> throughputMeter" where
  "fed xs = foldl (\<lambda>m (t, d, da, u, ua). fst (record_sample t d da u ua m)) newThroughputMeter xs"

lemma fed_holds: "ring_holds (map pair_of xs) (fed xs) \<and> minutes_hold (map (fst \<circ> pair_of) xs) (fed xs)"
proof (induction xs rule: rev_induct)
  case Nil
  have "minutes_hold [] newThroughputMeter" by (simp add: minutes_hold_def newThroughputMeter_def)
  then show ?case by (simp add: fed_def ring_start)
next
  case (snoc x xs)
  obtain t d da u ua where x: "x = (t, d, da, u, ua)" by (cases x) auto
  have "fed (xs @ [x]) = accumulate (fst (pair_of x)) (push_ring (pair_of x) (fed xs))"
    by (simp add: fed_def x record_sample_def pair_of_def Let_def)
  then show ?case using snoc ring_push minutes_accumulate by (simp add: comp_def)
qed

lemma fed_samples:
  "Samples (fed xs) = \<lparr>tr_Download = map (fst \<circ> pair_of) (newest throughputWindow xs),
     tr_Upload = map (snd \<circ> pair_of) (newest throughputWindow xs)\<rparr>"
  using ring_samples [OF conjunct1 [OF fed_holds]] by (simp add: newest_def drop_map)

lemma fed_minutes:
  "snd (TakeThroughputMinutes p (fed xs))
    = newest throughputPendingCap (minute_rows
        ((if p then id else butlast) (minute_runs (map (fst \<circ> pair_of) xs))))"
proof (cases "xs = []")
  case True
  then show ?thesis
    by (simp add: fed_def newThroughputMeter_def TakeThroughputMinutes_def minute_runs_def minute_rows_def newest_def Let_def)
next
  case False
  let ?ds = "map (fst \<circ> pair_of) xs"
  let ?d = "\<lparr>tp_At = 60000000000 + tp_At (last ?ds), tp_BytesPerSecond = 0, tp_ActiveTransfers = 0\<rparr>"
  have h: "minutes_hold ?ds (fed xs)" using fed_holds by blast
  then have minute: "mt_Minute (fed xs) = Some (minute_of (tp_At (last ?ds)))"
    and pending: "mt_Pending (fed xs) = newest throughputPendingCap (minute_rows (butlast (minute_runs ?ds)))"
    using False by (simp_all add: minutes_hold_def Let_def)
  have late: "minute_of (tp_At ?d) \<noteq> minute_of (tp_At (last ?ds))"
    by (simp add: minute_of_def)
  have "minutes_hold (?ds @ [?d]) (accumulate ?d (fed xs))" by (rule minutes_accumulate [OF h])
  moreover have "minute_runs (?ds @ [?d]) = minute_runs ?ds @ [[?d]]"
    unfolding minute_runs_def runs_snoc using late by (simp add: eq_commute)
  ultimately have "mt_Pending (accumulate ?d (fed xs)) = newest throughputPendingCap (minute_rows (minute_runs ?ds))"
    by (simp add: minutes_hold_def Let_def)
  then have "mt_Pending (closeMinute (minute_of (tp_At (last ?ds))) (fed xs))
      = newest throughputPendingCap (minute_rows (minute_runs ?ds))"
    using late minute by (simp add: accumulate_def Let_def)
  then show ?thesis using minute pending by (simp add: TakeThroughputMinutes_def Let_def)
qed

section \<open>Any order of calls\<close>

datatype meter_call = Record reading | Take bool | Subscribed | Unsubscribed nat

definition meter_step :: "meter_call \<Rightarrow> throughputMeter \<Rightarrow> throughputMeter \<times> (nat \<times> throughput_series) list" where
  "meter_step a m =
     (case a of
        Record (t, d, da, u, ua) \<Rightarrow> record_sample t d da u ua m
      | Take p \<Rightarrow> (fst (TakeThroughputMinutes p m), [])
      | Subscribed \<Rightarrow> (fst (Subscribe m), [])
      | Unsubscribed i \<Rightarrow> (cancel_sub i m, []))"

definition meter_ok :: "throughputMeter \<Rightarrow> bool" where
  "meter_ok m \<longleftrightarrow> length (mt_Ring m) = throughputWindow \<and> mt_RingLen m \<le> throughputWindow
     \<and> length (mt_Pending m) \<le> throughputPendingCap \<and> distinct (mt_Subs m) \<and> (\<forall>i \<in> set (mt_Subs m). i < mt_NextSubID m)"

lemma closeMinute_pending:
  "length (mt_Pending m) \<le> throughputPendingCap \<Longrightarrow> length (mt_Pending (closeMinute t m)) \<le> throughputPendingCap"
  by (auto simp: closeMinute_def enqueuePending_def Let_def throughputPendingCap_def)

lemma accumulate_pending:
  "length (mt_Pending m) \<le> throughputPendingCap \<Longrightarrow> length (mt_Pending (accumulate d m)) \<le> throughputPendingCap"
  by (auto simp: accumulate_def Let_def closeMinute_pending split: option.split)

interpretation meter: safe_automaton meter_step meter_ok "\<lambda>a m. True"
proof
  show "meter_ok (fst (meter_step a m))" if "meter_ok m" for a m
    using that
    by (cases a)
      (auto simp: meter_step_def meter_ok_def record_sample_def Let_def accumulate_pending push_ring_def
        TakeThroughputMinutes_def Subscribe_def cancel_sub_def closeMinute_pending split: option.split)
qed

lemma meter_bounded: "meter_ok (meter.after as newThroughputMeter)"
  by (rule meter.after_good) (simp_all add: meter_ok_def newThroughputMeter_def)

lemma count_distinct: "distinct xs \<Longrightarrow> x \<in> set xs \<Longrightarrow> count_list xs x = 1"
  by (induction xs) (auto simp: count_notin)

text \<open>A subscriber is called with every sample, once, from its subscription to its cancellation.\<close>

lemma subscriber_called:
  assumes "meter_ok m" and "\<forall>a \<in> set as. a \<noteq> Unsubscribed i" and "i \<in> set (mt_Subs m)"
  shows "i \<in> set (mt_Subs (meter.after as m))
    \<and> count_list (map fst (snd (meter_step (Record x) (meter.after as m)))) i = 1"
proof -
  have in_subs: "i \<in> set (mt_Subs (meter.after as m))"
    using assms(2,3)
  proof (induction as rule: rev_induct)
    case (snoc a as)
    then have "i \<in> set (mt_Subs (meter.after as m))" "a \<noteq> Unsubscribed i" by auto
    then show ?case unfolding meter.after_simps
      by (cases a) (auto simp: meter_step_def record_sample_def push_ring_def TakeThroughputMinutes_def Subscribe_def
          cancel_sub_def Let_def split: option.split)
  qed simp
  moreover have "distinct (mt_Subs (meter.after as m))"
    using meter.after_good [of m as] assms(1) by (simp add: meter_ok_def)
  ultimately show ?thesis
    by (cases x) (auto simp: meter_step_def record_sample_def Let_def push_ring_def comp_def count_distinct)
qed

end
