(* ===== verification/PeerPaths.thy ===== *)
theory PeerPaths
  imports Files RefusedFolders
begin

text \<open>
  The names that peers send: where a downloaded file is written (\<open>internal/soulseek/downloads.go\<close>) and
  which virtual path a request means (\<open>shares.go\<close>).
\<close>

section \<open>Paths below a home\<close>

definition absolute :: "string \<Rightarrow> bool" where
  "absolute p \<longleftrightarrow> HasPrefix p ''/''"

definition path_parts :: "string \<Rightarrow> string list" where
  "path_parts p = filter (\<lambda>e. e \<noteq> []) (split_on (CHR ''/'') [] p)"

fun drop_common :: "'a list \<Rightarrow> 'a list \<Rightarrow> 'a list \<times> 'a list" where
  "drop_common (x # xs) (y # ys) = (if x = y then drop_common xs ys else (x # xs, y # ys))"
| "drop_common xs ys = (xs, ys)"

text \<open>\<open>filepath.Rel\<close>\<close>

definition Rel :: "string \<Rightarrow> string \<Rightarrow> string option" where
  "Rel basepath targpath =
     (let base = Clean basepath; targ = Clean targpath
      in if targ = base then Some ''.''
         else
           (let base' = (if base = ''.'' then [] else base);
                (bs, ts) = drop_common (path_parts base') (path_parts targ)
            in if absolute base' \<noteq> absolute targ then None
               else if bs \<noteq> [] \<and> ts \<noteq> [] \<and> hd bs = ''..'' then None
               else Some (Join ''/'' (replicate (length bs) ''..'' @ ts))))"

definition pathWithinRoot :: "string \<Rightarrow> string \<Rightarrow> bool" where
  "pathWithinRoot home p =
     (case Rel home p of None \<Rightarrow> False | Some rel \<Rightarrow> rel \<noteq> ''..'' \<and> \<not> HasPrefix rel ''../'')"

text \<open>\<open>filepath.Join\<close>\<close>

definition Join_path :: "string list \<Rightarrow> string" where
  "Join_path es = (let ne = filter (\<lambda>e. e \<noteq> []) es in if ne = [] then [] else Clean (Join ''/'' ne))"

definition destLeaf :: "string \<Rightarrow> string" where
  "destLeaf filename =
     (let dir = Dir (to_slash filename) in if dir = ''.'' \<or> dir = ''/'' \<or> dir = [] then [] else Base dir)"

definition downloadDestPath :: "string \<Rightarrow> string \<Rightarrow> string" where
  "downloadDestPath completeDir filename =
     (let base = Base (to_slash filename); leaf = destLeaf filename
      in if leaf \<noteq> [] then Join_path [completeDir, leaf, base] else Join_path [completeDir, base])"

datatype path_error = UnsafeDownloadPath

definition safeDownloadDest :: "string \<Rightarrow> string \<Rightarrow> path_error + string" where
  "safeDownloadDest downloadDir filename =
     (let dest = downloadDestPath downloadDir filename
      in if \<not> pathWithinRoot downloadDir dest then Inl UnsafeDownloadPath else Inr dest)"

text \<open>The directory that \<open>DeleteDownloadFolder\<close> deletes, if it may.\<close>

definition folder_to_delete :: "string \<Rightarrow> string \<Rightarrow> path_error + string" where
  "folder_to_delete downloadDir name =
     (let dir = path_Join downloadDir name
      in if dir = downloadDir \<or> \<not> pathWithinRoot downloadDir dir then Inl UnsafeDownloadPath else Inr dir)"

section \<open>Virtual paths\<close>

definition normalizeVirtualPath :: "string \<Rightarrow> string option" where
  "normalizeVirtualPath v =
     (let value = replace_byte (CHR ''/'') [CHR 0x5C] v;
          parts = split_on (CHR 0x5C) [] value
      in if value = [] \<or> HasPrefix value [CHR 0x5C] \<or> HasSuffix value [CHR 0x5C] then None
         else if list_ex (\<lambda>part. part = [] \<or> part = ''.'' \<or> part = ''..'') parts then None
         else Some (Join [CHR 0x5C] parts))"

definition virtualDirectory :: "string \<Rightarrow> string" where
  "virtualDirectory name = rev (tl (dropWhile (\<lambda>c. c \<noteq> CHR 0x5C) (rev name)))"

definition extensionOf :: "unicode \<Rightarrow> string \<Rightarrow> string" where
  "extensionOf u name =
     (let ext = ToLower u (Ext name) in if HasPrefix ext ''.'' then tl ext else ext)"

section \<open>Where an accepted download goes\<close>

lemma split_on_parts: "e \<in> set (split_on (CHR ''/'') acc s) \<Longrightarrow> CHR ''/'' \<notin> set acc \<Longrightarrow> CHR ''/'' \<notin> set e"
  by (induction "CHR ''/''" acc s rule: split_on.induct) (auto split: if_splits)

lemma split_on_not_Nil: "split_on c acc s \<noteq> []"
  by (induction c acc s rule: split_on.induct) simp_all

lemma split_on_Join:
  assumes "es \<noteq> []" and "\<forall>e \<in> set es. c \<notin> set e"
  shows "split_on c [] (Join [c] es) = es"
  using assms
proof (induction es rule: rev_induct)
  case (snoc e es)
  have "split_on c [] (Join [c] es @ c # e) = es @ [e]" if "es \<noteq> []"
    using snoc that by (subst split_on_append) (simp add: split_on_plain)
  then show ?case using snoc.prems by (cases "es = []") (simp_all add: Join_snoc split_on_plain Join_def)
qed simp

definition cleaned :: "string list \<Rightarrow> bool" where
  "cleaned es \<longleftrightarrow> (\<forall>e \<in> set es. e \<noteq> [] \<and> e \<noteq> ''.'' \<and> e \<noteq> ''..'' \<and> CHR ''/'' \<notin> set e)"

lemma clean_elements_rooted:
  "r \<Longrightarrow> \<forall>e \<in> set es. CHR ''/'' \<notin> set e \<Longrightarrow> cleaned out \<Longrightarrow> cleaned (clean_elements r out es)"
proof (induction es arbitrary: out)
  case (Cons e es)
  have rest: "cleaned (clean_elements r out' es)" if "cleaned out'" for out' using Cons that by simp
  have "cleaned (e # out)" if "e \<noteq> []" "e \<noteq> ''.''" "e \<noteq> ''..''" using Cons.prems that by (simp add: cleaned_def)
  moreover have "cleaned (tl out)" "out \<noteq> [] \<Longrightarrow> hd out \<noteq> ''..''" using Cons.prems by (cases out; simp add: cleaned_def)+
  ultimately show ?case using Cons.prems rest by (cases out) (simp_all add: \<open>r\<close>)
qed (simp add: cleaned_def)

lemma absolute_iff: "absolute p \<longleftrightarrow> (\<exists>q. p = CHR ''/'' # q)"
  by (cases p) (auto simp: absolute_def HasPrefix_def)

definition abs_elements :: "string \<Rightarrow> string list" where
  "abs_elements p = clean_elements True [] (split_on (CHR ''/'') [] p)"

lemma abs_elements_cleaned: "cleaned (abs_elements p)"
  unfolding abs_elements_def by (rule clean_elements_rooted) (auto simp: cleaned_def dest: split_on_parts)

lemma Clean_absolute: "absolute p \<Longrightarrow> Clean p = CHR ''/'' # Join ''/'' (abs_elements p)"
  by (simp only: Clean_def absolute_def abs_elements_def Let_def if_True)

lemma absolute_Clean: "absolute p \<Longrightarrow> absolute (Clean p)"
  by (simp add: Clean_absolute absolute_iff [of "_ # _"])

lemma parts_of_Clean: "absolute p \<Longrightarrow> path_parts (Clean p) = abs_elements p"
proof -
  assume "absolute p"
  have "\<forall>e \<in> set (abs_elements p). CHR ''/'' \<notin> set e" using abs_elements_cleaned [of p] by (simp add: cleaned_def)
  then have "split_on (CHR ''/'') [] (CHR ''/'' # Join ''/'' (abs_elements p))
      = [] # (if abs_elements p = [] then [[]] else abs_elements p)"
    using split_on_Join [of "abs_elements p" "CHR ''/''"] by (cases "abs_elements p = []") (simp_all add: Join_def)
  moreover have "filter (\<lambda>e. e \<noteq> []) (abs_elements p) = abs_elements p"
    using abs_elements_cleaned [of p] by (simp add: cleaned_def filter_id_conv)
  ultimately show ?thesis using Clean_absolute [OF \<open>absolute p\<close>] by (simp add: path_parts_def)
qed

lemma Clean_inj: "absolute p \<Longrightarrow> absolute q \<Longrightarrow> Clean p = Clean q \<longleftrightarrow> abs_elements p = abs_elements q"
  using parts_of_Clean by (metis Clean_absolute)

lemma drop_common_split: "drop_common xs ys = (as, bs) \<Longrightarrow> \<exists>cs. xs = cs @ as \<and> ys = cs @ bs"
  by (induction xs ys rule: drop_common.induct) (auto split: if_splits)

lemma within_elements:
  assumes "absolute home" and "absolute p"
  shows "pathWithinRoot home p \<longleftrightarrow> (\<exists>rest. abs_elements p = abs_elements home @ rest)"
proof (cases "Clean p = Clean home")
  case True
  then have "abs_elements p = abs_elements home" using assms Clean_inj by blast
  then show ?thesis using True by (simp add: pathWithinRoot_def Rel_def HasPrefix_def Let_def)
next
  case False
  obtain bs ts where d: "drop_common (abs_elements home) (abs_elements p) = (bs, ts)" by (rule prod.exhaust)
  then obtain cs where cs: "abs_elements home = cs @ bs" "abs_elements p = cs @ ts" using drop_common_split by blast
  have base: "absolute (Clean home)" "absolute (Clean p)" using assms absolute_Clean by auto
  then have "Clean home \<noteq> ''.''" by (auto simp: absolute_iff)
  have bs: "bs \<noteq> [] \<Longrightarrow> hd bs \<noteq> ''..''" using abs_elements_cleaned [of home] cs by (auto simp: cleaned_def)
  have "Rel home p = Some (Join ''/'' (replicate (length bs) ''..'' @ ts))"
    using False base bs \<open>Clean home \<noteq> ''.''\<close> by (simp add: Rel_def Let_def parts_of_Clean assms d) blast
  moreover have "Join ''/'' ts \<noteq> ''..'' \<and> \<not> HasPrefix (Join ''/'' ts) ''../''"
  proof (cases ts)
    case (Cons t ts')
    then have t: "t \<noteq> ''..''" "t \<noteq> []" "CHR ''/'' \<notin> set t" using abs_elements_cleaned [of p] cs by (auto simp: cleaned_def)
    have "Join ''/'' ts = t \<or> (\<exists>s. Join ''/'' ts = t @ ''/'' @ s)" using Cons by (cases ts') (auto simp: Join_def)
    then show ?thesis using t by (cases t; cases "tl t"; cases "tl (tl t)") (auto simp: HasPrefix_def)
  qed (simp add: Join_def HasPrefix_def)
  moreover have "Join ''/'' (''..'' # xs) = ''..'' \<or> HasPrefix (Join ''/'' (''..'' # xs)) ''../''" for xs
    by (cases xs) (simp_all add: Join_def HasPrefix_def)
  ultimately have within: "pathWithinRoot home p \<longleftrightarrow> bs = []"
    by (cases bs) (auto simp: pathWithinRoot_def)
  have "bs = []" if rest: "abs_elements p = abs_elements home @ rest" for rest
  proof -
    have "drop_common xs (xs @ ys) = ([], ys)" for xs ys :: "string list" by (induction xs) (cases ys, auto)
    then show ?thesis using d rest by simp
  qed
  then show ?thesis using within cs by auto
qed

lemma absolute_Join: "absolute home \<Longrightarrow> absolute (Join_path (home # es))"
proof -
  assume "absolute home"
  then have "absolute (Join ''/'' (filter (\<lambda>e. e \<noteq> []) (home # es)))" "home \<noteq> []" by (auto simp: absolute_iff Join_def)
  then show ?thesis using absolute_Clean by (simp add: Join_path_def)
qed

lemma dest_absolute: "absolute home \<Longrightarrow> absolute (downloadDestPath home f)"
  by (simp add: downloadDestPath_def Let_def absolute_Join)


lemma clean_elements_id: "cleaned es \<Longrightarrow> clean_elements True out es = rev out @ es"
  by (induction es arbitrary: out) (auto simp: cleaned_def)

lemma abs_elements_Join: "cleaned es \<Longrightarrow> abs_elements (CHR ''/'' # Join ''/'' es) = es"
proof -
  assume es: "cleaned es"
  have "split_on (CHR ''/'') [] (Join ''/'' es) = (if es = [] then [[]] else es)"
    using es split_on_Join [of es "CHR ''/''"] by (simp add: cleaned_def Join_def)
  then show ?thesis using clean_elements_id [OF es, of "[]"] by (simp add: abs_elements_def)
qed

lemma Join_end: "Join ''/'' (es @ [e]) @ s = Join ''/'' (es @ [e @ s])"
  by (simp add: Join_snoc)

lemma part_elements:
  assumes "q = CHR ''/'' # Join ''/'' (es @ [e])" and "cleaned (es @ [e])"
  shows "abs_elements (q @ ''.part'') = es @ [e @ ''.part'']"
proof -
  have "cleaned (es @ [e @ ''.part''])" using assms(2) by (auto simp: cleaned_def)
  then show ?thesis using abs_elements_Join [of "es @ [e @ ''.part'']"] by (simp add: assms(1) Join_end)
qed

lemma dest_Clean: "absolute home \<Longrightarrow> \<exists>q. absolute q \<and> downloadDestPath home f = Clean q"
proof -
  assume "absolute home"
  then have "absolute (Join ''/'' (filter (\<lambda>e. e \<noteq> []) (home # es)))" "home \<noteq> []" for es by (auto simp: absolute_iff Join_def)
  then have "\<exists>q. absolute q \<and> Join_path (home # es) = Clean q" for es
    by (intro exI [of _ "Join ''/'' (filter (\<lambda>e. e \<noteq> []) (home # es))"]) (simp add: Join_path_def)
  then show ?thesis unfolding downloadDestPath_def Let_def by presburger
qed

lemma safe_dest:
  assumes home: "absolute home" and safe: "safeDownloadDest home f = Inr dest"
  shows "\<exists>rest. abs_elements dest = abs_elements home @ rest \<and> cleaned rest
    \<and> (rest \<noteq> [] \<longrightarrow> abs_elements (dest @ ''.part'') = abs_elements home @ butlast rest @ [last rest @ ''.part''])"
proof -
  have dest: "dest = downloadDestPath home f" "pathWithinRoot home dest"
    using safe by (auto simp: safeDownloadDest_def Let_def split: if_splits)
  obtain q where q: "absolute q" "dest = Clean q" using dest_Clean [OF home] dest(1) by blast
  obtain rest where rest: "abs_elements dest = abs_elements home @ rest"
    using within_elements [OF home] dest q absolute_Clean by metis
  have els: "abs_elements dest = abs_elements q"
    using abs_elements_Join [OF abs_elements_cleaned] by (simp add: q Clean_absolute)
  then have form: "dest = CHR ''/'' # Join ''/'' (abs_elements home @ rest)"
    using rest q Clean_absolute by simp
  have ok: "cleaned (abs_elements home @ rest)" using abs_elements_cleaned [of dest] rest by simp
  have "abs_elements (dest @ ''.part'') = abs_elements home @ butlast rest @ [last rest @ ''.part'']" if "rest \<noteq> []"
  proof -
    have split: "abs_elements home @ rest = (abs_elements home @ butlast rest) @ [last rest]" using that by simp
    show ?thesis using part_elements [OF form [unfolded split] ok [unfolded split]] by simp
  qed
  then show ?thesis using rest ok by (auto simp: cleaned_def)
qed

text \<open>A name that ends in the parent of its own directory means the download directory itself.\<close>

lemma unsafe_part:
  "safeDownloadDest ''/data/downloads'' (''x'' @ CHR 0x5C # ''..'') = Inr ''/data/downloads''
   \<and> \<not> pathWithinRoot ''/data/downloads'' (''/data/downloads'' @ ''.part'')"
  by code_simp

lemma folder_below:
  assumes "absolute home" and "folder_to_delete home name = Inr dir" and "Clean home = home"
  shows "\<exists>rest. rest \<noteq> [] \<and> abs_elements dir = abs_elements home @ rest"
proof -
  have dir: "dir = path_Join home name" "dir \<noteq> home" "pathWithinRoot home dir"
    using assms(2) by (auto simp: folder_to_delete_def Let_def split: if_splits)
  obtain h where h: "home = CHR ''/'' # h" using assms(1) absolute_iff by blast
  then have "\<exists>q. absolute q \<and> dir = Clean q"
    using dir(1) unfolding path_Join_def absolute_iff by (metis append_Cons list.distinct(1))
  then obtain q where q: "absolute q" "dir = Clean q" by blast
  have els: "abs_elements dir = abs_elements q"
    using abs_elements_Join [OF abs_elements_cleaned] by (simp add: q Clean_absolute)
  obtain rest where rest: "abs_elements dir = abs_elements home @ rest"
    using within_elements [OF assms(1)] dir(3) q absolute_Clean by blast
  have "rest \<noteq> []"
  proof
    assume "rest = []"
    then have "Clean q = Clean home" using rest els q(1) assms(1) Clean_inj by simp
    then show False using dir(2) q(2) assms(3) by simp
  qed
  then show ?thesis using rest by blast
qed

section \<open>Normal virtual paths\<close>

lemma replace_absent: "c \<notin> set s \<Longrightarrow> replace_byte c r s = s"
  by (induction s) (auto simp: replace_byte_def)

lemma normal_path:
  assumes "normalizeVirtualPath v = Some n"
  shows "normalizeVirtualPath n = Some n" and "CHR ''/'' \<notin> set n"
    and "list_all (\<lambda>e. e \<noteq> [] \<and> e \<noteq> ''.'' \<and> e \<noteq> ''..'') (split_on (CHR 0x5C) [] n)"
proof -
  let ?b = "CHR 0x5C"
  let ?v = "replace_byte (CHR ''/'') [?b] v"
  let ?ps = "split_on ?b [] ?v"
  have ps: "list_all (\<lambda>e. e \<noteq> [] \<and> e \<noteq> ''.'' \<and> e \<noteq> ''..'') ?ps" and n: "n = Join [?b] ?ps"
    and v: "?v \<noteq> []" "\<not> HasPrefix ?v [?b]" "\<not> HasSuffix ?v [?b]"
    using assms by (auto simp: normalizeVirtualPath_def Let_def list_ex_iff list_all_iff split: if_splits)
  have join: "Join [c] (split_on c acc s) = acc @ s" for c s and acc :: string
  proof (induction s arbitrary: acc)
    case (Cons d s)
    obtain e es where "split_on c [] s = e # es" using split_on_not_Nil by (cases "split_on c [] s") blast+
    then have "Join [c] (acc # split_on c [] s) = acc @ c # s" using Cons [of "[]"] by (simp add: Join_def)
    then show ?case using Cons [of "acc @ [d]"] by simp
  qed (simp add: Join_def)
  have n': "n = ?v" using join [of ?b "[]" ?v] n by simp
  have plain: "CHR ''/'' \<notin> set ?v" by (auto simp: replace_byte_def)
  then have same: "replace_byte (CHR ''/'') [?b] n = n"
    unfolding n' by (rule replace_absent)
  show "normalizeVirtualPath n = Some n"
  proof -
    have "n \<noteq> []" "\<not> HasPrefix n [?b]" "\<not> HasSuffix n [?b]" unfolding n' by (rule v)+
    moreover have "Join [?b] (split_on ?b [] n) = n" using join [of ?b "[]" n] by simp
    moreover have "\<not> list_ex (\<lambda>part. part = [] \<or> part = ''.'' \<or> part = ''..'') (split_on ?b [] n)"
      unfolding n' using ps by (auto simp only: list_ex_iff list_all_iff)
    ultimately show ?thesis unfolding normalizeVirtualPath_def same Let_def by simp
  qed
  show "CHR ''/'' \<notin> set n" using n' plain by simp
  show "list_all (\<lambda>e. e \<noteq> [] \<and> e \<noteq> ''.'' \<and> e \<noteq> ''..'') (split_on ?b [] n)" unfolding n' by (rule ps)
qed

end
