(* ===== verification/TrigramIndex.thy ===== *)
theory TrigramIndex
  imports PeerPaths PeerShares "HOL-Library.AList" "HOL-Library.Multiset"
begin

text \<open>
  The search index over the shared files: \<open>packShareTrigram\<close> and \<open>buildShareTrigramIndex\<close> of
  \<open>internal/soulseek/shares.go\<close>. Every three consecutive bytes of a lowered path are a trigram; the
  index gives, for each, the positions of the files whose path has it. It is built in two passes, one
  that counts and one that fills a single array, with the counters of the code at their width. Every
  index into the array is checked, as the code's are. A context that is done stops it: \<open>ctx p\<close> says
  whether a check at the point \<open>p\<close> finds it so. A map is an association list; the order in which a
  \<open>range\<close> visits one is a parameter, of which only is known that it visits each key once.
\<close>

record indexedFile =
  ix_virtual :: string
  ix_virtualLower :: string
  ix_local :: string
  ix_root :: string
  ix_wire :: File
  ix_modTime :: int
  ix_info :: "nat option" \<comment> \<open>which file the walk saw, by what \<open>os.SameFile\<close> compares\<close>

record buildState =
  bs_start :: u64
  bs_count :: u32
  bs_next :: u32
  bs_last :: u32

type_synonym states = "(u32 \<times> buildState) list"
type_synonym trigrams = "(u32 \<times> u32 list) list"

datatype build_point = Counting nat | Laying | Filling nat | Slicing
datatype build_error = TooManyFiles | TooManyPostings | BuildCancelled | PastTheEnd

section \<open>Trigrams\<close>

definition packShareTrigram :: "string \<Rightarrow> nat \<Rightarrow> u32" where
  "packShareTrigram v i =
     or (or (push_bit 16 (word_of_nat (byte_code (v ! i)))) (push_bit 8 (word_of_nat (byte_code (v ! (i + 1))))))
       (word_of_nat (byte_code (v ! (i + 2))))"

definition grams :: "string \<Rightarrow> u32 list" where
  "grams s = map (packShareTrigram s) [0..<length s - 2]"

section \<open>The two passes\<close>

definition state_of :: "states \<Rightarrow> u32 \<Rightarrow> buildState" where
  "state_of states gram =
     (case map_of states gram of
        None \<Rightarrow> \<lparr>bs_start = 0, bs_count = 0, bs_next = 0, bs_last = 0\<rparr> | Some st \<Rightarrow> st)"

definition count_gram :: "u32 \<Rightarrow> u32 \<Rightarrow> states \<Rightarrow> build_error + states" where
  "count_gram marker gram states =
     (let state = state_of states gram
      in if bs_last state \<noteq> marker
         then if bs_count state = 0xFFFFFFFF then Inl TooManyPostings
              else Inr (AList.update gram (state\<lparr>bs_count := bs_count state + 1, bs_last := marker\<rparr>) states)
         else Inr states)"

fun count_path :: "u32 \<Rightarrow> u32 list \<Rightarrow> states \<Rightarrow> build_error + states" where
  "count_path marker [] states = Inr states"
| "count_path marker (g # gs) states = rbind (count_gram marker g states) (count_path marker gs)"

fun count_paths :: "(build_point \<Rightarrow> bool) \<Rightarrow> nat \<Rightarrow> string list \<Rightarrow> states \<Rightarrow> build_error + states" where
  "count_paths ctx position [] states = Inr states"
| "count_paths ctx position (path # paths) states =
     (if ctx (Counting position) then Inl BuildCancelled
      else rbind (count_path (word_of_nat position + 1) (grams path) states) (count_paths ctx (Suc position) paths))"

fun lay_out :: "u32 list \<Rightarrow> u64 \<Rightarrow> states \<Rightarrow> states \<times> u64" where
  "lay_out [] postingCount states = (states, postingCount)"
| "lay_out (gram # gs) postingCount states =
     (let state = state_of states gram
      in lay_out gs (postingCount + ucast (bs_count state))
           (AList.update gram (state\<lparr>bs_start := postingCount, bs_last := 0\<rparr>) states))"

definition fill_gram :: "u32 \<Rightarrow> u32 \<Rightarrow> states \<times> u32 list \<Rightarrow> build_error + states \<times> u32 list" where
  "fill_gram ident gram = (\<lambda>(states, payload).
     let state = state_of states gram; marker = ident + 1; i = unat (bs_start state) + unat (bs_next state)
     in if bs_last state = marker then Inr (states, payload)
        else if length payload \<le> i then Inl PastTheEnd
        else Inr (AList.update gram (state\<lparr>bs_next := bs_next state + 1, bs_last := marker\<rparr>) states, payload[i := ident]))"

fun fill_path :: "u32 \<Rightarrow> u32 list \<Rightarrow> states \<times> u32 list \<Rightarrow> build_error + states \<times> u32 list" where
  "fill_path ident [] sp = Inr sp"
| "fill_path ident (g # gs) sp = rbind (fill_gram ident g sp) (fill_path ident gs)"

fun fill_paths ::
  "(build_point \<Rightarrow> bool) \<Rightarrow> nat \<Rightarrow> string list \<Rightarrow> states \<times> u32 list \<Rightarrow> build_error + states \<times> u32 list" where
  "fill_paths ctx position [] sp = Inr sp"
| "fill_paths ctx position (path # paths) sp =
     (if ctx (Filling position) then Inl BuildCancelled
      else rbind (fill_path (word_of_nat position) (grams path) sp) (fill_paths ctx (Suc position) paths))"

fun slices :: "u32 list \<Rightarrow> states \<Rightarrow> u32 list \<Rightarrow> build_error + trigrams" where
  "slices payload states [] = Inr []"
| "slices payload states (gram # gs) =
     (let state = state_of states gram; start = unat (bs_start state); count = unat (bs_count state)
      in if length payload < start + count then Inl PastTheEnd
         else rbind (slices payload states gs) (\<lambda>index. Inr ((gram, take count (drop start payload)) # index)))"

definition buildShareTrigramIndex ::
  "(u32 list \<Rightarrow> u32 list) \<Rightarrow> (build_point \<Rightarrow> bool) \<Rightarrow> indexedFile list \<Rightarrow> build_error + trigrams" where
  "buildShareTrigramIndex visit ctx search =
     (let paths = map ix_virtualLower search
      in if length search > 0xFFFFFFFF then Inl TooManyFiles
         else rbind (count_paths ctx 0 paths []) (\<lambda>states.
           if ctx Laying then Inl BuildCancelled
           else
             (let (states, postingCount) = lay_out (visit (map fst states)) 0 states
              in if postingCount > 0x7FFFFFFFFFFFFFFF then Inl TooManyPostings
                 else rbind (fill_paths ctx 0 paths (states, replicate (unat postingCount) 0)) (\<lambda>(states, payload).
                   if ctx Slicing then Inl BuildCancelled else slices payload states (visit (map fst states))))))"

definition postings :: "trigrams \<Rightarrow> u32 \<Rightarrow> u32 list" where
  "postings index gram = (case map_of index gram of None \<Rightarrow> [] | Some p \<Rightarrow> p)"

section \<open>What the index is\<close>

text \<open>The positions below \<open>n\<close> of the paths that have a trigram, in order.\<close>

definition positions :: "string list \<Rightarrow> u32 \<Rightarrow> nat \<Rightarrow> nat list" where
  "positions paths g n = filter (\<lambda>p. g \<in> set (grams (paths ! p))) [0..<n]"

lemma positions_Suc: "positions paths g (Suc n) = positions paths g n @ (if g \<in> set (grams (paths ! n)) then [n] else [])"
  by (simp add: positions_def)

lemma positions_0 [simp]: "positions paths g 0 = []"
  by (simp add: positions_def)

lemma positions_below: "p \<in> set (positions paths g n) \<Longrightarrow> p < n"
  by (simp add: positions_def)

lemma length_positions: "length (positions paths g n) \<le> n"
  unfolding positions_def by (rule order_trans [OF length_filter_le]) simp

lemma grams_small: "g \<in> set (grams s) \<Longrightarrow> unat g < 2 ^ 24"
proof -
  assume "g \<in> set (grams s)"
  then obtain i where g: "g = packShareTrigram s i" by (auto simp: grams_def)
  have high: "\<not> bit (byte_code c) n" if "8 \<le> n" for c n
  proof -
    have "take_bit 8 (byte_code c) = byte_code c"
      using nat_of_char_less_256 [of c] by (simp add: byte_code_def take_bit_nat_eq_self)
    then show ?thesis using that by (metis bit_take_bit_iff not_le)
  qed
  have "take_bit 24 g = g"
    unfolding g packShareTrigram_def
    by (rule bit_eqI) (auto simp: bit_simps high)
  then have "unat g = take_bit 24 (unat g)" by (metis unsigned_take_bit_eq)
  then show ?thesis by (metis take_bit_nat_less_exp)
qed


section \<open>Counting\<close>

lemma state_of_update [simp]: "state_of (AList.update g st s) h = (if h = g then st else state_of s h)"
  by (simp add: state_of_def update_conv)

lemma keys_update: "set (map fst (AList.update g st s)) = insert g (set (map fst s))"
  by (auto simp: update_keys)

definition counting :: "string list \<Rightarrow> nat \<Rightarrow> u32 set \<Rightarrow> states \<Rightarrow> bool" where
  "counting paths p D s \<longleftrightarrow> distinct (map fst s) \<and> set (map fst s) = {g. bs_count (state_of s g) \<noteq> 0}
     \<and> (\<forall>g. unat (bs_count (state_of s g)) = length (positions paths g p) + (if g \<in> D then 1 else 0)
          \<and> bs_next (state_of s g) = 0
          \<and> unat (bs_last (state_of s g)) \<le> Suc p \<and> (unat (bs_last (state_of s g)) = Suc p \<longleftrightarrow> g \<in> D))"

lemma marker_value: "p < 0xFFFFFFFF \<Longrightarrow> unat (word_of_nat p + 1 :: u32) = Suc p"
proof -
  assume "p < 0xFFFFFFFF"
  then have "unat (word_of_nat (Suc p) :: u32) = Suc p" by (intro unat_word_of_nat_id) (simp del: of_nat_Suc)
  then show ?thesis by (metis add.commute of_nat_Suc)
qed

lemma unat_Suc32: "unat (w :: u32) < 0xFFFFFFFF \<Longrightarrow> unat (w + 1) = Suc (unat w)"
  by (simp add: unat_word_ariths)

lemma counting_gram:
  assumes c: "counting paths p D s" and p: "p < 0xFFFFFFFF"
  shows "\<exists>s'. count_gram (word_of_nat p + 1) g s = Inr s' \<and> counting paths p (insert g D) s'"
proof (cases "g \<in> D")
  case True
  then have "bs_last (state_of s g) = word_of_nat p + 1"
    using c marker_value [OF p] by (simp add: counting_def word_eq_iff_unsigned [where 'a = nat])
  then show ?thesis using True c by (simp add: count_gram_def insert_absorb)
next
  case False
  then have fresh: "bs_last (state_of s g) \<noteq> word_of_nat p + 1"
    using c marker_value [OF p] by (auto simp: counting_def)
  have n: "unat (bs_count (state_of s g)) = length (positions paths g p)" using c False by (simp add: counting_def)
  also have "\<dots> < 0xFFFFFFFF" using length_positions [of paths g p] p by linarith
  finally have room_at: "unat (bs_count (state_of s g)) < 0xFFFFFFFF" .
  then have notmax: "bs_count (state_of s g) \<noteq> 0xFFFFFFFF" by auto
  let ?s = "AList.update g (state_of s g\<lparr>bs_count := bs_count (state_of s g) + 1, bs_last := word_of_nat p + 1\<rparr>) s"
  have "count_gram (word_of_nat p + 1) g s = Inr ?s" using fresh notmax by (simp add: count_gram_def Let_def)
  moreover have inc: "unat (bs_count (state_of s g) + 1) = Suc (unat (bs_count (state_of s g)))"
    using room_at by (rule unat_Suc32)
  have "counting paths p (insert g D) ?s"
    unfolding counting_def
  proof (intro conjI allI)
    show "distinct (map fst ?s)" using c by (simp add: counting_def distinct_update)
    have "bs_count (state_of s g) + 1 \<noteq> 0" using inc by (metis nat.distinct(1) unat_0)
    then show "set (map fst ?s) = {h. bs_count (state_of ?s h) \<noteq> 0}"
      using c unfolding keys_update by (auto simp: counting_def)
  qed (use c n inc marker_value [OF p] in \<open>auto simp: counting_def\<close>)
  ultimately show ?thesis by blast
qed

lemma counting_path:
  "counting paths p D s \<Longrightarrow> p < 0xFFFFFFFF \<Longrightarrow>
   \<exists>s'. count_path (word_of_nat p + 1) gs s = Inr s' \<and> counting paths p (D \<union> set gs) s'"
proof (induction gs arbitrary: D s)
  case (Cons g gs)
  obtain s1 where "count_gram (word_of_nat p + 1) g s = Inr s1" "counting paths p (insert g D) s1"
    using counting_gram [OF Cons.prems] by blast
  then show ?case using Cons.IH [of "insert g D" s1] Cons.prems by simp
qed simp

lemma counting_next: "counting paths p (set (grams (paths ! p))) s \<Longrightarrow> counting paths (Suc p) {} s"
  unfolding counting_def positions_Suc by (auto simp: le_Suc_eq)

lemma counting_paths:
  "counting paths p {} s \<Longrightarrow> p + length ps = length paths \<Longrightarrow> drop p paths = ps \<Longrightarrow> length paths \<le> 0xFFFFFFFF \<Longrightarrow>
   (case count_paths ctx p ps s of
      Inl e \<Rightarrow> e = BuildCancelled \<and> (\<exists>q. ctx (Counting q))
    | Inr s' \<Rightarrow> counting paths (length paths) {} s')"
proof (induction ps arbitrary: p s)
  case (Cons path ps)
  then have p: "p < length paths" "path = paths ! p" "drop (Suc p) paths = ps"
    by (auto simp: nth_via_drop drop_Suc drop_tl intro: sym [OF nth_via_drop])
  show ?case
  proof (cases "ctx (Counting p)")
    case False
    have "p < 0xFFFFFFFF" using p(1) Cons.prems(4) by linarith
    then obtain s1 where s1: "count_path (word_of_nat p + 1) (grams path) s = Inr s1" "counting paths p (set (grams path)) s1"
      using counting_path [OF Cons.prems(1)] by auto
    then have "counting paths (Suc p) {} s1" using counting_next p(2) by blast
    then show ?thesis using Cons.IH [of "Suc p" s1] Cons.prems p s1(1) False by simp
  qed auto
qed simp

section \<open>Laying out\<close>

text \<open>Where each trigram has its part of the array, disjoint from the parts of the others.\<close>

definition room_at :: "states \<Rightarrow> u32 \<Rightarrow> nat \<Rightarrow> bool" where
  "room_at s g i \<longleftrightarrow> unat (bs_start (state_of s g)) \<le> i
     \<and> i < unat (bs_start (state_of s g)) + unat (bs_count (state_of s g))"

definition laid :: "states \<Rightarrow> nat \<Rightarrow> nat \<Rightarrow> u32 list \<Rightarrow> bool" where
  "laid s n n' gs \<longleftrightarrow>
     (\<forall>g \<in> set gs. bs_last (state_of s g) = 0 \<and> n \<le> unat (bs_start (state_of s g))
        \<and> unat (bs_start (state_of s g)) + unat (bs_count (state_of s g)) \<le> n')
     \<and> (\<forall>g \<in> set gs. \<forall>h \<in> set gs. \<forall>i. room_at s g i \<longrightarrow> room_at s h i \<longrightarrow> g = h)"

lemma unat_u32: "unat (w :: u32) < 0x10000000000000000"
  using unat_less_exp [of w] by simp

lemma lay_out_spec:
  "lay_out gs n s = (s', n') \<Longrightarrow> distinct gs \<Longrightarrow> set gs \<subseteq> set (map fst s) \<Longrightarrow> distinct (map fst s) \<Longrightarrow>
   unat n + (\<Sum>g\<leftarrow>gs. unat (bs_count (state_of s g))) < 2 ^ 64 \<Longrightarrow>
   unat n' = unat n + (\<Sum>g\<leftarrow>gs. unat (bs_count (state_of s g)))
   \<and> distinct (map fst s') \<and> set (map fst s') = set (map fst s)
   \<and> (\<forall>g. bs_count (state_of s' g) = bs_count (state_of s g) \<and> bs_next (state_of s' g) = bs_next (state_of s g))
   \<and> (\<forall>g. g \<notin> set gs \<longrightarrow> state_of s' g = state_of s g) \<and> laid s' (unat n) (unat n') gs"
proof (induction gs arbitrary: n s)
  case (Cons g gs)
  let ?c = "bs_count (state_of s g)"
  let ?s = "AList.update g (state_of s g\<lparr>bs_start := n, bs_last := 0\<rparr>) s"
  have run: "lay_out gs (n + ucast ?c) ?s = (s', n')" using Cons.prems(1) by (simp add: Let_def)
  have c: "unat (ucast ?c :: u64) = unat ?c" by (simp add: unsigned_ucast_eq take_bit_nat_eq_self unat_u32)
  have "unat n + unat ?c < 2 ^ 64" using Cons.prems(5) by simp
  then have n: "unat (n + ucast ?c) = unat n + unat ?c" using c by (simp add: unat_word_ariths)
  have same: "bs_count (state_of ?s h) = bs_count (state_of s h) \<and> bs_next (state_of ?s h) = bs_next (state_of s h)" for h
    by simp
  have keys: "distinct (map fst ?s)" "set (map fst ?s) = set (map fst s)"
    using Cons.prems(3,4) unfolding keys_update by (simp add: distinct_update, auto)
  have sums: "(\<Sum>g\<leftarrow>gs. unat (bs_count (state_of ?s g))) = (\<Sum>g\<leftarrow>gs. unat (bs_count (state_of s g)))"
    using same by simp
  have ih: "unat n' = unat (n + ucast ?c) + (\<Sum>g\<leftarrow>gs. unat (bs_count (state_of ?s g)))
   \<and> distinct (map fst s') \<and> set (map fst s') = set (map fst ?s)
   \<and> (\<forall>g. bs_count (state_of s' g) = bs_count (state_of ?s g) \<and> bs_next (state_of s' g) = bs_next (state_of ?s g))
   \<and> (\<forall>g. g \<notin> set gs \<longrightarrow> state_of s' g = state_of ?s g) \<and> laid s' (unat (n + ucast ?c)) (unat n') gs"
    by (rule Cons.IH [OF run]) (use Cons.prems n sums keys in auto)
  note ih = ih [unfolded n sums keys(2)]
  have g: "state_of s' g = state_of s g\<lparr>bs_start := n, bs_last := 0\<rparr>" using ih Cons.prems(2) by simp
  have rest: "laid s' (unat n + unat ?c) (unat n') gs"
    and total: "unat n' = unat n + unat ?c + (\<Sum>g\<leftarrow>gs. unat (bs_count (state_of s g)))" using ih by blast+
  have "laid s' (unat n) (unat n') (g # gs)"
    unfolding laid_def
  proof (intro conjI ballI allI impI)
    fix h assume h: "h \<in> set (g # gs)"
    show "bs_last (state_of s' h) = 0" "unat n \<le> unat (bs_start (state_of s' h))"
      "unat (bs_start (state_of s' h)) + unat (bs_count (state_of s' h)) \<le> unat n'"
      using h g rest total by (auto simp: laid_def)
  next
    fix h k i assume h: "h \<in> set (g # gs)" and k: "k \<in> set (g # gs)" and i: "room_at s' h i" "room_at s' k i"
    have head: "i < unat n + unat ?c" if "room_at s' g i" using that g by (simp add: room_at_def)
    have tl: "unat n + unat ?c \<le> i" if "l \<in> set gs" "room_at s' l i" for l
      using that rest by (meson laid_def order_trans room_at_def)
    show "h = k" using h k i head tl rest by (metis laid_def leD set_ConsD)
  qed
  then show ?case using ih Cons.prems(2) same by simp
qed (auto simp: laid_def)

section \<open>Filling\<close>

text \<open>What has been written of a trigram's part: the positions before \<open>p\<close>, and \<open>p\<close> itself once its path had it.\<close>

definition written :: "string list \<Rightarrow> nat \<Rightarrow> u32 set \<Rightarrow> u32 \<Rightarrow> nat list" where
  "written paths p D g = positions paths g p @ (if g \<in> D then [p] else [])"

definition fits :: "string list \<Rightarrow> states \<Rightarrow> nat \<Rightarrow> bool" where
  "fits paths s N \<longleftrightarrow> distinct (map fst s)
     \<and> (\<forall>g. unat (bs_count (state_of s g)) = length (positions paths g (length paths)))
     \<and> (\<forall>g. positions paths g (length paths) \<noteq> [] \<longleftrightarrow> g \<in> set (map fst s))
     \<and> (\<forall>g i. room_at s g i \<longrightarrow> i < N) \<and> (\<forall>g h i. room_at s g i \<longrightarrow> room_at s h i \<longrightarrow> g = h)"

definition filling :: "string list \<Rightarrow> nat \<Rightarrow> u32 set \<Rightarrow> states \<Rightarrow> u32 list \<Rightarrow> bool" where
  "filling paths p D s payload \<longleftrightarrow> fits paths s (length payload) \<and> D \<subseteq> set (grams (paths ! p))
     \<and> (\<forall>g. unat (bs_next (state_of s g)) = length (written paths p D g)
          \<and> unat (bs_last (state_of s g)) \<le> Suc p \<and> (unat (bs_last (state_of s g)) = Suc p \<longleftrightarrow> g \<in> D)
          \<and> (\<forall>i < length (written paths p D g).
               payload ! (unat (bs_start (state_of s g)) + i) = word_of_nat (written paths p D g ! i)))"

lemma positions_mono: "n \<le> m \<Longrightarrow> length (positions paths g n) \<le> length (positions paths g m)"
  by (induction m) (auto simp: positions_Suc le_Suc_eq)

lemma written_fits:
  "p < length paths \<Longrightarrow> D \<subseteq> set (grams (paths ! p)) \<Longrightarrow>
   length (written paths p D g) \<le> length (positions paths g (length paths))"
  using positions_mono [of "Suc p" "length paths" paths g] by (auto simp: written_def positions_Suc split: if_splits)

lemma filling_gram:
  assumes f: "filling paths p D s payload" and p: "p < length paths" "length paths \<le> 0xFFFFFFFF"
    and g: "g \<in> set (grams (paths ! p))"
  shows "\<exists>s' payload'. fill_gram (word_of_nat p) g (s, payload) = Inr (s', payload')
    \<and> filling paths p (insert g D) s' payload' \<and> length payload' = length payload \<and> map fst s' = map fst s"
proof (cases "g \<in> D")
  case True
  have "p < 0xFFFFFFFF" using p by linarith
  then have "bs_last (state_of s g) = word_of_nat p + 1"
    using f True marker_value by (simp add: filling_def word_eq_iff_unsigned [where 'a = nat])
  then show ?thesis using True f by (simp add: fill_gram_def insert_absorb)
next
  case False
  let ?st = "state_of s g" and ?w = "written paths p D g"
  have p': "p < 0xFFFFFFFF" using p by linarith
  have fits: "fits paths s (length payload)" and D: "D \<subseteq> set (grams (paths ! p))"
    and nxt: "unat (bs_next (state_of s h)) = length (written paths p D h)"
    and wrote: "\<And>i. i < length (written paths p D h) \<Longrightarrow>
      payload ! (unat (bs_start (state_of s h)) + i) = word_of_nat (written paths p D h ! i)" for h
    using f by (auto simp: filling_def)
  have fresh: "bs_last ?st \<noteq> word_of_nat p + 1" using f False marker_value [OF p'] by (auto simp: filling_def)
  have "length (written paths p (insert g D) g) \<le> unat (bs_count ?st)"
    using written_fits [OF p(1), of "insert g D" g] D g fits by (simp add: fits_def)
  then have less: "length ?w < unat (bs_count ?st)" using False by (simp add: written_def)
  then have here: "room_at s g (unat (bs_start ?st) + length ?w)" by (simp add: room_at_def)
  have inside: "unat (bs_start ?st) + length ?w < length payload" using here fits unfolding fits_def by blast
  have other: "unat (bs_start ?st) + length ?w \<noteq> unat (bs_start (state_of s h)) + i"
    if "i < length (written paths p D h)" "h \<noteq> g" for h i
  proof
    assume same: "unat (bs_start ?st) + length ?w = unat (bs_start (state_of s h)) + i"
    have "i < unat (bs_count (state_of s h))"
      using that(1) written_fits [OF p(1) D, of h] fits by (simp add: fits_def)
    then have "room_at s h (unat (bs_start ?st) + length ?w)" using same by (simp add: room_at_def)
    then show False using here fits that(2) unfolding fits_def by blast
  qed
  let ?s = "AList.update g (?st\<lparr>bs_next := bs_next ?st + 1, bs_last := word_of_nat p + 1\<rparr>) s"
  let ?pl = "payload[unat (bs_start ?st) + length ?w := word_of_nat p]"
  have run: "fill_gram (word_of_nat p) g (s, payload) = Inr (?s, ?pl)"
    using fresh inside nxt by (simp add: fill_gram_def Let_def)
  have "positions paths g (length paths) \<noteq> []" using less fits by (auto simp: fits_def)
  then have key: "g \<in> set (map fst s)" using fits by (simp add: fits_def)
  have keys: "map fst ?s = map fst s" using key by (simp add: update_keys)
  have same: "bs_start (state_of ?s h) = bs_start (state_of s h)" "bs_count (state_of ?s h) = bs_count (state_of s h)" for h
    by simp_all
  have rooms: "room_at ?s h i = room_at s h i" for h i unfolding room_at_def same ..
  have "unat (bs_next ?st) < 0xFFFFFFFF"
    using nxt [of g] less unat_less_exp [of "bs_count ?st"] by simp
  then have inc: "unat (bs_next ?st + 1) = Suc (length ?w)" using unat_Suc32 nxt by metis
  have w: "written paths p (insert g D) h = (if h = g then ?w @ [p] else written paths p D h)" for h
    using False by (auto simp: written_def)
  have "filling paths p (insert g D) ?s ?pl"
    unfolding filling_def
  proof (intro conjI allI impI)
    show "fits paths ?s (length ?pl)" using fits unfolding fits_def rooms same keys by simp
    show "insert g D \<subseteq> set (grams (paths ! p))" using D g by blast
    fix h
    show "unat (bs_next (state_of ?s h)) = length (written paths p (insert g D) h)" using inc nxt by (simp add: w)
    show "unat (bs_last (state_of ?s h)) \<le> Suc p"
      "(unat (bs_last (state_of ?s h)) = Suc p) = (h \<in> insert g D)"
      using f marker_value [OF p'] by (auto simp: filling_def)
    fix i assume i: "i < length (written paths p (insert g D) h)"
    show "?pl ! (unat (bs_start (state_of ?s h)) + i) = word_of_nat (written paths p (insert g D) h ! i)"
    proof (cases "h = g")
      case True
      then show ?thesis using i inside wrote [of i g] by (auto simp: w nth_append less_Suc_eq)
    next
      case ne: False
      then have "i < length (written paths p D h)" using i by (simp add: w)
      then show ?thesis using other ne wrote by (simp add: w)
    qed
  qed
  then show ?thesis using run keys by auto
qed

lemma filling_path:
  "filling paths p D s payload \<Longrightarrow> p < length paths \<Longrightarrow> length paths \<le> 0xFFFFFFFF \<Longrightarrow> set gs \<subseteq> set (grams (paths ! p)) \<Longrightarrow>
   \<exists>s' payload'. fill_path (word_of_nat p) gs (s, payload) = Inr (s', payload')
     \<and> filling paths p (D \<union> set gs) s' payload' \<and> length payload' = length payload \<and> map fst s' = map fst s"
proof (induction gs arbitrary: D s payload)
  case (Cons g gs)
  have "g \<in> set (grams (paths ! p))" using Cons.prems(4) by simp
  then obtain s1 pl1 where one: "fill_gram (word_of_nat p) g (s, payload) = Inr (s1, pl1)"
    "filling paths p (insert g D) s1 pl1" "length pl1 = length payload" "map fst s1 = map fst s"
    using filling_gram [OF Cons.prems(1-3)] by blast
  then show ?case using Cons.IH [of "insert g D" s1 pl1] Cons.prems by simp
qed simp

lemma filling_next:
  "filling paths p (set (grams (paths ! p))) s payload \<Longrightarrow> filling paths (Suc p) {} s payload"
proof -
  have "written paths (Suc p) {} g = written paths p (set (grams (paths ! p))) g" for g
    by (simp add: written_def positions_Suc)
  moreover assume f: "filling paths p (set (grams (paths ! p))) s payload"
  have "unat (bs_last (state_of s g)) \<le> Suc p" for g using f by (simp add: filling_def)
  then have "unat (bs_last (state_of s g)) \<le> Suc (Suc p) \<and> unat (bs_last (state_of s g)) \<noteq> Suc (Suc p)" for g
    by (metis Suc_n_not_le_n le_SucI)
  ultimately show ?thesis using f unfolding filling_def by simp
qed

lemma filling_paths:
  "filling paths p {} s payload \<Longrightarrow> p + length ps = length paths \<Longrightarrow> drop p paths = ps \<Longrightarrow> length paths \<le> 0xFFFFFFFF \<Longrightarrow>
   (case fill_paths ctx p ps (s, payload) of
      Inl e \<Rightarrow> e = BuildCancelled \<and> (\<exists>q. ctx (Filling q))
    | Inr (s', payload') \<Rightarrow> filling paths (length paths) {} s' payload' \<and> map fst s' = map fst s)"
proof (induction ps arbitrary: p s payload)
  case (Cons path ps)
  then have p: "p < length paths" "path = paths ! p" "drop (Suc p) paths = ps"
    by (auto simp: nth_via_drop drop_Suc drop_tl intro: sym [OF nth_via_drop])
  show ?case
  proof (cases "ctx (Filling p)")
    case False
    obtain s1 pl1 where s1: "fill_path (word_of_nat p) (grams path) (s, payload) = Inr (s1, pl1)"
      "filling paths p (set (grams path)) s1 pl1" "map fst s1 = map fst s"
      using filling_path [OF Cons.prems(1) p(1) Cons.prems(4), of "grams path"] p(2) by auto
    then have "filling paths (Suc p) {} s1 pl1" using filling_next p(2) by blast
    then show ?thesis using Cons.IH [of "Suc p" s1 pl1] Cons.prems p s1(1,3) False by (simp split: sum.splits prod.splits)
  qed auto
qed simp

section \<open>The index holds the positions\<close>

lemma visit_sum:
  assumes c: "counting paths (length paths) {} s" and n: "length paths \<le> 0xFFFFFFFF"
    and v: "distinct gs" "set gs = set (map fst s)"
  shows "(\<Sum>g\<leftarrow>gs. unat (bs_count (state_of s g))) < 2 ^ 56"
proof -
  have "unat g < 2 ^ 24" if "g \<in> set gs" for g
  proof -
    have "bs_count (state_of s g) \<noteq> 0" using that v(2) c by (simp add: counting_def)
    then have "unat (bs_count (state_of s g)) \<noteq> 0" by (simp add: unsigned_eq_0_iff)
    then have "positions paths g (length paths) \<noteq> []" using c by (auto simp: counting_def)
    then show ?thesis using grams_small by (auto simp: positions_def filter_empty_conv)
  qed
  then have sub: "set (map unat gs) \<subseteq> {..<2 ^ 24}" by auto
  have "distinct (map unat gs)" using v(1) by (simp add: distinct_map inj_on_def word_eq_iff_unsigned [where 'a = nat])
  then have "length gs = card (set (map unat gs))" by (simp only: distinct_card length_map)
  also have "\<dots> \<le> card {..<(2 :: nat) ^ 24}" using sub by (intro card_mono) auto
  finally have len: "length gs \<le> 2 ^ 24" by simp
  have each: "unat (bs_count (state_of s g)) \<le> 0xFFFFFFFF" for g
    using c length_positions [of paths g "length paths"] n by (simp add: counting_def)
  have "(\<Sum>g\<leftarrow>gs. unat (bs_count (state_of s g))) \<le> length gs * 0xFFFFFFFF"
    using each by (induction gs) (simp_all add: add_mono)
  also have "\<dots> \<le> 2 ^ 24 * 0xFFFFFFFF" using len by simp
  also have "\<dots> < 2 ^ 56" by simp
  finally show ?thesis .
qed

lemma slices_spec:
  "(\<And>g. g \<in> set gs \<Longrightarrow> unat (bs_start (state_of s g)) + unat (bs_count (state_of s g)) \<le> length payload) \<Longrightarrow>
   slices payload s gs = Inr (map (\<lambda>g.
     (g, take (unat (bs_count (state_of s g))) (drop (unat (bs_start (state_of s g))) payload))) gs)"
proof (induction gs)
  case (Cons g gs)
  have "unat (bs_start (state_of s g)) + unat (bs_count (state_of s g)) \<le> length payload" using Cons.prems by simp
  then show ?case using Cons by (simp add: Let_def not_less)
qed simp

lemma filled_slice:
  assumes f: "filling paths (length paths) {} s payload"
  shows "take (unat (bs_count (state_of s g))) (drop (unat (bs_start (state_of s g))) payload)
      = map word_of_nat (positions paths g (length paths))" (is "?slice = ?ps")
    and "unat (bs_count (state_of s g)) \<noteq> 0 \<Longrightarrow>
      unat (bs_start (state_of s g)) + unat (bs_count (state_of s g)) \<le> length payload"
proof -
  let ?b = "unat (bs_start (state_of s g))" and ?c = "unat (bs_count (state_of s g))"
  have c: "?c = length (positions paths g (length paths))" and fits: "fits paths s (length payload)"
    using f by (auto simp: filling_def fits_def)
  have inside: "?b + i < length payload" if "i < ?c" for i
    using fits that unfolding fits_def room_at_def by (meson le_add1 nat_add_left_cancel_less)
  then show "?c \<noteq> 0 \<Longrightarrow> ?b + ?c \<le> length payload" by (metis Suc_leI add_Suc_right gr0_implies_Suc lessI neq0_conv)
  then have len: "length ?slice = ?c" by (cases "?c = 0") simp_all
  have "payload ! (?b + i) = word_of_nat (positions paths g (length paths) ! i)" if "i < ?c" for i
    using f that c by (simp add: filling_def written_def)
  then have "?slice ! i = ?ps ! i" if "i < ?c" for i using that c inside [OF that] by simp
  then show "?slice = ?ps" using len c by (intro nth_equalityI) simp_all
qed

definition visits_each :: "(u32 list \<Rightarrow> u32 list) \<Rightarrow> bool" where
  "visits_each visit \<longleftrightarrow> (\<forall>xs. distinct xs \<longrightarrow> distinct (visit xs) \<and> set (visit xs) = set xs)"

lemma filling_start:
  assumes c: "counting paths (length paths) {} s" and n: "length paths \<le> 0xFFFFFFFF" and v: "visits_each visit"
    and lay: "lay_out (visit (map fst s)) 0 s = (s', postingCount)"
  shows "filling paths 0 {} s' (replicate (unat postingCount) 0)" and "unat postingCount < 2 ^ 56"
proof -
  let ?gs = "visit (map fst s)"
  have keys: "distinct (map fst s)" "set (map fst s) = {g. bs_count (state_of s g) \<noteq> 0}"
    and cs: "\<And>g. unat (bs_count (state_of s g)) = length (positions paths g (length paths))"
    and zero: "\<And>g. bs_next (state_of s g) = 0" using c by (auto simp: counting_def)
  have gs: "distinct ?gs" "set ?gs = set (map fst s)" using v keys(1) by (auto simp: visits_each_def)
  have small: "(\<Sum>g\<leftarrow>?gs. unat (bs_count (state_of s g))) < 2 ^ 56" by (rule visit_sum [OF c n gs])
  then have "unat (0 :: u64) + (\<Sum>g\<leftarrow>?gs. unat (bs_count (state_of s g))) < 2 ^ 64" by simp
  from lay_out_spec [OF lay gs(1) _ keys(1) this] gs(2)
  have spec: "unat postingCount = (\<Sum>g\<leftarrow>?gs. unat (bs_count (state_of s g)))"
    "distinct (map fst s')" "set (map fst s') = set (map fst s)"
    "\<And>g. bs_count (state_of s' g) = bs_count (state_of s g) \<and> bs_next (state_of s' g) = bs_next (state_of s g)"
    "\<And>g. g \<notin> set ?gs \<Longrightarrow> state_of s' g = state_of s g" "laid s' 0 (unat postingCount) ?gs"
    by auto
  show "unat postingCount < 2 ^ 56" using spec(1) small by simp
  have inkeys: "g \<in> set ?gs" if "room_at s' g i" for g i
  proof -
    have "bs_count (state_of s g) \<noteq> 0" using that spec(4) [of g] by (auto simp: room_at_def)
    then show ?thesis using gs(2) keys(2) by simp
  qed
  have "fits paths s' (unat postingCount)"
    unfolding fits_def
  proof (intro conjI allI impI)
    show "distinct (map fst s')" by (rule spec(2))
    show "unat (bs_count (state_of s' g)) = length (positions paths g (length paths))" for g using spec(4) cs by simp
    show "(positions paths g (length paths) \<noteq> []) = (g \<in> set (map fst s'))" for g
    proof -
      have "positions paths g (length paths) \<noteq> [] \<longleftrightarrow> bs_count (state_of s g) \<noteq> 0"
        using cs [of g] by (metis length_0_conv unsigned_eq_0_iff)
      then show ?thesis using spec(3) keys(2) by simp
    qed
    show "i < unat postingCount" if "room_at s' g i" for g i
      using that inkeys [OF that] spec(6) unfolding laid_def room_at_def by (meson less_le_trans)
    show "g = h" if "room_at s' g i" "room_at s' h i" for g h i
      using that inkeys spec(6) unfolding laid_def by blast
  qed
  moreover have "bs_last (state_of s' g) = 0" for g
  proof (cases "g \<in> set ?gs")
    case True
    then show ?thesis using spec(6) by (simp add: laid_def)
  next
    case False
    then have "map_of s g = None" using gs(2) by (metis map_of_eq_None_iff set_map)
    then show ?thesis using spec(5) [OF False] by (simp add: state_of_def)
  qed
  ultimately show "filling paths 0 {} s' (replicate (unat postingCount) 0)"
    using spec(4) zero by (simp add: filling_def written_def)
qed

lemma counting_start: "counting paths 0 {} []"
  by (simp add: counting_def state_of_def)

lemma filled_index:
  assumes f: "filling paths (length paths) {} s payload" and v: "visits_each visit"
  shows "\<exists>index. slices payload s (visit (map fst s)) = Inr index
    \<and> (\<forall>g. postings index g = map word_of_nat (positions paths g (length paths)))"
proof -
  let ?gs = "visit (map fst s)"
  have keys: "distinct (map fst s)" and pos: "positions paths g (length paths) \<noteq> [] \<longleftrightarrow> g \<in> set (map fst s)" for g
    using f unfolding filling_def fits_def by blast+
  have gs: "set ?gs = set (map fst s)" using v keys by (auto simp: visits_each_def)
  have inside: "unat (bs_start (state_of s g)) + unat (bs_count (state_of s g)) \<le> length payload" if "g \<in> set ?gs" for g
  proof -
    have "unat (bs_count (state_of s g)) = length (positions paths g (length paths))"
      using f by (simp add: filling_def fits_def)
    then have "unat (bs_count (state_of s g)) \<noteq> 0" using that gs pos by (metis length_0_conv)
    then show ?thesis by (rule filled_slice(2) [OF f])
  qed
  let ?index = "map (\<lambda>g. (g, map word_of_nat (positions paths g (length paths)) :: u32 list)) ?gs"
  have "slices payload s ?gs = Inr ?index"
    using slices_spec [of ?gs s payload, OF inside] filled_slice(1) [OF f] by simp
  moreover have "postings ?index g = map word_of_nat (positions paths g (length paths))" for g
    using pos [of g] gs by (cases "g \<in> set ?gs") (auto simp: postings_def map_of_map_restrict)
  ultimately show ?thesis by blast
qed

theorem build_spec:
  assumes v: "visits_each visit"
  shows "case buildShareTrigramIndex visit ctx search of
      Inl e \<Rightarrow> e = TooManyFiles \<and> 0xFFFFFFFF < length search \<or> e = BuildCancelled \<and> (\<exists>p. ctx p)
    | Inr index \<Rightarrow> length search \<le> 0xFFFFFFFF \<and> (\<forall>g. postings index g
        = map word_of_nat (positions (map ix_virtualLower search) g (length search)))"
proof (cases "length search \<le> 0xFFFFFFFF")
  case small: True
  let ?paths = "map ix_virtualLower search"
  show ?thesis
  proof (cases "count_paths ctx 0 ?paths []")
    case (Inl e)
    then show ?thesis using counting_paths [OF counting_start, of ?paths ?paths ctx] small
      by (auto simp: buildShareTrigramIndex_def)
  next
    case (Inr s)
    have c: "counting ?paths (length ?paths) {} s"
      using counting_paths [OF counting_start, of ?paths ?paths ctx] small Inr by simp
    obtain s' n where lay: "lay_out (visit (map fst s)) 0 s = (s', n)" by (rule prod.exhaust)
    have start: "filling ?paths 0 {} s' (replicate (unat n) 0)" "unat n < 2 ^ 56"
      using filling_start [OF c _ v lay] small by simp_all
    then have few: "\<not> n > 0x7FFFFFFFFFFFFFFF" by (simp add: word_less_nat_alt)
    have fill: "case fill_paths ctx 0 ?paths (s', replicate (unat n) 0) of
        Inl e \<Rightarrow> e = BuildCancelled \<and> (\<exists>q. ctx (Filling q))
      | Inr (s'', payload') \<Rightarrow> filling ?paths (length ?paths) {} s'' payload' \<and> map fst s'' = map fst s'"
      using filling_paths [OF start(1), of ?paths ctx] small by simp
    have run: "buildShareTrigramIndex visit ctx search =
        (if ctx Laying then Inl BuildCancelled
         else rbind (fill_paths ctx 0 ?paths (s', replicate (unat n) 0)) (\<lambda>(states, payload).
           if ctx Slicing then Inl BuildCancelled else slices payload states (visit (map fst states))))"
      using few small by (simp add: buildShareTrigramIndex_def Inr lay)
    show ?thesis
    proof (cases "fill_paths ctx 0 ?paths (s', replicate (unat n) 0)")
      case (Inl e)
      then show ?thesis using fill by (auto simp: run)
    next
      case (Inr sp)
      obtain s2 pl where sp: "sp = (s2, pl)" by (rule prod.exhaust)
      then have f: "filling ?paths (length ?paths) {} s2 pl" using fill Inr by simp
      show ?thesis using filled_index [OF f v] small by (auto simp: run Inr sp)
    qed
  qed
qed (simp add: buildShareTrigramIndex_def)

end
