(* ===== verification/ShareSearch.thy ===== *)
theory ShareSearch
  imports TrigramIndex
begin

text \<open>
  Answering a search from the index: \<open>parseShareSearchQuery\<close>, \<open>matchesShareSearch\<close>, the server's excluded
  phrases and \<open>match\<close> of \<open>internal/soulseek/shares.go\<close>. \<open>match\<close> takes the rarest trigram of each term,
  merges their postings and looks only at the files that are in all of them; it answers what looking at
  every file would.
\<close>

section \<open>The query\<close>

fun Contains :: "string \<Rightarrow> string \<Rightarrow> bool" where
  "Contains s sub = (HasPrefix s sub \<or> (case s of [] \<Rightarrow> False | _ # s' \<Rightarrow> Contains s' sub))"

declare Contains.simps [simp del]

text \<open>One term goes to the words that must be there, or, after a minus, to those that must not.\<close>

definition query_term :: "string \<Rightarrow> string list \<times> string list \<Rightarrow> string list \<times> string list" where
  "query_term t = (\<lambda>(include, exclude).
     if HasPrefix t ''-'' \<and> length t > 1
     then (include, if tl t \<in> set exclude then exclude else exclude @ [tl t])
     else if t \<noteq> [] then (if t \<in> set include then include else include @ [t], exclude)
     else (include, exclude))"

definition parseShareSearchQuery :: "unicode \<Rightarrow> string \<Rightarrow> string list \<times> string list" where
  "parseShareSearchQuery u query =
     fold query_term (Fields (ToLower u (replace_byte (CHR ''/'') [CHR 0x5C] query))) ([], [])"

definition matchesShareSearch :: "indexedFile \<Rightarrow> string list \<Rightarrow> string list \<Rightarrow> bool" where
  "matchesShareSearch f include exclude \<longleftrightarrow>
     list_all (\<lambda>t. Contains (ix_virtualLower f) t) include
     \<and> \<not> list_ex (\<lambda>t. Contains (ix_virtualLower f) t) exclude"

definition loweredExcludedPhrases :: "unicode \<Rightarrow> string list option \<Rightarrow> string list" where
  "loweredExcludedPhrases u phrases =
     (case phrases of None \<Rightarrow> [] | Some ps \<Rightarrow> map (ToLower u) (filter (\<lambda>p. p \<noteq> []) ps))"

definition pathExcluded :: "string \<Rightarrow> string list \<Rightarrow> bool" where
  "pathExcluded virtualLower phrases \<longleftrightarrow> list_ex (\<lambda>p. Contains virtualLower p) phrases"

section \<open>Choosing postings\<close>

text \<open>\<open>None\<close>: a trigram that no file has.\<close>

fun rarest :: "trigrams \<Rightarrow> u32 list \<Rightarrow> (u32 \<times> u32 list) option \<Rightarrow> (u32 \<times> u32 list) option option" where
  "rarest index [] best = Some best"
| "rarest index (gram # gs) best =
     (let posting = postings index gram
      in if length posting = 0 then None
         else rarest index gs
           (case best of
              None \<Rightarrow> Some (gram, posting)
            | Some (_, p) \<Rightarrow> if length posting < length p then Some (gram, posting) else best))"

fun choose_postings :: "trigrams \<Rightarrow> string list \<Rightarrow> u32 list \<Rightarrow> u32 list list \<Rightarrow> u32 list list option" where
  "choose_postings index [] seen ps = Some ps"
| "choose_postings index (t # ts) seen ps =
     (case rarest index (grams t) None of
        None \<Rightarrow> None
      | Some None \<Rightarrow> choose_postings index ts seen ps
      | Some (Some (gram, posting)) \<Rightarrow>
          if gram \<in> set seen then choose_postings index ts seen ps else choose_postings index ts (gram # seen) (ps @ [posting]))"

section \<open>Merging postings\<close>

function advance :: "u32 \<Rightarrow> u32 list \<Rightarrow> nat \<Rightarrow> nat" where
  "advance ident posting cursor =
     (if cursor < length posting \<and> posting ! cursor < ident then advance ident posting (Suc cursor) else cursor)"
  by auto
termination by (relation "measure (\<lambda>(ident, posting, cursor). length posting - cursor)") auto

declare advance.simps [simp del]

text \<open>Whether every posting has the position, and where the cursors are then.\<close>

fun probe :: "u32 \<Rightarrow> u32 list list \<Rightarrow> nat list \<Rightarrow> bool \<times> nat list" where
  "probe ident (posting # ps) (cursor # cs) =
     (let c = advance ident posting cursor
      in if c = length posting \<or> posting ! c \<noteq> ident then (False, c # cs)
         else (let (candidate, cs') = probe ident ps cs in (candidate, c # cs')))"
| "probe ident _ cs = (True, cs)"

text \<open>The loops that collect results stop at the limit.\<close>

fun scan_all :: "(indexedFile \<Rightarrow> bool) \<Rightarrow> int \<Rightarrow> indexedFile list \<Rightarrow> File list \<Rightarrow> File list" where
  "scan_all ok limit [] results = results"
| "scan_all ok limit (f # fs) results =
     (if ok f
      then (let rs = results @ [ix_wire f] in if int (length rs) = limit then rs else scan_all ok limit fs rs)
      else scan_all ok limit fs results)"

fun scan_postings ::
  "(indexedFile \<Rightarrow> bool) \<Rightarrow> int \<Rightarrow> indexedFile list \<Rightarrow> u32 list list \<Rightarrow> nat list \<Rightarrow> u32 list \<Rightarrow> File list \<Rightarrow> File list" where
  "scan_postings ok limit search ps cs [] results = results"
| "scan_postings ok limit search ps cs (ident # ids) results =
     (let (candidate, cs') = probe ident ps cs
      in if candidate \<and> unat ident < length search \<and> ok (search ! unat ident)
         then (let rs = results @ [ix_wire (search ! unat ident)]
               in if int (length rs) = limit then rs else scan_postings ok limit search ps cs' ids rs)
         else scan_postings ok limit search ps cs' ids results)"

text \<open>\<open>srt\<close>: \<open>sort.Slice\<close> by length, which leaves open how it orders postings of the same length.\<close>

definition share_match ::
  "unicode \<Rightarrow> (u32 list list \<Rightarrow> u32 list list) \<Rightarrow> indexedFile list \<Rightarrow> trigrams \<Rightarrow> string \<Rightarrow> int \<Rightarrow> string list option
     \<Rightarrow> File list" where
  "share_match u srt search index query limit excludedPhrases =
     (if limit \<le> 0 then []
      else
        (let (include, exclude) = parseShareSearchQuery u query;
             forbidden = loweredExcludedPhrases u excludedPhrases;
             ok = \<lambda>f. matchesShareSearch f include exclude \<and> \<not> pathExcluded (ix_virtualLower f) forbidden
         in if include = [] then []
            else
              (case choose_postings index include [] [] of
                 None \<Rightarrow> []
               | Some [] \<Rightarrow> scan_all ok limit search []
               | Some ps \<Rightarrow>
                   (case srt ps of
                      [] \<Rightarrow> []
                    | p # rest \<Rightarrow> scan_postings ok limit search rest (replicate (length rest) 0) p []))))"

text \<open>What a search means: the first files, in the order of the index, that have every word and none of the others.\<close>

definition linear_match :: "unicode \<Rightarrow> indexedFile list \<Rightarrow> string \<Rightarrow> int \<Rightarrow> string list option \<Rightarrow> File list" where
  "linear_match u search query limit excludedPhrases =
     (let (include, exclude) = parseShareSearchQuery u query
      in if include = [] then []
         else take (nat limit) (map ix_wire (filter (\<lambda>f. matchesShareSearch f include exclude
                \<and> \<not> pathExcluded (ix_virtualLower f) (loweredExcludedPhrases u excludedPhrases)) search)))"

section \<open>Substrings and trigrams\<close>

lemma Contains_iff: "Contains s sub \<longleftrightarrow> (\<exists>a b. s = a @ sub @ b)"
proof (induction s)
  case Nil
  then show ?case by (subst Contains.simps) (auto simp: HasPrefix_def)
next
  case (Cons c s)
  have "HasPrefix (c # s) sub \<longleftrightarrow> (\<exists>b. c # s = sub @ b)"
    by (metis HasPrefix_def append_eq_conv_conj append_take_drop_id)
  moreover have "(\<exists>a b. c # s = a @ sub @ b) \<longleftrightarrow> (\<exists>b. c # s = sub @ b) \<or> (\<exists>a b. s = a @ sub @ b)"
    by (metis append_Cons append_Nil list.exhaust list.inject)
  ultimately show ?case using Cons by (subst Contains.simps) simp
qed

lemma gram_in_context: "i + 2 < length t \<Longrightarrow> packShareTrigram (a @ t @ b) (length a + i) = packShareTrigram t i"
  by (simp add: packShareTrigram_def nth_append)

lemma grams_of_part:
  assumes "Contains s t"
  shows "set (grams t) \<subseteq> set (grams s)"
proof
  fix g assume "g \<in> set (grams t)"
  then obtain i where i: "i + 2 < length t" "g = packShareTrigram t i" by (auto simp: grams_def less_diff_conv)
  obtain a b where s: "s = a @ t @ b" using assms Contains_iff by blast
  have "g = packShareTrigram s (length a + i)" using i gram_in_context [OF i(1)] by (simp add: s)
  moreover have "length a + i < length s - 2" using i(1) by (simp add: s)
  ultimately show "g \<in> set (grams s)" by (simp add: grams_def)
qed

section \<open>Nothing is missed\<close>

definition indexes :: "trigrams \<Rightarrow> indexedFile list \<Rightarrow> bool" where
  "indexes index search \<longleftrightarrow> length search \<le> 0xFFFFFFFF
     \<and> (\<forall>g. postings index g = map word_of_nat (positions (map ix_virtualLower search) g (length search)))"

lemma rarest_spec:
  "case rarest index gs best of
     None \<Rightarrow> \<exists>g \<in> set gs. postings index g = []
   | Some r \<Rightarrow> r = best \<or> (\<exists>g \<in> set gs. r = Some (g, postings index g))"
proof (induction index gs best rule: rarest.induct)
  case (2 index g gs best)
  then show ?case by (auto simp: Let_def split: option.splits prod.splits if_splits)
qed simp

lemma choose_spec:
  "case choose_postings index ts seen ps of
     None \<Rightarrow> \<exists>t \<in> set ts. \<exists>g \<in> set (grams t). postings index g = []
   | Some qs \<Rightarrow> \<forall>q \<in> set qs. q \<in> set ps \<or> (\<exists>t \<in> set ts. \<exists>g \<in> set (grams t). q = postings index g)"
proof (induction index ts seen ps rule: choose_postings.induct)
  case (2 index t ts seen ps)
  show ?case
  proof (cases "rarest index (grams t) None")
    case None
    then show ?thesis using rarest_spec [where index = index and gs = "grams t" and best = None] by simp
  next
    case (Some r)
    then have r: "r = None \<or> (\<exists>g \<in> set (grams t). r = Some (g, postings index g))"
      using rarest_spec [where index = index and gs = "grams t" and best = None] by simp
    then show ?thesis
    proof (elim disjE bexE)
      assume "r = None"
      then show ?thesis using 2(1) [OF Some] Some by (auto split: option.splits)
    next
      fix g assume g: "g \<in> set (grams t)" "r = Some (g, postings index g)"
      have run: "choose_postings index (t # ts) seen ps =
          (if g \<in> set seen then choose_postings index ts seen ps
           else choose_postings index ts (g # seen) (ps @ [postings index g]))" using Some g(2) by simp
      show ?thesis
        using 2(2,3) [OF Some g(2) refl] g(1) unfolding run by (cases "g \<in> set seen") (auto split: option.splits)
    qed
  qed
qed simp

lemma found_positions:
  assumes ix: "indexes index search" and p: "p < length search"
    and t: "Contains (ix_virtualLower (search ! p)) t" and g: "g \<in> set (grams t)"
  shows "word_of_nat p \<in> set (postings index g)"
proof -
  have "g \<in> set (grams (map ix_virtualLower search ! p))" using grams_of_part [OF t] g p by auto
  then have "p \<in> set (positions (map ix_virtualLower search) g (length search))" using p by (simp add: positions_def)
  then show ?thesis using ix by (simp add: indexes_def)
qed

section \<open>The merge\<close>

definition before_cursor :: "u32 \<Rightarrow> u32 list \<Rightarrow> nat \<Rightarrow> bool" where
  "before_cursor ident q c \<longleftrightarrow> c \<le> length q \<and> (\<forall>j < c. q ! j < ident)"

lemma advance_spec:
  "before_cursor ident q c \<Longrightarrow> before_cursor ident q (advance ident q c)
     \<and> (advance ident q c = length q \<or> \<not> q ! advance ident q c < ident)"
proof (induction ident q c rule: advance.induct)
  case (1 ident q c)
  then show ?case by (subst (1 2 3) advance.simps) (auto simp: before_cursor_def less_Suc_eq)
qed

lemma advance_finds:
  assumes c: "before_cursor ident q c" and q: "sorted_wrt (<) q"
  shows "ident \<in> set q \<longleftrightarrow> advance ident q c \<noteq> length q \<and> q ! advance ident q c = ident"
proof -
  let ?c = "advance ident q c"
  have a: "before_cursor ident q ?c" "?c = length q \<or> \<not> q ! ?c < ident" using advance_spec [OF c] by auto
  have "?c < length q \<and> q ! ?c = ident" if m: "ident \<in> set q"
  proof -
    obtain j where j: "j < length q" "q ! j = ident" using m unfolding in_set_conv_nth by blast
    then have "?c \<le> j" using a(1) by (auto simp: before_cursor_def not_less [symmetric])
    moreover have "\<not> ?c < j" using a(2) j sorted_wrt_nth_less [OF q, of ?c j] by auto
    ultimately show ?thesis using j by simp
  qed
  moreover have "ident \<in> set q" if "?c \<noteq> length q" "q ! ?c = ident"
    using a(1) that nth_mem [of ?c q] by (auto simp: before_cursor_def)
  ultimately show ?thesis using less_imp_neq by blast
qed

lemma before_cursor_mono: "before_cursor i q c \<Longrightarrow> i \<le> j \<Longrightarrow> before_cursor j q c"
  by (auto simp: before_cursor_def)

lemma probe_spec:
  "list_all2 (before_cursor ident) ps cs \<Longrightarrow> list_all (sorted_wrt (<)) ps \<Longrightarrow>
   (fst (probe ident ps cs) \<longleftrightarrow> (\<forall>q \<in> set ps. ident \<in> set q)) \<and> list_all2 (before_cursor ident) ps (snd (probe ident ps cs))"
proof (induction ps cs rule: list_all2_induct)
  case (Cons q ps c cs)
  have a: "before_cursor ident q (advance ident q c)" using advance_spec Cons.hyps(1) by blast
  have f: "ident \<in> set q \<longleftrightarrow> advance ident q c \<noteq> length q \<and> q ! advance ident q c = ident"
    using advance_finds Cons by simp
  show ?case using Cons a f by (auto simp: Let_def case_prod_unfold)
qed simp

definition hits :: "indexedFile list \<Rightarrow> u32 list list \<Rightarrow> u32 list \<Rightarrow> indexedFile list" where
  "hits search ps ids =
     map (\<lambda>i. search ! unat i) (filter (\<lambda>i. unat i < length search \<and> (\<forall>q \<in> set ps. i \<in> set q)) ids)"

lemma scan_postings_spec:
  "list_all (sorted_wrt (<)) ps \<Longrightarrow> sorted_wrt (<) ids \<Longrightarrow>
   (\<And>i. i \<in> set ids \<Longrightarrow> list_all2 (before_cursor i) ps cs) \<Longrightarrow> int (length results) < limit \<Longrightarrow>
   scan_postings ok limit search ps cs ids results = take (nat limit) (results @ map ix_wire (filter ok (hits search ps ids)))"
proof (induction ids arbitrary: cs results)
  case (Cons i ids)
  obtain b cs' where probe: "probe i ps cs = (b, cs')" by (rule prod.exhaust)
  have spec: "b \<longleftrightarrow> (\<forall>q \<in> set ps. i \<in> set q)" "list_all2 (before_cursor i) ps cs'"
    using probe_spec [OF Cons.prems(3) Cons.prems(1), of i] probe by auto
  have nxt: "list_all2 (before_cursor j) ps cs'" if "j \<in> set ids" for j
    using spec(2) Cons.prems(2) that by (auto intro: before_cursor_mono less_imp_le elim!: list_all2_mono)
  have ih: "int (length rs) < limit \<Longrightarrow>
      scan_postings ok limit search ps cs' ids rs = take (nat limit) (rs @ map ix_wire (filter ok (hits search ps ids)))" for rs
    using Cons.IH Cons.prems(1,2) nxt by simp
  have full: "take (nat limit) (rs @ xs) = rs" if "int (length rs) = limit" for rs xs :: "File list" using that by auto
  show ?case
  proof (cases "b \<and> unat i < length search \<and> ok (search ! unat i)")
    case True
    then have "hits search ps (i # ids) = search ! unat i # hits search ps ids" using spec(1) by (simp add: hits_def)
    moreover have "int (length (results @ [ix_wire (search ! unat i)])) < limit"
      if "int (length (results @ [ix_wire (search ! unat i)])) \<noteq> limit" using that Cons.prems(4) by simp
    ultimately show ?thesis using True probe ih [of "results @ [ix_wire (search ! unat i)]"]
        full [of "results @ [ix_wire (search ! unat i)]"] by (simp add: Let_def del: take_append)
  next
    case False
    then have "filter ok (hits search ps (i # ids)) = filter ok (hits search ps ids)" using spec(1) by (auto simp: hits_def)
    then show ?thesis using False probe ih [OF Cons.prems(4)] by auto
  qed
qed (simp add: hits_def)

lemma scan_all_spec:
  "int (length results) < limit \<Longrightarrow> scan_all ok limit fs results = take (nat limit) (results @ map ix_wire (filter ok fs))"
proof (induction fs arbitrary: results)
  case (Cons f fs)
  have full: "take (nat limit) (rs @ xs) = rs" if "int (length rs) = limit" for rs xs :: "File list" using that by auto
  show ?case
    using Cons.IH [of "results @ [ix_wire f]"] Cons.IH [of results] Cons.prems full [of "results @ [ix_wire f]"]
    by (cases "int (length results) + 1 = limit") (auto simp: Let_def simp del: take_append)
qed simp

section \<open>A search answers what a look at every file would\<close>

lemma postings_sorted: "indexes index search \<Longrightarrow> sorted_wrt (<) (postings index g)"
proof -
  assume ix: "indexes index search"
  let ?ps = "positions (map ix_virtualLower search) g (length search)"
  have "sorted_wrt (<) ?ps" unfolding positions_def by (intro sorted_wrt_filter) simp
  moreover have "(word_of_nat i :: u32) < word_of_nat j" if "i < j" "j \<in> set ?ps" for i j
  proof -
    have "j < 2 ^ 32" using positions_below [OF that(2)] ix by (simp add: indexes_def)
    then show ?thesis using that(1) unat_word_of_nat_id [where 'a = 32] by (simp add: word_less_nat_alt)
  qed
  ultimately have "sorted_wrt (\<lambda>i j. (word_of_nat i :: u32) < word_of_nat j) ?ps"
    by (auto intro: sorted_wrt_mono_rel [rotated])
  then show ?thesis using ix by (simp add: indexes_def sorted_wrt_map)
qed

lemma filter_hits:
  assumes ix: "indexes index search"
    and all: "\<And>i q. i < length search \<Longrightarrow> ok (search ! i) \<Longrightarrow> q \<in> set (postings index g # rest) \<Longrightarrow> word_of_nat i \<in> set q"
  shows "filter ok (hits search rest (postings index g)) = filter ok search"
proof -
  let ?n = "length search"
  have small: "unat (word_of_nat i :: u32) = i" if "i < ?n" for i
    using that ix by (intro unat_word_of_nat_id) (simp add: indexes_def)
  have posts: "postings index g = map word_of_nat (filter (\<lambda>p. word_of_nat p \<in> set (postings index g)) [0..<?n])"
  proof -
    have "word_of_nat p \<in> set (postings index g) \<longleftrightarrow> g \<in> set (grams (map ix_virtualLower search ! p))" if "p < ?n" for p
    proof
      assume "word_of_nat p \<in> set (postings index g)"
      then obtain q where q: "(word_of_nat p :: u32) = word_of_nat q" "q \<in> set (positions (map ix_virtualLower search) g ?n)"
        using ix by (auto simp: indexes_def)
      then have "p = q" using small [OF that] small [OF positions_below [OF q(2)]] by metis
      then show "g \<in> set (grams (map ix_virtualLower search ! p))" using q(2) that by (simp add: positions_def)
    next
      assume "g \<in> set (grams (map ix_virtualLower search ! p))"
      then have "p \<in> set (positions (map ix_virtualLower search) g ?n)" using that by (simp add: positions_def)
      then show "word_of_nat p \<in> set (postings index g)" using ix by (simp add: indexes_def)
    qed
    then have "filter (\<lambda>p. word_of_nat p \<in> set (postings index g)) [0..<?n] = positions (map ix_virtualLower search) g ?n"
      unfolding positions_def by (intro filter_cong) auto
    then show ?thesis using ix unfolding indexes_def by metis
  qed
  let ?R = "\<lambda>i. (word_of_nat i :: u32) \<in> set (postings index g) \<and> (\<forall>q \<in> set rest. word_of_nat i \<in> set q)"
  have "hits search rest (postings index g) = map ((!) search) (filter ?R [0..<?n])"
    unfolding hits_def by (subst posts, unfold filter_map map_map filter_filter)
      (auto simp: small intro!: map_cong filter_cong)
  then have "filter ok (hits search rest (postings index g)) = map ((!) search) (filter (\<lambda>i. ok (search ! i)) [0..<?n])"
    using all by (auto simp: filter_map o_def intro!: map_cong filter_cong)
  also have "\<dots> = filter ok (map ((!) search) [0..<?n])" by (simp add: filter_map o_def)
  finally show ?thesis by (simp add: map_nth)
qed

lemma merge_complete:
  assumes ix: "indexes index search" and limit: "0 < limit"
    and ps: "\<forall>q \<in> set (p # rest). \<exists>t \<in> set inc. \<exists>g \<in> set (grams t). q = postings index g"
    and ok: "\<And>f t. f \<in> set search \<Longrightarrow> ok f \<Longrightarrow> t \<in> set inc \<Longrightarrow> Contains (ix_virtualLower f) t"
  shows "scan_postings ok limit search rest (replicate (length rest) 0) p [] = take (nat limit) (map ix_wire (filter ok search))"
proof -
  have found: "word_of_nat i \<in> set q" if "i < length search" "ok (search ! i)" "q \<in> set (p # rest)" for i q
    using that found_positions [OF ix that(1)] ok [of "search ! i"] ps by (metis nth_mem)
  obtain g where p: "p = postings index g" using ps by (metis list.set_intros(1))
  have "filter ok (hits search rest p) = filter ok search"
    unfolding p by (rule filter_hits [OF ix]) (use found p in blast)
  moreover have "sorted_wrt (<) q" if "q \<in> set (p # rest)" for q
    using that ps postings_sorted [OF ix] by metis
  moreover have "list_all2 (before_cursor i) rest (replicate (length rest) 0)" for i
    by (simp add: list_all2_conv_all_nth before_cursor_def)
  ultimately show ?thesis
    using scan_postings_spec [of rest p "replicate (length rest) 0" "[]" limit ok search] limit
    by (simp add: list_all_iff)
qed

theorem share_match_linear:
  assumes ix: "indexes index search" and srt: "\<And>ps. mset (srt ps) = mset ps"
  shows "share_match u srt search index query limit phrases = linear_match u search query limit phrases"
proof -
  obtain inc exc where parse: "parseShareSearchQuery u query = (inc, exc)" by (rule prod.exhaust)
  let ?ok = "\<lambda>f. matchesShareSearch f inc exc \<and> \<not> pathExcluded (ix_virtualLower f) (loweredExcludedPhrases u phrases)"
  have ok: "Contains (ix_virtualLower f) t" if "f \<in> set search" "?ok f" "t \<in> set inc" for f t
    using that by (auto simp: matchesShareSearch_def list_all_iff)
  note defs = share_match_def linear_match_def parse
  note chosen = choose_spec [where index = index and ts = inc and seen = "[]" and ps = "[]"]
  show ?thesis
  proof (cases "limit \<le> 0 \<or> inc = []")
    case False
    show ?thesis
    proof (cases "choose_postings index inc [] []")
      case None
      then obtain t g where tg: "t \<in> set inc" "g \<in> set (grams t)" "postings index g = []" using chosen by auto
      then have "\<not> ?ok f" if "f \<in> set search" for f
        using that found_positions [OF ix _ _ tg(2)] ok by (metis empty_iff in_set_conv_nth list.set(1))
      then have "filter ?ok search = []" by (auto simp: filter_empty_conv)
      then show ?thesis using False None by (simp add: defs)
    next
      case (Some ps)
      show ?thesis
      proof (cases "srt ps")
        case Nil
        then have "ps = []" using srt [of ps] by simp
        then show ?thesis using False Some scan_all_spec [of "[]" limit ?ok search] by (simp add: defs)
      next
        case (Cons p rest)
        then have "set (p # rest) = set ps" using srt [of ps] by (metis set_mset_mset)
        then have "\<forall>q \<in> set (p # rest). \<exists>t \<in> set inc. \<exists>g \<in> set (grams t). q = postings index g" "ps \<noteq> []"
          using chosen Some by auto
        then show ?thesis using False Some Cons merge_complete [OF ix _ _ ok, of limit p rest]
          by (cases ps) (simp_all add: defs)
      qed
    qed
  qed (auto simp: defs)
qed

end
