(* ===== verification/ShareSnapshot.thy ===== *)
theory ShareSnapshot
  imports ShareSearch
begin

text \<open>
  What is offered to peers (\<open>internal/soulseek/shareindex.go\<close>, \<open>sharemeta.go\<close> and the parts of \<open>shares.go\<close>
  that put a snapshot together). A snapshot is made from the files of a scan or from the rows a scan left
  in the database; \<open>offers\<close> says what a snapshot of given folders, directories and files is.

  \<open>sort.Slice\<close> leaves the order of equal elements open, and a \<open>range\<close> over a map the order of its
  entries: the three sorts are parameters that return their argument in some ascending order.
\<close>

record SharedFolder =
  shf_Name :: string
  shf_Path :: string

record ShareStats =
  ss_Directories :: nat
  ss_Files :: nat
  ss_TotalBytes :: u64
  ss_IndexedAt :: int
  ss_ScanDuration :: int

record ShareFolderStats =
  sfs_Name :: string
  sfs_Path :: string
  sfs_Directories :: nat
  sfs_Files :: nat
  sfs_TotalBytes :: u64

record ShareFileMeta =
  sfm_Path :: string
  sfm_Size :: int
  sfm_ModTime :: int
  sfm_Bitrate :: u32
  sfm_Duration :: u32

record ShareIndexEntry =
  sie_VirtualPath :: string
  sie_LocalPath :: string
  sie_ShareRoot :: string
  sie_Size :: int
  sie_Extension :: string
  sie_ModTime :: int
  sie_Bitrate :: u32
  sie_Duration :: u32

record ShareIndex =
  si_ScannedAt :: int
  si_ScanDuration :: int
  si_Folders :: "SharedFolder list"
  si_Directories :: "string list"
  si_Files :: "ShareIndexEntry list"
  si_FileCount :: nat
  si_TotalBytes :: u64

record shareSnapshot =
  sn_stats :: ShareStats
  sn_folders :: "ShareFolderStats list"
  sn_files :: "(string \<times> indexedFile) list"
  sn_search :: "indexedFile list"
  sn_trigrams :: trigrams
  sn_directories :: "Directory list"
  sn_sharedFrame :: "u8 list"

record sorts =
  so_files :: "File list \<Rightarrow> File list"
  so_directories :: "Directory list \<Rightarrow> Directory list"
  so_search :: "indexedFile list \<Rightarrow> indexedFile list"
  so_visit :: "u32 list \<Rightarrow> u32 list"

section \<open>Attributes\<close>

definition audioFormatOf :: "unicode \<Rightarrow> string \<Rightarrow> string" where
  "audioFormatOf u path =
     (let ext = extensionOf u path in if ext = ''flac'' then ''flac'' else if ext = ''mp3'' then ''mp3'' else [])"

definition attributesFromCache :: "u32 \<Rightarrow> u32 \<Rightarrow> Attribute list" where
  "attributesFromCache bitrate duration =
     (if bitrate = 0 \<and> duration = 0 then [] else [(0, bitrate), (1, duration)])"

definition attributeValues :: "Attribute list \<Rightarrow> u32 \<times> u32" where
  "attributeValues attrs =
     fold (\<lambda>(code, v) (bitrate, duration).
       if code = 0 then (v, duration) else if code = 1 then (bitrate, v) else (bitrate, duration)) attrs (0, 0)"

definition UnixMicro :: "int \<Rightarrow> int" where
  "UnixMicro t = t div 1000"

definition sameShareFileMeta :: "ShareFileMeta \<Rightarrow> int \<Rightarrow> int \<Rightarrow> bool" where
  "sameShareFileMeta cached siz modified \<longleftrightarrow>
     sfm_Size cached = siz \<and> UnixMicro (sfm_ModTime cached) = UnixMicro modified"

section \<open>Putting a snapshot together\<close>

definition shareFolderOf :: "string \<Rightarrow> string" where
  "shareFolderOf v = takeWhile (\<lambda>c. c \<noteq> CHR 0x5C) v"

definition ensure_directory :: "string \<Rightarrow> (string \<times> Directory) list \<Rightarrow> (string \<times> Directory) list" where
  "ensure_directory name ds = (if name \<in> fst ` set ds then ds else ds @ [(name, \<lparr>dir_Name = name, dir_Files = []\<rparr>)])"

definition add_file :: "string \<Rightarrow> File \<Rightarrow> (string \<times> Directory) list \<Rightarrow> (string \<times> Directory) list" where
  "add_file name f ds =
     (let d = (case map_of ds name of None \<Rightarrow> \<lparr>dir_Name = [], dir_Files = []\<rparr> | Some d \<Rightarrow> d)
      in AList.update name (d\<lparr>dir_Name := name, dir_Files := dir_Files d @ [f]\<rparr>) ds)"

record gathered =
  ga_files :: "(string \<times> indexedFile) list"
  ga_search :: "indexedFile list"
  ga_directories :: "(string \<times> Directory) list"

definition in_directory :: "indexedFile \<Rightarrow> File" where
  "in_directory f = (ix_wire f)\<lparr>file_Name := Base (ix_local f)\<rparr>"

definition add_indexed :: "indexedFile \<Rightarrow> gathered \<Rightarrow> gathered" where
  "add_indexed f ga = ga\<lparr>ga_files := AList.update (ix_virtual f) f (ga_files ga), ga_search := ga_search ga @ [f],
     ga_directories := add_file (virtualDirectory (ix_virtual f)) (in_directory f) (ga_directories ga)\<rparr>"

definition add_directory_to :: "string \<Rightarrow> ShareFolderStats \<Rightarrow> ShareFolderStats" where
  "add_directory_to name st =
     (if sfs_Name st = shareFolderOf name then st\<lparr>sfs_Directories := sfs_Directories st + 1\<rparr> else st)"

definition add_file_to :: "indexedFile \<Rightarrow> ShareFolderStats \<Rightarrow> ShareFolderStats" where
  "add_file_to f st =
     (if sfs_Name st = shareFolderOf (ix_virtual f)
      then st\<lparr>sfs_Files := sfs_Files st + 1, sfs_TotalBytes := sfs_TotalBytes st + file_Size (ix_wire f)\<rparr> else st)"

datatype share_error =
  ShareTooLarge nat nat | ShareCancelled | ShareIndexError build_error | ShareFrameError wire_error

datatype publish_point = LoadingRow nat | Building build_point

text \<open>What both ways of making a snapshot end with.\<close>

definition finish_snapshot ::
  "unicode \<Rightarrow> (u8 list \<Rightarrow> u8 list) \<Rightarrow> sorts \<Rightarrow> (publish_point \<Rightarrow> bool) \<Rightarrow> int \<Rightarrow> int \<Rightarrow> ShareFolderStats list
     \<Rightarrow> gathered \<Rightarrow> share_error + shareSnapshot" where
  "finish_snapshot u deflate so ctx indexedAt scanDuration perFolder ga =
     (let directories = so_directories so
            (map (\<lambda>(_, d). d\<lparr>dir_Files := so_files so (dir_Files d)\<rparr>) (ga_directories ga));
          search = so_search so (ga_search ga)
      in case buildShareTrigramIndex (so_visit so) (\<lambda>p. ctx (Building p)) search of
           Inl e \<Rightarrow> Inl (ShareIndexError e)
         | Inr index \<Rightarrow>
             (case SharedFileListResponse_Serialize deflate
                 \<lparr>sf_Directories = directories, sf_PrivateDirectories = []\<rparr> of
                Inl MessageTooLarge \<Rightarrow> Inl (ShareTooLarge (length search) (length directories))
              | Inl e \<Rightarrow> Inl (ShareFrameError e)
              | Inr frame \<Rightarrow> Inr \<lparr>
                  sn_stats = \<lparr>ss_Directories = length directories, ss_Files = length search,
                    ss_TotalBytes = sum_list (map sfs_TotalBytes perFolder), ss_IndexedAt = indexedAt,
                    ss_ScanDuration = scanDuration\<rparr>,
                  sn_folders = perFolder, sn_files = ga_files ga, sn_search = search, sn_trigrams = index,
                  sn_directories = directories, sn_sharedFrame = frame\<rparr>))"

section \<open>From the rows of a scan\<close>

definition indexed_of :: "unicode \<Rightarrow> ShareIndexEntry \<Rightarrow> indexedFile" where
  "indexed_of u e = \<lparr>ix_virtual = sie_VirtualPath e, ix_virtualLower = ToLower u (sie_VirtualPath e),
     ix_local = sie_LocalPath e, ix_root = sie_ShareRoot e,
     ix_wire = \<lparr>file_Name = sie_VirtualPath e, file_Size = word_of_int (sie_Size e),
       file_Extension = sie_Extension e, file_Attributes = attributesFromCache (sie_Bitrate e) (sie_Duration e)\<rparr>,
     ix_modTime = sie_ModTime e, ix_info = None\<rparr>"

text \<open>Folder statistics, one for each name, in the order of the names.\<close>

fun folder_stats :: "string list \<Rightarrow> SharedFolder list \<Rightarrow> ShareFolderStats list" where
  "folder_stats names [] = []"
| "folder_stats names (f # fs) =
     (if shf_Name f \<in> set names then folder_stats names fs
      else \<lparr>sfs_Name = shf_Name f, sfs_Path = shf_Path f, sfs_Directories = 0, sfs_Files = 0, sfs_TotalBytes = 0\<rparr>
        # folder_stats (shf_Name f # names) fs)"

fun load_rows ::
  "unicode \<Rightarrow> (publish_point \<Rightarrow> bool) \<Rightarrow> nat \<Rightarrow> ShareIndexEntry list \<Rightarrow> ShareFolderStats list \<times> gathered
     \<Rightarrow> share_error + ShareFolderStats list \<times> gathered" where
  "load_rows u ctx i [] acc = Inr acc"
| "load_rows u ctx i (e # es) (perFolder, ga) =
     (if i mod 4096 = 0 \<and> ctx (LoadingRow i) then Inl ShareCancelled
      else let f = indexed_of u e
           in load_rows u ctx (Suc i) es (map (add_file_to f) perFolder, add_indexed f ga))"

definition rebuildShareSnapshot ::
  "unicode \<Rightarrow> (u8 list \<Rightarrow> u8 list) \<Rightarrow> sorts \<Rightarrow> (publish_point \<Rightarrow> bool) \<Rightarrow> ShareIndex \<Rightarrow> share_error + shareSnapshot" where
  "rebuildShareSnapshot u deflate so ctx index =
     (let directories = fold ensure_directory (si_Directories index) [];
          perFolder = fold (\<lambda>(name, _). map (add_directory_to name)) directories (folder_stats [] (si_Folders index))
      in rbind (load_rows u ctx 0 (si_Files index)
             (perFolder, \<lparr>ga_files = [], ga_search = [], ga_directories = directories\<rparr>)) (\<lambda>(perFolder, ga).
           finish_snapshot u deflate so ctx (si_ScannedAt index) (si_ScanDuration index) perFolder ga))"

text \<open>The rows that are saved of a snapshot; the store counts them itself.\<close>

definition index_entry_of :: "indexedFile \<Rightarrow> ShareIndexEntry" where
  "index_entry_of f =
     (let (bitrate, duration) = attributeValues (file_Attributes (ix_wire f))
      in \<lparr>sie_VirtualPath = ix_virtual f, sie_LocalPath = ix_local f, sie_ShareRoot = ix_root f,
         sie_Size = sint (file_Size (ix_wire f)), sie_Extension = file_Extension (ix_wire f),
         sie_ModTime = ix_modTime f, sie_Bitrate = bitrate, sie_Duration = duration\<rparr>)"

definition saved_index :: "SharedFolder list \<Rightarrow> shareSnapshot \<Rightarrow> ShareIndex" where
  "saved_index configured sn = \<lparr>si_ScannedAt = ss_IndexedAt (sn_stats sn), si_ScanDuration = ss_ScanDuration (sn_stats sn),
     si_Folders = configured, si_Directories = map dir_Name (sn_directories sn),
     si_Files = map index_entry_of (sn_search sn), si_FileCount = 0, si_TotalBytes = ss_TotalBytes (sn_stats sn)\<rparr>"

section \<open>Whether the rows may be used\<close>

datatype folder_change = FolderAdded string | FolderMoved string string string | FolderRemoved string

definition folder_map :: "SharedFolder list \<Rightarrow> string \<Rightarrow> string option" where
  "folder_map fs = map_of (rev (map (\<lambda>f. (shf_Name f, shf_Path f)) fs))"

definition diffSharedFolders :: "SharedFolder list \<Rightarrow> SharedFolder list \<Rightarrow> folder_change list" where
  "diffSharedFolders stored configured =
     concat (map (\<lambda>f. case folder_map stored (shf_Name f) of
         None \<Rightarrow> [FolderAdded (shf_Name f)]
       | Some p \<Rightarrow> if p \<noteq> shf_Path f then [FolderMoved (shf_Name f) p (shf_Path f)] else []) configured)
     @ concat (map (\<lambda>f. if folder_map configured (shf_Name f) = None then [FolderRemoved (shf_Name f)] else []) stored)"

datatype load_reason = ReadFailed | NothingStored | FoldersChanged "folder_change list" | Incomplete nat nat

definition loadShareIndex :: "SharedFolder list \<Rightarrow> (unit + ShareIndex option) \<Rightarrow> load_reason + ShareIndex" where
  "loadShareIndex configured answer =
     (case answer of
        Inl _ \<Rightarrow> Inl ReadFailed
      | Inr None \<Rightarrow> Inl NothingStored
      | Inr (Some stored) \<Rightarrow>
          if diffSharedFolders (si_Folders stored) configured \<noteq> []
          then Inl (FoldersChanged (diffSharedFolders (si_Folders stored) configured))
          else if si_FileCount stored \<noteq> length (si_Files stored)
          then Inl (Incomplete (si_FileCount stored) (length (si_Files stored)))
          else Inr stored)"

section \<open>What a snapshot offers\<close>

definition ascending :: "('a \<Rightarrow> string) \<Rightarrow> 'a list \<Rightarrow> bool" where
  "ascending key xs \<longleftrightarrow> sorted_wrt (\<lambda>a b. \<not> string_less (key b) (key a)) xs"

definition sorting :: "unicode \<Rightarrow> sorts \<Rightarrow> bool" where
  "sorting u so \<longleftrightarrow>
     (\<forall>fs. mset (so_files so fs) = mset fs \<and> ascending (\<lambda>f. ToLower u (file_Name f)) (so_files so fs))
     \<and> (\<forall>ds. mset (so_directories so ds) = mset ds \<and> ascending (\<lambda>d. ToLower u (dir_Name d)) (so_directories so ds))
     \<and> (\<forall>fs. mset (so_search so fs) = mset fs \<and> ascending ix_virtualLower (so_search so fs))
     \<and> visits_each (so_visit so)"

definition counted :: "string list \<Rightarrow> indexedFile list \<Rightarrow> ShareFolderStats \<Rightarrow> ShareFolderStats" where
  "counted dirs files st =
     (let mine = filter (\<lambda>f. shareFolderOf (ix_virtual f) = sfs_Name st) files
      in st\<lparr>sfs_Directories := length (filter (\<lambda>d. shareFolderOf d = sfs_Name st) dirs), sfs_Files := length mine,
           sfs_TotalBytes := sum_list (map (\<lambda>f. file_Size (ix_wire f)) mine)\<rparr>)"

definition offers ::
  "unicode \<Rightarrow> (u8 list \<Rightarrow> u8 list) \<Rightarrow> SharedFolder list \<Rightarrow> string list \<Rightarrow> indexedFile list \<Rightarrow> shareSnapshot \<Rightarrow> bool" where
  "offers u deflate fs dirs files sn \<longleftrightarrow>
     mset (sn_search sn) = mset files \<and> ascending ix_virtualLower (sn_search sn) \<and> indexes (sn_trigrams sn) (sn_search sn)
     \<and> (\<forall>v. map_of (sn_files sn) v = map_of (rev (map (\<lambda>f. (ix_virtual f, f)) files)) v)
     \<and> mset (map dir_Name (sn_directories sn)) = mset dirs \<and> ascending (\<lambda>d. ToLower u (dir_Name d)) (sn_directories sn)
     \<and> (\<forall>d \<in> set (sn_directories sn). ascending (\<lambda>f. ToLower u (file_Name f)) (dir_Files d)
          \<and> mset (dir_Files d) = mset (map in_directory (filter (\<lambda>f. virtualDirectory (ix_virtual f) = dir_Name d) files)))
     \<and> sn_folders sn = map (counted dirs files) (folder_stats [] fs)
     \<and> ss_Directories (sn_stats sn) = length dirs \<and> ss_Files (sn_stats sn) = length files
     \<and> ss_TotalBytes (sn_stats sn) = sum_list (map sfs_TotalBytes (sn_folders sn))
     \<and> SharedFileListResponse_Serialize deflate
         \<lparr>sf_Directories = sn_directories sn, sf_PrivateDirectories = []\<rparr> = Inr (sn_sharedFrame sn)"

text \<open>What has been gathered from the directories \<open>dirs\<close> and the files.\<close>

definition gathers :: "string list \<Rightarrow> indexedFile list \<Rightarrow> gathered \<Rightarrow> bool" where
  "gathers dirs files ga \<longleftrightarrow> ga_search ga = files
     \<and> map_of (ga_files ga) = map_of (rev (map (\<lambda>f. (ix_virtual f, f)) files))
     \<and> map fst (ga_directories ga) = dirs
     \<and> (\<forall>(n, d) \<in> set (ga_directories ga). dir_Name d = n
          \<and> dir_Files d = map in_directory (filter (\<lambda>f. virtualDirectory (ix_virtual f) = n) files))"

lemma gathers_file:
  assumes g: "gathers dirs files ga" and d: "distinct dirs" "virtualDirectory (ix_virtual f) \<in> set dirs"
  shows "gathers dirs (files @ [f]) (add_indexed f ga)"
proof -
  let ?n = "virtualDirectory (ix_virtual f)" and ?ds = "ga_directories ga"
  have keys: "map fst ?ds = dirs" and each: "\<forall>(n, d) \<in> set ?ds. dir_Name d = n
      \<and> dir_Files d = map in_directory (filter (\<lambda>f. virtualDirectory (ix_virtual f) = n) files)"
    using g by (auto simp: gathers_def)
  obtain e where e: "map_of ?ds ?n = Some e" using d(2) keys by (metis map_of_eq_None_iff not_None_eq set_map)
  then have e_in: "(?n, e) \<in> set ?ds" by (rule map_of_SomeD)
  have dist: "distinct (map fst ?ds)" using keys d(1) by simp
  let ?e = "e\<lparr>dir_Name := ?n, dir_Files := dir_Files e @ [in_directory f]\<rparr>"
  have upd: "add_file ?n (in_directory f) ?ds = AList.update ?n ?e ?ds" using e by (simp add: add_file_def)
  have keys': "map fst (AList.update ?n ?e ?ds) = dirs" using keys d(2) by (simp add: update_keys)
  have "dir_Name d = n
      \<and> dir_Files d = map in_directory (filter (\<lambda>f. virtualDirectory (ix_virtual f) = n) (files @ [f]))"
    if m: "(n, d) \<in> set (AList.update ?n ?e ?ds)" for n d
  proof -
    have "map_of (AList.update ?n ?e ?ds) n = Some d" using m keys' d(1) by (intro map_of_is_SomeI) simp_all
    then have "if n = ?n then d = ?e else map_of ?ds n = Some d" by (simp add: update_conv split: if_splits)
    then show ?thesis using each e_in map_of_SomeD [of ?ds n d] by (auto split: if_splits)
  qed
  then show ?thesis
    using g upd keys' by (auto simp: gathers_def add_indexed_def update_conv)
qed

lemma stable_name [simp]: "sfs_Name (add_directory_to n st) = sfs_Name st" "sfs_Name (add_file_to f st) = sfs_Name st"
  by (simp_all add: add_directory_to_def add_file_to_def)

lemma add_directories: "fold add_directory_to names st =
    st\<lparr>sfs_Directories := sfs_Directories st + length (filter (\<lambda>d. shareFolderOf d = sfs_Name st) names)\<rparr>"
  by (induction names arbitrary: st) (auto simp: add_directory_to_def)

lemma add_files: "fold add_file_to files st = (let mine = filter (\<lambda>f. shareFolderOf (ix_virtual f) = sfs_Name st) files
    in st\<lparr>sfs_Files := sfs_Files st + length mine,
         sfs_TotalBytes := sfs_TotalBytes st + sum_list (map (\<lambda>f. file_Size (ix_wire f)) mine)\<rparr>)"
  by (induction files arbitrary: st) (auto simp: add_file_to_def Let_def algebra_simps)

lemma fold_each: "fold (\<lambda>x. map (g x)) xs ys = map (fold g xs) ys"
  by (induction xs arbitrary: ys) (simp_all add: o_def)

lemma finish_offers:
  assumes so: "sorting u so" and ga: "gathers dirs files ga"
    and run: "finish_snapshot u deflate so ctx indexedAt scanDuration (map (counted dirs files) (folder_stats [] fs)) ga = Inr sn"
  shows "offers u deflate fs dirs files sn \<and> ss_IndexedAt (sn_stats sn) = indexedAt
    \<and> ss_ScanDuration (sn_stats sn) = scanDuration"
proof -
  let ?ds = "map (\<lambda>(_, d). d\<lparr>dir_Files := so_files so (dir_Files d)\<rparr>) (ga_directories ga)"
  let ?dirs = "so_directories so ?ds" and ?search = "so_search so files"
  have s: "ga_search ga = files" "map fst (ga_directories ga) = dirs" using ga by (auto simp: gathers_def)
  let ?build = "buildShareTrigramIndex (so_visit so) (\<lambda>p. ctx (Building p)) ?search"
  let ?frame = "SharedFileListResponse_Serialize deflate \<lparr>sf_Directories = ?dirs, sf_PrivateDirectories = []\<rparr>"
  let ?perFolder = "map (counted dirs files) (folder_stats [] fs)"
  have run': "(case ?build of Inl e \<Rightarrow> Inl (ShareIndexError e)
      | Inr index \<Rightarrow> (case ?frame of
          Inl MessageTooLarge \<Rightarrow> Inl (ShareTooLarge (length ?search) (length ?dirs))
        | Inl e \<Rightarrow> Inl (ShareFrameError e)
        | Inr frame \<Rightarrow> Inr \<lparr>sn_stats = \<lparr>ss_Directories = length ?dirs, ss_Files = length ?search,
            ss_TotalBytes = sum_list (map sfs_TotalBytes ?perFolder), ss_IndexedAt = indexedAt,
            ss_ScanDuration = scanDuration\<rparr>, sn_folders = ?perFolder, sn_files = ga_files ga, sn_search = ?search,
            sn_trigrams = index, sn_directories = ?dirs, sn_sharedFrame = frame\<rparr>)) = Inr sn"
    using run unfolding finish_snapshot_def Let_def s .
  obtain index where ix: "?build = Inr index" using run' by (cases ?build) simp_all
  obtain frame where frame: "?frame = Inr frame"
  proof (cases ?frame)
    case (Inl e)
    then show ?thesis using run' unfolding ix by (cases e) simp_all
  qed
  have sn: "sn = \<lparr>sn_stats = \<lparr>ss_Directories = length ?dirs, ss_Files = length ?search,
      ss_TotalBytes = sum_list (map sfs_TotalBytes ?perFolder),
      ss_IndexedAt = indexedAt, ss_ScanDuration = scanDuration\<rparr>,
      sn_folders = ?perFolder, sn_files = ga_files ga, sn_search = ?search,
      sn_trigrams = index, sn_directories = ?dirs, sn_sharedFrame = frame\<rparr>"
    using run' unfolding ix frame sum.case by (rule Inr_inject [symmetric])
  have so': "mset ?search = mset files" "ascending ix_virtualLower ?search" "mset ?dirs = mset ?ds"
    "ascending (\<lambda>d. ToLower u (dir_Name d)) ?dirs" "visits_each (so_visit so)"
    using so by (simp_all add: sorting_def)
  have ix': "indexes index ?search" using build_spec [OF so'(5), where ctx = "\<lambda>p. ctx (Building p)" and search = ?search] ix by (simp add: indexes_def)
  have ds: "map dir_Name ?ds = dirs"
  proof -
    have "\<And>p. p \<in> set (ga_directories ga) \<Longrightarrow> dir_Name (snd p) = fst p" using ga by (auto simp: gathers_def)
    then have "map dir_Name ?ds = map fst (ga_directories ga)" by (simp add: case_prod_unfold)
    then show ?thesis using s(2) by (rule trans)
  qed
  have names: "mset (map dir_Name ?dirs) = mset dirs" by (simp only: mset_map so'(3) flip: ds)
  have each: "ascending (\<lambda>f. ToLower u (file_Name f)) (dir_Files d) \<and> mset (dir_Files d)
      = mset (map in_directory (filter (\<lambda>f. virtualDirectory (ix_virtual f) = dir_Name d) files))"
    if m: "d \<in> set ?dirs" for d
  proof -
    have "d \<in> set ?ds" using m mset_eq_setD [OF so'(3)] by (rule subst [rotated])
    then obtain n e where e: "(n, e) \<in> set (ga_directories ga)" "d = e\<lparr>dir_Files := so_files so (dir_Files e)\<rparr>" by auto
    then have "dir_Name e = n"
      "dir_Files e = map in_directory (filter (\<lambda>f. virtualDirectory (ix_virtual f) = n) files)"
      using ga by (auto simp: gathers_def)
    then show ?thesis using so e(2) by (simp add: sorting_def)
  qed
  have len: "length ?dirs = length dirs" "length ?search = length files"
    using mset_eq_length [OF names] mset_eq_length [OF so'(1)] by (simp_all only: length_map)
  have map: "\<forall>v. map_of (ga_files ga) v = map_of (rev (map (\<lambda>f. (ix_virtual f, f)) files)) v"
    using ga by (simp add: gathers_def)
  show ?thesis unfolding offers_def sn shareSnapshot.simps ShareStats.simps
    by (intro conjI so' names ix' map len refl ballI frame each)
qed

lemma load_rows_gathers:
  "gathers dirs files ga \<Longrightarrow> distinct dirs \<Longrightarrow> (\<And>e. e \<in> set es \<Longrightarrow> virtualDirectory (sie_VirtualPath e) \<in> set dirs) \<Longrightarrow>
   load_rows u ctx i es (sts, ga) = Inr (sts', ga') \<Longrightarrow>
   gathers dirs (files @ map (indexed_of u) es) ga' \<and> sts' = map (fold add_file_to (map (indexed_of u) es)) sts"
proof (induction es arbitrary: i files ga sts)
  case (Cons e es)
  let ?f = "indexed_of u e"
  have "virtualDirectory (ix_virtual ?f) \<in> set dirs" using Cons.prems(3) by (simp add: indexed_of_def)
  then have "gathers dirs (files @ [?f]) (add_indexed ?f ga)" using gathers_file Cons.prems(1,2) by blast
  moreover have "load_rows u ctx (Suc i) es (map (add_file_to ?f) sts, add_indexed ?f ga) = Inr (sts', ga')"
    using Cons.prems(4) by (simp add: Let_def split: if_splits)
  ultimately show ?case
    using Cons.IH [of "files @ [?f]" "add_indexed ?f ga" "Suc i" "map (add_file_to ?f) sts"] Cons.prems(2,3) by simp
qed simp

lemma directories_of_rows:
  "distinct (map fst ds @ names) \<Longrightarrow>
   fold ensure_directory names ds = ds @ map (\<lambda>n. (n, \<lparr>dir_Name = n, dir_Files = []\<rparr>)) names"
proof (induction names arbitrary: ds)
  case (Cons n names)
  then have "ensure_directory n ds = ds @ [(n, \<lparr>dir_Name = n, dir_Files = []\<rparr>)]" by (auto simp: ensure_directory_def)
  then show ?case using Cons by simp
qed simp

lemma zero_stats: "st \<in> set (folder_stats names fs) \<Longrightarrow> sfs_Directories st = 0 \<and> sfs_Files st = 0 \<and> sfs_TotalBytes st = 0"
  by (induction names fs rule: folder_stats.induct) (auto split: if_splits)

theorem rebuild_offers:
  assumes so: "sorting u so" and dirs: "distinct (si_Directories index)"
    "\<And>e. e \<in> set (si_Files index) \<Longrightarrow> virtualDirectory (sie_VirtualPath e) \<in> set (si_Directories index)"
    and run: "rebuildShareSnapshot u deflate so ctx index = Inr sn"
  shows "offers u deflate (si_Folders index) (si_Directories index) (map (indexed_of u) (si_Files index)) sn
    \<and> ss_IndexedAt (sn_stats sn) = si_ScannedAt index \<and> ss_ScanDuration (sn_stats sn) = si_ScanDuration index"
proof -
  let ?names = "si_Directories index" and ?files = "map (indexed_of u) (si_Files index)"
  let ?ds = "map (\<lambda>n. (n, \<lparr>dir_Name = n, dir_Files = []\<rparr>)) ?names"
  let ?sts = "fold (\<lambda>(name, _). map (add_directory_to name)) ?ds (folder_stats [] (si_Folders index))"
  let ?ga = "\<lparr>ga_files = [], ga_search = [], ga_directories = ?ds\<rparr>"
  have ds: "fold ensure_directory ?names [] = ?ds" using directories_of_rows [of "[]" ?names] dirs(1) by simp
  obtain sts' ga' where load: "load_rows u ctx 0 (si_Files index) (?sts, ?ga) = Inr (sts', ga')"
    and fin: "finish_snapshot u deflate so ctx (si_ScannedAt index) (si_ScanDuration index) sts' ga' = Inr sn"
    using run unfolding rebuildShareSnapshot_def ds Let_def rbind_eq_Inr by auto
  have "gathers ?names [] ?ga" by (auto simp: gathers_def o_def)
  then have g: "gathers ?names ?files ga'" "sts' = map (fold add_file_to ?files) ?sts"
    using load_rows_gathers [OF _ dirs(1) dirs(2) load, of "[]"] by simp_all
  have "?sts = map (fold add_directory_to ?names) (folder_stats [] (si_Folders index))"
    unfolding fold_each [symmetric] by (simp add: fold_map o_def)
  then have "sts' = map (counted ?names ?files) (folder_stats [] (si_Folders index))"
    unfolding g(2) by (auto simp: counted_def Let_def add_directories add_files zero_stats)
  then show ?thesis using finish_offers [OF so g(1)] fin by simp
qed

section \<open>The same files in another order are the same offer\<close>

lemma map_of_perm:
  "mset xs = mset ys \<Longrightarrow> distinct (map fst xs) \<Longrightarrow> map_of xs = map_of ys"
proof -
  assume m: "mset xs = mset ys" and d: "distinct (map fst xs)"
  then have "distinct (map fst ys)" using mset_eq_imp_distinct_iff [of "map fst xs" "map fst ys"] by (simp only: mset_map)
  then show ?thesis using d mset_eq_setD [OF m] by (simp add: map_of_inject_set)
qed

lemma counted_perm: "mset ds = mset ds' \<Longrightarrow> mset fs = mset fs' \<Longrightarrow> counted ds fs = counted ds' fs'"
proof (rule ext)
  fix st assume d: "mset ds = mset ds'" and f: "mset fs = mset fs'"
  have "length (filter P ds) = length (filter P ds')" for P using d by (metis mset_filter size_mset)
  moreover have "length (filter P fs) = length (filter P fs')" for P using f by (metis mset_filter size_mset)
  moreover have "sum_list (map g (filter P fs)) = sum_list (map g (filter P fs'))" for P and g :: "_ \<Rightarrow> u64"
    using f by (metis mset_filter mset_map sum_mset_sum_list)
  ultimately show "counted ds fs st = counted ds' fs' st" by (simp add: counted_def Let_def)
qed

lemma offers_perm:
  assumes d: "mset ds = mset ds'" and f: "mset files = mset files'" and v: "distinct (map ix_virtual files)"
    and o: "offers u deflate fs ds files sn"
  shows "offers u deflate fs ds' files' sn"
proof -
  have "mset (map g (filter P files)) = mset (map g (filter P files'))" for P and g :: "_ \<Rightarrow> File"
    using f by (metis mset_filter mset_map)
  moreover have "map_of (rev (map (\<lambda>f. (ix_virtual f, f)) files)) = map_of (rev (map (\<lambda>f. (ix_virtual f, f)) files'))"
    using v f by (intro map_of_perm) (simp_all add: o_def distinct_rev rev_map [symmetric] mset_map)
  ultimately show ?thesis
    using o d f counted_perm [OF d f] mset_eq_length [OF d] mset_eq_length [OF f] unfolding offers_def by simp
qed

text \<open>What is saved of an indexed file, and what is made of it again.\<close>

definition indexed_ok :: "unicode \<Rightarrow> indexedFile \<Rightarrow> bool" where
  "indexed_ok u f \<longleftrightarrow> ix_virtualLower f = ToLower u (ix_virtual f) \<and> file_Name (ix_wire f) = ix_virtual f
     \<and> (\<exists>b d. file_Attributes (ix_wire f) = attributesFromCache b d)"

lemma attributes_roundtrip: "attributeValues (attributesFromCache b d) = (b, d)"
  by (simp add: attributeValues_def attributesFromCache_def)

lemma entry_roundtrip: "indexed_ok u f \<Longrightarrow> indexed_of u (index_entry_of f) = f\<lparr>ix_info := None\<rparr>"
  by (auto simp: indexed_ok_def index_entry_of_def indexed_of_def attributes_roundtrip)

lemma offered_names: "offers u deflate fs ds files sn \<Longrightarrow> mset (map dir_Name (sn_directories sn)) = mset ds"
  by (simp add: offers_def)

end
