(* ===== verification/ShareServe.thy ===== *)
theory ShareServe
  imports ShareSnapshot Automaton
begin

text \<open>
  Serving the published shares (\<open>internal/soulseek/shares.go\<close>): the contents of a folder, found by binary
  search, and the answer to a search, which takes a slot of a pool to match, another to deliver, and
  remembers what it delivered.
\<close>

section \<open>The contents of a folder\<close>

text \<open>\<open>sort.Search\<close>\<close>

function search_between :: "(nat \<Rightarrow> bool) \<Rightarrow> nat \<Rightarrow> nat \<Rightarrow> nat" where
  "search_between f i j =
     (if i < j then (let h = (i + j) div 2 in if \<not> f h then search_between f (h + 1) j else search_between f i h) else i)"
  by auto
termination by (relation "measure (\<lambda>(f, i, j). j - i)") auto

declare search_between.simps [simp del]

definition sort_Search :: "nat \<Rightarrow> (nat \<Rightarrow> bool) \<Rightarrow> nat" where
  "sort_Search n f = search_between f 0 n"

definition folder_range :: "unicode \<Rightarrow> Directory list \<Rightarrow> string \<Rightarrow> nat \<times> nat" where
  "folder_range u ds normalized =
     (let lowered = ToLower u normalized
      in (sort_Search (length ds) (\<lambda>i. \<not> string_less (ToLower u (dir_Name (ds ! i))) lowered),
          sort_Search (length ds) (\<lambda>i. \<not> string_less (ToLower u (dir_Name (ds ! i))) (lowered @ '']''))))"

definition in_folder :: "string \<Rightarrow> Directory \<Rightarrow> bool" where
  "in_folder normalized d \<longleftrightarrow> dir_Name d = normalized \<or> HasPrefix (dir_Name d) (normalized @ [CHR 0x5C])"

definition folderResponse :: "unicode \<Rightarrow> Directory list \<Rightarrow> u32 \<Rightarrow> string \<Rightarrow> FolderContentsResponse" where
  "folderResponse u ds token requested =
     \<lparr>fc_Token = token, fc_Folder = requested, fc_Folders =
       (case normalizeVirtualPath requested of
          None \<Rightarrow> []
        | Some normalized \<Rightarrow>
            (let (lo, hi) = folder_range u ds normalized in filter (in_folder normalized) (take (hi - lo) (drop lo ds))))\<rparr>"

section \<open>What was delivered\<close>

type_synonym delivery_key = "string \<times> u32"

record deliveries =
  dl_delivered :: "(delivery_key \<times> int) list"
  dl_inFlight :: "delivery_key list"

definition searchResponseTTL :: int where
  "searchResponseTTL = 2 * 60 * 1000000000"

definition maxDeliveries :: nat where
  "maxDeliveries = 4096"

definition dl_count :: "deliveries \<Rightarrow> nat" where
  "dl_count dl = length (dl_delivered dl) + length (dl_inFlight dl)"

text \<open>\<open>victim\<close>: which entry the iteration over the map meets first.\<close>

definition evict_one :: "nat \<Rightarrow> 'a list \<Rightarrow> 'a list" where
  "evict_one victim xs = take (victim mod length xs) xs @ drop (Suc (victim mod length xs)) xs"

definition reserveSearchDelivery :: "int \<Rightarrow> nat \<Rightarrow> delivery_key \<Rightarrow> deliveries \<Rightarrow> deliveries \<times> bool" where
  "reserveSearchDelivery now victim key dl =
     (let dl = dl\<lparr>dl_delivered := filter (\<lambda>(_, expiry). now < expiry) (dl_delivered dl)\<rparr>
      in if key \<in> set (dl_inFlight dl) then (dl, False)
         else if (case map_of (dl_delivered dl) key of None \<Rightarrow> False | Some expiry \<Rightarrow> now < expiry) then (dl, False)
         else
           (let dl = (if dl_count dl \<ge> maxDeliveries
                      then dl\<lparr>dl_delivered := evict_one victim (dl_delivered dl)\<rparr> else dl)
            in if dl_count dl \<ge> maxDeliveries then (dl, False)
               else (dl\<lparr>dl_inFlight := key # dl_inFlight dl\<rparr>, True)))"

definition finishSearchDelivery :: "int \<Rightarrow> delivery_key \<Rightarrow> bool \<Rightarrow> deliveries \<Rightarrow> deliveries" where
  "finishSearchDelivery now key delivered dl =
     (let dl = dl\<lparr>dl_inFlight := filter (\<lambda>k. k \<noteq> key) (dl_inFlight dl)\<rparr>
      in if delivered then dl\<lparr>dl_delivered := AList.update key (now + searchResponseTTL) (dl_delivered dl)\<rparr> else dl)"

section \<open>Answering a search\<close>

definition maxSharedSearchResults :: int where
  "maxSharedSearchResults = 500"

definition maxShareWorkers :: nat where
  "maxShareWorkers = 32"

definition maxDeliverWorkers :: nat where
  "maxDeliverWorkers = 16"

record share_pools =
  po_match :: nat \<comment> \<open>slots taken\<close>
  po_deliver :: nat
  po_deliveries :: deliveries

text \<open>What the surroundings do during one call.\<close>

record search_surroundings =
  su_stopping :: bool \<comment> \<open>the lifecycle is over, and the select prefers that to a free slot\<close>
  su_started :: bool \<comment> \<open>\<open>startTracked\<close>\<close>
  su_reserved_at :: int
  su_victim :: nat
  su_session :: bool \<comment> \<open>a session to the searcher\<close>
  su_availability :: "bool \<times> int"
  su_sent :: bool \<comment> \<open>\<open>TrySend\<close>\<close>
  su_finished_at :: int

definition search_response :: "string \<Rightarrow> u32 \<Rightarrow> File list \<Rightarrow> bool \<times> int \<Rightarrow> FileSearchResponse" where
  "search_response me token results avail = \<lparr>fs_Username = me, fs_Token = token, fs_Results = results,
     fs_FreeSlot = fst avail, fs_AverageSpeed = 0, fs_Queue = snd avail, fs_PrivateResults = []\<rparr>"

definition deliver_results ::
  "(u8 list \<Rightarrow> u8 list) \<Rightarrow> search_surroundings \<Rightarrow> string \<Rightarrow> delivery_key \<Rightarrow> File list \<Rightarrow> share_pools
     \<Rightarrow> share_pools \<times> FileSearchResponse option" where
  "deliver_results deflate su me key results po =
     (if po_deliver po \<ge> maxDeliverWorkers then (po, None)
      else
        (let po = po\<lparr>po_deliver := po_deliver po + 1\<rparr>;
             message = search_response me (snd key) results (su_availability su);
             delivered = (if \<not> su_session su then None
               else (case FileSearchResponse_Serialize deflate message of
                       Inl _ \<Rightarrow> None | Inr _ \<Rightarrow> if su_sent su then Some message else None))
         in (po\<lparr>po_deliver := po_deliver po - 1\<rparr>, delivered)))"

definition respondToSearch ::
  "unicode \<Rightarrow> (u32 list list \<Rightarrow> u32 list list) \<Rightarrow> (u8 list \<Rightarrow> u8 list) \<Rightarrow> search_surroundings \<Rightarrow> shareSnapshot
     \<Rightarrow> string list option \<Rightarrow> string \<Rightarrow> string \<Rightarrow> u32 \<Rightarrow> string \<Rightarrow> share_pools \<Rightarrow> share_pools \<times> FileSearchResponse option" where
  "respondToSearch u srt deflate su sn phrases me username token query po =
     (if username = [] \<or> username = me then (po, None)
      else if su_stopping su \<or> po_match po \<ge> maxShareWorkers then (po, None)
      else
        (let po = po\<lparr>po_match := po_match po + 1\<rparr>
         in if \<not> su_started su then (po\<lparr>po_match := po_match po - 1\<rparr>, None)
            else
              (let results = share_match u srt (sn_search sn) (sn_trigrams sn) query maxSharedSearchResults phrases;
                   po = po\<lparr>po_match := po_match po - 1\<rparr>
               in if length results = 0 then (po, None)
                  else
                    (let key = (username, token);
                         (dl, reserved) = reserveSearchDelivery (su_reserved_at su) (su_victim su) key (po_deliveries po);
                         po = po\<lparr>po_deliveries := dl\<rparr>
                     in if \<not> reserved then (po, None)
                        else
                          (let (po, delivered) = deliver_results deflate su me key results po
                           in (po\<lparr>po_deliveries := finishSearchDelivery (su_finished_at su) key (delivered \<noteq> None)
                                   (po_deliveries po)\<rparr>, delivered))))))"

section \<open>Binary search finds the first\<close>

lemma search_between_spec:
  "i \<le> j \<Longrightarrow> (\<And>h k. h \<le> k \<Longrightarrow> k < n \<Longrightarrow> f h \<Longrightarrow> f k) \<Longrightarrow> (\<forall>k < i. \<not> f k) \<Longrightarrow> (j < n \<longrightarrow> f j) \<Longrightarrow> j \<le> n \<Longrightarrow>
   (let r = search_between f i j in r \<le> n \<and> (\<forall>k < r. \<not> f k) \<and> (r < n \<longrightarrow> f r))"
proof (induction f i j rule: search_between.induct)
  case (1 f i j)
  note mono = "1.prems"(2)
  show ?case
  proof (cases "i < j")
    case True
    let ?h = "(i + j) div 2"
    have h: "i \<le> ?h" "?h < j" "?h < n" using True "1.prems"(5) by auto
    show ?thesis
    proof (cases "f ?h")
      case at: True
      then have "let r = search_between f i ?h in r \<le> n \<and> (\<forall>k < r. \<not> f k) \<and> (r < n \<longrightarrow> f r)"
        using "1.IH"(2) [OF True refl _ h(1) mono "1.prems"(3)] h by simp
      then show ?thesis using True at by (subst search_between.simps) (simp add: Let_def)
    next
      case False
      then have "\<forall>k < ?h + 1. \<not> f k" using mono [OF _ h(3)] by (metis Suc_eq_plus1 less_Suc_eq_le)
      then have "let r = search_between f (?h + 1) j in r \<le> n \<and> (\<forall>k < r. \<not> f k) \<and> (r < n \<longrightarrow> f r)"
        using "1.IH"(1) [OF True refl False _ mono _ "1.prems"(4,5)] h by simp
      then show ?thesis using True False by (subst search_between.simps) (simp add: Let_def)
    qed
  next
    case False
    then show ?thesis using "1.prems" by (subst search_between.simps) (auto simp: Let_def)
  qed
qed

lemma sort_Search_first:
  assumes "\<And>h k. h \<le> k \<Longrightarrow> k < n \<Longrightarrow> f h \<Longrightarrow> f k"
  shows "sort_Search n f \<le> n" and "k < sort_Search n f \<Longrightarrow> \<not> f k"
    and "sort_Search n f \<le> k \<Longrightarrow> k < n \<Longrightarrow> f k"
proof -
  have s: "sort_Search n f \<le> n \<and> (\<forall>k < sort_Search n f. \<not> f k) \<and> (sort_Search n f < n \<longrightarrow> f (sort_Search n f))"
    using search_between_spec [of 0 n n f, OF _ assms] by (simp add: sort_Search_def Let_def)
  then show "sort_Search n f \<le> n" "k < sort_Search n f \<Longrightarrow> \<not> f k" by auto
  show "sort_Search n f \<le> k \<Longrightarrow> k < n \<Longrightarrow> f k" using s assms by (meson le_less_trans)
qed

section \<open>Lower case and the separator\<close>

lemma glyphs_ascii:
  assumes c: "byte_code c < 0x80"
  shows "glyphs (a @ c # b) = glyphs a @ (byte_code c, [c]) # glyphs b"
proof (induction "length a" arbitrary: a rule: less_induct)
  case less
  show ?case
  proof (cases "a = []")
    case True
    have "first_rune (c # b) = (byte_code c, 1)"
      using c by (simp add: first_rune_def rune_width_def)
    then show ?thesis using True by (subst glyphs.simps) (simp add: Let_def)
  next
    case False
    let ?w = "rune_width (byte_code (hd a))"
    have hd: "hd (a @ c # b) = hd a" using False by simp
    have same: "first_rune (a @ c # b) = first_rune a"
    proof (cases "?w \<le> length a")
      case True
      then show ?thesis using False by (simp add: first_rune_def)
    next
      case long: False
      let ?p = "map byte_code (take ?w (a @ c # b))"
      have "\<not> sequence_ok ?p"
      proof
        assume ok: "sequence_ok ?p"
        obtain x xs where a: "a = x # xs" using False by (cases a) auto
        have c_in: "byte_code c \<in> set (map byte_code (take (?w - 1) (xs @ c # b)))"
          using long a by (auto simp: take_Cons' Suc_diff_le)
        have "?p = byte_code x # map byte_code (take (?w - 1) (xs @ c # b))"
          using long a by (cases ?w) auto
        moreover have "map byte_code (take (?w - 1) (xs @ c # b)) \<noteq> []" using c_in by auto
        ultimately obtain y ys where ys: "map byte_code (take (?w - 1) (xs @ c # b)) = y # ys" "?p = byte_code x # y # ys"
          by (cases "map byte_code (take (?w - 1) (xs @ c # b))") auto
        then have "\<forall>z \<in> set (y # ys). continues z" using ok by (auto simp: second_ok_def list_all_iff)
        moreover have "byte_code c \<in> set (y # ys)" using c_in unfolding ys(1) .
        ultimately have "continues (byte_code c)" by blast
        then show False using c by (simp add: continues_def)
      qed
      then show ?thesis using hd long by (simp add: first_rune_def Let_def min_def)
    qed
    have w: "0 < snd (first_rune a)" "snd (first_rune a) \<le> length a"
      using first_rune_width [OF False] False by (auto simp: first_rune_def Let_def Suc_le_eq)
    have "glyphs (drop (snd (first_rune a)) a @ c # b) = glyphs (drop (snd (first_rune a)) a) @ (byte_code c, [c]) # glyphs b"
      using less [of "drop (snd (first_rune a)) a"] w False by simp
    then show ?thesis
      using w same False by (subst (1 2) glyphs.simps) (simp add: Let_def)
  qed
qed

lemma ToLower_split:
  assumes "u_ToLower u 92 = 92"
  shows "ToLower u (a @ CHR 0x5C # b) = ToLower u a @ CHR 0x5C # ToLower u b"
proof -
  have "glyphs (a @ CHR 0x5C # b) = glyphs a @ (92, [CHR 0x5C]) # glyphs b"
    using glyphs_ascii [of "CHR 0x5C" a b] by (simp add: byte_code_def)
  moreover have "encode_rune 92 = [CHR 0x5C]" by code_simp
  ultimately show ?thesis using assms by (simp add: ToLower_def runes_def)
qed

section \<open>A folder's directories are all found\<close>

lemma less_or_extends: "\<not> string_less (a @ x) a"
  by (induction a) (cases x, auto)

lemma below_extension:
  "string_less a (a @ '']'')" "string_less (a @ CHR 0x5C # x) (a @ '']'')"
  by (induction a) auto

lemma ascending_from:
  assumes asc: "ascending k xs" and ij: "i \<le> j" "j < length xs" and "\<not> string_less (k (xs ! i)) s"
  shows "\<not> string_less (k (xs ! j)) s"
proof (cases "i = j")
  case False
  then have "\<not> string_less (k (xs ! j)) (k (xs ! i))"
    using asc ij sorted_wrt_nth_less [of _ xs i j] by (simp add: ascending_def)
  then show ?thesis using assms(4) string_not_less_trans by blast
qed (use assms in simp)

theorem folder_complete:
  assumes u: "u_ToLower u 92 = 92" and asc: "ascending (\<lambda>d. ToLower u (dir_Name d)) ds"
    and n: "normalizeVirtualPath requested = Some normalized"
  shows "fc_Folders (folderResponse u ds token requested) = filter (in_folder normalized) ds"
proof -
  let ?l = "ToLower u normalized" and ?k = "\<lambda>d. ToLower u (dir_Name d)"
  let ?f = "\<lambda>s i. \<not> string_less (?k (ds ! i)) s"
  define lo hi where "lo = sort_Search (length ds) (?f ?l)" and "hi = sort_Search (length ds) (?f (?l @ '']''))"
  have mono: "h \<le> k \<Longrightarrow> k < length ds \<Longrightarrow> ?f s h \<Longrightarrow> ?f s k" for h k s
    using ascending_from [OF asc] by blast
  have first: "lo \<le> length ds" "\<And>k. k < lo \<Longrightarrow> \<not> ?f ?l k"
    unfolding lo_def by (rule sort_Search_first; use mono in blast)+
  have second: "\<And>k. hi \<le> k \<Longrightarrow> k < length ds \<Longrightarrow> ?f (?l @ '']'') k"
    unfolding hi_def by (rule sort_Search_first(3) [of "length ds" "?f (?l @ '']'')"]; use mono in blast)
  have lower: "\<not> string_less (?k d) ?l \<and> string_less (?k d) (?l @ '']'')" if m: "in_folder normalized d" for d
  proof (cases "dir_Name d = normalized")
    case True
    then show ?thesis using less_or_extends [of ?l "[]"] below_extension(1) by simp
  next
    case False
    then have "HasPrefix (dir_Name d) (normalized @ [CHR 0x5C])" using m by (simp add: in_folder_def)
    then obtain y where "dir_Name d = normalized @ CHR 0x5C # y"
      unfolding HasPrefix_def by (metis append_Cons append_Nil append_assoc append_take_drop_id)
    then have "?k d = ?l @ CHR 0x5C # ToLower u y" using ToLower_split [OF u] by simp
    then show ?thesis using less_or_extends below_extension(2) by metis
  qed
  have before: "\<not> in_folder normalized d" if d: "d \<in> set (take lo ds)" for d
  proof -
    obtain i where "i < lo" "d = ds ! i" using d first(1) unfolding in_set_conv_nth by auto
    then show ?thesis using first(2) lower by blast
  qed
  have behind: "\<not> in_folder normalized d" if d: "d \<in> set (drop hi ds)" for d
  proof -
    obtain i where "i < length ds - hi" "d = ds ! (hi + i)" using d unfolding in_set_conv_nth by auto
    then have "?f (?l @ '']'') (hi + i)" "d = ds ! (hi + i)" using second [of "hi + i"] by simp_all
    then show ?thesis using lower by blast
  qed
  have "lo \<le> hi"
  proof (rule ccontr)
    assume "\<not> lo \<le> hi"
    then have "hi < lo" "hi < length ds" using first(1) by auto
    then have "\<not> ?f ?l hi" "?f (?l @ '']'') hi" using first(2) second by auto
    then show False using string_less_trans below_extension(1) by blast
  qed
  then have "drop (hi - lo) (drop lo ds) = drop hi ds" by simp
  then have "ds = take lo ds @ take (hi - lo) (drop lo ds) @ drop hi ds" by (metis append_take_drop_id)
  then have all: "filter (in_folder normalized) ds = filter (in_folder normalized) (take lo ds)
      @ filter (in_folder normalized) (take (hi - lo) (drop lo ds)) @ filter (in_folder normalized) (drop hi ds)"
    by (metis filter_append)
  have "filter (in_folder normalized) (take lo ds) = []" "filter (in_folder normalized) (drop hi ds) = []"
    using before behind by (simp_all add: filter_empty_conv)
  then have "filter (in_folder normalized) ds = filter (in_folder normalized) (take (hi - lo) (drop lo ds))"
    using all by simp
  moreover have "folder_range u ds normalized = (lo, hi)" by (simp add: folder_range_def Let_def lo_def hi_def)
  ultimately show ?thesis by (simp add: folderResponse_def n)
qed

section \<open>Deliveries\<close>

datatype delivery_action = Reserve int nat delivery_key | Finish int delivery_key bool

fun delivery_step :: "delivery_action \<Rightarrow> deliveries \<Rightarrow> deliveries \<times> bool" where
  "delivery_step (Reserve now victim key) dl = reserveSearchDelivery now victim key dl"
| "delivery_step (Finish now key delivered) dl = (finishSearchDelivery now key delivered dl, True)"

definition delivery_ok :: "deliveries \<Rightarrow> bool" where
  "delivery_ok dl \<longleftrightarrow> distinct (dl_inFlight dl) \<and> distinct (map fst (dl_delivered dl)) \<and> dl_count dl \<le> maxDeliveries"

text \<open>Only who reserved finishes.\<close>

fun delivery_allowed :: "delivery_action \<Rightarrow> deliveries \<Rightarrow> bool" where
  "delivery_allowed (Reserve _ _ _) dl = True"
| "delivery_allowed (Finish _ key _) dl = (key \<in> set (dl_inFlight dl))"

lemma length_evict: "xs \<noteq> [] \<Longrightarrow> length (evict_one v xs) = length xs - 1"
proof -
  assume "xs \<noteq> []"
  then have "v mod length xs < length xs" by simp
  then show ?thesis by (simp add: evict_one_def min_def)
qed

lemma evict_sub: "distinct (map f xs) \<Longrightarrow> distinct (map f (evict_one v xs)) \<and> set (evict_one v xs) \<subseteq> set xs"
proof -
  assume d: "distinct (map f xs)"
  let ?n = "v mod length xs"
  have "map f xs = map f (take ?n xs) @ map f (drop ?n xs)" by (simp flip: map_append)
  then have parts: "distinct (map f (take ?n xs))" "distinct (map f (drop ?n xs))"
    "set (map f (take ?n xs)) \<inter> set (map f (drop ?n xs)) = {}" using d by (metis distinct_append)+
  have sub: "set (drop (Suc ?n) xs) \<subseteq> set (drop ?n xs)" by (rule set_drop_subset_set_drop) simp
  have "distinct (map f (drop (Suc ?n) xs))" using parts(2) by (metis drop_Suc drop_map distinct_tl drop_tl)
  then show ?thesis using parts sub by (auto simp: evict_one_def dest: in_set_takeD in_set_dropD)
qed

definition live_deliveries :: "int \<Rightarrow> deliveries \<Rightarrow> (delivery_key \<times> int) list" where
  "live_deliveries now dl = filter (\<lambda>(_, expiry). now < expiry) (dl_delivered dl)"

lemma reserve_cases:
  "\<exists>l. (l = live_deliveries now dl \<or> l = evict_one victim (live_deliveries now dl))
     \<and> (reserveSearchDelivery now victim key dl = (dl\<lparr>dl_delivered := l\<rparr>, False)
        \<or> reserveSearchDelivery now victim key dl = (dl\<lparr>dl_delivered := l, dl_inFlight := key # dl_inFlight dl\<rparr>, True)
          \<and> key \<notin> set (dl_inFlight dl) \<and> length l + length (dl_inFlight dl) < maxDeliveries
          \<and> \<not> (case map_of (live_deliveries now dl) key of None \<Rightarrow> False | Some expiry \<Rightarrow> now < expiry))"
  unfolding reserveSearchDelivery_def live_deliveries_def [symmetric]
  by (cases "maxDeliveries \<le> length (live_deliveries now dl) + length (dl_inFlight dl)")
    (auto simp: Let_def dl_count_def not_le intro: exI [of _ "live_deliveries now dl"] exI [of _ "evict_one victim (live_deliveries now dl)"])

lemma reserve_ok: "delivery_ok dl \<Longrightarrow> delivery_ok (fst (reserveSearchDelivery now victim key dl))"
proof -
  assume ok: "delivery_ok dl"
  have d: "distinct (map fst (live_deliveries now dl))" using ok by (simp add: delivery_ok_def live_deliveries_def distinct_map_filter)
  have n: "length (live_deliveries now dl) \<le> length (dl_delivered dl)" by (simp add: live_deliveries_def)
  have e: "distinct (map fst (evict_one victim (live_deliveries now dl)))" "length (evict_one victim (live_deliveries now dl)) \<le> length (live_deliveries now dl)"
    using evict_sub [OF d] by (simp, cases "live_deliveries now dl = []", simp add: evict_one_def, simp add: length_evict)
  obtain l where l: "l = live_deliveries now dl \<or> l = evict_one victim (live_deliveries now dl)"
    "reserveSearchDelivery now victim key dl = (dl\<lparr>dl_delivered := l\<rparr>, False)
        \<or> reserveSearchDelivery now victim key dl = (dl\<lparr>dl_delivered := l, dl_inFlight := key # dl_inFlight dl\<rparr>, True)
          \<and> key \<notin> set (dl_inFlight dl) \<and> length l + length (dl_inFlight dl) < maxDeliveries"
    using reserve_cases [of now dl victim key] by blast
  have "distinct (map fst l)" "length l \<le> length (dl_delivered dl)" using l(1) d e n by auto
  then show ?thesis using ok l(2) by (auto simp: delivery_ok_def dl_count_def)
qed

lemma length_update_le: "length (AList.update k v al) \<le> Suc (length al)"
  by (induction al) auto

lemma finish_ok:
  assumes ok: "delivery_ok dl" and k: "key \<in> set (dl_inFlight dl)"
  shows "delivery_ok (finishSearchDelivery now key delivered dl)"
proof -
  let ?l = "filter (\<lambda>k. k \<noteq> key) (dl_inFlight dl)" and ?d = "AList.update key (now + searchResponseTTL) (dl_delivered dl)"
  have "length ?l < length (dl_inFlight dl)" using k by (intro length_filter_less) auto
  moreover have "length ?d \<le> Suc (length (dl_delivered dl))" by (rule length_update_le)
  moreover have "length (dl_delivered dl) + length (dl_inFlight dl) \<le> maxDeliveries" "distinct ?l" "distinct (map fst ?d)"
    using ok by (simp_all add: delivery_ok_def dl_count_def distinct_update)
  ultimately show ?thesis
    using ok by (cases delivered) (simp_all add: finishSearchDelivery_def delivery_ok_def dl_count_def)
qed

interpretation delivery: safe_automaton delivery_step delivery_ok delivery_allowed
proof
  fix dl a assume "delivery_ok dl" "delivery_allowed a dl"
  then show "delivery_ok (fst (delivery_step a dl))" by (cases a) (simp_all add: reserve_ok finish_ok)
qed

lemma reserve_once:
  assumes "reserveSearchDelivery now victim key dl = (dl', True)"
  shows "key \<notin> set (dl_inFlight dl)" and "\<And>expiry. map_of (dl_delivered dl) key = Some expiry \<Longrightarrow> distinct (map fst (dl_delivered dl)) \<Longrightarrow> expiry \<le> now"
    and "dl_inFlight dl' = key # dl_inFlight dl"
proof -
  obtain l where l: "dl' = dl\<lparr>dl_delivered := l, dl_inFlight := key # dl_inFlight dl\<rparr>" "key \<notin> set (dl_inFlight dl)"
    "\<not> (case map_of (live_deliveries now dl) key of None \<Rightarrow> False | Some expiry \<Rightarrow> now < expiry)"
    using reserve_cases [of now dl victim key] assms by auto
  then show "key \<notin> set (dl_inFlight dl)" "dl_inFlight dl' = key # dl_inFlight dl" by simp_all
  show "expiry \<le> now" if e: "map_of (dl_delivered dl) key = Some expiry" "distinct (map fst (dl_delivered dl))" for expiry
  proof (rule ccontr)
    assume n: "\<not> expiry \<le> now"
    then have "(key, expiry) \<in> set (live_deliveries now dl)" using map_of_SomeD [OF e(1)] by (simp add: live_deliveries_def)
    then have "map_of (live_deliveries now dl) key = Some expiry"
      using e(2) by (intro map_of_is_SomeI) (simp_all add: live_deliveries_def distinct_map_filter)
    then show False using l(3) n by simp
  qed
qed

lemma reserve_inFlight: "\<not> snd (reserveSearchDelivery now victim key dl) \<Longrightarrow>
    dl_inFlight (fst (reserveSearchDelivery now victim key dl)) = dl_inFlight dl"
  using reserve_cases [of now dl victim key] by auto

section \<open>Every slot is given back\<close>

lemma deliver_pools: "deliver_results deflate su me key results po = (po', d) \<Longrightarrow> po' = po"
  by (auto simp: deliver_results_def Let_def split: if_splits)

theorem search_gives_back:
  assumes "respondToSearch u srt deflate su sn phrases me username token query po = (po', answer)"
    and "distinct (dl_inFlight (po_deliveries po))"
  shows "po_match po' = po_match po \<and> po_deliver po' = po_deliver po
    \<and> dl_inFlight (po_deliveries po') = dl_inFlight (po_deliveries po)"
proof -
  let ?r = "reserveSearchDelivery (su_reserved_at su) (su_victim su) (username, token) (po_deliveries po)"
  obtain dl ok where r: "?r = (dl, ok)" by (rule prod.exhaust)
  show ?thesis
  proof (cases ok)
    case True
    have "?r = (dl, True)" using r True by simp
    note once = reserve_once [OF this]
    have "filter (\<lambda>k. k \<noteq> (username, token)) (dl_inFlight (po_deliveries po)) = dl_inFlight (po_deliveries po)"
      using once(1) by (intro filter_True) auto
    then have fin: "dl_inFlight (finishSearchDelivery t (username, token) d dl) = dl_inFlight (po_deliveries po)" for t d
      using once(3) by (simp add: finishSearchDelivery_def Let_def)
    then show ?thesis using assms(1) r True
      by (auto simp: respondToSearch_def Let_def split: if_splits prod.splits dest!: deliver_pools)
  next
    case False
    then have "dl_inFlight dl = dl_inFlight (po_deliveries po)" using reserve_inFlight r by (metis fst_conv snd_conv)
    then show ?thesis using assms(1) r False by (auto simp: respondToSearch_def Let_def split: if_splits)
  qed
qed

theorem search_answer:
  assumes ix: "indexes (sn_trigrams sn) (sn_search sn)" and srt: "\<And>ps. mset (srt ps) = mset ps"
    and run: "respondToSearch u srt deflate su sn phrases me username token query po = (po', Some m)"
  shows "fs_Token m = token \<and> fs_Results m = linear_match u (sn_search sn) query maxSharedSearchResults phrases
    \<and> 0 < length (fs_Results m) \<and> length (fs_Results m) \<le> 500 \<and> username \<noteq> me
    \<and> (username, token) \<notin> set (dl_inFlight (po_deliveries po))"
proof -
  let ?files = "linear_match u (sn_search sn) query maxSharedSearchResults phrases"
  let ?r = "reserveSearchDelivery (su_reserved_at su) (su_victim su) (username, token) (po_deliveries po)"
  have len: "length ?files \<le> 500"
    by (simp add: linear_match_def maxSharedSearchResults_def split: prod.split)
  have same: "share_match u srt (sn_search sn) (sn_trigrams sn) query maxSharedSearchResults phrases = ?files"
    by (rule share_match_linear [OF ix srt])
  obtain dl ok where r: "?r = (dl, ok)" by (rule prod.exhaust)
  have go: "username \<noteq> me" "?files \<noteq> []" "ok"
    using run r same by (auto simp: respondToSearch_def Let_def split: if_splits)
  have "m = search_response me token ?files (su_availability su)"
    using run r same go
    by (auto simp: respondToSearch_def deliver_results_def Let_def split: if_splits prod.splits sum.splits)
  moreover have "(username, token) \<notin> set (dl_inFlight (po_deliveries po))"
    using reserve_once(1) r go(3) by (metis (full_types))
  ultimately show ?thesis using len go by (simp add: search_response_def)
qed

end
