(* ===== verification/StoreShares.thy ===== *)
theory StoreShares
  imports ShareSnapshot
begin

text \<open>
  The two tables of the shares (\<open>internal/store/shareindex.go\<close>, \<open>sharemeta.go\<close>), the adapters between the
  store and the client (\<open>cmd/slusk/shareindex.go\<close>, \<open>sharemeta.go\<close>), and the client's use of the metadata
  cache. \<open>fails\<close> says at which statement the database refuses; a transaction that it refuses leaves the
  tables alone. A query without an order returns its rows in any order: the argument that permutes them.
\<close>

section \<open>Text the database can hold\<close>

definition ValidString :: "string \<Rightarrow> bool" where
  "ValidString s \<longleftrightarrow> list_all (\<lambda>g. \<not> (fst g = RuneError \<and> length (snd g) = 1)) (glyphs s)"

text \<open>\<open>encoding/json\<close> writes the replacement rune for bytes that are no UTF-8.\<close>

definition json_string :: "string \<Rightarrow> string" where
  "json_string s = concat (map (\<lambda>g. if fst g = RuneError \<and> length (snd g) = 1 then encode_rune RuneError else snd g) (glyphs s))"

definition json_folders :: "SharedFolder list \<Rightarrow> SharedFolder list" where
  "json_folders = map (\<lambda>f. \<lparr>shf_Name = json_string (shf_Name f), shf_Path = json_string (shf_Path f)\<rparr>)"

definition maxShareIndexPathBytes :: nat where
  "maxShareIndexPathBytes = 1024"

definition validShareIndexPath :: "string \<Rightarrow> bool" where
  "validShareIndexPath path \<longleftrightarrow> \<not> length path > maxShareIndexPathBytes \<and> ValidString path"

section \<open>The share index\<close>

record scan_row =
  scan_At :: int
  scan_DurationMs :: int
  scan_Folders :: "SharedFolder list"
  scan_FileCount :: nat
  scan_TotalBytes :: u64

record share_tables =
  tb_scan :: "scan_row option"
  tb_directories :: "string list"
  tb_files :: "ShareIndexEntry list"
  tb_meta :: "ShareFileMeta list"

datatype replace_point = Begin | Clear nat | InsertFiles nat | InsertDirectories nat | InsertScan | Commit
datatype replace_error = BadPath | TotalTooLarge | DatabaseError

definition shareIndexBatch :: nat where
  "shareIndexBatch = 5000"

function batches :: "nat \<Rightarrow> 'a list \<Rightarrow> 'a list list" where
  "batches n xs = (if n = 0 \<or> xs = [] then [] else take n xs # batches n (drop n xs))"
  by auto
termination by (relation "measure (\<lambda>(n, xs). length xs)") auto

declare batches.simps [simp del]

text \<open>\<open>INSERT ... ON CONFLICT DO NOTHING\<close>, row by row\<close>

definition insert_new :: "('r \<Rightarrow> 'k) \<Rightarrow> 'r \<Rightarrow> 'r list \<Rightarrow> 'r list" where
  "insert_new key r t = (if key r \<in> key ` set t then t else t @ [r])"

text \<open>A time as a \<open>timestamptz\<close> or as microseconds keeps it.\<close>

definition micros :: "int \<Rightarrow> int" where
  "micros t = 1000 * UnixMicro t"

definition stored_entry :: "ShareIndexEntry \<Rightarrow> ShareIndexEntry" where
  "stored_entry e = e\<lparr>sie_ModTime := micros (sie_ModTime e)\<rparr>"

fun run_batches :: "(nat \<Rightarrow> bool) \<Rightarrow> nat \<Rightarrow> ('r list \<Rightarrow> 't \<Rightarrow> 't) \<Rightarrow> 'r list list \<Rightarrow> 't \<Rightarrow> 't option" where
  "run_batches fails i ins [] t = Some t"
| "run_batches fails i ins (b # bs) t = (if fails i then None else run_batches fails (Suc i) ins bs (ins b t))"

definition ReplaceShareIndex ::
  "(replace_point \<Rightarrow> bool) \<Rightarrow> ShareIndex \<Rightarrow> share_tables \<Rightarrow> share_tables \<times> replace_error option" where
  "ReplaceShareIndex fails index t =
     (if \<not> list_all (\<lambda>e. validShareIndexPath (sie_VirtualPath e) \<and> validShareIndexPath (sie_LocalPath e)
            \<and> validShareIndexPath (sie_ShareRoot e)) (si_Files index) then (t, Some BadPath)
      else if \<not> list_all validShareIndexPath (si_Directories index) then (t, Some BadPath)
      else if si_TotalBytes index > 0x7FFFFFFFFFFFFFFF then (t, Some TotalTooLarge)
      else if fails Begin \<or> list_ex (\<lambda>i. fails (Clear i)) [0, 1, 2] then (t, Some DatabaseError)
      else
        (case run_batches (\<lambda>i. fails (InsertFiles i)) 0 (fold (insert_new sie_VirtualPath))
                (batches shareIndexBatch (map stored_entry (si_Files index))) [] of
           None \<Rightarrow> (t, Some DatabaseError)
         | Some files \<Rightarrow>
             (case run_batches (\<lambda>i. fails (InsertDirectories i)) 0 (fold (insert_new id))
                    (batches shareIndexBatch (si_Directories index)) [] of
                None \<Rightarrow> (t, Some DatabaseError)
              | Some directories \<Rightarrow>
                  if fails InsertScan \<or> fails Commit then (t, Some DatabaseError)
                  else (t\<lparr>tb_files := files, tb_directories := directories, tb_scan := Some
                       \<lparr>scan_At = micros (si_ScannedAt index), scan_DurationMs = si_ScanDuration index div 1000000,
                        scan_Folders = json_folders (si_Folders index), scan_FileCount = length (si_Files index),
                        scan_TotalBytes = si_TotalBytes index\<rparr>\<rparr>, None))))"

text \<open>\<open>Store.ShareIndex\<close>, when no query fails\<close>

definition read_share_index ::
  "(string list \<Rightarrow> string list) \<Rightarrow> (ShareIndexEntry list \<Rightarrow> ShareIndexEntry list) \<Rightarrow> share_tables \<Rightarrow> ShareIndex option" where
  "read_share_index anyDirs anyFiles t =
     (case tb_scan t of
        None \<Rightarrow> None
      | Some row \<Rightarrow> Some \<lparr>si_ScannedAt = scan_At row, si_ScanDuration = scan_DurationMs row * 1000000,
          si_Folders = scan_Folders row, si_Directories = anyDirs (tb_directories t),
          si_Files = anyFiles (tb_files t), si_FileCount = scan_FileCount row, si_TotalBytes = scan_TotalBytes row\<rparr>)"

section \<open>The metadata cache\<close>

definition maxSharePathBytes :: nat where
  "maxSharePathBytes = 1024"

definition shareMetaBatch :: nat where
  "shareMetaBatch = 5000"

definition storable :: "ShareFileMeta \<Rightarrow> bool" where
  "storable e \<longleftrightarrow> \<not> (length (sfm_Path e) > maxSharePathBytes \<or> \<not> ValidString (sfm_Path e))"

text \<open>Every path once, in the order of its first row, with its last row.\<close>

definition dedupe_meta :: "ShareFileMeta list \<Rightarrow> (string \<times> ShareFileMeta) list" where
  "dedupe_meta es = fold (\<lambda>e. AList.update (sfm_Path e) e) (filter storable es) []"

definition upsert_meta :: "ShareFileMeta \<Rightarrow> ShareFileMeta list \<Rightarrow> ShareFileMeta list" where
  "upsert_meta e t =
     (let r = e\<lparr>sfm_ModTime := micros (sfm_ModTime e)\<rparr>
      in if sfm_Path e \<in> sfm_Path ` set t then row_update (\<lambda>m. sfm_Path m = sfm_Path e) (\<lambda>_. r) t else t @ [r])"

text \<open>Both write batch after batch, each a statement of its own: a failure keeps what went before.\<close>

fun write_batches :: "(nat \<Rightarrow> bool) \<Rightarrow> nat \<Rightarrow> ('r list \<Rightarrow> 't \<Rightarrow> 't) \<Rightarrow> 'r list list \<Rightarrow> 't \<Rightarrow> 't \<times> bool" where
  "write_batches fails i ins [] t = (t, False)"
| "write_batches fails i ins (b # bs) t = (if fails i then (t, True) else write_batches fails (Suc i) ins bs (ins b t))"

definition UpsertShareFileMetadata ::
  "(nat \<Rightarrow> bool) \<Rightarrow> ShareFileMeta list \<Rightarrow> share_tables \<Rightarrow> share_tables \<times> bool" where
  "UpsertShareFileMetadata fails entries t =
     (let (meta, failed) = write_batches fails 0 (fold upsert_meta) (batches shareMetaBatch (map snd (dedupe_meta entries))) (tb_meta t)
      in (t\<lparr>tb_meta := meta\<rparr>, failed))"

definition DeleteShareFileMetadata :: "(nat \<Rightarrow> bool) \<Rightarrow> string list \<Rightarrow> share_tables \<Rightarrow> share_tables \<times> bool" where
  "DeleteShareFileMetadata fails paths t =
     (let (meta, failed) = write_batches fails 0 (\<lambda>b. row_delete (\<lambda>m. sfm_Path m \<in> set b)) (batches shareMetaBatch paths) (tb_meta t)
      in (t\<lparr>tb_meta := meta\<rparr>, failed))"

definition SaveShareMeta ::
  "(nat \<Rightarrow> bool) \<Rightarrow> (nat \<Rightarrow> bool) \<Rightarrow> ShareFileMeta list \<Rightarrow> string list \<Rightarrow> share_tables \<Rightarrow> share_tables \<times> bool" where
  "SaveShareMeta upsertFails deleteFails upserts stalePaths t =
     (let (t, upsertFailed) = UpsertShareFileMetadata upsertFails upserts t;
          (t, deleteFailed) = (if stalePaths \<noteq> [] then DeleteShareFileMetadata deleteFails stalePaths t else (t, False))
      in (t, upsertFailed \<or> deleteFailed))"

text \<open>The client's side: what the scan found in the cache and what it had to read.\<close>

definition loadShareMetaCache :: "ShareFileMeta list option \<Rightarrow> (string \<times> ShareFileMeta) list \<times> bool" where
  "loadShareMetaCache answer =
     (case answer of None \<Rightarrow> ([], False) | Some es \<Rightarrow> (fold (\<lambda>e. AList.update (sfm_Path e) e) es [], True))"

definition stale_paths :: "(string \<times> ShareFileMeta) list \<Rightarrow> string set \<Rightarrow> nat \<Rightarrow> string list" where
  "stale_paths cached observed totalFiles =
     (if totalFiles = 0 \<and> cached \<noteq> [] then [] else filter (\<lambda>p. p \<notin> observed) (map fst cached))"

definition flushShareMetaCache ::
  "(nat \<Rightarrow> bool) \<Rightarrow> (nat \<Rightarrow> bool) \<Rightarrow> (string \<times> ShareFileMeta) list \<Rightarrow> string set \<Rightarrow> ShareFileMeta list \<Rightarrow> bool \<Rightarrow> nat
     \<Rightarrow> share_tables \<Rightarrow> share_tables" where
  "flushShareMetaCache upsertFails deleteFails cached observed pending cacheActive totalFiles t =
     (if \<not> cacheActive then t
      else fst (SaveShareMeta upsertFails deleteFails pending (stale_paths cached observed totalFiles) t))"

section \<open>Batches\<close>

lemma concat_batches: "0 < n \<Longrightarrow> concat (batches n xs) = xs"
proof (induction n xs rule: batches.induct)
  case (1 n xs)
  then show ?case by (cases "xs = []") (simp_all add: batches.simps [of n xs] batches.simps [of n "[]"])
qed

lemma run_batches_all:
  "run_batches fails i (fold f) bs t = Some t' \<Longrightarrow> t' = fold f (concat bs) t"
  by (induction bs arbitrary: i t) (auto split: if_splits)

lemma run_batches_ok: "(\<And>i. \<not> fails i) \<Longrightarrow> run_batches fails i (fold f) bs t = Some (fold f (concat bs) t)"
  by (induction bs arbitrary: i t) auto

lemma write_batches_ok: "(\<And>i. \<not> fails i) \<Longrightarrow> write_batches fails i (fold f) bs t = (fold f (concat bs) t, False)"
  by (induction bs arbitrary: i t) auto

lemma delete_batches_ok:
  "(\<And>i. \<not> fails i) \<Longrightarrow> write_batches fails i (\<lambda>b. row_delete (\<lambda>m. k m \<in> set b)) bs t
     = (row_delete (\<lambda>m. k m \<in> set (concat bs)) t, False)"
  by (induction bs arbitrary: i t) (auto simp: row_delete_def intro!: filter_cong)

lemma insert_new_distinct:
  "distinct (map key (t @ rs)) \<Longrightarrow> fold (insert_new key) rs t = t @ rs"
proof (induction rs arbitrary: t)
  case (Cons r rs)
  then have "insert_new key r t = t @ [r]" by (auto simp: insert_new_def)
  then show ?case using Cons by simp
qed simp

section \<open>A restart offers what the last scan offered\<close>

lemma replace_fails: "ReplaceShareIndex fails index t = (t', Some e) \<Longrightarrow> t' = t"
  by (auto simp: ReplaceShareIndex_def Let_def split: if_splits option.splits)

lemma replace_read:
  assumes run: "ReplaceShareIndex fails index t = (t', None)"
    and d: "distinct (map sie_VirtualPath (si_Files index))" "distinct (si_Directories index)"
    and any: "\<And>ds. mset (anyDirs ds) = mset ds" "\<And>es. mset (anyFiles es) = mset es"
  shows "\<exists>index'. read_share_index anyDirs anyFiles t' = Some index'
    \<and> mset (si_Directories index') = mset (si_Directories index)
    \<and> mset (si_Files index') = mset (map stored_entry (si_Files index))
    \<and> si_Folders index' = json_folders (si_Folders index) \<and> si_FileCount index' = length (si_Files index)
    \<and> si_ScannedAt index' = micros (si_ScannedAt index)"
proof -
  have n: "0 < shareIndexBatch" by (simp add: shareIndexBatch_def)
  obtain fs where fs: "run_batches (\<lambda>i. fails (InsertFiles i)) 0 (fold (insert_new sie_VirtualPath))
      (batches shareIndexBatch (map stored_entry (si_Files index))) [] = Some fs"
    using run by (auto simp: ReplaceShareIndex_def split: if_splits option.splits)
  obtain ds where ds: "run_batches (\<lambda>i. fails (InsertDirectories i)) 0 (fold (insert_new id))
      (batches shareIndexBatch (si_Directories index)) [] = Some ds"
    using run fs by (auto simp: ReplaceShareIndex_def split: if_splits option.splits)
  have same: "map (sie_VirtualPath \<circ> stored_entry) (si_Files index) = map sie_VirtualPath (si_Files index)"
    by (simp add: stored_entry_def)
  have "fs = map stored_entry (si_Files index)"
    using run_batches_all [OF fs] insert_new_distinct [of sie_VirtualPath "[]" "map stored_entry (si_Files index)"] d(1)
    by (simp add: concat_batches [OF n] same)
  moreover have "ds = si_Directories index"
    using run_batches_all [OF ds] insert_new_distinct [of id "[]" "si_Directories index"] d(2)
    by (simp add: concat_batches [OF n])
  ultimately show ?thesis
    using run fs ds any by (auto simp: ReplaceShareIndex_def read_share_index_def split: if_splits)
qed

definition restored :: "indexedFile \<Rightarrow> indexedFile" where
  "restored f = f\<lparr>ix_modTime := micros (ix_modTime f), ix_info := None\<rparr>"

lemma restored_entry: "indexed_ok u f \<Longrightarrow> indexed_of u (stored_entry (index_entry_of f)) = restored f"
proof -
  assume "indexed_ok u f"
  then have "indexed_of u (index_entry_of f) = f\<lparr>ix_info := None\<rparr>" by (rule entry_roundtrip)
  moreover have "indexed_of u (stored_entry e) = (indexed_of u e)\<lparr>ix_modTime := micros (ix_modTime (indexed_of u e))\<rparr>" for e
    by (simp add: indexed_of_def stored_entry_def)
  ultimately show ?thesis by (simp add: restored_def)
qed

lemma json_valid: "ValidString s \<Longrightarrow> json_string s = s"
proof -
  assume "ValidString s"
  then have "json_string s = text_of (glyphs s)"
    unfolding json_string_def text_of_def ValidString_def by (intro arg_cong [of _ _ concat] map_cong) (auto simp: list_all_iff)
  then show ?thesis by simp
qed

lemma no_difference: "distinct (map shf_Name fs) \<Longrightarrow> diffSharedFolders fs fs = []"
proof -
  assume d: "distinct (map shf_Name fs)"
  have "folder_map fs (shf_Name f) = Some (shf_Path f)" if "f \<in> set fs" for f
    using that d unfolding folder_map_def by (intro map_of_is_SomeI) (auto simp: rev_map [symmetric] o_def)
  then show ?thesis by (simp add: diffSharedFolders_def)
qed

theorem restart_offers:
  assumes so: "sorting u so" and o: "offers u deflate fs dirs files sn"
    and files: "distinct (map ix_virtual files)" "\<And>f. f \<in> set files \<Longrightarrow> indexed_ok u f"
      "\<And>f. f \<in> set files \<Longrightarrow> virtualDirectory (ix_virtual f) \<in> set dirs"
    and dirs: "distinct dirs" and fs: "distinct (map shf_Name fs)"
      "\<And>f. f \<in> set fs \<Longrightarrow> ValidString (shf_Name f) \<and> ValidString (shf_Path f)"
    and any: "\<And>ds. mset (anyDirs ds) = mset ds" "\<And>es. mset (anyFiles es) = mset es"
    and save: "ReplaceShareIndex fails (saved_index fs sn) t = (t', None)"
  shows "\<exists>index. loadShareIndex fs (Inr (read_share_index anyDirs anyFiles t')) = Inr index
    \<and> (\<forall>ctx sn'. rebuildShareSnapshot u deflate so ctx index = Inr sn' \<longrightarrow> offers u deflate fs dirs (map restored files) sn')"
proof -
  have m: "mset (sn_search sn) = mset files" "mset (map dir_Name (sn_directories sn)) = mset dirs"
    using o by (simp_all add: offers_def)
  have names: "map sie_VirtualPath (si_Files (saved_index fs sn)) = map ix_virtual (sn_search sn)"
    by (simp add: saved_index_def index_entry_of_def o_def case_prod_unfold Let_def)
  have "distinct (map ix_virtual (sn_search sn))"
    using m(1) files(1) mset_eq_imp_distinct_iff [of "map ix_virtual (sn_search sn)" "map ix_virtual files"] by simp
  then have d: "distinct (map sie_VirtualPath (si_Files (saved_index fs sn)))"
    "distinct (si_Directories (saved_index fs sn))"
    unfolding names using mset_eq_imp_distinct_iff [OF m(2)] dirs by (simp_all add: saved_index_def)
  obtain index where index: "read_share_index anyDirs anyFiles t' = Some index"
    "mset (si_Directories index) = mset dirs" "mset (si_Files index) = mset (map (stored_entry \<circ> index_entry_of) (sn_search sn))"
    "si_Folders index = json_folders fs" "si_FileCount index = length (sn_search sn)"
    using replace_read [OF save d any] m(2) by (auto simp: saved_index_def)
  have folders: "json_folders fs = fs" using fs(2) by (auto simp: json_folders_def json_valid intro!: map_idI)
  have count: "length (si_Files index) = length (sn_search sn)" using mset_eq_length [OF index(3)] by simp
  have "loadShareIndex fs (Inr (Some index)) = Inr index"
    using index(4,5) folders count no_difference [OF fs(1)] by (simp add: loadShareIndex_def)
  moreover have "offers u deflate fs dirs (map restored files) sn'"
    if run: "rebuildShareSnapshot u deflate so ctx index = Inr sn'" for ctx sn'
  proof -
    have set: "set (sn_search sn) = set files" "set (si_Directories index) = set dirs"
      using m(1) index(2) mset_eq_setD by blast+
    have "mset (map (indexed_of u) (si_Files index)) = mset (map (indexed_of u) (map (stored_entry \<circ> index_entry_of) (sn_search sn)))"
      using index(3) by (metis mset_map)
    also have "\<dots> = mset (map restored (sn_search sn))"
      using files(2) set(1) by (intro arg_cong [of _ _ mset]) (auto simp: restored_entry)
    also have "\<dots> = mset (map restored files)" using m(1) by (metis mset_map)
    finally have eq: "mset (map (indexed_of u) (si_Files index)) = mset (map restored files)" .
    have virt: "map ix_virtual (map restored files) = map ix_virtual files" by (simp add: restored_def)
    have dist: "distinct (map ix_virtual (map (indexed_of u) (si_Files index)))"
      using eq virt files(1) mset_eq_imp_distinct_iff [of "map ix_virtual (map (indexed_of u) (si_Files index))" "map ix_virtual files"]
      by (metis mset_map)
    have inside: "virtualDirectory (sie_VirtualPath e) \<in> set (si_Directories index)" if "e \<in> set (si_Files index)" for e
    proof -
      have "e \<in> (stored_entry \<circ> index_entry_of) ` set files" using that mset_eq_setD [OF index(3)] set(1) by auto
      then obtain f where "f \<in> set files" "e = stored_entry (index_entry_of f)" by auto
      then show ?thesis using files(3) set(2)
        by (simp add: stored_entry_def index_entry_of_def case_prod_unfold Let_def)
    qed
    have "distinct (si_Directories index)" using mset_eq_imp_distinct_iff [OF index(2)] dirs by simp
    then have "offers u deflate fs (si_Directories index) (map (indexed_of u) (si_Files index)) sn'"
      using rebuild_offers [OF so _ inside run] index(4) folders by simp
    then show ?thesis by (rule offers_perm [OF index(2) eq dist])
  qed
  ultimately show ?thesis using index(1) by auto
qed

section \<open>The metadata cache holds what the scan saw\<close>

definition by_path :: "ShareFileMeta list \<Rightarrow> (string \<times> ShareFileMeta) list \<Rightarrow> (string \<times> ShareFileMeta) list" where
  "by_path es = fold (\<lambda>e. AList.update (sfm_Path e) e) es"

lemma by_path_keys:
  "fst ` set (by_path es al) = fst ` set al \<union> sfm_Path ` set es"
  "(\<forall>(k, v) \<in> set al. sfm_Path v = k) \<Longrightarrow> distinct (map fst al) \<Longrightarrow>
   (\<forall>(k, v) \<in> set (by_path es al). sfm_Path v = k) \<and> distinct (map fst (by_path es al))"
proof (induction es arbitrary: al)
  case (Cons e es)
  have keys: "fst ` set (AList.update (sfm_Path e) e as) = insert (sfm_Path e) (fst ` set as)" for as
    using dom_update [of "sfm_Path e" e as] by simp
  have step: "by_path (e # es) as = by_path es (AList.update (sfm_Path e) e as)" for as by (simp add: by_path_def)
  { case 1 then show ?case using Cons.IH(1) keys by (simp add: step) }
  { case 2
    let ?al = "AList.update (sfm_Path e) e al"
    have d: "distinct (map fst ?al)" using 2(2) by (simp add: distinct_update)
    have "sfm_Path v = k" if "(k, v) \<in> set ?al" for k v
    proof -
      have "map_of ?al k = Some v" using that d by (rule map_of_is_SomeI [rotated])
      then show ?thesis using 2(1) by (auto simp: update_conv dest: map_of_SomeD split: if_splits)
    qed
    then show ?case using Cons.IH(2) [of ?al] d by (auto simp: step) }
qed (auto simp: by_path_def)

lemma upsert_paths: "sfm_Path ` set (upsert_meta e t) = insert (sfm_Path e) (sfm_Path ` set t)"
proof -
  let ?r = "(e :: ShareFileMeta)\<lparr>sfm_ModTime := micros (sfm_ModTime e)\<rparr>"
  have "map sfm_Path (row_update (\<lambda>m. sfm_Path m = sfm_Path e) (\<lambda>_. ?r) t) = map sfm_Path t"
    by (rule map_row_update) simp
  then have "sfm_Path ` set (row_update (\<lambda>m. sfm_Path m = sfm_Path e) (\<lambda>_. ?r) t) = sfm_Path ` set t"
    by (metis set_map)
  then show ?thesis by (cases "sfm_Path e \<in> sfm_Path ` set t") (simp_all add: upsert_meta_def Let_def insert_absorb)
qed

lemma upserts_paths: "sfm_Path ` set (fold upsert_meta es t) = sfm_Path ` set t \<union> sfm_Path ` set es"
  by (induction es arbitrary: t) (simp_all add: upsert_paths)

lemma left_after: "k ` set (row_delete (\<lambda>m. k m \<in> S) ms) = k ` set ms - S"
  by (auto simp: set_row_delete)

lemma flush_paths:
  assumes load: "loadShareMetaCache (Some (tb_meta t)) = (cached, enabled)" and files: "totalFiles > 0"
    and ok: "\<And>i. \<not> upsertFails i" "\<And>i. \<not> deleteFails i" and pending: "sfm_Path ` set pending \<subseteq> observed"
  shows "sfm_Path ` set (tb_meta (flushShareMetaCache upsertFails deleteFails cached observed pending enabled totalFiles t))
    = (sfm_Path ` set (tb_meta t) \<inter> observed) \<union> sfm_Path ` {e \<in> set pending. storable e}"
proof -
  have n: "0 < shareMetaBatch" by (simp add: shareMetaBatch_def)
  have act: "enabled" "cached = by_path (tb_meta t) []" using load by (auto simp: loadShareMetaCache_def by_path_def)
  have keys: "fst ` set cached = sfm_Path ` set (tb_meta t)" using by_path_keys(1) [of "tb_meta t" "[]"] act(2) by simp
  let ?rows = "map snd (dedupe_meta pending)"
  have "sfm_Path ` set ?rows = fst ` set (dedupe_meta pending)"
    using by_path_keys(2) [of "[]" "filter storable pending"] by (force simp: dedupe_meta_def by_path_def [symmetric])
  then have rows: "sfm_Path ` set ?rows = sfm_Path ` {e \<in> set pending. storable e}"
    using by_path_keys(1) [of "filter storable pending" "[]"] by (simp add: dedupe_meta_def by_path_def [symmetric])
  let ?m = "fold upsert_meta ?rows (tb_meta t)" and ?stale = "stale_paths cached observed totalFiles"
  have meta: "tb_meta (flushShareMetaCache upsertFails deleteFails cached observed pending enabled totalFiles t)
      = row_delete (\<lambda>m. sfm_Path m \<in> set ?stale) ?m"
  proof -
    have "UpsertShareFileMetadata upsertFails pending t = (t\<lparr>tb_meta := ?m\<rparr>, False)"
      using write_batches_ok [of upsertFails 0 upsert_meta, OF ok(1)] by (simp add: UpsertShareFileMetadata_def concat_batches [OF n])
    moreover have "DeleteShareFileMetadata deleteFails ps s
        = (s\<lparr>tb_meta := row_delete (\<lambda>m. sfm_Path m \<in> set ps) (tb_meta s)\<rparr>, False)" for ps s
      using delete_batches_ok [of deleteFails 0 "sfm_Path :: ShareFileMeta \<Rightarrow> _", OF ok(2)] concat_batches [OF n, of ps]
      by (simp only: DeleteShareFileMetadata_def Let_def case_prod_conv)
    ultimately show ?thesis using act(1)
      by (simp add: flushShareMetaCache_def SaveShareMeta_def row_delete_def)
  qed
  have "set ?stale = sfm_Path ` set (tb_meta t) - observed" using files keys by (auto simp: stale_paths_def)
  then have "sfm_Path ` set (row_delete (\<lambda>m. sfm_Path m \<in> set ?stale) ?m)
      = (sfm_Path ` set (tb_meta t) \<union> sfm_Path ` {e \<in> set pending. storable e}) - (sfm_Path ` set (tb_meta t) - observed)"
    using upserts_paths [of ?rows "tb_meta t"] by (simp only: left_after rows)
  then show ?thesis using meta pending by auto
qed

end
