(* ===== verification/ShareScan.thy ===== *)
theory ShareScan
  imports StoreShares PeerPaths
begin

text \<open>
  The scan of the shared folders (\<open>scanShares\<close> in \<open>internal/soulseek/shares.go\<close>): the configured names and
  paths are checked, each folder is walked, every regular file that the walk meets and that resolves to a
  place below the folder is indexed, and what the walk gathered becomes a snapshot.

  The files may change while the walk goes on. What the walk meets is a tree, and each entry of it carries
  the answers that the calls about it get during the walk.
\<close>

section \<open>What a walk meets\<close>

datatype fs_failure = FsNotExist | OtherFailure

record file_info =
  fi_regular :: bool
  fi_size :: int
  fi_modTime :: int
  fi_ident :: nat \<comment> \<open>what \<open>os.SameFile\<close> compares\<close>

record looked =
  lk_info :: "fs_failure + file_info" \<comment> \<open>\<open>entry.Info\<close>\<close>
  lk_resolved :: "fs_failure + string" \<comment> \<open>\<open>filepath.EvalSymlinks\<close>\<close>
  lk_stat :: "file_info option"
  lk_seconds :: "real option" \<comment> \<open>the duration read from an audio file\<close>
  lk_resolvedAfter :: "fs_failure + string"
  lk_statAfter :: "file_info option"

text \<open>A directory may fail to be read, after some of its entries.\<close>

datatype scan_node =
    ScanDir string "fs_failure option" "scan_node list"
  | ScanLink string
  | ScanFile string looked

fun node_name :: "scan_node \<Rightarrow> string" where
  "node_name (ScanDir n _ _) = n"
| "node_name (ScanLink n) = n"
| "node_name (ScanFile n _) = n"

section \<open>Technical metadata\<close>

definition rounded :: "real \<Rightarrow> int" where
  "rounded x = \<lfloor>x + 1 / 2\<rfloor>"

definition extractTechnicalMetadata :: "unicode \<Rightarrow> string \<Rightarrow> int \<Rightarrow> real option \<Rightarrow> Attribute list" where
  "extractTechnicalMetadata u path siz seconds =
     (if audioFormatOf u path = [] then []
      else (case seconds of
              None \<Rightarrow> []
            | Some s \<Rightarrow>
                if s \<le> 0 then []
                else (let duration = \<lfloor>s\<rfloor>; bitrate = rounded (real_of_int siz * 8 / s / 1000)
                      in if duration = 0 \<or> duration > 0xFFFFFFFF \<or> bitrate = 0 \<or> bitrate > 0xFFFFFFFF then []
                         else [(0, word_of_int bitrate), (1, word_of_int duration)])))"

section \<open>The walk\<close>

record scanning =
  sg_found :: gathered
  sg_folder :: ShareFolderStats
  sg_observed :: "(string \<times> ShareFileMeta) list"
  sg_pending :: "ShareFileMeta list"

record scan_env =
  se_unicode :: unicode
  se_cached :: "(string \<times> ShareFileMeta) list"
  se_name :: string \<comment> \<open>the configured name\<close>
  se_root :: string \<comment> \<open>the resolved folder\<close>
  se_stopped :: "string \<Rightarrow> bool" \<comment> \<open>whether the context is done when the walk comes to a path\<close>

datatype scan_error =
    ScanInterrupted
  | InvalidName string
  | DuplicateName string
  | InvalidPath string
  | DuplicatePath string
  | Unresolved string
  | NoDirectory string
  | WalkFailed fs_failure
  | PathEscaped
  | FileEscaped string
  | FileChanged string

text \<open>The virtual path of what the walk meets at \<open>path\<close>.\<close>

definition virtual_of :: "string \<Rightarrow> string \<Rightarrow> string \<Rightarrow> string option" where
  "virtual_of name base path =
     (case Rel base path of
        None \<Rightarrow> None
      | Some rel \<Rightarrow>
          if rel = ''..'' \<or> HasPrefix rel ''../'' then None
          else Some (if rel = ''.'' then name else name @ CHR 0x5C # replace_byte (CHR ''/'') [CHR 0x5C] rel))"

definition enter_folder :: "scan_env \<Rightarrow> string \<Rightarrow> scanning \<Rightarrow> scan_error + scanning" where
  "enter_folder env path sg =
     (case virtual_of (se_name env) (se_root env) path of
        None \<Rightarrow> Inl PathEscaped
      | Some v \<Rightarrow>
          if v \<in> fst ` set (ga_directories (sg_found sg)) then Inr sg
          else Inr (sg\<lparr>sg_found := (sg_found sg)\<lparr>ga_directories := ensure_directory v (ga_directories (sg_found sg))\<rparr>,
                  sg_folder := (sg_folder sg)\<lparr>sfs_Directories := sfs_Directories (sg_folder sg) + 1\<rparr>\<rparr>))"

definition same_file :: "file_info \<Rightarrow> file_info option \<Rightarrow> bool" where
  "same_file info other = (case other of None \<Rightarrow> False | Some i \<Rightarrow> fi_regular i \<and> fi_ident i = fi_ident info)"

text \<open>The attributes of a file, and what the cache learns.\<close>

definition read_attributes :: "unicode \<Rightarrow> string \<Rightarrow> file_info \<Rightarrow> looked \<Rightarrow> scanning \<Rightarrow> Attribute list \<times> scanning" where
  "read_attributes u path info lk sg =
     (let attrs = extractTechnicalMetadata u path (fi_size info) (lk_seconds lk);
          (bitrate, duration) = attributeValues attrs;
          entry = \<lparr>sfm_Path = path, sfm_Size = fi_size info, sfm_ModTime = fi_modTime info,
            sfm_Bitrate = bitrate, sfm_Duration = duration\<rparr>
      in (attrs, sg\<lparr>sg_observed := AList.update path entry (sg_observed sg), sg_pending := sg_pending sg @ [entry]\<rparr>))"

definition attributes_of :: "scan_env \<Rightarrow> string \<Rightarrow> file_info \<Rightarrow> looked \<Rightarrow> scanning \<Rightarrow> Attribute list \<times> scanning" where
  "attributes_of env path info lk sg =
     (let u = se_unicode env
      in if audioFormatOf u path = [] then ([], sg)
         else
           (case map_of (se_cached env) path of
              Some hit \<Rightarrow>
                if sameShareFileMeta hit (fi_size info) (fi_modTime info)
                then (attributesFromCache (sfm_Bitrate hit) (sfm_Duration hit),
                  sg\<lparr>sg_observed := AList.update path hit (sg_observed sg)\<rparr>)
                else read_attributes u path info lk sg
            | None \<Rightarrow> read_attributes u path info lk sg))"

definition found_file :: "scan_env \<Rightarrow> string \<Rightarrow> string \<Rightarrow> file_info \<Rightarrow> Attribute list \<Rightarrow> indexedFile" where
  "found_file env v path info attrs =
     (let u = se_unicode env
      in \<lparr>ix_virtual = v, ix_virtualLower = ToLower u v, ix_local = path, ix_root = se_root env,
           ix_wire = \<lparr>file_Name = v, file_Size = word_of_int (fi_size info), file_Extension = extensionOf u (Base path),
             file_Attributes = attrs\<rparr>,
           ix_modTime = fi_modTime info, ix_info = Some (fi_ident info)\<rparr>)"

definition index_file :: "indexedFile \<Rightarrow> scanning \<Rightarrow> scanning" where
  "index_file f sg = sg\<lparr>sg_found := add_indexed f (sg_found sg),
     sg_folder := (sg_folder sg)\<lparr>sfs_Files := sfs_Files (sg_folder sg) + 1,
       sfs_TotalBytes := sfs_TotalBytes (sg_folder sg) + file_Size (ix_wire f)\<rparr>\<rparr>"

definition visit_file :: "scan_env \<Rightarrow> string \<Rightarrow> looked \<Rightarrow> scanning \<Rightarrow> scan_error + scanning" where
  "visit_file env path lk sg =
     (case virtual_of (se_name env) (se_root env) path of
        None \<Rightarrow> Inl PathEscaped
      | Some v \<Rightarrow>
          (case lk_info lk of
             Inl FsNotExist \<Rightarrow> Inr sg
           | Inl e \<Rightarrow> Inl (WalkFailed e)
           | Inr info \<Rightarrow>
               if \<not> fi_regular info then Inr sg
               else (case lk_resolved lk of
                       Inl FsNotExist \<Rightarrow> Inr sg
                     | Inl e \<Rightarrow> Inl (WalkFailed e)
                     | Inr r \<Rightarrow>
                         if \<not> pathWithinRoot (se_root env) (Clean r) then Inl (FileEscaped path)
                         else if \<not> same_file info (lk_stat lk) then Inl (FileChanged path)
                         else
                           (let (attrs, sg) = attributes_of env path info lk sg
                            in case lk_resolvedAfter lk of
                                 Inl e \<Rightarrow> Inl (WalkFailed e)
                               | Inr r \<Rightarrow>
                                   if \<not> pathWithinRoot (se_root env) (Clean r) then Inl (FileEscaped path)
                                   else if \<not> same_file info (lk_statAfter lk) then Inl (FileChanged path)
                                   else Inr (index_file (found_file env v path info attrs) sg)))))"

text \<open>\<open>filepath.WalkDir\<close> below the root, with the function the scan gives it.\<close>

fun walk_node :: "scan_env \<Rightarrow> string \<Rightarrow> scan_node \<Rightarrow> scanning \<Rightarrow> scan_error + scanning"
  and walk_nodes :: "scan_env \<Rightarrow> string \<Rightarrow> scan_node list \<Rightarrow> scanning \<Rightarrow> scan_error + scanning" where
  "walk_node env dir (ScanDir n failure nodes) sg =
     (let path = Join_path [dir, n]
      in if se_stopped env path then Inl ScanInterrupted
         else if CHR 0x5C \<in> set n then Inr sg
         else rbind (enter_folder env path sg) (\<lambda>sg.
           if failure = Some OtherFailure then Inl (WalkFailed OtherFailure) else walk_nodes env path nodes sg))"
| "walk_node env dir (ScanLink n) sg = (if se_stopped env (Join_path [dir, n]) then Inl ScanInterrupted else Inr sg)"
| "walk_node env dir (ScanFile n lk) sg =
     (let path = Join_path [dir, n]
      in if se_stopped env path then Inl ScanInterrupted
         else if CHR 0x5C \<in> set n then Inr sg
         else visit_file env path lk sg)"
| "walk_nodes env dir [] sg = Inr sg"
| "walk_nodes env dir (node # nodes) sg = rbind (walk_node env dir node sg) (walk_nodes env dir nodes)"

text \<open>The walk from the root.\<close>

definition scan_tree :: "scan_env \<Rightarrow> fs_failure option \<Rightarrow> scan_node list \<Rightarrow> scanning \<Rightarrow> scan_error + scanning" where
  "scan_tree env failure nodes sg =
     (if se_stopped env (se_root env) then Inl ScanInterrupted
      else rbind (enter_folder env (se_root env) sg) (\<lambda>sg.
        case failure of Some e \<Rightarrow> Inl (WalkFailed e) | None \<Rightarrow> walk_nodes env (se_root env) nodes sg))"

section \<open>The configured folders\<close>

record share_view =
  sv_stopped :: bool
  sv_resolved :: "string option" \<comment> \<open>the configured path without symbolic links\<close>
  sv_isDir :: "bool option" \<comment> \<open>\<open>os.Stat\<close>\<close>
  sv_failure :: "fs_failure option" \<comment> \<open>of reading the folder itself\<close>
  sv_nodes :: "scan_node list"

definition valid_share_name :: "string \<Rightarrow> bool" where
  "valid_share_name configured =
     (let name = TrimSpace configured
      in \<not> (name = [] \<or> name \<noteq> configured \<or> name = ''.'' \<or> name = ''..'' \<or> CHR ''/'' \<in> set name \<or> CHR 0x5C \<in> set name))"

definition fresh_folder :: "SharedFolder \<Rightarrow> ShareFolderStats" where
  "fresh_folder f = \<lparr>sfs_Name = shf_Name f, sfs_Path = shf_Path f, sfs_Directories = 0, sfs_Files = 0, sfs_TotalBytes = 0\<rparr>"

record scan_total =
  sc_found :: gathered
  sc_folders :: "ShareFolderStats list"
  sc_observed :: "(string \<times> ShareFileMeta) list"
  sc_pending :: "ShareFileMeta list"

definition scan_folder ::
  "unicode \<Rightarrow> (string \<Rightarrow> bool) \<Rightarrow> (string \<times> ShareFileMeta) list \<Rightarrow> SharedFolder \<Rightarrow> share_view \<Rightarrow> scan_total
     \<Rightarrow> scan_error + scan_total" where
  "scan_folder u stopped cached configured view sc =
     (if sv_stopped view then Inl ScanInterrupted
      else (case sv_resolved view of
              None \<Rightarrow> Inl (Unresolved (shf_Name configured))
            | Some resolved \<Rightarrow>
                (let base = Clean resolved
                 in if sv_isDir view \<noteq> Some True then Inl (NoDirectory (shf_Name configured))
                    else rbind (scan_tree \<lparr>se_unicode = u, se_cached = cached, se_name = shf_Name configured, se_root = base,
                             se_stopped = stopped\<rparr> (sv_failure view) (sv_nodes view)
                             \<lparr>sg_found = sc_found sc, sg_folder = fresh_folder configured, sg_observed = sc_observed sc,
                              sg_pending = sc_pending sc\<rparr>)
                           (\<lambda>sg. Inr (sc\<lparr>sc_found := sg_found sg, sc_folders := sc_folders sc @ [sg_folder sg],
                              sc_observed := sg_observed sg, sc_pending := sg_pending sg\<rparr>)))))"

fun scan_folders ::
  "unicode \<Rightarrow> (string \<Rightarrow> bool) \<Rightarrow> (string \<times> ShareFileMeta) list \<Rightarrow> string list \<Rightarrow> string list \<Rightarrow> (SharedFolder \<times> share_view) list
     \<Rightarrow> scan_total \<Rightarrow> scan_error + scan_total" where
  "scan_folders u stopped cached names paths [] sc = Inr sc"
| "scan_folders u stopped cached names paths ((configured, view) # rest) sc =
     (let name = shf_Name configured; path = shf_Path configured
      in if \<not> valid_share_name name then Inl (InvalidName name)
         else if ToLower u name \<in> set names then Inl (DuplicateName name)
         else if TrimSpace path \<noteq> path \<or> \<not> absolute path then Inl (InvalidPath name)
         else if Clean path \<in> set paths then Inl (DuplicatePath path)
         else rbind (scan_folder u stopped cached configured view sc)
           (scan_folders u stopped cached (ToLower u name # names) (Clean path # paths) rest))"

text \<open>
  The whole scan, on the metadata table of the database, which may not be readable: a scan that fails
  leaves the cache as it is, and what the scan learned is written before the snapshot is put together.
\<close>

datatype scan_failure = ScanFailed scan_error | PublishFailed share_error

definition no_gathered :: gathered where
  "no_gathered = \<lparr>ga_files = [], ga_search = [], ga_directories = []\<rparr>"

definition scanShares ::
  "unicode \<Rightarrow> (u8 list \<Rightarrow> u8 list) \<Rightarrow> sorts \<Rightarrow> (publish_point \<Rightarrow> bool) \<Rightarrow> (string \<Rightarrow> bool) \<Rightarrow> bool \<Rightarrow> (nat \<Rightarrow> bool)
     \<Rightarrow> (nat \<Rightarrow> bool) \<Rightarrow> (SharedFolder \<times> share_view) list \<Rightarrow> int \<Rightarrow> int \<Rightarrow> share_tables \<Rightarrow> share_tables \<times> (scan_failure + shareSnapshot)" where
  "scanShares u deflate so ctx stopped readable upsertFails deleteFails views indexedAt scanDuration t =
     (let (cached, cacheActive) = loadShareMetaCache (if readable then Some (tb_meta t) else None)
      in case scan_folders u stopped cached [] [] views
                \<lparr>sc_found = no_gathered, sc_folders = [], sc_observed = [], sc_pending = []\<rparr> of
           Inl e \<Rightarrow> (t, Inl (ScanFailed e))
         | Inr sc \<Rightarrow>
             (flushShareMetaCache upsertFails deleteFails cached (fst ` set (sc_observed sc)) (sc_pending sc) cacheActive
                (length (ga_files (sc_found sc))) t,
              case finish_snapshot u deflate so ctx indexedAt scanDuration (sc_folders sc) (sc_found sc) of
                Inl e \<Rightarrow> Inl (PublishFailed e) | Inr sn \<Rightarrow> Inr sn))"

end
