(* ===== verification/ShareScanFacts.thy ===== *)
theory ShareScanFacts
  imports ShareScan
begin

text \<open>
  What a scan that succeeds has published: the directories and the regular files below the configured
  folders, each once, under the name of its folder, with the counts of each folder; and what is stored of
  it brings the same files back at the next start.
\<close>

section \<open>Paths of the walk\<close>

definition slash :: "string list \<Rightarrow> string" where
  "slash es = CHR ''/'' # Join ''/'' es"

definition backed :: "string list \<Rightarrow> string" where
  "backed cs = Join [CHR 0x5C] cs"

definition plain :: "string list \<Rightarrow> bool" where
  "plain cs \<longleftrightarrow> (\<forall>c \<in> set cs. CHR 0x5C \<notin> set c)"

lemma plain_simps [simp]: "plain []" "plain (c # cs) \<longleftrightarrow> CHR 0x5C \<notin> set c \<and> plain cs" "plain (cs @ ds) \<longleftrightarrow> plain cs \<and> plain ds"
  by (auto simp: plain_def)

lemma cleaned_simps [simp]: "cleaned []" "cleaned (es @ fs) \<longleftrightarrow> cleaned es \<and> cleaned fs"
  "cleaned (e # es) \<longleftrightarrow> e \<noteq> [] \<and> e \<noteq> ''.'' \<and> e \<noteq> ''..'' \<and> CHR ''/'' \<notin> set e \<and> cleaned es"
  by (auto simp: cleaned_def)

lemma absolute_slash [simp]: "absolute (slash es)"
  by (simp add: slash_def absolute_iff)

lemma slash_elements: "cleaned es \<Longrightarrow> abs_elements (slash es) = es"
  unfolding slash_def by (rule abs_elements_Join)

lemma Clean_slash: "cleaned es \<Longrightarrow> Clean (slash es) = slash es"
  by (simp only: Clean_absolute [OF absolute_slash] slash_elements) (simp only: slash_def)

lemma step_path: "cleaned (es @ [n]) \<Longrightarrow> Join_path [slash es, n] = slash (es @ [n])"
proof -
  assume ok: "cleaned (es @ [n])"
  let ?p = "slash es @ CHR ''/'' # n"
  have "abs_elements ?p = es @ [n]"
  proof (cases "es = []")
    case True
    have "split_on (CHR ''/'') [] n = [n]" using ok split_on_plain [of "CHR ''/''" n "[]"] by simp
    then show ?thesis using True ok by (simp add: abs_elements_def slash_def Join_def)
  next
    case False
    then have "?p = slash (es @ [n])" by (simp add: slash_def Join_snoc)
    then show ?thesis using slash_elements [OF ok] by simp
  qed
  then have "Clean ?p = slash (es @ [n])" using Clean_absolute [of ?p] by (simp add: slash_def absolute_iff)
  moreover have "Join ''/'' [slash es, n] = ?p" by (simp add: Join_def)
  ultimately show ?thesis using ok by (simp add: Join_path_def slash_def)
qed

lemma Rel_slash: "cleaned (es @ cs) \<Longrightarrow> Rel (slash es) (slash (es @ cs)) = Some (if cs = [] then ''.'' else Join ''/'' cs)"
proof -
  assume ok: "cleaned (es @ cs)"
  have parts: "path_parts (slash es) = es" "path_parts (slash (es @ cs)) = es @ cs"
    using parts_of_Clean [of "slash es"] parts_of_Clean [of "slash (es @ cs)"] ok by (simp_all add: Clean_slash slash_elements)
  have same: "slash (es @ cs) = slash es \<longleftrightarrow> cs = []" using parts by (metis append_self_conv)
  have drop: "drop_common xs (xs @ ys) = ([], ys)" for xs ys :: "string list" by (induction xs) (cases ys, auto)
  have "slash es \<noteq> ''.''" by (simp add: slash_def)
  then show ?thesis using ok same by (simp add: Rel_def Clean_slash parts drop Let_def)
qed

lemma replace_Join: "\<forall>c \<in> set cs. CHR ''/'' \<notin> set c \<Longrightarrow> replace_byte (CHR ''/'') [CHR 0x5C] (Join ''/'' cs) = backed cs"
proof (induction cs rule: rev_induct)
  case (snoc c cs)
  have app: "replace_byte x r (s @ t) = replace_byte x r s @ replace_byte x r t"
    "replace_byte x r (d # s) = (if d = x then r else [d]) @ replace_byte x r s" for x r s t d by (simp_all add: replace_byte_def)
  have "replace_byte (CHR ''/'') [CHR 0x5C] c = c" using snoc.prems by (intro replace_absent) simp
  moreover have "replace_byte (CHR ''/'') [CHR 0x5C] ''/'' = [CHR 0x5C]" by (simp add: replace_byte_def)
  ultimately show ?case using snoc by (simp add: Join_snoc app backed_def)
qed (simp add: Join_def replace_byte_def backed_def)

lemma virtual_path:
  assumes "cleaned (es @ cs)"
  shows "virtual_of name (slash es) (slash (es @ cs)) = Some (backed (name # cs))"
proof -
  have rel: "Rel (slash es) (slash (es @ cs)) = Some (if cs = [] then ''.'' else Join ''/'' cs)" by (rule Rel_slash [OF assms])
  have "pathWithinRoot (slash es) (slash (es @ cs))"
    using within_elements [of "slash es" "slash (es @ cs)"] assms by (simp add: slash_elements)
  then have "\<not> ((if cs = [] then ''.'' else Join ''/'' cs) = ''..'' \<or> HasPrefix (if cs = [] then ''.'' else Join ''/'' cs) ''../'')"
    unfolding pathWithinRoot_def rel by simp
  moreover have "Join ''/'' cs \<noteq> ''.''" if "cs \<noteq> []"
    using that assms by (cases cs; cases "tl cs") (auto simp: Join_def append_eq_Cons_conv)
  moreover have "backed (name # cs) = name @ CHR 0x5C # backed cs" if "cs \<noteq> []"
    using that by (cases cs) (simp_all add: backed_def Join_def)
  moreover have "\<forall>c \<in> set cs. CHR ''/'' \<notin> set c" using assms by (auto simp: cleaned_def)
  ultimately show ?thesis
    using rel by (cases "cs = []") (simp_all add: virtual_of_def replace_Join backed_def [of "[name]"] Join_def [of _ "[name]"])
qed

lemma split_backed: "cs \<noteq> [] \<Longrightarrow> plain cs \<Longrightarrow> split_on (CHR 0x5C) [] (backed cs) = cs"
  unfolding backed_def by (rule split_on_Join) (auto simp: plain_def)

lemma backed_inj: "cs \<noteq> [] \<Longrightarrow> ds \<noteq> [] \<Longrightarrow> plain cs \<Longrightarrow> plain ds \<Longrightarrow> backed cs = backed ds \<longleftrightarrow> cs = ds"
  by (metis split_backed)

lemma virtualDirectory_backed: "cs \<noteq> [] \<Longrightarrow> CHR 0x5C \<notin> set c \<Longrightarrow> virtualDirectory (backed (cs @ [c])) = backed cs"
proof -
  assume cs: "cs \<noteq> []" "CHR 0x5C \<notin> set c"
  have "rev (backed (cs @ [c])) = rev c @ CHR 0x5C # rev (backed cs)" using cs(1) by (simp add: backed_def Join_snoc)
  moreover have "dropWhile (\<lambda>x. x \<noteq> CHR 0x5C) (rev c @ CHR 0x5C # rest) = CHR 0x5C # rest" for rest
    using cs(2) by (simp add: dropWhile_append)
  ultimately show ?thesis by (simp add: virtualDirectory_def)
qed

lemma shareFolderOf_backed: "CHR 0x5C \<notin> set name \<Longrightarrow> shareFolderOf (backed (name # cs)) = name"
proof -
  assume "CHR 0x5C \<notin> set name"
  then have "takeWhile (\<lambda>c. c \<noteq> CHR 0x5C) name = name" by (auto intro: takeWhile_eq_all_conv [THEN iffD2])
  then show ?thesis using \<open>CHR 0x5C \<notin> set name\<close>
    by (cases cs) (auto simp: shareFolderOf_def backed_def Join_def takeWhile_append)
qed

section \<open>What a part of the walk adds\<close>

definition dirs_of :: "scanning \<Rightarrow> string list" where
  "dirs_of sg = map fst (ga_directories (sg_found sg))"

definition files_of :: "scanning \<Rightarrow> indexedFile list" where
  "files_of sg = ga_search (sg_found sg)"

definition sane :: "scanning \<Rightarrow> bool" where
  "sane sg \<longleftrightarrow> gathers (dirs_of sg) (files_of sg) (sg_found sg) \<and> distinct (dirs_of sg)"

text \<open>The answers under which a file may be published.\<close>

definition vouched :: "string \<Rightarrow> looked \<Rightarrow> file_info \<Rightarrow> bool" where
  "vouched base lk info \<longleftrightarrow> lk_info lk = Inr info \<and> fi_regular info
     \<and> (\<exists>r. lk_resolved lk = Inr r \<and> pathWithinRoot base (Clean r)) \<and> same_file info (lk_stat lk)
     \<and> (\<exists>r. lk_resolvedAfter lk = Inr r \<and> pathWithinRoot base (Clean r)) \<and> same_file info (lk_statAfter lk)"

definition shared_file :: "unicode \<Rightarrow> string \<Rightarrow> (string \<times> looked) set \<Rightarrow> indexedFile \<Rightarrow> bool" where
  "shared_file u base met f \<longleftrightarrow> indexed_ok u f \<and> ix_root f = base
     \<and> (\<exists>lk info. (ix_local f, lk) \<in> met \<and> vouched base lk info \<and> file_Size (ix_wire f) = word_of_int (fi_size info)
          \<and> ix_modTime f = fi_modTime info \<and> ix_info f = Some (fi_ident info))"

definition added :: "scan_env \<Rightarrow> string set \<Rightarrow> (string \<times> looked) set \<Rightarrow> scanning \<Rightarrow> scanning \<Rightarrow> bool" where
  "added env V met sg sg' \<longleftrightarrow> sane sg' \<and> (\<exists>ds fs. dirs_of sg' = dirs_of sg @ ds \<and> files_of sg' = files_of sg @ fs
     \<and> set ds \<subseteq> V \<and> distinct (map ix_virtual fs)
     \<and> (\<forall>f \<in> set fs. ix_virtual f \<in> V \<and> virtualDirectory (ix_virtual f) \<in> set (dirs_of sg')
          \<and> shared_file (se_unicode env) (se_root env) met f)
     \<and> sg_folder sg' = (sg_folder sg)\<lparr>sfs_Directories := sfs_Directories (sg_folder sg) + length ds,
          sfs_Files := sfs_Files (sg_folder sg) + length fs,
          sfs_TotalBytes := sfs_TotalBytes (sg_folder sg) + sum_list (map (\<lambda>f. file_Size (ix_wire f)) fs)\<rparr>)"

definition count_up :: "string list \<Rightarrow> indexedFile list \<Rightarrow> ShareFolderStats \<Rightarrow> ShareFolderStats" where
  "count_up ds fs st = st\<lparr>sfs_Directories := sfs_Directories st + length ds, sfs_Files := sfs_Files st + length fs,
     sfs_TotalBytes := sfs_TotalBytes st + sum_list (map (\<lambda>f. file_Size (ix_wire f)) fs)\<rparr>"

lemma count_up_append: "count_up es gs (count_up ds fs st) = count_up (ds @ es) (fs @ gs) st"
  by (simp add: count_up_def add.assoc)

lemma addedI:
  assumes "sane sg'" "dirs_of sg' = dirs_of sg @ ds" "files_of sg' = files_of sg @ fs" "set ds \<subseteq> V" "distinct (map ix_virtual fs)"
    "\<And>f. f \<in> set fs \<Longrightarrow> ix_virtual f \<in> V" "\<And>f. f \<in> set fs \<Longrightarrow> virtualDirectory (ix_virtual f) \<in> set (dirs_of sg')"
    "\<And>f. f \<in> set fs \<Longrightarrow> shared_file (se_unicode env) (se_root env) met f" "sg_folder sg' = count_up ds fs (sg_folder sg)"
  shows "added env V met sg sg'"
  using assms unfolding added_def count_up_def by blast

lemma addedE:
  assumes "added env V met sg sg'"
  obtains ds fs where "sane sg'" "dirs_of sg' = dirs_of sg @ ds" "files_of sg' = files_of sg @ fs" "set ds \<subseteq> V"
    "distinct (map ix_virtual fs)" "\<forall>f \<in> set fs. ix_virtual f \<in> V"
    "\<forall>f \<in> set fs. virtualDirectory (ix_virtual f) \<in> set (dirs_of sg')"
    "\<forall>f \<in> set fs. shared_file (se_unicode env) (se_root env) met f" "sg_folder sg' = count_up ds fs (sg_folder sg)"
  using assms unfolding added_def count_up_def by blast

lemma added_same: "sane sg \<Longrightarrow> added env V met sg sg"
  by (rule addedI [where ds = "[]" and fs = "[]"]) (simp_all add: count_up_def)

lemma shared_file_mono: "shared_file u base met f \<Longrightarrow> met \<subseteq> met' \<Longrightarrow> shared_file u base met' f"
  unfolding shared_file_def by blast

lemma added_mono:
  assumes "added env V met sg sg'" and "V \<subseteq> W" and "met \<subseteq> met'"
  shows "added env W met' sg sg'"
proof -
  obtain ds fs where *: "sane sg'" "dirs_of sg' = dirs_of sg @ ds" "files_of sg' = files_of sg @ fs" "set ds \<subseteq> V"
    "distinct (map ix_virtual fs)" "\<forall>f \<in> set fs. ix_virtual f \<in> V"
    "\<forall>f \<in> set fs. virtualDirectory (ix_virtual f) \<in> set (dirs_of sg')"
    "\<forall>f \<in> set fs. shared_file (se_unicode env) (se_root env) met f" "sg_folder sg' = count_up ds fs (sg_folder sg)"
    by (rule addedE [OF assms(1)])
  show ?thesis
  proof (rule addedI [OF *(1-3) _ *(5) _ _ _ *(9)])
    show "set ds \<subseteq> W" using *(4) assms(2) by (rule subset_trans)
    fix f assume f: "f \<in> set fs"
    show "ix_virtual f \<in> W" using bspec [OF *(6) f] assms(2) by (rule subsetD [rotated])
    show "virtualDirectory (ix_virtual f) \<in> set (dirs_of sg')" by (rule bspec [OF *(7) f])
    show "shared_file (se_unicode env) (se_root env) met' f" using bspec [OF *(8) f] assms(3) by (rule shared_file_mono)
  qed
qed

lemma added_trans:
  assumes "added env V met a b" and "added env W met b c" and "V \<inter> W = {} \<or> files_of b = files_of a"
  shows "added env (V \<union> W) met a c"
proof -
  obtain ds fs where 1: "sane b" "dirs_of b = dirs_of a @ ds" "files_of b = files_of a @ fs" "set ds \<subseteq> V"
    "distinct (map ix_virtual fs)" "\<forall>f \<in> set fs. ix_virtual f \<in> V"
    "\<forall>f \<in> set fs. virtualDirectory (ix_virtual f) \<in> set (dirs_of b)"
    "\<forall>f \<in> set fs. shared_file (se_unicode env) (se_root env) met f" "sg_folder b = count_up ds fs (sg_folder a)"
    by (rule addedE [OF assms(1)])
  obtain es gs where 2: "sane c" "dirs_of c = dirs_of b @ es" "files_of c = files_of b @ gs" "set es \<subseteq> W"
    "distinct (map ix_virtual gs)" "\<forall>f \<in> set gs. ix_virtual f \<in> W"
    "\<forall>f \<in> set gs. virtualDirectory (ix_virtual f) \<in> set (dirs_of c)"
    "\<forall>f \<in> set gs. shared_file (se_unicode env) (se_root env) met f" "sg_folder c = count_up es gs (sg_folder b)"
    by (rule addedE [OF assms(2)])
  show ?thesis
  proof (rule addedI [where ds = "ds @ es" and fs = "fs @ gs", OF 2(1)])
    have "set (map ix_virtual fs) \<subseteq> V" using 1(6) by auto
    moreover have "set (map ix_virtual gs) \<subseteq> W" using 2(6) by auto
    ultimately have "set (map ix_virtual fs) \<inter> set (map ix_virtual gs) = {}" using assms(3) 1(3) by auto
    then show "distinct (map ix_virtual (fs @ gs))" using 1(5) 2(5) by simp
    show "set (ds @ es) \<subseteq> V \<union> W" using 1(4) 2(4) by auto
    show "dirs_of c = dirs_of a @ ds @ es" "files_of c = files_of a @ fs @ gs" using 1(2,3) 2(2,3) by simp_all
    show "sg_folder c = count_up (ds @ es) (fs @ gs) (sg_folder a)" by (simp add: 1(9) 2(9) count_up_append)
    fix f assume "f \<in> set (fs @ gs)"
    then have f: "f \<in> set fs \<or> f \<in> set gs" by simp
    show "ix_virtual f \<in> V \<union> W" using f bspec [OF 1(6)] bspec [OF 2(6)] by fast
    show "virtualDirectory (ix_virtual f) \<in> set (dirs_of c)"
      unfolding 2(2) set_append using f bspec [OF 1(7)] bspec [OF 2(7) [unfolded 2(2) set_append]] by fast
    show "shared_file (se_unicode env) (se_root env) met f" using f bspec [OF 1(8)] bspec [OF 2(8)] by fast
  qed
qed

section \<open>Entries of a directory\<close>

text \<open>The virtual paths at or below the place \<open>cs\<close> of the folder \<open>name\<close>.\<close>

definition under :: "string \<Rightarrow> string list \<Rightarrow> string set" where
  "under name cs = {v. \<exists>r. plain (cs @ r) \<and> v = backed (name # cs @ r)}"

lemma under_sub: "under name (cs @ ds) \<subseteq> under name cs"
proof
  fix v assume "v \<in> under name (cs @ ds)"
  then obtain r where "plain (cs @ ds @ r)" "v = backed (name # cs @ ds @ r)" by (auto simp: under_def)
  then show "v \<in> under name cs" unfolding under_def by blast
qed

lemma under_disjoint:
  assumes "n \<noteq> n'" "CHR 0x5C \<notin> set name"
  shows "under name (cs @ [n]) \<inter> under name (cs @ [n']) = {}"
proof -
  have False if v: "v \<in> under name (cs @ [n])" "v \<in> under name (cs @ [n'])" for v
  proof -
    obtain r r' where "plain (cs @ [n] @ r)" "v = backed (name # cs @ [n] @ r)" "plain (cs @ [n'] @ r')" "v = backed (name # cs @ [n'] @ r')"
      using v unfolding under_def by auto
    then have "name # cs @ [n] @ r = name # cs @ [n'] @ r'"
      using backed_inj [of "name # cs @ [n] @ r" "name # cs @ [n'] @ r'"] assms(2) by simp
    then show False using assms(1) by simp
  qed
  then show ?thesis by blast
qed

fun proper_node :: "scan_node \<Rightarrow> bool" where
  "proper_node (ScanDir n _ nodes) \<longleftrightarrow> cleaned [n] \<and> distinct (map node_name nodes) \<and> (\<forall>node \<in> set nodes. proper_node node)"
| "proper_node (ScanLink n) \<longleftrightarrow> cleaned [n]"
| "proper_node (ScanFile n _) \<longleftrightarrow> cleaned [n]"

text \<open>The files of a tree with their paths.\<close>

fun met_files :: "string list \<Rightarrow> scan_node \<Rightarrow> (string \<times> looked) list" where
  "met_files es (ScanDir n _ nodes) = concat (map (met_files (es @ [n])) nodes)"
| "met_files es (ScanLink n) = []"
| "met_files es (ScanFile n lk) = [(slash (es @ [n]), lk)]"

text \<open>The state from which the walk of the place \<open>cs\<close> starts.\<close>

definition placed :: "scan_env \<Rightarrow> string list \<Rightarrow> string list \<Rightarrow> bool" where
  "placed env es cs \<longleftrightarrow> se_root env = slash es \<and> cleaned (es @ cs) \<and> plain cs \<and> CHR 0x5C \<notin> set (se_name env)"

lemma attributes_found:
  assumes "attributes_of env path info lk sg = (attrs, sg')"
  shows "sg_found sg' = sg_found sg" "sg_folder sg' = sg_folder sg" "\<exists>b d. attrs = attributesFromCache b d"
proof -
  have nothing: "\<exists>b d. [] = attributesFromCache b d" by (simp add: attributesFromCache_def)
  have word: "word_of_int \<lfloor>s\<rfloor> \<noteq> (0 :: u32)" if "0 < s" "\<lfloor>s\<rfloor> \<noteq> 0" "\<lfloor>s\<rfloor> \<le> 0xFFFFFFFF" for s :: real
  proof -
    have "0 < \<lfloor>s\<rfloor>" "\<lfloor>s\<rfloor> < 0x100000000" using that by linarith+
    then have "\<not> 0x100000000 dvd \<lfloor>s\<rfloor>" by (rule zdvd_not_zless)
    then show ?thesis by (simp add: word_of_int_eq_0_iff)
  qed
  have extracted: "\<exists>b d. extractTechnicalMetadata u path siz seconds = attributesFromCache b d" for u siz seconds
  proof (cases "extractTechnicalMetadata u path siz seconds = []")
    case False
    then obtain s where s: "0 < s" "\<lfloor>s\<rfloor> \<noteq> 0" "\<lfloor>s\<rfloor> \<le> 0xFFFFFFFF" and extracted: "extractTechnicalMetadata u path siz seconds
        = [(0, word_of_int (rounded (real_of_int siz * 8 / s / 1000))), (1, word_of_int \<lfloor>s\<rfloor>)]"
      by (auto simp: extractTechnicalMetadata_def Let_def not_le not_less split: if_splits option.splits)
    show ?thesis
      using word [OF s] extracted
      by (intro exI [of _ "word_of_int (rounded (real_of_int siz * 8 / s / 1000))"] exI [of _ "word_of_int \<lfloor>s\<rfloor>"])
        (simp add: attributesFromCache_def)
  next
    case True
    show ?thesis unfolding True by (simp add: attributesFromCache_def)
  qed
  have "attrs = [] \<or> (\<exists>siz s. attrs = extractTechnicalMetadata (se_unicode env) path siz s) \<or> (\<exists>b d. attrs = attributesFromCache b d)"
    and same: "sg_found sg' = sg_found sg" "sg_folder sg' = sg_folder sg"
    using assms by (auto simp: attributes_of_def read_attributes_def Let_def split: if_splits option.splits prod.splits)
  then show "\<exists>b d. attrs = attributesFromCache b d"
  proof (elim disjE exE)
    assume "attrs = []"
    then show ?thesis by (intro exI [of _ 0]) (simp add: attributesFromCache_def)
  next
    fix siz s assume "attrs = extractTechnicalMetadata (se_unicode env) path siz s"
    then show ?thesis using extracted by simp
  qed blast
  show "sg_found sg' = sg_found sg" "sg_folder sg' = sg_folder sg" by (fact same)+
qed

lemma visit_cases:
  assumes "visit_file env path lk sg = Inr sg'" and v: "virtual_of (se_name env) (se_root env) path = Some v"
  shows "sg' = sg \<or> (\<exists>info attrs sg0. vouched (se_root env) lk info \<and> attributes_of env path info lk sg = (attrs, sg0)
     \<and> sg' = index_file (found_file env v path info attrs) sg0)"
  using assms by (auto simp: visit_file_def vouched_def split: sum.splits fs_failure.splits if_splits prod.splits)

lemma added_file:
  assumes s: "sane sg" and d: "backed (se_name env # cs) \<in> set (dirs_of sg)" and p: "placed env es cs" and n: "cleaned [n]" "CHR 0x5C \<notin> set n"
    and run: "visit_file env (slash (es @ cs @ [n])) lk sg = Inr sg'"
  shows "added env (under (se_name env) (cs @ [n])) {(slash (es @ cs @ [n]), lk)} sg sg'"
proof -
  let ?path = "slash (es @ cs @ [n])" and ?v = "backed (se_name env # cs @ [n])"
  have v: "virtual_of (se_name env) (se_root env) ?path = Some ?v"
    using p n virtual_path [of es "cs @ [n]"] by (simp add: placed_def)
  show ?thesis
    using visit_cases [OF run v]
  proof (elim disjE exE conjE)
    assume "sg' = sg"
    then show ?thesis using added_same [OF s] by simp
  next
    fix info attrs sg0
    assume ok: "vouched (se_root env) lk info" and attrs: "attributes_of env ?path info lk sg = (attrs, sg0)"
      and sg': "sg' = index_file (found_file env ?v ?path info attrs) sg0"
    let ?f = "found_file env ?v ?path info attrs"
    note same = attributes_found [OF attrs]
    have dir: "virtualDirectory ?v = backed (se_name env # cs)"
      using virtualDirectory_backed [of "se_name env # cs" n] n by simp
    have f: "ix_virtual ?f = ?v" "ix_local ?f = ?path" "ix_root ?f = se_root env" by (simp_all add: found_file_def Let_def)
    have g: "gathers (dirs_of sg) (files_of sg @ [?f]) (add_indexed ?f (sg_found sg))"
      using gathers_file [of "dirs_of sg" "files_of sg" "sg_found sg" ?f] s d by (simp add: sane_def f dir)
    have keys: "dirs_of sg' = dirs_of sg" "files_of sg' = files_of sg @ [?f]"
      using g by (simp_all add: dirs_of_def files_of_def sg' index_file_def same gathers_def)
    show ?thesis
    proof (rule addedI [where ds = "[]" and fs = "[?f]"])
      show "sane sg'" using g s keys by (simp add: sane_def sg' index_file_def same)
      show "sg_folder sg' = count_up [] [?f] (sg_folder sg)" by (simp add: count_up_def sg' index_file_def same)
      fix f assume "f \<in> set [?f]"
      then have eq: "f = ?f" by simp
      show "ix_virtual f \<in> under (se_name env) (cs @ [n])"
        using p n by (auto simp: eq f under_def placed_def intro!: exI [of _ "[]"])
      show "virtualDirectory (ix_virtual f) \<in> set (dirs_of sg')" using d by (simp add: eq f dir keys)
      show "shared_file (se_unicode env) (se_root env) {(?path, lk)} f"
        using ok same(3) by (auto simp: eq f shared_file_def indexed_ok_def found_file_def Let_def)
    qed (simp_all add: keys)
  qed
qed

lemma ensure_new: "v \<notin> fst ` set ds \<Longrightarrow> ensure_directory v ds = ds @ [(v, \<lparr>dir_Name = v, dir_Files = []\<rparr>)]"
  by (simp add: ensure_directory_def)

lemma gathers_directory:
  assumes g: "gathers dirs files ga" and v: "v \<notin> set dirs" and f: "\<And>f. f \<in> set files \<Longrightarrow> virtualDirectory (ix_virtual f) \<noteq> v"
  shows "gathers (dirs @ [v]) files (ga\<lparr>ga_directories := ensure_directory v (ga_directories ga)\<rparr>)"
proof -
  have new: "v \<notin> fst ` set (ga_directories ga)" using g v by (metis gathers_def set_map)
  then have nv: "(v, d) \<in> set (ga_directories ga) \<Longrightarrow> False" for d by force
  have "filter (\<lambda>f. virtualDirectory (ix_virtual f) = v) files = []" using f by (simp add: filter_empty_conv)
  then show ?thesis using g ensure_new [OF new] by (auto simp: gathers_def dest: nv)
qed

lemma placed_step: "placed env es cs \<Longrightarrow> cleaned [n] \<Longrightarrow> CHR 0x5C \<notin> set n \<Longrightarrow> placed env es (cs @ [n])"
  by (simp add: placed_def)

lemma placed_path: "placed env es cs \<Longrightarrow> cleaned [n] \<Longrightarrow> Join_path [slash (es @ cs), n] = slash (es @ cs @ [n])"
  using step_path [of "es @ cs" n] by (simp add: placed_def)

lemma added_folder:
  assumes s: "sane sg" and p: "placed env es cs" and run: "enter_folder env (slash (es @ cs)) sg = Inr sg'"
    and f: "\<And>f. f \<in> set (files_of sg) \<Longrightarrow> virtualDirectory (ix_virtual f) \<in> set (dirs_of sg)"
  shows "added env (under (se_name env) cs) {} sg sg'" "backed (se_name env # cs) \<in> set (dirs_of sg')" "files_of sg' = files_of sg"
proof -
  let ?v = "backed (se_name env # cs)"
  have v: "virtual_of (se_name env) (se_root env) (slash (es @ cs)) = Some ?v"
    using p virtual_path [of es cs] by (simp add: placed_def)
  have here: "?v \<in> under (se_name env) cs" using p by (auto simp: under_def placed_def intro!: exI [of _ "[]"])
  have "added env (under (se_name env) cs) {} sg sg' \<and> ?v \<in> set (dirs_of sg') \<and> files_of sg' = files_of sg"
  proof (cases "?v \<in> set (dirs_of sg)")
    case True
    then have "sg' = sg" using run by (auto simp: enter_folder_def v dirs_of_def)
    then show ?thesis using True added_same [OF s] by simp
  next
    case False
    let ?ga = "(sg_found sg)\<lparr>ga_directories := ensure_directory ?v (ga_directories (sg_found sg))\<rparr>"
    have new: "?v \<notin> fst ` set (ga_directories (sg_found sg))" using False by (simp add: dirs_of_def)
    then have sg': "sg' = sg\<lparr>sg_found := ?ga, sg_folder := (sg_folder sg)\<lparr>sfs_Directories := sfs_Directories (sg_folder sg) + 1\<rparr>\<rparr>"
      using run by (simp add: enter_folder_def v)
    have keys: "dirs_of sg' = dirs_of sg @ [?v]" "files_of sg' = files_of sg"
      by (simp_all add: sg' dirs_of_def files_of_def ensure_new [OF new])
    have "gathers (dirs_of sg @ [?v]) (files_of sg) ?ga"
    proof (rule gathers_directory [OF _ False])
      show "gathers (dirs_of sg) (files_of sg) (sg_found sg)" using s by (simp add: sane_def)
      show "virtualDirectory (ix_virtual f) \<noteq> ?v" if "f \<in> set (files_of sg)" for f using f [OF that] False by metis
    qed
    then have "sane sg'" using s False by (simp add: sane_def keys) (simp add: sg')
    then have "added env (under (se_name env) cs) {} sg sg'"
      by (rule addedI [where ds = "[?v]" and fs = "[]"]) (use here in \<open>simp_all add: keys, simp add: sg' count_up_def\<close>)
    then show ?thesis by (simp add: keys)
  qed
  then show "added env (under (se_name env) cs) {} sg sg'" "?v \<in> set (dirs_of sg')" "files_of sg' = files_of sg" by simp_all
qed

lemma added_dirs: "added env V met sg sg' \<Longrightarrow> set (dirs_of sg) \<subseteq> set (dirs_of sg')"
  by (erule addedE) auto

text \<open>A file of the state lies in a directory of the state.\<close>

definition housed :: "scanning \<Rightarrow> bool" where
  "housed sg \<longleftrightarrow> sane sg \<and> (\<forall>f \<in> set (files_of sg). virtualDirectory (ix_virtual f) \<in> set (dirs_of sg))"

lemma added_housed: "added env V met sg sg' \<Longrightarrow> housed sg \<Longrightarrow> housed sg'"
  by (erule addedE) (auto simp: housed_def)

definition node_added :: "scan_env \<Rightarrow> string list \<Rightarrow> scan_node \<Rightarrow> bool" where
  "node_added env es node \<longleftrightarrow> (\<forall>cs sg sg'. placed env es cs \<longrightarrow> housed sg \<longrightarrow> backed (se_name env # cs) \<in> set (dirs_of sg)
     \<longrightarrow> walk_node env (slash (es @ cs)) node sg = Inr sg'
     \<longrightarrow> added env (under (se_name env) (cs @ [node_name node])) (set (met_files (es @ cs) node)) sg sg')"

lemma walk_nodes_added:
  assumes each: "\<forall>node \<in> set nodes. node_added env es node" and names: "distinct (map node_name nodes)"
    and start: "placed env es cs" "housed sg" "backed (se_name env # cs) \<in> set (dirs_of sg)"
    and run: "walk_nodes env (slash (es @ cs)) nodes sg = Inr sg'"
  shows "added env (\<Union>n \<in> set (map node_name nodes). under (se_name env) (cs @ [n]))
    (set (concat (map (met_files (es @ cs)) nodes))) sg sg'"
  using each names start(2,3) run
proof (induction nodes arbitrary: sg)
  case Nil
  then show ?case using added_same by (simp add: housed_def)
next
  case (Cons node nodes)
  let ?V = "under (se_name env) (cs @ [node_name node])"
    and ?W = "\<Union>n \<in> set (map node_name nodes). under (se_name env) (cs @ [n])"
    and ?met = "set (concat (map (met_files (es @ cs)) (node # nodes)))"
  obtain sg1 where first: "walk_node env (slash (es @ cs)) node sg = Inr sg1"
    and rest: "walk_nodes env (slash (es @ cs)) nodes sg1 = Inr sg'"
    using Cons.prems(5) by (auto simp: rbind_eq_Inr)
  have a: "added env ?V (set (met_files (es @ cs) node)) sg sg1"
    using Cons.prems(1,3,4) start(1) first by (simp add: node_added_def)
  have "housed sg1" using added_housed [OF a Cons.prems(3)] .
  moreover have "backed (se_name env # cs) \<in> set (dirs_of sg1)" using added_dirs [OF a] Cons.prems(4) by blast
  ultimately have b: "added env ?W (set (concat (map (met_files (es @ cs)) nodes))) sg1 sg'"
    using Cons.IH Cons.prems(1,2) rest by simp
  have "?V \<inter> under (se_name env) (cs @ [n]) = {}" if "n \<in> set (map node_name nodes)" for n
    using that Cons.prems(2) start(1) by (intro under_disjoint) (auto simp: placed_def)
  then have "?V \<inter> ?W = {}" by blast
  then have "added env (?V \<union> ?W) ?met sg sg'"
    by (intro added_trans [OF added_mono [OF a] added_mono [OF b]]) auto
  then show ?case by simp
qed

lemma walk_node_added: "proper_node node \<Longrightarrow> node_added env es node"
proof (induction node)
  case (ScanDir n failure nodes)
  show ?case
    unfolding node_added_def
  proof (intro allI impI)
    fix cs sg sg'
    assume p: "placed env es cs" and h: "housed sg" and d: "backed (se_name env # cs) \<in> set (dirs_of sg)"
      and run: "walk_node env (slash (es @ cs)) (ScanDir n failure nodes) sg = Inr sg'"
    have n: "cleaned [n]" using ScanDir.prems by simp
    show "added env (under (se_name env) (cs @ [node_name (ScanDir n failure nodes)]))
        (set (met_files (es @ cs) (ScanDir n failure nodes))) sg sg'"
    proof (cases "CHR 0x5C \<in> set n")
      case True
      then have "sg' = sg" using run by (auto simp: Let_def split: if_splits)
      then show ?thesis using added_same h by (simp add: housed_def)
    next
      case False
      let ?cs = "cs @ [n]" and ?met = "set (met_files (es @ cs) (ScanDir n failure nodes))"
      have p': "placed env es ?cs" by (rule placed_step [OF p n False])
      obtain sg1 where enter: "enter_folder env (slash (es @ ?cs)) sg = Inr sg1"
        and rest: "walk_nodes env (slash (es @ ?cs)) nodes sg1 = Inr sg'"
        using run False placed_path [OF p n] by (auto simp: Let_def rbind_eq_Inr split: if_splits)
      have s: "sane sg" "\<And>f. f \<in> set (files_of sg) \<Longrightarrow> virtualDirectory (ix_virtual f) \<in> set (dirs_of sg)"
        using h by (simp_all add: housed_def)
      note a = added_folder [OF s(1) p' enter s(2)]
      have b: "added env (\<Union>m \<in> set (map node_name nodes). under (se_name env) (?cs @ [m]))
          (set (concat (map (met_files (es @ ?cs)) nodes))) sg1 sg'"
        by (rule walk_nodes_added [OF _ _ p' added_housed [OF a(1) h] a(2) rest])
          (use ScanDir in \<open>simp_all\<close>)
      have c: "added env (under (se_name env) ?cs \<union> (\<Union>m \<in> set (map node_name nodes). under (se_name env) (?cs @ [m]))) ?met sg sg'"
        by (rule added_trans [OF added_mono [OF a(1)] added_mono [OF b]]) (use a(3) in simp_all)
      show ?thesis
        by (rule added_mono [OF c]) (use under_sub in fastforce)+
    qed
  qed
next
  case (ScanLink n)
  then show ?case
    by (auto simp: node_added_def housed_def intro: added_same split: if_splits)
next
  case (ScanFile n lk)
  show ?case
    unfolding node_added_def
  proof (intro allI impI)
    fix cs sg sg'
    assume p: "placed env es cs" and h: "housed sg" and d: "backed (se_name env # cs) \<in> set (dirs_of sg)"
      and run: "walk_node env (slash (es @ cs)) (ScanFile n lk) sg = Inr sg'"
    have n: "cleaned [n]" using ScanFile.prems by simp
    show "added env (under (se_name env) (cs @ [node_name (ScanFile n lk)])) (set (met_files (es @ cs) (ScanFile n lk))) sg sg'"
    proof (cases "CHR 0x5C \<in> set n")
      case True
      then have "sg' = sg" using run by (auto simp: Let_def split: if_splits)
      then show ?thesis using added_same h by (simp add: housed_def)
    next
      case False
      have "visit_file env (slash (es @ cs @ [n])) lk sg = Inr sg'"
        using run False placed_path [OF p n] by (auto simp: Let_def split: if_splits)
      from added_file [OF _ d p n False this] show ?thesis using h by (simp add: housed_def)
    qed
  qed
qed

section \<open>All folders\<close>

definition met_in :: "share_view \<Rightarrow> (string \<times> looked) set" where
  "met_in view = (case sv_resolved view of
     None \<Rightarrow> {} | Some resolved \<Rightarrow> set (concat (map (met_files (abs_elements resolved)) (sv_nodes view))))"

definition proper_view :: "share_view \<Rightarrow> bool" where
  "proper_view view \<longleftrightarrow> (\<forall>resolved. sv_resolved view = Some resolved \<longrightarrow> absolute resolved)
     \<and> distinct (map node_name (sv_nodes view)) \<and> (\<forall>node \<in> set (sv_nodes view). proper_node node)"

text \<open>The file is published for this folder.\<close>

definition published :: "unicode \<Rightarrow> SharedFolder \<times> share_view \<Rightarrow> indexedFile \<Rightarrow> bool" where
  "published u = (\<lambda>(configured, view) f. shareFolderOf (ix_virtual f) = shf_Name configured
     \<and> (\<exists>resolved. sv_resolved view = Some resolved \<and> shared_file u (Clean resolved) (met_in view) f))"

definition total_dirs :: "scan_total \<Rightarrow> string list" where
  "total_dirs sc = map fst (ga_directories (sc_found sc))"

definition total_files :: "scan_total \<Rightarrow> indexedFile list" where
  "total_files sc = ga_search (sc_found sc)"

definition total_ok :: "unicode \<Rightarrow> (SharedFolder \<times> share_view) list \<Rightarrow> scan_total \<Rightarrow> bool" where
  "total_ok u views sc \<longleftrightarrow> gathers (total_dirs sc) (total_files sc) (sc_found sc) \<and> distinct (total_dirs sc)
     \<and> (\<forall>f \<in> set (total_files sc). virtualDirectory (ix_virtual f) \<in> set (total_dirs sc))
     \<and> distinct (map ix_virtual (total_files sc))
     \<and> (\<forall>d \<in> set (total_dirs sc). shareFolderOf d \<in> set (map (\<lambda>v. shf_Name (fst v)) views))
     \<and> (\<forall>f \<in> set (total_files sc). \<exists>v \<in> set views. published u v f)
     \<and> sc_folders sc = map (\<lambda>v. counted (total_dirs sc) (total_files sc) (fresh_folder (fst v))) views"

lemma under_share: "v \<in> under name [] \<Longrightarrow> CHR 0x5C \<notin> set name \<Longrightarrow> shareFolderOf v = name"
  by (auto simp: under_def shareFolderOf_backed)

text \<open>One folder, from any state that has nothing of its name.\<close>

lemma tree_added:
  assumes r: "absolute resolved" and nodes: "distinct (map node_name nodes)" "\<forall>node \<in> set nodes. proper_node node"
    and name: "CHR 0x5C \<notin> set (se_name env)" and env: "se_root env = Clean resolved" and h: "housed sg"
    and run: "scan_tree env failure nodes sg = Inr sg'"
  shows "added env (under (se_name env) []) (set (concat (map (met_files (abs_elements resolved)) nodes))) sg sg'"
proof -
  let ?es = "abs_elements resolved" and ?met = "set (concat (map (met_files (abs_elements resolved)) nodes))"
  have base: "se_root env = slash ?es" using Clean_absolute [OF r] env by (simp add: slash_def)
  have p: "placed env ?es []" using name base abs_elements_cleaned by (simp add: placed_def)
  obtain sg1 where enter: "enter_folder env (slash (?es @ [])) sg = Inr sg1"
    and rest: "walk_nodes env (slash (?es @ [])) nodes sg1 = Inr sg'"
    using run base by (auto simp: scan_tree_def rbind_eq_Inr split: if_splits option.splits)
  have s: "sane sg" "\<And>f. f \<in> set (files_of sg) \<Longrightarrow> virtualDirectory (ix_virtual f) \<in> set (dirs_of sg)"
    using h by (simp_all add: housed_def)
  note a = added_folder [OF s(1) p enter s(2)]
  have each: "\<forall>node \<in> set nodes. node_added env ?es node" using nodes(2) walk_node_added by blast
  have b: "added env (\<Union>m \<in> set (map node_name nodes). under (se_name env) ([] @ [m]))
      (set (concat (map (met_files (?es @ [])) nodes))) sg1 sg'"
    by (rule walk_nodes_added [OF each nodes(1) p added_housed [OF a(1) h] a(2) rest])
  have c: "added env (under (se_name env) [] \<union> (\<Union>m \<in> set (map node_name nodes). under (se_name env) ([] @ [m]))) ?met sg sg'"
    by (rule added_trans [OF added_mono [OF a(1)] added_mono [OF b]]) (use a(3) in simp_all)
  show ?thesis
    by (rule added_mono [OF c]) (use under_sub [of "se_name env" "[]"] in fastforce)+
qed

lemma counted_other:
  assumes "\<And>d. d \<in> set ds \<Longrightarrow> shareFolderOf d \<noteq> sfs_Name st" and "\<And>f. f \<in> set fs \<Longrightarrow> shareFolderOf (ix_virtual f) \<noteq> sfs_Name st"
  shows "counted (dirs @ ds) (files @ fs) st = counted dirs files st"
proof -
  have "filter (\<lambda>d. shareFolderOf d = sfs_Name st) ds = []" "filter (\<lambda>f. shareFolderOf (ix_virtual f) = sfs_Name st) fs = []"
    using assms by (simp_all add: filter_empty_conv)
  then show ?thesis by (simp add: counted_def)
qed

lemma counted_own:
  assumes "\<And>d. d \<in> set dirs \<Longrightarrow> shareFolderOf d \<noteq> shf_Name g" and "\<And>f. f \<in> set files \<Longrightarrow> shareFolderOf (ix_virtual f) \<noteq> shf_Name g"
    and "\<And>d. d \<in> set ds \<Longrightarrow> shareFolderOf d = shf_Name g" and "\<And>f. f \<in> set fs \<Longrightarrow> shareFolderOf (ix_virtual f) = shf_Name g"
  shows "counted (dirs @ ds) (files @ fs) (fresh_folder g) = count_up ds fs (fresh_folder g)"
proof -
  have "filter (\<lambda>d. shareFolderOf d = shf_Name g) dirs = []" "filter (\<lambda>f. shareFolderOf (ix_virtual f) = shf_Name g) files = []"
    "filter (\<lambda>d. shareFolderOf d = shf_Name g) ds = ds" "filter (\<lambda>f. shareFolderOf (ix_virtual f) = shf_Name g) fs = fs"
    using assms by (simp_all add: filter_empty_conv filter_id_conv)
  then show ?thesis by (simp add: counted_def count_up_def fresh_folder_def)
qed

lemma published_share: "published u v f \<Longrightarrow> shareFolderOf (ix_virtual f) = shf_Name (fst v)"
  by (simp add: published_def case_prod_unfold)

lemma total_okD:
  assumes "total_ok u views sc"
  shows "gathers (total_dirs sc) (total_files sc) (sc_found sc)" "distinct (total_dirs sc)"
    "\<forall>f \<in> set (total_files sc). virtualDirectory (ix_virtual f) \<in> set (total_dirs sc)"
    "distinct (map ix_virtual (total_files sc))"
    "\<forall>d \<in> set (total_dirs sc). shareFolderOf d \<in> set (map (\<lambda>v. shf_Name (fst v)) views)"
    "\<forall>f \<in> set (total_files sc). \<exists>v \<in> set views. published u v f"
    "sc_folders sc = map (\<lambda>v. counted (total_dirs sc) (total_files sc) (fresh_folder (fst v))) views"
  using assms unfolding total_ok_def by blast+

lemma folder_total:
  assumes ok: "total_ok u views sc" and new: "shf_Name configured \<notin> set (map (\<lambda>v. shf_Name (fst v)) views)"
    and name: "CHR 0x5C \<notin> set (shf_Name configured)" and view: "proper_view view"
    and run: "scan_folder u stopped cached configured view sc = Inr sc'"
  shows "total_ok u (views @ [(configured, view)]) sc'"
proof -
  obtain resolved sg' where r: "sv_resolved view = Some resolved" and walk: "scan_tree \<lparr>se_unicode = u, se_cached = cached,
        se_name = shf_Name configured, se_root = Clean resolved, se_stopped = stopped\<rparr> (sv_failure view) (sv_nodes view)
        \<lparr>sg_found = sc_found sc, sg_folder = fresh_folder configured, sg_observed = sc_observed sc, sg_pending = sc_pending sc\<rparr> = Inr sg'"
    and sc': "sc' = sc\<lparr>sc_found := sg_found sg', sc_folders := sc_folders sc @ [sg_folder sg'], sc_observed := sg_observed sg',
        sc_pending := sg_pending sg'\<rparr>"
    using run by (auto simp: scan_folder_def rbind_eq_Inr Let_def split: if_splits option.splits)
  let ?env = "\<lparr>se_unicode = u, se_cached = cached, se_name = shf_Name configured, se_root = Clean resolved, se_stopped = stopped\<rparr>"
  let ?sg = "\<lparr>sg_found = sc_found sc, sg_folder = fresh_folder configured, sg_observed = sc_observed sc, sg_pending = sc_pending sc\<rparr>"
  note ok' = total_okD [OF ok]
  have start: "dirs_of ?sg = total_dirs sc" "files_of ?sg = total_files sc"
    by (simp_all add: dirs_of_def files_of_def total_dirs_def total_files_def)
  then have "housed ?sg" using ok'(1-3) by (simp add: housed_def sane_def)
  then have "added ?env (under (shf_Name configured) []) (met_in view) ?sg sg'"
    using tree_added [OF _ _ _ _ _ _ walk, of resolved] view r name by (simp add: proper_view_def met_in_def)
  then obtain ds fs where sane: "sane sg'" and dirs: "dirs_of sg' = dirs_of ?sg @ ds" and files: "files_of sg' = files_of ?sg @ fs"
    and V: "set ds \<subseteq> under (shf_Name configured) []" and dist: "distinct (map ix_virtual fs)"
    and fs: "\<forall>f \<in> set fs. ix_virtual f \<in> under (shf_Name configured) []"
      "\<forall>f \<in> set fs. virtualDirectory (ix_virtual f) \<in> set (dirs_of sg')"
      "\<forall>f \<in> set fs. shared_file (se_unicode ?env) (se_root ?env) (met_in view) f"
    and count: "sg_folder sg' = count_up ds fs (sg_folder ?sg)"
    by (rule addedE)
  have total: "total_dirs sc' = total_dirs sc @ ds" "total_files sc' = total_files sc @ fs"
    "total_dirs sc' = dirs_of sg'" "total_files sc' = files_of sg'"
    using dirs files start by (simp_all add: sc' total_dirs_def total_files_def dirs_of_def files_of_def)
  have share: "\<And>d. d \<in> set ds \<Longrightarrow> shareFolderOf d = shf_Name configured"
    "\<And>f. f \<in> set fs \<Longrightarrow> shareFolderOf (ix_virtual f) = shf_Name configured"
    using V fs(1) under_share [OF _ name] by blast+
  have old: "shareFolderOf d \<noteq> shf_Name configured" if "d \<in> set (total_dirs sc)" for d
    using bspec [OF ok'(5) that] new by metis
  have old': "shareFolderOf (ix_virtual f) \<noteq> shf_Name configured" if f: "f \<in> set (total_files sc)" for f
  proof -
    obtain v where v: "v \<in> set views" "published u v f" using bspec [OF ok'(6) f] by blast
    have "shf_Name (fst v) \<in> set (map (\<lambda>v. shf_Name (fst v)) views)" using v(1) by simp
    then show ?thesis using published_share [OF v(2)] new by metis
  qed
  have stay: "counted (total_dirs sc @ ds) (total_files sc @ fs) (fresh_folder (fst v))
      = counted (total_dirs sc) (total_files sc) (fresh_folder (fst v))" if "v \<in> set views" for v
    by (rule counted_other) (use share new that in \<open>auto simp: fresh_folder_def\<close>)
  have own: "counted (total_dirs sc @ ds) (total_files sc @ fs) (fresh_folder configured) = count_up ds fs (fresh_folder configured)"
    using counted_own [OF old old' share] by blast
  have "published u (configured, view) f" if "f \<in> set fs" for f
    using share(2) [OF that] bspec [OF fs(3) that] r by (simp add: published_def)
  then have pub: "\<forall>f \<in> set (total_files sc'). \<exists>v \<in> set (views @ [(configured, view)]). published u v f"
    unfolding total(2) using ok'(6) by auto
  have "ix_virtual f \<noteq> ix_virtual g" if "f \<in> set (total_files sc)" "g \<in> set fs" for f g
    using old' [OF that(1)] share(2) [OF that(2)] by metis
  then have "distinct (map ix_virtual (total_files sc'))"
    unfolding total(2) using ok'(4) dist by auto
  moreover have "gathers (total_dirs sc') (total_files sc') (sc_found sc')" "distinct (total_dirs sc')"
    unfolding total(3,4) using sane by (simp_all add: sane_def sc')
  moreover have "\<forall>f \<in> set (total_files sc'). virtualDirectory (ix_virtual f) \<in> set (total_dirs sc')"
    unfolding total(1,2) using ok'(3) fs(2) dirs start(1) by auto
  moreover have "\<forall>d \<in> set (total_dirs sc'). shareFolderOf d \<in> set (map (\<lambda>v. shf_Name (fst v)) (views @ [(configured, view)]))"
    unfolding total(1) using ok'(5) share(1) by auto
  moreover have "sc_folders sc' = map (\<lambda>v. counted (total_dirs sc') (total_files sc') (fresh_folder (fst v))) (views @ [(configured, view)])"
    unfolding total(1,2) using ok'(7) stay own count by (simp add: sc')
  ultimately show ?thesis using pub unfolding total_ok_def by blast
qed

lemma folders_total:
  "scan_folders u stopped cached names paths rest sc = Inr sc' \<Longrightarrow> total_ok u views sc
     \<Longrightarrow> set names = set (map (\<lambda>v. ToLower u (shf_Name (fst v))) views) \<Longrightarrow> \<forall>v \<in> set rest. proper_view (snd v)
     \<Longrightarrow> total_ok u (views @ rest) sc'"
proof (induction rest arbitrary: names paths sc views)
  case (Cons v rest)
  obtain configured view where v: "v = (configured, view)" by (rule prod.exhaust)
  let ?name = "shf_Name configured"
  obtain sc1 where first: "scan_folder u stopped cached configured view sc = Inr sc1"
    and later: "scan_folders u stopped cached (ToLower u ?name # names) (Clean (shf_Path configured) # paths) rest sc1 = Inr sc'"
    and valid: "valid_share_name ?name" "ToLower u ?name \<notin> set names"
    using Cons.prems(1) by (auto simp: v rbind_eq_Inr Let_def split: if_splits)
  have "CHR 0x5C \<notin> set ?name" using valid(1) by (auto simp: valid_share_name_def Let_def)
  moreover have "?name \<notin> set (map (\<lambda>v. shf_Name (fst v)) views)" using valid(2) Cons.prems(3) by force
  ultimately have "total_ok u (views @ [v]) sc1"
    using folder_total [OF Cons.prems(2) _ _ _ first] Cons.prems(4) by (simp add: v)
  then have "total_ok u ((views @ [v]) @ rest) sc'"
    by (rule Cons.IH [OF later]) (use Cons.prems(3,4) in \<open>simp_all add: v\<close>)
  then show ?case by simp
qed simp

lemma distinct_names:
  "scan_folders u stopped cached names paths rest sc = Inr sc'
     \<Longrightarrow> distinct (map (\<lambda>v. shf_Name (fst v)) rest) \<and> (\<forall>v \<in> set rest. ToLower u (shf_Name (fst v)) \<notin> set names)"
proof (induction rest arbitrary: names paths sc)
  case (Cons v rest)
  obtain configured view where v: "v = (configured, view)" by (rule prod.exhaust)
  obtain sc1 where "scan_folders u stopped cached (ToLower u (shf_Name configured) # names) (Clean (shf_Path configured) # paths) rest sc1 = Inr sc'"
    "ToLower u (shf_Name configured) \<notin> set names"
    using Cons.prems by (auto simp: v rbind_eq_Inr Let_def split: if_splits)
  from Cons.IH [OF this(1)] this(2) show ?case by (auto simp: v)
qed simp

lemma folder_stats_fresh:
  "distinct (map shf_Name fs) \<Longrightarrow> set names \<inter> shf_Name ` set fs = {} \<Longrightarrow> folder_stats names fs = map fresh_folder fs"
  by (induction fs arbitrary: names) (auto simp: fresh_folder_def)

text \<open>What a scan publishes.\<close>

theorem scan_offers:
  assumes so: "sorting u so" and views: "\<forall>v \<in> set views. proper_view (snd v)"
    and run: "scanShares u deflate so ctx stopped readable upsertFails deleteFails views indexedAt scanDuration t = (t', Inr sn)"
  shows "\<exists>dirs files. offers u deflate (map fst views) dirs files sn \<and> distinct dirs \<and> distinct (map ix_virtual files)
    \<and> (\<forall>f \<in> set files. virtualDirectory (ix_virtual f) \<in> set dirs \<and> (\<exists>v \<in> set views. published u v f))
    \<and> distinct (map shf_Name (map fst views))"
proof -
  let ?sc0 = "\<lparr>sc_found = no_gathered, sc_folders = [], sc_observed = [], sc_pending = []\<rparr>"
  obtain cached cacheActive sc where sc: "scan_folders u stopped cached [] [] views ?sc0 = Inr sc"
    and fin: "finish_snapshot u deflate so ctx indexedAt scanDuration (sc_folders sc) (sc_found sc) = Inr sn"
    using run by (auto simp: scanShares_def split: prod.splits sum.splits)
  have "total_ok u [] ?sc0" by (simp add: total_ok_def gathers_def no_gathered_def total_dirs_def total_files_def)
  then have ok: "total_ok u views sc" using folders_total [OF sc, of "[]"] views by simp
  have names: "distinct (map shf_Name (map fst views))" using distinct_names [OF sc] by (simp add: o_def)
  have "sc_folders sc = map (counted (total_dirs sc) (total_files sc)) (folder_stats [] (map fst views))"
    using ok folder_stats_fresh [OF names, of "[]"] by (simp add: total_ok_def)
  then have "offers u deflate (map fst views) (total_dirs sc) (total_files sc) sn"
    using finish_offers [OF so, of "total_dirs sc" "total_files sc" "sc_found sc" deflate ctx indexedAt scanDuration "map fst views" sn] ok fin
    by (simp add: total_ok_def)
  then show ?thesis using ok names unfolding total_ok_def by blast
qed

lemma published_ok: "published u v f \<Longrightarrow> indexed_ok u f"
  by (auto simp: published_def shared_file_def case_prod_unfold)

text \<open>The scan, the store, and the next start.\<close>

theorem scan_restart:
  assumes so: "sorting u so" and views: "\<forall>v \<in> set views. proper_view (snd v)"
    and utf8: "\<forall>v \<in> set views. ValidString (shf_Name (fst v)) \<and> ValidString (shf_Path (fst v))"
    and run: "scanShares u deflate so ctx stopped readable upsertFails deleteFails views indexedAt scanDuration t = (t1, Inr sn)"
    and save: "ReplaceShareIndex fails (saved_index (map fst views) sn) t1 = (t2, None)"
    and any: "\<And>ds. mset (anyDirs ds) = mset ds" "\<And>es. mset (anyFiles es) = mset es"
  shows "\<exists>dirs files index. offers u deflate (map fst views) dirs files sn
    \<and> loadShareIndex (map fst views) (Inr (read_share_index anyDirs anyFiles t2)) = Inr index
    \<and> (\<forall>ctx sn'. rebuildShareSnapshot u deflate so ctx index = Inr sn'
         \<longrightarrow> offers u deflate (map fst views) dirs (map restored files) sn')"
proof -
  obtain dirs files where o: "offers u deflate (map fst views) dirs files sn" "distinct dirs" "distinct (map ix_virtual files)"
    and f: "\<forall>f \<in> set files. virtualDirectory (ix_virtual f) \<in> set dirs \<and> (\<exists>v \<in> set views. published u v f)"
    and names: "distinct (map shf_Name (map fst views))"
    using scan_offers [OF so views run] by blast
  have valid: "ValidString (shf_Name g) \<and> ValidString (shf_Path g)" if "g \<in> set (map fst views)" for g
    using utf8 that by auto
  have "indexed_ok u f" if "f \<in> set files" for f using f that published_ok by blast
  moreover have "virtualDirectory (ix_virtual f) \<in> set dirs" if "f \<in> set files" for f using f that by blast
  ultimately show ?thesis
    using restart_offers [OF so o(1) o(3) _ _ o(2) names valid any save] o(1) by blast
qed

end
