(* ===== verification/UploadQueue.thy ===== *)
theory UploadQueue
  imports PeerPaths PeerMessages Automaton
begin

text \<open>
  The upload manager (\<open>internal/soulseek/uploads.go\<close>): a bounded queue of the files that peers have asked
  for, a bounded number of slots, and what the peers are told. A job is known by its sequence number,
  which stands for the pointer; the jobs stay in \<open>um_Jobs\<close> after they are over, as a goroutine may still
  hold one.
\<close>

section \<open>The manager\<close>

definition maxWaitingUploads :: nat where
  "maxWaitingUploads = 1024"

definition maxWaitingUploadsPerUser :: nat where
  "maxWaitingUploadsPerUser = 64"

definition maxReportedUploads :: int where
  "maxReportedUploads = 100"

type_synonym uploadKey = "string \<times> string"

record uploadJob =
  uj_Key :: uploadKey
  uj_Active :: bool
  uj_Seq :: nat
  uj_Size :: u64
  uj_Sent :: u64

text \<open>A waiter for a response is the user it must come from and the channel it is sent to.\<close>

record uploadManager =
  um_Slots :: int
  um_Active :: int
  um_Waiting :: "nat list"
  um_ByKey :: "uploadKey \<rightharpoonup> nat"
  um_ByToken :: "u32 \<rightharpoonup> string \<times> nat"
  um_PerUser :: "string \<rightharpoonup> int"
  um_Wake :: bool
  um_Seq :: nat
  um_TotalWritten :: u64
  um_Jobs :: "uploadJob list"

definition newUploadManager :: "int \<Rightarrow> uploadManager" where
  "newUploadManager slots =
     \<lparr>um_Slots = slots, um_Active = 0, um_Waiting = [], um_ByKey = Map.empty, um_ByToken = Map.empty,
      um_PerUser = Map.empty, um_Wake = False, um_Seq = 0, um_TotalWritten = 0, um_Jobs = []\<rparr>"

definition queued_job :: "nat \<Rightarrow> uploadManager \<Rightarrow> uploadJob option" where
  "queued_job i m = find (\<lambda>j. uj_Seq j = i) (um_Jobs m)"

definition set_job :: "nat \<Rightarrow> (uploadJob \<Rightarrow> uploadJob) \<Rightarrow> uploadManager \<Rightarrow> uploadManager" where
  "set_job i f m = m\<lparr>um_Jobs := row_update (\<lambda>j. uj_Seq j = i) f (um_Jobs m)\<rparr>"

definition user_count :: "string \<Rightarrow> uploadManager \<Rightarrow> int" where
  "user_count u m = (case um_PerUser m u of None \<Rightarrow> 0 | Some n \<Rightarrow> n)"

definition notify :: "uploadManager \<Rightarrow> uploadManager" where
  "notify m = m\<lparr>um_Wake := True\<rparr>"

text \<open>\<open>shared\<close> says which virtual paths the share index has. No error is None.\<close>

definition enqueue_upload :: "(string \<Rightarrow> bool) \<Rightarrow> string \<Rightarrow> string \<Rightarrow> uploadManager \<Rightarrow> uploadManager \<times> reason option" where
  "enqueue_upload shared username filename m =
     (case normalizeVirtualPath filename of
        None \<Rightarrow> (m, Some ErrFileNotShared)
      | Some normalized \<Rightarrow>
          if \<not> shared normalized then (m, Some ErrFileNotShared)
          else
            let key = (username, normalized)
            in if um_ByKey m key \<noteq> None then (m, None)
               else if length (um_Waiting m) \<ge> maxWaitingUploads \<or> user_count username m \<ge> int maxWaitingUploadsPerUser
                 then (m, Some ErrTooManyFiles)
               else
                 let i = um_Seq m + 1
                 in (notify (m\<lparr>um_Seq := i, um_ByKey := (um_ByKey m)(key \<mapsto> i), um_Waiting := um_Waiting m @ [i],
                       um_PerUser := (um_PerUser m)(username \<mapsto> user_count username m + 1),
                       um_Jobs := um_Jobs m @ [\<lparr>uj_Key = key, uj_Active = False, uj_Seq = i, uj_Size = 0, uj_Sent = 0\<rparr>]\<rparr>),
                     None))"

definition availability :: "uploadManager \<Rightarrow> bool \<times> nat" where
  "availability m = (um_Active m < um_Slots m \<and> um_Waiting m = [], length (um_Waiting m))"

definition throughputSnapshot :: "uploadManager \<Rightarrow> u64 \<times> int" where
  "throughputSnapshot m = (um_TotalWritten m, um_Active m)"

fun index_of :: "nat \<Rightarrow> nat list \<Rightarrow> nat option" where
  "index_of i [] = None"
| "index_of i (x # xs) = (if x = i then Some 0 else map_option Suc (index_of i xs))"

definition position :: "uploadKey \<Rightarrow> uploadManager \<Rightarrow> u32 option" where
  "position key m =
     (case um_ByKey m key of
        None \<Rightarrow> None
      | Some i \<Rightarrow>
          (case queued_job i m of
             None \<Rightarrow> None
           | Some job \<Rightarrow> if uj_Active job then Some 0
               else map_option (\<lambda>k. word_of_nat (k + 1)) (index_of i (um_Waiting m))))"

text \<open>One round of the inner loop of \<open>dispatch\<close>: the job to start, if there is one and a slot for it.\<close>

definition dispatch_one :: "uploadManager \<Rightarrow> (uploadManager \<times> nat) option" where
  "dispatch_one m =
     (if um_Active m \<ge> um_Slots m then None
      else case um_Waiting m of
             [] \<Rightarrow> None
           | i # rest \<Rightarrow>
               Some ((set_job i (\<lambda>j. j\<lparr>uj_Active := True\<rparr>) m)\<lparr>um_Waiting := rest, um_Active := um_Active m + 1\<rparr>, i))"

definition complete_upload :: "nat \<Rightarrow> uploadManager \<Rightarrow> uploadManager" where
  "complete_upload i m =
     (case queued_job i m of
        None \<Rightarrow> m
      | Some job \<Rightarrow>
          let u = fst (uj_Key job);
              m1 = (if um_ByKey m (uj_Key job) = Some i
                    then m\<lparr>um_ByKey := (um_ByKey m)(uj_Key job := None),
                           um_PerUser := (um_PerUser m)(u := if user_count u m - 1 = 0 then None else Some (user_count u m - 1))\<rparr>
                    else m);
              m2 = (if uj_Active job then (set_job i (\<lambda>j. j\<lparr>uj_Active := False\<rparr>) m1)\<lparr>um_Active := um_Active m1 - 1\<rparr> else m1)
          in notify m2)"

text \<open>One wake-up of \<open>dispatch\<close>: jobs start as long as there is a slot; \<open>startTracked\<close> may refuse one.\<close>

function dispatch_all :: "(nat \<Rightarrow> bool) \<Rightarrow> nat list \<Rightarrow> uploadManager \<Rightarrow> uploadManager \<times> nat list" where
  "dispatch_all starts started m =
     (case dispatch_one m of
        None \<Rightarrow> (m, started)
      | Some (m', i) \<Rightarrow> if starts i then dispatch_all starts (started @ [i]) m' else (complete_upload i m', started))"
  by pat_completeness auto
termination
  by (relation "measure (\<lambda>(starts, started, m). length (um_Waiting m))")
    (auto simp: dispatch_one_def set_job_def split: if_splits list.splits)

definition reset_uploads :: "uploadManager \<Rightarrow> uploadManager" where
  "reset_uploads m =
     m\<lparr>um_Jobs := map (\<lambda>j. if um_ByKey m (uj_Key j) = Some (uj_Seq j) then j\<lparr>uj_Active := False\<rparr> else j) (um_Jobs m),
       um_Active := 0, um_Waiting := [], um_ByKey := Map.empty, um_ByToken := Map.empty, um_PerUser := Map.empty\<rparr>"

definition registerToken :: "u32 \<Rightarrow> string \<Rightarrow> nat \<Rightarrow> uploadManager \<Rightarrow> uploadManager" where
  "registerToken token username responses m = m\<lparr>um_ByToken := (um_ByToken m)(token \<mapsto> (username, responses))\<rparr>"

definition unregisterToken :: "u32 \<Rightarrow> nat \<Rightarrow> uploadManager \<Rightarrow> uploadManager" where
  "unregisterToken token responses m =
     (case um_ByToken m token of
        Some (u, ch) \<Rightarrow> if ch = responses then m\<lparr>um_ByToken := (um_ByToken m)(token := None)\<rparr> else m
      | None \<Rightarrow> m)"

text \<open>The channel a response is offered to.\<close>

definition deliver :: "string \<Rightarrow> TransferResponse \<Rightarrow> uploadManager \<Rightarrow> nat option" where
  "deliver username response m =
     (case um_ByToken m (ts_Token response) of
        Some (u, ch) \<Rightarrow> if u = username then Some ch else None
      | None \<Rightarrow> None)"

section \<open>The report\<close>

record UploadEntry =
  ue_Username :: string
  ue_Filename :: string
  ue_Active :: bool
  ue_Position :: u32
  ue_Size :: u64
  ue_BytesWritten :: u64

record UploadReport =
  ur_Slots :: int
  ur_Active :: int
  ur_Queued :: nat
  ur_Truncated :: int
  ur_Uploads :: "UploadEntry list"

definition entry_of :: "bool \<Rightarrow> u32 \<Rightarrow> uploadJob \<Rightarrow> UploadEntry" where
  "entry_of act pos job =
     \<lparr>ue_Username = fst (uj_Key job), ue_Filename = snd (uj_Key job), ue_Active = act, ue_Position = pos,
      ue_Size = uj_Size job, ue_BytesWritten = uj_Sent job\<rparr>"

definition registered :: "uploadManager \<Rightarrow> uploadJob list" where
  "registered m = filter (\<lambda>j. um_ByKey m (uj_Key j) = Some (uj_Seq j)) (um_Jobs m)"

definition active_uploads :: "uploadManager \<Rightarrow> uploadJob list" where
  "active_uploads m = sort_key uj_Seq (filter uj_Active (registered m))"

definition waiting_entries :: "uploadManager \<Rightarrow> (nat \<times> nat) list \<Rightarrow> UploadEntry list" where
  "waiting_entries m xs =
     concat (map (\<lambda>(k, i). case queued_job i m of None \<Rightarrow> [] | Some job \<Rightarrow> [entry_of False (word_of_nat (k + 1)) job]) xs)"

definition report :: "int \<Rightarrow> uploadManager \<Rightarrow> UploadReport" where
  "report limit m =
     (let shown = take (nat limit) (List.enumerate 0 (um_Waiting m))
      in \<lparr>ur_Slots = um_Slots m, ur_Active = um_Active m, ur_Queued = length (um_Waiting m),
          ur_Truncated = int (length (um_Waiting m)) - int (length shown),
          ur_Uploads = map (entry_of True 0) (active_uploads m) @ waiting_entries m shown\<rparr>)"

section \<open>What peers are answered\<close>

datatype upload_reply =
    ReplyTransfer TransferResponse
  | ReplyDenied string reason
  | ReplyPlace string u32

text \<open>A legacy request for a file, a queue request, and a question for the place in the queue.\<close>

definition on_transfer_request ::
  "(string \<Rightarrow> bool) \<Rightarrow> string \<Rightarrow> u32 \<Rightarrow> string \<Rightarrow> uploadManager \<Rightarrow> uploadManager \<times> upload_reply" where
  "on_transfer_request shared username token filename m =
     (let (m', err) = enqueue_upload shared username filename m
      in (m', ReplyTransfer \<lparr>ts_Token = token, ts_Allowed = False,
            ts_Reason = Some (case err of None \<Rightarrow> ErrQueued | Some e \<Rightarrow> e)\<rparr>))"

definition on_queue_upload ::
  "(string \<Rightarrow> bool) \<Rightarrow> string \<Rightarrow> string \<Rightarrow> uploadManager \<Rightarrow> uploadManager \<times> upload_reply option" where
  "on_queue_upload shared username filename m =
     (let (m', err) = enqueue_upload shared username filename m
      in (m', map_option (ReplyDenied filename) err))"

definition on_place_request :: "string \<Rightarrow> string \<Rightarrow> uploadManager \<Rightarrow> upload_reply" where
  "on_place_request username filename m =
     (case normalizeVirtualPath filename of
        None \<Rightarrow> ReplyDenied filename ErrFileNotShared
      | Some normalized \<Rightarrow>
          (case position (username, normalized) m of
             None \<Rightarrow> ReplyDenied filename ErrFileNotShared
           | Some pos \<Rightarrow> ReplyPlace filename pos))"

section \<open>The invariant\<close>

definition of_user :: "string \<Rightarrow> uploadJob \<Rightarrow> bool" where
  "of_user u j \<longleftrightarrow> fst (uj_Key j) = u"

definition um_ok :: "uploadManager \<Rightarrow> bool" where
  "um_ok m \<longleftrightarrow>
     map uj_Seq (um_Jobs m) = map Suc [0..<um_Seq m]
     \<and> (\<forall>k i. um_ByKey m k = Some i \<longrightarrow> (\<exists>j \<in> set (um_Jobs m). uj_Seq j = i \<and> uj_Key j = k))
     \<and> um_Waiting m = map uj_Seq (filter (\<lambda>j. \<not> uj_Active j) (registered m))
     \<and> (\<forall>j \<in> set (um_Jobs m). uj_Active j \<longrightarrow> um_ByKey m (uj_Key j) = Some (uj_Seq j))
     \<and> um_Active m = int (length (filter uj_Active (um_Jobs m)))
     \<and> um_Active m \<le> max 0 (um_Slots m)
     \<and> length (um_Waiting m) \<le> maxWaitingUploads
     \<and> (\<forall>u. um_PerUser m u = (let n = int (length (filter (of_user u) (registered m))) in if n = 0 then None else Some n))
     \<and> (\<forall>u. user_count u m \<le> int maxWaitingUploadsPerUser)"

lemma um_okD:
  assumes "um_ok m"
  shows "map uj_Seq (um_Jobs m) = map Suc [0..<um_Seq m]"
    and "um_ByKey m k = Some i \<Longrightarrow> \<exists>j \<in> set (um_Jobs m). uj_Seq j = i \<and> uj_Key j = k"
    and "um_Waiting m = map uj_Seq (filter (\<lambda>j. \<not> uj_Active j) (registered m))"
    and "j \<in> set (um_Jobs m) \<Longrightarrow> uj_Active j \<Longrightarrow> um_ByKey m (uj_Key j) = Some (uj_Seq j)"
    and "um_Active m = int (length (filter uj_Active (um_Jobs m)))"
    and "um_Active m \<le> max 0 (um_Slots m)"
    and "length (um_Waiting m) \<le> maxWaitingUploads"
    and "um_PerUser m u = (let n = int (length (filter (of_user u) (registered m))) in if n = 0 then None else Some n)"
    and "user_count u m \<le> int maxWaitingUploadsPerUser"
  using assms unfolding um_ok_def by blast+

lemma um_okI:
  assumes "map uj_Seq (um_Jobs m) = map Suc [0..<um_Seq m]"
    and "\<And>k i. um_ByKey m k = Some i \<Longrightarrow> \<exists>j \<in> set (um_Jobs m). uj_Seq j = i \<and> uj_Key j = k"
    and "um_Waiting m = map uj_Seq (filter (\<lambda>j. \<not> uj_Active j) (registered m))"
    and "\<And>j. j \<in> set (um_Jobs m) \<Longrightarrow> uj_Active j \<Longrightarrow> um_ByKey m (uj_Key j) = Some (uj_Seq j)"
    and "um_Active m = int (length (filter uj_Active (um_Jobs m)))"
    and "um_Active m \<le> max 0 (um_Slots m)"
    and "length (um_Waiting m) \<le> maxWaitingUploads"
    and "\<And>u. um_PerUser m u = (let n = int (length (filter (of_user u) (registered m))) in if n = 0 then None else Some n)"
    and "\<And>u. user_count u m \<le> int maxWaitingUploadsPerUser"
  shows "um_ok m"
  using assms unfolding um_ok_def by blast

lemma seq_distinct: "um_ok m \<Longrightarrow> distinct (map uj_Seq (um_Jobs m))"
  by (simp add: um_okD(1) distinct_map)

lemma seq_inj: "um_ok m \<Longrightarrow> j \<in> set (um_Jobs m) \<Longrightarrow> k \<in> set (um_Jobs m) \<Longrightarrow> uj_Seq j = uj_Seq k \<Longrightarrow> j = k"
  using seq_distinct [of m] by (auto simp: distinct_map dest: inj_onD)

lemma seq_bound: "um_ok m \<Longrightarrow> j \<in> set (um_Jobs m) \<Longrightarrow> uj_Seq j \<le> um_Seq m"
proof -
  assume "um_ok m" "j \<in> set (um_Jobs m)"
  then have "uj_Seq j \<in> set (map Suc [0..<um_Seq m])" using um_okD(1) [of m] by (metis imageI set_map)
  then show ?thesis by simp
qed

lemma find_key: "distinct (map f xs) \<Longrightarrow> find (\<lambda>j. f j = i) xs = Some j \<longleftrightarrow> j \<in> set xs \<and> f j = i"
  by (induction xs) auto

lemma queued_job_eq: "um_ok m \<Longrightarrow> queued_job i m = Some j \<longleftrightarrow> j \<in> set (um_Jobs m) \<and> uj_Seq j = i"
  unfolding queued_job_def by (rule find_key [OF seq_distinct])

lemma filter_one_more:
  assumes "distinct (map f xs)" and "x \<in> set xs" and "f x = i" and "\<not> P x"
  shows "length (filter (\<lambda>y. P y \<or> f y = i) xs) = Suc (length (filter P xs))"
proof -
  obtain as bs where xs: "xs = as @ x # bs" using assms(2) by (meson split_list)
  then have "\<forall>y \<in> set as \<union> set bs. f y \<noteq> i" using assms(1,3) by (auto simp: image_iff)
  then have "filter (\<lambda>y. P y \<or> f y = i) as = filter P as" "filter (\<lambda>y. P y \<or> f y = i) bs = filter P bs"
    by (auto intro!: filter_cong)
  then show ?thesis using assms(3,4) by (simp add: xs)
qed

lemma filter_one_less:
  assumes "distinct (map f xs)" and "x \<in> set xs" and "f x = i" and "P x"
  shows "Suc (length (filter (\<lambda>y. P y \<and> f y \<noteq> i) xs)) = length (filter P xs)"
  using filter_one_more [OF assms(1,2,3), of "\<lambda>y. P y \<and> f y \<noteq> i"] assms(2,3,4)
    filter_cong [of xs xs "\<lambda>y. (P y \<and> f y \<noteq> i) \<or> f y = i" P]
  by (metis (mono_tags, lifting) assms(1) distinct_map inj_onD)

lemma user_count_registered: "um_ok m \<Longrightarrow> user_count u m = int (length (filter (of_user u) (registered m)))"
  by (simp add: user_count_def um_okD(8) Let_def)

lemma um_ok_new: "um_ok (newUploadManager slots)"
  by (simp add: um_ok_def newUploadManager_def registered_def user_count_def)

lemma notify_simps [simp]:
  "um_Slots (notify m) = um_Slots m" "um_Active (notify m) = um_Active m" "um_Waiting (notify m) = um_Waiting m"
  "um_ByKey (notify m) = um_ByKey m" "um_ByToken (notify m) = um_ByToken m" "um_PerUser (notify m) = um_PerUser m"
  "um_Seq (notify m) = um_Seq m" "um_Jobs (notify m) = um_Jobs m" "um_TotalWritten (notify m) = um_TotalWritten m"
  "registered (notify m) = registered m" "user_count u (notify m) = user_count u m" "um_ok (notify m) = um_ok m"
  by (simp_all add: notify_def registered_def user_count_def um_ok_def)

lemma um_ok_enqueue:
  assumes ok: "um_ok m"
  shows "um_ok (fst (enqueue_upload shared u f m))"
proof -
  consider "fst (enqueue_upload shared u f m) = m"
    | n where "normalizeVirtualPath f = Some n" "um_ByKey m (u, n) = None" "length (um_Waiting m) < maxWaitingUploads"
      "user_count u m < int maxWaitingUploadsPerUser" "shared n"
  proof (cases "normalizeVirtualPath f")
    case None
    then show ?thesis using that(1) by (simp add: enqueue_upload_def)
  next
    case (Some n)
    show ?thesis
    proof (cases "shared n \<and> um_ByKey m (u, n) = None \<and> length (um_Waiting m) < maxWaitingUploads
        \<and> user_count u m < int maxWaitingUploadsPerUser")
      case True
      then show ?thesis using that(2) Some by blast
    next
      case False
      then show ?thesis using that(1) Some by (auto simp: enqueue_upload_def Let_def)
    qed
  qed
  then show ?thesis
  proof cases
    case 2
    let ?k = "(u, n)" and ?i = "Suc (um_Seq m)"
    let ?j = "\<lparr>uj_Key = ?k, uj_Active = False, uj_Seq = ?i, uj_Size = 0, uj_Sent = 0\<rparr>"
    let ?m = "m\<lparr>um_Seq := ?i, um_ByKey := (um_ByKey m)(?k \<mapsto> ?i), um_Waiting := um_Waiting m @ [?i],
      um_PerUser := (um_PerUser m)(u \<mapsto> user_count u m + 1), um_Jobs := um_Jobs m @ [?j]\<rparr>"
    have old: "um_ByKey ?m (uj_Key j) = Some (uj_Seq j) \<longleftrightarrow> um_ByKey m (uj_Key j) = Some (uj_Seq j)"
      if "j \<in> set (um_Jobs m)" for j
      using seq_bound [OF ok that] 2(2) by auto
    then have reg: "registered ?m = registered m @ [?j]" by (simp add: registered_def cong: filter_cong)
    have "um_ok ?m"
    proof (rule um_okI)
      show "map uj_Seq (um_Jobs ?m) = map Suc [0..<um_Seq ?m]" using um_okD(1) [OF ok] by simp
      show "\<exists>j \<in> set (um_Jobs ?m). uj_Seq j = i \<and> uj_Key j = k" if "um_ByKey ?m k = Some i" for k i
        using that um_okD(2) [OF ok, of k i] by (auto split: if_splits)
      show "um_Waiting ?m = map uj_Seq (filter (\<lambda>j. \<not> uj_Active j) (registered ?m))"
        unfolding reg using um_okD(3) [OF ok] by simp
      show "um_ByKey ?m (uj_Key j) = Some (uj_Seq j)" if "j \<in> set (um_Jobs ?m)" "uj_Active j" for j
        using that old um_okD(4) [OF ok, of j] 2(2) by auto
      show "um_PerUser ?m v = (let n = int (length (filter (of_user v) (registered ?m))) in if n = 0 then None else Some n)" for v
        unfolding reg using um_okD(8) [OF ok, of v] user_count_registered [OF ok, of u] by (auto simp: of_user_def Let_def)
      show "user_count v ?m \<le> int maxWaitingUploadsPerUser" for v
        using um_okD(9) [OF ok, of v] 2(4) by (simp add: user_count_def)
    qed (use um_okD [OF ok] 2 in simp_all)
    then show ?thesis using 2 by (simp add: enqueue_upload_def Let_def linorder_not_le)
  qed (use ok in simp)
qed

lemma filter_registered: "filter P (registered m) = filter (\<lambda>j. P j \<and> um_ByKey m (uj_Key j) = Some (uj_Seq j)) (um_Jobs m)"
  by (simp add: registered_def conj_commute)

lemma filter_set_job:
  assumes "\<And>j. j \<in> set js \<Longrightarrow> Q (if uj_Seq j = i then f j else j) \<Longrightarrow> (if uj_Seq j = i then f j else j) = j"
  shows "filter Q (map (\<lambda>j. if uj_Seq j = i then f j else j) js) = filter (\<lambda>j. Q (if uj_Seq j = i then f j else j)) js"
  using assms by (induction js) auto

lemma known_map:
  assumes "\<exists>j \<in> set js. uj_Seq j = i \<and> uj_Key j = k" and "\<And>j. uj_Seq (g j) = uj_Seq j \<and> uj_Key (g j) = uj_Key j"
  shows "\<exists>j \<in> set (map g js). uj_Seq j = i \<and> uj_Key j = k"
  using assms by (metis image_eqI list.set_map)

lemma um_ok_dispatch:
  assumes ok: "um_ok m" and d: "dispatch_one m = Some (m', i)"
  shows "um_ok m'"
proof -
  obtain rest where w: "um_Waiting m = i # rest" "um_Active m < um_Slots m"
    and m': "m' = (set_job i (\<lambda>j. j\<lparr>uj_Active := True\<rparr>) m)\<lparr>um_Waiting := rest, um_Active := um_Active m + 1\<rparr>"
    using d by (auto simp: dispatch_one_def split: if_splits list.splits)
  let ?f = "\<lambda>j :: uploadJob. if uj_Seq j = i then j\<lparr>uj_Active := True\<rparr> else j"
  have jobs: "um_Jobs m' = map ?f (um_Jobs m)" by (simp add: m' set_job_def row_update_def)
  have seqs: "map uj_Seq (map ?f js) = map uj_Seq js" "map uj_Key (map ?f js) = map uj_Key js" for js by (induction js) auto
  have key: "um_ByKey m' = um_ByKey m" "um_PerUser m' = um_PerUser m" "um_Seq m' = um_Seq m" "um_Slots m' = um_Slots m"
    by (simp_all add: m' set_job_def)
  have "(\<lambda>j. um_ByKey m (uj_Key j) = Some (uj_Seq j)) \<circ> ?f = (\<lambda>j. um_ByKey m (uj_Key j) = Some (uj_Seq j))"
    by (auto simp: fun_eq_iff)
  then have reg: "registered m' = map ?f (registered m)" by (simp only: registered_def jobs key filter_map)
  have waiting: "map uj_Seq (filter (\<lambda>j. \<not> uj_Active j) (registered m)) = i # rest" using um_okD(3) [OF ok] w by simp
  have distinct: "distinct (i # rest)"
    unfolding waiting [symmetric] registered_def using seq_distinct [OF ok] by (simp add: distinct_map_filter)
  have i: "i \<in> uj_Seq ` set (filter (\<lambda>j. \<not> uj_Active j) (registered m))" using waiting by (metis list.set_intros(1) set_map)
  then obtain j where j: "j \<in> set (um_Jobs m)" "uj_Seq j = i" "\<not> uj_Active j" "um_ByKey m (uj_Key j) = Some i"
    by (auto simp: registered_def)
  show ?thesis
  proof (rule um_okI)
    show "map uj_Seq (um_Jobs m') = map Suc [0..<um_Seq m']" unfolding jobs seqs key by (rule um_okD(1) [OF ok])
    show "\<exists>j \<in> set (um_Jobs m'). uj_Seq j = n \<and> uj_Key j = k" if "um_ByKey m' k = Some n" for k n
      unfolding jobs by (rule known_map) (use um_okD(2) [OF ok, of k n] that in \<open>auto simp: key\<close>)
    have "uj_Seq \<circ> ?f = uj_Seq" "(\<lambda>j. \<not> uj_Active j) \<circ> ?f = (\<lambda>j. uj_Seq j \<noteq> i \<and> \<not> uj_Active j)" by (auto simp: fun_eq_iff)
    then have "map uj_Seq (filter (\<lambda>j. \<not> uj_Active j) (registered m'))
        = map uj_Seq (filter (\<lambda>j. uj_Seq j \<noteq> i) (filter (\<lambda>j. \<not> uj_Active j) (registered m)))"
      unfolding reg filter_map by (simp add: conj_commute)
    also have "\<dots> = filter (\<lambda>n. n \<noteq> i) (i # rest)" unfolding waiting [symmetric] by (simp add: filter_map comp_def)
    also have "\<dots> = rest" using distinct by (auto simp: filter_id_conv)
    finally show "um_Waiting m' = map uj_Seq (filter (\<lambda>j. \<not> uj_Active j) (registered m'))" by (simp add: m')
    show "um_ByKey m' (uj_Key k) = Some (uj_Seq k)" if k: "k \<in> set (um_Jobs m')" "uj_Active k" for k
    proof -
      obtain k0 :: uploadJob where k0: "k0 \<in> set (um_Jobs m)" "k = ?f k0" using k(1) unfolding jobs set_map image_iff by blast
      show ?thesis
      proof (cases "uj_Seq k0 = i")
        case True
        then have "k0 = j" using seq_inj [OF ok k0(1) j(1)] j(2) by simp
        then show ?thesis using k0(2) j by (simp add: key)
      next
        case False
        then show ?thesis using k0 k(2) um_okD(4) [OF ok k0(1)] by (simp add: key)
      qed
    qed
    have "uj_Active \<circ> ?f = (\<lambda>j. uj_Active j \<or> uj_Seq j = i)" by (auto simp: fun_eq_iff)
    then show "um_Active m' = int (length (filter uj_Active (um_Jobs m')))"
      using filter_one_more [OF seq_distinct [OF ok] j(1,2), of uj_Active] j(3) um_okD(5) [OF ok]
      unfolding jobs filter_map by (simp add: m')
    show "um_Active m' \<le> max 0 (um_Slots m')" using w(2) by (simp add: m' set_job_def)
    show "length (um_Waiting m') \<le> maxWaitingUploads" using um_okD(7) [OF ok] w(1) by (simp add: m')
    have "of_user u \<circ> ?f = of_user u" for u by (auto simp: fun_eq_iff of_user_def)
    then show "um_PerUser m' u = (let n = int (length (filter (of_user u) (registered m'))) in if n = 0 then None else Some n)" for u
      using um_okD(8) [OF ok, of u] unfolding reg filter_map key by simp
    show "user_count u m' \<le> int maxWaitingUploadsPerUser" for u using um_okD(9) [OF ok, of u] by (simp add: user_count_def key)
  qed
qed

lemma inactive_waits:
  assumes "um_ok m" and "j \<in> set (um_Jobs m)" and "um_ByKey m (uj_Key j) = Some (uj_Seq j)"
  shows "uj_Seq j \<in> set (um_Waiting m) \<longleftrightarrow> \<not> uj_Active j"
proof -
  have "uj_Seq j \<in> set (um_Waiting m) \<longleftrightarrow> (\<exists>k \<in> set (registered m). \<not> uj_Active k \<and> uj_Seq k = uj_Seq j)"
    unfolding um_okD(3) [OF assms(1)] by (simp add: image_iff) metis
  also have "\<dots> \<longleftrightarrow> \<not> uj_Active j"
    using assms seq_inj [OF assms(1)] by (auto simp: registered_def)
  finally show ?thesis .
qed

lemma um_ok_complete:
  assumes ok: "um_ok m" and quiet: "i \<notin> set (um_Waiting m)"
  shows "um_ok (complete_upload i m)"
proof (cases "queued_job i m")
  case None
  then show ?thesis using ok by (simp add: complete_upload_def)
next
  case (Some j)
  then have j: "j \<in> set (um_Jobs m)" "uj_Seq j = i" using queued_job_eq [OF ok] by auto
  show ?thesis
  proof (cases "um_ByKey m (uj_Key j) = Some i")
    case False
    then have "\<not> uj_Active j" using um_okD(4) [OF ok j(1)] j(2) by auto
    then show ?thesis using Some False ok by (simp add: complete_upload_def Let_def)
  next
    case True
    then have act: "uj_Active j" using inactive_waits [OF ok j(1)] j(2) quiet by simp
    let ?u = "fst (uj_Key j)"
    let ?g = "\<lambda>j :: uploadJob. if uj_Seq j = i then j\<lparr>uj_Active := False\<rparr> else j"
    define m' where "m' = (set_job i (\<lambda>j. j\<lparr>uj_Active := False\<rparr>) (m\<lparr>um_ByKey := (um_ByKey m)(uj_Key j := None),
      um_PerUser := (um_PerUser m)(?u := if user_count ?u m - 1 = 0 then None else Some (user_count ?u m - 1))\<rparr>))
        \<lparr>um_Active := um_Active m - 1\<rparr>"
    have m': "complete_upload i m = notify m'"
      using Some True act by (simp add: complete_upload_def Let_def m'_def set_job_def)
    have jobs: "um_Jobs m' = map ?g (um_Jobs m)" by (simp add: m'_def set_job_def row_update_def)
    have others: "um_ByKey m' = (um_ByKey m)(uj_Key j := None)" "um_Seq m' = um_Seq m" "um_Slots m' = um_Slots m"
      "um_Waiting m' = um_Waiting m" "um_Active m' = um_Active m - 1"
      "um_PerUser m' = (um_PerUser m)(?u := if user_count ?u m - 1 = 0 then None else Some (user_count ?u m - 1))"
      by (simp_all add: m'_def set_job_def)
    have same: "?g k = k" if "uj_Seq k \<noteq> i" for k using that by simp
    have "registered m' = filter (\<lambda>k. uj_Seq k \<noteq> i) (registered m)"
    proof -
      have "((\<lambda>k. um_ByKey m' (uj_Key k) = Some (uj_Seq k)) \<circ> ?g) k
          \<longleftrightarrow> um_ByKey m (uj_Key k) = Some (uj_Seq k) \<and> uj_Seq k \<noteq> i" if "k \<in> set (um_Jobs m)" for k
        using that True seq_inj [OF ok that j(1)] j(2) by (auto simp: others)
      then have "registered m' = map ?g (filter (\<lambda>k. um_ByKey m (uj_Key k) = Some (uj_Seq k) \<and> uj_Seq k \<noteq> i) (um_Jobs m))"
        unfolding registered_def jobs filter_map by (simp cong: filter_cong)
      also have "\<dots> = filter (\<lambda>k. um_ByKey m (uj_Key k) = Some (uj_Seq k) \<and> uj_Seq k \<noteq> i) (um_Jobs m)"
        by (rule map_idI) auto
      finally show ?thesis by (simp add: registered_def conj_commute)
    qed
    note reg = this
    have reg_j: "j \<in> set (registered m)" "distinct (map uj_Seq (registered m))"
      using j True seq_distinct [OF ok] by (simp_all add: registered_def distinct_map_filter)
    have count: "length (filter (of_user v) (registered m'))
        = (if v = ?u then length (filter (of_user v) (registered m)) - 1 else length (filter (of_user v) (registered m)))" for v
    proof (cases "v = ?u")
      case True
      then show ?thesis
        using filter_one_less [OF reg_j(2,1) j(2), of "of_user v"] by (simp add: reg of_user_def conj_commute)
    next
      case False
      then have "filter (of_user v) (registered m') = filter (of_user v) (registered m)"
        using seq_inj [OF ok _ j(1)] j(2) unfolding reg filter_filter
        by (intro filter_cong) (auto simp: of_user_def registered_def)
      then show ?thesis using False by simp
    qed
    have "um_ok m'"
    proof (rule um_okI)
      have "uj_Seq \<circ> ?g = uj_Seq" by (auto simp: fun_eq_iff)
      then show "map uj_Seq (um_Jobs m') = map Suc [0..<um_Seq m']" using um_okD(1) [OF ok] by (simp add: jobs others)
      show "\<exists>k \<in> set (um_Jobs m'). uj_Seq k = n \<and> uj_Key k = key" if "um_ByKey m' key = Some n" for key n
      proof -
        have "um_ByKey m key = Some n" using that by (auto simp: others split: if_splits)
        from um_okD(2) [OF ok this] show ?thesis unfolding jobs by (rule known_map) simp
      qed
      show "um_Waiting m' = map uj_Seq (filter (\<lambda>k. \<not> uj_Active k) (registered m'))"
      proof -
        have "filter (\<lambda>k. \<not> uj_Active k) (registered m') = filter (\<lambda>k. \<not> uj_Active k) (registered m)"
          using seq_inj [OF ok _ j(1)] j(2) act unfolding reg filter_filter
          by (intro filter_cong) (auto simp: registered_def)
        then show ?thesis using um_okD(3) [OF ok] by (simp add: others)
      qed
      show "um_ByKey m' (uj_Key k) = Some (uj_Seq k)" if k: "k \<in> set (um_Jobs m')" "uj_Active k" for k
      proof -
        obtain k0 :: uploadJob where k0: "k0 \<in> set (um_Jobs m)" "k = ?g k0" using k(1) unfolding jobs set_map image_iff by blast
        then have old: "k \<in> set (um_Jobs m)" "uj_Seq k \<noteq> i" using k(2) by (cases "uj_Seq k0 = i"; simp)+
        then have "um_ByKey m (uj_Key k) = Some (uj_Seq k)" using um_okD(4) [OF ok] k(2) by blast
        then show ?thesis using old True by (auto simp: others)
      qed
      have "uj_Active \<circ> ?g = (\<lambda>k. uj_Active k \<and> uj_Seq k \<noteq> i)" by (auto simp: fun_eq_iff)
      then show "um_Active m' = int (length (filter uj_Active (um_Jobs m')))"
        using filter_one_less [OF seq_distinct [OF ok] j, of uj_Active] act um_okD(5) [OF ok]
        unfolding jobs filter_map by (simp add: others)
      show "um_Active m' \<le> max 0 (um_Slots m')" using um_okD(6) [OF ok] by (simp add: others)
      show "length (um_Waiting m') \<le> maxWaitingUploads" using um_okD(7) [OF ok] by (simp add: others)
      have pos: "0 < length (filter (of_user ?u) (registered m))"
        using reg_j(1) by (auto simp: length_greater_0_conv filter_empty_conv of_user_def)
      show "um_PerUser m' v = (let n = int (length (filter (of_user v) (registered m'))) in if n = 0 then None else Some n)" for v
        unfolding count others using um_okD(8) [OF ok, of v] user_count_registered [OF ok, of ?u] pos
        by (auto simp: Let_def of_nat_diff le_Suc_eq)
      show "user_count v m' \<le> int maxWaitingUploadsPerUser" for v
        using um_okD(9) [OF ok, of v] by (auto simp: user_count_def others)
    qed
    then show ?thesis by (simp add: m')
  qed
qed

lemma um_ok_reset:
  assumes ok: "um_ok m"
  shows "um_ok (reset_uploads m)"
proof -
  let ?g = "\<lambda>j. if um_ByKey m (uj_Key j) = Some (uj_Seq j) then j\<lparr>uj_Active := False\<rparr> else j"
  have reg: "registered (reset_uploads m) = []" by (simp add: registered_def reset_uploads_def)
  have quiet: "\<not> uj_Active j" if "j \<in> set (um_Jobs (reset_uploads m))" for j
    using that um_okD(4) [OF ok] by (auto simp: reset_uploads_def split: if_splits)
  have seqs: "map uj_Seq (map ?g js) = map uj_Seq js" for js by (induction js) auto
  show ?thesis
  proof (rule um_okI)
    show "map uj_Seq (um_Jobs (reset_uploads m)) = map Suc [0..<um_Seq (reset_uploads m)]"
    proof -
      have "um_Seq (reset_uploads m) = um_Seq m" "um_Jobs (reset_uploads m) = map ?g (um_Jobs m)"
        by (simp_all add: reset_uploads_def)
      then show ?thesis using um_okD(1) [OF ok] by (simp only: seqs)
    qed
    have "filter uj_Active (um_Jobs (reset_uploads m)) = []" using quiet by (simp add: filter_empty_conv)
    then show "um_Active (reset_uploads m) = int (length (filter uj_Active (um_Jobs (reset_uploads m))))"
      by (simp add: reset_uploads_def)
    show "um_ByKey (reset_uploads m) (uj_Key j) = Some (uj_Seq j)" if "j \<in> set (um_Jobs (reset_uploads m))" "uj_Active j" for j
      using quiet that by blast
  qed (simp_all add: reg, simp_all add: reset_uploads_def user_count_def)
qed

section \<open>Any order of calls\<close>

text \<open>
  \<open>Complete\<close> is the end of a goroutine that \<open>dispatch\<close> has started, so its job does not wait. \<open>Progress\<close>
  is what a running upload stores of its size and of the bytes sent.
\<close>

datatype upload_call =
    QueueUp string string
  | Dispatch
  | Complete nat
  | Reset
  | Register u32 string nat
  | Unregister u32 nat
  | Progress nat u64 u64

definition upload_step :: "(string \<Rightarrow> bool) \<Rightarrow> upload_call \<Rightarrow> uploadManager \<Rightarrow> uploadManager \<times> nat option" where
  "upload_step shared a m =
     (case a of
        QueueUp u f \<Rightarrow> (fst (enqueue_upload shared u f m), None)
      | Dispatch \<Rightarrow> (case dispatch_one m of None \<Rightarrow> (m, None) | Some (m', i) \<Rightarrow> (m', Some i))
      | Complete i \<Rightarrow> (complete_upload i m, None)
      | Reset \<Rightarrow> (reset_uploads m, None)
      | Register t u ch \<Rightarrow> (registerToken t u ch m, None)
      | Unregister t ch \<Rightarrow> (unregisterToken t ch m, None)
      | Progress i size' sent' \<Rightarrow> (set_job i (\<lambda>j. j\<lparr>uj_Size := size', uj_Sent := sent'\<rparr>) m, None))"

definition upload_allowed :: "upload_call \<Rightarrow> uploadManager \<Rightarrow> bool" where
  "upload_allowed a m = (case a of Complete i \<Rightarrow> i \<notin> set (um_Waiting m) | _ \<Rightarrow> True)"

lemma um_ok_tokens [simp]:
  "um_ok (m\<lparr>um_ByToken := x\<rparr>) = um_ok m"
  by (simp add: um_ok_def registered_def user_count_def)

lemma um_ok_progress:
  assumes ok: "um_ok m"
  shows "um_ok (set_job i (\<lambda>j. j\<lparr>uj_Size := a, uj_Sent := b\<rparr>) m)"
proof -
  let ?h = "\<lambda>j :: uploadJob. if uj_Seq j = i then j\<lparr>uj_Size := a, uj_Sent := b\<rparr> else j"
  have h: "uj_Seq \<circ> ?h = uj_Seq" "uj_Active \<circ> ?h = uj_Active" "(\<lambda>j. \<not> uj_Active j) \<circ> ?h = (\<lambda>j. \<not> uj_Active j)"
    "of_user u \<circ> ?h = of_user u" for u
    by (auto simp: fun_eq_iff of_user_def)
  let ?m = "set_job i (\<lambda>j. j\<lparr>uj_Size := a, uj_Sent := b\<rparr>) m"
  have jobs: "um_Jobs ?m = map ?h (um_Jobs m)" by (simp add: set_job_def row_update_def)
  have "(\<lambda>j. um_ByKey m (uj_Key j) = Some (uj_Seq j)) \<circ> ?h = (\<lambda>j. um_ByKey m (uj_Key j) = Some (uj_Seq j))"
    by (auto simp: fun_eq_iff)
  then have "filter (\<lambda>j. um_ByKey m (uj_Key j) = Some (uj_Seq j)) (map ?h (um_Jobs m)) = map ?h (registered m)"
    by (simp only: registered_def filter_map)
  then have reg: "registered ?m = map ?h (registered m)" by (simp add: registered_def jobs set_job_def row_update_def)
  have rest: "um_ByKey ?m = um_ByKey m" "um_Seq ?m = um_Seq m" "um_Slots ?m = um_Slots m" "um_Waiting ?m = um_Waiting m"
    "um_Active ?m = um_Active m" "um_PerUser ?m = um_PerUser m" "user_count u ?m = user_count u m" for u
    by (simp_all add: set_job_def user_count_def)
  show ?thesis
  proof (rule um_okI)
    show "um_ByKey ?m (uj_Key j) = Some (uj_Seq j)" if "j \<in> set (um_Jobs ?m)" "uj_Active j" for j
      using that um_okD(4) [OF ok] by (auto simp: jobs rest split: if_splits)
    show "\<exists>j \<in> set (um_Jobs ?m). uj_Seq j = n \<and> uj_Key j = k" if "um_ByKey ?m k = Some n" for k n
      unfolding jobs by (rule known_map) (use um_okD(2) [OF ok, of k n] that in \<open>auto simp: rest\<close>)
    show "um_PerUser ?m u = (let n = int (length (filter (of_user u) (registered ?m))) in if n = 0 then None else Some n)" for u
      using um_okD(8) [OF ok, of u] by (simp add: rest reg filter_map h)
  qed (use um_okD [OF ok] in \<open>simp_all add: rest reg jobs filter_map h\<close>)
qed

interpretation uploading: safe_automaton "upload_step shared" um_ok upload_allowed for shared
proof
  show "um_ok (fst (upload_step shared a m))" if "um_ok m" "upload_allowed a m" for a m
    using that
    by (cases a)
      (auto simp: upload_step_def upload_allowed_def um_ok_enqueue um_ok_complete um_ok_reset um_ok_progress
        registerToken_def unregisterToken_def um_ok_dispatch split: option.split)
qed

section \<open>First come, first served\<close>

definition patient :: "upload_call \<Rightarrow> uploadManager \<Rightarrow> bool" where
  "patient a m \<longleftrightarrow> a \<noteq> Reset \<and> upload_allowed a m"

text \<open>The queue of \<open>s\<close> without the jobs that were started, and then the jobs that came later.\<close>

definition moved_up :: "uploadManager \<Rightarrow> uploadManager \<Rightarrow> bool" where
  "moved_up s t \<longleftrightarrow> um_ok t \<and> um_Seq s \<le> um_Seq t
     \<and> (\<exists>d new. um_Waiting t = drop d (um_Waiting s) @ new \<and> (\<forall>i \<in> set new. um_Seq s < i))"

lemma moved_up_same:
  assumes "moved_up s t" and "um_ok u" and "um_Seq u = um_Seq t" and "um_Waiting u = um_Waiting t"
  shows "moved_up s u"
  using assms by (simp add: moved_up_def)

lemma complete_waiting [simp]:
  "um_Waiting (complete_upload i m) = um_Waiting m" "um_Seq (complete_upload i m) = um_Seq m"
  by (simp_all add: complete_upload_def set_job_def Let_def split: option.split)

lemma enqueue_waiting:
  "(um_Waiting (fst (enqueue_upload shared u f m)) = um_Waiting m \<and> um_Seq (fst (enqueue_upload shared u f m)) = um_Seq m)
   \<or> (um_Waiting (fst (enqueue_upload shared u f m)) = um_Waiting m @ [Suc (um_Seq m)]
      \<and> um_Seq (fst (enqueue_upload shared u f m)) = Suc (um_Seq m))"
  by (simp add: enqueue_upload_def Let_def split: option.split)

lemma moved_up_step:
  assumes s: "moved_up s t" and a: "patient a t"
  shows "moved_up s (fst (upload_step shared a t))"
proof -
  have ok: "um_ok t" using s by (simp add: moved_up_def)
  then have ok': "um_ok (fst (upload_step shared a t))" using a uploading.good_step by (simp add: patient_def)
  obtain d new where q: "um_Waiting t = drop d (um_Waiting s) @ new" "\<forall>i \<in> set new. um_Seq s < i" "um_Seq s \<le> um_Seq t"
    using s by (auto simp: moved_up_def)
  show ?thesis
  proof (cases a)
    case (QueueUp u f)
    show ?thesis
      using enqueue_waiting [of shared u f t]
    proof
      assume "um_Waiting (fst (enqueue_upload shared u f t)) = um_Waiting t \<and> um_Seq (fst (enqueue_upload shared u f t)) = um_Seq t"
      then show ?thesis using moved_up_same [OF s ok'] QueueUp by (simp add: upload_step_def)
    next
      assume "um_Waiting (fst (enqueue_upload shared u f t)) = um_Waiting t @ [Suc (um_Seq t)]
        \<and> um_Seq (fst (enqueue_upload shared u f t)) = Suc (um_Seq t)"
      then show ?thesis using ok' q QueueUp
        by (auto simp: upload_step_def moved_up_def intro!: exI [of _ d] exI [of _ "new @ [Suc (um_Seq t)]"])
    qed
  next
    case Dispatch
    show ?thesis
    proof (cases "dispatch_one t")
      case None
      then show ?thesis using s Dispatch by (simp add: upload_step_def)
    next
      case (Some r)
      then obtain m' i where r: "r = (m', i)" by (cases r)
      then have m': "um_Waiting m' = tl (um_Waiting t)" "um_Seq m' = um_Seq t"
        using Some by (auto simp: dispatch_one_def set_job_def split: if_splits list.splits)
      have "\<exists>d new. tl (um_Waiting t) = drop d (um_Waiting s) @ new \<and> (\<forall>i \<in> set new. um_Seq s < i)"
      proof (cases "drop d (um_Waiting s)")
        case Nil
        then show ?thesis using q by (auto intro!: exI [of _ d] exI [of _ "tl new"] dest: list.set_sel(2)) (metis list.sel(2) list.set_sel(2))
      next
        case (Cons x xs)
        then have "xs = drop (Suc d) (um_Waiting s)" by (metis drop_Suc list.sel(3) tl_drop)
        then show ?thesis using Cons q by auto
      qed
      then show ?thesis using Some Dispatch r m' ok' q by (simp add: upload_step_def moved_up_def)
    qed
  next
    case (Unregister tok ch)
    then show ?thesis
      using moved_up_same [OF s ok'] by (simp add: upload_step_def unregisterToken_def split: option.split)
  qed (use moved_up_same [OF s ok'] a in \<open>simp_all add: upload_step_def registerToken_def set_job_def patient_def\<close>)
qed

interpretation fair: safe_automaton "upload_step shared" "moved_up s" patient for shared s
  by standard (rule moved_up_step)

lemma moved_up_refl: "um_ok s \<Longrightarrow> moved_up s s"
  by (auto simp: moved_up_def intro!: exI [of _ 0] exI [of _ "[]"])

text \<open>No job is overtaken: whoever waits is not further back than before, and who starts is the first.\<close>

lemma index_of_nth: "distinct xs \<Longrightarrow> k < length xs \<Longrightarrow> index_of (xs ! k) xs = Some k"
  by (induction xs arbitrary: k) (auto simp: nth_Cons split: nat.split)

lemma waiting_facts:
  assumes "um_ok m"
  shows "distinct (um_Waiting m)" "\<forall>i \<in> set (um_Waiting m). i \<le> um_Seq m"
proof -
  show "distinct (um_Waiting m)"
    unfolding um_okD(3) [OF assms] registered_def using seq_distinct [OF assms] by (simp add: distinct_map_filter)
  show "\<forall>i \<in> set (um_Waiting m). i \<le> um_Seq m"
    unfolding um_okD(3) [OF assms] using seq_bound [OF assms] by (auto simp: registered_def)
qed

text \<open>Where a job that waits in both stands in the later queue and in the earlier one.\<close>

lemma moved_up_index:
  assumes s: "um_ok s" and t: "um_ok t"
    and q: "um_Waiting t = drop d (um_Waiting s) @ new" "\<forall>i \<in> set new. um_Seq s < i"
    and i: "i \<in> set (um_Waiting s)" "i \<in> set (um_Waiting t)"
  obtains k where "k < length (drop d (um_Waiting s))" "um_Waiting t ! k = i"
    "index_of i (um_Waiting t) = Some k" "index_of i (um_Waiting s) = Some (d + k)"
proof -
  have "i \<in> set (drop d (um_Waiting s))" using q i waiting_facts(2) [OF s] by fastforce
  then obtain k where k: "k < length (drop d (um_Waiting s))" "drop d (um_Waiting s) ! k = i" by (auto simp: in_set_conv_nth)
  then have "um_Waiting t ! k = i" by (simp add: q(1) nth_append)
  moreover have "index_of i (um_Waiting t) = Some k"
    using index_of_nth [OF waiting_facts(1) [OF t], of k] k by (simp add: q(1) nth_append)
  moreover have "index_of i (um_Waiting s) = Some (d + k)"
    using index_of_nth [OF waiting_facts(1) [OF s], of "d + k"] k by simp
  ultimately show thesis using k(1) by (intro that)
qed

lemma dispatch_head:
  assumes "dispatch_one m = Some (m', k)"
  shows "um_Waiting m = k # um_Waiting m'"
  using assms by (auto simp: dispatch_one_def set_job_def split: if_splits list.splits)

lemma dispatch_ready:
  "um_Active m < um_Slots m \<Longrightarrow> um_Waiting m \<noteq> [] \<Longrightarrow> dispatch_one m \<noteq> None"
  by (cases "um_Waiting m") (simp_all add: dispatch_one_def)

lemma served_in_order:
  assumes ok: "um_ok s" and r: "fair.reached shared s t"
  shows "(\<exists>d new. um_Waiting t = drop d (um_Waiting s) @ new \<and> (\<forall>k \<in> set new. um_Seq s < k))
    \<and> (\<forall>i \<in> set (um_Waiting s) \<inter> set (um_Waiting t).
          the (index_of i (um_Waiting t)) \<le> the (index_of i (um_Waiting s))
          \<and> (\<forall>t' k. dispatch_one t = Some (t', k) \<longrightarrow>
               k \<in> set (um_Waiting s) \<and> the (index_of k (um_Waiting s)) \<le> the (index_of i (um_Waiting s))
               \<and> (k \<noteq> i \<longrightarrow> i \<in> set (um_Waiting t')
                    \<and> Suc (the (index_of i (um_Waiting t'))) = the (index_of i (um_Waiting t)))))"
proof -
  have moved: "moved_up s t" by (rule fair.reached_good [OF r moved_up_refl [OF ok]])
  then obtain d new where q: "um_Waiting t = drop d (um_Waiting s) @ new" "\<forall>i \<in> set new. um_Seq s < i"
    by (auto simp: moved_up_def)
  have t: "um_ok t" using moved by (simp add: moved_up_def)
  have "the (index_of i (um_Waiting t)) \<le> the (index_of i (um_Waiting s))
      \<and> (\<forall>t' k. dispatch_one t = Some (t', k) \<longrightarrow>
           k \<in> set (um_Waiting s) \<and> the (index_of k (um_Waiting s)) \<le> the (index_of i (um_Waiting s))
           \<and> (k \<noteq> i \<longrightarrow> i \<in> set (um_Waiting t')
                \<and> Suc (the (index_of i (um_Waiting t'))) = the (index_of i (um_Waiting t))))"
    if "i \<in> set (um_Waiting s)" "i \<in> set (um_Waiting t)" for i
  proof -
    from moved_up_index [OF ok t q that] obtain n where n: "n < length (drop d (um_Waiting s))"
      "um_Waiting t ! n = i" "index_of i (um_Waiting t) = Some n" "index_of i (um_Waiting s) = Some (d + n)" .
    have "k \<in> set (um_Waiting s) \<and> the (index_of k (um_Waiting s)) \<le> the (index_of i (um_Waiting s))
         \<and> (k \<noteq> i \<longrightarrow> i \<in> set (um_Waiting t')
              \<and> Suc (the (index_of i (um_Waiting t'))) = the (index_of i (um_Waiting t)))"
      if start: "dispatch_one t = Some (t', k)" for t' k
    proof -
      note head = dispatch_head [OF start]
      have "drop d (um_Waiting s) \<noteq> []" using n(1) by auto
      then have k: "k = um_Waiting s ! d" "d < length (um_Waiting s)"
        using head q(1) by (auto simp: hd_drop_conv_nth dest: arg_cong [where f = hd])
      then have "index_of k (um_Waiting s) = Some d"
        using index_of_nth [OF waiting_facts(1) [OF ok]] by simp
      moreover have "i \<in> set (um_Waiting t') \<and> Suc (the (index_of i (um_Waiting t'))) = the (index_of i (um_Waiting t))"
        if "k \<noteq> i"
        using that n(3) head \<open>i \<in> set (um_Waiting t)\<close> by (cases "index_of i (um_Waiting t')") auto
      ultimately show ?thesis using k n(4) by simp
    qed
    with n(3,4) show ?thesis by simp
  qed
  with q show ?thesis by blast
qed

section \<open>The report says what a peer is told\<close>

lemma in_waiting_entries:
  "e \<in> set (waiting_entries m xs)
    \<longleftrightarrow> (\<exists>k i j. (k, i) \<in> set xs \<and> queued_job i m = Some j \<and> e = entry_of False (word_of_nat (k + 1)) j)"
proof (induction xs)
  case (Cons x xs)
  have "waiting_entries m (x # xs)
      = (case queued_job (snd x) m of None \<Rightarrow> [] | Some j \<Rightarrow> [entry_of False (word_of_nat (fst x + 1)) j]) @ waiting_entries m xs"
    by (simp add: waiting_entries_def split_beta)
  then show ?case by (cases x; cases "queued_job (snd x) m") (auto simp: Cons)
qed (simp add: waiting_entries_def)

lemma report_positions:
  assumes ok: "um_ok m" and e: "e \<in> set (ur_Uploads (report limit m))"
  shows "position (ue_Username e, ue_Filename e) m = Some (ue_Position e)"
proof -
  note idx = index_of_nth
  consider j where "j \<in> set (registered m)" "uj_Active j" "e = entry_of True 0 j"
    | k j where "k < length (um_Waiting m)" "queued_job (um_Waiting m ! k) m = Some j" "e = entry_of False (word_of_nat (k + 1)) j"
    using e by (auto simp: report_def active_uploads_def in_waiting_entries Let_def in_set_enumerate_eq dest!: in_set_takeD)
  then show ?thesis
  proof cases
    case 1
    then show ?thesis using queued_job_eq [OF ok, of "uj_Seq j" j] by (simp add: position_def entry_of_def registered_def)
  next
    case (2 k j)
    let ?i = "um_Waiting m ! k"
    have j: "j \<in> set (um_Jobs m)" "uj_Seq j = ?i" using 2(2) queued_job_eq [OF ok] by auto
    have "?i \<in> set (um_Waiting m)" using 2(1) by simp
    then obtain j' where j': "j' \<in> set (registered m)" "\<not> uj_Active j'" "uj_Seq j' = ?i"
      by (auto simp: um_okD(3) [OF ok])
    then have "j' = j" using seq_inj [OF ok _ j(1)] j(2) by (simp add: registered_def)
    moreover have "distinct (um_Waiting m)"
      unfolding um_okD(3) [OF ok] registered_def using seq_distinct [OF ok] by (simp add: distinct_map_filter)
    ultimately show ?thesis
      using j' 2 idx [of "um_Waiting m" k] by (simp add: position_def entry_of_def registered_def)
  qed
qed

lemma report_counts:
  assumes ok: "um_ok m"
  shows "int (length (filter ue_Active (ur_Uploads (report limit m)))) = um_Active m
    \<and> int (length (ur_Uploads (report limit m))) = um_Active m + int (min (nat limit) (length (um_Waiting m)))
    \<and> ur_Truncated (report limit m) = int (length (um_Waiting m)) - int (min (nat limit) (length (um_Waiting m)))"
proof -
  have "filter uj_Active (registered m) = filter uj_Active (um_Jobs m)"
    unfolding registered_def filter_filter using um_okD(4) [OF ok] by (intro filter_cong) auto
  then have act: "int (length (active_uploads m)) = um_Active m"
    using um_okD(5) [OF ok] by (simp add: active_uploads_def)
  have "queued_job i m \<noteq> None" if "i \<in> set (um_Waiting m)" for i
    using that queued_job_eq [OF ok] unfolding um_okD(3) [OF ok] by (auto simp: registered_def)
  then have wait: "length (waiting_entries m xs) = length xs \<and> filter ue_Active (waiting_entries m xs) = []"
    if "snd ` set xs \<subseteq> set (um_Waiting m)" for xs
    using that by (induction xs) (auto simp: waiting_entries_def entry_of_def split: option.splits)
  have "snd ` set (take n (List.enumerate 0 (um_Waiting m))) \<subseteq> set (um_Waiting m)" for n
    by (auto simp: in_set_enumerate_eq dest!: in_set_takeD)
  note w = wait [OF this]
  have "filter ue_Active (map (entry_of True 0) js) = map (entry_of True 0) js" for js
    by (induction js) (simp_all add: entry_of_def)
  then show ?thesis using act w by (simp add: report_def Let_def min.commute)
qed

end
