(* ===== verification/Downloads.thy ===== *)
theory Downloads
  imports UploadQueue ShareSearch World
begin

text \<open>
  Native downloads (\<open>internal/soulseek/downloads.go\<close> and the handshake of \<open>fileconn.go\<close>): the registry of
  transfers, the frames a peer sends about them, the file connections it opens, \<open>Cancel\<close> and \<open>Remove\<close>, and
  the goroutine of each transfer, which stands at one of a few points between the locks it takes. A
  transfer is known by its place in the heap. Connections are numbered; closing one releases its lease.
\<close>

section \<open>Transfers\<close>

text \<open>Where \<open>runDownload\<close> stands.\<close>

type_synonym speed_sample = "int \<times> int \<times> bool" \<comment> \<open>bytes and time of the last sample, and whether it is the first\<close>

datatype run_point =
    Connecting \<comment> \<open>asks for a session and queues the file at the peer\<close>
  | QueueWait
  | Negotiating TransferRequest
  | Accepting TransferRequest
  | AwaitingConn int \<comment> \<open>the size to stream\<close>
  | TakenConn nat int \<comment> \<open>took a connection, still marked as waiting for one\<close>
  | HoldingConn nat int
  | Streaming nat int speed_sample
  | HasReturned

record live_transfer =
  lt_id :: string
  lt_username :: string
  lt_filename :: string
  lt_size :: int
  lt_token :: u32
  lt_state :: transfer_state
  lt_failure :: string
  lt_retryable :: bool
  lt_queuePosition :: u32
  lt_speed :: int
  lt_speedAvg :: int
  lt_speedAt :: int
  lt_awaiting :: bool
  lt_bytesDone :: int
  lt_interrupted :: bool \<comment> \<open>the context is done\<close>
  lt_done :: bool
  lt_requestCh :: "TransferRequest option"
  lt_connCh :: "nat option"
  lt_failCh :: "(string \<times> bool) option"
  lt_point :: run_point

definition newTransfer :: "string \<Rightarrow> string \<Rightarrow> string \<Rightarrow> int \<Rightarrow> live_transfer" where
  "newTransfer ident username filename siz = \<lparr>lt_id = ident, lt_username = username, lt_filename = filename,
     lt_size = siz, lt_token = 0, lt_state = TQueued, lt_failure = [], lt_retryable = False, lt_queuePosition = 0,
     lt_speed = 0, lt_speedAvg = 0, lt_speedAt = 0, lt_awaiting = False, lt_bytesDone = 0, lt_interrupted = False,
     lt_done = False, lt_requestCh = None, lt_connCh = None, lt_failCh = None, lt_point = Connecting\<rparr>"

section \<open>The registry\<close>

record downloads =
  ds_heap :: "live_transfer list"
  ds_byID :: "string \<rightharpoonup> nat"
  ds_byKey :: "string \<rightharpoonup> nat"
  ds_byToken :: "u32 \<rightharpoonup> nat"
  ds_open :: "nat list" \<comment> \<open>file connections that are not closed\<close>
  ds_handlers :: "(nat \<times> nat) list" \<comment> \<open>connections whose token was claimed for a transfer and that are not handed over yet\<close>

definition newDownloadRegistry :: downloads where
  "newDownloadRegistry = \<lparr>ds_heap = [], ds_byID = Map.empty, ds_byKey = Map.empty, ds_byToken = Map.empty,
     ds_open = [], ds_handlers = []\<rparr>"

definition change :: "nat \<Rightarrow> (live_transfer \<Rightarrow> live_transfer) \<Rightarrow> downloads \<Rightarrow> downloads" where
  "change r f ds = ds\<lparr>ds_heap := (ds_heap ds)[r := f (ds_heap ds ! r)]\<rparr>"

definition downloadKey :: "string \<Rightarrow> string \<Rightarrow> string" where
  "downloadKey username filename = username @ CHR 0x00 # filename"

definition key_of :: "live_transfer \<Rightarrow> string" where
  "key_of tr = downloadKey (lt_username tr) (lt_filename tr)"

text \<open>\<open>digest\<close>: the first sixteen hexadecimal digits of the SHA-1 sum\<close>

definition downloadID :: "(string \<Rightarrow> string) \<Rightarrow> string \<Rightarrow> string \<Rightarrow> string" where
  "downloadID digest username filename = digest (downloadKey username filename)"

definition insertIfAbsent :: "live_transfer \<Rightarrow> downloads \<Rightarrow> downloads \<times> nat option" where
  "insertIfAbsent tr ds =
     (case ds_byKey ds (key_of tr) of
        Some r \<Rightarrow> (ds, Some r)
      | None \<Rightarrow>
          (let r = length (ds_heap ds)
           in (ds\<lparr>ds_heap := ds_heap ds @ [tr], ds_byID := (ds_byID ds)(lt_id tr \<mapsto> r),
                  ds_byKey := (ds_byKey ds)(key_of tr \<mapsto> r)\<rparr>, None)))"

definition lookupByKey :: "string \<Rightarrow> string \<Rightarrow> downloads \<Rightarrow> nat option" where
  "lookupByKey username filename ds = ds_byKey ds (downloadKey username filename)"

definition lookupByID :: "string \<Rightarrow> downloads \<Rightarrow> nat option" where
  "lookupByID ident ds = ds_byID ds ident"

definition register_token :: "nat \<Rightarrow> u32 \<Rightarrow> downloads \<Rightarrow> downloads" where
  "register_token r token ds =
     (let old = lt_token (ds_heap ds ! r);
          ds = change r (\<lambda>tr. tr\<lparr>lt_token := token\<rparr>) ds;
          tokens = (if old \<noteq> token \<and> ds_byToken ds old = Some r then (ds_byToken ds)(old := None) else ds_byToken ds)
      in ds\<lparr>ds_byToken := tokens(token \<mapsto> r)\<rparr>)"

definition claimByToken :: "u32 \<Rightarrow> downloads \<Rightarrow> downloads \<times> nat option" where
  "claimByToken token ds =
     (case ds_byToken ds token of
        None \<Rightarrow> (ds, None)
      | Some r \<Rightarrow> (ds\<lparr>ds_byToken := (ds_byToken ds)(token := None)\<rparr>, Some r))"

definition deregister :: "nat \<Rightarrow> downloads \<Rightarrow> downloads" where
  "deregister r ds =
     (let tr = ds_heap ds ! r; token = lt_token tr
      in ds\<lparr>ds_byID := (ds_byID ds)(lt_id tr := None), ds_byKey := (ds_byKey ds)(key_of tr := None),
            ds_byToken := (if ds_byToken ds token = Some r then (ds_byToken ds)(token := None) else ds_byToken ds)\<rparr>)"

section \<open>Frames of a peer\<close>

definition permanentUploadFailureReasons :: "string list" where
  "permanentUploadFailureReasons = [''file not shared'', ''not shared'', ''banned'']"

definition categorizeUploadFailure :: "unicode \<Rightarrow> string \<Rightarrow> string \<times> bool" where
  "categorizeUploadFailure u reason =
     (reason, \<not> list_ex (\<lambda>permanent. Contains (ToLower u reason) permanent) permanentUploadFailureReasons)"

definition deliverTransferFailure :: "nat \<Rightarrow> string \<times> bool \<Rightarrow> downloads \<Rightarrow> downloads" where
  "deliverTransferFailure r f = change r (\<lambda>tr. if lt_failCh tr = None then tr\<lparr>lt_failCh := Some f\<rparr> else tr)"

datatype download_frame =
    FrameTransferRequest TransferRequest
  | FrameTransferResponse
  | FramePlaceInQueueResponse PlaceInQueueResponse
  | FrameUploadFailed UploadFailed
  | FrameUploadDenied UploadDenied
  | FrameOther

text \<open>A frame of \<open>username\<close>, and whether it was for the downloads.\<close>

definition on_download_frame :: "unicode \<Rightarrow> string \<Rightarrow> download_frame \<Rightarrow> downloads \<Rightarrow> downloads \<times> bool" where
  "on_download_frame u username frame ds =
     (case frame of
        FrameTransferRequest msg \<Rightarrow>
          if tr_Direction msg = DownloadFromPeer then (ds, False)
          else (case lookupByKey username (tr_Filename msg) ds of
                  None \<Rightarrow> (ds, True)
                | Some r \<Rightarrow>
                    (change r (\<lambda>tr. if lt_requestCh tr = None then tr\<lparr>lt_requestCh := Some msg\<rparr> else tr)
                       (register_token r (tr_Token msg) ds), True))
      | FrameTransferResponse \<Rightarrow> (ds, False)
      | FramePlaceInQueueResponse msg \<Rightarrow>
          (case lookupByKey username (pq_Filename msg) ds of
             None \<Rightarrow> (ds, True)
           | Some r \<Rightarrow>
               (change r (\<lambda>tr. if lt_state tr \<noteq> TInProgress then tr\<lparr>lt_queuePosition := pq_Place msg\<rparr> else tr) ds, True))
      | FrameUploadFailed msg \<Rightarrow>
          (case lookupByKey username (uf_Filename msg) ds of
             None \<Rightarrow> (ds, True)
           | Some r \<Rightarrow> (deliverTransferFailure r (''upload failed'', True) ds, True))
      | FrameUploadDenied msg \<Rightarrow>
          (case lookupByKey username (ud_Filename msg) ds of
             None \<Rightarrow> (ds, True)
           | Some r \<Rightarrow>
               (let reason = (case ud_Reason msg of None \<Rightarrow> [] | Some e \<Rightarrow> reason_Error e)
                in (deliverTransferFailure r (categorizeUploadFailure u reason) ds, True)))
      | FrameOther \<Rightarrow> (ds, False))"

section \<open>File connections\<close>

definition close_conn :: "nat \<Rightarrow> downloads \<Rightarrow> downloads" where
  "close_conn c ds = ds\<lparr>ds_open := filter (\<lambda>c'. c' \<noteq> c) (ds_open ds)\<rparr>"

definition attachFileConn :: "nat \<Rightarrow> live_transfer \<Rightarrow> live_transfer \<times> bool" where
  "attachFileConn c tr =
     (if \<not> lt_awaiting tr then (tr, False)
      else if lt_connCh tr = None then (tr\<lparr>lt_connCh := Some c\<rparr>, True) else (tr, False))"

definition stopAwaitingFileConn :: "live_transfer \<Rightarrow> live_transfer \<times> nat list" where
  "stopAwaitingFileConn tr =
     (tr\<lparr>lt_awaiting := False, lt_connCh := None\<rparr>, case lt_connCh tr of None \<Rightarrow> [] | Some c \<Rightarrow> [c])"

text \<open>
  \<open>handleInboundFileConn\<close> of a connection whose first message is \<open>init\<close> (\<open>None\<close>: it could not be read),
  up to the claim of the token, and from there.
\<close>

definition claim_conn :: "nat \<Rightarrow> u32 option \<Rightarrow> downloads \<Rightarrow> downloads" where
  "claim_conn c init ds =
     (let ds = ds\<lparr>ds_open := c # ds_open ds\<rparr>
      in case init of
           None \<Rightarrow> close_conn c ds
         | Some token \<Rightarrow>
             (case claimByToken token ds of
                (ds, None) \<Rightarrow> close_conn c ds
              | (ds, Some r) \<Rightarrow> ds\<lparr>ds_handlers := (c, r) # ds_handlers ds\<rparr>))"

definition hand_over :: "nat \<Rightarrow> nat \<Rightarrow> bool \<Rightarrow> downloads \<Rightarrow> downloads" where
  "hand_over c r deadlineSet ds =
     (let ds = ds\<lparr>ds_handlers := filter (\<lambda>h. fst h \<noteq> c) (ds_handlers ds)\<rparr>
      in if \<not> deadlineSet then close_conn c ds
         else (let (tr, ok) = attachFileConn c (ds_heap ds ! r)
               in if ok then change r (\<lambda>_. tr) ds else close_conn c ds))"

section \<open>The goroutine of a transfer\<close>

definition setTransferErrored :: "string \<Rightarrow> bool \<Rightarrow> live_transfer \<Rightarrow> live_transfer" where
  "setTransferErrored failure again tr =
     tr\<lparr>lt_state := TErrored, lt_failure := failure, lt_retryable := again\<rparr>"

definition finishInterrupted :: "string \<Rightarrow> live_transfer \<Rightarrow> live_transfer" where
  "finishInterrupted err tr =
     (if lt_state tr = TCancelled then tr
      else tr\<lparr>lt_state := TErrored, lt_failure := ''download interrupted: '' @ err, lt_retryable := True\<rparr>)"

definition returned :: "live_transfer \<Rightarrow> live_transfer" where
  "returned tr = tr\<lparr>lt_point := HasReturned, lt_done := True\<rparr>"

datatype queue_result = PeerOffline string | Undeliverable | Queued_at_peer

datatype run_event =
    EvQueue queue_result
  | EvRequest
  | EvFailure
  | EvPoll
  | EvInterrupted string
  | EvTimeout
  | EvSession "string option" \<comment> \<open>an error\<close>
  | EvAccepted bool
  | EvConn
  | EvStopAwaiting
  | EvBegin int
  | EvProgress int int
  | EvStreamed "(string \<times> bool) + int" \<comment> \<open>an error and whether the disk is to blame, or the bytes written\<close>

text \<open>Every step gives the transfer and the connections it closes.\<close>

type_synonym run_effect = "live_transfer \<times> nat list"

definition run_connecting :: "run_event \<Rightarrow> live_transfer \<Rightarrow> run_effect" where
  "run_connecting ev tr =
     (case ev of
        EvQueue (PeerOffline e) \<Rightarrow> (returned (setTransferErrored (''peer offline: '' @ e) True tr), [])
      | EvQueue Undeliverable \<Rightarrow>
          (returned (setTransferErrored ''queue upload request could not be delivered to the peer'' True tr), [])
      | EvQueue Queued_at_peer \<Rightarrow> (tr\<lparr>lt_point := QueueWait\<rparr>, [])
      | _ \<Rightarrow> (tr, []))"

definition run_queueWait :: "run_event \<Rightarrow> live_transfer \<Rightarrow> run_effect" where
  "run_queueWait ev tr =
     (case ev of
        EvRequest \<Rightarrow> (tr\<lparr>lt_requestCh := None, lt_point := Negotiating (the (lt_requestCh tr))\<rparr>, [])
      | EvFailure \<Rightarrow>
          (let f = the (lt_failCh tr)
           in (returned (setTransferErrored (fst f) (snd f) (tr\<lparr>lt_failCh := None\<rparr>)), []))
      | EvPoll \<Rightarrow> (tr, [])
      | EvInterrupted e \<Rightarrow> (returned (finishInterrupted e tr), [])
      | EvTimeout \<Rightarrow>
          (returned (setTransferErrored ''timed out waiting for the peer to start the transfer'' True tr), [])
      | _ \<Rightarrow> (tr, []))"

definition run_negotiating :: "TransferRequest \<Rightarrow> run_event \<Rightarrow> live_transfer \<Rightarrow> run_effect" where
  "run_negotiating req ev tr =
     (case ev of
        EvSession (Some e) \<Rightarrow> (returned (setTransferErrored (''peer offline: '' @ e) True tr), [])
      | EvSession None \<Rightarrow> (tr\<lparr>lt_awaiting := True, lt_point := Accepting req\<rparr>, [])
      | _ \<Rightarrow> (tr, []))"

definition run_accepting :: "TransferRequest \<Rightarrow> run_event \<Rightarrow> live_transfer \<Rightarrow> run_effect" where
  "run_accepting req ev tr =
     (case ev of
        EvAccepted delivered \<Rightarrow>
          if \<not> delivered then
            (let (tr, leftover) = stopAwaitingFileConn tr
             in (returned (setTransferErrored ''transfer acceptance could not be delivered to the peer'' True tr), leftover))
          else if tr_FileSize req > 0 then
            if tr_FileSize req > 0x7FFFFFFFFFFFFFFF then
              (let (tr, leftover) = stopAwaitingFileConn tr
               in (returned (setTransferErrored ''peer declared an out-of-range file size'' False tr), leftover))
            else
              (let streamSize = sint (tr_FileSize req)
               in (tr\<lparr>lt_size := streamSize, lt_point := AwaitingConn streamSize\<rparr>, []))
          else (tr\<lparr>lt_point := AwaitingConn (lt_size tr)\<rparr>, [])
      | _ \<Rightarrow> (tr, []))"

definition run_awaiting :: "int \<Rightarrow> run_event \<Rightarrow> live_transfer \<Rightarrow> run_effect" where
  "run_awaiting streamSize ev tr =
     (case ev of
        EvConn \<Rightarrow> (tr\<lparr>lt_connCh := None, lt_point := TakenConn (the (lt_connCh tr)) streamSize\<rparr>, [])
      | EvFailure \<Rightarrow>
          (let f = the (lt_failCh tr); (tr, leftover) = stopAwaitingFileConn (tr\<lparr>lt_failCh := None\<rparr>)
           in (returned (setTransferErrored (fst f) (snd f) tr), leftover))
      | EvInterrupted e \<Rightarrow>
          (let (tr, leftover) = stopAwaitingFileConn tr in (returned (finishInterrupted e tr), leftover))
      | EvTimeout \<Rightarrow>
          (let (tr, leftover) = stopAwaitingFileConn tr
           in (returned (setTransferErrored ''timed out waiting for the peer's file connection'' True tr), leftover))
      | _ \<Rightarrow> (tr, []))"

definition run_taken :: "nat \<Rightarrow> int \<Rightarrow> run_event \<Rightarrow> live_transfer \<Rightarrow> run_effect" where
  "run_taken c streamSize ev tr =
     (case ev of
        EvStopAwaiting \<Rightarrow>
          (let (tr, leftover) = stopAwaitingFileConn tr in (tr\<lparr>lt_point := HoldingConn c streamSize\<rparr>, leftover))
      | _ \<Rightarrow> (tr, []))"

definition run_holding :: "string \<Rightarrow> nat \<Rightarrow> int \<Rightarrow> run_event \<Rightarrow> live_transfer \<Rightarrow> run_effect" where
  "run_holding downloadDir c streamSize ev tr =
     (case ev of
        EvBegin began \<Rightarrow>
          if lt_state tr = TCancelled then (returned tr, [c])
          else
            (let tr = tr\<lparr>lt_state := TInProgress, lt_queuePosition := 0\<rparr>
             in case safeDownloadDest downloadDir (lt_filename tr) of
                  Inl _ \<Rightarrow>
                    (returned (setTransferErrored ''soulseek: download path escapes the download directory'' False tr), [c])
                | Inr _ \<Rightarrow> (tr\<lparr>lt_point := Streaming c streamSize (0, began, True)\<rparr>, []))
      | _ \<Rightarrow> (tr, []))"

text \<open>
  The callback of \<open>streamFile\<close> samples the speed once a second. The code divides floating-point numbers
  and truncates; the model divides integers and truncates.
\<close>

definition quotient :: "int \<Rightarrow> int \<Rightarrow> int" where
  "quotient a b = sgn a * (\<bar>a\<bar> div b)"

definition ewma :: "int \<Rightarrow> int \<Rightarrow> int" where
  "ewma prev sample = quotient (3 * sample + 7 * prev) 10"

definition on_progress :: "int \<Rightarrow> int \<Rightarrow> speed_sample \<Rightarrow> live_transfer \<Rightarrow> live_transfer \<times> speed_sample" where
  "on_progress n now sample tr =
     (let (lastBytes, lastTime, firstSample) = sample; tr = tr\<lparr>lt_bytesDone := n\<rparr>; d = now - lastTime
      in if d \<ge> 1000000000
         then (let speed = quotient ((n - lastBytes) * 1000000000) d
               in (tr\<lparr>lt_speed := speed, lt_speedAvg := (if firstSample then speed else ewma (lt_speedAvg tr) speed),
                     lt_speedAt := now\<rparr>, (n, now, False)))
         else (tr, sample))"

definition run_streaming :: "nat \<Rightarrow> int \<Rightarrow> speed_sample \<Rightarrow> run_event \<Rightarrow> live_transfer \<Rightarrow> run_effect" where
  "run_streaming c streamSize sample ev tr =
     (case ev of
        EvProgress n now \<Rightarrow>
          (let (tr, sample) = on_progress n now sample tr in (tr\<lparr>lt_point := Streaming c streamSize sample\<rparr>, []))
      | EvStreamed (Inl (e, disk)) \<Rightarrow>
          if lt_interrupted tr then (returned (finishInterrupted ''context canceled'' tr), [c])
          else (returned (setTransferErrored e (\<not> disk) tr), [c])
      | EvStreamed (Inr bytes) \<Rightarrow>
          (returned (tr\<lparr>lt_bytesDone := bytes,
             lt_state := (if lt_state tr \<noteq> TCancelled then TCompleted else lt_state tr)\<rparr>), [c])
      | _ \<Rightarrow> (tr, []))"

definition run_step :: "string \<Rightarrow> run_event \<Rightarrow> live_transfer \<Rightarrow> run_effect" where
  "run_step downloadDir ev tr =
     (case lt_point tr of
        Connecting \<Rightarrow> run_connecting ev tr
      | QueueWait \<Rightarrow> run_queueWait ev tr
      | Negotiating req \<Rightarrow> run_negotiating req ev tr
      | Accepting req \<Rightarrow> run_accepting req ev tr
      | AwaitingConn n \<Rightarrow> run_awaiting n ev tr
      | TakenConn c n \<Rightarrow> run_taken c n ev tr
      | HoldingConn c n \<Rightarrow> run_holding downloadDir c n ev tr
      | Streaming c n sample \<Rightarrow> run_streaming c n sample ev tr
      | HasReturned \<Rightarrow> (tr, []))"

section \<open>The calls\<close>

text \<open>\<open>started\<close>: the lifecycle still starts goroutines.\<close>

definition enqueue_download :: "(string \<Rightarrow> string) \<Rightarrow> string \<Rightarrow> bool \<Rightarrow> string \<Rightarrow> string \<Rightarrow> int \<Rightarrow> downloads \<Rightarrow> downloads \<times> (path_error + string)" where
  "enqueue_download digest downloadDir started username filename siz ds =
     (case safeDownloadDest downloadDir filename of
        Inl e \<Rightarrow> (ds, Inl e)
      | Inr _ \<Rightarrow>
          (let ident = downloadID digest username filename
           in case insertIfAbsent (newTransfer ident username filename siz) ds of
                (ds, Some existing) \<Rightarrow> (ds, Inr (lt_id (ds_heap ds ! existing)))
              | (ds, None) \<Rightarrow>
                  (let r = length (ds_heap ds) - 1
                   in if started then (ds, Inr ident)
                      else (deregister r (change r (\<lambda>tr. returned
                              (setTransferErrored ''soulseek: client lifecycle is stopping'' True (tr\<lparr>lt_interrupted := True\<rparr>))) ds),
                            Inr ident))))"

definition speedStaleAfter :: int where
  "speedStaleAfter = 3 * 1000000000"

record remote_download =
  rd_transfer :: remote_transfer
  rd_Failure :: string
  rd_QueuePosition :: u32
  rd_Speed :: int
  rd_SpeedAverage :: int

definition listed :: "int \<Rightarrow> live_transfer \<Rightarrow> remote_download" where
  "listed now tr =
     (let stale = (lt_speedAt tr = 0 \<or> now - lt_speedAt tr > speedStaleAfter)
      in \<lparr>rd_transfer = \<lparr>rt_ID = lt_id tr, rt_Username = lt_username tr, rt_Filename = lt_filename tr,
            rt_State = lt_state tr, rt_Size = lt_size tr, rt_BytesDone = lt_bytesDone tr, rt_Retryable = lt_retryable tr\<rparr>,
          rd_Failure = lt_failure tr, rd_QueuePosition = lt_queuePosition tr,
          rd_Speed = (if stale then 0 else lt_speed tr), rd_SpeedAverage = (if stale then 0 else lt_speedAvg tr)\<rparr>)"

text \<open>\<open>ids\<close>: the registered ids, in the order in which the iteration over the map meets them.\<close>

definition list_downloads :: "string list \<Rightarrow> int \<Rightarrow> downloads \<Rightarrow> remote_download list" where
  "list_downloads ids now ds = map (\<lambda>i. listed now (ds_heap ds ! the (ds_byID ds i))) ids"

definition cancel_transfer :: "live_transfer \<Rightarrow> live_transfer" where
  "cancel_transfer tr = (if lt_state tr = TCompleted then tr else tr\<lparr>lt_state := TCancelled, lt_interrupted := True\<rparr>)"

definition cancel_download :: "string \<Rightarrow> downloads \<Rightarrow> downloads \<times> bool" where
  "cancel_download ident ds = (case lookupByID ident ds of None \<Rightarrow> (ds, False) | Some r \<Rightarrow> (change r cancel_transfer ds, True))"

text \<open>\<open>Remove\<close>, from the transfer it looked up to the removal from the registry.\<close>

definition forget :: "nat \<Rightarrow> downloads \<Rightarrow> downloads" where
  "forget r ds = deregister r (change r (\<lambda>tr. tr\<lparr>lt_state := (if lt_state tr \<noteq> TCompleted then TCancelled else lt_state tr),
     lt_interrupted := True\<rparr>) ds)"

text \<open>The file it unlinks in the end, when the goroutine has returned or the time to wait for it is over.\<close>

definition part_to_remove :: "string \<Rightarrow> live_transfer \<Rightarrow> string option" where
  "part_to_remove downloadDir tr =
     (case safeDownloadDest downloadDir (lt_filename tr) of Inl _ \<Rightarrow> None | Inr dest \<Rightarrow> Some (dest @ ''.part''))"

definition remove_download :: "string \<Rightarrow> string \<Rightarrow> downloads \<Rightarrow> downloads \<times> string option option" where
  "remove_download downloadDir ident ds =
     (case lookupByID ident ds of
        None \<Rightarrow> (ds, None)
      | Some r \<Rightarrow> (forget r ds, Some (part_to_remove downloadDir (ds_heap ds ! r))))"

text \<open>What other goroutines may do, in any order.\<close>

datatype download_call =
    AskEnqueue bool string string int
  | AskCancel nat
  | CallForget nat
  | CallFrame string download_frame
  | CallInbound nat "u32 option"
  | CallHandOver nat nat bool
  | CallRun nat run_event

definition run_transfer :: "string \<Rightarrow> nat \<Rightarrow> run_event \<Rightarrow> downloads \<Rightarrow> downloads" where
  "run_transfer downloadDir r ev ds =
     (let (tr, conns) = run_step downloadDir ev (ds_heap ds ! r) in fold close_conn conns (change r (\<lambda>_. tr) ds))"

fun download_step :: "unicode \<Rightarrow> (string \<Rightarrow> string) \<Rightarrow> string \<Rightarrow> download_call \<Rightarrow> downloads \<Rightarrow> downloads \<times> unit" where
  "download_step u digest dir (AskEnqueue started username filename siz) ds =
     (fst (enqueue_download digest dir started username filename siz ds), ())"
| "download_step u digest dir (AskCancel r) ds = (change r cancel_transfer ds, ())"
| "download_step u digest dir (CallForget r) ds = (forget r ds, ())"
| "download_step u digest dir (CallFrame username frame) ds = (fst (on_download_frame u username frame ds), ())"
| "download_step u digest dir (CallInbound c init) ds = (claim_conn c init ds, ())"
| "download_step u digest dir (CallHandOver c r deadlineSet) ds = (hand_over c r deadlineSet ds, ())"
| "download_step u digest dir (CallRun r ev) ds = (run_transfer dir r ev ds, ())"

text \<open>When a goroutine can take a step: a receive needs something in the channel.\<close>

definition ready :: "run_event \<Rightarrow> live_transfer \<Rightarrow> bool" where
  "ready ev tr \<longleftrightarrow> lt_point tr \<noteq> HasReturned
     \<and> (ev = EvRequest \<longrightarrow> lt_requestCh tr \<noteq> None) \<and> (ev = EvFailure \<longrightarrow> lt_failCh tr \<noteq> None)
     \<and> (ev = EvConn \<longrightarrow> lt_connCh tr \<noteq> None)"

text \<open>A transfer was looked up before, a new connection is new, and a handler has its own.\<close>

fun download_allowed :: "download_call \<Rightarrow> downloads \<Rightarrow> bool" where
  "download_allowed (AskEnqueue _ _ _ _) ds = True"
| "download_allowed (AskCancel r) ds = (r < length (ds_heap ds))"
| "download_allowed (CallForget r) ds = (r < length (ds_heap ds))"
| "download_allowed (CallFrame _ _) ds = True"
| "download_allowed (CallInbound c _) ds = (c \<notin> set (ds_open ds))"
| "download_allowed (CallHandOver c r _) ds = ((c, r) \<in> set (ds_handlers ds))"
| "download_allowed (CallRun r ev) ds = (r < length (ds_heap ds) \<and> ready ev (ds_heap ds ! r))"

end
