(* ===== verification/DownloadFacts.thy ===== *)
theory DownloadFacts
  imports Downloads Automaton
begin

text \<open>
  What the downloads keep, whatever order their goroutines run in: a transfer that has returned is in a
  final state, every open file connection has exactly one owner, the registry names what it says it names.
\<close>

section \<open>One transfer\<close>

fun waiting_point :: "run_point \<Rightarrow> bool" where
  "waiting_point (Accepting _) = True"
| "waiting_point (AwaitingConn _) = True"
| "waiting_point (TakenConn _ _) = True"
| "waiting_point _ = False"

fun conn_at :: "run_point \<Rightarrow> nat list" where
  "conn_at (TakenConn c _) = [c]"
| "conn_at (HoldingConn c _) = [c]"
| "conn_at (Streaming c _ _) = [c]"
| "conn_at _ = []"

fun streaming_point :: "run_point \<Rightarrow> bool" where
  "streaming_point (Streaming _ _ _) = True"
| "streaming_point _ = False"

definition held :: "live_transfer \<Rightarrow> nat list" where
  "held tr = (case lt_connCh tr of None \<Rightarrow> [] | Some c \<Rightarrow> [c]) @ conn_at (lt_point tr)"

definition tr_ok :: "live_transfer \<Rightarrow> bool" where
  "tr_ok tr \<longleftrightarrow> (lt_awaiting tr \<longleftrightarrow> waiting_point (lt_point tr)) \<and> (lt_connCh tr \<noteq> None \<longrightarrow> lt_awaiting tr)
     \<and> (lt_done tr \<longleftrightarrow> lt_point tr = HasReturned)
     \<and> (lt_state tr \<in> (if lt_point tr = HasReturned then {TCompleted, TErrored, TCancelled} else {TQueued, TInProgress, TCancelled}))
     \<and> (lt_state tr = TInProgress \<longrightarrow> streaming_point (lt_point tr) \<and> lt_queuePosition tr = 0)
     \<and> (lt_state tr = TCancelled \<longrightarrow> lt_interrupted tr)"

lemmas run_defs = returned_def setTransferErrored_def finishInterrupted_def stopAwaitingFileConn_def Let_def

lemma on_progress_same:
  "on_progress n now s tr = (tr', s') \<Longrightarrow> lt_awaiting tr' = lt_awaiting tr \<and> lt_connCh tr' = lt_connCh tr
     \<and> lt_done tr' = lt_done tr \<and> lt_state tr' = lt_state tr \<and> lt_queuePosition tr' = lt_queuePosition tr
     \<and> lt_interrupted tr' = lt_interrupted tr \<and> lt_point tr' = lt_point tr \<and> lt_id tr' = lt_id tr
     \<and> lt_username tr' = lt_username tr \<and> lt_filename tr' = lt_filename tr \<and> lt_token tr' = lt_token tr
     \<and> lt_failCh tr' = lt_failCh tr \<and> lt_requestCh tr' = lt_requestCh tr"
  by (auto simp: on_progress_def Let_def split: prod.splits if_splits)

text \<open>A step keeps a transfer well-formed, and hands on or closes what it held.\<close>

definition fine_step :: "live_transfer \<Rightarrow> run_effect \<Rightarrow> bool" where
  "fine_step tr e \<longleftrightarrow> tr_ok (fst e) \<and> mset (held tr) = mset (held (fst e)) + mset (snd e)
     \<and> lt_id (fst e) = lt_id tr \<and> key_of (fst e) = key_of tr \<and> lt_token (fst e) = lt_token tr"

lemma fine_idle: "tr_ok tr \<Longrightarrow> fine_step tr (tr, [])"
  by (simp add: fine_step_def)

lemma fine_connecting: "tr_ok tr \<Longrightarrow> lt_point tr = Connecting \<Longrightarrow> fine_step tr (run_connecting ev tr)"
  by (auto simp: run_connecting_def fine_step_def tr_ok_def held_def key_of_def run_defs split: run_event.splits queue_result.splits)

lemma fine_queueWait: "tr_ok tr \<Longrightarrow> lt_point tr = QueueWait \<Longrightarrow> fine_step tr (run_queueWait ev tr)"
  by (auto simp: run_queueWait_def fine_step_def tr_ok_def held_def key_of_def run_defs split: run_event.splits)

lemma fine_negotiating: "tr_ok tr \<Longrightarrow> lt_point tr = Negotiating req \<Longrightarrow> fine_step tr (run_negotiating req ev tr)"
  by (auto simp: run_negotiating_def fine_step_def tr_ok_def held_def key_of_def run_defs split: run_event.splits option.splits)

lemma fine_accepting: "tr_ok tr \<Longrightarrow> lt_point tr = Accepting req \<Longrightarrow> fine_step tr (run_accepting req ev tr)"
  by (auto simp: run_accepting_def fine_step_def tr_ok_def held_def key_of_def run_defs split: run_event.splits option.splits)

lemma fine_awaiting: "tr_ok tr \<Longrightarrow> lt_point tr = AwaitingConn n \<Longrightarrow> ready ev tr \<Longrightarrow> fine_step tr (run_awaiting n ev tr)"
  by (auto simp: run_awaiting_def fine_step_def tr_ok_def held_def key_of_def ready_def run_defs split: run_event.splits option.splits)

lemma fine_taken: "tr_ok tr \<Longrightarrow> lt_point tr = TakenConn c n \<Longrightarrow> fine_step tr (run_taken c n ev tr)"
  by (auto simp: run_taken_def fine_step_def tr_ok_def held_def key_of_def run_defs split: run_event.splits option.splits)

lemma fine_holding: "tr_ok tr \<Longrightarrow> lt_point tr = HoldingConn c n \<Longrightarrow> fine_step tr (run_holding dir c n ev tr)"
  by (auto simp: run_holding_def fine_step_def tr_ok_def held_def key_of_def run_defs split: run_event.splits option.splits sum.splits)

lemma fine_streaming: "tr_ok tr \<Longrightarrow> lt_point tr = Streaming c n s \<Longrightarrow> fine_step tr (run_streaming c n s ev tr)"
  by (cases ev) (auto simp: run_streaming_def fine_step_def tr_ok_def held_def key_of_def run_defs
      split: sum.splits prod.splits option.splits dest!: on_progress_same)

lemma fine_run: "tr_ok tr \<Longrightarrow> ready ev tr \<Longrightarrow> fine_step tr (run_step dir ev tr)"
  unfolding run_step_def
  by (simp split: run_point.split add: fine_idle fine_connecting fine_queueWait fine_negotiating fine_accepting
      fine_awaiting fine_taken fine_holding fine_streaming)

section \<open>All of them\<close>

definition owned_conns :: "downloads \<Rightarrow> nat list" where
  "owned_conns ds = map fst (ds_handlers ds) @ concat (map held (ds_heap ds))"

definition names_ok :: "downloads \<Rightarrow> bool" where
  "names_ok ds \<longleftrightarrow> (\<forall>i r. ds_byID ds i = Some r \<longrightarrow> r < length (ds_heap ds) \<and> lt_id (ds_heap ds ! r) = i)
     \<and> (\<forall>k r. ds_byKey ds k = Some r \<longrightarrow> r < length (ds_heap ds) \<and> key_of (ds_heap ds ! r) = k)
     \<and> (\<forall>t r. ds_byToken ds t = Some r \<longrightarrow> r < length (ds_heap ds) \<and> lt_token (ds_heap ds ! r) = t)"

definition downloads_ok :: "downloads \<Rightarrow> bool" where
  "downloads_ok ds \<longleftrightarrow> (\<forall>r < length (ds_heap ds). tr_ok (ds_heap ds ! r)) \<and> distinct (ds_open ds)
     \<and> mset (owned_conns ds) = mset (ds_open ds) \<and> (\<forall>(c, r) \<in> set (ds_handlers ds). r < length (ds_heap ds)) \<and> names_ok ds"

lemma downloads_okD:
  assumes "downloads_ok ds"
  shows "r < length (ds_heap ds) \<Longrightarrow> tr_ok (ds_heap ds ! r)" "distinct (ds_open ds)" "mset (owned_conns ds) = mset (ds_open ds)"
    "(c, r) \<in> set (ds_handlers ds) \<Longrightarrow> r < length (ds_heap ds)" "names_ok ds"
  using assms by (auto simp: downloads_ok_def)

lemma names_okD:
  assumes "names_ok ds"
  shows "ds_byID ds i = Some r \<Longrightarrow> r < length (ds_heap ds) \<and> lt_id (ds_heap ds ! r) = i"
    "ds_byKey ds k = Some r \<Longrightarrow> r < length (ds_heap ds) \<and> key_of (ds_heap ds ! r) = k"
    "ds_byToken ds t = Some r \<Longrightarrow> r < length (ds_heap ds) \<and> lt_token (ds_heap ds ! r) = t"
  using assms by (auto simp: names_ok_def)

lemma change_simps [simp]:
  "ds_heap (change r f ds) = (ds_heap ds)[r := f (ds_heap ds ! r)]" "ds_byID (change r f ds) = ds_byID ds"
  "ds_byKey (change r f ds) = ds_byKey ds" "ds_byToken (change r f ds) = ds_byToken ds"
  "ds_open (change r f ds) = ds_open ds" "ds_handlers (change r f ds) = ds_handlers ds"
  by (simp_all add: change_def)

lemma close_conns_simps [simp]:
  "ds_heap (fold close_conn cs ds) = ds_heap ds" "ds_byID (fold close_conn cs ds) = ds_byID ds"
  "ds_byKey (fold close_conn cs ds) = ds_byKey ds" "ds_byToken (fold close_conn cs ds) = ds_byToken ds"
  "ds_handlers (fold close_conn cs ds) = ds_handlers ds"
  "ds_open (fold close_conn cs ds) = filter (\<lambda>c. c \<notin> set cs) (ds_open ds)"
  by (induction cs arbitrary: ds) (auto simp: close_conn_def intro: filter_cong)

lemma owned_change:
  assumes "r < length (ds_heap ds)"
  shows "mset (owned_conns (change r f ds)) + mset (held (ds_heap ds ! r)) = mset (owned_conns ds) + mset (held (f (ds_heap ds ! r)))"
proof -
  have "ds_heap ds = take r (ds_heap ds) @ ds_heap ds ! r # drop (Suc r) (ds_heap ds)" (is "_ = ?xs @ _ # ?ys")
    by (rule id_take_nth_drop [OF assms])
  then have "mset (concat (map held (ds_heap ds))) = mset (concat (map held ?xs)) + mset (held (ds_heap ds ! r)) + mset (concat (map held ?ys))"
    by (metis (no_types, lifting) concat_append list.simps(9) map_append mset_append concat.simps(2) add.assoc)
  moreover have "(ds_heap ds)[r := f (ds_heap ds ! r)] = ?xs @ f (ds_heap ds ! r) # ?ys"
    by (rule upd_conv_take_nth_drop [OF assms])
  ultimately show ?thesis by (simp add: owned_conns_def ac_simps)
qed

lemma mset_close:
  assumes "distinct xs" "mset xs = A + mset cs"
  shows "mset (filter (\<lambda>c. c \<notin> set cs) xs) = A"
proof (rule multiset_eqI)
  fix x
  have "count (mset xs) x \<le> 1" using assms(1) by (simp add: distinct_count_atmost_1)
  then have once: "count A x + count (mset cs) x \<le> 1" by (simp add: assms(2))
  show "count (mset (filter (\<lambda>c. c \<notin> set cs) xs)) x = count A x"
  proof (cases "x \<in> set cs")
    case True
    then have "0 < count (mset cs) x" by (simp only: count_greater_zero_iff set_mset_mset)
    then have "count A x = 0" using once by linarith
    then show ?thesis using True by (simp add: mset_filter)
  next
    case False
    then have "count (mset cs) x = 0" by simp
    then show ?thesis using False by (simp add: mset_filter assms(2))
  qed
qed

definition same_names :: "live_transfer \<Rightarrow> live_transfer \<Rightarrow> bool" where
  "same_names tr tr' \<longleftrightarrow> lt_id tr' = lt_id tr \<and> key_of tr' = key_of tr \<and> lt_token tr' = lt_token tr"

lemma names_change:
  assumes ok: "names_ok ds" and same: "same_names (ds_heap ds ! r) (f (ds_heap ds ! r))"
  shows "names_ok (change r f ds)"
proof -
  have heap: "same_names (ds_heap ds ! r') (ds_heap (change r f ds) ! r')" if "r' < length (ds_heap ds)" for r'
    using that same by (cases "r' = r") (simp_all add: same_names_def)
  show ?thesis
    unfolding names_ok_def change_simps(2-4)
    using names_okD [OF ok] heap by (simp add: same_names_def)
qed

text \<open>One transfer changes and gives up the connections \<open>cs\<close>, which are closed.\<close>

lemma ok_change:
  assumes ok: "downloads_ok ds" and r: "r < length (ds_heap ds)" and fine: "fine_step (ds_heap ds ! r) (f (ds_heap ds ! r), cs)"
  shows "downloads_ok (fold close_conn cs (change r f ds))"
proof -
  let ?ds = "fold close_conn cs (change r f ds)"
  have "mset (owned_conns (change r f ds)) + mset cs = mset (ds_open ds)"
    using owned_change [OF r, of f] fine downloads_okD(3) [OF ok] by (simp add: fine_step_def)
  then have "mset (ds_open ds) = mset (owned_conns (change r f ds)) + mset cs" by simp
  from mset_close [OF downloads_okD(2) [OF ok] this]
  have "mset (owned_conns ?ds) = mset (ds_open ?ds)" by (simp add: owned_conns_def)
  moreover have "names_ok (change r f ds)"
    by (rule names_change) (use downloads_okD(5) [OF ok] fine in \<open>simp_all add: fine_step_def same_names_def\<close>)
  then have "names_ok ?ds" by (simp add: names_ok_def)
  moreover have "tr_ok (ds_heap ?ds ! r')" if "r' < length (ds_heap ?ds)" for r'
    using that fine downloads_okD(1) [OF ok] by (cases "r' = r") (simp_all add: fine_step_def)
  moreover have "distinct (ds_open ?ds)" using downloads_okD(2) [OF ok] by simp
  moreover have "\<forall>(c, r) \<in> set (ds_handlers ?ds). r < length (ds_heap ?ds)"
    using downloads_okD(4) [OF ok] by auto
  ultimately show ?thesis by (simp add: downloads_ok_def)
qed

lemma ok_quiet_change:
  assumes "downloads_ok ds" "r < length (ds_heap ds)" "fine_step (ds_heap ds ! r) (f (ds_heap ds ! r), [])"
  shows "downloads_ok (change r f ds)"
  using ok_change [where cs = "[]" and f = f, OF assms] by simp

lemma map_leD: "m \<subseteq>\<^sub>m m' \<Longrightarrow> m x = Some y \<Longrightarrow> m' x = Some y"
  by (metis map_le_def domI)

lemma tr_ok_token [simp]: "tr_ok (tr\<lparr>lt_token := token\<rparr>) = tr_ok tr"
  by (simp add: tr_ok_def)

lemma names_forget:
  assumes ok: "names_ok ds" and heap: "ds_heap ds' = ds_heap ds" and le: "ds_byID ds' \<subseteq>\<^sub>m ds_byID ds"
    "ds_byKey ds' \<subseteq>\<^sub>m ds_byKey ds" "ds_byToken ds' \<subseteq>\<^sub>m ds_byToken ds"
  shows "names_ok ds'"
  using names_okD [OF ok] map_leD [OF le(1)] map_leD [OF le(2)] map_leD [OF le(3)] unfolding names_ok_def heap by blast

lemma ok_deregister: "downloads_ok ds \<Longrightarrow> downloads_ok (deregister r ds)"
proof -
  assume ok: "downloads_ok ds"
  have "names_ok (deregister r ds)"
    by (rule names_forget [OF downloads_okD(5) [OF ok]]) (auto simp: deregister_def Let_def map_le_def)
  then show ?thesis using ok by (simp add: downloads_ok_def deregister_def Let_def owned_conns_def)
qed

lemma ok_register_token:
  assumes ok: "downloads_ok ds" and r: "r < length (ds_heap ds)"
  shows "downloads_ok (register_token r token ds)"
proof -
  let ?f = "\<lambda>tr. tr\<lparr>lt_token := token\<rparr>" and ?ds = "register_token r token ds"
  have heap: "ds_heap ?ds = ds_heap (change r ?f ds)" by (simp add: register_token_def Let_def)
  have other: "r' < length (ds_heap ds) \<Longrightarrow> r' \<noteq> r \<Longrightarrow> ds_heap ?ds ! r' = ds_heap ds ! r'" for r' by (simp add: heap)
  have this_one: "ds_heap ?ds ! r = ?f (ds_heap ds ! r)" using r by (simp add: heap)
  have "owned_conns ?ds = owned_conns (change r ?f ds)" by (simp add: register_token_def Let_def owned_conns_def)
  then have "mset (owned_conns ?ds) = mset (ds_open ?ds)"
    using owned_change [OF r, of ?f] downloads_okD(3) [OF ok] by (simp add: held_def register_token_def Let_def)
  moreover have "names_ok ?ds"
    unfolding names_ok_def
  proof (intro conjI allI impI)
    note names = names_okD [OF downloads_okD(5) [OF ok]]
    fix i r' assume "ds_byID ?ds i = Some r'"
    then have "ds_byID ds i = Some r'" by (simp add: register_token_def Let_def)
    from names(1) [OF this] show "r' < length (ds_heap ?ds)" "lt_id (ds_heap ?ds ! r') = i"
      using other this_one by (simp add: heap, cases "r' = r", simp_all)
  next
    note names = names_okD [OF downloads_okD(5) [OF ok]]
    fix k r' assume "ds_byKey ?ds k = Some r'"
    then have "ds_byKey ds k = Some r'" by (simp add: register_token_def Let_def)
    from names(2) [OF this] show "r' < length (ds_heap ?ds)" "key_of (ds_heap ?ds ! r') = k"
      using other this_one by (simp add: heap, cases "r' = r", simp_all add: key_of_def)
  next
    note names = names_okD [OF downloads_okD(5) [OF ok]]
    fix t r' assume t: "ds_byToken ?ds t = Some r'"
    have "r' = r \<and> t = token \<or> r' \<noteq> r \<and> ds_byToken ds t = Some r'"
      using t names(3) [of t r] by (auto simp: register_token_def Let_def split: if_splits)
    then show "r' < length (ds_heap ?ds)" "lt_token (ds_heap ?ds ! r') = t"
      using names(3) [of t r'] other [of r'] this_one r by (auto simp: heap)
  qed
  moreover have "tr_ok (ds_heap ?ds ! r')" if "r' < length (ds_heap ?ds)" for r'
    using that downloads_okD(1) [OF ok] other this_one by (cases "r' = r") (simp_all add: heap)
  ultimately show ?thesis
    using ok by (auto simp: downloads_ok_def register_token_def Let_def)
qed

section \<open>Every operation\<close>

lemma forget_fine:
  "tr_ok tr \<Longrightarrow> fine_step tr (tr\<lparr>lt_state := (if lt_state tr \<noteq> TCompleted then TCancelled else lt_state tr), lt_interrupted := True\<rparr>, [])"
  by (auto simp: fine_step_def tr_ok_def held_def key_of_def split: if_splits)

lemma ok_forget: "downloads_ok ds \<Longrightarrow> r < length (ds_heap ds) \<Longrightarrow> downloads_ok (forget r ds)"
  unfolding forget_def
  by (rule ok_deregister, rule ok_quiet_change) (assumption+, rule forget_fine, erule downloads_okD(1))

lemma ok_cancel: "downloads_ok ds \<Longrightarrow> r < length (ds_heap ds) \<Longrightarrow> downloads_ok (change r cancel_transfer ds)"
  by (rule ok_quiet_change)
    (auto simp: fine_step_def tr_ok_def held_def key_of_def cancel_transfer_def dest: downloads_okD(1))

lemma lookupByKey_found: "downloads_ok ds \<Longrightarrow> lookupByKey username filename ds = Some r \<Longrightarrow> r < length (ds_heap ds)"
  using names_okD(2) [OF downloads_okD(5)] by (simp add: lookupByKey_def)

lemma ok_failure: "downloads_ok ds \<Longrightarrow> r < length (ds_heap ds) \<Longrightarrow> downloads_ok (deliverTransferFailure r f ds)"
  unfolding deliverTransferFailure_def
  by (rule ok_quiet_change) (auto simp: fine_step_def tr_ok_def held_def key_of_def dest: downloads_okD(1))

lemma ok_request:
  "downloads_ok ds \<Longrightarrow> r < length (ds_heap ds)
     \<Longrightarrow> downloads_ok (change r (\<lambda>tr. if lt_requestCh tr = None then tr\<lparr>lt_requestCh := Some msg\<rparr> else tr) ds)"
  by (rule ok_quiet_change) (auto simp: fine_step_def tr_ok_def held_def key_of_def dest: downloads_okD(1))

lemma ok_place:
  "downloads_ok ds \<Longrightarrow> r < length (ds_heap ds)
     \<Longrightarrow> downloads_ok (change r (\<lambda>tr. if lt_state tr \<noteq> TInProgress then tr\<lparr>lt_queuePosition := n\<rparr> else tr) ds)"
  by (rule ok_quiet_change) (auto simp: fine_step_def tr_ok_def held_def key_of_def dest: downloads_okD(1))

lemma register_token_length [simp]: "length (ds_heap (register_token r token ds)) = length (ds_heap ds)"
  by (simp add: register_token_def Let_def)

lemma ok_frame: "downloads_ok ds \<Longrightarrow> downloads_ok (fst (on_download_frame u username frame ds))"
  by (cases frame)
    (auto simp: on_download_frame_def Let_def split: option.split intro!: ok_request ok_place ok_failure ok_register_token
      dest: lookupByKey_found)

lemma ok_claim:
  assumes ok: "downloads_ok ds" and c: "c \<notin> set (ds_open ds)"
  shows "downloads_ok (claim_conn c init ds)"
proof -
  have filter: "filter (\<lambda>c'. c' \<noteq> c) (ds_open ds) = ds_open ds" using c by (auto intro: filter_True)
  have closed: "close_conn c (ds\<lparr>ds_open := c # ds_open ds\<rparr>) = ds" by (simp add: close_conn_def filter)
  show ?thesis
  proof (cases "init = None \<or> ds_byToken ds (the init) = None")
    case True
    then show ?thesis
      using ok by (auto simp: claim_conn_def claimByToken_def closed Let_def split: option.split)
  next
    case False
    then obtain token r where r: "init = Some token" "ds_byToken ds token = Some r" by auto
    let ?ds = "claim_conn c init ds"
    have ds: "?ds = ds\<lparr>ds_open := c # ds_open ds, ds_byToken := (ds_byToken ds)(token := None), ds_handlers := (c, r) # ds_handlers ds\<rparr>"
      using r by (simp add: claim_conn_def claimByToken_def)
    have "names_ok ?ds"
      by (rule names_forget [OF downloads_okD(5) [OF ok]]) (auto simp: ds map_le_def)
    then show ?thesis
      using ok c names_okD(3) [OF downloads_okD(5) [OF ok] r(2)] by (simp add: downloads_ok_def owned_conns_def ds)
  qed
qed

lemma attach_fine: "attachFileConn c tr = (tr', True) \<Longrightarrow> tr_ok tr \<Longrightarrow> tr_ok tr' \<and> same_names tr tr' \<and> mset (held tr') = mset (held tr) + {#c#}"
  by (auto simp: attachFileConn_def tr_ok_def same_names_def held_def key_of_def split: if_splits)

lemma ok_attached:
  assumes names: "names_ok ds" and trs: "\<forall>r < length (ds_heap ds). tr_ok (ds_heap ds ! r)" "distinct (ds_open ds)"
    "mset (owned_conns ds) + {#c#} = mset (ds_open ds)" "\<forall>(c, r) \<in> set (ds_handlers ds). r < length (ds_heap ds)"
    and r: "r < length (ds_heap ds)" and tr: "tr_ok tr" "same_names (ds_heap ds ! r) tr" "mset (held tr) = mset (held (ds_heap ds ! r)) + {#c#}"
  shows "downloads_ok (change r (\<lambda>_. tr) ds)"
proof -
  have "mset (owned_conns (change r (\<lambda>_. tr) ds)) = mset (ds_open ds)"
    using owned_change [OF r, of "\<lambda>_. tr"] tr(3) trs(3) by (simp add: ac_simps)
  moreover have "tr_ok (ds_heap (change r (\<lambda>_. tr) ds) ! r')" if "r' < length (ds_heap ds)" for r'
    using that trs(1) tr(1) by (cases "r' = r") simp_all
  ultimately show ?thesis
    using names_change [OF names, of r "\<lambda>_. tr"] tr trs by (simp add: downloads_ok_def)
qed

lemma count_mset_set_once: "distinct xs \<Longrightarrow> x \<in> set xs \<Longrightarrow> count (mset xs) x = 1"
  by (simp add: distinct_count_atmost_1)

lemma ok_hand_over:
  assumes ok: "downloads_ok ds" and c: "(c, r) \<in> set (ds_handlers ds)"
  shows "downloads_ok (hand_over c r deadlineSet ds)"
proof -
  let ?ds = "ds\<lparr>ds_handlers := filter (\<lambda>h. fst h \<noteq> c) (ds_handlers ds)\<rparr>"
  have "distinct (owned_conns ds)"
    using mset_eq_imp_distinct_iff [OF downloads_okD(3) [OF ok]] downloads_okD(2) [OF ok] by simp
  moreover have member: "c \<in> set (map fst (ds_handlers ds))" using c by force
  ultimately have once: "count (mset (owned_conns ds)) c = 1" "c \<notin> set (concat (map held (ds_heap ds)))"
    using count_mset_set_once [of "owned_conns ds" c] unfolding owned_conns_def distinct_append by (simp_all only: set_append Un_iff) blast+
  have "owned_conns ?ds = filter (\<lambda>c'. c' \<noteq> c) (owned_conns ds)"
    using once(2) by (simp add: owned_conns_def filter_map o_def filter_concat[symmetric]) (metis (mono_tags, lifting) filter_True once(2))
  then have "mset (owned_conns ?ds) + {#c#} = mset (owned_conns ds)"
    using once(1) by (auto intro!: multiset_eqI simp: mset_filter)
  then have owned_conns: "mset (owned_conns ?ds) + {#c#} = mset (ds_open ds)" using downloads_okD(3) [OF ok] by simp
  have "mset (filter (\<lambda>c'. c' \<notin> set [c]) (ds_open ds)) = mset (owned_conns ?ds)"
    by (rule mset_close [OF downloads_okD(2) [OF ok]]) (use owned_conns in simp)
  then have "mset (owned_conns (close_conn c ?ds)) = mset (ds_open (close_conn c ?ds))"
    by (simp only: close_conn_def owned_conns_def) simp
  then have closed: "downloads_ok (close_conn c ?ds)"
    using ok unfolding downloads_ok_def by (auto simp: close_conn_def names_ok_def)
  show ?thesis
  proof (cases "deadlineSet \<and> snd (attachFileConn c (ds_heap ds ! r))")
    case True
    then obtain tr where tr: "attachFileConn c (ds_heap ds ! r) = (tr, True)" by (metis prod.collapse)
    have "downloads_ok (change r (\<lambda>_. tr) ?ds)"
      by (rule ok_attached) (use ok owned_conns downloads_okD(4) [OF ok c] downloads_okD(1) [OF ok] attach_fine [OF tr] in
          \<open>auto simp: downloads_ok_def names_ok_def\<close>)
    then show ?thesis using True tr by (simp add: hand_over_def)
  next
    case False
    then show ?thesis using closed by (auto simp: hand_over_def Let_def split: prod.split)
  qed
qed

lemma ok_run:
  "downloads_ok ds \<Longrightarrow> r < length (ds_heap ds) \<Longrightarrow> ready ev (ds_heap ds ! r) \<Longrightarrow> downloads_ok (run_transfer dir r ev ds)"
  using ok_change [of ds r "\<lambda>_. fst (run_step dir ev (ds_heap ds ! r))" "snd (run_step dir ev (ds_heap ds ! r))"]
    fine_run [OF downloads_okD(1), of ds r ev dir]
  by (simp add: run_transfer_def case_prod_unfold Let_def)

definition entered :: "live_transfer \<Rightarrow> downloads \<Rightarrow> downloads" where
  "entered tr ds = ds\<lparr>ds_heap := ds_heap ds @ [tr], ds_byID := (ds_byID ds)(lt_id tr \<mapsto> length (ds_heap ds)),
     ds_byKey := (ds_byKey ds)(key_of tr \<mapsto> length (ds_heap ds))\<rparr>"

lemma ok_entered:
  assumes ok: "downloads_ok ds" and tr: "tr_ok tr" "held tr = []"
  shows "downloads_ok (entered tr ds)"
proof -
  have "tr_ok (ds_heap (entered tr ds) ! r)" if "r < Suc (length (ds_heap ds))" for r
    using that tr(1) downloads_okD(1) [OF ok, of r] by (cases "r = length (ds_heap ds)") (simp_all add: entered_def nth_append)
  moreover have "names_ok (entered tr ds)"
    using downloads_okD(5) [OF ok] by (auto simp: names_ok_def entered_def nth_append less_SucI)
  moreover have "\<forall>(c, r) \<in> set (ds_handlers ds). r < Suc (length (ds_heap ds))"
    using downloads_okD(4) [OF ok] by fastforce
  ultimately show ?thesis
    using downloads_okD(2,3) [OF ok] tr(2) by (simp add: downloads_ok_def owned_conns_def entered_def)
qed

lemma ok_enqueue:
  assumes ok: "downloads_ok ds"
  shows "downloads_ok (fst (enqueue_download digest dir started username filename siz ds))"
proof -
  let ?tr = "newTransfer (downloadID digest username filename) username filename siz"
  let ?ds = "entered ?tr ds" and ?r = "length (ds_heap ds)"
  let ?stopped = "\<lambda>tr. returned (setTransferErrored ''soulseek: client lifecycle is stopping'' True (tr\<lparr>lt_interrupted := True\<rparr>))"
  have new: "tr_ok ?tr" "held ?tr = []" by (simp_all add: newTransfer_def tr_ok_def held_def)
  have entered: "downloads_ok ?ds" by (rule ok_entered [OF ok new])
  have "fine_step ?tr (?stopped ?tr, [])" by (simp add: fine_step_def tr_ok_def held_def key_of_def newTransfer_def run_defs)
  then have "downloads_ok (change ?r ?stopped ?ds)"
    by (intro ok_quiet_change entered) (simp_all add: entered_def)
  then have "downloads_ok (deregister ?r (change ?r ?stopped ?ds))" by (rule ok_deregister)
  then show ?thesis
    using ok entered by (auto simp: enqueue_download_def insertIfAbsent_def entered_def Let_def split: sum.split option.split)
qed

lemma downloads_ok_step: "downloads_ok ds \<Longrightarrow> download_allowed a ds \<Longrightarrow> downloads_ok (fst (download_step u digest dir a ds))"
  by (cases a) (auto intro: ok_enqueue ok_cancel ok_forget ok_frame ok_claim ok_hand_over ok_run)

lemma downloads_ok_new: "downloads_ok newDownloadRegistry"
  by (simp add: downloads_ok_def newDownloadRegistry_def names_ok_def owned_conns_def)

interpretation downloading: safe_automaton "download_step u digest dir" downloads_ok download_allowed for u digest dir
  by unfold_locales (rule downloads_ok_step)

section \<open>What follows\<close>

text \<open>A connection that is open belongs to a goroutine that is still running: nothing is left open.\<close>

lemma returned_holds: "tr_ok tr \<Longrightarrow> lt_point tr = HasReturned \<Longrightarrow> held tr = []"
  by (cases "lt_connCh tr") (auto simp: tr_ok_def held_def)

lemma nothing_left_open:
  assumes ok: "downloads_ok ds" and "ds_handlers ds = []" "\<forall>r < length (ds_heap ds). lt_point (ds_heap ds ! r) = HasReturned"
  shows "ds_open ds = []"
proof -
  have "held tr = []" if "tr \<in> set (ds_heap ds)" for tr
    using that assms(3) returned_holds downloads_okD(1) [OF ok] by (metis in_set_conv_nth)
  then have "owned_conns ds = []" using assms(2) by (simp add: owned_conns_def)
  then show ?thesis using downloads_okD(3) [OF ok] by simp
qed

text \<open>A cancelled transfer never completes.\<close>

lemma cancelled_run: "lt_state tr = TCancelled \<Longrightarrow> lt_state (fst (run_step dir ev tr)) \<in> {TCancelled, TErrored}"
proof -
  assume c: "lt_state tr = TCancelled"
  show ?thesis
  proof (cases "lt_point tr")
    case (Streaming conn n s)
    then show ?thesis using c
      by (cases ev) (auto simp: run_step_def run_streaming_def run_defs split: sum.splits prod.splits dest!: on_progress_same)
  qed (cases ev; use c in \<open>auto simp: run_step_def run_connecting_def run_queueWait_def run_negotiating_def
        run_accepting_def run_awaiting_def run_taken_def run_holding_def run_defs split: queue_result.split option.split\<close>)+
qed

section \<open>A goroutine comes to its end\<close>

text \<open>What the goroutine waits for, and how many turns it still has.\<close>

fun waits_for :: "run_point \<Rightarrow> run_event \<Rightarrow> bool" where
  "waits_for Connecting (EvQueue _) = True"
| "waits_for QueueWait ev = (case ev of EvRequest \<Rightarrow> True | EvFailure \<Rightarrow> True | EvInterrupted _ \<Rightarrow> True | EvTimeout \<Rightarrow> True | _ \<Rightarrow> False)"
| "waits_for (Negotiating _) (EvSession _) = True"
| "waits_for (Accepting _) (EvAccepted _) = True"
| "waits_for (AwaitingConn _) ev = (case ev of EvConn \<Rightarrow> True | EvFailure \<Rightarrow> True | EvInterrupted _ \<Rightarrow> True | EvTimeout \<Rightarrow> True | _ \<Rightarrow> False)"
| "waits_for (TakenConn _ _) EvStopAwaiting = True"
| "waits_for (HoldingConn _ _) (EvBegin _) = True"
| "waits_for (Streaming _ _ _) (EvStreamed _) = True"
| "waits_for _ _ = False"

fun distance :: "run_point \<Rightarrow> nat" where
  "distance Connecting = 8"
| "distance QueueWait = 7"
| "distance (Negotiating _) = 6"
| "distance (Accepting _) = 5"
| "distance (AwaitingConn _) = 4"
| "distance (TakenConn _ _) = 3"
| "distance (HoldingConn _ _) = 2"
| "distance (Streaming _ _ _) = 1"
| "distance HasReturned = 0"

lemma distance_le: "distance p \<le> 8"
  by (cases p) simp_all

lemma step_distance:
  "distance (lt_point (fst (run_step dir ev tr))) + (if waits_for (lt_point tr) ev then 1 else 0) \<le> distance (lt_point tr)"
  by (cases "lt_point tr"; cases ev)
    (auto simp: run_step_def run_connecting_def run_queueWait_def run_negotiating_def run_accepting_def run_awaiting_def
      run_taken_def run_holding_def run_streaming_def run_defs split: queue_result.split option.split sum.split prod.split
      dest!: on_progress_same)

text \<open>The turns that the goroutine of transfer \<open>r\<close> takes while the calls \<open>as\<close> are served.\<close>

definition turn_of :: "nat \<Rightarrow> download_call \<Rightarrow> downloads \<Rightarrow> nat" where
  "turn_of r a ds = (case a of CallRun r' ev \<Rightarrow> if r' = r \<and> waits_for (lt_point (ds_heap ds ! r)) ev then 1 else 0 | _ \<Rightarrow> 0)"

fun turns :: "unicode \<Rightarrow> (string \<Rightarrow> string) \<Rightarrow> string \<Rightarrow> nat \<Rightarrow> download_call list \<Rightarrow> downloads \<Rightarrow> nat" where
  "turns u digest dir r [] ds = 0"
| "turns u digest dir r (a # as) ds = turn_of r a ds + turns u digest dir r as (fst (download_step u digest dir a ds))"

lemma point_change:
  "lt_point (f (ds_heap ds ! r')) = lt_point (ds_heap ds ! r')
     \<Longrightarrow> lt_point (ds_heap (change r' f ds) ! r) = lt_point (ds_heap ds ! r)"
  by (cases "r' < length (ds_heap ds)"; cases "r' = r") (simp_all add: list_update_beyond)

lemma deregister_heap [simp]: "ds_heap (deregister r ds) = ds_heap ds"
  by (simp add: deregister_def Let_def)

lemma claim_heap [simp]: "ds_heap (claim_conn c init ds) = ds_heap ds"
  by (simp add: claim_conn_def claimByToken_def close_conn_def Let_def split: option.split)

lemma point_token: "lt_point (ds_heap (register_token r' token ds) ! r) = lt_point (ds_heap ds ! r)"
  using point_change [of "\<lambda>tr. tr\<lparr>lt_token := token\<rparr>" ds r' r] by (simp add: register_token_def Let_def)

lemma point_enqueue:
  "r < length (ds_heap ds)
     \<Longrightarrow> lt_point (ds_heap (fst (enqueue_download digest dir started username filename siz ds)) ! r) = lt_point (ds_heap ds ! r)"
  by (auto simp: enqueue_download_def insertIfAbsent_def Let_def nth_append split: sum.split option.split)

lemma point_forget: "lt_point (ds_heap (forget r' ds) ! r) = lt_point (ds_heap ds ! r)"
  unfolding forget_def deregister_heap by (rule point_change) simp

lemma point_frame: "lt_point (ds_heap (fst (on_download_frame u username frame ds)) ! r) = lt_point (ds_heap ds ! r)"
proof -
  have request: "lt_point (ds_heap (change r' (\<lambda>tr. if lt_requestCh tr = None then tr\<lparr>lt_requestCh := Some msg\<rparr> else tr) ds') ! r)
      = lt_point (ds_heap ds' ! r)" for r' msg ds' by (rule point_change) simp
  have place: "lt_point (ds_heap (change r' (\<lambda>tr. if lt_state tr \<noteq> TInProgress then tr\<lparr>lt_queuePosition := n\<rparr> else tr) ds') ! r)
      = lt_point (ds_heap ds' ! r)" for r' n ds' by (rule point_change) simp
  have failure: "lt_point (ds_heap (deliverTransferFailure r' f ds') ! r) = lt_point (ds_heap ds' ! r)" for r' f ds'
    unfolding deliverTransferFailure_def by (rule point_change) simp
  show ?thesis
    by (cases frame) (simp_all add: on_download_frame_def Let_def request place failure point_token del: change_simps(1) split: option.split)
qed

lemma point_hand_over: "lt_point (ds_heap (hand_over c r' deadlineSet ds) ! r) = lt_point (ds_heap ds ! r)"
proof -
  have "lt_point (fst (attachFileConn c (ds_heap ds ! r'))) = lt_point (ds_heap ds ! r')"
    by (simp add: attachFileConn_def)
  then show ?thesis
    using point_change [of "\<lambda>_. fst (attachFileConn c (ds_heap ds ! r'))" "ds\<lparr>ds_handlers := filter (\<lambda>h. fst h \<noteq> c) (ds_handlers ds)\<rparr>" r' r]
    by (auto simp: hand_over_def close_conn_def Let_def split: prod.split)
qed

lemma run_heap: "ds_heap (run_transfer dir r ev ds) = (ds_heap ds)[r := fst (run_step dir ev (ds_heap ds ! r))]"
  by (simp add: run_transfer_def case_prod_unfold Let_def)

lemma call_distance:
  assumes "r < length (ds_heap ds)"
  shows "distance (lt_point (ds_heap (fst (download_step u digest dir a ds)) ! r)) + turn_of r a ds \<le> distance (lt_point (ds_heap ds ! r))"
proof (cases a)
  case (CallRun r' ev)
  then show ?thesis
    using assms step_distance [of dir ev "ds_heap ds ! r"] by (cases "r' = r") (auto simp: turn_of_def run_heap)
next
  case (AskCancel r')
  then show ?thesis using point_change [of cancel_transfer ds r' r] by (simp add: turn_of_def cancel_transfer_def)
qed (use assms in \<open>simp_all add: turn_of_def point_enqueue point_forget point_frame point_hand_over\<close>)

lemma call_length: "length (ds_heap ds) \<le> length (ds_heap (fst (download_step u digest dir a ds)))"
  by (cases a)
    (auto simp: enqueue_download_def insertIfAbsent_def forget_def on_download_frame_def deliverTransferFailure_def hand_over_def
      close_conn_def run_heap Let_def split: sum.split option.split prod.split download_frame.split)

lemma turns_bounded:
  "r < length (ds_heap ds)
     \<Longrightarrow> distance (lt_point (ds_heap (downloading.after u digest dir as ds) ! r)) + turns u digest dir r as ds
           \<le> distance (lt_point (ds_heap ds ! r))"
proof (induction as arbitrary: ds)
  case (Cons a as)
  let ?ds = "fst (download_step u digest dir a ds)"
  have "r < length (ds_heap ?ds)" using Cons.prems call_length by (rule less_le_trans)
  from Cons.IH [OF this] call_distance [OF Cons.prems, of u digest dir a] show ?case by simp
qed simp

lemma never_stuck:
  assumes "lt_point tr \<noteq> HasReturned"
  shows "\<exists>ev. ev \<notin> {EvRequest, EvFailure, EvConn} \<and> ready ev tr \<and> waits_for (lt_point tr) ev"
proof -
  have "\<exists>ev. ev \<notin> {EvRequest, EvFailure, EvConn} \<and> waits_for (lt_point tr) ev"
  proof (cases "lt_point tr")
    case Connecting then show ?thesis by (intro exI [of _ "EvQueue Undeliverable"]) simp
  next
    case QueueWait then show ?thesis by (intro exI [of _ EvTimeout]) simp
  next
    case (Negotiating req) then show ?thesis by (intro exI [of _ "EvSession None"]) simp
  next
    case (Accepting req) then show ?thesis by (intro exI [of _ "EvAccepted True"]) simp
  next
    case (AwaitingConn n) then show ?thesis by (intro exI [of _ EvTimeout]) simp
  next
    case (TakenConn c n) then show ?thesis by (intro exI [of _ EvStopAwaiting]) simp
  next
    case (HoldingConn c n) then show ?thesis by (intro exI [of _ "EvBegin 0"]) simp
  next
    case (Streaming c n s) then show ?thesis by (intro exI [of _ "EvStreamed (Inr 0)"]) simp
  qed (use assms in simp)
  then show ?thesis using assms by (auto simp: ready_def)
qed

section \<open>Interleavings the code does not rule out\<close>

text \<open>The state after calls that all were allowed.\<close>

fun replay :: "unicode \<Rightarrow> (string \<Rightarrow> string) \<Rightarrow> string \<Rightarrow> download_call list \<Rightarrow> downloads \<Rightarrow> downloads option" where
  "replay u digest dir [] ds = Some ds"
| "replay u digest dir (a # as) ds =
     (if download_allowed a ds then replay u digest dir as (fst (download_step u digest dir a ds)) else None)"

abbreviation the_request :: "string \<Rightarrow> u32 \<Rightarrow> TransferRequest" where
  "the_request filename token \<equiv> \<lparr>tr_Direction = UploadToPeer, tr_Token = token, tr_Filename = filename, tr_FileSize = 5\<rparr>"

abbreviation enqueue_it :: "string \<Rightarrow> download_call" where
  "enqueue_it username \<equiv> AskEnqueue True username ''f'' 5"

text \<open>From \<open>Connecting\<close> until the goroutine waits for the file connection.\<close>

abbreviation until_awaiting :: "nat \<Rightarrow> string \<Rightarrow> u32 \<Rightarrow> download_call list" where
  "until_awaiting r username token \<equiv>
     [CallRun r (EvQueue Queued_at_peer), CallFrame username (FrameTransferRequest (the_request ''f'' token)),
      CallRun r EvRequest, CallRun r (EvSession None), CallRun r (EvAccepted True)]"

text \<open>Two calls of \<open>Remove\<close> that looked up the same transfer forget the one enqueued between them as well.\<close>

lemma removed_twice:
  "case replay u id ''/d'' [enqueue_it ''a'', CallForget 0, enqueue_it ''a'', CallForget 0] newDownloadRegistry of None \<Rightarrow> False | Some ds \<Rightarrow>
      lookupByID (lt_id (ds_heap ds ! 1)) ds = None \<and> lt_point (ds_heap ds ! 1) = Connecting
     \<and> lt_interrupted (ds_heap ds ! 1) = False"
  by code_simp

text \<open>While \<open>Remove\<close> waits for the goroutine, the same file can be enqueued again: two goroutines stream to one path.\<close>

lemma enqueued_while_removing:
  "case replay u id ''/d'' ([enqueue_it ''a''] @ until_awaiting 0 ''a'' 7
       @ [CallInbound 3 (Some 7), CallHandOver 3 0 True, CallRun 0 EvConn, CallRun 0 EvStopAwaiting, CallRun 0 (EvBegin 0),
          CallForget 0, enqueue_it ''a''] @ until_awaiting 1 ''a'' 8
       @ [CallInbound 4 (Some 8), CallHandOver 4 1 True, CallRun 1 EvConn, CallRun 1 EvStopAwaiting, CallRun 1 (EvBegin 0)])
       newDownloadRegistry of None \<Rightarrow> False | Some ds \<Rightarrow>
      streaming_point (lt_point (ds_heap ds ! 0)) \<and> streaming_point (lt_point (ds_heap ds ! 1))
     \<and> part_to_remove ''/d'' (ds_heap ds ! 0) = part_to_remove ''/d'' (ds_heap ds ! 1)"
  by code_simp

text \<open>A token names one transfer for all peers: the second peer that uses it gets the first one's connection.\<close>

lemma token_of_another_peer:
  "case replay u id ''/d'' ([enqueue_it ''a'', enqueue_it ''b''] @ until_awaiting 0 ''a'' 7 @ until_awaiting 1 ''b'' 7
       @ [CallInbound 3 (Some 7)]) newDownloadRegistry of None \<Rightarrow> False | Some ds \<Rightarrow>
      ds_handlers ds = [(3, 1)] \<and> lt_username (ds_heap ds ! 1) = ''b'' \<and> ds_byToken ds 7 = None
     \<and> lt_point (ds_heap ds ! 0) = AwaitingConn 5"
  by code_simp

text \<open>A cancelled transfer whose queue times out at the same moment ends as errored.\<close>

lemma cancel_overwritten:
  "case replay u id ''/d'' [enqueue_it ''a'', CallRun 0 (EvQueue Queued_at_peer), AskCancel 0, CallRun 0 EvTimeout]
       newDownloadRegistry of None \<Rightarrow> False | Some ds \<Rightarrow>
      lt_state (ds_heap ds ! 0) = TErrored \<and> lt_retryable (ds_heap ds ! 0)"
  by code_simp

end
