(* ===== verification/FileStream.thy ===== *)
theory FileStream
  imports ShareScan UploadQueue
begin

text \<open>
  One file on its way: what a download writes to its \<open>.part\<close> file (\<open>streamFile\<close> in
  \<open>internal/soulseek/fileconn.go\<close>) and what an upload puts on the wire (\<open>internal/soulseek/uploadconn.go\<close>).
  What the disk and the connection do is an argument of each attempt.
\<close>

section \<open>The download side\<close>

record disk =
  dk_part :: "u8 list option" \<comment> \<open>the \<open>.part\<close> file\<close>
  dk_dest :: "u8 list option" \<comment> \<open>the file under its own name\<close>

record faults =
  fa_stat :: bool
  fa_discard :: bool
  fa_mkdir :: bool
  fa_offset :: bool \<comment> \<open>the offset cannot be sent\<close>
  fa_open :: bool
  fa_room :: "nat option" \<comment> \<open>how many bytes can be written\<close>
  fa_sync :: bool
  fa_close :: bool
  fa_rename :: bool

definition no_faults :: faults where
  "no_faults = \<lparr>fa_stat = False, fa_discard = False, fa_mkdir = False, fa_offset = False, fa_open = False,
     fa_room = None, fa_sync = False, fa_close = False, fa_rename = False\<rparr>"

datatype stream_error =
    NegativeSize | StatFailed | DiscardFailed | MkdirFailed | OffsetNotSent | OpenFailed
  | Interrupted \<comment> \<open>the connection ended or fell silent\<close>
  | WriteFailed | SyncFailed | CloseFailed | RenameFailed

text \<open>\<open>diskError\<close>\<close>

definition disk_error :: "stream_error \<Rightarrow> bool" where
  "disk_error e \<longleftrightarrow> e \<in> {StatFailed, DiscardFailed, MkdirFailed, OpenFailed, WriteFailed, SyncFailed, CloseFailed, RenameFailed}"

text \<open>
  \<open>io.CopyN\<close> of \<open>n\<close> bytes from a connection that delivers \<open>chunks\<close> and then ends: what was written, the
  counts reported after each read, and how it ended.
\<close>

datatype copy_end = Copied | ReadEnded | WriteEnded

fun copy_chunks :: "nat \<Rightarrow> nat option \<Rightarrow> nat \<Rightarrow> u8 list list \<Rightarrow> u8 list \<times> nat list \<times> copy_end" where
  "copy_chunks n space readn [] = ([], [], if n = 0 then Copied else ReadEnded)"
| "copy_chunks n space readn (c # cs) =
     (if n = 0 then ([], [], Copied)
      else
        (let c' = take n c; read' = readn + length c'; reports = (if c' = [] then [] else [read'])
         in if space \<noteq> None \<and> the space < length c' then (take (the space) c', reports, WriteEnded)
            else
              (let (stored, later, fate) = copy_chunks (n - length c') (map_option (\<lambda>k. k - length c') space) read' cs
               in (c' @ stored, reports @ later, fate))))"

record attempt =
  at_disk :: disk
  at_written :: int \<comment> \<open>what the function returns\<close>
  at_error :: "stream_error option"
  at_offset :: "nat option" \<comment> \<open>the offset sent to the peer\<close>
  at_reports :: "int list"

definition failed_attempt :: "disk \<Rightarrow> stream_error \<Rightarrow> attempt" where
  "failed_attempt dk e = \<lparr>at_disk = dk, at_written = 0, at_error = Some e, at_offset = None, at_reports = []\<rparr>"

definition partialFileSize :: "faults \<Rightarrow> disk \<Rightarrow> (nat \<times> bool) option" where
  "partialFileSize fa dk =
     (if fa_stat fa then None else case dk_part dk of None \<Rightarrow> Some (0, False) | Some p \<Rightarrow> Some (length p, True))"

text \<open>After the copy: what it stored is in the \<open>.part\<close> file.\<close>

definition settle :: "faults \<Rightarrow> nat \<Rightarrow> disk \<Rightarrow> u8 list \<times> nat list \<times> copy_end \<Rightarrow> attempt" where
  "settle fa resumeOffset dk copied =
     (let (stored, reports, fate) = copied;
          old = (case dk_part dk of None \<Rightarrow> [] | Some p \<Rightarrow> p);
          part = old @ stored;
          at0 = \<lparr>at_disk = dk\<lparr>dk_part := Some part\<rparr>, at_written = int (resumeOffset + length stored), at_error = None,
            at_offset = Some resumeOffset, at_reports = map int reports\<rparr>
      in if fate = WriteEnded then at0\<lparr>at_error := Some WriteFailed\<rparr>
         else if fate = ReadEnded then at0\<lparr>at_error := Some Interrupted\<rparr>
         else if fa_sync fa then at0\<lparr>at_error := Some SyncFailed\<rparr>
         else if fa_close fa then at0\<lparr>at_error := Some CloseFailed\<rparr>
         else if fa_rename fa then at0\<lparr>at_error := Some RenameFailed\<rparr>
         else at0\<lparr>at_disk := dk\<lparr>dk_part := None, dk_dest := Some part\<rparr>\<rparr>)"

text \<open>\<open>serve o\<close>: the chunks the peer delivers after it was sent the offset \<open>o\<close>\<close>

definition streamFile :: "faults \<Rightarrow> int \<Rightarrow> (nat \<Rightarrow> u8 list list) \<Rightarrow> disk \<Rightarrow> attempt" where
  "streamFile fa size' serve dk =
     (if size' < 0 then failed_attempt dk NegativeSize
      else (case partialFileSize fa dk of
              None \<Rightarrow> failed_attempt dk StatFailed
            | Some (resumeOffset, partExists) \<Rightarrow>
                if int resumeOffset > size' \<and> fa_discard fa then failed_attempt dk DiscardFailed
                else
                  (let stale = (int resumeOffset > size');
                       dk = (if stale then dk\<lparr>dk_part := None\<rparr> else dk);
                       resumeOffset = (if stale then 0 else resumeOffset);
                       partExists = (partExists \<and> \<not> stale)
                   in if fa_mkdir fa then failed_attempt dk MkdirFailed
                      else if partExists \<and> int resumeOffset = size' then
                        (if fa_rename fa then failed_attempt dk RenameFailed
                         else \<lparr>at_disk = \<lparr>dk_part = None, dk_dest = dk_part dk\<rparr>, at_written = size', at_error = None,
                           at_offset = None, at_reports = []\<rparr>)
                      else if fa_offset fa then failed_attempt dk OffsetNotSent
                      else if fa_open fa then (failed_attempt dk OpenFailed)\<lparr>at_offset := Some resumeOffset\<rparr>
                      else settle fa resumeOffset dk
                        (copy_chunks (nat size' - resumeOffset) (fa_room fa) resumeOffset (serve resumeOffset)))))"

section \<open>The upload side\<close>

record upload_counters =
  uc_sent :: u64
  uc_startOffset :: u64
  uc_totalWritten :: u64

datatype upload_cut = TooSlow | NetworkDown

datatype upload_error =
    NotConnected | InitNotSent | OffsetNotRead | InvalidOffset | SeekFailed | BodyCut upload_cut | NotClosed | UnexpectedData

text \<open>How the peer ends the connection after the last byte.\<close>

datatype upload_close = PeerClosed | CloseTimeout | MoreData

record upload_peer =
  pe_init :: bool \<comment> \<open>the token was sent\<close>
  pe_offset :: "u64 option" \<comment> \<open>the offset read from the peer\<close>
  pe_seek :: bool
  pe_taken :: "(nat \<times> upload_cut) option" \<comment> \<open>after how many bytes the copy is cut\<close>
  pe_close :: upload_close

text \<open>\<open>streamUploadBody\<close>: what is written and counted.\<close>

definition streamUploadBody ::
  "(nat \<times> upload_cut) option \<Rightarrow> u8 list \<Rightarrow> nat \<Rightarrow> upload_counters \<Rightarrow> upload_counters \<times> u8 list \<times> upload_error option" where
  "streamUploadBody taken rest n uc =
     (let wanted = take n rest;
          (body, err) = (case taken of
             None \<Rightarrow> (wanted, if length wanted < n then Some (BodyCut NetworkDown) else None)
           | Some (k, why) \<Rightarrow> if k < n then (take k wanted, Some (BodyCut why))
               else (wanted, if length wanted < n then Some (BodyCut NetworkDown) else None));
          count = word_of_nat (length body)
      in (uc\<lparr>uc_sent := uc_sent uc + count, uc_totalWritten := uc_totalWritten uc + count\<rparr>, body, err))"

text \<open>\<open>shared\<close>: the content of the file\<close>

definition streamUploadConn ::
  "upload_peer \<Rightarrow> u8 list \<Rightarrow> u64 \<Rightarrow> upload_counters \<Rightarrow> upload_counters \<times> u8 list \<times> upload_error option" where
  "streamUploadConn pe shared size' uc =
     (if \<not> pe_init pe then (uc, [], Some InitNotSent)
      else (case pe_offset pe of
              None \<Rightarrow> (uc, [], Some OffsetNotRead)
            | Some offset \<Rightarrow>
                if offset > size' then (uc, [], Some InvalidOffset)
                else
                  (let uc = uc\<lparr>uc_sent := offset, uc_startOffset := offset\<rparr>
                   in if offset < size' \<and> \<not> pe_seek pe then (uc, [], Some SeekFailed)
                      else
                        (let (uc, body, err) =
                           (if offset < size' then streamUploadBody (pe_taken pe) (drop (unat offset) shared) (unat (size' - offset)) uc
                            else (uc, [], None))
                         in if err \<noteq> None then (uc, body, err)
                            else (uc, body, case pe_close pe of
                                PeerClosed \<Rightarrow> None | CloseTimeout \<Rightarrow> Some NotClosed | MoreData \<Rightarrow> Some UnexpectedData)))))"

definition uploadBytesSent :: "u64 \<Rightarrow> u64 \<Rightarrow> u64" where
  "uploadBytesSent sent' startOffset = (if sent' < startOffset then 0 else sent' - startOffset)"

text \<open>A duration in nanoseconds; the code divides floating-point numbers and truncates.\<close>

definition uploadAvgBytesPerSecond :: "u64 \<Rightarrow> int \<Rightarrow> u64" where
  "uploadAvgBytesPerSecond bytesSent d =
     (if d \<le> 0 \<or> bytesSent = 0 then 0 else word_of_int (uint bytesSent * 1000000000 div d))"

text \<open>
  \<open>uploadThroughputSampler\<close>, on what the counter shows at each tick until the copy is done: the tick at
  which the connection is closed, if any.
\<close>

definition uploadThroughputStrikeLimit :: nat where
  "uploadThroughputStrikeLimit = 2"

fun sampler :: "u64 \<Rightarrow> bool \<Rightarrow> u64 \<Rightarrow> nat \<Rightarrow> u64 list \<Rightarrow> nat option" where
  "sampler threshold first' last' strikes [] = None"
| "sampler threshold first' last' strikes (cur # ticks) =
     (let strikes = (if \<not> first' \<and> cur - last' < threshold then strikes + 1 else 0)
      in if strikes \<ge> uploadThroughputStrikeLimit then Some 0
         else map_option Suc (sampler threshold False cur strikes ticks))"

section \<open>One upload\<close>

record opened =
  op_resolved :: "fs_failure + string"
  op_before :: "file_info option"
  op_opened :: "file_info option" \<comment> \<open>\<open>os.Open\<close> and \<open>Stat\<close> of what it opened\<close>
  op_resolvedAfter :: "fs_failure + string"
  op_after :: "file_info option"

definition openIndexedFile :: "indexedFile \<Rightarrow> opened \<Rightarrow> bool" where
  "openIndexedFile indexed op =
     (case op_resolved op of
        Inl _ \<Rightarrow> False
      | Inr r \<Rightarrow>
          if \<not> pathWithinRoot (ix_root indexed) (Clean r) then False
          else (case op_before op of
                  None \<Rightarrow> False
                | Some before \<Rightarrow>
                    if \<not> fi_regular before \<or> fi_size before \<noteq> sint (file_Size (ix_wire indexed))
                       \<or> UnixMicro (fi_modTime before) \<noteq> UnixMicro (ix_modTime indexed) then False
                    else if ix_info indexed \<noteq> None \<and> ix_info indexed \<noteq> Some (fi_ident before) then False
                    else (case op_opened op of
                            None \<Rightarrow> False
                          | Some info \<Rightarrow>
                              if \<not> fi_regular info \<or> fi_ident before \<noteq> fi_ident info \<or> fi_size info \<noteq> fi_size before then False
                              else (case op_resolvedAfter op of
                                      Inl _ \<Rightarrow> False
                                    | Inr r \<Rightarrow>
                                        if \<not> pathWithinRoot (ix_root indexed) (Clean r) then False
                                        else same_file info (op_after op)))))"

datatype upload_outcome = OutcomeCompleted | OutcomeAborted | OutcomeRejected

record UploadRecord =
  ul_Username :: string
  ul_Filename :: string
  ul_Size :: u64
  ul_BytesSent :: u64
  ul_AvgBytesPerSecond :: u64
  ul_Status :: upload_outcome
  ul_Detail :: string

datatype negotiation = PeerAnswered TransferResponse | NegotiationTimeout | ClientStopping

record upload_answers =
  ua_opened :: opened
  ua_content :: "u8 list" \<comment> \<open>of the opened file\<close>
  ua_session :: bool
  ua_denySession :: bool
  ua_token :: u32
  ua_requestSent :: bool
  ua_negotiation :: negotiation
  ua_conn :: bool \<comment> \<open>the file connection could be opened\<close>
  ua_peer :: upload_peer
  ua_duration :: int

datatype upload_message = MsgDenied UploadDenied | MsgRequest TransferRequest | MsgFailed UploadFailed

definition denyQueuedUpload :: "upload_answers \<Rightarrow> string \<Rightarrow> reason \<Rightarrow> upload_message list" where
  "denyQueuedUpload ua filename reason =
     (if ua_denySession ua then [MsgDenied \<lparr>ud_Filename = filename, ud_Reason = Some reason\<rparr>] else [])"

definition rejected_record :: "uploadKey \<Rightarrow> u64 \<Rightarrow> string \<Rightarrow> UploadRecord" where
  "rejected_record key size' detail = \<lparr>ul_Username = fst key, ul_Filename = snd key, ul_Size = size', ul_BytesSent = 0,
     ul_AvgBytesPerSecond = 0, ul_Status = OutcomeRejected, ul_Detail = detail\<rparr>"

text \<open>\<open>runUpload\<close>: the messages to the peer, the bytes on the wire, and the record of the upload.\<close>

definition runUpload :: "(string \<rightharpoonup> indexedFile) \<Rightarrow> uploadKey \<Rightarrow> u64 \<Rightarrow> upload_answers \<Rightarrow> upload_message list \<times> u8 list \<times> UploadRecord" where
  "runUpload files key jobSize ua =
     (case files (snd key) of
        None \<Rightarrow> (denyQueuedUpload ua (snd key) ErrFileNotShared, [], rejected_record key jobSize ''file unavailable'')
      | Some indexed \<Rightarrow>
          (let size' = file_Size (ix_wire indexed); rejected = rejected_record key size'
           in if \<not> openIndexedFile indexed (ua_opened ua)
              then (denyQueuedUpload ua (snd key) ErrFileReadError, [], rejected ''file unavailable'')
              else if \<not> ua_session ua then ([], [], rejected ''peer session unavailable'')
              else if \<not> ua_requestSent ua then ([], [], rejected ''transfer request not sent'')
              else
                (let request = MsgRequest \<lparr>tr_Direction = UploadToPeer, tr_Token = ua_token ua, tr_Filename = snd key, tr_FileSize = size'\<rparr>
                 in case ua_negotiation ua of
                      NegotiationTimeout \<Rightarrow> ([request], [], rejected ''negotiation timeout'')
                    | ClientStopping \<Rightarrow> ([request], [], rejected ''client stopping'')
                    | PeerAnswered response \<Rightarrow>
                        if \<not> ts_Allowed response then ([request], [], rejected ''peer declined'')
                        else
                          (let uc0 = \<lparr>uc_sent = 0, uc_startOffset = 0, uc_totalWritten = 0\<rparr>;
                               (uc, body, err) =
                                 (if ua_conn ua then streamUploadConn (ua_peer ua) (ua_content ua) size' uc0
                                  else (uc0, [], Some NotConnected));
                               bytes = uploadBytesSent (uc_sent uc) (uc_startOffset uc)
                           in (request # (if err = None then [] else [MsgFailed \<lparr>uf_Filename = snd key\<rparr>]), body,
                               \<lparr>ul_Username = fst key, ul_Filename = snd key, ul_Size = size', ul_BytesSent = bytes,
                                ul_AvgBytesPerSecond = uploadAvgBytesPerSecond bytes (ua_duration ua),
                                ul_Status = (if err = None then OutcomeCompleted else OutcomeAborted),
                                ul_Detail = (if err = None then [] else if err = Some (BodyCut TooSlow)
                                  then ''below minimum throughput'' else ''transfer failed'')\<rparr>)))))"

end
