(* ===== verification/FileStreamFacts.thy ===== *)
theory FileStreamFacts
  imports FileStream Automaton "HOL-Library.Sublist"
begin

text \<open>
  A download that is interrupted and resumed, any number of times and with any faults of the disk and of the
  connection between, ends with exactly the content the peer serves or leaves a beginning of it in the
  \<open>.part\<close> file; and an upload serves exactly that content from whatever offset it is asked for, and
  records what it sent.
\<close>

section \<open>Copying\<close>

lemma copy_prefix:
  "copy_chunks n space k cs = (stored, reports, fate)
     \<Longrightarrow> (\<exists>rest. take n (concat cs) = stored @ rest) \<and> (fate = Copied \<longrightarrow> stored = take n (concat cs) \<and> length stored = n)"
proof (induction n space k cs arbitrary: stored reports fate rule: copy_chunks.induct)
  case (1 n space k)
  then show ?case by (auto split: if_splits)
next
  case (2 n space k c cs)
  let ?c = "take n c"
  show ?case
  proof (cases "n = 0")
    case True
    then show ?thesis using "2.prems" by simp
  next
    case False
    have split: "take n (concat (c # cs)) = ?c @ take (n - length c) (concat cs)" by simp
    show ?thesis
    proof (cases "space \<noteq> None \<and> the space < length ?c")
      case True
      then have "stored = take (the space) ?c" "fate = WriteEnded" using "2.prems" False by (simp_all add: Let_def)
      moreover have "?c = take (the space) ?c @ drop (the space) ?c" by (rule append_take_drop_id [symmetric])
      ultimately show ?thesis using split by (metis append_assoc copy_end.distinct(3))
    next
      case no: False
      obtain s r where rec: "copy_chunks (n - length ?c) (map_option (\<lambda>k. k - length ?c) space) (k + length ?c) cs = (s, r, fate)"
        and stored: "stored = ?c @ s"
        using "2.prems" False no by (auto simp: Let_def split: prod.splits)
      have len: "n - length ?c = n - length c" by simp
      have ih: "(\<exists>rest. take (n - length c) (concat cs) = s @ rest)
          \<and> (fate = Copied \<longrightarrow> s = take (n - length c) (concat cs) \<and> length s = n - length c)"
        using "2.IH" [OF False refl refl refl no rec] unfolding len .
      then show ?thesis using split stored by (auto simp: min_def)
    qed
  qed
qed

lemma copy_enough:
  "n \<le> length (concat cs) \<Longrightarrow> snd (snd (copy_chunks n None k cs)) = Copied"
proof (induction cs arbitrary: n k)
  case (Cons c cs)
  have "n - length (take n c) \<le> length (concat cs)" using Cons.prems by auto
  from Cons.IH [OF this, of "k + length (take n c)"] show ?case by (auto simp: Let_def split: prod.split)
qed simp

text \<open>The reports grow and stay below the size.\<close>

lemma copy_reports:
  "copy_chunks n space k cs = (stored, reports, fate) \<Longrightarrow> sorted_wrt (<) (k # reports) \<and> (\<forall>r \<in> set reports. r \<le> k + n)"
proof (induction n space k cs arbitrary: stored reports fate rule: copy_chunks.induct)
  case (2 n space k c cs)
  show ?case
  proof (cases "n = 0 \<or> space \<noteq> None \<and> the space < length (take n c)")
    case True
    then show ?thesis using "2.prems" by (auto simp: Let_def split: if_splits)
  next
    case False
    then have n: "n \<noteq> 0" and no: "\<not> (space \<noteq> None \<and> the space < length (take n c))" by auto
    obtain s r where rec: "copy_chunks (n - length (take n c)) (map_option (\<lambda>k. k - length (take n c)) space) (k + length (take n c)) cs = (s, r, fate)"
      and reports: "reports = (if take n c = [] then [] else [k + length (take n c)]) @ r"
      using "2.prems" False by (auto simp: Let_def split: prod.splits)
    have ih: "sorted_wrt (<) ((k + length (take n c)) # r) \<and> (\<forall>x \<in> set r. x \<le> k + length (take n c) + (n - length (take n c)))"
      by (rule "2.IH" [OF n refl refl refl no rec])
    have below: "x \<le> k + n" if "x \<in> set r" for x using ih that by fastforce
    show ?thesis
    proof (cases "take n c = []")
      case True
      then show ?thesis using ih below reports by (metis add.right_neutral append_Nil list.size(3))
    next
      case False
      then have "0 < length (take n c)" by blast
      then show ?thesis using ih below reports False by auto
    qed
  qed
qed simp

section \<open>Resuming\<close>

text \<open>What the peer delivers from an offset on is a beginning of what follows there.\<close>

definition honest :: "u8 list \<Rightarrow> (nat \<Rightarrow> u8 list list) \<Rightarrow> bool" where
  "honest whole serve \<longleftrightarrow> (\<forall>k \<le> length whole. prefix (take (length whole - k) (concat (serve k))) (drop k whole))"

definition partial_of :: "u8 list \<Rightarrow> disk \<Rightarrow> bool" where
  "partial_of whole dk \<longleftrightarrow> (\<forall>p. dk_part dk = Some p \<longrightarrow> prefix p whole)"

lemma settle_partial:
  assumes part: "partial_of whole dk" and k: "k = (case dk_part dk of None \<Rightarrow> 0 | Some p \<Rightarrow> length p)" and h: "honest whole serve"
    and a: "a = settle fa k dk (copy_chunks (length whole - k) space k (serve k))"
  shows "partial_of whole (at_disk a) \<and> (at_error a \<noteq> None \<longrightarrow> dk_dest (at_disk a) = dk_dest dk)
    \<and> (at_error a = None \<longrightarrow> at_disk a = \<lparr>dk_part = None, dk_dest = Some whole\<rparr> \<and> at_written a = int (length whole))
    \<and> (fa = no_faults \<and> space = None \<and> length whole - k \<le> length (concat (serve k)) \<longrightarrow> at_error a = None)"
proof -
  let ?old = "case dk_part dk of None \<Rightarrow> [] | Some p \<Rightarrow> p"
  obtain stored reports fate where c: "copy_chunks (length whole - k) space k (serve k) = (stored, reports, fate)" by (rule prod_cases3)
  obtain rest where rest: "take (length whole - k) (concat (serve k)) = stored @ rest"
    and full: "fate = Copied \<longrightarrow> stored = take (length whole - k) (concat (serve k)) \<and> length stored = length whole - k"
    using copy_prefix [OF c] by blast
  have old: "prefix ?old whole" "length ?old = k" using part k by (auto simp: partial_of_def split: option.split)
  then have whole: "whole = ?old @ drop k whole" "k \<le> length whole"
    by (metis append_eq_conv_conj prefix_def, metis prefix_length_le)
  have "prefix (stored @ rest) (drop k whole)" using h whole(2) rest by (metis honest_def)
  then have stored: "prefix stored (drop k whole)" by (rule append_prefixD)
  then have p: "prefix (?old @ stored) whole" using whole(1) by (metis same_prefix_prefix)
  have done_part: "?old @ stored = whole" if "fate = Copied"
  proof -
    have "length stored = length (drop k whole)" using full that by (metis length_drop)
    then have "stored = drop k whole" using stored by (metis append_eq_conv_conj prefix_def take_all_iff order_refl)
    then show ?thesis using whole(1) by simp
  qed
  have enough: "fate = Copied" if "space = None" "length whole - k \<le> length (concat (serve k))"
    using copy_enough [OF that(2), of k] c that(1) by simp
  show ?thesis
    using p done_part enough full old(2) whole(2) unfolding a c settle_def
    by (cases fate) (auto simp: partial_of_def Let_def no_faults_def)
qed

lemma attempt_keeps:
  assumes part: "partial_of whole dk" and h: "honest whole serve" and a: "a = streamFile fa (int (length whole)) serve dk"
  shows "partial_of whole (at_disk a) \<and> (at_error a \<noteq> None \<longrightarrow> dk_dest (at_disk a) = dk_dest dk)
    \<and> (at_error a = None \<longrightarrow> at_disk a = \<lparr>dk_part = None, dk_dest = Some whole\<rparr> \<and> at_written a = int (length whole))
    \<and> (fa = no_faults \<and> (\<forall>k \<le> length whole. length whole - k \<le> length (concat (serve k))) \<longrightarrow> at_error a = None)"
proof -
  let ?k = "case dk_part dk of None \<Rightarrow> 0 | Some p \<Rightarrow> length p"
  have k: "?k \<le> length whole" using part by (auto simp: partial_of_def prefix_length_le split: option.split)
  have fits: "\<not> int ?k > int (length whole)" using k by simp
  show ?thesis
  proof (cases "fa_stat fa \<or> fa_mkdir fa \<or> (dk_part dk \<noteq> None \<and> ?k = length whole) \<or> fa_offset fa \<or> fa_open fa")
    case True
    have same: "p = whole" if "dk_part dk = Some p" "length p = length whole" for p
      using part that by (metis append_Nil2 append_eq_append_conv partial_of_def prefix_def)
    show ?thesis
    proof (cases "dk_part dk")
      case None
      then show ?thesis
        using True part unfolding a by (auto simp: streamFile_def partialFileSize_def failed_attempt_def partial_of_def no_faults_def Let_def)
    next
      case (Some p)
      then have p: "length p \<le> length whole" "prefix p whole" using k part by (simp_all add: partial_of_def)
      show ?thesis
      proof (cases "length p = length whole")
        case True
        then have "p = whole" using same Some by blast
        then show ?thesis using Some unfolding a
          by (simp add: streamFile_def partialFileSize_def failed_attempt_def partial_of_def no_faults_def Let_def)
      next
        case False
        then show ?thesis using True Some p unfolding a
          by (auto simp: streamFile_def partialFileSize_def failed_attempt_def partial_of_def no_faults_def Let_def)
      qed
    qed
  next
    case False
    then have "a = settle fa ?k dk (copy_chunks (length whole - ?k) (fa_room fa) ?k (serve ?k))"
      using fits unfolding a by (cases "dk_part dk") (auto simp: streamFile_def partialFileSize_def Let_def)
    from settle_partial [OF part refl h this] show ?thesis using k by (auto simp: no_faults_def)
  qed
qed

section \<open>Uploading\<close>

lemma prefix_take_take: "k \<le> n \<Longrightarrow> prefix (take k xs) (take n xs)"
  by (metis min.absorb1 take_is_prefix take_take)

lemma body_counts:
  assumes "streamUploadBody taken rest n uc = (uc', body, err)"
  shows "prefix body (take n rest)" "uc_sent uc' = uc_sent uc + word_of_nat (length body)" "uc_startOffset uc' = uc_startOffset uc"
    "err = None \<Longrightarrow> body = take n rest \<and> length body = n"
  using assms by (auto simp: streamUploadBody_def Let_def take_is_prefix prefix_take_take split: option.splits if_splits prod.splits)

text \<open>
  Whatever the peer does, the bytes on the wire are a beginning of the file from the offset on, and the two
  counters differ by their number.
\<close>

lemma upload_serves:
  assumes len: "length shared = unat size'" and uc: "uc = \<lparr>uc_sent = 0, uc_startOffset = 0, uc_totalWritten = w\<rparr>"
    and run: "streamUploadConn pe shared size' uc = (uc', body, err)"
  shows "uploadBytesSent (uc_sent uc') (uc_startOffset uc') = word_of_nat (length body)"
    "\<And>offset. pe_offset pe = Some offset \<Longrightarrow> prefix body (drop (unat offset) shared)"
    "err = None \<Longrightarrow> \<exists>offset. pe_offset pe = Some offset \<and> offset \<le> size' \<and> body = drop (unat offset) shared"
proof -
  have none: "uploadBytesSent x x = 0" for x by (simp add: uploadBytesSent_def)
  have "uploadBytesSent (uc_sent uc') (uc_startOffset uc') = word_of_nat (length body)
    \<and> (\<forall>offset. pe_offset pe = Some offset \<longrightarrow> prefix body (drop (unat offset) shared))
    \<and> (err = None \<longrightarrow> (\<exists>offset. pe_offset pe = Some offset \<and> offset \<le> size' \<and> body = drop (unat offset) shared))"
  proof (cases "pe_init pe \<and> (\<exists>offset. pe_offset pe = Some offset \<and> offset < size' \<and> pe_seek pe)")
    case True
    then obtain offset where o: "pe_init pe" "pe_offset pe = Some offset" "offset < size'" "pe_seek pe" by blast
    let ?uc = "uc\<lparr>uc_sent := offset, uc_startOffset := offset\<rparr>"
    obtain uc1 body1 err1 where b: "streamUploadBody (pe_taken pe) (drop (unat offset) shared) (unat (size' - offset)) ?uc = (uc1, body1, err1)"
      by (rule prod_cases3)
    note counts = body_counts [OF b]
    have out: "uc' = uc1" "body = body1" "err = None \<longrightarrow> err1 = None"
      using run o b by (auto simp: streamUploadConn_def Let_def not_less [symmetric] split: if_splits upload_close.splits)
    have le: "unat offset \<le> length shared" "unat (size' - offset) = length shared - unat offset"
      using o(3) by (simp_all add: len word_less_nat_alt unat_sub word_le_nat_alt)
    then have all: "take (unat (size' - offset)) (drop (unat offset) shared) = drop (unat offset) shared" by simp
    have small: "length body \<le> length shared - unat offset" using prefix_length_le [OF counts(1)] le(2) out(2) by simp
    have "unat offset + length body < 2 ^ 64" using small le(1) len unat_less_exp [of size'] by simp
    then have sum: "unat (offset + word_of_nat (length body)) = unat offset + length body"
      by (simp add: unat_word_ariths unat_of_nat)
    then have "\<not> uc_sent uc' < uc_startOffset uc'"
      by (simp add: out(1) counts(2,3) out(2) [symmetric] word_less_nat_alt)
    then have "uploadBytesSent (uc_sent uc') (uc_startOffset uc') = word_of_nat (length body)"
      by (simp add: uploadBytesSent_def) (simp add: out(1) counts(2,3) out(2) [symmetric])
    then show ?thesis using counts(1,4) out o all by auto
  next
    case False
    then have "body = [] \<and> uc_sent uc' = uc_startOffset uc' \<and> (err = None \<longrightarrow> pe_offset pe = Some size')"
      using run uc by (auto simp: streamUploadConn_def Let_def not_less split: if_splits option.splits)
    then show ?thesis using none len by auto
  qed
  then show "uploadBytesSent (uc_sent uc') (uc_startOffset uc') = word_of_nat (length body)"
    "\<And>offset. pe_offset pe = Some offset \<Longrightarrow> prefix body (drop (unat offset) shared)"
    "err = None \<Longrightarrow> \<exists>offset. pe_offset pe = Some offset \<and> offset \<le> size' \<and> body = drop (unat offset) shared"
    by blast+
qed

text \<open>The chunks a download receives from such an upload: the bytes it was sent, cut anywhere into reads.\<close>

definition slusk_serves :: "u8 list \<Rightarrow> (nat \<Rightarrow> upload_peer) \<Rightarrow> (u8 list \<Rightarrow> u8 list list) \<Rightarrow> nat \<Rightarrow> u8 list list" where
  "slusk_serves shared pe reads k = reads (fst (snd (streamUploadConn ((pe k)\<lparr>pe_offset := Some (word_of_nat k)\<rparr>) shared
     (word_of_nat (length shared)) \<lparr>uc_sent = 0, uc_startOffset = 0, uc_totalWritten = 0\<rparr>)))"

lemma slusk_is_honest:
  assumes "length shared < 2 ^ 64" and reads: "\<And>bs. concat (reads bs) = bs"
  shows "honest shared (slusk_serves shared pe reads)"
  unfolding honest_def
proof (intro allI impI)
  fix k assume k: "k \<le> length shared"
  let ?pe = "(pe k)\<lparr>pe_offset := Some (word_of_nat k)\<rparr>" and ?uc = "\<lparr>uc_sent = 0, uc_startOffset = 0, uc_totalWritten = 0\<rparr>"
  obtain uc body err where run: "streamUploadConn ?pe shared (word_of_nat (length shared)) ?uc = (uc, body, err)" by (rule prod_cases3)
  have nums: "length shared = unat (word_of_nat (length shared) :: u64)" "unat (word_of_nat k :: u64) = k"
    using assms(1) k by (simp_all add: unat_of_nat)
  have p: "prefix body (drop k shared)" using upload_serves(2) [OF nums(1) refl run, of "word_of_nat k"] nums(2) by simp
  then have "take (length shared - k) body = body" using prefix_length_le by fastforce
  then show "prefix (take (length shared - k) (concat (slusk_serves shared pe reads k))) (drop k shared)"
    using p by (simp add: slusk_serves_def run reads)
qed

text \<open>An upload that is not cut delivers everything from the offset on.\<close>

lemma steady_serves:
  assumes "length shared < 2 ^ 64" and reads: "\<And>bs. concat (reads bs) = bs" and k: "k \<le> length shared"
    and pe: "pe_init (pe k)" "pe_seek (pe k)" "pe_taken (pe k) = None"
  shows "concat (slusk_serves shared pe reads k) = drop k shared"
proof -
  let ?n = "word_of_nat (length shared) :: u64" and ?k = "word_of_nat k :: u64"
  have nums: "unat ?n = length shared" "unat ?k = k" using assms(1) k by (simp_all add: unat_of_nat)
  show ?thesis
  proof (cases "k = length shared")
    case True
    then show ?thesis using pe by (simp add: slusk_serves_def streamUploadConn_def reads)
  next
    case False
    then have less: "?k < ?n" using k nums by (simp add: word_less_nat_alt)
    then have "unat (?n - ?k) = length shared - k" using nums by (simp add: unat_sub order_less_imp_le)
    then show ?thesis
      using pe less nums by (simp add: slusk_serves_def streamUploadConn_def streamUploadBody_def reads Let_def not_less [symmetric])
  qed
qed

section \<open>Attempt after attempt\<close>

type_synonym stream_try = "faults \<times> (nat \<Rightarrow> u8 list list)"

definition try_step :: "u8 list \<Rightarrow> stream_try \<Rightarrow> disk \<Rightarrow> disk \<times> stream_error option" where
  "try_step whole = (\<lambda>(fa, serve) dk. let a = streamFile fa (int (length whole)) serve dk in (at_disk a, at_error a))"

definition try_good :: "u8 list \<Rightarrow> u8 list option \<Rightarrow> disk \<Rightarrow> bool" where
  "try_good whole old dk \<longleftrightarrow> partial_of whole dk \<and> dk_dest dk \<in> {old, Some whole}"

interpretation resuming: safe_automaton "try_step whole" "try_good whole old" "\<lambda>t dk. honest whole (snd t)" for whole old
proof
  show "try_good whole old (fst (try_step whole t dk))" if "try_good whole old dk" "honest whole (snd t)" for t dk
    using attempt_keeps [of whole dk "snd t" _ "fst t", OF _ that(2) refl] that(1)
    by (cases "at_error (streamFile (fst t) (int (length whole)) (snd t) dk)")
      (auto simp: try_good_def try_step_def Let_def case_prod_unfold)
qed

section \<open>The records of an upload\<close>

lemma record_truth:
  assumes len: "\<And>f. files (snd key) = Some f \<Longrightarrow> openIndexedFile f (ua_opened ua) \<Longrightarrow> length (ua_content ua) = unat (file_Size (ix_wire f))"
    and run: "runUpload files key jobSize ua = (messages, body, r)"
  shows "ul_BytesSent r = word_of_nat (length body) \<and> (ul_Status r = OutcomeRejected \<longrightarrow> body = [])
    \<and> (ul_Status r = OutcomeCompleted \<longrightarrow> (\<exists>offset. pe_offset (ua_peer ua) = Some offset \<and> body = drop (unat offset) (ua_content ua)))"
proof (cases "\<exists>f response. files (snd key) = Some f \<and> openIndexedFile f (ua_opened ua) \<and> ua_session ua \<and> ua_requestSent ua
    \<and> ua_negotiation ua = PeerAnswered response \<and> ts_Allowed response \<and> ua_conn ua")
  case True
  then obtain f response where f: "files (snd key) = Some f" "openIndexedFile f (ua_opened ua)" "ua_session ua" "ua_requestSent ua"
    "ua_negotiation ua = PeerAnswered response" "ts_Allowed response" "ua_conn ua" by blast
  obtain uc body1 err where s: "streamUploadConn (ua_peer ua) (ua_content ua) (file_Size (ix_wire f))
      \<lparr>uc_sent = 0, uc_startOffset = 0, uc_totalWritten = 0\<rparr> = (uc, body1, err)" by (rule prod_cases3)
  note serves = upload_serves [OF len [OF f(1,2)] refl s]
  show ?thesis using run f s serves(1,3) by (cases err) (auto simp: runUpload_def Let_def)
next
  case False
  then show ?thesis
    using run by (auto simp: runUpload_def rejected_record_def uploadBytesSent_def Let_def split: option.splits if_splits negotiation.splits)
qed

text \<open>The file that is opened is the file that was indexed.\<close>

lemma opened_is_indexed:
  assumes "openIndexedFile f op"
  shows "\<exists>before info r r'. op_resolved op = Inr r \<and> pathWithinRoot (ix_root f) (Clean r) \<and> op_resolvedAfter op = Inr r'
    \<and> pathWithinRoot (ix_root f) (Clean r') \<and> op_before op = Some before \<and> op_opened op = Some info
    \<and> fi_regular info \<and> fi_size info = sint (file_Size (ix_wire f)) \<and> UnixMicro (fi_modTime before) = UnixMicro (ix_modTime f)
    \<and> (\<forall>i. ix_info f = Some i \<longrightarrow> i = fi_ident info) \<and> same_file info (op_after op)"
  using assms by (cases "op_resolvedAfter op") (auto simp: openIndexedFile_def split: sum.splits option.splits if_splits)

section \<open>Slow peers\<close>

text \<open>The window before the tick \<open>i\<close> stayed below the floor.\<close>

definition slow_window :: "u64 \<Rightarrow> u64 list \<Rightarrow> nat \<Rightarrow> bool" where
  "slow_window threshold ticks i \<longleftrightarrow> 0 < i \<and> i < length ticks \<and> ticks ! i - ticks ! (i - 1) < threshold"

lemma sampler_from:
  "sampler threshold False last' k ticks = Some n \<Longrightarrow> k \<le> 1
     \<Longrightarrow> n < length ticks \<and> slow_window threshold (last' # ticks) (Suc n)
       \<and> (if n = 0 then k = 1 else slow_window threshold (last' # ticks) n)"
  "sampler threshold False last' k ticks = None \<Longrightarrow> k \<le> 1
     \<Longrightarrow> (\<forall>i. \<not> (slow_window threshold (last' # ticks) (Suc i) \<and> slow_window threshold (last' # ticks) (Suc (Suc i))))
       \<and> (k = 1 \<longrightarrow> \<not> slow_window threshold (last' # ticks) 1)"
proof (induction ticks arbitrary: last' k n)
  case Nil
  { case 1 then show ?case by simp }
  { case 2 then show ?case by (simp add: slow_window_def) }
next
  case (Cons cur ticks)
  have shift: "slow_window threshold (last' # cur # ticks) (Suc (Suc i)) = slow_window threshold (cur # ticks) (Suc i)" for i last'
    by (simp add: slow_window_def)
  have first: "slow_window threshold (last' # cur # ticks) (Suc 0) \<longleftrightarrow> cur - last' < threshold" for last'
    by (simp add: slow_window_def)
  { case 1
    let ?k = "if cur - last' < threshold then k + 1 else 0"
    show ?case
    proof (cases "?k \<ge> 2")
      case True
      then show ?thesis using 1 first by (auto simp: uploadThroughputStrikeLimit_def split: if_splits)
    next
      case False
      then obtain m where m: "sampler threshold False cur ?k ticks = Some m" "n = Suc m"
        using 1(1) by (auto simp: uploadThroughputStrikeLimit_def Let_def)
      have "?k \<le> 1" using False by simp
      from Cons.IH(1) [OF m(1) this] show ?thesis
        using m(2) shift first 1(2) by (cases m) (auto split: if_splits)
    qed }
  { case 2
    let ?k = "if cur - last' < threshold then k + 1 else 0"
    from 2 have no: "\<not> ?k \<ge> 2" and none: "sampler threshold False cur ?k ticks = None"
      by (auto simp: uploadThroughputStrikeLimit_def Let_def split: if_splits)
    have "?k \<le> 1" using no by simp
    note ih = Cons.IH(2) [OF none this]
    have "\<not> (slow_window threshold (last' # cur # ticks) (Suc i) \<and> slow_window threshold (last' # cur # ticks) (Suc (Suc i)))" for i
      using ih no shift first by (cases i) (auto split: if_splits)
    moreover have "k = 1 \<longrightarrow> \<not> slow_window threshold (last' # cur # ticks) 1" using no first by (auto split: if_splits)
    ultimately show ?case by blast }
qed

text \<open>The first window is let pass; after it, two slow windows in a row and nothing else end the upload.\<close>

lemma sampler_first:
  "sampler threshold True last' 0 (cur # rest) = map_option Suc (sampler threshold False cur 0 rest)"
  by (simp add: uploadThroughputStrikeLimit_def)

lemma sampler_spec:
  "sampler threshold True last' 0 ticks = None
     \<Longrightarrow> \<not> (slow_window threshold ticks (Suc i) \<and> slow_window threshold ticks (Suc (Suc i)))"
  "sampler threshold True last' 0 ticks = Some n
     \<Longrightarrow> slow_window threshold ticks n \<and> slow_window threshold ticks (n - 1) \<and> 1 < n"
proof -
  assume none: "sampler threshold True last' 0 ticks = None"
  show "\<not> (slow_window threshold ticks (Suc i) \<and> slow_window threshold ticks (Suc (Suc i)))"
  proof (cases ticks)
    case (Cons cur rest)
    then have "sampler threshold False cur 0 rest = None" using none by (simp add: sampler_first del: sampler.simps)
    from sampler_from(2) [OF this] show ?thesis unfolding Cons by blast
  qed (simp add: slow_window_def)
next
  assume some: "sampler threshold True last' 0 ticks = Some n"
  then obtain cur rest where Cons: "ticks = cur # rest" by (cases ticks) auto
  obtain m where m: "sampler threshold False cur 0 rest = Some m" "n = Suc m"
    using some unfolding Cons by (auto simp: sampler_first simp del: sampler.simps)
  from sampler_from(1) [OF m(1)] show "slow_window threshold ticks n \<and> slow_window threshold ticks (n - 1) \<and> 1 < n"
    unfolding Cons m(2) by (cases m) (simp_all split: if_splits)
qed

section \<open>A beginning of another file\<close>

text \<open>
  Two files of one name and leaf share a destination: a \<open>.part\<close> file that another peer's file left is
  continued with the bytes of this one.
\<close>

lemma resumed_from_another_file:
  "at_disk (streamFile no_faults 4 (\<lambda>k. [drop k [1, 2, 3, 4]]) \<lparr>dk_part = Some [9, 9], dk_dest = None\<rparr>)
     = \<lparr>dk_part = None, dk_dest = Some [9, 9, 3, 4]\<rparr>"
  by (simp add: streamFile_def partialFileSize_def settle_def no_faults_def Let_def)

text \<open>The progress that is reported counts bytes that the disk then refuses.\<close>

lemma reported_but_not_written:
  "let a = streamFile (no_faults\<lparr>fa_room := Some 0\<rparr>) 4 (\<lambda>k. [drop k [1, 2, 3, 4]]) \<lparr>dk_part = None, dk_dest = None\<rparr>
   in at_reports a = [4] \<and> dk_part (at_disk a) = Some [] \<and> at_error a = Some WriteFailed"
  by (simp add: streamFile_def partialFileSize_def settle_def no_faults_def Let_def)

text \<open>An upload whose file connection cannot be opened is recorded as aborted, although nothing was streamed.\<close>

lemma aborted_unconnected:
  assumes "files (snd key) = Some f" and "openIndexedFile f (ua_opened ua)" and "ua_session ua" and "ua_requestSent ua"
    and "ua_negotiation ua = PeerAnswered response" and "ts_Allowed response" and "\<not> ua_conn ua"
    and "runUpload files key jobSize ua = (messages, body, r)"
  shows "body = [] \<and> ul_BytesSent r = 0 \<and> ul_Status r = OutcomeAborted"
  using assms by (auto simp: runUpload_def uploadBytesSent_def Let_def)

end
