(* ===== verification/ActivationTx.thy ===== *)
theory ActivationTx
  imports StoreFacts
begin

text \<open>
  \<open>ActivateCandidateWithTransfers\<close> of \<open>internal/store/candidates.go\<close> statement by statement: the
  transaction works on a copy of the tables, every statement may fail, and what it has written by
  then stays in the copy. The copy becomes the database only by the \<open>COMMIT\<close> at the end; every
  return before it runs the deferred \<open>Rollback\<close>. The atomic function of \<open>StoreCandidates\<close> is what
  is left of it when no statement fails.
\<close>

section \<open>Statements and their failures\<close>

datatype statement =
    BeginTx
  | LockActivation
  | CheckEligible
  | CountActive
  | InsertTransfer nat
  | MarkCandidate
  | AdvanceJob
  | CommitTx

datatype tx_error = TxStore store_error | TxDriver statement

text \<open>
  The reply to \<open>COMMIT\<close> can be lost after the server has committed. \<open>stmt_fails\<close> names the statements
  that fail; for the insertion it names the row, as a trigger of the database can.
\<close>

datatype commit_reply = Committed | CommitRefused | CommitReplyLost

record tx_faults =
  stmt_fails :: "statement \<Rightarrow> bool"
  commit_reply :: commit_reply

definition no_tx_faults :: tx_faults where
  "no_tx_faults = \<lparr>stmt_fails = (\<lambda>_. False), commit_reply = Committed\<rparr>"

text \<open>How the body is left: by a return of the results, or on the way to \<open>COMMIT\<close>.\<close>

type_synonym activation_result = "tx_error + bool \<times> bool"

datatype tx_exit = Return activation_result | ReachCommit

section \<open>The body of the transaction\<close>

definition pending_row :: "nat \<Rightarrow> nat \<Rightarrow> string \<Rightarrow> ts \<Rightarrow> ts \<Rightarrow> candidate_file \<Rightarrow> transfer" where
  "pending_row n candidateID username deadline now f =
     \<lparr>tr_ID = n, tr_Candidate = candidateID, tr_SlskdID = [], tr_Username = username,
      tr_Filename = cf_Filename f, tr_State = TPending, tr_BytesDone = 0, tr_BytesTotal = cf_Size f,
      tr_Retries = 0, tr_Deadline = deadline, tr_LastProgress = None, tr_Updated = now\<rparr>"

fun insert_rows ::
  "tx_faults \<Rightarrow> nat \<Rightarrow> nat \<Rightarrow> string \<Rightarrow> ts \<Rightarrow> ts \<Rightarrow> candidate_file list \<Rightarrow> db \<Rightarrow> db \<times> tx_error option"
where
  "insert_rows e k candidateID username deadline now [] w = (w, None)"
| "insert_rows e k candidateID username deadline now (f # fs) w =
     (if stmt_fails e (InsertTransfer k) then (w, Some (TxDriver (InsertTransfer k)))
      else if row_count (\<lambda>t. tr_Candidate t = candidateID \<and> remote_file t = (username, cf_Filename f))
           (transfers w) \<noteq> 0 then (w, Some (TxStore ErrUniqueViolation))
      else if row_count (\<lambda>t. live t \<and> remote_file t = (username, cf_Filename f)) (transfers w) \<noteq> 0
      then (w, Some (TxStore ErrRemoteFileBusy))
      else insert_rows e (Suc k) candidateID username deadline now fs
        (w\<lparr>transfers := transfers w @ [pending_row (next_id w) candidateID username deadline now f],
           next_id := Suc (next_id w)\<rparr>))"

definition new_candidate_row :: "nat \<Rightarrow> nat \<Rightarrow> candidate \<Rightarrow> bool" where
  "new_candidate_row candidateID jobID c \<longleftrightarrow>
     cand_ID c = candidateID \<and> cand_Job c = jobID \<and> cand_State c = CNew"

definition selecting_row :: "nat \<Rightarrow> album_job \<Rightarrow> bool" where
  "selecting_row jobID j \<longleftrightarrow> job_is jobID j \<and> job_State j = Selecting"

text \<open>The two guarded updates and their \<open>RowsAffected\<close>, on the copy the insertion left.\<close>

definition advance_rows ::
  "tx_faults \<Rightarrow> nat \<Rightarrow> nat \<Rightarrow> ts \<Rightarrow> candidate \<Rightarrow> db \<Rightarrow> db \<times> tx_exit" where
  "advance_rows e candidateID jobID now c w =
     (if stmt_fails e MarkCandidate then (w, Return (Inl (TxDriver MarkCandidate)))
      else (let n = row_count (new_candidate_row candidateID jobID) (candidates w);
                w1 = update_candidates (new_candidate_row candidateID jobID) (mark_active now) w
            in if n \<noteq> 1 then (w1, Return (Inr (False, False)))
               else if stmt_fails e AdvanceJob then (w1, Return (Inl (TxDriver AdvanceJob)))
               else (let m = row_count (selecting_row jobID) (jobs w1);
                         w2 = update_jobs (selecting_row jobID) (activate_job now c) w1
                     in if m \<noteq> 1 then (w2, Return (Inr (False, False))) else (w2, ReachCommit))))"

definition activation_body ::
  "tx_faults \<Rightarrow> nat \<Rightarrow> nat \<Rightarrow> int \<Rightarrow> ts \<Rightarrow> ts \<Rightarrow> db \<Rightarrow> db \<times> tx_exit" where
  "activation_body e candidateID jobID maxActive deadline now w =
     (if stmt_fails e BeginTx then (w, Return (Inl (TxDriver BeginTx)))
      else if stmt_fails e LockActivation then (w, Return (Inl (TxDriver LockActivation)))
      else if stmt_fails e CheckEligible then (w, Return (Inl (TxDriver CheckEligible)))
      else
        (case (find (new_candidate_row candidateID jobID) (candidates w),
               find (selecting_row jobID) (jobs w)) of
           (Some c, Some j) \<Rightarrow>
             if cand_Files c = [] \<or> \<not> files_valid {} (cand_Files c)
             then (w, Return (Inl (TxStore ErrInvalidCandidateFiles)))
             else if stmt_fails e CountActive then (w, Return (Inl (TxDriver CountActive)))
             else if int (CountJobsInStates [Downloading, Importing] w) \<ge> maxActive
             then (w, Return (Inr (False, True)))
             else (case insert_rows e 0 candidateID (cand_Username c) deadline now (cand_Files c) w of
                     (w1, Some err) \<Rightarrow>
                       (w1, Return (if err = TxStore ErrRemoteFileBusy then Inr (False, False)
                                    else Inl err))
                   | (w1, None) \<Rightarrow> advance_rows e candidateID jobID now c w1)
         | _ \<Rightarrow> (w, Return (Inr (False, False)))))"

text \<open>The deferred \<open>Rollback\<close> and the \<open>COMMIT\<close>.\<close>

definition activation_tx ::
  "tx_faults \<Rightarrow> nat \<Rightarrow> nat \<Rightarrow> int \<Rightarrow> ts \<Rightarrow> ts \<Rightarrow> db \<Rightarrow> db \<times> activation_result" where
  "activation_tx e candidateID jobID maxActive deadline now s =
     (case activation_body e candidateID jobID maxActive deadline now s of
        (w, Return r) \<Rightarrow> (s, r)
      | (w, ReachCommit) \<Rightarrow>
          (case commit_reply e of
             Committed \<Rightarrow> (w, Inr (True, False))
           | CommitRefused \<Rightarrow> (s, Inl (TxDriver CommitTx))
           | CommitReplyLost \<Rightarrow> (w, Inl (TxDriver CommitTx))))"

section \<open>The insertion\<close>

text \<open>A remote file is taken for a candidate by one of its own rows or by a live row of anyone.\<close>

definition taken :: "nat \<Rightarrow> string \<Rightarrow> db \<Rightarrow> candidate_file \<Rightarrow> bool" where
  "taken candidateID username s f \<longleftrightarrow>
     (\<exists>t \<in> set (transfers s). remote_file t = (username, cf_Filename f)
        \<and> (tr_Candidate t = candidateID \<or> live t))"

lemma taken_row_counts:
  "taken cid u s f \<longleftrightarrow>
     row_count (\<lambda>t. tr_Candidate t = cid \<and> remote_file t = (u, cf_Filename f)) (transfers s) \<noteq> 0
     \<or> row_count (\<lambda>t. live t \<and> remote_file t = (u, cf_Filename f)) (transfers s) \<noteq> 0"
  by (auto simp: taken_def row_count_eq_0)

lemma taken_add_row:
  "taken cid u (w\<lparr>transfers := transfers w @ [pending_row n cid u dl now g], next_id := k\<rparr>) f
     \<longleftrightarrow> taken cid u w f \<or> cf_Filename f = cf_Filename g"
  by (auto simp: taken_def pending_row_def remote_file_def)

lemma not_taken_row_counts:
  "\<not> taken cid u s f \<longleftrightarrow>
     row_count (\<lambda>t. tr_Candidate t = cid \<and> remote_file t = (u, cf_Filename f)) (transfers s) = 0
     \<and> row_count (\<lambda>t. live t \<and> remote_file t = (u, cf_Filename f)) (transfers s) = 0"
  by (auto simp: taken_row_counts)

text \<open>
  The insertion goes through exactly when no file is taken and no row fails. Then the copy has one
  pending row per file more, in the order of the files and with consecutive keys.
\<close>

definition with_pending :: "nat \<Rightarrow> string \<Rightarrow> ts \<Rightarrow> ts \<Rightarrow> candidate_file list \<Rightarrow> db \<Rightarrow> db" where
  "with_pending cid u dl now fs w =
     w\<lparr>transfers := transfers w @
         map (\<lambda>(n, f). pending_row n cid u dl now f) (zip [next_id w ..< next_id w + length fs] fs),
       next_id := next_id w + length fs\<rparr>"

lemma with_pending_Cons:
  "with_pending cid u dl now fs
     (w\<lparr>transfers := transfers w @ [pending_row (next_id w) cid u dl now f],
        next_id := Suc (next_id w)\<rparr>) = with_pending cid u dl now (f # fs) w"
  by (simp add: with_pending_def upt_conv_Cons del: upt_Suc)

lemma insert_rows_free:
  "\<lbrakk>distinct (map cf_Filename fs); \<forall>f \<in> set fs. \<not> taken cid u w f;
    \<forall>i < length fs. \<not> stmt_fails e (InsertTransfer (k + i))\<rbrakk> \<Longrightarrow>
   insert_rows e k cid u dl now fs w = (with_pending cid u dl now fs w, None)"
proof (induction fs arbitrary: w k)
  case Nil
  then show ?case by (simp add: with_pending_def)
next
  case (Cons f fs)
  let ?w = "w\<lparr>transfers := transfers w @ [pending_row (next_id w) cid u dl now f],
    next_id := Suc (next_id w)\<rparr>"
  have "\<forall>i < length fs. \<not> stmt_fails e (InsertTransfer (Suc k + i))"
    using Cons.prems(3) by (metis Suc_less_eq add_Suc_shift length_Cons)
  moreover have "\<forall>g \<in> set fs. \<not> taken cid u ?w g"
    using Cons.prems(1,2) by (auto simp: taken_add_row rev_image_eqI)
  ultimately have "insert_rows e (Suc k) cid u dl now fs ?w = (with_pending cid u dl now fs ?w, None)"
    using Cons.prems(1) by (intro Cons.IH) simp_all
  moreover have "\<not> taken cid u w f" "\<not> stmt_fails e (InsertTransfer k)"
    using Cons.prems(2,3) by auto
  ultimately show ?case
    by (simp add: not_taken_row_counts with_pending_Cons)
qed

lemma insert_rows_done:
  "insert_rows e k cid u dl now fs w = (w', None) \<Longrightarrow>
   (\<forall>f \<in> set fs. \<not> taken cid u w f) \<and> (\<forall>i < length fs. \<not> stmt_fails e (InsertTransfer (k + i)))"
proof (induction fs arbitrary: w k)
  case Nil
  then show ?case by simp
next
  case (Cons f fs)
  let ?w = "w\<lparr>transfers := transfers w @ [pending_row (next_id w) cid u dl now f],
    next_id := Suc (next_id w)\<rparr>"
  from Cons.prems have f: "\<not> stmt_fails e (InsertTransfer k)" "\<not> taken cid u w f"
    and rest: "insert_rows e (Suc k) cid u dl now fs ?w = (w', None)"
    by (auto simp: not_taken_row_counts split: if_splits)
  from Cons.IH [OF rest] show ?case
    using f by (auto simp: taken_add_row less_Suc_eq_0_disj)
qed

lemma insert_rows_select:
  "insert_rows e k cid u dl now fs w = (w', r) \<Longrightarrow>
   jobs w' = jobs w \<and> candidates w' = candidates w"
  by (induction fs arbitrary: w k) (auto split: if_splits)

lemma insert_rows_clean:
  "case insert_pending cid u dl now fs w of
     Inl err \<Rightarrow> (\<exists>w'. insert_rows no_tx_faults k cid u dl now fs w = (w', Some (TxStore err)))
   | Inr w' \<Rightarrow> insert_rows no_tx_faults k cid u dl now fs w = (w', None)"
proof (induction fs arbitrary: w k)
  case Nil
  then show ?case by simp
next
  case (Cons f fs)
  let ?w = "w\<lparr>transfers := transfers w @ [pending_row (next_id w) cid u dl now f],
    next_id := Suc (next_id w)\<rparr>"
  have clean: "\<not> stmt_fails no_tx_faults (InsertTransfer k)" by (simp add: no_tx_faults_def)
  show ?case
  proof (cases "taken cid u w f")
    case True
    then show ?thesis using clean by (auto simp: taken_row_counts)
  next
    case False
    then have "insert_pending cid u dl now (f # fs) w = insert_pending cid u dl now fs ?w"
      and "insert_rows no_tx_faults k cid u dl now (f # fs) w = insert_rows no_tx_faults (Suc k) cid u dl now fs ?w"
      using clean by (simp_all add: not_taken_row_counts pending_row_def)
    then show ?thesis using Cons.IH [of "Suc k" ?w] by (simp only:)
  qed
qed

lemma files_valid_iff:
  "files_valid seen fs \<longleftrightarrow> distinct (map cf_Filename fs)
     \<and> (\<forall>f \<in> set fs. cf_Filename f \<noteq> [] \<and> cf_Size f \<ge> 0 \<and> cf_Filename f \<notin> seen)"
  by (induction fs arbitrary: seen) (auto simp: rev_image_eqI)

section \<open>What is committed\<close>

text \<open>
  A candidate that can be activated, stated on the tables alone; and the tables of a whole
  activation.
\<close>

definition activatable :: "nat \<Rightarrow> nat \<Rightarrow> int \<Rightarrow> db \<Rightarrow> candidate \<Rightarrow> bool" where
  "activatable cid i maxActive s c \<longleftrightarrow>
     c \<in> set (candidates s) \<and> new_candidate_row cid i c \<and> (\<exists>j \<in> set (jobs s). selecting_row i j)
     \<and> cand_Files c \<noteq> [] \<and> distinct (map cf_Filename (cand_Files c))
     \<and> (\<forall>f \<in> set (cand_Files c). cf_Filename f \<noteq> [] \<and> cf_Size f \<ge> 0 \<and> \<not> taken cid (cand_Username c) s f)
     \<and> int (CountJobsInStates [Downloading, Importing] s) < maxActive"

definition whole_activation :: "nat \<Rightarrow> nat \<Rightarrow> ts \<Rightarrow> ts \<Rightarrow> candidate \<Rightarrow> db \<Rightarrow> db" where
  "whole_activation cid i dl now c s =
     update_jobs (selecting_row i) (activate_job now c)
       (update_candidates (new_candidate_row cid i) (mark_active now)
         (with_pending cid (cand_Username c) dl now (cand_Files c) s))"

definition all_run :: "tx_faults \<Rightarrow> nat \<Rightarrow> bool" where
  "all_run e n \<longleftrightarrow>
     (\<forall>st \<in> {BeginTx, LockActivation, CheckEligible, CountActive, MarkCandidate, AdvanceJob}. \<not> stmt_fails e st)
     \<and> (\<forall>k < n. \<not> stmt_fails e (InsertTransfer k))"

lemma one_new_row:
  assumes "base_ok s" and "c \<in> set (candidates s)" and "new_candidate_row cid i c"
  shows "row_count (new_candidate_row cid i) (candidates s) = 1"
    and "find (new_candidate_row cid i) (candidates s) = Some c"
proof -
  have same: "d = c" if "d \<in> set (candidates s)" "new_candidate_row cid i d" for d
    using candidate_unique [OF assms(1) that(1) assms(2)] that assms(3) by (simp add: new_candidate_row_def)
  have "distinct (map cand_ID (candidates s))" using assms(1) by (simp add: base_ok_def keys_ok_def)
  then show "row_count (new_candidate_row cid i) (candidates s) = 1"
    using assms(2,3)
    by (rule row_count_one) (use assms(3) in \<open>simp add: new_candidate_row_def\<close>)
  show "find (new_candidate_row cid i) (candidates s) = Some c"
  proof (cases "find (new_candidate_row cid i) (candidates s)")
    case None
    with assms(2,3) show ?thesis by (simp add: find_None_iff)
  next
    case (Some d)
    with same [of d] show ?thesis by (auto simp: find_Some_iff)
  qed
qed

lemma one_selecting_row:
  assumes "base_ok s" and "j \<in> set (jobs s)" and "selecting_row i j"
  shows "row_count (selecting_row i) (jobs s) = 1"
    and "\<exists>k. find (selecting_row i) (jobs s) = Some k"
proof -
  show "row_count (selecting_row i) (jobs s) = 1"
    using _ assms(2,3)
  proof (rule row_count_one)
    show "distinct (map job_ID (jobs s))" using assms(1) by (simp add: base_ok_def keys_ok_def)
  qed (use assms(3) in \<open>simp add: selecting_row_def job_is_def\<close>)
  show "\<exists>k. find (selecting_row i) (jobs s) = Some k"
    using assms(2,3) by (cases "find (selecting_row i) (jobs s)") (auto simp: find_None_iff)
qed

lemma body_commits:
  assumes "base_ok s" and "activatable cid i maxActive s c" and "all_run e (length (cand_Files c))"
  shows "activation_body e cid i maxActive dl now s = (whole_activation cid i dl now c s, ReachCommit)"
proof -
  from assms(2) obtain j where j: "j \<in> set (jobs s)" "selecting_row i j"
    and c: "c \<in> set (candidates s)" "new_candidate_row cid i c"
    by (auto simp: activatable_def)
  let ?w = "with_pending cid (cand_Username c) dl now (cand_Files c) s"
  have rows: "insert_rows e 0 cid (cand_Username c) dl now (cand_Files c) s = (?w, None)"
    using assms(2,3) by (intro insert_rows_free) (auto simp: activatable_def all_run_def)
  have "advance_rows e cid i now c ?w = (whole_activation cid i dl now c s, ReachCommit)"
    using one_new_row [OF assms(1) c] one_selecting_row [OF assms(1) j] assms(3)
    by (simp add: advance_rows_def whole_activation_def with_pending_def all_run_def)
  then show ?thesis
    using one_new_row [OF assms(1) c] one_selecting_row [OF assms(1) j] assms(2,3) rows
    by (auto simp: activation_body_def activatable_def all_run_def files_valid_iff)
qed

lemma advance_reaches:
  "advance_rows e cid i now c w = (w', ReachCommit) \<Longrightarrow> \<not> stmt_fails e MarkCandidate \<and> \<not> stmt_fails e AdvanceJob"
  by (auto simp: advance_rows_def Let_def split: if_splits)

text \<open>Commit is reached only by a candidate that can be activated, and with every statement run.\<close>

lemma body_reaches:
  assumes "activation_body e cid i maxActive dl now s = (w, ReachCommit)"
  shows "\<exists>c. activatable cid i maxActive s c \<and> all_run e (length (cand_Files c))"
proof -
  obtain c j where c: "find (new_candidate_row cid i) (candidates s) = Some c"
    and j: "find (selecting_row i) (jobs s) = Some j"
    using assms by (auto simp: activation_body_def split: if_splits option.splits)
  from c j have in_tables: "c \<in> set (candidates s)" "new_candidate_row cid i c"
    "j \<in> set (jobs s)" "selecting_row i j"
    by (auto simp: find_Some_iff)
  obtain w1 where rows: "insert_rows e 0 cid (cand_Username c) dl now (cand_Files c) s = (w1, None)"
    and adv: "advance_rows e cid i now c w1 = (w, ReachCommit)"
    using assms c j
    by (auto simp: activation_body_def split: if_splits prod.splits option.splits)
  have "cand_Files c \<noteq> []" "files_valid {} (cand_Files c)"
    "int (CountJobsInStates [Downloading, Importing] s) < maxActive"
    "\<not> stmt_fails e BeginTx" "\<not> stmt_fails e LockActivation" "\<not> stmt_fails e CheckEligible" "\<not> stmt_fails e CountActive"
    using assms c j by (auto simp: activation_body_def split: if_splits)
  then show ?thesis
    using insert_rows_done [OF rows] advance_reaches [OF adv] in_tables
    by (intro exI [of _ c]) (auto simp: activatable_def all_run_def files_valid_iff)
qed

lemma activatable_unique:
  assumes "base_ok s" and "activatable cid i m s c" and "activatable cid i m s d"
  shows "d = c"
  using assms candidate_unique [OF assms(1), of d c] by (auto simp: activatable_def new_candidate_row_def)

text \<open>
  A whole activation is committed exactly when the candidate can be activated, every statement
  runs and \<open>COMMIT\<close> is carried out; otherwise the database is the one the transaction began with.
\<close>

lemma activation_tx_commits:
  assumes "base_ok s" and "activatable cid i maxActive s c" and "all_run e (length (cand_Files c))"
  shows "activation_tx e cid i maxActive dl now s =
    (case commit_reply e of
       Committed \<Rightarrow> (whole_activation cid i dl now c s, Inr (True, False))
     | CommitRefused \<Rightarrow> (s, Inl (TxDriver CommitTx))
     | CommitReplyLost \<Rightarrow> (whole_activation cid i dl now c s, Inl (TxDriver CommitTx)))"
  by (simp add: activation_tx_def body_commits [OF assms] split: commit_reply.split)

lemma body_result:
  "activation_body e cid i maxActive dl now s = (w, Return r) \<Longrightarrow> r \<noteq> Inr (True, full)"
  by (auto simp: activation_body_def advance_rows_def Let_def
      split: if_splits option.splits prod.splits)

lemma activation_tx_keeps:
  assumes "\<nexists>c. activatable cid i maxActive s c \<and> all_run e (length (cand_Files c))"
  shows "fst (activation_tx e cid i maxActive dl now s) = s
    \<and> (\<forall>full. snd (activation_tx e cid i maxActive dl now s) \<noteq> Inr (True, full))"
proof (cases "activation_body e cid i maxActive dl now s")
  case (Pair w x)
  show ?thesis
  proof (cases x)
    case (Return r)
    with Pair body_result [of e cid i maxActive dl now s w r] show ?thesis
      by (simp add: activation_tx_def)
  next
    case ReachCommit
    with Pair body_reaches [of e cid i maxActive dl now s w] assms show ?thesis by blast
  qed
qed

lemma activation_tx_outcome:
  assumes "base_ok s" and "activation_tx e cid i maxActive dl now s = (s', r)"
  shows "if \<exists>c. activatable cid i maxActive s c \<and> all_run e (length (cand_Files c))
              \<and> commit_reply e \<noteq> CommitRefused
          then \<exists>c. activatable cid i maxActive s c \<and> s' = whole_activation cid i dl now c s
             \<and> r = (if commit_reply e = Committed then Inr (True, False) else Inl (TxDriver CommitTx))
          else s' = s \<and> (\<forall>full. r \<noteq> Inr (True, full))"
proof (cases "\<exists>c. activatable cid i maxActive s c \<and> all_run e (length (cand_Files c))")
  case True
  then obtain c where c: "activatable cid i maxActive s c" "all_run e (length (cand_Files c))" by blast
  from activation_tx_commits [OF assms(1) c, of dl now] c assms(2) show ?thesis
    by (cases "commit_reply e") auto
next
  case False
  with activation_tx_keeps [of cid i maxActive s e dl now] assms(2) show ?thesis by auto
qed

lemma insert_rows_causes:
  "insert_rows e k cid u dl now fs w = (w', Some err) \<Longrightarrow> \<forall>st. err = TxDriver st \<longrightarrow> stmt_fails e st"
  by (induction fs arbitrary: w k) (auto split: if_splits)

lemma advance_rows_causes:
  "advance_rows e cid i now c w = (w', Return r) \<Longrightarrow>
   r \<noteq> Inr (False, True) \<and> (\<forall>st. r = Inl (TxDriver st) \<longrightarrow> stmt_fails e st)"
  by (auto simp: advance_rows_def Let_def split: if_splits)

lemma body_causes:
  assumes "activation_body e cid i maxActive dl now s = (w, Return r)"
  shows "(r = Inr (False, True) \<longrightarrow> maxActive \<le> int (CountJobsInStates [Downloading, Importing] s))
    \<and> (\<forall>st. r = Inl (TxDriver st) \<longrightarrow> stmt_fails e st)"
  using assms
  by (auto simp: activation_body_def split: if_splits option.splits prod.splits
      dest: insert_rows_causes advance_rows_causes)

lemma activation_tx_causes:
  assumes "activation_tx e cid i maxActive dl now s = (s', r)"
  shows "(r = Inr (False, True) \<longrightarrow> maxActive \<le> int (CountJobsInStates [Downloading, Importing] s))
    \<and> (\<forall>st. r = Inl (TxDriver st) \<longrightarrow> stmt_fails e st \<or> st = CommitTx \<and> commit_reply e \<noteq> Committed)"
proof (cases "activation_body e cid i maxActive dl now s")
  case (Pair w x)
  then show ?thesis
    using assms body_causes [of e cid i maxActive dl now s w]
    by (cases x; cases "commit_reply e") (auto simp: activation_tx_def)
qed

text \<open>
  With no failing statement it is the atomic function the life cycle is built on, which therefore
  stands for every run of the transaction: a run under failures gives that outcome or keeps the
  database.
\<close>

definition lift_result :: "store_error + bool \<times> bool \<Rightarrow> activation_result" where
  "lift_result r = (case r of Inl err \<Rightarrow> Inl (TxStore err) | Inr x \<Rightarrow> Inr x)"

lemma activation_tx_atomic:
  assumes "base_ok s"
  shows "activation_tx no_tx_faults cid i maxActive dl now s =
    map_prod id lift_result (ActivateCandidateWithTransfers cid i maxActive dl now s)"
proof -
  have preds: "(\<lambda>c. cand_ID c = cid \<and> cand_Job c = i \<and> cand_State c = CNew) = new_candidate_row cid i"
    "(\<lambda>j. job_is i j \<and> job_State j = Selecting) = selecting_row i"
    "(\<lambda>c. c\<lparr>cand_State := CActive, cand_Updated := now\<rparr>) = mark_active now"
    by (auto simp: fun_eq_iff new_candidate_row_def selecting_row_def mark_active_def)
  note atomic = ActivateCandidateWithTransfers_def [of cid i maxActive dl now s, unfolded preds]
  show ?thesis
  proof (cases "\<exists>c j. find (new_candidate_row cid i) (candidates s) = Some c
      \<and> find (selecting_row i) (jobs s) = Some j")
    case False
    then show ?thesis
      by (auto simp: atomic activation_tx_def activation_body_def lift_result_def no_tx_faults_def
          split: option.splits)
  next
    case True
    then obtain c j where c: "find (new_candidate_row cid i) (candidates s) = Some c"
      and j: "find (selecting_row i) (jobs s) = Some j" by blast
    then have rows: "row_count (new_candidate_row cid i) (candidates s) = 1"
      "row_count (selecting_row i) (jobs s) = 1"
      using one_new_row [OF assms, of c] one_selecting_row [OF assms, of j] by (auto simp: find_Some_iff)
    show ?thesis
    proof (cases "insert_pending cid (cand_Username c) dl now (cand_Files c) s")
      case (Inl err)
      with insert_rows_clean [where cid = cid and u = "cand_Username c" and dl = dl and now = now
          and fs = "cand_Files c" and w = s and k = 0]
      obtain w where "insert_rows no_tx_faults 0 cid (cand_Username c) dl now (cand_Files c) s
          = (w, Some (TxStore err))" by auto
      with Inl c j show ?thesis
        by (auto simp: atomic activation_tx_def activation_body_def lift_result_def no_tx_faults_def)
    next
      case (Inr w)
      with insert_rows_clean [where cid = cid and u = "cand_Username c" and dl = dl and now = now
          and fs = "cand_Files c" and w = s and k = 0]
      have ins: "insert_rows no_tx_faults 0 cid (cand_Username c) dl now (cand_Files c) s = (w, None)" by simp
      have "advance_rows no_tx_faults cid i now c w = (update_jobs (selecting_row i) (activate_job now c)
          (update_candidates (new_candidate_row cid i) (mark_active now) w), ReachCommit)"
        using rows insert_rows_select [OF ins] by (simp add: advance_rows_def no_tx_faults_def)
      with Inr ins c j show ?thesis
        by (simp add: atomic activation_tx_def activation_body_def lift_result_def no_tx_faults_def)
    qed
  qed
qed

end
