(* ===== verification/TopUpFaults.thy ===== *)
theory TopUpFaults
  imports TopUpFacts
begin

text \<open>
  A top-up whose calls of the store fail: any of them may be refused, or be carried out without its
  answer arriving. Nobody else writes meanwhile. Each call that fails can put one transfer more in
  flight than the limit, and no more; only an answered registration gives or withholds the folder.
\<close>

section \<open>A world of one's own\<close>

definition alone :: "'n world \<Rightarrow> bool" where
  "alone w \<longleftrightarrow> list_all (\<lambda>t. turn_Others t = id) (w_Turns w)"

definition unanswered :: "'n world \<Rightarrow> nat" where
  "unanswered w = length (filter (\<lambda>t. turn_Reply t \<noteq> Answered) (w_Turns w))"

text \<open>The answer to call number \<open>k\<close> from here arrives.\<close>

definition answered_at :: "nat \<Rightarrow> 'n world \<Rightarrow> bool" where
  "answered_at k w \<longleftrightarrow> (k < length (w_Turns w) \<longrightarrow> turn_Reply (w_Turns w ! k) = Answered)"

text \<open>What no call of the store touches.\<close>

definition same_outside :: "'n world \<Rightarrow> 'n world \<Rightarrow> bool" where
  "same_outside w w' \<longleftrightarrow> w_Calls w' = w_Calls w \<and> w_Net w' = w_Net w \<and> w_Files w' = w_Files w"

lemma same_outside_trans: "same_outside w v \<Longrightarrow> same_outside v u \<Longrightarrow> same_outside w u"
  by (simp add: same_outside_def)

lemma same_outside_refl [simp]: "same_outside w w"
  by (simp add: same_outside_def)

text \<open>
  The two ways a call ends, as one rule for all calls: it is carried out and answered, or it fails,
  carried out or not.
\<close>

lemma alone_call:
  assumes "alone w" and "run_state (store_call op) w = (r, v)"
  obtains (answered) "r = Inr (snd (op (w_DB w)))" "w_DB v = fst (op (w_DB w))" "answered_at 0 w"
      "unanswered v = unanswered w" "alone v" "w_Turns v = tl (w_Turns w)" "same_outside w v"
  | (failed) "r = Inl ErrConnection" "w_DB v = w_DB w \<or> w_DB v = fst (op (w_DB w))" "\<not> answered_at 0 w"
      "Suc (unanswered v) = unanswered w" "alone v" "w_Turns v = tl (w_Turns w)" "same_outside w v"
proof (cases "w_Turns w")
  case Nil
  with assms have "r = Inr (snd (op (w_DB w)))" "v = w\<lparr>w_DB := fst (op (w_DB w))\<rparr>"
    by (simp_all add: store_call_def)
  with Nil show ?thesis
    by (intro answered) (simp_all add: alone_def unanswered_def answered_at_def same_outside_def)
next
  case (Cons t ts)
  then show ?thesis
    using assms answered failed
    by (cases "turn_Reply t")
      (auto simp: store_call_def alone_def unanswered_def answered_at_def same_outside_def Let_def)
qed

lemma alone_read:
  assumes "alone w" and "run_state (store_read q) w = (r, v)"
  shows "w_DB v = w_DB w \<and> alone v \<and> same_outside w v \<and> w_Turns v = tl (w_Turns w) \<and> unanswered v \<le> unanswered w
    \<and> (r = Inr (q (w_DB w)) \<or> r = Inl ErrConnection)"
  using assms(1) assms(2)[unfolded store_read_def]
  by (cases rule: alone_call) auto

lemma alone_write:
  assumes "alone w" and "run_state (store_write f) w = (r, v)"
  shows "(w_DB v = w_DB w \<and> Suc (unanswered v) = unanswered w
      \<or> w_DB v = f (w_DB w) \<and> unanswered v \<le> unanswered w) \<and> alone v \<and> same_outside w v"
  using assms(1) assms(2)[unfolded store_write_def]
  by (cases rule: alone_call) auto

lemma alone_try:
  assumes "alone w" and "run_state (store_try op) w = (r, v)"
  obtains (answered) "r = flatten (Inr (snd (op (w_DB w))))" "w_DB v = fst (op (w_DB w))" "answered_at 0 w"
      "unanswered v = unanswered w" "alone v" "w_Turns v = tl (w_Turns w)" "same_outside w v"
  | (failed) "r = Inl ErrConnection" "w_DB v = w_DB w \<or> w_DB v = fst (op (w_DB w))" "\<not> answered_at 0 w"
      "Suc (unanswered v) = unanswered w" "alone v" "w_Turns v = tl (w_Turns w)" "same_outside w v"
proof -
  obtain q u where call: "run_state (store_call op) w = (q, u)" by (metis surj_pair)
  then have rv: "r = flatten q" "v = u" using assms(2) by (simp_all add: store_try_def)
  from assms(1) call show ?thesis
  proof (cases rule: alone_call)
    case answered
    with rv show ?thesis by (intro that(1)) simp_all
  next
    case failed
    with rv show ?thesis by (intro that(2)) (simp_all add: flatten_def)
  qed
qed

lemma flatten_simps [simp]:
  "flatten (Inr (Inl e)) = Inl (ErrStore e)" "flatten (Inr (Inr x)) = Inr x" "flatten (Inl f) = Inl f"
  by (simp_all add: flatten_def)

lemma net_outside:
  "run_state (Enqueue b u f n) w = (q, v) \<Longrightarrow> w_DB v = w_DB w \<and> alone v = alone w \<and> unanswered v = unanswered w"
  "run_state (Cancel b u i) w = (q', v) \<Longrightarrow> w_DB v = w_DB w \<and> alone v = alone w \<and> unanswered v = unanswered w"
  using net_frame(1) [of b u f n w q v] net_frame(2) [of b u i w q' v]
  by (simp_all add: alone_def unanswered_def)

section \<open>The bound\<close>

lemma intent_rows: "same_rows s (fst (RecordEnqueueIntent cid u f dl now s))"
  by (auto simp: RecordEnqueueIntent_def same_rows_def add_transfer_def
      split: option.splits job_state.splits)

lemma intent_cases:
  assumes "wf_db s" and "RecordEnqueueIntent cid u f dl now s = (s', i)"
  obtains (unchanged) "s' = s" "\<nexists>tid. i = Inr (tid, True)"
  | (queued) tid t where "i = Inr (tid, True)" "inflight cid s' \<le> Suc (inflight_but cid tid s')"
      "inflight_but cid tid s' \<le> inflight cid s" "not_cancelled cid s'"
      "t \<in> set (transfers s')" "tr_ID t = tid" "tr_Candidate t = cid" "live t"
proof (cases "\<exists>tid. i = Inr (tid, True)")
  case False
  moreover from this have "s' = s" using assms(2)
    by (auto simp: RecordEnqueueIntent_def split: option.splits job_state.splits if_splits)
  ultimately show ?thesis by (intro unchanged) auto
next
  case True
  then obtain tid where tid: "i = Inr (tid, True)" by blast
  have base: "base_ok s" "base_ok s'"
    using assms(1) wf_RecordEnqueueIntent [OF assms(1), of cid u f dl now] assms(2) by (simp_all add: wf_db_def)
  note after = intent_inflight [OF base(1) assms(2) [unfolded tid]]
  obtain t where "t \<in> set (transfers s')" "tr_ID t = tid" "tr_Candidate t = cid" "live t"
    using after(3) by (auto simp: live_def)
  with tid after inflight_but_one [OF base(2)] show ?thesis by (intro queued)
qed

text \<open>A refused enqueue takes the transfer out of flight unless the call that says so fails.\<close>

lemma enqueue_failed_alone:
  assumes "alone w" and wf: "wf_db (w_DB w)"
    and t: "t \<in> set (transfers (w_DB w))" "tr_ID t = tid" "tr_Candidate t = cid" "live t"
    and "not_cancelled cid (w_DB w)"
    and run: "run_state (enqueue_failed l p tid now) w = (x, w')"
  shows "alone w'" "wf_db (w_DB w')" "same_rows (w_DB w) (w_DB w')"
    "inflight cid (w_DB w') + unanswered w' \<le> inflight_but cid tid (w_DB w) + unanswered w"
proof -
  let ?f = "if int (tr_Retries p) < lim_Retries l then RetryTransfer tid now
    else UpdateTransferProgress tid TErrored 0 0 now"
  obtain r where stored: "run_state (store_write ?f) w = (r, w')"
    using run by (auto simp: enqueue_failed_def split: prod.splits)
  note w' = alone_write [OF assms(1) stored]
  have base: "base_ok (w_DB w)" using wf by (simp add: wf_db_def)
  have out: "inflight cid (?f (w_DB w)) \<le> inflight_but cid tid (w_DB w)"
    using failed_inflight [OF base t assms(7)]
    by (auto simp: RetryTransfer_def UpdateTransferProgress_def sent_def progress_transfer_def)
  have f: "wf_db (?f (w_DB w))" "same_rows (w_DB w) (?f (w_DB w))"
    using wf by (simp_all add: wf_RetryTransfer wf_UpdateTransferProgress same_rows_def)
  show "alone w'" using w' by simp
  show "wf_db (w_DB w')" using w' f(1) wf by auto
  show "same_rows (w_DB w) (w_DB w')" using w' f(2) by (auto simp: same_rows_def)
  from w' show "inflight cid (w_DB w') + unanswered w' \<le> inflight_but cid tid (w_DB w) + unanswered w"
  proof (elim conjE disjE)
    assume "w_DB w' = w_DB w" "Suc (unanswered w') = unanswered w"
    then show ?thesis using inflight_but_one [OF base, of cid tid] by simp
  next
    assume "w_DB w' = ?f (w_DB w)" "unanswered w' \<le> unanswered w"
    then show ?thesis using out by simp
  qed
qed

text \<open>The measure of the loop: the transfers in flight and the failures still to come.\<close>

definition spent :: "nat \<Rightarrow> 'n world \<Rightarrow> int" where
  "spent cid w = int (inflight cid (w_DB w)) + int (unanswered w)"

definition sent_within :: "nat \<Rightarrow> 'n world \<Rightarrow> 'n world \<Rightarrow> int \<Rightarrow> bool" where
  "sent_within cid w w' n \<longleftrightarrow> alone w' \<and> wf_db (w_DB w') \<and> same_rows (w_DB w) (w_DB w') \<and> spent cid w' \<le> n"

lemma sent_within_trans:
  "\<lbrakk>sent_within cid v w' m; same_rows (w_DB w) (w_DB v); m \<le> n\<rbrakk> \<Longrightarrow> sent_within cid w w' n"
  by (auto simp: sent_within_def intro: same_rows_trans)

lemma send_loop_within:
  assumes "alone w" and "wf_db (w_DB w)" and "spent cid w \<le> n + u"
    and "run_state (send_loop b l cid now ps n k) w = (r, w')"
  shows "sent_within cid w w' (max n (lim_Inflight l) + u)"
  using assms
proof (induction ps arbitrary: w n k)
  case Nil
  then show ?case by (simp add: sent_within_def same_rows_def)
next
  case (Cons p ps)
  show ?case
  proof (cases "n \<ge> lim_Inflight l")
    case True
    with Cons.prems show ?thesis by (simp add: sent_within_def same_rows_def)
  next
    case room: False
    let ?op = "RecordEnqueueIntent cid (tr_Username p) (tr_Filename p) (now + lim_Deadline l) now"
    obtain s i where op: "?op (w_DB w) = (s, i)" by (metis surj_pair)
    have s: "wf_db s" "same_rows (w_DB w) s"
      using wf_RecordEnqueueIntent [OF Cons.prems(2)] intent_rows op by (metis fst_conv)+
    have grown: "int (inflight cid s) \<le> int (inflight cid (w_DB w)) + 1"
      using Cons.prems(2) op by (cases rule: intent_cases) auto
    obtain q v where intent: "run_state (store_try ?op) w = (q, v)" by (metis surj_pair)
    note run = Cons.prems(4) [unfolded send_loop.simps if_not_P [OF room]]
    from Cons.prems(1) intent show ?thesis
    proof (cases rule: alone_try)
      case failed
      then have "w' = v" using run intent by simp
      moreover have "spent cid v \<le> spent cid w" "wf_db (w_DB v)" "same_rows (w_DB w) (w_DB v)"
        using failed(2,4) grown op s Cons.prems(2) by (auto simp: spent_def same_rows_def)
      ultimately show ?thesis using failed(5) Cons.prems(3) by (simp add: sent_within_def)
    next
      case answered
      have v: "w_DB v = s" using answered(2) op by simp
      from Cons.prems(2) op show ?thesis
      proof (cases rule: intent_cases)
        case unchanged
        then have "w' = v"
          using run intent answered(1) op by (cases i) auto
        with unchanged v answered Cons.prems(2,3) show ?thesis
          by (simp add: sent_within_def spent_def same_rows_def)
      next
        case (queued tid t)
        obtain a z where ask: "run_state (Enqueue b (tr_Username p) (tr_Filename p) (tr_BytesTotal p)) v = (a, z)"
          by (metis surj_pair)
        note net = net_outside(1) [OF ask]
        have z: "alone z" "w_DB z = s" "unanswered z = unanswered w" using net v answered by simp_all
        show ?thesis
        proof (cases a)
          case (Inl e)
          obtain x z' where fail: "run_state (enqueue_failed l p tid now) z = (x, z')" by (metis surj_pair)
          have "t \<in> set (transfers (w_DB z))" "not_cancelled cid (w_DB z)" "wf_db (w_DB z)"
            using queued s z by simp_all
          note out = enqueue_failed_alone [OF z(1) this(3,1) queued(6-8) this(2) fail]
          have rest: "run_state (send_loop b l cid now ps n k) z' = (r, w')"
            using run intent answered(1) op queued(1) ask Inl fail by simp
          have "spent cid z' \<le> n + u"
            using out(4) queued(3) z Cons.prems(3) by (simp add: spent_def)
          from Cons.IH [OF out(1,2) this rest] show ?thesis
            by (rule sent_within_trans) (use s(2) out(3) z(2) in \<open>auto intro: same_rows_trans\<close>)
        next
          case (Inr rid)
          let ?at = "AttachTransferID tid rid now"
          obtain y z' where attach: "run_state (store_call ?at) z = (y, z')" by (metis surj_pair)
          have rows: "same_rows (w_DB w) (fst (?at s))" "wf_db (fst (?at s))" "inflight cid (fst (?at s)) = inflight cid s"
            using s wf_AttachTransferID by (simp_all add: same_rows_def)
          have flight: "int (inflight cid s) + int (unanswered w) \<le> n + 1 + u"
            using queued(2,3) Cons.prems(3) by (simp add: spent_def)
          have z': "alone z'" "wf_db (w_DB z')" "same_rows (w_DB w) (w_DB z')" "spent cid z' \<le> n + 1 + u"
            using z(1) attach
            by (cases rule: alone_call; use z rows s flight in \<open>auto simp: spent_def\<close>)+
          show ?thesis
          proof (cases "y = Inr True")
            case True
            have "run_state (send_loop b l cid now ps (n + 1) (Suc k)) z' = (r, w')"
              using run intent answered(1) op queued(1) ask Inr attach True by simp
            from Cons.IH [OF z'(1,2,4) this] show ?thesis
              by (rule sent_within_trans) (use z'(3) room in auto)
          next
            case False
            obtain y' w2 where cancel: "run_state (Cancel b (tr_Username p) rid) z' = (y', w2)" by (metis surj_pair)
            have "w' = w2"
              using run intent answered(1) op queued(1) ask Inr attach False cancel
              by (auto split: sum.splits)
            with net_outside(2) [OF cancel] z' room show ?thesis
              by (simp add: sent_within_def spent_def)
          qed
        qed
      qed
    qed
  qed
qed


section \<open>The reservation\<close>

text \<open>
  A candidate's files share their folder, so the loop registers once; the rest of it skips the files
  and clears the deferral.
\<close>

lemma reserve_loop_seen:
  "\<lbrakk>\<forall>f \<in> set fs. commonLeaf [tr_Filename f] = leaf; leaf \<in> set seen\<rbrakk> \<Longrightarrow>
   reserve_loop tx i cid now dl seen fs = do {
     _ \<leftarrow> store_write (ClearCandidateDeferral cid);
     return (Inr True) }"
  by (induction fs) (simp_all add: Let_def)

lemma reserve_one_folder:
  assumes "\<forall>f \<in> set (f # fs). commonLeaf [tr_Filename f] = leaf" and "leaf \<noteq> []"
  shows "reserve_loop tx i cid now dl [] (f # fs) = do {
     r \<leftarrow> store_try (RegisterDownloadFolder (tx_Lower tx) i leaf now);
     case r of
       Inr (owner, False) \<Rightarrow> do {
         d \<leftarrow> deferForFolder tx i cid leaf owner now dl;
         case d of Inl e \<Rightarrow> return (Inl e) | Inr _ \<Rightarrow> return (Inr False) }
     | _ \<Rightarrow> do {
         _ \<leftarrow> store_write (ClearCandidateDeferral cid);
         return (Inr True) } }"
proof -
  have "reserve_loop tx i cid now dl [leaf] fs = do {
     _ \<leftarrow> store_write (ClearCandidateDeferral cid);
     return (Inr True) }"
    using assms(1) by (intro reserve_loop_seen) auto
  then show ?thesis
    using assms
    by (auto simp: Let_def fun_eq_iff split: sum.split prod.split bool.split
        intro!: arg_cong [where f = "(\<bind>) (store_try (RegisterDownloadFolder (tx_Lower tx) i leaf now))"])
qed

text \<open>However its calls end, waiting for a folder asks for nothing and moves no transfer.\<close>

definition waits :: "'n world \<Rightarrow> 'n world \<Rightarrow> bool" where
  "waits w w' \<longleftrightarrow> alone w' \<and> same_outside w w' \<and> transfers (w_DB w') = transfers (w_DB w)
     \<and> unanswered w' \<le> unanswered w"

lemma waits_trans: "waits w v \<Longrightarrow> waits v u \<Longrightarrow> waits w u"
  by (auto simp: waits_def same_outside_def)

lemma waits_refl: "alone w \<Longrightarrow> waits w w"
  by (simp add: waits_def)

lemma waits_call:
  assumes "alone w" and "run_state (store_call op) w = (r, v)" and "\<And>s. transfers (fst (op s)) = transfers s"
  shows "waits w v"
  using assms(1,2) by (cases rule: alone_call) (use assms(3) in \<open>auto simp: waits_def\<close>)

lemma waits_try:
  assumes "alone w" and "run_state (store_try op) w = (r, v)" and "\<And>s. transfers (fst (op s)) = transfers s"
  shows "waits w v"
  using assms(1,2) by (cases rule: alone_try) (use assms(3) in \<open>auto simp: waits_def\<close>)

lemma waits_write:
  assumes "alone w" and "run_state (store_write f) w = (r, v)" and "\<And>s. transfers (f s) = transfers s"
  shows "waits w v"
  using waits_call [OF assms(1), of _ r v] assms(2,3) by (simp add: store_write_def)

lemma clear_transfers: "transfers (ClearCandidateDeferral cid s) = transfers s"
  by (simp add: ClearCandidateDeferral_def)

lemma register_transfers: "transfers (fst (RegisterDownloadFolder lower i leaf now s)) = transfers s"
  using register_other(3) [of lower i leaf now s] by (metis surj_pair fst_conv)

lemma waits_defer:
  assumes "alone w" and "run_state (deferForFolder tx i cid leaf owner now dl) w = (x, w')"
  shows "waits w w'"
proof -
  obtain r v where dc: "run_state (store_call (DeferCandidate cid now)) w = (r, v)" by (metis surj_pair)
  have v: "waits w v"
    by (rule waits_call [OF assms(1) dc]) (auto simp: DeferCandidate_def Let_def split: option.splits)
  then have alone: "alone v" by (simp add: waits_def)
  show ?thesis
  proof (cases r)
    case (Inl e)
    with assms(2) dc v show ?thesis by (simp add: deferForFolder_def)
  next
    case (Inr y)
    obtain since first where y: "y = (since, first)" by (metis surj_pair)
    note run = assms(2) [unfolded deferForFolder_def]
    consider (first) "first" | (later) "\<not> first" "since = 0 \<or> now - since \<le> dl"
      | (over) "\<not> first" "\<not> (since = 0 \<or> now - since \<le> dl)" by blast
    then show ?thesis
    proof cases
      case first
      obtain z u where ev: "run_state (store_write (AddJobEvent i EventCandidateDeferred
          (deferred_detail tx leaf owner) now)) v = (z, u)" by (metis surj_pair)
      have "w' = u" using run dc Inr y first ev by (simp add: AddJobEvent_best_def)
      then show ?thesis using waits_trans [OF v waits_write [OF alone ev]] by (simp add: AddJobEvent_def)
    next
      case later
      then show ?thesis using run dc Inr y v by auto
    next
      case over
      obtain z u where fail: "run_state (store_try (FailCandidateAndAdvance ReleaseDir cid i
          (ceiling_reason tx leaf owner dl) Downloading Selecting now)) v = (z, u)" by (metis surj_pair)
      have "w' = u" using run dc Inr y over fail by (auto split: sum.splits)
      then show ?thesis
        using waits_trans [OF v waits_try [OF alone fail]]
        by (simp add: FailCandidateAndAdvance_def terminal_transfers)
    qed
  qed
qed

lemma waits_reserve:
  assumes "alone w" and "run_state (reserve_loop tx i cid now dl seen fs) w = (x, w')"
  shows "waits w w'"
  using assms
proof (induction fs arbitrary: w seen)
  case Nil
  obtain z u where "run_state (store_write (ClearCandidateDeferral cid)) w = (z, u)" by (metis surj_pair)
  with Nil waits_write [OF Nil(1) this] show ?case by (simp add: clear_transfers)
next
  case (Cons f fs)
  define leaf where "leaf = commonLeaf [tr_Filename f]"
  show ?case
  proof (cases "leaf = [] \<or> leaf \<in> set seen")
    case True
    then have "run_state (reserve_loop tx i cid now dl seen fs) w = (x, w')"
      using Cons.prems(2) by (simp add: Let_def leaf_def)
    from Cons.IH [OF Cons.prems(1) this] show ?thesis .
  next
    case new: False
    obtain r v where reg: "run_state (store_try (RegisterDownloadFolder (tx_Lower tx) i leaf now)) w = (r, v)"
      by (metis surj_pair)
    have v: "waits w v" by (rule waits_try [OF Cons.prems(1) reg]) (rule register_transfers)
    then have alone: "alone v" by (simp add: waits_def)
    note run = Cons.prems(2) [unfolded reserve_loop.simps Let_def leaf_def [symmetric] if_not_P [OF new]]
    show ?thesis
    proof (cases "\<exists>owner. r = Inr (owner, False)")
      case False
      then have "run_state (reserve_loop tx i cid now dl (leaf # seen) fs) v = (x, w')"
        using run reg by (cases r) auto
      from waits_trans [OF v Cons.IH [OF alone this]] show ?thesis .
    next
      case True
      then obtain owner where r: "r = Inr (owner, False)" by blast
      obtain d u where d: "run_state (deferForFolder tx i cid leaf owner now dl) v = (d, u)" by (metis surj_pair)
      have "w' = u" using run reg r d by (auto split: sum.splits)
      with waits_trans [OF v waits_defer [OF alone d]] show ?thesis by simp
    qed
  qed
qed

section \<open>The whole top-up\<close>

text \<open>
  The three ways through: the read fails; the reservation ends the tick; or the files are sent.
\<close>

lemma topUp_ways:
  assumes "alone w" and "run_state (topUpCandidate tx b l i cid now) w = (x, w')"
    and "n = int (inflight cid (w_DB w))" and "ps = pending_of (TransfersForCandidate cid (w_DB w))"
  obtains (unread) e where "x = (0, Some e)" "waits w w'"
  | (full) v where "\<not> (lim_Inflight l > n \<and> ps \<noteq> [])" "waits w v" "w_DB v = w_DB w"
      "run_state (send_loop b l cid now ps n 0) v = (x, w')"
  | (room) v ok u where "lim_Inflight l > n" "ps \<noteq> []" "waits w v" "w_DB v = w_DB w" "w_Turns v = tl (w_Turns w)"
      "run_state (reserve_loop tx i cid now (lim_Deadline l) [] (take (nat (lim_Inflight l - n)) ps)) v = (ok, u)"
      "waits v u"
      "if ok = Inr True then run_state (send_loop b l cid now ps n 0) u = (x, w') else w' = u \<and> fst x = 0
         \<and> (ok = Inr False \<longrightarrow> snd x = None)"
proof -
  obtain r v where read: "run_state (store_read (TransfersForCandidate cid)) w = (r, v)" by (metis surj_pair)
  note got = alone_read [OF assms(1) read]
  have v: "waits w v" "alone v" using got by (simp_all add: waits_def)
  note run = assms(2) [unfolded topUpCandidate_def reserveDownloadFolders_def Let_def]
  show thesis
  proof (cases r)
    case (Inl e)
    with run read v show thesis by (intro unread [of e]) simp_all
  next
    case (Inr ts)
    then have ts: "ts = TransfersForCandidate cid (w_DB w)" using got by auto
    show thesis
    proof (cases "lim_Inflight l > n \<and> ps \<noteq> []")
      case False
      then have "run_state (send_loop b l cid now ps n 0) v = (x, w')"
        using run read Inr ts assms(3,4) by (auto simp: inflight_of_eq split: if_splits)
      with False v got show thesis by (intro full [of v]) simp_all
    next
      case True
      obtain ok u where res: "run_state (reserve_loop tx i cid now (lim_Deadline l) []
          (take (nat (lim_Inflight l - n)) ps)) v = (ok, u)" by (metis surj_pair)
      have "if ok = Inr True then run_state (send_loop b l cid now ps n 0) u = (x, w') else w' = u \<and> fst x = 0
         \<and> (ok = Inr False \<longrightarrow> snd x = None)"
        using run read Inr ts assms(3,4) True res
        by (auto simp: inflight_of_eq split: sum.splits bool.splits if_splits)
      with True v got res waits_reserve [OF v(2) res] show thesis by (intro room [of v ok u]) simp_all
    qed
  qed
qed

lemma waits_inflight: "waits w v \<Longrightarrow> inflight cid (w_DB v) = inflight cid (w_DB w)"
  by (simp add: waits_def inflight_def)

lemma reserve_wf:
  assumes "alone w" and "wf_db (w_DB w)" and "knows (cid, i) (w_DB w)"
    and "run_state (reserve_loop tx i cid now dl seen fs) w = (x, w')"
  shows "wf_db (w_DB w')"
proof -
  have "others_ok (w_Turns w)" using assms(1) by (auto simp: alone_def list_all_iff others_ok_def)
  then have "runs_from (w_DB w) {(cid, i)} w" using assms(2,3) by (simp add: runs_from_def)
  moreover have "keeps (runs_from (w_DB w) {(cid, i)}) (reserve_loop tx i cid now dl seen fs)"
    by (rule keeps_reserve_loop) simp
  ultimately have "runs_from (w_DB w) {(cid, i)} w'" using keepsD assms(4) by fastforce
  then show ?thesis by (rule runs_from_wf)
qed

text \<open>Each call that fails during the top-up costs at most one transfer beyond the limit.\<close>

lemma topUp_within:
  assumes "alone w" and "wf_db (w_DB w)" and "knows (cid, i) (w_DB w)"
    and "run_state (topUpCandidate tx b l i cid now) w = (x, w')"
  shows "int (inflight cid (w_DB w')) + int (unanswered w')
    \<le> max (int (inflight cid (w_DB w))) (lim_Inflight l) + int (unanswered w)"
proof -
  let ?n = "int (inflight cid (w_DB w))" and ?ps = "pending_of (TransfersForCandidate cid (w_DB w))"
  have send: "spent cid w' \<le> max ?n (lim_Inflight l) + int (unanswered w)"
    if v: "waits w v" "wf_db (w_DB v)" and loop: "run_state (send_loop b l cid now ?ps ?n 0) v = (x, w')" for v
  proof -
    have "alone v" "spent cid v \<le> ?n + int (unanswered w)"
      using v(1) waits_inflight [OF v(1), of cid] by (simp_all add: waits_def spent_def)
    from send_loop_within [OF this(1) v(2) this(2) loop] show ?thesis by (simp add: sent_within_def)
  qed
  have still: "spent cid u \<le> max ?n (lim_Inflight l) + int (unanswered w)" if "waits w u" for u
  proof -
    have "unanswered u \<le> unanswered w" using that by (simp add: waits_def)
    moreover have "?n \<le> max ?n (lim_Inflight l)" by simp
    ultimately show ?thesis unfolding spent_def waits_inflight [OF that] by linarith
  qed
  from assms(1,4) refl refl have "spent cid w' \<le> max ?n (lim_Inflight l) + int (unanswered w)"
  proof (cases rule: topUp_ways)
    case unread
    from still [OF unread(2)] show ?thesis .
  next
    case (full v)
    with assms(2) show ?thesis by (intro send) simp_all
  next
    case (room v ok u)
    have "alone v" using room(3) by (simp add: waits_def)
    then have "wf_db (w_DB u)" using reserve_wf [of v cid i] room(4,6) assms(2,3) by metis
    moreover have "waits w u" by (rule waits_trans [OF room(3,7)])
    ultimately show ?thesis using room(8) send [of u] still [of u] by (auto split: if_splits)
  qed
  then show ?thesis by (simp add: spent_def)
qed

text \<open>
  When the registration is answered, a file is asked for only while the folder is the job's own,
  however the other calls end.
\<close>

lemma answered_tl: "answered_at 1 w \<Longrightarrow> w_Turns v = tl (w_Turns w) \<Longrightarrow> answered_at 0 v"
  by (cases "w_Turns w") (auto simp: answered_at_def)

lemma clear_holds:
  "holds_folder lower i leaf (ClearCandidateDeferral cid s) = holds_folder lower i leaf s"
  by (simp add: holds_folder_def uncleaned_def folder_owner_None in_slot_def the_job_def ClearCandidateDeferral_def)

lemma reserve_answered:
  assumes "alone w" and "answered_at 0 w" and leaf: "\<forall>t \<in> set fs. commonLeaf [tr_Filename t] = leaf"
    and "leaf \<noteq> []" and "fs \<noteq> []" and "the_job i (w_DB w) \<noteq> None"
    and run: "run_state (reserve_loop tx i cid now dl [] fs) w = (ok, w')"
  shows "case folder_owner (tx_Lower tx) i leaf (w_DB w) of
      None \<Rightarrow> ok = Inr True \<and> holds_folder (tx_Lower tx) i leaf (w_DB w')
    | Some owner \<Rightarrow> ok \<noteq> Inr True"
proof -
  obtain f gs where fs: "fs = f # gs" using assms(5) by (cases fs) auto
  let ?op = "RegisterDownloadFolder (tx_Lower tx) i leaf now"
  obtain r v where reg: "run_state (store_try ?op) w = (r, v)" by (metis surj_pair)
  note run = run [unfolded fs, unfolded reserve_one_folder [OF leaf [unfolded fs] assms(4)]]
  have valid: "validDownloadLeaf leaf" using commonLeaf_valid [of "[tr_Filename f]"] leaf assms(4) fs by auto
  from assms(1) reg have ans: "r = flatten (Inr (snd (?op (w_DB w))))" "w_DB v = fst (?op (w_DB w))" "alone v"
    by (cases rule: alone_try; use assms(2) in simp)+
  show ?thesis
  proof (cases "folder_owner (tx_Lower tx) i leaf (w_DB w)")
    case (Some owner)
    then have "r = Inr (owner, False)" using ans(1) valid by (simp add: RegisterDownloadFolder_def)
    then have "ok \<noteq> Inr True" using run reg by (auto split: prod.splits sum.splits)
    with Some show ?thesis by simp
  next
    case None
    then have y: "snd (?op (w_DB w)) = Inr (0, True)"
      using valid assms(6) by (auto simp: RegisterDownloadFolder_def split: option.splits if_splits)
    have "holds_folder (tx_Lower tx) i leaf (w_DB v)"
      using register_holds(1) [of "tx_Lower tx" i leaf now "w_DB w" "w_DB v" 0] y ans(2) by (simp add: prod_eq_iff)
    moreover obtain z u where cl: "run_state (store_write (ClearCandidateDeferral cid)) v = (z, u)"
      by (metis surj_pair)
    moreover have "ok = Inr True \<and> w' = u" using run reg ans(1) y cl by simp
    moreover note alone_write [OF ans(3) cl]
    ultimately have "ok = Inr True \<and> holds_folder (tx_Lower tx) i leaf (w_DB w')" by (auto simp: clear_holds)
    with None show ?thesis by simp
  qed
qed

lemma pending_leaf:
  assumes "\<forall>t \<in> set (TransfersForCandidate cid s). tr_State t = TPending \<longrightarrow> commonLeaf [tr_Filename t] = leaf"
  shows "\<forall>t \<in> set (take k (pending_of (TransfersForCandidate cid s))). commonLeaf [tr_Filename t] = leaf"
proof
  fix t assume "t \<in> set (take k (pending_of (TransfersForCandidate cid s)))"
  then have "t \<in> set (pending_of (TransfersForCandidate cid s))" by (rule in_set_takeD)
  then show "commonLeaf [tr_Filename t] = leaf" using assms by (simp add: set_pending_of)
qed

lemma topUp_own_folder:
  assumes "alone w" and "answered_at 1 w" and "wf_db (w_DB w)" and "knows (cid, i) (w_DB w)"
    and "the_job i (w_DB w) \<noteq> None"
    and "run_state (topUpCandidate tx b l i cid now) w = (x, w')"
    and leaf: "\<forall>t \<in> set (TransfersForCandidate cid (w_DB w)). tr_State t = TPending \<longrightarrow> commonLeaf [tr_Filename t] = leaf"
    and "leaf \<noteq> []" and calls: "w_Calls w' \<noteq> w_Calls w"
  shows "holds_folder (tx_Lower tx) i leaf (w_DB w')"
  using assms(1,6) refl refl
proof (cases rule: topUp_ways)
  case unread
  with calls show ?thesis by (simp add: waits_def same_outside_def)
next
  case (full v)
  then have "w' = v" using send_loop_calls [OF full(4)] by auto
  with full(2) calls show ?thesis by (simp add: waits_def same_outside_def)
next
  case (room v ok u)
  let ?n = "int (inflight cid (w_DB w))"
  have "alone v" using room(3) by (simp add: waits_def)
  note answer = reserve_answered [OF this answered_tl [OF assms(2) room(5)] pending_leaf [OF leaf] assms(8) _ _ room(6)]
  have "take (nat (lim_Inflight l - ?n)) (pending_of (TransfersForCandidate cid (w_DB w))) \<noteq> []"
    using room(1,2) by simp
  note answer = answer [OF this]
  have u: "alone u" "wf_db (w_DB u)" "waits w u"
    using waits_trans [OF room(3,7)] reserve_wf [OF \<open>alone v\<close> _ _ room(6)] room(4) assms(3,4)
    by (simp_all add: waits_def)
  show ?thesis
  proof (cases "ok = Inr True")
    case True
    have loop: "run_state (send_loop b l cid now (pending_of (TransfersForCandidate cid (w_DB w))) ?n 0) u = (x, w')"
      using room(8) True by simp
    have "spent cid u \<le> ?n + int (unanswered u)" using waits_inflight [OF u(3), of cid] by (simp add: spent_def)
    from send_loop_within [OF u(1,2) this loop] have "same_rows (w_DB u) (w_DB w')" by (simp add: sent_within_def)
    moreover have "holds_folder (tx_Lower tx) i leaf (w_DB u)"
      using answer True assms(5) room(4) by (auto split: option.splits)
    ultimately show ?thesis using holds_rows by blast
  next
    case False
    with room(8) u(3) calls show ?thesis by (simp add: waits_def same_outside_def)
  qed
qed

text \<open>A candidate whose folder another job holds makes no call, whatever fails but the registration.\<close>

lemma topUp_blocked_silent:
  assumes "alone w" and "answered_at 1 w" and "the_job i (w_DB w) \<noteq> None"
    and leaf: "\<forall>t \<in> set (TransfersForCandidate cid (w_DB w)). tr_State t = TPending \<longrightarrow> commonLeaf [tr_Filename t] = leaf"
    and "leaf \<noteq> []" and "folder_owner (tx_Lower tx) i leaf (w_DB w) \<noteq> None"
    and "run_state (topUpCandidate tx b l i cid now) w = (x, w')"
  shows "fst x = 0 \<and> waits w w'"
  using assms(1,7) refl refl
proof (cases rule: topUp_ways)
  case unread
  then show ?thesis by simp
next
  case (full v)
  then have "w' = v \<and> fst x = 0"
    by (cases "pending_of (TransfersForCandidate cid (w_DB w))") auto
  with full(2) show ?thesis by simp
next
  case (room v ok u)
  have "alone v" using room(3) by (simp add: waits_def)
  note answer = reserve_answered [OF this answered_tl [OF assms(2) room(5)] pending_leaf [OF leaf] assms(5) _ _ room(6)]
  have "ok \<noteq> Inr True"
    using answer assms(3,6) room(1,2,4) by (auto split: option.splits)
  with room(8) waits_trans [OF room(3,7)] show ?thesis by simp
qed

end
