(* ===== verification/ImportingFiles.thy ===== *)
theory ImportingFiles
  imports ImportingFacts "HOL-Library.Sublist"
begin

text \<open>
  What the import of a job does outside the database: the files on disk, which only a deduplication
  takes away and only a quarantine or the way back from it moves, and the calls an attempt ends with.
\<close>

section \<open>What leaves the files and the calls alone\<close>

definition outside :: "(tree \<Rightarrow> bool list \<Rightarrow> peer_call list \<Rightarrow> bool) \<Rightarrow> 'n world \<Rightarrow> bool" where
  "outside Q w \<longleftrightarrow> Q (w_Files w) (w_Faults w) (w_Calls w)"

lemma outside_store: "keeps (outside Q) (store_call op)"
  by (auto simp: keeps_def triple_def outside_def store_call_def Let_def split: list.split reply.split)

lemma outside_history: "keeps (outside Q) (history_call op)"
  by (auto simp: keeps_def triple_def outside_def history_call_def Let_def split: list.split reply.split)

lemma outside_kept [keeps_rules]:
  "keeps (outside Q) (store_call op)" "keeps (outside Q) (store_read q)"
  "keeps (outside Q) (store_write f)" "keeps (outside Q) (store_try op')"
  "keeps (outside Q) (history_read hq)" "keeps (outside Q) (history_write hf)"
  "keeps (outside Q) (AddJobEvent_best i ev d now)" "keeps (outside Q) (recordOutcome job u ok now)"
  "keeps (outside Q) (markCleaned tx i leaf now)"
  unfolding store_read_def store_write_def store_try_def history_read_def history_write_def
    AddJobEvent_best_def recordOutcome_def markCleaned_def
  by (intro keeps_bind keeps_return outside_store outside_history)+

lemma outside_asked [keeps_rules]: "keeps (outside Q) (music_call op [])"
  by (auto simp: keeps_def triple_def outside_def music_run)

lemma outside_parts [keeps_rules]:
  "keeps (outside Q) (routeNotImported job c detail now)" "keeps (outside Q) (failUnconfirmed job c detail now)"
  "keeps (outside Q) (albumAlreadyComplete mu job)" "keeps (outside Q) (required_tracks mu job)"
  "keeps (outside Q) (repeatedRejectionCap p i reason)" "keeps (outside Q) (recordPark i reason now)"
  unfolding routeNotImported_def failUnconfirmed_def albumAlreadyComplete_def required_tracks_def
    repeatedRejectionCap_def recordPark_def
  by (intro keeps_rules)+

text \<open>The disk, whatever is asked of the others; and the files on it, whatever call is to fail.\<close>

abbreviation on_disk :: "(tree \<Rightarrow> bool list \<Rightarrow> bool) \<Rightarrow> 'n world \<Rightarrow> bool" where
  "on_disk Q \<equiv> outside (\<lambda>t fs _. Q t fs)"

abbreviation on_files :: "(tree \<Rightarrow> bool) \<Rightarrow> 'n world \<Rightarrow> bool" where
  "on_files Q \<equiv> outside (\<lambda>t _ _. Q t)"

lemma files_read [keeps_rules]: "keeps (on_files Q) (os_read q)"
  by (auto simp: keeps_def triple_def outside_def os_read_def os_call_def split: list.split bool.split)

lemma disk_asked [keeps_rules]: "keeps (on_disk Q) (net_call op cs)" "keeps (on_disk Q) (music_call mop cs)"
  by (auto simp: keeps_def triple_def outside_def net_call_def music_run Let_def split: prod.split)

lemma disk_parts [keeps_rules]:
  "keeps (on_disk Q) (cleanupFolder tx b i now)" "keeps (on_disk Q) (submit mu job c items now)"
proof -
  have "keeps (on_disk Q) (cleanup_loop tx b i now leaves)" for leaves
    by (induction leaves) (auto simp: DeleteDownloadFolder_def intro!: keeps_rules)
  then show "keeps (on_disk Q) (cleanupFolder tx b i now)"
    unfolding cleanupFolder_def registeredFolders_def by (intro keeps_rules)
  show "keeps (on_disk Q) (submit mu job c items now)"
    unfolding submit_def by (intro keeps_rules)
qed

lemma disk_ends [keeps_rules]:
  "keeps (on_disk Q) (failCandidate tx b p job c reason fault now)"
  "keeps (on_disk Q) (escalateIfStuck tx b p job c reason now)"
  "keeps (on_disk Q) (resolveAlbumID tx b mu p job c now)"
  "keeps (on_disk Q) (coverage_gate tx b mu p job c folder items d now)"
proof -
  show fail: "keeps (on_disk Q) (failCandidate tx b p job c reason fault now)" for reason fault
    unfolding failCandidate_def by (intro keeps_rules)
  show escalate: "keeps (on_disk Q) (escalateIfStuck tx b p job c reason now)" for reason
    unfolding escalateIfStuck_def by (intro keeps_rules fail)
  show "keeps (on_disk Q) (resolveAlbumID tx b mu p job c now)"
    unfolding resolveAlbumID_def done_with_def by (intro keeps_rules escalate)
  show "keeps (on_disk Q) (coverage_gate tx b mu p job c folder items d now)"
    unfolding coverage_gate_def by (intro keeps_rules escalate fail)
qed

section \<open>What moves or removes files\<close>

text \<open>The files of \<open>t\<close>, all in place or those below one path moved to a free one.\<close>

definition shifted :: "tree \<Rightarrow> tree \<Rightarrow> bool" where
  "shifted t t' \<longleftrightarrow> tree_ok t'
     \<and> (regular_files t' = regular_files t
        \<or> (\<exists>src dst. node_at t dst = None \<and> regular_files t' = map (relocate src dst) (regular_files t)))"

lemma shifted_refl: "tree_ok t \<Longrightarrow> shifted t t"
  by (simp add: shifted_def)

lemma shifted_count: "shifted t t' \<Longrightarrow> length (regular_files t') = length (regular_files t)"
  by (auto simp: shifted_def)

text \<open>The audio files of a folder as deduplication reads them, and the duplicates among some of them.\<close>

definition audio_of :: "file_facts \<Rightarrow> string \<Rightarrow> (string \<times> node) list \<Rightarrow> dedup_file list" where
  "audio_of ff folder es =
     map (\<lambda>e. readFileMeta ff (path_Join folder (fst e)))
       (filter (\<lambda>e. snd e \<noteq> Directory \<and> ToLower (ff_Unicode ff) (Ext (fst e)) \<in> set audioExts) es)"

definition thinned :: "file_facts \<Rightarrow> string \<Rightarrow> tree \<Rightarrow> tree \<Rightarrow> bool" where
  "thinned ff folder t t' \<longleftrightarrow> tree_ok t'
     \<and> (\<exists>es files gone. os_ReadDir folder t = Inr es \<and> subseq files (audio_of ff folder es)
          \<and> gone \<subseteq> elements ` dd_Path ` set (dedupFiles files)
          \<and> regular_files t' = filter (\<lambda>p. p \<notin> gone) (regular_files t))"

lemma node_at_mem: "tree_ok t \<Longrightarrow> (p, n) \<in> set t \<Longrightarrow> node_at t p = Some n"
  using node_at_member [of t p n] by (force simp: tree_ok_def)

lemma Remove_ok:
  assumes ok: "tree_ok t" and rm: "os_Remove path t = Inr t'"
  shows "tree_ok t' \<and> regular_files t' = filter (\<lambda>p. p \<noteq> elements path) (regular_files t)
    \<and> (node_at t (elements path) = Some Directory \<longrightarrow> regular_files t' = regular_files t)"
proof -
  let ?p = "elements path"
  obtain n where n: "node_at t ?p = Some n" and p: "?p \<noteq> []" and leaf: "n = Directory \<longrightarrow> entries_of t ?p = []"
    and t': "t' = filter (\<lambda>e. fst e \<noteq> ?p) t"
    using rm by (auto simp: os_Remove_def split: option.splits if_splits)
  have parent: "butlast q \<noteq> ?p" if q: "(q, m) \<in> set t" for q m
  proof
    assume eq: "butlast q = ?p"
    have "q \<noteq> []" using q ok by (force simp: tree_ok_def)
    then obtain x where q': "q = ?p @ [x]" using eq append_butlast_last_id by metis
    have "node_at t ?p = Some Directory" using tree_okD [OF ok q] eq by simp
    with n leaf have "entries_of t ?p = []" by simp
    moreover have "(x, m) \<in> set (entries_of t ?p)"
      unfolding entries_of_def map_filter_def set_map
      by (rule image_eqI [of _ _ "(q, m)"]) (use q in \<open>simp_all add: q'\<close>)
    ultimately show False by simp
  qed
  have still: "node_at t' q = node_at t q" if "q \<noteq> ?p" for q
  proof -
    have "map_of (filter (\<lambda>e. fst e \<noteq> ?p) t) q = map_of t q" using that by (induction t) auto
    then show ?thesis by (simp add: node_at_def t')
  qed
  have "distinct (map fst t')" "[] \<notin> fst ` set t'"
    using ok by (auto simp: t' tree_ok_def distinct_map_filter)
  moreover have "node_at t' (butlast q) = Some Directory" if "(q, m) \<in> set t'" for q m
    using that tree_okD [OF ok, of q m] still [OF parent [of q m]] by (simp add: t')
  moreover have "regular_files t' = filter (\<lambda>p. p \<noteq> ?p) (regular_files t)"
    unfolding t' regular_files_def by (simp add: filter_map o_def conj_commute)
  moreover have "regular_files t' = regular_files t" if dir: "node_at t ?p = Some Directory"
  proof -
    have "(?p, RegularFile) \<notin> set t" using node_at_mem [OF ok] dir by force
    then show ?thesis unfolding t' regular_files_def
      by (auto simp: filter_filter intro!: arg_cong [where f = "map fst"] filter_cong)
  qed
  ultimately show ?thesis by (simp add: tree_ok_def)
qed

lemma remove_losers_files:
  assumes "tree_ok (w_Files w)" and "run_state (remove_losers ls removed) w = (x, w')"
  shows "tree_ok (w_Files w') \<and> (\<exists>gone \<subseteq> elements ` dd_Path ` set ls.
    regular_files (w_Files w') = filter (\<lambda>p. p \<notin> gone) (regular_files (w_Files w)))"
  using assms
proof (induction ls arbitrary: w removed)
  case Nil
  then show ?case by simp
next
  case (Cons l ls)
  obtain r v where rm: "run_state (os_write (os_Remove (dd_Path l))) w = (r, v)" by (metis surj_pair)
  note step = os_write_run [OF rm]
  have v: "tree_ok (w_Files v) \<and> (\<exists>g \<subseteq> {elements (dd_Path l)}.
      regular_files (w_Files v) = filter (\<lambda>p. p \<notin> g) (regular_files (w_Files w)))"
  proof (cases r)
    case (Inl e)
    then have "w_Files v = w_Files w" using step by simp
    with Cons.prems(1) show ?thesis by (intro conjI exI [of _ "{}"]) simp_all
  next
    case (Inr u)
    then have "os_Remove (dd_Path l) (w_Files w) = Inr (w_Files v)" using step by simp
    from Remove_ok [OF Cons.prems(1) this] show ?thesis
      by (intro conjI exI [of _ "{elements (dd_Path l)}"]) simp_all
  qed
  then obtain g where g: "g \<subseteq> {elements (dd_Path l)}"
    "regular_files (w_Files v) = filter (\<lambda>p. p \<notin> g) (regular_files (w_Files w))" by blast
  have "run_state (remove_losers ls (case r of Inl e \<Rightarrow> removed | Inr _ \<Rightarrow> removed @ [dd_Path l])) v = (x, w')"
    using Cons.prems(2) rm by simp
  from Cons.IH [OF conjunct1 [OF v] this] obtain gone where gone: "tree_ok (w_Files w')"
    "gone \<subseteq> elements ` dd_Path ` set ls"
    "regular_files (w_Files w') = filter (\<lambda>p. p \<notin> gone) (regular_files (w_Files v))" by blast
  show ?case
  proof (intro conjI exI [of _ "g \<union> gone"])
    show "g \<union> gone \<subseteq> elements ` dd_Path ` set (l # ls)" using g(1) gone(2) by auto
    show "regular_files (w_Files w') = filter (\<lambda>p. p \<notin> g \<union> gone) (regular_files (w_Files w))"
      by (simp add: gone(3) g(2) conj_commute)
  qed (rule gone(1))
qed

lemma audio_files_run:
  assumes "run_state (audio_files ff folder es) w = (fs, w')"
  shows "w_Files w' = w_Files w \<and> subseq fs (audio_of ff folder es)"
  using assms
proof (induction es arbitrary: w fs w')
  case Nil
  then show ?case by (simp add: audio_of_def)
next
  case (Cons e es)
  show ?case
  proof (cases "snd e = Directory \<or> ToLower (ff_Unicode ff) (Ext (fst e)) \<notin> set audioExts")
    case True
    then have "run_state (audio_files ff folder es) w = (fs, w')" using Cons.prems by simp
    from Cons.IH [OF this] True show ?thesis by (auto simp: audio_of_def)
  next
    case False
    obtain r v where stat: "run_state (os_read (os_Stat (path_Join folder (fst e)))) w = (r, v)" by (metis surj_pair)
    obtain rest u where more: "run_state (audio_files ff folder es) v = (rest, u)" by (metis surj_pair)
    have "w' = u" "fs = (case r of Inl err \<Rightarrow> rest | Inr n \<Rightarrow> readFileMeta ff (path_Join folder (fst e)) # rest)"
      using Cons.prems False stat more by simp_all
    moreover note Cons.IH [OF more] os_read_run [OF stat]
    ultimately show ?thesis using False by (auto simp: audio_of_def split: sum.split)
  qed
qed

lemma dedup_files:
  assumes ok: "tree_ok (w_Files w)" and run: "run_state (dedupAlbumFolder ff folder) w = (r, w')"
  shows "w_Files w' = w_Files w \<or> thinned ff folder (w_Files w) (w_Files w')"
proof -
  obtain q v where read: "run_state (os_read (os_ReadDir folder)) w = (q, v)" by (metis surj_pair)
  note v = os_read_run [OF read]
  show ?thesis
  proof (cases q)
    case (Inl e)
    with run read v show ?thesis by (simp add: dedupAlbumFolder_def)
  next
    case (Inr es)
    obtain fs u where audio: "run_state (audio_files ff folder es) v = (fs, u)" by (metis surj_pair)
    obtain x z where rm: "run_state (remove_losers (dedupFiles fs) []) u = (x, z)" by (metis surj_pair)
    note a = audio_files_run [OF audio]
    have u: "w_Files u = w_Files w" using a v by simp
    have z: "w' = z" using run read Inr audio rm by (simp add: dedupAlbumFolder_def)
    have es: "os_ReadDir folder (w_Files w) = Inr es" using v Inr by auto
    from remove_losers_files [OF _ rm] ok u obtain gone where gone: "tree_ok (w_Files z)"
      "gone \<subseteq> elements ` dd_Path ` set (dedupFiles fs)"
      "regular_files (w_Files z) = filter (\<lambda>p. p \<notin> gone) (regular_files (w_Files w))" by auto
    then have "thinned ff folder (w_Files w) (w_Files z)"
      unfolding thinned_def using es a by blast
    with z show ?thesis by simp
  qed
qed

section \<open>The import of a job\<close>

text \<open>
  The three things that can happen to the files, in this order: the way back from the quarantine, a
  deduplication of one folder, a move into the quarantine.
\<close>

definition files_kept :: "file_facts \<Rightarrow> tree \<Rightarrow> tree \<Rightarrow> bool" where
  "files_kept ff t t' \<longleftrightarrow>
     (\<exists>t1 t2. shifted t t1 \<and> (t2 = t1 \<or> (\<exists>folder. thinned ff folder t1 t2)) \<and> shifted t2 t')"

definition taken_back :: "file_facts \<Rightarrow> tree \<Rightarrow> tree \<Rightarrow> bool" where
  "taken_back ff t t' \<longleftrightarrow> tree_ok t' \<and> (\<exists>t1. shifted t t1 \<and> (t' = t1 \<or> (\<exists>folder. thinned ff folder t1 t')))"

lemma taken_back_kept: "taken_back ff t t' \<Longrightarrow> shifted t' t'' \<Longrightarrow> files_kept ff t t''"
  by (auto simp: taken_back_def files_kept_def)

lemma taken_back_keeps: "taken_back ff t t' \<Longrightarrow> files_kept ff t t'"
  by (rule taken_back_kept) (auto simp: taken_back_def intro: shifted_refl)

text \<open>The first look at the file system succeeds.\<close>

definition looks :: "'n world \<Rightarrow> bool" where
  "looks w \<longleftrightarrow> (case w_Faults w of [] \<Rightarrow> True | f # _ \<Rightarrow> \<not> f)"

lemma looks_read: "looks w \<Longrightarrow> run_state (os_read q) w = (r, v) \<Longrightarrow> r = q (w_Files w)"
  by (auto simp: looks_def os_read_def os_call_def split: list.splits bool.splits)

lemma source_files: "run_state (refusedQuarantineSource qdir leaf i) w = (x, v) \<Longrightarrow> w_Files v = w_Files w"
proof -
  assume run: "run_state (refusedQuarantineSource qdir leaf i) w = (x, v)"
  have "keeps (on_files (\<lambda>t. t = w_Files w)) (refusedQuarantineSource qdir leaf i)"
    unfolding refusedQuarantineSource_def Let_def by (intro keeps_rules)
  from keepsD [OF this, of w] run show ?thesis by (simp add: outside_def)
qed

lemma restore_files:
  assumes "tree_ok (w_Files w)" and "looks w"
    and run: "run_state (restoreRefusedFolder i dir folder) w = (x, w')"
  shows "shifted (w_Files w) (w_Files w')"
proof (cases "dir = [] \<or> Clean folder = Clean dir")
  case True
  with run assms(1) show ?thesis by (auto simp: restoreRefusedFolder_def intro: shifted_refl)
next
  case False
  obtain s v where stat: "run_state (os_read (os_Stat folder)) w = (s, v)" by (metis surj_pair)
  note v = os_read_run [OF stat] and s = looks_read [OF assms(2) stat]
  show ?thesis
  proof (cases "\<exists>n. s = Inr n \<or> isQuarantineDir (Base folder)")
    case True
    then have "w_Files w' = w_Files w"
      using run False stat v by (auto simp: restoreRefusedFolder_def split: sum.splits if_splits)
    with assms(1) show ?thesis by (simp add: shifted_refl)
  next
    case look: False
    then obtain e where e: "s = Inl e" by (cases s) auto
    have none: "node_at (w_Files w) (elements folder) = None"
      using s e by (auto simp: os_Stat_def split: option.splits)
    let ?root = "path_Join dir refusedDirName"
    obtain q u where src: "run_state (refusedQuarantineSource ?root (Base folder) i) v = (q, u)" by (metis surj_pair)
    have u: "w_Files u = w_Files w" using source_files [OF src] v by simp
    show ?thesis
    proof (cases q)
      case None
      then have "w' = u" using run False stat look e src by (simp add: restoreRefusedFolder_def)
      with u assms(1) show ?thesis by (simp add: shifted_refl)
    next
      case (Some kept)
      obtain z y where mv: "run_state (os_write (os_Rename kept folder)) u = (z, y)" by (metis surj_pair)
      have "w' = y" using run False stat look e src Some mv by (simp add: restoreRefusedFolder_def)
      with os_write_run [OF mv] u none assms(1) Rename_free [OF assms(1) none, of kept "w_Files y"] show ?thesis
        by (auto simp: shifted_def split: sum.splits)
    qed
  qed
qed

lemma completed_files:
  "keeps (on_files (\<lambda>t. tree_ok t \<and> regular_files t = rf) :: 'n world \<Rightarrow> bool) (completed_loop tx i dir now leaves)"
proof (induction leaves)
  case Nil
  show ?case by (simp add: keeps_return)
next
  case (Cons leaf leaves)
  let ?I = "on_files (\<lambda>t. tree_ok t \<and> regular_files t = rf) :: 'n world \<Rightarrow> bool" and ?p = "path_Join dir leaf"
  have empty: "keeps ?I (os_read (os_ReadDir ?p) \<bind> (\<lambda>r. (case r of
        Inr entries \<Rightarrow>
          if entries \<noteq> [] then markCleaned tx i leaf now
          else do {
            x \<leftarrow> os_write (os_Remove ?p);
            case x of Inl e \<Rightarrow> return () | Inr _ \<Rightarrow> markCleaned tx i leaf now }
      | Inl e \<Rightarrow> if e = NotExist then markCleaned tx i leaf now else return ()) \<bind> (\<lambda>_. completed_loop tx i dir now leaves)))"
    unfolding keeps_def
  proof (rule triple_bind)
    show "triple ?I (os_read (os_ReadDir ?p)) (\<lambda>r w. ?I w
        \<and> (r = Inr [] \<longrightarrow> node_at (w_Files w) (elements ?p) = Some Directory))"
      by (auto simp: triple_def outside_def os_read_def os_call_def os_ReadDir_def split: list.split bool.split option.splits node.splits)
    show "triple (\<lambda>w. ?I w \<and> (r = Inr [] \<longrightarrow> node_at (w_Files w) (elements ?p) = Some Directory))
        ((case r of
            Inr entries \<Rightarrow>
              if entries \<noteq> [] then markCleaned tx i leaf now
              else do {
                x \<leftarrow> os_write (os_Remove ?p);
                case x of Inl e \<Rightarrow> return () | Inr _ \<Rightarrow> markCleaned tx i leaf now }
          | Inl e \<Rightarrow> if e = NotExist then markCleaned tx i leaf now else return ()) \<bind> (\<lambda>_. completed_loop tx i dir now leaves))
        (\<lambda>_. ?I)" for r
    proof (cases "r = Inr []")
      case False
      have "keeps ?I ((case r of
            Inr entries \<Rightarrow>
              if entries \<noteq> [] then markCleaned tx i leaf now
              else do {
                x \<leftarrow> os_write (os_Remove ?p);
                case x of Inl e \<Rightarrow> return () | Inr _ \<Rightarrow> markCleaned tx i leaf now }
          | Inl e \<Rightarrow> if e = NotExist then markCleaned tx i leaf now else return ()) \<bind> (\<lambda>_. completed_loop tx i dir now leaves))"
        using False Cons by (cases r) (auto intro!: keeps_rules)
      with False show ?thesis by (auto simp: keeps_def intro: triple_weaken)
    next
      case True
      have "triple (\<lambda>w. ?I w \<and> node_at (w_Files w) (elements ?p) = Some Directory) (os_write (os_Remove ?p)) (\<lambda>_. ?I)"
        unfolding triple_def
      proof (intro allI impI)
        fix w :: "'n world"
        assume w: "?I w \<and> node_at (w_Files w) (elements ?p) = Some Directory"
        obtain y v where rm: "run_state (os_write (os_Remove ?p)) w = (y, v)" by (metis surj_pair)
        from os_write_run [OF rm] w Remove_ok [of "w_Files w" ?p "w_Files v"]
        show "?I (snd (run_state (os_write (os_Remove ?p)) w))"
          by (auto simp: rm outside_def split: sum.splits)
      qed
      moreover have "triple ?I ((case x of Inl e \<Rightarrow> return () | Inr _ \<Rightarrow> markCleaned tx i leaf now)
          \<bind> (\<lambda>_. completed_loop tx i dir now leaves)) (\<lambda>_. ?I)" for x :: "os_error + unit"
        unfolding keeps_def [symmetric] using Cons by (intro keeps_rules)
      ultimately show ?thesis
        using True by (simp add: triple_bind)
    qed
  qed
  show ?case
  proof (cases "leaf = quarantineDirName")
    case True
    with Cons show ?thesis by simp
  next
    case False
    with empty show ?thesis by simp
  qed
qed

lemma completed_folder_files:
  "keeps (on_files (\<lambda>t. tree_ok t \<and> regular_files t = rf)) (cleanupCompletedFolder tx i dir now)"
  unfolding cleanupCompletedFolder_def registeredFolders_def by (intro keeps_rules completed_files)


lemma shifted_taken_back: "shifted t t' \<Longrightarrow> taken_back ff t t'"
  unfolding taken_back_def shifted_def by blast

text \<open>Only the files that are there matter.\<close>

lemma taken_back_same: "\<lbrakk>taken_back ff t t'; tree_ok t''; regular_files t'' = regular_files t'\<rbrakk> \<Longrightarrow> taken_back ff t t''"
  unfolding taken_back_def shifted_def thinned_def by metis

lemma completed_taken_back: "keeps (on_files (taken_back ff t)) (cleanupCompletedFolder tx i dir now)"
  unfolding keeps_def triple_def
proof (intro allI impI)
  fix w :: "'a world" assume w: "on_files (taken_back ff t) w"
  let ?w = "snd (run_state (cleanupCompletedFolder tx i dir now) w)"
  have "on_files (\<lambda>u. tree_ok u \<and> regular_files u = regular_files (w_Files w)) ?w"
    by (rule keepsD [OF completed_folder_files]) (use w in \<open>simp add: outside_def taken_back_def\<close>)
  with w show "on_files (taken_back ff t) ?w" by (auto simp: outside_def intro: taken_back_same)
qed

lemma then_kept:
  "keeps (on_files (taken_back ff t)) m \<Longrightarrow> triple (on_files (taken_back ff t)) m (\<lambda>_. on_files (files_kept ff t))"
  unfolding keeps_def by (erule triple_weaken) (auto simp: outside_def taken_back_keeps)

lemma quarantine_shifts:
  assumes "\<And>t. R t \<Longrightarrow> tree_ok t" and "\<And>t t'. \<lbrakk>R t; shifted t t'\<rbrakk> \<Longrightarrow> K t'"
  shows "triple (on_files R) (quarantineFolder tx i dir leaf name) (\<lambda>_. on_files K)"
  unfolding triple_def
proof (intro allI impI)
  fix w :: "'a world" assume w: "on_files R w"
  obtain r v where run: "run_state (quarantineFolder tx i dir leaf name) w = (r, v)" by (metis surj_pair)
  have "R (w_Files w)" using w by (simp add: outside_def)
  with quarantineFolder_moves [OF assms(1) [OF this] run] have "shifted (w_Files w) (w_Files v)"
    by (auto simp: shifted_def split: option.splits)
  with assms(2) \<open>R (w_Files w)\<close> run show "on_files K (snd (run_state (quarantineFolder tx i dir leaf name) w))"
    by (simp add: outside_def)
qed

lemma refuse_shifts:
  assumes "\<And>t. R t \<Longrightarrow> tree_ok t" and "\<And>t t'. \<lbrakk>R t; shifted t t'\<rbrakk> \<Longrightarrow> K t'"
  shows "triple (on_files R) (refuseImport tx p job c folder rejs now) (\<lambda>_. on_files K)"
proof -
  have move: "triple (on_files R)
      (if ip_CompleteDir p \<noteq> [] \<and> Clean folder \<noteq> Clean (ip_CompleteDir p)
       then do {
         m \<leftarrow> quarantineFolder tx (job_ID job) (ip_CompleteDir p) (Base folder) refusedDirName;
         return (case m of None \<Rightarrow> d | Some dst \<Rightarrow> d @ ''; files kept in '' @ dst) }
       else return d) (\<lambda>_. on_files K)" for d
  proof (cases "ip_CompleteDir p \<noteq> [] \<and> Clean folder \<noteq> Clean (ip_CompleteDir p)")
    case True
    then show ?thesis by (simp add: triple_bind [OF quarantine_shifts [OF assms]] triple_return)
  next
    case False
    then show ?thesis
      by (simp only: if_False, intro triple_return) (auto simp: outside_def intro: assms(1) assms(2) shifted_refl)
  qed
  have rest: "keeps (on_files K) (do {
      _ \<leftarrow> recordOutcome job (cand_Username c) False now;
      r \<leftarrow> store_try (RejectCandidateAndAdvance ReleaseDir (cand_ID c) (job_ID job) reason Importing ImportRefused now);
      case r of
        Inl e \<Rightarrow> return (Inl e)
      | Inr _ \<Rightarrow> do {
          _ \<leftarrow> AddJobEvent_best (job_ID job) EventImportRefused d now;
          return (Inr ()) } })" for reason d
    by (intro keeps_rules)
  show ?thesis
    unfolding refuseImport_def Let_def
    by (rule triple_bind [OF move]) (use rest in \<open>simp add: keeps_def\<close>)
qed

lemma refuse_kept:
  "triple (on_files (taken_back ff t)) (refuseImport tx p job c folder rejs now) (\<lambda>_. on_files (files_kept ff t))"
  by (rule refuse_shifts [where R = "taken_back ff t"]) (simp add: taken_back_def, rule taken_back_kept)

lemma empty_kept:
  "triple (on_files (taken_back ff t)) (empty_preview tx b p job c folder now) (\<lambda>_. on_files (files_kept ff t))"
  unfolding empty_preview_def
  by (intro then_kept keeps_rules) (auto split: os_error.split list.split intro!: keeps_rules completed_taken_back)

lemma nothing_kept:
  "triple (on_files (taken_back ff t)) (nothing_importable tx b mu p job c folder rejs now)
    (\<lambda>_. on_files (files_kept ff t))"
  unfolding nothing_importable_def
proof (rule triple_keeps_bind)
  fix a :: "run_error + bool"
  show "triple (on_files (taken_back ff t)) (if a = Inr True then do {
       _ \<leftarrow> AddJobEvent_best (job_ID job) EventAttemptSucceeded
         (''import rejected but album already complete in Lidarr (folder '' @ folder @ ''): ''
          @ Join ''; '' (Reasons rejs)) now;
       s \<leftarrow> store_try (SucceedCandidateAndAdvance ReleaseDir (cand_ID c) (job_ID job) Importing Done now);
       case s of
         Inl e \<Rightarrow> return (Inl e)
       | Inr _ \<Rightarrow> do {
           _ \<leftarrow> cleanupFolder tx b (job_ID job) now;
           return (Inr ()) } }
     else if AnyPermanent rejs then refuseImport tx p job c folder rejs now
     else do {
       _ \<leftarrow> AddJobEvent_best (job_ID job) EventImportRejected
         (''import rejected (folder '' @ folder @ ''): '' @ Join ''; '' (Reasons rejs)) now;
       failCandidate tx b p job c ReasonImportRejected True now }) (\<lambda>_. on_files (files_kept ff t))"
    by (simp only: split: if_split) (intro conjI impI then_kept refuse_kept keeps_rules)
qed (intro keeps_rules)

lemma judge_kept:
  "triple (on_files (taken_back ff t)) (judge_preview tx b mu p job c folder items k removed now)
    (\<lambda>_. on_files (files_kept ff t))"
proof -
  have gate: "keeps (on_files (taken_back ff t)) (coverage_gate tx b mu p job c folder its d now)" for its d
    by (intro keeps_rules)
  show ?thesis
    unfolding judge_preview_def Let_def
    by (cases "items = []"; cases "filter matched_item items = []")
      (simp_all only: if_True if_False simp_thms empty_kept nothing_kept then_kept [OF gate])
qed

text \<open>From the start of the import, when the disk is as it was.\<close>

definition disk_is :: "tree \<Rightarrow> tree \<Rightarrow> bool list \<Rightarrow> bool" where
  "disk_is t t' fs \<longleftrightarrow> t' = t \<and> tree_ok t \<and> (case fs of [] \<Rightarrow> True | f # _ \<Rightarrow> \<not> f)"

lemma disk_kept: "disk_is t t' fs \<Longrightarrow> files_kept ff t t'"
  by (auto simp: disk_is_def intro: taken_back_keeps shifted_taken_back shifted_refl)

lemma album_dedup_taken_back:
  "triple (on_files (shifted t)) (dedupAlbumFolder ff folder) (\<lambda>_. on_files (taken_back ff t))"
  unfolding triple_def
proof (intro allI impI)
  fix w :: "'a world" assume w: "on_files (shifted t) w"
  obtain r v where run: "run_state (dedupAlbumFolder ff folder) w = (r, v)" by (metis surj_pair)
  have w: "shifted t (w_Files w)" "tree_ok (w_Files w)" using w by (simp_all add: outside_def shifted_def)
  have "taken_back ff t (w_Files v)"
  proof (cases "w_Files v = w_Files w")
    case True
    with w(1) show ?thesis by (simp add: shifted_taken_back)
  next
    case False
    with dedup_files [OF w(2) run] have thin: "thinned ff folder (w_Files w) (w_Files v)" by blast
    then have "tree_ok (w_Files v)" by (simp add: thinned_def)
    with thin w(1) show ?thesis unfolding taken_back_def by blast
  qed
  then show "on_files (taken_back ff t) (snd (run_state (dedupAlbumFolder ff folder) w))"
    by (simp add: run outside_def)
qed

lemma dedup_taken_back: "triple (on_files (shifted t)) (dedup_step p job folder now) (\<lambda>_. on_files (taken_back (ip_Facts p) t))"
proof (cases "folder = ip_CompleteDir p")
  case True
  then show ?thesis
    by (auto simp: dedup_step_def outside_def intro!: triple_return shifted_taken_back)
next
  case False
  then show ?thesis
    unfolding dedup_step_def
    by (simp only: if_False) (rule triple_bind [OF album_dedup_taken_back], fold keeps_def, intro keeps_rules)
qed

lemma restore_shifted:
  "triple (on_disk (disk_is t)) (restoreRefusedFolder i dir folder) (\<lambda>_. on_files (shifted t))"
  unfolding triple_def
proof (intro allI impI)
  fix w :: "'a world" assume w: "on_disk (disk_is t) w"
  obtain r v where run: "run_state (restoreRefusedFolder i dir folder) w = (r, v)" by (metis surj_pair)
  have "tree_ok (w_Files w)" "looks w" "w_Files w = t" using w by (auto simp: outside_def disk_is_def looks_def)
  with restore_files [OF this(1,2) run] run
  show "on_files (shifted t) (snd (run_state (restoreRefusedFolder i dir folder) w))"
    by (simp add: outside_def)
qed

lemma verify_kept:
  "triple (on_disk (disk_is t)) (verify tx b mu p job c now) (\<lambda>_. on_files (files_kept (ip_Facts p) t))"
proof -
  have done_early: "triple (on_disk (disk_is t)) (return x) (\<lambda>_. on_files (files_kept (ip_Facts p) t))" for x :: "run_error + unit"
    by (rule triple_return) (auto simp: outside_def intro: disk_kept)
  have judge: "triple (on_files (taken_back (ip_Facts p) t)) (do {
      r \<leftarrow> music_call (mus_ManualImportCandidates mu folder) [];
      case r of
        Inl e \<Rightarrow> escalateIfStuck tx b p job c ''import candidates failed'' now
      | Inr items \<Rightarrow> judge_preview tx b mu p job c folder items n removed now })
      (\<lambda>_. on_files (files_kept (ip_Facts p) t))" for folder n removed
  proof (rule triple_keeps_bind)
    show "triple (on_files (taken_back (ip_Facts p) t)) (case r of
        Inl e \<Rightarrow> escalateIfStuck tx b p job c ''import candidates failed'' now
      | Inr items \<Rightarrow> judge_preview tx b mu p job c folder items n removed now)
      (\<lambda>_. on_files (files_kept (ip_Facts p) t))" for r
      by (cases r) (auto intro: judge_kept then_kept keeps_rules)
  qed (intro keeps_rules)
  show ?thesis
    unfolding verify_def
  proof (rule triple_keeps_bind)
    show "triple (on_disk (disk_is t)) (case r of
        Inl e \<Rightarrow> return (Inl e)
      | Inr trs \<Rightarrow>
          let folder = AlbumFolder (ip_CompleteDir p) (map tr_Filename trs)
          in do {
            _ \<leftarrow> restoreRefusedFolder (job_ID job) (ip_CompleteDir p) folder;
            removed \<leftarrow> dedup_step p job folder now;
            r \<leftarrow> music_call (mus_ManualImportCandidates mu folder) [];
            case r of
              Inl e \<Rightarrow> escalateIfStuck tx b p job c ''import candidates failed'' now
            | Inr items \<Rightarrow> judge_preview tx b mu p job c folder items (length trs) removed now })
      (\<lambda>_. on_files (files_kept (ip_Facts p) t))" for r
      by (cases r) (auto simp: Let_def intro!: done_early triple_bind [OF restore_shifted] triple_bind [OF dedup_taken_back] judge)
  qed (intro keeps_rules)
qed

lemma importJob_kept:
  "triple (on_disk (disk_is t)) (importJob tx b mu p job now) (\<lambda>_. on_files (files_kept (ip_Facts p) t))"
proof -
  let ?I = "on_disk (disk_is t)" and ?K = "on_files (files_kept (ip_Facts p) t)"
  have same: "triple ?I m (\<lambda>_. ?K)" if "keeps ?I m" for m :: "('a, unit) fallible"
    using that unfolding keeps_def by (rule triple_weaken) (auto simp: outside_def intro: disk_kept)
  have confirm: "triple ?I (confirm tx mu p (job\<lparr>job_Album := Some a\<rparr>) c s now) (\<lambda>_. ?K)" for a c s
  proof -
    have "keeps (on_files (taken_back (ip_Facts p) t)) (confirm tx mu p (job\<lparr>job_Album := Some a\<rparr>) c s now)"
      unfolding confirm_def confirmed_def Let_def by (intro keeps_rules completed_taken_back)
    from then_kept [OF this] show ?thesis
      by (rule triple_weaken) (auto simp: outside_def disk_is_def intro: shifted_taken_back shifted_refl)
  qed
  show ?thesis
    unfolding importJob_def
  proof (rule triple_keeps_bind)
    show "triple ?I (case a of
        Inl e \<Rightarrow> return (Inl e)
      | Inr None \<Rightarrow> return (Inr ())
      | Inr (Some c) \<Rightarrow> do {
          i \<leftarrow> resolveAlbumID tx b mu p job c now;
          case i of
            Inl e \<Rightarrow> return (Inl e)
          | Inr None \<Rightarrow> return (Inr ())
          | Inr (Some album) \<Rightarrow>
              (case cand_ImportSubmitted c of
                 None \<Rightarrow> verify tx b mu p (job\<lparr>job_Album := Some album\<rparr>) c now
               | Some since \<Rightarrow> confirm tx mu p (job\<lparr>job_Album := Some album\<rparr>) c since now) }) (\<lambda>_. ?K)" for a
    proof (cases a)
      case (Inr oc)
      show ?thesis
      proof (cases oc)
        case (Some c)
        have next_step: "triple ?I (case i of
            Inl e \<Rightarrow> return (Inl e)
          | Inr None \<Rightarrow> return (Inr ())
          | Inr (Some album) \<Rightarrow>
              (case cand_ImportSubmitted c of
                 None \<Rightarrow> verify tx b mu p (job\<lparr>job_Album := Some album\<rparr>) c now
               | Some since \<Rightarrow> confirm tx mu p (job\<lparr>job_Album := Some album\<rparr>) c since now)) (\<lambda>_. ?K)" for i
          using same [OF keeps_return] confirm verify_kept [of t tx b mu p _ c now]
          by (simp split: sum.split option.split)
        show ?thesis unfolding Inr Some by (simp add: triple_keeps_bind [OF disk_ends(3) next_step])
      qed (simp add: Inr same keeps_return)
    qed (simp add: same keeps_return)
  qed (intro keeps_rules)
qed


text \<open>Files without tags are nobody's duplicates.\<close>

lemma untagged_stay:
  assumes "\<forall>p. ff_Tags ff p = None" and "files_kept ff t t'"
  shows "length (regular_files t') = length (regular_files t)"
proof -
  have none: "dedupFiles files = []" if "subseq files (audio_of ff folder es)" for files folder es
  proof -
    have plain: "dd_Track f = 0 \<and> dd_TitleKey f = []" if f: "f \<in> set files" for f
    proof -
      from list_emb_set [OF \<open>subseq files _\<close> f] obtain g where "g \<in> set (audio_of ff folder es)" "f = g" by blast
      then show ?thesis using assms(1) by (auto simp: audio_of_def readFileMeta_def Let_def)
    qed
    have "track_of sc files f = None" if "f \<in> set files" for sc f
      using plain [OF that] by (simp add: track_of_def is_numbered_def)
    then have "f \<notin> set (dedupFiles files)" for f
      using dedup_removed [of f files] by (metis option.distinct(1))
    then show ?thesis by (cases "dedupFiles files") auto
  qed
  have "length (regular_files u') = length (regular_files u)" if thin: "thinned ff folder u u'" for folder u u'
  proof -
    obtain es files gone where "subseq files (audio_of ff folder es)"
      "gone \<subseteq> elements ` dd_Path ` set (dedupFiles files)"
      "regular_files u' = filter (\<lambda>p. p \<notin> gone) (regular_files u)"
      using thin unfolding thinned_def by blast
    with none show ?thesis by simp
  qed
  with assms(2) show ?thesis unfolding files_kept_def by (metis shifted_count)
qed

section \<open>The calls an attempt ends with\<close>

text \<open>Nothing runs beside it, the folders are registered as before, and nothing was asked yet.\<close>

definition here :: "db \<Rightarrow> tree \<Rightarrow> peer_call list \<Rightarrow> 'n world \<Rightarrow> bool" where
  "here s f cs w \<longleftrightarrow> w_Turns w = [] \<and> folders (w_DB w) = folders s \<and> w_Files w = f \<and> w_Calls w = cs"

definition deletions :: "nat \<Rightarrow> db \<Rightarrow> peer_call list" where
  "deletions i s = map CallDelete (filter (\<lambda>leaf. \<not> isQuarantineDir leaf) (DownloadFoldersForJob i s))"

abbreviation left_with :: "tree \<Rightarrow> peer_call list \<Rightarrow> 'n world \<Rightarrow> bool" where
  "left_with f cs \<equiv> outside (\<lambda>f' _ cs'. f' = f \<and> cs' = cs)"

lemma here_left: "here s f cs w \<Longrightarrow> left_with f cs w"
  by (simp add: here_def outside_def)

lemma here_write:
  "(\<And>s. folders (g s) = folders s) \<Longrightarrow> keeps (here s f cs) (store_write g)"
  by (auto simp: keeps_def triple_def here_def quiet_write)

lemma terminal_folders: "folders (fst (terminalCandidateAndAdvance dir cid i st from to reason rule now s)) = folders s"
  by (auto simp: terminalCandidateAndAdvance_def Let_def recordRejectionTx_def upsert_rejection_def
      split: option.splits sum.splits if_splits)

lemma here_kept [keeps_rules]:
  "keeps (here s f cs) (store_read q)" "keeps (here s f cs) (AddJobEvent_best i ev d now)"
  "keeps (here s f cs) (recordOutcome job u ok now)" "keeps (here s f cs) (music_call mop [])"
proof -
  show "keeps (here s f cs) (store_read q)"
    by (auto simp: keeps_def triple_def here_def quiet_read)
  show "keeps (here s f cs) (AddJobEvent_best i ev d now)"
    unfolding AddJobEvent_best_def by (intro keeps_bind keeps_return here_write) (simp add: AddJobEvent_def)
  show "keeps (here s f cs) (recordOutcome job u ok now)"
    by (auto simp: keeps_def triple_def quiet_outcome here_def)
  show "keeps (here s f cs) (music_call mop [])"
    by (auto simp: keeps_def triple_def music_run here_def)
qed

lemma here_terminal:
  "keeps (here s f cs) (store_try (terminalCandidateAndAdvance dir cid i st from to reason rule now))"
  by (auto simp: keeps_def triple_def here_def quiet_try terminal_folders)

lemma cleanup_loop_left:
  "triple (left_with f cs) (cleanup_loop tx b i now leaves)
     (\<lambda>_. left_with f (cs @ map CallDelete (filter (\<lambda>leaf. \<not> isQuarantineDir leaf) leaves)))"
proof (induction leaves arbitrary: cs)
  case Nil
  show ?case by (simp add: triple_return)
next
  case (Cons leaf leaves)
  show ?case
  proof (cases "isQuarantineDir leaf")
    case True
    with Cons [of cs] show ?thesis by simp
  next
    case False
    have ask: "triple (left_with f cs) (DeleteDownloadFolder b leaf) (\<lambda>_. left_with f (cs @ [CallDelete leaf]))"
      by (auto simp: triple_def DeleteDownloadFolder_def net_call_def outside_def Let_def split: prod.split)
    have "triple (left_with f (cs @ [CallDelete leaf]))
        ((case r of Inr _ \<Rightarrow> markCleaned tx i leaf now | Inl e \<Rightarrow> return ()) \<bind> (\<lambda>_. cleanup_loop tx b i now leaves))
        (\<lambda>_. left_with f (cs @ map CallDelete (filter (\<lambda>leaf. \<not> isQuarantineDir leaf) (leaf # leaves))))" for r
      using Cons [of "cs @ [CallDelete leaf]"] False
      by (intro triple_keeps_bind keeps_rules) simp
    note rest = this
    show ?thesis
      using False by simp (rule triple_bind [OF ask], use rest False in simp)
  qed
qed

lemma cleanup_left:
  "triple (here s f cs) (cleanupFolder tx b i now) (\<lambda>_. left_with f (cs @ deletions i s))"
proof -
  have read: "triple (here s f cs) (registeredFolders i)
      (\<lambda>r w. left_with f cs w \<and> r = Inr (DownloadFoldersForJob i s))"
    by (auto simp: triple_def registeredFolders_def quiet_read here_def outside_def DownloadFoldersForJob_def)
  show ?thesis
    unfolding cleanupFolder_def
    by (rule triple_bind [OF read], rule triple_pure)
      (simp add: deletions_def cleanup_loop_left)
qed

lemma failCandidate_left:
  "triple (here s f cs) (failCandidate tx b p job c reason fault now)
     (\<lambda>_. left_with f (cs @ (if job_Source job = SourceManual then [] else deletions (job_ID job) s)))"
proof -
  let ?cs = "cs @ (if job_Source job = SourceManual then [] else deletions (job_ID job) s)"
  have clean: "triple (here s f cs) (if job_Source job \<noteq> SourceManual then cleanupFolder tx b (job_ID job) now else return ())
      (\<lambda>_. left_with f ?cs)"
    by (auto simp: cleanup_left intro!: triple_return here_left)
  show ?thesis
    unfolding failCandidate_def
    by (rule triple_bind [OF clean], fold keeps_def, intro keeps_rules)
qed

lemma succeed:
  "triple (here s f cs) (store_try (SucceedCandidateAndAdvance dir cid i from to now))
     (\<lambda>r w. here s f cs w \<and> (\<exists>ok. r = Inr ok))"
proof -
  have "\<exists>ok. snd (SucceedCandidateAndAdvance dir cid i from to now u) = Inr ok" for u
    by (auto simp: SucceedCandidateAndAdvance_def terminalCandidateAndAdvance_def no_rule_def Let_def)
  then have ok: "\<exists>ok. snd (SucceedCandidateAndAdvance dir cid i from to now u) = Inr ok" for u .
  show ?thesis
    unfolding triple_def
  proof (intro allI impI)
    fix w :: "'a world" assume w: "here s f cs w"
    then have quiet: "w_Turns w = []" by (simp add: here_def)
    obtain x where "snd (SucceedCandidateAndAdvance dir cid i from to now (w_DB w)) = Inr x" using ok by blast
    with w quiet_try [OF quiet, of "SucceedCandidateAndAdvance dir cid i from to now"]
    show "here s f cs (snd (run_state (store_try (SucceedCandidateAndAdvance dir cid i from to now)) w))
        \<and> (\<exists>ok. fst (run_state (store_try (SucceedCandidateAndAdvance dir cid i from to now)) w) = Inr ok)"
      by (simp add: here_def SucceedCandidateAndAdvance_def terminal_folders)
  qed
qed

lemma only_calls_none: "only_calls (\<lambda>k. False) w w' \<Longrightarrow> w_Calls w' = w_Calls w"
proof -
  assume "only_calls (\<lambda>k. False) w w'"
  then obtain cs :: "peer_call list" where cs: "w_Calls w' = w_Calls w @ cs" "list_all (\<lambda>k. False) cs"
    by (auto simp: only_calls_def)
  from cs(2) have "cs = []" by (cases cs) simp_all
  with cs(1) show ?thesis by simp
qed

lemma refuse_left:
  "triple (here s f cs) (refuseImport tx p job c folder rejs now)
    (\<lambda>_. outside (\<lambda>f' _ cs'. cs' = cs \<and> (tree_ok f \<longrightarrow> shifted f f')))"
  unfolding triple_def
proof (intro allI impI)
  fix w :: "'a world" assume w: "here s f cs w"
  let ?w = "snd (run_state (refuseImport tx p job c folder rejs now) w)"
  have "only_calls (\<lambda>k. False) w ?w"
    by (rule keepsD [OF calls_ends(1) only_calls_start])
  then have "w_Calls ?w = cs" using only_calls_none w unfolding here_def by metis
  moreover have "shifted f (w_Files ?w)" if ok: "tree_ok f"
  proof -
    have "triple (on_files (\<lambda>t. t = f)) (refuseImport tx p job c folder rejs now) (\<lambda>_. on_files (shifted f))"
      by (rule refuse_shifts) (use ok in auto)
    from tripleD [OF this, of w] w show ?thesis by (simp add: outside_def here_def)
  qed
  ultimately show "outside (\<lambda>f' _ cs'. cs' = cs \<and> (tree_ok f \<longrightarrow> shifted f f')) ?w"
    by (simp add: outside_def)
qed

lemma submit_left:
  "triple (here s f cs) (submit mu job c items now) (\<lambda>_. left_with f (cs @ [CallImport items]))"
proof -
  have ask: "triple (here s f cs) (music_call (mus_ExecuteManualImport mu items) [CallImport items])
      (\<lambda>_. left_with f (cs @ [CallImport items]))"
    by (auto simp: triple_def music_run here_def outside_def)
  show ?thesis
    unfolding submit_def by (rule triple_bind [OF ask], fold keeps_def, intro keeps_rules)
qed

lemma nothing_left:
  "triple (\<lambda>w. here s f cs w \<and> w_Net w = n) (nothing_importable tx b mu p job c folder rejs now)
    (\<lambda>_. if says_complete mu (album_id job) n then left_with f (cs @ deletions (job_ID job) s)
       else if AnyPermanent rejs then outside (\<lambda>f' _ cs'. cs' = cs \<and> (tree_ok f \<longrightarrow> shifted f f'))
       else left_with f (cs @ (if job_Source job = SourceManual then [] else deletions (job_ID job) s)))"
proof -
  let ?yes = "says_complete mu (album_id job) n"
  have ask: "triple (\<lambda>w. here s f cs w \<and> w_Net w = n) (albumAlreadyComplete mu job)
      (\<lambda>a w. here s f cs w \<and> (a = Inr True) = ?yes)"
    unfolding triple_def
  proof (intro allI impI)
    fix w :: "'a world" assume w: "here s f cs w \<and> w_Net w = n"
    show "here s f cs (snd (run_state (albumAlreadyComplete mu job) w)) \<and>
        (fst (run_state (albumAlreadyComplete mu job) w) = Inr True) = ?yes"
      by (rule already_complete_run [of mu job w]) (use w in \<open>auto simp: here_def\<close>)
  qed
  have yes: "triple (here s f cs) (do {
       _ \<leftarrow> AddJobEvent_best (job_ID job) EventAttemptSucceeded detail now;
       r \<leftarrow> store_try (SucceedCandidateAndAdvance ReleaseDir (cand_ID c) (job_ID job) Importing Done now);
       case r of
         Inl e \<Rightarrow> return (Inl e)
       | Inr _ \<Rightarrow> do {
           _ \<leftarrow> cleanupFolder tx b (job_ID job) now;
           return (Inr ()) } }) (\<lambda>_. left_with f (cs @ deletions (job_ID job) s))" for detail
    by (rule triple_keeps_bind, intro keeps_rules, rule triple_bind [OF succeed], rule triple_pure)
      (auto intro!: triple_bind [OF cleanup_left] triple_return)
  have no: "triple (here s f cs) (do {
       _ \<leftarrow> AddJobEvent_best (job_ID job) EventImportRejected detail now;
       failCandidate tx b p job c ReasonImportRejected True now })
     (\<lambda>_. left_with f (cs @ (if job_Source job = SourceManual then [] else deletions (job_ID job) s)))" for detail
    by (rule triple_keeps_bind, intro keeps_rules) (rule failCandidate_left)
  show ?thesis
    unfolding nothing_importable_def
  proof (rule triple_bind [OF ask], rule triple_pure, goal_cases)
    case (1 x)
    consider "?yes" "x = Inr True" | "\<not> ?yes" "x \<noteq> Inr True" "AnyPermanent rejs"
      | "\<not> ?yes" "x \<noteq> Inr True" "\<not> AnyPermanent rejs"
      using 1 by blast
    then show ?case
      by cases (simp_all only: if_True if_False simp_thms yes no refuse_left)
  qed
qed

text \<open>With the verdict: what is asked for, and where the files are afterwards.\<close>

lemma judge_preview_left:
  assumes quiet: "w_Turns v = []" and some: "items \<noteq> []"
    and needed: "tracks_needed mu job (w_Net v) = Some needed"
    and run: "run_state (judge_preview tx b mu p job c folder items k removed now) v = (r, w)"
  shows "case verdict p job items (says_complete mu (album_id job) (w_Net v)) needed (w_DB v) of
      None \<Rightarrow> w_Files w = w_Files v \<and> w_Calls w = w_Calls v @ [CallImport (filter matched_item items)]
    | Some (st, to) \<Rightarrow>
        if to = ImportRefused then w_Calls w = w_Calls v \<and> (tree_ok (w_Files v) \<longrightarrow> shifted (w_Files v) (w_Files w))
        else w_Files w = w_Files v \<and> w_Calls w = w_Calls v @
          (if st = CFailed \<and> job_Source job = SourceManual then [] else deletions (job_ID job) (w_DB v))"
proof -
  let ?m = "filter matched_item items"
  let ?rejs = "concat (map ii_Rejections (filter (\<lambda>it. \<not> matched_item it) items))"
  let ?here = "here (w_DB v) (w_Files v) (w_Calls v)"
  have start: "?here v" using quiet by (simp add: here_def)
  show ?thesis
  proof (cases "?m = []")
    case True
    then have "run_state (nothing_importable tx b mu p job c folder ?rejs now) v = (r, w)"
      using run some by (simp add: judge_preview_def Let_def)
    with tripleD [OF nothing_left [where s = "w_DB v" and f = "w_Files v" and cs = "w_Calls v" and n = "w_Net v"
        and tx = tx and b = b and mu = mu and p = p and job = job and c = c and folder = folder and rejs = ?rejs
        and now = now], of v] start True
    show ?thesis by (auto simp: verdict_def Let_def outside_def split: if_splits)
  next
    case False
    let ?d = "\<lparr>iv_downloaded = k, iv_dedupRemoved = removed, iv_offered = length items,
      iv_unmatched = length items - length ?m, iv_rootScan = (folder = ip_CompleteDir p)\<rparr>"
    have gate: "run_state (coverage_gate tx b mu p job c folder ?m ?d now) v = (r, w)"
      using run some False by (simp add: judge_preview_def Let_def)
    obtain u where ask: "run_state (required_tracks mu job) v = (Inr needed, u)" and u: "?here u"
    proof
      show "run_state (required_tracks mu job) v = (Inr needed, snd (run_state (required_tracks mu job) v))"
        using needed by (auto simp: required_tracks_def tracks_needed_def music_run split: sum.splits if_splits)
      show "?here (snd (run_state (required_tracks mu job) v))"
        using start by (auto simp: required_tracks_def music_run here_def)
    qed
    show ?thesis
    proof (cases "int (coverage ?m) < needed")
      case True
      obtain detail where end_run: "run_state (do {
          _ \<leftarrow> AddJobEvent_best (job_ID job) EventImportRejected detail now;
          failCandidate tx b p job c ReasonIncompleteDownload True now }) u = (r, w)"
        using gate ask True by (auto simp: coverage_gate_def)
      have "triple ?here (do {
          _ \<leftarrow> AddJobEvent_best (job_ID job) EventImportRejected detail now;
          failCandidate tx b p job c ReasonIncompleteDownload True now })
        (\<lambda>_. left_with (w_Files v) (w_Calls v @ (if job_Source job = SourceManual then [] else deletions (job_ID job) (w_DB v))))"
        by (rule triple_keeps_bind, intro keeps_rules) (rule failCandidate_left)
      from tripleD [OF this u] end_run True False show ?thesis
        by (auto simp: verdict_def Let_def outside_def)
    next
      case enough: False
      then have "run_state (submit mu job c ?m now) u = (r, w)"
        using gate ask by (simp add: coverage_gate_def)
      with tripleD [OF submit_left u, of ?m mu job c now] enough False
      show ?thesis by (auto simp: verdict_def Let_def outside_def)
    qed
  qed
qed

end
