(* ===== verification/Spec2Isabelle.thy ===== *)
theory Spec2Isabelle
  imports PeerShares DistMessages ServerRooms ServerSession StoreFacts StoreUsers StoreHistory FailBackoff Rank
    RefusedFolders WantedSync Runner Throughput ShareServe ShareScanFacts UploadQueue DownloadFacts FileStreamFacts
    ActivationTx TopUpFaults ImportingFiles
begin

text \<open>
  slusk bridges Lidarr and Soulseek: it keeps a job for every wanted album, searches the Soulseek
  network, downloads the best candidate of a peer and hands the files back for import. Modelled here
  are the bytes of the network, the database, the choice of a candidate and the modules that move a
  job through its life. All paths are below \<open>internal/\<close>.

  \<^bold>\<open>The protocol\<close> (\<open>soulseek/soul\<close>). \<open>Wire\<close> has the primitives of \<open>soul/internal/internal.go\<close> over the
  list of bytes still to be delivered, \<open>Codec\<close> the interface that a reader undoes its writer, \<open>Framing\<close>
  the frames, plain and obfuscated. \<open>Message\<close> states what a message type promises; \<open>PeerMessages\<close>,
  \<open>PeerShares\<close> (\<open>soul/peer\<close>), \<open>DistMessages\<close> (\<open>soul/distributed\<close>, \<open>soul/file\<close>), \<open>ServerMessages\<close>,
  \<open>ServerSession\<close> and \<open>ServerRooms\<close> (\<open>soul/server\<close>) have one record and up to two functions per
  message type. A message that is written and read has a round trip, a message that only travels one
  way a format its bytes determine. zlib and MD5 are arguments; what is used of zlib is that
  inflating a deflated list gives it back, up to the limit.

  \<^bold>\<open>The store\<close> (\<open>store\<close>, \<open>core\<close>). \<open>CoreState\<close> has the states and rows of \<open>core/state.go\<close> and
  \<open>core/models.go\<close>, \<open>Store\<close> the database as a record of tables (lists of rows) with its
  well-formedness: what the unique indexes and foreign keys enforce, and what the operations keep by
  themselves (one active candidate per slot, none elsewhere). \<open>StoreJobs\<close> (\<open>pipeline.go\<close>, \<open>jobs.go\<close>),
  \<open>StoreCandidates\<close> (\<open>candidates.go\<close>, \<open>rejections.go\<close>, \<open>manual_jobs.go\<close>), \<open>StoreTransfers\<close>
  (\<open>jobs.go\<close>), \<open>StoreFolders\<close> (\<open>download_folders.go\<close>), \<open>StoreSync\<close> (the reconciliation of
  \<open>pipeline.go\<close>, \<open>bulk_retry.go\<close>), \<open>StoreEvents\<close> (\<open>events.go\<close>, \<open>progress.go\<close>), \<open>StoreUsers\<close>
  (\<open>users.go\<close>) and \<open>StoreHistory\<close> (\<open>uploads.go\<close>, \<open>messages.go\<close>, \<open>throughput.go\<close>, \<open>passes.go\<close>,
  \<open>reliability.go\<close>) have one function per method of \<open>Store\<close>. A method is one transaction: a function
  from the database to the new database and the returned values, which gives back the old database
  when the transaction rolls back. \<open>StoreFacts\<close> says what the operations achieve; \<open>ActivationTx\<close> runs the
  longest of them, the activation of a candidate, statement by statement on a copy of the tables, with
  every statement and the reply to \<open>COMMIT\<close> free to fail, and shows that the function is what it comes to. \<open>Lifecycle\<close> is the
  step relation whose steps are the transactions, with the calls restricted as the pipeline makes
  them; it has the reachable databases.

  \<^bold>\<open>The choice of a candidate\<close> (\<open>matcher\<close>, \<open>pipeline/dedup.go\<close>). \<open>Text\<close> has the strings of Go: bytes, runes,
  \<open>strings\<close>, \<open>path\<close>. \<open>Normalize\<close> cleans a query and rewrites it, \<open>Relevance\<close> decides whether a
  directory is the album, \<open>Rank\<close> orders the candidates by quality and by the history of the peer,
  \<open>Dedup\<close> keeps one file of every track. Unicode tables and the order in which Go iterates a map are
  arguments; scores are real numbers, and a comparison of a ratio with a threshold is written without
  the division; the sentences that explain a verdict in the log are left out.

  \<^bold>\<open>The modules\<close> (\<open>pipeline\<close>). \<open>Backoff\<close> has the two ladders on 64-bit durations, \<open>FailBackoff\<close> the
  retry policy over the store interface the source declares (\<open>BackoffStore\<close>), as a locale that the
  modelled store interprets. \<open>Files\<close> is a tree of files with the calls of \<open>os\<close> that are used. \<open>World\<close>
  is what a tick acts on: the database, the peer backend behind the interfaces of \<open>ports.go\<close>, the
  files; a tick is a program of the state monad. The rest of the program runs at the same time: before
  each call of the store the list of turns of the world lets the others run any transactions, and says
  whether the call is answered, refused, or committed with its answer lost; every call of the file
  system may fail too. \<open>Rely\<close> proves once what survives the others: a program built of calls that are
  steps takes the database along steps. \<open>TopUp\<close>, \<open>Selecting\<close> and \<open>Downloading\<close> are \<open>selecting.go\<close>,
  \<open>downloading.go\<close> and the folders of \<open>paths.go\<close>, one function per method or closure; \<open>TopUpFacts\<close>,
  \<open>SelectingFacts\<close> and \<open>DownloadingFacts\<close> say what they achieve when the store answers and nobody
  interferes, \<open>TopUpFaults\<close> what is left of it for a top-up when calls of the store are refused or lose
  their reply. \<open>Importing\<close> (\<open>importing.go\<close>, the folder part of \<open>dedup.go\<close>) verifies a download against
  Lidarr, submits and confirms it; \<open>ImportingFacts\<close> bounds what it may ask for and says how an attempt
  ends, \<open>ImportingFiles\<close> what it does to the files and which calls it makes, \<open>RefusedFolders\<close> that a
  refused folder comes back. \<open>Discovery\<close> (\<open>discovery.go\<close>) searches for a
  wanted album and sieves the candidates, with \<open>DiscoveryFacts\<close> on both; \<open>WantedSync\<close> (\<open>wanted.go\<close>) takes
  over the list of Lidarr, and \<open>Runner\<close> (\<open>runner.go\<close>) judges the ticks of a module.

  \<^bold>\<open>Downloads and uploads\<close> (\<open>soulseek\<close>). \<open>Automaton\<close> is the interface of everything that is called from
  several goroutines: steps, an invariant that every allowed step keeps, and what follows for any sequence
  of them. \<open>PeerPaths\<close> has the paths that names of peers are turned into and the check that they stay
  below a folder. \<open>Downloads\<close> (\<open>downloads.go\<close>, the handshake of \<open>fileconn.go\<close>) has the registry of
  downloads and the goroutine of each, cut where it takes a lock or receives from a channel; a step names the
  transfer and the event, and any interleaving is a sequence of steps. \<open>DownloadFacts\<close> says what every
  interleaving keeps and that a goroutine ends, and shows the interleavings the code does not rule out.
  \<open>UploadQueue\<close> (\<open>uploads.go\<close>) is the queue of uploads with its slots, limits and tokens; that it is fair is
  a second invariant of the same steps. \<open>FileStream\<close> (\<open>fileconn.go\<close>, \<open>uploadconn.go\<close>) is one file on its way:
  the download side over a \<open>.part\<close> file and a destination, the upload side over the peer's offset; every
  fault of the disk and the connection is an argument. \<open>FileStreamFacts\<close> puts the two together.
  \<open>Throughput\<close> (\<open>throughput.go\<close>) is the meter, with the history it stands for.

  \<^bold>\<open>Sharing\<close> (\<open>soulseek/shares.go\<close>, \<open>shareindex.go\<close>, \<open>sharemeta.go\<close>, \<open>store/shareindex.go\<close>,
  \<open>store/sharemeta.go\<close>). \<open>ShareScan\<close> walks the shared folders: the tree it meets carries the answers of the
  file system, which may change while it walks. \<open>ShareSnapshot\<close> makes a snapshot of what was gathered, from
  a scan or from saved rows, and \<open>offers\<close> is what a snapshot promises of directories, files, counts and the
  frame of the share list. \<open>TrigramIndex\<close> is the index in its two passes with counters at their width,
  \<open>ShareSearch\<close> the search through it. \<open>ShareServe\<close> answers searches and requests for folders and keeps what
  was delivered. \<open>StoreShares\<close> is the saved index and the metadata cache in the database, \<open>ShareScanFacts\<close>
  composes scan, saving and restart.

  Instants are integers, the zero time of Go is the instant 0; durations are 64-bit words in
  \<open>nextBackoff\<close> and \<open>cooldownFor\<close>, where they can wrap, and integers elsewhere. Text is a list of
  characters, one per byte. Loops recurse over their data; the pruning loop takes its number of
  batches, and \<open>follow_pages\<close>, a reader of pages, as many rounds as the table has rows and one more,
  which is what it can need at most.

  Not modelled: sessions, the listener and the distributed tree of \<open>soulseek\<close>, deadlines and timers other than
  as events, the headers of mp3 and flac files, the goroutines of the
  runner, the clients of Lidarr, MusicBrainz and slskd, the web API, configuration, the dashboard's reports and migrations; log lines,
  metrics and the texts of wrapped errors.
\<close>

section \<open>Concrete instances\<close>

text \<open>A manual job with one file, its retry state, and instances of the parameters.\<close>

definition demo_files :: "candidate_file list" where
  "demo_files = [\<lparr>cf_Filename = ''a/b.flac'', cf_Size = 7\<rparr>]"

definition demo_db :: db where
  "demo_db = fst (CreateManualJob ''title'' ''artist'' ''peer'' [] demo_files 10 0 empty_db)"

definition demo_job :: album_job where
  "demo_job = manual_job 1 ''title'' ''artist'' [] 0"

definition selecting_db :: db where
  "selecting_db = update_jobs (job_is 1) (\<lambda>j. j\<lparr>job_State := Selecting\<rparr>)
     (update_candidates (\<lambda>c. True) (\<lambda>c. c\<lparr>cand_State := CNew\<rparr>)
       (demo_db\<lparr>transfers := []\<rparr>))"

definition demo_candidate :: candidate where
  "demo_candidate = \<lparr>cand_ID = 2, cand_Job = 1, cand_Username = ''peer'', cand_Score = 0,
     cand_Files = demo_files, cand_State = CActive, cand_FailReason = [], cand_ImportSubmitted = None,
     cand_LastResort = False, cand_DeferredSince = None, cand_Created = 0, cand_Updated = 0\<rparr>"

definition demo_transfer :: transfer where
  "demo_transfer = new_transfer 3 2 ''peer'' ''a/b.flac'' TPending 7 10 0"

lemma demo_db_eq:
  "demo_db = \<lparr>jobs = [demo_job], candidates = [demo_candidate], transfers = [demo_transfer],
     rejections = [], folders = [], events = [], next_id = 4\<rparr>"
  by (simp add: demo_db_def demo_job_def demo_candidate_def demo_transfer_def demo_files_def
      CreateManualJob_def Let_def manual_job_def add_job_def add_candidate_def new_transfer_def
      empty_db_def row_count_def)

lemma demo_reachable: "reachable demo_db"
  unfolding demo_db_def by (rule reachable.step [OF reachable.start store_step.manual])

lemma selecting_eq:
  "selecting_db = \<lparr>jobs = [demo_job\<lparr>job_State := Selecting\<rparr>],
     candidates = [demo_candidate\<lparr>cand_State := CNew\<rparr>], transfers = [],
     rejections = [], folders = [], events = [], next_id = 4\<rparr>"
  by (simp add: selecting_db_def demo_db_eq update_jobs_def update_candidates_def row_update_def
      job_is_def demo_job_def manual_job_def)

lemma selecting_wf: "wf_db selecting_db"
  by (simp add: selecting_eq wf_defs demo_job_def manual_job_def demo_candidate_def has_active_def active_def)

section \<open>Properties of the store\<close>

text \<open>
  C1: in every reachable database a job that is downloading or importing has exactly one active
  candidate, so the modules that work on slots always find their candidate and never two.
\<close>

theorem slot_jobs_have_one_active:
  assumes "reachable s" and "j \<in> set (jobs s)" and "slot_state (job_State j)"
  shows "\<exists>!c. c \<in> set (candidates s) \<and> active c \<and> cand_Job c = job_ID j"
proof -
  have wf: "wf_db s" by (rule reachable_wf [OF assms(1)])
  with assms(2,3) obtain c where "c \<in> set (candidates s)" "active c" "cand_Job c = job_ID j"
    by (auto simp: wf_db_def not_wedged_def has_active_def)
  with active_unique [OF wf] show ?thesis by metis
qed

theorem slot_jobs_have_one_active_witness:
  "\<exists>!c. c \<in> set (candidates demo_db) \<and> active c \<and> cand_Job c = 1"
  using slot_jobs_have_one_active [OF demo_reachable, of demo_job]
  by (simp add: demo_db_eq demo_job_def manual_job_def)

text \<open>
  C2: in every reachable database two live transfers never claim the same file of the same peer, so
  no two jobs enqueue one remote file.
\<close>

theorem live_remote_file_unique:
  assumes "reachable s" and "t \<in> set (transfers s)" and "u \<in> set (transfers s)"
    and "live t" and "live u" and "remote_file t = remote_file u"
  shows "t = u"
proof -
  have "inj_on remote_file (set (filter live (transfers s)))"
    using reachable_wf [OF assms(1)] by (simp add: wf_db_def base_ok_def owners_ok_def distinct_map)
  with assms(2-6) show ?thesis by (auto simp: inj_on_def)
qed

theorem live_remote_file_unique_witness: "demo_transfer = last (transfers demo_db)"
proof -
  have "live demo_transfer" by (simp add: live_def demo_transfer_def new_transfer_def)
  then show ?thesis
    by (intro live_remote_file_unique [OF demo_reachable]) (simp_all add: demo_db_eq)
qed

text \<open>
  In every reachable database a job that waits or is settled has no active candidate, and no job
  has two.
\<close>

lemma quiet_jobs_have_no_active:
  assumes "reachable s" and "j \<in> set (jobs s)"
  shows "(job_State j \<in> {Wanted, Selecting, Done, NotImported, ImportRefused} \<longrightarrow>
      \<not> (\<exists>c \<in> set (candidates s). active c \<and> cand_Job c = job_ID j))
    \<and> row_count (\<lambda>c. active c \<and> cand_Job c = job_ID j) (candidates s) \<le> 1"
proof -
  have wf: "wf_db s" by (rule reachable_wf [OF assms(1)])
  have "row_count (\<lambda>c. active c \<and> cand_Job c = job_ID j) (candidates s) \<le> 1"
  proof (cases "\<exists>c \<in> set (candidates s). active c \<and> cand_Job c = job_ID j")
    case False
    then have "row_count (\<lambda>c. active c \<and> cand_Job c = job_ID j) (candidates s) = 0"
      by (auto simp: row_count_eq_0)
    then show ?thesis by simp
  next
    case True
    then obtain c where c: "c \<in> set (candidates s)" "active c" "cand_Job c = job_ID j" by blast
    have "row_count (\<lambda>c. active c \<and> cand_Job c = job_ID j) (candidates s) = 1"
    proof (rule row_count_one [where k = cand_ID and x = c])
      show "distinct (map cand_ID (candidates s))"
        using wf by (simp add: wf_db_def base_ok_def keys_ok_def)
      show "cand_ID d = cand_ID c" if "d \<in> set (candidates s)" "active d \<and> cand_Job d = job_ID j" for d
        using active_unique [OF wf that(1) c(1)] that c by simp
    qed (use c in simp_all)
    then show ?thesis by simp
  qed
  with wf assms(2) show ?thesis
    by (auto simp: wf_db_def quiet_ok_def quiet_state_def has_active_def)
qed

text \<open>
  The gauge of wedged jobs, those that hold a slot without an active candidate, reads zero in
  every reachable database.
\<close>

lemma no_job_is_wedged:
  assumes "reachable s"
  shows "snd (JobProgress text_less s) = 0"
  by (simp add: JobProgress_def wf_unwedged [OF reachable_wf [OF assms]])

text \<open>
  C3: an activation takes exactly one slot and never goes beyond the cap.
\<close>

theorem activation_respects_cap:
  assumes "wf_db s"
    and "ActivateCandidateWithTransfers cid i maxActive dl now s = (s', Inr (True, full))"
  shows "CountJobsInStates [Downloading, Importing] s'
      = Suc (CountJobsInStates [Downloading, Importing] s)
    \<and> int (CountJobsInStates [Downloading, Importing] s') \<le> maxActive"
  using activation_fills_slot [OF assms] by simp

definition activated_db :: db where
  "activated_db = fst (ActivateCandidateWithTransfers 2 1 1 20 5 selecting_db)"

lemma activated_eq:
  "ActivateCandidateWithTransfers 2 1 1 20 5 selecting_db = (activated_db, Inr (True, False))"
proof -
  have "snd (ActivateCandidateWithTransfers 2 1 1 20 5 selecting_db) = Inr (True, False)"
    unfolding selecting_eq demo_job_def demo_candidate_def demo_files_def manual_job_def by code_simp
  then show ?thesis by (simp add: activated_db_def prod_eq_iff)
qed

theorem activation_respects_cap_witness:
  "int (CountJobsInStates [Downloading, Importing] activated_db) \<le> 1"
  using activation_respects_cap [OF selecting_wf activated_eq] by simp

text \<open>
  An activation writes one pending transfer per file of the candidate, in order, with its size
  and deadline, and touches no other transfer.
\<close>

lemma activation_writes_transfers:
  assumes "ActivateCandidateWithTransfers cid i maxActive dl now s = (s', Inr (True, full))"
  shows "\<exists>c new. c \<in> set (candidates s) \<and> cand_ID c = cid \<and> cand_Job c = i
    \<and> transfers s' = transfers s @ new
    \<and> map (\<lambda>t. (tr_Filename t, tr_BytesTotal t)) new
        = map (\<lambda>f. (cf_Filename f, cf_Size f)) (cand_Files c)
    \<and> new \<noteq> [] \<and> list_all (pending_for cid (cand_Username c) dl) new"
proof -
  obtain c j s1 where c: "c \<in> set (candidates s)" "cand_ID c = cid" "cand_Job c = i" "cand_Files c \<noteq> []"
    and ins: "insert_pending cid (cand_Username c) dl now (cand_Files c) s = Inr s1"
    and s': "s' = update_jobs (\<lambda>j. job_is i j \<and> job_State j = Selecting) (activate_job now c)
       (update_candidates (\<lambda>c. cand_ID c = cid \<and> cand_Job c = i \<and> cand_State c = CNew)
         (mark_active now) s1)"
    using assms by (rule activation_activated)
  from insert_pending_transfers [OF ins] obtain new where new: "transfers s1 = transfers s @ new"
    "map (\<lambda>t. (tr_Filename t, tr_BytesTotal t)) new = map (\<lambda>f. (cf_Filename f, cf_Size f)) (cand_Files c)"
    "list_all (pending_for cid (cand_Username c) dl) new"
    by blast
  from new(2) c(4) have "new \<noteq> []" by auto
  with c new s' show ?thesis by auto
qed

text \<open>
  C4: run statement by statement, under any failures, an activation is whole or it is nothing. It is
  committed exactly when the candidate is new, its job is selecting, its list of files is valid,
  the cap has room, no file of it is taken, every statement up to the last row of the insertion and
  both guarded updates goes through, and \<open>COMMIT\<close> is carried out. Then one pending transfer per
  file, the candidate and the job are all written, and success is reported unless the reply to
  \<open>COMMIT\<close> is lost. In every other case, also after some of the rows were written, the tables are
  those before it and no success is reported; a full cap is only reported when the cap is
  full, and a driver error names a statement that failed.
\<close>

theorem activation_is_whole:
  assumes "base_ok s" and "activation_tx e cid i maxActive dl now s = (s', r)"
  shows "(if \<exists>c. activatable cid i maxActive s c \<and> all_run e (length (cand_Files c))
              \<and> commit_reply e \<noteq> CommitRefused
          then \<exists>c. activatable cid i maxActive s c \<and> s' = whole_activation cid i dl now c s
             \<and> r = (if commit_reply e = Committed then Inr (True, False) else Inl (TxDriver CommitTx))
          else s' = s \<and> (\<forall>full. r \<noteq> Inr (True, full)))
    \<and> (r = Inr (False, True) \<longrightarrow> maxActive \<le> int (CountJobsInStates [Downloading, Importing] s))
    \<and> (\<forall>st. r = Inl (TxDriver st) \<longrightarrow> stmt_fails e st \<or> st = CommitTx \<and> commit_reply e \<noteq> Committed)"
  using activation_tx_outcome [OF assms] activation_tx_causes [OF assms(2)] by blast

text \<open>
  The last update fails: the copy has the transfer and the active candidate, the database has
  neither.
\<close>

definition broken_advance :: tx_faults where
  "broken_advance = \<lparr>stmt_fails = (\<lambda>st. st = AdvanceJob), commit_reply = Committed\<rparr>"

lemma broken_copy:
  "length (transfers (fst (activation_body broken_advance 2 1 1 20 5 selecting_db))) = 1
   \<and> map cand_State (candidates (fst (activation_body broken_advance 2 1 1 20 5 selecting_db))) = [CActive]"
  unfolding selecting_eq demo_job_def demo_candidate_def demo_files_def manual_job_def broken_advance_def
  by code_simp

theorem activation_is_whole_witness:
  "fst (activation_tx broken_advance 2 1 1 20 5 selecting_db) = selecting_db
   \<and> length (transfers (fst (activation_body broken_advance 2 1 1 20 5 selecting_db)))
       = Suc (length (transfers selecting_db))"
proof -
  have "base_ok selecting_db" using selecting_wf by (simp add: wf_db_def)
  from activation_is_whole [OF this surjective_pairing, where e = broken_advance and cid = 2 and i = 1
      and maxActive = 1 and dl = 20 and now = 5] broken_copy
  show ?thesis by (auto simp: all_run_def broken_advance_def selecting_eq)
qed

text \<open>
  C5: an attempt that is reported finished has moved both rows: its candidate was active and is in
  its final state, its job was in the state the caller named and is in the next one.
\<close>

theorem finished_attempt_moves_both:
  assumes "base_ok s" and "st \<noteq> CActive"
    and "terminalCandidateAndAdvance dir cid i st from to reason rule now s = (s', Inr True)"
  shows "(\<exists>c \<in> set (candidates s). cand_ID c = cid \<and> active c)
    \<and> (\<exists>j \<in> set (jobs s). job_ID j = i \<and> job_State j = from)
    \<and> (\<forall>c \<in> set (candidates s'). cand_ID c = cid \<longrightarrow> cand_State c = st)
    \<and> (\<forall>j \<in> set (jobs s'). job_ID j = i \<longrightarrow> job_State j = to)"
  using terminal_both [OF assms(1,3,2)] by blast

definition failed_db :: db where
  "failed_db = fst (FailCandidateAndAdvance (\<lambda>f. f) 2 1 ''gone'' Downloading Selecting 5 demo_db)"

lemma failed_eq:
  "terminalCandidateAndAdvance (\<lambda>f. f) 2 1 CFailed Downloading Selecting ''gone'' no_rule 5 demo_db
     = (failed_db, Inr True)"
proof -
  have "snd (terminalCandidateAndAdvance (\<lambda>f. f) 2 1 CFailed Downloading Selecting ''gone'' no_rule 5 demo_db)
      = Inr True"
    unfolding demo_db_eq demo_job_def demo_candidate_def demo_files_def manual_job_def demo_transfer_def
      new_transfer_def
    by code_simp
  then show ?thesis by (simp add: failed_db_def FailCandidateAndAdvance_def prod_eq_iff)
qed

lemma demo_base: "base_ok demo_db"
  using reachable_wf [OF demo_reachable] by (simp add: wf_db_def)

theorem finished_attempt_moves_both_witness:
  "filter (\<lambda>j. job_ID j = 1 \<and> job_State j \<noteq> Selecting) (jobs failed_db) = []
   \<and> filter (\<lambda>c. cand_ID c = 2 \<and> cand_State c \<noteq> CFailed) (candidates failed_db) = []"
  using finished_attempt_moves_both [OF demo_base _ failed_eq] by (simp add: filter_empty_conv)

text \<open>
  An attempt that is not reported finished, because the candidate is no longer active, the job
  has moved on or the rejection cannot be recorded, leaves the database as it was; no caller can
  end a candidate and leave its job behind.
\<close>

lemma unfinished_attempt_moves_nothing:
  assumes "terminalCandidateAndAdvance dir cid i st from to reason rule now s = (s', r)"
    and "r \<noteq> Inr True"
  shows "s' = s"
  using terminal_neither [OF assms] .

text \<open>
  The cancellation barrier. Once a job is cancelled, no later enqueue, id attachment, progress
  report or retry changes its transfers; the enqueue and the attachment report that they may not go on.
\<close>

lemma cancelled_job_transfers_frozen:
  assumes "base_ok s" and "t \<in> set (transfers s)" and "owner_state (tr_Candidate t) s = Some Cancelled"
  shows "RecordEnqueueIntent (tr_Candidate t) u f dl now s = (s, Inr (0, False))
    \<and> AttachTransferID (tr_ID t) r now s = (s, False)
    \<and> UpdateTransferProgress (tr_ID t) st d n now s = s \<and> RetryTransfer (tr_ID t) now s = s"
  using barrier(1) [OF assms(3)] barrier(2) [OF assms(3,2) refl assms(1)] by simp

text \<open>
  C6: after a reconciliation every Lidarr job outside the snapshot is done, cancelled or failed, no
  Lidarr job of the snapshot is cancelled, and every release of the snapshot has a job.
\<close>

theorem reconciliation_matches_snapshot:
  assumes "releases \<noteq> []"
  shows "(\<forall>j \<in> set (jobs (fst (SyncWantedJobs releases cutoff now s))). \<forall>a.
        job_Source j = SourceLidarr \<and> job_Album j = Some a \<longrightarrow>
        (if a \<in> wr_ID ` set releases then job_State j \<noteq> Cancelled
         else job_State j \<in> {Done, Cancelled, Failed}))
    \<and> (\<forall>r \<in> set releases. \<exists>j \<in> set (jobs (fst (SyncWantedJobs releases cutoff now s))).
        for_album (wr_ID r) j)"
  using sync_outcome [OF assms] sync_present by blast

definition demo_release :: wanted_release where
  "demo_release = \<lparr>wr_ID = 9, wr_Title = ''t'', wr_ArtistName = ''a'', wr_ArtistID = 4, wr_ReleaseDate = ''2001''\<rparr>"

theorem reconciliation_matches_snapshot_witness:
  "\<exists>j \<in> set (jobs (fst (SyncWantedJobs [demo_release] 0 5 demo_db))). for_album 9 j"
  using reconciliation_matches_snapshot [of "[demo_release]" 0 5 demo_db] by (simp add: demo_release_def)

text \<open>
  A reconciliation leaves manual jobs and their candidates alone, whatever the snapshot.
\<close>

lemma reconciliation_keeps_manual_jobs:
  assumes "wf_db s" and "j \<in> set (jobs s)" and "job_Source j = SourceManual"
  shows "j \<in> set (jobs (fst (SyncWantedJobs releases cutoff now s)))
    \<and> filter (\<lambda>c. cand_Job c = job_ID j) (candidates (fst (SyncWantedJobs releases cutoff now s)))
        = filter (\<lambda>c. cand_Job c = job_ID j) (candidates s)"
  using sync_manual [OF assms(2,3)] sync_manual_candidates [OF assms] by simp

text \<open>
  Duplicate ids of a snapshot are collapsed to one row each, with the data of the last
  occurrence; no id is lost or invented, and an empty snapshot changes nothing.
\<close>

lemma snapshot_collapses_duplicates:
  "distinct (map wr_ID (dedupe rs)) \<and> wr_ID ` set (dedupe rs) = wr_ID ` set rs
   \<and> find (\<lambda>r. wr_ID r = i) (dedupe rs) = find (\<lambda>r. wr_ID r = i) (rev rs)
   \<and> SyncWantedJobs [] cutoff now s = (s, 0, 0)"
  using dedupe_ids [where rs = rs] by (simp add: last_release_def SyncWantedJobs_def dedupe_def)

text \<open>
  One failed search cycle on the store. With the retry budget used up the job is failed and its
  delay cleared; otherwise its counter goes up by one, its next attempt is the ladder's delay from
  now, and only the caller that exhausted the candidates sends it back to the queue. The database
  stays well-formed.
\<close>

lemma fail_or_backoff_outcome:
  assumes "wf_db s" and "the_job (job_ID j) s = Some j" and "job_State j \<notin> {Cancelled, Done, Failed}"
    and "rw \<longrightarrow> job_State j = Selecting"
  shows "\<exists>s' failed. failOrBackoff store_backoff_ops j maxRetries base cap rw reason now s = Inr (s', failed)
    \<and> wf_db s' \<and> (failed \<longleftrightarrow> job_Retries j + 1 \<ge> maxRetries)
    \<and> job_view (job_ID j) s' = Some (if failed then (Failed, job_Retries j, None)
        else (if rw then Wanted else job_State j, job_Retries j + 1,
              Some (now + sint (nextBackoff (job_Retries j + 1) base cap))))"
proof -
  have v: "job_view (job_ID j) s = Some (job_State j, job_Retries j, job_NotBefore j)"
    by (simp add: job_view_def assms(2))
  have "\<exists>s' failed. failOrBackoff store_backoff_ops j maxRetries base cap rw reason now s = Inr (s', failed)"
    by (cases "job_Retries j + 1 \<ge> maxRetries") (auto simp: failOrBackoff_def Let_def store_backoff_ops_def)
  then obtain s' failed where
    r: "failOrBackoff store_backoff_ops j maxRetries base cap rw reason now s = Inr (s', failed)" by blast
  then show ?thesis
    using store_backoff.failOrBackoff_view [OF assms(1) r v assms(3,4)]
      store_backoff.failOrBackoff_inv [OF assms(1) r] by auto
qed

text \<open>
  The window in which a rejected release is excluded from a job's candidates. Without a
  cooldown it is excluded for ever; with the shipped policy the n-th rejection excludes it for
  eight hours doubled n - 1 times, at most 72 hours, and no longer.
\<close>

lemma rejection_window:
  "excluded i u d later (upsert_rejection i u d reason None now s)
   \<and> (excluded i u d later (upsert_rejection i u d reason (Some shipped_cooldown) now s)
      \<longleftrightarrow> (\<exists>n. (n = 1 \<and> row_count (rejection_key i u d) (rejections s) = 0
              \<or> (\<exists>r \<in> set (rejections s). rejection_key i u d r \<and> n = Suc (rej_Attempts r)))
            \<and> later < now + min candidateCooldownCap (candidateCooldownBase * 2 ^ min (n - 1) 32)))"
proof -
  have "(\<exists>n. P n \<and> later < now + sint (cooldownFor (int n) (pol_Base shipped_cooldown) (pol_Cap shipped_cooldown)))
      \<longleftrightarrow> (\<exists>n. P n \<and> later < now + min candidateCooldownCap (candidateCooldownBase * 2 ^ min (n - 1) 32))"
    if "\<And>n. P n \<Longrightarrow> n \<ge> 1" for P
    using that shipped_cooldownFor by (metis (no_types, lifting))
  from this [of "\<lambda>n. n = 1 \<and> row_count (rejection_key i u d) (rejections s) = 0
      \<or> (\<exists>r \<in> set (rejections s). rejection_key i u d r \<and> n = Suc (rej_Attempts r))"]
  show ?thesis by (auto simp: excluded_upsert)
qed

text \<open>
  A retry of a failed job is a clean slate, with no candidate and no rejection left; a forced
  search forgets the candidates and the cooling rejections but keeps the permanent ones.
\<close>

lemma retry_and_force_search_rejections:
  "(snd (RetryFailedJob i now s) \<longrightarrow>
      \<not> (\<exists>r \<in> set (rejections (fst (RetryFailedJob i now s))). rej_Job r = i)
      \<and> \<not> (\<exists>c \<in> set (candidates (fst (RetryFailedJob i now s))). cand_Job c = i))
   \<and> (snd (ForceSearchJob i now s) \<longrightarrow>
      filter (\<lambda>r. rej_Job r = i) (rejections (fst (ForceSearchJob i now s)))
        = filter (\<lambda>r. rej_Job r = i \<and> rej_RetryAfter r = None) (rejections s)
      \<and> \<not> (\<exists>c \<in> set (candidates (fst (ForceSearchJob i now s))). cand_Job c = i))"
proof -
  have "RetryFailedJob i now s = (fst (RetryFailedJob i now s), True)" if "snd (RetryFailedJob i now s)"
    using that by (simp add: prod_eq_iff)
  moreover have "ForceSearchJob i now s = (fst (ForceSearchJob i now s), True)" if "snd (ForceSearchJob i now s)"
    using that by (simp add: prod_eq_iff)
  ultimately show ?thesis
    using retry_failed_clears force_search_keeps by blast
qed

text \<open>
  C7: while the job that registered a download folder is downloading or importing, no other job can
  register it under any casing; each is told of an owner that still has it. Registering again
  changes nothing.
\<close>

theorem download_folder_is_exclusive:
  assumes "RegisterDownloadFolder lower i leaf now s = (s', Inr (0, True))"
    and "in_slot i s" and "lower leaf' = lower leaf" and "validDownloadLeaf leaf'"
  shows "(k \<noteq> i \<longrightarrow> (\<exists>owner. RegisterDownloadFolder lower k leaf' later s' = (s', Inr (owner, False))
        \<and> owner \<noteq> k \<and> in_slot owner s' \<and> uncleaned lower owner leaf s'))
    \<and> RegisterDownloadFolder lower i leaf' later s' = (s', Inr (0, True))"
  using register_excludes [OF assms(1,2) _ assms(3,4)] register_again [OF assms(1,3,4)] by blast

theorem download_folder_is_exclusive_witness:
  "\<exists>owner. RegisterDownloadFolder (map upper_char) 7 ''ALBUM'' 6
      (fst (RegisterDownloadFolder (map upper_char) 1 ''Album'' 5 demo_db))
    = (fst (RegisterDownloadFolder (map upper_char) 1 ''Album'' 5 demo_db), Inr (owner, False))"
proof -
  let ?r = "RegisterDownloadFolder (map upper_char) 1 ''Album'' 5 demo_db"
  have "snd ?r = Inr (0, True)"
    unfolding demo_db_eq demo_job_def demo_candidate_def demo_files_def manual_job_def demo_transfer_def
      new_transfer_def
    by code_simp
  then have "?r = (fst ?r, Inr (0, True))" by (metis prod.collapse)
  moreover have "in_slot 1 demo_db"
    by (simp add: in_slot_def the_job_def demo_db_eq job_is_def demo_job_def manual_job_def)
  moreover have "map upper_char ''ALBUM'' = map upper_char ''Album''" by code_simp
  moreover have "validDownloadLeaf ''ALBUM''" by code_simp
  ultimately show ?thesis
    using download_folder_is_exclusive [of "map upper_char" 1 "''Album''" 5 demo_db "fst ?r" "''ALBUM''" 7 6]
    by auto
qed

section \<open>The modules of the pipeline\<close>

text \<open>
  A backend that accepts every file, one that never confirms a cancellation, and worlds around a
  database. In a busy world another module's transaction runs before each call, and one reply is lost.
\<close>

definition demo_backend :: "unit backend" where
  "demo_backend = \<lparr>net_Search = (\<lambda>q n. (Inr [], n)), net_Enqueue = (\<lambda>u f k n. (Inr ''id'', n)),
     net_Cancel = (\<lambda>u i n. (Inl ErrPeer, n)), net_Remove = (\<lambda>u i n. (Inr (), n)),
     net_DeleteDownloadFolder = (\<lambda>leaf n. (Inr (), n)), net_ListDownloads = (\<lambda>n. (Inr [], n))\<rparr>"

definition quiet_world :: "db \<Rightarrow> unit world" where
  "quiet_world s = \<lparr>w_DB = s, w_History = \<lparr>ht_Reliability = \<lparr>known_users = (\<lambda>u. None), artist_users = (\<lambda>u. None)\<rparr>,
       ht_Passes = (0, []), ht_Throughput = [], ht_Uploads = \<lparr>up_rows = [], up_next = 1\<rparr>\<rparr>,
     w_Wanted = Map.empty, w_Net = (), w_Turns = [], w_Calls = [],
     w_Files = [], w_Faults = []\<rparr>"

definition busy_world :: "db \<Rightarrow> unit world" where
  "busy_world s = (quiet_world s)\<lparr>w_Turns :=
     [\<lparr>turn_Others = id, turn_Reply = Answered\<rparr>, \<lparr>turn_Others = MarkJobFailed 1 7, turn_Reply = Lost\<rparr>]\<rparr>"

definition demo_texts :: texts where
  "demo_texts = \<lparr>tx_Less = (\<lambda>a b. False), tx_Lower = id, tx_Quote = id, tx_Duration = decimal_int, tx_Error = (\<lambda>e. []), tx_Clock = 0\<rparr>"

definition demo_limits :: top_up_limits where
  "demo_limits = \<lparr>lim_Inflight = 1, lim_Retries = 3, lim_Deadline = 10\<rparr>"

definition demo_selecting :: selecting_params where
  "demo_selecting = \<lparr>sp_MaxActive = 2, sp_MaxRetries = 3, sp_BackoffBase = word_of_int hour,
     sp_BackoffCap = word_of_int (24 * hour), sp_CandidateTTL = 100, sp_Limits = demo_limits, sp_CompleteDir = ''/d''\<rparr>"

definition demo_downloading :: downloading_params where
  "demo_downloading = \<lparr>dp_MaxActive = 2, dp_StallTimeout = 60, dp_Limits = demo_limits\<rparr>"

lemma quiet_world_simps [simp]:
  "w_DB (quiet_world s) = s" "w_Turns (quiet_world s) = []" "w_Files (quiet_world s) = []" "w_Net (quiet_world s) = ()"
  "w_Calls (quiet_world s) = []" "w_Faults (quiet_world s) = []" "w_Wanted (quiet_world s) = Map.empty"
  by (simp_all add: quiet_world_def)

lemma demo_wf: "wf_db demo_db"
  by (rule reachable_wf [OF demo_reachable])

lemma demo_knows: "knows (2, 1) demo_db"
  using knows_member [OF demo_wf, of demo_candidate] by (simp add: demo_db_eq demo_candidate_def)

text \<open>
  C8: however the modules interleave with the others, whatever calls of the store fail or lose their
  reply and whatever the backend answers, a tick only takes the database along transactions of the life
  cycle: it stays reachable, so every property of reachable databases holds after, and during, a tick.
\<close>

theorem ticks_stay_reachable:
  fixes w :: "'a world"
  assumes "reachable (w_DB w)" and "others_ok (w_Turns w)"
  shows "reachable (w_DB (snd (run_state (Selecting_Tick tx b sp now) w)))
    \<and> reachable (w_DB (snd (run_state (Downloading_Tick tx b dp now) w)))
    \<and> reachable (w_DB (snd (run_state (Importing_Tick tx b mu ip now) w)))
    \<and> reachable (w_DB (snd (run_state (Discovery_Tick tx b mu ds now) w)))
    \<and> reachable (w_DB (snd (run_state (WantedSync_Tick mu after now) w)))"
proof -
  have start: "runs_from (w_DB w) {} w" using assms reachable_wf by (intro runs_from_start)
  have "reachable (w_DB (snd (run_state m w)))" if "keeps (runs_from (w_DB w) {}) m"
    for m :: "('a world, run_error + unit) state"
    using keepsD [OF that start] assms(1) by (auto simp: runs_from_def intro: store_steps_reachable)
  then show ?thesis by (intro conjI) (blast intro: keeps_rules)+
qed

theorem ticks_stay_reachable_witness:
  "reachable (w_DB (snd (run_state (Selecting_Tick demo_texts demo_backend demo_selecting 5) (busy_world demo_db))))"
proof -
  have "others_ok (w_Turns (busy_world demo_db))"
    by (auto simp: busy_world_def others_ok_def store_steps_single store_step.mark_failed)
  with demo_reachable show ?thesis by (intro conjunct1 [OF ticks_stay_reachable]) (simp_all add: busy_world_def)
qed

text \<open>
  C9: while nobody else writes, a top-up leaves no more files of a candidate in flight than the limit,
  or than were already, and one more for each call of the store that was refused or lost its reply
  during it. With every call answered the limit holds exactly.
\<close>

theorem top_up_respects_limit:
  assumes "alone w" and "wf_db (w_DB w)" and "knows (cid, i) (w_DB w)"
    and "run_state (topUpCandidate tx b l i cid now) w = (x, w')"
  shows "int (inflight cid (w_DB w')) + int (unanswered w')
      \<le> max (int (inflight cid (w_DB w))) (lim_Inflight l) + int (unanswered w)
    \<and> (w_Turns w = [] \<longrightarrow> int (inflight cid (w_DB w')) \<le> max (int (inflight cid (w_DB w))) (lim_Inflight l))"
  using topUp_within [OF assms] by (auto simp: unanswered_def)

text \<open>
  Two files in one folder, a peer that refuses the first of them, and a database that fails when the
  refused file is to be returned to the pending ones: that file keeps its state, is not counted, and
  the second one goes beyond the limit.
\<close>

definition pair_files :: "candidate_file list" where
  "pair_files = demo_files @ [\<lparr>cf_Filename = ''a/c.flac'', cf_Size = 8\<rparr>]"

definition pair_db :: db where
  "pair_db = fst (CreateManualJob ''title'' ''artist'' ''peer'' [] pair_files 10 0 empty_db)"

definition picky_backend :: "unit backend" where
  "picky_backend = demo_backend\<lparr>net_Enqueue := (\<lambda>u f k n. (if f = ''a/b.flac'' then Inl ErrPeer else Inr ''id'', n))\<rparr>"

definition turns_of :: "reply list \<Rightarrow> turn list" where
  "turns_of = map (\<lambda>r. \<lparr>turn_Others = id, turn_Reply = r\<rparr>)"

definition flaky_world :: "reply list \<Rightarrow> db \<Rightarrow> unit world" where
  "flaky_world rs s = (quiet_world s)\<lparr>w_Turns := turns_of rs\<rparr>"

lemma flaky_world_simps [simp]:
  "w_DB (flaky_world rs s) = s" "w_Calls (flaky_world rs s) = []" "alone (flaky_world rs s)"
  "w_Turns (flaky_world rs s) = turns_of rs"
  by (simp_all add: flaky_world_def alone_def turns_of_def list_all_iff)

lemma pair_wf: "wf_db pair_db"
  unfolding pair_db_def by (rule reachable_wf, rule reachable.step [OF reachable.start store_step.manual])

lemma pair_knows: "knows (2, 1) pair_db"
proof -
  have c: "map cand_ID (candidates pair_db) = [2]" "map cand_Job (candidates pair_db) = [1]" by code_simp+
  then obtain d where "d \<in> set (candidates pair_db)" "cand_ID d = 2" "cand_Job d = 1" by auto
  with knows_member [OF pair_wf, of d] show ?thesis by simp
qed

definition failing_retry :: "(nat \<times> run_error option) \<times> unit world" where
  "failing_retry = run_state (topUpCandidate demo_texts picky_backend demo_limits 1 2 5)
     (flaky_world [Answered, Answered, Answered, Answered, Refused] pair_db)"

lemma failed_retry_passes_limit:
  "inflight 2 (w_DB (snd failing_retry)) = 2 \<and> lim_Inflight demo_limits = 1 \<and> w_Turns (snd failing_retry) = []"
  by code_simp

theorem top_up_respects_limit_witness:
  "int (inflight 2 (w_DB (snd failing_retry))) \<le> 2
    \<and> int (inflight 2 (w_DB (snd (run_state (topUpCandidate demo_texts picky_backend demo_limits 1 2 5)
        (quiet_world pair_db))))) \<le> 1"
proof -
  have before: "inflight 2 pair_db = 0" by code_simp
  have "int (inflight 2 (w_DB (snd failing_retry))) \<le> 2"
    using top_up_respects_limit [of "flaky_world [Answered, Answered, Answered, Answered, Refused] pair_db" 2 1
        demo_texts picky_backend demo_limits 5, OF _ _ _ surjective_pairing] pair_wf pair_knows before
    by (simp add: failing_retry_def demo_limits_def unanswered_def turns_of_def)
  moreover have "int (inflight 2 (w_DB (snd (run_state (topUpCandidate demo_texts picky_backend demo_limits 1 2 5)
        (quiet_world pair_db))))) \<le> 1"
    using top_up_respects_limit [of "quiet_world pair_db" 2 1 demo_texts picky_backend demo_limits 5,
        OF _ _ _ surjective_pairing] pair_wf pair_knows before
    by (simp add: demo_limits_def alone_def)
  ultimately show ?thesis ..
qed

text \<open>
  C10: while nobody else writes and the registration of the folder is answered, a file is asked for only
  into a folder the job holds, however the other calls end: if a top-up of a candidate whose pending
  files share a folder makes any call, that folder is registered for the job, not cleaned, and no other
  job in a slot has it. A registration that fails does not block the download.
\<close>

theorem top_up_only_into_own_folder:
  assumes "alone w" and "answered_at 1 w" and "wf_db (w_DB w)" and "knows (cid, i) (w_DB w)"
    and "the_job i (w_DB w) \<noteq> None"
    and "run_state (topUpCandidate tx b l i cid now) w = (x, w')"
    and "\<forall>t \<in> set (TransfersForCandidate cid (w_DB w)). tr_State t = TPending \<longrightarrow> commonLeaf [tr_Filename t] = leaf"
    and "leaf \<noteq> []" and "w_Calls w' \<noteq> w_Calls w"
  shows "holds_folder (tx_Lower tx) i leaf (w_DB w')"
  using topUp_own_folder [OF assms] .

theorem top_up_only_into_own_folder_witness:
  "holds_folder id 1 ''a'' (w_DB (snd failing_retry))"
proof -
  let ?w = "flaky_world [Answered, Answered, Answered, Answered, Refused] pair_db"
  have calls: "w_Calls (snd failing_retry) \<noteq> w_Calls ?w"
    by code_simp
  have "the_job 1 pair_db \<noteq> None" "list_all (\<lambda>t. commonLeaf [tr_Filename t] = ''a'') (transfers pair_db)"
    by code_simp+
  then show ?thesis
    using top_up_only_into_own_folder [where leaf = "''a''" and w = ?w,
        OF _ _ _ _ _ surjective_pairing _ _ calls [unfolded failing_retry_def]] pair_wf pair_knows
    by (simp add: TransfersForCandidate_def list_all_iff demo_texts_def failing_retry_def answered_at_def turns_of_def)
qed

text \<open>The registration refused: the file is asked for all the same, and nothing is registered.\<close>

lemma failed_registration_does_not_block:
  "let w' = snd (run_state (topUpCandidate demo_texts demo_backend demo_limits 1 2 5)
       (flaky_world [Answered, Refused] demo_db))
   in w_Calls w' = [CallEnqueue ''peer'' ''a/b.flac'' 7] \<and> folders (w_DB w') = []"
  by code_simp

text \<open>
  The leaf that a list of remote names yields is empty or a plain name: no separator of either
  kind, not \<open>.\<close>, \<open>..\<close> or the root, so no name a peer sends leads out of the download directory.
\<close>

lemma leaf_stays_inside: "commonLeaf fs = [] \<or> validDownloadLeaf (commonLeaf fs)"
  by (rule commonLeaf_valid)

text \<open>
  C11: while nobody else writes and the registration of the folder is answered, a candidate whose folder
  another job holds makes no call and moves no transfer, however the other calls end. When all calls
  are answered it is marked as deferred the first time; until the deadline has passed since
  then nothing more happens; after it the candidate is failed and its job goes back to selecting, so no
  job waits for a folder for ever.
\<close>

theorem blocked_candidate_waits_then_fails:
  assumes "alone w" and "answered_at 1 w" and "base_ok (w_DB w)"
    and "c \<in> set (candidates (w_DB w))" and "cand_ID c = cid" and "active c"
    and "j \<in> set (jobs (w_DB w))" and "job_ID j = i" and "job_State j = Downloading"
    and "\<forall>t \<in> set (TransfersForCandidate cid (w_DB w)). tr_State t = TPending \<longrightarrow> commonLeaf [tr_Filename t] = leaf"
    and "leaf \<noteq> []" and "\<exists>t \<in> set (TransfersForCandidate cid (w_DB w)). tr_State t = TPending"
    and "int (inflight cid (w_DB w)) < lim_Inflight l"
    and "folder_owner (tx_Lower tx) i leaf (w_DB w) = Some other"
    and "run_state (topUpCandidate tx b l i cid now) w = (x, w')"
  shows "fst x = 0 \<and> w_Calls w' = w_Calls w \<and> transfers (w_DB w') = transfers (w_DB w)
    \<and> (w_Turns w = [] \<longrightarrow> snd x = None
      \<and> (case cand_DeferredSince c of
         None \<Rightarrow> (\<exists>d \<in> set (candidates (w_DB w')). cand_ID d = cid \<and> active d \<and> cand_DeferredSince d = Some now)
           \<and> jobs (w_DB w') = jobs (w_DB w)
       | Some t \<Rightarrow>
           if t = 0 \<or> now - t \<le> lim_Deadline l then jobs (w_DB w') = jobs (w_DB w)
           else (\<forall>d \<in> set (candidates (w_DB w')). cand_ID d = cid \<longrightarrow> cand_State d = CFailed)
             \<and> (\<forall>k \<in> set (jobs (w_DB w')). job_ID k = i \<longrightarrow> job_State k = Selecting)))"
proof -
  have "the_job i (w_DB w) \<noteq> None" using assms(7,8) the_job_None [of i "w_DB w"] by auto
  from topUp_blocked_silent [OF assms(1,2) this assms(10,11) _ assms(15)] assms(14)
  have "fst x = 0 \<and> w_Calls w' = w_Calls w \<and> transfers (w_DB w') = transfers (w_DB w)"
    by (simp add: waits_def same_outside_def)
  moreover note topUp_blocked [OF _ assms(3-15)]
  ultimately show ?thesis by simp
qed

text \<open>A second manual job whose file lies in the same folder.\<close>

definition rival_db :: db where
  "rival_db = fst (CreateManualJob ''other'' ''artist'' ''else'' [] demo_files 10 0
     (fst (RegisterDownloadFolder id 1 ''a'' 5 demo_db)))"

lemma rival_wf: "wf_db rival_db"
  unfolding rival_db_def
  by (rule reachable_wf, rule reachable.step [OF reachable.step [OF demo_reachable store_step.register_folder] store_step.manual])

theorem blocked_candidate_waits_then_fails_witness:
  "w_Calls (snd (run_state (topUpCandidate demo_texts demo_backend demo_limits 4 5 6)
       (flaky_world [Answered, Answered, Lost] rival_db))) = []
   \<and> (\<exists>d \<in> set (candidates (w_DB (snd (run_state (topUpCandidate demo_texts demo_backend demo_limits 4 5 6)
       (flaky_world [] rival_db))))). cand_ID d = 5 \<and> cand_DeferredSince d = Some 6)"
proof -
  let ?c = "hd (tl (candidates rival_db))" and ?j = "hd (tl (jobs rival_db))"
  have facts: "length (candidates rival_db) = 2" "cand_ID ?c = 5" "active ?c" "length (jobs rival_db) = 2"
    "job_ID ?j = 4" "job_State ?j = Downloading" "cand_DeferredSince ?c = None"
    "list_all (\<lambda>t. tr_State t = TPending \<and> commonLeaf [tr_Filename t] = ''a'') (TransfersForCandidate 5 rival_db)"
    "TransfersForCandidate 5 rival_db \<noteq> []" "inflight 5 rival_db = 0" "folder_owner id 4 ''a'' rival_db = Some 1"
    by code_simp+
  have member: "?c \<in> set (candidates rival_db)" "?j \<in> set (jobs rival_db)"
    using facts(1,4) by (auto simp: length_Suc_conv numeral_2_eq_2)
  have base: "base_ok rival_db" using rival_wf by (simp add: wf_db_def)
  have some: "\<exists>t \<in> set (TransfersForCandidate 5 rival_db). tr_State t = TPending"
    using facts(8,9) by (cases "TransfersForCandidate 5 rival_db") auto
  have texts: "lim_Inflight demo_limits = 1" "tx_Lower demo_texts = id"
    by (simp_all add: demo_limits_def demo_texts_def)
  note lost = blocked_candidate_waits_then_fails [of "flaky_world [Answered, Answered, Lost] rival_db" ?c 5 ?j 4
      "''a''" demo_limits demo_texts 1 demo_backend 6, OF _ _ _ _ _ _ _ _ _ _ _ _ _ _ surjective_pairing]
  note quiet = blocked_candidate_waits_then_fails [of "flaky_world [] rival_db" ?c 5 ?j 4
      "''a''" demo_limits demo_texts 1 demo_backend 6, OF _ _ _ _ _ _ _ _ _ _ _ _ _ _ surjective_pairing]
  show ?thesis
    using lost quiet member base some texts facts
    by (auto simp: list_all_iff answered_at_def turns_of_def)
qed

text \<open>
  C12: what becomes of a downloading job, while the store answers and nobody interferes. With a failed file, the files not yet sent are cancelled; while
  one is still with the backend, the attempt stays and the only calls ask to cancel those files, and
  only when none is left the candidate fails, the job goes back to selecting and its registered
  folders, never a quarantine, are deleted. With all files complete the job goes on to import, or ends
  there for a manual job without an identified album; in every other case nothing changes.
\<close>

theorem resolution_outcome:
  assumes "w_Turns w = []" and "wf_db (w_DB w)"
    and "job \<in> set (jobs (w_DB w))" and "job_State job = Downloading"
    and "ActiveCandidate (job_ID job) (w_DB w) = Some c" and "ts = TransfersForCandidate (cand_ID c) (w_DB w)"
    and "run_state (resolveDownloadingJob tx b job now) w = (r, w')"
  shows "if any_failed ts then live_of (cand_ID c) (w_DB w') \<subseteq> {t \<in> set ts. sent t}
        \<and> (if list_ex sent ts
           then r = Inr False \<and> same_rows (w_DB w) (w_DB w')
             \<and> only_calls (\<lambda>k. \<exists>t \<in> set ts. sent t \<and> k = CallCancel (tr_Username t) (tr_SlskdID t)) w w'
           else r = Inr True \<and> ended c CFailed job Selecting (w_DB w')
             \<and> only_calls (\<lambda>k. \<exists>leaf \<in> set (DownloadFoldersForJob (job_ID job) (w_DB w)).
                   k = CallDelete leaf \<and> \<not> isQuarantineDir leaf) w w')
      else if all_completed ts then r = Inr True \<and> w_Calls w' = w_Calls w
        \<and> (if job_Source job = SourceManual \<and> job_MBID job = [] then ended c CSucceeded job NotImported (w_DB w')
           else (\<forall>k \<in> set (jobs (w_DB w')). job_ID k = job_ID job \<longrightarrow> job_State k = Importing)
             \<and> candidates (w_DB w') = candidates (w_DB w))
      else r = Inr False \<and> w' = w"
  using resolve_outcome [OF assms] .

text \<open>The only file has failed.\<close>

definition errored_db :: db where
  "errored_db = UpdateTransferProgress 3 TErrored 0 7 5 demo_db"

lemma errored_wf: "wf_db errored_db"
  unfolding errored_db_def by (rule reachable_wf, rule reachable.step [OF demo_reachable store_step.progress])

theorem resolution_outcome_witness:
  "ended demo_candidate CFailed demo_job Selecting
    (w_DB (snd (run_state (resolveDownloadingJob demo_texts demo_backend demo_job 6) (quiet_world errored_db))))"
proof -
  have rows: "jobs errored_db = [demo_job]" "job_ID demo_job = 1" "job_State demo_job = Downloading"
    "ActiveCandidate 1 errored_db = Some demo_candidate" "cand_ID demo_candidate = 2"
    "map tr_State (TransfersForCandidate 2 errored_db) = [TErrored]"
    by code_simp+
  then obtain t where t: "TransfersForCandidate 2 errored_db = [t]" "tr_State t = TErrored" by auto
  show ?thesis
    using resolution_outcome [of "quiet_world errored_db" demo_job demo_candidate, OF _ _ _ _ _ refl surjective_pairing]
      errored_wf rows t
    by (simp add: any_failed_def sent_def)
qed

text \<open>
  C13: while the store answers and nobody interferes, a transfer past its deadline whose cancellation the backend does not confirm is left alone for as
  long again as the deadline; after that it is failed and its job parked for a person to look at, so
  an unresponsive backend cannot hold a slot for ever.
\<close>

theorem unconfirmed_cancellation_is_parked:
  assumes "w_Turns w = []" and "base_ok (w_DB w)"
    and "t \<in> set (transfers (w_DB w))" and "live t" and "tr_SlskdID t \<noteq> []"
    and "c \<in> set (candidates (w_DB w))" and "cand_ID c = tr_Candidate t" and "cand_Job c = job_ID job"
    and "job \<in> set (jobs (w_DB w))" and "job_State job = Downloading"
    and "matchLive lts t = Some lt" and "tr_State t \<noteq> TStalled \<or> rt_State lt \<noteq> TCancelled"
    and "fst (net_Cancel b (tr_Username t) (tr_SlskdID t) (w_Net w)) = Inl e"
    and "run_state (overdue_one b p lts now t a) w = ((err, a'), w')"
  shows "err = None \<and> (if now - tr_Deadline t \<le> lim_Deadline (dp_Limits p) then w_DB w' = w_DB w
     else (\<forall>k \<in> set (jobs (w_DB w')). job_ID k = job_ID job \<longrightarrow> job_State k = Parked)
       \<and> (\<forall>u \<in> set (transfers (w_DB w')). tr_ID u = tr_ID t \<longrightarrow> tr_State u = TErrored))"
  using overdue_unconfirmed [OF assms] .

text \<open>The only file was sent long ago.\<close>

definition sent_db :: db where
  "sent_db = fst (AttachTransferID 3 ''id'' 1 (fst (RecordEnqueueIntent 2 ''peer'' ''a/b.flac'' 10 1 demo_db)))"

lemma sent_wf: "wf_db sent_db"
  unfolding sent_db_def
  by (rule reachable_wf, rule reachable.step [OF reachable.step [OF demo_reachable store_step.enqueue] store_step.attach])

theorem unconfirmed_cancellation_is_parked_witness:
  "map job_State (jobs (w_DB (snd (run_state (overdue_one demo_backend demo_downloading
      [\<lparr>rt_ID = ''id'', rt_Username = ''peer'', rt_Filename = ''a/b.flac'', rt_State = TInProgress, rt_Size = 7,
         rt_BytesDone = 0, rt_Retryable = True\<rparr>] 21 (hd (transfers sent_db)) new_pass) (quiet_world sent_db)))))
    = [Parked]"
proof -
  let ?lt = "\<lparr>rt_ID = ''id'', rt_Username = ''peer'', rt_Filename = ''a/b.flac'', rt_State = TInProgress, rt_Size = 7,
    rt_BytesDone = 0, rt_Retryable = True\<rparr>" and ?t = "hd (transfers sent_db)"
  let ?run = "run_state (overdue_one demo_backend demo_downloading [?lt] 21 ?t new_pass) (quiet_world sent_db)"
  have rows: "length (transfers sent_db) = 1" "live ?t" "tr_SlskdID ?t \<noteq> []" "tr_Candidate ?t = 2"
    "candidates sent_db = [demo_candidate]" "cand_ID demo_candidate = 2" "cand_Job demo_candidate = 1"
    "jobs sent_db = [demo_job]" "job_ID demo_job = 1" "job_State demo_job = Downloading"
    "matchLive [?lt] ?t = Some ?lt" "tr_Deadline ?t = 10" "tr_State ?t = TQueued"
    "map job_ID (jobs (w_DB (snd ?run))) = [1]"
    by code_simp+
  have "?t \<in> set (transfers sent_db)" using rows(1) by (auto simp: length_Suc_conv)
  moreover have "base_ok sent_db" using sent_wf by (simp add: wf_db_def)
  moreover obtain err a w where run: "?run = ((err, a), w)" by (metis surj_pair)
  ultimately have "\<forall>k \<in> set (jobs (w_DB w)). job_ID k = 1 \<longrightarrow> job_State k = Parked"
    using unconfirmed_cancellation_is_parked [of "quiet_world sent_db" ?t demo_candidate demo_job "[?lt]" ?lt
        demo_backend ErrPeer demo_downloading 21 new_pass err a w] rows
    by (simp add: demo_backend_def demo_downloading_def demo_limits_def)
  with rows(14) run show ?thesis by auto
qed

text \<open>
  C14: while the store answers and nobody interferes, the quarantine of a job that failed for good loses
  no file and overwrites none, whatever calls of the file system fail half-way: there are as many files as before, and every file outside the folders
  registered for the job is where it was. A folder is moved only if it is directly in the download
  directory and not a quarantine itself.
\<close>

theorem quarantine_loses_nothing:
  assumes "tree_ok (w_Files w)" and "w_Turns w = []"
    and "run_state (quarantineLeftovers tx dir i now) w = (r, w')"
  shows "tree_ok (w_Files w') \<and> length (regular_files (w_Files w')) = length (regular_files (w_Files w))
    \<and> (\<forall>p \<in> set (regular_files (w_Files w)).
          (\<forall>leaf \<in> set (DownloadFoldersForJob i (w_DB w)). may_move dir leaf \<longrightarrow> \<not> below (folder_path dir leaf) p)
          \<longrightarrow> p \<in> set (regular_files (w_Files w')))"
  using leftovers_files [OF assms] .

theorem quarantine_loses_nothing_witness:
  "length (regular_files (w_Files (snd (run_state (quarantineLeftovers demo_texts ''/d'' 1 6)
      ((quiet_world rival_db)\<lparr>w_Files := [([''d''], Directory), ([''d'', ''a''], Directory),
         ([''d'', ''a'', ''x''], RegularFile)], w_Faults := [False, True]\<rparr>))))) = 1"
proof -
  let ?w = "(quiet_world rival_db)\<lparr>w_Files := [([''d''], Directory), ([''d'', ''a''], Directory),
    ([''d'', ''a'', ''x''], RegularFile)], w_Faults := [False, True]\<rparr>"
  have "tree_ok (w_Files ?w)" by (auto simp: tree_ok_def node_at_def)
  from quarantine_loses_nothing [OF this _ surjective_pairing] show ?thesis by (simp add: regular_files_def)
qed

text \<open>
  A selecting job without a candidate left. A manual job fails at once, another one when its retry
  budget is used up; otherwise it goes back to the search after the delay of the ladder. A cached
  candidate that has outlived its time sends the job back to the search without counting a retry.
\<close>

lemma selection_dead_ends:
  assumes "w_Turns w = []" and "wf_db (w_DB w)" and "tree_ok (w_Files w)"
    and "job \<in> set (jobs (w_DB w))" and "job_State job = Selecting"
    and "NextNewCandidate (job_ID job) (w_DB w) = oc"
    and "case oc of None \<Rightarrow> True | Some c \<Rightarrow> job_Source job \<noteq> SourceManual \<and> now - cand_Created c > sp_CandidateTTL p"
    and "run_state (selectJob tx b p job now) w = (r, w')"
  shows "r = Inr True \<and> job_view (job_ID job) (w_DB w') = Some (case oc of
      None \<Rightarrow> if job_Source job = SourceManual \<or> job_Retries job + 1 \<ge> sp_MaxRetries p
              then (Failed, job_Retries job, None)
              else (Wanted, job_Retries job + 1,
                Some (now + sint (nextBackoff (job_Retries job + 1) (sp_BackoffBase p) (sp_BackoffCap p))))
    | Some c \<Rightarrow> (Wanted, job_Retries job, None))"
proof (cases oc)
  case None
  with select_none [OF assms(1-5) _ assms(8)] assms(6) show ?thesis by (simp add: given_up_def)
next
  case (Some c)
  with select_expired [OF assms(1,2,4,5) _ _ _ assms(8), of c] assms(6,7) show ?thesis by simp
qed

section \<open>Searching and ranking\<close>

text \<open>Unicode tables that know only ASCII.\<close>

definition ascii :: unicode where
  "ascii = \<lparr>u_ToLower = (\<lambda>r. if 65 \<le> r \<and> r \<le> 90 then r + 32 else r),
     u_IsLetter = (\<lambda>r. 65 \<le> r \<and> r \<le> 90 \<or> 97 \<le> r \<and> r \<le> 122),
     u_IsDigit = (\<lambda>r. 48 \<le> r \<and> r \<le> 57), u_FoldMarks = Some\<rparr>"

text \<open>
  Normalizing a query ends with a query that normalizing again leaves alone, without brackets,
  punctuation or ampersands and with single blanks only.
\<close>

lemma normalized_query_is_stable:
  "NormalizeQuery (NormalizeQuery q) = NormalizeQuery q \<and> settled (NormalizeQuery q)"
  by (simp add: NormalizeQuery_idempotent NormalizeQuery_is_settled)

text \<open>
  C15: a candidate that is accepted for its directory names the album there. A title of up to four
  tokens is in the directory name in full, a longer one by four fifths, and at most two fifths of the
  directory's tokens are unexplained by title and artist; the parent directory is looked at only
  when the last one has no token.
\<close>

theorem accepted_directory_names_album:
  assumes "CheckRelevance u i = (True, SourceDirectory)"
  shows "(card (nonNoise u (ri_AlbumTitle i)) \<le> 4 \<longrightarrow>
      nonNoise u (ri_AlbumTitle i) \<subseteq> dir_tokens u (judged_segment u (ri_Files i)))
    \<and> 4 * card (nonNoise u (ri_AlbumTitle i))
        \<le> 5 * card (nonNoise u (ri_AlbumTitle i) \<inter> dir_tokens u (judged_segment u (ri_Files i)))
    \<and> 5 * card (dir_tokens u (judged_segment u (ri_Files i))
            - (nonNoise u (ri_AlbumTitle i) \<union> nonNoise u (ri_ArtistName i)))
        \<le> 2 * card (dir_tokens u (judged_segment u (ri_Files i)))
    \<and> (dir_tokens u (fst (splitReleaseDir (ri_Files i))) \<noteq> {} \<longrightarrow>
        judged_segment u (ri_Files i) = fst (splitReleaseDir (ri_Files i)))"
  using accepted_by_directory [OF assms]
  by (auto simp: Let_def judged_segment_def split: prod.splits)

definition demo_request :: "string \<Rightarrow> relevance_input" where
  "demo_request dir = \<lparr>ri_ArtistName = ''The Absence'', ri_AlbumTitle = ''The Absence'',
     ri_TrackTitles = [], ri_Files = [dir @ ''/01 - Wartorn.flac'']\<rparr>"

lemma demo_tokens:
  "nonNoise ascii ''The Absence'' = {''the'', ''absence''}"
  "dir_tokens ascii ''The Absence (2016)'' = {''the'', ''absence''}"
  "dir_tokens ascii ''The Absence Of Presence (2020)'' = {''the'', ''absence'', ''of'', ''presence''}"
  by code_simp+

lemma demo_dirs:
  "splitReleaseDir (ri_Files (demo_request ''The Absence (2016)'')) = (''The Absence (2016)'', [])"
  "splitReleaseDir (ri_Files (demo_request ''Kansas/The Absence Of Presence (2020)''))
     = (''The Absence Of Presence (2020)'', ''Kansas'')"
  by code_simp+

lemma demo_verdict:
  "splitReleaseDir (ri_Files (demo_request dir)) = (seg, up) \<Longrightarrow> dir_tokens ascii seg \<noteq> {} \<Longrightarrow>
   CheckRelevance ascii (demo_request dir)
     = (dirCheck ascii seg {''the'', ''absence''} {''the'', ''absence''}, SourceDirectory)"
  by (simp add: CheckRelevance_def title_verdict_def expected_tracks_def dir_verdict_def demo_tokens
      demo_request_def)

theorem accepted_directory_names_album_witness:
  "nonNoise ascii ''The Absence'' \<subseteq> dir_tokens ascii ''The Absence (2016)''
   \<and> CheckRelevance ascii (demo_request ''Kansas/The Absence Of Presence (2020)'') = (False, SourceDirectory)"
proof
  have "CheckRelevance ascii (demo_request ''The Absence (2016)'') = (True, SourceDirectory)"
    using demo_verdict [OF demo_dirs(1)]
    by (simp add: demo_tokens dirCheck_def ratio_at_least_def minTitleRecall_def minDirPrecision_def)
  from accepted_directory_names_album [OF this]
  show "nonNoise ascii ''The Absence'' \<subseteq> dir_tokens ascii ''The Absence (2016)''"
    using demo_dirs(1) by (simp add: judged_segment_def demo_tokens demo_request_def)
  show "CheckRelevance ascii (demo_request ''Kansas/The Absence Of Presence (2020)'') = (False, SourceDirectory)"
    using demo_verdict [OF demo_dirs(2)]
    by (simp add: demo_tokens dirCheck_def ratio_at_least_def minTitleRecall_def minDirPrecision_def)
qed

definition plain_result :: "string \<Rightarrow> string \<Rightarrow> search_result" where
  "plain_result user name = \<lparr>sr_Username = user, sr_Filename = name, sr_Size = 1, sr_BitRate = 320,
     sr_HasFreeUploadSlot = True, sr_QueueLength = 0, sr_UploadSpeed = 0, sr_Duration = 0,
     sr_SampleRate = 0, sr_BitDepth = 0, sr_VariableBitRate = False\<rparr>"

definition no_extension :: "search_result list" where
  "no_extension = [plain_result ''p'' ''d/1'', plain_result ''p'' ''d/2'', plain_result ''p'' ''d/3.ogg'']"

lemma no_extension_orders:
  "dedupeTracks ascii id no_extension = [plain_result ''p'' ''d/3.ogg'']"
  "dedupeTracks ascii rev no_extension = [plain_result ''p'' ''d/1'', plain_result ''p'' ''d/2'']"
  by code_simp+

lemma orders_permute: "permutes_keys id" "permutes_keys rev"
  by (simp_all add: permutes_keys_def)

text \<open>
  C16: the ranking does not depend on the order in which the maps are iterated, as long as every file
  that passes the floor has an extension. Without one the chosen format of a release does depend on it.
\<close>

theorem ranking_is_determined:
  assumes "permutes_keys ord" and "permutes_keys ord'" and "permutes_keys ordk" and "permutes_keys ordk'"
    and "\<forall>r \<in> set results. passesFloor u mb r \<longrightarrow> ExtOf u (sr_Filename r) \<noteq> []"
  shows "Rank u w mb ord ordk results rel now = Rank u w mb ord' ordk' results rel now
    \<and> (\<exists>v files. dedupeTracks v id files \<noteq> dedupeTracks v rev files)"
proof
  show "Rank u w mb ord ordk results rel now = Rank u w mb ord' ordk' results rel now"
    by (rule Rank_order [OF assms])
  show "\<exists>v files. dedupeTracks v id files \<noteq> dedupeTracks v rev files"
    by (rule exI [of _ ascii], rule exI [of _ no_extension]) (simp add: no_extension_orders)
qed

definition demo_results :: "search_result list" where
  "demo_results = [plain_result ''p'' ''d/1.flac'', plain_result ''q'' ''e/1.mp3'', plain_result ''p'' ''d/1.mp3'']"

definition demo_weights :: weights where
  "demo_weights = \<lparr>w_Format = 1, w_Bitrate = 1, w_Reliability = 1, w_FileCount = 1, w_KnownUser = 1\<rparr>"

lemma demo_results_named:
  "\<forall>r \<in> set demo_results. passesFloor ascii 100 r \<longrightarrow> ExtOf ascii (sr_Filename r) \<noteq> []"
  unfolding demo_results_def list.set ball_simps by code_simp

theorem ranking_is_determined_witness:
  "Rank ascii demo_weights 100 id id demo_results Map.empty 0
     = Rank ascii demo_weights 100 rev rev demo_results Map.empty 0"
  using ranking_is_determined [OF orders_permute(1,2) orders_permute(1,2) demo_results_named] by simp

text \<open>
  C17: the candidates of a ranking are releases, one for each user and directory that has a file above
  the floor: files of one user, one directory and one format, one per track. No candidate of an
  unreliable peer stands before one of another peer, and within a tier the scores do not rise.
\<close>

theorem ranking_of_releases:
  assumes "permutes_keys ord" and "permutes_keys ordk"
  shows "list_all (one_release u mb results) (Rank u w mb ord ordk results rel now)
    \<and> (\<forall>r \<in> set results. passesFloor u mb r \<longrightarrow>
        (\<exists>!c. c \<in> set (Rank u w mb ord ordk results rel now) \<and> release_key (hd (rk_Files c)) = release_key r))
    \<and> sorted_wrt (\<lambda>a b. (rk_LastResort a \<longrightarrow> rk_LastResort b)
        \<and> (rk_LastResort a = rk_LastResort b \<longrightarrow> rk_Score b \<le> rk_Score a)) (Rank u w mb ord ordk results rel now)"
proof (intro conjI ballI impI)
  let ?R = "Rank u w mb ord ordk results rel now"
  have mem: "c \<in> set ?R \<longleftrightarrow> (\<exists>k \<in> set (release_keys u mb results). c = rank_candidate u w mb ord results rel now k)" for c
    by (auto simp: Rank_set [OF assms(2)])
  show "list_all (one_release u mb results) ?R"
    using rank_candidate_release(1) [OF assms(1)] by (auto simp: list_all_iff mem)
  show "\<exists>!c. c \<in> set ?R \<and> release_key (hd (rk_Files c)) = release_key r"
    if "r \<in> set results" "passesFloor u mb r" for r
  proof -
    have "release_key r \<in> set (release_keys u mb results)" using that by (auto simp: release_keys_def)
    then show ?thesis using rank_candidate_release(2) [OF assms(1)] by (metis mem)
  qed
  show "sorted_wrt (\<lambda>a b. (rk_LastResort a \<longrightarrow> rk_LastResort b)
      \<and> (rk_LastResort a = rk_LastResort b \<longrightarrow> rk_Score b \<le> rk_Score a)) ?R"
    by (rule sorted_wrt_mono_rel [OF _ Rank_sorted]) (auto simp: rank_less_def split: if_splits)
qed

theorem ranking_of_releases_witness:
  "list_all (one_release ascii 100 demo_results) (Rank ascii demo_weights 100 id rev demo_results Map.empty 0)"
  using ranking_of_releases [OF orders_permute] by blast

text \<open>
  A peer's history is forgiven. The score is strictly between 0 and 1, one half for a peer without
  history, and a peer whose last failures are sixty days old or older is no longer a last resort.
\<close>

lemma old_failures_are_forgiven:
  assumes "failed_long_ago (pr_Artist rel) now" and "failed_long_ago (pr_Global rel) now"
  shows "\<not> IsLastResortPeer rel now \<and> 0 < ReliabilityHistoryScore rel now \<and> ReliabilityHistoryScore rel now < 1
    \<and> ReliabilityHistoryScore \<lparr>pr_Artist = no_counters, pr_Global = no_counters\<rparr> now = 1 / 2"
  using old_failures_forgiven [OF assms] history_score_range
  by (simp add: ReliabilityHistoryScore_def decayedNet_def decayedCount_def no_counters_def)

text \<open>
  C18: deduplicating an album folder by indices into groups removes exactly the files that are not the
  winner of their track, where a numbered file is the track of its number and a file without one the
  track of the first numbered file with its title.
\<close>

theorem dedup_matches_reference:
  "set (dedupFiles files) =
     {f. \<exists>k. f \<in> set (track_files files k) \<and> dd_Path f \<noteq> dd_Path (winner (track_files files k))}"
  by (rule dedup_losers)

text \<open>
  Deduplication keeps exactly one file of every track. A removed file leaves a better one of the
  same track behind, in a folder of several albums one of the same album; two files that stay are
  different tracks; a file with neither number nor title stays.
\<close>

lemma dedup_keeps_one_per_track:
  assumes "\<forall>h \<in> set files. keys_plain h" and "f \<in> set files"
  shows "(f \<in> set (dedupFiles files) \<longrightarrow>
      (\<exists>w \<in> set files. w \<notin> set (dedupFiles files) \<and> beats w f
         \<and> track_of (multiAlbum files) files w = track_of (multiAlbum files) files f
         \<and> (multiAlbum files \<longrightarrow> dd_AlbumKey w = dd_AlbumKey f)))
    \<and> (\<forall>g \<in> set files. f \<notin> set (dedupFiles files) \<and> g \<notin> set (dedupFiles files)
         \<and> dd_Path f \<noteq> dd_Path g \<and> track_of (multiAlbum files) files f \<noteq> None
         \<longrightarrow> track_of (multiAlbum files) files f \<noteq> track_of (multiAlbum files) files g)
    \<and> (dd_Track f \<le> 0 \<and> dd_TitleKey f = [] \<longrightarrow> f \<notin> set (dedupFiles files))"
proof (intro conjI impI)
  assume removed: "f \<in> set (dedupFiles files)"
  obtain w where w: "w \<in> set files" "w \<notin> set (dedupFiles files)" "beats w f"
    "track_of (multiAlbum files) files w = track_of (multiAlbum files) files f"
    using removed_has_better [OF removed] by blast
  moreover have "track_of (multiAlbum files) files f \<noteq> None"
    using removed by (rule dedup_removed) simp
  ultimately have "albumOf (multiAlbum files) w = albumOf (multiAlbum files) f"
    using track_album [OF assms(1) w(1) assms(2)] by simp
  then have "multiAlbum files \<longrightarrow> dd_AlbumKey w = dd_AlbumKey f" by (auto simp: albumOf_def split: if_splits)
  with w show "\<exists>w \<in> set files. w \<notin> set (dedupFiles files) \<and> beats w f
      \<and> track_of (multiAlbum files) files w = track_of (multiAlbum files) files f
      \<and> (multiAlbum files \<longrightarrow> dd_AlbumKey w = dd_AlbumKey f)"
    by blast
next
  show "\<forall>g \<in> set files. f \<notin> set (dedupFiles files) \<and> g \<notin> set (dedupFiles files)
      \<and> dd_Path f \<noteq> dd_Path g \<and> track_of (multiAlbum files) files f \<noteq> None
      \<longrightarrow> track_of (multiAlbum files) files f \<noteq> track_of (multiAlbum files) files g"
    by (metis assms(2) not_None_eq one_file_per_track)
next
  assume "dd_Track f \<le> 0 \<and> dd_TitleKey f = []"
  then have "track_of (multiAlbum files) files f = None" by (simp add: track_of_def is_numbered_def)
  then show "f \<notin> set (dedupFiles files)" by (metis dedup_removed option.distinct(1))
qed

text \<open>
  Deleting a job removes its row and every row that refers to it, and leaves all others.
\<close>

lemma deleted_job_leaves_nothing:
  assumes "base_ok s" and "DeleteJob i s = (s', Inr True)"
  shows "jobs s' = filter (\<lambda>j. job_ID j \<noteq> i) (jobs s)
    \<and> candidates s' = filter (\<lambda>c. cand_Job c \<noteq> i) (candidates s)
    \<and> events s' = filter (\<lambda>e. ev_Job e \<noteq> i) (events s)
    \<and> folders s' = filter (\<lambda>f. df_Job f \<noteq> i) (folders s)
    \<and> rejections s' = filter (\<lambda>r. rej_Job r \<noteq> i) (rejections s)
    \<and> (\<forall>t \<in> set (transfers s). (t \<in> set (transfers s'))
          = (\<forall>c \<in> set (candidates s). cand_ID c = tr_Candidate t \<longrightarrow> cand_Job c \<noteq> i))"
proof -
  have "s' = without_job i (drop_candidates (\<lambda>k. k = i) s)"
    using assms(2) by (auto simp: DeleteJob_def Let_def without_job_def split: option.splits if_splits)
  then show ?thesis
    by (auto simp: without_job_def row_delete_def job_is_def candidate_ids_def image_iff)
qed

text \<open>
  Pruning the audit trail keeps every event inside the retention window and deletes the expired
  ones, all of them up to a hundred thousand.
\<close>

lemma pruning_is_exact:
  assumes "distinct (map ev_ID (events s))"
  shows "filter (\<lambda>e. \<not> expired (now - jobEventRetention) e) (events (PruneJobEvents now s))
      = filter (\<lambda>e. \<not> expired (now - jobEventRetention) e) (events s)
    \<and> row_count (expired (now - jobEventRetention)) (events (PruneJobEvents now s))
      = row_count (expired (now - jobEventRetention)) (events s) - 100 * 1000"
  using pruneJobEvents_effect [OF assms, of "now - jobEventRetention" jobEventPruneMaxBatches]
  by (simp add: PruneJobEvents_def jobEventPruneMaxBatches_def jobEventPruneBatchSize_def)

text \<open>
  A reader that follows the pages of the upload history, each from the last id it has seen,
  gets every upload exactly once, newest first, whatever the page length.
\<close>

lemma upload_pages_complete:
  assumes "uploads_ok t" and "limit > 0"
  shows "follow_pages (UploadHistory t limit) up_ID (Suc (length (up_rows t))) 0 = newest_first up_ID (up_rows t)
    \<and> distinct (map up_ID (newest_first up_ID (up_rows t)))
    \<and> set (newest_first up_ID (up_rows t)) = set (up_rows t)"
proof -
  have d: "distinct (map up_ID (up_rows t))" using assms(1) by (simp add: uploads_ok_def)
  have "distinct (map up_ID (newest_first up_ID (up_rows t)))"
    unfolding newest_first_def by (rule distinct_order_by [OF d])
  moreover have "follow_pages (UploadHistory t limit) up_ID (Suc (length (up_rows t))) 0
      = newest_first up_ID (up_rows t)"
    using assms(1) by (intro uploads.pages_complete [OF d _ assms(2)]) (simp_all add: uploads_ok_def)
  ultimately show ?thesis by simp
qed

definition demo_upload :: upload_entry where
  "demo_upload = \<lparr>up_ID = 0, up_Username = ''peer'', up_Filename = ''f'', up_Size = 1, up_BytesSent = 1,
     up_AvgBytesPerSecond = 1, up_Status = UploadCompleted, up_Detail = [], up_StartedAt = 0, up_FinishedAt = 1\<rparr>"

text \<open>
  A private message that the server delivers again is reported as already stored and changes
  nothing, and reading a conversation takes its unread messages, and only those, off the count.
\<close>

lemma messages_stored_once:
  assumes "pm_ServerMessageID m = Some i" and "pm_ServerMessageID m' = Some i"
  shows "RecordIncomingMessage m' (fst (RecordIncomingMessage m t)) = (fst (RecordIncomingMessage m t), 0, False)
    \<and> UnreadMessageCount (fst (MarkConversationRead u now t)) + snd (MarkConversationRead u now t)
        = UnreadMessageCount t"
  using redelivery [OF assms] mark_read_counts by simp

text \<open>
  The reliability tables count exactly the recorded outcomes of a peer, overall and for the
  artist.
\<close>

lemma reliability_counts_outcomes:
  assumes "a > 0"
  shows "counts_of (known_users (record_all ocs fresh_tables) u)
      = (row_count (\<lambda>o'. oc_Username o' = u \<and> oc_Success o') ocs,
         row_count (\<lambda>o'. oc_Username o' = u \<and> \<not> oc_Success o') ocs)
    \<and> counts_of (artist_users (record_all ocs fresh_tables) (a, u))
      = (row_count (\<lambda>o'. oc_Artist o' = a \<and> oc_Username o' = u \<and> oc_Success o') ocs,
         row_count (\<lambda>o'. oc_Artist o' = a \<and> oc_Username o' = u \<and> \<not> oc_Success o') ocs)"
  using record_all_counts [where ocs = ocs and t = fresh_tables and u = u] assms
  by (simp add: fresh_tables_def counts_of_def)

text \<open>
  Two rollups of the same minute with different sample counts leave the same row in either order
  of arrival, the one with more samples.
\<close>

lemma throughput_rollups_commute:
  assumes "tm_Samples m \<noteq> tm_Samples n"
  shows "throughput_at (RecordThroughputMinute m (RecordThroughputMinute n rows)) minute
      = throughput_at (RecordThroughputMinute n (RecordThroughputMinute m rows)) minute"
  using throughput_order [OF assms] .

text \<open>
  A session resolves to its user exactly until it expires; the periodic cleanup never changes
  the answer, and a logged-out token resolves to nobody.
\<close>

lemma session_valid_until_expiry:
  assumes "accounts_ok a" and "x \<in> set (sessions a)" and "now \<le> later"
  shows "((\<exists>u. SessionUser (ses_TokenHash x) now a = Inr u \<and> user_ID u = ses_User x) \<longleftrightarrow> ses_Expires x > now)
    \<and> SessionUser h later (fst (DeleteExpiredSessions now a)) = SessionUser h later a
    \<and> SessionUser h now (DeleteSession h a) = Inl ErrUserNotFound"
  using session_resolves [OF assms(1,2)] cleanup_invisible [OF assms(3)] logout_final by blast

text \<open>
  The first-run setup. Once an account exists no later call creates a first user; but two calls
  that overlap on the empty table, with different names, both succeed.
\<close>

lemma setup_closes_without_overlap:
  assumes "users a = []" and "m \<noteq> n"
  shows "(\<forall>b. CreateFirstUser n h now a = Inr b \<longrightarrow> CreateFirstUser m g now' b = Inl ErrSetupClosed)
    \<and> (\<exists>b c. first_user_on a n h now a = Inr b \<and> first_user_on a m g now' b = Inr c \<and> CountUsers c = 2)"
proof -
  obtain b where "first_user_on a n h now a = Inr b"
    using assms(1) by (simp add: first_user_on_def insert_user_def row_count_def)
  with setup_race [OF assms(1) _ assms(2)] setup_closes show ?thesis by blast
qed

section \<open>From the wanted list to the library\<close>

text \<open>
  Lidarr with one wanted album, one matched file and two editions, of which the library has nothing, and
  the parameters of the modules.
\<close>

definition demo_album :: wanted_release where
  "demo_album = \<lparr>wr_ID = 9, wr_Title = [], wr_ArtistName = ''artist'', wr_ArtistID = 4, wr_ReleaseDate = []\<rparr>"

definition demo_item :: import_item where
  "demo_item = \<lparr>ii_ID = 1, ii_Path = ''/d/a/b.flac'', ii_ArtistID = 4, ii_AlbumID = 9, ii_AlbumReleaseID = 2,
     ii_TrackIDs = [31, 32], ii_Quality = [], ii_IndexerFlags = 0, ii_DisableReleaseSwitching = False,
     ii_Rejections = [], ii_Importable = True\<rparr>"

definition demo_music :: "unit music" where
  "demo_music = \<lparr>mus_WantedMissing = (\<lambda>n. (Inr [demo_album], n)),
     mus_ManualImportCandidates = (\<lambda>folder n. (Inr [demo_item], n)),
     mus_ExecuteManualImport = (\<lambda>items n. (Inr (), n)), mus_AlbumStatus = (\<lambda>i n. (Inr (0, 2), n)),
     mus_AlbumReleases = (\<lambda>i n. (Inr [\<lparr>ar_ID = 1, ar_TrackCount = 2, ar_Monitored = True\<rparr>,
        \<lparr>ar_ID = 2, ar_TrackCount = 5, ar_Monitored = False\<rparr>], n)),
     mus_AlbumTracks = (\<lambda>i n. (Inr [], n)), mus_AlbumByForeignID = (\<lambda>i n. (Inr (Some 9), n))\<rparr>"

definition demo_importing :: importing_params where
  "demo_importing = \<lparr>ip_MaxActive = 2, ip_MaxCandidates = 5, ip_StuckAfter = 100, ip_ConfirmTimeout = 50,
     ip_RetryCooldown = 10, ip_CompleteDir = ''/d'',
     ip_Facts = \<lparr>ff_Unicode = ascii, ff_Size = (\<lambda>p. 7), ff_Tags = (\<lambda>p. None)\<rparr>\<rparr>"

definition demo_discovery :: discovery_params where
  "demo_discovery = \<lparr>ds_MaxCandidates = 5, ds_MaxRetries = 3, ds_BackoffBase = word_of_int hour,
     ds_BackoffCap = word_of_int (24 * hour), ds_Unicode = ascii,
     ds_Rank = (\<lambda>rs rel now. [\<lparr>rk_Username = ''p'', rk_Files = rs, rk_Score = 1, rk_LastResort = False\<rparr>])\<rparr>"

definition importing_db :: db where
  "importing_db = fst (AdvanceJobStateFrom 1 Downloading Importing 6 (UpdateTransferProgress 3 TCompleted 7 7 5 demo_db))"

lemma importing_reachable: "reachable importing_db"
  unfolding importing_db_def
  by (rule reachable.step [OF reachable.step [OF demo_reachable store_step.progress] store_step.advance])
    (simp add: legal_advance_def)

text \<open>An album to import, of a job that Lidarr wants or of one that a person asked for.\<close>

definition demo_import :: "job_source \<Rightarrow> album_job" where
  "demo_import src = demo_job\<lparr>job_Album := Some 9, job_State := Importing, job_Source := src, job_MinTracks := 2\<rparr>"

lemma demo_importing_job: "importing (demo_import src) demo_candidate (quiet_world importing_db)"
proof -
  have "candidates importing_db = [demo_candidate]" "map (\<lambda>j. (job_ID j, job_State j)) (jobs importing_db) = [(1, Importing)]"
    "job_ID (demo_import src) = 1" "cand_Job demo_candidate = 1" "active demo_candidate"
    by code_simp+
  then show ?thesis using reachable_wf [OF importing_reachable] by (auto simp: importing_def map_eq_Cons_conv)
qed

text \<open>
  C19: whatever fails and whatever the others do, all that the import of a job asks for is to import
  files that Lidarr has matched to tracks, and to delete a folder that is not one of the quarantines. What
  is imported covers as many different tracks as the job has cached as its smallest edition; where
  nothing is cached, Lidarr has answered the lookup of the album's editions, and the files
  cover as many tracks as one of those that have a count, unless none of them has.
\<close>

theorem imports_are_whole_albums:
  assumes "run_state (importJob tx b mu p job now) w = (r, w')"
  shows "only_calls (\<lambda>k.
      (\<exists>items. k = CallImport items \<and> items \<noteq> [] \<and> (\<forall>it \<in> set items. ii_TrackIDs it \<noteq> [])
         \<and> (if job_MinTracks job \<noteq> 0 then job_MinTracks job \<le> int (coverage items)
            else \<exists>album n rels. import_album mu job album
              \<and> fst (mus_AlbumReleases mu album n) = Inr rels \<and> covers_edition rels items))
      \<or> (\<exists>leaf. k = CallDelete leaf \<and> \<not> isQuarantineDir leaf)) w w'"
proof -
  have "keeps (only_calls (import_call (covers_job mu job) True) w) (importJob tx b mu p job now)"
    by (rule calls_importJob) simp_all
  from keepsD [OF this only_calls_start] assms have "only_calls (import_call (covers_job mu job) True) w w'" by simp
  then show ?thesis
  proof (rule only_calls_mono)
    fix k assume "import_call (covers_job mu job) True k"
    then show "(\<exists>items. k = CallImport items \<and> items \<noteq> [] \<and> (\<forall>it \<in> set items. ii_TrackIDs it \<noteq> [])
         \<and> (if job_MinTracks job \<noteq> 0 then job_MinTracks job \<le> int (coverage items)
            else \<exists>album n rels. import_album mu job album
              \<and> fst (mus_AlbumReleases mu album n) = Inr rels \<and> covers_edition rels items))
      \<or> (\<exists>leaf. k = CallDelete leaf \<and> \<not> isQuarantineDir leaf)"
      unfolding import_call_def whole_album_def matched_item_def list_all_iff covers_job_def covers_album_def
      by (auto split: if_splits)
  qed
qed

text \<open>A job with nothing cached: the editions are looked up, the import is asked for.\<close>

definition uncached_import :: "unit world" where
  "uncached_import = snd (run_state (importJob demo_texts demo_backend demo_music demo_importing
     ((demo_import SourceManual)\<lparr>job_MinTracks := 0\<rparr>) 7) (quiet_world importing_db))"

lemma uncached_calls: "w_Calls uncached_import = [CallImport [demo_item]]"
  by code_simp

theorem imports_are_whole_albums_witness: "2 \<le> coverage [demo_item]"
proof -
  have "only_calls (\<lambda>k. \<forall>items. k = CallImport items \<longrightarrow> 2 \<le> coverage items) (quiet_world importing_db) uncached_import"
    using imports_are_whole_albums [OF surjective_pairing, where tx = demo_texts and b = demo_backend and mu = demo_music
        and p = demo_importing and job = "(demo_import SourceManual)\<lparr>job_MinTracks := 0\<rparr>" and now = 7
        and w = "quiet_world importing_db"]
    unfolding uncached_import_def
    by (rule only_calls_mono) (auto simp: demo_music_def covers_edition_def)
  then show ?thesis by (auto simp: only_calls_def uncached_calls)
qed



text \<open>
  C21: while the store answers and nobody interferes, a submitted import is confirmed when Lidarr has every track of the album, and a total of
  zero confirms nothing; past the timeout the attempt fails and the job goes back to selecting, before
  it nothing changes. Nothing is ever asked of Lidarr or deleted by the peer backend on the way.
\<close>

theorem import_confirmation:
  assumes "importing job c w" and "run_state (confirm tx mu p job c since now) w = (r, w')"
  shows "r = Inr () \<and>
    (if says_complete mu (album_id job) (w_Net w) then ended c CSucceeded job Done (w_DB w')
     else if now - since > ip_ConfirmTimeout p then ended c CFailed job Selecting (w_DB w')
     else w_DB w' = w_DB w)
    \<and> only_calls (\<lambda>k. False) w w'"
  using confirm_outcome [OF assms] .

theorem import_confirmation_witness:
  "ended demo_candidate CFailed (demo_import SourceLidarr) Selecting
    (w_DB (snd (run_state (confirm demo_texts demo_music demo_importing (demo_import SourceLidarr) demo_candidate 6 57)
      (quiet_world importing_db))))"
  using import_confirmation [OF demo_importing_job surjective_pairing, of demo_texts demo_music demo_importing SourceLidarr 6 57]
  by (simp add: says_complete_def demo_music_def demo_importing_def)



text \<open>
  When Lidarr has the album already and matches none of the downloaded files, the folder of a manual
  job is deleted all the same.
\<close>

definition full_library :: "unit music" where
  "full_library = demo_music\<lparr>mus_AlbumStatus := (\<lambda>i n. (Inr (2, 2), n)),
     mus_ManualImportCandidates := (\<lambda>folder n. (Inr [demo_item\<lparr>ii_TrackIDs := []\<rparr>], n))\<rparr>"

lemma manual_download_deleted:
  "w_Calls (snd (run_state (importJob demo_texts demo_backend full_library demo_importing (demo_import SourceManual) 7)
     (quiet_world (fst (RegisterDownloadFolder id 1 ''a'' 5 importing_db))))) = [CallDelete ''a'']"
  by code_simp

text \<open>
  A folder that Lidarr refused and that went to its plain place in the quarantine comes back to
  where it was when the job is retried: every file is again where it was, and nothing else has moved.
\<close>

lemma refused_folder_comes_back:
  assumes "tree_ok (w_Files w)" and "w_Faults w = []" and "validDownloadLeaf leaf"
    and "run_state (quarantineFolder tx i dir leaf refusedDirName) w
      = (Some (path_Join (path_Join dir refusedDirName) leaf), v)"
    and "run_state (restoreRefusedFolder i dir (path_Join dir leaf)) v = (x, u)"
  shows "regular_files (w_Files u) = regular_files (w_Files w) \<and> set (w_Files w) \<subseteq> set (w_Files u)"
  using refused_comes_back [OF assms] .

text \<open>
  With two refused folders of the same name the retry of the second job takes the folder of the
  first: the plain name wins over the name with the job's number.
\<close>

lemma retry_takes_the_other_folder:
  "regular_files (w_Files (snd (run_state (restoreRefusedFolder 2 ''/d'' ''/d/a'')
     ((quiet_world empty_db)\<lparr>w_Files :=
        [([''d''], Directory), ([''d'', refusedDirName], Directory), ([''d'', refusedDirName, ''a''], Directory),
         ([''d'', refusedDirName, ''a'', ''first.flac''], RegularFile), ([''d'', refusedDirName, ''a.job2''], Directory),
         ([''d'', refusedDirName, ''a.job2'', ''second.flac''], RegularFile)]\<rparr>))))
   = [[''d'', ''a'', ''first.flac''], [''d'', refusedDirName, ''a.job2'', ''second.flac'']]"
  by code_simp

text \<open>
  C23: what a search does to its job, while the store answers and nobody interferes. The survivors are the first candidates of the ranking, up to the
  cap, that are not barred, lie in the band of track counts and are the album; they are cached as
  they are and the job is selected for. Without a survivor an unanswered search only delays the job and
  spends none of its retries; an answered one spends one, and fails the job with the last.
\<close>

theorem search_outcome:
  assumes "w_Turns w = []" and "wf_db (w_DB w)" and "job \<in> set (jobs (w_DB w))" and "job_State job = Wanted"
    and "S = survivors_of p mu job album band results w now"
    and "run_state (use_results tx p mu job album band query results now) w = (r, w')"
  shows "r = Inr (True, S \<noteq> [])
    \<and> length S \<le> nat (ds_MaxCandidates p) \<and> list_all (\<lambda>c. \<not> (\<exists>k \<in> barred_keys job now (w_DB w). candidateKeyOf c = Some k)) S
    \<and> map cached (candidates (w_DB w')) = map cached (candidates (w_DB w))
        @ map (\<lambda>c. (job_ID job, CNew, newCandidateFrom c)) S
    \<and> job_view (job_ID job) (w_DB w') = Some (if S \<noteq> [] then (Selecting, 0, None)
        else if results = [] then (Wanted, job_Retries job,
          Some (now + sint (nextBackoff (job_EmptySearches job + 1) (ds_BackoffBase p) (ds_BackoffCap p))))
        else if job_Retries job + 1 \<ge> ds_MaxRetries p then (Failed, job_Retries job, None)
        else (Wanted, job_Retries job + 1,
          Some (now + sint (nextBackoff (job_Retries job + 1) (ds_BackoffBase p) (ds_BackoffCap p)))))"
proof -
  have "length S \<le> nat (ds_MaxCandidates p)" by (simp add: assms(5) survivors_of_def Let_def)
  moreover have "list_all (\<lambda>c. \<not> (\<exists>k \<in> barred_keys job now (w_DB w). candidateKeyOf c = Some k)) S"
    unfolding assms(5) by (auto simp: list_all_iff dest: survivors_bounds(2))
  ultimately show ?thesis using use_results_outcome [OF assms] by simp
qed

definition wanted_db :: db where
  "wanted_db = fst (SyncWantedJobs [demo_album] 0 5 empty_db)"

theorem search_outcome_witness:
  "job_view 1 (w_DB (snd (run_state (use_results demo_texts demo_discovery demo_music (hd (jobs wanted_db)) demo_album
     (1, 5) ''artist '' [plain_result ''p'' ''d/1.flac''] 6) (quiet_world wanted_db)))) = Some (Selecting, 0, None)"
proof -
  let ?j = "hd (jobs wanted_db)"
  have "wf_db wanted_db"
    unfolding wanted_db_def by (rule reachable_wf [OF reachable.step [OF reachable.start store_step.sync]])
  moreover have job: "?j \<in> set (jobs wanted_db)" "job_State ?j = Wanted" "job_ID ?j = 1"
    by code_simp+
  moreover have "survivors_of demo_discovery demo_music ?j demo_album (1, 5) [plain_result ''p'' ''d/1.flac'']
      (quiet_world wanted_db) 6 \<noteq> []"
    by code_simp
  ultimately show ?thesis
    using search_outcome [OF _ _ _ _ refl surjective_pairing, where w = "quiet_world wanted_db" and job = ?j
        and p = demo_discovery and mu = demo_music and album = demo_album and band = "(1, 5)" and now = 6
        and tx = demo_texts and query = "''artist ''" and results = "[plain_result ''p'' ''d/1.flac'']"]
    by simp
qed

text \<open>
  A tick of the discovery asks the network at most three times and asks nothing else of it,
  however large the backlog, whatever the answers and whatever fails.
\<close>

lemma three_searches_at_most:
  assumes "run_state (Discovery_Tick tx b mu p now) w = (r, w')"
  shows "\<exists>qs. w_Calls w' = w_Calls w @ map CallSearch qs \<and> length qs \<le> 3"
  using tick_searches [OF assms] .

text \<open>
  The wanted list is published only when all of a synchronization has succeeded, and then as
  Lidarr sent it, the last entry of an album winning; a failure in any step keeps the old list, and an
  outage of Lidarr touches nothing at all.
\<close>

lemma wanted_list_all_or_nothing:
  assumes "run_state (WantedSync_Tick mu after now) w = (r, w')"
  shows "(case r of
      Inl e \<Rightarrow> w_Wanted w' = w_Wanted w
    | Inr _ \<Rightarrow> (\<exists>albums. fst (mus_WantedMissing mu (w_Net w)) = Inr albums \<and> w_Wanted w' = last_release albums))
    \<and> (fst (mus_WantedMissing mu (w_Net w)) = Inl () \<longrightarrow>
        r = Inl ErrLidarr \<and> w' = w\<lparr>w_Net := snd (mus_WantedMissing mu (w_Net w))\<rparr>)"
  using sync_publishes [OF assms] outage_changes_nothing [of mu w after now] assms by auto

text \<open>
  What readiness says of a module's ticks: the last one is recent, one has succeeded, and among the
  last three, if there were as many, one has. An error and a panic count alike, and a single success
  makes a live module ready again.
\<close>

lemma readiness_of_ticks:
  "(hl_Ready (Health interval tickTimeout now (status_after ts)) \<longleftrightarrow>
     ts \<noteq> [] \<and> now \<le> tk_Attempted (last ts) + interval * 3 + tickTimeout
     \<and> list_ex (\<lambda>t. tk_End t = Returned) ts
     \<and> (length ts < 3 \<or> list_ex (\<lambda>t. tk_End t = Returned) (take 3 (rev ts))))
   \<and> hl_Ready (Health interval tickTimeout now (status_after (ts @ [t\<lparr>tk_End := Returned\<rparr>])))
     = (now \<le> tk_Attempted t + interval * 3 + tickTimeout)"
proof -
  have "(\<lambda>t. \<not> failed t) = (\<lambda>t. tk_End t = Returned)" by (simp add: failed_def fun_eq_iff)
  then show ?thesis
    using ready_iff [of interval tickTimeout now ts] ready_iff [of interval tickTimeout now "ts @ [t\<lparr>tk_End := Returned\<rparr>]"]
    by (simp add: take_Cons')
qed

section \<open>Downloads and uploads\<close>

text \<open>A compressor that stores, for the instances.\<close>

definition stored :: "u8 list \<Rightarrow> u8 list" where
  "stored d = d"

definition stored_read :: "nat \<Rightarrow> u8 list \<Rightarrow> wire_error + u8 list" where
  "stored_read n d = Inr (take n d)"

lemma stored_law: "zlib_law stored stored_read"
  by (simp add: zlib_law_def stored_def stored_read_def)

text \<open>The states that the registry of downloads can get into.\<close>

definition downloads_reached :: "unicode \<Rightarrow> (string \<Rightarrow> string) \<Rightarrow> string \<Rightarrow> downloads \<Rightarrow> bool" where
  "downloads_reached u digest dir = downloading.reached u digest dir newDownloadRegistry"

lemma reached_downloads_ok: "downloads_reached u digest dir ds \<Longrightarrow> downloads_ok ds"
  unfolding downloads_reached_def by (rule downloading.reached_good [OF _ downloads_ok_new])

text \<open>
  C24: whatever order the callers, the frames of the peers, the file connections and the goroutines of the
  transfers run in, every transfer is well-formed: it is done exactly when its goroutine has returned, and then
  in a final state; it is in progress only while its file streams, and then has no place in a queue; it waits
  for a connection, and has one in its channel, only at the points that take it; and every name in the
  registry leads to a transfer of that id, that peer and file, or that token.
\<close>

theorem downloads_are_well_formed:
  assumes "downloads_reached u digest dir ds"
  shows "list_all (\<lambda>tr.
        (lt_done tr \<longleftrightarrow> lt_point tr = HasReturned)
      \<and> (lt_done tr \<longrightarrow> lt_state tr \<in> {TCompleted, TErrored, TCancelled})
      \<and> (\<not> lt_done tr \<longrightarrow> lt_state tr \<in> {TQueued, TInProgress, TCancelled})
      \<and> (lt_state tr = TInProgress \<longrightarrow> streaming_point (lt_point tr) \<and> lt_queuePosition tr = 0)
      \<and> (lt_awaiting tr \<longleftrightarrow> waiting_point (lt_point tr)) \<and> (lt_connCh tr \<noteq> None \<longrightarrow> lt_awaiting tr)) (ds_heap ds)
    \<and> (ds_byID ds i = Some r \<longrightarrow> r < length (ds_heap ds) \<and> lt_id (ds_heap ds ! r) = i)
    \<and> (ds_byKey ds k = Some r \<longrightarrow> r < length (ds_heap ds) \<and> key_of (ds_heap ds ! r) = k)
    \<and> (ds_byToken ds t = Some r \<longrightarrow> r < length (ds_heap ds) \<and> lt_token (ds_heap ds ! r) = t)"
proof -
  note ok = downloads_okD [OF reached_downloads_ok [OF assms]]
  have "tr_ok tr" if "tr \<in> set (ds_heap ds)" for tr using that ok(1) by (metis in_set_conv_nth)
  then show ?thesis using names_okD [OF ok(5)] by (fastforce simp: list_all_iff tr_ok_def)
qed

text \<open>A download on its way to the file connection it was promised.\<close>

definition demo_calls :: "download_call list" where
  "demo_calls = [enqueue_it ''a''] @ until_awaiting 0 ''a'' 7 @ [CallInbound 3 (Some 7), CallHandOver 3 0 True]"

definition demo_downloads :: downloads where
  "demo_downloads = the (replay ascii id ''/d'' demo_calls newDownloadRegistry)"

lemma replay_reached:
  "replay u digest dir as s = Some t \<Longrightarrow> downloading.reached u digest dir r s
     \<Longrightarrow> downloading.reached u digest dir r t"
  by (induction as arbitrary: s) (auto split: if_splits intro: downloading.step)

lemma demo_downloads_reached: "downloads_reached ascii id ''/d'' demo_downloads"
proof -
  have "replay ascii id ''/d'' demo_calls newDownloadRegistry \<noteq> None" by code_simp
  then have "replay ascii id ''/d'' demo_calls newDownloadRegistry = Some demo_downloads"
    by (auto simp: demo_downloads_def)
  then show ?thesis unfolding downloads_reached_def by (rule replay_reached [OF _ downloading.start])
qed

theorem downloads_are_well_formed_witness:
  "list_all (\<lambda>tr. lt_connCh tr \<noteq> None \<longrightarrow> lt_awaiting tr) (ds_heap demo_downloads)"
  using downloads_are_well_formed [OF demo_downloads_reached] by (rule conjunct1 [THEN list.pred_mono_strong]) blast

text \<open>
  C25: every open file connection has exactly one owner: a handler that is about to hand it over, the
  channel of a transfer, or the goroutine that streams from it. So when no handler is left and all the
  goroutines have returned, no connection is open.
\<close>

theorem connections_have_one_owner:
  assumes "downloads_reached u digest dir ds"
  shows "distinct (ds_open ds) \<and> mset (map fst (ds_handlers ds) @ concat (map held (ds_heap ds))) = mset (ds_open ds)
    \<and> (ds_handlers ds = [] \<and> list_all lt_done (ds_heap ds) \<longrightarrow> ds_open ds = [])"
proof -
  note ok = reached_downloads_ok [OF assms]
  have "lt_point (ds_heap ds ! r) = HasReturned" if "list_all lt_done (ds_heap ds)" "r < length (ds_heap ds)" for r
    using that downloads_okD(1) [OF ok that(2)] by (simp add: list_all_length tr_ok_def)
  then show ?thesis
    using downloads_okD(2,3) [OF ok] nothing_left_open [OF ok] by (auto simp: owned_conns_def)
qed

theorem connections_have_one_owner_witness: "distinct (ds_open demo_downloads)"
  using connections_have_one_owner [OF demo_downloads_reached] by blast

text \<open>
  C26: the goroutine of a download comes to an end: whatever else happens, it takes at most eight turns, none
  after it has returned, and until then there is always an event for which it waits and that may come without
  the peer, a timer, a failed call or the end of the stream.
\<close>

theorem download_comes_to_an_end:
  assumes "r < length (ds_heap ds)"
  shows "turns u digest dir r as ds \<le> 8
    \<and> (lt_point (ds_heap ds ! r) = HasReturned \<longrightarrow> turns u digest dir r as ds = 0)
    \<and> (lt_point (ds_heap ds ! r) = HasReturned
       \<or> (\<exists>ev. ev \<notin> {EvRequest, EvFailure, EvConn} \<and> ready ev (ds_heap ds ! r) \<and> waits_for (lt_point (ds_heap ds ! r)) ev))"
  using turns_bounded [OF assms, of u digest dir as] distance_le [of "lt_point (ds_heap ds ! r)"]
    never_stuck [of "ds_heap ds ! r"] by auto

theorem download_comes_to_an_end_witness:
  "turns ascii id ''/d'' 0 [AskCancel 0, CallRun 0 EvConn, CallRun 0 EvStopAwaiting] demo_downloads \<le> 8"
proof -
  have "0 < length (ds_heap demo_downloads)" by code_simp
  from download_comes_to_an_end [OF this] show ?thesis by blast
qed

text \<open>One attempt after another, each with its own faults and its own upload at the other end.\<close>

definition retried :: "u8 list \<Rightarrow> (u8 list \<Rightarrow> u8 list list) \<Rightarrow> (faults \<times> (nat \<Rightarrow> upload_peer)) list \<Rightarrow> disk \<Rightarrow> disk" where
  "retried shared reads tries dk =
     foldl (\<lambda>dk (fa, pe). at_disk (streamFile fa (int (length shared)) (slusk_serves shared pe reads) dk)) dk tries"

lemma retried_good:
  assumes "length shared < 2 ^ 64" and reads: "\<And>bs. concat (reads bs) = bs" and "try_good shared old dk"
  shows "try_good shared old (retried shared reads tries dk)"
  using assms(3)
proof (induction tries arbitrary: dk)
  case (Cons t tries)
  obtain fa pe where t: "t = (fa, pe)" by (rule prod.exhaust)
  let ?dk = "at_disk (streamFile fa (int (length shared)) (slusk_serves shared pe reads) dk)"
  have "try_good shared old ?dk"
    using resuming.good_step [OF Cons.prems, of "(fa, slusk_serves shared pe reads)"] slusk_is_honest [OF assms(1,2)]
    by (simp add: try_step_def Let_def)
  from Cons.IH [OF this] show ?case by (simp add: retried_def t)
qed (simp add: retried_def)

definition steady_peer :: upload_peer where
  "steady_peer = \<lparr>pe_init = True, pe_offset = None, pe_seek = True, pe_taken = None, pe_close = PeerClosed\<rparr>"

text \<open>
  C27: a download from another slusk is exact. However often it is cut short, by a fault of the disk or
  because the upload at the other end breaks off, and wherever the network cuts the stream into reads, the
  \<open>.part\<close> file holds a beginning of the shared file and the destination is untouched or holds all of it; and
  the next attempt that meets no fault, from an upload that is not cut, leaves the shared file at the
  destination and no \<open>.part\<close> file.
\<close>

theorem resumed_download_is_exact:
  assumes "length shared < 2 ^ 63" and reads: "\<forall>bs. concat (reads bs) = bs"
    and start: "dk = retried shared reads tries \<lparr>dk_part = None, dk_dest = old\<rparr>"
  shows "(\<forall>p. dk_part dk = Some p \<longrightarrow> prefix p shared) \<and> dk_dest dk \<in> {old, Some shared}
    \<and> at_error (streamFile no_faults (int (length shared)) (slusk_serves shared (\<lambda>_. steady_peer) reads) dk) = None
    \<and> at_disk (streamFile no_faults (int (length shared)) (slusk_serves shared (\<lambda>_. steady_peer) reads) dk)
        = \<lparr>dk_part = None, dk_dest = Some shared\<rparr>"
proof -
  have len: "length shared < 2 ^ 64" using assms(1) by simp
  have "try_good shared old \<lparr>dk_part = None, dk_dest = old\<rparr>" by (simp add: try_good_def partial_of_def)
  then have good: "try_good shared old dk" unfolding start using retried_good [OF len] reads by blast
  have honest: "honest shared (slusk_serves shared (\<lambda>_. steady_peer) reads)" using slusk_is_honest [OF len] reads by blast
  have all: "\<forall>k \<le> length shared. length shared - k \<le> length (concat (slusk_serves shared (\<lambda>_. steady_peer) reads k))"
    using steady_serves [OF len] reads by (simp add: steady_peer_def)
  have part: "partial_of shared dk" using good by (simp add: try_good_def)
  have error: "at_error (streamFile no_faults (int (length shared)) (slusk_serves shared (\<lambda>_. steady_peer) reads) dk) = None"
    using attempt_keeps [OF part honest refl, of no_faults] all by blast
  moreover have "at_disk (streamFile no_faults (int (length shared)) (slusk_serves shared (\<lambda>_. steady_peer) reads) dk)
      = \<lparr>dk_part = None, dk_dest = Some shared\<rparr>"
    using attempt_keeps [OF part honest refl, of no_faults] error by blast
  ultimately show ?thesis using part good unfolding partial_of_def try_good_def by blast
qed

theorem resumed_download_is_exact_witness:
  "at_disk (streamFile no_faults 3 (slusk_serves [7, 8, 9] (\<lambda>_. steady_peer) (map (\<lambda>b. [b])))
     (retried [7, 8, 9] (map (\<lambda>b. [b])) [(no_faults\<lparr>fa_room := Some 2\<rparr>, \<lambda>_. steady_peer)] \<lparr>dk_part = None, dk_dest = None\<rparr>))
   = \<lparr>dk_part = None, dk_dest = Some [7, 8, 9 :: u8]\<rparr>"
proof -
  have "concat (map (\<lambda>b. [b]) bs) = bs" for bs :: "u8 list" by (induction bs) simp_all
  from resumed_download_is_exact [OF _ allI [OF this] refl, of "[7, 8, 9]"] show ?thesis by simp
qed

text \<open>
  C28: the record of an upload is true: the bytes it counts are the bytes that went out, a rejected upload sent
  none, and a completed one sent the file from the offset the peer asked for to its end.
\<close>

theorem upload_record_is_true:
  assumes "\<forall>f. files (snd key) = Some f \<and> openIndexedFile f (ua_opened ua) \<longrightarrow> length (ua_content ua) = unat (file_Size (ix_wire f))"
    and "runUpload files key jobSize ua = (messages, body, r)"
  shows "ul_BytesSent r = word_of_nat (length body) \<and> (ul_Status r = OutcomeRejected \<longrightarrow> body = [])
    \<and> (ul_Status r = OutcomeCompleted \<longrightarrow> (\<exists>offset. pe_offset (ua_peer ua) = Some offset \<and> body = drop (unat offset) (ua_content ua)))"
  using record_truth [OF _ assms(2)] assms(1) by blast

definition demo_file :: indexedFile where
  "demo_file = \<lparr>ix_virtual = ''m'' @ CHR 0x5C # ''a'', ix_virtualLower = ''m'' @ CHR 0x5C # ''a'', ix_local = ''/m/a'', ix_root = ''/m'',
     ix_wire = \<lparr>file_Name = ''m'' @ CHR 0x5C # ''a'', file_Size = 3, file_Extension = [], file_Attributes = []\<rparr>, ix_modTime = 0, ix_info = Some 1\<rparr>"

definition demo_answers :: upload_answers where
  "demo_answers = (let info = \<lparr>fi_regular = True, fi_size = 3, fi_modTime = 0, fi_ident = 1\<rparr>
     in \<lparr>ua_opened = \<lparr>op_resolved = Inr ''/m/a'', op_before = Some info, op_opened = Some info, op_resolvedAfter = Inr ''/m/a'', op_after = Some info\<rparr>,
        ua_content = [7, 8, 9], ua_session = True, ua_denySession = True, ua_token = 1, ua_requestSent = True,
        ua_negotiation = PeerAnswered \<lparr>ts_Token = 1, ts_Allowed = True, ts_Reason = None\<rparr>, ua_conn = True,
        ua_peer = steady_peer\<lparr>pe_offset := Some 1\<rparr>, ua_duration = 1000000000\<rparr>)"

theorem upload_record_is_true_witness:
  "ul_BytesSent (snd (snd (runUpload [''f'' \<mapsto> demo_file] (''u'', ''f'') 0 demo_answers)))
     = word_of_nat (length (fst (snd (runUpload [''f'' \<mapsto> demo_file] (''u'', ''f'') 0 demo_answers))))"
proof -
  obtain ms body r where run: "runUpload [''f'' \<mapsto> demo_file] (''u'', ''f'') 0 demo_answers = (ms, body, r)" by (rule prod_cases3)
  have "length (ua_content demo_answers) = unat (file_Size (ix_wire demo_file))" by (simp add: demo_answers_def demo_file_def Let_def)
  then show ?thesis using upload_record_is_true [OF _ run] run by simp
qed


text \<open>
  C29: in every state of the upload queue the waiting list is the registered jobs that are not active, in the
  order in which they came; the count of active uploads is right and within the slots; at most 1024 jobs wait,
  and no user has more than 64 registered, counted correctly.
\<close>

theorem upload_queue_is_consistent:
  assumes "uploading.reached shared (newUploadManager slots) m"
  shows "um_Waiting m = map uj_Seq (filter (\<lambda>j. \<not> uj_Active j) (registered m)) \<and> sorted_wrt (<) (um_Waiting m)
    \<and> um_Active m = int (length (filter uj_Active (um_Jobs m))) \<and> um_Active m \<le> max 0 (um_Slots m)
    \<and> length (um_Waiting m) \<le> maxWaitingUploads
    \<and> user_count u m = int (length (filter (of_user u) (registered m))) \<and> user_count u m \<le> int maxWaitingUploadsPerUser"
proof -
  have ok: "um_ok m" by (rule uploading.reached_good [OF assms um_ok_new])
  have "sorted_wrt (<) (map uj_Seq (um_Jobs m))" unfolding um_okD(1) [OF ok] by (simp add: sorted_wrt_map)
  then have "sorted_wrt (<) (um_Waiting m)"
    unfolding um_okD(3) [OF ok] registered_def by (simp add: sorted_wrt_map sorted_wrt_filter)
  then show ?thesis using um_okD [OF ok] user_count_registered [OF ok] by simp
qed

text \<open>Two users queue a file each, and one upload starts.\<close>

definition demo_queue :: uploadManager where
  "demo_queue = foldl (\<lambda>m a. fst (upload_step (\<lambda>_. True) a m)) (newUploadManager 1)
     [QueueUp ''a'' ''f'', QueueUp ''b'' ''g'', QueueUp ''c'' ''h'']"


lemma demo_queue_reached: "uploading.reached (\<lambda>_. True) (newUploadManager 1) demo_queue"
  unfolding demo_queue_def foldl.simps by (intro uploading.step uploading.start) (simp_all add: upload_allowed_def)


theorem upload_queue_is_consistent_witness: "um_Active demo_queue \<le> max 0 (um_Slots demo_queue) \<and> user_count ''a'' demo_queue \<le> 64"
  using upload_queue_is_consistent [OF demo_queue_reached, of "''a''"] by (simp add: maxWaitingUploadsPerUser_def)



text \<open>
  C31: a file name of a peer that passes the check of the download directory leads to a place below it, without
  any element that leads up or nowhere; and unless that place is the download directory itself, the
  \<open>.part\<close> file lies beside it.
\<close>

theorem download_path_stays_inside:
  assumes "absolute home" and "safeDownloadDest home f = Inr dest"
  shows "\<exists>rest. abs_elements dest = abs_elements home @ rest \<and> cleaned rest
    \<and> (rest \<noteq> [] \<longrightarrow> abs_elements (dest @ ''.part'') = abs_elements home @ butlast rest @ [last rest @ ''.part''])"
  by (rule safe_dest [OF assms])

theorem download_path_stays_inside_witness:
  "\<exists>rest. abs_elements ''/d/m/a'' = abs_elements ''/d'' @ rest \<and> cleaned rest"
proof -
  have "absolute ''/d''" "safeDownloadDest ''/d'' (''x'' @ CHR 0x5C # ''m'' @ CHR 0x5C # ''a'') = Inr ''/d/m/a''" by code_simp+
  from download_path_stays_inside [OF this] show ?thesis by blast
qed

text \<open>
  C32: the throughput meter holds exactly the history it was fed: the series are the newest 48 samples in
  order, and the minutes handed to the recorder are the newest ten of the maximal runs of samples of one
  minute that were not idle, with the average, the peak and the count of each.
\<close>

theorem throughput_meter_keeps_history:
  "Samples (fed xs) = \<lparr>tr_Download = map (fst \<circ> pair_of) (newest throughputWindow xs),
     tr_Upload = map (snd \<circ> pair_of) (newest throughputWindow xs)\<rparr>
   \<and> snd (TakeThroughputMinutes p (fed xs)) = newest throughputPendingCap (minute_rows
        ((if p then id else butlast) (minute_runs (map (fst \<circ> pair_of) xs))))"
  using fed_samples fed_minutes by blast


section \<open>Sharing\<close>

text \<open>
  C33: building the trigram index fails only when there are more files than a 32-bit position can name, or
  when its context is done, so neither a counter nor an index into the array of postings overflows; when it
  succeeds, the postings of every trigram are the positions of the files that have it, in order.
\<close>

theorem index_build_outcome:
  assumes "visits_each visit"
  shows "case buildShareTrigramIndex visit ctx search of
      Inl e \<Rightarrow> e = TooManyFiles \<and> 0xFFFFFFFF < length search \<or> e = BuildCancelled \<and> (\<exists>p. ctx p)
    | Inr index \<Rightarrow> length search \<le> 0xFFFFFFFF \<and> (\<forall>g. postings index g
        = map word_of_nat (positions (map ix_virtualLower search) g (length search)))"
  by (rule build_spec [OF assms])

lemma id_visits: "visits_each id"
  by (simp add: visits_each_def)

definition demo_index :: trigrams where
  "demo_index = [(0x6D5C61, [0])]"

lemma demo_index_built: "buildShareTrigramIndex id (\<lambda>_. False) [demo_file] = Inr demo_index"
proof -
  have "grams (''m'' @ CHR 0x5C # ''a'') = [0x6D5C61]" by code_simp
  then show ?thesis
    by (simp add: buildShareTrigramIndex_def demo_file_def demo_index_def count_gram_def fill_gram_def state_of_def Let_def)
qed

theorem index_build_outcome_witness:
  "postings demo_index 0x6D5C61 = map word_of_nat (positions [''m'' @ CHR 0x5C # ''a''] 0x6D5C61 1)"
  using index_build_outcome [OF id_visits, where search = "[demo_file]" and ctx = "\<lambda>_. False"] unfolding demo_index_built
  by (simp add: demo_file_def)

text \<open>
  C34: a search through the index finds what looking at every file finds, in the same order and cut at the
  same limit, however the trigrams of the map are visited and the postings of equal length are sorted.
\<close>

theorem index_search_is_linear_search:
  assumes "visits_each visit" and "\<forall>ps. mset (srt ps) = mset ps" and "buildShareTrigramIndex visit ctx search = Inr index"
  shows "share_match u srt search index query limit phrases = linear_match u search query limit phrases"
proof -
  have "indexes index search" using build_spec [OF assms(1), of search ctx] assms(3) by (simp add: indexes_def)
  then show ?thesis using share_match_linear assms(2) by blast
qed

theorem index_search_is_linear_search_witness:
  "share_match ascii id [demo_file] demo_index ''M'' 9 None = linear_match ascii [demo_file] ''M'' 9 None"
  using index_search_is_linear_search [OF id_visits _ demo_index_built] by simp

text \<open>Sorting by insertion, and a share of one folder with one file.\<close>

fun put_by :: "('a \<Rightarrow> string) \<Rightarrow> 'a \<Rightarrow> 'a list \<Rightarrow> 'a list" where
  "put_by key x [] = [x]"
| "put_by key x (y # ys) = (if string_less (key y) (key x) then y # put_by key x ys else x # y # ys)"

definition by_key :: "('a \<Rightarrow> string) \<Rightarrow> 'a list \<Rightarrow> 'a list" where
  "by_key key xs = foldr (put_by key) xs []"

lemma set_put_by: "set (put_by key x ys) = insert x (set ys)"
  by (induction ys) auto

lemma put_by_mset: "mset (put_by key x ys) = mset (x # ys)"
  by (induction ys) auto

lemma put_by_ascending: "ascending key ys \<Longrightarrow> ascending key (put_by key x ys)"
proof (induction ys)
  case (Cons y ys)
  then have ih: "ascending key (put_by key x ys)" and y: "\<forall>z \<in> set ys. \<not> string_less (key z) (key y)"
    by (simp_all add: ascending_def)
  show ?case
  proof (cases "string_less (key y) (key x)")
    case True
    then show ?thesis using ih y string_less_asym [OF True] by (simp add: ascending_def set_put_by)
  next
    case False
    then have "\<not> string_less (key z) (key x)" if "z \<in> set ys" for z
      using y that string_not_less_trans [of "key z" "key y" "key x"] by blast
    then show ?thesis using Cons.prems False by (simp add: ascending_def)
  qed
qed (simp add: ascending_def)

lemma by_key_sorted: "mset (by_key key xs) = mset xs" "ascending key (by_key key xs)"
  by (induction xs) (simp_all add: by_key_def put_by_mset put_by_ascending ascending_def [where xs = "[]"])
definition demo_sorts :: sorts where
  "demo_sorts = \<lparr>so_files = by_key (\<lambda>f. ToLower ascii (file_Name f)), so_directories = by_key (\<lambda>d. ToLower ascii (dir_Name d)),
     so_search = by_key ix_virtualLower, so_visit = id\<rparr>"

lemma demo_sorting: "sorting ascii demo_sorts"
  using id_visits by (simp add: sorting_def demo_sorts_def by_key_sorted)

definition demo_views :: "(SharedFolder \<times> share_view) list" where
  "demo_views = (let info = \<lparr>fi_regular = True, fi_size = 3, fi_modTime = 0, fi_ident = 1\<rparr>
     in [(\<lparr>shf_Name = ''m'', shf_Path = ''/m''\<rparr>, \<lparr>sv_stopped = False, sv_resolved = Some ''/m'', sv_isDir = Some True, sv_failure = None,
          sv_nodes = [ScanFile ''a'' \<lparr>lk_info = Inr info, lk_resolved = Inr ''/m/a'', lk_stat = Some info, lk_seconds = None,
            lk_resolvedAfter = Inr ''/m/a'', lk_statAfter = Some info\<rparr>]\<rparr>)])"

definition no_tables :: share_tables where
  "no_tables = \<lparr>tb_scan = None, tb_directories = [], tb_files = [], tb_meta = []\<rparr>"

definition demo_directories :: "Directory list" where
  "demo_directories = [\<lparr>dir_Name = ''m'', dir_Files = [\<lparr>file_Name = ''a'', file_Size = 3, file_Extension = [], file_Attributes = []\<rparr>]\<rparr>]"

definition demo_total :: scan_total where
  "demo_total = \<lparr>sc_found = \<lparr>ga_files = [(ix_virtual demo_file, demo_file)], ga_search = [demo_file],
       ga_directories = [(''m'', hd demo_directories)]\<rparr>,
     sc_folders = [\<lparr>sfs_Name = ''m'', sfs_Path = ''/m'', sfs_Directories = 1, sfs_Files = 1, sfs_TotalBytes = 3\<rparr>],
     sc_observed = [], sc_pending = []\<rparr>"

lemma demo_names:
  "TrimSpace ''m'' = ''m''" "TrimSpace ''/m'' = ''/m''" "ToLower ascii ''m'' = ''m''" "Clean ''/m'' = ''/m''" "Clean ''/m/a'' = ''/m/a''"
  "absolute ''/m''" "virtual_of ''m'' ''/m'' ''/m'' = Some ''m''" "virtual_of ''m'' ''/m'' ''/m/a'' = Some (''m'' @ CHR 0x5C # ''a'')"
  "pathWithinRoot ''/m'' ''/m/a''" "audioFormatOf ascii ''/m/a'' = []" "extensionOf ascii ''a'' = []" "Base ''/m/a'' = ''a''"
  "Join_path [''/m'', ''a''] = ''/m/a''" "ToLower ascii (''m'' @ CHR 0x5C # ''a'') = ''m'' @ CHR 0x5C # ''a''"
  "virtualDirectory (''m'' @ CHR 0x5C # ''a'') = ''m''"
proof -
  have "glyphs ''m'' = [(109, ''m'')]" "glyphs ''/m'' = [(47, ''/''), (109, ''m'')]" by code_simp+
  then show "TrimSpace ''m'' = ''m''" "TrimSpace ''/m'' = ''/m''"
    by (simp_all add: TrimSpace_def trim_glyphs_def IsSpace_def text_of_def)
qed code_simp+

lemma demo_walk:
  "scan_folders ascii (\<lambda>_. False) [] [] [] demo_views
     \<lparr>sc_found = no_gathered, sc_folders = [], sc_observed = [], sc_pending = []\<rparr> = Inr demo_total"
  using demo_names
  by (simp add: demo_views_def demo_total_def demo_directories_def demo_file_def valid_share_name_def scan_folder_def scan_tree_def
      enter_folder_def visit_file_def same_file_def attributes_of_def index_file_def found_file_def add_indexed_def add_file_def
      in_directory_def ensure_directory_def fresh_folder_def no_gathered_def Let_def)
definition demo_shares :: SharedFileListResponse where
  "demo_shares = \<lparr>sf_Directories = demo_directories, sf_PrivateDirectories = []\<rparr>"

lemma demo_shares_fit:
  "SharedFileListResponse_ok demo_shares" "4 + length (stored (SharedFileListResponse_payload demo_shares)) \<le> MaxOrdinaryFrameSize"
proof -
  have small: "length (SharedFileListResponse_payload demo_shares) = 43" by code_simp
  then show "SharedFileListResponse_ok demo_shares"
    by (simp add: SharedFileListResponse_ok_def demo_shares_def demo_directories_def directory_ok_def directory_named_def
        file_ok_def name_ok_def file_total_def maxSharedFileListDecompressedSize_def)
  show "4 + length (stored (SharedFileListResponse_payload demo_shares)) \<le> MaxOrdinaryFrameSize"
    using small by (simp add: stored_def MaxOrdinaryFrameSize_def)
qed

definition demo_frame :: "u8 list" where
  "demo_frame = projr (SharedFileListResponse_Serialize stored demo_shares)"

lemma demo_framed: "SharedFileListResponse_Serialize stored demo_shares = Inr demo_frame"
proof -
  have "rbind (SharedFileListResponse_Serialize stored demo_shares) (SharedFileListResponse_Deserialize stored_read) = Inr (demo_shares, [])"
    by (rule SharedFileListResponse_roundtrip [OF stored_law demo_shares_fit])
  then show ?thesis unfolding demo_frame_def by (cases "SharedFileListResponse_Serialize stored demo_shares") simp_all
qed

definition demo_snapshot :: shareSnapshot where
  "demo_snapshot = \<lparr>sn_stats = \<lparr>ss_Directories = 1, ss_Files = 1, ss_TotalBytes = 3, ss_IndexedAt = 5, ss_ScanDuration = 1\<rparr>,
     sn_folders = sc_folders demo_total, sn_files = [(ix_virtual demo_file, demo_file)], sn_search = [demo_file],
     sn_trigrams = demo_index, sn_directories = demo_directories, sn_sharedFrame = demo_frame\<rparr>"

lemma demo_published:
  "finish_snapshot ascii stored demo_sorts (\<lambda>_. False) 5 1 (sc_folders demo_total) (sc_found demo_total) = Inr demo_snapshot"
  using demo_framed demo_index_built
  by (simp add: demo_shares_def finish_snapshot_def demo_total_def demo_sorts_def demo_snapshot_def demo_directories_def by_key_def Let_def)

lemma demo_scanned:
  "scanShares ascii stored demo_sorts (\<lambda>_. False) (\<lambda>_. False) True (\<lambda>_. False) (\<lambda>_. False) demo_views 5 1 no_tables
     = (no_tables, Inr demo_snapshot)"
  using demo_walk demo_published
  by (simp add: scanShares_def loadShareMetaCache_def no_tables_def flushShareMetaCache_def SaveShareMeta_def stale_paths_def
      UpsertShareFileMetadata_def dedupe_meta_def batches.simps demo_total_def Let_def)

lemma demo_views_proper: "\<forall>v \<in> set demo_views. proper_view (snd v)"
  by (simp add: demo_views_def proper_view_def absolute_def cleaned_def HasPrefix_def Let_def)

text \<open>
  C35: what a search is answered with is what the last scan published. Every answer names a file that lies in
  one of the shared folders, was seen there by the scan, and has every word of the query and none of the
  excluded ones; there are between one and 500 of them; nobody is answered by himself; and the slots and the
  reservation that the answer took are given back.
\<close>

theorem search_answers_are_published:
  assumes "sorting u so" and "\<forall>v \<in> set views. proper_view (snd v)" and "\<forall>ps. mset (srt ps) = mset ps"
    and "scanShares u deflate so ctx stopped readable upsertFails deleteFails views indexedAt scanDuration t = (t', Inr sn)"
    and "distinct (dl_inFlight (po_deliveries po))"
    and "respondToSearch u srt deflate su sn phrases me username token query po = (po', Some m)"
  shows "fs_Token m = token \<and> username \<noteq> me \<and> 0 < length (fs_Results m) \<and> length (fs_Results m) \<le> 500
    \<and> (\<forall>x \<in> set (fs_Results m). \<exists>f \<in> set (sn_search sn). ix_wire f = x \<and> (\<exists>v \<in> set views. published u v f)
          \<and> matchesShareSearch f (fst (parseShareSearchQuery u query)) (snd (parseShareSearchQuery u query))
          \<and> \<not> pathExcluded (ix_virtualLower f) (loweredExcludedPhrases u phrases))
    \<and> po_match po' = po_match po \<and> po_deliver po' = po_deliver po
    \<and> dl_inFlight (po_deliveries po') = dl_inFlight (po_deliveries po)"
proof -
  obtain dirs files where o: "offers u deflate (map fst views) dirs files sn" "\<forall>f \<in> set files. \<exists>v \<in> set views. published u v f"
    using scan_offers [OF assms(1,2,4)] by blast
  then have all: "set (sn_search sn) = set files" and ix: "indexes (sn_trigrams sn) (sn_search sn)"
    unfolding offers_def by (metis set_mset_mset, blast)
  have srt: "mset (srt ps) = mset ps" for ps using assms(3) by blast
  note answer = search_answer [OF ix srt assms(6)]
  have "\<exists>f \<in> set (sn_search sn). ix_wire f = x \<and> (\<exists>v \<in> set views. published u v f)
      \<and> matchesShareSearch f (fst (parseShareSearchQuery u query)) (snd (parseShareSearchQuery u query))
      \<and> \<not> pathExcluded (ix_virtualLower f) (loweredExcludedPhrases u phrases)" if "x \<in> set (fs_Results m)" for x
    using that answer o(2) all unfolding linear_match_def
    by (force split: prod.splits if_splits dest!: in_set_takeD)
  then show ?thesis using answer search_gives_back [OF assms(6,5)] by blast
qed

definition demo_su :: search_surroundings where
  "demo_su = \<lparr>su_stopping = False, su_started = True, su_reserved_at = 5, su_victim = 0, su_session = True,
     su_availability = (True, 0), su_sent = True, su_finished_at = 6\<rparr>"

definition demo_pools :: share_pools where
  "demo_pools = \<lparr>po_match = 0, po_deliver = 0, po_deliveries = \<lparr>dl_delivered = [], dl_inFlight = []\<rparr>\<rparr>"

definition demo_response :: FileSearchResponse where
  "demo_response = search_response ''me'' 4 [ix_wire demo_file] (True, 0)"

lemma demo_response_ok: "FileSearchResponse_ok demo_response"
proof -
  have "length (FileSearchResponse_payload demo_response) = 55" by code_simp
  then show ?thesis
    by (simp add: FileSearchResponse_ok_def demo_response_def search_response_def demo_file_def search_files_ok_def file_ok_def
        name_ok_def u32_range_def maxFileSearchResponseDecompressedSize_def)
qed

lemma demo_query: "parseShareSearchQuery ascii ''m'' = ([''m''], [])"
proof -
  have "glyphs ''m'' = [(109, ''m'')]" "ToLower ascii (replace_byte (CHR ''/'') [CHR 0x5C] ''m'') = ''m''" by code_simp+
  then show ?thesis
    by (simp add: parseShareSearchQuery_def Fields_def FieldsFunc_def IsSpace_def query_term_def HasPrefix_def text_of_def)
qed

lemma demo_answered:
  "\<exists>po'. respondToSearch ascii id stored demo_su demo_snapshot None ''me'' ''you'' 4 ''m'' demo_pools = (po', Some demo_response)"
proof -
  have "indexes demo_index [demo_file]"
    using build_spec [OF id_visits, where search = "[demo_file]" and ctx = "\<lambda>_. False"] demo_index_built by (simp add: indexes_def)
  then have "share_match ascii id [demo_file] demo_index ''m'' 500 None = linear_match ascii [demo_file] ''m'' 500 None"
    by (rule share_match_linear) simp
  also have "linear_match ascii [demo_file] ''m'' 500 None = [ix_wire demo_file]"
    using demo_query by (simp add: linear_match_def loweredExcludedPhrases_def pathExcluded_def matchesShareSearch_def demo_file_def Contains.simps HasPrefix_def)
  finally have found: "share_match ascii id [demo_file] demo_index ''m'' 500 None = [ix_wire demo_file]" .
  have "rbind (FileSearchResponse_Serialize stored demo_response) (FileSearchResponse_Deserialize stored_read) = Inr (demo_response, [])"
    by (rule FileSearchResponse_roundtrip [OF stored_law demo_response_ok])
  then obtain frame where "FileSearchResponse_Serialize stored demo_response = Inr frame"
    by (cases "FileSearchResponse_Serialize stored demo_response") simp_all
  then show ?thesis using found
    by (simp add: respondToSearch_def demo_su_def demo_pools_def demo_snapshot_def maxSharedSearchResults_def maxShareWorkers_def
        reserveSearchDelivery_def dl_count_def maxDeliveries_def deliver_results_def maxDeliverWorkers_def demo_response_def Let_def)
qed

theorem search_answers_are_published_witness:
  "\<exists>f \<in> set (sn_search demo_snapshot). ix_wire f = hd (fs_Results demo_response) \<and> (\<exists>v \<in> set demo_views. published ascii v f)"
proof -
  obtain po' where run: "respondToSearch ascii id stored demo_su demo_snapshot None ''me'' ''you'' 4 ''m'' demo_pools = (po', Some demo_response)"
    using demo_answered by blast
  have perm: "\<forall>ps. mset (id ps) = mset (ps :: u32 list list)" and free: "distinct (dl_inFlight (po_deliveries demo_pools))"
    by (simp_all add: demo_pools_def)
  note answer = search_answers_are_published [OF demo_sorting demo_views_proper perm demo_scanned free run]
  then have "hd (fs_Results demo_response) \<in> set (fs_Results demo_response)" by simp
  then show ?thesis using answer by blast
qed

text \<open>
  C36: a request for the contents of a shared folder is answered with exactly the shared directories at and
  below it, although only the range that two binary searches find is looked at, and although the directories
  are sorted by their lowered names.
\<close>

theorem folder_contents_are_complete:
  assumes "u_ToLower u 92 = 92" and "sorting u so" and "\<forall>v \<in> set views. proper_view (snd v)"
    and "scanShares u deflate so ctx stopped readable upsertFails deleteFails views indexedAt scanDuration t = (t', Inr sn)"
    and "normalizeVirtualPath requested = Some normalized"
  shows "folderResponse u (sn_directories sn) token requested
    = \<lparr>fc_Token = token, fc_Folder = requested, fc_Folders = filter (in_folder normalized) (sn_directories sn)\<rparr>"
proof -
  have "ascending (\<lambda>d. ToLower u (dir_Name d)) (sn_directories sn)"
    using scan_offers [OF assms(2-4)] unfolding offers_def by blast
  from folder_complete [OF assms(1) this assms(5)] show ?thesis by (simp add: folderResponse_def)
qed

theorem folder_contents_are_complete_witness:
  "folderResponse ascii (sn_directories demo_snapshot) 4 ''m''
     = \<lparr>fc_Token = 4, fc_Folder = ''m'', fc_Folders = filter (in_folder ''m'') (sn_directories demo_snapshot)\<rparr>"
proof -
  have "normalizeVirtualPath ''m'' = Some ''m''" "u_ToLower ascii 92 = 92" by code_simp+
  then show ?thesis by (rule folder_contents_are_complete [OF _ demo_sorting demo_views_proper demo_scanned, rotated])
qed

text \<open>
  C37: what a scan published comes back after a restart: when the index of the scan was saved, loading it with
  the same configuration succeeds, whatever the order in which the database gives its rows, and the snapshot
  that is rebuilt from it offers the same directories and the same files, with the times cut to microseconds.
\<close>

theorem share_index_survives_restart:
  assumes "sorting u so" and "\<forall>v \<in> set views. proper_view (snd v)"
    and "\<forall>v \<in> set views. ValidString (shf_Name (fst v)) \<and> ValidString (shf_Path (fst v))"
    and "scanShares u deflate so ctx stopped readable upsertFails deleteFails views indexedAt scanDuration t = (t1, Inr sn)"
    and "ReplaceShareIndex fails (saved_index (map fst views) sn) t1 = (t2, None)"
    and "\<forall>ds. mset (anyDirs ds) = mset ds" and "\<forall>es. mset (anyFiles es) = mset es"
  shows "\<exists>dirs files index. offers u deflate (map fst views) dirs files sn
    \<and> loadShareIndex (map fst views) (Inr (read_share_index anyDirs anyFiles t2)) = Inr index
    \<and> (\<forall>ctx sn'. rebuildShareSnapshot u deflate so ctx index = Inr sn'
         \<longrightarrow> offers u deflate (map fst views) dirs (map restored files) sn')"
  using scan_restart [OF assms(1-5)] assms(6,7) by blast

lemma ascii_valid: "list_all (\<lambda>c. byte_code c < 0x80) s \<Longrightarrow> ValidString s"
proof (induction s)
  case (Cons c s)
  then show ?case using glyphs_ascii [of c "[]" s] by (simp add: ValidString_def RuneError_def)
qed (simp add: ValidString_def)

definition demo_saved :: share_tables where
  "demo_saved = fst (ReplaceShareIndex (\<lambda>_. False) (saved_index (map fst demo_views) demo_snapshot) no_tables)"

lemma demo_replaced:
  "ReplaceShareIndex (\<lambda>_. False) (saved_index (map fst demo_views) demo_snapshot) no_tables = (demo_saved, None)"
proof -
  have "ValidString ''m''" "ValidString ''/m''" "ValidString ''/m/a''" "ValidString (''m'' @ CHR 0x5C # ''a'')"
    by (rule ascii_valid, code_simp)+
  then have "snd (ReplaceShareIndex (\<lambda>_. False) (saved_index (map fst demo_views) demo_snapshot) no_tables) = None"
    by (simp add: ReplaceShareIndex_def saved_index_def demo_snapshot_def index_entry_of_def demo_file_def demo_directories_def
        attributeValues_def validShareIndexPath_def maxShareIndexPathBytes_def batches.simps shareIndexBatch_def Let_def)
  then show ?thesis by (simp add: demo_saved_def prod_eq_iff)
qed

theorem share_index_survives_restart_witness:
  "\<exists>index. loadShareIndex (map fst demo_views) (Inr (read_share_index id id demo_saved)) = Inr index"
proof -
  have "ValidString ''m''" "ValidString ''/m''" by (rule ascii_valid, code_simp)+
  then have "\<forall>v \<in> set demo_views. ValidString (shf_Name (fst v)) \<and> ValidString (shf_Path (fst v))"
    by (simp add: demo_views_def Let_def)
  from share_index_survives_restart [OF demo_sorting demo_views_proper this demo_scanned demo_replaced, of id id]
  show ?thesis by auto
qed

section \<open>Properties of the protocol\<close>

text \<open>
  C38: what one side writes as a frame the other reads back as the same bytes, size and code, plain
  or obfuscated with any key, whatever follows in the stream.
\<close>

theorem frame_round_trip:
  assumes "length key = 4" and "body_ok k obfuscated maxSize data"
    and "MessageWrite key (Pack data) obfuscated = Inr out"
  shows "MessageReadLimited k obfuscated maxSize (out @ rest)
       = Inr ((Pack data, word_of_nat (length data), frame_code k data), rest)"
  by (rule MessageReadLimited_MessageWrite [OF assms])

theorem frame_round_trip_witness:
  "\<exists>out. MessageWrite [1, 2, 3, 4] (Pack [9, 0, 0, 0, 7]) True = Inr out
     \<and> MessageReadLimited CodePeer True 100 (out @ [8])
         = Inr ((Pack [9, 0, 0, 0, 7], 5, frame_code CodePeer [9, 0, 0, 0, 7]), [8])"
proof -
  obtain out where "MessageWrite [1, 2, 3, 4] (Pack [9, 0, 0, 0, 7]) True = Inr out"
    by (simp add: MessageWrite_def obfuscate_crypt)
  with frame_round_trip [of "[1, 2, 3, 4]" CodePeer True 100 "[9, 0, 0, 0, 7]" out "[8]"] show ?thesis
    by (simp add: body_ok_def)
qed

text \<open>
  Two serialized connection openings that are equal on the wire are the same message, and each
  arrives as itself over a plain or obfuscated connection.
\<close>

lemma peer_init_received:
  assumes "PeerInit_ok m" and "length key = 4" and "length (PeerInit_body m) \<le> unat maxSize"
  shows "(\<exists>out. rbind (PeerInit_Serialize m) (\<lambda>frame. MessageWrite key frame obfuscated) = Inr out
      \<and> receive CodePeerInit obfuscated maxSize PeerInit_Deserialize (out @ rest) = Inr ((m, 1), rest))
    \<and> (PeerInit_ok m' \<and> PeerInit_Serialize m = PeerInit_Serialize m' \<longrightarrow> m = m')"
proof -
  have "4 \<le> length (PeerInit_body m)"
    by (simp add: PeerInit_body_def WriteUint32_def put_u32_def WriteString_def WriteUint8_def)
  with peer_init.write_receive [OF assms(1,2,3), of obfuscated rest] peer_init.ser_injective [OF assms(1)]
  show ?thesis by blast
qed

text \<open>
  A search response is decompressed and decoded to the response that was serialized, for any
  compressor that satisfies the zlib law.
\<close>

lemma search_response_round_trip:
  assumes "zlib_law deflate inflate" and "FileSearchResponse_ok m"
  shows "rbind (FileSearchResponse_Serialize deflate m) (FileSearchResponse_Deserialize inflate) = Inr (m, [])"
  by (rule FileSearchResponse_roundtrip [OF assms])

text \<open>
  C39: a share list within the documented limits is accepted by the serializer and decoded to itself.
\<close>

theorem share_list_round_trip:
  assumes "zlib_law deflate inflate" and "SharedFileListResponse_ok m"
    and "4 + length (deflate (SharedFileListResponse_payload m)) \<le> MaxOrdinaryFrameSize"
  shows "rbind (SharedFileListResponse_Serialize deflate m)
      (SharedFileListResponse_Deserialize inflate) = Inr (m, [])"
  by (rule SharedFileListResponse_roundtrip [OF assms])

theorem share_list_round_trip_witness:
  "rbind (SharedFileListResponse_Serialize stored demo_shares) (SharedFileListResponse_Deserialize stored_read)
     = Inr (demo_shares, [])"
  by (rule share_list_round_trip [OF stored_law demo_shares_fit])

text \<open>
  A plain frame whose size field exceeds the limit is refused before any of its body is read,
  and a connection that ends right after a size field within the limit is a clean end of file.
\<close>

lemma frame_size_decides:
  "(sz > maxSize \<longrightarrow> MessageReadLimited k False maxSize (WriteUint32 sz @ rest) = Inl MessageTooLarge)
   \<and> (sz \<le> maxSize \<longrightarrow> MessageReadLimited k False maxSize (WriteUint32 sz) = Inl EOF)"
proof -
  have "ReadUint32 (WriteUint32 sz) = Inr (sz, [])" "ReadUint32 (WriteUint32 sz @ rest) = Inr (sz, rest)"
    by (simp_all add: codec_simps)
  moreover have "read_code k [] = Inl EOF"
    by (simp add: read_code_def rthen_def ReadUint8_def ReadUint32_def read_full_def)
  ultimately show ?thesis by (auto simp: MessageReadLimited_def read_plain_def rthen_def not_le)
qed

text \<open>
  \<open>RoomList.Deserialize\<close> appends the owned rooms three times and drops the rooms that are not
  owned and those that are operated.
\<close>

lemma room_list_repeats_owned_rooms:
  assumes "section_ok public" and "section_ok owned" and "section_ok notOwned" and "section_ok operated"
  shows "RoomList_Deserialize (Pack (WriteUint32 64 @ section_wire public @ section_wire owned
      @ section_wire notOwned @ section_wire operated))
    = Inr (section_rooms public_room public @ section_rooms owned_room owned
        @ section_rooms owned_room owned @ section_rooms owned_room owned, [])"
  by (rule RoomList_read [OF assms])

text \<open>
  A room in which the server announces more statuses than users makes \<open>JoinRoom.Deserialize\<close>
  index past the end of the user list.
\<close>

lemma join_room_index_panic:
  assumes "str_ok room" "strs_ok names" and "length names < length statuses" "length statuses < 2 ^ 32"
  shows "JoinRoom_Deserialize (Pack (WriteUint32 14 @ WriteString room @ column WriteString names
      @ column WriteUint32 statuses @ rest)) = Inl IndexOutOfRange"
  by (rule JoinRoom_panic [OF assms])

text \<open>
  \<open>SayChatroom.Serialize\<close> writes the user name where the protocol has the message, so the bytes
  do not depend on the message.
\<close>

lemma say_chatroom_drops_message:
  "SayChatroom_Serialize (m\<lparr>sc_Message := x\<rparr>) = SayChatroom_Serialize m"
  by (simp add: SayChatroom_Serialize_def)

section \<open>Ladders and divergences\<close>

text \<open>
  C40: both ladders. With the shipped bases and caps the delay before a retry is the base doubled once for
  each failure, and the cooldown of a rejected file the base doubled once for each failure after the first,
  both capped, at every counter however large: no wrapped product slips through. For any base the delay is
  neither negative nor above the cap. But the guard does not catch every wrapped product, as its comment says:
  for a base of \<open>2^32\<close> nanoseconds, any cap and any counter from 32 (for cooldowns 33) on, the delay is zero.
\<close>

theorem ladders_exact_and_wrap:
  assumes "1 \<le> r" and "0 \<le> sint cap"
  shows "sint (nextBackoff r (word_of_int defaultBackoffBase) (word_of_int defaultBackoffCap))
      = min defaultBackoffCap (defaultBackoffBase * 2 ^ nat (min r 32))
    \<and> sint (cooldownFor a (word_of_int candidateCooldownBase) (word_of_int candidateCooldownCap))
      = min candidateCooldownCap (candidateCooldownBase * 2 ^ nat (min (max (a - 1) 0) 32))
    \<and> sint (nextBackoff r base cap) \<in> {0..sint cap} \<and> sint (cooldownFor a base cap) \<in> {0..sint cap}
    \<and> nextBackoff (32 + int k) (2 ^ 32) cap = 0 \<and> cooldownFor (33 + int k) (2 ^ 32) cap = 0"
proof -
  have e: "nat (if r > maxExponent then maxExponent else r) = nat (min r 32)"
    "nat (let e = a - 1; e = (if e < 0 then 0 else e) in if e > maxExponent then maxExponent else e)
       = nat (min (max (a - 1) 0) 32)"
    by (auto simp: maxExponent_def min_def max_def Let_def)
  have "nextBackoff r x y = ladder x y (nat (min r 32))"
    and "cooldownFor a x y = ladder x y (nat (min (max (a - 1) 0) 32))" for x y
    using e by (simp_all add: nextBackoff_def cooldownFor_def Let_def)
  moreover have "nextBackoff (32 + int k) x y = ladder x y 32" and "cooldownFor (33 + int k) x y = ladder x y 32" for x y
    by (simp_all add: nextBackoff_def cooldownFor_def maxExponent_def Let_def)
  ultimately show ?thesis
    using default_ladders [of "nat (min r 32)"] default_ladders [of "nat (min (max (a - 1) 0) 32)"]
      ladder_bounds [OF assms(2), of base] ladder_wraps [of cap] assms by simp
qed

theorem ladders_exact_and_wrap_witness:
  "sint (nextBackoff 3 (word_of_int defaultBackoffBase) (word_of_int defaultBackoffCap)) = 8 * defaultBackoffBase
    \<and> sint (cooldownFor 5 (word_of_int candidateCooldownBase) (word_of_int candidateCooldownCap)) = candidateCooldownCap"
  using ladders_exact_and_wrap [where r = 3 and cap = 1 and a = 5]
  by (simp add: defaultBackoffBase_def defaultBackoffCap_def candidateCooldownBase_def candidateCooldownCap_def)

text \<open>
  A refused job that is searched again keeps its refusal reason although it is no longer refused.
\<close>

lemma refusal_reason_survives:
  assumes "base_ok s" and "j \<in> set (jobs s)" and "job_State j = ImportRefused"
  shows "\<exists>k \<in> set (jobs (fst (ForceSearchJob (job_ID j) now s))).
    job_ID k = job_ID j \<and> job_State k = Wanted \<and> job_RefusedReason k = job_RefusedReason j"
proof -
  have "row_count (\<lambda>k. job_is (job_ID j) k \<and> job_State k \<notin> {Downloading, Importing}) (jobs s) \<noteq> 0"
    using assms(2,3) by (auto simp: row_count_eq_0 job_is_def)
  then have "clean_slate Wanted now j \<in> set (jobs (fst (ForceSearchJob (job_ID j) now s)))"
    using assms(2,3) by (force simp: ForceSearchJob_def Let_def row_update_def job_is_def)
  then show ?thesis by (intro bexI [of _ "clean_slate Wanted now j"]) (simp_all add: clean_slate_def)
qed

text \<open>
  The jobs cancelled as no longer wanted include settled ones: a Lidarr job that is
  \<open>NOT_IMPORTED\<close> or \<open>IMPORT_REFUSED\<close>, which the pipeline counts as terminal, becomes cancelled when its
  album leaves the snapshot.
\<close>

lemma settled_jobs_are_cancelled:
  assumes "j \<in> set (jobs s)" and "job_State j \<in> {NotImported, ImportRefused}" and "job_Source j = SourceLidarr"
    and "job_Album j = Some a" and "a \<notin> set wantedIDs"
  shows "PipelineTerminal (job_State j)
    \<and> with_state Cancelled now j \<in> set (jobs (fst (CancelJobsNotWanted wantedIDs now s)))"
  using assms by (force simp: PipelineTerminal_def CancelJobsNotWanted_def not_wanted_def row_update_def)

definition settled_job :: album_job where
  "settled_job = (wanted_job demo_release 0 1)\<lparr>job_State := NotImported\<rparr>"

end
